(* ===== verification/Prelude.thy ===== *)
theory Prelude
  imports Complex_Main "HOL-Library.Word"
begin

text \<open>
  Shared vocabulary of the development: the machine types of the C++ sources, the ASCII and
  \<open>std::string\<close> helpers that several components call, the rounding functions of \<open>cmath\<close>, and
  the theorem collections the component theories extend.

  Conventions. A C++ \<open>double\<close> is a \<open>real\<close>: frequencies, offsets and widths are whole or half Hertz
  far below \<open>2 ^ 53\<close>, where \<open>double\<close> addition, subtraction, halving and comparison are exact.
  \<open>std::int64_t\<close> and \<open>int\<close> are \<open>int\<close> with the range stated where it matters; values whose
  wrap-around or bit pattern matters are \<open>'n word\<close>. \<open>std::string\<close> and \<open>std::string_view\<close> are
  \<open>string\<close>: one \<open>char\<close> of HOL is one byte. A pointer that may be null is an \<open>option\<close>.
\<close>

unbundle bit_operations_syntax

type_synonym u8 = "8 word"
type_synonym u16 = "16 word"
type_synonym u32 = "32 word"
type_synonym u64 = "64 word"

named_theorems store_laws \<open>lookup, insert and erase laws of the key/value stores\<close>
named_theorems inv_rules \<open>preservation of the component invariants\<close>
named_theorems step_simps \<open>equations of the operations of the state machines\<close>

section \<open>Characters\<close>

definition char_code :: "char \<Rightarrow> nat" where
  "char_code c = of_char c"

definition is_digit :: "char \<Rightarrow> bool" where
  "is_digit c \<longleftrightarrow> 48 \<le> char_code c \<and> char_code c \<le> 57"

definition is_upper :: "char \<Rightarrow> bool" where
  "is_upper c \<longleftrightarrow> 65 \<le> char_code c \<and> char_code c \<le> 90"

definition is_lower :: "char \<Rightarrow> bool" where
  "is_lower c \<longleftrightarrow> 97 \<le> char_code c \<and> char_code c \<le> 122"

definition to_lower :: "char \<Rightarrow> char" where
  "to_lower c = (if is_upper c then char_of (char_code c + 32) else c)"

definition to_upper :: "char \<Rightarrow> char" where
  "to_upper c = (if is_lower c then char_of (char_code c - 32) else c)"

definition digit_val :: "char \<Rightarrow> int" where
  "digit_val c = int (char_code c) - 48"

lemmas char_class_defs = char_code_def is_digit_def is_upper_def is_lower_def

lemma char_code_less_256 [simp]: "char_code c < 256"
  by (simp add: char_code_def)

lemma char_code_char_of [simp]: "n < 256 \<Longrightarrow> char_code (char_of n) = n"
  by (simp add: char_code_def)

lemma char_code_inj: "char_code c = char_code d \<longleftrightarrow> c = d"
  by (simp add: char_code_def)

lemma digit_val_bounds: "is_digit c \<Longrightarrow> 0 \<le> digit_val c \<and> digit_val c \<le> 9"
  by (auto simp: is_digit_def digit_val_def)

lemma is_upper_to_lower [simp]: "\<not> is_upper (to_lower c)"
  by (auto simp: to_lower_def is_upper_def)

lemma to_lower_idem [simp]: "to_lower (to_lower c) = to_lower c"
  by (simp add: to_lower_def [of "to_lower c"])

section \<open>Strings\<close>

text \<open>\<open>std::string::find(token) != npos\<close>: the token occurs somewhere in the value.\<close>

fun starts_with :: "string \<Rightarrow> string \<Rightarrow> bool" where
  "starts_with s [] = True"
| "starts_with [] (c # cs) = False"
| "starts_with (d # ds) (c # cs) = (d = c \<and> starts_with ds cs)"

fun str_contains :: "string \<Rightarrow> string \<Rightarrow> bool" where
  "str_contains [] t = (t = [])"
| "str_contains (c # cs) t = (starts_with (c # cs) t \<or> str_contains cs t)"

lemma starts_with_iff: "starts_with s t \<longleftrightarrow> (\<exists>r. s = t @ r)"
  by (induction s t rule: starts_with.induct) auto

lemma str_contains_iff: "str_contains s t \<longleftrightarrow> (\<exists>p r. s = p @ t @ r)"
proof (induction s t rule: str_contains.induct)
  case (1 t)
  show ?case by auto
next
  case (2 c cs t)
  show ?case
    by (simp add: 2 starts_with_iff) (metis append_Cons append_Nil append_eq_Cons_conv)
qed

section \<open>Rounding\<close>

text \<open>
  \<open>std::round\<close> and \<open>std::llround\<close>: to the nearest integer, halves away from zero.
\<close>

definition round_away :: "real \<Rightarrow> int" where
  "round_away x = (if 0 \<le> x then \<lfloor>x + 1 / 2\<rfloor> else \<lceil>x - 1 / 2\<rceil>)"

lemma round_away_of_int [simp]: "round_away (of_int n) = n"
proof (cases "0 \<le> n")
  case True
  then show ?thesis by (simp add: round_away_def)
next
  case False
  have "\<lceil>of_int n - (1 / 2 :: real)\<rceil> = n" by (simp add: ceiling_eq_iff)
  with False show ?thesis by (simp add: round_away_def)
qed

lemma round_away_numeral [simp]: "round_away (numeral n) = numeral n"
  using round_away_of_int [of "numeral n"] by simp

lemma round_away_error: "\<bar>of_int (round_away x) - x\<bar> \<le> 1 / 2"
proof (cases "0 \<le> x")
  case True
  then show ?thesis unfolding round_away_def abs_le_iff by simp linarith
next
  case False
  then show ?thesis unfolding round_away_def abs_le_iff by simp linarith
qed

lemma round_away_shift: "0 \<le> x \<Longrightarrow> 0 \<le> x + of_int n \<Longrightarrow> round_away (x + of_int n) = round_away x + n"
  unfolding round_away_def by simp linarith

section \<open>Lists updated by index\<close>

lemma list_all_update: "list_all P xs \<Longrightarrow> P x \<Longrightarrow> list_all P (xs[i := x])"
  unfolding list_all_length by (metis length_list_update nth_list_update_eq nth_list_update_neq)

lemma filter_single_iff:
  "filter P xs = [x] \<longleftrightarrow> (\<exists>ys zs. xs = ys @ x # zs \<and> P x \<and> (\<forall>y \<in> set ys \<union> set zs. \<not> P y))"
proof
  assume "filter P xs = [x]"
  then obtain ys zs where "xs = ys @ x # zs" "\<forall>y \<in> set ys. \<not> P y" "P x" "filter P zs = []"
    by (auto simp: filter_eq_Cons_iff)
  then show "\<exists>ys zs. xs = ys @ x # zs \<and> P x \<and> (\<forall>y \<in> set ys \<union> set zs. \<not> P y)"
    by (auto simp: filter_empty_conv)
next
  assume "\<exists>ys zs. xs = ys @ x # zs \<and> P x \<and> (\<forall>y \<in> set ys \<union> set zs. \<not> P y)"
  then obtain ys zs where "xs = ys @ x # zs" "P x"
    and none: "\<forall>y \<in> set ys \<union> set zs. \<not> P y" by blast
  moreover have "filter P ys = []" "filter P zs = []"
    using none by (auto simp: filter_empty_conv)
  ultimately show "filter P xs = [x]" by simp
qed

end
