(* ===== verification/BandTypes.thy ===== *)
theory BandTypes
  imports Prelude
begin

text \<open>
  The vocabulary of \<open>core/src/gui/widgets/band_mapping.h\<close> (services, families, entity kinds,
  service sets, mappings) and the compile-time registry builder of \<open>band_mapping.cpp\<close>:
  \<open>makeRegistry\<close> packs the identity probes of a list of band definitions into one pool per
  service and gives every mapping the offset and count of its slice. The main lemma,
  \<open>registry_slice\<close>, says that each mapping's slice is exactly its definition's probe list and
  lies inside the pool, so the loops over a mapping's probes never read out of range.
\<close>

section \<open>Services, families, entity kinds\<close>

datatype BandService =
    SvcAmateur | SvcBroadcast | SvcAviation | SvcMaritime | SvcPersonalRadio | SvcIsm
  | SvcSatellite | SvcNavigation | SvcTimeStandard | SvcCellular | SvcRlan
  | SvcMeteorological | SvcLandMobile | SvcOther | SvcCount

datatype BandFamily =
    FamUnknown | FamAmateur | FamSoundBroadcast | FamTelevisionBroadcast
  | FamWeatherBroadcast | FamAviationCommunication | FamAviationSurveillance | FamMaritime
  | FamPersonalRadio | FamIndustrialScientificMedical | FamRlan | FamSatellite
  | FamNavigation | FamTimeStandard | FamCellularGsm | FamCellularLte | FamCellularOther
  | FamMeteorological | FamLandMobile | FamSpectrum

datatype LegacyEntityKind = KindBand | KindSegment | KindChannel | KindSpectrumRange

text \<open>The underlying value of the enumerator, as \<open>static_cast<std::uint32_t>\<close> reads it.\<close>

fun svc_index :: "BandService \<Rightarrow> nat" where
  "svc_index SvcAmateur = 0"
| "svc_index SvcBroadcast = 1"
| "svc_index SvcAviation = 2"
| "svc_index SvcMaritime = 3"
| "svc_index SvcPersonalRadio = 4"
| "svc_index SvcIsm = 5"
| "svc_index SvcSatellite = 6"
| "svc_index SvcNavigation = 7"
| "svc_index SvcTimeStandard = 8"
| "svc_index SvcCellular = 9"
| "svc_index SvcRlan = 10"
| "svc_index SvcMeteorological = 11"
| "svc_index SvcLandMobile = 12"
| "svc_index SvcOther = 13"
| "svc_index SvcCount = 14"

lemma svc_index_le: "svc_index s \<le> 14"
  by (cases s) simp_all

lemma svc_index_inj: "svc_index s = svc_index t \<longleftrightarrow> s = t"
  by (cases s; cases t) simp_all

text \<open>The order of the enumerators.\<close>

instantiation BandService :: linorder
begin

definition less_eq_BandService :: "BandService \<Rightarrow> BandService \<Rightarrow> bool" where
  "less_eq_BandService s t \<longleftrightarrow> svc_index s \<le> svc_index t"

definition less_BandService :: "BandService \<Rightarrow> BandService \<Rightarrow> bool" where
  "less_BandService s t \<longleftrightarrow> svc_index s < svc_index t"

instance
  by standard (auto simp: less_eq_BandService_def less_BandService_def svc_index_inj)

end

definition all_services :: "BandService list" where
  "all_services = [SvcAmateur, SvcBroadcast, SvcAviation, SvcMaritime, SvcPersonalRadio, SvcIsm,
     SvcSatellite, SvcNavigation, SvcTimeStandard, SvcCellular, SvcRlan, SvcMeteorological,
     SvcLandMobile, SvcOther, SvcCount]"

lemma all_services_complete: "s \<in> set all_services"
  by (cases s) (simp_all add: all_services_def)

section \<open>Service sets\<close>

text \<open>\<open>BandServiceSet\<close>: a 32-bit mask with one bit per service.\<close>

record BandServiceSet =
  bits :: u32

definition svc_bit :: "BandService \<Rightarrow> u32" where
  "svc_bit s = push_bit (svc_index s) 1"

definition set_empty :: BandServiceSet where
  "set_empty = \<lparr>bits = 0\<rparr>"

definition set_single :: "BandService \<Rightarrow> BandServiceSet" where
  "set_single s = \<lparr>bits = svc_bit s\<rparr>"

definition set_all :: BandServiceSet where
  "set_all = \<lparr>bits = push_bit (svc_index SvcCount) 1 - 1\<rparr>"

definition set_contains :: "BandServiceSet \<Rightarrow> BandService \<Rightarrow> bool" where
  "set_contains S s \<longleftrightarrow> (bits S AND svc_bit s) \<noteq> 0"

definition set_intersects :: "BandServiceSet \<Rightarrow> BandServiceSet \<Rightarrow> bool" where
  "set_intersects S T \<longleftrightarrow> (bits S AND bits T) \<noteq> 0"

definition set_with :: "BandServiceSet \<Rightarrow> BandService \<Rightarrow> BandServiceSet" where
  "set_with S s = \<lparr>bits = bits S OR svc_bit s\<rparr>"

definition set_without :: "BandServiceSet \<Rightarrow> BandService \<Rightarrow> BandServiceSet" where
  "set_without S s = \<lparr>bits = bits S AND NOT (svc_bit s)\<rparr>"

definition set_merged :: "BandServiceSet \<Rightarrow> BandServiceSet \<Rightarrow> BandServiceSet" where
  "set_merged S T = \<lparr>bits = bits S OR bits T\<rparr>"

definition set_eq :: "BandServiceSet \<Rightarrow> BandServiceSet \<Rightarrow> bool" where
  "set_eq S T \<longleftrightarrow> bits S = bits T"

text \<open>The abstraction: the services a mask stands for.\<close>

definition services_of :: "BandServiceSet \<Rightarrow> BandService set" where
  "services_of S = {s. bit (bits S) (svc_index s)}"

lemma svc_bit_iff: "bit (svc_bit s) n \<longleftrightarrow> n = svc_index s"
proof -
  have "svc_index s < 32" using svc_index_le [of s] by simp
  then show ?thesis by (auto simp: svc_bit_def bit_simps)
qed

lemma and_svc_bit_nonzero: "(w AND svc_bit s) \<noteq> 0 \<longleftrightarrow> bit w (svc_index s)"
proof -
  have "svc_index s < 32" using svc_index_le [of s] by simp
  then show ?thesis by (auto simp: bit_eq_iff [of "w AND svc_bit s"] bit_and_iff svc_bit_iff)
qed

lemma set_contains_iff: "set_contains S s \<longleftrightarrow> s \<in> services_of S"
  by (simp add: set_contains_def services_of_def and_svc_bit_nonzero)

lemma services_of_with: "services_of (set_with S s) = insert s (services_of S)"
  by (auto simp: services_of_def set_with_def bit_or_iff svc_bit_iff svc_index_inj)

lemma services_of_without: "services_of (set_without S s) = services_of S - {s}"
proof -
  have "svc_index t < 32" for t using svc_index_le [of t] by simp
  then show ?thesis
    by (auto simp: services_of_def set_without_def bit_and_iff bit_not_iff svc_bit_iff
        svc_index_inj possible_bit_def)
qed

lemma services_of_merged: "services_of (set_merged S T) = services_of S \<union> services_of T"
  by (auto simp: services_of_def set_merged_def bit_or_iff)

lemma services_of_empty: "services_of set_empty = {}"
  by (simp add: services_of_def set_empty_def)

lemma services_of_single: "services_of (set_single s) = {s}"
  by (auto simp: services_of_def set_single_def svc_bit_iff svc_index_inj)

lemma services_of_all: "services_of set_all = UNIV - {SvcCount}"
proof -
  have "bit (bits set_all) (svc_index s) \<longleftrightarrow> s \<noteq> SvcCount" for s
    by (cases s) (simp_all add: set_all_def)
  then show ?thesis by (auto simp: services_of_def)
qed

lemmas services_of_simps = services_of_with services_of_without services_of_merged
  services_of_empty services_of_single services_of_all

section \<open>Classification and mappings\<close>

record LegacyBandClassification =
  cl_service :: BandService
  cl_family :: BandFamily
  cl_entityKind :: LegacyEntityKind

definition default_classification :: LegacyBandClassification where
  "default_classification = \<lparr>cl_service = SvcOther, cl_family = FamUnknown, cl_entityKind = KindBand\<rparr>"

definition isBandOrSegment :: "LegacyBandClassification \<Rightarrow> bool" where
  "isBandOrSegment c \<longleftrightarrow> cl_entityKind c = KindBand \<or> cl_entityKind c = KindSegment"

record BandMapping =
  bm_service :: BandService
  bm_family :: BandFamily
  bm_name :: string
  selectorLabel :: string
  selectorDetail :: string
  bandId :: string
  probeOffset :: u16
  probeCount :: u8

record BandMappingTable =
  mappings :: "BandMapping list"
  probesHz :: "int list"

section \<open>The registry builder\<close>

record BandDefinition =
  bd_service :: BandService
  bd_family :: BandFamily
  bd_name :: string
  bd_selectorLabel :: string
  bd_selectorDetail :: string
  bd_bandId :: string
  bd_probesHz :: "int list"

text \<open>\<open>BandText\<close>: a literal is both name and label; a mapping may give them separately.\<close>

datatype BandText = BandText (text_name: string) (text_label: string) (text_detail: string)

definition label :: "string \<Rightarrow> BandText" where
  "label l = BandText l l ''''"

definition label2 :: "string \<Rightarrow> string \<Rightarrow> BandText" where
  "label2 n l = BandText n l ''''"

definition makeBand ::
    "BandService \<Rightarrow> BandFamily \<Rightarrow> BandText \<Rightarrow> string \<Rightarrow> int list \<Rightarrow> BandDefinition" where
  "makeBand s f t i ps =
     \<lparr>bd_service = s, bd_family = f, bd_name = text_name t, bd_selectorLabel = text_label t,
      bd_selectorDetail = text_detail t, bd_bandId = i, bd_probesHz = ps\<rparr>"

definition registry_append :: "BandMappingTable \<Rightarrow> BandDefinition \<Rightarrow> BandMappingTable" where
  "registry_append r d =
     \<lparr>mappings = mappings r @
        [\<lparr>bm_service = bd_service d, bm_family = bd_family d, bm_name = bd_name d,
          selectorLabel = bd_selectorLabel d, selectorDetail = bd_selectorDetail d,
          bandId = bd_bandId d, probeOffset = of_nat (length (probesHz r)),
          probeCount = of_nat (length (bd_probesHz d))\<rparr>],
      probesHz = probesHz r @ bd_probesHz d\<rparr>"

definition empty_table :: BandMappingTable where
  "empty_table = \<lparr>mappings = [], probesHz = []\<rparr>"

definition makeRegistry :: "BandDefinition list \<Rightarrow> BandMappingTable" where
  "makeRegistry defs = foldl registry_append empty_table defs"

text \<open>The two \<open>static_assert\<close>s of \<open>makeRegistry\<close>.\<close>

definition registry_fits :: "BandDefinition list \<Rightarrow> bool" where
  "registry_fits defs \<longleftrightarrow>
     length (concat (map bd_probesHz defs)) \<le> 0xFFFF \<and>
     (\<forall>d \<in> set defs. length (bd_probesHz d) \<le> 0xFF)"

text \<open>The probes a mapping's offset and count select from its table.\<close>

definition probe_slice :: "BandMappingTable \<Rightarrow> BandMapping \<Rightarrow> int list" where
  "probe_slice t m = map (\<lambda>i. probesHz t ! (unat (probeOffset m) + i)) [0..<unat (probeCount m)]"

lemma makeRegistry_snoc: "makeRegistry (defs @ [d]) = registry_append (makeRegistry defs) d"
  by (simp add: makeRegistry_def)

lemma probesHz_makeRegistry: "probesHz (makeRegistry defs) = concat (map bd_probesHz defs)"
  by (induction defs rule: rev_induct)
     (simp_all add: makeRegistry_snoc registry_append_def makeRegistry_def empty_table_def)

lemma length_mappings_makeRegistry: "length (mappings (makeRegistry defs)) = length defs"
  by (induction defs rule: rev_induct)
     (simp_all add: makeRegistry_snoc registry_append_def makeRegistry_def empty_table_def)

lemma mapping_at_makeRegistry:
  "k < length defs \<Longrightarrow>
   mappings (makeRegistry defs) ! k =
     \<lparr>bm_service = bd_service (defs ! k), bm_family = bd_family (defs ! k),
      bm_name = bd_name (defs ! k), selectorLabel = bd_selectorLabel (defs ! k),
      selectorDetail = bd_selectorDetail (defs ! k), bandId = bd_bandId (defs ! k),
      probeOffset = of_nat (length (concat (map bd_probesHz (take k defs)))),
      probeCount = of_nat (length (bd_probesHz (defs ! k)))\<rparr>"
proof (induction defs rule: rev_induct)
  case Nil
  then show ?case by simp
next
  case (snoc d ds)
  show ?case
  proof (cases "k = length ds")
    case True
    then show ?thesis
      by (simp add: makeRegistry_snoc registry_append_def nth_append
          length_mappings_makeRegistry probesHz_makeRegistry)
  next
    case False
    with snoc.prems have "k < length ds" by simp
    with snoc.IH show ?thesis
      by (simp add: makeRegistry_snoc registry_append_def nth_append length_mappings_makeRegistry)
  qed
qed

lemma concat_split_nth:
  "k < length xss \<Longrightarrow> concat xss = concat (take k xss) @ xss ! k @ concat (drop (Suc k) xss)"
  by (metis concat.simps(2) concat_append id_take_nth_drop)

lemma map_nth_middle: "map (\<lambda>i. (xs @ ys @ zs) ! (length xs + i)) [0..<length ys] = ys"
  by (rule nth_equalityI) (auto simp: nth_append)

lemma registry_slice:
  assumes fits: "registry_fits defs" and k: "k < length defs"
  defines "t \<equiv> makeRegistry defs"
  shows "probe_slice t (mappings t ! k) = bd_probesHz (defs ! k)"
    and "unat (probeOffset (mappings t ! k)) + unat (probeCount (mappings t ! k)) \<le> length (probesHz t)"
proof -
  let ?pre = "concat (map bd_probesHz (take k defs))"
  let ?own = "bd_probesHz (defs ! k)"
  have split: "concat (map bd_probesHz defs) = ?pre @ ?own @ concat (map bd_probesHz (drop (Suc k) defs))"
    using concat_split_nth [of k "map bd_probesHz defs"] k by (simp add: take_map drop_map)
  have total: "length ?pre + length ?own \<le> 0xFFFF"
    using fits unfolding registry_fits_def split by simp
  have own: "length ?own \<le> 0xFF"
    using fits k unfolding registry_fits_def by (auto dest: nth_mem)
  have off: "unat (probeOffset (mappings t ! k)) = length ?pre"
    using total k by (simp add: t_def mapping_at_makeRegistry unat_of_nat)
  have cnt: "unat (probeCount (mappings t ! k)) = length ?own"
    using own k by (simp add: t_def mapping_at_makeRegistry unat_of_nat)
  have pool: "probesHz t = ?pre @ ?own @ concat (map bd_probesHz (drop (Suc k) defs))"
    by (simp only: t_def probesHz_makeRegistry split)
  show "probe_slice t (mappings t ! k) = ?own"
    unfolding probe_slice_def off cnt pool by (rule map_nth_middle)
  show "unat (probeOffset (mappings t ! k)) + unat (probeCount (mappings t ! k)) \<le> length (probesHz t)"
    unfolding off cnt pool by simp
qed

end
