(* ===== verification/BandTables.thy ===== *)
theory BandTables
  imports BandTypes
begin

text \<open>
  The ten static registries of \<open>core/src/gui/widgets/band_mapping.cpp\<close>: one list of band
  definitions per radio service, in the order of the source, and the table \<open>makeRegistry\<close> packs
  from it. The two longest lists are given in two parts.
\<close>

section \<open>Builders per family\<close>

definition hamBand :: "BandText \<Rightarrow> string \<Rightarrow> int list \<Rightarrow> BandDefinition" where
  "hamBand = makeBand SvcAmateur FamAmateur"

definition broadcastBand :: "BandText \<Rightarrow> string \<Rightarrow> int list \<Rightarrow> BandDefinition" where
  "broadcastBand = makeBand SvcBroadcast FamSoundBroadcast"

definition televisionBand :: "BandText \<Rightarrow> string \<Rightarrow> int list \<Rightarrow> BandDefinition" where
  "televisionBand = makeBand SvcBroadcast FamTelevisionBroadcast"

definition weatherBroadcastBand :: "BandText \<Rightarrow> string \<Rightarrow> int list \<Rightarrow> BandDefinition" where
  "weatherBroadcastBand = makeBand SvcBroadcast FamWeatherBroadcast"

definition aviationBand :: "BandText \<Rightarrow> string \<Rightarrow> int list \<Rightarrow> BandDefinition" where
  "aviationBand = makeBand SvcAviation FamAviationCommunication"

definition aviationSurveillanceBand :: "BandText \<Rightarrow> string \<Rightarrow> int list \<Rightarrow> BandDefinition" where
  "aviationSurveillanceBand = makeBand SvcAviation FamAviationSurveillance"

definition maritimeBand :: "BandText \<Rightarrow> string \<Rightarrow> int list \<Rightarrow> BandDefinition" where
  "maritimeBand = makeBand SvcMaritime FamMaritime"

definition personalRadioBand :: "BandText \<Rightarrow> string \<Rightarrow> int list \<Rightarrow> BandDefinition" where
  "personalRadioBand = makeBand SvcPersonalRadio FamPersonalRadio"

definition ismBand :: "BandText \<Rightarrow> string \<Rightarrow> int list \<Rightarrow> BandDefinition" where
  "ismBand = makeBand SvcIsm FamIndustrialScientificMedical"

definition rlanBand :: "BandText \<Rightarrow> string \<Rightarrow> int list \<Rightarrow> BandDefinition" where
  "rlanBand = makeBand SvcRlan FamRlan"

definition satelliteBand :: "BandText \<Rightarrow> string \<Rightarrow> int list \<Rightarrow> BandDefinition" where
  "satelliteBand = makeBand SvcSatellite FamSatellite"

definition navigationBand :: "BandText \<Rightarrow> string \<Rightarrow> int list \<Rightarrow> BandDefinition" where
  "navigationBand = makeBand SvcNavigation FamNavigation"

definition cellularBand :: "BandFamily \<Rightarrow> BandText \<Rightarrow> string \<Rightarrow> int list \<Rightarrow> BandDefinition" where
  "cellularBand f = makeBand SvcCellular f"

lemmas builder_defs = hamBand_def broadcastBand_def televisionBand_def weatherBroadcastBand_def aviationBand_def aviationSurveillanceBand_def maritimeBand_def personalRadioBand_def ismBand_def rlanBand_def satelliteBand_def navigationBand_def cellularBand_def makeBand_def
  label_def label2_def

section \<open>Tables\<close>

definition ham_definitions_below_VHF :: "BandDefinition list" where
  "ham_definitions_below_VHF = [
     hamBand (label ''2200m'') ''amateur:2200m''
       [136000, 137600],
     hamBand (label ''630m'') ''amateur:630m''
       [475000],
     hamBand (label ''600m'') ''amateur:600m''
       [502500],
     hamBand (label ''160m'') ''amateur:160m''
       [1810000, 1840000, 1850000],
     hamBand (label ''80m'') ''amateur:80m''
       [3510000, 3570000, 3600000, 3700000, 3795000, 3937500],
     hamBand (label ''60m'') ''amateur:60m''
       [5333400, 5349400, 5354000, 5366500, 5374400, 5404950],
     hamBand (label ''40m'') ''amateur:40m''
       [7040000, 7050000, 7169000, 7186500],
     hamBand (label ''30m'') ''amateur:30m''
       [10130000, 10145000],
     hamBand (label ''20m'') ''amateur:20m''
       [14070000, 14099500, 14112000, 14232000, 14288000],
     hamBand (label ''17m'') ''amateur:17m''
       [18095000, 18111000, 18144000],
     hamBand (label ''15m'') ''amateur:15m''
       [21070000, 21120000, 21151000, 21415000],
     hamBand (label ''12m'') ''amateur:12m''
       [24915000, 24931000],
     hamBand (label ''10m'') ''amateur:10m''
       [28070000, 28150000, 28199000, 28225000, 28320000, 29100000, 29300000, 29520000,
        29610000, 29660000],
     hamBand (label ''8m'') ''amateur:8m''
       [40675000],
     hamBand (label ''6m'') ''amateur:6m''
       [50515000],
     hamBand (label ''4m'') ''amateur:4m''
       [69950000, 70195000]]"

definition ham_definitions_from_VHF :: "BandDefinition list" where
  "ham_definitions_from_VHF = [
     hamBand (label ''2m'') ''amateur:2m''
       [144025000, 144110000, 144180000, 144300000, 144400000, 144794000, 144990000,
        145200000, 145565000, 145790000, 145806000, 146390000, 146990000, 147590000],
     hamBand (label ''1.25m'') ''amateur:1.25m''
       [220000000, 223500000],
     hamBand (label ''70cm'') ''amateur:70cm''
       [430450000, 431687500, 432025000, 432300000, 432420000, 433000000, 433600000,
        434100000, 434775000, 438000000, 439287500],
     hamBand (label ''33cm'') ''amateur:33cm''
       [915000000],
     hamBand (label ''23cm'') ''amateur:23cm''
       [1242500000, 1270000000, 1291481000, 1296150000, 1296994000, 1298000000],
     hamBand (label ''13cm'') ''amateur:13cm''
       [2301000000, 2307000000, 2320075000, 2393750000, 2400000000],
     hamBand (label ''9cm'') ''amateur:9cm''
       [3400000000],
     hamBand (label ''5cm'') ''amateur:5cm''
       [5660000000, 5760000000, 5790000000, 5840000000],
     hamBand (label ''3cm'') ''amateur:3cm''
       [10150000000, 10350000000, 10370000000, 10489540000, 10489650000, 10489850000,
        10489930000],
     hamBand (label ''1.2cm'') ''amateur:1.2cm''
       [24048000000, 24150000000],
     hamBand (label ''6mm'') ''amateur:6mm''
       [47101000000],
     hamBand (label ''4mm'') ''amateur:4mm''
       [77250000000],
     hamBand (label ''2.5mm'') ''amateur:2.5mm''
       [122750000000],
     hamBand (label ''2mm'') ''amateur:2mm''
       [137500500000, 143000000000],
     hamBand (label ''1mm'') ''amateur:1mm''
       [245500000000]]"


definition ham_definitions :: "BandDefinition list" where
  "ham_definitions = ham_definitions_below_VHF @ ham_definitions_from_VHF"
definition HAM_BANDS :: BandMappingTable where
  "HAM_BANDS = makeRegistry ham_definitions"

definition broadcast_definitions_sound :: "BandDefinition list" where
  "broadcast_definitions_sound = [
     broadcastBand (label ''LW'') ''broadcast:LW''
       [175500, 269250],
     broadcastBand (label ''MW'') ''broadcast:MW''
       [1066500],
     broadcastBand (label ''120m'') ''broadcast:120m''
       [2384000],
     broadcastBand (label ''90m'') ''broadcast:90m''
       [3300000],
     broadcastBand (label ''75m'') ''broadcast:75m''
       [3950000],
     broadcastBand (label ''60m'') ''broadcast:60m''
       [4872500, 5032500],
     broadcastBand (label ''49m'') ''broadcast:49m''
       [5950000],
     broadcastBand (label ''41m'') ''broadcast:41m''
       [7300000],
     broadcastBand (label ''31m'') ''broadcast:31m''
       [9500000],
     broadcastBand (label ''25m'') ''broadcast:25m''
       [11650000, 12075000],
     broadcastBand (label ''22m'') ''broadcast:22m''
       [13600000, 13835000],
     broadcastBand (label ''19m'') ''broadcast:19m''
       [15600000, 15897500],
     broadcastBand (label ''16m'') ''broadcast:16m''
       [17725000],
     broadcastBand (label ''15m'') ''broadcast:15m''
       [18960000],
     broadcastBand (label ''13m'') ''broadcast:13m''
       [21650000],
     broadcastBand (label ''11m'') ''broadcast:11m''
       [25885000],
     broadcastBand (label ''FM'') ''broadcast:FM''
       [73000000, 82000000, 100000000]]"

definition broadcast_definitions_other :: "BandDefinition list" where
  "broadcast_definitions_other = [
     televisionBand (BandText ''Television VHF low'' ''TV VHF'' ''Low'') ''broadcast:TV:VHF-low''
       [60000000, 82000000],
     televisionBand (BandText ''Television VHF high'' ''TV VHF'' ''High'') ''broadcast:TV:VHF-high''
       [190000000, 220000000],
     televisionBand (label2 ''Television UHF'' ''TV UHF'') ''broadcast:TV:UHF''
       [500000000, 550000000, 650000000, 750000000],
     weatherBroadcastBand (label2 ''Weather radio'' ''Weather'') ''broadcast:weather-radio''
       [162500000]]"


definition broadcast_definitions :: "BandDefinition list" where
  "broadcast_definitions = broadcast_definitions_sound @ broadcast_definitions_other"
definition BROADCAST_BANDS :: BandMappingTable where
  "BROADCAST_BANDS = makeRegistry broadcast_definitions"

definition aviation_definitions :: "BandDefinition list" where
  "aviation_definitions = [
     aviationBand (BandText ''HF 2 MHz'' ''HF 2'' ''MHz'') ''aviation:HF:2MHz''
       [3025000],
     aviationBand (BandText ''HF 3.4 MHz'' ''HF 3.4'' ''MHz'') ''aviation:HF:3.4MHz''
       [3450000],
     aviationBand (BandText ''HF 3.8 MHz'' ''HF 3.8'' ''MHz'') ''aviation:HF:3.8MHz''
       [3925000],
     aviationBand (BandText ''HF 4 MHz'' ''HF 4'' ''MHz'') ''aviation:HF:4MHz''
       [4700000],
     aviationBand (BandText ''HF 5 MHz'' ''HF 5'' ''MHz'') ''aviation:HF:5MHz''
       [5605000],
     aviationBand (BandText ''HF 6 MHz'' ''HF 6'' ''MHz'') ''aviation:HF:6MHz''
       [6645000],
     aviationBand (BandText ''HF 8 MHz'' ''HF 8'' ''MHz'') ''aviation:HF:8MHz''
       [8927500],
     aviationBand (BandText ''HF 10 MHz'' ''HF 10'' ''MHz'') ''aviation:HF:10MHz''
       [10052500],
     aviationBand (BandText ''HF 11 MHz'' ''HF 11'' ''MHz'') ''aviation:HF:11MHz''
       [11287500],
     aviationBand (BandText ''HF 13 MHz'' ''HF 13'' ''MHz'') ''aviation:HF:13MHz''
       [13310000],
     aviationBand (BandText ''HF 15 MHz'' ''HF 15'' ''MHz'') ''aviation:HF:15MHz''
       [15055000],
     aviationBand (BandText ''HF 17 MHz'' ''HF 17'' ''MHz'') ''aviation:HF:17MHz''
       [17965000],
     aviationBand (BandText ''HF 22 MHz'' ''HF 22'' ''MHz'') ''aviation:HF:22MHz''
       [21962500],
     aviationBand (BandText ''HF 23 MHz'' ''HF 23'' ''MHz'') ''aviation:HF:23MHz''
       [23275000],
     aviationBand (label ''VHF COM'') ''aviation:VHF-COM''
       [121490000, 131545000, 136850000],
     aviationSurveillanceBand (label ''L-band'') ''aviation:L-band''
       [1000000000, 1150000000]]"

definition AVIATION_BANDS :: BandMappingTable where
  "AVIATION_BANDS = makeRegistry aviation_definitions"

definition maritime_definitions :: "BandDefinition list" where
  "maritime_definitions = [
     maritimeBand (label ''MF'') ''maritime:MF''
       [515750],
     maritimeBand (BandText ''HF 2 MHz'' ''HF 2'' ''MHz'') ''maritime:HF:2MHz''
       [2182000],
     maritimeBand (BandText ''HF 4 MHz'' ''HF 4'' ''MHz'') ''maritime:HF:4MHz''
       [4065000, 4152000, 4176875, 4194500],
     maritimeBand (BandText ''HF 6 MHz'' ''HF 6'' ''MHz'') ''maritime:HF:6MHz''
       [6207375, 6279375],
     maritimeBand (BandText ''HF 8 MHz'' ''HF 8'' ''MHz'') ''maritime:HF:8MHz''
       [8292250],
     maritimeBand (BandText ''HF 12 MHz'' ''HF 12'' ''MHz'') ''maritime:HF:12MHz''
       [12715000],
     maritimeBand (BandText ''HF 22 MHz'' ''HF 22'' ''MHz'') ''maritime:HF:22MHz''
       [22427500],
     maritimeBand (BandText ''HF 25 MHz'' ''HF 25'' ''MHz'') ''maritime:HF:25MHz''
       [25095500],
     maritimeBand (label ''VHF'') ''maritime:VHF''
       [156525000, 160812500, 161762500]]"

definition MARITIME_BANDS :: BandMappingTable where
  "MARITIME_BANDS = makeRegistry maritime_definitions"

definition personal_radio_definitions :: "BandDefinition list" where
  "personal_radio_definitions = [
     personalRadioBand (label ''CB'') ''personal-radio:CB''
       [27097500, 27800000],
     personalRadioBand (label ''FreeNet'') ''personal-radio:FreeNet''
       [149070312],
     personalRadioBand (label ''MURS'') ''personal-radio:MURS''
       [151880000, 154585000],
     personalRadioBand (label ''LPD433'') ''personal-radio:LPD433''
       [433600000, 434100000, 434687500],
     personalRadioBand (label ''PMR446'') ''personal-radio:PMR446''
       [446100000],
     personalRadioBand (label ''FRS/GMRS'') ''personal-radio:FRS-GMRS''
       [462637500, 467637500],
     personalRadioBand (label ''UHF CB'') ''personal-radio:UHF-CB''
       [476900000]]"

definition PERSONAL_RADIO_BANDS :: BandMappingTable where
  "PERSONAL_RADIO_BANDS = makeRegistry personal_radio_definitions"

definition ism_definitions :: "BandDefinition list" where
  "ism_definitions = [
     ismBand (BandText ''6.78 MHz'' ''6.78'' ''MHz'') ''ISM:6.78MHz''
       [6780000],
     ismBand (BandText ''13.56 MHz'' ''13.56'' ''MHz'') ''ISM:13.56MHz''
       [13560000],
     ismBand (BandText ''27.12 MHz'' ''27.12'' ''MHz'') ''ISM:27.12MHz''
       [27120000],
     ismBand (BandText ''40.68 MHz'' ''40.68'' ''MHz'') ''ISM:40.68MHz''
       [40680000],
     ismBand (BandText ''433.92 MHz'' ''433.92'' ''MHz'') ''ISM:433.92MHz''
       [433920000],
     ismBand (BandText ''868 MHz'' ''868'' ''MHz'') ''ISM:868MHz''
       [867000000, 868250000],
     ismBand (BandText ''915 MHz'' ''915'' ''MHz'') ''ISM:915MHz''
       [917000000, 921500000],
     ismBand (BandText ''2.45 GHz'' ''2.45'' ''GHz'') ''ISM:2.45GHz''
       [2450000000],
     ismBand (BandText ''24.125 GHz'' ''24.125'' ''GHz'') ''ISM:24.125GHz''
       [24250000000],
     ismBand (BandText ''61.25 GHz'' ''61.25'' ''GHz'') ''ISM:61.25GHz''
       [61500000000],
     ismBand (BandText ''122.5 GHz'' ''122.5'' ''GHz'') ''ISM:122.5GHz''
       [121000000000]]"

definition ISM_BANDS :: BandMappingTable where
  "ISM_BANDS = makeRegistry ism_definitions"

definition rlan_definitions :: "BandDefinition list" where
  "rlan_definitions = [
     rlanBand (BandText ''2.4 GHz'' ''2.4'' ''GHz'') ''RLAN:2.4GHz''
       [2450000000],
     rlanBand (BandText ''5150-5250 MHz'' ''5150-5250'' ''MHz'') ''RLAN:5150-5250MHz''
       [5200000000],
     rlanBand (BandText ''5250-5350 MHz'' ''5250-5350'' ''MHz'') ''RLAN:5250-5350MHz''
       [5300000000],
     rlanBand (BandText ''5470-5725 MHz'' ''5470-5725'' ''MHz'') ''RLAN:5470-5725MHz''
       [5600000000, 5680000000],
     rlanBand (BandText ''5725-5850 MHz'' ''5725-5850'' ''MHz'') ''RLAN:5725-5850MHz''
       [5800000000]]"

definition RLAN_BANDS :: BandMappingTable where
  "RLAN_BANDS = makeRegistry rlan_definitions"

definition cellular_definitions :: "BandDefinition list" where
  "cellular_definitions = [
     cellularBand FamCellularGsm (label ''GSM-R 900'') ''cellular:GSM-R-900''
       [878000000, 923000000],
     cellularBand FamCellularGsm (label ''GSM 900'') ''cellular:GSM-900''
       [897500000, 942500000],
     cellularBand FamCellularGsm (label ''DCS 1800'') ''cellular:DCS-1800''
       [1747500000, 1842500000],
     cellularBand FamCellularLte (label2 ''LTE band 28'' ''LTE 28'') ''cellular:E-UTRA:28''
       [725500000, 780500000],
     cellularBand FamCellularLte (label2 ''LTE band 20'' ''LTE 20'') ''cellular:E-UTRA:20''
       [847000000, 806000000],
     cellularBand FamCellularLte (label2 ''LTE band 8'' ''LTE 8'') ''cellular:E-UTRA:8''
       [897500000, 942500000],
     cellularBand FamCellularLte (label2 ''LTE band 3'' ''LTE 3'') ''cellular:E-UTRA:3''
       [1747500000, 1842500000],
     cellularBand FamCellularLte (label2 ''LTE band 1'' ''LTE 1'') ''cellular:E-UTRA:1''
       [1950000000, 2140000000],
     cellularBand FamCellularLte (label2 ''LTE band 7'' ''LTE 7'') ''cellular:E-UTRA:7''
       [2535000000, 2655000000],
     cellularBand FamCellularLte (label2 ''LTE band 32'' ''LTE 32'') ''cellular:E-UTRA:32''
       [1474000000],
     cellularBand FamCellularLte (label2 ''LTE band 38'' ''LTE 38'') ''cellular:E-UTRA:38''
       [2595000000]]"

definition CELLULAR_BANDS :: BandMappingTable where
  "CELLULAR_BANDS = makeRegistry cellular_definitions"

definition satellite_definitions :: "BandDefinition list" where
  "satellite_definitions = [
     satelliteBand (BandText ''Weather VHF'' ''Weather'' ''VHF'') ''satellite:weather-VHF''
       [137500000]]"

definition SATELLITE_BANDS :: BandMappingTable where
  "SATELLITE_BANDS = makeRegistry satellite_definitions"

definition navigation_definitions :: "BandDefinition list" where
  "navigation_definitions = [
     navigationBand (label ''NDB'') ''navigation:NDB''
       [344250],
     navigationBand (label ''VOR/ILS'') ''navigation:VOR-ILS''
       [112500000],
     navigationBand (BandText ''ILS glide path'' ''ILS'' ''Glide'') ''navigation:ILS-glide-path''
       [332000000]]"

definition NAVIGATION_BANDS :: BandMappingTable where
  "NAVIGATION_BANDS = makeRegistry navigation_definitions"

end
