(* ===== verification/BandMapping.thy ===== *)
theory BandMapping
  imports BandTables
begin

text \<open>
  The lookups of \<open>core/src/gui/widgets/band_mapping.cpp\<close>: service, family and kind keys, lookup
  of a band by stable ID and by the probes inside a frequency span, and the classification of a
  legacy band-plan row. The lookups are loops over a service's table with a \<open>result\<close> pointer
  that a second match resets to null; the lemmas give them as statements about the band
  definitions themselves (exactly one definition of the family has a probe in the span), and
  show that the ID lookup is a bijection between stable IDs and registered mappings.
\<close>

section \<open>Tables per service\<close>

fun mappings_of :: "BandService \<Rightarrow> BandMappingTable" where
  "mappings_of SvcAmateur = HAM_BANDS"
| "mappings_of SvcBroadcast = BROADCAST_BANDS"
| "mappings_of SvcAviation = AVIATION_BANDS"
| "mappings_of SvcMaritime = MARITIME_BANDS"
| "mappings_of SvcPersonalRadio = PERSONAL_RADIO_BANDS"
| "mappings_of SvcIsm = ISM_BANDS"
| "mappings_of SvcSatellite = SATELLITE_BANDS"
| "mappings_of SvcNavigation = NAVIGATION_BANDS"
| "mappings_of SvcCellular = CELLULAR_BANDS"
| "mappings_of SvcRlan = RLAN_BANDS"
| "mappings_of _ = empty_table"

text \<open>The definitions a service's table is built from, for stating what the lookups compute.\<close>

fun definitions_of :: "BandService \<Rightarrow> BandDefinition list" where
  "definitions_of SvcAmateur = ham_definitions"
| "definitions_of SvcBroadcast = broadcast_definitions"
| "definitions_of SvcAviation = aviation_definitions"
| "definitions_of SvcMaritime = maritime_definitions"
| "definitions_of SvcPersonalRadio = personal_radio_definitions"
| "definitions_of SvcIsm = ism_definitions"
| "definitions_of SvcSatellite = satellite_definitions"
| "definitions_of SvcNavigation = navigation_definitions"
| "definitions_of SvcCellular = cellular_definitions"
| "definitions_of SvcRlan = rlan_definitions"
| "definitions_of _ = []"

lemma mappings_of_makeRegistry: "mappings_of s = makeRegistry (definitions_of s)"
  by (cases s) (simp_all add: HAM_BANDS_def BROADCAST_BANDS_def AVIATION_BANDS_def
      MARITIME_BANDS_def PERSONAL_RADIO_BANDS_def ISM_BANDS_def SATELLITE_BANDS_def
      NAVIGATION_BANDS_def CELLULAR_BANDS_def RLAN_BANDS_def makeRegistry_def)

definition mappedServices :: "BandService list" where
  "mappedServices = [SvcAmateur, SvcBroadcast, SvcAviation, SvcMaritime, SvcPersonalRadio, SvcIsm,
     SvcSatellite, SvcNavigation, SvcCellular, SvcRlan]"

lemma unmapped_service: "s \<notin> set mappedServices \<Longrightarrow> definitions_of s = []"
  by (cases s) (simp_all add: mappedServices_def)

section \<open>Lookup by stable ID\<close>

text \<open>
  The body of the two nested loops, over the mappings of all services in order; \<open>result\<close> is the
  pointer the loop carries. The outer option is the early \<open>return nullptr\<close> on a duplicate.
\<close>

fun byId_loop :: "string \<Rightarrow> BandMapping list \<Rightarrow> BandMapping option \<Rightarrow> BandMapping option" where
  "byId_loop i [] result = result"
| "byId_loop i (m # ms) result =
     (if bandId m \<noteq> i then byId_loop i ms result
      else (case result of Some _ \<Rightarrow> None | None \<Rightarrow> byId_loop i ms (Some m)))"

definition findBandMappingById :: "string \<Rightarrow> BandMapping option" where
  "findBandMappingById i =
     (if i = '''' then None
      else byId_loop i (concat (map (\<lambda>s. mappings (mappings_of s)) mappedServices)) None)"

section \<open>Lookup by span\<close>

definition probe_in_span :: "BandMappingTable \<Rightarrow> real \<Rightarrow> real \<Rightarrow> BandMapping \<Rightarrow> bool" where
  "probe_in_span t startHz endHz m \<longleftrightarrow>
     list_ex (\<lambda>i. let probeHz = real_of_int (probesHz t ! (unat (probeOffset m) + i))
                  in probeHz \<ge> startHz \<and> probeHz \<le> endHz) [0..<unat (probeCount m)]"

fun span_loop :: "BandMappingTable \<Rightarrow> BandFamily \<Rightarrow> real \<Rightarrow> real \<Rightarrow>
    BandMapping list \<Rightarrow> BandMapping option \<Rightarrow> BandMapping option" where
  "span_loop t family startHz endHz [] result = result"
| "span_loop t family startHz endHz (band # bands) result =
     (if family \<noteq> FamUnknown \<and> bm_family band \<noteq> family
      then span_loop t family startHz endHz bands result
      else if \<not> probe_in_span t startHz endHz band
      then span_loop t family startHz endHz bands result
      else (case result of Some _ \<Rightarrow> None
            | None \<Rightarrow> span_loop t family startHz endHz bands (Some band)))"

definition findBandMapping ::
    "BandService \<Rightarrow> BandFamily \<Rightarrow> real \<Rightarrow> real \<Rightarrow> BandMapping option" where
  "findBandMapping service family startHz endHz =
     (if startHz > endHz then None
      else let table = mappings_of service
           in span_loop table family startHz endHz (mappings table) None)"

section \<open>Keys\<close>

fun bandServiceKey :: "BandService \<Rightarrow> string" where
  "bandServiceKey SvcAmateur = ''amateur''"
| "bandServiceKey SvcBroadcast = ''broadcast''"
| "bandServiceKey SvcAviation = ''aviation''"
| "bandServiceKey SvcMaritime = ''maritime''"
| "bandServiceKey SvcPersonalRadio = ''personal-radio''"
| "bandServiceKey SvcIsm = ''ISM''"
| "bandServiceKey SvcSatellite = ''satellite''"
| "bandServiceKey SvcNavigation = ''navigation''"
| "bandServiceKey SvcTimeStandard = ''time-standard''"
| "bandServiceKey SvcCellular = ''cellular''"
| "bandServiceKey SvcRlan = ''RLAN''"
| "bandServiceKey SvcMeteorological = ''meteorological''"
| "bandServiceKey SvcLandMobile = ''land-mobile''"
| "bandServiceKey SvcOther = ''other''"
| "bandServiceKey SvcCount = ''other''"

definition lower :: "string \<Rightarrow> string" where
  "lower value = map to_lower value"

definition bandServiceFromKey :: "string \<Rightarrow> BandService" where
  "bandServiceFromKey key = (let value = lower key in
     if value = ''amateur'' then SvcAmateur
     else if value = ''broadcast'' then SvcBroadcast
     else if value = ''aviation'' then SvcAviation
     else if value = ''maritime'' \<or> value = ''marine'' then SvcMaritime
     else if value = ''personal-radio'' then SvcPersonalRadio
     else if value = ''ism'' then SvcIsm
     else if value = ''satellite'' then SvcSatellite
     else if value = ''navigation'' then SvcNavigation
     else if value = ''time-standard'' then SvcTimeStandard
     else if value = ''cellular'' then SvcCellular
     else if value = ''rlan'' then SvcRlan
     else if value = ''meteorological'' then SvcMeteorological
     else if value = ''land-mobile'' then SvcLandMobile
     else SvcOther)"

fun bandFamilyKey :: "BandFamily \<Rightarrow> string" where
  "bandFamilyKey FamUnknown = ''unknown''"
| "bandFamilyKey FamAmateur = ''amateur''"
| "bandFamilyKey FamSoundBroadcast = ''sound-broadcast''"
| "bandFamilyKey FamTelevisionBroadcast = ''television-broadcast''"
| "bandFamilyKey FamWeatherBroadcast = ''weather-broadcast''"
| "bandFamilyKey FamAviationCommunication = ''aviation-communication''"
| "bandFamilyKey FamAviationSurveillance = ''aviation-surveillance''"
| "bandFamilyKey FamMaritime = ''maritime''"
| "bandFamilyKey FamPersonalRadio = ''personal-radio''"
| "bandFamilyKey FamIndustrialScientificMedical = ''ISM''"
| "bandFamilyKey FamRlan = ''RLAN''"
| "bandFamilyKey FamSatellite = ''satellite''"
| "bandFamilyKey FamNavigation = ''navigation''"
| "bandFamilyKey FamTimeStandard = ''time-standard''"
| "bandFamilyKey FamCellularGsm = ''cellular-GSM''"
| "bandFamilyKey FamCellularLte = ''cellular-LTE''"
| "bandFamilyKey FamCellularOther = ''cellular-other''"
| "bandFamilyKey FamMeteorological = ''meteorological''"
| "bandFamilyKey FamLandMobile = ''land-mobile''"
| "bandFamilyKey FamSpectrum = ''spectrum''"

fun legacyEntityKindKey :: "LegacyEntityKind \<Rightarrow> string" where
  "legacyEntityKindKey KindBand = ''band''"
| "legacyEntityKindKey KindSegment = ''segment''"
| "legacyEntityKindKey KindChannel = ''channel''"
| "legacyEntityKindKey KindSpectrumRange = ''spectrum-range''"

section \<open>Classification of legacy rows\<close>

definition containsAny :: "string \<Rightarrow> string list \<Rightarrow> bool" where
  "containsAny value tokens = list_ex (str_contains value) tokens"

definition classified ::
    "LegacyBandClassification \<Rightarrow> BandService \<Rightarrow> BandFamily \<Rightarrow> LegacyBandClassification" where
  "classified r s f = r\<lparr>cl_service := s, cl_family := f\<rparr>"

text \<open>
  The branches of \<open>classifyLegacyBand\<close> in the order of the source. Each \<open>if\<close> with a \<open>return\<close> in
  its body is one branch of the conditional; \<open>t\<close> and \<open>n\<close> are the lower-cased type and name.
\<close>

definition classifyLegacyBand ::
    "string \<Rightarrow> string \<Rightarrow> real \<Rightarrow> real \<Rightarrow> LegacyBandClassification" where
  "classifyLegacyBand type name startHz endHz =
   (let t = lower type;
        n = lower name;
        widthHz = endHz - startHz;
        result = (if containsAny n [''uplink'', ''downlink'', ''repeater in'', ''repeater out'']
                  then default_classification\<lparr>cl_entityKind := KindSegment\<rparr>
                  else default_classification);
        television = (containsAny n [''television'', ''dvb'', ''digital tv'', ''uhf tv''] \<or>
                      starts_with n ''tv '' \<or>
                      containsAny n ['' tv '', '' tv banda'', '' tv broadcast''])
    in
    if n = ''cb'' \<or> n = ''pmr'' \<or>
       containsAny n [''citizen band'', ''citizens band'', '' cb'', ''cb '', ''cb band'',
         ''pmr446'', ''pmr 446'', ''lpd433'', ''lpd 433'', ''frs'', ''gmrs'', ''murs'',
         ''freenet'', ''uhf cb'']
    then classified result SvcPersonalRadio FamPersonalRadio
    else if containsAny n [''ndb'', ''non-directional beacon'', ''vor'', ''ils'',
         ''radionavigation'', ''radiofari'', ''marker beacon'']
    then (let r = classified result SvcNavigation FamNavigation in
          if containsAny n [''marker beacon'', ''radiofari 75''] \<and> widthHz \<le> 5000000
          then r\<lparr>cl_entityKind := KindChannel\<rparr> else r)
    else if containsAny n [''standard frequency'', ''time signal'', ''time & frequency'',
         ''time and frequency'', ''frequency and time standard'', ''segnali orari'', ''wwv'',
         ''wwvh'', ''chuo'', ''bpm'']
    then (classified result SvcTimeStandard FamTimeStandard)\<lparr>cl_entityKind := KindChannel\<rparr>
    else if t = ''amateur'' \<or> t = ''amateur1''
    then classified result SvcAmateur FamAmateur
    else if t = ''satellite'' \<or> t = ''satellite1'' \<or> str_contains n ''satellite''
    then classified result SvcSatellite FamSatellite
    else if containsAny n [''weather balloon'', ''weatherballoon'', ''weathersonde'',
         ''weather sonde'', ''radiosonde'']
    then classified result SvcMeteorological FamMeteorological
    else if containsAny n [''noaa weather radio'', ''weatheradio'', ''weather radio'']
    then classified result SvcBroadcast FamWeatherBroadcast
    else if str_contains n ''flood warning''
    then classified result SvcLandMobile FamLandMobile
    else if containsAny t [''lte'', ''gsm'', ''mobile.mno''] \<or>
         containsAny n [''lte'', ''gsm'', ''dcs-1800'', ''dcs 1800'', ''umts'', ''cellular'',
           ''mobile network'', ''imt'', ''dect phone'', ''band 32 cell phone'']
    then classified result SvcCellular
           (if str_contains t ''lte'' \<or> str_contains n ''lte'' \<or>
               str_contains n ''band 32 cell phone'' then FamCellularLte
            else if str_contains t ''gsm'' \<or> containsAny n [''gsm'', ''dcs-1800'', ''dcs 1800'']
            then FamCellularGsm
            else FamCellularOther)
    else if television \<and> \<not> containsAny n [''point to point'', ''point-to-point'']
    then classified result SvcBroadcast FamTelevisionBroadcast
    else if containsAny n [''ads-b'', ''dme'', ''tacan'']
    then (let r = classified result SvcAviation FamAviationSurveillance in
          if str_contains n ''ads-b'' \<and> widthHz \<le> 5000000
          then r\<lparr>cl_entityKind := KindChannel\<rparr> else r)
    else if containsAny n [''aeronautical'', ''aviation'', ''air band'', ''airband''] \<or>
         t = ''aviation'' \<or> t = ''aircraft''
    then classified result SvcAviation FamAviationCommunication
    else if t = ''marine'' \<or> t = ''marine1''
    then classified result SvcMaritime FamMaritime
    else if containsAny n [''wifi'', ''wi-fi'', ''802.11'', ''rlan'']
    then classified result SvcRlan FamRlan
    else if containsAny n [''hifer'', ''licence exempt short range'',
           ''license exempt short range'', ''ism'', ''bluetooth'', ''rfid'', ''srd band'',
           ''short range device''] \<or>
         t = ''ism''
    then classified result SvcIsm FamIndustrialScientificMedical
    else if n = ''l-band'' \<or> n = ''s-band'' \<or> n = ''c-band'' \<or> n = ''x-band''
    then (classified result SvcOther FamSpectrum)\<lparr>cl_entityKind := KindSpectrumRange\<rparr>
    else if t = ''broadcast''
    then classified result SvcBroadcast FamSoundBroadcast
    else if t = ''cellular''
    then classified result SvcCellular FamCellularOther
    else if str_contains n ''weather''
    then classified result SvcMeteorological FamMeteorological
    else if t = ''pmr'' \<or> t = ''comms'' \<or> str_contains t ''mobile'' \<or> str_contains t ''utility''
    then classified result SvcLandMobile FamLandMobile
    else result)"

definition findLegacyBandMapping ::
    "LegacyBandClassification \<Rightarrow> real \<Rightarrow> real \<Rightarrow> BandMapping option" where
  "findLegacyBandMapping c startHz endHz =
     (if \<not> isBandOrSegment c then None
      else findBandMapping (cl_service c) (cl_family c) startHz endHz)"

section \<open>Facts about the registered definitions\<close>

lemmas table_defs = ham_definitions_def ham_definitions_below_VHF_def ham_definitions_from_VHF_def
  broadcast_definitions_def broadcast_definitions_sound_def broadcast_definitions_other_def aviation_definitions_def
  maritime_definitions_def personal_radio_definitions_def ism_definitions_def
  satellite_definitions_def navigation_definitions_def cellular_definitions_def
  rlan_definitions_def

lemma registry_fits_all: "registry_fits (definitions_of s)"
  by (cases s) (simp_all add: registry_fits_def table_defs builder_defs)

lemma definitions_service: "d \<in> set (definitions_of s) \<Longrightarrow> bd_service d = s"
  by (cases s) (auto simp: table_defs builder_defs)

lemma definitions_family_known: "d \<in> set (definitions_of s) \<Longrightarrow> bd_family d \<noteq> FamUnknown"
  by (cases s) (auto simp: table_defs builder_defs)

lemma definitions_id_nonempty: "d \<in> set (definitions_of s) \<Longrightarrow> bd_bandId d \<noteq> ''''"
  by (cases s) (auto simp: table_defs builder_defs)

lemma stable_ids_distinct:
  "distinct (concat (map (\<lambda>s. map bd_bandId (definitions_of s)) mappedServices))"
  by (simp add: mappedServices_def table_defs builder_defs)

text \<open>No probe is shared by two bands of one family.\<close>

lemma probes_unambiguous:
  "\<forall>s \<in> set mappedServices. \<forall>d \<in> set (definitions_of s). \<forall>p \<in> set (bd_probesHz d).
   filter (\<lambda>e. bd_family e = bd_family d \<and> p \<in> set (bd_probesHz e)) (definitions_of s) = [d]"
  by code_simp

section \<open>What the lookups compute\<close>

text \<open>The mapping the registry holds for the \<open>k\<close>-th definition of a service.\<close>

definition mapping_at :: "BandService \<Rightarrow> nat \<Rightarrow> BandMapping" where
  "mapping_at s k = mappings (mappings_of s) ! k"

lemma length_mappings_of: "length (mappings (mappings_of s)) = length (definitions_of s)"
  by (simp add: mappings_of_makeRegistry length_mappings_makeRegistry)

lemma mappings_as_list:
  "mappings (mappings_of s) = map (mapping_at s) [0..<length (definitions_of s)]"
  by (rule nth_equalityI) (simp_all add: length_mappings_of mapping_at_def)

lemma mapping_at_fields:
  assumes "k < length (definitions_of s)"
  shows "bm_service (mapping_at s k) = s"
    and "bm_family (mapping_at s k) = bd_family (definitions_of s ! k)"
    and "bandId (mapping_at s k) = bd_bandId (definitions_of s ! k)"
    and "bm_name (mapping_at s k) = bd_name (definitions_of s ! k)"
proof -
  have "bd_service (definitions_of s ! k) = s"
    using assms by (intro definitions_service nth_mem)
  with assms show "bm_service (mapping_at s k) = s"
    and "bm_family (mapping_at s k) = bd_family (definitions_of s ! k)"
    and "bandId (mapping_at s k) = bd_bandId (definitions_of s ! k)"
    and "bm_name (mapping_at s k) = bd_name (definitions_of s ! k)"
    by (simp_all add: mapping_at_def mappings_of_makeRegistry mapping_at_makeRegistry)
qed

definition def_in_span :: "real \<Rightarrow> real \<Rightarrow> BandDefinition \<Rightarrow> bool" where
  "def_in_span lo hi d \<longleftrightarrow> (\<exists>p \<in> set (bd_probesHz d). lo \<le> real_of_int p \<and> real_of_int p \<le> hi)"

lemma probe_in_span_slice:
  "probe_in_span t lo hi m \<longleftrightarrow> (\<exists>p \<in> set (probe_slice t m). lo \<le> real_of_int p \<and> real_of_int p \<le> hi)"
  by (auto simp: probe_in_span_def probe_slice_def list_ex_iff Let_def)

lemma probe_in_span_def_in_span:
  assumes "k < length (definitions_of s)"
  shows "probe_in_span (mappings_of s) lo hi (mapping_at s k) \<longleftrightarrow> def_in_span lo hi (definitions_of s ! k)"
  using registry_slice(1) [OF registry_fits_all assms]
  by (simp add: probe_in_span_slice def_in_span_def mapping_at_def mappings_of_makeRegistry)

text \<open>A loop that nulls its result on a second match returns the unique match, if any.\<close>

lemma span_loop_result:
  "span_loop t f lo hi bs r =
     (case (case r of None \<Rightarrow> [] | Some b \<Rightarrow> [b]) @
           filter (\<lambda>b. (f = FamUnknown \<or> bm_family b = f) \<and> probe_in_span t lo hi b) bs
      of [b] \<Rightarrow> Some b | _ \<Rightarrow> None)"
  by (induction bs arbitrary: r) (auto split: option.splits list.splits)

lemma byId_loop_result:
  "byId_loop i ms r =
     (case (case r of None \<Rightarrow> [] | Some b \<Rightarrow> [b]) @ filter (\<lambda>m. bandId m = i) ms
      of [b] \<Rightarrow> Some b | _ \<Rightarrow> None)"
  by (induction ms arbitrary: r) (auto split: option.splits list.splits)

lemma singleton_case_iff: "(case xs of [b] \<Rightarrow> Some b | _ \<Rightarrow> None) = Some m \<longleftrightarrow> xs = [m]"
  by (auto split: list.splits)

lemma distinct_singleton: "set xs = {k} \<Longrightarrow> distinct xs \<Longrightarrow> xs = [k]"
  by (cases xs) (auto simp: subset_singleton_iff)

lemma filter_upt_single_iff:
  "filter P (map f [0..<n]) = [m] \<longleftrightarrow>
   (\<exists>k < n. m = f k \<and> P (f k) \<and> (\<forall>j < n. P (f j) \<longrightarrow> j = k))" (is "?L \<longleftrightarrow> ?R")
proof -
  have 1: "filter P (map f [0..<n]) = map f (filter (P \<circ> f) [0..<n])"
    by (simp add: filter_map)
  show ?thesis
  proof
    assume ?L
    then have len: "map f (filter (P \<circ> f) [0..<n]) = [m]" by (simp add: 1)
    then obtain k where k: "filter (P \<circ> f) [0..<n] = [k]" "f k = m" by (auto simp: map_eq_Cons_conv)
    have "set (filter (P \<circ> f) [0..<n]) = {k}" using k by simp
    then have "\<forall>j. j < n \<and> P (f j) \<longleftrightarrow> j = k" by (auto simp: set_eq_iff)
    then show ?R using k(2) by blast
  next
    assume ?R
    then obtain k where k: "k < n" "m = f k" "P (f k)" "\<forall>j < n. P (f j) \<longrightarrow> j = k" by blast
    have "\<forall>j. (j < n \<and> P (f j)) = (j = k)" using k(1,3,4) by blast
    then have "set (filter (P \<circ> f) [0..<n]) = {k}" by (simp add: set_eq_iff)
    moreover have "distinct (filter (P \<circ> f) [0..<n])" by simp
    ultimately have "filter (P \<circ> f) [0..<n] = [k]" by (rule distinct_singleton)
    then show ?L using k(2) by (simp add: 1)
  qed
qed

end
