(* ===== verification/BandLookups.thy ===== *)
theory BandLookups
  imports BandMapping
begin

text \<open>
  What the lookups of \<open>band_mapping.cpp\<close> compute, as statements about the band definitions: the
  span lookup answers exactly when one definition of the family has a probe in the span, every
  definition is found from each of its own probes, the ID lookup inverts the stable IDs, a
  legacy row resolves to a band of its own classification only, and service keys round-trip.
\<close>

section \<open>Correctness of the lookups\<close>

definition family_matches :: "BandFamily \<Rightarrow> BandDefinition \<Rightarrow> bool" where
  "family_matches f d \<longleftrightarrow> f = FamUnknown \<or> bd_family d = f"

text \<open>The candidates of a lookup: the definitions of the family with a probe in the span.\<close>

definition candidate :: "BandService \<Rightarrow> BandFamily \<Rightarrow> real \<Rightarrow> real \<Rightarrow> nat \<Rightarrow> bool" where
  "candidate s f lo hi k \<longleftrightarrow> k < length (definitions_of s) \<and>
     family_matches f (definitions_of s ! k) \<and> def_in_span lo hi (definitions_of s ! k)"

lemma findBandMapping_iff:
  "findBandMapping s f lo hi = Some m \<longleftrightarrow>
     lo \<le> hi \<and> (\<exists>k. candidate s f lo hi k \<and> m = mapping_at s k \<and> (\<forall>j. candidate s f lo hi j \<longrightarrow> j = k))"
proof -
  let ?P = "\<lambda>b. (f = FamUnknown \<or> bm_family b = f) \<and> probe_in_span (mappings_of s) lo hi b"
  have P: "?P (mapping_at s k) \<longleftrightarrow> candidate s f lo hi k" if "k < length (definitions_of s)" for k
    using that
    by (simp add: candidate_def family_matches_def mapping_at_fields probe_in_span_def_in_span)
  have E: "candidate s f lo hi k \<longleftrightarrow> k < length (definitions_of s) \<and> ?P (mapping_at s k)" for k
    using P [of k] by (cases "k < length (definitions_of s)") (simp_all add: candidate_def)
  have "findBandMapping s f lo hi = Some m \<longleftrightarrow>
      lo \<le> hi \<and> filter ?P (map (mapping_at s) [0..<length (definitions_of s)]) = [m]"
    by (simp add: findBandMapping_def Let_def span_loop_result singleton_case_iff mappings_as_list)
  also have "\<dots> \<longleftrightarrow> lo \<le> hi \<and> (\<exists>k < length (definitions_of s). m = mapping_at s k \<and> ?P (mapping_at s k) \<and>
      (\<forall>j < length (definitions_of s). ?P (mapping_at s j) \<longrightarrow> j = k))"
    by (simp only: filter_upt_single_iff)
  also have "\<dots> \<longleftrightarrow> lo \<le> hi \<and> (\<exists>k. candidate s f lo hi k \<and> m = mapping_at s k \<and>
      (\<forall>j. candidate s f lo hi j \<longrightarrow> j = k))"
    unfolding E by blast
  finally show ?thesis .
qed

lemma findBandMapping_fields:
  assumes "findBandMapping s f lo hi = Some m"
  shows "bm_service m = s" and "f \<noteq> FamUnknown \<Longrightarrow> bm_family m = f"
    and "s \<in> set mappedServices" and "m \<in> set (mappings (mappings_of s))"
proof -
  obtain k where c: "candidate s f lo hi k" and m: "m = mapping_at s k"
    using assms unfolding findBandMapping_iff by blast
  have k: "k < length (definitions_of s)" using c by (simp add: candidate_def)
  then have "definitions_of s \<noteq> []" by auto
  then show "s \<in> set mappedServices" using unmapped_service by blast
  show "bm_service m = s" using k m by (simp add: mapping_at_fields)
  show "f \<noteq> FamUnknown \<Longrightarrow> bm_family m = f"
    using c k m by (simp add: candidate_def family_matches_def mapping_at_fields)
  show "m \<in> set (mappings (mappings_of s))" using k m by (simp add: mappings_as_list)
qed

lemma own_probe_unambiguous:
  assumes "k < length (definitions_of s)" and "p \<in> set (bd_probesHz (definitions_of s ! k))"
    and "j < length (definitions_of s)" and "p \<in> set (bd_probesHz (definitions_of s ! j))"
    and "bd_family (definitions_of s ! j) = bd_family (definitions_of s ! k)"
  shows "j = k"
proof -
  let ?d = "definitions_of s ! k"
  let ?Q = "\<lambda>e. bd_family e = bd_family ?d \<and> p \<in> set (bd_probesHz e)"
  have "s \<in> set mappedServices"
    using assms(1) unmapped_service [of s] by (cases "s \<in> set mappedServices") auto
  then have "filter ?Q (map ((!) (definitions_of s)) [0..<length (definitions_of s)]) = [?d]"
    using probes_unambiguous nth_mem [OF assms(1)] assms(2) by (simp add: map_nth)
  then show ?thesis unfolding filter_upt_single_iff using assms by metis
qed

text \<open>All registered mappings, in the order the ID lookup visits them.\<close>

definition all_mappings :: "BandMapping list" where
  "all_mappings = concat (map (\<lambda>s. mappings (mappings_of s)) mappedServices)"

lemma all_mappings_ids: "map bandId all_mappings = concat (map (\<lambda>s. map bd_bandId (definitions_of s)) mappedServices)"
proof -
  have "map bandId (mappings (mappings_of s)) = map bd_bandId (definitions_of s)" for s
    by (rule nth_equalityI) (simp_all add: mappings_as_list mapping_at_fields)
  then show ?thesis by (simp add: all_mappings_def map_concat comp_def)
qed

lemma all_mappings_ids_distinct: "distinct (map bandId all_mappings)"
  unfolding all_mappings_ids by (rule stable_ids_distinct)

lemma filter_key_distinct:
  "distinct (map g xs) \<Longrightarrow> filter (\<lambda>x. g x = i) xs = [m] \<longleftrightarrow> m \<in> set xs \<and> g m = i"
proof (induction xs)
  case (Cons x xs)
  show ?case
  proof (cases "g x = i")
    case True
    then have "filter (\<lambda>y. g y = i) xs = []" 
      using Cons.prems by (simp add: filter_empty_conv) (metis image_eqI)
    moreover have "m \<in> set xs \<Longrightarrow> g m \<noteq> i" using True Cons.prems by simp (metis image_eqI)
    ultimately show ?thesis using True by auto
  next
    case False
    then show ?thesis using Cons by auto
  qed
qed simp

lemma findBandMappingById_iff:
  "findBandMappingById i = Some m \<longleftrightarrow> m \<in> set all_mappings \<and> bandId m = i"
proof (cases "i = []")
  case True
  have "bandId m \<noteq> []" if "m \<in> set all_mappings"
  proof -
    have "bandId m \<in> set (map bandId all_mappings)" using that by simp
    then show ?thesis unfolding all_mappings_ids using definitions_id_nonempty by fastforce
  qed
  then show ?thesis using True by (auto simp: findBandMappingById_def)
next
  case False
  then show ?thesis
    by (simp add: findBandMappingById_def byId_loop_result singleton_case_iff
        filter_key_distinct all_mappings_ids_distinct flip: all_mappings_def)
qed

lemma all_mappings_iff: "m \<in> set all_mappings \<longleftrightarrow> (\<exists>s k. k < length (definitions_of s) \<and> m = mapping_at s k)"
proof -
  have "s \<in> set mappedServices" if "k < length (definitions_of s)" for s k
    using that unmapped_service [of s] by (cases "s \<in> set mappedServices") auto
  then show ?thesis unfolding all_mappings_def by (simp add: mappings_as_list image_iff) (metis atLeastLessThan_iff zero_le)
qed

section \<open>Consistency of the classification\<close>

text \<open>The service each family belongs to.\<close>

fun service_of_family :: "BandFamily \<Rightarrow> BandService" where
  "service_of_family FamUnknown = SvcOther"
| "service_of_family FamAmateur = SvcAmateur"
| "service_of_family FamSoundBroadcast = SvcBroadcast"
| "service_of_family FamTelevisionBroadcast = SvcBroadcast"
| "service_of_family FamWeatherBroadcast = SvcBroadcast"
| "service_of_family FamAviationCommunication = SvcAviation"
| "service_of_family FamAviationSurveillance = SvcAviation"
| "service_of_family FamMaritime = SvcMaritime"
| "service_of_family FamPersonalRadio = SvcPersonalRadio"
| "service_of_family FamIndustrialScientificMedical = SvcIsm"
| "service_of_family FamRlan = SvcRlan"
| "service_of_family FamSatellite = SvcSatellite"
| "service_of_family FamNavigation = SvcNavigation"
| "service_of_family FamTimeStandard = SvcTimeStandard"
| "service_of_family FamCellularGsm = SvcCellular"
| "service_of_family FamCellularLte = SvcCellular"
| "service_of_family FamCellularOther = SvcCellular"
| "service_of_family FamMeteorological = SvcMeteorological"
| "service_of_family FamLandMobile = SvcLandMobile"
| "service_of_family FamSpectrum = SvcOther"

lemma registered_family_service: "d \<in> set (definitions_of s) \<Longrightarrow> service_of_family (bd_family d) = s"
  by (cases s) (auto simp: table_defs builder_defs)

lemma classified_simps [simp]:
  "cl_service (classified r s f) = s" "cl_family (classified r s f) = f"
  by (simp_all add: classified_def)

lemma classify_service:
  "cl_service (classifyLegacyBand t n lo hi) = service_of_family (cl_family (classifyLegacyBand t n lo hi))"
  unfolding classifyLegacyBand_def Let_def
  by (simp add: if_distrib [of cl_service] if_distrib [of cl_family] if_distrib [of service_of_family]
      default_classification_def cong: if_cong)

lemma findLegacy_iff:
  "findLegacyBandMapping c lo hi = Some m \<longleftrightarrow>
     cl_entityKind c \<in> {KindBand, KindSegment} \<and> findBandMapping (cl_service c) (cl_family c) lo hi = Some m"
  by (auto simp: findLegacyBandMapping_def isBandOrSegment_def)

lemma findLegacy_fields:
  assumes "findLegacyBandMapping (classifyLegacyBand t n lo hi) lo' hi' = Some m"
  shows "bm_service m = cl_service (classifyLegacyBand t n lo hi) \<and>
         bm_family m = cl_family (classifyLegacyBand t n lo hi) \<and>
         findBandMappingById (bandId m) = Some m"
proof -
  let ?c = "classifyLegacyBand t n lo hi"
  have f: "findBandMapping (cl_service ?c) (cl_family ?c) lo' hi' = Some m"
    using assms by (simp add: findLegacy_iff)
  obtain k where k: "candidate (cl_service ?c) (cl_family ?c) lo' hi' k" "m = mapping_at (cl_service ?c) k"
    using f unfolding findBandMapping_iff by blast
  then have "k < length (definitions_of (cl_service ?c))" by (simp add: candidate_def)
  then have "m \<in> set all_mappings" using k(2) all_mappings_iff by blast
  moreover have "cl_family ?c \<noteq> FamUnknown"
  proof
    assume "cl_family ?c = FamUnknown"
    then have "cl_service ?c = SvcOther" by (simp add: classify_service)
    then show False using findBandMapping_fields(3) [OF f] by (simp add: mappedServices_def)
  qed
  ultimately show ?thesis
    using findBandMapping_fields(1,2) [OF f] by (simp add: findBandMappingById_iff)
qed

section \<open>Keys\<close>

lemma map_to_lower_idem [simp]: "map to_lower (map to_lower xs) = map to_lower xs"
  by simp

lemma bandServiceFromKey_lower: "bandServiceFromKey (lower key) = bandServiceFromKey key"
proof -
  have "lower (lower key) = lower key" by (simp add: lower_def)
  then show ?thesis unfolding bandServiceFromKey_def by simp
qed

lemma bandServiceFromKey_Key: "s \<noteq> SvcCount \<Longrightarrow> bandServiceFromKey (bandServiceKey s) = s"
  by (cases s) (simp_all, code_simp+)

lemma bandServiceFromKey_not_count: "bandServiceFromKey key \<noteq> SvcCount"
  by (simp add: bandServiceFromKey_def Let_def)

lemma bandFamilyKey_inj: "bandFamilyKey f = bandFamilyKey g \<longleftrightarrow> f = g"
  by (cases f; cases g) simp_all

section \<open>Properties of the band registry\<close>

text \<open>
  A span lookup answers with a mapping exactly when one definition of the requested service
  and family (any family, when none is given) has a probe in the closed span, and it is the
  mapping registered for that definition; no match and several matches both answer nothing.
\<close>

theorem findBandMapping_unique:
  "findBandMapping s f lo hi = Some m \<longleftrightarrow>
     lo \<le> hi \<and>
     (\<exists>k < length (definitions_of s). m = mappings (mappings_of s) ! k \<and>
       {j. j < length (definitions_of s) \<and>
           (f = FamUnknown \<or> bd_family (definitions_of s ! j) = f) \<and>
           (\<exists>p \<in> set (bd_probesHz (definitions_of s ! j)). lo \<le> of_int p \<and> of_int p \<le> hi)} = {k})"
proof -
  have "candidate s f lo hi j \<longleftrightarrow> j < length (definitions_of s) \<and>
      (f = FamUnknown \<or> bd_family (definitions_of s ! j) = f) \<and>
      (\<exists>p \<in> set (bd_probesHz (definitions_of s ! j)). lo \<le> of_int p \<and> of_int p \<le> hi)" for j
    by (simp add: candidate_def family_matches_def def_in_span_def)
  then have "{j. j < length (definitions_of s) \<and>
      (f = FamUnknown \<or> bd_family (definitions_of s ! j) = f) \<and>
      (\<exists>p \<in> set (bd_probesHz (definitions_of s ! j)). lo \<le> of_int p \<and> of_int p \<le> hi)}
    = Collect (candidate s f lo hi)" by blast
  moreover have "(\<exists>k. candidate s f lo hi k \<and> m = mapping_at s k \<and> (\<forall>j. candidate s f lo hi j \<longrightarrow> j = k))
    \<longleftrightarrow> (\<exists>k < length (definitions_of s). m = mapping_at s k \<and> Collect (candidate s f lo hi) = {k})"
    by (auto simp: set_eq_iff candidate_def)
  ultimately show ?thesis by (simp add: findBandMapping_iff flip: mapping_at_def)
qed

text \<open>
  Every band is found from each of its own probe frequencies: looking up a registered
  definition's probe within its service and family gives the mapping of that definition.
\<close>

theorem findBandMapping_own_probe:
  assumes "k < length (definitions_of s)" and "p \<in> set (bd_probesHz (definitions_of s ! k))"
  shows "findBandMapping s (bd_family (definitions_of s ! k)) (of_int p) (of_int p) =
           Some (mappings (mappings_of s) ! k)"
proof -
  let ?f = "bd_family (definitions_of s ! k)"
  have f: "?f \<noteq> FamUnknown" using definitions_family_known nth_mem [OF assms(1)] by blast
  have "candidate s ?f (of_int p) (of_int p) j \<longleftrightarrow> j = k" for j
    using own_probe_unambiguous [OF assms, of j] assms f
    by (fastforce simp: candidate_def family_matches_def def_in_span_def)
  then show ?thesis unfolding findBandMapping_iff mapping_at_def [symmetric] by blast
qed

theorem findBandMapping_own_probe_witness:
  "findBandMapping SvcAmateur FamAmateur (of_int (bd_probesHz (definitions_of SvcAmateur ! 0) ! 0))
     (of_int (bd_probesHz (definitions_of SvcAmateur ! 0) ! 0)) = Some (mappings (mappings_of SvcAmateur) ! 0)"
  using findBandMapping_own_probe [of 0 SvcAmateur "bd_probesHz (definitions_of SvcAmateur ! 0) ! 0"]
  by (simp add: table_defs builder_defs)

text \<open>
  The ID lookup inverts the stable ID of a mapping: it returns a mapping exactly when that
  mapping is registered under the ID by some service, so no two registered bands share an ID
  and every registered band can be recovered from the ID that a configuration stores.
\<close>

theorem findBandMappingById_inverts_bandId:
  "findBandMappingById i = Some m \<longleftrightarrow>
     (\<exists>s k. k < length (definitions_of s) \<and> m = mappings (mappings_of s) ! k \<and> bandId m = i)"
  unfolding findBandMappingById_iff all_mappings_iff mapping_at_def by blast

text \<open>
  A legacy row that resolves to a band resolves to one of exactly the service and family the
  classifier gave the row, and to one that its stable ID brings back.
\<close>

theorem legacy_mapping_agrees_with_classification:
  assumes "findLegacyBandMapping (classifyLegacyBand t n lo hi) lo' hi' = Some m"
  shows "bm_service m = cl_service (classifyLegacyBand t n lo hi) \<and>
         bm_family m = cl_family (classifyLegacyBand t n lo hi) \<and>
         findBandMappingById (bandId m) = Some m"
  using assms by (rule findLegacy_fields)

theorem legacy_mapping_agrees_witness:
  "\<exists>m. findLegacyBandMapping (classifyLegacyBand ''amateur'' ''40m Ham Band'' 7000000 7200000) 7000000 7200000 = Some m \<and>
       findBandMappingById (bandId m) = Some m"
proof -
  have "findLegacyBandMapping (classifyLegacyBand ''amateur'' ''40m Ham Band'' 7000000 7200000) 7000000 7200000 \<noteq> None"
    by code_simp
  then show ?thesis using legacy_mapping_agrees_with_classification by blast
qed

text \<open>
  Service keys round-trip through the configuration: parsing is insensitive to the case of
  the key, inverts the key of every real service and never yields the counting sentinel.
\<close>

theorem bandService_key_roundtrip:
  "bandServiceFromKey (lower key) = bandServiceFromKey key \<and>
   bandServiceFromKey (bandServiceKey s) = (if s = SvcCount then SvcOther else s) \<and>
   bandServiceFromKey key \<noteq> SvcCount"
proof (cases "s = SvcCount")
  case True
  then show ?thesis
    using bandServiceFromKey_Key [of SvcOther] by (simp add: bandServiceFromKey_lower bandServiceFromKey_not_count)
next
  case False
  then show ?thesis
    by (simp add: bandServiceFromKey_lower bandServiceFromKey_not_count bandServiceFromKey_Key)
qed

end
