(* ===== verification/RadioModes.thy ===== *)
theory RadioModes
  imports Prelude
begin

text \<open>
  The demodulator modes of \<open>core/src/radio_interface.h\<close>: the \<open>RADIO_IFACE_MODE_*\<close> numbers, their
  names, the case-insensitive comparison and the parser that every persisted mode goes through.
  A mode is the \<open>int\<close> of the source, \<open>-1\<close> standing for no mode.
\<close>

definition RADIO_IFACE_MODE_NFM :: int where "RADIO_IFACE_MODE_NFM = 0"
definition RADIO_IFACE_MODE_WFM :: int where "RADIO_IFACE_MODE_WFM = 1"
definition RADIO_IFACE_MODE_AM :: int where "RADIO_IFACE_MODE_AM = 2"
definition RADIO_IFACE_MODE_DSB :: int where "RADIO_IFACE_MODE_DSB = 3"
definition RADIO_IFACE_MODE_USB :: int where "RADIO_IFACE_MODE_USB = 4"
definition RADIO_IFACE_MODE_CW :: int where "RADIO_IFACE_MODE_CW = 5"
definition RADIO_IFACE_MODE_LSB :: int where "RADIO_IFACE_MODE_LSB = 6"
definition RADIO_IFACE_MODE_RAW :: int where "RADIO_IFACE_MODE_RAW = 7"
definition RADIO_IFACE_MODE_CWR :: int where "RADIO_IFACE_MODE_CWR = 8"
definition RADIO_IFACE_MODE_COUNT :: int where "RADIO_IFACE_MODE_COUNT = 9"

lemmas mode_defs = RADIO_IFACE_MODE_NFM_def RADIO_IFACE_MODE_WFM_def RADIO_IFACE_MODE_AM_def
  RADIO_IFACE_MODE_DSB_def RADIO_IFACE_MODE_USB_def RADIO_IFACE_MODE_CW_def
  RADIO_IFACE_MODE_LSB_def RADIO_IFACE_MODE_RAW_def RADIO_IFACE_MODE_CWR_def
  RADIO_IFACE_MODE_COUNT_def

definition RADIO_IFACE_MODE_NAMES :: "string list" where
  "RADIO_IFACE_MODE_NAMES =
     [''NFM'', ''WFM'', ''AM'', ''DSB'', ''USB'', ''CW'', ''LSB'', ''RAW'', ''CWR'']"

definition radioModeValid :: "int \<Rightarrow> bool" where
  "radioModeValid mode \<longleftrightarrow> mode \<ge> 0 \<and> mode < RADIO_IFACE_MODE_COUNT"

definition radioModeName :: "int \<Rightarrow> string" where
  "radioModeName mode =
     (if mode \<ge> 0 \<and> mode < RADIO_IFACE_MODE_COUNT then RADIO_IFACE_MODE_NAMES ! nat mode else ''--'')"

definition radioModeFoldAscii :: "char \<Rightarrow> char" where
  "radioModeFoldAscii c = (if is_lower c then char_of (char_code c - (97 - 65)) else c)"

text \<open>
  The pointer loop of \<open>radioModeNameEq\<close>, on the strings before the terminating zero byte.
\<close>

fun radioModeNameEq :: "string \<Rightarrow> string \<Rightarrow> bool" where
  "radioModeNameEq (a # as) (b # bs) =
     (if radioModeFoldAscii a = radioModeFoldAscii b then radioModeNameEq as bs else False)"
| "radioModeNameEq [] [] = True"
| "radioModeNameEq [] (b # bs) = False"
| "radioModeNameEq (a # as) [] = False"

text \<open>The loop over the table, from index \<open>i\<close> on.\<close>

fun radioModeFind :: "string \<Rightarrow> int \<Rightarrow> string list \<Rightarrow> int option" where
  "radioModeFind name i [] = None"
| "radioModeFind name i (n # ns) =
     (if radioModeNameEq name n then Some i else radioModeFind name (i + 1) ns)"

definition radioModeFromName :: "string \<Rightarrow> int" where
  "radioModeFromName name = (case radioModeFind name 0 RADIO_IFACE_MODE_NAMES of
       Some i \<Rightarrow> i
     | None \<Rightarrow>
         if radioModeNameEq name ''FM'' then RADIO_IFACE_MODE_NFM
         else if radioModeNameEq name ''CW-R'' then RADIO_IFACE_MODE_CWR
         else -1)"

section \<open>Lemmas\<close>

lemma radioModeNameEq_iff:
  "radioModeNameEq a b \<longleftrightarrow> map radioModeFoldAscii a = map radioModeFoldAscii b"
  by (induction a b rule: radioModeNameEq.induct) auto

lemma radioModeFoldAscii_idem [simp]: "radioModeFoldAscii (radioModeFoldAscii c) = radioModeFoldAscii c"
  by (auto simp: radioModeFoldAscii_def is_lower_def)

lemma radioModeNameEq_fold:
  "radioModeNameEq (map radioModeFoldAscii a) b \<longleftrightarrow> radioModeNameEq a b"
  by (simp add: radioModeNameEq_iff comp_def)

lemma radioModeFromName_fold: "radioModeFromName (map radioModeFoldAscii name) = radioModeFromName name"
proof -
  have "radioModeFind (map radioModeFoldAscii name) i ns = radioModeFind name i ns" for i ns
    by (induction name i ns rule: radioModeFind.induct) (simp_all add: radioModeNameEq_fold)
  then show ?thesis by (simp add: radioModeFromName_def radioModeNameEq_fold)
qed

lemma radioModeFind_bounds: "radioModeFind name i ns = Some j \<Longrightarrow> i \<le> j \<and> j < i + int (length ns)"
  by (induction name i ns rule: radioModeFind.induct) (auto split: if_splits)

lemma radioModeFromName_range: "radioModeFromName name = -1 \<or> radioModeValid (radioModeFromName name)"
  using radioModeFind_bounds [of name 0 RADIO_IFACE_MODE_NAMES]
  by (auto simp: radioModeFromName_def radioModeValid_def mode_defs RADIO_IFACE_MODE_NAMES_def
      split: option.splits)

lemma radioModeValid_cases:
  assumes "radioModeValid m"
  shows "m \<in> {0, 1, 2, 3, 4, 5, 6, 7, 8}"
  using assms by (simp add: radioModeValid_def mode_defs) arith

lemma radioModeFromName_Name: "radioModeValid m \<Longrightarrow> radioModeFromName (radioModeName m) = m"
proof -
  have "\<forall>m \<in> set [0, 1, 2, 3, 4, 5, 6, 7, 8]. radioModeFromName (radioModeName m) = m"
    by code_simp
  then show "radioModeValid m \<Longrightarrow> ?thesis" using radioModeValid_cases [of m] by simp blast
qed

lemma radioModeFromName_other: "\<not> radioModeValid m \<Longrightarrow> radioModeFromName (radioModeName m) = -1"
  by (auto simp: radioModeName_def radioModeValid_def) code_simp+

section \<open>Properties\<close>

text \<open>
  Mode names identify modes: the parser inverts the name of every mode and rejects the
  placeholder of an invalid one, ignores the case of ASCII letters, and yields a mode number or -1
  for any text.
\<close>

theorem radio_mode_names_roundtrip:
  "radioModeFromName (radioModeName m) = (if radioModeValid m then m else -1) \<and>
   radioModeFromName (map radioModeFoldAscii name) = radioModeFromName name \<and>
   (radioModeFromName name = -1 \<or> radioModeValid (radioModeFromName name))"
  using radioModeFromName_Name radioModeFromName_other radioModeFromName_fold radioModeFromName_range
  by simp

end
