(* ===== verification/Json.thy ===== *)
theory Json
  imports Prelude "HOL-Library.List_Lexorder" "HOL-Library.Char_ord"
begin

text \<open>
  The JSON documents of \<open>nlohmann::json\<close> as \<open>core/src/config.h\<close> uses them: a value type with the
  library's number kinds, objects as key-sorted association lists (a \<open>std::map\<close>), the library's
  comparison, and the lookup, store, default-repair and erase helpers of \<open>config_detail\<close>. A key/value
  store contract states what a lookup returns after each update; the object operations meet it.
\<close>

section \<open>Values\<close>

datatype json =
    JNull
  | JBool bool
  | JInt int        \<comment> \<open>\<open>number_integer\<close>\<close>
  | JUnsigned nat   \<comment> \<open>\<open>number_unsigned\<close>\<close>
  | JFloat real     \<comment> \<open>\<open>number_float\<close>\<close>
  | JString string
  | JArray "json list"
  | JObject "(string \<times> json) list"

fun is_object :: "json \<Rightarrow> bool" where
  "is_object (JObject es) = True"
| "is_object _ = False"

fun is_array :: "json \<Rightarrow> bool" where
  "is_array (JArray xs) = True"
| "is_array _ = False"

fun is_null :: "json \<Rightarrow> bool" where
  "is_null JNull = True"
| "is_null _ = False"

fun is_string :: "json \<Rightarrow> bool" where
  "is_string (JString s) = True"
| "is_string _ = False"

fun is_number_float :: "json \<Rightarrow> bool" where
  "is_number_float (JFloat r) = True"
| "is_number_float _ = False"

fun is_number_integer :: "json \<Rightarrow> bool" where
  "is_number_integer (JInt i) = True"
| "is_number_integer (JUnsigned n) = True"
| "is_number_integer _ = False"

definition is_number :: "json \<Rightarrow> bool" where
  "is_number j \<longleftrightarrow> is_number_integer j \<or> is_number_float j"

text \<open>The numeric value that \<open>get\<close> of a \<open>double\<close> reads, and that the comparison compares.\<close>

fun number_value :: "json \<Rightarrow> real option" where
  "number_value (JInt i) = Some (of_int i)"
| "number_value (JUnsigned n) = Some (of_nat n)"
| "number_value (JFloat r) = Some r"
| "number_value _ = None"

lemma is_number_iff: "is_number j \<longleftrightarrow> (\<exists>r. number_value j = Some r)"
  by (cases j) (simp_all add: is_number_def)

text \<open>
  \<open>operator==\<close> of the library: numbers of different kinds compare by value, arrays elementwise,
  objects entry by entry in key order.
\<close>

fun jeq :: "json \<Rightarrow> json \<Rightarrow> bool"
  and jeq_list :: "json list \<Rightarrow> json list \<Rightarrow> bool"
  and jeq_entries :: "(string \<times> json) list \<Rightarrow> (string \<times> json) list \<Rightarrow> bool" where
  "jeq (JArray xs) (JArray ys) = jeq_list xs ys"
| "jeq (JObject es) (JObject fs) = jeq_entries es fs"
| "jeq JNull JNull = True"
| "jeq (JBool a) (JBool b) = (a = b)"
| "jeq (JString s) (JString t) = (s = t)"
| "jeq a b = (case (number_value a, number_value b) of
     (Some x, Some y) \<Rightarrow> x = y | _ \<Rightarrow> False)"
| "jeq_list [] [] = True"
| "jeq_list (x # xs) (y # ys) = (jeq x y \<and> jeq_list xs ys)"
| "jeq_list _ _ = False"
| "jeq_entries [] [] = True"
| "jeq_entries ((k, x) # es) ((l, y) # fs) = (k = l \<and> jeq x y \<and> jeq_entries es fs)"
| "jeq_entries _ _ = False"

section \<open>Objects as sorted association lists\<close>

fun obj_find :: "string \<Rightarrow> (string \<times> 'v) list \<Rightarrow> 'v option" where
  "obj_find k [] = None"
| "obj_find k ((l, v) # es) = (if k = l then Some v else obj_find k es)"

fun obj_set :: "string \<Rightarrow> 'v \<Rightarrow> (string \<times> 'v) list \<Rightarrow> (string \<times> 'v) list" where
  "obj_set k v [] = [(k, v)]"
| "obj_set k v ((l, w) # es) =
     (if k < l then (k, v) # (l, w) # es
      else if k = l then (k, v) # es
      else (l, w) # obj_set k v es)"

fun obj_erase :: "string \<Rightarrow> (string \<times> 'v) list \<Rightarrow> (string \<times> 'v) list" where
  "obj_erase k [] = []"
| "obj_erase k ((l, w) # es) = (if k = l then es else (l, w) # obj_erase k es)"

definition obj_wf :: "(string \<times> 'v) list \<Rightarrow> bool" where
  "obj_wf es \<longleftrightarrow> sorted_wrt (<) (map fst es)"

text \<open>The contract of a key/value store.\<close>

locale kv_store =
  fixes wf :: "'m \<Rightarrow> bool"
    and look :: "'k \<Rightarrow> 'm \<Rightarrow> 'v option"
    and ins :: "'k \<Rightarrow> 'v \<Rightarrow> 'm \<Rightarrow> 'm"
    and del :: "'k \<Rightarrow> 'm \<Rightarrow> 'm"
  assumes wf_ins: "wf m \<Longrightarrow> wf (ins k v m)"
    and wf_del: "wf m \<Longrightarrow> wf (del k m)"
    and look_ins: "wf m \<Longrightarrow> look l (ins k v m) = (if l = k then Some v else look l m)"
    and look_del: "wf m \<Longrightarrow> look l (del k m) = (if l = k then None else look l m)"
    and ext: "wf m \<Longrightarrow> wf n \<Longrightarrow> (\<And>k. look k m = look k n) \<Longrightarrow> m = n"
begin

lemma ins_same: "wf m \<Longrightarrow> look k m = Some v \<Longrightarrow> ins k v m = m"
  by (rule ext) (auto simp: wf_ins look_ins)

lemma del_absent: "wf m \<Longrightarrow> look k m = None \<Longrightarrow> del k m = m"
  by (rule ext) (auto simp: wf_del look_del)

lemma ins_ins: "wf m \<Longrightarrow> ins k v (ins k w m) = ins k v m"
  by (rule ext) (auto simp: wf_ins look_ins)

lemma ins_commute: "wf m \<Longrightarrow> k \<noteq> l \<Longrightarrow> ins k v (ins l w m) = ins l w (ins k v m)"
  by (rule ext) (auto simp: wf_ins look_ins)

lemma del_ins: "wf m \<Longrightarrow> look k m = None \<Longrightarrow> del k (ins k v m) = m"
  by (rule ext) (auto simp: wf_ins wf_del look_ins look_del)

text \<open>A sequence of insertions and deletions, one per key, acts key by key.\<close>

lemma wf_fold_del: "wf m \<Longrightarrow> wf (fold del ks m)"
  by (induction ks arbitrary: m) (auto simp: wf_del)

lemma look_fold_del: "wf m \<Longrightarrow> look l (fold del ks m) = (if l \<in> set ks then None else look l m)"
  by (induction ks arbitrary: m) (auto simp: wf_del look_del)

end

lemma obj_wf_Cons: "obj_wf ((k, v) # es) \<longleftrightarrow> obj_wf es \<and> (\<forall>l \<in> fst ` set es. k < l)"
  by (auto simp: obj_wf_def)

lemma obj_wf_Nil [simp]: "obj_wf []"
  by (simp add: obj_wf_def)

lemma obj_find_None_iff: "obj_find k es = None \<longleftrightarrow> k \<notin> fst ` set es"
  by (induction k es rule: obj_find.induct) (auto split: if_splits)

lemma obj_find_map_of: "obj_find k es = map_of es k"
  by (induction es) auto

lemma keys_obj_set: "fst ` set (obj_set k v es) = insert k (fst ` set es)"
  by (induction k v es rule: obj_set.induct) auto

lemma keys_obj_erase: "fst ` set (obj_erase k es) \<subseteq> fst ` set es"
  by (induction k es rule: obj_erase.induct) auto

lemma obj_wf_set: "obj_wf es \<Longrightarrow> obj_wf (obj_set k v es)"
proof (induction k v es rule: obj_set.induct)
  case (2 k v l w es)
  consider "k < l" | "k = l" | "l < k" by fastforce
  then show ?case
  proof cases
    case 1
    with 2 show ?thesis by (auto simp: obj_wf_Cons dest: less_trans)
  next
    case 2
    with "2.prems" show ?thesis by (simp add: obj_wf_Cons)
  next
    case 3
    then have "\<not> k < l" "k \<noteq> l" by auto
    with 2 3 show ?thesis by (simp add: obj_wf_Cons keys_obj_set)
  qed
qed (simp add: obj_wf_Cons)

lemma obj_wf_erase: "obj_wf es \<Longrightarrow> obj_wf (obj_erase k es)"
proof (induction k es rule: obj_erase.induct)
  case (2 k l w es)
  show ?case
  proof (cases "k = l")
    case True
    with "2.prems" show ?thesis by (simp add: obj_wf_Cons)
  next
    case False
    have "\<forall>m \<in> fst ` set (obj_erase k es). l < m"
      using "2.prems" keys_obj_erase [of k es] unfolding obj_wf_Cons by (meson subsetD)
    with 2 False show ?thesis by (simp add: obj_wf_Cons)
  qed
qed simp

lemma obj_find_set: "obj_find l (obj_set k v es) = (if l = k then Some v else obj_find l es)"
proof (induction es)
  case (Cons e es)
  obtain m w where "e = (m, w)" by (cases e)
  then show ?case by (simp only: obj_set.simps obj_find.simps Cons split: if_split) auto
qed simp

lemma obj_find_erase: "obj_wf es \<Longrightarrow> obj_find l (obj_erase k es) = (if l = k then None else obj_find l es)"
proof (induction k es rule: obj_erase.induct)
  case (2 k m w es)
  show ?case
  proof (cases "k = m")
    case True
    have "obj_find m es = None" using "2.prems" by (simp add: obj_wf_Cons obj_find_None_iff) fastforce
    with True show ?thesis by simp
  next
    case False
    have "obj_find l (obj_erase k es) = (if l = k then None else obj_find l es)"
      using 2 False by (simp add: obj_wf_Cons)
    with False show ?thesis by auto
  qed
qed simp

lemma obj_wf_distinct: "obj_wf es \<Longrightarrow> distinct (map fst es)"
  by (simp add: obj_wf_def strict_sorted_iff)

lemma obj_ext:
  assumes wf: "obj_wf es" "obj_wf fs" and eq: "\<And>k. obj_find k es = obj_find k fs"
  shows "es = fs"
proof (rule map_sorted_distinct_set_unique)
  have "map_of es = map_of fs" using eq by (auto simp: obj_find_map_of)
  then show s: "set es = set fs" using wf by (simp add: map_of_inject_set obj_wf_distinct)
  show "inj_on fst (set es \<union> set fs)"
    using wf(1) by (simp add: s [symmetric] obj_wf_distinct distinct_map [THEN iffD1])
  show "sorted (map fst es)" "sorted (map fst fs)" "distinct (map fst es)" "distinct (map fst fs)"
    using wf by (simp_all add: obj_wf_def strict_sorted_iff)
qed

interpretation obj: kv_store obj_wf obj_find obj_set obj_erase
  by unfold_locales (auto simp: obj_wf_set obj_wf_erase obj_find_set obj_find_erase intro: obj_ext)

section \<open>The comparison\<close>

lemma jeq_refl_all:
  shows jeq_refl [simp]: "jeq a a"
    and jeq_list_refl [simp]: "jeq_list xs xs"
    and jeq_entries_refl [simp]: "jeq_entries es es"
proof -
  have a: "jeq a a" for a
  proof (induction a)
    case (JArray xs)
    then have "jeq_list xs xs" by (induction xs) auto
    then show ?case by simp
  next
    case (JObject es)
    then have "jeq_entries es es" by (induction es) fastforce+
    then show ?case by simp
  qed simp_all
  show "jeq a a" by (rule a)
  show "jeq_list xs xs" by (induction xs) (simp_all add: a)
  show "jeq_entries es es" by (induction es) (auto simp: a)
qed

lemma jeq_list_iff: "jeq_list xs ys \<longleftrightarrow> list_all2 jeq xs ys"
  by (induction xs ys rule: list_induct2') simp_all

lemma jeq_entries_iff: "jeq_entries es fs \<longleftrightarrow> list_all2 (rel_prod (=) jeq) es fs"
proof (induction es fs rule: list_induct2')
  case (4 e es f fs)
  then show ?case by (cases e; cases f) simp
qed simp_all

lemma jeq_entries_find:
  "jeq_entries es fs \<Longrightarrow> rel_option jeq (obj_find k es) (obj_find k fs)"
proof (induction es fs rule: list_induct2')
  case (4 e es f fs)
  then show ?case by (cases e; cases f) simp
qed simp_all

lemma jeq_entries_keys: "jeq_entries es fs \<Longrightarrow> map fst es = map fst fs"
proof (induction es fs rule: list_induct2')
  case (4 e es f fs)
  then show ?case by (cases e; cases f) simp
qed simp_all

text \<open>Two well-formed objects are equal exactly when they agree on every key.\<close>

lemma jeq_entriesI:
  assumes "obj_wf es" "obj_wf fs" and eq: "\<And>k. rel_option jeq (obj_find k es) (obj_find k fs)"
  shows "jeq_entries es fs"
proof -
  have none: "obj_find k es = None \<longleftrightarrow> obj_find k fs = None" for k
    using eq [of k] by (auto simp: option_rel_Some1 option_rel_Some2)
  have keys: "fst ` set es = fst ` set fs" using none unfolding obj_find_None_iff by blast
  have k: "map fst es = map fst fs"
    using assms(1,2) keys by (intro sorted_distinct_set_unique) (simp_all add: obj_wf_def strict_sorted_iff)
  have val: "obj_find (fst (xs ! i)) xs = Some (snd (xs ! i))" if "obj_wf xs" "i < length xs" for xs :: "(string \<times> json) list" and i
    using that by (simp add: obj_find_map_of obj_wf_distinct)
  have "length es = length fs" using k by (metis length_map)
  moreover have "rel_prod (=) jeq (es ! i) (fs ! i)" if i: "i < length es" for i
  proof -
    have i': "i < length fs" using i calculation by simp
    have f: "fst (es ! i) = fst (fs ! i)" using k i i' by (metis nth_map)
    have "jeq (snd (es ! i)) (snd (fs ! i))"
      using eq [of "fst (es ! i)"] val [OF assms(1) i] val [OF assms(2) i'] f by simp
    with f show ?thesis by (simp add: rel_prod_sel)
  qed
  ultimately show ?thesis by (simp add: jeq_entries_iff list_all2_conv_all_nth)
qed

lemma jeq_objects:
  "obj_wf es \<Longrightarrow> obj_wf fs \<Longrightarrow>
   jeq (JObject es) (JObject fs) \<longleftrightarrow> (\<forall>k. rel_option jeq (obj_find k es) (obj_find k fs))"
  using jeq_entriesI jeq_entries_find by auto

lemma jeq_is_object: "jeq a b \<Longrightarrow> is_object a = is_object b"
  by (cases a; cases b) auto

lemma jeq_is_null: "jeq a b \<Longrightarrow> is_null a = is_null b"
  by (cases a; cases b) auto

lemma jeq_object_right: "jeq a (JObject fs) \<Longrightarrow> \<exists>es. a = JObject es \<and> jeq_entries es fs"
  by (cases a) auto

lemma jeq_sym: "jeq a b \<Longrightarrow> jeq b a"
proof (induction a arbitrary: b)
  case (JArray xs)
  then obtain ys where b: "b = JArray ys" "list_all2 jeq xs ys"
    by (cases b) (auto simp: jeq_list_iff)
  then have "list_all2 jeq ys xs"
    using JArray.IH by (auto simp: list_all2_conv_all_nth)
  with b show ?case by (simp add: jeq_list_iff)
next
  case (JObject es)
  then obtain fs where b: "b = JObject fs" "list_all2 (rel_prod (=) jeq) es fs"
    by (cases b) (auto simp: jeq_entries_iff)
  have "list_all2 (rel_prod (=) jeq) fs es"
    unfolding list_all2_conv_all_nth
  proof (intro conjI allI impI)
    show "length fs = length es" using b(2) by (simp add: list_all2_lengthD)
    fix i assume "i < length fs"
    then have i: "i < length es" using b(2) by (simp add: list_all2_lengthD)
    have r: "rel_prod (=) jeq (es ! i) (fs ! i)" using b(2) i by (rule list_all2_nthD)
    have m: "es ! i \<in> set es" "snd (es ! i) \<in> Basic_BNFs.snds (es ! i)"
      using i by (simp_all add: snds.intros)
    have "jeq (snd (es ! i)) (snd (fs ! i))" "fst (es ! i) = fst (fs ! i)"
      using r by (auto simp: rel_prod_sel)
    then have "jeq (snd (fs ! i)) (snd (es ! i))" "fst (fs ! i) = fst (es ! i)"
      using JObject.IH [OF m] by simp_all
    then show "rel_prod (=) jeq (fs ! i) (es ! i)" by (simp add: rel_prod_sel)
  qed
  with b show ?case by (simp add: jeq_entries_iff)
next
  case JNull then show ?case by (cases b) auto
next
  case (JBool x) then show ?case by (cases b) auto
next
  case (JInt x) then show ?case by (cases b) auto
next
  case (JUnsigned x) then show ?case by (cases b) auto
next
  case (JFloat x) then show ?case by (cases b) auto
next
  case (JString x) then show ?case by (cases b) auto
qed

lemma jeq_sym_iff: "jeq a b \<longleftrightarrow> jeq b a"
  using jeq_sym by blast

lemma jeq_numbers: "number_value a = Some x \<Longrightarrow> jeq a b \<longleftrightarrow> number_value b = Some x"
  by (cases a; cases b) auto

lemma jeq_trans: "jeq a b \<Longrightarrow> jeq b c \<Longrightarrow> jeq a c"
proof (induction a arbitrary: b c)
  case (JArray xs)
  then obtain ys where b: "b = JArray ys" "list_all2 jeq xs ys"
    by (cases b) (auto simp: jeq_list_iff)
  with JArray.prems obtain zs where c: "c = JArray zs" "list_all2 jeq ys zs"
    by (cases c) (auto simp: jeq_list_iff)
  have "list_all2 jeq xs zs"
    using b(2) c(2) JArray.IH by (auto simp: list_all2_conv_all_nth)
  with c show ?case by (simp add: jeq_list_iff)
next
  case (JObject es)
  then obtain fs where b: "b = JObject fs" "list_all2 (rel_prod (=) jeq) es fs"
    by (cases b) (auto simp: jeq_entries_iff)
  with JObject.prems obtain gs where c: "c = JObject gs" "list_all2 (rel_prod (=) jeq) fs gs"
    by (cases c) (auto simp: jeq_entries_iff)
  have "list_all2 (rel_prod (=) jeq) es gs"
    unfolding list_all2_conv_all_nth
  proof (intro conjI allI impI)
    show "length es = length gs" using b(2) c(2) by (simp add: list_all2_lengthD)
    fix i assume i: "i < length es"
    then have r: "rel_prod (=) jeq (es ! i) (fs ! i)" "rel_prod (=) jeq (fs ! i) (gs ! i)"
      using b(2) c(2) by (simp_all add: list_all2_conv_all_nth)
    have m: "es ! i \<in> set es" "snd (es ! i) \<in> Basic_BNFs.snds (es ! i)"
      using i by (simp_all add: snds.intros)
    have "jeq (snd (es ! i)) (snd (fs ! i))" "jeq (snd (fs ! i)) (snd (gs ! i))"
      "fst (es ! i) = fst (gs ! i)"
      using r by (auto simp: rel_prod_sel)
    then have "jeq (snd (es ! i)) (snd (gs ! i))" "fst (es ! i) = fst (gs ! i)"
      using JObject.IH [OF m] by blast+
    then show "rel_prod (=) jeq (es ! i) (gs ! i)" by (simp add: rel_prod_sel)
  qed
  with c show ?case by (simp add: jeq_entries_iff)
next
  case JNull then show ?case by (cases b; cases c) auto
next
  case (JBool x) then show ?case by (cases b; cases c) auto
next
  case (JInt x) then show ?case by (metis jeq_numbers number_value.simps(1))
next
  case (JUnsigned x) then show ?case by (metis jeq_numbers number_value.simps(2))
next
  case (JFloat x) then show ?case by (metis jeq_numbers number_value.simps(3))
next
  case (JString x) then show ?case by (cases b; cases c) auto
qed

text \<open>Every object in a document is key-sorted.\<close>

fun wf_json :: "json \<Rightarrow> bool"
  and wf_json_list :: "json list \<Rightarrow> bool"
  and wf_json_entries :: "(string \<times> json) list \<Rightarrow> bool" where
  "wf_json (JArray xs) = wf_json_list xs"
| "wf_json (JObject es) = (obj_wf es \<and> wf_json_entries es)"
| "wf_json _ = True"
| "wf_json_list [] = True"
| "wf_json_list (x # xs) = (wf_json x \<and> wf_json_list xs)"
| "wf_json_entries [] = True"
| "wf_json_entries ((k, v) # es) = (wf_json v \<and> wf_json_entries es)"

lemma wf_json_entries_iff: "wf_json_entries es \<longleftrightarrow> (\<forall>e \<in> set es. wf_json (snd e))"
  by (induction es) auto

lemma wf_json_entries_find: "wf_json_entries es \<Longrightarrow> obj_find k es = Some v \<Longrightarrow> wf_json v"
  by (induction es) (auto split: if_splits)

lemma wf_json_entries_set: "wf_json_entries es \<Longrightarrow> wf_json v \<Longrightarrow> wf_json_entries (obj_set k v es)"
proof (induction es)
  case (Cons e es)
  obtain l w where "e = (l, w)" by (cases e)
  with Cons show ?case by (simp only: obj_set.simps wf_json_entries.simps split: if_split) simp
qed simp

lemma wf_json_entries_erase: "wf_json_entries es \<Longrightarrow> wf_json_entries (obj_erase k es)"
  by (induction k es rule: obj_erase.induct) auto

end
