(* ===== verification/ConfigStore.thy ===== *)
theory ConfigStore
  imports Json
begin

text \<open>
  Reads and edits of a configuration document, from \<open>core/src/config.h\<close>: the \<open>config_detail\<close>
  helpers, \<open>EditAccess\<close> and the path-addressed sections. A writer returns the new document and
  whether it wrote, the flag the access accumulates; a section is the list of keys that leads to
  it, resolved at each use as in the source. The lemmas give the frame of every writer (what it
  changes, what it leaves alone) and show that the flag is raised exactly when the document
  changes as a JSON value.
\<close>

section \<open>Helpers on one node\<close>

definition config_find :: "json \<Rightarrow> string \<Rightarrow> json option" where
  "config_find node key = (case node of JObject es \<Rightarrow> obj_find key es | _ \<Rightarrow> None)"

text \<open>\<open>json::type()\<close>, as far as \<open>typeCompatible\<close> compares it.\<close>

fun json_type :: "json \<Rightarrow> nat" where
  "json_type JNull = 0"
| "json_type (JObject es) = 1"
| "json_type (JArray xs) = 2"
| "json_type (JString s) = 3"
| "json_type (JBool b) = 4"
| "json_type (JInt i) = 5"
| "json_type (JUnsigned n) = 6"
| "json_type (JFloat r) = 7"

definition typeCompatible :: "json \<Rightarrow> json \<Rightarrow> bool" where
  "typeCompatible a b =
     (if is_number_float b then is_number a
      else if is_number_integer b then is_number_integer a
      else json_type a = json_type b)"

text \<open>The C++ types a default can have: an integral type other than \<open>bool\<close>, or another one.\<close>

datatype cpp_type = CppIntegral bool nat | CppOther

definition int_max :: "bool \<Rightarrow> nat \<Rightarrow> int" where
  "int_max is_signed bits = (if is_signed then 2 ^ (bits - 1) - 1 else 2 ^ bits - 1)"

definition int_min :: "bool \<Rightarrow> nat \<Rightarrow> int" where
  "int_min is_signed bits = (if is_signed then - (2 ^ (bits - 1)) else 0)"

fun integerFits :: "bool \<Rightarrow> nat \<Rightarrow> json \<Rightarrow> bool" where
  "integerFits is_signed bits (JUnsigned number) = (int number \<le> int_max is_signed bits)"
| "integerFits is_signed bits (JInt number) =
     (if is_signed then number \<ge> int_min is_signed bits \<and> number \<le> int_max is_signed bits
      else number \<ge> 0 \<and> number \<le> int_max is_signed bits)"
| "integerFits is_signed bits _ = False"

text \<open>
  The writers. \<open>None\<close> is the \<open>type_error\<close> that \<open>operator[]\<close> throws on a node that is neither an
  object nor null.
\<close>

definition node_put :: "json \<Rightarrow> string \<Rightarrow> json \<Rightarrow> json option" where
  "node_put node key v = (case node of
       JObject es \<Rightarrow> Some (JObject (obj_set key v es))
     | JNull \<Rightarrow> Some (JObject [(key, v)])
     | _ \<Rightarrow> None)"

definition setValue :: "json \<Rightarrow> string \<Rightarrow> json \<Rightarrow> (json \<times> bool) option" where
  "setValue node key v = (case config_find node key of
       Some it \<Rightarrow> if jeq it v then Some (node, False)
                  else map_option (\<lambda>n. (n, True)) (node_put node key v)
     | None \<Rightarrow> map_option (\<lambda>n. (n, True)) (node_put node key v))"

fun fits_type :: "cpp_type \<Rightarrow> json \<Rightarrow> bool" where
  "fits_type (CppIntegral is_signed bits) v = integerFits is_signed bits v"
| "fits_type CppOther v = True"

definition ensureValue :: "cpp_type \<Rightarrow> json \<Rightarrow> string \<Rightarrow> json \<Rightarrow> (json \<times> bool) option" where
  "ensureValue T node key def = (case config_find node key of
       Some it \<Rightarrow> if typeCompatible it def \<and> fits_type T it then Some (node, False)
                  else map_option (\<lambda>n. (n, True)) (node_put node key def)
     | None \<Rightarrow> map_option (\<lambda>n. (n, True)) (node_put node key def))"

definition eraseValue :: "json \<Rightarrow> string \<Rightarrow> json \<times> bool" where
  "eraseValue node key = (case node of
       JObject es \<Rightarrow> (case obj_find key es of
           Some v \<Rightarrow> (JObject (obj_erase key es), True)
         | None \<Rightarrow> (node, False))
     | _ \<Rightarrow> (node, False))"

text \<open>
  \<open>getValue\<close> for the types the modelled code reads. A missing or null entry, and one that \<open>get\<close>
  cannot convert, leaves the caller's value.
\<close>

definition getValue :: "(json \<Rightarrow> 'a option) \<Rightarrow> json option \<Rightarrow> string \<Rightarrow> 'a option" where
  "getValue conv node key = (case node of None \<Rightarrow> None | Some n \<Rightarrow>
     (case config_find n key of None \<Rightarrow> None | Some v \<Rightarrow> if is_null v then None else conv v))"

fun get_string :: "json \<Rightarrow> string option" where
  "get_string (JString s) = Some s"
| "get_string _ = None"

fun get_bool :: "json \<Rightarrow> bool option" where
  "get_bool (JBool b) = Some b"
| "get_bool _ = None"

definition get_integral :: "bool \<Rightarrow> nat \<Rightarrow> json \<Rightarrow> int option" where
  "get_integral is_signed bits v = (if \<not> integerFits is_signed bits v then None
     else (case v of JInt i \<Rightarrow> Some i | JUnsigned n \<Rightarrow> Some (int n) | _ \<Rightarrow> None))"

section \<open>Sections\<close>

fun resolve :: "json \<Rightarrow> string list \<Rightarrow> json option" where
  "resolve node [] = Some node"
| "resolve node (key # path) = (case config_find node key of
     None \<Rightarrow> None | Some child \<Rightarrow> resolve child path)"

text \<open>
  \<open>materialize\<close>: every key of the path leads to an object afterwards. The second component tells
  whether a node was replaced or added on the way.
\<close>

fun materialize :: "json \<Rightarrow> string list \<Rightarrow> json \<times> bool" where
  "materialize node [] = (node, False)"
| "materialize node (key # path) =
     (let (es, replaced) = (case node of JObject es \<Rightarrow> (es, False) | JNull \<Rightarrow> ([], False) | _ \<Rightarrow> ([], True));
          (child, added) = (case obj_find key es of
             Some (JObject cs) \<Rightarrow> (JObject cs, False) | _ \<Rightarrow> (JObject [], True));
          (child', deeper) = materialize child path
      in (JObject (obj_set key child' es), replaced \<or> added \<or> deeper))"

text \<open>The document with the materialized node at a path replaced.\<close>

fun put_at :: "json \<Rightarrow> string list \<Rightarrow> json \<Rightarrow> json" where
  "put_at node [] v = v"
| "put_at node (key # path) v = (case node of
     JObject es \<Rightarrow> (case obj_find key es of
         Some child \<Rightarrow> JObject (obj_set key (put_at child path v) es)
       | None \<Rightarrow> node)
   | _ \<Rightarrow> node)"

record EditAccess =
  conf :: json
  changed :: bool

definition on_node ::
    "(json \<Rightarrow> (json \<times> bool) option) \<Rightarrow> EditAccess \<Rightarrow> string list \<Rightarrow> (EditAccess \<times> bool) option" where
  "on_node f owner path =
     (let (doc, m) = materialize (conf owner) path in
      case resolve doc path of None \<Rightarrow> None | Some node \<Rightarrow>
      (case f node of None \<Rightarrow> None | Some (node', wrote) \<Rightarrow>
         Some (\<lparr>conf = put_at doc path node', changed = changed owner \<or> m \<or> wrote\<rparr>, wrote)))"

definition section_set :: "EditAccess \<Rightarrow> string list \<Rightarrow> string \<Rightarrow> json \<Rightarrow> (EditAccess \<times> bool) option" where
  "section_set owner path key v = on_node (\<lambda>node. setValue node key v) owner path"

definition section_ensure ::
    "cpp_type \<Rightarrow> EditAccess \<Rightarrow> string list \<Rightarrow> string \<Rightarrow> json \<Rightarrow> (EditAccess \<times> bool) option" where
  "section_ensure T owner path key v = on_node (\<lambda>node. ensureValue T node key v) owner path"

definition section_erase :: "EditAccess \<Rightarrow> string list \<Rightarrow> string \<Rightarrow> EditAccess \<times> bool" where
  "section_erase owner path key = (case resolve (conf owner) path of
     None \<Rightarrow> (owner, False)
   | Some node \<Rightarrow> (let (node', wrote) = eraseValue node key in
       (\<lparr>conf = (if wrote then put_at (conf owner) path node' else conf owner),
         changed = changed owner \<or> wrote\<rparr>, wrote)))"

definition section_value :: "(json \<Rightarrow> 'a option) \<Rightarrow> json \<Rightarrow> string list \<Rightarrow> string \<Rightarrow> 'a \<Rightarrow> 'a" where
  "section_value conv doc path key def =
     (case getValue conv (resolve doc path) key of Some v \<Rightarrow> v | None \<Rightarrow> def)"

definition edit_reset :: "EditAccess \<Rightarrow> json \<Rightarrow> EditAccess \<times> bool" where
  "edit_reset owner doc =
     (let wrote = \<not> jeq (conf owner) doc in
      (\<lparr>conf = (if wrote then doc else conf owner), changed = changed owner \<or> wrote\<rparr>, wrote))"

section \<open>Lemmas\<close>

lemma config_find_JObject [simp]: "config_find (JObject es) k = obj_find k es"
  by (simp add: config_find_def)

lemma config_find_other: "\<not> is_object node \<Longrightarrow> config_find node k = None"
  by (cases node) (simp_all add: config_find_def)

lemma wf_json_find: "wf_json node \<Longrightarrow> config_find node k = Some v \<Longrightarrow> wf_json v"
  by (cases node) (auto simp: config_find_def intro: wf_json_entries_find)

lemma wf_json_resolve: "wf_json node \<Longrightarrow> resolve node path = Some v \<Longrightarrow> wf_json v"
  by (induction node path rule: resolve.induct) (auto split: option.splits dest: wf_json_find)

text \<open>The entries a node is treated as having before a child is looked up in it.\<close>

definition node_entries :: "json \<Rightarrow> (string \<times> json) list" where
  "node_entries node = (case node of JObject es \<Rightarrow> es | _ \<Rightarrow> [])"

lemma node_entries_simps [simp]: "node_entries (JObject es) = es"
  by (simp add: node_entries_def)

lemma config_find_entries: "config_find node k = obj_find k (node_entries node)"
  by (cases node) (simp_all add: config_find_def node_entries_def)

lemma wf_node_entries: "wf_json node \<Longrightarrow> obj_wf (node_entries node) \<and> wf_json_entries (node_entries node)"
  by (cases node) (simp_all add: node_entries_def)

definition child_object :: "json option \<Rightarrow> json" where
  "child_object c = (case c of Some (JObject cs) \<Rightarrow> JObject cs | _ \<Rightarrow> JObject [])"

lemma materialize_Cons:
  "fst (materialize node (k # path)) =
     JObject (obj_set k (fst (materialize (child_object (config_find node k)) path)) (node_entries node))"
  by (cases node)
    (auto simp: Let_def node_entries_def config_find_def child_object_def split: prod.splits option.splits json.splits)

lemma wf_child_object: "wf_json node \<Longrightarrow> wf_json (child_object (config_find node k))"
  using wf_json_find [of node k] by (auto simp: child_object_def split: option.splits json.splits)

lemma wf_materialize: "wf_json node \<Longrightarrow> wf_json (fst (materialize node path))"
proof (induction path arbitrary: node)
  case (Cons k path)
  then show ?case
    using wf_node_entries [of node]
    by (simp add: materialize_Cons obj_wf_set wf_json_entries_set wf_child_object del: materialize.simps)
qed simp

text \<open>After materializing, the path leads to an object with the entries that were there before.\<close>

lemma resolve_materialize:
  "path \<noteq> [] \<Longrightarrow> \<exists>es. resolve (fst (materialize node path)) path = Some (JObject es) \<and>
     es = (case resolve node path of Some (JObject cs) \<Rightarrow> cs | _ \<Rightarrow> [])"
proof (induction path arbitrary: node)
  case (Cons k path)
  let ?c = "child_object (config_find node k)"
  show ?case
  proof (cases "path = []")
    case True
    then show ?thesis
      by (auto simp: materialize_Cons obj_find_set child_object_def config_find_entries
          simp del: materialize.simps(2) split: option.splits json.splits)
  next
    case False
    have r: "(case resolve ?c path of Some (JObject cs) \<Rightarrow> cs | _ \<Rightarrow> []) =
             (case resolve node (k # path) of Some (JObject cs) \<Rightarrow> cs | _ \<Rightarrow> [])"
      using False by (cases path)
        (auto simp: child_object_def config_find_def split: option.splits json.splits)
    show ?thesis
      using Cons.IH [OF False, of ?c] r
      by (simp add: materialize_Cons obj_find_set del: materialize.simps(2))
  qed
qed simp

lemma resolve_append:
  "resolve node (p @ q) = (case resolve node p of None \<Rightarrow> None | Some n \<Rightarrow> resolve n q)"
  by (induction node p rule: resolve.induct) (auto split: option.splits)

lemma resolve_put_at_same: "resolve node path = Some x \<Longrightarrow> resolve (put_at node path v) path = Some v"
  by (induction node path v rule: put_at.induct)
    (auto simp: config_find_def obj_find_set split: option.splits json.splits)

lemma wf_put_at: "wf_json node \<Longrightarrow> wf_json v \<Longrightarrow> wf_json (put_at node path v)"
proof (induction node path v rule: put_at.induct)
  case (2 node key path v)
  show ?case
  proof (cases "\<exists>es c. node = JObject es \<and> obj_find key es = Some c")
    case True
    then obtain es c where "node = JObject es" "obj_find key es = Some c" by blast
    then show ?thesis
      using 2 wf_json_entries_find [of es key c] by (simp add: obj_wf_set wf_json_entries_set)
  next
    case False
    then show ?thesis using 2 by (auto split: option.splits json.splits)
  qed
qed simp

text \<open>Two paths part at some position.\<close>

fun diverge :: "string list \<Rightarrow> string list \<Rightarrow> bool" where
  "diverge (a # p) (b # q) = (if a = b then diverge p q else True)"
| "diverge _ _ = False"

lemma resolve_put_at_other: "diverge path other \<Longrightarrow> resolve (put_at node path v) other = resolve node other"
proof (induction node path v arbitrary: other rule: put_at.induct)
  case (2 node key path v)
  obtain k rest where o: "other = k # rest" using "2.prems" by (cases other) auto
  show ?case
  proof (cases "k = key")
    case True
    then have d: "diverge path rest" using "2.prems" o by simp
    then show ?thesis using 2 o True
      by (auto simp: config_find_def obj_find_set split: option.splits json.splits)
  next
    case False
    then show ?thesis using o
      by (auto simp: config_find_def obj_find_set split: option.splits json.splits)
  qed
qed simp

lemma resolve_materialize_other:
  "diverge path other \<Longrightarrow> resolve (fst (materialize node path)) other = resolve node other"
proof (induction path arbitrary: node other)
  case (Cons key path)
  obtain k rest where o: "other = k # rest" using Cons.prems by (cases other) auto
  show ?case
  proof (cases "k = key")
    case True
    then have d: "diverge path rest" using Cons.prems o by simp
    obtain r rs where "rest = r # rs" using d by (cases rest; cases path) auto
    then have "resolve (child_object (config_find node k)) rest = resolve node (k # rest)"
      by (auto simp: child_object_def config_find_def split: option.splits json.splits)
    then show ?thesis using Cons.IH [OF d, of "child_object (config_find node k)"] o True
      by (simp add: materialize_Cons obj_find_set del: materialize.simps)
  next
    case False
    then show ?thesis using o
      by (simp add: materialize_Cons obj_find_set config_find_entries del: materialize.simps)
  qed
qed simp

lemma resolve_Cons_object: "resolve node (k # path) = Some v \<Longrightarrow> \<exists>es. node = JObject es"
  by (cases node) (simp_all add: config_find_def)

lemma materialize_flag:
  "path \<noteq> [] \<Longrightarrow> snd (materialize node path) \<longleftrightarrow> \<not> (\<exists>es. resolve node path = Some (JObject es))"
proof (induction path arbitrary: node)
  case (Cons k path)
  have step: "snd (materialize node (k # path)) \<longleftrightarrow>
      (case config_find node k of Some (JObject cs) \<Rightarrow> snd (materialize (JObject cs) path) | _ \<Rightarrow> True)"
    by (cases node) (auto simp: Let_def config_find_def split: prod.splits option.splits json.splits)
  show ?case
  proof (cases "path = []")
    case True
    have "snd (materialize node [k]) \<longleftrightarrow>
        (case config_find node k of Some (JObject cs) \<Rightarrow> False | _ \<Rightarrow> True)"
      using step unfolding True by (simp del: materialize.simps(2) cong: option.case_cong json.case_cong)
    then show ?thesis unfolding True by (auto simp del: materialize.simps split: option.splits json.splits)
  next
    case False
    have "\<not> (\<exists>es. resolve v path = Some (JObject es))" if "\<not> is_object v" for v
      using False that resolve_Cons_object by (cases path) fastforce+
    then show ?thesis using Cons.IH [OF False]
      by (auto simp: step simp del: materialize.simps(2) split: option.splits json.splits)
  qed
qed simp

lemma materialize_id:
  "wf_json node \<Longrightarrow> resolve node path = Some (JObject es) \<Longrightarrow> fst (materialize node path) = node"
proof (induction path arbitrary: node)
  case (Cons k path)
  obtain fs where n: "node = JObject fs" using Cons.prems(2) resolve_Cons_object by blast
  obtain c where c: "obj_find k fs = Some c" using Cons.prems n by (cases "obj_find k fs") auto
  have co: "child_object (Some c) = c"
  proof (cases path)
    case Nil
    then show ?thesis using Cons.prems n c by (simp add: child_object_def)
  next
    case (Cons l p)
    then obtain cs where "c = JObject cs"
      using Cons.prems(2) n c resolve_Cons_object [of c l p] by auto
    then show ?thesis by (simp add: child_object_def)
  qed
  have "fst (materialize c path) = c"
    using Cons n c wf_json_find [OF Cons.prems(1), of k c] by simp
  then show ?case
    using n c co Cons.prems(1) by (simp add: materialize_Cons obj.ins_same del: materialize.simps)
qed simp

lemma put_at_same: "wf_json node \<Longrightarrow> resolve node path = Some v \<Longrightarrow> put_at node path v = node"
proof (induction path arbitrary: node)
  case (Cons k path)
  obtain fs where n: "node = JObject fs" using Cons.prems(2) resolve_Cons_object by blast
  obtain c where c: "obj_find k fs = Some c" using Cons.prems n by (cases "obj_find k fs") auto
  have "put_at c path v = c"
    using Cons n c wf_json_find [OF Cons.prems(1), of k c] by simp
  then show ?case using n c Cons.prems(1) by (simp add: obj.ins_same)
qed simp

text \<open>Equal documents have equal sections.\<close>

lemma config_find_jeq: "jeq a b \<Longrightarrow> rel_option jeq (config_find a k) (config_find b k)"
  by (cases a; cases b) (auto simp: config_find_def jeq_entries_find)

lemma resolve_jeq: "jeq a b \<Longrightarrow> rel_option jeq (resolve a path) (resolve b path)"
proof (induction path arbitrary: a b)
  case (Cons k path)
  show ?case using config_find_jeq [OF Cons.prems, of k] Cons.IH
    by (auto simp: option_rel_Some1 option_rel_Some2 split: option.splits)
qed simp

section \<open>What a writer does\<close>

text \<open>The object a section denotes: no entries when the path is missing or not an object.\<close>

definition section_entries :: "json \<Rightarrow> string list \<Rightarrow> (string \<times> json) list" where
  "section_entries doc path = (case resolve doc path of Some (JObject es) \<Rightarrow> es | _ \<Rightarrow> [])"

lemma resolve_materialize_entries:
  "path \<noteq> [] \<Longrightarrow> resolve (fst (materialize doc path)) path = Some (JObject (section_entries doc path))"
  using resolve_materialize [of path doc] by (auto simp: section_entries_def split: option.splits json.splits)

lemma on_node_eq:
  assumes "path \<noteq> []" and "f (JObject (section_entries (conf a) path)) = Some (JObject es, wrote)"
  shows "on_node f a path = Some (\<lparr>conf = put_at (fst (materialize (conf a) path)) path (JObject es),
           changed = changed a \<or> snd (materialize (conf a) path) \<or> wrote\<rparr>, wrote)"
  using resolve_materialize_entries [OF assms(1), of "conf a"] assms(2)
  by (simp add: on_node_def case_prod_beta)

lemma on_node_spec:
  assumes p: "path \<noteq> []" and f: "f (JObject (section_entries (conf a) path)) = Some (JObject es, wrote)"
    and wf: "wf_json (conf a)" "wf_json (JObject es)"
  shows "\<exists>a'. on_node f a path = Some (a', wrote) \<and> wf_json (conf a') \<and>
           resolve (conf a') path = Some (JObject es) \<and>
           (\<forall>other. diverge path other \<longrightarrow> resolve (conf a') other = resolve (conf a) other)"
  unfolding on_node_eq [OF p, of f, OF f]
  using resolve_put_at_same [OF resolve_materialize_entries [OF p]] wf wf_materialize wf_put_at
  by (simp add: resolve_put_at_other resolve_materialize_other)

text \<open>
  The flag of the access: when the function reports a write exactly when it changes the node as a
  value, the writer raises the flag exactly when it changes the document as a value.
\<close>

lemma on_node_flag:
  assumes p: "path \<noteq> []" and f: "f (JObject (section_entries (conf a) path)) = Some (JObject es, wrote)"
    and wf: "wf_json (conf a)"
    and w: "wrote \<longleftrightarrow> \<not> jeq (JObject (section_entries (conf a) path)) (JObject es)"
    and id: "\<not> wrote \<Longrightarrow> es = section_entries (conf a) path"
    and r: "on_node f a path = Some (a', wrote')"
  shows "changed a' \<longleftrightarrow> changed a \<or> \<not> jeq (conf a) (conf a')"
proof -
  let ?d = "fst (materialize (conf a) path)"
  have a': "a' = \<lparr>conf = put_at ?d path (JObject es),
      changed = changed a \<or> snd (materialize (conf a) path) \<or> wrote\<rparr>"
    using r on_node_eq [OF p, of f, OF f] by auto
  have at: "resolve (conf a') path = Some (JObject es)"
    using resolve_put_at_same [OF resolve_materialize_entries [OF p]] a' by simp
  have "snd (materialize (conf a) path) \<or> wrote \<longleftrightarrow> \<not> jeq (conf a) (conf a')"
  proof (cases "\<exists>cs. resolve (conf a) path = Some (JObject cs)")
    case True
    then obtain cs where cs: "resolve (conf a) path = Some (JObject cs)" by blast
    then have e: "section_entries (conf a) path = cs" by (simp add: section_entries_def)
    have m: "\<not> snd (materialize (conf a) path)" using materialize_flag [OF p] cs by blast
    have d: "?d = conf a" using materialize_id [OF wf cs] .
    show ?thesis
    proof (cases wrote)
      case True
      then have "\<not> jeq (JObject cs) (JObject es)" using w e by simp
      then have "\<not> jeq (conf a) (conf a')" using resolve_jeq [of "conf a" "conf a'" path] cs at by auto
      with True show ?thesis by simp
    next
      case False
      then have "conf a' = conf a" using a' d id e put_at_same [OF wf cs] by simp
      with False m show ?thesis by simp
    qed
  next
    case False
    then have m: "snd (materialize (conf a) path)" using materialize_flag [OF p] by blast
    have "\<not> jeq (conf a) (conf a')"
    proof
      assume "jeq (conf a) (conf a')"
      then have "rel_option jeq (resolve (conf a) path) (Some (JObject es))"
        using resolve_jeq [of "conf a" "conf a'" path] at by simp
      then show False using False jeq_object_right by (fastforce simp: option_rel_Some2)
    qed
    with m show ?thesis by simp
  qed
  moreover have "changed a' \<longleftrightarrow> changed a \<or> snd (materialize (conf a) path) \<or> wrote"
    by (simp add: a')
  ultimately show ?thesis by simp
qed

lemma setValue_object:
  "setValue (JObject es) k v =
     (case obj_find k es of
        Some it \<Rightarrow> if jeq it v then Some (JObject es, False) else Some (JObject (obj_set k v es), True)
      | None \<Rightarrow> Some (JObject (obj_set k v es), True))"
  by (simp add: setValue_def node_put_def split: option.splits)

definition set_entries :: "string \<Rightarrow> json \<Rightarrow> (string \<times> json) list \<Rightarrow> (string \<times> json) list" where
  "set_entries k v es = (case obj_find k es of
     Some it \<Rightarrow> if jeq it v then es else obj_set k v es | None \<Rightarrow> obj_set k v es)"

definition set_writes :: "string \<Rightarrow> json \<Rightarrow> (string \<times> json) list \<Rightarrow> bool" where
  "set_writes k v es = (case obj_find k es of Some it \<Rightarrow> \<not> jeq it v | None \<Rightarrow> True)"

lemma setValue_entries: "setValue (JObject es) k v = Some (JObject (set_entries k v es), set_writes k v es)"
  by (simp add: setValue_object set_entries_def set_writes_def split: option.splits)

lemma wf_section_entries:
  "wf_json doc \<Longrightarrow> obj_wf (section_entries doc path) \<and> wf_json_entries (section_entries doc path)"
  using wf_json_resolve [of doc path] by (auto simp: section_entries_def split: option.splits json.splits)

lemma wf_set_entries:
  "wf_json_entries es \<Longrightarrow> obj_wf es \<Longrightarrow> wf_json v \<Longrightarrow> wf_json (JObject (set_entries k v es))"
  by (auto simp: set_entries_def obj_wf_set wf_json_entries_set split: option.splits)

lemma find_set_entries:
  "rel_option jeq (obj_find l (set_entries k v es)) (if l = k then Some v else obj_find l es)"
  by (auto simp: set_entries_def obj_find_set option.rel_refl split: option.splits)

lemma set_writes_iff:
  assumes "obj_wf es"
  shows "set_writes k v es \<longleftrightarrow> \<not> jeq (JObject es) (JObject (set_entries k v es))"
proof
  assume w: "set_writes k v es"
  then have "set_entries k v es = obj_set k v es"
    by (auto simp: set_writes_def set_entries_def split: option.splits)
  moreover have "\<not> rel_option jeq (obj_find k es) (Some v)"
    using w by (auto simp: set_writes_def option_rel_Some2 split: option.splits)
  ultimately show "\<not> jeq (JObject es) (JObject (set_entries k v es))"
    using jeq_entries_find [of es "obj_set k v es" k] by (auto simp: obj_find_set)
qed (auto simp: set_writes_def set_entries_def split: option.splits)

lemma section_set_spec:
  assumes "path \<noteq> []" "wf_json (conf a)" "wf_json v"
  shows "\<exists>a' wrote. section_set a path k v = Some (a', wrote) \<and> wf_json (conf a') \<and>
           resolve (conf a') path = Some (JObject (set_entries k v (section_entries (conf a) path))) \<and>
           (\<forall>other. diverge path other \<longrightarrow> resolve (conf a') other = resolve (conf a) other)"
  unfolding section_set_def
  using on_node_spec [OF assms(1), of "\<lambda>node. setValue node k v", OF setValue_entries assms(2)]
    wf_set_entries wf_section_entries [OF assms(2)] assms(3) by blast

lemma section_set_flag:
  assumes "path \<noteq> []" "wf_json (conf a)" "section_set a path k v = Some (a', wrote)"
  shows "changed a' \<longleftrightarrow> changed a \<or> \<not> jeq (conf a) (conf a')"
proof (rule on_node_flag [OF assms(1), of "\<lambda>node. setValue node k v", OF setValue_entries assms(2)])
  let ?es = "section_entries (conf a) path"
  show "set_writes k v ?es \<longleftrightarrow> \<not> jeq (JObject ?es) (JObject (set_entries k v ?es))"
    using set_writes_iff wf_section_entries [OF assms(2)] by blast
  show "\<not> set_writes k v ?es \<Longrightarrow> set_entries k v ?es = ?es"
    by (auto simp: set_writes_def set_entries_def split: option.splits)
  show "on_node (\<lambda>node. setValue node k v) a path = Some (a', wrote)"
    using assms(3) by (simp add: section_set_def)
qed

lemma resolve_snoc_entries:
  "resolve doc (path @ [l]) = obj_find l (section_entries doc path)"
  by (auto simp: resolve_append section_entries_def config_find_def split: option.splits json.splits)

lemma section_set_keys:
  assumes "path \<noteq> []" "wf_json (conf a)" "wf_json v"
  obtains a' wrote where "section_set a path k v = Some (a', wrote)"
    and "wf_json (conf a')"
    and "rel_option jeq (resolve (conf a') (path @ [k])) (Some v)"
    and "\<And>l. l \<noteq> k \<Longrightarrow> resolve (conf a') (path @ [l]) = resolve (conf a) (path @ [l])"
    and "\<And>other. diverge path other \<Longrightarrow> resolve (conf a') other = resolve (conf a) other"
    and "changed a' \<longleftrightarrow> changed a \<or> \<not> jeq (conf a) (conf a')"
proof -
  let ?es = "section_entries (conf a) path"
  obtain a' wrote where s: "section_set a path k v = Some (a', wrote)" "wf_json (conf a')"
    and at: "resolve (conf a') path = Some (JObject (set_entries k v ?es))"
    and other: "\<forall>other. diverge path other \<longrightarrow> resolve (conf a') other = resolve (conf a) other"
    using section_set_spec [OF assms, of k] by blast
  have e: "resolve (conf a') (path @ [l]) = obj_find l (set_entries k v ?es)" for l
    using at by (simp add: resolve_snoc_entries section_entries_def)
  have "rel_option jeq (resolve (conf a') (path @ [k])) (Some v)"
    using find_set_entries [of k k v ?es] by (simp add: e)
  moreover have "resolve (conf a') (path @ [l]) = resolve (conf a) (path @ [l])" if "l \<noteq> k" for l
    using that unfolding e by (simp add: resolve_snoc_entries set_entries_def obj_find_set split: option.split)
  moreover have "changed a' \<longleftrightarrow> changed a \<or> \<not> jeq (conf a) (conf a')"
    by (rule section_set_flag [OF assms(1,2) s(1)])
  ultimately show ?thesis using that s other by blast
qed

text \<open>
  Writing a key of a section of the configuration never fails, even where the path is
  missing or holds something other than an object: afterwards the key reads back the value, every
  other key of the section and every section elsewhere reads as before, and the access is marked
  as changed exactly when the document changed as a JSON value.
\<close>

theorem config_section_set_frame:
  assumes "path \<noteq> []" and "wf_json (conf a)" and "wf_json v"
  shows "\<exists>a' wrote. section_set a path k v = Some (a', wrote) \<and>
     (\<exists>x. resolve (conf a') (path @ [k]) = Some x \<and> jeq x v) \<and>
     (\<forall>l. l \<noteq> k \<longrightarrow> resolve (conf a') (path @ [l]) = resolve (conf a) (path @ [l])) \<and>
     (\<forall>other. diverge path other \<longrightarrow> resolve (conf a') other = resolve (conf a) other) \<and>
     (changed a' \<longleftrightarrow> changed a \<or> \<not> jeq (conf a) (conf a'))"
  by (rule section_set_keys [OF assms, of k]) (auto simp: option_rel_Some2)

theorem config_section_set_frame_witness:
  "\<exists>a' wrote. section_set \<lparr>conf = JObject [(''a'', JBool True)], changed = False\<rparr> [''s''] ''k'' JNull = Some (a', wrote) \<and>
     (\<exists>x. resolve (conf a') [''s'', ''k''] = Some x \<and> jeq x JNull)"
  using config_section_set_frame
    [of "[''s'']" "\<lparr>conf = JObject [(''a'', JBool True)], changed = False\<rparr>" JNull "''k''"]
  by (auto simp: obj_wf_def)

section \<open>Defaults\<close>

lemma jeq_typeCompatible_refl [simp]: "typeCompatible v v"
  by (cases v) (simp_all add: typeCompatible_def is_number_def)

lemma ensureValue_object:
  "ensureValue T (JObject es) k def =
     (case obj_find k es of
        Some it \<Rightarrow> if typeCompatible it def \<and> fits_type T it then Some (JObject es, False)
                   else Some (JObject (obj_set k def es), True)
      | None \<Rightarrow> Some (JObject (obj_set k def es), True))"
  by (simp add: ensureValue_def node_put_def split: option.splits)

text \<open>
  Installing a default repairs a section: afterwards the key holds a value of the default's
  JSON type that fits the C++ type, the value that was there if it already did and the default
  otherwise, and no other key or section changes.
\<close>

theorem config_section_ensure_repairs:
  assumes "path \<noteq> []" and "wf_json (conf a)" and "wf_json def" and "fits_type T def"
  shows "\<exists>a' wrote x. section_ensure T a path k def = Some (a', wrote) \<and>
     resolve (conf a') (path @ [k]) = Some x \<and> typeCompatible x def \<and> fits_type T x \<and>
     (x = def \<or> resolve (conf a) (path @ [k]) = Some x) \<and>
     (\<forall>l. l \<noteq> k \<longrightarrow> resolve (conf a') (path @ [l]) = resolve (conf a) (path @ [l])) \<and>
     (\<forall>other. diverge path other \<longrightarrow> resolve (conf a') other = resolve (conf a) other)"
proof -
  let ?es = "section_entries (conf a) path"
  obtain es wrote where en: "ensureValue T (JObject ?es) k def = Some (JObject es, wrote)"
    and es: "es = ?es \<and> (\<exists>x. obj_find k ?es = Some x \<and> typeCompatible x def \<and> fits_type T x) \<or>
             es = obj_set k def ?es"
  proof (cases "\<exists>x. obj_find k ?es = Some x \<and> typeCompatible x def \<and> fits_type T x")
    case True
    then have "ensureValue T (JObject ?es) k def = Some (JObject ?es, False)"
      by (auto simp: ensureValue_object)
    with True that show ?thesis by blast
  next
    case False
    then have "ensureValue T (JObject ?es) k def = Some (JObject (obj_set k def ?es), True)"
      by (auto simp: ensureValue_object split: option.split)
    with that show ?thesis by blast
  qed
  have wf: "wf_json (JObject es)"
    using es wf_section_entries [OF assms(2)] assms(3) by (auto simp: obj_wf_set wf_json_entries_set)
  obtain a' where a': "section_ensure T a path k def = Some (a', wrote)"
    "resolve (conf a') path = Some (JObject es)"
    "\<forall>other. diverge path other \<longrightarrow> resolve (conf a') other = resolve (conf a) other"
    using on_node_spec [OF assms(1), of "\<lambda>node. ensureValue T node k def", OF en assms(2) wf]
    by (auto simp: section_ensure_def)
  have e: "resolve (conf a') (path @ [l]) = obj_find l es" for l
    using a'(2) by (simp add: resolve_snoc_entries section_entries_def)
  have x: "\<exists>x. obj_find k es = Some x \<and> typeCompatible x def \<and> fits_type T x \<and>
      (x = def \<or> obj_find k ?es = Some x)"
    using es assms(4) by (elim disjE conjE exE) (simp_all add: obj_find_set)
  have "\<forall>l. l \<noteq> k \<longrightarrow> obj_find l es = obj_find l ?es"
    using es by (elim disjE conjE) (simp_all add: obj_find_set)
  then have keep: "\<forall>l. l \<noteq> k \<longrightarrow> resolve (conf a') (path @ [l]) = resolve (conf a) (path @ [l])"
    unfolding e resolve_snoc_entries [of "conf a"] .
  obtain x where "resolve (conf a') (path @ [k]) = Some x" "typeCompatible x def" "fits_type T x"
    "x = def \<or> resolve (conf a) (path @ [k]) = Some x"
    using x unfolding e resolve_snoc_entries [of "conf a"] by blast
  with a'(1,3) keep show ?thesis by (intro exI conjI)
qed

theorem config_section_ensure_repairs_witness:
  "\<exists>a' wrote x. section_ensure (CppIntegral True 32) \<lparr>conf = JObject [(''s'', JObject [(''k'', JFloat (1 / 2))])], changed = False\<rparr>
       [''s''] ''k'' (JInt 5) = Some (a', wrote) \<and>
     resolve (conf a') [''s'', ''k''] = Some x \<and> typeCompatible x (JInt 5)"
  using config_section_ensure_repairs
    [of "[''s'']" "\<lparr>conf = JObject [(''s'', JObject [(''k'', JFloat (1 / 2))])], changed = False\<rparr>" "JInt 5"
      "CppIntegral True 32" "''k''"]
  by (auto simp: obj_wf_def int_min_def int_max_def)

end
