(* ===== verification/ConfigMerge.thy ===== *)
theory ConfigMerge
  imports ConfigStore
begin

text \<open>
  \<open>mergeLocalChanges\<close> of \<open>core/src/config.cpp\<close>: the three-way merge by which several instances of
  the program share one configuration file. The recursion over the two loops is kept as written;
  the lemmas reduce it to a decision per key, and from that derive what a merge preserves.
\<close>

section \<open>The merge\<close>

definition erase_loop :: "(string \<times> json) list \<Rightarrow> (string \<times> json) list \<Rightarrow> (string \<times> json) list \<Rightarrow> (string \<times> json) list" where
  "erase_loop objectBaseline local merged =
     fold (\<lambda>(key, _) m. if obj_find key local = None then obj_erase key m else m) objectBaseline merged"

text \<open>
  \<open>merge_loop\<close> is the second loop of the function, over the entries of the local document.
\<close>

function (sequential) mergeLocalChanges :: "json \<Rightarrow> json \<Rightarrow> json \<Rightarrow> json"
  and merge_loop :: "(string \<times> json) list \<Rightarrow> (string \<times> json) list \<Rightarrow> (string \<times> json) list \<Rightarrow> (string \<times> json) list" where
  "mergeLocalChanges baseline (JObject local) disk =
     (if jeq baseline (JObject local) then disk
      else if \<not> is_object baseline \<and> \<not> is_null baseline then JObject local
      else let objectBaseline = node_entries baseline;
               merged = (case disk of JObject ds \<Rightarrow> ds | _ \<Rightarrow> objectBaseline)
           in JObject (merge_loop objectBaseline local (erase_loop objectBaseline local merged)))"
| "mergeLocalChanges baseline local disk = (if jeq baseline local then disk else local)"
| "merge_loop objectBaseline [] merged = merged"
| "merge_loop objectBaseline ((key, it) # rest) merged =
     merge_loop objectBaseline rest
       (case obj_find key objectBaseline of
          None \<Rightarrow>
            (case obj_find key merged of
               Some diskIt \<Rightarrow>
                 (if is_object it \<and> is_object diskIt
                  then obj_set key (mergeLocalChanges (JObject []) it diskIt) merged
                  else obj_set key it merged)
             | None \<Rightarrow> obj_set key it merged)
        | Some baselineIt \<Rightarrow>
            (if jeq baselineIt it then merged
             else obj_set key (mergeLocalChanges baselineIt it
                    (case obj_find key merged of None \<Rightarrow> baselineIt | Some diskIt \<Rightarrow> diskIt)) merged))"
  by pat_completeness auto

termination
  by (relation "measure (case_sum (\<lambda>(b, l, d). size l) (\<lambda>(b, es, m). size_list (size_prod (\<lambda>x. 0) size) es))") auto

section \<open>Per key\<close>

text \<open>
  What becomes of one key: \<open>b\<close>, \<open>l\<close> and \<open>d\<close> are its values in the baseline, the local document
  and the document on disk.
\<close>

definition merge_key :: "json option \<Rightarrow> json option \<Rightarrow> json option \<Rightarrow> json option" where
  "merge_key b l d = (case l of
     None \<Rightarrow> if b = None then d else None
   | Some lv \<Rightarrow> (case b of
       None \<Rightarrow> Some (case d of
           Some dv \<Rightarrow> if is_object lv \<and> is_object dv then mergeLocalChanges (JObject []) lv dv else lv
         | None \<Rightarrow> lv)
     | Some bv \<Rightarrow> if jeq bv lv then d
                  else Some (mergeLocalChanges bv lv (case d of None \<Rightarrow> bv | Some dv \<Rightarrow> dv))))"

lemma erase_loop_wf: "obj_wf m \<Longrightarrow> obj_wf (erase_loop ob ls m)"
  unfolding erase_loop_def by (induction ob arbitrary: m) (auto simp: obj_wf_erase)

lemma erase_loop_find:
  "obj_wf m \<Longrightarrow> obj_find k (erase_loop ob ls m) =
     (if obj_find k ob \<noteq> None \<and> obj_find k ls = None then None else obj_find k m)"
proof (induction ob arbitrary: m)
  case (Cons e ob)
  obtain l w where e: "e = (l, w)" by (cases e)
  have step: "erase_loop (e # ob) ls m = erase_loop ob ls (if obj_find l ls = None then obj_erase l m else m)"
    by (simp add: e erase_loop_def)
  have IH: "obj_find k (erase_loop (e # ob) ls m) =
     (if obj_find k ob \<noteq> None \<and> obj_find k ls = None then None
      else obj_find k (if obj_find l ls = None then obj_erase l m else m))"
    unfolding step using Cons.prems by (intro Cons.IH) (simp add: obj_wf_erase)
  show ?case unfolding IH using Cons.prems by (auto simp: e obj_find_erase)
qed (simp add: erase_loop_def)

lemma merge_loop_wf: "obj_wf m \<Longrightarrow> obj_wf (merge_loop ob ls m)"
proof (induction ls arbitrary: m)
  case (Cons e ls)
  obtain l w where e: "e = (l, w)" by (cases e)
  show ?case using Cons by (auto simp: e obj_wf_set split: option.splits)
qed simp

lemma merge_loop_find:
  "distinct (map fst ls) \<Longrightarrow> obj_find k (merge_loop ob ls m) =
     (case obj_find k ls of None \<Rightarrow> obj_find k m
      | Some v \<Rightarrow> merge_key (obj_find k ob) (Some v) (obj_find k m))"
proof (induction ls arbitrary: m)
  case (Cons e ls)
  obtain l w where e: "e = (l, w)" by (cases e)
  have d: "distinct (map fst ls)" "obj_find l ls = None"
    using Cons.prems by (auto simp: e obj_find_None_iff)
  show ?case
  proof (cases "k = l")
    case True
    then show ?thesis using d
      by (simp add: e Cons.IH [OF d(1), unfolded True] merge_key_def obj_find_set split: option.split)
  next
    case False
    then show ?thesis
      by (simp add: e Cons.IH [OF d(1)] obj_find_set split: option.split)
  qed
qed simp

text \<open>The merge of two edited objects, key by key.\<close>

definition both_objects :: "json \<Rightarrow> json \<Rightarrow> bool" where
  "both_objects b l \<longleftrightarrow> (is_object b \<or> is_null b) \<and> is_object l"

definition disk_entries :: "json \<Rightarrow> json \<Rightarrow> (string \<times> json) list" where
  "disk_entries b d = (case d of JObject ds \<Rightarrow> ds | _ \<Rightarrow> node_entries b)"

lemma merge_eq: "jeq b l \<Longrightarrow> mergeLocalChanges b l d = d"
  by (cases l) simp_all

lemma merge_not_objects: "\<not> jeq b l \<Longrightarrow> \<not> both_objects b l \<Longrightarrow> mergeLocalChanges b l d = l"
  by (cases l) (auto simp: both_objects_def)

lemma merge_objects:
  assumes "\<not> jeq b l" "both_objects b l"
  shows "\<exists>ms. mergeLocalChanges b l d = JObject ms \<and>
     ms = merge_loop (node_entries b) (node_entries l) (erase_loop (node_entries b) (node_entries l) (disk_entries b d))"
  using assms by (cases l) (auto simp: both_objects_def disk_entries_def Let_def)

lemma merge_objects_find:
  assumes "\<not> jeq b l" "both_objects b l" and wf: "wf_json b" "wf_json l" "wf_json d"
  shows "\<exists>ms. mergeLocalChanges b l d = JObject ms \<and> obj_wf ms \<and>
    (\<forall>k. obj_find k ms = merge_key (config_find b k) (config_find l k) (obj_find k (disk_entries b d)))"
proof -
  let ?m = "erase_loop (node_entries b) (node_entries l) (disk_entries b d)"
  have d: "obj_wf (disk_entries b d)"
    using wf by (cases d; cases b) (simp_all add: disk_entries_def node_entries_def)
  have l: "distinct (map fst (node_entries l))" using wf_node_entries [OF wf(2)] obj_wf_distinct by blast
  have "obj_find k (merge_loop (node_entries b) (node_entries l) ?m) =
      merge_key (config_find b k) (config_find l k) (obj_find k (disk_entries b d))" for k
    unfolding config_find_entries merge_loop_find [OF l] erase_loop_find [OF d]
    by (auto simp: merge_key_def split: option.split)
  then show ?thesis
    using merge_objects [OF assms(1,2)] merge_loop_wf [OF erase_loop_wf [OF d]] by fastforce
qed

text \<open>Equality of an object with a document, by keys.\<close>

lemma obj_eqI:
  "obj_wf es \<Longrightarrow> obj_wf fs \<Longrightarrow> (\<And>k. obj_find k es = obj_find k fs) \<Longrightarrow> JObject es = JObject fs"
  using obj_ext by blast

section \<open>What a merge preserves\<close>

lemma wf_merge_loop_entries:
  assumes "\<And>k v. (k, v) \<in> set ls \<Longrightarrow> wf_json v"
    and "\<And>k v b d. (k, v) \<in> set ls \<Longrightarrow> wf_json b \<Longrightarrow> wf_json d \<Longrightarrow> wf_json (mergeLocalChanges b v d)"
    and "wf_json_entries m" "wf_json_entries ob"
  shows "wf_json_entries (merge_loop ob ls m)"
  using assms
proof (induction ls arbitrary: m)
  case (Cons e ls)
  obtain l w where e: "e = (l, w)" by (cases e)
  have w: "wf_json w" using Cons.prems(1) [of l w] by (simp add: e)
  have mw: "wf_json (mergeLocalChanges b w d)" if "wf_json b" "wf_json d" for b d
    using Cons.prems(2) [of l w, OF _ that] by (simp add: e)
  have fm: "wf_json v" if "obj_find k m = Some v" for k v
    using Cons.prems(3) that by (rule wf_json_entries_find)
  have fo: "wf_json v" if "obj_find k ob = Some v" for k v
    using Cons.prems(4) that by (rule wf_json_entries_find)
  show ?case unfolding e merge_loop.simps
  proof (rule Cons.IH)
    show "wf_json_entries ob" by (rule Cons.prems(4))
    show "wf_json v" if "(k, v) \<in> set ls" for k v
      using that by (intro Cons.prems(1) [of k]) simp
    show "wf_json (mergeLocalChanges b v d)" if "(k, v) \<in> set ls" "wf_json b" "wf_json d" for k v b d
      using that by (intro Cons.prems(2) [of k]) simp_all
    show "wf_json_entries (case obj_find l ob of
          None \<Rightarrow> (case obj_find l m of
               Some diskIt \<Rightarrow> (if is_object w \<and> is_object diskIt
                  then obj_set l (mergeLocalChanges (JObject []) w diskIt) m else obj_set l w m)
             | None \<Rightarrow> obj_set l w m)
        | Some baselineIt \<Rightarrow> (if jeq baselineIt w then m
             else obj_set l (mergeLocalChanges baselineIt w
                    (case obj_find l m of None \<Rightarrow> baselineIt | Some diskIt \<Rightarrow> diskIt)) m))"
      using Cons.prems(3) w mw fm fo by (auto split: option.split intro!: wf_json_entries_set)
  qed
qed simp

lemma wf_erase_loop_entries: "wf_json_entries m \<Longrightarrow> wf_json_entries (erase_loop ob ls m)"
  unfolding erase_loop_def by (induction ob arbitrary: m) (auto simp: wf_json_entries_erase)

lemma wf_merge: "wf_json b \<Longrightarrow> wf_json l \<Longrightarrow> wf_json d \<Longrightarrow> wf_json (mergeLocalChanges b l d)"
proof (induction l arbitrary: b d)
  case (JObject ls)
  show ?case
  proof (cases "\<not> jeq b (JObject ls) \<and> both_objects b (JObject ls)")
    case True
    let ?ob = "node_entries b"
    have d: "obj_wf (disk_entries b d) \<and> wf_json_entries (disk_entries b d)"
      using JObject.prems by (cases d; cases b) (simp_all add: disk_entries_def node_entries_def)
    have ls: "\<And>k v. (k, v) \<in> set ls \<Longrightarrow> wf_json v"
      using JObject.prems(2) by (auto simp: wf_json_entries_iff)
    have IH: "\<And>k v b d. (k, v) \<in> set ls \<Longrightarrow> wf_json b \<Longrightarrow> wf_json d \<Longrightarrow> wf_json (mergeLocalChanges b v d)"
      using JObject.IH ls by (metis snds.intros snd_conv)
    have "wf_json_entries (merge_loop ?ob ls (erase_loop ?ob ls (disk_entries b d)))"
      using ls IH d wf_erase_loop_entries wf_node_entries [OF JObject.prems(1)]
      by (intro wf_merge_loop_entries) blast+
    moreover have "obj_wf (merge_loop ?ob ls (erase_loop ?ob ls (disk_entries b d)))"
      using d by (intro merge_loop_wf erase_loop_wf) blast
    ultimately show ?thesis using merge_objects [of b "JObject ls" d] True by auto
  next
    case False
    then show ?thesis using JObject.prems merge_eq merge_not_objects by metis
  qed
qed (simp_all add: mergeLocalChanges.simps)

text \<open>
  A process whose edits meet an unchanged file commits its own document.
\<close>

lemma merge_key_same:
  assumes IH: "\<And>lv bv d. l = Some lv \<Longrightarrow> jeq d bv \<Longrightarrow> wf_json bv \<Longrightarrow> wf_json d \<Longrightarrow> jeq (mergeLocalChanges bv lv d) lv"
    and d: "rel_option jeq d b" and wf: "\<And>v. b = Some v \<Longrightarrow> wf_json v" "\<And>v. d = Some v \<Longrightarrow> wf_json v"
  shows "rel_option jeq (merge_key b l d) l"
proof (cases l)
  case None
  then show ?thesis using d by (auto simp: merge_key_def)
next
  case l: (Some lv)
  show ?thesis
  proof (cases b)
    case None
    then show ?thesis using d l by (simp add: merge_key_def)
  next
    case (Some bv)
    then obtain dv where dv: "d = Some dv" "jeq dv bv" using d by (auto simp: option_rel_Some2)
    then show ?thesis
      using Some l IH [OF l dv(2)] wf jeq_trans [OF dv(2), of lv] by (auto simp: merge_key_def)
  qed
qed

lemma merge_unchanged_atomic:
  "jeq d b \<Longrightarrow> \<not> both_objects b l \<Longrightarrow> jeq (mergeLocalChanges b l d) l"
  by (metis jeq_refl jeq_trans merge_eq merge_not_objects)

lemma merge_unchanged_disk:
  "jeq d b \<Longrightarrow> wf_json b \<Longrightarrow> wf_json l \<Longrightarrow> wf_json d \<Longrightarrow> jeq (mergeLocalChanges b l d) l"
proof (induction l arbitrary: b d)
  case (JObject ls)
  let ?l = "JObject ls"
  consider "jeq b ?l" | "\<not> jeq b ?l" "\<not> both_objects b ?l" | "\<not> jeq b ?l" "both_objects b ?l" by blast
  then show ?case
  proof cases
    case 1
    then show ?thesis using JObject.prems(1) by (metis merge_eq jeq_trans)
  next
    case 2
    then show ?thesis unfolding merge_not_objects [OF 2] by simp
  next
    case 3
    have d: "rel_option jeq (obj_find k (disk_entries b d)) (config_find b k)" for k
      using config_find_jeq [OF JObject.prems(1), of k] jeq_is_object [OF JObject.prems(1)]
      by (cases d; cases b) (auto simp: disk_entries_def config_find_def node_entries_def option.rel_refl)
    have wd: "wf_json v" if "obj_find k (disk_entries b d) = Some v" for k v
      using that JObject.prems(2,4) wf_node_entries [of b] wf_json_entries_find
      by (cases d) (auto simp: disk_entries_def)
    obtain ms where ms: "mergeLocalChanges b ?l d = JObject ms" "obj_wf ms"
      "\<forall>k. obj_find k ms = merge_key (config_find b k) (obj_find k ls) (obj_find k (disk_entries b d))"
      using merge_objects_find [OF 3 JObject.prems(2-4)] by auto
    have "rel_option jeq (merge_key (config_find b k) (obj_find k ls) (obj_find k (disk_entries b d))) (obj_find k ls)" for k
    proof (rule merge_key_same [OF _ d])
      fix lv bv dv
      assume lv: "obj_find k ls = Some lv" and j: "jeq dv bv" "wf_json bv" "wf_json dv"
      have "(k, lv) \<in> set ls" using lv by (simp add: obj_find_map_of map_of_SomeD)
      moreover have "wf_json lv" using JObject.prems(3) lv wf_json_entries_find by auto
      ultimately show "jeq (mergeLocalChanges bv lv dv) lv"
        using JObject.IH j by (metis snds.intros snd_conv)
    qed (use wf_json_find JObject.prems(2) wd in blast)+
    then show ?thesis using ms JObject.prems(3) by (simp add: jeq_objects jeq_entriesI)
  qed
qed (rule merge_unchanged_atomic; simp add: both_objects_def)+

text \<open>Committing twice is committing once.\<close>

lemma merge_into_local: "wf_json b \<Longrightarrow> wf_json l \<Longrightarrow> mergeLocalChanges b l l = l"
proof (induction l arbitrary: b)
  case (JObject ls)
  let ?l = "JObject ls"
  show ?case
  proof (cases "\<not> jeq b ?l \<and> both_objects b ?l")
    case True
    have de: "disk_entries b ?l = ls" by (simp add: disk_entries_def)
    obtain ms where ms: "mergeLocalChanges b ?l ?l = JObject ms" "obj_wf ms"
      "\<forall>k. obj_find k ms = merge_key (config_find b k) (obj_find k ls) (obj_find k ls)"
      using merge_objects_find [of b ?l ?l] True JObject.prems de by auto
    have "merge_key (config_find b k) (obj_find k ls) (obj_find k ls) = obj_find k ls" for k
    proof (cases "obj_find k ls")
      case (Some lv)
      have m: "(k, lv) \<in> set ls" using Some by (simp add: obj_find_map_of map_of_SomeD)
      have w: "wf_json lv" using JObject.prems(2) Some wf_json_entries_find by auto
      have "mergeLocalChanges bv lv lv = lv" if "wf_json bv" for bv
        using JObject.IH [OF m, of lv bv] w that by (simp add: snds.intros)
      then show ?thesis
        using Some wf_json_find [OF JObject.prems(1), of k] by (auto simp: merge_key_def split: option.split)
    qed (simp add: merge_key_def)
    then show ?thesis using ms JObject.prems(2) obj_ext [of ms ls] by simp
  next
    case False
    then show ?thesis by (metis merge_eq merge_not_objects)
  qed
qed simp_all

lemma merge_idempotent:
  "wf_json b \<Longrightarrow> wf_json l \<Longrightarrow> wf_json d \<Longrightarrow>
   mergeLocalChanges b l (mergeLocalChanges b l d) = mergeLocalChanges b l d"
proof (induction l arbitrary: b d)
  case (JObject ls)
  let ?l = "JObject ls"
  show ?case
  proof (cases "\<not> jeq b ?l \<and> both_objects b ?l")
    case True
    obtain ms where ms: "mergeLocalChanges b ?l d = JObject ms" "obj_wf ms"
      "\<forall>k. obj_find k ms = merge_key (config_find b k) (obj_find k ls) (obj_find k (disk_entries b d))"
      using merge_objects_find [of b ?l d] True JObject.prems by auto
    have wms: "wf_json (JObject ms)" using wf_merge [OF JObject.prems] ms(1) by simp
    have de: "disk_entries b (JObject ms) = ms" by (simp add: disk_entries_def)
    obtain ns where ns: "mergeLocalChanges b ?l (JObject ms) = JObject ns" "obj_wf ns"
      "\<forall>k. obj_find k ns = merge_key (config_find b k) (obj_find k ls) (obj_find k ms)"
      using merge_objects_find [of b ?l "JObject ms"] True JObject.prems(1,2) wms de by auto
    have "merge_key bo (obj_find k ls) (merge_key bo (obj_find k ls) dv) = merge_key bo (obj_find k ls) dv"
      if b: "bo = config_find b k" and dv: "dv = obj_find k (disk_entries b d)" for k bo dv
    proof (cases "obj_find k ls")
      case (Some lv)
      have m: "(k, lv) \<in> set ls" using Some by (simp add: obj_find_map_of map_of_SomeD)
      have w: "wf_json lv" using JObject.prems(2) Some wf_json_entries_find by auto
      have IH: "mergeLocalChanges bv lv (mergeLocalChanges bv lv d') = mergeLocalChanges bv lv d'"
        if "wf_json bv" "wf_json d'" for bv d'
        using JObject.IH [OF m, of lv bv d'] w that by (simp add: snds.intros)
      have self: "mergeLocalChanges bv lv lv = lv" if "wf_json bv" for bv
        using merge_into_local [OF that w] .
      have wd: "wf_json v" if "dv = Some v" for v
        using that JObject.prems(1,3) wf_node_entries [of b] wf_json_entries_find
        by (cases d) (auto simp: disk_entries_def dv)
      have wb: "wf_json v" if "bo = Some v" for v
        using that wf_json_find [OF JObject.prems(1), of k] by (simp add: b)
      show ?thesis
      proof (cases bo)
        case None
        have "is_object lv \<Longrightarrow> is_object v \<Longrightarrow> is_object (mergeLocalChanges (JObject []) lv v)" for v
          by (cases lv) auto
        then show ?thesis using None Some self IH [of "JObject []"] wd
          by (auto simp: merge_key_def split: option.split)
      next
        case bv: (Some bv)
        then show ?thesis using Some IH [of bv] wd wb by (auto simp: merge_key_def split: option.split)
      qed
    qed (simp add: merge_key_def)
    then have "ns = ms" using ns ms by (intro obj_ext) simp_all
    then show ?thesis using ms(1) ns(1) by simp
  next
    case False
    then show ?thesis by (metis merge_eq merge_not_objects)
  qed
qed simp_all
text \<open>
  Sections merge independently: where all three documents hold an object at a path, the merged
  document holds the merge of the three objects there.
\<close>

lemma merge_at_path:
  assumes "wf_json b" "wf_json l" "wf_json d"
    and "resolve b path = Some (JObject bs)" "resolve l path = Some (JObject ls)"
    and "resolve d path = Some (JObject ds)"
  shows "resolve (mergeLocalChanges b l d) path =
           Some (mergeLocalChanges (JObject bs) (JObject ls) (JObject ds))"
  using assms
proof (induction path arbitrary: b l d)
  case (Cons k path)
  obtain be le de where o: "b = JObject be" "l = JObject le" "d = JObject de"
    using Cons.prems resolve_Cons_object by metis
  obtain bc lc dc where c: "obj_find k be = Some bc" "obj_find k le = Some lc" "obj_find k de = Some dc"
    using Cons.prems(4-6) o by (auto split: option.splits)
  have r: "resolve bc path = Some (JObject bs)" "resolve lc path = Some (JObject ls)"
    "resolve dc path = Some (JObject ds)" using Cons.prems(4-6) o c by simp_all
  have w: "wf_json bc" "wf_json lc" "wf_json dc"
    using Cons.prems(1-3) o c wf_json_entries_find by auto
  have IH: "resolve (mergeLocalChanges bc lc dc) path =
      Some (mergeLocalChanges (JObject bs) (JObject ls) (JObject ds))"
    by (rule Cons.IH [OF w r])
  show ?case
  proof (cases "jeq b l")
    case True
    then have "jeq (JObject bs) (JObject ls)"
      using resolve_jeq [OF True, of "k # path"] Cons.prems(4,5) by simp
    then show ?thesis using True Cons.prems(6) by (simp add: merge_eq del: jeq.simps)
  next
    case False
    then obtain ms where ms: "mergeLocalChanges b l d = JObject ms"
      "\<forall>k. obj_find k ms = merge_key (config_find b k) (config_find l k) (obj_find k (disk_entries b d))"
      using merge_objects_find [OF False _ Cons.prems(1-3)] o by (auto simp: both_objects_def)
    have "obj_find k ms = Some (mergeLocalChanges bc lc dc)"
      using ms(2) o c by (auto simp: merge_key_def disk_entries_def merge_eq)
    then show ?thesis using ms(1) IH by simp
  qed
qed (simp del: mergeLocalChanges.simps)

lemma merge_keys:
  assumes "wf_json (JObject bs)" "wf_json (JObject ls)" "wf_json (JObject ds)"
  shows "\<exists>ms. mergeLocalChanges (JObject bs) (JObject ls) (JObject ds) = JObject ms \<and>
    (\<forall>k. rel_option jeq (obj_find k bs) (obj_find k ls) \<longrightarrow> obj_find k ms = obj_find k ds) \<and>
    (\<forall>k. rel_option jeq (obj_find k ds) (obj_find k bs) \<longrightarrow> rel_option jeq (obj_find k ms) (obj_find k ls))"
proof (cases "jeq (JObject bs) (JObject ls)")
  case True
  have "rel_option jeq (obj_find k ds) (obj_find k ls)" if "rel_option jeq (obj_find k ds) (obj_find k bs)" for k
    using that jeq_entries_find [of bs ls k] True jeq_trans
    by (auto simp: option_rel_Some1 option_rel_Some2 elim!: option.rel_cases)
  then show ?thesis using merge_eq [OF True] by auto
next
  case False
  obtain ms where ms: "mergeLocalChanges (JObject bs) (JObject ls) (JObject ds) = JObject ms"
      "\<forall>k. obj_find k ms = merge_key (obj_find k bs) (obj_find k ls) (obj_find k ds)"
    using merge_objects_find [OF False _ assms] by (auto simp: both_objects_def disk_entries_def)
  have a: "obj_find k ms = obj_find k ds" if "rel_option jeq (obj_find k bs) (obj_find k ls)" for k
    using that ms(2) by (auto simp: merge_key_def elim!: option.rel_cases)
  have "rel_option jeq (merge_key (obj_find k bs) (obj_find k ls) (obj_find k ds)) (obj_find k ls)"
    if "rel_option jeq (obj_find k ds) (obj_find k bs)" for k
  proof (rule merge_key_same [OF _ that])
    show "jeq (mergeLocalChanges bv lv d) lv" if "obj_find k ls = Some lv" "jeq d bv" "wf_json bv" "wf_json d" for lv bv d
      using merge_unchanged_disk [OF that(2,3) _ that(4)] assms(2) wf_json_entries_find that(1) by auto
  qed (use assms wf_json_entries_find in auto)
  then show ?thesis using a ms by auto
qed

section \<open>Properties of the merge\<close>

text \<open>
  C5: The merge keeps both sides' edits. Wherever the baseline, the local document and the file
  hold an object at a path, the merged document holds one there too: a key this process left as
  in the baseline takes the file's value, deletions included, and a key nobody else touched takes
  this process's value, deletions included.
\<close>

theorem config_merge_three_way:
  assumes "wf_json b" "wf_json l" "wf_json d"
    and "resolve b path = Some (JObject bs)" "resolve l path = Some (JObject ls)"
    and "resolve d path = Some (JObject ds)"
  shows "\<exists>ms. resolve (mergeLocalChanges b l d) path = Some (JObject ms) \<and>
    (\<forall>k. rel_option jeq (obj_find k bs) (obj_find k ls) \<longrightarrow> obj_find k ms = obj_find k ds) \<and>
    (\<forall>k. rel_option jeq (obj_find k ds) (obj_find k bs) \<longrightarrow> rel_option jeq (obj_find k ms) (obj_find k ls))"
proof -
  have "wf_json (JObject bs)" "wf_json (JObject ls)" "wf_json (JObject ds)"
    using assms wf_json_resolve by blast+
  from merge_keys [OF this] show ?thesis unfolding merge_at_path [OF assms] by simp
qed

theorem config_merge_three_way_witness:
  "\<exists>ms. mergeLocalChanges (JObject [(''a'', JInt 1), (''b'', JInt 2)]) (JObject [(''a'', JInt 5), (''b'', JInt 2)])
      (JObject [(''a'', JInt 1), (''b'', JInt 7)]) = JObject ms \<and>
    obj_find ''b'' ms = Some (JInt 7) \<and> rel_option jeq (obj_find ''a'' ms) (Some (JInt 5))"
proof -
  let ?b = "[(''a'', JInt 1), (''b'', JInt 2)]" and ?l = "[(''a'', JInt 5), (''b'', JInt 2)]"
    and ?d = "[(''a'', JInt 1), (''b'', JInt 7)]"
  obtain ms where ms: "resolve (mergeLocalChanges (JObject ?b) (JObject ?l) (JObject ?d)) [] = Some (JObject ms)"
    "\<forall>k. rel_option jeq (obj_find k ?b) (obj_find k ?l) \<longrightarrow> obj_find k ms = obj_find k ?d"
    "\<forall>k. rel_option jeq (obj_find k ?d) (obj_find k ?b) \<longrightarrow> rel_option jeq (obj_find k ms) (obj_find k ?l)"
    using config_merge_three_way [of "JObject ?b" "JObject ?l" "JObject ?d" "[]" ?b ?l ?d]
    by (auto simp: obj_wf_def less_char_def simp del: mergeLocalChanges.simps)
  show ?thesis using ms(1) ms(2)[rule_format, of "''b''"] ms(3)[rule_format, of "''a''"]
    by (simp del: mergeLocalChanges.simps)
qed

text \<open>
  A merge can be repeated: merging the same local changes into a file that already holds the
  merged document changes nothing, and when no other process touched the file the merge yields
  this process's own document.
\<close>

theorem config_merge_repeatable:
  assumes "wf_json b" "wf_json l" "wf_json d"
  shows "mergeLocalChanges b l (mergeLocalChanges b l d) = mergeLocalChanges b l d \<and>
         (jeq d b \<longrightarrow> jeq (mergeLocalChanges b l d) l)"
  using merge_idempotent [OF assms] merge_unchanged_disk assms by blast

theorem config_merge_repeatable_witness:
  "jeq (mergeLocalChanges (JObject [(''a'', JInt 1)]) (JObject []) (JObject [(''a'', JUnsigned 1)])) (JObject [])"
  using config_merge_repeatable [of "JObject [(''a'', JInt 1)]" "JObject []" "JObject [(''a'', JUnsigned 1)]"]
  by (simp add: obj_wf_def del: mergeLocalChanges.simps)

end
