(* ===== verification/ConfigManager.thy ===== *)
theory ConfigManager
  imports ConfigMerge
begin

text \<open>
  The lifecycle and persistence of a configuration, from \<open>core/src/config.cpp\<close>: loading, saving,
  shutting down, and the access bookkeeping. \<open>saveImpl\<close> runs in three critical sections (take a
  snapshot, write the file without the lock, reconcile); each is a definition, their composition
  is the function, and a step relation interleaves them with edits of other threads and commits
  of other processes. \<open>multi\<close> is the build option \<open>OPT_CONFIG_MULTIPLE_INSTANCES\<close>. Whether a lock or
  a write succeeds is a parameter of each attempt. Revisions are counted without the wrap at
  \<open>2 ^ 64\<close>, which no run reaches between a snapshot and its reconciliation.
\<close>

section \<open>State\<close>

datatype LifecycleState = LsOpen | LsClosing | LsClosed

record ConfigManager =
  m_conf :: json
  m_path :: string
  m_lifecycle :: LifecycleState
  m_baseline :: json
  m_baselineValid :: bool
  m_dirty :: bool
  m_revision :: nat
  m_autoSave :: bool

definition new_manager :: ConfigManager where
  "new_manager = \<lparr>m_conf = JNull, m_path = '''', m_lifecycle = LsOpen, m_baseline = JNull,
     m_baselineValid = False, m_dirty = False, m_revision = 0, m_autoSave = False\<rparr>"

datatype ConfigError = NestedAccess | AccessActive | AfterShutdown

text \<open>A file of the configuration root: what \<open>readJsonFile\<close> can find.\<close>

datatype FileState = FileMissing | FileInvalid | FileDoc json

datatype ReadResult = ReadOK | ReadMissing | ReadInvalid

fun readJsonFile :: "FileState \<Rightarrow> ReadResult \<times> json" where
  "readJsonFile FileMissing = (ReadMissing, JNull)"
| "readJsonFile FileInvalid = (ReadInvalid, JNull)"
| "readJsonFile (FileDoc d) = (ReadOK, d)"

section \<open>Accesses\<close>

text \<open>\<open>held\<close>: the current thread has an access of some manager open.\<close>

definition acquire :: "bool \<Rightarrow> ConfigManager \<Rightarrow> ConfigError + ConfigManager" where
  "acquire held m =
     (if held then Inl NestedAccess
      else if m_lifecycle m \<noteq> LsOpen then Inl AfterShutdown
      else Inr m)"

definition release :: "bool \<Rightarrow> ConfigManager \<Rightarrow> ConfigManager" where
  "release modified m =
     (if modified then m\<lparr>m_dirty := True, m_revision := m_revision m + 1\<rparr> else m)"

text \<open>A scope that holds an \<open>EditAccess\<close> and runs \<open>f\<close> on it.\<close>

definition with_edit :: "bool \<Rightarrow> (EditAccess \<Rightarrow> EditAccess) \<Rightarrow> ConfigManager \<Rightarrow> ConfigError + ConfigManager" where
  "with_edit held f m = (case acquire held m of
       Inl e \<Rightarrow> Inl e
     | Inr m' \<Rightarrow> let a = f \<lparr>conf = m_conf m', changed = False\<rparr>
                 in Inr (release (changed a) (m'\<lparr>m_conf := conf a\<rparr>)))"

section \<open>Persisting a snapshot\<close>

record SaveSnapshot =
  s_path :: string
  s_local :: json
  s_baseline :: json
  s_baselineValid :: bool
  s_revision :: nat

text \<open>The result is the committed document, \<open>None\<close> for failure, and the file afterwards.\<close>

definition persistSnapshot ::
    "bool \<Rightarrow> bool \<Rightarrow> bool \<Rightarrow> SaveSnapshot \<Rightarrow> FileState \<Rightarrow> json option \<times> FileState" where
  "persistSnapshot multi lock_ok write_ok snapshot file =
     (if s_path snapshot = '''' then (None, file)
      else if multi then
        (if \<not> lock_ok then (None, file)
         else
           let (readResult, found) = readJsonFile file;
               disk = (if readResult \<noteq> ReadOK
                       then (if s_baselineValid snapshot then s_baseline snapshot else s_local snapshot)
                       else found);
               document = (if s_baselineValid snapshot
                           then mergeLocalChanges (s_baseline snapshot) (s_local snapshot) disk
                           else s_local snapshot)
           in if readResult \<noteq> ReadOK \<or> \<not> jeq document disk
              then (if write_ok then (Some document, FileDoc document) else (None, file))
              else (Some document, file))
      else if write_ok then (Some (s_local snapshot), FileDoc (s_local snapshot))
      else (None, file))"

section \<open>Saving\<close>

text \<open>The first critical section: \<open>Inl\<close> is an early return (or the exception), \<open>Inr\<close> a snapshot.\<close>

datatype SaveEarly = SaveThrows ConfigError | SaveReturns bool

definition save_snapshot :: "ConfigManager \<Rightarrow> SaveSnapshot" where
  "save_snapshot m = \<lparr>s_path = m_path m, s_local = m_conf m, s_baseline = m_baseline m,
     s_baselineValid = m_baselineValid m, s_revision = m_revision m\<rparr>"

definition save_begin :: "bool \<Rightarrow> bool \<Rightarrow> ConfigManager \<Rightarrow> SaveEarly + SaveSnapshot" where
  "save_begin onlyIfDirty allowClosing m =
     (if m_lifecycle m \<noteq> LsOpen \<and> \<not> allowClosing then Inl (SaveThrows AfterShutdown)
      else if m_lifecycle m = LsClosed then Inl (SaveReturns (\<not> m_dirty m))
      else if onlyIfDirty \<and> \<not> m_dirty m then Inl (SaveReturns True)
      else Inr (save_snapshot m))"

text \<open>The last critical section, after a successful commit of \<open>document\<close>.\<close>

definition save_finish :: "bool \<Rightarrow> SaveSnapshot \<Rightarrow> json \<Rightarrow> ConfigManager \<Rightarrow> ConfigManager" where
  "save_finish multi snapshot document m =
     (if m_revision m = s_revision snapshot
      then m\<lparr>m_baseline := document, m_conf := document, m_dirty := False, m_baselineValid := True\<rparr>
      else m\<lparr>m_conf := (if multi then mergeLocalChanges (s_local snapshot) (m_conf m) document else m_conf m),
             m_baseline := document, m_dirty := True, m_baselineValid := True\<rparr>)"

definition saveImpl ::
    "bool \<Rightarrow> bool \<Rightarrow> bool \<Rightarrow> bool \<Rightarrow> bool \<Rightarrow> ConfigManager \<Rightarrow> FileState \<Rightarrow>
     (ConfigError + bool) \<times> ConfigManager \<times> FileState" where
  "saveImpl multi lock_ok write_ok onlyIfDirty allowClosing m file =
     (case save_begin onlyIfDirty allowClosing m of
        Inl (SaveThrows e) \<Rightarrow> (Inl e, m, file)
      | Inl (SaveReturns b) \<Rightarrow> (Inr b, m, file)
      | Inr snapshot \<Rightarrow>
         (case persistSnapshot multi lock_ok write_ok snapshot file of
            (None, file') \<Rightarrow> (Inr False, m, file')
          | (Some document, file') \<Rightarrow> (Inr True, save_finish multi snapshot document m, file')))"

definition save :: "bool \<Rightarrow> bool \<Rightarrow> bool \<Rightarrow> bool \<Rightarrow> ConfigManager \<Rightarrow> FileState \<Rightarrow>
     (ConfigError + bool) \<times> ConfigManager \<times> FileState" where
  "save multi lock_ok write_ok held m file =
     (if held then (Inl AccessActive, m, file) else saveImpl multi lock_ok write_ok False False m file)"

definition saveIfDirty :: "bool \<Rightarrow> bool \<Rightarrow> bool \<Rightarrow> ConfigManager \<Rightarrow> FileState \<Rightarrow>
     (ConfigError + bool) \<times> ConfigManager \<times> FileState" where
  "saveIfDirty multi lock_ok write_ok m file = saveImpl multi lock_ok write_ok True True m file"

section \<open>Path and loading\<close>

text \<open>\<open>newPath\<close> is the absolute, lexically normal form of the argument.\<close>

definition setPath :: "bool \<Rightarrow> string \<Rightarrow> ConfigManager \<Rightarrow> ConfigError + ConfigManager" where
  "setPath held newPath m =
     (if held then Inl AccessActive
      else if m_lifecycle m \<noteq> LsOpen then Inl AfterShutdown
      else if m_path m \<noteq> newPath
      then Inr (m\<lparr>m_path := newPath, m_baseline := JNull, m_baselineValid := False,
                  m_dirty := \<not> is_null (m_conf m), m_revision := m_revision m + 1\<rparr>)
      else Inr m)"

text \<open>
  The disk part of \<open>load\<close>: the document, whether the file holds it, and the file afterwards.
\<close>

definition load_document :: "bool \<Rightarrow> bool \<Rightarrow> bool \<Rightarrow> json \<Rightarrow> FileState \<Rightarrow> json \<times> bool \<times> FileState" where
  "load_document multi lock_ok write_ok def file =
     (if multi \<and> \<not> lock_ok then (def, False, file)
      else let (result, loaded) = readJsonFile file in
           if result = ReadOK then (loaded, True, file)
           else (def, write_ok, if write_ok then FileDoc def else file))"

definition load_finish :: "json \<Rightarrow> nat \<Rightarrow> json \<Rightarrow> bool \<Rightarrow> ConfigManager \<Rightarrow> ConfigManager" where
  "load_finish loadBaseline loadRevision document documentPersisted m =
     (let changedDuringLoad = (m_revision m \<noteq> loadRevision) in
      m\<lparr>m_conf := (if changedDuringLoad then mergeLocalChanges loadBaseline (m_conf m) document else document),
        m_baseline := document, m_baselineValid := True,
        m_dirty := \<not> documentPersisted \<or> changedDuringLoad,
        m_revision := m_revision m + 1\<rparr>)"

definition load :: "bool \<Rightarrow> bool \<Rightarrow> bool \<Rightarrow> bool \<Rightarrow> json \<Rightarrow> ConfigManager \<Rightarrow> FileState \<Rightarrow>
     (ConfigError + ConfigManager) \<times> FileState" where
  "load multi lock_ok write_ok held def m file =
     (if held then (Inl AccessActive, file)
      else if m_lifecycle m \<noteq> LsOpen then (Inl AfterShutdown, file)
      else if m_path m = '''' then (Inr m, file)
      else let (document, persisted, file') = load_document multi lock_ok write_ok def file
           in (Inr (load_finish (m_conf m) (m_revision m) document persisted m), file'))"

section \<open>Shutdown\<close>

definition shutdown :: "bool \<Rightarrow> bool \<Rightarrow> bool \<Rightarrow> bool \<Rightarrow> ConfigManager \<Rightarrow> FileState \<Rightarrow>
     (ConfigError + bool) \<times> ConfigManager \<times> FileState" where
  "shutdown multi lock_ok write_ok held m file =
     (if held then (Inl AccessActive, m, file)
      else if m_lifecycle m = LsClosed then (Inr True, m, file)
      else
        let m1 = m\<lparr>m_lifecycle := LsClosing, m_autoSave := False\<rparr> in
        (case saveImpl multi lock_ok write_ok True True m1 file of
           (Inr True, m2, file') \<Rightarrow>
             (if m_dirty m2 then (Inr False, m2, file')
              else (Inr True, m2\<lparr>m_lifecycle := LsClosed\<rparr>, file'))
         | (Inr False, m2, file') \<Rightarrow> (Inr False, m2, file')
         | (Inl e, m2, file') \<Rightarrow> (Inl e, m2, file')))"

section \<open>Interleavings\<close>

datatype SavePhase = Idle | Snapshotted SaveSnapshot | Committed SaveSnapshot json
  | Loading json nat | Loaded json nat json bool

text \<open>
  \<open>sys_saved\<close> is what the file itself held when this manager last wrote it, found its document
  already there, or read it; no operation of the manager sets it.
\<close>

record ConfigSystem =
  sys_mgr :: ConfigManager
  sys_file :: FileState
  sys_phase :: SavePhase
  sys_saved :: json

fun file_document :: "FileState \<Rightarrow> json" where
  "file_document (FileDoc d) = d"
| "file_document _ = JNull"

text \<open>
  One manager, its file and at most one save or load in progress (\<open>persistenceMtx\<close>). An edit is any
  change of the document by a thread that holds an edit access; another process may commit any document
  between two of our critical sections, but not during \<open>persistSnapshot\<close> or the reading of the file,
  which hold the lock. \<open>setPath\<close> is called before the first load.
\<close>

inductive config_step :: "bool \<Rightarrow> ConfigSystem \<Rightarrow> ConfigSystem \<Rightarrow> bool" for multi where
  Edit: "with_edit False f (sys_mgr s) = Inr m' \<Longrightarrow> wf_json (m_conf m') \<Longrightarrow>
     (\<And>a. \<not> changed (f a) \<Longrightarrow> conf (f a) = conf a) \<Longrightarrow> config_step multi s (s\<lparr>sys_mgr := m'\<rparr>)"
| Begin: "sys_phase s = Idle \<Longrightarrow> save_begin onlyIfDirty allowClosing (sys_mgr s) = Inr snap \<Longrightarrow>
     config_step multi s (s\<lparr>sys_phase := Snapshotted snap\<rparr>)"
| Commit: "sys_phase s = Snapshotted snap \<Longrightarrow>
     persistSnapshot multi lock_ok write_ok snap (sys_file s) = (Some d, file') \<Longrightarrow>
     config_step multi s (s\<lparr>sys_phase := Committed snap d, sys_file := file', sys_saved := file_document file'\<rparr>)"
| Fail: "sys_phase s = Snapshotted snap \<Longrightarrow>
     persistSnapshot multi lock_ok write_ok snap (sys_file s) = (None, file') \<Longrightarrow>
     config_step multi s (s\<lparr>sys_phase := Idle, sys_file := file'\<rparr>)"
| Finish: "sys_phase s = Committed snap d \<Longrightarrow>
     config_step multi s (s\<lparr>sys_phase := Idle, sys_mgr := save_finish multi snap d (sys_mgr s)\<rparr>)"
| LoadBegin: "sys_phase s = Idle \<Longrightarrow> m_lifecycle (sys_mgr s) = LsOpen \<Longrightarrow> m_path (sys_mgr s) \<noteq> '''' \<Longrightarrow>
     config_step multi s (s\<lparr>sys_phase := Loading (m_conf (sys_mgr s)) (m_revision (sys_mgr s))\<rparr>)"
| LoadRead: "sys_phase s = Loading base r0 \<Longrightarrow> wf_json def \<Longrightarrow>
     load_document multi lock_ok write_ok def (sys_file s) = (d, persisted, file') \<Longrightarrow>
     config_step multi s (s\<lparr>sys_phase := Loaded base r0 d persisted, sys_file := file',
       sys_saved := (if persisted then file_document file' else sys_saved s)\<rparr>)"
| LoadEnd: "sys_phase s = Loaded base r0 d persisted \<Longrightarrow>
     config_step multi s (s\<lparr>sys_phase := Idle, sys_mgr := load_finish base r0 d persisted (sys_mgr s)\<rparr>)"
| Foreign: "wf_json d \<Longrightarrow> config_step multi s (s\<lparr>sys_file := FileDoc d\<rparr>)"
| Shut: "m_lifecycle (sys_mgr s) \<noteq> LsClosed \<Longrightarrow>
     config_step multi s (s\<lparr>sys_mgr := (sys_mgr s)\<lparr>m_lifecycle := LsClosing, m_autoSave := False\<rparr>\<rparr>)"
| Close: "sys_phase s = Idle \<Longrightarrow> m_lifecycle (sys_mgr s) = LsClosing \<Longrightarrow> \<not> m_dirty (sys_mgr s) \<Longrightarrow>
     config_step multi s (s\<lparr>sys_mgr := (sys_mgr s)\<lparr>m_lifecycle := LsClosed\<rparr>\<rparr>)"

inductive_cases config_stepE: "config_step multi s t"

inductive config_reachable :: "bool \<Rightarrow> ConfigSystem \<Rightarrow> ConfigSystem \<Rightarrow> bool" for multi s0 where
  start: "config_reachable multi s0 s0"
| step: "config_reachable multi s0 s \<Longrightarrow> config_step multi s t \<Longrightarrow> config_reachable multi s0 t"

section \<open>Saving and shutting down without interference\<close>

lemma persistSnapshot_cases:
  assumes "persistSnapshot multi lock_ok write_ok snap f = (r, f')"
  shows "(r = None \<and> f' = f) \<or>
    (\<exists>d x. r = Some d \<and> f' = FileDoc x \<and> jeq d x)"
  using assms
  by (cases f) (auto simp: persistSnapshot_def Let_def split: if_splits)

lemma persistSnapshot_document:
  assumes "persistSnapshot multi lock_ok write_ok snap f = (Some d, f')" and "s_baselineValid snap"
  shows "d = (if multi then mergeLocalChanges (s_baseline snap) (s_local snap)
                (case f of FileDoc disk \<Rightarrow> disk | _ \<Rightarrow> s_baseline snap)
              else s_local snap)"
  using assms by (cases f) (auto simp: persistSnapshot_def Let_def split: if_splits)

lemma save_finish_same:
  "m_revision m = s_revision snap \<Longrightarrow>
   save_finish multi snap d m = m\<lparr>m_baseline := d, m_conf := d, m_dirty := False, m_baselineValid := True\<rparr>"
  by (simp add: save_finish_def)

lemma saveImpl_cases:
  assumes "saveImpl multi lock_ok write_ok only closing m f = (Inr b, m', f')"
  shows "(m' = m \<and> f' = f \<and> (b \<longrightarrow> \<not> m_dirty m)) \<or>
    (\<exists>d x. b \<and> m' = m\<lparr>m_baseline := d, m_conf := d, m_dirty := False, m_baselineValid := True\<rparr> \<and>
      f' = FileDoc x \<and> jeq d x \<and>
      persistSnapshot multi lock_ok write_ok (save_snapshot m) f = (Some d, f'))"
proof -
  consider (early) r where "save_begin only closing m = Inl (SaveReturns r)" "r \<longrightarrow> \<not> m_dirty m" "m' = m" "f' = f" "b = r"
    | (started) "save_begin only closing m = Inr (save_snapshot m)"
    using assms by (auto simp: saveImpl_def save_begin_def split: if_splits)
  then show ?thesis
  proof cases
    case early
    then show ?thesis by simp
  next
    case started
    obtain r f1 where p: "persistSnapshot multi lock_ok write_ok (save_snapshot m) f = (r, f1)" by fastforce
    have rev: "m_revision m = s_revision (save_snapshot m)" by (simp add: save_snapshot_def)
    show ?thesis
    proof (cases r)
      case None
      then show ?thesis using assms persistSnapshot_cases [OF p] p
        by (auto simp: saveImpl_def started)
    next
      case (Some d)
      have m': "b" "m' = m\<lparr>m_baseline := d, m_conf := d, m_dirty := False, m_baselineValid := True\<rparr>" "f' = f1"
        using assms p Some by (simp_all add: saveImpl_def started save_finish_same [OF rev])
      obtain x where "f1 = FileDoc x" "jeq d x" using persistSnapshot_cases [OF p] Some by auto
      with m' p Some show ?thesis by blast
    qed
  qed
qed

text \<open>
  C1: An explicit save that reports success has committed: the file holds the live document, the
  manager is clean, and the document committed is the merge of the local changes into what the
  file held (or the baseline, where the file was missing or unreadable). One that reports
  failure has changed neither the manager nor the file.
\<close>

theorem config_save_commits:
  assumes "save multi lock_ok write_ok held m f = (Inr b, m', f')" and "m_baselineValid m"
    and "m_lifecycle m = LsOpen"
  shows "if b then (\<exists>x. f' = FileDoc x \<and> jeq (m_conf m') x) \<and> \<not> m_dirty m' \<and>
             m_conf m' = (if multi then mergeLocalChanges (m_baseline m) (m_conf m)
                            (case f of FileDoc disk \<Rightarrow> disk | _ \<Rightarrow> m_baseline m)
                          else m_conf m)
         else m' = m \<and> f' = f"
proof -
  have h: "\<not> held" and s: "saveImpl multi lock_ok write_ok False False m f = (Inr b, m', f')"
    using assms(1) by (auto simp: save_def split: if_splits)
  have snap: "save_begin False False m = Inr (save_snapshot m)" by (simp add: save_begin_def assms(3))
  obtain r f1 where p: "persistSnapshot multi lock_ok write_ok (save_snapshot m) f = (r, f1)" by fastforce
  have rev: "m_revision m = s_revision (save_snapshot m)" by (simp add: save_snapshot_def)
  show ?thesis
  proof (cases r)
    case None
    then show ?thesis using s p persistSnapshot_cases [OF p] by (auto simp: saveImpl_def snap)
  next
    case (Some d)
    have "d = (if multi then mergeLocalChanges (m_baseline m) (m_conf m)
                 (case f of FileDoc disk \<Rightarrow> disk | _ \<Rightarrow> m_baseline m) else m_conf m)"
      using persistSnapshot_document [of multi lock_ok write_ok "save_snapshot m" f d f1] p Some assms(2)
      by (cases f) (simp_all add: save_snapshot_def)
    then show ?thesis using s p Some persistSnapshot_cases [OF p]
      by (auto simp: saveImpl_def snap save_finish_same [OF rev])
  qed
qed

theorem config_save_commits_witness:
  "\<exists>m' f'. save True True True False (new_manager\<lparr>m_path := ''c'', m_conf := JObject [(''a'', JInt 1)],
       m_baseline := JObject [], m_baselineValid := True, m_dirty := True\<rparr>) FileMissing = (Inr True, m', f') \<and>
     (\<exists>x. f' = FileDoc x \<and> jeq (m_conf m') x) \<and> \<not> m_dirty m'"
proof -
  let ?m = "new_manager\<lparr>m_path := ''c'', m_conf := JObject [(''a'', JInt 1)],
       m_baseline := JObject [], m_baselineValid := True, m_dirty := True\<rparr>"
  obtain m' f' where s: "save True True True False ?m FileMissing = (Inr True, m', f')"
    by (simp add: save_def saveImpl_def save_begin_def save_snapshot_def persistSnapshot_def new_manager_def
        Let_def erase_loop_def)
  have "(\<exists>x. f' = FileDoc x \<and> jeq (m_conf m') x) \<and> \<not> m_dirty m'"
  proof -
    have "m_baselineValid ?m" "m_lifecycle ?m = LsOpen" by (simp_all add: new_manager_def)
    from config_save_commits [OF s this] show ?thesis unfolding if_True by blast
  qed
  with s show ?thesis by blast
qed

text \<open>
  C2: Shutting down never loses a document. When it reports success the manager is closed and
  clean, and whatever was unsaved is in the file; when it reports failure the manager stays
  closing with its document and its file unchanged, so that the shutdown can be retried; and in
  both cases every later edit is refused.
\<close>

theorem config_shutdown_saves:
  assumes "shutdown multi lock_ok write_ok held m f = (Inr b, m', f')"
    and "m_lifecycle m \<noteq> LsClosed"
  shows "(if b then m_lifecycle m' = LsClosed \<and> \<not> m_dirty m' \<and>
                  (m_dirty m \<longrightarrow> (\<exists>x. f' = FileDoc x \<and> jeq (m_conf m') x))
          else m_lifecycle m' = LsClosing \<and> m_dirty m' \<and> m_conf m' = m_conf m \<and> f' = f) \<and>
         with_edit False g m' = Inl AfterShutdown"
proof -
  let ?m1 = "m\<lparr>m_lifecycle := LsClosing, m_autoSave := False\<rparr>"
  obtain r m2 f2 where s: "saveImpl multi lock_ok write_ok True True ?m1 f = (r, m2, f2)"
    by (cases "saveImpl multi lock_ok write_ok True True ?m1 f")
  have open_: "with_edit False g x = Inl AfterShutdown" if "m_lifecycle x \<noteq> LsOpen" for x
    using that by (simp add: with_edit_def acquire_def)
  obtain c where r: "r = Inr c"
    using assms s by (cases r) (auto simp: shutdown_def Let_def split: if_splits)
  have dirty: "\<not> c \<Longrightarrow> m_dirty ?m1"
    using s r by (auto simp: saveImpl_def save_begin_def split: if_splits prod.splits option.splits)
  have "(m2 = ?m1 \<and> f2 = f \<and> (c \<longrightarrow> \<not> m_dirty m)) \<or>
      (\<exists>d x. c \<and> m2 = ?m1\<lparr>m_baseline := d, m_conf := d, m_dirty := False, m_baselineValid := True\<rparr> \<and>
        f2 = FileDoc x \<and> jeq d x)"
    using saveImpl_cases [OF s [unfolded r]] by auto
  then show ?thesis
    using assms s r dirty
    by (cases c) (auto simp: shutdown_def Let_def open_ split: if_splits)
qed

theorem config_shutdown_saves_witness:
  "\<exists>m' f'. shutdown True True False False (new_manager\<lparr>m_path := ''c'', m_conf := JObject [],
       m_dirty := True\<rparr>) FileMissing = (Inr False, m', f') \<and> m_lifecycle m' = LsClosing \<and> f' = FileMissing"
proof -
  let ?m = "new_manager\<lparr>m_path := ''c'', m_conf := JObject [], m_dirty := True\<rparr>"
  obtain m' f' where s: "shutdown True True False False ?m FileMissing = (Inr False, m', f')"
    by (simp add: shutdown_def Let_def saveImpl_def save_begin_def save_snapshot_def persistSnapshot_def new_manager_def)
  show ?thesis using config_shutdown_saves [OF s, of id] s by (simp add: new_manager_def)
qed

section \<open>Invariant of the interleaved runs\<close>

text \<open>
  A clean manager holds the document its file held when it last saved or loaded. A save in progress
  knows which document it took, unless the revision tells that an edit came in between.
\<close>

fun file_wf :: "FileState \<Rightarrow> bool" where
  "file_wf (FileDoc d) = wf_json d"
| "file_wf _ = True"

definition snapshot_ok :: "ConfigManager \<Rightarrow> SaveSnapshot \<Rightarrow> bool" where
  "snapshot_ok m snap \<longleftrightarrow> s_revision snap \<le> m_revision m \<and> s_baselineValid snap \<and>
     wf_json (s_local snap) \<and> wf_json (s_baseline snap) \<and> s_baseline snap = m_baseline m \<and>
     (m_revision m = s_revision snap \<longrightarrow> m_conf m = s_local snap)"

fun phase_ok :: "ConfigManager \<Rightarrow> json \<Rightarrow> SavePhase \<Rightarrow> bool" where
  "phase_ok m saved Idle = True"
| "phase_ok m saved (Snapshotted snap) = (m_lifecycle m \<noteq> LsClosed \<and> snapshot_ok m snap)"
| "phase_ok m saved (Committed snap d) = (m_lifecycle m \<noteq> LsClosed \<and> snapshot_ok m snap \<and> wf_json d \<and> jeq d saved)"
| "phase_ok m saved (Loading base r0) = (m_lifecycle m \<noteq> LsClosed \<and> wf_json base \<and> r0 \<le> m_revision m)"
| "phase_ok m saved (Loaded base r0 d persisted) =
     (m_lifecycle m \<noteq> LsClosed \<and> wf_json base \<and> r0 \<le> m_revision m \<and> wf_json d \<and> (persisted \<longrightarrow> d = saved))"

text \<open>Between writing or reading the file and the last critical section the manager lags behind it.\<close>

fun settled :: "SavePhase \<Rightarrow> bool" where
  "settled (Committed snap d) = False"
| "settled (Loaded base r0 d persisted) = False"
| "settled _ = True"

definition config_inv :: "ConfigSystem \<Rightarrow> bool" where
  "config_inv s \<longleftrightarrow> wf_json (m_conf (sys_mgr s)) \<and> wf_json (m_baseline (sys_mgr s)) \<and>
     m_baselineValid (sys_mgr s) \<and> file_wf (sys_file s) \<and>
     (\<not> m_dirty (sys_mgr s) \<longrightarrow> m_conf (sys_mgr s) = m_baseline (sys_mgr s)) \<and>
     (\<not> m_dirty (sys_mgr s) \<and> settled (sys_phase s) \<longrightarrow> jeq (m_baseline (sys_mgr s)) (sys_saved s)) \<and>
     (m_lifecycle (sys_mgr s) = LsClosed \<longrightarrow> \<not> m_dirty (sys_mgr s)) \<and>
     phase_ok (sys_mgr s) (sys_saved s) (sys_phase s)"

lemma persistSnapshot_wf:
  assumes "persistSnapshot multi lock_ok write_ok snap f = (r, f')" and "file_wf f"
    and "wf_json (s_local snap)" "wf_json (s_baseline snap)"
  shows "file_wf f' \<and> (\<forall>d. r = Some d \<longrightarrow> wf_json d)"
  using assms
  by (cases f) (auto simp: persistSnapshot_def Let_def wf_merge split: if_splits)

lemma load_document_result:
  assumes "load_document multi lock_ok write_ok def f = (d, persisted, f')" and "file_wf f" "wf_json def"
  shows "wf_json d \<and> file_wf f' \<and> (persisted \<longrightarrow> file_document f' = d)"
  using assms by (cases f) (auto simp: load_document_def Let_def split: if_splits)

lemma with_edit_result:
  assumes "with_edit False f m = Inr m'" and "\<And>a. \<not> changed (f a) \<Longrightarrow> conf (f a) = conf a"
  shows "m_lifecycle m = LsOpen \<and>
    (m' = m \<or> (\<exists>c. m' = m\<lparr>m_conf := c, m_dirty := True, m_revision := m_revision m + 1\<rparr>))"
proof -
  let ?a = "f \<lparr>conf = m_conf m, changed = False\<rparr>"
  have l: "m_lifecycle m = LsOpen" using assms(1) by (auto simp: with_edit_def acquire_def split: if_splits)
  then have m': "m' = release (changed ?a) (m\<lparr>m_conf := conf ?a\<rparr>)"
    using assms(1) by (simp add: with_edit_def acquire_def Let_def)
  show ?thesis
  proof (cases "changed ?a")
    case True
    then show ?thesis using l m' by (auto simp: release_def)
  next
    case False
    then have "conf ?a = m_conf m" using assms(2) by force
    with False l m' show ?thesis by (simp add: release_def)
  qed
qed

lemma phase_ok_edit:
  "phase_ok m saved p \<Longrightarrow> phase_ok (m\<lparr>m_conf := c, m_dirty := True, m_revision := m_revision m + 1\<rparr>) saved p"
  by (cases p) (auto simp: snapshot_ok_def)

lemma save_begin_snapshot:
  "save_begin only closing m = Inr snap \<Longrightarrow> snap = save_snapshot m \<and> m_lifecycle m \<noteq> LsClosed"
  by (auto simp: save_begin_def split: if_splits)

lemma config_inv_step [inv_rules]: "config_step multi s t \<Longrightarrow> config_inv s \<Longrightarrow> config_inv t"
proof (induction rule: config_step.induct)
  case (Edit f s m')
  have r: "m_lifecycle (sys_mgr s) = LsOpen \<and> (m' = sys_mgr s \<or>
      (\<exists>c. m' = (sys_mgr s)\<lparr>m_conf := c, m_dirty := True, m_revision := m_revision (sys_mgr s) + 1\<rparr>))"
    by (rule with_edit_result [OF Edit(1,3)])
  then show ?case
  proof (elim conjE disjE exE)
    fix c assume m': "m' = (sys_mgr s)\<lparr>m_conf := c, m_dirty := True, m_revision := m_revision (sys_mgr s) + 1\<rparr>"
    then have "phase_ok m' (sys_saved s) (sys_phase s)" using Edit.prems phase_ok_edit by (simp add: config_inv_def)
    with m' r Edit.prems Edit(2) show ?thesis by (simp add: config_inv_def)
  qed (use Edit.prems in simp)
next
  case (Begin s only closing snap)
  then show ?case
    using save_begin_snapshot [OF Begin(2)]
    by (simp add: config_inv_def snapshot_ok_def save_snapshot_def)
next
  case (Commit s snap lock_ok write_ok d f')
  obtain x where "f' = FileDoc x" "jeq d x" using persistSnapshot_cases [OF Commit(2)] by auto
  with Commit show ?case
    using persistSnapshot_wf [OF Commit(2)] by (simp add: config_inv_def snapshot_ok_def)
next
  case (Fail s snap lock_ok write_ok f')
  then show ?case
    using persistSnapshot_wf [OF Fail(2)] by (simp add: config_inv_def snapshot_ok_def)
next
  case (Finish s snap d)
  then show ?case
    by (auto simp: config_inv_def snapshot_ok_def save_finish_def wf_merge)
next
  case (LoadBegin s)
  then show ?case by (simp add: config_inv_def)
next
  case (LoadRead s base r0 def lock_ok write_ok d persisted f')
  then show ?case
    using load_document_result [OF LoadRead(3)] by (simp add: config_inv_def)
next
  case (LoadEnd s base r0 d persisted)
  then show ?case
    by (auto simp: config_inv_def load_finish_def Let_def wf_merge)
next
  case (Foreign d s)
  then show ?case by (simp add: config_inv_def)
next
  case (Shut s)
  then show ?case by (cases "sys_phase s") (auto simp: config_inv_def snapshot_ok_def)
next
  case (Close s)
  then show ?case by (simp add: config_inv_def)
qed

lemma config_inv_reachable: "config_reachable multi s0 s \<Longrightarrow> config_inv s0 \<Longrightarrow> config_inv s"
  by (induction rule: config_reachable.induct) (auto intro: inv_rules)

text \<open>
  C3: Under every interleaving of edits, saves, loads, commits of other processes and a shutdown, a
  manager that is not marked dirty holds the document that its file held when the manager last saved
  or loaded it, changes of other processes that were merged in included. Only between writing (or
  reading) the file and the critical section that takes the result over does it lag behind. A closed
  manager is clean and has nothing in progress, so its document is the saved one: no interleaving
  lets it close over an unsaved edit.
\<close>

theorem config_clean_means_committed:
  assumes "config_reachable multi s0 s" and "config_inv s0"
  shows "(\<not> m_dirty (sys_mgr s) \<and> settled (sys_phase s) \<longrightarrow>
            jeq (m_conf (sys_mgr s)) (sys_saved s) \<and> m_conf (sys_mgr s) = m_baseline (sys_mgr s)) \<and>
         (m_lifecycle (sys_mgr s) = LsClosed \<longrightarrow> sys_phase s = Idle \<and> \<not> m_dirty (sys_mgr s) \<and>
            jeq (m_conf (sys_mgr s)) (sys_saved s))"
proof -
  have "config_inv s" using assms by (rule config_inv_reachable)
  then show ?thesis by (cases "sys_phase s") (auto simp: config_inv_def)
qed

text \<open>Another process writes \<open>b\<close>; this one saves, which takes \<open>b\<close> over; then it shuts down.\<close>

definition loaded_system :: ConfigSystem where
  "loaded_system = \<lparr>sys_mgr = new_manager\<lparr>m_path := ''c'', m_conf := JObject [], m_baseline := JObject [],
     m_baselineValid := True\<rparr>, sys_file = FileDoc (JObject []), sys_phase = Idle, sys_saved = JObject []\<rparr>"

definition foreign_document :: json where
  "foreign_document = JObject [(''b'', JInt 7)]"

definition saved_and_closed :: ConfigSystem where
  "saved_and_closed = \<lparr>sys_mgr = (sys_mgr loaded_system)\<lparr>m_conf := foreign_document, m_baseline := foreign_document,
     m_lifecycle := LsClosed\<rparr>, sys_file = FileDoc foreign_document, sys_phase = Idle, sys_saved = foreign_document\<rparr>"

lemma loaded_system_inv: "config_inv loaded_system"
  by (simp add: loaded_system_def config_inv_def new_manager_def)

lemma saved_and_closed_reachable: "config_reachable True loaded_system saved_and_closed"
proof -
  let ?snap = "save_snapshot (sys_mgr loaded_system)"
  let ?s1 = "loaded_system\<lparr>sys_file := FileDoc foreign_document\<rparr>"
  let ?s2 = "?s1\<lparr>sys_phase := Snapshotted ?snap\<rparr>"
  let ?s3 = "?s2\<lparr>sys_phase := Committed ?snap foreign_document, sys_file := FileDoc foreign_document,
     sys_saved := file_document (FileDoc foreign_document)\<rparr>"
  let ?s4 = "?s3\<lparr>sys_phase := Idle, sys_mgr := save_finish True ?snap foreign_document (sys_mgr ?s3)\<rparr>"
  let ?s5 = "?s4\<lparr>sys_mgr := (sys_mgr ?s4)\<lparr>m_lifecycle := LsClosing, m_autoSave := False\<rparr>\<rparr>"
  let ?s6 = "?s5\<lparr>sys_mgr := (sys_mgr ?s5)\<lparr>m_lifecycle := LsClosed\<rparr>\<rparr>"
  note d = loaded_system_def new_manager_def save_snapshot_def save_begin_def save_finish_def foreign_document_def
  have 1: "config_step True loaded_system ?s1"
    by (rule config_step.Foreign) (simp add: foreign_document_def obj_wf_def)
  have 2: "config_step True ?s1 ?s2"
    by (rule config_step.Begin [of _ False False]) (simp_all add: d)
  have 3: "config_step True ?s2 ?s3"
    by (rule config_step.Commit [of _ _ True True True]) (simp_all add: d persistSnapshot_def Let_def)
  have 4: "config_step True ?s3 ?s4"
    by (rule config_step.Finish) simp
  have 5: "config_step True ?s4 ?s5"
    by (rule config_step.Shut) (simp add: d)
  have 6: "config_step True ?s5 ?s6"
    by (rule config_step.Close) (simp_all add: d)
  have "config_reachable True loaded_system ?s6"
    by (rule config_reachable.step [OF config_reachable.step [OF config_reachable.step [OF config_reachable.step
          [OF config_reachable.step [OF config_reachable.step [OF config_reachable.start 1] 2] 3] 4] 5] 6])
  moreover have "?s6 = saved_and_closed" by (simp add: saved_and_closed_def d)
  ultimately show ?thesis by simp
qed

theorem config_clean_means_committed_witness:
  "jeq (m_conf (sys_mgr saved_and_closed)) foreign_document \<and> \<not> m_dirty (sys_mgr saved_and_closed)"
proof -
  have "m_lifecycle (sys_mgr saved_and_closed) = LsClosed" "sys_saved saved_and_closed = foreign_document"
    by (simp_all add: saved_and_closed_def)
  then show ?thesis
    using config_clean_means_committed [OF saved_and_closed_reachable loaded_system_inv] by metis
qed

text \<open>
  C4: An edit made while a save is writing the file survives it. When the save is reconciled the
  manager stays dirty, and at every key where the committed document still holds what the
  snapshot took, the live document keeps the value of the edit, while keys nobody edited meanwhile
  take what was committed.
\<close>

theorem config_concurrent_edit_survives:
  assumes "config_inv s" and "sys_phase s = Committed snap d" and "config_step True s t"
    and "sys_phase t = Idle" and "m_revision (sys_mgr s) \<noteq> s_revision snap"
    and "resolve (s_local snap) path = Some (JObject bs)" and "resolve (m_conf (sys_mgr s)) path = Some (JObject ls)"
    and "resolve d path = Some (JObject ds)"
  shows "m_dirty (sys_mgr t) \<and> (\<exists>ms. resolve (m_conf (sys_mgr t)) path = Some (JObject ms) \<and>
     (\<forall>k. rel_option jeq (obj_find k ds) (obj_find k bs) \<longrightarrow> rel_option jeq (obj_find k ms) (obj_find k ls)) \<and>
     (\<forall>k. rel_option jeq (obj_find k bs) (obj_find k ls) \<longrightarrow> obj_find k ms = obj_find k ds))"
proof -
  have t: "t = s\<lparr>sys_phase := Idle, sys_mgr := save_finish True snap d (sys_mgr s)\<rparr>"
    using assms(3) by (rule config_stepE) (use assms(2,4) in auto)
  have w: "wf_json (s_local snap)" "wf_json (m_conf (sys_mgr s))" "wf_json d"
    using assms(1,2) by (simp_all add: config_inv_def snapshot_ok_def)
  have "wf_json (JObject bs)" "wf_json (JObject ls)" "wf_json (JObject ds)"
    using wf_json_resolve w assms(6-8) by blast+
  then show ?thesis
    using merge_keys [of bs ls ds] merge_at_path [OF w assms(6-8)] assms(5)
    by (auto simp: t save_finish_def simp del: mergeLocalChanges.simps)
qed

text \<open>The snapshot has \<open>a = 1\<close>, the committed document \<open>b = 7\<close> beside it, and meanwhile \<open>a\<close> became 2.\<close>

definition edited_snapshot :: SaveSnapshot where
  "edited_snapshot = \<lparr>s_path = ''c'', s_local = JObject [(''a'', JInt 1)], s_baseline = JObject [],
     s_baselineValid = True, s_revision = 0\<rparr>"

definition edited_during_save :: ConfigSystem where
  "edited_during_save = \<lparr>sys_mgr = new_manager\<lparr>m_path := ''c'', m_conf := JObject [(''a'', JInt 2)], m_baseline := JObject [],
     m_baselineValid := True, m_dirty := True, m_revision := 1\<rparr>,
     sys_file = FileDoc (JObject [(''a'', JInt 1), (''b'', JInt 7)]),
     sys_phase = Committed edited_snapshot (JObject [(''a'', JInt 1), (''b'', JInt 7)]),
     sys_saved = JObject [(''a'', JInt 1), (''b'', JInt 7)]\<rparr>"

definition edit_reconciled :: ConfigSystem where
  "edit_reconciled = edited_during_save\<lparr>sys_phase := Idle,
     sys_mgr := save_finish True edited_snapshot (JObject [(''a'', JInt 1), (''b'', JInt 7)]) (sys_mgr edited_during_save)\<rparr>"

theorem config_concurrent_edit_survives_witness:
  "m_dirty (sys_mgr edit_reconciled) \<and> (\<exists>ms. resolve (m_conf (sys_mgr edit_reconciled)) [] = Some (JObject ms) \<and>
     rel_option jeq (obj_find ''a'' ms) (Some (JInt 2)) \<and> obj_find ''b'' ms = Some (JInt 7))"
proof -
  let ?d = "JObject [(''a'', JInt 1), (''b'', JInt 7)]"
  have inv: "config_inv edited_during_save"
    by (simp add: edited_during_save_def edited_snapshot_def config_inv_def snapshot_ok_def new_manager_def obj_wf_def less_char_def)
  have st: "config_step True edited_during_save edit_reconciled"
    unfolding edit_reconciled_def by (rule config_step.Finish) (simp add: edited_during_save_def)
  have "m_dirty (sys_mgr edit_reconciled) \<and> (\<exists>ms. resolve (m_conf (sys_mgr edit_reconciled)) [] = Some (JObject ms) \<and>
     (\<forall>k. rel_option jeq (obj_find k [(''a'', JInt 1), (''b'', JInt 7)]) (obj_find k [(''a'', JInt 1)]) \<longrightarrow>
        rel_option jeq (obj_find k ms) (obj_find k [(''a'', JInt 2)])) \<and>
     (\<forall>k. rel_option jeq (obj_find k [(''a'', JInt 1)]) (obj_find k [(''a'', JInt 2)]) \<longrightarrow>
        obj_find k ms = obj_find k [(''a'', JInt 1), (''b'', JInt 7)]))"
    by (rule config_concurrent_edit_survives [of edited_during_save edited_snapshot ?d, OF inv _ st])
      (simp_all only: edited_during_save_def edit_reconciled_def edited_snapshot_def new_manager_def ConfigSystem.simps
        ConfigManager.simps SaveSnapshot.simps resolve.simps ConfigSystem.update_convs ConfigManager.update_convs, simp_all)
  then obtain ms where a: "m_dirty (sys_mgr edit_reconciled)" and b: "resolve (m_conf (sys_mgr edit_reconciled)) [] = Some (JObject ms)"
    and c: "\<forall>k. rel_option jeq (obj_find k [(''a'', JInt 1), (''b'', JInt 7)]) (obj_find k [(''a'', JInt 1)]) \<longrightarrow>
        rel_option jeq (obj_find k ms) (obj_find k [(''a'', JInt 2)])"
    and e: "\<forall>k. rel_option jeq (obj_find k [(''a'', JInt 1)]) (obj_find k [(''a'', JInt 2)]) \<longrightarrow>
        obj_find k ms = obj_find k [(''a'', JInt 1), (''b'', JInt 7)]" by blast
  have "rel_option jeq (obj_find ''a'' ms) (Some (JInt 2))" using c [rule_format, of "''a''"] by simp
  moreover have "obj_find ''b'' ms = Some (JInt 7)" using e [rule_format, of "''b''"] by simp
  ultimately show ?thesis using a b by blast
qed

end
