(* ===== verification/BandPlan.thy ===== *)
theory BandPlan
  imports BandLookups RadioModes ConfigStore
begin

text \<open>
  Band plans: the rows of \<open>core/src/gui/widgets/bandplan.h\<close>, their loading in \<open>bandplan.cpp\<close>, the
  lookup of the segment that represents a band at a frequency, and the colour table with
  \<open>utils/hex_color.h\<close>. A pointer to a mapping is the mapping: the registered ones have distinct
  stable IDs, so equal values are equal pointers. An exception thrown while a file is parsed is
  \<open>None\<close>. The plans of the \<open>std::map\<close> are a key-sorted association list.
\<close>

section \<open>Rows and plans\<close>

record ResolvedBandData =
  rb_mapping :: "BandMapping option"
  rb_legacy :: LegacyBandClassification

definition no_resolution :: ResolvedBandData where
  "no_resolution = \<lparr>rb_mapping = None, rb_legacy = default_classification\<rparr>"

definition resolved_bandId :: "ResolvedBandData \<Rightarrow> string" where
  "resolved_bandId r = (case rb_mapping r of Some m \<Rightarrow> bandId m | None \<Rightarrow> '''')"

definition resolved_service :: "ResolvedBandData \<Rightarrow> BandService" where
  "resolved_service r = (case rb_mapping r of Some m \<Rightarrow> bm_service m | None \<Rightarrow> cl_service (rb_legacy r))"

definition resolved_family :: "ResolvedBandData \<Rightarrow> BandFamily" where
  "resolved_family r = (case rb_mapping r of Some m \<Rightarrow> bm_family m | None \<Rightarrow> cl_family (rb_legacy r))"

definition resolved_isBandOrSegment :: "ResolvedBandData \<Rightarrow> bool" where
  "resolved_isBandOrSegment r = isBandOrSegment (rb_legacy r)"

record Band_t =
  b_name :: string
  b_type :: string
  b_start :: real
  b_end :: real
  b_resolved :: ResolvedBandData
  b_defFreq :: real
  b_defMode :: string
  b_chan :: real

definition hasValidFrequencySpan :: "Band_t \<Rightarrow> bool" where
  "hasValidFrequencySpan b \<longleftrightarrow> b_start b > 0 \<and> b_start b \<le> b_end b"

definition containsFrequency :: "Band_t \<Rightarrow> real \<Rightarrow> bool" where
  "containsFrequency b frequency \<longleftrightarrow>
     hasValidFrequencySpan b \<and> frequency \<ge> b_start b \<and> frequency \<le> b_end b"

record BandPlan_t =
  bp_name :: string
  bp_countryName :: string
  bp_countryCode :: string
  bp_authorName :: string
  bp_authorURL :: string
  bp_bands :: "Band_t list"
  bp_revision :: nat

fun find_segment :: "Band_t list \<Rightarrow> BandMapping \<Rightarrow> real \<Rightarrow> Band_t option" where
  "find_segment [] mapping frequency = None"
| "find_segment (cand # rest) mapping frequency =
     (if rb_mapping (b_resolved cand) = Some mapping \<and>
         resolved_isBandOrSegment (b_resolved cand) \<and>
         containsFrequency cand frequency
      then Some cand else find_segment rest mapping frequency)"

definition findMappedSegmentAtFrequency :: "BandPlan_t \<Rightarrow> BandMapping \<Rightarrow> real \<Rightarrow> Band_t option" where
  "findMappedSegmentAtFrequency plan mapping frequency = find_segment (bp_bands plan) mapping frequency"

section \<open>Parsing\<close>

text \<open>\<open>json::at\<close> and \<open>json::value\<close> followed by a conversion: \<open>None\<close> is the exception.\<close>

definition at_as :: "(json \<Rightarrow> 'a option) \<Rightarrow> json \<Rightarrow> string \<Rightarrow> 'a option" where
  "at_as conv j key = (case config_find j key of None \<Rightarrow> None | Some v \<Rightarrow> conv v)"

definition value_as :: "(json \<Rightarrow> 'a option) \<Rightarrow> json \<Rightarrow> string \<Rightarrow> 'a \<Rightarrow> 'a option" where
  "value_as conv j key def =
     (if \<not> is_object j then None
      else case config_find j key of None \<Rightarrow> Some def | Some v \<Rightarrow> conv v)"

definition band_from_json :: "json \<Rightarrow> Band_t option" where
  "band_from_json j =
     (case at_as get_string j ''name'' of None \<Rightarrow> None | Some n \<Rightarrow>
     (case at_as get_string j ''type'' of None \<Rightarrow> None | Some t \<Rightarrow>
     (case at_as number_value j ''start'' of None \<Rightarrow> None | Some s \<Rightarrow>
     (case at_as number_value j ''end'' of None \<Rightarrow> None | Some e \<Rightarrow>
     (case value_as number_value j ''def_freq'' 0 of None \<Rightarrow> None | Some f \<Rightarrow>
     (case value_as get_string j ''def_mode'' '''' of None \<Rightarrow> None | Some m \<Rightarrow>
     (case value_as number_value j ''chan'' 0 of None \<Rightarrow> None | Some c \<Rightarrow>
        Some \<lparr>b_name = n, b_type = t, b_start = s, b_end = e, b_resolved = no_resolution,
              b_defFreq = f, b_defMode = m, b_chan = c\<rparr>)))))))"

fun bands_from_json :: "json list \<Rightarrow> Band_t list option" where
  "bands_from_json [] = Some []"
| "bands_from_json (j # js) = (case band_from_json j of None \<Rightarrow> None | Some b \<Rightarrow>
     (case bands_from_json js of None \<Rightarrow> None | Some bs \<Rightarrow> Some (b # bs)))"

fun get_array :: "json \<Rightarrow> json list option" where
  "get_array (JArray xs) = Some xs"
| "get_array _ = None"

definition plan_from_json :: "json \<Rightarrow> BandPlan_t option" where
  "plan_from_json j =
     (case at_as get_string j ''name'' of None \<Rightarrow> None | Some n \<Rightarrow>
     (case at_as get_string j ''country_name'' of None \<Rightarrow> None | Some cn \<Rightarrow>
     (case at_as get_string j ''country_code'' of None \<Rightarrow> None | Some cc \<Rightarrow>
     (case at_as get_string j ''author_name'' of None \<Rightarrow> None | Some an \<Rightarrow>
     (case at_as get_string j ''author_url'' of None \<Rightarrow> None | Some au \<Rightarrow>
     (case at_as get_array j ''bands'' of None \<Rightarrow> None | Some js \<Rightarrow>
     (case bands_from_json js of None \<Rightarrow> None | Some bs \<Rightarrow>
        Some \<lparr>bp_name = n, bp_countryName = cn, bp_countryCode = cc, bp_authorName = an,
              bp_authorURL = au, bp_bands = bs, bp_revision = 0\<rparr>)))))))"

section \<open>Resolution of the rows\<close>

definition resolve_band :: "string \<Rightarrow> Band_t \<Rightarrow> Band_t" where
  "resolve_band suppliedBandId band =
     (let classification = classifyLegacyBand (b_type band) (b_name band) (b_start band) (b_end band)
      in band\<lparr>b_resolved := \<lparr>
           rb_mapping = (if suppliedBandId \<noteq> '''' then findBandMappingById suppliedBandId
                         else findLegacyBandMapping classification (b_start band) (b_end band)),
           rb_legacy = classification\<rparr>\<rparr>)"

text \<open>The loop over the rows; \<open>None\<close> when a row's \<open>band_id\<close> is not a string.\<close>

fun resolve_bands :: "json list \<Rightarrow> Band_t list \<Rightarrow> Band_t list option" where
  "resolve_bands (j # js) (band # bands) = (case value_as get_string j ''band_id'' '''' of
       None \<Rightarrow> None
     | Some supplied \<Rightarrow> (case resolve_bands js bands of
         None \<Rightarrow> None | Some bs \<Rightarrow> Some (resolve_band supplied band # bs)))"
| "resolve_bands _ [] = Some []"
| "resolve_bands [] (band # bands) = None"

section \<open>Loaded plans\<close>

record BandPlans =
  bandplans :: "(string \<times> BandPlan_t) list"
  bandplanNames :: "string list"
  bandplanNameTxt :: string
  nextBandPlanRevision :: nat

definition generateTxt :: "BandPlans \<Rightarrow> BandPlans" where
  "generateTxt s = s\<lparr>bandplanNameTxt := concat (map (\<lambda>n. n @ [CHR 0x00]) (bandplanNames s))\<rparr>"

text \<open>
  \<open>loadBandPlanFile\<close> on the parsed contents of the file, \<open>None\<close> for a file that is not JSON. The
  flag tells whether an exception left the function.
\<close>

definition loadBandPlanFile :: "json option \<Rightarrow> bool \<Rightarrow> BandPlans \<Rightarrow> BandPlans \<times> bool" where
  "loadBandPlanFile contents updateNameText s = (case contents of None \<Rightarrow> (s, True) | Some data \<Rightarrow>
     (case plan_from_json data of None \<Rightarrow> (s, True) | Some plan0 \<Rightarrow>
       (let plan1 = plan0\<lparr>bp_revision := nextBandPlanRevision s\<rparr>;
            s1 = s\<lparr>nextBandPlanRevision := nextBandPlanRevision s + 1\<rparr>
        in case at_as get_array data ''bands'' of None \<Rightarrow> (s1, True) | Some sourceBands \<Rightarrow>
          (case resolve_bands sourceBands (bp_bands plan1) of None \<Rightarrow> (s1, True) | Some bs \<Rightarrow>
            (let plan = plan1\<lparr>bp_bands := bs\<rparr> in
             if obj_find (bp_name plan) (bandplans s1) \<noteq> None then (s1, False)
             else (let s2 = s1\<lparr>bandplans := obj_set (bp_name plan) plan (bandplans s1),
                              bandplanNames := bandplanNames s1 @ [bp_name plan]\<rparr>
                   in (if updateNameText then generateTxt s2 else s2, False)))))))"

definition loadBandPlan :: "json option \<Rightarrow> BandPlans \<Rightarrow> BandPlans \<times> bool" where
  "loadBandPlan contents s = loadBandPlanFile contents True s"

text \<open>The directory: its entries in iteration order, with their extension and contents.\<close>

definition loadFromDir :: "bool \<Rightarrow> bool \<Rightarrow> (string \<times> json option) list \<Rightarrow> BandPlans \<Rightarrow> BandPlans" where
  "loadFromDir path_exists path_is_directory entries s =
     (if \<not> path_exists then s
      else if \<not> path_is_directory then s
      else generateTxt (fold (\<lambda>(extension, contents) s.
             if extension \<noteq> ''.json'' then s else fst (loadBandPlanFile contents False s)) entries
           (s\<lparr>bandplans := [], bandplanNames := [], bandplanNameTxt := ''''\<rparr>)))"

section \<open>Colours\<close>

definition hexDigit :: "char \<Rightarrow> int" where
  "hexDigit c =
     (if 48 \<le> char_code c \<and> char_code c \<le> 57 then int (char_code c) - 48
      else if 65 \<le> char_code c \<and> char_code c \<le> 70 then int (char_code c) - 65 + 10
      else if 97 \<le> char_code c \<and> char_code c \<le> 102 then int (char_code c) - 97 + 10
      else -1)"

text \<open>The loop over the channels, reading two characters at a time.\<close>

fun hex_channels :: "string \<Rightarrow> u8 list option" where
  "hex_channels [] = Some []"
| "hex_channels (h # l # rest) =
     (if hexDigit h < 0 \<or> hexDigit l < 0 then None
      else case hex_channels rest of None \<Rightarrow> None
           | Some cs \<Rightarrow> Some (word_of_int (or (push_bit 4 (hexDigit h)) (hexDigit l)) # cs))"
| "hex_channels [h] = None"

definition parseHex :: "nat \<Rightarrow> string \<Rightarrow> u8 list option" where
  "parseHex channelCount s =
     (if length s \<noteq> 1 + channelCount * 2 \<or> hd s \<noteq> CHR ''#'' then None
      else hex_channels (tl s))"

definition IM_COL32 :: "u8 \<Rightarrow> u8 \<Rightarrow> u8 \<Rightarrow> u8 \<Rightarrow> u32" where
  "IM_COL32 r g b a = or (or (push_bit 24 (ucast a)) (push_bit 16 (ucast b)))
     (or (push_bit 8 (ucast g)) (ucast r))"

record BandPlanColor_t =
  colorValue :: u32
  transColorValue :: u32

definition color_from_json :: "json \<Rightarrow> BandPlanColor_t option" where
  "color_from_json j = (case get_string j of None \<Rightarrow> None | Some col \<Rightarrow>
     (case parseHex 4 col of
        Some [r, g, b, a] \<Rightarrow> Some \<lparr>colorValue = IM_COL32 r g b a, transColorValue = IM_COL32 r g b 100\<rparr>
      | _ \<Rightarrow> None))"

definition loadColorTable :: "json \<Rightarrow> (string \<times> BandPlanColor_t) list" where
  "loadColorTable table = (case table of
     JObject es \<Rightarrow> fold (\<lambda>(ty, color) t. case color_from_json color of
         Some parsed \<Rightarrow> obj_set ty parsed t | None \<Rightarrow> t) es []
   | _ \<Rightarrow> [])"

section \<open>Lemmas\<close>

lemma find_segment_Some_iff:
  "find_segment bs m f = Some b \<longleftrightarrow>
     (\<exists>i < length bs. bs ! i = b \<and> rb_mapping (b_resolved b) = Some m \<and>
        resolved_isBandOrSegment (b_resolved b) \<and> containsFrequency b f \<and>
        (\<forall>j < i. \<not> (rb_mapping (b_resolved (bs ! j)) = Some m \<and>
           resolved_isBandOrSegment (b_resolved (bs ! j)) \<and> containsFrequency (bs ! j) f)))"
proof -
  let ?P = "\<lambda>c. rb_mapping (b_resolved c) = Some m \<and> resolved_isBandOrSegment (b_resolved c) \<and>
      containsFrequency c f"
  have "find_segment bs m f = find ?P bs" by (induction bs) auto
  then have "find_segment bs m f = Some b \<longleftrightarrow> find ?P bs = Some b" by simp
  also have "\<dots> \<longleftrightarrow> (\<exists>i < length bs. ?P (bs ! i) \<and> b = bs ! i \<and> (\<forall>j < i. \<not> ?P (bs ! j)))"
    by (rule find_Some_iff)
  finally show ?thesis by (auto simp del: de_Morgan_conj)
qed

lemma find_segment_props:
  assumes "find_segment bs m f = Some b"
  shows "b \<in> set bs" "rb_mapping (b_resolved b) = Some m" "containsFrequency b f"
    "resolved_isBandOrSegment (b_resolved b)"
  using assms unfolding find_segment_Some_iff by auto

lemma containsFrequency_pos: "containsFrequency b f \<Longrightarrow> 0 < f"
  by (auto simp: containsFrequency_def hasValidFrequencySpan_def)

section \<open>What loading establishes\<close>

text \<open>A row is resolved when its identity comes from one of the two rules of the loader.\<close>

definition row_resolved :: "Band_t \<Rightarrow> bool" where
  "row_resolved b \<longleftrightarrow>
     rb_legacy (b_resolved b) = classifyLegacyBand (b_type b) (b_name b) (b_start b) (b_end b) \<and>
     (rb_mapping (b_resolved b) = findLegacyBandMapping (rb_legacy (b_resolved b)) (b_start b) (b_end b) \<or>
      (\<exists>i. i \<noteq> [] \<and> rb_mapping (b_resolved b) = findBandMappingById i))"

lemma resolve_band_resolved: "row_resolved (resolve_band i b)"
  by (auto simp: row_resolved_def resolve_band_def Let_def)

lemma resolve_bands_resolved: "resolve_bands js bs = Some rs \<Longrightarrow> list_all row_resolved rs \<and> length rs = length bs"
  by (induction js bs arbitrary: rs rule: resolve_bands.induct)
    (auto split: option.splits simp: resolve_band_resolved)

text \<open>
  The invariant of the loaded plans: the map and the list of names describe the same plans, every
  plan is stored under its own name with resolved rows, and no two plans share a revision.
\<close>

definition plans_inv :: "BandPlans \<Rightarrow> bool" where
  "plans_inv s \<longleftrightarrow> obj_wf (bandplans s) \<and> distinct (bandplanNames s) \<and>
     set (bandplanNames s) = fst ` set (bandplans s) \<and>
     (\<forall>e \<in> set (bandplans s). bp_name (snd e) = fst e \<and>
        bp_revision (snd e) < nextBandPlanRevision s \<and> list_all row_resolved (bp_bands (snd e))) \<and>
     inj_on (\<lambda>e. bp_revision (snd e)) (set (bandplans s))"

lemma obj_set_new: "obj_find k es = None \<Longrightarrow> set (obj_set k v es) = insert (k, v) (set es)"
proof (induction es)
  case (Cons e es)
  obtain l w where e: "e = (l, w)" by (cases e)
  with Cons.prems have "k \<noteq> l" "obj_find k es = None" by (auto split: if_splits)
  with Cons.IH e show ?case by auto
qed simp

lemma plans_inv_generateTxt: "plans_inv (generateTxt s) = plans_inv s"
  by (simp add: plans_inv_def generateTxt_def)

lemma plans_inv_insert:
  assumes inv: "plans_inv s" and p: "bp_revision p = nextBandPlanRevision s" "list_all row_resolved (bp_bands p)"
    and new: "obj_find (bp_name p) (bandplans s) = None"
  shows "plans_inv (s\<lparr>nextBandPlanRevision := nextBandPlanRevision s + 1,
      bandplans := obj_set (bp_name p) p (bandplans s), bandplanNames := bandplanNames s @ [bp_name p]\<rparr>)"
proof -
  note set_new = obj_set_new [OF new, of p]
  have fresh: "bp_name p \<notin> set (bandplanNames s)"
    using inv new by (simp add: plans_inv_def obj_find_None_iff)
  have older: "bp_revision p \<notin> (\<lambda>e. bp_revision (snd e)) ` set (bandplans s)"
    using inv p(1) by (fastforce simp: plans_inv_def)
  have "inj_on (\<lambda>e. bp_revision (snd e)) (insert (bp_name p, p) (set (bandplans s)))"
    using inv older by (simp add: plans_inv_def) (metis Diff_subset image_mono subsetD)
  then show ?thesis
    using inv p fresh by (simp add: plans_inv_def obj_wf_set set_new less_Suc_eq)
qed

lemma plans_inv_revision: "plans_inv s \<Longrightarrow> plans_inv (s\<lparr>nextBandPlanRevision := Suc (nextBandPlanRevision s)\<rparr>)"
  by (simp add: plans_inv_def less_Suc_eq)

lemma plans_inv_loadFile [inv_rules]: "plans_inv s \<Longrightarrow> plans_inv (fst (loadBandPlanFile c u s))"
proof -
  assume inv: "plans_inv s"
  show ?thesis
  proof (cases "\<exists>data p0 src bs. c = Some data \<and> plan_from_json data = Some p0 \<and>
      at_as get_array data ''bands'' = Some src \<and> resolve_bands src (bp_bands p0) = Some bs \<and>
      obj_find (bp_name p0) (bandplans s) = None")
    case True
    then obtain data p0 src bs where d: "c = Some data" "plan_from_json data = Some p0"
      "at_as get_array data ''bands'' = Some src" "resolve_bands src (bp_bands p0) = Some bs"
      "obj_find (bp_name p0) (bandplans s) = None" by blast
    let ?p = "p0\<lparr>bp_revision := nextBandPlanRevision s, bp_bands := bs\<rparr>"
    have "plans_inv (s\<lparr>nextBandPlanRevision := nextBandPlanRevision s + 1,
        bandplans := obj_set (bp_name ?p) ?p (bandplans s), bandplanNames := bandplanNames s @ [bp_name ?p]\<rparr>)"
      using inv resolve_bands_resolved [OF d(4)] d(5) by (intro plans_inv_insert) simp_all
    then show ?thesis using d
      by (simp add: loadBandPlanFile_def Let_def plans_inv_generateTxt)
  next
    case False
    then show ?thesis using inv plans_inv_revision [OF inv]
      by (auto simp: loadBandPlanFile_def Let_def split: option.split)
  qed
qed

lemma plans_inv_empty: "plans_inv s \<Longrightarrow> plans_inv (s\<lparr>bandplans := [], bandplanNames := [], bandplanNameTxt := t\<rparr>)"
  by (simp add: plans_inv_def)

lemma plans_inv_loadFromDir [inv_rules]: "plans_inv s \<Longrightarrow> plans_inv (loadFromDir ex dir entries s)"
proof -
  assume inv: "plans_inv s"
  have "plans_inv (fold (\<lambda>(extension, contents) s. if extension \<noteq> ''.json'' then s
      else fst (loadBandPlanFile contents False s)) entries t)" if "plans_inv t" for t
    using that
  proof (induction entries arbitrary: t)
    case (Cons e entries)
    then show ?case using plans_inv_loadFile [OF Cons.prems] by (cases e) simp
  qed simp
  then show ?thesis
    using inv plans_inv_empty [OF inv] by (simp add: loadFromDir_def plans_inv_generateTxt)
qed

section \<open>Properties of the band plans\<close>

text \<open>
  Loading plans keeps the plan registry consistent, whatever the files hold and whatever
  exception stops one of them: the map and the name list describe the same plans, every plan is
  stored under its own name, no two plans share a revision, and the rows of every plan were
  resolved either by the stable ID they supply or by their classification and span.
\<close>

theorem bandplan_loading_invariant:
  assumes "plans_inv s"
  shows "plans_inv (fst (loadBandPlan contents s)) \<and> plans_inv (loadFromDir ex dir entries s)"
  using assms plans_inv_loadFile plans_inv_loadFromDir by (simp add: loadBandPlan_def)

theorem bandplan_loading_invariant_witness:
  "plans_inv (loadFromDir True True [(''.json'', None)] \<lparr>bandplans = [], bandplanNames = [],
     bandplanNameTxt = [], nextBandPlanRevision = 1\<rparr>)"
  using bandplan_loading_invariant [of "\<lparr>bandplans = [], bandplanNames = [],
     bandplanNameTxt = [], nextBandPlanRevision = 1\<rparr>" None True True "[(''.json'', None)]"]
  by (simp add: plans_inv_def)

section \<open>Properties of the colours\<close>

lemma hexDigit_range: "hexDigit c < 16"
  by (auto simp: hexDigit_def)

lemma hex_channels_length: "hex_channels s = Some cs \<Longrightarrow> length s = 2 * length cs"
  by (induction s arbitrary: cs rule: hex_channels.induct) (auto split: if_splits option.splits)

lemma hex_byte:
  assumes "0 \<le> h" "h < 16" "0 \<le> l" "l < (16 :: int)"
  shows "or (push_bit 4 h) l = 16 * h + l"
proof -
  have l: "take_bit 4 l = l" using assms by (simp add: take_bit_int_eq_self)
  have "\<not> bit (push_bit 4 h) n \<or> \<not> bit l n" for n
    by (subst l [symmetric]) (cases "n < 4"; simp add: bit_push_bit_iff bit_take_bit_iff)
  then have "or (push_bit 4 h) l = push_bit 4 h + l" by (simp add: disjunctive_add)
  then show ?thesis by (simp add: push_bit_eq_mult)
qed

lemma hex_channels_nth:
  "hex_channels s = Some cs \<Longrightarrow> i < length cs \<Longrightarrow>
   uint (cs ! i) = 16 * hexDigit (s ! (2 * i)) + hexDigit (s ! (2 * i + 1))"
proof (induction s arbitrary: cs i rule: hex_channels.induct)
  case (2 h l rest)
  then obtain ds where d: "hex_channels rest = Some ds" "0 \<le> hexDigit h" "0 \<le> hexDigit l"
    "cs = word_of_int (or (push_bit 4 (hexDigit h)) (hexDigit l)) # ds"
    by (auto split: if_splits option.splits)
  show ?case
  proof (cases i)
    case 0
    have "take_bit 8 (16 * hexDigit h + hexDigit l) = 16 * hexDigit h + hexDigit l"
      using d hexDigit_range [of h] hexDigit_range [of l] by (simp add: take_bit_int_eq_self)
    then show ?thesis
      using 0 d(2,3,4) hex_byte [OF d(2) hexDigit_range d(3) hexDigit_range]
      by (simp add: unsigned_of_int del: of_int_add of_int_mult)
  next
    case (Suc k)
    then have "uint (ds ! k) = 16 * hexDigit (rest ! (2 * k)) + hexDigit (rest ! (2 * k + 1))"
      using 2 d by simp
    then show ?thesis using d(4) Suc by simp
  qed
qed simp_all

lemma hex_channels_total:
  "length s = 2 * n \<Longrightarrow> (\<forall>c \<in> set s. 0 \<le> hexDigit c) \<Longrightarrow> \<exists>cs. hex_channels s = Some cs"
proof (induction s arbitrary: n rule: hex_channels.induct)
  case (2 h l rest)
  then obtain k where "n = Suc k" by (cases n) auto
  then obtain cs where "hex_channels rest = Some cs" using 2 by (auto simp: not_less)
  then show ?case using 2 by auto
qed auto

lemma hex_channels_digits: "hex_channels s = Some cs \<Longrightarrow> c \<in> set s \<Longrightarrow> 0 \<le> hexDigit c"
  by (induction s arbitrary: cs rule: hex_channels.induct) (auto split: if_splits option.splits)

lemma parseHex_Some:
  assumes p: "parseHex n s = Some cs" and i: "i < n"
  shows "length cs = n \<and> uint (cs ! i) = 16 * hexDigit (s ! (1 + 2 * i)) + hexDigit (s ! (2 + 2 * i))"
proof -
  have h: "hex_channels (tl s) = Some cs" "length s = 1 + n * 2"
    using p by (auto simp: parseHex_def split: if_splits)
  then have len: "length cs = n" using hex_channels_length [OF h(1)] by simp
  have "tl s ! j = s ! Suc j" if "j < n * 2" for j using h(2) that by (simp add: nth_tl)
  then show ?thesis using hex_channels_nth [OF h(1), of i] i len by simp
qed

lemma parseHex_defined:
  "parseHex n s \<noteq> None \<longleftrightarrow> length s = 1 + 2 * n \<and> hd s = CHR ''#'' \<and> (\<forall>c \<in> set (tl s). 0 \<le> hexDigit c)"
proof
  assume "parseHex n s \<noteq> None"
  then show "length s = 1 + 2 * n \<and> hd s = CHR ''#'' \<and> (\<forall>c \<in> set (tl s). 0 \<le> hexDigit c)"
    using hex_channels_digits by (fastforce simp: parseHex_def split: if_splits)
next
  assume r: "length s = 1 + 2 * n \<and> hd s = CHR ''#'' \<and> (\<forall>c \<in> set (tl s). 0 \<le> hexDigit c)"
  then have "length (tl s) = 2 * n" by simp
  then obtain cs where "hex_channels (tl s) = Some cs" using hex_channels_total r by blast
  then show "parseHex n s \<noteq> None" using r by (simp add: parseHex_def)
qed

text \<open>
  The colour parser accepts exactly a hash sign followed by two hexadecimal digits per
  channel, and reads each channel as the number its two digits denote.
\<close>

theorem parseHex_exact:
  "(parseHex n s \<noteq> None \<longleftrightarrow> length s = 1 + 2 * n \<and> hd s = CHR ''#'' \<and> list_all (\<lambda>c. hexDigit c \<noteq> -1) (tl s)) \<and>
   (parseHex n s = Some cs \<and> i < n \<longrightarrow> length cs = n \<and>
      uint (cs ! i) = 16 * hexDigit (s ! (1 + 2 * i)) + hexDigit (s ! (2 + 2 * i)))"
proof -
  have digit: "(\<lambda>c. hexDigit c \<noteq> -1) = (\<lambda>c. 0 \<le> hexDigit c)" by (auto simp: hexDigit_def fun_eq_iff)
  show ?thesis unfolding digit list_all_iff using parseHex_defined parseHex_Some by blast
qed

theorem parseHex_exact_witness:
  "parseHex 4 ''#0A80fF64'' = Some [10, 128, 255, 100] \<and> uint ([10, 128, 255, 100 :: u8] ! 1) = 16 * hexDigit (''#0A80fF64'' ! 3) + hexDigit (''#0A80fF64'' ! 4)"
proof -
  have p: "parseHex 4 ''#0A80fF64'' = Some [10, 128, 255, 100]" by code_simp
  show ?thesis using parseHex_exact [of 4 "''#0A80fF64''" "[10, 128, 255, 100]" 1] p by simp
qed

end
