(* ===== verification/RegisterSet.thy ===== *)
theory RegisterSet
  imports RadioModes "HOL-Library.Multiset"
begin

text \<open>
  The pure part of \<open>core/src/gui/widgets/band_stack.h\<close> and \<open>.cpp\<close>: a band's three rotating
  registers, their updates, and the transition that opens a register popup. A slot is an option;
  the fixed array is a list of length three, which every operation keeps.
\<close>

record BandRegister =
  reg_freq :: real
  reg_mode :: int

record BandRegisterSet =
  slots :: "BandRegister option list"

definition SIZE :: nat where
  "SIZE = 3"

definition empty_registers :: BandRegisterSet where
  "empty_registers = \<lparr>slots = replicate SIZE None\<rparr>"

definition regs_wf :: "BandRegisterSet \<Rightarrow> bool" where
  "regs_wf r \<longleftrightarrow> length (slots r) = SIZE"

definition slot_at :: "BandRegisterSet \<Rightarrow> nat \<Rightarrow> BandRegister option" where
  "slot_at r i = slots r ! i"

definition top_slot :: "BandRegisterSet \<Rightarrow> BandRegister option" where
  "top_slot r = slots r ! 0"

definition setSlot :: "BandRegisterSet \<Rightarrow> nat \<Rightarrow> BandRegister \<Rightarrow> BandRegisterSet" where
  "setSlot r i reg = r\<lparr>slots := (slots r)[i := Some reg]\<rparr>"

definition seedTop :: "BandRegisterSet \<Rightarrow> BandRegister \<Rightarrow> BandRegisterSet \<times> bool" where
  "seedTop r reg = (if slots r ! 0 \<noteq> None then (r, False)
     else (r\<lparr>slots := (slots r)[0 := Some reg]\<rparr>, True))"

definition storeTop :: "BandRegisterSet \<Rightarrow> BandRegister \<Rightarrow> BandRegisterSet" where
  "storeTop r reg = r\<lparr>slots := (slots r)[0 := Some reg]\<rparr>"

text \<open>\<open>std::rotate(first, middle, last)\<close> on the indices of a list.\<close>

definition std_rotate :: "nat \<Rightarrow> nat \<Rightarrow> nat \<Rightarrow> 'a list \<Rightarrow> 'a list" where
  "std_rotate b m e xs =
     take b xs @ drop m (take e xs) @ drop b (take m xs) @ drop e xs"

text \<open>\<open>std::find_if\<close> for an empty slot: its index, the length when there is none.\<close>

fun find_empty :: "BandRegister option list \<Rightarrow> nat" where
  "find_empty [] = 0"
| "find_empty (s # ss) = (if s = None then 0 else Suc (find_empty ss))"

definition repeatWithCurrent :: "BandRegisterSet \<Rightarrow> BandRegister \<Rightarrow> BandRegisterSet" where
  "repeatWithCurrent r current =
     (let n = find_empty (slots r) in
      if n \<noteq> length (slots r)
      then r\<lparr>slots := (std_rotate 0 n (n + 1) (slots r))[0 := Some current]\<rparr>
      else let s = (slots r)[0 := Some current]
           in r\<lparr>slots := std_rotate 0 (length s - 1) (length s) s\<rparr>)"

definition select_slot ::
    "BandRegisterSet \<Rightarrow> nat \<Rightarrow> BandRegister option \<Rightarrow> BandRegisterSet \<times> BandRegister option" where
  "select_slot r index materialization =
     (if slots r ! index = None \<and> materialization = None then (r, None)
      else let s = (if slots r ! index = None then (slots r)[index := materialization] else slots r);
               s' = std_rotate 0 index (index + 1) s
           in (r\<lparr>slots := s'\<rparr>, s' ! 0))"

record BandRegisterPopupSnapshot =
  registers :: BandRegisterSet
  canMaterializeEmpty :: bool

definition empty_snapshot :: BandRegisterPopupSnapshot where
  "empty_snapshot = \<lparr>registers = empty_registers, canMaterializeEmpty = False\<rparr>"

definition prepareBandRegisterPopup ::
    "BandRegisterSet \<Rightarrow> BandRegister option \<Rightarrow> BandRegister option \<Rightarrow> bool \<Rightarrow>
     BandRegisterPopupSnapshot \<times> bool" where
  "prepareBandRegisterPopup storedRegisters current fallback targetIsActive =
     (let (stored, storedChanged) =
        (if targetIsActive \<and> current \<noteq> None then (storeTop storedRegisters (the current), True)
         else if top_slot storedRegisters = None \<and> fallback \<noteq> None
         then seedTop storedRegisters (the fallback)
         else (storedRegisters, False))
      in (\<lparr>registers = stored, canMaterializeEmpty = (current \<noteq> None)\<rparr>, storedChanged))"

section \<open>Lemmas\<close>

lemma regs_cases:
  assumes "regs_wf r"
  obtains a b c where "r = \<lparr>slots = [a, b, c]\<rparr>"
proof -
  obtain a b c where "slots r = [a, b, c]"
    using assms by (auto simp: regs_wf_def SIZE_def numeral_3_eq_3 length_Suc_conv)
  then show ?thesis using that by (cases r) simp
qed

lemmas register_op_defs = setSlot_def seedTop_def storeTop_def repeatWithCurrent_def select_slot_def
  std_rotate_def top_slot_def slot_at_def regs_wf_def SIZE_def Let_def

lemma regs_wf_ops [simp]:
  "regs_wf empty_registers"
  "regs_wf r \<Longrightarrow> regs_wf (setSlot r i x)"
  "regs_wf r \<Longrightarrow> regs_wf (fst (seedTop r x))"
  "regs_wf r \<Longrightarrow> regs_wf (storeTop r x)"
  by (simp_all add: empty_registers_def register_op_defs)

lemma regs_wf_repeat [simp]: "regs_wf r \<Longrightarrow> regs_wf (repeatWithCurrent r x)"
  by (erule regs_cases) (simp add: register_op_defs numeral_2_eq_2)

lemma index_cases: "i < SIZE \<Longrightarrow> i = 0 \<or> i = 1 \<or> i = 2"
  by (auto simp: SIZE_def)

lemma regs_wf_select [simp]: "regs_wf r \<Longrightarrow> i < SIZE \<Longrightarrow> regs_wf (fst (select_slot r i m))"
  by (erule regs_cases, drule index_cases) (auto simp: register_op_defs numeral_2_eq_2)

text \<open>The registers a stack holds, as a multiset.\<close>

definition held :: "BandRegisterSet \<Rightarrow> BandRegister multiset" where
  "held r = mset (List.map_filter id (slots r))"

lemma held_simps [simp]:
  "held \<lparr>slots = []\<rparr> = {#}"
  "held \<lparr>slots = None # ss\<rparr> = held \<lparr>slots = ss\<rparr>"
  "held \<lparr>slots = Some x # ss\<rparr> = add_mset x (held \<lparr>slots = ss\<rparr>)"
  by (simp_all add: held_def List.map_filter_simps)

fun slot_held :: "BandRegister option \<Rightarrow> BandRegister multiset" where
  "slot_held None = {#}"
| "slot_held (Some x) = {#x#}"

lemma held_Cons: "held \<lparr>slots = s # ss\<rparr> = slot_held s + held \<lparr>slots = ss\<rparr>"
  by (cases s) simp_all

definition regs_full :: "BandRegisterSet \<Rightarrow> bool" where
  "regs_full r \<longleftrightarrow> None \<notin> set (slots r)"

lemma repeat_held:
  assumes "regs_wf r"
  shows "held (repeatWithCurrent r x) =
     (if regs_full r then add_mset x (held r - {#the (top_slot r)#}) else add_mset x (held r))"
  using assms
  by (rule regs_cases) (auto simp: register_op_defs regs_full_def numeral_2_eq_2 add_mset_commute)

lemma repeat_top:
  assumes "regs_wf r"
  shows "top_slot (repeatWithCurrent r x) = (if regs_full r then slots r ! 2 else Some x)"
  using assms
  by (rule regs_cases) (auto simp: register_op_defs regs_full_def numeral_2_eq_2)

text \<open>A tap that repeats while the radio stays on the recalled register.\<close>

definition repeat_on_top :: "BandRegisterSet \<Rightarrow> BandRegisterSet" where
  "repeat_on_top r = repeatWithCurrent r (the (top_slot r))"

lemma repeat_cycle:
  assumes "regs_wf r" "regs_full r"
  shows "repeat_on_top (repeat_on_top (repeat_on_top r)) = r"
proof -
  obtain a b c where "r = \<lparr>slots = [Some a, Some b, Some c]\<rparr>"
    using assms by (elim regs_cases) (simp add: regs_full_def, metis not_Some_eq)
  then show ?thesis by (simp add: repeat_on_top_def register_op_defs)
qed

lemma select_held:
  assumes "regs_wf r" "i < SIZE"
  shows "case select_slot r i m of (r', t) \<Rightarrow>
     (case slots r ! i of Some x \<Rightarrow> held r' = held r \<and> t = Some x \<and> top_slot r' = t
      | None \<Rightarrow> (case m of None \<Rightarrow> r' = r \<and> t = None
                | Some x \<Rightarrow> held r' = add_mset x (held r) \<and> t = Some x \<and> top_slot r' = t))"
  using assms index_cases [OF assms(2)]
  by (elim regs_cases disjE)
    (auto simp: register_op_defs numeral_2_eq_2 held_Cons simp del: held_simps(2,3) split: option.splits)

section \<open>Properties of a register stack\<close>

text \<open>
  Repeating a tap on a band never loses a register it should keep. While a slot is free the
  current state joins the registers and becomes the top; once the stack is full it replaces the
  old top only and the old third register comes to the top, so three taps that stay on what they
  recall cycle through all three registers and restore the stack.
\<close>

theorem register_repeat_cycles:
  assumes "regs_wf r"
  shows "held (repeatWithCurrent r x) =
           (if regs_full r then add_mset x (held r - {#the (top_slot r)#}) else add_mset x (held r)) \<and>
         top_slot (repeatWithCurrent r x) = (if regs_full r then slots r ! 2 else Some x) \<and>
         (regs_full r \<longrightarrow> repeat_on_top (repeat_on_top (repeat_on_top r)) = r)"
  using repeat_held repeat_top repeat_cycle assms by blast

theorem register_repeat_cycles_witness:
  "top_slot (repeatWithCurrent \<lparr>slots = [Some \<lparr>reg_freq = 1, reg_mode = 0\<rparr>, None, None]\<rparr>
     \<lparr>reg_freq = 2, reg_mode = 4\<rparr>) = Some \<lparr>reg_freq = 2, reg_mode = 4\<rparr>"
  using register_repeat_cycles [of "\<lparr>slots = [Some \<lparr>reg_freq = 1, reg_mode = 0\<rparr>, None, None]\<rparr>"
      "\<lparr>reg_freq = 2, reg_mode = 4\<rparr>"]
  by (simp add: regs_wf_def SIZE_def regs_full_def)

text \<open>
  Picking a register promotes it to the top and keeps every other register: a populated slot
  is moved without changing what the stack holds, an empty one is first filled with the offered
  state, and an empty one without an offer changes nothing.
\<close>

theorem register_select_keeps:
  assumes "regs_wf r" and "i < SIZE" and "select_slot r i m = (r', t)"
  shows "case slots r ! i of
      Some x \<Rightarrow> held r' = held r \<and> t = Some x \<and> top_slot r' = t
    | None \<Rightarrow> (case m of None \<Rightarrow> r' = r \<and> t = None
              | Some x \<Rightarrow> held r' = add_mset x (held r) \<and> t = Some x \<and> top_slot r' = t)"
  using select_held [OF assms(1,2), of m] assms(3) by simp

theorem register_select_keeps_witness:
  "\<exists>r' t. select_slot \<lparr>slots = [Some \<lparr>reg_freq = 1, reg_mode = 0\<rparr>, None, Some \<lparr>reg_freq = 3, reg_mode = 2\<rparr>]\<rparr> 2 None = (r', t) \<and>
     t = Some \<lparr>reg_freq = 3, reg_mode = 2\<rparr> \<and> top_slot r' = t"
proof -
  let ?r = "\<lparr>slots = [Some \<lparr>reg_freq = 1, reg_mode = 0\<rparr>, None, Some \<lparr>reg_freq = 3, reg_mode = 2\<rparr>]\<rparr>"
  obtain r' t where s: "select_slot ?r 2 None = (r', t)" by (cases "select_slot ?r 2 None")
  show ?thesis using register_select_keeps [OF _ _ s] s by (auto simp: regs_wf_def SIZE_def)
qed

end
