(* ===== verification/SpectrumRanges.thy ===== *)
theory SpectrumRanges
  imports Prelude
begin

text \<open>
  The spectrum navigation ranges of \<open>core/src/gui/widgets/freq_input/spectrum_ranges.cpp\<close>: a table
  that partitions the radio spectrum, its lookups, and the clipping of a range to what a source can
  tune. Frequencies are \<open>std::int64_t\<close> Hertz, an \<open>int\<close> here: the functions only compare them.
\<close>

record SpectrumRange =
  sr_name :: string
  rangeId :: string
  startHz :: int
  endHz :: int

definition sr_contains :: "SpectrumRange \<Rightarrow> int \<Rightarrow> bool" where
  "sr_contains r frequencyHz \<longleftrightarrow> frequencyHz \<ge> startHz r \<and> frequencyHz < endHz r"

definition spectrum_range :: "string \<Rightarrow> string \<Rightarrow> int \<Rightarrow> int \<Rightarrow> SpectrumRange" where
  "spectrum_range n i lo hi = \<lparr>sr_name = n, rangeId = i, startHz = lo, endHz = hi\<rparr>"

definition SPECTRUM_RANGES :: "SpectrumRange list" where
  "SPECTRUM_RANGES = [
     spectrum_range ''VLF'' ''ITU:VLF'' 3000 30000,
     spectrum_range ''LF'' ''ITU:LF'' 30000 300000,
     spectrum_range ''MF'' ''ITU:MF'' 300000 3000000,
     spectrum_range ''HF'' ''ITU:HF'' 3000000 30000000,
     spectrum_range ''VHF'' ''ITU:VHF'' 30000000 300000000,
     spectrum_range ''UHF'' ''IEEE-521-2026:UHF'' 300000000 1000000000,
     spectrum_range ''L'' ''IEEE-521-2026:L'' 1000000000 2000000000,
     spectrum_range ''S'' ''IEEE-521-2026:S'' 2000000000 4000000000,
     spectrum_range ''C'' ''IEEE-521-2026:C'' 4000000000 8000000000,
     spectrum_range ''X'' ''IEEE-521-2026:X'' 8000000000 12000000000,
     spectrum_range ''Ku'' ''IEEE-521-2026:Ku'' 12000000000 18000000000,
     spectrum_range ''K'' ''IEEE-521-2026:K'' 18000000000 27000000000,
     spectrum_range ''Ka'' ''IEEE-521-2026:Ka'' 27000000000 40000000000,
     spectrum_range ''V'' ''IEEE-521-2026:V'' 40000000000 75000000000,
     spectrum_range ''W'' ''IEEE-521-2026:W'' 75000000000 110000000000]"

text \<open>The \<open>static_assert\<close> of the source, with its two nested loops over the indices.\<close>

definition validSpectrumRanges :: "SpectrumRange list \<Rightarrow> bool" where
  "validSpectrumRanges rs = list_all (\<lambda>i.
     let r = rs ! i in
     sr_name r \<noteq> '''' \<and> rangeId r \<noteq> '''' \<and> startHz r < endHz r \<and>
     (i > 0 \<longrightarrow> endHz (rs ! (i - 1)) = startHz r) \<and>
     list_all (\<lambda>j. rangeId (rs ! j) \<noteq> rangeId r) [0..<i]) [0..<length rs]"

definition findSpectrumRange :: "string \<Rightarrow> SpectrumRange option" where
  "findSpectrumRange i = find (\<lambda>r. rangeId r = i) SPECTRUM_RANGES"

definition spectrumRangeAtFrequency :: "int \<Rightarrow> SpectrumRange option" where
  "spectrumRangeAtFrequency frequencyHz = find (\<lambda>r. sr_contains r frequencyHz) SPECTRUM_RANGES"

record AvailableSpectrumRange =
  av_range :: "SpectrumRange option"
  av_startHz :: int
  av_endHz :: int
  av_partial :: bool

definition no_range :: AvailableSpectrumRange where
  "no_range = \<lparr>av_range = None, av_startHz = 0, av_endHz = 0, av_partial = False\<rparr>"

definition av_contains :: "AvailableSpectrumRange \<Rightarrow> real \<Rightarrow> bool" where
  "av_contains a frequencyHz \<longleftrightarrow> frequencyHz \<ge> of_int (av_startHz a) \<and> frequencyHz < of_int (av_endHz a)"

definition availableSpectrumRange ::
    "SpectrumRange \<Rightarrow> bool \<Rightarrow> int \<Rightarrow> int \<Rightarrow> bool \<times> AvailableSpectrumRange" where
  "availableSpectrumRange rng limited sourceMinHz sourceMaxHz =
     (let (lo, hi) =
        (if limited
         then let (smin, smax) = (if sourceMinHz > sourceMaxHz then (sourceMaxHz, sourceMinHz)
                                  else (sourceMinHz, sourceMaxHz))
              in (max (startHz rng) smin, min (endHz rng) smax)
         else (startHz rng, endHz rng))
      in if lo \<ge> hi then (False, no_range)
         else (True, \<lparr>av_range = Some rng, av_startHz = lo, av_endHz = hi,
                      av_partial = (lo \<noteq> startHz rng \<or> hi \<noteq> endHz rng)\<rparr>))"

section \<open>Lemmas\<close>

lemma spectrum_range_simps [simp]:
  "sr_name (spectrum_range n i lo hi) = n" "rangeId (spectrum_range n i lo hi) = i"
  "startHz (spectrum_range n i lo hi) = lo" "endHz (spectrum_range n i lo hi) = hi"
  by (simp_all add: spectrum_range_def)

lemma valid_SPECTRUM_RANGES: "validSpectrumRanges SPECTRUM_RANGES"
  by (simp add: validSpectrumRanges_def SPECTRUM_RANGES_def upt_rec numeral_eq_Suc)

text \<open>
  A list that passes the static assertion partitions the interval it spans: what \<open>find\<close> returns at
  a frequency is the only range that contains it.
\<close>

lemma valid_step:
  assumes "validSpectrumRanges rs" "i < length rs"
  shows "startHz (rs ! i) < endHz (rs ! i)" and "i > 0 \<Longrightarrow> endHz (rs ! (i - 1)) = startHz (rs ! i)"
    and "j < i \<Longrightarrow> rangeId (rs ! j) \<noteq> rangeId (rs ! i)"
  using assms by (auto simp: validSpectrumRanges_def list_all_iff Let_def)

lemma valid_ordered:
  assumes v: "validSpectrumRanges rs" and "i < j" "j < length rs"
  shows "endHz (rs ! i) \<le> startHz (rs ! j)"
  using assms(2,3)
proof (induction j)
  case (Suc j)
  have s: "endHz (rs ! j) = startHz (rs ! Suc j)" using valid_step(2) [OF v, of "Suc j"] Suc.prems by simp
  show ?case
  proof (cases "i = j")
    case False
    then have "endHz (rs ! i) \<le> startHz (rs ! j)" using Suc by simp
    also have "\<dots> < endHz (rs ! j)" using valid_step(1) [OF v] Suc.prems by simp
    finally show ?thesis using s by simp
  qed (use s in simp)
qed simp

lemma valid_unique:
  assumes v: "validSpectrumRanges rs" and "i < length rs" "j < length rs"
    and "sr_contains (rs ! i) f" "sr_contains (rs ! j) f"
  shows "i = j"
  using valid_ordered [OF v, of i j] valid_ordered [OF v, of j i] assms
  unfolding sr_contains_def by (metis linorder_neqE_nat not_le order.trans order.strict_trans2)

lemma valid_covers:
  assumes v: "validSpectrumRanges rs" and "k < length rs"
    and "startHz (rs ! 0) \<le> f" "f < endHz (rs ! k)"
  shows "\<exists>i \<le> k. sr_contains (rs ! i) f"
  using assms(2,4)
proof (induction k)
  case 0
  then show ?case using assms(3) by (auto simp: sr_contains_def)
next
  case (Suc k)
  show ?case
  proof (cases "f < endHz (rs ! k)")
    case True
    then show ?thesis using Suc by (meson Suc_lessD le_SucI)
  next
    case False
    have "endHz (rs ! k) = startHz (rs ! Suc k)" using valid_step(2) [OF v, of "Suc k"] Suc.prems by simp
    then show ?thesis using False Suc.prems by (auto simp: sr_contains_def)
  qed
qed

lemma find_contains_iff:
  assumes v: "validSpectrumRanges rs"
  shows "find (\<lambda>r. sr_contains r f) rs = Some r \<longleftrightarrow> r \<in> set rs \<and> sr_contains r f"
proof
  assume "r \<in> set rs \<and> sr_contains r f"
  then obtain i where i: "i < length rs" "r = rs ! i" "sr_contains (rs ! i) f" by (auto simp: in_set_conv_nth)
  have "\<not> sr_contains (rs ! j) f" if "j < i" for j
    using valid_unique [OF v, of j i f] i that by auto
  then show "find (\<lambda>r. sr_contains r f) rs = Some r" using i by (auto simp: find_Some_iff)
qed (auto simp: find_Some_iff)

lemma find_id_iff:
  assumes v: "validSpectrumRanges rs"
  shows "find (\<lambda>r. rangeId r = i) rs = Some r \<longleftrightarrow> r \<in> set rs \<and> rangeId r = i"
proof
  assume "r \<in> set rs \<and> rangeId r = i"
  then obtain k where k: "k < length rs" "r = rs ! k" "rangeId (rs ! k) = i" by (auto simp: in_set_conv_nth)
  have "rangeId (rs ! j) \<noteq> i" if "j < k" for j
    using valid_step(3) [OF v k(1) that] k(3) by simp
  then show "find (\<lambda>r. rangeId r = i) rs = Some r" using k by (auto simp: find_Some_iff)
qed (auto simp: find_Some_iff)

lemma spectrum_ends: "startHz (SPECTRUM_RANGES ! 0) = 3000" "endHz (SPECTRUM_RANGES ! 14) = 110000000000"
  "length SPECTRUM_RANGES = 15"
  by (simp_all add: SPECTRUM_RANGES_def)

lemma availableSpectrumRange_iff:
  assumes "availableSpectrumRange r limited a b = (ok, av)"
  shows "ok \<and> av_contains av (of_int f) \<longleftrightarrow>
     sr_contains r f \<and> (limited \<longrightarrow> min a b \<le> f \<and> f < max a b)"
  using assms
  by (auto simp: availableSpectrumRange_def Let_def sr_contains_def av_contains_def no_range_def split: if_splits)

section \<open>Properties\<close>

text \<open>
  The spectrum table is a partition: every frequency from 3 kHz up to 110 GHz lies in exactly
  one range and the lookup returns it, every other frequency has none; and the stable ID of a
  range leads back to it.
\<close>

theorem spectrum_lookup_partition:
  "(spectrumRangeAtFrequency f = Some r \<longleftrightarrow> r \<in> set SPECTRUM_RANGES \<and> startHz r \<le> f \<and> f < endHz r) \<and>
   (spectrumRangeAtFrequency f = None \<longleftrightarrow> f < 3000 \<or> 110000000000 \<le> f) \<and>
   (findSpectrumRange i = Some r \<longleftrightarrow> r \<in> set SPECTRUM_RANGES \<and> rangeId r = i)"
proof -
  note v = valid_SPECTRUM_RANGES
  have "spectrumRangeAtFrequency f = None \<longleftrightarrow> f < 3000 \<or> 110000000000 \<le> f"
  proof
    assume n: "spectrumRangeAtFrequency f = None"
    then have "\<not> sr_contains (SPECTRUM_RANGES ! i) f" if "i \<le> 14" for i
      using that spectrum_ends(3) by (auto simp: spectrumRangeAtFrequency_def find_None_iff)
    then show "f < 3000 \<or> 110000000000 \<le> f"
      using valid_covers [OF v, of 14 f] spectrum_ends by fastforce
  next
    assume "f < 3000 \<or> 110000000000 \<le> f"
    moreover have "\<forall>r \<in> set SPECTRUM_RANGES. 3000 \<le> startHz r \<and> endHz r \<le> 110000000000"
      by (simp add: SPECTRUM_RANGES_def)
    ultimately have "\<forall>r \<in> set SPECTRUM_RANGES. \<not> sr_contains r f"
      unfolding sr_contains_def by force
    then show "spectrumRangeAtFrequency f = None"
      by (simp add: spectrumRangeAtFrequency_def find_None_iff)
  qed
  moreover have "spectrumRangeAtFrequency f = Some r \<longleftrightarrow> r \<in> set SPECTRUM_RANGES \<and> startHz r \<le> f \<and> f < endHz r"
    using find_contains_iff [OF v, of f r] by (simp only: spectrumRangeAtFrequency_def sr_contains_def)
  moreover have "findSpectrumRange i = Some r \<longleftrightarrow> r \<in> set SPECTRUM_RANGES \<and> rangeId r = i"
    using find_id_iff [OF v, of i r] by (simp only: findSpectrumRange_def)
  ultimately show ?thesis by blast
qed

text \<open>
  Clipping a range to the limits of a source, given in either order, makes exactly those
  frequencies available that lie in the range and within the limits; an empty intersection is
  reported as unavailable, and a range is marked partial exactly when something was cut off.
\<close>

theorem spectrum_clipping_exact:
  assumes "availableSpectrumRange r limited a b = (ok, av)"
  shows "(ok \<and> av_contains av (of_int f) \<longleftrightarrow>
            startHz r \<le> f \<and> f < endHz r \<and> (limited \<longrightarrow> min a b \<le> f \<and> f < max a b)) \<and>
         (ok \<longrightarrow> av_range av = Some r \<and> av_startHz av < av_endHz av \<and>
            (av_partial av \<longleftrightarrow> (\<exists>g. startHz r \<le> g \<and> g < endHz r \<and> \<not> av_contains av (of_int g)))) \<and>
         (\<not> ok \<longleftrightarrow> (\<nexists>g. startHz r \<le> g \<and> g < endHz r \<and> (limited \<longrightarrow> min a b \<le> g \<and> g < max a b)))"
proof -
  have part: "ok \<longrightarrow> av_range av = Some r \<and> av_startHz av < av_endHz av \<and>
      startHz r \<le> av_startHz av \<and> av_endHz av \<le> endHz r \<and>
      (av_partial av \<longleftrightarrow> av_startHz av \<noteq> startHz r \<or> av_endHz av \<noteq> endHz r)"
    using assms by (auto simp: availableSpectrumRange_def Let_def split: if_splits)
  have "av_partial av \<longleftrightarrow> (\<exists>g. startHz r \<le> g \<and> g < endHz r \<and> \<not> av_contains av (of_int g))" if ok
  proof
    assume "av_partial av"
    then have "startHz r < av_startHz av \<or> av_endHz av < endHz r" using part that by auto
    then consider "startHz r < av_startHz av" | "av_endHz av < endHz r" by blast
    then show "\<exists>g. startHz r \<le> g \<and> g < endHz r \<and> \<not> av_contains av (of_int g)"
    proof cases
      case 1
      then show ?thesis using part that by (intro exI [of _ "startHz r"]) (simp add: av_contains_def)
    next
      case 2
      then show ?thesis using part that by (intro exI [of _ "av_endHz av"]) (simp add: av_contains_def)
    qed
  next
    assume "\<exists>g. startHz r \<le> g \<and> g < endHz r \<and> \<not> av_contains av (of_int g)"
    then show "av_partial av" using part that by (auto simp: av_contains_def)
  qed
  moreover have "ok \<longleftrightarrow> (\<exists>g. startHz r \<le> g \<and> g < endHz r \<and> (limited \<longrightarrow> min a b \<le> g \<and> g < max a b))"
  proof
    assume ok
    then have "av_contains av (of_int (av_startHz av))" using part by (simp add: av_contains_def)
    with \<open>ok\<close> show "\<exists>g. startHz r \<le> g \<and> g < endHz r \<and> (limited \<longrightarrow> min a b \<le> g \<and> g < max a b)"
      using availableSpectrumRange_iff [OF assms, of "av_startHz av"] by (auto simp: sr_contains_def)
  qed (use availableSpectrumRange_iff [OF assms] in \<open>auto simp: sr_contains_def\<close>)
  ultimately show ?thesis
    using part availableSpectrumRange_iff [OF assms, of f] by (auto simp: sr_contains_def)
qed

theorem spectrum_clipping_exact_witness:
  "\<exists>av. availableSpectrumRange (SPECTRUM_RANGES ! 3) True 24000000 1000000 = (True, av) \<and>
        av_partial av \<and> av_contains av 14000000"
proof -
  obtain av where e: "availableSpectrumRange (SPECTRUM_RANGES ! 3) True 24000000 1000000 = (True, av)"
    by (simp add: availableSpectrumRange_def SPECTRUM_RANGES_def)
  show ?thesis using spectrum_clipping_exact [OF e, of 14000000] e
    by (auto simp: availableSpectrumRange_def SPECTRUM_RANGES_def)
qed

end
