(* ===== verification/BandStack.thy ===== *)
theory BandStack
  imports BandPlan RegisterSet SpectrumRanges
begin

text \<open>
  The band stacking layer, \<open>core/src/gui/widgets/band_stack.cpp\<close>, and the frequency memory subtree
  it shares with the spectrum grid, \<open>freq_memory.h\<close> and \<open>.cpp\<close>. The registers live in the
  configuration document; every operation is a function of the surroundings it samples (the band
  plan, the tuned frequency, the selected VFO) and the document, and returns the edited document
  and the commands it sends to the radio. A store contract states what reading the registers of a
  band gives after a write; the configuration meets it.
\<close>

section \<open>Frequency memory\<close>

definition fm_ROOT :: string where "fm_ROOT = ''frequencyMemory''"
definition fm_VERSION :: string where "fm_VERSION = ''version''"
definition fm_CURRENT_VERSION :: int where "fm_CURRENT_VERSION = 1"
definition fm_PAGE :: string where "fm_PAGE = ''page''"
definition fm_SELECTOR :: string where "fm_SELECTOR = ''selector''"
definition fm_SELECTOR_BAND :: string where "fm_SELECTOR_BAND = ''band''"
definition fm_SELECTOR_SPECTRUM :: string where "fm_SELECTOR_SPECTRUM = ''spectrum''"
definition fm_GROUP :: string where "fm_GROUP = ''group''"
definition fm_PREFERRED_SERVICE :: string where "fm_PREFERRED_SERVICE = ''preferredService''"
definition fm_ACTIVE_RANGE :: string where "fm_ACTIVE_RANGE = ''activeRange''"
definition fm_STACKING_REGISTERS :: string where "fm_STACKING_REGISTERS = ''stackingRegisters''"
definition fm_LAST_FREQUENCY :: string where "fm_LAST_FREQUENCY = ''lastFrequency''"

lemmas fm_keys = fm_ROOT_def fm_VERSION_def fm_CURRENT_VERSION_def fm_PAGE_def fm_SELECTOR_def
  fm_SELECTOR_BAND_def fm_SELECTOR_SPECTRUM_def fm_GROUP_def fm_PREFERRED_SERVICE_def
  fm_ACTIVE_RANGE_def fm_STACKING_REGISTERS_def fm_LAST_FREQUENCY_def

definition fm_root :: "string list" where "fm_root = [fm_ROOT]"
definition fm_band :: "string list" where "fm_band = fm_root @ [fm_SELECTOR_BAND]"
definition fm_spectrum :: "string list" where "fm_spectrum = fm_root @ [fm_SELECTOR_SPECTRUM]"
definition fm_stackingRegisters :: "string list" where
  "fm_stackingRegisters = fm_band @ [fm_STACKING_REGISTERS]"

lemmas fm_paths = fm_root_def fm_band_def fm_spectrum_def fm_stackingRegisters_def

text \<open>\<open>EditSection::set\<close> as a statement, its result ignored; it cannot throw on a named section.\<close>

definition sec_set :: "EditAccess \<Rightarrow> string list \<Rightarrow> string \<Rightarrow> json \<Rightarrow> EditAccess" where
  "sec_set a path key v = (case section_set a path key v of Some (a', wrote) \<Rightarrow> a' | None \<Rightarrow> a)"

definition fm_defaults :: json where
  "fm_defaults =
     (let bandDefaults = obj_set fm_STACKING_REGISTERS (JObject [])
            (obj_set fm_PREFERRED_SERVICE (JString ''other'') (obj_set fm_GROUP (JString ''ham'') []));
          spectrumDefaults = obj_set fm_LAST_FREQUENCY (JObject []) (obj_set fm_ACTIVE_RANGE (JString '''') [])
      in JObject (obj_set fm_SELECTOR_SPECTRUM (JObject spectrumDefaults)
           (obj_set fm_SELECTOR_BAND (JObject bandDefaults)
             (obj_set fm_SELECTOR (JString fm_SELECTOR_BAND)
               (obj_set fm_PAGE (JString ''keypad'')
                 (obj_set fm_VERSION (JInt fm_CURRENT_VERSION) []))))))"

definition fm_activate :: "EditAccess \<Rightarrow> string \<Rightarrow> EditAccess" where
  "fm_activate a selector = sec_set a fm_root fm_SELECTOR (JString selector)"

section \<open>Registers in the document\<close>

text \<open>One entry of a band's array; \<open>None\<close> leaves the slot empty.\<close>

definition slot_from_json :: "BandPlan_t option \<Rightarrow> BandMapping \<Rightarrow> json \<Rightarrow> BandRegister option" where
  "slot_from_json plan mapping ent =
     (if \<not> is_object ent then None
      else (case config_find ent ''freq'' of None \<Rightarrow> None | Some fj \<Rightarrow>
        (case number_value fj of None \<Rightarrow> None | Some f \<Rightarrow>
          (if f \<le> 0 then None
           else (case plan of None \<Rightarrow> None | Some p \<Rightarrow>
             (if findMappedSegmentAtFrequency p mapping f = None then None
              else Some \<lparr>reg_freq = f,
                     reg_mode = (case config_find ent ''mode'' of
                        Some (JString m) \<Rightarrow> radioModeFromName m | _ \<Rightarrow> -1)\<rparr>))))))"

fun read_slots :: "BandPlan_t option \<Rightarrow> BandMapping \<Rightarrow> nat \<Rightarrow> json list \<Rightarrow> BandRegisterSet \<Rightarrow> BandRegisterSet" where
  "read_slots plan mapping i [] regs = regs"
| "read_slots plan mapping i (ent # rest) regs =
     (if i < SIZE
      then read_slots plan mapping (Suc i) rest
             (case slot_from_json plan mapping ent of Some r \<Rightarrow> setSlot regs i r | None \<Rightarrow> regs)
      else regs)"

definition readRegisters :: "json \<Rightarrow> BandPlan_t option \<Rightarrow> BandMapping \<Rightarrow> BandRegisterSet" where
  "readRegisters doc plan mapping =
     (case resolve doc (fm_stackingRegisters @ [bandId mapping]) of
        Some (JArray entries) \<Rightarrow> read_slots plan mapping 0 entries empty_registers
      | _ \<Rightarrow> empty_registers)"

definition slot_to_json :: "BandRegister option \<Rightarrow> json" where
  "slot_to_json slot = (case slot of
     Some r \<Rightarrow> JObject (if radioModeValid (reg_mode r)
        then obj_set ''mode'' (JString (radioModeName (reg_mode r))) [(''freq'', JFloat (reg_freq r))]
        else [(''freq'', JFloat (reg_freq r))])
   | None \<Rightarrow> JNull)"

definition writeRegisters :: "EditAccess \<Rightarrow> BandMapping \<Rightarrow> BandRegisterSet \<Rightarrow> EditAccess" where
  "writeRegisters a mapping regs =
     sec_set a fm_stackingRegisters (bandId mapping) (JArray (map slot_to_json (slots regs)))"

section \<open>Resolution of a band\<close>

fun resolve_loop :: "Band_t list \<Rightarrow> real \<Rightarrow> BandServiceSet \<Rightarrow> BandService \<Rightarrow>
    BandMapping option \<Rightarrow> BandMapping option" where
  "resolve_loop [] freq services currentService fallback = fallback"
| "resolve_loop (band # rest) freq services currentService fallback =
     (case rb_mapping (b_resolved band) of
        None \<Rightarrow> resolve_loop rest freq services currentService fallback
      | Some mapping \<Rightarrow>
         (if \<not> resolved_isBandOrSegment (b_resolved band) \<or>
             \<not> set_contains services (resolved_service (b_resolved band)) \<or>
             \<not> containsFrequency band freq
          then resolve_loop rest freq services currentService fallback
          else if bm_service mapping = currentService then Some mapping
          else resolve_loop rest freq services currentService
                 (case fallback of None \<Rightarrow> Some mapping | Some f \<Rightarrow> Some f)))"

definition resolveBandInServices ::
    "BandPlan_t option \<Rightarrow> real \<Rightarrow> BandServiceSet \<Rightarrow> BandService \<Rightarrow> BandMapping option" where
  "resolveBandInServices plan freq services currentService = (case plan of None \<Rightarrow> None
     | Some p \<Rightarrow> resolve_loop (bp_bands p) freq services currentService None)"

definition normalMode :: "int \<Rightarrow> int" where
  "normalMode mode = (if radioModeValid mode then mode else -1)"

definition in_band :: "BandPlan_t option \<Rightarrow> BandMapping \<Rightarrow> real \<Rightarrow> bool" where
  "in_band plan mapping f = (case plan of None \<Rightarrow> False
     | Some p \<Rightarrow> findMappedSegmentAtFrequency p mapping f \<noteq> None)"

definition updateTopRegister ::
    "EditAccess \<Rightarrow> BandPlan_t option \<Rightarrow> BandMapping \<Rightarrow> real \<Rightarrow> int \<Rightarrow> EditAccess \<times> bool" where
  "updateTopRegister a plan mapping freq mode =
     (if freq \<le> 0 \<or> \<not> in_band plan mapping freq then (a, False)
      else (writeRegisters a mapping
              (storeTop (readRegisters (conf a) plan mapping) \<lparr>reg_freq = freq, reg_mode = normalMode mode\<rparr>),
            True))"

definition storeVisibleBand ::
    "EditAccess \<Rightarrow> BandPlan_t option \<Rightarrow> BandMapping option \<Rightarrow> real \<Rightarrow> int \<Rightarrow> EditAccess \<times> bool" where
  "storeVisibleBand a plan activeMapping frequency mode = (case activeMapping of
     None \<Rightarrow> (a, False) | Some m \<Rightarrow> updateTopRegister a plan m frequency mode)"

section \<open>Modes\<close>

definition heuristicMode :: "BandService \<Rightarrow> BandFamily \<Rightarrow> real \<Rightarrow> int" where
  "heuristicMode service family frequency =
     (if service = SvcAmateur then
        (if frequency \<le> 600000 then RADIO_IFACE_MODE_CW
         else if frequency \<ge> 5200000 \<and> frequency \<le> 5500000 then RADIO_IFACE_MODE_USB
         else if frequency < 10000000 then RADIO_IFACE_MODE_LSB
         else if frequency < 100000000 then RADIO_IFACE_MODE_USB
         else RADIO_IFACE_MODE_NFM)
      else if service = SvcBroadcast then
        (if family = FamWeatherBroadcast then RADIO_IFACE_MODE_NFM
         else if family = FamTelevisionBroadcast then -1
         else if frequency \<ge> 30000000 then RADIO_IFACE_MODE_WFM else RADIO_IFACE_MODE_AM)
      else if service = SvcAviation then
        (if family = FamAviationSurveillance then -1
         else if frequency < 30000000 then RADIO_IFACE_MODE_USB else RADIO_IFACE_MODE_AM)
      else if service = SvcMaritime then
        (if frequency < 30000000 then RADIO_IFACE_MODE_USB else RADIO_IFACE_MODE_NFM)
      else -1)"

definition resolvedMode :: "Band_t \<Rightarrow> real \<Rightarrow> int \<Rightarrow> int" where
  "resolvedMode segment frequency mode =
     (if radioModeValid mode then mode
      else let m = radioModeFromName (b_defMode segment) in
        if m < 0 then heuristicMode (resolved_service (b_resolved segment))
                        (resolved_family (b_resolved segment)) frequency
        else m)"

definition captureRegister :: "BandPlan_t option \<Rightarrow> BandMapping \<Rightarrow> real \<Rightarrow> int \<Rightarrow> BandRegister option" where
  "captureRegister plan mapping frequency mode =
     (if frequency \<le> 0 then None
      else (case plan of None \<Rightarrow> None | Some p \<Rightarrow>
        (case findMappedSegmentAtFrequency p mapping frequency of None \<Rightarrow> None
         | Some segment \<Rightarrow> Some \<lparr>reg_freq = frequency, reg_mode = normalMode mode\<rparr>)))"

definition defaultRegister :: "BandPlan_t option \<Rightarrow> BandMapping \<Rightarrow> real \<Rightarrow> BandRegister option" where
  "defaultRegister plan mapping frequency =
     (if frequency \<le> 0 then None
      else (case plan of None \<Rightarrow> None | Some p \<Rightarrow>
        (case findMappedSegmentAtFrequency p mapping frequency of None \<Rightarrow> None
         | Some segment \<Rightarrow> Some \<lparr>reg_freq = frequency, reg_mode = resolvedMode segment frequency (-1)\<rparr>)))"

section \<open>Commands to the radio\<close>

datatype RadioCommand = SetMode int | SetSnapInterval real | Tune real

text \<open>
  What the operations sample: the band plan shown, the tuned frequency, the selected VFO (its
  name, the mode its radio module reports, \<open>None\<close> when it is not a radio, and whether the
  waterfall knows it).
\<close>

record Surroundings =
  e_plan :: "BandPlan_t option"
  e_frequency :: real
  e_vfoName :: string
  e_radioMode :: "int option"
  e_vfoShown :: bool

definition isRadioVFO :: "Surroundings \<Rightarrow> bool" where
  "isRadioVFO e \<longleftrightarrow> e_vfoName e \<noteq> '''' \<and> e_radioMode e \<noteq> None"

definition currentMode :: "Surroundings \<Rightarrow> int" where
  "currentMode e = (if \<not> isRadioVFO e then -1 else the (e_radioMode e))"

definition applySegmentTarget :: "Surroundings \<Rightarrow> Band_t \<Rightarrow> real \<Rightarrow> int \<Rightarrow> RadioCommand list" where
  "applySegmentTarget e segment freq mode0 =
     (let mode = resolvedMode segment freq mode0 in
      (if mode \<ge> 0 \<and> isRadioVFO e \<and> mode \<noteq> currentMode e then [SetMode mode] else []) @
      (if b_chan segment > 0 \<and> e_vfoName e \<noteq> '''' \<and> e_vfoShown e
       then [SetSnapInterval (b_chan segment)] else []) @
      [Tune freq])"

definition applyTarget :: "Surroundings \<Rightarrow> BandMapping \<Rightarrow> BandRegister \<Rightarrow> RadioCommand list" where
  "applyTarget e mapping target =
     (if reg_freq target \<le> 0 then []
      else (case e_plan e of None \<Rightarrow> [] | Some plan \<Rightarrow>
        (case findMappedSegmentAtFrequency plan mapping (reg_freq target) of None \<Rightarrow> []
         | Some segment \<Rightarrow> applySegmentTarget e segment (reg_freq target) (reg_mode target))))"

section \<open>Operations\<close>

definition edit_access :: "json \<Rightarrow> EditAccess" where
  "edit_access doc = \<lparr>conf = doc, changed = False\<rparr>"

text \<open>Two pointers to registered mappings are equal when the mappings are.\<close>

definition openRegisters ::
    "Surroundings \<Rightarrow> json \<Rightarrow> BandMapping \<Rightarrow> real \<Rightarrow> BandMapping option \<Rightarrow>
     EditAccess \<times> BandRegisterPopupSnapshot" where
  "openRegisters e doc mapping defaultFrequency activeMapping =
     (if e_plan e = None then (edit_access doc, empty_snapshot)
      else
        let plan = e_plan e;
            current = captureRegister plan mapping (e_frequency e) (currentMode e);
            fallback = defaultRegister plan mapping defaultFrequency;
            a = edit_access doc;
            (snapshot, storedChanged) = prepareBandRegisterPopup (readRegisters (conf a) plan mapping)
               current fallback (activeMapping = Some mapping)
        in (if storedChanged then writeRegisters a mapping (registers snapshot) else a, snapshot))"

definition set_selection :: "EditAccess \<Rightarrow> BandService \<Rightarrow> EditAccess" where
  "set_selection a service =
     sec_set (sec_set a fm_band fm_PREFERRED_SERVICE (JString (bandServiceKey service)))
       fm_root fm_SELECTOR (JString fm_SELECTOR_BAND)"

definition selectBand ::
    "Surroundings \<Rightarrow> json \<Rightarrow> BandMapping \<Rightarrow> real \<Rightarrow> BandMapping option \<Rightarrow>
     EditAccess \<times> RadioCommand list" where
  "selectBand e doc mapping defaultFrequency activeMapping =
     (if e_plan e = None then (edit_access doc, [])
      else
        let plan = e_plan e;
            curMode = currentMode e;
            currentFrequency = e_frequency e;
            a0 = edit_access doc;
            couldRepeat = (activeMapping = Some mapping);
            before = (if couldRepeat then readRegisters (conf a0) plan mapping else empty_registers);
            (a1, storedSource) = storeVisibleBand a0 plan activeMapping currentFrequency curMode;
            repeatTap = (storedSource \<and> couldRepeat);
            a2 = set_selection a1 (bm_service mapping);
            (regs, a3) =
              (if repeatTap
               then let r = repeatWithCurrent before
                          \<lparr>reg_freq = currentFrequency, reg_mode = normalMode curMode\<rparr>
                    in (r, writeRegisters a2 mapping r)
               else (readRegisters (conf a2) plan mapping, a2));
            (target, a4) =
              (if top_slot regs = None \<and> \<not> repeatTap
               then (case defaultRegister plan mapping defaultFrequency of
                       None \<Rightarrow> (None, a3)
                     | Some t \<Rightarrow> (Some t, writeRegisters a3 mapping (fst (seedTop regs t))))
               else (top_slot regs, a3))
        in (a4, case target of None \<Rightarrow> [] | Some t \<Rightarrow> applyTarget e mapping t))"

datatype BandRecallResult = NoTarget | Recalled

definition recallRegister ::
    "Surroundings \<Rightarrow> json \<Rightarrow> BandMapping \<Rightarrow> int \<Rightarrow> BandMapping option \<Rightarrow> BandRegisterPopupSnapshot \<Rightarrow>
     EditAccess \<times> BandRecallResult \<times> RadioCommand list" where
  "recallRegister e doc mapping index activeMapping openedSnapshot =
     (if e_plan e = None \<or> index < 0 \<or> index \<ge> int SIZE then (edit_access doc, NoTarget, [])
      else
        let plan = e_plan e;
            i = nat index;
            curMode = currentMode e;
            currentFrequency = e_frequency e;
            frozenTop = (if index = 0 then
                (case slot_at (registers openedSnapshot) 0 of
                   Some shown \<Rightarrow> if in_band plan mapping (reg_freq shown) then Some shown else None
                 | None \<Rightarrow> None) else None);
            a0 = edit_access doc;
            regs0 = readRegisters (conf a0) plan mapping;
            needs = (frozenTop = None \<and> slot_at regs0 i = None);
            materialization = (if needs then captureRegister plan mapping currentFrequency curMode else None)
        in if needs \<and> materialization = None then (a0, NoTarget, [])
           else
             let materializingActiveTarget = (materialization \<noteq> None \<and> activeMapping = Some mapping);
                 (a1, regs1) =
                   (if \<not> materializingActiveTarget
                    then let a = fst (storeVisibleBand a0 plan activeMapping currentFrequency curMode)
                         in (a, readRegisters (conf a) plan mapping)
                    else (a0, regs0));
                 (regs2, selected) =
                   (case frozenTop of
                      Some t \<Rightarrow> (storeTop regs1 t, Some t)
                    | None \<Rightarrow> select_slot regs1 i materialization)
             in (case selected of
                   None \<Rightarrow> (a1, NoTarget, [])
                 | Some target \<Rightarrow>
                    (set_selection (writeRegisters a1 mapping regs2) (bm_service mapping), Recalled,
                     applyTarget e mapping target)))"

text \<open>Tuning a legacy row that has no stable identity.\<close>

definition legacy_target :: "Band_t \<Rightarrow> real" where
  "legacy_target segment =
     (let targetFrequency = b_defFreq segment in
      if targetFrequency \<le> 0 \<or> \<not> containsFrequency segment targetFrequency
      then let center = (b_start segment + b_end segment) / 2;
               rounded = of_int (round_away (center / 1000)) * 1000
           in if rounded > 0 \<and> containsFrequency segment rounded then rounded else center
      else targetFrequency)"

definition selectLegacySegment ::
    "Surroundings \<Rightarrow> json \<Rightarrow> Band_t \<Rightarrow> BandMapping option \<Rightarrow> EditAccess \<times> RadioCommand list" where
  "selectLegacySegment e doc segment activeMapping =
     (if rb_mapping (b_resolved segment) \<noteq> None \<or>
         \<not> resolved_isBandOrSegment (b_resolved segment) \<or>
         \<not> hasValidFrequencySpan segment
      then (edit_access doc, [])
      else
        let a1 = fst (storeVisibleBand (edit_access doc) (e_plan e) activeMapping (e_frequency e) (currentMode e));
            a2 = set_selection a1 (resolved_service (b_resolved segment))
        in (a2, applySegmentTarget e segment (legacy_target segment) (-1)))"

definition commitCurrentBand :: "Surroundings \<Rightarrow> json \<Rightarrow> EditAccess" where
  "commitCurrentBand e doc =
     (let a = edit_access doc;
          service = bandServiceFromKey (section_value get_string doc fm_band fm_PREFERRED_SERVICE ''other'')
      in case resolveBandInServices (e_plan e) (e_frequency e) (set_single service) service of
           None \<Rightarrow> a
         | Some m \<Rightarrow> fst (updateTopRegister a (e_plan e) m (e_frequency e) (currentMode e)))"

text \<open>\<open>freq_memory::commitCurrent\<close>, over the two grids.\<close>

definition fm_commitCurrent :: "Surroundings \<Rightarrow> json \<Rightarrow> EditAccess" where
  "fm_commitCurrent e doc =
     (let selector = section_value get_string doc fm_root fm_SELECTOR fm_SELECTOR_BAND in
      if selector = fm_SELECTOR_BAND then commitCurrentBand e doc
      else if selector \<noteq> fm_SELECTOR_SPECTRUM then edit_access doc
      else (case spectrumRangeAtFrequency (round_away (e_frequency e)) of
          None \<Rightarrow> edit_access doc
        | Some r \<Rightarrow>
            sec_set (sec_set (edit_access doc) (fm_spectrum @ [fm_LAST_FREQUENCY]) (rangeId r) (JFloat (e_frequency e)))
              fm_spectrum fm_ACTIVE_RANGE (JString (rangeId r))))"

section \<open>The registers as a store\<close>

text \<open>
  What the band stack relies on: a register set written for a band is read back, and bands that
  are kept apart do not disturb each other.
\<close>

locale register_store =
  fixes ok :: "'s \<Rightarrow> bool"
    and valid :: "'b \<Rightarrow> 'r \<Rightarrow> bool"
    and rd :: "'s \<Rightarrow> 'b \<Rightarrow> 'r"
    and wr :: "'s \<Rightarrow> 'b \<Rightarrow> 'r \<Rightarrow> 's"
    and apart :: "'b \<Rightarrow> 'b \<Rightarrow> bool"
  assumes ok_wr: "ok s \<Longrightarrow> ok (wr s b r)"
    and rd_valid: "ok s \<Longrightarrow> valid b (rd s b)"
    and rd_wr: "ok s \<Longrightarrow> valid b r \<Longrightarrow> rd (wr s b r) b = r"
    and rd_wr_apart: "ok s \<Longrightarrow> apart b c \<Longrightarrow> rd (wr s b r) c = rd s c"
    and apart_sym: "apart b c \<Longrightarrow> apart c b"
begin

lemma rd_modify: "ok s \<Longrightarrow> (\<And>r. valid b r \<Longrightarrow> valid b (g r)) \<Longrightarrow> rd (wr s b (g (rd s b))) b = g (rd s b)"
  by (simp add: rd_wr rd_valid)

lemma wr_wr: "ok s \<Longrightarrow> valid b r \<Longrightarrow> rd (wr (wr s b q) b r) b = r"
  by (simp add: rd_wr ok_wr)

lemma wr_apart_commute:
  "ok s \<Longrightarrow> apart b c \<Longrightarrow> valid b p \<Longrightarrow> valid c q \<Longrightarrow>
   rd (wr (wr s b p) c q) b = p \<and> rd (wr (wr s b p) c q) c = q"
  by (simp add: rd_wr ok_wr rd_wr_apart apart_sym)

end

section \<open>The configuration is such a store\<close>

lemma sec_set_props:
  assumes "path \<noteq> []" "wf_json (conf a)" "wf_json v"
  shows "wf_json (conf (sec_set a path k v))"
    and "rel_option jeq (resolve (conf (sec_set a path k v)) (path @ [k])) (Some v)"
    and "l \<noteq> k \<Longrightarrow> resolve (conf (sec_set a path k v)) (path @ [l]) = resolve (conf a) (path @ [l])"
    and "diverge path other \<Longrightarrow> resolve (conf (sec_set a path k v)) other = resolve (conf a) other"
    and "changed (sec_set a path k v) \<longleftrightarrow> changed a \<or> \<not> jeq (conf a) (conf (sec_set a path k v))"
  using section_set_keys [OF assms, of k] unfolding sec_set_def
  by (metis (no_types, lifting) case_prod_conv option.simps(5))+

lemma sec_set_below:
  assumes "path \<noteq> []" "wf_json (conf a)" "wf_json v" "l \<noteq> k"
  shows "resolve (conf (sec_set a path k v)) (path @ l # rest) = resolve (conf a) (path @ l # rest)"
proof -
  have "resolve d (path @ l # rest) = (case resolve d (path @ [l]) of None \<Rightarrow> None | Some n \<Rightarrow> resolve n rest)" for d
    using resolve_append [of d "path @ [l]" rest] by simp
  then show ?thesis using sec_set_props(3) [OF assms(1-4)] by simp
qed

lemma number_value_jeq: "jeq a b \<Longrightarrow> number_value a = number_value b"
  by (cases a; cases b) auto

definition slot_ok :: "BandPlan_t option \<Rightarrow> BandMapping \<Rightarrow> BandRegister option \<Rightarrow> bool" where
  "slot_ok plan m s = (case s of None \<Rightarrow> True
     | Some r \<Rightarrow> reg_freq r > 0 \<and> in_band plan m (reg_freq r) \<and> reg_mode r = normalMode (reg_mode r))"

definition regs_ok :: "BandPlan_t option \<Rightarrow> BandMapping \<Rightarrow> BandRegisterSet \<Rightarrow> bool" where
  "regs_ok plan m r \<longleftrightarrow> regs_wf r \<and> list_all (slot_ok plan m) (slots r)"

lemma normalMode_FromName: "normalMode (radioModeFromName n) = radioModeFromName n"
  using radioModeFromName_range [of n] by (auto simp: normalMode_def)

lemma normalMode_idem [simp]: "normalMode (normalMode m) = normalMode m"
  by (simp add: normalMode_def)

lemma normalMode_minus_one [simp]: "normalMode (-1) = -1"
  by (simp add: normalMode_def)

lemma slot_from_json_ok: "slot_ok plan m (slot_from_json plan m j)"
  by (auto simp: slot_from_json_def slot_ok_def in_band_def normalMode_FromName
      split: option.splits json.splits)

lemma slot_from_json_jeq:
  assumes "jeq a b"
  shows "slot_from_json plan m a = slot_from_json plan m b"
proof -
  have "map_option number_value (config_find a ''freq'') = map_option number_value (config_find b ''freq'')"
    using config_find_jeq [OF assms, of "''freq''"] number_value_jeq by (auto elim!: option.rel_cases)
  moreover have "(case config_find a ''mode'' of Some (JString n) \<Rightarrow> radioModeFromName n | _ \<Rightarrow> -1) =
      (case config_find b ''mode'' of Some (JString n) \<Rightarrow> radioModeFromName n | _ \<Rightarrow> -1)"
    using config_find_jeq [OF assms, of "''mode''"]
    by (auto elim!: option.rel_cases) (auto elim!: jeq.elims split: json.splits)
  ultimately show ?thesis
    using jeq_is_object [OF assms]
    by (cases "config_find a ''freq''"; cases "config_find b ''freq''")
      (simp_all add: slot_from_json_def cong: option.case_cong if_cong)
qed

lemma slot_from_to_json:
  assumes "slot_ok plan m s"
  shows "slot_from_json plan m (slot_to_json s) = s"
proof (cases s)
  case None
  then show ?thesis by (simp add: slot_to_json_def slot_from_json_def)
next
  case (Some r)
  then have r: "reg_freq r > 0" "in_band plan m (reg_freq r)" "reg_mode r = normalMode (reg_mode r)"
    using assms by (simp_all add: slot_ok_def)
  obtain p where p: "plan = Some p" "findMappedSegmentAtFrequency p m (reg_freq r) \<noteq> None"
    using r(2) by (auto simp: in_band_def split: option.splits)
  show ?thesis
  proof (cases "radioModeValid (reg_mode r)")
    case True
    then show ?thesis using Some r p
      by (simp add: slot_to_json_def slot_from_json_def obj_find_set radioModeFromName_Name)
  next
    case False
    then have "reg_mode r = -1" using r(3) by (simp add: normalMode_def)
    then show ?thesis using Some r p False
      by (simp add: slot_to_json_def slot_from_json_def)
  qed
qed

lemma wf_slot_to_json: "wf_json (slot_to_json s)"
  by (cases s) (auto simp: slot_to_json_def obj_wf_def less_char_def)

lemma wf_slots_to_json: "wf_json (JArray (map slot_to_json ss))"
  by (induction ss) (simp_all add: wf_slot_to_json)

lemma read_slots_jeq: "jeq_list xs ys \<Longrightarrow> read_slots plan m i xs r = read_slots plan m i ys r"
  by (induction xs ys arbitrary: i r rule: list_induct2') (auto simp: slot_from_json_jeq)

lemma regs_ok_empty: "regs_ok plan m empty_registers"
  by (simp add: regs_ok_def empty_registers_def slot_ok_def regs_wf_def list_all_length)

lemma regs_ok_setSlot: "regs_ok plan m r \<Longrightarrow> slot_ok plan m (Some x) \<Longrightarrow> regs_ok plan m (setSlot r i x)"
  by (simp add: regs_ok_def setSlot_def regs_wf_def list_all_update)

lemma read_slots_ok: "regs_ok plan m r \<Longrightarrow> regs_ok plan m (read_slots plan m i xs r)"
proof (induction xs arbitrary: i r)
  case (Cons x xs)
  show ?case
  proof (cases "slot_from_json plan m x")
    case None
    then show ?thesis using Cons by simp
  next
    case (Some s)
    then have "regs_ok plan m (setSlot r i s)"
      using Cons.prems slot_from_json_ok [of plan m x] by (intro regs_ok_setSlot) simp_all
    then show ?thesis using Some Cons by simp
  qed
qed simp

lemma readRegisters_ok: "regs_ok plan m (readRegisters doc plan m)"
  by (auto simp: readRegisters_def regs_ok_empty read_slots_ok split: option.split json.split)

lemma read_slots_written:
  assumes "regs_ok plan m r"
  shows "read_slots plan m 0 (map slot_to_json (slots r)) empty_registers = r"
proof -
  have wf: "regs_wf r" using assms by (simp add: regs_ok_def)
  then obtain a b c where r: "r = \<lparr>slots = [a, b, c]\<rparr>" by (rule regs_cases)
  have "slot_ok plan m a" "slot_ok plan m b" "slot_ok plan m c" using assms by (simp_all add: regs_ok_def r)
  note j = this [THEN slot_from_to_json]
  show ?thesis
    by (cases a; cases b; cases c)
      (use j in \<open>simp_all add: r setSlot_def empty_registers_def SIZE_def numeral_3_eq_3\<close>)
qed

lemma wf_writeRegisters: "wf_json (conf a) \<Longrightarrow> wf_json (conf (writeRegisters a m r))"
  unfolding writeRegisters_def
  by (rule sec_set_props(1)) (simp_all add: fm_paths wf_slots_to_json del: wf_json.simps)

lemma read_writeRegisters:
  assumes "wf_json (conf a)" "regs_ok plan m r"
  shows "readRegisters (conf (writeRegisters a m r)) plan m = r"
proof -
  let ?v = "JArray (map slot_to_json (slots r))"
  have "rel_option jeq (resolve (conf (writeRegisters a m r)) (fm_stackingRegisters @ [bandId m])) (Some ?v)"
    unfolding writeRegisters_def
    by (rule sec_set_props(2)) (simp_all add: fm_paths assms wf_slots_to_json del: wf_json.simps)
  then obtain x where x: "resolve (conf (writeRegisters a m r)) (fm_stackingRegisters @ [bandId m]) = Some x" "jeq x ?v"
    by (auto simp: option_rel_Some2 simp del: jeq.simps)
  then obtain xs where "x = JArray xs" "jeq_list xs (map slot_to_json (slots r))" by (cases x) auto
  then show ?thesis
    using x(1) read_slots_jeq read_slots_written [OF assms(2)] by (simp add: readRegisters_def)
qed

lemma read_writeRegisters_other:
  assumes "wf_json (conf a)" "bandId m \<noteq> bandId n"
  shows "readRegisters (conf (writeRegisters a m r)) plan n = readRegisters (conf a) plan n"
proof -
  have "resolve (conf (writeRegisters a m r)) (fm_stackingRegisters @ [bandId n]) =
      resolve (conf a) (fm_stackingRegisters @ [bandId n])"
    unfolding writeRegisters_def
    by (rule sec_set_props(3)) (use assms in \<open>simp_all add: fm_paths wf_slots_to_json del: wf_json.simps\<close>)
  then show ?thesis by (simp add: readRegisters_def)
qed

interpretation store: register_store "\<lambda>a. wf_json (conf a)" "regs_ok plan"
  "\<lambda>a m. readRegisters (conf a) plan m" writeRegisters "\<lambda>m n. bandId m \<noteq> bandId n" for plan
  by unfold_locales
    (simp_all add: wf_writeRegisters readRegisters_ok read_writeRegisters read_writeRegisters_other)

section \<open>What the operations do\<close>

lemma in_band_pos: "in_band plan m f \<Longrightarrow> 0 < f"
  by (auto simp: in_band_def findMappedSegmentAtFrequency_def split: option.splits
      dest!: find_segment_props(3) containsFrequency_pos)

lemma regs_ok_storeTop: "regs_ok plan m r \<Longrightarrow> slot_ok plan m (Some x) \<Longrightarrow> regs_ok plan m (storeTop r x)"
  by (simp add: regs_ok_def storeTop_def regs_wf_def list_all_update)

lemma regs_ok_seedTop: "regs_ok plan m r \<Longrightarrow> slot_ok plan m (Some x) \<Longrightarrow> regs_ok plan m (fst (seedTop r x))"
  by (simp add: regs_ok_def seedTop_def regs_wf_def list_all_update)

lemma regs_ok_cases:
  assumes "regs_ok plan m r"
  obtains a b c where "r = \<lparr>slots = [a, b, c]\<rparr>" "slot_ok plan m a" "slot_ok plan m b" "slot_ok plan m c"
proof -
  have "regs_wf r" using assms by (simp add: regs_ok_def)
  then obtain a b c where "r = \<lparr>slots = [a, b, c]\<rparr>" by (rule regs_cases)
  then show ?thesis using assms that by (simp add: regs_ok_def)
qed

lemma slot_ok_None [simp]: "slot_ok plan m None"
  by (simp add: slot_ok_def)

lemma regs_ok_repeat:
  assumes "regs_ok plan m r" "slot_ok plan m (Some x)"
  shows "regs_ok plan m (repeatWithCurrent r x)"
  using assms(1)
  by (rule regs_ok_cases) (use assms(2) in \<open>auto simp: regs_ok_def register_op_defs numeral_2_eq_2\<close>)

lemma regs_ok_select:
  assumes "regs_ok plan m r" "i < SIZE" "slot_ok plan m t"
  shows "regs_ok plan m (fst (select_slot r i t))"
  using assms(1)
  by (rule regs_ok_cases)
    (use index_cases [OF assms(2)] assms(3) in \<open>auto simp: regs_ok_def register_op_defs numeral_2_eq_2\<close>)

lemma top_slot_ops:
  "regs_wf r \<Longrightarrow> top_slot (storeTop r x) = Some x"
  "regs_wf r \<Longrightarrow> top_slot (fst (seedTop r x)) = (case top_slot r of None \<Rightarrow> Some x | Some y \<Rightarrow> Some y)"
  by (erule regs_cases; auto simp: register_op_defs split: option.split)+

lemma regs_ok_wf: "regs_ok plan m r \<Longrightarrow> regs_wf r"
  by (simp add: regs_ok_def)

lemma regs_ok_slot: "regs_ok plan m r \<Longrightarrow> i < SIZE \<Longrightarrow> slot_ok plan m (slots r ! i)"
  by (simp add: regs_ok_def regs_wf_def list_all_length)

lemma slot_ok_current: "in_band plan m f \<Longrightarrow> slot_ok plan m (Some \<lparr>reg_freq = f, reg_mode = normalMode k\<rparr>)"
  using in_band_pos by (auto simp: slot_ok_def)

lemma heuristicMode_normal: "normalMode (heuristicMode s f x) = heuristicMode s f x"
  by (simp add: heuristicMode_def normalMode_def radioModeValid_def mode_defs)

lemma resolvedMode_normal: "normalMode (resolvedMode seg f m) = resolvedMode seg f m"
  using radioModeFromName_range [of "b_defMode seg"]
  by (auto simp: resolvedMode_def Let_def heuristicMode_normal normalMode_FromName normalMode_def [of m])

lemma captureRegister_iff:
  "captureRegister plan m f k = (if in_band plan m f then Some \<lparr>reg_freq = f, reg_mode = normalMode k\<rparr> else None)"
  using in_band_pos [of plan m f]
  by (auto simp: captureRegister_def in_band_def split: option.split)

lemma defaultRegister_ok:
  "defaultRegister plan m f = Some r \<Longrightarrow> slot_ok plan m (Some r) \<and> reg_freq r = f"
  by (auto simp: defaultRegister_def slot_ok_def in_band_def resolvedMode_normal split: option.splits if_splits)

text \<open>Writing back the visible band.\<close>

lemma store_visible:
  assumes "wf_json (conf a)"
  shows "wf_json (conf (fst (storeVisibleBand a plan am f k)))"
    and "snd (storeVisibleBand a plan am f k) \<longleftrightarrow> (\<exists>m. am = Some m \<and> in_band plan m f)"
    and "\<And>n. (\<And>m. am = Some m \<Longrightarrow> bandId m \<noteq> bandId n) \<Longrightarrow>
      readRegisters (conf (fst (storeVisibleBand a plan am f k))) plan n = readRegisters (conf a) plan n"
    and "\<And>m. am = Some m \<Longrightarrow> in_band plan m f \<Longrightarrow>
      readRegisters (conf (fst (storeVisibleBand a plan am f k))) plan m =
        storeTop (readRegisters (conf a) plan m) \<lparr>reg_freq = f, reg_mode = normalMode k\<rparr>"
    and "\<And>m. am = Some m \<Longrightarrow> \<not> in_band plan m f \<Longrightarrow> fst (storeVisibleBand a plan am f k) = a"
    and "am = None \<Longrightarrow> fst (storeVisibleBand a plan am f k) = a"
  using assms in_band_pos [of plan]
  by (auto simp: storeVisibleBand_def updateTopRegister_def store.ok_wr store.rd_wr_apart
      intro!: store.rd_wr regs_ok_storeTop slot_ok_current store.rd_valid split: option.split)
    (meson not_less)+

text \<open>Recording the selection leaves the registers alone.\<close>

lemma wf_set_selection: "wf_json (conf a) \<Longrightarrow> wf_json (conf (set_selection a s))"
  by (simp add: set_selection_def sec_set_props(1) fm_paths)

lemma read_set_selection:
  assumes "wf_json (conf a)"
  shows "readRegisters (conf (set_selection a s)) plan m = readRegisters (conf a) plan m"
proof -
  let ?b = "sec_set a fm_band fm_PREFERRED_SERVICE (JString (bandServiceKey s))"
  have wb: "wf_json (conf ?b)" using assms by (simp add: sec_set_props(1) fm_paths)
  have "resolve (conf (set_selection a s)) (fm_root @ fm_SELECTOR_BAND # fm_STACKING_REGISTERS # [bandId m]) =
      resolve (conf ?b) (fm_root @ fm_SELECTOR_BAND # fm_STACKING_REGISTERS # [bandId m])"
    unfolding set_selection_def by (rule sec_set_below) (simp_all only: wb, simp_all add: fm_root_def fm_keys)
  moreover have "resolve (conf ?b) (fm_band @ fm_STACKING_REGISTERS # [bandId m]) =
      resolve (conf a) (fm_band @ fm_STACKING_REGISTERS # [bandId m])"
    by (rule sec_set_below) (simp_all add: assms fm_band_def fm_root_def fm_keys)
  ultimately show ?thesis by (simp add: readRegisters_def fm_paths)
qed

text \<open>Every command that tunes stays inside the band.\<close>

lemma applySegmentTarget_Tune: "Tune x \<in> set (applySegmentTarget e seg f k) \<longleftrightarrow> x = f"
  by (auto simp: applySegmentTarget_def Let_def)

lemma applyTarget_Tune:
  "Tune x \<in> set (applyTarget e m t) \<longleftrightarrow> x = reg_freq t \<and> in_band (e_plan e) m x"
proof (cases "in_band (e_plan e) m (reg_freq t)")
  case True
  then obtain p seg where p: "e_plan e = Some p" "findMappedSegmentAtFrequency p m (reg_freq t) = Some seg"
    by (auto simp: in_band_def split: option.splits)
  then show ?thesis using True in_band_pos [OF True]
    by (auto simp: applyTarget_def applySegmentTarget_Tune)
next
  case False
  then show ?thesis by (auto simp: applyTarget_def in_band_def split: option.splits)
qed

section \<open>Abstract transitions\<close>

text \<open>
  What a band tap and a register pick mean for the registers of all bands, without the document:
  \<open>R\<close> gives the registers of each band, the result those of band \<open>n\<close> afterwards.
\<close>

definition current_register :: "Surroundings \<Rightarrow> BandRegister" where
  "current_register e = \<lparr>reg_freq = e_frequency e, reg_mode = normalMode (currentMode e)\<rparr>"

definition visible_in :: "Surroundings \<Rightarrow> BandMapping option \<Rightarrow> BandMapping \<Rightarrow> bool" where
  "visible_in e am n \<longleftrightarrow> am = Some n \<and> in_band (e_plan e) n (e_frequency e)"

definition select_spec :: "Surroundings \<Rightarrow> (BandMapping \<Rightarrow> BandRegisterSet) \<Rightarrow> BandMapping \<Rightarrow> real \<Rightarrow>
    BandMapping option \<Rightarrow> BandMapping \<Rightarrow> BandRegisterSet" where
  "select_spec e R mapping defaultFrequency am n =
     (if n = mapping then
        (if visible_in e am mapping then repeatWithCurrent (R mapping) (current_register e)
         else case (top_slot (R mapping), defaultRegister (e_plan e) mapping defaultFrequency) of
             (None, Some t) \<Rightarrow> storeTop (R mapping) t
           | _ \<Rightarrow> R mapping)
      else if visible_in e am n then storeTop (R n) (current_register e)
      else R n)"

definition band_registers :: "Surroundings \<Rightarrow> json \<Rightarrow> BandMapping \<Rightarrow> BandRegisterSet" where
  "band_registers e doc n = readRegisters doc (e_plan e) n"

lemma registered_same: "m \<in> set all_mappings \<Longrightarrow> n \<in> set all_mappings \<Longrightarrow> bandId m = bandId n \<longleftrightarrow> m = n"
  using all_mappings_ids_distinct by (auto simp: distinct_map inj_on_def)

lemma seedTop_empty: "top_slot r = None \<Longrightarrow> fst (seedTop r t) = storeTop r t"
  by (simp add: seedTop_def storeTop_def top_slot_def)

text \<open>The registers after the visible band was written back.\<close>

lemma store_visible_registers:
  assumes "wf_json doc" and "\<And>m. am = Some m \<Longrightarrow> m \<in> set all_mappings" and "n \<in> set all_mappings"
    and "storeVisibleBand (edit_access doc) (e_plan e) am (e_frequency e) (currentMode e) = (a, st)"
  shows "wf_json (conf a)"
    and "readRegisters (conf a) (e_plan e) n =
      (if visible_in e am n then storeTop (band_registers e doc n) (current_register e) else band_registers e doc n)"
proof -
  have w: "wf_json (conf (edit_access doc))" using assms(1) by (simp add: edit_access_def)
  have a: "a = fst (storeVisibleBand (edit_access doc) (e_plan e) am (e_frequency e) (currentMode e))"
    using assms(4) by simp
  show "wf_json (conf a)" unfolding a by (rule store_visible(1) [OF w])
  show "readRegisters (conf a) (e_plan e) n =
      (if visible_in e am n then storeTop (band_registers e doc n) (current_register e) else band_registers e doc n)"
  proof (cases "am = Some n")
    case True
    then show ?thesis
      using store_visible(4,5) [OF w, of am n "e_plan e" "e_frequency e" "currentMode e"] a
      by (auto simp: visible_in_def band_registers_def current_register_def edit_access_def)
  next
    case False
    have "readRegisters (conf a) (e_plan e) n = readRegisters (conf (edit_access doc)) (e_plan e) n"
      unfolding a by (rule store_visible(3) [OF w]) (use False assms(2,3) registered_same in blast)
    then show ?thesis using False by (simp add: visible_in_def band_registers_def edit_access_def)
  qed
qed

lemma write_registered:
  assumes "wf_json (conf a)" "regs_ok (e_plan e) mapping r" "mapping \<in> set all_mappings" "n \<in> set all_mappings"
  shows "readRegisters (conf (writeRegisters a mapping r)) (e_plan e) n =
     (if n = mapping then r else readRegisters (conf a) (e_plan e) n)"
  using store.rd_wr [OF assms(1,2)] store.rd_wr_apart [OF assms(1), of mapping n] registered_same [OF assms(3,4)]
  by auto

lemma band_registers_ok: "regs_ok (e_plan e) n (band_registers e doc n)"
  by (simp add: band_registers_def readRegisters_ok)

lemma current_register_ok: "visible_in e am n \<Longrightarrow> slot_ok (e_plan e) n (Some (current_register e))"
  by (simp add: visible_in_def current_register_def slot_ok_current)

lemma selectBand_refines:
  assumes wf: "wf_json doc" and p: "e_plan e \<noteq> None" and m: "mapping \<in> set all_mappings"
    and am: "\<And>m. am = Some m \<Longrightarrow> m \<in> set all_mappings" and n: "n \<in> set all_mappings"
    and s: "selectBand e doc mapping defaultFrequency am = (a, cmds)"
  shows "readRegisters (conf a) (e_plan e) n =
      select_spec e (band_registers e doc) mapping defaultFrequency am n"
    and "cmds = (case top_slot (select_spec e (band_registers e doc) mapping defaultFrequency am mapping) of
        None \<Rightarrow> [] | Some t \<Rightarrow> applyTarget e mapping t)"
proof -
  let ?R = "band_registers e doc" and ?plan = "e_plan e"
  obtain a1 st where sv: "storeVisibleBand (edit_access doc) ?plan am (e_frequency e) (currentMode e) = (a1, st)"
    by fastforce
  define a2 where "a2 = set_selection a1 (bm_service mapping)"
  have st: "st \<longleftrightarrow> (\<exists>m. visible_in e am m)"
    using store_visible(2) [of "edit_access doc" ?plan am "e_frequency e" "currentMode e"] sv wf
    by (simp add: edit_access_def visible_in_def)
  note w1 = store_visible_registers(1) [OF wf am n sv, simplified]
  have w2: "wf_json (conf a2)" unfolding a2_def by (rule wf_set_selection [OF w1])
  have r2: "readRegisters (conf a2) ?plan k = (if visible_in e am k then storeTop (?R k) (current_register e) else ?R k)"
    if "k \<in> set all_mappings" for k
    unfolding a2_def read_set_selection [OF w1] by (rule store_visible_registers(2) [OF wf am that sv])
  have before: "readRegisters (conf (edit_access doc)) ?plan mapping = ?R mapping"
    by (simp add: band_registers_def edit_access_def)
  have "readRegisters (conf a) ?plan n = select_spec e ?R mapping defaultFrequency am n \<and>
      cmds = (case top_slot (select_spec e ?R mapping defaultFrequency am mapping) of
        None \<Rightarrow> [] | Some t \<Rightarrow> applyTarget e mapping t)"
  proof (cases "visible_in e am mapping")
    case True
    let ?r = "repeatWithCurrent (?R mapping) (current_register e)"
    have sa: "a = writeRegisters a2 mapping ?r"
      "cmds = (case top_slot ?r of None \<Rightarrow> [] | Some t \<Rightarrow> applyTarget e mapping t)"
      using s p sv st True before
      by (auto simp: selectBand_def Let_def a2_def visible_in_def current_register_def)
    have "regs_ok ?plan mapping ?r"
      using True by (intro regs_ok_repeat band_registers_ok current_register_ok)
    then have "readRegisters (conf a) ?plan n = (if n = mapping then ?r else readRegisters (conf a2) ?plan n)"
      unfolding sa(1) by (rule write_registered [OF w2 _ m n])
    then show ?thesis using sa(2) True r2 [OF n] by (simp add: select_spec_def)
  next
    case False
    have reg2: "readRegisters (conf a2) ?plan mapping = ?R mapping" using r2 [OF m] False by simp
    have nr: "\<not> (st \<and> am = Some mapping)" using st False by (auto simp: visible_in_def)
    show ?thesis
    proof (cases "top_slot (?R mapping) = None \<and> defaultRegister ?plan mapping defaultFrequency \<noteq> None")
      case True
      then obtain t where t: "defaultRegister ?plan mapping defaultFrequency = Some t" by blast
      have sa: "a = writeRegisters a2 mapping (storeTop (?R mapping) t)" "cmds = applyTarget e mapping t"
        using s p sv nr True t reg2
        by (auto simp: selectBand_def Let_def a2_def [symmetric] seedTop_empty)
      have "regs_ok ?plan mapping (storeTop (?R mapping) t)"
        using defaultRegister_ok [OF t] by (intro regs_ok_storeTop band_registers_ok) simp
      then have "readRegisters (conf a) ?plan n =
          (if n = mapping then storeTop (?R mapping) t else readRegisters (conf a2) ?plan n)"
        unfolding sa(1) by (rule write_registered [OF w2 _ m n])
      then show ?thesis
        using sa(2) False True t r2 [OF n] top_slot_ops(1) [OF regs_ok_wf [OF band_registers_ok]]
        by (simp add: select_spec_def)
    next
      case none: False
      have sa: "a = a2" "cmds = (case top_slot (?R mapping) of None \<Rightarrow> [] | Some t \<Rightarrow> applyTarget e mapping t)"
        using s p sv nr none reg2
        by (auto simp: selectBand_def Let_def a2_def [symmetric] split: option.splits if_splits)
      show ?thesis using sa none False r2 [OF n]
        by (auto simp: select_spec_def split: option.split)
    qed
  qed
  then show "readRegisters (conf a) ?plan n = select_spec e ?R mapping defaultFrequency am n"
    and "cmds = (case top_slot (select_spec e ?R mapping defaultFrequency am mapping) of
        None \<Rightarrow> [] | Some t \<Rightarrow> applyTarget e mapping t)" by blast+
qed

definition recall_spec :: "Surroundings \<Rightarrow> (BandMapping \<Rightarrow> BandRegisterSet) \<Rightarrow> BandMapping \<Rightarrow> nat \<Rightarrow>
    BandMapping option \<Rightarrow> BandRegister option \<Rightarrow> (BandMapping \<Rightarrow> BandRegisterSet) \<times> BandRegister option" where
  "recall_spec e R mapping i am frozen =
     (let R' = (\<lambda>n. if visible_in e am n then storeTop (R n) (current_register e) else R n) in
      case frozen of
        Some t \<Rightarrow> (R'(mapping := storeTop (R' mapping) t), Some t)
      | None \<Rightarrow>
          (if slots (R mapping) ! i \<noteq> None
           then (R'(mapping := fst (select_slot (R' mapping) i None)), snd (select_slot (R' mapping) i None))
           else if \<not> in_band (e_plan e) mapping (e_frequency e) then (R, None)
           else let base = (if am = Some mapping then R else R')
                in (base(mapping := fst (select_slot (base mapping) i (Some (current_register e)))),
                    snd (select_slot (base mapping) i (Some (current_register e))))))"

definition frozen_register :: "Surroundings \<Rightarrow> BandMapping \<Rightarrow> int \<Rightarrow> BandRegisterPopupSnapshot \<Rightarrow> BandRegister option" where
  "frozen_register e mapping index snap =
     (if index = 0 then (case slot_at (registers snap) 0 of
        Some shown \<Rightarrow> if in_band (e_plan e) mapping (reg_freq shown) then Some shown else None
      | None \<Rightarrow> None) else None)"

lemma frozen_register_ok:
  "frozen_register e mapping index snap = Some t \<Longrightarrow> reg_mode t = normalMode (reg_mode t) \<Longrightarrow>
   slot_ok (e_plan e) mapping (Some t)"
  using in_band_pos by (auto simp: frozen_register_def slot_ok_def split: if_splits option.splits)

lemma select_slot_some: "slots r ! i \<noteq> None \<or> m \<noteq> None \<Longrightarrow> i < SIZE \<Longrightarrow> regs_wf r \<Longrightarrow> \<exists>t. snd (select_slot r i m) = Some t"
  using select_held [of r i m] by (cases "select_slot r i m") (auto split: option.splits)

lemma select_slot_top:
  "snd (select_slot r i m) = Some t \<Longrightarrow> regs_wf r \<Longrightarrow> i < SIZE \<Longrightarrow> top_slot (fst (select_slot r i m)) = Some t"
  using select_held [of r i m] by (cases "select_slot r i m") (auto split: option.splits)

lemma storeTop_slot: "regs_wf r \<Longrightarrow> slots r ! i \<noteq> None \<Longrightarrow> i < SIZE \<Longrightarrow> slots (storeTop r x) ! i \<noteq> None"
  by (cases "i = 0") (simp_all add: storeTop_def regs_wf_def)

text \<open>The last part of a pick: the chosen register set is written and the selection recorded.\<close>

lemma recall_write:
  assumes "wf_json (conf a)" "regs_ok (e_plan e) mapping r" "mapping \<in> set all_mappings" "n \<in> set all_mappings"
  shows "readRegisters (conf (set_selection (writeRegisters a mapping r) s)) (e_plan e) n =
     (if n = mapping then r else readRegisters (conf a) (e_plan e) n)"
  using write_registered [OF assms] read_set_selection [OF wf_writeRegisters [OF assms(1)]] by simp

lemma recallRegister_refines:
  assumes wf: "wf_json doc" and p: "e_plan e \<noteq> None" and m: "mapping \<in> set all_mappings"
    and am: "\<And>m. am = Some m \<Longrightarrow> m \<in> set all_mappings" and n: "n \<in> set all_mappings"
    and i: "0 \<le> index" "index < int SIZE"
    and fz: "\<And>t. slot_at (registers snap) 0 = Some t \<Longrightarrow> reg_mode t = normalMode (reg_mode t)"
    and s: "recallRegister e doc mapping index am snap = (a, result, cmds)"
  shows "case recall_spec e (band_registers e doc) mapping (nat index) am (frozen_register e mapping index snap) of
     (R, t) \<Rightarrow> readRegisters (conf a) (e_plan e) n = R n \<and>
       (case t of None \<Rightarrow> result = NoTarget \<and> cmds = [] \<and> conf a = doc \<and> \<not> changed a
        | Some r \<Rightarrow> result = Recalled \<and> cmds = applyTarget e mapping r \<and> top_slot (R mapping) = t)"
proof -
  let ?R = "band_registers e doc" and ?plan = "e_plan e" and ?i = "nat index"
  let ?R' = "\<lambda>n. if visible_in e am n then storeTop (?R n) (current_register e) else ?R n"
  let ?fz = "frozen_register e mapping index snap"
  obtain a1 st where sv: "storeVisibleBand (edit_access doc) ?plan am (e_frequency e) (currentMode e) = (a1, st)"
    by fastforce
  have a1: "fst (storeVisibleBand (edit_access doc) ?plan am (e_frequency e) (currentMode e)) = a1" using sv by simp
  note w1 = store_visible_registers(1) [OF wf am n sv, simplified]
  have r1: "readRegisters (conf a1) ?plan k = ?R' k" if "k \<in> set all_mappings" for k
    by (rule store_visible_registers(2) [OF wf am that sv])
  have w0: "wf_json (conf (edit_access doc))" using wf by (simp add: edit_access_def)
  have r0: "readRegisters (conf (edit_access doc)) ?plan k = ?R k" for k
    by (simp add: band_registers_def edit_access_def)
  have ii: "?i < SIZE" using i by linarith
  have okR: "regs_ok ?plan k (?R k)" for k by (rule band_registers_ok)
  have okR': "regs_ok ?plan k (?R' k)" for k
    using regs_ok_storeTop [OF okR current_register_ok] okR by simp
  have fzdef: "(if index = 0 then (case slot_at (registers snap) 0 of
        Some shown \<Rightarrow> if in_band ?plan mapping (reg_freq shown) then Some shown else None
      | None \<Rightarrow> None) else None) = ?fz" by (simp add: frozen_register_def)
  have bounds: "\<not> (index < 0 \<or> index \<ge> int SIZE)" using i by linarith
  note unf = recallRegister_def Let_def bounds p fzdef r0 a1 slot_at_def
  show ?thesis
  proof (cases ?fz)
    case (Some t)
    have t: "slot_ok ?plan mapping (Some t)"
      using frozen_register_ok [OF Some] Some fz by (auto simp: frozen_register_def split: if_splits option.splits)
    have sa: "a = set_selection (writeRegisters a1 mapping (storeTop (?R' mapping) t)) (bm_service mapping)"
      "result = Recalled" "cmds = applyTarget e mapping t"
      using s p bounds Some r1 [OF m] by (auto simp: recallRegister_def Let_def fzdef a1 split: if_splits)
    have "regs_ok ?plan mapping (storeTop (?R' mapping) t)" by (intro regs_ok_storeTop okR' t)
    from recall_write [OF w1 this m n] show ?thesis
      using sa Some r1 [OF n] top_slot_ops(1) [OF regs_ok_wf [OF okR']]
      by (simp add: recall_spec_def Let_def)
  next
    case fz0: None
    show ?thesis
    proof (cases "slots (?R mapping) ! ?i")
      case (Some x)
      let ?s = "select_slot (?R' mapping) ?i None"
      have "slots (?R' mapping) ! ?i \<noteq> None"
        using storeTop_slot [OF regs_ok_wf [OF okR] _ ii] Some by auto
      then obtain t where t: "snd ?s = Some t"
        using select_slot_some [OF _ ii regs_ok_wf [OF okR'], of mapping None] by blast
      have sa: "a = set_selection (writeRegisters a1 mapping (fst ?s)) (bm_service mapping)"
        "result = Recalled" "cmds = applyTarget e mapping t"
        using s p bounds fz0 Some r1 [OF m] t
        by (auto simp: recallRegister_def Let_def fzdef a1 r0 slot_at_def case_prod_beta split: if_splits)
      have "regs_ok ?plan mapping (fst ?s)" by (intro regs_ok_select okR' ii) simp
      from recall_write [OF w1 this m n] show ?thesis
        using sa Some fz0 t r1 [OF n] select_slot_top [OF t regs_ok_wf [OF okR'] ii]
        by (simp add: recall_spec_def Let_def case_prod_beta)
    next
      case empty: None
      show ?thesis
      proof (cases "in_band ?plan mapping (e_frequency e)")
        case False
        have "a = edit_access doc" "result = NoTarget" "cmds = []"
          using s p bounds fz0 empty False
          by (auto simp: recallRegister_def Let_def fzdef r0 slot_at_def captureRegister_iff split: if_splits)
        then show ?thesis using fz0 empty False r0
          by (simp add: recall_spec_def Let_def edit_access_def band_registers_def)
      next
        case True
        let ?base = "if am = Some mapping then ?R else ?R'"
        let ?a = "if am = Some mapping then edit_access doc else a1"
        let ?s = "select_slot (?base mapping) ?i (Some (current_register e))"
        have wb: "wf_json (conf ?a)" using w0 w1 by simp
        have rb: "readRegisters (conf ?a) ?plan k = ?base k" if "k \<in> set all_mappings" for k
          using r0 r1 [OF that] by simp
        have okb: "regs_ok ?plan mapping (?base mapping)" using okR okR' by simp
        have cur: "slot_ok ?plan mapping (Some (current_register e))"
          using True by (simp add: current_register_def slot_ok_current)
        obtain t where t: "snd ?s = Some t"
          using select_slot_some [OF _ ii regs_ok_wf [OF okb], of "Some (current_register e)"] by blast
        have cap: "captureRegister ?plan mapping (e_frequency e) (currentMode e) = Some (current_register e)"
          using True by (simp add: captureRegister_iff current_register_def)
        have sa: "a = set_selection (writeRegisters ?a mapping (fst ?s)) (bm_service mapping)"
          "result = Recalled" "cmds = applyTarget e mapping t"
        proof -
          have "a = set_selection (writeRegisters ?a mapping (fst ?s)) (bm_service mapping) \<and>
            result = Recalled \<and> cmds = applyTarget e mapping t"
          proof (cases "am = Some mapping")
            case True
            then show ?thesis using s p bounds fz0 empty cap t
              by (auto simp: recallRegister_def Let_def fzdef r0 slot_at_def case_prod_beta split: if_splits)
          next
            case False
            then have nv: "?R' mapping = ?R mapping" by (simp add: visible_in_def)
            have pF: "(?plan = None) = False" "(index < 0) = False" "(index \<ge> int SIZE) = False"
              using p bounds by simp_all
            have t': "snd (select_slot (?R mapping) ?i (Some (current_register e))) = Some t"
              using t False nv by simp
            have "recallRegister e doc mapping index am snap =
                (set_selection (writeRegisters a1 mapping (fst ?s)) (bm_service mapping), Recalled, applyTarget e mapping t)"
              using False empty [folded slot_at_def] nv r1 [OF m] t'
              by (simp add: recallRegister_def Let_def fzdef fz0 a1 r0 case_prod_beta pF cap cong: if_cong)
            then show ?thesis using s False by simp
          qed
          then show "a = set_selection (writeRegisters ?a mapping (fst ?s)) (bm_service mapping)"
            "result = Recalled" "cmds = applyTarget e mapping t" by blast+
        qed
        have "regs_ok ?plan mapping (fst ?s)" by (intro regs_ok_select okb ii cur)
        from recall_write [OF wb this m n] show ?thesis
          using sa empty fz0 True t rb [OF n] select_slot_top [OF t regs_ok_wf [OF okb] ii]
          by (simp add: recall_spec_def Let_def case_prod_beta)
      qed
    qed
  qed
qed

section \<open>Resolution and tuning\<close>

definition eligible :: "BandServiceSet \<Rightarrow> real \<Rightarrow> Band_t \<Rightarrow> bool" where
  "eligible services freq b \<longleftrightarrow> rb_mapping (b_resolved b) \<noteq> None \<and>
     resolved_isBandOrSegment (b_resolved b) \<and>
     set_contains services (resolved_service (b_resolved b)) \<and> containsFrequency b freq"

definition first_mapping :: "(Band_t \<Rightarrow> bool) \<Rightarrow> Band_t list \<Rightarrow> BandMapping option" where
  "first_mapping P bs = (case find P bs of None \<Rightarrow> None | Some b \<Rightarrow> rb_mapping (b_resolved b))"

lemma resolve_loop_result:
  "resolve_loop bs f svs cur fb =
     (case first_mapping (\<lambda>b. eligible svs f b \<and> resolved_service (b_resolved b) = cur) bs of
        Some m \<Rightarrow> Some m
      | None \<Rightarrow> (case fb of Some m \<Rightarrow> Some m | None \<Rightarrow> first_mapping (eligible svs f) bs))"
proof (induction bs arbitrary: fb)
  case (Cons b bs)
  show ?case
  proof (cases "eligible svs f b")
    case True
    then obtain m where m: "rb_mapping (b_resolved b) = Some m" by (auto simp: eligible_def)
    then have "resolved_service (b_resolved b) = bm_service m" by (simp add: resolved_service_def)
    with True m show ?thesis
      by (auto simp: Cons.IH first_mapping_def eligible_def split: option.split)
  next
    case False
    then have "resolve_loop (b # bs) f svs cur fb = resolve_loop bs f svs cur fb"
      by (auto simp: eligible_def split: option.split)
    moreover have "first_mapping (eligible svs f) (b # bs) = first_mapping (eligible svs f) bs"
      "first_mapping (\<lambda>b. eligible svs f b \<and> resolved_service (b_resolved b) = cur) (b # bs) =
       first_mapping (\<lambda>b. eligible svs f b \<and> resolved_service (b_resolved b) = cur) bs"
      using False by (simp_all add: first_mapping_def)
    ultimately show ?thesis by (simp only: Cons.IH)
  qed
qed (simp add: first_mapping_def split: option.split)

lemma round_within:
  "\<bar>of_int (round_away (x / 1000)) * 1000 - x\<bar> \<le> 500"
  using round_away_error [of "x / 1000"] by linarith

lemma legacy_target_within:
  assumes "hasValidFrequencySpan b"
  shows "containsFrequency b (legacy_target b)"
  using assms by (auto simp: legacy_target_def Let_def containsFrequency_def hasValidFrequencySpan_def)

section \<open>Properties of the band stack\<close>

text \<open>
  The configuration keeps register stacks faithfully. A stack whose registers lie in the
  band's segments, with modes normalized, is read back exactly as it was written, empty slots and
  positions included; the stacks of all other bands read as before; and whatever the document
  holds, what is read back is such a stack.
\<close>

theorem register_store_roundtrip:
  assumes "wf_json (conf a)"
  shows "regs_ok plan m (readRegisters (conf a) plan m) \<and>
    (regs_ok plan m r \<longrightarrow> readRegisters (conf (writeRegisters a m r)) plan m = r) \<and>
    (bandId m \<noteq> bandId n \<longrightarrow>
       readRegisters (conf (writeRegisters a m r)) plan n = readRegisters (conf a) plan n)"
  using store.rd_valid [OF assms] store.rd_wr [OF assms] store.rd_wr_apart [OF assms] by blast

definition mapping_40m :: BandMapping where
  "mapping_40m = mapping_at SvcAmateur 6"

definition plan_40m :: BandPlan_t where
  "plan_40m = \<lparr>bp_name = ''p'', bp_countryName = '''', bp_countryCode = '''', bp_authorName = '''',
     bp_authorURL = '''', bp_bands = [\<lparr>b_name = ''40m'', b_type = ''amateur'', b_start = 7000000, b_end = 7200000,
       b_resolved = \<lparr>rb_mapping = Some mapping_40m, rb_legacy = default_classification\<rparr>,
       b_defFreq = 0, b_defMode = '''', b_chan = 0\<rparr>], bp_revision = 1\<rparr>"

lemma in_40m: "in_band (Some plan_40m) mapping_40m f \<longleftrightarrow> 7000000 \<le> f \<and> f \<le> 7200000"
  by (simp add: in_band_def findMappedSegmentAtFrequency_def plan_40m_def resolved_isBandOrSegment_def
      isBandOrSegment_def default_classification_def containsFrequency_def hasValidFrequencySpan_def)

lemma mapping_40m_registered: "mapping_40m \<in> set all_mappings"
  unfolding all_mappings_iff mapping_40m_def
  by (intro exI [of _ SvcAmateur] exI [of _ 6]) (simp add: table_defs)

theorem register_store_roundtrip_witness:
  "readRegisters (conf (writeRegisters (edit_access JNull) mapping_40m
     \<lparr>slots = [Some \<lparr>reg_freq = 7050000, reg_mode = 6\<rparr>, None, Some \<lparr>reg_freq = 7100000, reg_mode = -1\<rparr>]\<rparr>))
     (Some plan_40m) mapping_40m =
   \<lparr>slots = [Some \<lparr>reg_freq = 7050000, reg_mode = 6\<rparr>, None, Some \<lparr>reg_freq = 7100000, reg_mode = -1\<rparr>]\<rparr>"
proof -
  let ?r = "\<lparr>slots = [Some \<lparr>reg_freq = 7050000, reg_mode = 6\<rparr>, None, Some \<lparr>reg_freq = 7100000, reg_mode = -1\<rparr>]\<rparr>"
  have "regs_ok (Some plan_40m) mapping_40m ?r"
    by (simp add: regs_ok_def regs_wf_def SIZE_def slot_ok_def in_40m normalMode_def radioModeValid_def mode_defs)
  then show ?thesis
    using register_store_roundtrip [of "edit_access JNull" "Some plan_40m" mapping_40m ?r mapping_40m]
    by (simp add: edit_access_def)
qed

text \<open>
  C35: A band tap refines the abstract transition on the registers of all bands. The band left
  behind gets the current state as its top when the current frequency lies in it; the tapped
  band is seeded from its default when it was never visited, and pushed or rolled when it is
  tapped again; no other band changes; and the radio is sent to the register that is now the
  tapped band's top, or nowhere.
\<close>

theorem band_tap_refines:
  assumes "wf_json doc" and "e_plan e \<noteq> None" and "mapping \<in> set all_mappings"
    and "\<And>m. am = Some m \<Longrightarrow> m \<in> set all_mappings" and "n \<in> set all_mappings"
    and "selectBand e doc mapping defaultFrequency am = (a, cmds)"
  shows "readRegisters (conf a) (e_plan e) n =
           select_spec e (\<lambda>n. readRegisters doc (e_plan e) n) mapping defaultFrequency am n \<and>
         cmds = (case top_slot (readRegisters (conf a) (e_plan e) mapping) of
           None \<Rightarrow> [] | Some t \<Rightarrow> applyTarget e mapping t)"
proof -
  have R: "band_registers e doc = (\<lambda>n. readRegisters doc (e_plan e) n)"
    by (simp add: fun_eq_iff band_registers_def)
  show ?thesis
    using selectBand_refines [OF assms(1-4) assms(5) assms(6)] selectBand_refines [OF assms(1-4) assms(3) assms(6)]
    unfolding R by simp
qed

definition at_40m :: Surroundings where
  "at_40m = \<lparr>e_plan = Some plan_40m, e_frequency = 7123000, e_vfoName = ''Radio'', e_radioMode = Some 6, e_vfoShown = True\<rparr>"

theorem band_tap_refines_witness:
  "\<exists>a cmds. selectBand at_40m JNull mapping_40m 7000000 None = (a, cmds) \<and>
     readRegisters (conf a) (Some plan_40m) mapping_40m =
       select_spec at_40m (\<lambda>n. readRegisters JNull (Some plan_40m) n) mapping_40m 7000000 None mapping_40m"
proof -
  obtain a cmds where s: "selectBand at_40m JNull mapping_40m 7000000 None = (a, cmds)" by fastforce
  show ?thesis
    using band_tap_refines [OF _ _ mapping_40m_registered _ mapping_40m_registered s] s
    by (simp add: at_40m_def)
qed

text \<open>
  Picking a row of the register popup refines the abstract transition. A pick either recalls
  a register, which is then the top of the stored stack and the one the radio is sent to, or it
  has no target, and then neither the document nor the radio is touched.
\<close>

theorem register_pick_refines:
  assumes "wf_json doc" and "e_plan e \<noteq> None" and "mapping \<in> set all_mappings"
    and "\<And>m. am = Some m \<Longrightarrow> m \<in> set all_mappings" and "n \<in> set all_mappings"
    and "0 \<le> index" and "index < int SIZE"
    and "\<And>t. slot_at (registers snap) 0 = Some t \<Longrightarrow> reg_mode t = normalMode (reg_mode t)"
    and "recallRegister e doc mapping index am snap = (a, result, cmds)"
  shows "case recall_spec e (band_registers e doc) mapping (nat index) am (frozen_register e mapping index snap) of
     (R, t) \<Rightarrow> readRegisters (conf a) (e_plan e) n = R n \<and>
       (case t of None \<Rightarrow> result = NoTarget \<and> cmds = [] \<and> conf a = doc \<and> \<not> changed a
        | Some r \<Rightarrow> result = Recalled \<and> cmds = applyTarget e mapping r \<and> top_slot (R mapping) = t)"
  by (rule recallRegister_refines [OF assms(1-4) assms(5-7) assms(8) assms(9)])

theorem register_pick_refines_witness:
  "\<exists>a. recallRegister at_40m JNull mapping_40m 1 None empty_snapshot =
     (a, Recalled, applyTarget at_40m mapping_40m \<lparr>reg_freq = 7123000, reg_mode = 6\<rparr>)"
proof -
  obtain a result cmds where s: "recallRegister at_40m JNull mapping_40m 1 None empty_snapshot = (a, result, cmds)"
    by (metis prod_cases3)
  have R: "band_registers at_40m JNull mapping_40m = empty_registers"
    by (simp add: band_registers_def readRegisters_def fm_paths config_find_def)
  have c: "current_register at_40m = \<lparr>reg_freq = 7123000, reg_mode = 6\<rparr>"
    by (simp add: current_register_def at_40m_def currentMode_def isRadioVFO_def normalMode_def radioModeValid_def mode_defs)
  have p: "e_plan at_40m = Some plan_40m" "e_frequency at_40m = 7123000" by (simp_all add: at_40m_def)
  have "case recall_spec at_40m (band_registers at_40m JNull) mapping_40m (nat 1) None
        (frozen_register at_40m mapping_40m 1 empty_snapshot) of
     (R, t) \<Rightarrow> readRegisters (conf a) (e_plan at_40m) mapping_40m = R mapping_40m \<and>
       (case t of None \<Rightarrow> result = NoTarget \<and> cmds = [] \<and> conf a = JNull \<and> \<not> changed a
        | Some r \<Rightarrow> result = Recalled \<and> cmds = applyTarget at_40m mapping_40m r \<and> top_slot (R mapping_40m) = t)"
    by (rule register_pick_refines [OF _ _ mapping_40m_registered _ mapping_40m_registered _ _ _ s])
      (simp_all add: p SIZE_def empty_snapshot_def empty_registers_def slot_at_def)
  then show ?thesis using s
    by (simp add: recall_spec_def Let_def frozen_register_def visible_in_def R c p in_40m select_slot_def
        empty_registers_def SIZE_def numeral_3_eq_3 std_rotate_def)
qed

text \<open>
  No band operation tunes outside the band it was asked for: every frequency that a band tap
  or a register pick sends to the radio lies in a segment of that band, and it is the frequency
  of the band's stored top register.
\<close>

theorem band_tap_tunes_inside:
  assumes "wf_json doc" and "e_plan e \<noteq> None" and "mapping \<in> set all_mappings"
    and "\<And>m. am = Some m \<Longrightarrow> m \<in> set all_mappings"
    and "selectBand e doc mapping defaultFrequency am = (a, cmds)" and "Tune f \<in> set cmds"
  shows "in_band (e_plan e) mapping f \<and>
         (\<exists>r. top_slot (readRegisters (conf a) (e_plan e) mapping) = Some r \<and> reg_freq r = f)"
proof -
  have R: "readRegisters (conf a) (e_plan e) mapping = select_spec e (band_registers e doc) mapping defaultFrequency am mapping"
    "cmds = (case top_slot (select_spec e (band_registers e doc) mapping defaultFrequency am mapping) of
        None \<Rightarrow> [] | Some t \<Rightarrow> applyTarget e mapping t)"
    using selectBand_refines [OF assms(1-4) assms(3) assms(5)] by blast+
  then show ?thesis using assms(6) by (auto simp: applyTarget_Tune split: option.splits)
qed

theorem band_tap_tunes_inside_witness:
  "\<exists>a cmds. selectBand at_40m JNull mapping_40m 7060000 None = (a, cmds) \<and>
     (\<exists>r. top_slot (readRegisters (conf a) (Some plan_40m) mapping_40m) = Some r \<and> reg_freq r = 7060000)"
proof -
  obtain a cmds where s: "selectBand at_40m JNull mapping_40m 7060000 None = (a, cmds)" by fastforce
  have R: "band_registers at_40m JNull mapping_40m = empty_registers"
    by (simp add: band_registers_def readRegisters_def fm_paths config_find_def)
  have p: "e_plan at_40m = Some plan_40m" by (simp add: at_40m_def)
  obtain t where t: "defaultRegister (Some plan_40m) mapping_40m 7060000 = Some t"
    using in_40m [of 7060000] by (auto simp: defaultRegister_def in_band_def)
  have "cmds = applyTarget at_40m mapping_40m t"
    using selectBand_refines(2) [OF _ _ mapping_40m_registered _ mapping_40m_registered s] t
    by (simp add: p select_spec_def visible_in_def R empty_registers_def top_slot_def SIZE_def numeral_3_eq_3 storeTop_def)
  then have "Tune 7060000 \<in> set cmds"
    using defaultRegister_ok [OF t] in_40m [of 7060000] by (simp add: applyTarget_Tune p)
  then show ?thesis
    using band_tap_tunes_inside [OF _ _ mapping_40m_registered _ s] s by (simp add: p)
qed

text \<open>
  The visible band is the preferred service's: among the rows of the plan with a stable
  identity, in the shown services and containing the frequency, the first row of the current
  service decides, and only without one the first row at all.
\<close>

theorem visible_band_prefers_service:
  "resolveBandInServices (Some plan) freq services current =
     (let rows = filter (\<lambda>b. rb_mapping (b_resolved b) \<noteq> None \<and> resolved_isBandOrSegment (b_resolved b) \<and>
            set_contains services (resolved_service (b_resolved b)) \<and> containsFrequency b freq) (bp_bands plan);
          preferred = filter (\<lambda>b. resolved_service (b_resolved b) = current) rows
      in if preferred \<noteq> [] then rb_mapping (b_resolved (hd preferred))
         else if rows \<noteq> [] then rb_mapping (b_resolved (hd rows)) else None)"
proof -
  have first: "first_mapping P bs = (if filter P bs = [] then None else rb_mapping (b_resolved (hd (filter P bs))))"
    for P bs by (induction bs) (simp_all add: first_mapping_def)
  have some: "rb_mapping (b_resolved (hd (filter (\<lambda>b. eligible services freq b \<and> Q b) bs))) \<noteq> None"
    if "filter (\<lambda>b. eligible services freq b \<and> Q b) bs \<noteq> []" for Q bs
  proof -
    have "hd (filter (\<lambda>b. eligible services freq b \<and> Q b) bs) \<in> set (filter (\<lambda>b. eligible services freq b \<and> Q b) bs)"
      using that by (rule hd_in_set)
    then show ?thesis by (simp add: eligible_def)
  qed
  have e: "(\<lambda>b. rb_mapping (b_resolved b) \<noteq> None \<and> resolved_isBandOrSegment (b_resolved b) \<and>
            set_contains services (resolved_service (b_resolved b)) \<and> containsFrequency b freq) = eligible services freq"
    by (simp add: fun_eq_iff eligible_def)
  show ?thesis unfolding e
    using some [of "\<lambda>b. resolved_service (b_resolved b) = current" "bp_bands plan"]
    by (auto simp: resolveBandInServices_def resolve_loop_result first Let_def conj_commute split: option.split)
qed

text \<open>
  A legacy row without a stable identity is tuned inside its own span, to its default
  frequency if that lies there, otherwise to its center, moved to a whole kilohertz only when
  that stays in the span (so by at most 500 Hz).
\<close>

theorem legacy_row_tuned_inside:
  assumes "hasValidFrequencySpan b"
  shows "containsFrequency b (legacy_target b) \<and>
    (containsFrequency b (b_defFreq b) \<longrightarrow> legacy_target b = b_defFreq b) \<and>
    (\<not> containsFrequency b (b_defFreq b) \<longrightarrow> \<bar>legacy_target b - (b_start b + b_end b) / 2\<bar> \<le> 500)"
proof -
  have "containsFrequency b (b_defFreq b) \<Longrightarrow> legacy_target b = b_defFreq b"
    using containsFrequency_pos [of b "b_defFreq b"] by (simp add: legacy_target_def)
  moreover have "\<bar>legacy_target b - (b_start b + b_end b) / 2\<bar> \<le> 500" if "\<not> containsFrequency b (b_defFreq b)"
    using that round_within [of "(b_start b + b_end b) / 2"] by (simp add: legacy_target_def Let_def)
  ultimately show ?thesis using legacy_target_within [OF assms] by blast
qed

theorem legacy_row_tuned_inside_witness:
  "containsFrequency \<lparr>b_name = ''x'', b_type = ''y'', b_start = 100500, b_end = 100700, b_resolved = no_resolution,
     b_defFreq = 0, b_defMode = '''', b_chan = 0\<rparr>
     (legacy_target \<lparr>b_name = ''x'', b_type = ''y'', b_start = 100500, b_end = 100700, b_resolved = no_resolution,
     b_defFreq = 0, b_defMode = '''', b_chan = 0\<rparr>)"
  using legacy_row_tuned_inside [of "\<lparr>b_name = ''x'', b_type = ''y'', b_start = 100500, b_end = 100700,
     b_resolved = no_resolution, b_defFreq = 0, b_defMode = '''', b_chan = 0\<rparr>"]
  by (simp add: hasValidFrequencySpan_def)

end
