(* ===== verification/QmxStatus.thy ===== *)
theory QmxStatus
  imports Prelude
begin

text \<open>
  The status record of the QMX transceiver driver (\<open>libqmx/include/qmx/QmxDevice.h\<close>): the presence
  flags, the record, the difference of a cache with an incoming status (\<open>updated_with\<close>) and the
  merge (\<open>operator+=\<close>). A status means a partial map from flags to values (\<open>status_view\<close>); the
  locale \<open>status_cache\<close> states what its clients rely on.
\<close>

section \<open>Flags\<close>

datatype QmxMode = QMX_UNKNOWN | QMX_LSB | QMX_USB | QMX_CW | QMX_FM | QMX_AM | QMX_CWR
  | QMX_FSK | QMX_FSKR

type_synonym QmxStatusFlags = u32

datatype QmxStatusFlag = Flag_None | Flag_Frequency | Flag_VfoAFrequency | Flag_VfoBFrequency
  | Flag_Transmit | Flag_Mode | Flag_RxVfo | Flag_TxVfo | Flag_Split | Flag_Rit | Flag_RitEnabled
  | Flag_SMeter | Flag_Power | Flag_SWR | Flag_CwOffset

text \<open>The position \<open>n\<close> of the enumerator \<open>1u << n\<close>.\<close>

fun flag_index :: "QmxStatusFlag \<Rightarrow> nat" where
  "flag_index Flag_None = 14"
| "flag_index Flag_Frequency = 0"
| "flag_index Flag_VfoAFrequency = 1"
| "flag_index Flag_VfoBFrequency = 2"
| "flag_index Flag_Transmit = 3"
| "flag_index Flag_Mode = 4"
| "flag_index Flag_RxVfo = 5"
| "flag_index Flag_TxVfo = 6"
| "flag_index Flag_Split = 7"
| "flag_index Flag_Rit = 8"
| "flag_index Flag_RitEnabled = 9"
| "flag_index Flag_SMeter = 10"
| "flag_index Flag_Power = 11"
| "flag_index Flag_SWR = 12"
| "flag_index Flag_CwOffset = 13"

definition qmxStatusFlagMask :: "QmxStatusFlag \<Rightarrow> QmxStatusFlags" where
  "qmxStatusFlagMask flag = (if flag = Flag_None then 0 else push_bit (flag_index flag) 1)"

section \<open>The record\<close>

record QmxStatus =
  flags :: QmxStatusFlags
  frequency :: int
  vfoAFrequency :: int
  vfoBFrequency :: int
  transmit :: bool
  qmode :: QmxMode
  rxVfo :: int
  txVfo :: int
  split_on :: bool
  ritHz :: int
  ritEnabled :: bool
  sMeterDb :: int
  powerTenthsW :: int
  swrHundredths :: int
  cwOffsetHz :: int
  seq_number :: u64

definition emptyStatus :: QmxStatus where
  "emptyStatus = \<lparr>flags = 0, frequency = 0, vfoAFrequency = 0, vfoBFrequency = 0,
     transmit = False, qmode = QMX_UNKNOWN, rxVfo = -1, txVfo = -1, split_on = False, ritHz = 0,
     ritEnabled = False, sMeterDb = 0, powerTenthsW = 0, swrHundredths = 0, cwOffsetHz = 0,
     seq_number = 0\<rparr>"

definition hasFlag :: "QmxStatus \<Rightarrow> QmxStatusFlag \<Rightarrow> bool" where
  "hasFlag s flag \<longleftrightarrow> flags s AND qmxStatusFlagMask flag \<noteq> 0"

definition setFlag :: "QmxStatus \<Rightarrow> QmxStatusFlag \<Rightarrow> bool \<Rightarrow> QmxStatus" where
  "setFlag s flag enabled =
     (if enabled then s\<lparr>flags := flags s OR qmxStatusFlagMask flag\<rparr>
      else s\<lparr>flags := flags s AND NOT (qmxStatusFlagMask flag)\<rparr>)"

definition clearFlags :: "QmxStatus \<Rightarrow> QmxStatusFlags \<Rightarrow> QmxStatus" where
  "clearFlags s m = s\<lparr>flags := flags s AND NOT m\<rparr>"

definition clearFlag :: "QmxStatus \<Rightarrow> QmxStatusFlag \<Rightarrow> QmxStatus" where
  "clearFlag s flag = clearFlags s (qmxStatusFlagMask flag)"

text \<open>One \<open>if (...) flags |= mask\<close> of \<open>updated_with\<close>, one \<open>if (...) field = value\<close> of \<open>operator+=\<close>.\<close>

definition add_flag_if :: "bool \<Rightarrow> QmxStatusFlag \<Rightarrow> QmxStatusFlags \<Rightarrow> QmxStatusFlags" where
  "add_flag_if c flag fl = (if c then fl OR qmxStatusFlagMask flag else fl)"

definition assign_if :: "bool \<Rightarrow> ('s \<Rightarrow> 's) \<Rightarrow> 's \<Rightarrow> 's" where
  "assign_if c upd s = (if c then upd s else s)"

definition updated_with :: "QmxStatus \<Rightarrow> QmxStatus \<Rightarrow> QmxStatusFlags" where
  "updated_with self inc =
     (let fl = 0;
          fl = add_flag_if (hasFlag inc Flag_Frequency \<and>
                 (\<not> hasFlag self Flag_Frequency \<or> frequency self \<noteq> frequency inc)) Flag_Frequency fl;
          fl = add_flag_if (hasFlag inc Flag_VfoAFrequency \<and>
                 (\<not> hasFlag self Flag_VfoAFrequency \<or> vfoAFrequency self \<noteq> vfoAFrequency inc)) Flag_VfoAFrequency fl;
          fl = add_flag_if (hasFlag inc Flag_VfoBFrequency \<and>
                 (\<not> hasFlag self Flag_VfoBFrequency \<or> vfoBFrequency self \<noteq> vfoBFrequency inc)) Flag_VfoBFrequency fl;
          fl = add_flag_if (hasFlag inc Flag_Transmit \<and>
                 (\<not> hasFlag self Flag_Transmit \<or> transmit self \<noteq> transmit inc)) Flag_Transmit fl;
          fl = add_flag_if (hasFlag inc Flag_Mode \<and>
                 (\<not> hasFlag self Flag_Mode \<or> qmode self \<noteq> qmode inc)) Flag_Mode fl;
          fl = add_flag_if (hasFlag inc Flag_RxVfo \<and>
                 (\<not> hasFlag self Flag_RxVfo \<or> rxVfo self \<noteq> rxVfo inc)) Flag_RxVfo fl;
          fl = add_flag_if (hasFlag inc Flag_TxVfo \<and>
                 (\<not> hasFlag self Flag_TxVfo \<or> txVfo self \<noteq> txVfo inc)) Flag_TxVfo fl;
          fl = add_flag_if (hasFlag inc Flag_Split \<and>
                 (\<not> hasFlag self Flag_Split \<or> split_on self \<noteq> split_on inc)) Flag_Split fl;
          fl = add_flag_if (hasFlag inc Flag_Rit \<and>
                 (\<not> hasFlag self Flag_Rit \<or> ritHz self \<noteq> ritHz inc)) Flag_Rit fl;
          fl = add_flag_if (hasFlag inc Flag_RitEnabled \<and>
                 (\<not> hasFlag self Flag_RitEnabled \<or> ritEnabled self \<noteq> ritEnabled inc)) Flag_RitEnabled fl;
          fl = add_flag_if (hasFlag inc Flag_SMeter \<and>
                 (\<not> hasFlag self Flag_SMeter \<or> sMeterDb self \<noteq> sMeterDb inc)) Flag_SMeter fl;
          fl = add_flag_if (hasFlag inc Flag_Power \<and>
                 (\<not> hasFlag self Flag_Power \<or> powerTenthsW self \<noteq> powerTenthsW inc)) Flag_Power fl;
          fl = add_flag_if (hasFlag inc Flag_SWR \<and>
                 (\<not> hasFlag self Flag_SWR \<or> swrHundredths self \<noteq> swrHundredths inc)) Flag_SWR fl;
          fl = add_flag_if (hasFlag inc Flag_CwOffset \<and>
                 (\<not> hasFlag self Flag_CwOffset \<or> cwOffsetHz self \<noteq> cwOffsetHz inc)) Flag_CwOffset fl
      in fl)"

text \<open>\<open>operator+=\<close>.\<close>

definition merge_status :: "QmxStatus \<Rightarrow> QmxStatus \<Rightarrow> QmxStatus" where
  "merge_status self inc =
     (let s = self\<lparr>flags := flags self OR flags inc, seq_number := seq_number inc\<rparr>;
          s = assign_if (hasFlag inc Flag_Frequency) (frequency_update (\<lambda>_. frequency inc)) s;
          s = assign_if (hasFlag inc Flag_VfoAFrequency) (vfoAFrequency_update (\<lambda>_. vfoAFrequency inc)) s;
          s = assign_if (hasFlag inc Flag_VfoBFrequency) (vfoBFrequency_update (\<lambda>_. vfoBFrequency inc)) s;
          s = assign_if (hasFlag inc Flag_Transmit) (transmit_update (\<lambda>_. transmit inc)) s;
          s = assign_if (hasFlag inc Flag_Mode) (qmode_update (\<lambda>_. qmode inc)) s;
          s = assign_if (hasFlag inc Flag_RxVfo) (rxVfo_update (\<lambda>_. rxVfo inc)) s;
          s = assign_if (hasFlag inc Flag_TxVfo) (txVfo_update (\<lambda>_. txVfo inc)) s;
          s = assign_if (hasFlag inc Flag_Split) (split_on_update (\<lambda>_. split_on inc)) s;
          s = assign_if (hasFlag inc Flag_Rit) (ritHz_update (\<lambda>_. ritHz inc)) s;
          s = assign_if (hasFlag inc Flag_RitEnabled) (ritEnabled_update (\<lambda>_. ritEnabled inc)) s;
          s = assign_if (hasFlag inc Flag_SMeter) (sMeterDb_update (\<lambda>_. sMeterDb inc)) s;
          s = assign_if (hasFlag inc Flag_Power) (powerTenthsW_update (\<lambda>_. powerTenthsW inc)) s;
          s = assign_if (hasFlag inc Flag_SWR) (swrHundredths_update (\<lambda>_. swrHundredths inc)) s;
          s = assign_if (hasFlag inc Flag_CwOffset) (cwOffsetHz_update (\<lambda>_. cwOffsetHz inc)) s
      in s)"

section \<open>Meaning of a status\<close>

datatype StatusValue = VNum int | VBool bool | VMode QmxMode

text \<open>The field a flag guards, and its update.\<close>

fun status_field :: "QmxStatusFlag \<Rightarrow> QmxStatus \<Rightarrow> StatusValue" where
  "status_field Flag_None s = VNum 0"
| "status_field Flag_Frequency s = VNum (frequency s)"
| "status_field Flag_VfoAFrequency s = VNum (vfoAFrequency s)"
| "status_field Flag_VfoBFrequency s = VNum (vfoBFrequency s)"
| "status_field Flag_Transmit s = VBool (transmit s)"
| "status_field Flag_Mode s = VMode (qmode s)"
| "status_field Flag_RxVfo s = VNum (rxVfo s)"
| "status_field Flag_TxVfo s = VNum (txVfo s)"
| "status_field Flag_Split s = VBool (split_on s)"
| "status_field Flag_Rit s = VNum (ritHz s)"
| "status_field Flag_RitEnabled s = VBool (ritEnabled s)"
| "status_field Flag_SMeter s = VNum (sMeterDb s)"
| "status_field Flag_Power s = VNum (powerTenthsW s)"
| "status_field Flag_SWR s = VNum (swrHundredths s)"
| "status_field Flag_CwOffset s = VNum (cwOffsetHz s)"

definition status_view :: "QmxStatus \<Rightarrow> QmxStatusFlag \<Rightarrow> StatusValue option" where
  "status_view s f = (if hasFlag s f then Some (status_field f s) else None)"

section \<open>Flag arithmetic\<close>

lemma flag_index_inj: "flag_index f = flag_index g \<longleftrightarrow> f = g"
  by (cases f; cases g) simp_all

lemma flag_index_less [simp]: "flag_index f < 32"
  by (cases f) simp_all

lemma flag_index_less_14: "flag_index f < 14 \<longleftrightarrow> f \<noteq> Flag_None"
  by (cases f) simp_all

lemma bit_flag_mask [simp]:
  "bit (qmxStatusFlagMask g) n \<longleftrightarrow> g \<noteq> Flag_None \<and> n = flag_index g"
  using flag_index_less [of g] by (auto simp: qmxStatusFlagMask_def bit_simps)

lemma hasFlag_bit: "hasFlag s f \<longleftrightarrow> f \<noteq> Flag_None \<and> bit (flags s) (flag_index f)"
proof
  assume "hasFlag s f"
  then obtain n where "bit (flags s AND qmxStatusFlagMask f) n"
    unfolding hasFlag_def by (metis bit_eqI bit_0_eq bot_apply bot_bool_def)
  then show "f \<noteq> Flag_None \<and> bit (flags s) (flag_index f)" by (auto simp: bit_and_iff)
next
  assume "f \<noteq> Flag_None \<and> bit (flags s) (flag_index f)"
  then have "bit (flags s AND qmxStatusFlagMask f) (flag_index f)" by (simp add: bit_and_iff)
  then show "hasFlag s f" unfolding hasFlag_def by auto
qed

lemma hasFlag_None [simp]: "\<not> hasFlag s Flag_None"
  by (simp add: hasFlag_bit)

lemma hasFlag_setFlag [simp]:
  "hasFlag (setFlag s f e) g \<longleftrightarrow> (if f = g \<and> f \<noteq> Flag_None then e else hasFlag s g)"
  by (auto simp: setFlag_def hasFlag_bit bit_simps flag_index_inj)

lemma hasFlag_clearFlags [simp]:
  "hasFlag (clearFlags s m) g \<longleftrightarrow> hasFlag s g \<and> \<not> bit m (flag_index g)"
  by (auto simp: clearFlags_def hasFlag_bit bit_simps)

lemma bit_add_flag_if:
  "bit (add_flag_if c g fl) n \<longleftrightarrow> bit fl n \<or> c \<and> g \<noteq> Flag_None \<and> n = flag_index g"
  by (simp add: add_flag_if_def bit_or_iff)

lemma status_field_flags [simp]:
  "status_field f (s\<lparr>flags := x\<rparr>) = status_field f s"
  "status_field f (s\<lparr>seq_number := q\<rparr>) = status_field f s"
  "status_field f (setFlag s g e) = status_field f s"
  "status_field f (clearFlags s m) = status_field f s"
  by (cases f; simp add: setFlag_def clearFlags_def)+

section \<open>Laws of the cache\<close>

lemma status_view_clearFlags:
  "status_view (clearFlags s m) f = (if bit m (flag_index f) then None else status_view s f)"
  by (simp add: status_view_def)

lemma status_view_empty [simp]: "status_view emptyStatus f = None"
  by (simp add: status_view_def hasFlag_bit emptyStatus_def)

lemma status_view_None [simp]: "status_view s Flag_None = None"
  by (simp add: status_view_def)

lemma assign_if_same:
  "frequency (assign_if c (frequency_update k) s) = (if c then k (frequency s) else frequency s)"
  "vfoAFrequency (assign_if c (vfoAFrequency_update k) s) = (if c then k (vfoAFrequency s) else vfoAFrequency s)"
  "vfoBFrequency (assign_if c (vfoBFrequency_update k) s) = (if c then k (vfoBFrequency s) else vfoBFrequency s)"
  "transmit (assign_if c (transmit_update kb) s) \<longleftrightarrow> (if c then kb (transmit s) else transmit s)"
  "qmode (assign_if c (qmode_update km) s) = (if c then km (qmode s) else qmode s)"
  "rxVfo (assign_if c (rxVfo_update k) s) = (if c then k (rxVfo s) else rxVfo s)"
  "txVfo (assign_if c (txVfo_update k) s) = (if c then k (txVfo s) else txVfo s)"
  "split_on (assign_if c (split_on_update kb) s) = (if c then kb (split_on s) else split_on s)"
  "ritHz (assign_if c (ritHz_update k) s) = (if c then k (ritHz s) else ritHz s)"
  "ritEnabled (assign_if c (ritEnabled_update kb) s) = (if c then kb (ritEnabled s) else ritEnabled s)"
  "sMeterDb (assign_if c (sMeterDb_update k) s) = (if c then k (sMeterDb s) else sMeterDb s)"
  "powerTenthsW (assign_if c (powerTenthsW_update k) s) = (if c then k (powerTenthsW s) else powerTenthsW s)"
  "swrHundredths (assign_if c (swrHundredths_update k) s) = (if c then k (swrHundredths s) else swrHundredths s)"
  "cwOffsetHz (assign_if c (cwOffsetHz_update k) s) = (if c then k (cwOffsetHz s) else cwOffsetHz s)"
  by (simp_all add: assign_if_def)

lemma assign_if_other: "(\<And>x. f (upd x) = f x) \<Longrightarrow> f (assign_if c upd s) = f s" for f :: "'s \<Rightarrow> 'v"
  by (simp add: assign_if_def)

lemmas assign_if_sel = assign_if_same assign_if_other [of flags]
  assign_if_other [of frequency]
  assign_if_other [of vfoAFrequency]
  assign_if_other [of vfoBFrequency]
  assign_if_other [of transmit]
  assign_if_other [of qmode]
  assign_if_other [of rxVfo]
  assign_if_other [of txVfo]
  assign_if_other [of split_on]
  assign_if_other [of ritHz]
  assign_if_other [of ritEnabled]
  assign_if_other [of sMeterDb]
  assign_if_other [of powerTenthsW]
  assign_if_other [of swrHundredths]
  assign_if_other [of cwOffsetHz]

lemma flags_merge [simp]: "flags (merge_status a b) = flags a OR flags b"
  by (simp add: merge_status_def Let_def assign_if_sel)

lemma hasFlag_merge [simp]: "hasFlag (merge_status a b) f \<longleftrightarrow> hasFlag a f \<or> hasFlag b f"
  by (auto simp: hasFlag_bit bit_or_iff)

lemma status_field_merge:
  "f \<noteq> Flag_None \<Longrightarrow>
   status_field f (merge_status a b) = (if hasFlag b f then status_field f b else status_field f a)"
  by (cases f) (simp_all add: merge_status_def Let_def assign_if_sel)

lemma status_view_merge: "status_view (merge_status a b) = status_view a ++ status_view b"
proof
  fix f
  show "status_view (merge_status a b) f = (status_view a ++ status_view b) f"
    by (cases "f = Flag_None") (auto simp: status_view_def map_add_def status_field_merge)
qed

definition all_flags :: "QmxStatusFlag list" where
  "all_flags = [Flag_Frequency, Flag_VfoAFrequency, Flag_VfoBFrequency, Flag_Transmit, Flag_Mode,
     Flag_RxVfo, Flag_TxVfo, Flag_Split, Flag_Rit, Flag_RitEnabled, Flag_SMeter, Flag_Power,
     Flag_SWR, Flag_CwOffset]"

lemma set_all_flags: "f \<in> set all_flags \<longleftrightarrow> f \<noteq> Flag_None"
  by (cases f) (simp_all add: all_flags_def)

definition has_news :: "QmxStatus \<Rightarrow> QmxStatus \<Rightarrow> QmxStatusFlag \<Rightarrow> bool" where
  "has_news a b f \<longleftrightarrow> hasFlag b f \<and> (\<not> hasFlag a f \<or> status_field f a \<noteq> status_field f b)"

lemma updated_with_foldl:
  "updated_with a b = foldl (\<lambda>fl f. add_flag_if (has_news a b f) f fl) 0 all_flags"
  unfolding updated_with_def Let_def all_flags_def foldl_Cons foldl_Nil has_news_def
    status_field.simps StatusValue.inject by (rule refl)

lemma bit_foldl_add_flag_if:
  "bit (foldl (\<lambda>fl f. add_flag_if (P f) f fl) fl fs) n \<longleftrightarrow>
   bit fl n \<or> (\<exists>f \<in> set fs. P f \<and> f \<noteq> Flag_None \<and> n = flag_index f)"
  by (induction fs arbitrary: fl) (auto simp: bit_add_flag_if)

lemma bit_updated_with_raw:
  "bit (updated_with a b) n \<longleftrightarrow> (\<exists>f. f \<noteq> Flag_None \<and> n = flag_index f \<and> has_news a b f)"
  unfolding updated_with_foldl bit_foldl_add_flag_if by (auto simp: set_all_flags)

lemma bit_updated_with:
  "bit (updated_with a b) (flag_index f) \<longleftrightarrow>
   status_view b f \<noteq> None \<and> status_view a f \<noteq> status_view b f"
  by (auto simp: bit_updated_with_raw has_news_def flag_index_inj status_view_def split: if_splits)

lemma updated_with_zero_iff:
  "updated_with a b = 0 \<longleftrightarrow> (\<forall>f. status_view b f \<noteq> None \<longrightarrow> status_view a f = status_view b f)"
proof
  assume "updated_with a b = 0"
  then have "\<not> bit (updated_with a b) (flag_index f)" for f by simp
  then show "\<forall>f. status_view b f \<noteq> None \<longrightarrow> status_view a f = status_view b f"
    by (simp only: bit_updated_with) blast
next
  assume same: "\<forall>f. status_view b f \<noteq> None \<longrightarrow> status_view a f = status_view b f"
  show "updated_with a b = 0"
  proof (rule bit_eqI)
    fix n
    have "\<not> bit (updated_with a b) n"
    proof
      assume *: "bit (updated_with a b) n"
      then obtain f where "n = flag_index f" by (auto simp: bit_updated_with_raw)
      with * have "bit (updated_with a b) (flag_index f)" by simp
      with same show False by (simp only: bit_updated_with) blast
    qed
    then show "bit (updated_with a b) n = bit 0 n" by simp
  qed
qed

section \<open>The interface of a status cache\<close>

text \<open>
  What the synchronizer relies on: \<open>view\<close> is what a status says, \<open>merge\<close> lets the incoming status
  win wherever it speaks, and \<open>diff\<close> is zero exactly when the incoming status says nothing new.
\<close>

locale status_cache =
  fixes view :: "'s \<Rightarrow> 'f \<Rightarrow> 'v option"
    and merge :: "'s \<Rightarrow> 's \<Rightarrow> 's"
    and diff :: "'s \<Rightarrow> 's \<Rightarrow> 'd::zero"
    and reported :: "'d \<Rightarrow> 'f \<Rightarrow> bool"
  assumes view_merge: "view (merge a b) = view a ++ view b"
    and reported_diff: "reported (diff a b) f \<longleftrightarrow> view b f \<noteq> None \<and> view a f \<noteq> view b f"
    and diff_zero: "diff a b = 0 \<longleftrightarrow> (\<forall>f. \<not> reported (diff a b) f)"
begin

lemma diff_zero_iff: "diff a b = 0 \<longleftrightarrow> (\<forall>f. view b f \<noteq> None \<longrightarrow> view a f = view b f)"
  unfolding diff_zero reported_diff by blast

lemma merge_noop_iff: "diff a b = 0 \<longleftrightarrow> view (merge a b) = view a"
proof
  assume "diff a b = 0"
  then have same: "view b f \<noteq> None \<Longrightarrow> view a f = view b f" for f unfolding diff_zero_iff by blast
  show "view (merge a b) = view a"
    unfolding view_merge
  proof
    fix f
    show "(view a ++ view b) f = view a f"
      using same [of f] by (auto simp: map_add_def split: option.splits)
  qed
next
  assume eq: "view (merge a b) = view a"
  show "diff a b = 0"
    unfolding diff_zero_iff
  proof (intro allI impI)
    fix f assume "view b f \<noteq> None"
    then have "view (merge a b) f = view b f" unfolding view_merge by (auto simp: map_add_def)
    with eq show "view a f = view b f" by simp
  qed
qed

lemma diff_after_merge: "diff (merge a b) b = 0"
  unfolding diff_zero_iff view_merge by (auto simp: map_add_def)

lemma merge_agrees: "view b f \<noteq> None \<Longrightarrow> view (merge a b) f = view b f"
  unfolding view_merge by (auto simp: map_add_def)

lemma merge_keeps: "view b f = None \<Longrightarrow> view (merge a b) f = view a f"
  unfolding view_merge by (auto simp: map_add_def)

end

interpretation cache: status_cache status_view merge_status updated_with "\<lambda>d f. bit d (flag_index f)"
  by unfold_locales
    (simp_all only: status_view_merge bit_updated_with updated_with_zero_iff, blast)

section \<open>Properties\<close>

text \<open>
  The status cache: a status means a partial map from flags to values; adding an incoming status
  overrides exactly the values it carries; the difference reports a flag exactly when the incoming
  status carries a value the cache does not have, is zero exactly when adding would change nothing,
  and is zero right after the addition.
\<close>

theorem qmx_status_cache:
  "status_view (merge_status a b) = status_view a ++ status_view b \<and>
   (bit (updated_with a b) (flag_index f) \<longleftrightarrow>
      status_view b f \<noteq> None \<and> status_view a f \<noteq> status_view b f) \<and>
   (updated_with a b = 0 \<longleftrightarrow> status_view (merge_status a b) = status_view a) \<and>
   updated_with (merge_status a b) b = 0"
  using cache.view_merge cache.reported_diff cache.merge_noop_iff cache.diff_after_merge by simp

end
