(* ===== verification/QmxParser.thy ===== *)
theory QmxParser
  imports QmxStatus
begin

text \<open>
  The CAT reply parser of the QMX driver (\<open>libqmx/src/QmxCatStatus.cpp\<close>) and the commands that
  \<open>SerialCat.cpp\<close> sends: framing of the byte stream into replies, decoding of each reply into the
  cached status, batches and the publication of snapshots.

  \<open>parseUnsigned\<close> and \<open>parseSigned\<close> are exact integers here; the source accumulates in
  \<open>std::int64_t\<close> and \<open>int\<close>, which is the same as long as the text has at most 18 and 9 digits
  (\<open>parseUnsigned_fits\<close>, \<open>parseSigned_fits\<close>). The mutex makes each operation atomic. The debug
  timing and raw log parts, off by default in the source, are left out.
\<close>

section \<open>Numbers\<close>

text \<open>The digit loop, from the accumulator \<open>acc\<close> on.\<close>

fun parse_digits :: "int \<Rightarrow> string \<Rightarrow> int option" where
  "parse_digits acc [] = Some acc"
| "parse_digits acc (ch # cs) =
     (if \<not> is_digit ch then None else parse_digits (acc * 10 + digit_val ch) cs)"

definition parseUnsigned :: "string \<Rightarrow> int option" where
  "parseUnsigned txt = (if txt = [] then None else parse_digits 0 txt)"

definition parseSigned :: "string \<Rightarrow> int option" where
  "parseSigned txt =
     (if txt = [] then None
      else
        let sign = hd txt = CHR ''+'' \<or> hd txt = CHR ''-'';
            negative = hd txt = CHR ''-'';
            rest = (if sign then tl txt else txt)
        in if rest = [] then None
           else map_option (\<lambda>n. if negative then - n else n) (parse_digits 0 rest))"

text \<open>\<open>static_cast<int>\<close> of an \<open>std::int64_t\<close>.\<close>

definition cast_int :: "int \<Rightarrow> int" where
  "cast_int v = signed_take_bit 31 v"

section \<open>Modes\<close>

definition decodeModeChar :: "char \<Rightarrow> QmxMode option" where
  "decodeModeChar modeChar =
     (let c = to_upper modeChar in
      if c = CHR ''1'' \<or> c = CHR ''L'' then Some QMX_LSB
      else if c = CHR ''2'' \<or> c = CHR ''U'' then Some QMX_USB
      else if c = CHR ''3'' \<or> c = CHR ''C'' then Some QMX_CW
      else if c = CHR ''4'' \<or> c = CHR ''F'' then Some QMX_FM
      else if c = CHR ''5'' \<or> c = CHR ''A'' then Some QMX_AM
      else if c = CHR ''6'' \<or> c = CHR ''D'' then Some QMX_FSK
      else if c = CHR ''7'' then Some QMX_CWR
      else if c = CHR ''9'' then Some QMX_FSKR
      else None)"

fun encodeModeCommand :: "QmxMode \<Rightarrow> string option" where
  "encodeModeCommand QMX_LSB = Some ''MD1;''"
| "encodeModeCommand QMX_USB = Some ''MD2;''"
| "encodeModeCommand QMX_CW = Some ''MD3;''"
| "encodeModeCommand QMX_AM = Some ''MD5;''"
| "encodeModeCommand QMX_FSK = Some ''MD6;''"
| "encodeModeCommand QMX_CWR = Some ''MD7;''"
| "encodeModeCommand QMX_FSKR = Some ''MD9;''"
| "encodeModeCommand QMX_FM = None"
| "encodeModeCommand QMX_UNKNOWN = None"

section \<open>The parser\<close>

datatype PendingMenuValue = Menu_None | Menu_CwOffset

record QmxCatStatusParser =
  parserBuffer :: string
  status :: QmxStatus
  pendingMenuValue :: PendingMenuValue
  statusCallback :: bool
  batchDirty :: bool
  batchHadIf :: bool
  batchExpectedResponses :: nat
  batchRepliesSeen :: nat

text \<open>The members as the class declaration initializes them.\<close>

definition newParser :: QmxCatStatusParser where
  "newParser = \<lparr>parserBuffer = [], status = emptyStatus, pendingMenuValue = Menu_None,
     statusCallback = False, batchDirty = False, batchHadIf = False, batchExpectedResponses = 0,
     batchRepliesSeen = 0\<rparr>"

definition reset :: "QmxCatStatusParser \<Rightarrow> QmxCatStatusParser" where
  "reset p = p\<lparr>parserBuffer := [], status := emptyStatus, pendingMenuValue := Menu_None,
     batchDirty := False, batchHadIf := False, batchExpectedResponses := 0, batchRepliesSeen := 0\<rparr>"

definition beginBatch :: "QmxCatStatusParser \<Rightarrow> nat \<Rightarrow> QmxCatStatusParser" where
  "beginBatch p expectedResponses =
     p\<lparr>batchHadIf := False, batchExpectedResponses := expectedResponses, batchRepliesSeen := 0\<rparr>"

text \<open>The second component is the snapshot the callback is called with, if it is called.\<close>

definition publishBatch :: "QmxCatStatusParser \<Rightarrow> QmxCatStatusParser \<times> QmxStatus option" where
  "publishBatch p =
     (let shouldPublish = batchHadIf p \<or> batchDirty p;
          p1 = (if shouldPublish
                then p\<lparr>status := (status p)\<lparr>seq_number := seq_number (status p) + 1\<rparr>\<rparr> else p);
          snapshot = status p1
      in (p1\<lparr>batchDirty := False, batchHadIf := False\<rparr>,
          if shouldPublish \<and> statusCallback p then Some snapshot else None))"

definition batchComplete :: "QmxCatStatusParser \<Rightarrow> bool" where
  "batchComplete p \<longleftrightarrow>
     batchExpectedResponses p \<noteq> 0 \<and> batchRepliesSeen p \<ge> batchExpectedResponses p"

definition setStatusCallback :: "QmxCatStatusParser \<Rightarrow> bool \<Rightarrow> QmxCatStatusParser" where
  "setStatusCallback p callback = p\<lparr>statusCallback := callback\<rparr>"

definition armPendingMenuValue :: "QmxCatStatusParser \<Rightarrow> PendingMenuValue \<Rightarrow> QmxCatStatusParser" where
  "armPendingMenuValue p v = p\<lparr>pendingMenuValue := v\<rparr>"

definition clearPendingMenuValue :: "QmxCatStatusParser \<Rightarrow> QmxCatStatusParser" where
  "clearPendingMenuValue p = p\<lparr>pendingMenuValue := Menu_None\<rparr>"

definition hasPendingMenuValue :: "QmxCatStatusParser \<Rightarrow> bool" where
  "hasPendingMenuValue p \<longleftrightarrow> pendingMenuValue p \<noteq> Menu_None"

definition clearStatusFlags :: "QmxCatStatusParser \<Rightarrow> QmxStatusFlags \<Rightarrow> QmxCatStatusParser" where
  "clearStatusFlags p fl = (if fl = 0 then p else p\<lparr>status := clearFlags (status p) fl\<rparr>)"

section \<open>Decoding of a reply\<close>

text \<open>The member a flag guards, as the target of an assignment.\<close>

fun write_field :: "QmxStatusFlag \<Rightarrow> StatusValue \<Rightarrow> QmxStatus \<Rightarrow> QmxStatus" where
  "write_field Flag_Frequency (VNum n) s = s\<lparr>frequency := n\<rparr>"
| "write_field Flag_VfoAFrequency (VNum n) s = s\<lparr>vfoAFrequency := n\<rparr>"
| "write_field Flag_VfoBFrequency (VNum n) s = s\<lparr>vfoBFrequency := n\<rparr>"
| "write_field Flag_Transmit (VBool b) s = s\<lparr>transmit := b\<rparr>"
| "write_field Flag_Mode (VMode m) s = s\<lparr>qmode := m\<rparr>"
| "write_field Flag_RxVfo (VNum n) s = s\<lparr>rxVfo := n\<rparr>"
| "write_field Flag_TxVfo (VNum n) s = s\<lparr>txVfo := n\<rparr>"
| "write_field Flag_Split (VBool b) s = s\<lparr>split_on := b\<rparr>"
| "write_field Flag_Rit (VNum n) s = s\<lparr>ritHz := n\<rparr>"
| "write_field Flag_RitEnabled (VBool b) s = s\<lparr>ritEnabled := b\<rparr>"
| "write_field Flag_SMeter (VNum n) s = s\<lparr>sMeterDb := n\<rparr>"
| "write_field Flag_Power (VNum n) s = s\<lparr>powerTenthsW := n\<rparr>"
| "write_field Flag_SWR (VNum n) s = s\<lparr>swrHundredths := n\<rparr>"
| "write_field Flag_CwOffset (VNum n) s = s\<lparr>cwOffsetHz := n\<rparr>"
| "write_field _ _ s = s"

definition assignWithPresence :: "QmxStatusFlag \<Rightarrow> StatusValue \<Rightarrow> QmxStatus \<Rightarrow> QmxStatus \<times> bool" where
  "assignWithPresence f v s =
     (write_field f v (setFlag s f True), \<not> hasFlag s f \<or> status_field f s \<noteq> v)"

text \<open>\<open>changed |= assignWithPresence(...)\<close> on the pair of the status and \<open>changed\<close>, for the value
  of the guard when it holds.\<close>

fun assign_changed :: "QmxStatusFlag \<Rightarrow> StatusValue option \<Rightarrow> QmxStatus \<times> bool \<Rightarrow> QmxStatus \<times> bool" where
  "assign_changed f None (s, changed) = (s, changed)"
| "assign_changed f (Some v) (s, changed) =
     (let (s', c) = assignWithPresence f v s in (s', changed \<or> c))"

text \<open>The value of \<open>payload[i]\<close> read as a bit, when the payload is long enough and it is one.\<close>

definition bit_at :: "string \<Rightarrow> nat \<Rightarrow> bool option" where
  "bit_at payload i =
     (if length payload > i \<and> (payload ! i = CHR ''0'' \<or> payload ! i = CHR ''1'')
      then Some (payload ! i = CHR ''1'') else None)"

definition vfo_at :: "string \<Rightarrow> nat \<Rightarrow> StatusValue option" where
  "vfo_at payload i = map_option (\<lambda>b. VNum (if b then 1 else 0)) (bit_at payload i)"

definition mode_at :: "string \<Rightarrow> nat \<Rightarrow> StatusValue option" where
  "mode_at payload i =
     (if length payload > i then map_option VMode (decodeModeChar (payload ! i)) else None)"

text \<open>The \<open>IF\<close> reply: seven fields at fixed columns.\<close>

definition process_IF :: "string \<Rightarrow> QmxStatus \<Rightarrow> QmxStatus \<times> bool" where
  "process_IF payload s =
     (let st = (s, False);
          st = assign_changed Flag_Frequency
                 (if length payload \<ge> 11 then map_option VNum (parseUnsigned (take 11 payload)) else None) st;
          st = assign_changed Flag_Rit
                 (if length payload \<ge> 21 then map_option VNum (parseSigned (take 5 (drop 16 payload))) else None) st;
          st = assign_changed Flag_RitEnabled (map_option VBool (bit_at payload 21)) st;
          st = assign_changed Flag_Transmit (map_option VBool (bit_at payload 26)) st;
          st = assign_changed Flag_Mode (mode_at payload 27) st;
          st = assign_changed Flag_RxVfo (vfo_at payload 28) st;
          st = assign_changed Flag_Split (map_option VBool (bit_at payload 30)) st
      in st)"

definition finish_reply :: "QmxCatStatusParser \<Rightarrow> QmxStatus \<times> bool \<Rightarrow> QmxCatStatusParser \<times> bool" where
  "finish_reply p st =
     (p\<lparr>status := fst st, batchDirty := (if snd st then True else batchDirty p)\<rparr>, snd st)"

definition processResponseLocked :: "QmxCatStatusParser \<Rightarrow> string \<Rightarrow> QmxCatStatusParser \<times> bool" where
  "processResponseLocked p response =
     (if response = ''?'' then (p\<lparr>pendingMenuValue := Menu_None\<rparr>, False)
      else if length response < 2 then (p, False)
      else
        let code = take 2 response; payload = drop 2 response; s = status p; st = (s, False) in
        if code = ''IF'' then finish_reply (p\<lparr>batchHadIf := True\<rparr>) (process_IF payload s)
        else if code = ''FA'' then
          finish_reply p (assign_changed Flag_VfoAFrequency (map_option VNum (parseUnsigned payload)) st)
        else if code = ''FB'' then
          finish_reply p (assign_changed Flag_VfoBFrequency (map_option VNum (parseUnsigned payload)) st)
        else if code = ''FR'' then finish_reply p (assign_changed Flag_RxVfo (vfo_at payload 0) st)
        else if code = ''FT'' then finish_reply p (assign_changed Flag_TxVfo (vfo_at payload 0) st)
        else if code = ''SP'' then
          finish_reply p (assign_changed Flag_Split (map_option VBool (bit_at payload 0)) st)
        else if code = ''TQ'' then
          finish_reply p (assign_changed Flag_Transmit (map_option VBool (bit_at payload 0)) st)
        else if code = ''MD'' then finish_reply p (assign_changed Flag_Mode (mode_at payload 0) st)
        else if code = ''MM'' then
          (if pendingMenuValue p = Menu_CwOffset then
             finish_reply (p\<lparr>pendingMenuValue := Menu_None\<rparr>)
               (assign_changed Flag_CwOffset (map_option VNum (parseSigned payload)) st)
           else finish_reply p st)
        else if code = ''SM'' then
          finish_reply p (assign_changed Flag_SMeter (map_option VNum (parseSigned payload)) st)
        else if code = ''PC'' then
          finish_reply p (assign_changed Flag_Power
            (map_option (\<lambda>n. VNum (cast_int n)) (parseUnsigned payload)) st)
        else if code = ''SW'' then
          (if payload = [] then
             (if hasFlag s Flag_SWR then finish_reply p (clearFlag s Flag_SWR, True)
              else finish_reply p st)
           else finish_reply p (assign_changed Flag_SWR
                  (map_option (\<lambda>n. VNum (cast_int n)) (parseUnsigned payload)) st))
        else finish_reply p st)"

section \<open>Framing\<close>

definition feed_byte :: "QmxCatStatusParser \<Rightarrow> char \<Rightarrow> QmxCatStatusParser" where
  "feed_byte p ch =
     (if ch = CHR '';'' then
        (if parserBuffer p = [] then p
         else
           let response = parserBuffer p;
               p1 = p\<lparr>parserBuffer := [], batchRepliesSeen := batchRepliesSeen p + 1\<rparr>
           in fst (processResponseLocked p1 response))
      else if char_code ch < 32 then p
      else
        let buf = parserBuffer p @ [ch] in
        p\<lparr>parserBuffer := (if length buf > 128 then drop (length buf - 64) buf else buf)\<rparr>)"

definition feedBytes :: "QmxCatStatusParser \<Rightarrow> string \<Rightarrow> QmxCatStatusParser" where
  "feedBytes p bytes = foldl feed_byte p bytes"

section \<open>Commands\<close>

text \<open>\<open>snprintf("%011lld")\<close>: decimal digits, zero-padded to eleven characters including the sign.\<close>

fun decimal :: "nat \<Rightarrow> string" where
  "decimal n = (if n < 10 then [] else decimal (n div 10)) @ [char_of (48 + n mod 10)]"

definition format_011lld :: "int \<Rightarrow> string" where
  "format_011lld v =
     (let digits = decimal (nat \<bar>v\<bar>); sign = (if v < 0 then ''-'' else [])
      in sign @ replicate (11 - length sign - length digits) CHR ''0'' @ digits)"

definition frequency_command :: "int \<Rightarrow> int \<Rightarrow> string" where
  "frequency_command hz vfo =
     (if vfo = 1 then ''FB'' else ''FA'') @ format_011lld hz @ '';''"

definition frequency_clear_flags :: "int \<Rightarrow> QmxStatusFlags" where
  "frequency_clear_flags vfo = qmxStatusFlagMask Flag_Frequency OR
     (if vfo = 1 then qmxStatusFlagMask Flag_VfoBFrequency else qmxStatusFlagMask Flag_VfoAFrequency)"

declare decimal.simps [simp del]

section \<open>Numbers: lemmas\<close>

lemma parse_digits_bounds:
  "parse_digits acc cs = Some n \<Longrightarrow> 0 \<le> acc \<Longrightarrow> acc < 10 ^ k \<Longrightarrow> 0 \<le> n \<and> n < 10 ^ (k + length cs)"
proof (induction acc cs arbitrary: k rule: parse_digits.induct)
  case (1 acc)
  then show ?case by simp
next
  case (2 acc ch cs)
  then have d: "is_digit ch" and n: "parse_digits (acc * 10 + digit_val ch) cs = Some n"
    by (auto split: if_splits)
  have "acc * 10 + digit_val ch < 10 ^ Suc k" and "0 \<le> acc * 10 + digit_val ch"
    using 2 digit_val_bounds [OF d] by auto
  with "2.IH" [OF _ n, of "Suc k"] d show ?case by simp
qed

lemma parseUnsigned_nonneg: "parseUnsigned txt = Some n \<Longrightarrow> 0 \<le> n"
  using parse_digits_bounds [of 0 "txt" n 0] by (auto simp: parseUnsigned_def split: if_splits)

lemma parseUnsigned_fits:
  assumes "parseUnsigned txt = Some n" "length txt \<le> 18"
  shows "0 \<le> n \<and> n < 2 ^ 63"
proof -
  have "0 \<le> n \<and> n < 10 ^ (0 + length txt)"
    using assms parse_digits_bounds [of 0 "txt" n 0] by (auto simp: parseUnsigned_def split: if_splits)
  moreover have "(10::int) ^ length txt \<le> 10 ^ 18" using assms(2) by (intro power_increasing) simp_all
  moreover have "(10::int) ^ 18 < 2 ^ 63" by simp
  ultimately show ?thesis by simp
qed

lemma parseSigned_fits:
  assumes "parseSigned txt = Some n" "length txt \<le> 9"
  shows "\<bar>n\<bar> < 2 ^ 31"
proof -
  obtain rest m where m: "parse_digits 0 rest = Some m" "length rest \<le> length txt" "\<bar>n\<bar> = \<bar>m\<bar>"
  proof
    show "parse_digits 0 (if hd txt = CHR ''+'' \<or> hd txt = CHR ''-'' then tl txt else txt)
        = Some (if hd txt = CHR ''-'' then - n else n)"
      using assms(1) by (auto simp: parseSigned_def Let_def split: if_splits)
    show "length (if hd txt = CHR ''+'' \<or> hd txt = CHR ''-'' then tl txt else txt) \<le> length txt"
      by simp
  qed simp
  then have "\<bar>m\<bar> < 10 ^ length rest" using parse_digits_bounds [of 0 rest m 0] by simp
  moreover have "(10::int) ^ length rest \<le> 10 ^ 9" using m assms(2) by (intro power_increasing) simp_all
  moreover have "(10::int) ^ 9 < 2 ^ 31" by simp
  ultimately show ?thesis using m by simp
qed

section \<open>Assignments: lemmas\<close>

text \<open>The values a status may carry under each flag.\<close>

fun value_ok :: "QmxStatusFlag \<Rightarrow> StatusValue \<Rightarrow> bool" where
  "value_ok Flag_None v = False"
| "value_ok Flag_Transmit v = (\<exists>b. v = VBool b)"
| "value_ok Flag_Split v = (\<exists>b. v = VBool b)"
| "value_ok Flag_RitEnabled v = (\<exists>b. v = VBool b)"
| "value_ok Flag_Mode v = (\<exists>m. v = VMode m \<and> m \<noteq> QMX_UNKNOWN)"
| "value_ok Flag_RxVfo v = (v = VNum 0 \<or> v = VNum 1)"
| "value_ok Flag_TxVfo v = (v = VNum 0 \<or> v = VNum 1)"
| "value_ok Flag_Frequency v = (\<exists>n. v = VNum n \<and> 0 \<le> n)"
| "value_ok Flag_VfoAFrequency v = (\<exists>n. v = VNum n \<and> 0 \<le> n)"
| "value_ok Flag_VfoBFrequency v = (\<exists>n. v = VNum n \<and> 0 \<le> n)"
| "value_ok _ v = (\<exists>n. v = VNum n)"

definition status_ok :: "QmxStatus \<Rightarrow> bool" where
  "status_ok s \<longleftrightarrow> (\<forall>f v. status_view s f = Some v \<longrightarrow> value_ok f v)"

lemma status_field_write:
  "value_ok f v \<Longrightarrow> status_field g (write_field f v s) = (if g = f then v else status_field g s)"
  by (cases f; cases v; cases g; simp)

lemma flags_write [simp]: "flags (write_field f v s) = flags s"
  by (cases "(f, v, s)" rule: write_field.cases) simp_all

lemma hasFlag_write [simp]: "hasFlag (write_field f v s) g \<longleftrightarrow> hasFlag s g"
  by (simp add: hasFlag_bit)

lemma assign_view:
  assumes "value_ok f v"
  shows "status_view (fst (assignWithPresence f v s)) = (status_view s)(f \<mapsto> v)"
proof
  fix g
  have "f \<noteq> Flag_None" using assms by (cases f) simp_all
  then show "status_view (fst (assignWithPresence f v s)) g = ((status_view s)(f \<mapsto> v)) g"
    by (auto simp: assignWithPresence_def status_view_def status_field_write [OF assms])
qed

lemma assign_flag: "snd (assignWithPresence f v s) \<longleftrightarrow> status_view s f \<noteq> Some v"
  by (auto simp: assignWithPresence_def status_view_def)

definition value_opt_ok :: "QmxStatusFlag \<Rightarrow> StatusValue option \<Rightarrow> bool" where
  "value_opt_ok f vo \<longleftrightarrow> (\<forall>v. vo = Some v \<longrightarrow> value_ok f v)"

definition put_opt :: "('f \<Rightarrow> 'v option) \<Rightarrow> 'f \<Rightarrow> 'v option \<Rightarrow> 'f \<Rightarrow> 'v option" where
  "put_opt m f vo = (case vo of None \<Rightarrow> m | Some v \<Rightarrow> m(f \<mapsto> v))"

lemma assign_changed_view:
  "value_opt_ok f vo \<Longrightarrow> status_view (fst (assign_changed f vo st)) = put_opt (status_view (fst st)) f vo"
  by (cases st; cases vo) (simp_all add: Let_def split_beta assign_view value_opt_ok_def put_opt_def)

text \<open>\<open>tracks s0 F st\<close>: the change flag tells whether the status differs from \<open>s0\<close>, and only
  flags of \<open>F\<close> may differ.\<close>

definition tracks :: "QmxStatus \<Rightarrow> QmxStatusFlag set \<Rightarrow> QmxStatus \<times> bool \<Rightarrow> bool" where
  "tracks s0 F st \<longleftrightarrow> (snd st \<longleftrightarrow> status_view (fst st) \<noteq> status_view s0) \<and>
     (\<forall>f. f \<notin> F \<longrightarrow> status_view (fst st) f = status_view s0 f)"

lemma tracks_start: "tracks s {} (s, False)"
  by (simp add: tracks_def)

lemma tracks_assign:
  assumes "tracks s0 F st" "f \<notin> F" "value_opt_ok f vo"
  shows "tracks s0 (insert f F) (assign_changed f vo st)"
proof (cases vo)
  case None
  with assms show ?thesis by (cases st) (auto simp: tracks_def)
next
  case (Some v)
  obtain s c where st: "st = (s, c)" by (cases st)
  have v: "value_ok f v" using assms(3) Some by (simp add: value_opt_ok_def)
  have c: "c \<longleftrightarrow> status_view s \<noteq> status_view s0"
    and keep: "g \<notin> F \<Longrightarrow> status_view s g = status_view s0 g" for g
    using assms(1) by (auto simp: tracks_def st)
  have view: "status_view (fst (assign_changed f vo st)) = (status_view s)(f \<mapsto> v)"
    by (simp add: st Some Let_def split_beta assign_view [OF v])
  have ch: "snd (assign_changed f vo st) \<longleftrightarrow> c \<or> status_view s f \<noteq> Some v"
    by (simp add: st Some Let_def split_beta assign_flag)
  have "(status_view s)(f \<mapsto> v) \<noteq> status_view s0 \<longleftrightarrow> c \<or> status_view s f \<noteq> Some v"
  proof (cases "status_view s f = Some v")
    case True
    then have "(status_view s)(f \<mapsto> v) = status_view s" by (auto simp: fun_eq_iff)
    with True c show ?thesis by simp
  next
    case False
    have "((status_view s)(f \<mapsto> v)) f \<noteq> status_view s0 f" using False keep [OF assms(2)] by simp
    then have "(status_view s)(f \<mapsto> v) \<noteq> status_view s0" by metis
    with False show ?thesis by simp
  qed
  with view ch keep show ?thesis by (simp add: tracks_def)
qed

lemma status_ok_put:
  assumes "status_ok s" "value_opt_ok f vo"
  shows "status_ok (fst (assign_changed f vo (s, c)))"
  using assms assign_changed_view [OF assms(2), of "(s, c)"]
  by (auto simp: status_ok_def value_opt_ok_def put_opt_def split: option.splits if_splits)

lemma status_ok_clearFlags: "status_ok s \<Longrightarrow> status_ok (clearFlags s m)"
  by (simp add: status_ok_def status_view_clearFlags)

lemma decodeModeChar_known: "decodeModeChar c = Some m \<Longrightarrow> m \<noteq> QMX_UNKNOWN"
  by (auto simp: decodeModeChar_def Let_def split: if_splits)

lemma reply_values_ok [simp]:
  "value_opt_ok Flag_Frequency (map_option VNum (parseUnsigned txt))"
  "value_opt_ok Flag_VfoAFrequency (map_option VNum (parseUnsigned txt))"
  "value_opt_ok Flag_VfoBFrequency (map_option VNum (parseUnsigned txt))"
  "value_opt_ok Flag_Rit (map_option VNum (parseSigned txt))"
  "value_opt_ok Flag_CwOffset (map_option VNum (parseSigned txt))"
  "value_opt_ok Flag_SMeter (map_option VNum (parseSigned txt))"
  "value_opt_ok Flag_Power (map_option (\<lambda>n. VNum (cast_int n)) (parseUnsigned txt))"
  "value_opt_ok Flag_SWR (map_option (\<lambda>n. VNum (cast_int n)) (parseUnsigned txt))"
  "value_opt_ok Flag_RitEnabled (map_option VBool b)"
  "value_opt_ok Flag_Transmit (map_option VBool b)"
  "value_opt_ok Flag_Split (map_option VBool b)"
  "value_opt_ok Flag_Mode (mode_at txt i)"
  "value_opt_ok Flag_RxVfo (vfo_at txt i)"
  "value_opt_ok Flag_TxVfo (vfo_at txt i)"
  "value_opt_ok f None"
  by (auto simp: value_opt_ok_def mode_at_def vfo_at_def parseUnsigned_nonneg
      dest: decodeModeChar_known split: if_splits)

section \<open>Replies: lemmas\<close>

lemma value_opt_ok_if [simp]: "value_opt_ok f vo \<Longrightarrow> value_opt_ok f (if c then vo else None)"
  by simp

lemma process_IF_tracks:
  "tracks s {Flag_Split, Flag_RxVfo, Flag_Mode, Flag_Transmit, Flag_RitEnabled, Flag_Rit, Flag_Frequency}
     (process_IF payload s)"
  unfolding process_IF_def Let_def
  by (intro tracks_assign tracks_start value_opt_ok_if reply_values_ok) simp_all

lemma status_ok_assign: "status_ok (fst st) \<Longrightarrow> value_opt_ok f vo \<Longrightarrow> status_ok (fst (assign_changed f vo st))"
  by (cases st) (simp add: status_ok_put)

lemma process_IF_ok: "status_ok s \<Longrightarrow> status_ok (fst (process_IF payload s))"
  unfolding process_IF_def Let_def
  by (intro status_ok_assign) simp_all

lemma tracks_flag: "tracks s0 F st \<Longrightarrow> snd st \<longleftrightarrow> status_view (fst st) \<noteq> status_view s0"
  by (simp add: tracks_def)

lemma assign_changed_flag:
  "value_opt_ok f vo \<Longrightarrow>
   snd (assign_changed f vo (s, False)) \<longleftrightarrow> status_view (fst (assign_changed f vo (s, False))) \<noteq> status_view s"
  using tracks_assign [OF tracks_start] tracks_flag by blast

lemma clear_SWR_view: "hasFlag s Flag_SWR \<Longrightarrow> status_view (clearFlag s Flag_SWR) \<noteq> status_view s"
proof -
  assume "hasFlag s Flag_SWR"
  then have "status_view s Flag_SWR \<noteq> None" by (simp add: status_view_def)
  moreover have "status_view (clearFlag s Flag_SWR) Flag_SWR = None"
    by (simp add: clearFlag_def status_view_clearFlags)
  ultimately show ?thesis by metis
qed

lemma finish_reply_simps [simp]:
  "status (fst (finish_reply p st)) = fst st"
  "snd (finish_reply p st) = snd st"
  "batchDirty (fst (finish_reply p st)) \<longleftrightarrow> batchDirty p \<or> snd st"
  "parserBuffer (fst (finish_reply p st)) = parserBuffer p"
  "statusCallback (fst (finish_reply p st)) = statusCallback p"
  "pendingMenuValue (fst (finish_reply p st)) = pendingMenuValue p"
  "batchRepliesSeen (fst (finish_reply p st)) = batchRepliesSeen p"
  by (simp_all add: finish_reply_def)

text \<open>The result of a reply, in every branch: what the change flag and the dirty mark say.\<close>

definition reply_sound :: "QmxCatStatusParser \<Rightarrow> QmxCatStatusParser \<times> bool \<Rightarrow> bool" where
  "reply_sound p res \<longleftrightarrow>
     (snd res \<longleftrightarrow> status_view (status (fst res)) \<noteq> status_view (status p)) \<and>
     (batchDirty (fst res) \<longleftrightarrow> batchDirty p \<or> snd res) \<and>
     parserBuffer (fst res) = parserBuffer p \<and> statusCallback (fst res) = statusCallback p \<and>
     batchRepliesSeen (fst res) = batchRepliesSeen p \<and>
     (status_ok (status p) \<longrightarrow> status_ok (status (fst res)))"

lemma reply_sound_finish:
  assumes "snd st \<longleftrightarrow> status_view (fst st) \<noteq> status_view (status p)"
    and "status_ok (status p) \<Longrightarrow> status_ok (fst st)"
    and "batchDirty q = batchDirty p" "parserBuffer q = parserBuffer p"
    and "statusCallback q = statusCallback p" "batchRepliesSeen q = batchRepliesSeen p"
  shows "reply_sound p (finish_reply q st)"
  using assms by (auto simp: reply_sound_def)

lemma reply_sound_assign:
  assumes "value_opt_ok f vo"
    and "batchDirty q = batchDirty p" "parserBuffer q = parserBuffer p"
    and "statusCallback q = statusCallback p" "batchRepliesSeen q = batchRepliesSeen p"
  shows "reply_sound p (finish_reply q (assign_changed f vo (status p, False)))"
  using assms by (intro reply_sound_finish assign_changed_flag status_ok_put) auto

lemma reply_sound_none: "reply_sound p (finish_reply p (status p, False))"
  by (rule reply_sound_finish) simp_all

lemma reply_sound_IF: "reply_sound p (finish_reply (p\<lparr>batchHadIf := True\<rparr>) (process_IF payload (status p)))"
  using tracks_flag [OF process_IF_tracks] process_IF_ok
  by (intro reply_sound_finish) simp_all

lemma reply_sound_SWR:
  "hasFlag (status p) Flag_SWR \<Longrightarrow> reply_sound p (finish_reply p (clearFlag (status p) Flag_SWR, True))"
  by (rule reply_sound_finish) (simp_all add: clear_SWR_view, simp add: clearFlag_def status_ok_clearFlags)

lemma processResponse_sound: "reply_sound p (processResponseLocked p response)"
proof -
  have q: "reply_sound p (p\<lparr>pendingMenuValue := Menu_None\<rparr>, False)" and n: "reply_sound p (p, False)"
    by (simp_all add: reply_sound_def)
  show ?thesis
    unfolding processResponseLocked_def Let_def
    by (simp add: q n reply_sound_assign reply_sound_none reply_sound_IF reply_sound_SWR)
qed

lemma processResponse_simps [simp]:
  "parserBuffer (fst (processResponseLocked p r)) = parserBuffer p"
  "statusCallback (fst (processResponseLocked p r)) = statusCallback p"
  "batchRepliesSeen (fst (processResponseLocked p r)) = batchRepliesSeen p"
  using processResponse_sound [of p r] by (simp_all add: reply_sound_def)

section \<open>Framing: lemmas\<close>

definition legal_char :: "char \<Rightarrow> bool" where
  "legal_char c \<longleftrightarrow> c \<noteq> CHR '';'' \<and> 32 \<le> char_code c"

definition is_reply :: "string \<Rightarrow> bool" where
  "is_reply r \<longleftrightarrow> r \<noteq> [] \<and> length r \<le> 128 \<and> list_all legal_char r"

text \<open>What a complete reply does to the parser.\<close>

definition take_reply :: "QmxCatStatusParser \<Rightarrow> string \<Rightarrow> QmxCatStatusParser" where
  "take_reply p r = fst (processResponseLocked (p\<lparr>batchRepliesSeen := batchRepliesSeen p + 1\<rparr>) r)"

lemma char_code_semicolon [simp]: "char_code (CHR '';'') = 59"
  by (simp add: char_code_def)

lemma feedBytes_append: "feedBytes p (a @ b) = feedBytes (feedBytes p a) b"
  by (simp add: feedBytes_def)

lemma feedBytes_Nil [simp]: "feedBytes p [] = p"
  by (simp add: feedBytes_def)

lemma feedBytes_chunks: "foldl feedBytes p chunks = feedBytes p (concat chunks)"
  by (induction chunks arbitrary: p) (simp_all add: feedBytes_append)

lemma feed_byte_control: "char_code c < 32 \<Longrightarrow> feed_byte p c = p"
  by (auto simp: feed_byte_def)

lemma feedBytes_control: "feedBytes p bytes = feedBytes p (filter (\<lambda>c. 32 \<le> char_code c) bytes)"
  by (induction bytes arbitrary: p) (simp_all add: feedBytes_def feed_byte_control)

lemma feedBytes_legal:
  "list_all legal_char r \<Longrightarrow> length (parserBuffer p) + length r \<le> 128 \<Longrightarrow>
   feedBytes p r = p\<lparr>parserBuffer := parserBuffer p @ r\<rparr>"
proof (induction r arbitrary: p)
  case Nil
  then show ?case by simp
next
  case (Cons c r)
  have "feed_byte p c = p\<lparr>parserBuffer := parserBuffer p @ [c]\<rparr>"
    using Cons.prems by (simp add: feed_byte_def legal_char_def Let_def)
  moreover have "feedBytes p (c # r) = feedBytes (feed_byte p c) r" by (simp add: feedBytes_def)
  ultimately show ?case using Cons by simp
qed

lemma feedBytes_reply:
  assumes "is_reply r" "parserBuffer p = []"
  shows "feedBytes p (r @ '';'') = take_reply p r"
proof -
  have "feedBytes p r = p\<lparr>parserBuffer := r\<rparr>"
    using assms feedBytes_legal [of r p] by (simp add: is_reply_def)
  moreover have "p\<lparr>parserBuffer := [], batchRepliesSeen := batchRepliesSeen p + 1\<rparr>
      = p\<lparr>batchRepliesSeen := batchRepliesSeen p + 1\<rparr>"
    using assms(2) by (cases p) simp
  ultimately show ?thesis
    using assms(1) by (simp add: feedBytes_append feedBytes_def feed_byte_def take_reply_def is_reply_def Let_def)
qed

lemma take_reply_buffer [simp]: "parserBuffer (take_reply p r) = parserBuffer p"
  by (simp add: take_reply_def)

lemma feedBytes_replies:
  "list_all is_reply rs \<Longrightarrow> parserBuffer p = [] \<Longrightarrow>
   feedBytes p (concat (map (\<lambda>r. r @ '';'') rs)) = foldl take_reply p rs"
proof (induction rs arbitrary: p)
  case (Cons r rs)
  have "feedBytes p (concat (map (\<lambda>r. r @ '';'') (r # rs)))
      = feedBytes (feedBytes p (r @ '';'')) (concat (map (\<lambda>r. r @ '';'') rs))"
    by (simp add: feedBytes_append [symmetric])
  with Cons show ?case by (simp add: feedBytes_reply)
qed simp

lemma feed_byte_bounded:
  "length (parserBuffer p) \<le> 128 \<and> list_all legal_char (parserBuffer p) \<Longrightarrow>
   length (parserBuffer (feed_byte p c)) \<le> 128 \<and> list_all legal_char (parserBuffer (feed_byte p c))"
  by (auto simp: feed_byte_def legal_char_def Let_def list_all_iff dest: in_set_dropD)

section \<open>Commands: lemmas\<close>

lemma parse_digits_append:
  "parse_digits acc (a @ b) = (case parse_digits acc a of None \<Rightarrow> None | Some n \<Rightarrow> parse_digits n b)"
  by (induction acc a rule: parse_digits.induct) simp_all

lemma digit_char [simp]:
  "is_digit (char_of (48 + n mod 10))" "digit_val (char_of (48 + n mod 10)) = int (n mod 10)"
proof -
  have "48 + n mod 10 < (256 :: nat)" "n mod 10 \<le> 9" by simp_all
  then show "is_digit (char_of (48 + n mod 10))" "digit_val (char_of (48 + n mod 10)) = int (n mod 10)"
    by (simp_all add: is_digit_def digit_val_def)
qed

lemma parse_decimal: "parse_digits 0 (decimal n) = Some (int n)"
proof (induction n rule: decimal.induct)
  case (1 n)
  show ?case
  proof (cases "n < 10")
    case True
    then have "decimal n = [char_of (48 + n mod 10)]" by (subst decimal.simps) simp
    then have "parse_digits 0 (decimal n) = Some (int (n mod 10))"
      by (simp del: of_nat_mod add: digit_char)
    with True show ?thesis by simp
  next
    case False
    then have "decimal n = decimal (n div 10) @ [char_of (48 + n mod 10)]" by (subst decimal.simps) simp
    then have "parse_digits 0 (decimal n) = Some (int (n div 10) * 10 + int (n mod 10))"
      using 1 False by (simp del: of_nat_mod of_nat_div add: parse_digits_append digit_char)
    moreover have "int (n div 10) * 10 + int (n mod 10) = int n" by (metis div_mult_mod_eq of_nat_add of_nat_mult of_nat_numeral)
    ultimately show ?thesis by simp
  qed
qed

lemma parse_zeros: "parse_digits 0 (replicate k CHR ''0'' @ ds) = parse_digits 0 ds"
  by (induction k) (simp_all add: is_digit_def digit_val_def char_code_def)

lemma decimal_nonempty [simp]: "decimal n \<noteq> []"
  by (simp add: decimal.simps [of n])

lemma decimal_digits: "list_all is_digit (decimal n)"
  by (induction n rule: decimal.induct) (subst decimal.simps, simp)

lemma decimal_length: "n < 10 ^ k \<Longrightarrow> 0 < k \<Longrightarrow> length (decimal n) \<le> k"
proof (induction k arbitrary: n)
  case (Suc k)
  show ?case
  proof (cases "n < 10")
    case False
    then have "0 < k" using Suc.prems(1) by (cases k) simp_all
    moreover have "n div 10 < 10 ^ k" using Suc.prems(1) by (simp add: less_mult_imp_div_less mult.commute)
    ultimately show ?thesis using Suc.IH [of "n div 10"] False by (simp add: decimal.simps [of n])
  qed (simp add: decimal.simps [of n])
qed simp

lemma parse_format:
  assumes "0 \<le> hz"
  shows "parseUnsigned (format_011lld hz) = Some hz"
  using assms by (simp add: parseUnsigned_def format_011lld_def Let_def parse_zeros parse_decimal)

lemma format_legal:
  assumes "0 \<le> hz" "hz < 10 ^ 18"
  shows "list_all legal_char (format_011lld hz) \<and> length (format_011lld hz) \<le> 18"
proof -
  have "nat \<bar>hz\<bar> < 10 ^ 18" using assms by (simp add: nat_less_iff)
  then have "length (decimal (nat \<bar>hz\<bar>)) \<le> 18" using decimal_length by simp
  moreover have "is_digit c \<Longrightarrow> legal_char c" for c by (auto simp: is_digit_def legal_char_def)
  then have "list_all legal_char (decimal (nat \<bar>hz\<bar>))"
    using decimal_digits [of "nat \<bar>hz\<bar>"] by (simp add: list_all_iff)
  moreover have "legal_char (CHR ''0'')" by (simp add: legal_char_def char_code_def)
  ultimately show ?thesis
    using assms by (auto simp: format_011lld_def Let_def list_all_iff)
qed

lemma take_reply_put:
  assumes "processResponseLocked q r = finish_reply q (assign_changed f (Some v) (status q, False))"
    and "q = p\<lparr>batchRepliesSeen := batchRepliesSeen p + 1\<rparr>" "value_ok f v"
  shows "status_view (status (take_reply p r)) = (status_view (status p))(f \<mapsto> v)"
  using assms by (simp add: take_reply_def Let_def split_beta assign_view)

lemma process_FA:
  "processResponseLocked q (''FA'' @ payload) =
   finish_reply q (assign_changed Flag_VfoAFrequency (map_option VNum (parseUnsigned payload)) (status q, False))"
  by (simp add: processResponseLocked_def Let_def)

lemma process_FB:
  "processResponseLocked q (''FB'' @ payload) =
   finish_reply q (assign_changed Flag_VfoBFrequency (map_option VNum (parseUnsigned payload)) (status q, False))"
  by (simp add: processResponseLocked_def Let_def)

lemma process_MD:
  "processResponseLocked q (''MD'' @ payload) =
   finish_reply q (assign_changed Flag_Mode (mode_at payload 0) (status q, False))"
  by (simp add: processResponseLocked_def Let_def)

lemma decode_digits:
  "list_all (\<lambda>(c, m). decodeModeChar c = Some m \<and> legal_char c)
     [(CHR ''1'', QMX_LSB), (CHR ''2'', QMX_USB), (CHR ''3'', QMX_CW), (CHR ''5'', QMX_AM),
      (CHR ''6'', QMX_FSK), (CHR ''7'', QMX_CWR), (CHR ''9'', QMX_FSKR)]"
  by code_simp

lemma legal_MD: "legal_char (CHR ''M'') \<and> legal_char (CHR ''D'')"
  by code_simp

lemma encodeModeCommand_digit:
  assumes "encodeModeCommand m = Some cmd"
  shows "\<exists>d. cmd = (''MD'' @ [d]) @ '';'' \<and> mode_at [d] 0 = Some (VMode m) \<and> is_reply (''MD'' @ [d])"
proof -
  have "\<exists>d. cmd = (''MD'' @ [d]) @ '';'' \<and> decodeModeChar d = Some m \<and> legal_char d"
    using assms decode_digits by (cases m) auto
  then obtain d where "cmd = (''MD'' @ [d]) @ '';''" "decodeModeChar d = Some m" "legal_char d" by blast
  then show ?thesis using legal_MD by (intro exI [of _ d]) (simp add: mode_at_def is_reply_def)
qed

lemma frequency_command_view:
  assumes "parserBuffer p = []" "0 \<le> hz" "hz < 10 ^ 18"
  shows "status_view (status (feedBytes p (frequency_command hz vfo))) =
    (status_view (status p))((if vfo = 1 then Flag_VfoBFrequency else Flag_VfoAFrequency) \<mapsto> VNum hz)"
proof -
  let ?r = "(if vfo = 1 then ''FB'' else ''FA'') @ format_011lld hz"
  have "is_reply ?r"
    using format_legal [OF assms(2,3)] by (simp add: is_reply_def legal_char_def char_code_def)
  then have "feedBytes p (frequency_command hz vfo) = take_reply p ?r"
    using feedBytes_reply [OF _ assms(1), of ?r] by (simp add: frequency_command_def)
  moreover have "status_view (status (take_reply p ?r)) =
    (status_view (status p))((if vfo = 1 then Flag_VfoBFrequency else Flag_VfoAFrequency) \<mapsto> VNum hz)"
  proof (cases "vfo = 1")
    case True
    then show ?thesis
      using take_reply_put [OF _ refl, where p = p and r = ?r and f = Flag_VfoBFrequency and v = "VNum hz"]
        process_FB parse_format [OF assms(2)] assms(2) by simp
  next
    case False
    then show ?thesis
      using take_reply_put [OF _ refl, where p = p and r = ?r and f = Flag_VfoAFrequency and v = "VNum hz"]
        process_FA parse_format [OF assms(2)] assms(2) by simp
  qed
  ultimately show ?thesis by simp
qed

lemma mode_command_view:
  assumes "parserBuffer p = []" "encodeModeCommand m = Some cmd"
  shows "status_view (status (feedBytes p cmd)) = (status_view (status p))(Flag_Mode \<mapsto> VMode m)"
proof -
  obtain d where d: "cmd = (''MD'' @ [d]) @ '';''" "mode_at [d] 0 = Some (VMode m)" "is_reply (''MD'' @ [d])"
    using encodeModeCommand_digit [OF assms(2)] by blast
  have "value_ok Flag_Mode (VMode m)" using assms(2) by (cases m) simp_all
  moreover have "feedBytes p cmd = take_reply p (''MD'' @ [d])"
    unfolding d(1) by (rule feedBytes_reply [OF d(3) assms(1)])
  ultimately show ?thesis
    using take_reply_put [OF _ refl, where p = p and r = "''MD'' @ [d]" and f = Flag_Mode and v = "VMode m"]
      process_MD [where payload = "[d]"] d(2) by simp
qed

section \<open>Reachable states\<close>

text \<open>
  A parser and the snapshot its subscriber received last, after any sequence of the operations the
  poller and the device call: bytes arrive in any chunks, batches begin and are published, sent
  commands invalidate flags, menu queries are armed and given up, the poller restarts.
\<close>

inductive parser_reach :: "QmxCatStatusParser \<Rightarrow> QmxStatus \<Rightarrow> bool" where
  pr_start: "parser_reach (setStatusCallback (reset p) True) emptyStatus"
| pr_feed: "parser_reach p d \<Longrightarrow> parser_reach (feedBytes p bytes) d"
| pr_begin: "parser_reach p d \<Longrightarrow> parser_reach (beginBatch p n) d"
| pr_clear: "parser_reach p d \<Longrightarrow> parser_reach (clearStatusFlags p fl) d"
| pr_arm: "parser_reach p d \<Longrightarrow> parser_reach (armPendingMenuValue p v) d"
| pr_disarm: "parser_reach p d \<Longrightarrow> parser_reach (clearPendingMenuValue p) d"
| pr_publish: "parser_reach p d \<Longrightarrow>
    parser_reach (fst (publishBatch p)) (case snd (publishBatch p) of None \<Rightarrow> d | Some s \<Rightarrow> s)"

text \<open>The subscriber has every value the parser holds, unless a publication is due.\<close>

definition parser_inv :: "QmxCatStatusParser \<Rightarrow> QmxStatus \<Rightarrow> bool" where
  "parser_inv p d \<longleftrightarrow> statusCallback p \<and> length (parserBuffer p) \<le> 128 \<and>
     list_all legal_char (parserBuffer p) \<and> status_ok (status p) \<and> status_ok d \<and>
     (batchDirty p \<or> status_view (status p) \<subseteq>\<^sub>m status_view d)"

lemma status_view_seq [simp]: "status_view (s\<lparr>seq_number := q\<rparr>) = status_view s"
  by (simp add: fun_eq_iff status_view_def hasFlag_bit)

lemma status_ok_cong: "status_view s = status_view t \<Longrightarrow> status_ok s = status_ok t"
  by (simp add: status_ok_def)

lemma inv_reply: "parser_inv p d \<Longrightarrow> parser_inv (fst (processResponseLocked p r)) d"
  using processResponse_sound [of p r] by (auto simp: parser_inv_def reply_sound_def)

lemma inv_feed_byte: "parser_inv p d \<Longrightarrow> parser_inv (feed_byte p c) d"
proof -
  assume inv: "parser_inv p d"
  then have bound: "length (parserBuffer (feed_byte p c)) \<le> 128 \<and>
      list_all legal_char (parserBuffer (feed_byte p c))"
    by (intro feed_byte_bounded) (simp add: parser_inv_def)
  show ?thesis
  proof (cases "c = CHR '';'' \<and> parserBuffer p \<noteq> []")
    case True
    have "parser_inv (p\<lparr>parserBuffer := [], batchRepliesSeen := batchRepliesSeen p + 1\<rparr>) d"
      using inv by (simp add: parser_inv_def)
    with True inv_reply show ?thesis by (simp add: feed_byte_def Let_def)
  next
    case False
    with inv bound show ?thesis by (auto simp: feed_byte_def parser_inv_def Let_def)
  qed
qed

lemma inv_feed: "parser_inv p d \<Longrightarrow> parser_inv (feedBytes p bytes) d"
  by (induction bytes arbitrary: p) (simp_all add: feedBytes_def inv_feed_byte)

lemma inv_clear: "parser_inv p d \<Longrightarrow> parser_inv (clearStatusFlags p fl) d"
  by (auto simp: parser_inv_def clearStatusFlags_def status_ok_clearFlags map_le_def
      status_view_clearFlags dom_def split: if_splits)

lemma inv_publish:
  "parser_inv p d \<Longrightarrow>
   parser_inv (fst (publishBatch p)) (case snd (publishBatch p) of None \<Rightarrow> d | Some s \<Rightarrow> s)"
  using status_ok_cong [OF status_view_seq]
  by (auto simp: parser_inv_def publishBatch_def Let_def)

lemma parser_reach_inv: "parser_reach p d \<Longrightarrow> parser_inv p d"
proof (induction rule: parser_reach.induct)
  case (pr_start p)
  then show ?case by (simp add: parser_inv_def setStatusCallback_def reset_def status_ok_def)
next
  case (pr_begin p d n)
  then show ?case by (simp add: parser_inv_def beginBatch_def)
next
  case (pr_arm p d v)
  then show ?case by (simp add: parser_inv_def armPendingMenuValue_def)
next
  case (pr_disarm p d)
  then show ?case by (simp add: parser_inv_def clearPendingMenuValue_def)
qed (simp_all add: inv_feed inv_clear inv_publish)

lemma publish_delivers:
  assumes "parser_inv p d"
  shows "status_view (status (fst (publishBatch p))) \<subseteq>\<^sub>m
         status_view (case snd (publishBatch p) of None \<Rightarrow> d | Some s \<Rightarrow> s)"
  using assms by (auto simp: parser_inv_def publishBatch_def Let_def)

section \<open>Properties\<close>

text \<open>
  C37: Framing: however the serial line cuts a sequence of replies into chunks, and whatever control
  characters are mixed in, the parser processes exactly those replies, in order and each once.
\<close>

theorem cat_framing_chunk_independent:
  assumes "parserBuffer p = []"
    and "list_all is_reply rs"
    and "filter (\<lambda>c. 32 \<le> char_code c) (concat chunks) = concat (map (\<lambda>r. r @ '';'') rs)"
  shows "foldl feedBytes p chunks = foldl take_reply p rs"
  using feedBytes_chunks [of p chunks] feedBytes_control [of p "concat chunks"] assms
    feedBytes_replies [OF assms(2,1)] by simp

theorem cat_framing_chunk_independent_witness:
  "foldl feedBytes newParser [''FA0'', ''07;M'' @ [char_of (10::nat)], ''D1;''] =
   foldl take_reply newParser [''FA007'', ''MD1'']"
  by (rule cat_framing_chunk_independent) (simp add: newParser_def, code_simp, code_simp)

text \<open>
  Change detection: a reply is reported as a change exactly when it changes some value the status
  carries (an IF reply sets up to seven of them), and the batch is dirty afterwards exactly when
  it was or the reply changed something.
\<close>

theorem cat_reply_change_exact:
  "(snd (processResponseLocked p response) \<longleftrightarrow>
      status_view (status (fst (processResponseLocked p response))) \<noteq> status_view (status p)) \<and>
   (batchDirty (fst (processResponseLocked p response)) \<longleftrightarrow>
      batchDirty p \<or> snd (processResponseLocked p response))"
  using processResponse_sound [of p response] by (simp add: reply_sound_def)

text \<open>
  Publication: in every state the poller and the device can bring the parser to, once a batch is
  published the subscriber's last snapshot carries every value the parser holds; the buffer never
  exceeds 128 characters, all of them legal; and a status that carries a mode, an active VFO or a
  frequency carries a known mode, 0 or 1, and a non-negative number.
\<close>

theorem cat_publish_delivers:
  assumes "parser_reach p d"
  shows "status_view (status (fst (publishBatch p))) \<subseteq>\<^sub>m
           status_view (case snd (publishBatch p) of None \<Rightarrow> d | Some s \<Rightarrow> s) \<and>
         length (parserBuffer p) \<le> 128 \<and> list_all legal_char (parserBuffer p) \<and>
         status_ok (status p) \<and> status_ok d"
  using publish_delivers [OF parser_reach_inv [OF assms]] parser_reach_inv [OF assms]
  by (simp add: parser_inv_def)

theorem cat_publish_delivers_witness:
  "length (parserBuffer (feedBytes (setStatusCallback (reset newParser) True) ''MD1;'')) \<le> 128"
  using cat_publish_delivers [OF pr_feed [OF pr_start [of newParser], of "''MD1;''"]] by blast

text \<open>
  Commands and replies use one format: the frequency and the mode the driver writes are read back
  by the parser as exactly that value of exactly that flag, and every mode but FM and unknown has a
  command.
\<close>

theorem cat_commands_parse_back:
  assumes "parserBuffer p = []" "0 \<le> hz" "hz < 10 ^ 18"
  shows "status_view (status (feedBytes p (frequency_command hz vfo))) =
           (status_view (status p))((if vfo = 1 then Flag_VfoBFrequency else Flag_VfoAFrequency) \<mapsto> VNum hz) \<and>
         (case encodeModeCommand m of
            None \<Rightarrow> m = QMX_FM \<or> m = QMX_UNKNOWN
          | Some cmd \<Rightarrow> status_view (status (feedBytes p cmd)) = (status_view (status p))(Flag_Mode \<mapsto> VMode m))"
proof (cases "encodeModeCommand m")
  case None
  then show ?thesis using frequency_command_view [OF assms] by (cases m) simp_all
next
  case (Some cmd)
  then show ?thesis using frequency_command_view [OF assms] mode_command_view [OF assms(1) Some] by simp
qed

theorem cat_commands_parse_back_witness:
  "status_view (status (feedBytes newParser (frequency_command 7030000 1)))
     Flag_VfoBFrequency = Some (VNum 7030000)"
proof -
  have "parserBuffer newParser = []" by (simp add: newParser_def)
  then show ?thesis using cat_commands_parse_back [of "newParser" 7030000 1 QMX_CW] by simp
qed

end
