(* ===== verification/Tuner.thy ===== *)
theory Tuner
  imports Prelude
begin

text \<open>
  Tuning: the VFO geometry and the view of the waterfall (\<open>core/src/gui/widgets/waterfall.cpp\<close>), the
  source manager (\<open>core/src/signal_path/source.cpp\<close>), the frequency selector
  (\<open>core/src/gui/widgets/frequency_select.cpp\<close>) and the tuner that drives all three
  (\<open>core/src/gui/tuner.cpp\<close>).

  The VFO manager's map and the waterfall's map hold the same VFOs (\<open>VFOManager::VFO\<close> registers
  itself in the second), so one map models both; \<open>dspOffset\<close> is the offset handed to the DSP side of
  a VFO. Repainting (\<open>updateAllVFOs\<close>, \<open>updateWaterfallFb\<close>, mutexes) is left out.
\<close>

section \<open>VFO geometry\<close>

datatype VfoReference = REF_LOWER | REF_CENTER | REF_UPPER

record WaterfallVFO =
  generalOffset :: real
  centerOffset :: real
  lowerOffset :: real
  upperOffset :: real
  bandwidth :: real
  reference :: VfoReference
  centerOffsetChanged :: bool
  lowerOffsetChanged :: bool
  upperOffsetChanged :: bool
  redrawRequired :: bool
  bandwidthChanged :: bool
  dspOffset :: real

definition moved :: "WaterfallVFO \<Rightarrow> WaterfallVFO" where
  "moved v = v\<lparr>centerOffsetChanged := True, upperOffsetChanged := True, lowerOffsetChanged := True,
     redrawRequired := True\<rparr>"

definition wtf_setOffset :: "WaterfallVFO \<Rightarrow> real \<Rightarrow> WaterfallVFO" where
  "wtf_setOffset v offset =
     moved (case reference v of
       REF_CENTER \<Rightarrow> v\<lparr>generalOffset := offset, centerOffset := offset,
                       lowerOffset := offset - bandwidth v / 2, upperOffset := offset + bandwidth v / 2\<rparr>
     | REF_LOWER \<Rightarrow> v\<lparr>generalOffset := offset, lowerOffset := offset,
                      centerOffset := offset + bandwidth v / 2, upperOffset := offset + bandwidth v\<rparr>
     | REF_UPPER \<Rightarrow> v\<lparr>generalOffset := offset, upperOffset := offset,
                      centerOffset := offset - bandwidth v / 2, lowerOffset := offset - bandwidth v\<rparr>)"

definition wtf_setCenterOffset :: "WaterfallVFO \<Rightarrow> real \<Rightarrow> WaterfallVFO" where
  "wtf_setCenterOffset v offset =
     (let g = (case reference v of
                 REF_CENTER \<Rightarrow> offset
               | REF_LOWER \<Rightarrow> offset - bandwidth v / 2
               | REF_UPPER \<Rightarrow> offset + bandwidth v / 2)
      in moved (v\<lparr>generalOffset := g, centerOffset := offset, lowerOffset := offset - bandwidth v / 2,
                  upperOffset := offset + bandwidth v / 2\<rparr>))"

definition wtf_setBandwidth :: "WaterfallVFO \<Rightarrow> real \<Rightarrow> WaterfallVFO" where
  "wtf_setBandwidth v bw =
     (if bandwidth v = bw \<or> bw < 0 then v
      else
        let v1 = v\<lparr>bandwidth := bw\<rparr>;
            v2 = (case reference v of
                    REF_CENTER \<Rightarrow> v1\<lparr>lowerOffset := centerOffset v - bw / 2,
                                    upperOffset := centerOffset v + bw / 2\<rparr>
                  | REF_LOWER \<Rightarrow> v1\<lparr>centerOffset := lowerOffset v + bw / 2,
                                   upperOffset := lowerOffset v + bw, centerOffsetChanged := True\<rparr>
                  | REF_UPPER \<Rightarrow> v1\<lparr>centerOffset := upperOffset v - bw / 2,
                                   lowerOffset := upperOffset v - bw, centerOffsetChanged := True\<rparr>)
        in v2\<lparr>bandwidthChanged := True, redrawRequired := True\<rparr>)"

definition wtf_setReference :: "WaterfallVFO \<Rightarrow> VfoReference \<Rightarrow> WaterfallVFO" where
  "wtf_setReference v ref =
     (if reference v = ref then v
      else wtf_setOffset (v\<lparr>reference := ref\<rparr>) (generalOffset v))"

text \<open>\<open>VFOManager::VFO::setOffset\<close> and \<open>setCenterOffset\<close>.\<close>

definition vfo_setOffset :: "WaterfallVFO \<Rightarrow> real \<Rightarrow> WaterfallVFO" where
  "vfo_setOffset v offset = (let v1 = wtf_setOffset v offset in v1\<lparr>dspOffset := centerOffset v1\<rparr>)"

definition vfo_setCenterOffset :: "WaterfallVFO \<Rightarrow> real \<Rightarrow> WaterfallVFO" where
  "vfo_setCenterOffset v offset = (wtf_setCenterOffset v offset)\<lparr>dspOffset := offset\<rparr>"

section \<open>The source manager and the frequency selector\<close>

datatype TuningMode = TM_NORMAL | TM_PANADAPTER

record SourceManager =
  handlerSelected :: bool
  tuneOffset :: real
  currentFreq :: real
  ifFreq :: real
  tuneMode :: TuningMode
  tuningLimitEnabled :: bool
  tuningLimitMin :: real
  tuningLimitMax :: real
  hwTunes :: "real list"
  retunes :: "real list"
  serverMode :: bool
  serverLimits :: "(bool \<times> real \<times> real) list"

text \<open>
  \<open>serverMode\<close> is \<open>core::args["server"].b()\<close>: without a display the limits go to \<open>server::setTuningLimits\<close>,
  whose calls \<open>serverLimits\<close> records. The limits live   in \<open>gui::freqSelect\<close> otherwise; \<open>(uint64_t)\<close> of a non-negative double truncates.
\<close>

record FrequencySelect =
  fs_frequency :: int
  fs_digits :: "int list"
  limitFreq :: bool
  minFreq :: int
  maxFreq :: int

definition src_tune :: "SourceManager \<Rightarrow> real \<Rightarrow> SourceManager" where
  "src_tune m freq =
     (if \<not> handlerSelected m then m
      else m\<lparr>hwTunes := hwTunes m @ [\<bar>if tuneMode m = TM_NORMAL then freq + tuneOffset m else ifFreq m\<bar>],
             retunes := retunes m @ [freq + tuneOffset m],
             currentFreq := freq\<rparr>)"

definition applyTuningLimits :: "SourceManager \<times> FrequencySelect \<Rightarrow> SourceManager \<times> FrequencySelect" where
  "applyTuningLimits = (\<lambda>(m, fs).
     if serverMode m
     then (m\<lparr>serverLimits := serverLimits m @ [(tuningLimitEnabled m, tuningLimitMin m, tuningLimitMax m)]\<rparr>, fs)
     else if \<not> tuningLimitEnabled m then (m, fs\<lparr>limitFreq := False\<rparr>)
     else
       let dispMin = tuningLimitMin m - tuneOffset m;
           dispMax = tuningLimitMax m - tuneOffset m;
           dispMin = (if dispMin < 0 then 0 else dispMin);
           dispMax = (if dispMax < 0 then 0 else dispMax)
       in (m, fs\<lparr>minFreq := \<lfloor>dispMin\<rfloor>, maxFreq := \<lfloor>dispMax\<rfloor>, limitFreq := True\<rparr>))"

definition setTuningOffset :: "SourceManager \<times> FrequencySelect \<Rightarrow> real \<Rightarrow> SourceManager \<times> FrequencySelect" where
  "setTuningOffset = (\<lambda>(m, fs) offset.
     let (m1, fs1) = applyTuningLimits (m\<lparr>tuneOffset := offset\<rparr>, fs) in (src_tune m1 (currentFreq m1), fs1))"

definition setTuningLimits ::
  "SourceManager \<times> FrequencySelect \<Rightarrow> real \<Rightarrow> real \<Rightarrow> SourceManager \<times> FrequencySelect" where
  "setTuningLimits = (\<lambda>(m, fs) lo hi.
     applyTuningLimits (m\<lparr>tuningLimitEnabled := True, tuningLimitMin := lo, tuningLimitMax := hi\<rparr>, fs))"

definition clearTuningLimits :: "SourceManager \<times> FrequencySelect \<Rightarrow> SourceManager \<times> FrequencySelect" where
  "clearTuningLimits = (\<lambda>(m, fs). applyTuningLimits (m\<lparr>tuningLimitEnabled := False\<rparr>, fs))"

definition setTuningMode :: "SourceManager \<Rightarrow> TuningMode \<Rightarrow> SourceManager" where
  "setTuningMode m mode = (let m1 = m\<lparr>tuneMode := mode\<rparr> in src_tune m1 (currentFreq m1))"

definition setPanadapterIF :: "SourceManager \<Rightarrow> real \<Rightarrow> SourceManager" where
  "setPanadapterIF m freq = (let m1 = m\<lparr>ifFreq := freq\<rparr> in src_tune m1 (currentFreq m1))"

text \<open>The digit loop from index 11 down to 0: \<open>n\<close> digits of \<open>f\<close>, the most significant first.\<close>

fun select_digits :: "nat \<Rightarrow> int \<Rightarrow> int list" where
  "select_digits 0 f = []"
| "select_digits (Suc n) f = select_digits n ((f - f mod 10) div 10) @ [f mod 10]"

definition fs_setFrequency :: "FrequencySelect \<Rightarrow> int \<Rightarrow> FrequencySelect" where
  "fs_setFrequency fs freq =
     (let freq = max 0 freq in fs\<lparr>fs_digits := select_digits 12 freq, fs_frequency := freq\<rparr>)"

text \<open>The implicit conversion of a \<open>double\<close> argument to \<open>int64_t\<close>: truncation towards zero.\<close>

definition trunc_int :: "real \<Rightarrow> int" where
  "trunc_int x = (if 0 \<le> x then \<lfloor>x\<rfloor> else \<lceil>x\<rceil>)"

section \<open>The waterfall\<close>

record WaterFall =
  centerFreq :: real
  viewOffset :: real
  viewBandwidth :: real
  wholeBandwidth :: real
  lowerFreq :: real
  upperFreq :: real
  vfos :: "string \<Rightarrow> WaterfallVFO option"

definition view_edges :: "WaterFall \<Rightarrow> WaterFall" where
  "view_edges w = w\<lparr>lowerFreq := (centerFreq w + viewOffset w) - viewBandwidth w / 2,
                    upperFreq := (centerFreq w + viewOffset w) + viewBandwidth w / 2\<rparr>"

definition wf_setCenterFrequency :: "WaterFall \<Rightarrow> real \<Rightarrow> WaterFall" where
  "wf_setCenterFrequency w freq = view_edges (w\<lparr>centerFreq := freq\<rparr>)"

definition wf_setViewOffset :: "WaterFall \<Rightarrow> real \<Rightarrow> WaterFall" where
  "wf_setViewOffset w offset =
     (if offset = viewOffset w then w
      else
        let offset = (if offset - viewBandwidth w / 2 < - (wholeBandwidth w / 2)
                      then viewBandwidth w / 2 - wholeBandwidth w / 2 else offset);
            offset = (if offset + viewBandwidth w / 2 > wholeBandwidth w / 2
                      then wholeBandwidth w / 2 - viewBandwidth w / 2 else offset)
        in view_edges (w\<lparr>viewOffset := offset\<rparr>))"

definition wf_setViewBandwidth :: "WaterFall \<Rightarrow> real \<Rightarrow> WaterFall" where
  "wf_setViewBandwidth w bandWidth =
     (if bandWidth = viewBandwidth w then w
      else
        let w1 = (if \<bar>viewOffset w\<bar> + bandWidth / 2 > wholeBandwidth w / 2 then
                    (if viewOffset w < 0 then w\<lparr>viewOffset := bandWidth / 2 - wholeBandwidth w / 2\<rparr>
                     else w\<lparr>viewOffset := wholeBandwidth w / 2 - bandWidth / 2\<rparr>)
                  else w)
        in view_edges (w1\<lparr>viewBandwidth := bandWidth\<rparr>))"

text \<open>\<open>setBandwidth\<close> moves every VFO whose edge leaves the band: \<open>clamp_vfo\<close> is the loop body.\<close>

definition clamp_vfo :: "real \<Rightarrow> WaterfallVFO \<Rightarrow> WaterfallVFO" where
  "clamp_vfo bandWidth v =
     (let v1 = (if lowerOffset v < - (bandWidth / 2) then wtf_setCenterOffset v (- (bandWidth / 2)) else v)
      in if upperOffset v1 > bandWidth / 2 then wtf_setCenterOffset v1 (bandWidth / 2) else v1)"

definition wf_setBandwidth :: "WaterFall \<Rightarrow> real \<Rightarrow> WaterFall" where
  "wf_setBandwidth w bandWidth =
     (let currentRatio = viewBandwidth w / wholeBandwidth w;
          w1 = wf_setViewBandwidth (w\<lparr>wholeBandwidth := bandWidth\<rparr>) (bandWidth * currentRatio)
      in w1\<lparr>vfos := (\<lambda>name. map_option (clamp_vfo bandWidth) (vfos w1 name))\<rparr>)"

definition wf_setVfoOffset :: "WaterFall \<Rightarrow> string \<Rightarrow> real \<Rightarrow> WaterFall" where
  "wf_setVfoOffset w name offset =
     (case vfos w name of None \<Rightarrow> w
      | Some v \<Rightarrow> w\<lparr>vfos := (vfos w)(name \<mapsto> vfo_setOffset v offset)\<rparr>)"

definition wf_setVfoCenterOffset :: "WaterFall \<Rightarrow> string \<Rightarrow> real \<Rightarrow> WaterFall" where
  "wf_setVfoCenterOffset w name offset =
     (case vfos w name of None \<Rightarrow> w
      | Some v \<Rightarrow> w\<lparr>vfos := (vfos w)(name \<mapsto> vfo_setCenterOffset v offset)\<rparr>)"

section \<open>The tuner\<close>

text \<open>\<open>vfoLocked\<close> and \<open>vfoToCenter\<close> are the two globals of \<open>tuner.cpp\<close>.\<close>

record Tuning =
  waterfall :: WaterFall
  source :: SourceManager
  freqSelect :: FrequencySelect
  vfoLocked :: bool
  vfoToCenter :: real
  centerFreqMoved :: bool

definition set_center :: "Tuning \<Rightarrow> real \<Rightarrow> Tuning" where
  "set_center t freq = t\<lparr>waterfall := wf_setCenterFrequency (waterfall t) freq\<rparr>"

definition set_view :: "Tuning \<Rightarrow> real \<Rightarrow> Tuning" where
  "set_view t offset = t\<lparr>waterfall := wf_setViewOffset (waterfall t) offset\<rparr>"

definition set_vfo :: "Tuning \<Rightarrow> string \<Rightarrow> real \<Rightarrow> Tuning" where
  "set_vfo t name offset = t\<lparr>waterfall := wf_setVfoOffset (waterfall t) name offset\<rparr>"

definition set_vfo_center :: "Tuning \<Rightarrow> string \<Rightarrow> real \<Rightarrow> Tuning" where
  "set_vfo_center t name offset = t\<lparr>waterfall := wf_setVfoCenterOffset (waterfall t) name offset\<rparr>"

definition set_select :: "Tuning \<Rightarrow> real \<Rightarrow> Tuning" where
  "set_select t freq = t\<lparr>freqSelect := fs_setFrequency (freqSelect t) (trunc_int freq)\<rparr>"

definition tune_source :: "Tuning \<Rightarrow> real \<Rightarrow> Tuning" where
  "tune_source t freq = t\<lparr>source := src_tune (source t) freq\<rparr>"

text \<open>The pointer \<open>vfo\<close> of the source names the entry of the map: it is read again after a change.\<close>

definition vfo_center_of :: "Tuning \<Rightarrow> string \<Rightarrow> real" where
  "vfo_center_of t name = (case vfos (waterfall t) name of None \<Rightarrow> 0 | Some v \<Rightarrow> centerOffset v)"

definition panadapterTuning :: "Tuning \<Rightarrow> string \<Rightarrow> real \<Rightarrow> real \<Rightarrow> Tuning" where
  "panadapterTuning t vfoName freq offset =
     (let BW = wholeBandwidth (waterfall t); viewBW = viewBandwidth (waterfall t);
          t = set_vfo t vfoName offset;
          t = set_view t (BW / 2 - viewBW / 2);
          centerFr = freq - offset;
          t = set_center t centerFr;
          t = set_view t (vfo_center_of t vfoName);
          t = set_select t freq
      in tune_source t centerFr)"

definition centerTuning :: "Tuning \<Rightarrow> string \<Rightarrow> real \<Rightarrow> Tuning" where
  "centerTuning t vfoName freq =
     (let rest = (\<lambda>t.
            let BW = wholeBandwidth (waterfall t); viewBW = viewBandwidth (waterfall t);
                t = set_view t (BW / 2 - viewBW / 2);
                t = set_center t freq;
                t = set_view t 0;
                t = set_select t freq
            in tune_source t freq)
      in if vfoName \<noteq> [] then
           (case vfos (waterfall t) vfoName of
              None \<Rightarrow> t
            | Some vfo \<Rightarrow>
                if vfoLocked t then panadapterTuning t vfoName freq (vfoToCenter t)
                else rest (set_vfo t vfoName 0))
         else rest t)"

definition normalTuningFree :: "Tuning \<Rightarrow> string \<Rightarrow> WaterfallVFO \<Rightarrow> real \<Rightarrow> Tuning" where
  "normalTuningFree t vfoName vfo freq =
     (let viewBW = viewBandwidth (waterfall t); BW = wholeBandwidth (waterfall t);
          currentOff = centerOffset vfo;
          currentTune = centerFreq (waterfall t) + generalOffset vfo;
          delta = freq - currentTune;
          newVFO = currentOff + delta;
          vfoBW = bandwidth vfo;
          vfoBottom = newVFO - vfoBW / 2; vfoTop = newVFO + vfoBW / 2;
          view = viewOffset (waterfall t);
          viewBottom = view - viewBW / 2; viewTop = view + viewBW / 2;
          bottom = - (BW / 2); top = BW / 2
      in
      if vfoBottom > viewBottom \<and> vfoTop < viewTop then set_vfo_center t vfoName newVFO
      else if vfoBottom < bottom then
        let t = set_view t (BW / 2 - viewBW / 2);
            newVFOOffset = BW / 2 - vfoBW / 2 - viewBW / 10;
            t = set_vfo t vfoName newVFOOffset;
            t = set_center t (freq - newVFOOffset)
        in tune_source t (freq - newVFOOffset)
      else if vfoTop > top then
        let t = set_view t (viewBW / 2 - BW / 2);
            newVFOOffset = vfoBW / 2 - BW / 2 + viewBW / 10;
            t = set_vfo t vfoName newVFOOffset;
            t = set_center t (freq - newVFOOffset)
        in tune_source t (freq - newVFOOffset)
      else if delta < 0 then
        let newViewOff = vfoTop - viewBW / 2 + viewBW / 10;
            newViewBottom = newViewOff - viewBW / 2
        in if newViewBottom > bottom then set_vfo_center (set_view t newViewOff) vfoName newVFO
           else
             let t = set_view t (BW / 2 - viewBW / 2);
                 newVFOOffset = BW / 2 - vfoBW / 2 - viewBW / 10;
                 t = set_vfo_center t vfoName newVFOOffset;
                 t = set_center t (freq - newVFOOffset)
             in tune_source t (freq - newVFOOffset)
      else
        let newViewOff = vfoBottom + viewBW / 2 - viewBW / 10;
            newViewTop = newViewOff + viewBW / 2
        in if newViewTop < top then set_vfo_center (set_view t newViewOff) vfoName newVFO
           else
             let t = set_view t (viewBW / 2 - BW / 2);
                 newVFOOffset = vfoBW / 2 - BW / 2 + viewBW / 10;
                 t = set_vfo_center t vfoName newVFOOffset;
                 t = set_center t (freq - newVFOOffset)
             in tune_source t (freq - newVFOOffset))"

definition normalTuning :: "Tuning \<Rightarrow> string \<Rightarrow> real \<Rightarrow> Tuning" where
  "normalTuning t vfoName freq =
     (if vfoName = [] then centerTuning t vfoName freq
      else case vfos (waterfall t) vfoName of
             None \<Rightarrow> t
           | Some vfo \<Rightarrow>
               if vfoLocked t then panadapterTuning t vfoName freq (vfoToCenter t)
               else normalTuningFree t vfoName vfo freq)"

definition iqTuning :: "Tuning \<Rightarrow> real \<Rightarrow> Tuning" where
  "iqTuning t freq = tune_source ((set_center t freq)\<lparr>centerFreqMoved := True\<rparr>) freq"

datatype TunerMode = TUNER_MODE_CENTER | TUNER_MODE_NORMAL | TUNER_MODE_LOWER_HALF
  | TUNER_MODE_UPPER_HALF | TUNER_MODE_IQ_ONLY

definition tuner_tune :: "Tuning \<Rightarrow> TunerMode \<Rightarrow> string \<Rightarrow> real \<Rightarrow> Tuning" where
  "tuner_tune t mode vfoName freq =
     (case mode of
        TUNER_MODE_CENTER \<Rightarrow> centerTuning t vfoName freq
      | TUNER_MODE_NORMAL \<Rightarrow> normalTuning t vfoName freq
      | TUNER_MODE_LOWER_HALF \<Rightarrow> normalTuning t vfoName freq
      | TUNER_MODE_UPPER_HALF \<Rightarrow> normalTuning t vfoName freq
      | TUNER_MODE_IQ_ONLY \<Rightarrow> iqTuning t freq)"

definition lockVFOtoCenter :: "Tuning \<Rightarrow> real \<Rightarrow> Tuning \<times> bool" where
  "lockVFOtoCenter t offsetHz =
     (if vfoLocked t \<and> vfoToCenter t = offsetHz then (t, False)
      else (t\<lparr>vfoLocked := True, vfoToCenter := offsetHz\<rparr>, True))"

definition unlockVFO :: "Tuning \<Rightarrow> Tuning" where
  "unlockVFO t = t\<lparr>vfoLocked := False, vfoToCenter := 0\<rparr>"

section \<open>Geometry: lemmas\<close>

fun reference_shift :: "VfoReference \<Rightarrow> real \<Rightarrow> real" where
  "reference_shift REF_CENTER bw = 0"
| "reference_shift REF_LOWER bw = - (bw / 2)"
| "reference_shift REF_UPPER bw = bw / 2"

definition vfo_ok :: "WaterfallVFO \<Rightarrow> bool" where
  "vfo_ok v \<longleftrightarrow> lowerOffset v = centerOffset v - bandwidth v / 2 \<and>
     upperOffset v = centerOffset v + bandwidth v / 2 \<and>
     generalOffset v = centerOffset v + reference_shift (reference v) (bandwidth v)"

lemmas vfo_op_defs = wtf_setOffset_def wtf_setCenterOffset_def wtf_setBandwidth_def
  wtf_setReference_def vfo_setOffset_def vfo_setCenterOffset_def moved_def Let_def

lemma setOffset_ok [inv_rules]: "vfo_ok (wtf_setOffset v x)"
  by (cases "reference v") (simp_all add: vfo_ok_def vfo_op_defs)

lemma setCenterOffset_ok [inv_rules]: "vfo_ok (wtf_setCenterOffset v x)"
  by (cases "reference v") (simp_all add: vfo_ok_def vfo_op_defs)

lemma setBandwidth_ok [inv_rules]: "vfo_ok v \<Longrightarrow> vfo_ok (wtf_setBandwidth v bw)"
  by (cases "reference v") (auto simp: vfo_ok_def vfo_op_defs)

lemma setBandwidth_general: "generalOffset (wtf_setBandwidth v bw) = generalOffset v"
  by (cases "reference v") (simp_all add: vfo_op_defs)

lemma setReference_ok [inv_rules]: "vfo_ok v \<Longrightarrow> vfo_ok (wtf_setReference v r)"
  by (simp add: wtf_setReference_def setOffset_ok)

lemma setReference_general: "generalOffset (wtf_setReference v r) = generalOffset v"
  by (cases r) (simp_all add: vfo_op_defs)

lemma vfo_setters [simp]:
  "generalOffset (vfo_setOffset v x) = x"
  "centerOffset (vfo_setCenterOffset v x) = x"
  "generalOffset (vfo_setCenterOffset v x) = x + reference_shift (reference v) (bandwidth v)"
  "centerOffset (vfo_setOffset v x) = x - reference_shift (reference v) (bandwidth v)"
  "bandwidth (vfo_setOffset v x) = bandwidth v" "bandwidth (vfo_setCenterOffset v x) = bandwidth v"
  "reference (vfo_setOffset v x) = reference v" "reference (vfo_setCenterOffset v x) = reference v"
  "dspOffset (vfo_setOffset v x) = centerOffset (vfo_setOffset v x)"
  "dspOffset (vfo_setCenterOffset v x) = x"
  "lowerOffset (vfo_setCenterOffset v x) = x - bandwidth v / 2"
  "upperOffset (vfo_setCenterOffset v x) = x + bandwidth v / 2"
  "lowerOffset (vfo_setOffset v x) = x - reference_shift (reference v) (bandwidth v) - bandwidth v / 2"
  "upperOffset (vfo_setOffset v x) = x - reference_shift (reference v) (bandwidth v) + bandwidth v / 2"
  "vfo_ok (vfo_setOffset v x)" "vfo_ok (vfo_setCenterOffset v x)"
  using setOffset_ok [of v x] setCenterOffset_ok [of v x]
  by (cases "reference v"; simp add: vfo_op_defs vfo_ok_def)+

section \<open>The view: lemmas\<close>

definition view_ok :: "WaterFall \<Rightarrow> bool" where
  "view_ok w \<longleftrightarrow> 0 < viewBandwidth w \<and> viewBandwidth w \<le> wholeBandwidth w \<and>
     \<bar>viewOffset w\<bar> + viewBandwidth w / 2 \<le> wholeBandwidth w / 2"

definition clamp_view :: "WaterFall \<Rightarrow> real \<Rightarrow> real" where
  "clamp_view w x = max (- ((wholeBandwidth w - viewBandwidth w) / 2))
                        (min ((wholeBandwidth w - viewBandwidth w) / 2) x)"

lemma clamp_view_bound:
  "view_ok w \<Longrightarrow> \<bar>clamp_view w x\<bar> + viewBandwidth w / 2 \<le> wholeBandwidth w / 2"
  unfolding view_ok_def clamp_view_def max_def min_def by (simp split: if_splits) argo

lemma wf_setViewOffset_simps [simp]:
  "centerFreq (wf_setViewOffset w x) = centerFreq w"
  "viewBandwidth (wf_setViewOffset w x) = viewBandwidth w"
  "wholeBandwidth (wf_setViewOffset w x) = wholeBandwidth w"
  "vfos (wf_setViewOffset w x) = vfos w"
  by (simp_all add: wf_setViewOffset_def view_edges_def Let_def)

lemma viewOffset_setViewOffset:
  "view_ok w \<Longrightarrow> viewOffset (wf_setViewOffset w x) = clamp_view w x"
  by (auto simp: wf_setViewOffset_def view_edges_def Let_def clamp_view_def view_ok_def field_simps)

lemma view_ok_setViewOffset [inv_rules]: "view_ok w \<Longrightarrow> view_ok (wf_setViewOffset w x)"
  using viewOffset_setViewOffset [of w x] clamp_view_bound [of w x] by (simp add: view_ok_def)

lemma wf_center_simps [simp]:
  "centerFreq (wf_setCenterFrequency w f) = f"
  "viewBandwidth (wf_setCenterFrequency w f) = viewBandwidth w"
  "wholeBandwidth (wf_setCenterFrequency w f) = wholeBandwidth w"
  "viewOffset (wf_setCenterFrequency w f) = viewOffset w"
  "vfos (wf_setCenterFrequency w f) = vfos w"
  by (simp_all add: wf_setCenterFrequency_def view_edges_def)

lemma wf_vfo_simps [simp]:
  "centerFreq (wf_setVfoOffset w n x) = centerFreq w"
  "viewBandwidth (wf_setVfoOffset w n x) = viewBandwidth w"
  "wholeBandwidth (wf_setVfoOffset w n x) = wholeBandwidth w"
  "viewOffset (wf_setVfoOffset w n x) = viewOffset w"
  "centerFreq (wf_setVfoCenterOffset w n x) = centerFreq w"
  "viewBandwidth (wf_setVfoCenterOffset w n x) = viewBandwidth w"
  "wholeBandwidth (wf_setVfoCenterOffset w n x) = wholeBandwidth w"
  "viewOffset (wf_setVfoCenterOffset w n x) = viewOffset w"
  by (simp_all add: wf_setVfoOffset_def wf_setVfoCenterOffset_def split: option.split)

lemma vfos_setVfo [simp]:
  "vfos w n = Some v \<Longrightarrow> vfos (wf_setVfoOffset w n x) = (vfos w)(n \<mapsto> vfo_setOffset v x)"
  "vfos w n = Some v \<Longrightarrow> vfos (wf_setVfoCenterOffset w n x) = (vfos w)(n \<mapsto> vfo_setCenterOffset v x)"
  by (simp_all add: wf_setVfoOffset_def wf_setVfoCenterOffset_def)

lemmas tuning_step_defs = set_center_def set_view_def set_vfo_def set_vfo_center_def set_select_def
  tune_source_def

lemma src_tune_simps [simp]:
  "handlerSelected (src_tune m f) = handlerSelected m"
  "currentFreq (src_tune m f) = (if handlerSelected m then f else currentFreq m)"
  "tuneOffset (src_tune m f) = tuneOffset m" "tuneMode (src_tune m f) = tuneMode m"
  "ifFreq (src_tune m f) = ifFreq m"
  "tuningLimitEnabled (src_tune m f) = tuningLimitEnabled m"
  "tuningLimitMin (src_tune m f) = tuningLimitMin m"
  "tuningLimitMax (src_tune m f) = tuningLimitMax m"
  "serverMode (src_tune m f) = serverMode m" "serverLimits (src_tune m f) = serverLimits m"
  by (simp_all add: src_tune_def)

section \<open>Normal tuning: lemmas\<close>

text \<open>What tuning must achieve: the VFO stands at \<open>freq\<close>, inside the view and the band, and the
  hardware follows the centre.\<close>

definition vfo_at_freq :: "Tuning \<Rightarrow> string \<Rightarrow> real \<Rightarrow> bool" where
  "vfo_at_freq t name freq \<longleftrightarrow> (\<exists>v :: WaterfallVFO. vfos (waterfall t) name = Some v \<and> vfo_ok v \<and>
     dspOffset v = centerOffset v \<and> centerFreq (waterfall t) + generalOffset v = freq)"

definition vfo_in_view :: "Tuning \<Rightarrow> string \<Rightarrow> bool" where
  "vfo_in_view t name \<longleftrightarrow> (\<exists>v :: WaterfallVFO. vfos (waterfall t) name = Some v \<and>
     viewOffset (waterfall t) - viewBandwidth (waterfall t) / 2 \<le> lowerOffset v \<and>
     upperOffset v \<le> viewOffset (waterfall t) + viewBandwidth (waterfall t) / 2)"

definition others_kept :: "Tuning \<Rightarrow> Tuning \<Rightarrow> string \<Rightarrow> bool" where
  "others_kept t t' name \<longleftrightarrow> (\<forall>n. n \<noteq> name \<longrightarrow> vfos (waterfall t') n = vfos (waterfall t) n)"

definition hw_follows :: "Tuning \<Rightarrow> bool" where
  "hw_follows t \<longleftrightarrow> (handlerSelected (source t) \<longrightarrow> currentFreq (source t) = centerFreq (waterfall t))"

text \<open>The two shapes of a free tuning step: the VFO moves inside the band, or the band moves.\<close>

definition move_vfo :: "Tuning \<Rightarrow> string \<Rightarrow> real \<Rightarrow> real \<Rightarrow> Tuning" where
  "move_vfo t name view newVFO = set_vfo_center (set_view t view) name newVFO"

lemma move_vfo_facts:
  assumes "vfos (waterfall t) name = Some v" "vfo_ok v" "view_ok (waterfall t)"
    and "newVFO = centerOffset v + (freq - (centerFreq (waterfall t) + generalOffset v))"
    and "clamp_view (waterfall t) view - viewBandwidth (waterfall t) / 2 \<le> newVFO - bandwidth v / 2"
    and "newVFO + bandwidth v / 2 \<le> clamp_view (waterfall t) view + viewBandwidth (waterfall t) / 2"
    and "hw_follows t"
  shows "vfo_at_freq (move_vfo t name view newVFO) name freq \<and> vfo_in_view (move_vfo t name view newVFO) name \<and>
    others_kept t (move_vfo t name view newVFO) name \<and> hw_follows (move_vfo t name view newVFO) \<and>
    view_ok (waterfall (move_vfo t name view newVFO))"
  using assms viewOffset_setViewOffset [OF assms(3), of view] view_ok_setViewOffset [OF assms(3), of view]
  unfolding vfo_at_freq_def vfo_in_view_def others_kept_def hw_follows_def move_vfo_def tuning_step_defs
  by (simp add: view_ok_def vfo_ok_def [of v])

definition tuning_goal :: "Tuning \<Rightarrow> string \<Rightarrow> real \<Rightarrow> Tuning \<Rightarrow> bool" where
  "tuning_goal t name freq t' \<longleftrightarrow> vfo_at_freq t' name freq \<and> vfo_in_view t' name \<and>
     others_kept t t' name \<and> hw_follows t' \<and> view_ok (waterfall t')"

definition move_band :: "(Tuning \<Rightarrow> string \<Rightarrow> real \<Rightarrow> Tuning) \<Rightarrow> Tuning \<Rightarrow> string \<Rightarrow> real \<Rightarrow> real \<Rightarrow> real \<Rightarrow> Tuning" where
  "move_band setter t name freq view off =
     tune_source (set_center (setter (set_view t view) name off) (freq - off)) (freq - off)"

lemma tuning_goal_if:
  "(c \<Longrightarrow> tuning_goal t n f a) \<Longrightarrow> (\<not> c \<Longrightarrow> tuning_goal t n f b) \<Longrightarrow> tuning_goal t n f (if c then a else b)"
  by simp

lemma move_band_facts:
  assumes "vfos (waterfall t) name = Some v" "view_ok (waterfall t)" "reference v = REF_CENTER"
    and "clamp_view (waterfall t) view - viewBandwidth (waterfall t) / 2 \<le> off - bandwidth v / 2"
    and "off + bandwidth v / 2 \<le> clamp_view (waterfall t) view + viewBandwidth (waterfall t) / 2"
    and "setter = set_vfo \<or> setter = set_vfo_center"
  shows "tuning_goal t name freq (move_band setter t name freq view off)"
  using assms(6)
proof
  assume s: "setter = set_vfo"
  show ?thesis
    using assms viewOffset_setViewOffset [OF assms(2), of view] view_ok_setViewOffset [OF assms(2), of view]
    unfolding s tuning_goal_def vfo_at_freq_def vfo_in_view_def others_kept_def hw_follows_def
      move_band_def tuning_step_defs
    by (simp add: view_ok_def)
next
  assume s: "setter = set_vfo_center"
  show ?thesis
    using assms viewOffset_setViewOffset [OF assms(2), of view] view_ok_setViewOffset [OF assms(2), of view]
    unfolding s tuning_goal_def vfo_at_freq_def vfo_in_view_def others_kept_def hw_follows_def
      move_band_def tuning_step_defs
    by (simp add: view_ok_def)
qed

lemma set_view_same: "set_view t (viewOffset (waterfall t)) = t"
  by (simp add: set_view_def wf_setViewOffset_def)

lemma clamp_view_same: "view_ok w \<Longrightarrow> clamp_view w (viewOffset w) = viewOffset w"
  unfolding view_ok_def clamp_view_def max_def min_def by (simp split: if_splits) argo

lemma clamp_view_edges:
  "view_ok w \<Longrightarrow> clamp_view w (wholeBandwidth w / 2 - viewBandwidth w / 2) = wholeBandwidth w / 2 - viewBandwidth w / 2"
  "view_ok w \<Longrightarrow> clamp_view w (viewBandwidth w / 2 - wholeBandwidth w / 2) = viewBandwidth w / 2 - wholeBandwidth w / 2"
  unfolding view_ok_def clamp_view_def max_def min_def by (simp_all add: field_simps split: if_splits)

text \<open>The body of \<open>normalTuningFree\<close> over those two shapes.\<close>

lemma normalTuningFree_shapes:
  fixes t name v freq
  defines "viewBW \<equiv> viewBandwidth (waterfall t)" and "BW \<equiv> wholeBandwidth (waterfall t)"
    and "delta \<equiv> freq - (centerFreq (waterfall t) + generalOffset v)"
  defines "newVFO \<equiv> centerOffset v + delta"
  defines "lo \<equiv> newVFO - bandwidth v / 2" and "hi \<equiv> newVFO + bandwidth v / 2"
    and "up \<equiv> BW / 2 - bandwidth v / 2 - viewBW / 10" and "down \<equiv> bandwidth v / 2 - BW / 2 + viewBW / 10"
    and "view \<equiv> viewOffset (waterfall t)"
  shows "normalTuningFree t name v freq =
    (if lo > view - viewBW / 2 \<and> hi < view + viewBW / 2 then move_vfo t name view newVFO
     else if lo < - (BW / 2) then move_band set_vfo t name freq (BW / 2 - viewBW / 2) up
     else if hi > BW / 2 then move_band set_vfo t name freq (viewBW / 2 - BW / 2) down
     else if delta < 0 then
       if hi - viewBW / 2 + viewBW / 10 - viewBW / 2 > - (BW / 2)
       then move_vfo t name (hi - viewBW / 2 + viewBW / 10) newVFO
       else move_band set_vfo_center t name freq (BW / 2 - viewBW / 2) up
     else
       if lo + viewBW / 2 - viewBW / 10 + viewBW / 2 < BW / 2
       then move_vfo t name (lo + viewBW / 2 - viewBW / 10) newVFO
       else move_band set_vfo_center t name freq (viewBW / 2 - BW / 2) down)"
  unfolding normalTuningFree_def move_vfo_def move_band_def Let_def assms set_view_same by (rule refl)

text \<open>A view placed a tenth of its width beyond an edge of the VFO still holds all of it.\<close>

lemma clamp_view_high:
  assumes "view_ok w" "b \<le> 9 / 10 * viewBandwidth w" "- (wholeBandwidth w / 2) \<le> hi - b" "hi \<le> wholeBandwidth w / 2"
  shows "clamp_view w (hi - viewBandwidth w / 2 + viewBandwidth w / 10) - viewBandwidth w / 2 \<le> hi - b \<and>
         hi \<le> clamp_view w (hi - viewBandwidth w / 2 + viewBandwidth w / 10) + viewBandwidth w / 2"
  using assms unfolding view_ok_def clamp_view_def max_def min_def
  by (simp add: field_simps split: if_splits)

lemma clamp_view_low:
  assumes "view_ok w" "b \<le> 9 / 10 * viewBandwidth w" "- (wholeBandwidth w / 2) \<le> lo" "lo + b \<le> wholeBandwidth w / 2"
  shows "clamp_view w (lo + viewBandwidth w / 2 - viewBandwidth w / 10) - viewBandwidth w / 2 \<le> lo \<and>
         lo + b \<le> clamp_view w (lo + viewBandwidth w / 2 - viewBandwidth w / 10) + viewBandwidth w / 2"
  using assms unfolding view_ok_def clamp_view_def max_def min_def
  by (simp add: field_simps split: if_splits)

text \<open>
  Whatever the reference: moving the VFO, and moving the band with \<open>setOffset\<close>, put it at the frequency;
  moving the band with \<open>setCenterOffset\<close> puts its centre where its tuned point should be.
\<close>

definition tuned_at :: "Tuning \<Rightarrow> string \<Rightarrow> real \<Rightarrow> Tuning \<Rightarrow> bool" where
  "tuned_at t name freq t' \<longleftrightarrow>
     vfo_at_freq t' name freq \<and> others_kept t t' name \<and> hw_follows t' \<and> view_ok (waterfall t')"

lemma move_vfo_tuned:
  assumes "vfos (waterfall t) name = Some v" "vfo_ok v" "view_ok (waterfall t)" "hw_follows t"
    and "newVFO = centerOffset v + (freq - (centerFreq (waterfall t) + generalOffset v))"
  shows "tuned_at t name freq (move_vfo t name view newVFO)"
  using assms view_ok_setViewOffset [OF assms(3), of view]
  unfolding tuned_at_def vfo_at_freq_def others_kept_def hw_follows_def move_vfo_def tuning_step_defs
  by (simp add: view_ok_def vfo_ok_def [of v])

lemma move_band_tuned:
  assumes "vfos (waterfall t) name = Some v" "view_ok (waterfall t)"
  shows "tuned_at t name freq (move_band set_vfo t name freq view off)"
    "tuned_at t name (freq + reference_shift (reference v) (bandwidth v)) (move_band set_vfo_center t name freq view off)"
  using assms view_ok_setViewOffset [OF assms(2), of view]
  unfolding tuned_at_def vfo_at_freq_def others_kept_def hw_follows_def move_band_def tuning_step_defs
  by (simp_all add: view_ok_def)

text \<open>
  The last two branches of \<open>normalTuningFree\<close>: the VFO would leave the view, stays inside the band, and the
  view cannot follow it without leaving the band.
\<close>

definition band_recentred :: "Tuning \<Rightarrow> WaterfallVFO \<Rightarrow> real \<Rightarrow> bool" where
  "band_recentred t v freq \<longleftrightarrow>
     (let w = waterfall t; viewBW = viewBandwidth w; BW = wholeBandwidth w;
          delta = freq - (centerFreq w + generalOffset v);
          lo = centerOffset v + delta - bandwidth v / 2; hi = centerOffset v + delta + bandwidth v / 2
      in \<not> (lo > viewOffset w - viewBW / 2 \<and> hi < viewOffset w + viewBW / 2) \<and> - (BW / 2) \<le> lo \<and> hi \<le> BW / 2 \<and>
         (if delta < 0 then hi - viewBW + viewBW / 10 \<le> - (BW / 2) else BW / 2 \<le> lo + viewBW - viewBW / 10))"

definition tuning_miss :: "Tuning \<Rightarrow> WaterfallVFO \<Rightarrow> real \<Rightarrow> real" where
  "tuning_miss t v freq = (if band_recentred t v freq then reference_shift (reference v) (bandwidth v) else 0)"

lemma normalTuningFree_tuned:
  assumes v: "vfos (waterfall t) name = Some v" "vfo_ok v" and w: "view_ok (waterfall t)" "hw_follows t"
  shows "tuned_at t name (freq + tuning_miss t v freq) (normalTuningFree t name v freq)"
proof -
  note facts = move_vfo_tuned [OF v w refl, of freq] move_band_tuned [OF v(1) w(1), of freq]
  show ?thesis
  proof (cases "band_recentred t v freq")
    case True
    then show ?thesis
      using facts unfolding normalTuningFree_shapes tuning_miss_def band_recentred_def Let_def
      by (auto simp: field_simps split: if_splits)
  next
    case False
    then show ?thesis
      using facts unfolding normalTuningFree_shapes tuning_miss_def band_recentred_def Let_def
      by (auto simp: field_simps split: if_splits)
  qed
qed

lemma normalTuningFree_goal:
  assumes v: "vfos (waterfall t) name = Some v" "vfo_ok v" "reference v = REF_CENTER"
    and w: "view_ok (waterfall t)" "hw_follows t"
    and bw: "0 \<le> bandwidth v" "bandwidth v \<le> 9 / 10 * viewBandwidth (waterfall t)"
  shows "tuning_goal t name freq (normalTuningFree t name v freq)"
proof -
  let ?w = "waterfall t"
  let ?new = "centerOffset v + (freq - (centerFreq ?w + generalOffset v))"
  have mv: "clamp_view ?w view - viewBandwidth ?w / 2 \<le> ?new - bandwidth v / 2 \<Longrightarrow>
      ?new + bandwidth v / 2 \<le> clamp_view ?w view + viewBandwidth ?w / 2 \<Longrightarrow>
      tuning_goal t name freq (move_vfo t name view ?new)" for view
    unfolding tuning_goal_def by (rule move_vfo_facts [OF v(1,2) w(1) refl _ _ w(2)])
  have up: "tuning_goal t name freq (move_band setter t name freq (wholeBandwidth ?w / 2 - viewBandwidth ?w / 2)
      (wholeBandwidth ?w / 2 - bandwidth v / 2 - viewBandwidth ?w / 10))"
    if "setter = set_vfo \<or> setter = set_vfo_center" for setter
    by (rule move_band_facts [OF v(1) w(1) v(3) _ _ that]) (use w(1) bw in \<open>simp_all add: clamp_view_edges view_ok_def\<close>)
  have down: "tuning_goal t name freq (move_band setter t name freq (viewBandwidth ?w / 2 - wholeBandwidth ?w / 2)
      (bandwidth v / 2 - wholeBandwidth ?w / 2 + viewBandwidth ?w / 10))"
    if "setter = set_vfo \<or> setter = set_vfo_center" for setter
    by (rule move_band_facts [OF v(1) w(1) v(3) _ _ that]) (use w(1) bw in \<open>simp_all add: clamp_view_edges view_ok_def\<close>)
  let ?hi = "?new + bandwidth v / 2" and ?lo = "?new - bandwidth v / 2" and ?b = "viewBandwidth ?w / 2"
  have right: "tuning_goal t name freq (move_vfo t name (?hi - ?b + viewBandwidth ?w / 10) ?new)"
    if "\<not> ?lo < - (wholeBandwidth ?w / 2)" "\<not> ?hi > wholeBandwidth ?w / 2"
    using clamp_view_high [OF w(1) bw(2), of ?hi] that by (intro mv) simp_all
  have left: "tuning_goal t name freq (move_vfo t name (?lo + ?b - viewBandwidth ?w / 10) ?new)"
    if "\<not> ?lo < - (wholeBandwidth ?w / 2)" "\<not> ?hi > wholeBandwidth ?w / 2"
    using clamp_view_low [OF w(1) bw(2), of ?lo] that by (intro mv) simp_all
  have inside: "tuning_goal t name freq (move_vfo t name (viewOffset ?w) ?new)"
    if "?lo > viewOffset ?w - ?b \<and> ?hi < viewOffset ?w + ?b"
    using that by (intro mv) (simp_all add: clamp_view_same [OF w(1)])
  show ?thesis
    unfolding normalTuningFree_shapes
    by (intro tuning_goal_if; (rule inside right left up down; simp only: simp_thms))
qed

section \<open>Locked tuning: lemmas\<close>

lemma panadapterTuning_goal:
  assumes "vfos (waterfall t) name = Some v"
  shows "vfo_at_freq (panadapterTuning t name freq off) name freq \<and>
    centerFreq (waterfall (panadapterTuning t name freq off)) = freq - off \<and>
    others_kept t (panadapterTuning t name freq off) name \<and>
    source (panadapterTuning t name freq off) = src_tune (source t) (freq - off) \<and>
    hw_follows (panadapterTuning t name freq off) \<and>
    fs_frequency (freqSelect (panadapterTuning t name freq off)) = max 0 (trunc_int freq) \<and>
    vfoLocked (panadapterTuning t name freq off) = vfoLocked t \<and>
    vfoToCenter (panadapterTuning t name freq off) = vfoToCenter t"
  using assms
  by (simp add: panadapterTuning_def Let_def tuning_step_defs vfo_at_freq_def others_kept_def hw_follows_def
      fs_setFrequency_def)

section \<open>The source manager: lemmas\<close>

text \<open>
  The states of the manager and the selector after any sequence of calls, from a selected source
  that sets no limits.
\<close>

inductive source_reach :: "SourceManager \<Rightarrow> FrequencySelect \<Rightarrow> bool" where
  sr_start: "handlerSelected m \<Longrightarrow> hwTunes m = [] \<Longrightarrow> \<not> tuningLimitEnabled m \<Longrightarrow> \<not> limitFreq fs \<Longrightarrow>
    serverLimits m = [] \<Longrightarrow> source_reach m fs"
| sr_tune: "source_reach m fs \<Longrightarrow> source_reach (src_tune m freq) fs"
| sr_offset: "source_reach m fs \<Longrightarrow> setTuningOffset (m, fs) off = (m', fs') \<Longrightarrow> source_reach m' fs'"
| sr_limits: "source_reach m fs \<Longrightarrow> setTuningLimits (m, fs) lo hi = (m', fs') \<Longrightarrow> source_reach m' fs'"
| sr_clear: "source_reach m fs \<Longrightarrow> clearTuningLimits (m, fs) = (m', fs') \<Longrightarrow> source_reach m' fs'"
| sr_mode: "source_reach m fs \<Longrightarrow> source_reach (setTuningMode m mode) fs"
| sr_if: "source_reach m fs \<Longrightarrow> source_reach (setPanadapterIF m freq) fs"
| sr_select: "source_reach m fs \<Longrightarrow> source_reach m (fs_setFrequency fs n)"

definition hw_frequency :: "SourceManager \<Rightarrow> real" where
  "hw_frequency m = \<bar>if tuneMode m = TM_NORMAL then currentFreq m + tuneOffset m else ifFreq m\<bar>"

text \<open>What is in force: the selector's range on a desktop, the last limits forwarded on a server.\<close>

definition limits_in_force :: "SourceManager \<Rightarrow> FrequencySelect \<Rightarrow> bool" where
  "limits_in_force m fs \<longleftrightarrow>
     (if serverMode m
      then \<not> limitFreq fs \<and>
        (if serverLimits m = [] then \<not> tuningLimitEnabled m
         else last (serverLimits m) = (tuningLimitEnabled m, tuningLimitMin m, tuningLimitMax m))
      else serverLimits m = [] \<and> (limitFreq fs \<longleftrightarrow> tuningLimitEnabled m) \<and>
        (tuningLimitEnabled m \<longrightarrow> minFreq fs = \<lfloor>max 0 (tuningLimitMin m - tuneOffset m)\<rfloor> \<and>
           maxFreq fs = \<lfloor>max 0 (tuningLimitMax m - tuneOffset m)\<rfloor>))"

definition source_inv :: "SourceManager \<Rightarrow> FrequencySelect \<Rightarrow> bool" where
  "source_inv m fs \<longleftrightarrow> handlerSelected m \<and> (hwTunes m \<noteq> [] \<longrightarrow> last (hwTunes m) = hw_frequency m) \<and>
     limits_in_force m fs"

lemma last_hw_src_tune: "handlerSelected m \<Longrightarrow> last (hwTunes (src_tune m f)) = hw_frequency (src_tune m f)"
  by (simp add: src_tune_def hw_frequency_def)

lemma hw_frequency_limits [simp]:
  "hw_frequency (m\<lparr>tuningLimitEnabled := a\<rparr>) = hw_frequency m"
  "hw_frequency (m\<lparr>tuningLimitEnabled := a, tuningLimitMin := b, tuningLimitMax := c\<rparr>) = hw_frequency m"
  "hw_frequency (m\<lparr>serverLimits := ls\<rparr>) = hw_frequency m"
  by (simp_all add: hw_frequency_def)

text \<open>Before a change of the limits or of the offset the log and the selector must fit the mode.\<close>

definition limits_shape :: "SourceManager \<Rightarrow> FrequencySelect \<Rightarrow> bool" where
  "limits_shape m fs \<longleftrightarrow> (if serverMode m then \<not> limitFreq fs else serverLimits m = [])"

lemma limits_in_force_shape: "limits_in_force m fs \<Longrightarrow> limits_shape m fs"
  by (auto simp: limits_in_force_def limits_shape_def split: if_splits)

lemma limits_shape_updates [simp]:
  "limits_shape (m\<lparr>tuneOffset := x\<rparr>) fs = limits_shape m fs"
  "limits_shape (m\<lparr>tuningLimitEnabled := a\<rparr>) fs = limits_shape m fs"
  "limits_shape (m\<lparr>tuningLimitEnabled := a, tuningLimitMin := b, tuningLimitMax := c\<rparr>) fs = limits_shape m fs"
  by (simp_all add: limits_shape_def)

lemma applyTuningLimits_in_force:
  assumes "applyTuningLimits (m, fs) = (m', fs')" "limits_shape m fs"
  shows "limits_in_force m' fs' \<and> (\<exists>ls. m' = m\<lparr>serverLimits := ls\<rparr>)"
proof (cases "serverMode m")
  case True
  then show ?thesis using assms by (auto simp: limits_in_force_def limits_shape_def applyTuningLimits_def)
next
  case False
  then have "m' = m" using assms(1) by (auto simp: applyTuningLimits_def Let_def split: if_splits)
  then have "m' = m\<lparr>serverLimits := serverLimits m\<rparr>" by simp
  moreover have "limits_in_force m' fs'"
    using False assms by (auto simp: limits_in_force_def limits_shape_def applyTuningLimits_def Let_def max_def not_less split: if_splits)
  ultimately show ?thesis by blast
qed

lemma limits_in_force_cong:
  "tuningLimitEnabled m = tuningLimitEnabled m' \<Longrightarrow> tuningLimitMin m = tuningLimitMin m' \<Longrightarrow>
   tuningLimitMax m = tuningLimitMax m' \<Longrightarrow> tuneOffset m = tuneOffset m' \<Longrightarrow>
   serverMode m = serverMode m' \<Longrightarrow> serverLimits m = serverLimits m' \<Longrightarrow>
   limits_in_force m fs = limits_in_force m' fs"
  by (simp add: limits_in_force_def)

lemma source_inv_tune: "handlerSelected m \<Longrightarrow> limits_in_force m fs \<Longrightarrow> source_inv (src_tune m f) fs"
  unfolding source_inv_def using last_hw_src_tune limits_in_force_cong [of "src_tune m f" m fs] by simp

lemma source_reach_inv: "source_reach m fs \<Longrightarrow> source_inv m fs"
proof (induction rule: source_reach.induct)
  case (sr_start m fs)
  then show ?case by (simp add: source_inv_def limits_in_force_def)
next
  case (sr_tune m fs freq)
  then show ?case by (simp add: source_inv_tune source_inv_def [of m])
next
  case (sr_offset m fs off m' fs')
  obtain m1 fs1 where a: "applyTuningLimits (m\<lparr>tuneOffset := off\<rparr>, fs) = (m1, fs1)" by fastforce
  then have "limits_in_force m1 fs1" "handlerSelected m1"
    using applyTuningLimits_in_force [OF a] limits_in_force_shape sr_offset(3) by (auto simp: source_inv_def)
  moreover have "m' = src_tune m1 (currentFreq m1)" "fs' = fs1"
    using sr_offset(2) a by (auto simp: setTuningOffset_def)
  ultimately show ?case by (simp add: source_inv_tune)
next
  case (sr_limits m fs lo hi m' fs')
  then have a: "applyTuningLimits (m\<lparr>tuningLimitEnabled := True, tuningLimitMin := lo, tuningLimitMax := hi\<rparr>, fs) = (m', fs')"
    by (simp add: setTuningLimits_def)
  from applyTuningLimits_in_force [OF a] show ?case
    using limits_in_force_shape sr_limits(3) by (auto simp: source_inv_def)
next
  case (sr_clear m fs m' fs')
  then have a: "applyTuningLimits (m\<lparr>tuningLimitEnabled := False\<rparr>, fs) = (m', fs')"
    by (simp add: clearTuningLimits_def)
  from applyTuningLimits_in_force [OF a] show ?case
    using limits_in_force_shape sr_clear(3) by (auto simp: source_inv_def)
next
  case (sr_mode m fs mode)
  then have "limits_in_force (m\<lparr>tuneMode := mode\<rparr>) fs"
    using limits_in_force_cong [of "m\<lparr>tuneMode := mode\<rparr>" m fs] by (simp add: source_inv_def)
  with sr_mode show ?case by (simp add: setTuningMode_def Let_def source_inv_tune source_inv_def [of m])
next
  case (sr_if m fs freq)
  then have "limits_in_force (m\<lparr>ifFreq := freq\<rparr>) fs"
    using limits_in_force_cong [of "m\<lparr>ifFreq := freq\<rparr>" m fs] by (simp add: source_inv_def)
  with sr_if show ?case by (simp add: setPanadapterIF_def Let_def source_inv_tune source_inv_def [of m])
next
  case (sr_select m fs n)
  then show ?case by (simp add: source_inv_def limits_in_force_def fs_setFrequency_def Let_def)
qed

lemma limits_exact:
  assumes "limits_in_force m fs" "\<not> serverMode m" "tuningLimitEnabled m"
    and "tuningLimitMin m = of_int lo" "tuningLimitMax m = of_int hi" "tuneOffset m = of_int off"
    and "0 \<le> f" "off \<le> hi"
  shows "minFreq fs \<le> f \<and> f \<le> maxFreq fs \<longleftrightarrow> lo \<le> f + off \<and> f + off \<le> hi"
proof -
  have "max 0 (tuningLimitMin m - tuneOffset m) = of_int (max 0 (lo - off))"
    "max 0 (tuningLimitMax m - tuneOffset m) = of_int (max 0 (hi - off))"
    using assms(4-6) by (simp_all add: max_def)
  then have "minFreq fs = max 0 (lo - off)" "maxFreq fs = max 0 (hi - off)"
    using assms(1-3) by (simp_all only: limits_in_force_def floor_of_int simp_thms if_False)
  with assms(7,8) show ?thesis by auto
qed

section \<open>The selector digits: lemmas\<close>

lemma select_digits_value:
  "0 \<le> f \<Longrightarrow> foldl (\<lambda>a d. 10 * a + d) 0 (select_digits n f) = f mod 10 ^ n"
proof (induction n arbitrary: f)
  case (Suc n)
  have d: "(f - f mod 10) div 10 = f div 10" by (simp add: minus_mod_eq_mult_div)
  have "10 * (f div 10 mod 10 ^ n) + f mod 10 = f mod (10 * 10 ^ n)" by (simp add: zmod_zmult2_eq)
  with Suc.IH [of "f div 10"] Suc.prems show ?case by (simp add: d)
qed simp

lemma select_digits_shape:
  "length (select_digits n f) = n \<and> list_all (\<lambda>d. 0 \<le> d \<and> d \<le> 9) (select_digits n f)"
proof (induction n arbitrary: f)
  case (Suc n)
  have "f mod 10 < 10" by simp
  with Suc show ?case by (simp del: Suc_eq_plus1)
qed simp

section \<open>An example state\<close>

definition exampleSource :: SourceManager where
  "exampleSource = \<lparr>handlerSelected = True, tuneOffset = 0, currentFreq = 7000000, ifFreq = 0,
     tuneMode = TM_NORMAL, tuningLimitEnabled = False, tuningLimitMin = 0, tuningLimitMax = 0,
     hwTunes = [], retunes = [], serverMode = False, serverLimits = []\<rparr>"

definition exampleSelect :: FrequencySelect where
  "exampleSelect = \<lparr>fs_frequency = 7000000, fs_digits = select_digits 12 7000000, limitFreq = False,
     minFreq = 0, maxFreq = 0\<rparr>"

definition exampleVfo :: "VfoReference \<Rightarrow> WaterfallVFO" where
  "exampleVfo ref = vfo_setOffset \<lparr>generalOffset = 0, centerOffset = 0, lowerOffset = 0, upperOffset = 0,
     bandwidth = 2400, reference = ref, centerOffsetChanged = False, lowerOffsetChanged = False,
     upperOffsetChanged = False, redrawRequired = False, bandwidthChanged = False, dspOffset = 0\<rparr> 0"

definition exampleTuning :: "VfoReference \<Rightarrow> bool \<Rightarrow> real \<Rightarrow> Tuning" where
  "exampleTuning ref locked view = \<lparr>waterfall = \<lparr>centerFreq = 7000000, viewOffset = view,
     viewBandwidth = 24000, wholeBandwidth = 48000, lowerFreq = 0, upperFreq = 0,
     vfos = [''Radio'' \<mapsto> exampleVfo ref]\<rparr>, source = exampleSource, freqSelect = exampleSelect,
     vfoLocked = locked, vfoToCenter = 12000, centerFreqMoved = False\<rparr>"

text \<open>
  With a lower-edge reference, as the USB demodulator has, the two branches of free tuning that move
  the band and call \<open>setCenterOffset\<close> miss the requested frequency by half the bandwidth: here 1200 Hz.
\<close>

lemma free_tuning_side_reference:
  "\<not> vfo_at_freq (tuner_tune (exampleTuning REF_LOWER False (-12000)) TUNER_MODE_NORMAL ''Radio'' 7021000) ''Radio'' 7021000 \<and>
   vfo_at_freq (tuner_tune (exampleTuning REF_LOWER False (-12000)) TUNER_MODE_NORMAL ''Radio'' 7021000) ''Radio'' 7019800"
  by (simp add: tuner_tune_def normalTuning_def normalTuningFree_def exampleTuning_def Let_def
      tuning_step_defs vfo_at_freq_def exampleVfo_def)

section \<open>Properties\<close>

text \<open>
  C6: Free tuning, of a VFO of any reference and width. The result puts the VFO at \<open>freq + miss\<close>, keeps every
  other VFO and keeps the view inside the band; when the band had to move the hardware was tuned to the new
  centre. The miss is zero except in one case: if the VFO would leave the view, stays inside the band, and the
  view cannot follow it, the code places the centre of the VFO instead of its tuned point, so a VFO with
  a lower or upper reference (as SSB demodulators have) ends up half its bandwidth off. For a centre-referenced VFO at
  most nine tenths of the view wide the frequency is exact and the VFO lies wholly inside the visible part of the band.
\<close>

theorem tuner_free_tuning:
  assumes "vfos (waterfall t) name = Some v" "name \<noteq> []" "\<not> vfoLocked t"
    and "vfo_ok v" "view_ok (waterfall t)" "hw_follows t"
  shows "tuned_at t name (freq + tuning_miss t v freq) (tuner_tune t TUNER_MODE_NORMAL name freq) \<and>
         (tuning_miss t v freq \<noteq> 0 \<longrightarrow> reference v \<noteq> REF_CENTER \<and> band_recentred t v freq) \<and>
         (reference v = REF_CENTER \<and> 0 \<le> bandwidth v \<and> bandwidth v \<le> 9 / 10 * viewBandwidth (waterfall t) \<longrightarrow>
            tuning_goal t name freq (tuner_tune t TUNER_MODE_NORMAL name freq))"
proof -
  have e: "tuner_tune t TUNER_MODE_NORMAL name freq = normalTuningFree t name v freq"
    using assms(1-3) by (simp add: tuner_tune_def normalTuning_def)
  have "tuning_miss t v freq \<noteq> 0 \<longrightarrow> reference v \<noteq> REF_CENTER \<and> band_recentred t v freq"
    by (auto simp: tuning_miss_def)
  then show ?thesis
    unfolding e using normalTuningFree_tuned [OF assms(1,4,5,6)] normalTuningFree_goal [OF assms(1,4) _ assms(5,6)] by blast
qed

theorem tuner_free_tuning_witness:
  "tuning_goal (exampleTuning REF_CENTER False 0) ''Radio'' 7050000
     (tuner_tune (exampleTuning REF_CENTER False 0) TUNER_MODE_NORMAL ''Radio'' 7050000) \<and>
   tuned_at (exampleTuning REF_LOWER False (-12000)) ''Radio'' 7019800
     (tuner_tune (exampleTuning REF_LOWER False (-12000)) TUNER_MODE_NORMAL ''Radio'' 7021000)"
proof
  note d = exampleTuning_def exampleVfo_def view_ok_def hw_follows_def exampleSource_def
  have "tuning_goal (exampleTuning REF_CENTER False 0) ''Radio'' 7050000
      (tuner_tune (exampleTuning REF_CENTER False 0) TUNER_MODE_NORMAL ''Radio'' 7050000)"
    by (rule tuner_free_tuning [of "exampleTuning REF_CENTER False 0" "''Radio''" "exampleVfo REF_CENTER", THEN conjunct2,
          THEN conjunct2, THEN mp]) (simp_all add: d)
  then show "tuning_goal (exampleTuning REF_CENTER False 0) ''Radio'' 7050000
      (tuner_tune (exampleTuning REF_CENTER False 0) TUNER_MODE_NORMAL ''Radio'' 7050000)" .
  have "tuning_miss (exampleTuning REF_LOWER False (-12000)) (exampleVfo REF_LOWER) 7021000 = - 1200"
    by (simp add: tuning_miss_def band_recentred_def Let_def exampleTuning_def exampleVfo_def)
  moreover have "tuned_at (exampleTuning REF_LOWER False (-12000)) ''Radio''
      (7021000 + tuning_miss (exampleTuning REF_LOWER False (-12000)) (exampleVfo REF_LOWER) 7021000)
      (tuner_tune (exampleTuning REF_LOWER False (-12000)) TUNER_MODE_NORMAL ''Radio'' 7021000)"
    by (rule tuner_free_tuning [of "exampleTuning REF_LOWER False (-12000)" "''Radio''" "exampleVfo REF_LOWER", THEN conjunct1])
      (simp_all add: d)
  ultimately show "tuned_at (exampleTuning REF_LOWER False (-12000)) ''Radio'' 7019800
      (tuner_tune (exampleTuning REF_LOWER False (-12000)) TUNER_MODE_NORMAL ''Radio'' 7021000)" by simp
qed

text \<open>
  C7: Locked tuning: while the VFO is locked to the centre, tuning in either mode puts the VFO at the
  frequency whatever its reference, the centre at the locked distance below it, tunes the source to
  that centre and shows the frequency in the selector.
\<close>

theorem tuner_locked_tuning:
  assumes "vfos (waterfall t) name = Some v" "name \<noteq> []" "vfoLocked t" "mode \<noteq> TUNER_MODE_IQ_ONLY"
  shows "vfo_at_freq (tuner_tune t mode name freq) name freq \<and>
         centerFreq (waterfall (tuner_tune t mode name freq)) = freq - vfoToCenter t \<and>
         others_kept t (tuner_tune t mode name freq) name \<and>
         source (tuner_tune t mode name freq) = src_tune (source t) (freq - vfoToCenter t) \<and>
         fs_frequency (freqSelect (tuner_tune t mode name freq)) = max 0 (trunc_int freq)"
  using assms panadapterTuning_goal [OF assms(1), of freq "vfoToCenter t"]
  by (cases mode) (simp_all add: tuner_tune_def normalTuning_def centerTuning_def)

theorem tuner_locked_tuning_witness:
  "centerFreq (waterfall (tuner_tune (exampleTuning REF_LOWER True 0) TUNER_MODE_CENTER ''Radio'' 7030000)) = 7018000"
  using tuner_locked_tuning [of "exampleTuning REF_LOWER True 0" "''Radio''" "exampleVfo REF_LOWER"
      TUNER_MODE_CENTER 7030000]
  by (simp add: exampleTuning_def)

text \<open>
  C8: The source manager: after any sequence of tunings, offset, mode and limit changes the last
  frequency given to the hardware is the one the current display frequency, offset and mode call for.
  On a desktop the selector limits the frequency exactly when limits are set, and with whole-Hertz limits
  and offset it admits a display frequency exactly when the hardware frequency it stands for lies within
  the native limits; on a headless server the selector is left alone and the limits last forwarded to the
  server, in the native domain, are the current ones.
\<close>

theorem source_manager_consistent:
  assumes "source_reach m fs"
  shows "(hwTunes m \<noteq> [] \<longrightarrow> last (hwTunes m) = hw_frequency m) \<and>
         (\<not> serverMode m \<longrightarrow> (limitFreq fs \<longleftrightarrow> tuningLimitEnabled m) \<and>
           (\<forall>lo hi off f. tuningLimitEnabled m \<and> tuningLimitMin m = of_int lo \<and>
              tuningLimitMax m = of_int hi \<and> tuneOffset m = of_int off \<and> 0 \<le> f \<and> off \<le> hi \<longrightarrow>
              (minFreq fs \<le> f \<and> f \<le> maxFreq fs \<longleftrightarrow> lo \<le> f + off \<and> f + off \<le> hi))) \<and>
         (serverMode m \<longrightarrow> \<not> limitFreq fs \<and>
           (if serverLimits m = [] then \<not> tuningLimitEnabled m
            else last (serverLimits m) = (tuningLimitEnabled m, tuningLimitMin m, tuningLimitMax m)))"
proof -
  have inv: "limits_in_force m fs" using source_reach_inv [OF assms] by (simp add: source_inv_def)
  have "hwTunes m \<noteq> [] \<longrightarrow> last (hwTunes m) = hw_frequency m"
    using source_reach_inv [OF assms] by (simp add: source_inv_def)
  moreover have "\<not> serverMode m \<longrightarrow> (limitFreq fs \<longleftrightarrow> tuningLimitEnabled m)"
    using inv by (simp add: limits_in_force_def)
  moreover have "serverMode m \<longrightarrow> \<not> limitFreq fs \<and>
      (if serverLimits m = [] then \<not> tuningLimitEnabled m
       else last (serverLimits m) = (tuningLimitEnabled m, tuningLimitMin m, tuningLimitMax m))"
    using inv by (simp add: limits_in_force_def)
  ultimately show ?thesis using limits_exact [OF inv] by blast
qed

theorem source_manager_consistent_witness:
  "\<exists>m fs. setTuningLimits (exampleSource, exampleSelect) 24000 1766000 = (m, fs) \<and> limitFreq fs \<and>
     minFreq fs \<le> 24000"
proof -
  obtain m fs where st: "setTuningLimits (exampleSource, exampleSelect) 24000 1766000 = (m, fs)"
    by (cases "setTuningLimits (exampleSource, exampleSelect) 24000 1766000")
  have "source_reach exampleSource exampleSelect"
    by (rule sr_start) (simp_all add: exampleSource_def exampleSelect_def)
  note facts = source_manager_consistent [OF sr_limits [OF this st]]
  have m: "tuningLimitEnabled m" "tuningLimitMin m = of_int 24000" "tuningLimitMax m = of_int 1766000"
    "tuneOffset m = of_int 0"
    using st by (auto simp: setTuningLimits_def applyTuningLimits_def Let_def exampleSource_def)
  have sm: "\<not> serverMode m"
    using st by (auto simp: setTuningLimits_def applyTuningLimits_def Let_def exampleSource_def)
  have "minFreq fs \<le> 24000 \<and> 24000 \<le> maxFreq fs \<longleftrightarrow> 24000 \<le> 24000 + (0::int) \<and> 24000 + 0 \<le> (1766000::int)"
    by (rule facts [THEN conjunct2, THEN conjunct1, THEN mp, OF sm, THEN conjunct2, rule_format]) (simp add: m)
  then have "limitFreq fs \<and> minFreq fs \<le> 24000" using facts m(1) sm by simp
  with st show ?thesis by blast
qed

text \<open>
  The frequency selector shows what it is set to: twelve decimal digits whose value is the
  frequency modulo ten to the twelfth, negative frequencies counting as zero.
\<close>

theorem frequency_select_digits:
  "length (fs_digits (fs_setFrequency fs freq)) = 12 \<and>
   list_all (\<lambda>d. 0 \<le> d \<and> d \<le> 9) (fs_digits (fs_setFrequency fs freq)) \<and>
   foldl (\<lambda>a d. 10 * a + d) 0 (fs_digits (fs_setFrequency fs freq)) = max 0 freq mod 10 ^ 12 \<and>
   fs_frequency (fs_setFrequency fs freq) = max 0 freq"
  using select_digits_shape [of 12 "max 0 freq"] select_digits_value [of "max 0 freq" 12]
  by (simp add: fs_setFrequency_def Let_def del: select_digits.simps)

text \<open>
  The geometry of a VFO: lower edge, upper edge, centre and tuned point keep their relation under
  every setter, and changing the bandwidth or the reference keeps the tuned point.
\<close>

theorem vfo_geometry:
  assumes "vfo_ok v"
  shows "vfo_ok (wtf_setOffset v x) \<and> generalOffset (wtf_setOffset v x) = x \<and>
         vfo_ok (wtf_setCenterOffset v x) \<and> centerOffset (wtf_setCenterOffset v x) = x \<and>
         vfo_ok (wtf_setBandwidth v bw) \<and> generalOffset (wtf_setBandwidth v bw) = generalOffset v \<and>
         vfo_ok (wtf_setReference v r) \<and> generalOffset (wtf_setReference v r) = generalOffset v"
  using assms vfo_setters(1) [of v x] vfo_setters(2) [of v x]
  by (simp add: inv_rules setBandwidth_general setReference_general vfo_setOffset_def vfo_setCenterOffset_def Let_def)

theorem vfo_geometry_witness:
  "vfo_ok (wtf_setBandwidth (exampleVfo REF_UPPER) 500)"
  using vfo_geometry [of "exampleVfo REF_UPPER" 0 500 REF_LOWER] by (simp add: exampleVfo_def)

end
