(* ===== verification/FreqModeSync.thy ===== *)
theory FreqModeSync
  imports QmxParser Tuner RadioModes
begin

text \<open>
  The bidirectional frequency and mode synchronization of the QMX source
  (\<open>source_modules/qmx_source/src/FreqModeSync.cpp\<close>) with the tuner it drives and the callback the
  source manager makes into it.

  The surroundings are part of the state: the tuner with its waterfall and source manager, the
  selected VFO, the demodulator mode of the radio module behind it (-1 when the VFO has none or does
  not answer) and the commands the transceiver accepted. Whether the device accepts a command is the
  parameter \<open>ok\<close>. The QMX module is the selected source, so every frequency the source manager hands
  to its source reaches \<open>onIqCenterChanged\<close>; the call sits at the end of every tuning operation.
\<close>

section \<open>Frequency model\<close>

definition kQmxIfOffsetHz :: real where "kQmxIfOffsetHz = 12000"
definition kQmxDefaultCwOffsetHz :: real where "kQmxDefaultCwOffsetHz = 700"

definition qmxRigToIqOffset :: "QmxStatus \<Rightarrow> real" where
  "qmxRigToIqOffset st =
     (let cw = (if hasFlag st Flag_CwOffset then of_int (cwOffsetHz st) else kQmxDefaultCwOffsetHz);
          offset = kQmxIfOffsetHz
      in if \<not> hasFlag st Flag_Mode then offset
         else case qmode st of
                QMX_CW \<Rightarrow> offset + cw
              | QMX_CWR \<Rightarrow> offset - cw
              | _ \<Rightarrow> offset)"

definition rigFrequencyToCenterFrequency :: "int \<Rightarrow> QmxStatus \<Rightarrow> real" where
  "rigFrequencyToCenterFrequency rigFreq st = of_int rigFreq - qmxRigToIqOffset st"

definition centerFrequencyToRigFrequency :: "real \<Rightarrow> QmxStatus \<Rightarrow> int" where
  "centerFrequencyToRigFrequency centerFr st = round_away (centerFr + qmxRigToIqOffset st)"

definition effectiveReceiveRigFrequency :: "QmxStatus \<Rightarrow> int" where
  "effectiveReceiveRigFrequency st =
     (if hasFlag st Flag_Rit \<and> hasFlag st Flag_RitEnabled \<and> ritEnabled st
      then frequency st + ritHz st else frequency st)"

definition qmxModeToRadioIface :: "QmxMode \<Rightarrow> int" where
  "qmxModeToRadioIface mode =
     (case mode of
        QMX_LSB \<Rightarrow> RADIO_IFACE_MODE_LSB
      | QMX_USB \<Rightarrow> RADIO_IFACE_MODE_USB
      | QMX_CW \<Rightarrow> RADIO_IFACE_MODE_CW
      | QMX_CWR \<Rightarrow> RADIO_IFACE_MODE_CWR
      | QMX_AM \<Rightarrow> RADIO_IFACE_MODE_AM
      | _ \<Rightarrow> -1)"

definition radioIfaceToQmxMode :: "int \<Rightarrow> QmxMode" where
  "radioIfaceToQmxMode radio =
     (if radio = RADIO_IFACE_MODE_LSB then QMX_LSB
      else if radio = RADIO_IFACE_MODE_USB then QMX_USB
      else if radio = RADIO_IFACE_MODE_CW then QMX_CW
      else if radio = RADIO_IFACE_MODE_CWR then QMX_CWR
      else if radio = RADIO_IFACE_MODE_AM then QMX_AM
      else QMX_UNKNOWN)"

section \<open>State\<close>

datatype RigCommand = RigFrequency int int | RigMode QmxMode

record FreqModeSync =
  running :: bool
  iqCenterFreq :: real
  syncVfo :: bool
  pendingStatus :: QmxStatus
  hasPendingStatus :: bool
  cachedStatus :: QmxStatus
  tuning :: Tuning
  selectedVFO :: string
  radioMode :: int
  mainModeNormal :: bool
  vfoMoveSingleClick :: bool
  rigCommands :: "RigCommand list"

definition transmitting :: "QmxStatus \<Rightarrow> bool" where
  "transmitting st \<longleftrightarrow> hasFlag st Flag_Transmit \<and> transmit st"

section \<open>Operations\<close>

definition sync_lock :: "FreqModeSync \<Rightarrow> real \<Rightarrow> FreqModeSync \<times> bool" where
  "sync_lock s off = (let (t, changed) = lockVFOtoCenter (tuning s) off in (s\<lparr>tuning := t\<rparr>, changed))"

definition sync_start :: "FreqModeSync \<Rightarrow> bool \<Rightarrow> FreqModeSync" where
  "sync_start s sv =
     (let s1 = s\<lparr>pendingStatus := emptyStatus, hasPendingStatus := False, cachedStatus := emptyStatus,
                 iqCenterFreq := -1, syncVfo := sv, running := True\<rparr>
      in if sv then fst (sync_lock s1 kQmxIfOffsetHz) else s1)"

definition sync_stop :: "FreqModeSync \<Rightarrow> FreqModeSync" where
  "sync_stop s = s\<lparr>running := False, pendingStatus := emptyStatus, hasPendingStatus := False,
     cachedStatus := emptyStatus, tuning := unlockVFO (tuning s)\<rparr>"

definition setSyncVfo :: "FreqModeSync \<Rightarrow> bool \<Rightarrow> FreqModeSync" where
  "setSyncVfo s enabled =
     (let s1 = s\<lparr>syncVfo := enabled\<rparr>
      in if enabled then
           (if hasFlag (cachedStatus s) Flag_Mode
            then fst (sync_lock s1 (qmxRigToIqOffset (cachedStatus s))) else s1)
         else s1\<lparr>tuning := unlockVFO (tuning s1)\<rparr>)"

definition onIqCenterChanged :: "(RigCommand \<Rightarrow> bool) \<Rightarrow> FreqModeSync \<Rightarrow> real \<Rightarrow> FreqModeSync" where
  "onIqCenterChanged ok s newFreq =
     (let st = cachedStatus s in
      if iqCenterFreq s = newFreq then s
      else if \<not> running s \<or> \<not> hasFlag st Flag_Frequency \<or> transmitting st then s
      else
        let s1 = s\<lparr>iqCenterFreq := newFreq\<rparr>;
            newRigFreq = centerFrequencyToRigFrequency newFreq st;
            curRigFreq = effectiveReceiveRigFrequency st
        in if newRigFreq = curRigFreq then s1
           else
             let rx = (if hasFlag st Flag_RxVfo then rxVfo st else 0);
                 cmd = RigFrequency newRigFreq rx
             in if \<not> ok cmd then s1
                else s1\<lparr>rigCommands := rigCommands s1 @ [cmd],
                        cachedStatus := setFlag (st\<lparr>frequency := newRigFreq\<rparr>) Flag_Frequency True,
                        pendingStatus := clearFlag (pendingStatus s) Flag_Frequency\<rparr>)"

definition onStatusReceived :: "FreqModeSync \<Rightarrow> QmxStatus \<Rightarrow> FreqModeSync" where
  "onStatusReceived s st = s\<lparr>pendingStatus := st, hasPendingStatus := True\<rparr>"

text \<open>\<open>tuner::tune\<close>, with the callbacks the source manager makes into the synchronizer.\<close>

definition sync_tune :: "(RigCommand \<Rightarrow> bool) \<Rightarrow> FreqModeSync \<Rightarrow> TunerMode \<Rightarrow> string \<Rightarrow> real \<Rightarrow> FreqModeSync" where
  "sync_tune ok s mode name freq =
     (let t' = tuner_tune (tuning s) mode name freq;
          calls = drop (length (hwTunes (source (tuning s)))) (hwTunes (source t'))
      in foldl (onIqCenterChanged ok) (s\<lparr>tuning := t'\<rparr>) calls)"

text \<open>First part of \<open>tick\<close>: a delivered status is merged into the cache.\<close>

definition tick_status :: "FreqModeSync \<Rightarrow> FreqModeSync \<times> QmxStatusFlags" where
  "tick_status s =
     (if hasPendingStatus s then
        let delivered = flags (pendingStatus s);
            update = (if delivered \<noteq> 0 then updated_with (cachedStatus s) (pendingStatus s) else 0);
            s1 = (if update \<noteq> 0
                  then s\<lparr>cachedStatus := merge_status (cachedStatus s) (pendingStatus s)\<rparr> else s)
        in (s1\<lparr>hasPendingStatus := False\<rparr>, update)
      else (s, 0))"

text \<open>Second part: a new frequency of the rig moves the receiver.\<close>

definition tick_frequency :: "(RigCommand \<Rightarrow> bool) \<Rightarrow> FreqModeSync \<Rightarrow> QmxStatusFlags \<Rightarrow> FreqModeSync" where
  "tick_frequency ok s update =
     (let st = cachedStatus s in
      if update AND qmxStatusFlagMask Flag_Frequency \<noteq> 0 \<and> \<not> transmitting st then
        let rigFreq = effectiveReceiveRigFrequency st;
            centerFr = rigFrequencyToCenterFrequency rigFreq st
        in if round_away (iqCenterFreq s) \<noteq> round_away centerFr then
             (let vfoName = selectedVFO s;
                  vfo = (if syncVfo s \<and> vfoName \<noteq> [] then vfos (waterfall (tuning s)) vfoName else None)
              in case vfo of
                   Some v \<Rightarrow>
                     let vfoAbsFreq = centerFreq (waterfall (tuning s)) + generalOffset v in
                     if round_away vfoAbsFreq \<noteq> rigFreq
                     then sync_tune ok (fst (sync_lock s (qmxRigToIqOffset st))) TUNER_MODE_NORMAL vfoName (of_int rigFreq)
                     else sync_tune ok s TUNER_MODE_IQ_ONLY [] centerFr
                 | None \<Rightarrow> sync_tune ok s TUNER_MODE_IQ_ONLY [] centerFr)
           else s
      else s)"

text \<open>\<open>QmxDevice::setMode\<close>: a mode without a command is refused.\<close>

definition device_setMode :: "(RigCommand \<Rightarrow> bool) \<Rightarrow> QmxMode \<Rightarrow> bool" where
  "device_setMode ok m \<longleftrightarrow> encodeModeCommand m \<noteq> None \<and> ok (RigMode m)"

text \<open>
  Third part: the mode of the radio module and the mode of the rig. \<open>sync_user_mode\<close> is the branch
  for a mode the user chose.
\<close>

definition sync_user_mode :: "(RigCommand \<Rightarrow> bool) \<Rightarrow> FreqModeSync \<Rightarrow> FreqModeSync" where
  "sync_user_mode ok s =
     (let st = setFlag ((cachedStatus s)\<lparr>qmode := radioIfaceToQmxMode (radioMode s)\<rparr>) Flag_Mode True;
          s1 = s\<lparr>cachedStatus := st\<rparr>
      in if \<not> device_setMode ok (qmode st) then s1\<lparr>radioMode := radioMode s\<rparr>
         else
           let s2 = s1\<lparr>rigCommands := rigCommands s1 @ [RigMode (qmode st)],
                       pendingStatus := clearFlag (pendingStatus s1) Flag_Mode\<rparr>;
               (s3, changed) = sync_lock s2 (qmxRigToIqOffset st)
           in if changed \<and> hasFlag st Flag_Frequency
              then sync_tune ok s3 TUNER_MODE_NORMAL (selectedVFO s) (of_int (effectiveReceiveRigFrequency st))
              else s3)"

definition tick_mode :: "(RigCommand \<Rightarrow> bool) \<Rightarrow> FreqModeSync \<Rightarrow> QmxStatusFlags \<Rightarrow> FreqModeSync" where
  "tick_mode ok s update =
     (let st = cachedStatus s; vfoName = selectedVFO s in
      if syncVfo s \<and> hasFlag st Flag_Mode \<and> vfoName \<noteq> [] \<and> vfos (waterfall (tuning s)) vfoName \<noteq> None then
        let targetMode = qmxModeToRadioIface (qmode st); currentRadioMode = radioMode s in
        if targetMode \<ge> 0 \<and> currentRadioMode \<ge> 0 \<and> currentRadioMode \<noteq> targetMode then
          if update AND qmxStatusFlagMask Flag_Mode \<noteq> 0
          then (fst (sync_lock s (qmxRigToIqOffset st)))\<lparr>radioMode := targetMode\<rparr>
          else if currentRadioMode = RADIO_IFACE_MODE_CW \<or> currentRadioMode = RADIO_IFACE_MODE_CWR then
            (if hasFlag st Flag_CwOffset then
               let target = (if cwOffsetHz st > 0 then RADIO_IFACE_MODE_CW else RADIO_IFACE_MODE_CWR)
               in if currentRadioMode \<noteq> target then s\<lparr>radioMode := target\<rparr> else sync_user_mode ok s
             else s)
          else sync_user_mode ok s
        else s
      else s)"

definition sync_tick :: "(RigCommand \<Rightarrow> bool) \<Rightarrow> FreqModeSync \<Rightarrow> FreqModeSync" where
  "sync_tick ok s =
     (if \<not> running s then s
      else
        let s1 = (if mainModeNormal s then s\<lparr>vfoMoveSingleClick := syncVfo s\<rparr> else s);
            (s2, update) = tick_status s1;
            s3 = tick_frequency ok s2 update
        in tick_mode ok s3 update)"

section \<open>Frequency model: lemmas\<close>

lemma center_rig_inverse: "centerFrequencyToRigFrequency (rigFrequencyToCenterFrequency f st) st = f"
  by (simp add: centerFrequencyToRigFrequency_def rigFrequencyToCenterFrequency_def)

lemma rig_center_error: "\<bar>rigFrequencyToCenterFrequency (centerFrequencyToRigFrequency c st) st - c\<bar> \<le> 1 / 2"
  using round_away_error [of "c + qmxRigToIqOffset st"]
  by (simp add: centerFrequencyToRigFrequency_def rigFrequencyToCenterFrequency_def algebra_simps)

lemma mode_map_inverse:
  "if qmxModeToRadioIface m \<ge> 0 then radioIfaceToQmxMode (qmxModeToRadioIface m) = m
   else m \<in> {QMX_UNKNOWN, QMX_FM, QMX_FSK, QMX_FSKR}"
  by (cases m) (simp_all add: qmxModeToRadioIface_def radioIfaceToQmxMode_def mode_defs)

definition tunable :: "QmxStatus \<Rightarrow> bool" where
  "tunable st \<longleftrightarrow> 12000 + max 700 \<bar>cwOffsetHz st\<bar> \<le> effectiveReceiveRigFrequency st"

lemma offset_bound: "qmxRigToIqOffset st \<le> 12700 \<or> qmxRigToIqOffset st \<le> of_int (12000 + \<bar>cwOffsetHz st\<bar>)"
  by (simp add: qmxRigToIqOffset_def kQmxIfOffsetHz_def kQmxDefaultCwOffsetHz_def Let_def
      abs_ge_self abs_ge_minus_self split: QmxMode.split)

lemma tunable_center: "tunable st \<Longrightarrow> 0 \<le> rigFrequencyToCenterFrequency (effectiveReceiveRigFrequency st) st"
proof -
  assume "tunable st"
  then have "12000 + \<bar>cwOffsetHz st\<bar> \<le> effectiveReceiveRigFrequency st" "12700 \<le> effectiveReceiveRigFrequency st"
    by (simp_all add: tunable_def)
  then have "of_int (12000 + \<bar>cwOffsetHz st\<bar>) \<le> (of_int (effectiveReceiveRigFrequency st) :: real) \<and>
    real_of_int 12700 \<le> of_int (effectiveReceiveRigFrequency st)"
    unfolding of_int_le_iff by blast
  with offset_bound [of st] show ?thesis unfolding rigFrequencyToCenterFrequency_def by linarith
qed

lemma hasFlag_qmode [simp]: "hasFlag (st\<lparr>qmode := m\<rparr>) f = hasFlag st f" "hasFlag (st\<lparr>frequency := n\<rparr>) f = hasFlag st f"
  by (simp_all add: hasFlag_bit)

lemma setFlag_fields [simp]:
  "frequency (setFlag st f e) = frequency st" "ritEnabled (setFlag st f e) = ritEnabled st"
  "ritHz (setFlag st f e) = ritHz st" "cwOffsetHz (setFlag st f e) = cwOffsetHz st"
  "qmode (setFlag st f e) = qmode st" "transmit (setFlag st f e) = transmit st"
  by (simp_all add: setFlag_def)

lemma effective_mode [simp]:
  "effectiveReceiveRigFrequency (setFlag (st\<lparr>qmode := m\<rparr>) Flag_Mode True) = effectiveReceiveRigFrequency st"
  by (simp add: effectiveReceiveRigFrequency_def)

lemma tunable_mode: "tunable (setFlag (st\<lparr>qmode := m\<rparr>) Flag_Mode True) = tunable st"
  by (simp add: tunable_def)

section \<open>The callback: lemmas\<close>

text \<open>The parts of the state a callback must leave alone for the loop to be silent.\<close>

definition quiet :: "FreqModeSync \<Rightarrow> FreqModeSync \<Rightarrow> bool" where
  "quiet s s' \<longleftrightarrow> rigCommands s' = rigCommands s \<and> cachedStatus s' = cachedStatus s \<and>
     pendingStatus s' = pendingStatus s \<and> radioMode s' = radioMode s \<and> selectedVFO s' = selectedVFO s \<and>
     syncVfo s' = syncVfo s \<and> running s' = running s"

lemma quiet_refl [simp]: "quiet s s"
  by (simp add: quiet_def)

lemma quiet_trans: "quiet a b \<Longrightarrow> quiet b c \<Longrightarrow> quiet a c"
  by (simp add: quiet_def)

lemma quiet_tuning [simp]: "quiet s (s\<lparr>tuning := t\<rparr>)"
  by (simp add: quiet_def)

lemma callback_quiet:
  assumes "c = rigFrequencyToCenterFrequency (effectiveReceiveRigFrequency (cachedStatus s)) (cachedStatus s)"
  shows "quiet s (onIqCenterChanged ok s c) \<and> tuning (onIqCenterChanged ok s c) = tuning s"
  using assms by (simp add: onIqCenterChanged_def Let_def center_rig_inverse quiet_def)

definition direct_source :: "Tuning \<Rightarrow> bool" where
  "direct_source t \<longleftrightarrow> handlerSelected (source t) \<and> tuneMode (source t) = TM_NORMAL \<and> tuneOffset (source t) = 0"

lemma src_tune_direct:
  "direct_source t \<Longrightarrow> 0 \<le> c \<Longrightarrow> hwTunes (src_tune (source t) c) = hwTunes (source t) @ [c]"
  by (simp add: direct_source_def src_tune_def)

lemma sync_tune_one:
  assumes "direct_source (tuning s)" "0 \<le> c" "source (tuner_tune (tuning s) mode name freq) = src_tune (source (tuning s)) c"
  shows "sync_tune ok s mode name freq = onIqCenterChanged ok (s\<lparr>tuning := tuner_tune (tuning s) mode name freq\<rparr>) c"
  using assms by (simp add: sync_tune_def src_tune_direct Let_def)

lemma direct_source_src_tune:
  "direct_source t \<Longrightarrow> source t' = src_tune (source t) c \<Longrightarrow> direct_source t'"
  by (simp add: direct_source_def)

lemma sync_tune_quiet:
  assumes src: "direct_source (tuning s)" and tun: "tunable (cachedStatus s)"
    and c: "c = rigFrequencyToCenterFrequency (effectiveReceiveRigFrequency (cachedStatus s)) (cachedStatus s)"
    and tuned: "source (tuner_tune (tuning s) mode name freq) = src_tune (source (tuning s)) c"
  shows "quiet s (sync_tune ok s mode name freq) \<and> direct_source (tuning (sync_tune ok s mode name freq))"
proof -
  let ?s = "s\<lparr>tuning := tuner_tune (tuning s) mode name freq\<rparr>"
  have "sync_tune ok s mode name freq = onIqCenterChanged ok ?s c"
    using tunable_center [OF tun] c by (intro sync_tune_one [OF src _ tuned]) simp
  moreover have "quiet ?s (onIqCenterChanged ok ?s c) \<and> tuning (onIqCenterChanged ok ?s c) = tuning ?s"
    using c by (intro callback_quiet) simp
  ultimately show ?thesis
    using quiet_trans [OF quiet_tuning [of s "tuner_tune (tuning s) mode name freq"]]
      direct_source_src_tune [OF src tuned] by simp
qed

lemma source_iq: "source (tuner_tune t TUNER_MODE_IQ_ONLY name freq) = src_tune (source t) freq"
  by (simp add: tuner_tune_def iqTuning_def tuning_step_defs)

lemma source_locked:
  "vfoLocked t \<Longrightarrow> name \<noteq> [] \<Longrightarrow> vfos (waterfall t) name = Some v \<Longrightarrow>
   source (tuner_tune t TUNER_MODE_NORMAL name freq) = src_tune (source t) (freq - vfoToCenter t)"
  using panadapterTuning_goal [of t name v freq "vfoToCenter t"] by (simp add: tuner_tune_def normalTuning_def)

lemma sync_lock_facts [simp]:
  "quiet s (fst (sync_lock s off))" "vfoLocked (tuning (fst (sync_lock s off)))"
  "vfoToCenter (tuning (fst (sync_lock s off))) = off"
  "source (tuning (fst (sync_lock s off))) = source (tuning s)"
  "waterfall (tuning (fst (sync_lock s off))) = waterfall (tuning s)"
  by (simp_all add: sync_lock_def lockVFOtoCenter_def split_beta quiet_def)

lemma direct_lock [simp]: "direct_source (tuning (fst (sync_lock s off))) = direct_source (tuning s)"
  by (simp add: direct_source_def)

lemma locked_tune_quiet:
  assumes "direct_source (tuning s)" "tunable (cachedStatus s)" "name \<noteq> []"
    and "vfos (waterfall (tuning s)) name = Some v" "off = qmxRigToIqOffset (cachedStatus s)"
    and "f = of_int (effectiveReceiveRigFrequency (cachedStatus s))"
  shows "quiet s (sync_tune ok (fst (sync_lock s off)) TUNER_MODE_NORMAL name f) \<and>
         direct_source (tuning (sync_tune ok (fst (sync_lock s off)) TUNER_MODE_NORMAL name f))"
proof -
  let ?s = "fst (sync_lock s off)"
  have cs: "cachedStatus (fst (sync_lock s x)) = cachedStatus s" for x
    using sync_lock_facts(1) [of s x] by (simp add: quiet_def)
  have "quiet ?s (sync_tune ok ?s TUNER_MODE_NORMAL name f) \<and> direct_source (tuning (sync_tune ok ?s TUNER_MODE_NORMAL name f))"
    by (rule sync_tune_quiet [OF _ _ refl])
      (use assms source_locked [of "tuning ?s" name v f] in \<open>simp_all add: cs rigFrequencyToCenterFrequency_def\<close>)
  then show ?thesis using quiet_trans [OF sync_lock_facts(1)] by blast
qed

lemma iq_tune_quiet:
  assumes "direct_source (tuning s)" "tunable (cachedStatus s)"
    and "c = rigFrequencyToCenterFrequency (effectiveReceiveRigFrequency (cachedStatus s)) (cachedStatus s)"
  shows "quiet s (sync_tune ok s TUNER_MODE_IQ_ONLY name c) \<and> direct_source (tuning (sync_tune ok s TUNER_MODE_IQ_ONLY name c))"
  by (rule sync_tune_quiet [OF assms source_iq])

section \<open>The tick: lemmas\<close>

lemma tick_frequency_quiet:
  assumes "direct_source (tuning s)" "tunable (cachedStatus s)"
  shows "quiet s (tick_frequency ok s update) \<and> direct_source (tuning (tick_frequency ok s update))"
proof -
  note iq = iq_tune_quiet [OF assms refl]
  have lock: "quiet s (sync_tune ok (fst (sync_lock s (qmxRigToIqOffset (cachedStatus s)))) TUNER_MODE_NORMAL
        name (of_int (effectiveReceiveRigFrequency (cachedStatus s)))) \<and>
      direct_source (tuning (sync_tune ok (fst (sync_lock s (qmxRigToIqOffset (cachedStatus s)))) TUNER_MODE_NORMAL
        name (of_int (effectiveReceiveRigFrequency (cachedStatus s)))))"
    if "(if syncVfo s \<and> name \<noteq> [] then vfos (waterfall (tuning s)) name else None) = Some v" for name v
    by (rule locked_tune_quiet [OF assms _ _ refl refl]) (use that in \<open>auto split: if_splits\<close>)
  show ?thesis
    unfolding tick_frequency_def Let_def
    using iq lock assms(1) by (simp split: option.split)
qed

definition mode_only :: "FreqModeSync \<Rightarrow> FreqModeSync \<Rightarrow> bool" where
  "mode_only s s' \<longleftrightarrow>
     (rigCommands s' = rigCommands s \<or> rigCommands s' = rigCommands s @ [RigMode (radioIfaceToQmxMode (radioMode s))]) \<and>
     frequency (cachedStatus s') = frequency (cachedStatus s)"

lemma mode_only_quiet: "quiet s s' \<Longrightarrow> mode_only s s'"
  by (simp add: quiet_def mode_only_def)

lemma sync_user_mode_only:
  assumes "direct_source (tuning s)" "tunable (cachedStatus s)" "selectedVFO s \<noteq> []"
    and "vfos (waterfall (tuning s)) (selectedVFO s) = Some v"
  shows "mode_only s (sync_user_mode ok s)"
proof -
  let ?m = "radioIfaceToQmxMode (radioMode s)"
  let ?st = "setFlag ((cachedStatus s)\<lparr>qmode := ?m\<rparr>) Flag_Mode True"
  let ?s = "s\<lparr>cachedStatus := ?st, rigCommands := rigCommands s @ [RigMode ?m],
              pendingStatus := clearFlag (pendingStatus s) Flag_Mode\<rparr>"
  have cmd: "rigCommands ?s = rigCommands s @ [RigMode ?m] \<and> frequency (cachedStatus ?s) = frequency (cachedStatus s)"
    by simp
  have lock: "quiet ?s (fst (sync_lock ?s (qmxRigToIqOffset ?st)))" by simp
  have tune: "quiet ?s (sync_tune ok (fst (sync_lock ?s (qmxRigToIqOffset ?st))) TUNER_MODE_NORMAL
      (selectedVFO s) (of_int (effectiveReceiveRigFrequency ?st)))"
    using locked_tune_quiet [of ?s "selectedVFO s" v] assms tunable_mode [where st = "cachedStatus s" and m = ?m] by simp
  have "mode_only s s'" if "quiet ?s s'" for s'
    using that cmd by (simp add: quiet_def mode_only_def)
  with lock tune have both: "mode_only s (fst (sync_lock ?s (qmxRigToIqOffset ?st)))"
    "mode_only s (sync_tune ok (fst (sync_lock ?s (qmxRigToIqOffset ?st))) TUNER_MODE_NORMAL
      (selectedVFO s) (of_int (effectiveReceiveRigFrequency ?st)))" by blast+
  have refused: "mode_only s (s\<lparr>cachedStatus := ?st, radioMode := radioMode s\<rparr>)"
    by (simp add: mode_only_def)
  show ?thesis
    unfolding sync_user_mode_def Let_def split_beta
    using both refused by simp
qed

lemma tick_mode_only:
  assumes "direct_source (tuning s)" "tunable (cachedStatus s)"
  shows "mode_only s (tick_mode ok s update)"
proof -
  have set: "mode_only s (s'\<lparr>radioMode := m\<rparr>)" if "quiet s s'" for s' m
    using that by (simp add: quiet_def mode_only_def)
  have user: "mode_only s (sync_user_mode ok s)"
    if "selectedVFO s \<noteq> [] \<and> vfos (waterfall (tuning s)) (selectedVFO s) \<noteq> None"
    using that sync_user_mode_only [OF assms] by blast
  have "mode_only s s" by (simp add: mode_only_def)
  then show ?thesis
    unfolding tick_mode_def Let_def
    using set [OF quiet_refl] set [OF sync_lock_facts(1)] user by simp
qed

lemma tick_status_facts [simp]:
  "tuning (fst (tick_status s)) = tuning s" "rigCommands (fst (tick_status s)) = rigCommands s"
  "radioMode (fst (tick_status s)) = radioMode s" "syncVfo (fst (tick_status s)) = syncVfo s"
  "selectedVFO (fst (tick_status s)) = selectedVFO s" "running (fst (tick_status s)) = running s"
  "iqCenterFreq (fst (tick_status s)) = iqCenterFreq s" "hasPendingStatus (fst (tick_status s)) = False"
  by (simp_all add: tick_status_def Let_def)

lemma tick_status_click:
  "tick_status (s\<lparr>vfoMoveSingleClick := b\<rparr>) =
   ((fst (tick_status s))\<lparr>vfoMoveSingleClick := b\<rparr>, snd (tick_status s))"
  by (simp add: tick_status_def Let_def)

lemma sync_tick_mode_only:
  assumes "direct_source (tuning s)" "tunable (cachedStatus (fst (tick_status s)))" "running s"
  shows "mode_only (s\<lparr>cachedStatus := cachedStatus (fst (tick_status s))\<rparr>) (sync_tick ok s)"
proof -
  let ?s1 = "if mainModeNormal s then s\<lparr>vfoMoveSingleClick := syncVfo s\<rparr> else s"
  let ?s2 = "fst (tick_status ?s1)" and ?u = "snd (tick_status ?s1)"
  have s2: "cachedStatus ?s2 = cachedStatus (fst (tick_status s))" "rigCommands ?s2 = rigCommands s"
    "radioMode ?s2 = radioMode s" "tuning ?s2 = tuning s"
    by (simp_all add: tick_status_click)
  let ?s3 = "tick_frequency ok ?s2 ?u"
  have f: "quiet ?s2 ?s3 \<and> direct_source (tuning ?s3)"
    using assms s2 by (intro tick_frequency_quiet) simp_all
  then have "tunable (cachedStatus ?s3)" using assms(2) s2 by (simp add: quiet_def)
  then have m: "mode_only ?s3 (tick_mode ok ?s3 ?u)" using f by (intro tick_mode_only) simp_all
  have "sync_tick ok s = tick_mode ok ?s3 ?u" using assms(3) by (simp add: sync_tick_def Let_def split_beta)
  then show "mode_only (s\<lparr>cachedStatus := cachedStatus (fst (tick_status s))\<rparr>) (sync_tick ok s)"
    using m f s2 by (simp add: mode_only_def quiet_def)
qed

section \<open>The user's tuning: lemmas\<close>

definition rit_active :: "QmxStatus \<Rightarrow> bool" where
  "rit_active st \<longleftrightarrow> hasFlag st Flag_Rit \<and> hasFlag st Flag_RitEnabled \<and> ritEnabled st"

lemma offset_integral: "\<exists>n. qmxRigToIqOffset st = of_int n"
proof -
  have "qmxRigToIqOffset st \<in> {of_int 12000, of_int (12000 + cwOffsetHz st), of_int (12000 - cwOffsetHz st),
      of_int 12700, of_int 11300}"
    by (auto simp: qmxRigToIqOffset_def kQmxIfOffsetHz_def kQmxDefaultCwOffsetHz_def Let_def split: QmxMode.split)
  then show ?thesis by blast
qed

lemma center_round_trip:
  assumes "0 \<le> c" "0 \<le> c + qmxRigToIqOffset st"
  shows "rigFrequencyToCenterFrequency (centerFrequencyToRigFrequency c st) st = of_int (round_away c)"
proof -
  obtain n where n: "qmxRigToIqOffset st = of_int n" using offset_integral by blast
  have "round_away (c + of_int n) = round_away c + n" using assms n by (intro round_away_shift) simp_all
  then show ?thesis by (simp add: rigFrequencyToCenterFrequency_def centerFrequencyToRigFrequency_def n)
qed

lemma offset_frequency [simp]:
  "qmxRigToIqOffset (setFlag (st\<lparr>frequency := n\<rparr>) Flag_Frequency True) = qmxRigToIqOffset st"
  by (simp add: qmxRigToIqOffset_def Let_def split: QmxMode.split)

lemma effective_no_rit: "\<not> rit_active st \<Longrightarrow> effectiveReceiveRigFrequency st = frequency st"
  by (auto simp: effectiveReceiveRigFrequency_def rit_active_def)

lemma rit_active_frequency [simp]: "rit_active (setFlag (st\<lparr>frequency := n\<rparr>) Flag_Frequency True) = rit_active st"
  by (simp add: rit_active_def)

text \<open>
  The two outcomes of a centre change the synchronizer takes up: the rig is already there, or one
  command is sent and the cache follows.
\<close>

lemma user_tune_facts:
  fixes s :: FreqModeSync
  defines "st \<equiv> cachedStatus s"
  assumes run: "running s" "hasFlag st Flag_Frequency" "\<not> transmitting st" "iqCenterFreq s \<noteq> c"
    and ok: "\<And>cmd. ok cmd" and rit: "\<not> rit_active st"
    and c: "0 \<le> c" "0 \<le> c + qmxRigToIqOffset st"
  defines "s' \<equiv> onIqCenterChanged ok s c"
  shows "frequency (cachedStatus s') = centerFrequencyToRigFrequency c st \<and>
    rigFrequencyToCenterFrequency (effectiveReceiveRigFrequency (cachedStatus s')) (cachedStatus s')
      = of_int (round_away c) \<and>
    iqCenterFreq s' = c \<and>
    rigCommands s' = rigCommands s @
      (if centerFrequencyToRigFrequency c st = frequency st then []
       else [RigFrequency (centerFrequencyToRigFrequency c st) (if hasFlag st Flag_RxVfo then rxVfo st else 0)])"
proof (cases "centerFrequencyToRigFrequency c st = frequency st")
  case True
  then have "s' = s\<lparr>iqCenterFreq := c\<rparr>"
    using run rit effective_no_rit [of st] by (simp add: s'_def onIqCenterChanged_def st_def Let_def)
  then show ?thesis
    using True center_round_trip [OF c] rit effective_no_rit [of st] by (simp add: st_def)
next
  case False
  let ?n = "centerFrequencyToRigFrequency c st"
  have "cachedStatus s' = setFlag (st\<lparr>frequency := ?n\<rparr>) Flag_Frequency True \<and> iqCenterFreq s' = c \<and>
    rigCommands s' = rigCommands s @ [RigFrequency ?n (if hasFlag st Flag_RxVfo then rxVfo st else 0)]"
    using False run ok rit effective_no_rit [of st] by (simp add: s'_def onIqCenterChanged_def st_def Let_def)
  moreover have "rigFrequencyToCenterFrequency ?n (setFlag (st\<lparr>frequency := ?n\<rparr>) Flag_Frequency True) = of_int (round_away c)"
    using center_round_trip [OF c] by (simp add: rigFrequencyToCenterFrequency_def)
  moreover have "effectiveReceiveRigFrequency (setFlag (st\<lparr>frequency := ?n\<rparr>) Flag_Frequency True) = ?n"
    using rit effective_no_rit [of "setFlag (st\<lparr>frequency := ?n\<rparr>) Flag_Frequency True"] by simp
  ultimately show ?thesis using False by simp
qed

section \<open>Mode news: lemmas\<close>

lemma flag_reported: "d AND qmxStatusFlagMask f \<noteq> 0 \<longleftrightarrow> f \<noteq> Flag_None \<and> bit d (flag_index f)"
  using hasFlag_bit [of "emptyStatus\<lparr>flags := d\<rparr>" f] by (simp add: hasFlag_def)

lemma status_view_mode: "status_view st Flag_Mode = Some (VMode m) \<longleftrightarrow> hasFlag st Flag_Mode \<and> qmode st = m"
  by (auto simp: status_view_def)

text \<open>A delivered status with a new mode: what the tick makes of the cache and of the reported flags.\<close>

lemma tick_status_mode_news:
  assumes "hasPendingStatus s" "status_view (pendingStatus s) Flag_Mode = Some (VMode m)"
    and "status_view (cachedStatus s) Flag_Mode \<noteq> Some (VMode m)"
  shows "qmode (cachedStatus (fst (tick_status s))) = m \<and> hasFlag (cachedStatus (fst (tick_status s))) Flag_Mode \<and>
    snd (tick_status s) AND qmxStatusFlagMask Flag_Mode \<noteq> 0"
proof -
  have rep: "bit (updated_with (cachedStatus s) (pendingStatus s)) (flag_index Flag_Mode)"
    using assms(2,3) cache.reported_diff [of "cachedStatus s" "pendingStatus s" Flag_Mode] by simp
  then have nz: "updated_with (cachedStatus s) (pendingStatus s) \<noteq> 0" by auto
  have "bit (flags (pendingStatus s)) (flag_index Flag_Mode)"
    using assms(2) by (simp add: status_view_mode hasFlag_bit)
  then have fl: "flags (pendingStatus s) \<noteq> 0" by auto
  have "status_view (merge_status (cachedStatus s) (pendingStatus s)) Flag_Mode = Some (VMode m)"
    using assms(2) cache.merge_agrees [of "pendingStatus s" Flag_Mode "cachedStatus s"] by simp
  with rep nz fl assms(1) show ?thesis
    by (simp add: tick_status_def Let_def flag_reported status_view_mode)
qed

lemma panadapter_vfos:
  "vfos (waterfall (panadapterTuning t name freq off)) n \<noteq> None \<longleftrightarrow> vfos (waterfall t) n \<noteq> None"
  by (auto simp: panadapterTuning_def Let_def tuning_step_defs wf_setVfoOffset_def split: option.split)

lemma callback_frame [simp]:
  "selectedVFO (onIqCenterChanged ok s c) = selectedVFO s" "tuning (onIqCenterChanged ok s c) = tuning s"
  "radioMode (onIqCenterChanged ok s c) = radioMode s" "syncVfo (onIqCenterChanged ok s c) = syncVfo s"
  by (simp_all add: onIqCenterChanged_def Let_def)

lemma callbacks_tuning [simp]: "tuning (foldl (onIqCenterChanged ok) s cs) = tuning s"
  by (induction cs arbitrary: s) simp_all

lemma tick_frequency_vfos:
  "vfos (waterfall (tuning (tick_frequency ok s u))) n \<noteq> None \<longleftrightarrow> vfos (waterfall (tuning s)) n \<noteq> None"
proof -
  have iq: "vfos (waterfall (tuning (sync_tune ok s TUNER_MODE_IQ_ONLY [] c))) = vfos (waterfall (tuning s))" for c
    by (simp add: sync_tune_def tuner_tune_def iqTuning_def tuning_step_defs Let_def)
  have lk: "vfos (waterfall (tuning (sync_tune ok (fst (sync_lock s off)) TUNER_MODE_NORMAL name f))) n \<noteq> None
      \<longleftrightarrow> vfos (waterfall (tuning s)) n \<noteq> None" if "vfos (waterfall (tuning s)) name = Some v" "name \<noteq> []" for off name f v
    using that panadapter_vfos [of "tuning (fst (sync_lock s off))"]
    by (simp add: sync_tune_def tuner_tune_def normalTuning_def Let_def)
  show ?thesis
    unfolding tick_frequency_def Let_def using iq lk by (auto split: option.split if_splits)
qed

lemma tick_mode_news:
  assumes "direct_source (tuning s)" "tunable (cachedStatus (fst (tick_status s)))" "running s"
    and "syncVfo s" "selectedVFO s \<noteq> []" "vfos (waterfall (tuning s)) (selectedVFO s) \<noteq> None"
    and "hasPendingStatus s" "status_view (pendingStatus s) Flag_Mode = Some (VMode m)"
    and "status_view (cachedStatus s) Flag_Mode \<noteq> Some (VMode m)"
    and "0 \<le> qmxModeToRadioIface m" "0 \<le> radioMode s"
  shows "radioMode (sync_tick ok s) = qmxModeToRadioIface m \<and> rigCommands (sync_tick ok s) = rigCommands s \<and>
    qmode (cachedStatus (sync_tick ok s)) = m"
proof -
  let ?s1 = "if mainModeNormal s then s\<lparr>vfoMoveSingleClick := syncVfo s\<rparr> else s"
  let ?s2 = "fst (tick_status ?s1)" and ?u = "snd (tick_status ?s1)"
  let ?s3 = "tick_frequency ok ?s2 ?u"
  have s2: "cachedStatus ?s2 = cachedStatus (fst (tick_status s))" "rigCommands ?s2 = rigCommands s"
    "radioMode ?s2 = radioMode s" "tuning ?s2 = tuning s" "selectedVFO ?s2 = selectedVFO s" "syncVfo ?s2 = syncVfo s"
    "?u = snd (tick_status s)"
    by (simp_all add: tick_status_click)
  note news = tick_status_mode_news [OF assms(7-9)]
  have "quiet ?s2 ?s3" using tick_frequency_quiet [of ?s2 ok ?u] assms(1,2) s2 by simp
  then have s3: "cachedStatus ?s3 = cachedStatus (fst (tick_status s))" "rigCommands ?s3 = rigCommands s"
    "radioMode ?s3 = radioMode s" "selectedVFO ?s3 = selectedVFO s" "syncVfo ?s3 = syncVfo s"
    using s2 by (simp_all add: quiet_def)
  have v: "vfos (waterfall (tuning ?s3)) (selectedVFO s) \<noteq> None"
    using tick_frequency_vfos [of ok ?s2 ?u "selectedVFO s"] assms(6) s2(4) by simp
  have tick: "sync_tick ok s = tick_mode ok ?s3 ?u" using assms(3) by (simp add: sync_tick_def Let_def split_beta)
  let ?lock = "fst (sync_lock ?s3 (qmxRigToIqOffset (cachedStatus ?s3)))"
  have q: "cachedStatus ?lock = cachedStatus ?s3" "rigCommands ?lock = rigCommands ?s3"
    using sync_lock_facts(1) [of ?s3 "qmxRigToIqOffset (cachedStatus ?s3)"] by (simp_all add: quiet_def)
  have st: "hasFlag (cachedStatus ?s3) Flag_Mode" "qmode (cachedStatus ?s3) = m" using news s3 by simp_all
  have u: "?u AND qmxStatusFlagMask Flag_Mode \<noteq> 0" using news s2 by simp
  have "tick_mode ok ?s3 ?u = (if radioMode s = qmxModeToRadioIface m then ?s3
      else ?lock\<lparr>radioMode := qmxModeToRadioIface m\<rparr>)"
    unfolding tick_mode_def Let_def s3(3-5) st(2) using assms(4,5,10,11) v u st(1) by simp
  then show ?thesis using tick s3 st q by simp
qed

section \<open>Deviations from the intent\<close>

text \<open>
  A mode the rig has no command for (narrow FM here) is not reverted, although the comment says so:
  the radio module keeps it, and the cache now claims the rig is in an unknown mode.
\<close>

lemma refused_mode_not_reverted:
  assumes "radioMode s = RADIO_IFACE_MODE_NFM"
  shows "radioMode (sync_user_mode ok s) = RADIO_IFACE_MODE_NFM \<and>
    status_view (cachedStatus (sync_user_mode ok s)) Flag_Mode = Some (VMode QMX_UNKNOWN) \<and>
    rigCommands (sync_user_mode ok s) = rigCommands s"
  using assms
  by (simp add: sync_user_mode_def Let_def device_setMode_def radioIfaceToQmxMode_def mode_defs status_view_mode)

text \<open>
  With a converter offset in the source manager the centre that the tick computed comes back shifted, and the
  synchronizer takes it for the user's tuning: the rig is sent away by the offset.
\<close>

lemma converter_offset_feeds_back:
  assumes "running s" "hasFlag (cachedStatus s) Flag_Frequency" "\<not> transmitting (cachedStatus s)" "\<And>cmd. ok cmd" "offset \<noteq> 0"
    and "rig = effectiveReceiveRigFrequency (cachedStatus s)" "c = rigFrequencyToCenterFrequency rig (cachedStatus s)"
    and "handlerSelected (source t)" "tuneMode (source t) = TM_NORMAL" "tuneOffset (source t) = of_int offset"
    and "0 \<le> c + of_int offset" "iqCenterFreq s \<noteq> c + of_int offset"
  shows "\<exists>hw. hwTunes (src_tune (source t) c) = hwTunes (source t) @ [hw] \<and>
    rigCommands (onIqCenterChanged ok s hw) = rigCommands s @
      [RigFrequency (rig + offset) (if hasFlag (cachedStatus s) Flag_RxVfo then rxVfo (cachedStatus s) else 0)]"
proof -
  have "c + of_int offset = rigFrequencyToCenterFrequency (rig + offset) (cachedStatus s)"
    by (simp add: assms(7) rigFrequencyToCenterFrequency_def)
  then have "centerFrequencyToRigFrequency (c + of_int offset) (cachedStatus s) = rig + offset" by (simp only: center_rig_inverse)
  then have "rigCommands (onIqCenterChanged ok s (c + of_int offset)) = rigCommands s @
      [RigFrequency (rig + offset) (if hasFlag (cachedStatus s) Flag_RxVfo then rxVfo (cachedStatus s) else 0)]"
    using assms(1-6,12) by (simp add: onIqCenterChanged_def Let_def)
  moreover have "hwTunes (src_tune (source t) c) = hwTunes (source t) @ [c + of_int offset]"
    using assms(8-11) by (simp add: src_tune_def)
  ultimately show ?thesis by blast
qed

section \<open>An example state\<close>

definition statusWith :: "int \<Rightarrow> QmxMode \<Rightarrow> QmxStatus" where
  "statusWith hz m = emptyStatus\<lparr>flags := qmxStatusFlagMask Flag_Frequency OR qmxStatusFlagMask Flag_Mode,
     frequency := hz, qmode := m\<rparr>"

definition exampleSync :: FreqModeSync where
  "exampleSync = \<lparr>running = True, iqCenterFreq = 7018000, syncVfo = True,
     pendingStatus = statusWith 7040000 QMX_CW, hasPendingStatus = True,
     cachedStatus = statusWith 7030000 QMX_USB, tuning = exampleTuning REF_LOWER True 0,
     selectedVFO = ''Radio'', radioMode = RADIO_IFACE_MODE_USB, mainModeNormal = True,
     vfoMoveSingleClick = False, rigCommands = []\<rparr>"

lemma hasFlag_statusWith [simp]: "hasFlag (statusWith hz m) f \<longleftrightarrow> f = Flag_Frequency \<or> f = Flag_Mode"
  by (cases f) (simp_all add: hasFlag_bit statusWith_def bit_or_iff)

lemma fields_statusWith [simp]: "frequency (statusWith hz m) = hz" "qmode (statusWith hz m) = m"
  "cwOffsetHz (statusWith hz m) = 0"
  by (simp_all add: statusWith_def emptyStatus_def)

text \<open>
  With an active receive offset (RIT) a centre change is sent to the rig without subtracting it, so
  the receiver ends up off by the offset and the debug assertion of the source fails.
\<close>

lemma rit_not_subtracted:
  defines "st \<equiv> (statusWith 7030000 QMX_USB)
      \<lparr>flags := qmxStatusFlagMask Flag_Frequency OR qmxStatusFlagMask Flag_Rit OR qmxStatusFlagMask Flag_RitEnabled,
       ritHz := 100, ritEnabled := True\<rparr>"
  defines "s' \<equiv> onIqCenterChanged (\<lambda>cmd. True) (exampleSync\<lparr>cachedStatus := st\<rparr>) 7020000"
  shows "round_away (iqCenterFreq s') = 7020000 \<and>
    rigFrequencyToCenterFrequency (effectiveReceiveRigFrequency (cachedStatus s')) (cachedStatus s') = 7020100"
proof -
  have f: "hasFlag st f \<longleftrightarrow> f = Flag_Frequency \<or> f = Flag_Rit \<or> f = Flag_RitEnabled" for f
    by (cases f) (simp_all add: st_def hasFlag_bit bit_or_iff)
  have v: "frequency st = 7030000" "ritHz st = 100" "ritEnabled st" by (simp_all add: st_def)
  have off: "qmxRigToIqOffset st = 12000" by (simp add: qmxRigToIqOffset_def Let_def f kQmxIfOffsetHz_def)
  have new: "centerFrequencyToRigFrequency 7020000 st = 7032000"
    using round_away_numeral [of "num.Bit0 num.One"] round_away_of_int [of 7032000]
    by (simp add: centerFrequencyToRigFrequency_def off)
  have eff: "effectiveReceiveRigFrequency st = 7030100"
    by (simp add: effectiveReceiveRigFrequency_def f v)
  have s': "cachedStatus s' = setFlag (st\<lparr>frequency := 7032000\<rparr>) Flag_Frequency True \<and> iqCenterFreq s' = 7020000"
    unfolding s'_def onIqCenterChanged_def Let_def
    by (simp add: exampleSync_def f new eff transmitting_def)
  have "effectiveReceiveRigFrequency (setFlag (st\<lparr>frequency := 7032000\<rparr>) Flag_Frequency True) = 7032100"
    by (simp add: effectiveReceiveRigFrequency_def f v)
  then show ?thesis using s' off by (simp add: rigFrequencyToCenterFrequency_def)
qed

section \<open>Properties\<close>

text \<open>
  The frequency and mode models invert: converting a rig frequency to a centre and back is exact,
  a centre to a rig frequency and back is within half a Hertz, and every mode with a demodulator
  comes back from its demodulator number; the others have none.
\<close>

theorem qmx_frequency_model:
  "centerFrequencyToRigFrequency (rigFrequencyToCenterFrequency f st) st = f \<and>
   \<bar>rigFrequencyToCenterFrequency (centerFrequencyToRigFrequency c st) st - c\<bar> \<le> 1 / 2 \<and>
   (if qmxModeToRadioIface m \<ge> 0 then radioIfaceToQmxMode (qmxModeToRadioIface m) = m
    else m \<in> {QMX_UNKNOWN, QMX_FM, QMX_FSK, QMX_FSKR})"
  using center_rig_inverse rig_center_error mode_map_inverse by blast

text \<open>
  C36: No feedback, with a source manager that hands frequencies on unchanged (normal tuning mode, no converter
  offset) and a rig frequency high enough for the centre below it not to be negative: whatever status the rig
  delivers and whichever way the tick tunes the receiver, through the tuner, the source manager and back into the
  synchronizer, it never sends a frequency to the rig and never alters the frequency it took over from the rig; the
  only command it may send is the one mode the radio module stands in. With a converter offset there is feedback
  (\<open>converter_offset_feeds_back\<close>).
\<close>

theorem qmx_sync_no_feedback:
  assumes "direct_source (tuning s)" "tunable (cachedStatus (fst (tick_status s)))" "running s"
  shows "(rigCommands (sync_tick ok s) = rigCommands s \<or>
          rigCommands (sync_tick ok s) = rigCommands s @ [RigMode (radioIfaceToQmxMode (radioMode s))]) \<and>
         frequency (cachedStatus (sync_tick ok s)) = frequency (cachedStatus (fst (tick_status s)))"
  using sync_tick_mode_only [OF assms] by (simp add: mode_only_def)

text \<open>
  The user's tuning reaches the rig: with the receive offset off, a new centre is taken up, the
  cache holds the rig frequency for it, the centre of the cached frequency is the new one to the
  Hertz, and exactly one frequency command went to the active VFO unless the rig was there already.
\<close>

theorem qmx_user_tuning:
  assumes "running s" "hasFlag (cachedStatus s) Flag_Frequency" "\<not> transmitting (cachedStatus s)"
    and "iqCenterFreq s \<noteq> c" "\<And>cmd. ok cmd" "\<not> rit_active (cachedStatus s)"
    and "0 \<le> c" "0 \<le> c + qmxRigToIqOffset (cachedStatus s)"
  shows "frequency (cachedStatus (onIqCenterChanged ok s c)) = centerFrequencyToRigFrequency c (cachedStatus s) \<and>
    rigFrequencyToCenterFrequency (effectiveReceiveRigFrequency (cachedStatus (onIqCenterChanged ok s c)))
      (cachedStatus (onIqCenterChanged ok s c)) = of_int (round_away c) \<and>
    iqCenterFreq (onIqCenterChanged ok s c) = c \<and>
    rigCommands (onIqCenterChanged ok s c) = rigCommands s @
      (if centerFrequencyToRigFrequency c (cachedStatus s) = frequency (cachedStatus s) then []
       else [RigFrequency (centerFrequencyToRigFrequency c (cachedStatus s))
               (if hasFlag (cachedStatus s) Flag_RxVfo then rxVfo (cachedStatus s) else 0)])"
  by (rule user_tune_facts [OF assms])

theorem qmx_user_tuning_witness:
  "rigCommands (onIqCenterChanged (\<lambda>cmd. True) exampleSync 7020000) = [RigFrequency 7032000 0]"
proof -
  have off: "qmxRigToIqOffset (statusWith 7030000 QMX_USB) = 12000"
    by (simp add: qmxRigToIqOffset_def Let_def kQmxIfOffsetHz_def)
  have "centerFrequencyToRigFrequency 7020000 (statusWith 7030000 QMX_USB) = 7032000"
    using round_away_of_int [of 7032000] by (simp add: centerFrequencyToRigFrequency_def off)
  then show ?thesis
    using qmx_user_tuning [of exampleSync 7020000 "\<lambda>cmd. True"] off
    by (simp add: exampleSync_def transmitting_def rit_active_def)
qed

text \<open>
  The rig's mode wins when it is news: if a delivered status carries a mode the cache did not
  have and the receiver has a demodulator for it, after the tick the radio module stands in that
  mode, the cache holds it and nothing was sent back to the rig.
\<close>

theorem qmx_mode_news_applied:
  assumes "direct_source (tuning s)" "tunable (cachedStatus (fst (tick_status s)))" "running s"
    and "syncVfo s" "selectedVFO s \<noteq> []" "vfos (waterfall (tuning s)) (selectedVFO s) \<noteq> None"
    and "hasPendingStatus s" "status_view (pendingStatus s) Flag_Mode = Some (VMode m)"
    and "status_view (cachedStatus s) Flag_Mode \<noteq> Some (VMode m)"
    and "0 \<le> qmxModeToRadioIface m" "0 \<le> radioMode s"
  shows "radioMode (sync_tick ok s) = qmxModeToRadioIface m \<and> rigCommands (sync_tick ok s) = rigCommands s \<and>
         qmode (cachedStatus (sync_tick ok s)) = m"
  by (rule tick_mode_news [OF assms])

lemma exampleSync_status:
  "frequency (cachedStatus (fst (tick_status exampleSync))) = 7040000 \<and>
   tunable (cachedStatus (fst (tick_status exampleSync))) \<and> direct_source (tuning exampleSync)"
proof -
  let ?m = "merge_status (statusWith 7030000 QMX_USB) (statusWith 7040000 QMX_CW)"
  have flags: "flags (statusWith 7040000 QMX_CW) \<noteq> 0"
    using hasFlag_statusWith [of 7040000 QMX_CW Flag_Mode] by (auto simp: hasFlag_def)
  have "bit (updated_with (statusWith 7030000 QMX_USB) (statusWith 7040000 QMX_CW)) (flag_index Flag_Mode)"
    unfolding cache.reported_diff by (simp add: status_view_def)
  then have "updated_with (statusWith 7030000 QMX_USB) (statusWith 7040000 QMX_CW) \<noteq> 0" by auto
  then have "cachedStatus (fst (tick_status exampleSync)) = ?m"
    using flags by (simp add: tick_status_def Let_def exampleSync_def)
  moreover have "frequency ?m = 7040000" "cwOffsetHz ?m = 0"
    by (simp_all add: merge_status_def Let_def assign_if_sel)
  moreover have "\<not> hasFlag ?m Flag_Rit" by simp
  ultimately show ?thesis
    by (simp add: tunable_def effectiveReceiveRigFrequency_def direct_source_def exampleSync_def
        exampleTuning_def exampleSource_def)
qed

theorem qmx_sync_no_feedback_witness:
  "frequency (cachedStatus (sync_tick (\<lambda>cmd. True) exampleSync)) = 7040000"
  using qmx_sync_no_feedback [of exampleSync "\<lambda>cmd. True"] exampleSync_status by (simp add: exampleSync_def)

theorem qmx_mode_news_applied_witness:
  "radioMode (sync_tick (\<lambda>cmd. True) exampleSync) = RADIO_IFACE_MODE_CW \<and>
   rigCommands (sync_tick (\<lambda>cmd. True) exampleSync) = []"
proof -
  have "radioMode (sync_tick (\<lambda>cmd. True) exampleSync) = qmxModeToRadioIface QMX_CW \<and>
      rigCommands (sync_tick (\<lambda>cmd. True) exampleSync) = rigCommands exampleSync \<and>
      qmode (cachedStatus (sync_tick (\<lambda>cmd. True) exampleSync)) = QMX_CW"
    using exampleSync_status
    by (intro qmx_mode_news_applied)
      (simp_all add: exampleSync_def exampleTuning_def status_view_def qmxModeToRadioIface_def mode_defs)
  then show ?thesis by (simp add: exampleSync_def qmxModeToRadioIface_def)
qed

end
