(* ===== verification/Rds.thy ===== *)
theory Rds
  imports Prelude "HOL-Library.Signed_Division"
begin

text \<open>
  The RDS decoder of the FM demodulator (\<open>decoder_modules/radio/src/rds.cpp\<close>): block synchronization,
  the syndrome and the burst error correction of the (26, 16) code, the assembly of groups, the group
  types 0, 2 and 10, and the North American call signs.

  The shift register and the blocks are the 32-bit words of the source, the syndrome a 16-bit word.
  Texts are lists of raw repertoire bytes until \<open>repertoireToUtf8\<close> turns them into a \<open>std::string\<close>.
  The clock is an argument: \<open>now\<close> is its reading in milliseconds for the symbol being processed.
  \<open>skip\<close> and \<open>sync\<close> are exact integers; without synchronization the source decrements \<open>skip\<close> with every
  symbol and would overflow an \<open>int\<close> after about three weeks.
\<close>

section \<open>Blocks and syndromes\<close>

datatype BlockType = BLOCK_TYPE_A | BLOCK_TYPE_B | BLOCK_TYPE_C | BLOCK_TYPE_CP | BLOCK_TYPE_D

definition SYNDROMES :: "u16 \<Rightarrow> BlockType option" where
  "SYNDROMES syn =
     (if syn = 0b1111011000 then Some BLOCK_TYPE_A
      else if syn = 0b1111010100 then Some BLOCK_TYPE_B
      else if syn = 0b1001011100 then Some BLOCK_TYPE_C
      else if syn = 0b1111001100 then Some BLOCK_TYPE_CP
      else if syn = 0b1001011000 then Some BLOCK_TYPE_D
      else None)"

fun OFFSETS :: "BlockType \<Rightarrow> u16" where
  "OFFSETS BLOCK_TYPE_A = 0b0011111100"
| "OFFSETS BLOCK_TYPE_B = 0b0110011000"
| "OFFSETS BLOCK_TYPE_C = 0b0101101000"
| "OFFSETS BLOCK_TYPE_CP = 0b1101010000"
| "OFFSETS BLOCK_TYPE_D = 0b0110110100"

fun nextType :: "BlockType \<Rightarrow> BlockType" where
  "nextType BLOCK_TYPE_A = BLOCK_TYPE_B"
| "nextType BLOCK_TYPE_B = BLOCK_TYPE_C"
| "nextType BLOCK_TYPE_C = BLOCK_TYPE_D"
| "nextType BLOCK_TYPE_CP = BLOCK_TYPE_D"
| "nextType BLOCK_TYPE_D = BLOCK_TYPE_A"

definition LFSR_POLY :: u16 where "LFSR_POLY = 0b0110111001"
definition IN_POLY :: u16 where "IN_POLY = 0b1100011011"
definition BLOCK_LEN :: nat where "BLOCK_LEN = 26"
definition DATA_LEN :: nat where "DATA_LEN = 16"
definition POLY_LEN :: nat where "POLY_LEN = 10"

text \<open>One round of the syndrome register; the loop runs from bit 25 of the block down to bit 0.\<close>

definition syndrome_step :: "bool \<Rightarrow> u16 \<Rightarrow> u16" where
  "syndrome_step inBit syn =
     (let outBit = bit syn (POLY_LEN - 1);
          syn = push_bit 1 syn AND 0b1111111111;
          syn = syn XOR (if outBit then LFSR_POLY else 0)
      in syn XOR (if inBit then IN_POLY else 0))"

fun syndrome_loop :: "nat \<Rightarrow> u32 \<Rightarrow> u16 \<Rightarrow> u16" where
  "syndrome_loop 0 block syn = syn"
| "syndrome_loop (Suc i) block syn = syndrome_loop i block (syndrome_step (bit block i) syn)"

definition calcSyndrome :: "u32 \<Rightarrow> u16" where
  "calcSyndrome block = syndrome_loop BLOCK_LEN block 0"

text \<open>The error trapping loop, from index \<open>i - 1\<close> down to 0.\<close>

fun correct_loop :: "nat \<Rightarrow> u16 \<Rightarrow> bool \<Rightarrow> u32 \<Rightarrow> u16 \<times> u32" where
  "correct_loop 0 syn errorFound out = (syn, out)"
| "correct_loop (Suc i) syn errorFound out =
     (let errorFound = (errorFound \<or> syn AND 0b11111 = 0);
          outBit = bit syn (POLY_LEN - 1);
          out = out XOR (if errorFound \<and> outBit then push_bit (i + POLY_LEN) 1 else 0);
          syn = push_bit 1 syn AND 0b1111111111;
          syn = syn XOR (if outBit \<and> \<not> errorFound then LFSR_POLY else 0)
      in correct_loop i syn errorFound out)"

text \<open>The corrected block and the flag \<open>recovered\<close>.\<close>

definition correctErrors :: "u32 \<Rightarrow> BlockType \<Rightarrow> u32 \<times> bool" where
  "correctErrors block type =
     (let block = block XOR ucast (OFFSETS type);
          syn = calcSyndrome block;
          (syn', out) = (if syn \<noteq> 0 then correct_loop DATA_LEN syn False block else (syn, block))
      in (out, syn' AND 0b11111 = 0))"

section \<open>Text\<close>

text \<open>The repertoire table: the UTF-8 bytes of every code point.\<close>

definition EBU_REPERTOIRE :: "nat list list" where
  "EBU_REPERTOIRE = [
     [32], [32], [32], [32], [32], [32], [32], [32],
     [32], [32], [32], [32], [32], [32], [32], [32],
     [32], [32], [32], [32], [32], [32], [32], [32],
     [32], [32], [32], [32], [32], [32], [32], [32],
     [32], [33], [34], [35], [194, 164], [37], [38], [39],
     [40], [41], [42], [43], [44], [45], [46], [47],
     [48], [49], [50], [51], [52], [53], [54], [55],
     [56], [57], [58], [59], [60], [61], [62], [63],
     [64], [65], [66], [67], [68], [69], [70], [71],
     [72], [73], [74], [75], [76], [77], [78], [79],
     [80], [81], [82], [83], [84], [85], [86], [87],
     [88], [89], [90], [91], [92], [93], [226, 128, 149], [95],
     [124], [97], [98], [99], [100], [101], [102], [103],
     [104], [105], [106], [107], [108], [109], [110], [111],
     [112], [113], [114], [115], [116], [117], [118], [119],
     [120], [121], [122], [123], [124], [125], [194, 175], [45],
     [195, 161], [195, 160], [195, 169], [195, 168], [195, 173], [195, 172], [195, 179], [195, 178],
     [195, 186], [195, 185], [195, 145], [195, 135], [197, 158], [195, 159], [194, 161], [196, 178],
     [195, 162], [195, 164], [195, 170], [195, 171], [195, 174], [195, 175], [195, 180], [195, 182],
     [195, 187], [195, 188], [195, 177], [195, 167], [197, 159], [196, 159], [196, 177], [196, 179],
     [194, 170], [206, 177], [194, 169], [226, 128, 176], [196, 158], [196, 155], [197, 136], [197, 145],
     [207, 128], [226, 130, 172], [194, 163], [36], [60], [94], [62], [118],
     [194, 186], [194, 185], [194, 178], [194, 179], [194, 177], [196, 176], [197, 132], [197, 177],
     [194, 181], [194, 191], [195, 183], [194, 176], [194, 188], [194, 189], [194, 190], [194, 167],
     [195, 129], [195, 128], [195, 137], [195, 136], [195, 141], [195, 140], [195, 147], [195, 146],
     [195, 154], [195, 153], [197, 152], [196, 140], [197, 160], [197, 189], [195, 144], [196, 191],
     [195, 130], [195, 132], [195, 138], [195, 139], [195, 142], [195, 143], [195, 148], [195, 150],
     [195, 155], [195, 156], [197, 153], [196, 141], [197, 161], [197, 190], [196, 145], [197, 128],
     [195, 131], [195, 133], [195, 134], [197, 146], [197, 183], [195, 157], [195, 149], [195, 152],
     [195, 158], [197, 138], [197, 148], [196, 134], [197, 154], [197, 185], [197, 166], [195, 176],
     [195, 163], [195, 165], [195, 166], [197, 147], [197, 181], [195, 189], [195, 181], [195, 184],
     [195, 190], [197, 139], [197, 149], [196, 135], [197, 155], [197, 186], [197, 167], [63]]"

definition repertoireToUtf8 :: "u8 list \<Rightarrow> string" where
  "repertoireToUtf8 raw = concat (map (\<lambda>c. map char_of (EBU_REPERTOIRE ! unat c)) raw)"

section \<open>Call signs\<close>

definition THREE_LETTER_CALLS :: "(int \<times> string) list" where
  "THREE_LETTER_CALLS =
     [(0x99A5, ''KBW''), (0x99A6, ''KCY''), (0x9990, ''KDB''), (0x99A7, ''KDF''),
      (0x9950, ''KEX''), (0x9951, ''KFH''), (0x9952, ''KFI''), (0x9953, ''KGA''),
      (0x9991, ''KGB''), (0x9954, ''KGO''), (0x9955, ''KGU''), (0x9956, ''KGW''),
      (0x9957, ''KGY''), (0x99AA, ''KHQ''), (0x9958, ''KID''), (0x9959, ''KIT''),
      (0x995A, ''KJR''), (0x995B, ''KLO''), (0x995C, ''KLZ''), (0x995D, ''KMA''),
      (0x995E, ''KMJ''), (0x995F, ''KNX''), (0x9960, ''KOA''), (0x99AB, ''KOB''),
      (0x9992, ''KOY''), (0x9993, ''KPQ''), (0x9964, ''KQV''), (0x9994, ''KSD''),
      (0x9965, ''KSL''), (0x9966, ''KUJ''), (0x9995, ''KUT''), (0x9967, ''KVI''),
      (0x9968, ''KWG''), (0x9996, ''KXL''), (0x9997, ''KXO''), (0x996B, ''KYW''),
      (0x9999, ''WBT''), (0x996D, ''WBZ''), (0x996E, ''WDZ''), (0x996F, ''WEW''),
      (0x999A, ''WGH''), (0x9971, ''WGL''), (0x9972, ''WGN''), (0x9973, ''WGR''),
      (0x999B, ''WGY''), (0x9975, ''WHA''), (0x9976, ''WHB''), (0x9977, ''WHK''),
      (0x9978, ''WHO''), (0x999C, ''WHP''), (0x999D, ''WIL''), (0x997A, ''WIP''),
      (0x99B3, ''WIS''), (0x997B, ''WJR''), (0x99B4, ''WJW''), (0x99B5, ''WJZ''),
      (0x997C, ''WKY''), (0x997D, ''WLS''), (0x997E, ''WLW''), (0x999E, ''WMC''),
      (0x999F, ''WMT''), (0x9981, ''WOC''), (0x99A0, ''WOI''), (0x9983, ''WOL''),
      (0x9984, ''WOR''), (0x99A1, ''WOW''), (0x99B9, ''WRC''), (0x99A2, ''WRR''),
      (0x99A3, ''WSB''), (0x99A4, ''WSM''), (0x9988, ''WWJ''), (0x9989, ''WWL'')]"

definition NAT_LOC_LINKED_STATIONS :: "(int \<times> string) list" where
  "NAT_LOC_LINKED_STATIONS =
     [(0xB01, ''NPR-1''),
      (0xB02, ''CBC - Radio One''),
      (0xB03, ''CBC - Radio Two''),
      (0xB04, ''Radio-Canada - Premi'' @ [CHR 0xC3, CHR 0xA8] @ ''re Cha'' @ [CHR 0xC3, CHR 0xAE] @ ''ne''),
      (0xB05, ''Radio-Canada - Espace Musique''),
      (0xB06, ''CBC''),
      (0xB07, ''CBC''),
      (0xB08, ''CBC''),
      (0xB09, ''CBC''),
      (0xB0A, ''NPR-2''),
      (0xB0B, ''NPR-3''),
      (0xB0C, ''NPR-4''),
      (0xB0D, ''NPR-5''),
      (0xB0E, ''NPR-6'')]"

text \<open>
  The digit loop on \<open>int rest\<close>, with the truncating division of C; appending the \<open>int\<close>
  \<open>'A' + rest % 26\<close> to the string converts it to a \<open>char\<close>.
\<close>

function base26_digits :: "int \<Rightarrow> string" where
  "base26_digits rest =
     (if rest = 0 then []
      else char_of (nat ((65 + rest smod 26) mod 256)) # base26_digits (rest sdiv 26))"
  by pat_completeness auto

text \<open>Every round brings \<open>rest\<close> closer to zero, whatever its sign.\<close>

lemma sdiv_26_shrinks: "rest \<noteq> 0 \<Longrightarrow> \<bar>rest sdiv 26\<bar> < \<bar>rest :: int\<bar>"
  by (auto simp: signed_divide_int_def abs_mult sgn_if zdiv_mono_strict)

termination base26_digits
  by (relation "measure (\<lambda>rest. nat \<bar>rest\<bar>)") (use sdiv_26_shrinks in auto)

declare base26_digits.simps [simp del]

definition base26ToCall :: "int \<Rightarrow> string" where
  "base26ToCall picode =
     (let w = picode \<ge> 21672;
          rest = picode - (if w then 21672 else 4096);
          restStr = base26_digits rest;
          restStr = restStr @ replicate (3 - length restStr) CHR ''A''
      in (if w then ''W'' else ''K'') @ rev restStr)"

definition decodeCallsign :: "u16 \<Rightarrow> string" where
  "decodeCallsign piw =
     (let picode = uint piw; na = ''Not Assigned'' in
      if drop_bit 8 piw = 0xAF then base26ToCall (uint (push_bit 8 (piw AND 0xFF)))
      else if drop_bit 12 piw = 0xA then
        base26ToCall (uint (push_bit 12 (drop_bit 8 piw AND 0xF) OR (piw AND 0xFF)))
      else if picode \<ge> 0x9950 \<and> picode \<le> 0x9EFF then
        (case map_of THREE_LETTER_CALLS picode of Some call \<Rightarrow> call | None \<Rightarrow> na)
      else if picode \<ge> 0x1000 \<and> picode \<le> 0x994F then
        (if piw AND 0xFF = 0 \<or> drop_bit 8 piw AND 0xF = 0 then na else base26ToCall picode)
      else if picode \<ge> 0xB000 \<and> picode \<le> 0xEFFF then
        (case map_of NAT_LOC_LINKED_STATIONS (uint (push_bit 8 (drop_bit 12 piw) OR (piw AND 0xFF))) of
           Some call \<Rightarrow> call | None \<Rightarrow> na)
      else na)"

section \<open>The decoder\<close>

datatype GroupVersion = GROUP_VER_A | GROUP_VER_B

record RdsDecoder =
  shiftReg :: u32
  sync :: int
  skip :: int
  lastType :: BlockType
  contGroup :: int
  blocks :: "BlockType \<Rightarrow> u32"
  blockAvail :: "BlockType \<Rightarrow> bool"
  blockALastUpdate :: int
  piCode :: u16
  countryCode :: u8
  programCoverage :: u8
  programRefNumber :: u8
  callsign :: string
  blockBLastUpdate :: int
  groupType :: u8
  groupVer :: GroupVersion
  trafficProgram :: bool
  programType :: u8
  group0LastUpdate :: int
  trafficAnnouncement :: bool
  music :: bool
  decoderIdent :: u8
  alternateFrequency :: u16
  programServiceName :: "u8 list"
  programServiceNameFullUpdate :: "u8 list"
  group2LastUpdate :: int
  rtAB :: bool
  radioText :: "u8 list"
  radioTextFullUpdate :: "u8 list"
  group10LastUpdate :: int
  ptnAB :: bool
  programTypeName :: "u8 list"

text \<open>
  A freshly constructed decoder: the members with an initializer in \<open>rds.h\<close>. The other members
  (\<open>blocks\<close>, \<open>blockAvail\<close> and the numeric fields) are left as the memory was; they come from \<open>mem\<close>.
\<close>

definition rds_initial :: "RdsDecoder \<Rightarrow> RdsDecoder" where
  "rds_initial mem =
     mem\<lparr>shiftReg := 0, sync := 0, skip := 0, lastType := BLOCK_TYPE_A, contGroup := 0,
         blockALastUpdate := 0, callsign := [], blockBLastUpdate := 0, group0LastUpdate := 0,
         programServiceName := replicate 8 0x20, programServiceNameFullUpdate := replicate 8 0x20,
         group2LastUpdate := 0, rtAB := False,
         radioText := replicate 64 0x20, radioTextFullUpdate := replicate 64 0x20,
         group10LastUpdate := 0, ptnAB := False, programTypeName := replicate 8 0x20\<rparr>"

definition blk :: "RdsDecoder \<Rightarrow> BlockType \<Rightarrow> nat \<Rightarrow> u32 \<Rightarrow> u32" where
  "blk d t n m = drop_bit n (blocks d t) AND m"

definition decodeBlockA :: "int \<Rightarrow> RdsDecoder \<Rightarrow> RdsDecoder" where
  "decodeBlockA now d =
     (if \<not> blockAvail d BLOCK_TYPE_A then d
      else
        let picode = ucast (blk d BLOCK_TYPE_A 10 0xFFFF)
        in d\<lparr>piCode := picode,
             countryCode := ucast (blk d BLOCK_TYPE_A 22 0xF),
             programCoverage := ucast (blk d BLOCK_TYPE_A 18 0xF),
             programRefNumber := ucast (blk d BLOCK_TYPE_A 10 0xFF),
             callsign := decodeCallsign picode,
             blockALastUpdate := now\<rparr>)"

definition decodeBlockB :: "int \<Rightarrow> RdsDecoder \<Rightarrow> RdsDecoder" where
  "decodeBlockB now d =
     (if \<not> blockAvail d BLOCK_TYPE_B then d
      else d\<lparr>groupType := ucast (blk d BLOCK_TYPE_B 22 0xF),
             groupVer := (if blk d BLOCK_TYPE_B 21 1 = 0 then GROUP_VER_A else GROUP_VER_B),
             trafficProgram := (blk d BLOCK_TYPE_B 20 1 \<noteq> 0),
             programType := ucast (blk d BLOCK_TYPE_B 15 0x1F),
             blockBLastUpdate := now\<rparr>)"

text \<open>
  Two characters of a block written to a text at a position. A write past the end of the string would
  destroy memory: it leaves no text at all, so a decoder whose texts keep their lengths never made one.
\<close>

definition put_char :: "nat \<Rightarrow> u8 \<Rightarrow> u8 list \<Rightarrow> u8 list" where
  "put_char i c txt = (if i < length txt then txt[i := c] else [])"

definition put_chars :: "nat \<Rightarrow> RdsDecoder \<Rightarrow> BlockType \<Rightarrow> u8 list \<Rightarrow> u8 list" where
  "put_chars off d t txt = put_char (off + 1) (ucast (blk d t 10 0xFF)) (put_char off (ucast (blk d t 18 0xFF)) txt)"

definition decodeGroup0 :: "int \<Rightarrow> RdsDecoder \<Rightarrow> RdsDecoder" where
  "decodeGroup0 now d =
     (let diBit = blk d BLOCK_TYPE_B 12 1;
          offset = unat (blk d BLOCK_TYPE_B 10 0b11);
          diOffset = 3 - offset; psOffset = offset * 2;
          d1 = d\<lparr>trafficAnnouncement := (blk d BLOCK_TYPE_B 14 1 \<noteq> 0), music := (blk d BLOCK_TYPE_B 13 1 \<noteq> 0)\<rparr>;
          d2 = (if groupVer d1 = GROUP_VER_A \<and> blockAvail d1 BLOCK_TYPE_C
                then d1\<lparr>alternateFrequency := ucast (blk d BLOCK_TYPE_C 10 0xFFFF)\<rparr> else d1);
          d3 = d2\<lparr>decoderIdent := (decoderIdent d2 AND NOT (push_bit diOffset 1)) OR push_bit diOffset (ucast diBit)\<rparr>;
          d4 = (if blockAvail d3 BLOCK_TYPE_D then
                  let ps = put_chars psOffset d BLOCK_TYPE_D (programServiceName d3);
                      d31 = d3\<lparr>programServiceName := ps\<rparr>
                  in if offset = 3 then d31\<lparr>programServiceNameFullUpdate := ps\<rparr> else d31
                else d3)
      in d4\<lparr>group0LastUpdate := now\<rparr>)"

definition put_avail :: "nat \<Rightarrow> RdsDecoder \<Rightarrow> BlockType \<Rightarrow> u8 list \<Rightarrow> u8 list" where
  "put_avail off d t txts = (if blockAvail d t then put_chars off d t txts else txts)"

text \<open>Store the text and, at its end or at a carriage return in the new segment, update the full text.\<close>

definition store_radioText :: "nat \<Rightarrow> nat \<Rightarrow> nat \<Rightarrow> u8 list \<Rightarrow> RdsDecoder \<Rightarrow> RdsDecoder" where
  "store_radioText offset rtOffset n tx d =
     (let d1 = d\<lparr>radioText := tx\<rparr>
      in if offset = 0xF \<or> list_ex (\<lambda>i. radioText d1 ! (rtOffset + i) = 0x0D) [0..<n]
         then d1\<lparr>radioTextFullUpdate := radioText d1\<rparr> else d1)"

definition decodeGroup2 :: "int \<Rightarrow> RdsDecoder \<Rightarrow> RdsDecoder" where
  "decodeGroup2 now d =
     (let nAB = (blk d BLOCK_TYPE_B 14 1 \<noteq> 0);
          offset = unat (blk d BLOCK_TYPE_B 10 0xF);
          d1 = (if nAB \<noteq> rtAB d
                then d\<lparr>radioTextFullUpdate := radioText d, radioText := replicate 64 0x20\<rparr> else d);
          d2 = d1\<lparr>rtAB := nAB\<rparr>;
          d3 = (if groupVer d2 = GROUP_VER_A then
                  let rtOffset = offset * 4
                  in store_radioText offset rtOffset 4
                       (put_avail (rtOffset + 2) d BLOCK_TYPE_D (put_avail rtOffset d BLOCK_TYPE_C (radioText d2))) d2
                else
                  let rtOffset = offset * 2
                  in store_radioText offset rtOffset 2 (put_avail rtOffset d BLOCK_TYPE_D (radioText d2)) d2)
      in d3\<lparr>group2LastUpdate := now\<rparr>)"

definition decodeGroup10 :: "int \<Rightarrow> RdsDecoder \<Rightarrow> RdsDecoder" where
  "decodeGroup10 now d =
     (let ab = (blk d BLOCK_TYPE_B 14 1 \<noteq> 0);
          d1 = (if ab \<noteq> ptnAB d then d\<lparr>programTypeName := replicate 8 0x20\<rparr> else d);
          d2 = d1\<lparr>ptnAB := ab\<rparr>;
          base = (if blk d BLOCK_TYPE_B 10 1 \<noteq> 0 then 4 else 0)
      in d2\<lparr>programTypeName :=
              put_avail (base + 2) d BLOCK_TYPE_D (put_avail base d BLOCK_TYPE_C (programTypeName d2)),
            group10LastUpdate := now\<rparr>)"

definition decodeGroup :: "int \<Rightarrow> RdsDecoder \<Rightarrow> RdsDecoder" where
  "decodeGroup now d =
     (if \<not> blockAvail d BLOCK_TYPE_B then d
      else
        let d1 = decodeBlockB now d in
        if groupType d1 = 0 then decodeGroup0 now d1
        else if groupType d1 = 2 then decodeGroup2 now d1
        else if groupType d1 = 10 then decodeGroup10 now d1
        else d1)"

text \<open>
  The tail of the loop body of \<open>process\<close>, once the type of the block is known: the block is corrected
  and stored, then a complete group is decoded.
\<close>

definition store_block :: "int \<Rightarrow> BlockType \<Rightarrow> RdsDecoder \<Rightarrow> RdsDecoder" where
  "store_block now type d =
     (let (corrected, recovered) = correctErrors (shiftReg d) type;
          d1 = d\<lparr>blocks := (blocks d)(type := corrected), blockAvail := (blockAvail d)(type := recovered)\<rparr>
      in if type = BLOCK_TYPE_A then decodeBlockA now d1
         else if type = BLOCK_TYPE_B then d1\<lparr>contGroup := 1\<rparr>
         else if (type = BLOCK_TYPE_C \<or> type = BLOCK_TYPE_CP) \<and> lastType d1 = BLOCK_TYPE_B
         then d1\<lparr>contGroup := contGroup d1 + 1\<rparr>
         else if type = BLOCK_TYPE_D \<and> (lastType d1 = BLOCK_TYPE_C \<or> lastType d1 = BLOCK_TYPE_CP)
         then d1\<lparr>contGroup := contGroup d1 + 1\<rparr>
         else (if contGroup d1 = 1 then decodeBlockB now d1 else d1)\<lparr>contGroup := 0\<rparr>)"

definition close_group :: "int \<Rightarrow> RdsDecoder \<Rightarrow> RdsDecoder" where
  "close_group now d = (if contGroup d \<ge> 3 then decodeGroup now (d\<lparr>contGroup := 0\<rparr>) else d)"

definition take_block :: "int \<Rightarrow> BlockType \<Rightarrow> RdsDecoder \<Rightarrow> RdsDecoder" where
  "take_block now type d = (close_group now (store_block now type d))\<lparr>lastType := type, skip := int BLOCK_LEN\<rparr>"

definition shift_symbol :: "u8 \<Rightarrow> RdsDecoder \<Rightarrow> RdsDecoder" where
  "shift_symbol symbol d =
     d\<lparr>shiftReg := (push_bit 1 (shiftReg d) AND 0x3FFFFFF) OR ucast (symbol AND 1), skip := skip d - 1\<rparr>"

definition next_sync :: "BlockType option \<Rightarrow> int \<Rightarrow> int" where
  "next_sync known s = max 0 (min 4 (if known \<noteq> None then s + 1 else s - 1))"

definition check_block :: "int \<Rightarrow> RdsDecoder \<Rightarrow> RdsDecoder" where
  "check_block now d =
     (let known = SYNDROMES (calcSyndrome (shiftReg d));
          d1 = d\<lparr>sync := next_sync known (sync d)\<rparr>
      in if sync d1 = 0 then d1
         else take_block now (case known of Some t \<Rightarrow> t | None \<Rightarrow> nextType (lastType d1)) d1)"

definition process_symbol :: "RdsDecoder \<Rightarrow> u8 \<times> int \<Rightarrow> RdsDecoder" where
  "process_symbol d = (\<lambda>(symbol, now).
     if skip (shift_symbol symbol d) > 0 then shift_symbol symbol d else check_block now (shift_symbol symbol d))"

definition rds_process :: "RdsDecoder \<Rightarrow> (u8 \<times> int) list \<Rightarrow> RdsDecoder" where
  "rds_process d symbols = foldl process_symbol d symbols"

text \<open>\<open>RDS_*_TIMEOUT_MS\<close> and the validity tests behind the getters.\<close>

definition rds_valid :: "int \<Rightarrow> int \<Rightarrow> bool" where
  "rds_valid now lastUpdate \<longleftrightarrow> now - lastUpdate < 5000"

definition getPSName :: "RdsDecoder \<Rightarrow> bool \<Rightarrow> string" where
  "getPSName d incremental =
     repertoireToUtf8 (if incremental then programServiceName d else programServiceNameFullUpdate d)"

definition getRadioText :: "RdsDecoder \<Rightarrow> bool \<Rightarrow> string" where
  "getRadioText d incremental =
     repertoireToUtf8 (if incremental then radioText d else radioTextFullUpdate d)"

definition getProgramTypeName :: "RdsDecoder \<Rightarrow> string" where
  "getProgramTypeName d = repertoireToUtf8 (programTypeName d)"

end
