(* ===== verification/RdsCode.thy ===== *)
theory RdsCode
  imports Rds
begin

text \<open>
  The (26, 16) code of RDS (\<open>calcSyndrome\<close> and \<open>correctErrors\<close> in \<open>decoder_modules/radio/src/rds.cpp\<close>):
  the syndrome is linear and names the block types, the error trapping loop repairs every burst of at
  most five bits, and the reception of a block by a synchronized decoder.
\<close>

section \<open>The code on bit lists\<close>

text \<open>
  The ten bits of the register, the least significant first. One round of the register is a boolean
  function of them, so the finite facts about the code are decided by evaluation on bits.
\<close>

definition reg_bits :: "u16 \<Rightarrow> bool list" where
  "reg_bits w = map (bit w) [0..<10]"

fun lfsr :: "bool \<Rightarrow> bool list \<Rightarrow> bool list" where
  "lfsr i [x0, x1, x2, x3, x4, x5, x6, x7, x8, x9] =
     [x9 \<noteq> i, x0 \<noteq> i, x1, (x2 \<noteq> x9) \<noteq> i, (x3 \<noteq> x9) \<noteq> i, x4 \<noteq> x9, x5, x6 \<noteq> x9, (x7 \<noteq> x9) \<noteq> i, x8 \<noteq> i]"
| "lfsr i xs = xs"

fun plain_shift :: "bool list \<Rightarrow> bool list" where
  "plain_shift [x0, x1, x2, x3, x4, x5, x6, x7, x8, x9] = [False, x0, x1, x2, x3, x4, x5, x6, x7, x8]"
| "plain_shift xs = xs"

definition low5_zero :: "bool list \<Rightarrow> bool" where
  "low5_zero xs \<longleftrightarrow> \<not> xs ! 0 \<and> \<not> xs ! 1 \<and> \<not> xs ! 2 \<and> \<not> xs ! 3 \<and> \<not> xs ! 4"

lemma upt_10: "[0..<10] = [0, 1, 2, 3, 4, 5, 6, 7, 8, 9]"
  by (simp add: upt_rec)

lemma reg_bits_list: "reg_bits w = [bit w 0, bit w 1, bit w 2, bit w 3, bit w 4, bit w 5, bit w 6, bit w 7, bit w 8, bit w 9]"
  by (simp add: reg_bits_def upt_10)

lemma ten_ones: "bit (1023 :: u16) n \<longleftrightarrow> n < 10"
proof -
  have "(1023 :: u16) = mask 10" by (simp add: mask_eq_exp_minus_1)
  then have "bit (1023 :: u16) n \<longleftrightarrow> bit (mask 10 :: u16) n" by (rule arg_cong)
  then show ?thesis by (auto simp: bit_mask_iff)
qed

lemma LFSR_bits: "bit LFSR_POLY n \<longleftrightarrow> n \<in> {0, 3, 4, 5, 7, 8}"
  by (simp add: LFSR_POLY_def bit_numeral_rec bit_1_iff split: nat.split) auto

lemma IN_bits: "bit IN_POLY n \<longleftrightarrow> n \<in> {0, 1, 3, 4, 8, 9}"
  by (simp add: IN_POLY_def bit_numeral_rec bit_1_iff split: nat.split) auto

lemma bit_syndrome_step:
  "n < 16 \<Longrightarrow> bit (syndrome_step i syn) n \<longleftrightarrow>
     ((0 < n \<and> n < 10 \<and> bit syn (n - 1)) \<noteq> (bit syn 9 \<and> bit LFSR_POLY n)) \<noteq> (i \<and> bit IN_POLY n)"
  unfolding syndrome_step_def Let_def POLY_LEN_def bit_xor_iff bit_and_iff bit_push_bit_iff ten_ones
  by (cases n) auto

lemma reg_bits_step: "reg_bits (syndrome_step i syn) = lfsr i (reg_bits syn)"
  by (simp add: reg_bits_list bit_syndrome_step LFSR_bits IN_bits)


lemma syndrome_step_bound: "10 \<le> n \<Longrightarrow> \<not> bit (syndrome_step i syn) n"
proof (cases "n < 16")
  case True
  assume "10 \<le> n"
  with True show ?thesis by (simp add: bit_syndrome_step LFSR_bits IN_bits)
next
  case False
  then show ?thesis by (auto dest: bit_imp_le_length)
qed

definition small :: "u16 \<Rightarrow> bool" where
  "small w \<longleftrightarrow> (\<forall>n \<ge> 10. \<not> bit w n)"

lemma reg_bits_eq_iff: "small v \<Longrightarrow> small w \<Longrightarrow> v = w \<longleftrightarrow> reg_bits v = reg_bits w"
proof
  assume s: "small v" "small w" and eq: "reg_bits v = reg_bits w"
  have "bit v n = bit w n" for n
  proof (cases "n < 10")
    case True
    then show ?thesis using eq by (auto simp: reg_bits_def)
  next
    case False
    with s show ?thesis by (simp add: small_def)
  qed
  then show "v = w" by (rule bit_eqI)
qed simp

lemma syndrome_loop_small: "small syn \<Longrightarrow> small (syndrome_loop i block syn)"
  by (induction i arbitrary: syn) (simp_all add: small_def syndrome_step_bound)

lemma small_0: "small 0"
  by (simp add: small_def)

lemma calcSyndrome_small: "small (calcSyndrome block)"
  by (simp add: calcSyndrome_def syndrome_loop_small small_0)

fun bits_loop :: "nat \<Rightarrow> (nat \<Rightarrow> bool) \<Rightarrow> bool list \<Rightarrow> bool list" where
  "bits_loop 0 f r = r"
| "bits_loop (Suc i) f r = bits_loop i f (lfsr (f i) r)"

lemma reg_bits_loop: "reg_bits (syndrome_loop i block syn) = bits_loop i (bit block) (reg_bits syn)"
  by (induction i arbitrary: syn) (simp_all add: reg_bits_step)

definition zeros :: "bool list" where
  "zeros = replicate 10 False"

lemma reg_bits_0: "reg_bits 0 = zeros"
  by (simp add: reg_bits_list zeros_def numeral_eq_Suc)

lemma reg_bits_syndrome: "reg_bits (calcSyndrome block) = bits_loop 26 (bit block) zeros"
  by (simp add: calcSyndrome_def BLOCK_LEN_def reg_bits_loop reg_bits_0 del: bits_loop.simps)

section \<open>Linearity\<close>

lemma syndrome_step_linear:
  "syndrome_step (i \<noteq> j) (v XOR w) = syndrome_step i v XOR syndrome_step j w"
proof (rule bit_eqI)
  fix n
  show "bit (syndrome_step (i \<noteq> j) (v XOR w)) n = bit (syndrome_step i v XOR syndrome_step j w) n"
  proof (cases "n < 16")
    case True
    then show ?thesis by (auto simp: bit_xor_iff bit_syndrome_step)
  next
    case False
    then show ?thesis by (auto dest: bit_imp_le_length)
  qed
qed

lemma syndrome_loop_linear:
  "syndrome_loop i (a XOR b) (v XOR w) = syndrome_loop i a v XOR syndrome_loop i b w"
  by (induction i arbitrary: v w) (simp_all add: bit_xor_iff syndrome_step_linear [simplified])

lemma calcSyndrome_linear: "calcSyndrome (a XOR b) = calcSyndrome a XOR calcSyndrome b"
  using syndrome_loop_linear [of BLOCK_LEN a b 0 0] by (simp add: calcSyndrome_def)

lemma bits_loop_cong: "(\<And>k. k < i \<Longrightarrow> f k = g k) \<Longrightarrow> bits_loop i f r = bits_loop i g r"
  by (induction i arbitrary: r) simp_all


section \<open>Offsets\<close>

definition offset_bits :: "BlockType \<Rightarrow> bool list" where
  "offset_bits t = bits_loop 26 (bit (OFFSETS t)) zeros"

definition syndrome_key :: "BlockType \<Rightarrow> u16" where
  "syndrome_key t = (case t of
       BLOCK_TYPE_A \<Rightarrow> 0b1111011000 | BLOCK_TYPE_B \<Rightarrow> 0b1111010100 | BLOCK_TYPE_C \<Rightarrow> 0b1001011100
     | BLOCK_TYPE_CP \<Rightarrow> 0b1111001100 | BLOCK_TYPE_D \<Rightarrow> 0b1001011000)"

lemma SYNDROMES_key: "SYNDROMES (syndrome_key t) = Some t"
  by (cases t) (simp_all add: syndrome_key_def SYNDROMES_def)

lemma offset_syndrome_bits:
  "bits_loop 26 (bit (OFFSETS t)) zeros = reg_bits (syndrome_key t)"
  by (cases t)
    (simp_all add: zeros_def numeral_eq_Suc syndrome_key_def reg_bits_list bit_numeral_rec bit_1_iff)


lemma small_numeral: "small (syndrome_key t)"
proof -
  have "\<not> bit (syndrome_key t) n" if "10 \<le> n" for n
  proof
    assume "bit (syndrome_key t) n"
    moreover have "syndrome_key t = syndrome_key t AND mask 10"
      by (cases t) (simp_all add: syndrome_key_def mask_eq_exp_minus_1)
    ultimately have "bit (syndrome_key t AND mask 10) n" by simp
    with that show False by (simp add: bit_and_iff bit_mask_iff)
  qed
  then show ?thesis by (simp add: small_def)
qed

lemma calcSyndrome_offset: "calcSyndrome (ucast (OFFSETS t)) = syndrome_key t"
proof -
  have "bits_loop 26 (bit (ucast (OFFSETS t) :: u32)) zeros = bits_loop 26 (bit (OFFSETS t)) zeros"
    by (rule bits_loop_cong) (simp add: bit_ucast_iff)
  then have "reg_bits (calcSyndrome (ucast (OFFSETS t))) = reg_bits (syndrome_key t)"
    by (simp only: reg_bits_syndrome offset_syndrome_bits)
  then show ?thesis using reg_bits_eq_iff [OF calcSyndrome_small small_numeral] by blast
qed

lemma calcSyndrome_received:
  "calcSyndrome w = 0 \<Longrightarrow> calcSyndrome (w XOR ucast (OFFSETS t)) = syndrome_key t"
  by (simp add: calcSyndrome_linear calcSyndrome_offset)

section \<open>Error trapping on bits\<close>

fun trap :: "nat \<Rightarrow> bool list \<Rightarrow> bool \<Rightarrow> bool list \<times> bool list" where
  "trap 0 r found = (r, [])"
| "trap (Suc i) r found =
     (let found = (found \<or> low5_zero r);
          (r', out) = trap i (if found then plain_shift r else lfsr False r) found
      in (r', (found \<and> r ! 9) # out))"

lemma low5_zero_iff: "syn AND 0b11111 = 0 \<longleftrightarrow> low5_zero (reg_bits syn)"
proof -
  have "(0b11111 :: u16) = mask 5" by (simp add: mask_eq_exp_minus_1)
  then have "syn AND 0b11111 = take_bit 5 syn" by (simp add: take_bit_eq_mask)
  moreover have "take_bit 5 syn = 0 \<longleftrightarrow> (\<forall>n < 5. \<not> bit syn n)"
    by (auto simp: bit_eq_iff bit_take_bit_iff)
  moreover have "(\<forall>n < 5. \<not> bit syn n) \<longleftrightarrow> low5_zero (reg_bits syn)"
    by (auto simp: low5_zero_def reg_bits_list less_Suc_eq numeral_eq_Suc)
  ultimately show ?thesis by simp
qed

lemma reg_bits_shift: "reg_bits (push_bit 1 syn AND 0b1111111111) = plain_shift (reg_bits syn)"
  unfolding reg_bits_list bit_and_iff bit_push_bit_iff ten_ones by simp

lemma shift_feedback:
  "push_bit 1 syn AND 0b1111111111 XOR (if bit syn (POLY_LEN - 1) then LFSR_POLY else 0) = syndrome_step False syn"
  by (simp add: syndrome_step_def Let_def)

lemma trap_length [simp]: "length (snd (trap n r found)) = n"
  by (induction n r found rule: trap.induct) (auto simp: Let_def split_beta)

lemma correct_loop_trap:
  "reg_bits (fst (correct_loop n syn found out)) = fst (trap n (reg_bits syn) found) \<and>
   (\<forall>k < 32. bit (snd (correct_loop n syn found out)) k =
      (bit out k \<noteq> (10 \<le> k \<and> k < n + 10 \<and> snd (trap n (reg_bits syn) found) ! (n + 9 - k))))"
proof (induction n arbitrary: syn found out)
  case 0
  show ?case by simp
next
  case (Suc n)
  let ?f = "found \<or> syn AND 0b11111 = 0"
  let ?o = "bit syn (POLY_LEN - 1)"
  let ?out = "out XOR (if ?f \<and> ?o then push_bit (n + POLY_LEN) 1 else 0)"
  let ?syn = "push_bit 1 syn AND 0b1111111111 XOR (if ?o \<and> \<not> ?f then LFSR_POLY else 0)"
  have f: "?f \<longleftrightarrow> found \<or> low5_zero (reg_bits syn)" by (simp only: low5_zero_iff)
  have o: "?o = reg_bits syn ! 9" by (simp add: reg_bits_list POLY_LEN_def)
  have syn: "reg_bits ?syn = (if ?f then plain_shift (reg_bits syn) else lfsr False (reg_bits syn))"
  proof (cases ?f)
    case True
    then show ?thesis using reg_bits_shift [of syn] by simp
  next
    case False
    then show ?thesis using shift_feedback [of syn] reg_bits_step [of False syn] by simp
  qed
  have step: "correct_loop (Suc n) syn found out = correct_loop n ?syn ?f ?out"
    by (simp add: Let_def)
  have tr: "trap (Suc n) (reg_bits syn) found =
      (fst (trap n (reg_bits ?syn) ?f), (?f \<and> ?o) # snd (trap n (reg_bits ?syn) ?f))"
    unfolding trap.simps Let_def split_beta f [symmetric] o [symmetric] syn [symmetric] by (rule refl)
  have outb: "bit ?out k = (bit out k \<noteq> (?f \<and> ?o \<and> k = n + 10))" if "k < 32" for k
    using that by (auto simp: bit_xor_iff POLY_LEN_def bit_push_bit_iff bit_exp_iff)
  show ?case
    unfolding step tr fst_conv snd_conv
  proof (intro conjI allI impI)
    show "reg_bits (fst (correct_loop n ?syn ?f ?out)) = fst (trap n (reg_bits ?syn) ?f)" using Suc.IH by blast
    fix k :: nat assume k: "k < 32"
    have ih: "bit (snd (correct_loop n ?syn ?f ?out)) k =
       (bit ?out k \<noteq> (10 \<le> k \<and> k < n + 10 \<and> snd (trap n (reg_bits ?syn) ?f) ! (n + 9 - k)))"
      using Suc.IH k by blast
    show "bit (snd (correct_loop n ?syn ?f ?out)) k =
       (bit out k \<noteq> (10 \<le> k \<and> k < Suc n + 10 \<and> ((?f \<and> ?o) # snd (trap n (reg_bits ?syn) ?f)) ! (Suc n + 9 - k)))"
    proof (cases "k = n + 10")
      case True
      then show ?thesis unfolding ih outb [OF k] by simp
    next
      case False
      have "Suc n + 9 - k = Suc (n + 9 - k)" if "k < n + 10" using that by simp
      with False show ?thesis unfolding ih outb [OF k] by (auto simp: less_Suc_eq)
    qed
  qed
qed


section \<open>Bursts\<close>

lemma bits_loop_foldl: "bits_loop n f r = foldl (\<lambda>r b. lfsr b r) r (map f (rev [0..<n]))"
  by (induction n arbitrary: r) simp_all

text \<open>A burst of at most five bits at position \<open>p\<close>, as the 26 bits of a block, the highest first.\<close>

definition burst_list :: "nat \<Rightarrow> bool list \<Rightarrow> bool list" where
  "burst_list p bs = replicate (21 - p) False @ bs @ replicate p False"

definition all_bursts :: "bool list list" where
  "all_bursts = List.n_lists 5 [False, True]"

text \<open>The register after the burst itself; \<open>p\<close> zero bits follow it in the block.\<close>

definition after_burst :: "bool list \<Rightarrow> bool list" where
  "after_burst bs = foldl (\<lambda>r b. lfsr b r) zeros bs"

text \<open>
  Along the trajectory of the register, whenever the low five bits are zero the top bits are the
  error pattern at its place; after 21 rounds they are zero. \<open>n\<close> counts down from 21.
\<close>

fun trajectory_ok :: "nat \<Rightarrow> bool list \<Rightarrow> bool list \<Rightarrow> bool" where
  "trajectory_ok 0 r bs = (low5_zero r \<and> snd (trap 16 r True) = take 16 (burst_list 21 bs))"
| "trajectory_ok (Suc n) r bs =
     ((low5_zero r \<longrightarrow> snd (trap 16 r True) = take 16 (burst_list (20 - n) bs)) \<and>
      trajectory_ok n (lfsr False r) bs)"

lemma trajectories_ok: "list_all (\<lambda>bs. trajectory_ok 21 (after_burst bs) bs) all_bursts"
  by code_simp

lemma trap_found_prefix: "n \<le> m \<Longrightarrow> snd (trap n r True) = take n (snd (trap m r True))"
proof (induction n arbitrary: m r)
  case (Suc n)
  then obtain k where "m = Suc k" "n \<le> k" by (cases m) auto
  with Suc.IH [of k "plain_shift r"] show ?case by (simp add: Let_def split_beta)
qed simp

lemma trap_found: "low5_zero r \<Longrightarrow> trap n r False = trap n r True" if "0 < n"
  using that by (cases n) simp_all

lemma low5_zero_shift: "low5_zero r \<Longrightarrow> low5_zero (plain_shift r)"
  by (cases r rule: plain_shift.cases) (auto simp: low5_zero_def numeral_eq_Suc)

lemma low5_zero_found: "low5_zero r \<Longrightarrow> low5_zero (fst (trap n r True))"
  by (induction n arbitrary: r) (simp_all add: Let_def split_beta low5_zero_shift)

lemma burst_list_Suc:
  assumes "p < 21" "n < 16" "length bs = 5"
  shows "take (Suc n) (burst_list p bs) = False # take n (burst_list (Suc p) bs)"
proof -
  have "burst_list p bs = False # (replicate (20 - p) False @ bs @ replicate p False)"
    using assms(1) by (simp add: burst_list_def replicate_Suc [symmetric] Suc_diff_le del: replicate_Suc)
  moreover have "burst_list (Suc p) bs = (replicate (20 - p) False @ bs @ replicate p False) @ [False]"
    using assms(1) by (simp add: burst_list_def replicate_append_same)
  ultimately show ?thesis using assms by simp
qed

lemma trap_trajectory:
  "trajectory_ok k r bs \<Longrightarrow> length bs = 5 \<Longrightarrow> k \<le> 21 \<Longrightarrow> n \<le> 16 \<Longrightarrow>
   snd (trap n r False) = take n (burst_list (21 - k) bs) \<and> (k \<le> n \<longrightarrow> low5_zero (fst (trap n r False)))"
proof (induction n arbitrary: k r)
  case 0
  then show ?case by (cases k) simp_all
next
  case (Suc n)
  show ?case
  proof (cases "low5_zero r")
    case True
    have "snd (trap 16 r True) = take 16 (burst_list (21 - k) bs)"
      using Suc.prems(1) True by (cases k) simp_all
    then show ?thesis
      using trap_found_prefix [OF Suc.prems(4), of r] trap_found [of "Suc n" r] True low5_zero_found [OF True, of "Suc n"] Suc.prems(4)
      by (simp add: min_absorb1 del: trap.simps)
  next
    case False
    then obtain j where k: "k = Suc j" "trajectory_ok j (lfsr False r) bs"
      using Suc.prems(1) by (cases k) auto
    have "snd (trap n (lfsr False r) False) = take n (burst_list (21 - j) bs) \<and>
        (j \<le> n \<longrightarrow> low5_zero (fst (trap n (lfsr False r) False)))"
      using Suc.prems k by (intro Suc.IH) simp_all
    moreover have "take (Suc n) (burst_list (21 - k) bs) = False # take n (burst_list (21 - j) bs)"
    proof -
      have "Suc (21 - k) = 21 - j" "21 - k < 21" using Suc.prems k by simp_all
      then show ?thesis using burst_list_Suc [of "21 - k" n bs] Suc.prems by simp
    qed
    ultimately show ?thesis using False k by (simp add: Let_def split_beta)
  qed
qed


lemma trajectory_steps:
  "trajectory_ok k r bs \<Longrightarrow> p \<le> k \<Longrightarrow> trajectory_ok (k - p) ((lfsr False ^^ p) r) bs"
proof (induction p)
  case (Suc p)
  then obtain j where j: "k - p = Suc j" by (metis Suc_diff_Suc Suc_le_lessD)
  then have "k - Suc p = j" by simp
  with j Suc show ?case by simp
qed simp

lemma lfsr_zeros: "lfsr False zeros = zeros"
  by (simp add: zeros_def numeral_eq_Suc)

lemma foldl_zeros: "foldl (\<lambda>r b. lfsr b r) zeros (replicate n False) = zeros"
  by (induction n) (simp_all add: lfsr_zeros)

lemma foldl_trailing: "foldl (\<lambda>r b. lfsr b r) r (replicate n False) = (lfsr False ^^ n) r"
  by (induction n arbitrary: r) (simp_all add: funpow_swap1)

definition burst_bits :: "u32 \<Rightarrow> bool list" where
  "burst_bits b = [bit b 4, bit b 3, bit b 2, bit b 1, bit b 0]"

lemma length_burst_bits: "length (burst_bits b) = 5"
  by (simp add: burst_bits_def)

lemma burst_bits_all: "burst_bits b \<in> set all_bursts"
  by (simp add: burst_bits_def all_bursts_def set_n_lists)

lemma block_bits_burst:
  fixes b :: u32
  assumes "p \<le> 21"
  shows "map (bit (push_bit p (take_bit 5 b))) (rev [0..<26]) = burst_list p (burst_bits b)"
proof (rule nth_equalityI)
  show "length (map (bit (push_bit p (take_bit 5 b))) (rev [0..<26])) = length (burst_list p (burst_bits b))"
    using assms(1) by (simp add: burst_list_def burst_bits_def)
  fix i assume "i < length (map (bit (push_bit p (take_bit 5 b))) (rev [0..<26]))"
  then have i: "i < 26" by simp
  have lhs: "map (bit (push_bit p (take_bit 5 b))) (rev [0..<26]) ! i \<longleftrightarrow> p \<le> 25 - i \<and> 25 - i - p < 5 \<and> bit b (25 - i - p)"
    using i by (auto simp: rev_nth bit_push_bit_iff bit_take_bit_iff)
  show "map (bit (push_bit p (take_bit 5 b))) (rev [0..<26]) ! i = burst_list p (burst_bits b) ! i"
  proof (cases "i < 21 - p")
    case True
    then have "\<not> 25 - i - p < 5" by arith
    with True show ?thesis unfolding lhs by (auto simp: burst_list_def nth_append)
  next
    case False
    show ?thesis
    proof (cases "i < 26 - p")
      case True
      define m where "m = i - (21 - p)"
      have m: "m < 5" "i = 21 - p + m" "25 - i - p = 4 - m" "p \<le> 25 - i"
        using False True assms(1) unfolding m_def by arith+
      have "burst_bits b ! m = bit b (4 - m)"
        using m(1) by (auto simp: burst_bits_def less_Suc_eq numeral_eq_Suc)
      moreover have "burst_list p (burst_bits b) ! i = burst_bits b ! m"
        using m(1) by (simp add: m(2) burst_list_def nth_append length_burst_bits)
      ultimately show ?thesis unfolding lhs m(3) using m(1,4) by auto
    next
      case f: False
      then show ?thesis unfolding lhs using False i assms(1)
        by (auto simp: burst_list_def nth_append burst_bits_def)
    qed
  qed
qed

lemma syndrome_burst:
  fixes b :: u32
  assumes "p \<le> 21"
  shows "reg_bits (calcSyndrome (push_bit p (take_bit 5 b))) = (lfsr False ^^ p) (after_burst (burst_bits b))"
  unfolding reg_bits_syndrome bits_loop_foldl block_bits_burst [OF assms]
  by (simp only: burst_list_def foldl_append foldl_zeros after_burst_def) (rule foldl_trailing)

lemma trap_burst:
  fixes b :: u32
  assumes "p \<le> 21"
  shows "snd (trap 16 (reg_bits (calcSyndrome (push_bit p (take_bit 5 b)))) False) = take 16 (burst_list p (burst_bits b)) \<and>
    (5 \<le> p \<longrightarrow> low5_zero (fst (trap 16 (reg_bits (calcSyndrome (push_bit p (take_bit 5 b)))) False)))"
proof -
  have "trajectory_ok 21 (after_burst (burst_bits b)) (burst_bits b)"
    using trajectories_ok burst_bits_all by (auto simp: list_all_iff)
  then have "trajectory_ok (21 - p) (reg_bits (calcSyndrome (push_bit p (take_bit 5 b)))) (burst_bits b)"
    using trajectory_steps [of 21 "after_burst (burst_bits b)" "burst_bits b" p] assms syndrome_burst [OF assms] by simp
  then show ?thesis using trap_trajectory [of "21 - p" _ "burst_bits b" 16] assms by (simp add: burst_bits_def)
qed


section \<open>Correction\<close>

lemma reg_bits_zero_low: "low5_zero zeros"
  by (simp add: low5_zero_def zeros_def)

lemma trap_zeros: "snd (trap n zeros False) = replicate n False"
proof -
  have "snd (trap n zeros True) = replicate n False"
  proof (induction n)
    case (Suc n)
    have "plain_shift zeros = zeros" "\<not> zeros ! 9" by (simp_all add: zeros_def numeral_eq_Suc)
    with Suc show ?case by (simp add: Let_def split_beta)
  qed simp
  then show ?thesis by (cases n) (simp_all add: reg_bits_zero_low)
qed

text \<open>Also when the syndrome is zero the loop would not have changed the block.\<close>

lemma correctErrors_bits:
  fixes w e :: u32 and t :: BlockType
  assumes "calcSyndrome w = 0"
  defines "res \<equiv> correctErrors (w XOR e XOR ucast (OFFSETS t)) t"
  shows "(\<forall>k < 32. bit (fst res) k = (bit (w XOR e) k \<noteq>
           (10 \<le> k \<and> k < 26 \<and> snd (trap 16 (reg_bits (calcSyndrome e)) False) ! (25 - k)))) \<and>
         (snd res \<longleftrightarrow> calcSyndrome e = 0 \<or> low5_zero (fst (trap 16 (reg_bits (calcSyndrome e)) False)))"
proof -
  have blk: "(w XOR e XOR ucast (OFFSETS t)) XOR ucast (OFFSETS t) = w XOR e"
    by (auto simp: bit_eq_iff bit_xor_iff)
  have syn: "calcSyndrome (w XOR e) = calcSyndrome e"
    using assms(1) by (simp add: calcSyndrome_linear)
  show ?thesis
  proof (cases "calcSyndrome e = 0")
    case True
    have "snd (trap 16 (reg_bits 0) False) ! (25 - k) = False" if "10 \<le> k" "k < 26" for k
      using that by (simp add: reg_bits_0 trap_zeros del: trap.simps)
    with True show ?thesis
      unfolding res_def correctErrors_def Let_def blk syn by (simp del: trap.simps)
  next
    case False
    have "res = (snd (correct_loop 16 (calcSyndrome e) False (w XOR e)),
        fst (correct_loop 16 (calcSyndrome e) False (w XOR e)) AND 0b11111 = 0)"
      unfolding res_def correctErrors_def Let_def blk syn using False
      by (simp add: DATA_LEN_def split_beta del: correct_loop.simps)
    then show ?thesis
      using correct_loop_trap [of 16 "calcSyndrome e" False "w XOR e"] False
      by (simp add: low5_zero_iff del: trap.simps correct_loop.simps)
  qed
qed

lemma correctErrors_burst:
  fixes w b :: u32 and t :: BlockType and p :: nat
  assumes "calcSyndrome w = 0" "p \<le> 21"
  defines "e \<equiv> push_bit p (take_bit 5 b)"
  defines "res \<equiv> correctErrors (w XOR e XOR ucast (OFFSETS t)) t"
  shows "(\<forall>k. 10 \<le> k \<and> k < 26 \<longrightarrow> bit (fst res) k = bit w k) \<and> (5 \<le> p \<longrightarrow> snd res)"
proof -
  have tr: "snd (trap 16 (reg_bits (calcSyndrome e)) False) = take 16 (burst_list p (burst_bits b))"
    "5 \<le> p \<Longrightarrow> low5_zero (fst (trap 16 (reg_bits (calcSyndrome e)) False))"
    using trap_burst [OF assms(2)] by (simp_all add: e_def del: trap.simps)
  have eb: "bit e k \<longleftrightarrow> burst_list p (burst_bits b) ! (25 - k)" if "k < 26" for k
  proof -
    have "bit e k \<longleftrightarrow> map (bit e) (rev [0..<26]) ! (25 - k)" using that by (simp add: rev_nth)
    then show ?thesis using block_bits_burst [OF assms(2), of b] by (simp add: e_def)
  qed
  note bits = correctErrors_bits [OF assms(1), of e t, folded res_def]
  have "bit (fst res) k = bit w k" if "10 \<le> k" "k < 26" for k
  proof -
    have "bit (fst res) k = (bit (w XOR e) k \<noteq> take 16 (burst_list p (burst_bits b)) ! (25 - k))"
      using bits that tr(1) by simp
    also have "take 16 (burst_list p (burst_bits b)) ! (25 - k) = bit e k" using eb [OF that(2)] that by simp
    finally show ?thesis by (auto simp: bit_xor_iff)
  qed
  then show ?thesis using bits tr(2) by blast
qed

lemma correctErrors_clean:
  assumes "calcSyndrome w = 0"
  shows "correctErrors (w XOR ucast (OFFSETS t)) t = (w, True)"
proof -
  have "(w XOR ucast (OFFSETS t)) XOR ucast (OFFSETS t) = w" by (auto simp: bit_eq_iff bit_xor_iff)
  then show ?thesis using assms by (simp add: correctErrors_def Let_def)
qed


section \<open>Reception of blocks\<close>

text \<open>The symbols of a block on the air: the codeword with the offset of its type, the highest bit first.\<close>

definition rds_symbols :: "BlockType \<Rightarrow> u32 \<Rightarrow> int \<Rightarrow> (u8 \<times> int) list" where
  "rds_symbols t w now = map (\<lambda>k. (of_bool (bit (w XOR ucast (OFFSETS t)) k), now)) (rev [0..<26])"

definition shift_in :: "u32 \<Rightarrow> bool \<Rightarrow> u32" where
  "shift_in r b = (push_bit 1 r AND 0x3FFFFFF) OR of_bool b"

lemma mask_26: "(0x3FFFFFF :: u32) = mask 26"
  by (simp add: mask_eq_exp_minus_1)

lemma bit_shift_in:
  "bit (shift_in r b) k \<longleftrightarrow> (if k = 0 then b else k < 26 \<and> bit r (k - 1))"
  unfolding shift_in_def mask_26 bit_or_iff bit_and_iff bit_push_bit_iff bit_mask_iff
  by (auto simp: bit_1_iff of_bool_def split: if_splits)

lemma shift_in_word:
  "n \<le> 26 \<Longrightarrow> bit (foldl shift_in r (map (bit v) (rev [0..<n]))) k \<longleftrightarrow>
     (if k < n then bit v k else (k < 26 \<or> n = 0) \<and> bit r (k - n))"
proof (induction n arbitrary: r)
  case (Suc n)
  have "bit (foldl shift_in r (map (bit v) (rev [0..<Suc n]))) k
      \<longleftrightarrow> bit (foldl shift_in (shift_in r (bit v n)) (map (bit v) (rev [0..<n]))) k" by simp
  also have "\<dots> \<longleftrightarrow> (if k < Suc n then bit v k else (k < 26 \<or> Suc n = 0) \<and> bit r (k - Suc n))"
    using Suc by (auto simp: bit_shift_in less_Suc_eq)
  finally show ?case .
qed simp

lemma shift_symbol_bit: "shift_symbol symbol d = d\<lparr>shiftReg := shift_in (shiftReg d) (bit symbol 0), skip := skip d - 1\<rparr>"
  by (simp add: shift_symbol_def shift_in_def and_one_eq bit_0 odd_iff_mod_2_eq_one)

lemma process_skipping:
  "skip d > 1 \<Longrightarrow> process_symbol d (of_bool b, now) = d\<lparr>shiftReg := shift_in (shiftReg d) b, skip := skip d - 1\<rparr>"
  by (simp add: process_symbol_def shift_symbol_bit)

lemma process_skipping_list:
  "int (length bs) < skip d \<Longrightarrow>
   foldl process_symbol d (map (\<lambda>b. (of_bool b, now)) bs) =
   d\<lparr>shiftReg := foldl shift_in (shiftReg d) bs, skip := skip d - int (length bs)\<rparr>"
proof (induction bs arbitrary: d)
  case (Cons b bs)
  then show ?case by (simp add: process_skipping)
qed simp

lemma process_block_start:
  assumes "skip d = 1" "1 \<le> sync d" "SYNDROMES (calcSyndrome (shift_in (shiftReg d) b)) = Some t"
  shows "process_symbol d (of_bool b, now) =
    take_block now t (d\<lparr>shiftReg := shift_in (shiftReg d) b, skip := 0, sync := min 4 (sync d + 1)\<rparr>)"
proof -
  let ?d = "d\<lparr>shiftReg := shift_in (shiftReg d) b, skip := 0\<rparr>"
  have shifted: "shift_symbol (of_bool b) d = ?d" using assms(1) by (simp add: shift_symbol_bit)
  have known: "SYNDROMES (calcSyndrome (shiftReg ?d)) = Some t" using assms(3) by simp
  have "check_block now ?d = take_block now t (?d\<lparr>sync := min 4 (sync d + 1)\<rparr>)"
  proof -
    have "next_sync (Some t) (sync d) = min 4 (sync d + 1)" "min 4 (sync d + 1) \<noteq> 0"
      using assms(2) by (simp_all add: next_sync_def)
    then show ?thesis unfolding check_block_def known Let_def by simp
  qed
  then show ?thesis by (simp add: process_symbol_def shifted)
qed

lemma receive_block:
  assumes d: "skip d = 26" "1 \<le> sync d" and w: "calcSyndrome w = 0" "take_bit 26 w = w"
  shows "rds_process d (rds_symbols t w now) =
    take_block now t (d\<lparr>shiftReg := w XOR ucast (OFFSETS t), skip := 0, sync := min 4 (sync d + 1)\<rparr>)"
proof -
  let ?v = "w XOR ucast (OFFSETS t)"
  let ?bs = "map (bit ?v) (rev [1..<26])"
  let ?d = "d\<lparr>shiftReg := foldl shift_in (shiftReg d) ?bs, skip := 1\<rparr>"
  have upt: "rev [0..<26] = rev [1..<26] @ [0]"
    by (simp add: upt_conv_Cons)
  have syms: "rds_symbols t w now = map (\<lambda>b. (of_bool b, now)) ?bs @ [(of_bool (bit ?v 0), now)]"
    unfolding rds_symbols_def upt by simp
  have "foldl process_symbol d (map (\<lambda>b. (of_bool b, now)) ?bs) = ?d"
    using d(1) by (subst process_skipping_list) simp_all
  then have step: "rds_process d (rds_symbols t w now) = process_symbol ?d (of_bool (bit ?v 0), now)"
    by (simp add: rds_process_def syms)
  have "shift_in (foldl shift_in (shiftReg d) ?bs) (bit ?v 0) = foldl shift_in (shiftReg d) (map (bit ?v) (rev [0..<26]))"
    unfolding upt by simp
  also have "\<dots> = ?v"
  proof (rule bit_eqI)
    fix k
    have off: "\<not> bit (OFFSETS t) k" if "26 \<le> k" using that by (auto dest: bit_imp_le_length)
    have wk: "\<not> bit w k" if "26 \<le> k" using that w(2) by (metis bit_take_bit_iff leD)
    show "bit (foldl shift_in (shiftReg d) (map (bit ?v) (rev [0..<26]))) k = bit ?v k"
      using off wk by (auto simp: shift_in_word bit_xor_iff bit_ucast_iff)
  qed
  finally have reg: "shift_in (shiftReg ?d) (bit ?v 0) = ?v" by simp
  have "SYNDROMES (calcSyndrome (shift_in (shiftReg ?d) (bit ?v 0))) = Some t"
    unfolding reg calcSyndrome_received [OF w(1)] by (rule SYNDROMES_key)
  from process_block_start [OF _ _ this, of now] show ?thesis
    unfolding step using d(2) reg by simp
qed

end
