(* ===== verification/RdsGroups.thy ===== *)
theory RdsGroups
  imports RdsCode
begin

text \<open>
  What a receiver gets out of \<open>decoder_modules/radio/src/rds.cpp\<close>: an encoder of the transmitter side as
  the specification, the repair of damaged blocks, the invariant of the decoder under any input, the
  reception of groups and of a complete station name.
\<close>

section \<open>The transmitter\<close>

text \<open>
  The check word of the standard: the remainder of the data times \<open>x\<^sup>1\<^sup>0\<close> by the generator
  polynomial, the data bits taken from the highest.
\<close>

definition crc_step :: "bool \<Rightarrow> u16 \<Rightarrow> u16" where
  "crc_step b c = (push_bit 1 c AND 0b1111111111) XOR (if bit c 9 \<noteq> b then LFSR_POLY else 0)"

fun crc_loop :: "nat \<Rightarrow> u16 \<Rightarrow> u16 \<Rightarrow> u16" where
  "crc_loop 0 data c = c"
| "crc_loop (Suc i) data c = crc_loop i data (crc_step (bit data i) c)"

definition encode_block :: "u16 \<Rightarrow> u32" where
  "encode_block data = push_bit 10 (ucast data) OR ucast (crc_loop 16 data 0)"

lemma bit_crc_step:
  "n < 16 \<Longrightarrow> bit (crc_step b c) n \<longleftrightarrow> (0 < n \<and> n < 10 \<and> bit c (n - 1)) \<noteq> ((bit c 9 \<noteq> b) \<and> bit LFSR_POLY n)"
  unfolding crc_step_def bit_xor_iff bit_and_iff bit_push_bit_iff ten_ones
  by (cases n) auto

lemma crc_step_linear: "crc_step (a \<noteq> b) (v XOR w) = crc_step a v XOR crc_step b w"
proof (rule bit_eqI)
  fix n
  show "bit (crc_step (a \<noteq> b) (v XOR w)) n = bit (crc_step a v XOR crc_step b w) n"
  proof (cases "n < 16")
    case True
    then show ?thesis by (auto simp: bit_xor_iff bit_crc_step)
  next
    case False
    then show ?thesis by (auto dest: bit_imp_le_length)
  qed
qed

lemma crc_loop_linear: "crc_loop i (a XOR b) (v XOR w) = crc_loop i a v XOR crc_loop i b w"
  by (induction i arbitrary: v w) (simp_all add: bit_xor_iff crc_step_linear [simplified])

lemma crc_step_small: "10 \<le> n \<Longrightarrow> \<not> bit (crc_step b c) n"
proof (cases "n < 16")
  case True
  assume "10 \<le> n"
  with True show ?thesis by (simp add: bit_crc_step LFSR_bits)
next
  case False
  then show ?thesis by (auto dest: bit_imp_le_length)
qed

lemma crc_loop_small: "small c \<Longrightarrow> small (crc_loop i data c)"
  by (induction i arbitrary: c) (simp_all add: small_def crc_step_small)

lemma bit_encode_block:
  "bit (encode_block data) k \<longleftrightarrow> (if k < 10 then bit (crc_loop 16 data 0) k else bit data (k - 10))"
  using crc_loop_small [OF small_0, of 16 data]
  by (auto simp: encode_block_def small_def bit_or_iff bit_push_bit_iff bit_ucast_iff simp del: crc_loop.simps
      dest: bit_imp_le_length)

lemma encode_block_linear: "encode_block (a XOR b) = encode_block a XOR encode_block b"
proof (rule bit_word_eqI)
  fix n assume "n < LENGTH(32)"
  then show "bit (encode_block (a XOR b)) n = bit (encode_block a XOR encode_block b) n"
    using crc_loop_linear [of 16 a b 0 0] by (simp add: bit_encode_block bit_xor_iff del: crc_loop.simps)
qed

lemma encode_block_width: "take_bit 26 (encode_block data) = encode_block data"
proof (rule bit_word_eqI)
  fix n assume n: "n < LENGTH(32)"
  show "bit (take_bit 26 (encode_block data)) n = bit (encode_block data) n"
    using n by (auto simp: bit_take_bit_iff bit_encode_block dest: bit_imp_le_length)
qed

text \<open>Sixteen basis words, then every word by linearity.\<close>

fun crc_shift :: "bool \<Rightarrow> bool list \<Rightarrow> bool list" where
  "crc_shift b [x0, x1, x2, x3, x4, x5, x6, x7, x8, x9] =
     (if x9 \<noteq> b then [True, x0, x1, \<not> x2, \<not> x3, \<not> x4, x5, \<not> x6, \<not> x7, x8]
      else [False, x0, x1, x2, x3, x4, x5, x6, x7, x8])"
| "crc_shift b xs = xs"

definition codeword_bits :: "bool list \<Rightarrow> bool list" where
  "codeword_bits ds = ds @ rev (foldl (\<lambda>r b. crc_shift b r) zeros ds)"

lemma reg_bits_crc_step: "reg_bits (crc_step b c) = crc_shift b (reg_bits c)"
  by (simp add: reg_bits_list bit_crc_step LFSR_bits Let_def)

lemma reg_bits_crc_loop:
  "reg_bits (crc_loop n data c) = foldl (\<lambda>r b. crc_shift b r) (reg_bits c) (map (bit data) (rev [0..<n]))"
  by (induction n arbitrary: c) (simp_all add: reg_bits_crc_step)

lemma encode_block_bits:
  "map (bit (encode_block data)) (rev [0..<26]) = codeword_bits (map (bit data) (rev [0..<16]))"
proof -
  have "[0..<26] = [0..<10] @ map (\<lambda>k. k + 10) [0..<16]"
    by (simp add: upt_rec)
  then have "map (bit (encode_block data)) (rev [0..<26]) =
      map (\<lambda>k. bit (encode_block data) (k + 10)) (rev [0..<16]) @ rev (map (bit (encode_block data)) [0..<10])"
    by (simp add: rev_map o_def)
  also have "map (\<lambda>k. bit (encode_block data) (k + 10)) (rev [0..<16]) = map (bit data) (rev [0..<16])"
    by (rule map_cong) (simp_all add: bit_encode_block)
  also have "map (bit (encode_block data)) [0..<10] = reg_bits (crc_loop 16 data 0)"
    unfolding reg_bits_def by (rule map_cong) (simp_all add: bit_encode_block del: crc_loop.simps)
  finally show ?thesis by (simp only: codeword_bits_def reg_bits_crc_loop reg_bits_0)
qed

fun unit_lists :: "bool list \<Rightarrow> bool list \<Rightarrow> bool list list" where
  "unit_lists xs [] = []"
| "unit_lists xs (y # ys) = (xs @ True # ys) # unit_lists (y # xs) ys"

definition basis_lists :: "bool list list" where
  "basis_lists = unit_lists [] (replicate 16 False)"

lemma basis_bits: "list_all (\<lambda>bs. foldl (\<lambda>r b. lfsr b r) zeros (codeword_bits bs) = zeros) basis_lists"
  by code_simp

lemma basis_lists_units: "map (\<lambda>k. map (\<lambda>n. n = k) (rev [0..<16])) (rev [0..<16]) = basis_lists"
proof -
  have "[0..<16] = [0, 1, 2, 3, 4, 5, 6, 7, 8, 9, 10, 11, 12, 13, 14, 15 :: nat]" by (simp add: upt_rec)
  moreover have "replicate 16 False = [False, False, False, False, False, False, False, False,
      False, False, False, False, False, False, False, False]" by (simp add: numeral_eq_Suc)
  ultimately show ?thesis by (simp add: basis_lists_def)
qed

lemma unit_word_bits:
  assumes "k < 16"
  shows "map (bit (push_bit k 1 :: u16)) (rev [0..<16]) \<in> set basis_lists"
proof -
  have "map (bit (push_bit k 1 :: u16)) (rev [0..<16]) = map (\<lambda>n. n = k) (rev [0..<16])"
    by (rule map_cong) (use assms in \<open>auto simp: bit_exp_iff\<close>)
  moreover have "k \<in> set (rev [0..<16])" using assms by simp
  ultimately show ?thesis unfolding basis_lists_units [symmetric] set_map by blast
qed

lemma basis_codeword:
  assumes "k < 16"
  shows "calcSyndrome (encode_block (push_bit k 1)) = 0"
proof -
  have "bits_loop 26 (bit (encode_block (push_bit k 1))) zeros = zeros"
    using basis_bits unit_word_bits [OF assms] unfolding bits_loop_foldl encode_block_bits list_all_iff by blast
  then have "reg_bits (calcSyndrome (encode_block (push_bit k 1))) = reg_bits 0"
    by (simp only: reg_bits_syndrome reg_bits_0)
  then show ?thesis using reg_bits_eq_iff [OF calcSyndrome_small small_0] by blast
qed

lemma take_bit_Suc_xor: "take_bit (Suc n) (d :: u16) = take_bit n d XOR (if bit d n then push_bit n 1 else 0)"
  by (rule bit_eqI) (auto simp: bit_xor_iff bit_take_bit_iff bit_exp_iff bit_1_iff less_Suc_eq dest: bit_imp_le_length)

lemma encode_block_0: "encode_block 0 = 0"
  using encode_block_linear [of 0 0] by simp

lemma calcSyndrome_0: "calcSyndrome 0 = 0"
  using calcSyndrome_linear [of 0 0] by simp

lemma encode_block_codeword: "calcSyndrome (encode_block data) = 0"
proof -
  have "calcSyndrome (encode_block (take_bit n data)) = 0" if "n \<le> 16" for n
    using that
  proof (induction n)
    case 0
    show ?case by (simp add: encode_block_0 calcSyndrome_0)
  next
    case (Suc n)
    have "calcSyndrome (encode_block (push_bit n 1)) = 0"
      using Suc.prems basis_codeword [of n] by simp
    with Suc show ?case
      by (auto simp: take_bit_Suc_xor encode_block_linear calcSyndrome_linear encode_block_0 calcSyndrome_0)
  qed
  from this [of 16] show ?thesis by (simp add: take_bit_word_eq_self)
qed

section \<open>The invariant of the decoder\<close>

definition rds_ok :: "RdsDecoder \<Rightarrow> bool" where
  "rds_ok d \<longleftrightarrow> 0 \<le> sync d \<and> sync d \<le> 4 \<and> 0 \<le> contGroup d \<and> contGroup d \<le> 2 \<and> skip d \<le> 26 \<and>
     take_bit 26 (shiftReg d) = shiftReg d \<and>
     length (programServiceName d) = 8 \<and> length (programServiceNameFullUpdate d) = 8 \<and>
     length (radioText d) = 64 \<and> length (radioTextFullUpdate d) = 64 \<and> length (programTypeName d) = 8"

definition texts_ok :: "RdsDecoder \<Rightarrow> bool" where
  "texts_ok d \<longleftrightarrow>
     length (programServiceName d) = 8 \<and> length (programServiceNameFullUpdate d) = 8 \<and>
     length (radioText d) = 64 \<and> length (radioTextFullUpdate d) = 64 \<and> length (programTypeName d) = 8"

definition control_of :: "RdsDecoder \<Rightarrow> u32 \<times> int \<times> int \<times> int \<times> BlockType" where
  "control_of d = (shiftReg d, sync d, skip d, contGroup d, lastType d)"

lemma rds_ok_texts: "rds_ok d \<longleftrightarrow> 0 \<le> sync d \<and> sync d \<le> 4 \<and> 0 \<le> contGroup d \<and> contGroup d \<le> 2 \<and>
    skip d \<le> 26 \<and> take_bit 26 (shiftReg d) = shiftReg d \<and> texts_ok d"
  by (simp add: rds_ok_def texts_ok_def)

text \<open>The addresses of the segments are masked, so all writes are inside.\<close>

lemma blk_bound: "unat (blk d t n 0b11) < 4" "unat (blk d t n 0xF) < 16"
proof -
  have "(3 :: u32) = mask 2" "(15 :: u32) = mask 4" by (simp_all add: mask_eq_exp_minus_1)
  then have "blk d t n 0b11 = take_bit 2 (drop_bit n (blocks d t))" "blk d t n 0xF = take_bit 4 (drop_bit n (blocks d t))"
    by (simp_all add: blk_def take_bit_eq_mask)
  then show "unat (blk d t n 0b11) < 4" "unat (blk d t n 0xF) < 16"
    using take_bit_nat_less_exp [of 2 "unat (drop_bit n (blocks d t))"] take_bit_nat_less_exp [of 4 "unat (drop_bit n (blocks d t))"]
    by (simp_all only: unsigned_take_bit_eq) simp_all
qed

lemma put_chars_inside:
  "off + 1 < length txt \<Longrightarrow> put_chars off d t txt = txt[off := ucast (blk d t 18 0xFF), off + 1 := ucast (blk d t 10 0xFF)]"
  by (simp add: put_chars_def put_char_def)

lemma put_chars_length [simp]: "off + 1 < length txt \<Longrightarrow> length (put_chars off d t txt) = length txt"
  by (simp add: put_chars_inside)

lemma put_avail_length [simp]: "off + 1 < length txt \<Longrightarrow> length (put_avail off d t txt) = length txt"
  by (simp add: put_avail_def)

lemma store_radioText_keeps [simp]:
  "control_of (store_radioText offset pos n tx d) = control_of d"
  "length tx = 64 \<Longrightarrow> texts_ok d \<Longrightarrow> texts_ok (store_radioText offset pos n tx d)"
  by (simp_all add: store_radioText_def control_of_def texts_ok_def Let_def)

lemma decodeBlockA_keeps [simp]: "control_of (decodeBlockA now d) = control_of d" "texts_ok (decodeBlockA now d) = texts_ok d"
  by (simp_all add: decodeBlockA_def control_of_def texts_ok_def Let_def)

lemma decodeBlockB_keeps [simp]: "control_of (decodeBlockB now d) = control_of d" "texts_ok (decodeBlockB now d) = texts_ok d"
  by (simp_all add: decodeBlockB_def control_of_def texts_ok_def Let_def)

lemma decodeGroup0_control [simp]: "control_of (decodeGroup0 now d) = control_of d"
  by (simp add: decodeGroup0_def control_of_def Let_def)

lemma decodeGroup0_texts: "texts_ok d \<Longrightarrow> texts_ok (decodeGroup0 now d)"
  using blk_bound(1) [of d BLOCK_TYPE_B 10] by (simp add: decodeGroup0_def texts_ok_def Let_def)

lemma decodeGroup2_control [simp]: "control_of (decodeGroup2 now d) = control_of d"
  by (simp add: decodeGroup2_def Let_def control_of_def [of "r\<lparr>group2LastUpdate := u\<rparr>" for r u] control_of_def [of d]
    store_radioText_def)

lemma decodeGroup2_texts:
  assumes "texts_ok d"
  shows "texts_ok (decodeGroup2 now d)"
proof -
  have g: "texts_ok (x\<lparr>group2LastUpdate := now\<rparr>) = texts_ok x" for x by (simp add: texts_ok_def)
  have t: "length (radioText d) = 64" "texts_ok (d\<lparr>radioTextFullUpdate := radioText d, radioText := replicate 64 0x20, rtAB := b\<rparr>)"
    "texts_ok (d\<lparr>rtAB := b\<rparr>)" for b
    using assms by (simp_all add: texts_ok_def)
  show ?thesis unfolding decodeGroup2_def Let_def g using t assms blk_bound(2) [of d BLOCK_TYPE_B 10] by simp
qed

lemma decodeGroup10_control [simp]: "control_of (decodeGroup10 now d) = control_of d"
  by (simp add: decodeGroup10_def control_of_def Let_def)

lemma decodeGroup10_texts: "texts_ok d \<Longrightarrow> texts_ok (decodeGroup10 now d)"
  by (simp add: decodeGroup10_def texts_ok_def Let_def)

lemma decodeGroup_keeps: "control_of (decodeGroup now d) = control_of d" "texts_ok d \<Longrightarrow> texts_ok (decodeGroup now d)"
  by (simp_all add: decodeGroup_def Let_def decodeGroup0_texts decodeGroup2_texts decodeGroup10_texts)

lemma store_block_texts:
  assumes "texts_ok d"
  shows "texts_ok (store_block now type d)"
proof -
  have t: "texts_ok (x\<lparr>contGroup := n\<rparr>) = texts_ok x" "texts_ok (x\<lparr>blocks := f, blockAvail := g\<rparr>) = texts_ok x" for x n f g
    by (simp_all add: texts_ok_def)
  show ?thesis unfolding store_block_def Let_def split_beta by (simp add: t assms)
qed

lemma store_block_control:
  "shiftReg (store_block now type d) = shiftReg d \<and> sync (store_block now type d) = sync d \<and>
   (contGroup (store_block now type d) = contGroup d \<or> contGroup (store_block now type d) = 0 \<or>
    contGroup (store_block now type d) = 1 \<or> contGroup (store_block now type d) = contGroup d + 1)"
proof -
  have c: "shiftReg (decodeBlockA now x) = shiftReg x" "sync (decodeBlockA now x) = sync x" "contGroup (decodeBlockA now x) = contGroup x"
    "shiftReg (decodeBlockB now x) = shiftReg x" "sync (decodeBlockB now x) = sync x" for x
    using decodeBlockA_keeps(1) [of now x] decodeBlockB_keeps(1) [of now x] by (simp_all add: control_of_def)
  show ?thesis unfolding store_block_def Let_def split_beta by (simp add: c)
qed

lemma close_group_texts: "texts_ok d \<Longrightarrow> texts_ok (close_group now d)"
  by (simp add: close_group_def decodeGroup_keeps(2) texts_ok_def [of "d\<lparr>contGroup := 0\<rparr>"] texts_ok_def [of d])

lemma close_group_control:
  "shiftReg (close_group now d) = shiftReg d \<and> sync (close_group now d) = sync d \<and>
   contGroup (close_group now d) = (if contGroup d \<ge> 3 then 0 else contGroup d)"
  using decodeGroup_keeps(1) [of now "d\<lparr>contGroup := 0\<rparr>"] by (simp add: close_group_def control_of_def)

lemma shift_symbol_ok: "rds_ok d \<Longrightarrow> rds_ok (shift_symbol symbol d)"
proof -
  have "take_bit 26 (shift_in (shiftReg d) (bit symbol 0)) = shift_in (shiftReg d) (bit symbol 0)"
    by (rule bit_word_eqI) (auto simp: bit_take_bit_iff bit_shift_in)
  then show "rds_ok d \<Longrightarrow> rds_ok (shift_symbol symbol d)" by (simp add: rds_ok_def shift_symbol_bit)
qed

lemma take_block_ok:
  assumes "rds_ok d"
  shows "rds_ok (take_block now type d)"
proof -
  have t: "texts_ok (x\<lparr>lastType := type, skip := n\<rparr>) = texts_ok x" for x n by (simp add: texts_ok_def)
  have "texts_ok (close_group now (store_block now type d))"
    using assms by (intro close_group_texts store_block_texts) (simp add: rds_ok_texts)
  then show ?thesis
    using assms store_block_control [of now type d] close_group_control [of now "store_block now type d"]
    by (auto simp: rds_ok_texts take_block_def BLOCK_LEN_def t)
qed

lemma check_block_ok: "rds_ok d \<Longrightarrow> rds_ok (check_block now d)"
proof -
  assume "rds_ok d"
  then have s: "rds_ok (d\<lparr>sync := next_sync k (sync d)\<rparr>)" "rds_ok (d\<lparr>sync := 0\<rparr>)" for k
    by (simp_all add: rds_ok_def next_sync_def)
  then show ?thesis by (simp add: check_block_def Let_def take_block_ok)
qed

lemma process_symbol_ok: "rds_ok d \<Longrightarrow> rds_ok (process_symbol d x)"
  by (simp add: process_symbol_def split_beta shift_symbol_ok check_block_ok)

lemma rds_initial_ok: "rds_ok (rds_initial mem)"
  by (simp add: rds_ok_def rds_initial_def)

lemma rds_process_ok: "rds_ok d \<Longrightarrow> rds_ok (rds_process d symbols)"
  unfolding rds_process_def by (induction symbols arbitrary: d) (simp_all add: process_symbol_ok)


section \<open>Reception of groups\<close>

lemma encode_block_data: "drop_bit 10 (encode_block data) = ucast data"
  by (rule bit_word_eqI) (auto simp: bit_drop_bit_eq bit_ucast_iff bit_encode_block dest: bit_imp_le_length)

lemma blk_data:
  "blocks d t = encode_block x \<Longrightarrow> blk d t (n + 10) m = drop_bit n (ucast x) AND m"
  by (simp add: blk_def drop_bit_drop_bit [symmetric] encode_block_data)

lemmas blk_fields = blk_data [of _ _ _ 0, simplified] blk_data [of _ _ _ 1, simplified] blk_data [of _ _ _ 2, simplified]
  blk_data [of _ _ _ 3, simplified] blk_data [of _ _ _ 4, simplified] blk_data [of _ _ _ 5, simplified]
  blk_data [of _ _ _ 8, simplified] blk_data [of _ _ _ 10, simplified] blk_data [of _ _ _ 11, simplified]
  blk_data [of _ _ _ 12, simplified]

lemma word_of_block: "ucast (ucast x AND 0xFFFF :: u32) = (x :: u16)"
proof -
  have "(0xFFFF :: u32) = mask 16" by (simp add: mask_eq_exp_minus_1)
  then show ?thesis by (intro bit_word_eqI) (simp only: bit_ucast_iff bit_and_iff bit_mask_iff, auto)
qed

text \<open>A clean block is stored as sent and marked available.\<close>

lemma receive_clean_block:
  assumes "skip d = 26" "1 \<le> sync d"
  shows "rds_process d (rds_symbols t (encode_block data) now) =
    take_block now t (d\<lparr>shiftReg := encode_block data XOR ucast (OFFSETS t), skip := 0, sync := min 4 (sync d + 1)\<rparr>)"
  by (rule receive_block [OF assms encode_block_codeword encode_block_width])

lemma store_clean_block:
  assumes "shiftReg d = encode_block data XOR ucast (OFFSETS t)"
  shows "correctErrors (shiftReg d) t = (encode_block data, True)"
  unfolding assms by (rule correctErrors_clean [OF encode_block_codeword])

definition group_symbols :: "int \<Rightarrow> u16 \<Rightarrow> u16 \<Rightarrow> BlockType \<Rightarrow> u16 \<Rightarrow> u16 \<Rightarrow> (u8 \<times> int) list" where
  "group_symbols now a b t3 c e =
     rds_symbols BLOCK_TYPE_A (encode_block a) now @ rds_symbols BLOCK_TYPE_B (encode_block b) now @
     rds_symbols t3 (encode_block c) now @ rds_symbols BLOCK_TYPE_D (encode_block e) now"

text \<open>The decoder with the four blocks of a group in place.\<close>

definition group_blocks :: "u16 \<Rightarrow> u16 \<Rightarrow> BlockType \<Rightarrow> u16 \<Rightarrow> u16 \<Rightarrow> RdsDecoder \<Rightarrow> bool" where
  "group_blocks a b t3 c e d \<longleftrightarrow>
     blocks d BLOCK_TYPE_A = encode_block a \<and> blocks d BLOCK_TYPE_B = encode_block b \<and>
     blocks d t3 = encode_block c \<and> blocks d BLOCK_TYPE_D = encode_block e \<and>
     blockAvail d BLOCK_TYPE_A \<and> blockAvail d BLOCK_TYPE_B \<and> blockAvail d t3 \<and> blockAvail d BLOCK_TYPE_D \<and>
     piCode d = a \<and> callsign d = decodeCallsign a"

definition texts_of :: "RdsDecoder \<Rightarrow> u8 list \<times> u8 list \<times> u8 list \<times> u8 list \<times> u8 list" where
  "texts_of d = (programServiceName d, programServiceNameFullUpdate d, radioText d, radioTextFullUpdate d, programTypeName d)"

lemma take_block_A:
  assumes "shiftReg d = encode_block a XOR ucast (OFFSETS BLOCK_TYPE_A)" "contGroup d \<le> 2"
  shows "take_block now BLOCK_TYPE_A d =
    (decodeBlockA now (d\<lparr>blocks := (blocks d)(BLOCK_TYPE_A := encode_block a),
       blockAvail := (blockAvail d)(BLOCK_TYPE_A := True)\<rparr>))\<lparr>lastType := BLOCK_TYPE_A, skip := 26\<rparr>"
  using assms(2) by (simp add: take_block_def store_block_def store_clean_block [OF assms(1)] close_group_def BLOCK_LEN_def decodeBlockA_def Let_def)

lemma take_block_B:
  assumes "shiftReg d = encode_block b XOR ucast (OFFSETS BLOCK_TYPE_B)"
  shows "take_block now BLOCK_TYPE_B d =
    d\<lparr>blocks := (blocks d)(BLOCK_TYPE_B := encode_block b), blockAvail := (blockAvail d)(BLOCK_TYPE_B := True),
      contGroup := 1, lastType := BLOCK_TYPE_B, skip := 26\<rparr>"
  by (simp add: take_block_def store_block_def store_clean_block [OF assms] close_group_def BLOCK_LEN_def)

lemma take_block_C:
  assumes "shiftReg d = encode_block c XOR ucast (OFFSETS t)" "t = BLOCK_TYPE_C \<or> t = BLOCK_TYPE_CP"
    "lastType d = BLOCK_TYPE_B" "contGroup d = 1"
  shows "take_block now t d =
    d\<lparr>blocks := (blocks d)(t := encode_block c), blockAvail := (blockAvail d)(t := True),
      contGroup := 2, lastType := t, skip := 26\<rparr>"
  using assms(2-) by (auto simp: take_block_def store_block_def store_clean_block [OF assms(1)] close_group_def BLOCK_LEN_def)

lemma take_block_D:
  assumes "shiftReg d = encode_block e XOR ucast (OFFSETS BLOCK_TYPE_D)"
    "lastType d = BLOCK_TYPE_C \<or> lastType d = BLOCK_TYPE_CP" "contGroup d = 2"
  shows "take_block now BLOCK_TYPE_D d =
    (decodeGroup now (d\<lparr>blocks := (blocks d)(BLOCK_TYPE_D := encode_block e),
       blockAvail := (blockAvail d)(BLOCK_TYPE_D := True), contGroup := 0\<rparr>))\<lparr>lastType := BLOCK_TYPE_D, skip := 26\<rparr>"
  using assms(2-) by (auto simp: take_block_def store_block_def store_clean_block [OF assms(1)] close_group_def BLOCK_LEN_def)

lemma rds_process_append: "rds_process d (xs @ ys) = rds_process (rds_process d xs) ys"
  by (simp add: rds_process_def)

lemma min_step: "min 4 (min 4 (s + n) + 1) = min 4 (s + (n + 1 :: int))"
  by simp

lemma receive_group:
  assumes "skip d = 26" "1 \<le> sync d" "contGroup d \<le> 2" "t3 = BLOCK_TYPE_C \<or> t3 = BLOCK_TYPE_CP"
  obtains d' where
    "rds_process d (group_symbols now a b t3 c e) = (decodeGroup now d')\<lparr>lastType := BLOCK_TYPE_D, skip := 26\<rparr>"
    "group_blocks a b t3 c e d'" "texts_of d' = texts_of d" "rtAB d' = rtAB d" "ptnAB d' = ptnAB d"
    "contGroup d' = 0" "sync d' = min 4 (sync d + 4)"
proof -
  define d1 where "d1 = rds_process d (rds_symbols BLOCK_TYPE_A (encode_block a) now)"
  define d2 where "d2 = rds_process d1 (rds_symbols BLOCK_TYPE_B (encode_block b) now)"
  define d3 where "d3 = rds_process d2 (rds_symbols t3 (encode_block c) now)"
  define d4 where "d4 = d3\<lparr>shiftReg := encode_block e XOR ucast (OFFSETS BLOCK_TYPE_D), skip := 0,
      sync := min 4 (sync d3 + 1), blocks := (blocks d3)(BLOCK_TYPE_D := encode_block e),
      blockAvail := (blockAvail d3)(BLOCK_TYPE_D := True), contGroup := 0\<rparr>"
  define d0 where "d0 = d\<lparr>shiftReg := encode_block a XOR ucast (OFFSETS BLOCK_TYPE_A), skip := 0, sync := min 4 (sync d + 1)\<rparr>"
  have d1: "d1 = take_block now BLOCK_TYPE_A d0"
    unfolding d1_def d0_def by (rule receive_clean_block [OF assms(1,2)])
  have d1': "d1 = (decodeBlockA now (d0\<lparr>blocks := (blocks d)(BLOCK_TYPE_A := encode_block a),
       blockAvail := (blockAvail d)(BLOCK_TYPE_A := True)\<rparr>))\<lparr>lastType := BLOCK_TYPE_A, skip := 26\<rparr>"
    unfolding d1 using assms(3) by (subst take_block_A) (simp_all add: d0_def)
  have s1: "skip d1 = 26" "sync d1 = min 4 (sync d + 1)" "blocks d1 BLOCK_TYPE_A = encode_block a"
      "blockAvail d1 BLOCK_TYPE_A" "piCode d1 = a" "callsign d1 = decodeCallsign a" "texts_of d1 = texts_of d"
      "rtAB d1 = rtAB d" "ptnAB d1 = ptnAB d"
    unfolding d1' by (simp_all add: decodeBlockA_def Let_def blk_fields word_of_block d0_def texts_of_def)
  have "1 \<le> sync d1" using assms(2) s1(2) by simp
  note r2 = receive_clean_block [OF s1(1) this, of BLOCK_TYPE_B b now]
  have d2: "d2 = d1\<lparr>shiftReg := encode_block b XOR ucast (OFFSETS BLOCK_TYPE_B), sync := min 4 (sync d + 2),
      blocks := (blocks d1)(BLOCK_TYPE_B := encode_block b), blockAvail := (blockAvail d1)(BLOCK_TYPE_B := True),
      contGroup := 1, lastType := BLOCK_TYPE_B, skip := 26\<rparr>"
    unfolding d2_def r2 using min_step [of "sync d" 1] s1(2) by (subst take_block_B) (simp_all del: min_less_iff_conj)
  have s2: "skip d2 = 26" "1 \<le> sync d2" using assms(2) by (simp_all add: d2)
  note r3 = receive_clean_block [OF s2, of t3 c now]
  have d3: "d3 = d2\<lparr>shiftReg := encode_block c XOR ucast (OFFSETS t3), sync := min 4 (sync d + 3),
      blocks := (blocks d2)(t3 := encode_block c), blockAvail := (blockAvail d2)(t3 := True),
      contGroup := 2, lastType := t3, skip := 26\<rparr>"
    unfolding d3_def r3 using assms(2) assms(4) by (subst take_block_C) (simp_all add: d2)
  have s3: "skip d3 = 26" "1 \<le> sync d3" using assms(2) by (simp_all add: d3)
  note r4 = receive_clean_block [OF s3, of BLOCK_TYPE_D e now]
  have "rds_process d3 (rds_symbols BLOCK_TYPE_D (encode_block e) now) = (decodeGroup now d4)\<lparr>lastType := BLOCK_TYPE_D, skip := 26\<rparr>"
    unfolding r4 d4_def using assms(4) by (subst take_block_D) (simp_all add: d3 d2)
  then have "rds_process d (group_symbols now a b t3 c e) = (decodeGroup now d4)\<lparr>lastType := BLOCK_TYPE_D, skip := 26\<rparr>"
    by (simp add: group_symbols_def rds_process_append d1_def d2_def d3_def)
  moreover have "group_blocks a b t3 c e d4"
    using assms(4) s1 by (auto simp: group_blocks_def d4_def d3 d2)
  moreover have "texts_of d4 = texts_of d" using s1(7) by (simp add: texts_of_def d4_def d3 d2)
  moreover have "rtAB d4 = rtAB d" "ptnAB d4 = ptnAB d" "contGroup d4 = 0" using s1 by (simp_all add: d4_def d3 d2)
  moreover have "sync d4 = min 4 (sync d + 4)" using assms(2) by (simp add: d4_def d3)
  ultimately show ?thesis by (rule that)
qed


section \<open>The station name\<close>

text \<open>The block B of a group 0A with a segment address, the other bits free, and a block of two characters.\<close>

definition ps_address :: "u16 \<Rightarrow> nat \<Rightarrow> u16" where
  "ps_address flags i = (flags AND 0x07FC) OR of_nat i"

definition char_pair :: "u8 \<Rightarrow> u8 \<Rightarrow> u16" where
  "char_pair x y = push_bit 8 (ucast x) OR ucast y"

lemma low_byte: "(0xFF :: u32) = mask 8"
  by (simp add: mask_eq_exp_minus_1)

lemma char_pair_chars:
  "ucast (drop_bit 8 (ucast (char_pair x y)) AND 0xFF :: u32) = x"
  "ucast (ucast (char_pair x y) AND 0xFF :: u32) = y"
  unfolding low_byte char_pair_def
  by (intro bit_word_eqI; auto simp: bit_ucast_iff bit_and_iff bit_mask_iff bit_or_iff bit_push_bit_iff bit_drop_bit_eq
      dest: bit_imp_le_length)+

lemma put_chars_data:
  "blocks d t = encode_block (char_pair x y) \<Longrightarrow> off + 1 < length txt \<Longrightarrow> put_chars off d t txt = txt[off := x, off + 1 := y]"
  by (simp add: put_chars_inside blk_fields char_pair_chars)

lemma ps_address_fields:
  assumes "i < 4"
  shows "drop_bit 12 (ucast (ps_address flags i)) AND 0xF = (0 :: u32)"
    "drop_bit 11 (ucast (ps_address flags i)) AND 1 = (0 :: u32)"
    "unat (ucast (ps_address flags i) AND 3 :: u32) = i"
proof -
  have i: "i = 0 \<or> i = 1 \<or> i = 2 \<or> i = 3" using assms by auto
  have m: "(15 :: u32) = mask 4" "(3 :: u32) = mask 2" "(1 :: u32) = mask 1" by (simp_all add: mask_eq_exp_minus_1)
  have low: "bit (of_nat i :: u16) n \<Longrightarrow> n < 2" for n using i by (auto simp: bit_numeral_rec bit_1_iff split: nat.splits)
  have flags: "bit (0x07FC :: u16) n \<Longrightarrow> 2 \<le> n \<and> n < 11" for n
    by (auto simp: bit_numeral_rec bit_1_iff split: nat.splits)
  have b: "bit (ps_address flags i) n \<Longrightarrow> n < 11" for n
    using low flags by (force simp: ps_address_def bit_or_iff bit_and_iff)
  show "drop_bit 12 (ucast (ps_address flags i)) AND 0xF = (0 :: u32)"
    "drop_bit 11 (ucast (ps_address flags i)) AND 1 = (0 :: u32)"
    unfolding m by (intro bit_word_eqI; auto simp: bit_and_iff bit_drop_bit_eq bit_ucast_iff dest: b)+
  have "ucast (ps_address flags i) AND 3 = (of_nat i :: u32)"
    unfolding m
  proof (rule bit_word_eqI)
    fix n assume "n < LENGTH(32)"
    have "bit (of_nat i :: u16) n = bit (of_nat i :: u32) n" if "n < 2" using i that by (auto simp: bit_1_iff)
    moreover have "bit (of_nat i :: u32) n \<Longrightarrow> n < 2" using i by (auto simp: bit_numeral_rec bit_1_iff split: nat.splits)
    ultimately show "bit (ucast (ps_address flags i) AND mask 2 :: u32) n = bit (of_nat i :: u32) n"
      using flags [of n] by (auto simp: ps_address_def bit_and_iff bit_mask_iff bit_ucast_iff bit_or_iff)
  qed
  then show "unat (ucast (ps_address flags i) AND 3 :: u32) = i" using i by auto
qed

lemma decode_ps_group:
  assumes g: "group_blocks a (ps_address flags i) BLOCK_TYPE_C c (char_pair x y) d" and i: "i < 4"
    and ps: "length (programServiceName d) = 8"
  shows "decodeGroup now d = decodeGroup0 now (decodeBlockB now d)"
    "programServiceName (decodeGroup now d) = (programServiceName d)[2 * i := x, 2 * i + 1 := y]"
    "programServiceNameFullUpdate (decodeGroup now d) =
      (if i = 3 then (programServiceName d)[2 * i := x, 2 * i + 1 := y] else programServiceNameFullUpdate d)"
    "piCode (decodeGroup now d) = a" "callsign (decodeGroup now d) = decodeCallsign a"
    "alternateFrequency (decodeGroup now d) = c"
proof -
  note f = ps_address_fields [OF i, of flags]
  have b: "blocks (decodeBlockB now d) = blocks d" "blockAvail (decodeBlockB now d) = blockAvail d"
    "groupType (decodeBlockB now d) = 0" "groupVer (decodeBlockB now d) = GROUP_VER_A"
    "programServiceName (decodeBlockB now d) = programServiceName d"
    "programServiceNameFullUpdate (decodeBlockB now d) = programServiceNameFullUpdate d"
    "piCode (decodeBlockB now d) = a" "callsign (decodeBlockB now d) = decodeCallsign a"
    using g f by (simp_all add: group_blocks_def decodeBlockB_def blk_fields)
  have avail: "blockAvail d BLOCK_TYPE_B" "blockAvail d BLOCK_TYPE_C" "blockAvail d BLOCK_TYPE_D" using g by (simp_all add: group_blocks_def)
  have blks: "blocks (decodeBlockB now d) BLOCK_TYPE_B = encode_block (ps_address flags i)"
     "blocks (decodeBlockB now d) BLOCK_TYPE_C = encode_block c"
     "blocks (decodeBlockB now d) BLOCK_TYPE_D = encode_block (char_pair x y)"
    using g by (simp_all add: group_blocks_def b)
  show eq: "decodeGroup now d = decodeGroup0 now (decodeBlockB now d)"
    using avail by (simp add: decodeGroup_def Let_def b)
  have off: "unat (blk (decodeBlockB now d) BLOCK_TYPE_B 10 3) = i" using f by (simp add: blk_fields [OF blks(1)])
  show "programServiceName (decodeGroup now d) = (programServiceName d)[2 * i := x, 2 * i + 1 := y]"
    "programServiceNameFullUpdate (decodeGroup now d) =
      (if i = 3 then (programServiceName d)[2 * i := x, 2 * i + 1 := y] else programServiceNameFullUpdate d)"
    "piCode (decodeGroup now d) = a" "callsign (decodeGroup now d) = decodeCallsign a"
    "alternateFrequency (decodeGroup now d) = c"
    unfolding eq decodeGroup0_def Let_def off
    using i ps by (simp_all add: b avail put_chars_data [OF blks(3)] blk_fields [OF blks(2)] word_of_block mult.commute [of i 2])
qed

definition ps_group :: "int \<Rightarrow> u16 \<Rightarrow> u16 \<Rightarrow> u16 \<Rightarrow> u8 list \<Rightarrow> nat \<Rightarrow> (u8 \<times> int) list" where
  "ps_group now a flags c cs i =
     group_symbols now a (ps_address flags i) BLOCK_TYPE_C c (char_pair (cs ! (2 * i)) (cs ! (2 * i + 1)))"


lemma ps_group_received:
  fixes cs :: "u8 list" and a flags c :: u16 and now :: int
  assumes "rds_ok d" "skip d = 26" "1 \<le> sync d" "i < 4"
  defines "d' \<equiv> rds_process d (ps_group now a flags c cs i)"
  shows "rds_ok d' \<and> skip d' = 26 \<and> 1 \<le> sync d' \<and>
    programServiceName d' = (programServiceName d)[2 * i := cs ! (2 * i), 2 * i + 1 := cs ! (2 * i + 1)] \<and>
    (i = 3 \<longrightarrow> programServiceNameFullUpdate d' = programServiceName d') \<and>
    piCode d' = a \<and> callsign d' = decodeCallsign a \<and> alternateFrequency d' = c"
proof -
  have "contGroup d \<le> 2" using assms(1) by (simp add: rds_ok_def)
  then obtain d1 where d1:
    "d' = (decodeGroup now d1)\<lparr>lastType := BLOCK_TYPE_D, skip := 26\<rparr>"
    "group_blocks a (ps_address flags i) BLOCK_TYPE_C c (char_pair (cs ! (2 * i)) (cs ! (2 * i + 1))) d1"
    "texts_of d1 = texts_of d" "sync d1 = min 4 (sync d + 4)"
    unfolding d'_def ps_group_def using receive_group [OF assms(2,3)] by blast
  have "sync (decodeGroup now d1) = sync d1"
    using decodeGroup_keeps(1) [of now d1] by (simp add: control_of_def)
  moreover have "rds_ok d'" unfolding d'_def by (rule rds_process_ok [OF assms(1)])
  moreover have "length (programServiceName d1) = 8" using d1(3) assms(1) by (simp add: texts_of_def rds_ok_def)
  ultimately show ?thesis
    using decode_ps_group [OF d1(2) assms(4), of now] d1(3,4) assms(3) by (simp add: d1(1) texts_of_def)
qed

text \<open>A complete name: four groups, the station's PI code, free flags and alternative frequencies in each.\<close>

definition ps_transmission :: "int \<Rightarrow> u16 \<Rightarrow> (nat \<Rightarrow> u16) \<Rightarrow> (nat \<Rightarrow> u16) \<Rightarrow> u8 list \<Rightarrow> (u8 \<times> int) list" where
  "ps_transmission now a flags c cs = concat (map (\<lambda>i. ps_group now a (flags i) (c i) cs i) [0, 1, 2, 3])"

lemma eight_chars:
  assumes "length xs = 8" "length cs = 8"
  shows "xs[0 := cs ! 0, 1 := cs ! 1, 2 := cs ! 2, 3 := cs ! 3, 4 := cs ! 4, 5 := cs ! 5, 6 := cs ! 6, 7 := cs ! 7] = cs"
  using assms by (intro nth_equalityI) (auto simp: nth_list_update less_Suc_eq numeral_eq_Suc)

text \<open>
  C22: a station name arrives. Whatever the decoder received before, as long as it is synchronized, the
  four clean groups 0A with the eight characters leave exactly them in both copies of the name, with
  their text in getPSName, the PI code and its call sign, and the decoder ready for the next block.
\<close>

theorem rds_station_name_received:
  fixes cs :: "u8 list" and a :: u16 and flags c :: "nat \<Rightarrow> u16" and now :: int
  assumes "rds_ok d" "skip d = 26" "1 \<le> sync d" "length cs = 8"
  defines "d' \<equiv> rds_process d (ps_transmission now a flags c cs)"
  shows "programServiceName d' = cs \<and> programServiceNameFullUpdate d' = cs \<and>
    getPSName d' incremental = repertoireToUtf8 cs \<and> piCode d' = a \<and> callsign d' = decodeCallsign a \<and>
    rds_ok d' \<and> skip d' = 26 \<and> 1 \<le> sync d'"
proof -
  define e0 where "e0 = rds_process d (ps_group now a (flags 0) (c 0) cs 0)"
  define e1 where "e1 = rds_process e0 (ps_group now a (flags 1) (c 1) cs 1)"
  define e2 where "e2 = rds_process e1 (ps_group now a (flags 2) (c 2) cs 2)"
  have d': "d' = rds_process e2 (ps_group now a (flags 3) (c 3) cs 3)"
    by (simp add: d'_def ps_transmission_def rds_process_append e2_def e1_def e0_def)
  have g0: "rds_ok e0" "skip e0 = 26" "1 \<le> sync e0"
      "programServiceName e0 = (programServiceName d)[0 := cs ! 0, 1 := cs ! 1]"
    using ps_group_received [OF assms(1-3), of 0] by (simp_all add: e0_def)
  have g1: "rds_ok e1" "skip e1 = 26" "1 \<le> sync e1"
      "programServiceName e1 = (programServiceName e0)[2 := cs ! 2, 3 := cs ! 3]"
    using ps_group_received [OF g0(1-3), of 1] by (simp_all add: e1_def numeral_eq_Suc)
  have g2: "rds_ok e2" "skip e2 = 26" "1 \<le> sync e2"
      "programServiceName e2 = (programServiceName e1)[4 := cs ! 4, 5 := cs ! 5]"
    using ps_group_received [OF g1(1-3), of 2] by (simp_all add: e2_def numeral_eq_Suc)
  note g3 = ps_group_received [OF g2(1-3), of 3 now a "flags 3" "c 3" cs, folded d']
  have name: "programServiceName d' = cs"
    using g3 eight_chars [OF _ assms(4), of "programServiceName d"] assms(1) by (simp add: g0 g1 g2 rds_ok_def)
  with g3 show ?thesis by (simp add: getPSName_def)
qed

section \<open>Damaged blocks\<close>

text \<open>
  C21: the error correction. For every data word, block type and burst of at most five wrong bits,
  anywhere in the 26 bits, correctErrors delivers the data word that was sent; it reports the block as
  recovered unless the burst touches the last five check bits; and an undamaged block is known by its
  syndrome.
\<close>

theorem rds_burst_corrected:
  fixes data :: u16 and t :: BlockType and b :: u32 and p :: nat
  assumes "p \<le> 21"
  defines "received \<equiv> encode_block data XOR push_bit p (take_bit 5 b) XOR ucast (OFFSETS t)"
  shows "ucast (drop_bit 10 (fst (correctErrors received t)) AND 0xFFFF) = data \<and>
    (5 \<le> p \<or> take_bit 5 b = 0 \<longrightarrow> snd (correctErrors received t)) \<and>
    SYNDROMES (calcSyndrome (encode_block data XOR ucast (OFFSETS t))) = Some t"
proof -
  note c = correctErrors_burst [OF encode_block_codeword [of data] assms(1), of b t, folded received_def]
  have "ucast (drop_bit 10 (fst (correctErrors received t)) AND 0xFFFF) = data"
  proof (rule bit_word_eqI)
    fix n assume n: "n < LENGTH(16)"
    have "(0xFFFF :: u32) = mask 16" by (simp add: mask_eq_exp_minus_1)
    then have "bit (ucast (drop_bit 10 (fst (correctErrors received t)) AND 0xFFFF) :: u16) n
        = bit (fst (correctErrors received t)) (10 + n)"
      using n by (simp only: bit_ucast_iff bit_and_iff bit_mask_iff bit_drop_bit_eq) auto
    also have "\<dots> = bit (encode_block data) (10 + n)" using c n by simp
    finally show "bit (ucast (drop_bit 10 (fst (correctErrors received t)) AND 0xFFFF) :: u16) n = bit data n"
      by (simp add: bit_encode_block)
  qed
  moreover have "snd (correctErrors received t)" if "take_bit 5 b = 0"
    using correctErrors_clean [OF encode_block_codeword [of data], of t] that by (simp add: received_def)
  ultimately show ?thesis
    using c SYNDROMES_key by (auto simp: calcSyndrome_received [OF encode_block_codeword])
qed

theorem rds_burst_corrected_witness:
  "snd (correctErrors (encode_block 0x54A8 XOR push_bit 12 (take_bit 5 21) XOR ucast (OFFSETS BLOCK_TYPE_B)) BLOCK_TYPE_B)"
  using rds_burst_corrected [where p = 12 and data = "0x54A8" and b = 21 and t = BLOCK_TYPE_B] by auto

text \<open>
  The syndrome alone decides the type of a block: a single wrong bit turns a block C into what
  \<open>process\<close> takes for an intact block D, although block D cannot follow block B.
\<close>

lemma damaged_C_taken_for_D:
  "SYNDROMES (calcSyndrome (encode_block data XOR push_bit 18 1 XOR ucast (OFFSETS BLOCK_TYPE_C))) = Some BLOCK_TYPE_D"
proof -
  have e: "push_bit 18 1 = (push_bit 18 (take_bit 5 1) :: u32)" by simp
  have "reg_bits (calcSyndrome (push_bit 18 (take_bit 5 1))) = (lfsr False ^^ 18) (after_burst (burst_bits 1))"
    by (rule syndrome_burst) simp
  also have "\<dots> = reg_bits (syndrome_key BLOCK_TYPE_C XOR syndrome_key BLOCK_TYPE_D)"
    by (simp add: after_burst_def burst_bits_def zeros_def numeral_eq_Suc syndrome_key_def reg_bits_list bit_numeral_rec bit_1_iff)
  finally have "reg_bits (calcSyndrome (push_bit 18 (take_bit 5 1))) = reg_bits (syndrome_key BLOCK_TYPE_C XOR syndrome_key BLOCK_TYPE_D)" .
  moreover have "small (syndrome_key BLOCK_TYPE_C XOR syndrome_key BLOCK_TYPE_D)"
    using small_numeral [of BLOCK_TYPE_C] small_numeral [of BLOCK_TYPE_D] by (simp add: small_def bit_xor_iff)
  ultimately have "calcSyndrome (push_bit 18 1) = syndrome_key BLOCK_TYPE_C XOR syndrome_key BLOCK_TYPE_D"
    using reg_bits_eq_iff [OF calcSyndrome_small] unfolding e by blast
  then have "calcSyndrome (encode_block data XOR push_bit 18 1 XOR ucast (OFFSETS BLOCK_TYPE_C)) = syndrome_key BLOCK_TYPE_D"
    by (simp only: calcSyndrome_linear calcSyndrome_offset encode_block_codeword) (auto simp: bit_eq_iff bit_xor_iff)
  then show ?thesis by (simp only: SYNDROMES_key)
qed

section \<open>Text\<close>

definition utf8_char :: "nat list \<Rightarrow> bool" where
  "utf8_char bs = (case bs of
       [a] \<Rightarrow> a < 0x80
     | [a, b] \<Rightarrow> 0xC2 \<le> a \<and> a \<le> 0xDF \<and> 0x80 \<le> b \<and> b \<le> 0xBF
     | [a, b, c] \<Rightarrow> 0xE1 \<le> a \<and> a \<le> 0xEC \<and> 0x80 \<le> b \<and> b \<le> 0xBF \<and> 0x80 \<le> c \<and> c \<le> 0xBF
     | _ \<Rightarrow> False)"

lemma EBU_length: "length EBU_REPERTOIRE = 256"
  by (simp add: EBU_REPERTOIRE_def)

lemma EBU_utf8: "list_all utf8_char EBU_REPERTOIRE"
  by (simp add: EBU_REPERTOIRE_def utf8_char_def)

text \<open>
  C40: every text the decoder shows, whatever bytes were received, is valid UTF-8, one character of one
  to three bytes for every byte of the repertoire.
\<close>

theorem rds_text_utf8:
  "\<exists>chars. repertoireToUtf8 raw = map char_of (concat chars) \<and> length chars = length raw \<and> list_all utf8_char chars"
proof (intro exI conjI)
  show "repertoireToUtf8 raw = map char_of (concat (map (\<lambda>c. EBU_REPERTOIRE ! unat c) raw))"
    by (simp add: repertoireToUtf8_def map_concat o_def)
  have "unat (c :: u8) < 256" for c using unsigned_less [of c] by simp
  then show "list_all utf8_char (map (\<lambda>c. EBU_REPERTOIRE ! unat c) raw)"
    using EBU_utf8 by (simp add: list_all_length EBU_length)
qed simp

lemma repertoire_ascii: "list_all (\<lambda>c. EBU_REPERTOIRE ! c = [c]) ([0x41..<0x5B] @ [0x61..<0x7B] @ [0x30..<0x3A] @ [0x20])"
  by (simp add: upt_rec EBU_REPERTOIRE_def)


section \<open>Call signs\<close>

text \<open>The call sign as the standard builds it: \<open>K\<close> or \<open>W\<close> and three letters.\<close>

definition letter :: "int \<Rightarrow> char" where
  "letter n = char_of (nat (65 + n))"

definition call_code :: "bool \<Rightarrow> int \<Rightarrow> int \<Rightarrow> int \<Rightarrow> int" where
  "call_code w x y z = (if w then 21672 else 4096) + 676 * x + 26 * y + z"

text \<open>The codes the standard moves away from: \<open>XY00\<close> is sent as \<open>AFXY\<close> and \<open>X0YZ\<close> as \<open>AXYZ\<close>.\<close>

definition pi_on_air :: "int \<Rightarrow> int" where
  "pi_on_air p =
     (if p mod 256 = 0 then 0xAF00 + p div 256
      else if p div 256 mod 16 = 0 then 0xA000 + p div 4096 * 256 + p mod 256
      else p)"

lemma base26_0: "base26_digits 0 = []"
  by (simp add: base26_digits.simps)

lemma base26_pos:
  "0 < n \<Longrightarrow> base26_digits n = letter (n mod 26) # base26_digits (n div 26)"
proof -
  assume n: "0 < n"
  then have "n sdiv 26 = n div 26" by (simp add: signed_divide_int_def)
  moreover have "n smod 26 = n mod 26" using n by (simp add: signed_modulo_int_def calculation minus_mult_div_eq_mod)
  moreover have "(65 + n mod 26) mod 256 = 65 + n mod 26"
    using pos_mod_bound [of 26 n] pos_mod_sign [of 26 n] by (intro mod_pos_pos_trivial) auto
  ultimately show ?thesis using n by (subst base26_digits.simps) (simp add: letter_def)
qed

lemma letter_0: "letter 0 = CHR ''A''"
  unfolding letter_def by code_simp

lemma divmod_digits: "0 \<le> r \<Longrightarrow> r < k \<Longrightarrow> (k * q + r) div k = q \<and> (k * q + r) mod k = (r :: int)"
  by simp

lemma base26_three:
  assumes "0 \<le> x" "x < 26" "0 \<le> y" "y < 26" "0 \<le> z" "z < 26"
  defines "s \<equiv> base26_digits (676 * x + 26 * y + z)"
  shows "s @ replicate (3 - length s) CHR ''A'' = [letter z, letter y, letter x]"
proof (cases "676 * x + 26 * y + z = 0")
  case True
  then have "x = 0 \<and> y = 0 \<and> z = 0" using assms(1,3,5) by presburger
  then show ?thesis by (simp add: s_def base26_0 letter_0 numeral_eq_Suc)
next
  case False
  have d: "(676 * x + 26 * y + z) div 26 = 26 * x + y" "(676 * x + 26 * y + z) mod 26 = z"
    "(26 * x + y) div 26 = x" "(26 * x + y) mod 26 = y"
    using divmod_digits [of z 26 "26 * x + y"] divmod_digits [of y 26 x] assms by (simp_all add: algebra_simps)
  have s: "s = letter z # base26_digits (26 * x + y)"
    using False assms by (simp add: s_def base26_pos d)
  show ?thesis
  proof (cases "26 * x + y = 0")
    case True
    then have "x = 0 \<and> y = 0" using assms(1,3) by presburger
    then show ?thesis by (simp add: s base26_0 letter_0 numeral_eq_Suc)
  next
    case False
    then have s: "s = letter z # letter y # base26_digits x" using assms by (simp add: s base26_pos d)
    show ?thesis
    proof (cases "x = 0")
      case True
      then show ?thesis by (simp add: s base26_0 letter_0)
    next
      case False
      then show ?thesis using assms by (simp add: s base26_pos base26_0)
    qed
  qed
qed

lemma base26ToCall_code:
  assumes "0 \<le> x" "x < 26" "0 \<le> y" "y < 26" "0 \<le> z" "z < 26"
  shows "base26ToCall (call_code w x y z) = [if w then CHR ''W'' else CHR ''K'', letter x, letter y, letter z]"
proof -
  have w: "call_code w x y z \<ge> 21672 \<longleftrightarrow> w" using assms by (auto simp: call_code_def)
  have r: "call_code w x y z - (if w then 21672 else 4096) = 676 * x + 26 * y + z" by (simp add: call_code_def)
  show ?thesis unfolding base26ToCall_def Let_def w r base26_three [OF assms] by simp
qed

text \<open>The word tests of \<open>decodeCallsign\<close> as arithmetic.\<close>

lemma pi_word_fields:
  fixes piw :: u16
  shows "drop_bit 8 piw = 0xAF \<longleftrightarrow> uint piw div 256 = 0xAF"
    "drop_bit 12 piw = 0xA \<longleftrightarrow> uint piw div 4096 = 0xA"
    "uint (push_bit 8 (piw AND 0xFF)) = uint piw mod 256 * 256"
    "piw AND 0xFF = 0 \<longleftrightarrow> uint piw mod 256 = 0"
    "drop_bit 8 piw AND 0xF = 0 \<longleftrightarrow> uint piw div 256 mod 16 = 0"
    "uint (push_bit 12 (drop_bit 8 piw AND 0xF) OR (piw AND 0xFF)) = uint piw div 256 mod 16 * 4096 + uint piw mod 256"
proof -
  have m: "(0xFF :: u16) = mask 8" "(0xF :: u16) = mask 4" by (simp_all add: mask_eq_exp_minus_1)
  have low: "uint (w AND 0xFF) = uint w mod 256" "uint (w AND 0xF) = uint w mod 16" for w :: u16
    unfolding m take_bit_eq_mask [symmetric] unsigned_take_bit_eq by (simp_all add: take_bit_eq_mod)
  have high: "uint (drop_bit 8 piw) = uint piw div 256" "uint (drop_bit 12 piw) = uint piw div 4096"
    by (simp_all add: drop_bit_eq_div uint_div)
  show "drop_bit 8 piw = 0xAF \<longleftrightarrow> uint piw div 256 = 0xAF" "drop_bit 12 piw = 0xA \<longleftrightarrow> uint piw div 4096 = 0xA"
    by (simp_all only: word_uint_eq_iff high) simp_all
  show pl: "uint (push_bit 8 (piw AND 0xFF)) = uint piw mod 256 * 256"
    unfolding unsigned_push_bit_eq unfolding low push_bit_eq_mult by (simp add: take_bit_eq_mod)
  show "piw AND 0xFF = 0 \<longleftrightarrow> uint piw mod 256 = 0"
    using low(1) [of piw] by (metis unsigned_0 word_uint_eq_iff)
  show "drop_bit 8 piw AND 0xF = 0 \<longleftrightarrow> uint piw div 256 mod 16 = 0"
    using low(2) [of "drop_bit 8 piw"] by (metis high(1) unsigned_0 word_uint_eq_iff)
  have x: "uint (push_bit 12 (drop_bit 8 piw AND 0xF)) = push_bit 12 (uint piw div 256 mod 16)"
    unfolding unsigned_push_bit_eq unfolding low high push_bit_eq_mult by (simp add: take_bit_eq_mod)
  have y: "uint (piw AND 0xFF) = take_bit 12 (uint piw mod 256)"
    unfolding low take_bit_eq_mod by simp
  show "uint (push_bit 12 (drop_bit 8 piw AND 0xF) OR (piw AND 0xFF)) = uint piw div 256 mod 16 * 4096 + uint piw mod 256"
    unfolding unsigned_or_eq x y or.commute [of "push_bit _ _"] concat_bit_def [symmetric] concat_bit_eq
    by (simp add: push_bit_eq_mult take_bit_eq_mod)
qed

lemma pi_digits:
  fixes p :: int
  assumes "0x1000 \<le> p" "p \<le> 0x994F"
  obtains a b l where "p = 4096 * a + 256 * b + l" "1 \<le> a" "a \<le> 9" "0 \<le> b" "b < 16" "0 \<le> l" "l < 256"
    "p mod 256 = l" "p div 256 = 16 * a + b" "p div 256 mod 16 = b" "p div 4096 = a"
proof
  let ?h = "p div 256"
  have h: "p = 256 * ?h + p mod 256" "0 \<le> p mod 256" "p mod 256 < 256" by simp_all
  have a: "?h = 16 * (?h div 16) + ?h mod 16" "0 \<le> ?h mod 16" "?h mod 16 < 16" by simp_all
  have q: "p div 4096 = ?h div 16" by (simp add: zdiv_zmult2_eq [symmetric])
  show "p = 4096 * (p div 4096) + 256 * (?h mod 16) + p mod 256" using h(1) a(1) q by linarith
  show "1 \<le> p div 4096" "p div 4096 \<le> 9" using h a q assms by linarith+
  show "?h = 16 * (p div 4096) + ?h mod 16" using a(1) q by linarith
qed simp_all

lemma pi_on_air_parts:
  fixes a b l :: int
  assumes "1 \<le> a" "a \<le> 9" "0 \<le> b" "b < 16" "0 \<le> l" "l < 256"
  defines "p \<equiv> 4096 * a + 256 * b + l"
  shows "(0xAF00 + (16 * a + b)) div 256 = 0xAF" "l = 0 \<Longrightarrow> (0xAF00 + (16 * a + b)) mod 256 * 256 = p"
    "(0xA000 + a * 256 + l) div 256 \<noteq> 0xAF" "(0xA000 + a * 256 + l) div 4096 = 0xA"
    "b = 0 \<Longrightarrow> (0xA000 + a * 256 + l) div 256 mod 16 * 4096 + (0xA000 + a * 256 + l) mod 256 = p"
    "16 * a + b \<noteq> 0xAF" "a \<noteq> 0xA"
proof -
  have "0 \<le> 16 * a + b" "16 * a + b < 256" using assms by linarith+
  then show "(0xAF00 + (16 * a + b)) div 256 = 0xAF" "l = 0 \<Longrightarrow> (0xAF00 + (16 * a + b)) mod 256 * 256 = p"
    using divmod_digits [of "16 * a + b" 256 "0xAF"] by (simp_all add: p_def algebra_simps)
  have e: "0xA000 + a * 256 + l = 256 * (0xA0 + a) + l" "0xA000 + a * 256 + l = 4096 * 0xA + (a * 256 + l)" by simp_all
  have d: "(0xA000 + a * 256 + l) div 256 = 0xA0 + a" "(0xA000 + a * 256 + l) mod 256 = l"
    using divmod_digits [OF assms(5,6), of "0xA0 + a"] unfolding e(1) by simp_all
  have "(16 * 0xA + a) mod 16 = a" using divmod_digits [of a 16 "0xA"] assms by simp
  then show "b = 0 \<Longrightarrow> (0xA000 + a * 256 + l) div 256 mod 16 * 4096 + (0xA000 + a * 256 + l) mod 256 = p"
    by (simp add: d p_def)
  show "(0xA000 + a * 256 + l) div 256 \<noteq> 0xAF" "16 * a + b \<noteq> 0xAF" "a \<noteq> 0xA" using assms d by linarith+
  show "(0xA000 + a * 256 + l) div 4096 = 0xA"
    unfolding e(2) using divmod_digits [of "a * 256 + l" 4096 "0xA"] assms by linarith
qed

text \<open>
  Every North American call sign of four letters is decoded from the code the standard assigns to
  it, sent as it is or in its A or AF form; the digit loop ends for each.
\<close>

theorem rds_call_sign:
  assumes "0 \<le> x" "x < 26" "0 \<le> y" "y < 26" "0 \<le> z" "z < 26"
  shows "decodeCallsign (word_of_int (pi_on_air (call_code w x y z))) =
    [if w then CHR ''W'' else CHR ''K'', letter x, letter y, letter z]"
proof -
  define p where "p = call_code w x y z"
  have p: "0x1000 \<le> p" "p \<le> 0x994F" using assms by (auto simp: p_def call_code_def)
  obtain a b l where abl: "p = 4096 * a + 256 * b + l" "1 \<le> a" "a \<le> 9" "0 \<le> b" "b < 16" "0 \<le> l" "l < 256"
    "p mod 256 = l" "p div 256 = 16 * a + b" "p div 256 mod 16 = b" "p div 4096 = a" using pi_digits [OF p] by metis
  note parts = pi_on_air_parts [OF abl(2-7), folded abl(1)]
  let ?w = "word_of_int (pi_on_air p) :: u16"
  have air: "pi_on_air p = (if l = 0 then 0xAF00 + (16 * a + b) else if b = 0 then 0xA000 + a * 256 + l else p)"
    unfolding pi_on_air_def abl(8) abl(10,11) unfolding abl(9) by (rule refl)
  have "0 \<le> pi_on_air p" "pi_on_air p < 0x10000" unfolding air using abl(2-7) p by (auto split: if_splits)
  then have u: "uint ?w = pi_on_air p" by (simp add: uint_word_of_int take_bit_eq_mod)
  have "decodeCallsign ?w = base26ToCall p"
  proof (cases "l = 0")
    case True
    then have v: "pi_on_air p = 0xAF00 + (16 * a + b)" by (simp add: air)
    show ?thesis unfolding decodeCallsign_def Let_def pi_word_fields v u [unfolded v] parts(1) parts(2) [OF True] by (simp only: refl if_True)
  next
    case l: False
    show ?thesis
    proof (cases "b = 0")
      case True
      then have v: "pi_on_air p = 0xA000 + a * 256 + l" using l by (simp add: air)
      show ?thesis unfolding decodeCallsign_def Let_def pi_word_fields v u [unfolded v] parts(4) parts(5) [OF True]
        by (simp only: refl if_True parts(3) if_False)
    next
      case False
      then have v: "pi_on_air p = p" using l by (simp add: air)
      show ?thesis unfolding decodeCallsign_def Let_def pi_word_fields v u [unfolded v] abl(8) abl(10,11) unfolding abl(9)
        using p l False parts(6,7) by simp
    qed
  qed
  then show ?thesis using base26ToCall_code [OF assms] by (simp add: p_def)
qed

theorem rds_call_sign_witness: "decodeCallsign (word_of_int (pi_on_air (call_code True 13 24 2))) = ''WNYC''"
proof -
  have "[letter 13, letter 24, letter 2] = ''NYC''" unfolding letter_def by code_simp
  then show ?thesis using rds_call_sign [of 13 24 2 True] by simp
qed

text \<open>
  A code outside the assigned range after the substitutions, as \<open>AF00\<close>, is not rejected: the remainder
  of the negative number is negative and the call sign holds characters below \<open>A\<close>.
\<close>

lemma call_sign_below_range: "decodeCallsign 0xAF00 = ''K;@3''"
proof -
  have "base26_digits (- 4096) = [char_of (51 :: nat), char_of (64 :: nat), char_of (59 :: nat)]"
    by (simp add: base26_digits.simps signed_divide_int_def signed_modulo_int_def)
  moreover have "[char_of (59 :: nat), char_of (64 :: nat), char_of (51 :: nat)] = '';@3''" by code_simp
  ultimately show ?thesis by (simp add: decodeCallsign_def base26ToCall_def)
qed


section \<open>Properties of the decoder\<close>

text \<open>
  What a group may change of a text: the characters of one segment, two of them from each of its
  blocks, if that block was received; all others stay.
\<close>

definition segment_text :: "RdsDecoder \<Rightarrow> BlockType list \<Rightarrow> nat \<Rightarrow> u8 list \<Rightarrow> u8 list" where
  "segment_text d ts segment txt =
     map (\<lambda>i. let t = ts ! (i mod (2 * length ts) div 2)
              in if i div (2 * length ts) = segment \<and> blockAvail d t
                 then ucast (blk d t (if even i then 18 else 10) 0xFF) else txt ! i) [0..<length txt]"

lemma segment_two: "2 * seg + 1 < length txt \<Longrightarrow> put_avail (2 * seg) d t txt = segment_text d [t] seg txt"
proof (rule nth_equalityI)
  assume "2 * seg + 1 < length txt"
  then show "length (put_avail (2 * seg) d t txt) = length (segment_text d [t] seg txt)" by (simp add: segment_text_def)
  fix i
  assume l: "2 * seg + 1 < length txt" "i < length (put_avail (2 * seg) d t txt)"
  consider "i = 2 * seg" | "i = 2 * seg + 1" | "i div 2 \<noteq> seg" "i \<noteq> 2 * seg" "i \<noteq> 2 * seg + 1" by fastforce
  then show "put_avail (2 * seg) d t txt ! i = segment_text d [t] seg txt ! i"
    using l by cases (simp_all add: segment_text_def put_avail_def put_chars_inside split: if_splits)
qed

lemma segment_four:
  assumes "4 * seg + 3 < length txt"
  shows "put_avail (4 * seg + 2) d t2 (put_avail (4 * seg) d t1 txt) = segment_text d [t1, t2] seg txt"
proof (rule nth_equalityI)
  show "length (put_avail (4 * seg + 2) d t2 (put_avail (4 * seg) d t1 txt)) = length (segment_text d [t1, t2] seg txt)"
    using assms by (simp add: segment_text_def)
  fix i
  assume "i < length (put_avail (4 * seg + 2) d t2 (put_avail (4 * seg) d t1 txt))"
  then have i: "i < length txt" using assms by simp
  have e: "Suc (4 * seg) div 4 = seg" "Suc (Suc (4 * seg)) div 4 = seg" "Suc (Suc (Suc (4 * seg))) div 4 = seg"
    "Suc (4 * seg) mod 4 = 1" "Suc (Suc (4 * seg)) mod 4 = 2" "Suc (Suc (Suc (4 * seg))) mod 4 = 3" by presburger+
  consider "i = 4 * seg" | "i = Suc (4 * seg)" | "i = Suc (Suc (4 * seg))" | "i = Suc (Suc (Suc (4 * seg)))"
    | "i div 4 \<noteq> seg" "i \<noteq> 4 * seg" "i \<noteq> Suc (4 * seg)" "i \<noteq> Suc (Suc (4 * seg))" "i \<noteq> Suc (Suc (Suc (4 * seg)))" by fastforce
  then show "put_avail (4 * seg + 2) d t2 (put_avail (4 * seg) d t1 txt) ! i = segment_text d [t1, t2] seg txt ! i"
    using assms i by cases (simp_all add: segment_text_def put_avail_def put_chars_inside e)
qed

lemma decodeGroup0_segment:
  assumes "texts_ok d"
  shows "programServiceName (decodeGroup0 now d) =
     segment_text d [BLOCK_TYPE_D] (unat (blk d BLOCK_TYPE_B 10 0b11)) (programServiceName d)"
proof -
  let ?seg = "unat (blk d BLOCK_TYPE_B 10 0b11)"
  have "programServiceName (decodeGroup0 now d) = put_avail (2 * ?seg) d BLOCK_TYPE_D (programServiceName d)"
    unfolding decodeGroup0_def Let_def put_avail_def by (simp add: mult.commute)
  moreover have "2 * ?seg + 1 < length (programServiceName d)" using assms blk_bound(1) [of d BLOCK_TYPE_B 10] by (simp add: texts_ok_def)
  ultimately show ?thesis using segment_two by simp
qed

lemma decodeGroup2_segment:
  assumes "texts_ok d"
  defines "old \<equiv> (if (blk d BLOCK_TYPE_B 14 1 \<noteq> 0) \<noteq> rtAB d then replicate 64 0x20 else radioText d)"
    and "segment \<equiv> unat (blk d BLOCK_TYPE_B 10 0xF)"
  shows "radioText (decodeGroup2 now d) =
     (if groupVer d = GROUP_VER_A then segment_text d [BLOCK_TYPE_C, BLOCK_TYPE_D] segment old
      else segment_text d [BLOCK_TYPE_D] segment old)"
proof -
  have l: "segment < 16" "length old = 64" using blk_bound(2) [of d BLOCK_TYPE_B 10] assms(1) by (simp_all add: segment_def old_def texts_ok_def)
  then have "put_avail (4 * segment + 2) d BLOCK_TYPE_D (put_avail (4 * segment) d BLOCK_TYPE_C old) = segment_text d [BLOCK_TYPE_C, BLOCK_TYPE_D] segment old"
    "put_avail (2 * segment) d BLOCK_TYPE_D old = segment_text d [BLOCK_TYPE_D] segment old"
    by (intro segment_four segment_two; simp)+
  moreover have "radioText (store_radioText offset pos n tx x) = tx" for offset pos n tx x by (simp add: store_radioText_def Let_def)
  ultimately show ?thesis unfolding segment_def old_def decodeGroup2_def Let_def
    by (cases "(blk d BLOCK_TYPE_B 14 1 \<noteq> 0) = rtAB d") (simp_all add: mult.commute)
qed

lemma decodeGroup10_segment:
  assumes "texts_ok d"
  shows "programTypeName (decodeGroup10 now d) =
     segment_text d [BLOCK_TYPE_C, BLOCK_TYPE_D] (if blk d BLOCK_TYPE_B 10 1 \<noteq> 0 then 1 else 0)
       (if (blk d BLOCK_TYPE_B 14 1 \<noteq> 0) \<noteq> ptnAB d then replicate 8 0x20 else programTypeName d)"
  using segment_four [of 1 _ d BLOCK_TYPE_D BLOCK_TYPE_C] segment_four [of 0 _ d BLOCK_TYPE_D BLOCK_TYPE_C] assms
  by (simp add: decodeGroup10_def Let_def texts_ok_def)

text \<open>
  C23: whatever symbols arrive, in any number, a decoder keeps its shape: the synchronization count stays
  between 0 and 4, the shift register within 26 bits, no group stays half counted beyond two blocks, and the
  texts keep their lengths, which a single write past the end of one would end. In every state reached, a group
  0, 2 or 10 changes of its text exactly the characters of the segment it addresses, those of the blocks received,
  after the text was blanked if the group's A/B flag changed.
\<close>

theorem rds_decoder_invariant:
  fixes symbols :: "(u8 \<times> int) list" and mem :: RdsDecoder
  defines "d \<equiv> rds_process (rds_initial mem) symbols"
  shows "rds_ok d \<and>
    programServiceName (decodeGroup0 now d) = segment_text d [BLOCK_TYPE_D] (unat (blk d BLOCK_TYPE_B 10 0b11)) (programServiceName d) \<and>
    radioText (decodeGroup2 now d) =
      segment_text d (if groupVer d = GROUP_VER_A then [BLOCK_TYPE_C, BLOCK_TYPE_D] else [BLOCK_TYPE_D]) (unat (blk d BLOCK_TYPE_B 10 0xF))
        (if (blk d BLOCK_TYPE_B 14 1 \<noteq> 0) \<noteq> rtAB d then replicate 64 0x20 else radioText d) \<and>
    programTypeName (decodeGroup10 now d) =
      segment_text d [BLOCK_TYPE_C, BLOCK_TYPE_D] (if blk d BLOCK_TYPE_B 10 1 \<noteq> 0 then 1 else 0)
        (if (blk d BLOCK_TYPE_B 14 1 \<noteq> 0) \<noteq> ptnAB d then replicate 8 0x20 else programTypeName d)"
proof -
  have ok: "rds_ok d" unfolding d_def by (rule rds_process_ok [OF rds_initial_ok])
  then have "texts_ok d" by (simp add: rds_ok_texts)
  with ok show ?thesis using decodeGroup0_segment decodeGroup2_segment decodeGroup10_segment by simp
qed

theorem rds_station_name_witness:
  "\<forall>mem. let d = (rds_initial mem)\<lparr>sync := 1, skip := 26\<rparr>;
       cs = [0x42, 0x42, 0x43, 0x20, 0x52, 0x20, 0x33, 0x20]
   in getPSName (rds_process d (ps_transmission 0 0xC203 (\<lambda>i. 8) (\<lambda>i. 0xE20C) cs)) False = ''BBC R 3 ''"
proof
  fix mem
  let ?d = "(rds_initial mem)\<lparr>sync := 1, skip := 26\<rparr>"
  let ?cs = "[0x42, 0x42, 0x43, 0x20, 0x52, 0x20, 0x33, 0x20] :: u8 list"
  have "rds_ok ?d" by (simp add: rds_ok_def rds_initial_def)
  then have "getPSName (rds_process ?d (ps_transmission 0 0xC203 (\<lambda>i. 8) (\<lambda>i. 0xE20C) ?cs)) False = repertoireToUtf8 ?cs"
    using rds_station_name_received [of ?d ?cs 0 "0xC203" "\<lambda>i. 8" "\<lambda>i. 0xE20C" False] by simp
  moreover have "map char_of [66 :: nat, 66, 67, 32, 82, 32, 51, 32] = ''BBC R 3 ''" by code_simp
  moreover have "EBU_REPERTOIRE ! 66 = [66]" "EBU_REPERTOIRE ! 67 = [67]" "EBU_REPERTOIRE ! 32 = [32]" "EBU_REPERTOIRE ! 82 = [82]"
    "EBU_REPERTOIRE ! 51 = [51]"
    by (simp_all add: EBU_REPERTOIRE_def)
  ultimately show "let d = ?d; cs = ?cs
   in getPSName (rds_process d (ps_transmission 0 0xC203 (\<lambda>i. 8) (\<lambda>i. 0xE20C) cs)) False = ''BBC R 3 ''"
    by (simp add: Let_def repertoireToUtf8_def)
qed

end
