(* ===== verification/CNumbers.thy ===== *)
theory CNumbers
  imports QmxParser
begin

text \<open>
  The number conversions of the C++ standard library in the C locale that the network modules use:
  \<open>strtoll\<close> with its end pointer, \<open>std::stoll\<close> and \<open>std::stoi\<close> with their exceptions as \<open>None\<close>,
  \<open>std::atoi\<close> and the printing of integers.
\<close>

definition is_space :: "char \<Rightarrow> bool" where
  "is_space c \<longleftrightarrow> c = CHR '' '' \<or> (9 \<le> char_code c \<and> char_code c \<le> 13)"

text \<open>White space, a sign and the leading digits; the second component is the text after them.\<close>

definition strtoll_end :: "string \<Rightarrow> (int \<times> string) option" where
  "strtoll_end s =
     (let t = dropWhile is_space s;
          negative = (t \<noteq> [] \<and> hd t = CHR ''-'');
          u = (if t \<noteq> [] \<and> (hd t = CHR ''-'' \<or> hd t = CHR ''+'') then tl t else t);
          ds = takeWhile is_digit u
      in if ds = [] then None
         else map_option (\<lambda>v. (if negative then - v else v, dropWhile is_digit u)) (parse_digits 0 ds))"

definition strtoll :: "string \<Rightarrow> int option" where
  "strtoll s = map_option fst (strtoll_end s)"

definition stoll :: "string \<Rightarrow> int option" where
  "stoll s = (case strtoll s of
       Some v \<Rightarrow> if - (2 ^ 63) \<le> v \<and> v < 2 ^ 63 then Some v else None
     | None \<Rightarrow> None)"

text \<open>\<open>std::stoi\<close> with its position argument: the value and how many characters were read.\<close>

definition stoi :: "string \<Rightarrow> (int \<times> nat) option" where
  "stoi s = (case strtoll_end s of
       Some (v, rest) \<Rightarrow> if - (2 ^ 31) \<le> v \<and> v < 2 ^ 31 then Some (v, length s - length rest) else None
     | None \<Rightarrow> None)"

definition atoi :: "string \<Rightarrow> int" where
  "atoi s = (case strtoll s of Some v \<Rightarrow> v | None \<Rightarrow> 0)"

definition decimal_int :: "int \<Rightarrow> string" where
  "decimal_int v = (if v < 0 then ''-'' else []) @ decimal (nat \<bar>v\<bar>)"

declare decimal.simps [simp del]


lemma takeWhile_digits: "list_all is_digit ds \<Longrightarrow> takeWhile is_digit ds = ds"
  by (simp add: list_all_iff takeWhile_eq_all_conv)

lemma digit_not_special: "is_digit c \<Longrightarrow> \<not> is_space c \<and> c \<noteq> CHR ''-'' \<and> c \<noteq> CHR ''+'' \<and> c \<noteq> CHR '' '' \<and> c \<noteq> CHR 0x0A \<and> c \<noteq> CHR ''?'' \<and> \<not> is_upper c \<and> \<not> is_lower c"
  by (auto simp: is_digit_def is_space_def is_upper_def is_lower_def char_code_def)

lemma decimal_first: "\<exists>c cs. decimal n = c # cs \<and> is_digit c"
  using decimal_digits [of n] decimal_nonempty [of n] by (cases "decimal n") auto

lemma strtoll_end_decimal: "strtoll_end (decimal n) = Some (int n, [])"
proof -
  obtain c cs where c: "decimal n = c # cs" "is_digit c" using decimal_first by blast
  have t: "dropWhile is_space (decimal n) = decimal n" using c digit_not_special by simp
  have h: "hd (decimal n) \<noteq> CHR ''-''" "hd (decimal n) \<noteq> CHR ''+''" using c digit_not_special by auto
  have w: "takeWhile is_digit (decimal n) = decimal n" by (rule takeWhile_digits [OF decimal_digits])
  have e: "dropWhile is_digit (decimal n) = []" using decimal_digits [of n] by (simp add: list_all_iff)
  show ?thesis unfolding strtoll_end_def t Let_def using h by (simp only: w) (simp add: w e parse_decimal)
qed

lemma strtoll_decimal: "strtoll (decimal n) = Some (int n)"
  by (simp add: strtoll_def strtoll_end_decimal)

lemma stoll_decimal: "int n < 2 ^ 63 \<Longrightarrow> stoll (decimal n) = Some (int n)"
  by (simp add: stoll_def strtoll_decimal)

lemma stoi_decimal: "int n < 2 ^ 31 \<Longrightarrow> stoi (decimal n) = Some (int n, length (decimal n))"
  by (simp add: stoi_def strtoll_end_decimal)

lemma atoi_decimal: "atoi (decimal n) = int n"
  by (simp add: atoi_def strtoll_decimal)

end
