(* ===== verification/Floats.thy ===== *)
theory Floats
  imports Complex_Main
begin

text \<open>
  IEEE 754 arithmetic: rounding of a real to a format of \<open>p\<close> bits whose smallest quantum is \<open>2 powr emin\<close>, to nearest with
  ties to even; \<open>double\<close> values made from integers and converted back; and single precision with its infinities
  and NaN. The two zeros are one value here: no comparison and no sum of the code tells them apart.
\<close>

section \<open>Rounding\<close>

definition rnd_even :: "real \<Rightarrow> int" where
  "rnd_even x =
     (let n = \<lfloor>x\<rfloor>; d = x - of_int n
      in if d < 1 / 2 then n else if d > 1 / 2 then n + 1 else if even n then n else n + 1)"

text \<open>The spacing of the numbers of the format around \<open>x\<close>.\<close>

definition quantum :: "nat \<Rightarrow> int \<Rightarrow> real \<Rightarrow> real" where
  "quantum p emin x = 2 powr of_int (max (\<lfloor>log 2 \<bar>x\<bar>\<rfloor> - int p + 1) emin)"

definition rnd :: "nat \<Rightarrow> int \<Rightarrow> real \<Rightarrow> real" where
  "rnd p emin x = (if x = 0 then 0 else of_int (rnd_even (x / quantum p emin x)) * quantum p emin x)"

lemma rnd_even_of_int [simp]: "rnd_even (of_int n) = n"
  by (simp add: rnd_even_def)

lemma rnd_even_near: "\<bar>of_int (rnd_even x) - x\<bar> \<le> 1 / 2"
  by (auto simp: rnd_even_def Let_def)

lemma rnd_even_ge: "of_int n \<le> x \<Longrightarrow> n \<le> rnd_even x"
proof -
  assume "of_int n \<le> x"
  then have "n \<le> \<lfloor>x\<rfloor>" by (simp add: le_floor_iff)
  then show ?thesis by (auto simp: rnd_even_def Let_def)
qed

lemma rnd_even_le: "x \<le> of_int n \<Longrightarrow> rnd_even x \<le> n"
proof (cases "x = of_int n")
  case False
  assume "x \<le> of_int n"
  with False have "\<lfloor>x\<rfloor> < n" by (simp add: floor_less_iff)
  then show ?thesis by (auto simp: rnd_even_def Let_def)
qed simp

lemma quantum_pos [simp]: "0 < quantum p emin x"
  by (simp add: quantum_def)

lemma quantum_nonzero [simp]: "quantum p emin x \<noteq> 0"
  by (simp add: quantum_def)

lemma rnd_near: "\<bar>rnd p emin x - x\<bar> \<le> quantum p emin x / 2"
proof (cases "x = 0")
  case False
  let ?q = "quantum p emin x"
  have "rnd p emin x - x = (of_int (rnd_even (x / ?q)) - x / ?q) * ?q" using False by (simp add: rnd_def algebra_simps)
  then have "\<bar>rnd p emin x - x\<bar> = \<bar>of_int (rnd_even (x / ?q)) - x / ?q\<bar> * ?q" by (simp add: abs_mult less_imp_le)
  also have "\<dots> \<le> 1 / 2 * ?q" by (intro mult_right_mono rnd_even_near) (simp add: less_imp_le)
  finally show ?thesis by simp
qed (simp add: rnd_def less_imp_le)

lemma binade: "x \<noteq> 0 \<Longrightarrow> 2 powr of_int \<lfloor>log 2 \<bar>x\<bar>\<rfloor> \<le> \<bar>x\<bar> \<and> \<bar>x\<bar> < 2 powr (of_int \<lfloor>log 2 \<bar>x\<bar>\<rfloor> + 1)"
  using floor_log_eq_powr_iff [of "\<bar>x\<bar>" 2 "\<lfloor>log 2 \<bar>x\<bar>\<rfloor>"] by simp

lemma quantum_bound:
  assumes "x \<noteq> 0"
  shows "quantum p emin x \<le> max (2 powr (1 - real p) * \<bar>x\<bar>) (2 powr of_int emin)"
proof (cases "emin \<le> \<lfloor>log 2 \<bar>x\<bar>\<rfloor> - int p + 1")
  case True
  then have "quantum p emin x = 2 powr (of_int \<lfloor>log 2 \<bar>x\<bar>\<rfloor> + (1 - real p))"
    by (simp add: quantum_def max_absorb1 algebra_simps)
  also have "\<dots> = 2 powr of_int \<lfloor>log 2 \<bar>x\<bar>\<rfloor> * 2 powr (1 - real p)" by (rule powr_add)
  also have "\<dots> \<le> \<bar>x\<bar> * 2 powr (1 - real p)" using binade [OF assms] by (intro mult_right_mono) simp_all
  finally show ?thesis by (simp add: mult.commute)
qed (simp add: quantum_def max_def)

text \<open>The numbers of the format.\<close>

definition representable :: "nat \<Rightarrow> int \<Rightarrow> real \<Rightarrow> bool" where
  "representable p emin y \<longleftrightarrow> (\<exists>(m :: int) (e :: int). y = of_int m * 2 powr of_int e \<and> \<bar>m\<bar> \<le> 2 ^ p \<and> emin \<le> e)"

lemma representableI: "y = of_int m * 2 powr of_int e \<Longrightarrow> \<bar>m\<bar> \<le> 2 ^ p \<Longrightarrow> emin \<le> e \<Longrightarrow> representable p emin y"
  unfolding representable_def by blast

lemma representable_uminus: "representable p emin y \<Longrightarrow> representable p emin (- y)"
  unfolding representable_def by (metis abs_minus_cancel mult_minus_left of_int_minus)

lemma powr_multiple: "(e :: int) \<le> f \<Longrightarrow> \<exists>n :: int. of_int m * 2 powr of_int f = of_int n * (2 powr of_int e :: real)"
proof (intro exI)
  assume "e \<le> f"
  then have "2 powr of_int f = 2 powr of_int (f - e) * (2 powr of_int e :: real)" by (simp add: powr_add [symmetric])
  also have "2 powr of_int (f - e) = (of_int (2 ^ nat (f - e)) :: real)" using \<open>e \<le> f\<close>
    by (simp add: powr_realpow [symmetric])
  finally show "of_int m * 2 powr of_int f = of_int (m * 2 ^ nat (f - e)) * (2 powr of_int e :: real)" by simp
qed

text \<open>A number of the format below \<open>x\<close> is also below what \<open>x\<close> is rounded to.\<close>

lemma rnd_ge_multiple:
  assumes "y = of_int n * quantum p emin x" "y \<le> x" "x \<noteq> 0"
  shows "y \<le> rnd p emin x"
proof -
  let ?q = "quantum p emin x"
  have "of_int n \<le> x / ?q" using assms(1,2) by (simp add: field_simps)
  then have "n \<le> rnd_even (x / ?q)" by (rule rnd_even_ge)
  then have "of_int n * ?q \<le> of_int (rnd_even (x / ?q)) * ?q" by (intro mult_right_mono) (simp_all add: less_imp_le)
  then show ?thesis using assms by (simp add: rnd_def)
qed

lemma rnd_ge:
  assumes y: "representable p emin y" and "y \<le> x" "0 < p"
  shows "y \<le> rnd p emin x"
proof (cases "x = 0")
  case False
  let ?k = "\<lfloor>log 2 \<bar>x\<bar>\<rfloor>"
  let ?e = "max (?k - int p + 1) emin"
  have q: "quantum p emin x = 2 powr of_int ?e" by (simp add: quantum_def)
  obtain m e where m: "y = of_int m * 2 powr of_int e" "\<bar>m\<bar> \<le> 2 ^ p" "emin \<le> e" using y unfolding representable_def by blast
  show ?thesis
  proof (cases "?e \<le> e")
    case True
    from powr_multiple [OF this, of m] m(1) obtain n where "y = of_int n * quantum p emin x" unfolding q by auto
    then show ?thesis using assms(2) False by (rule rnd_ge_multiple)
  next
    case small: False
    then have e: "?e = ?k - int p + 1" "e + int p \<le> ?k" using m(3) by auto
    have "\<bar>y\<bar> = of_int \<bar>m\<bar> * 2 powr of_int e" unfolding m(1) by (simp add: abs_mult)
    also have "\<dots> \<le> of_int (2 ^ p) * 2 powr of_int e" using m(2) by (intro mult_right_mono, unfold of_int_le_iff) simp_all
    also have "\<dots> = 2 powr (real p + of_int e)" by (simp add: powr_add powr_realpow)
    also have "\<dots> \<le> 2 powr of_int ?k"
    proof (rule powr_mono)
      have "of_int (e + int p) \<le> (of_int ?k :: real)" using e(2) by (simp only: of_int_le_iff)
      then show "real p + of_int e \<le> of_int ?k" by simp
    qed simp
    finally have yk: "\<bar>y\<bar> \<le> 2 powr of_int ?k" .
    have kx: "2 powr of_int ?k \<le> \<bar>x\<bar>" using binade [OF False] by simp
    have ke: "?e \<le> ?k" using e(1) assms(3) by simp
    obtain n where n: "2 powr of_int ?k = of_int n * quantum p emin x" using powr_multiple [OF ke, of 1] unfolding q by auto
    show ?thesis
    proof (cases "0 < x")
      case True
      then have "2 powr of_int ?k \<le> rnd p emin x" using rnd_ge_multiple [OF n] kx False by simp
      then show ?thesis using yk by linarith
    next
      case neg: False
      then have "y = of_int (- n) * quantum p emin x" using yk kx assms(2) n by simp
      then show ?thesis using assms(2) False by (rule rnd_ge_multiple)
    qed
  qed
qed (use assms(2) in \<open>simp add: rnd_def\<close>)

lemma rnd_even_uminus: "rnd_even (- x) = - rnd_even x"
proof -
  obtain n d where nd: "x = of_int n + d" "0 \<le> d" "d < 1" "n = \<lfloor>x\<rfloor>"
    by (metis add_diff_cancel_left' diff_add_cancel add.commute floor_correct le_add_same_cancel1 diff_ge_0_iff_ge
        diff_less_eq add.commute of_int_1 of_int_add)
  show ?thesis
  proof (cases "d = 0")
    case True
    then show ?thesis using nd(1) rnd_even_of_int [of "- n"] by simp
  next
    case False
    have "\<lfloor>- x\<rfloor> = - n - 1" using nd False by (simp add: floor_eq_iff)
    then show ?thesis unfolding rnd_even_def Let_def nd(4) [symmetric] using nd(1) by auto
  qed
qed

lemma rnd_uminus: "rnd p emin (- x) = - rnd p emin x"
  by (simp add: rnd_def quantum_def rnd_even_uminus)

lemma rnd_le: "representable p emin y \<Longrightarrow> x \<le> y \<Longrightarrow> 0 < p \<Longrightarrow> rnd p emin x \<le> y"
  using rnd_ge [of p emin "- y" "- x"] by (simp add: representable_uminus rnd_uminus)

lemma rnd_representable: "representable p emin y \<Longrightarrow> 0 < p \<Longrightarrow> rnd p emin y = y"
  by (intro antisym rnd_le rnd_ge) simp_all

text \<open>What a number is rounded to is a number of the format.\<close>

lemma representable_rnd: "representable p emin (rnd p emin x)"
proof (cases "x = 0")
  case True
  show ?thesis by (rule representableI [of _ 0 emin]) (simp_all add: rnd_def True)
next
  case False
  let ?e = "max (\<lfloor>log 2 \<bar>x\<bar>\<rfloor> - int p + 1) emin"
  have q: "quantum p emin x = 2 powr of_int ?e" by (simp add: quantum_def)
  have "\<bar>x\<bar> \<le> 2 powr (real p + of_int ?e)"
  proof -
    have "\<lfloor>log 2 \<bar>x\<bar>\<rfloor> + 1 \<le> int p + ?e" by simp
    then have "of_int (\<lfloor>log 2 \<bar>x\<bar>\<rfloor> + 1) \<le> (of_int (int p + ?e) :: real)" by (simp only: of_int_le_iff)
    then have "2 powr (of_int \<lfloor>log 2 \<bar>x\<bar>\<rfloor> + 1) \<le> 2 powr (real p + of_int ?e)" by (intro powr_mono) simp_all
    then show ?thesis using binade [OF False] by linarith
  qed
  then have "\<bar>x\<bar> \<le> of_int (2 ^ p) * quantum p emin x" unfolding q by (simp add: powr_add powr_realpow)
  then have b: "x / quantum p emin x \<le> of_int (2 ^ p)" "of_int (- (2 ^ p)) \<le> x / quantum p emin x"
    by (simp_all add: field_simps abs_le_iff)
  have "\<bar>rnd_even (x / quantum p emin x)\<bar> \<le> 2 ^ p" using rnd_even_le [OF b(1)] rnd_even_ge [OF b(2)] by (simp add: abs_le_iff)
  then show ?thesis using False by (intro representableI [of _ "rnd_even (x / quantum p emin x)" ?e]) (simp_all add: rnd_def q)
qed

lemma representable_pos:
  assumes "representable p emin y" "0 < y"
  shows "2 powr of_int emin \<le> y"
proof -
  obtain m e where m: "y = of_int m * 2 powr of_int e" "emin \<le> e" using assms(1) unfolding representable_def by blast
  then have "0 < m" using assms(2) by (simp add: zero_less_mult_iff)
  then have "1 \<le> (of_int m :: real)" by simp
  then have "1 * 2 powr of_int e \<le> y" unfolding m(1) by (intro mult_right_mono) simp_all
  moreover have "2 powr of_int emin \<le> (2 powr of_int e :: real)" using m(2) by simp
  ultimately show ?thesis by linarith
qed

lemma representable_scale:
  assumes "representable p emin y"
  shows "representable p emin (2 ^ k * y)"
proof -
  obtain m e where m: "y = of_int m * 2 powr of_int e" "\<bar>m\<bar> \<le> 2 ^ p" "emin \<le> e" using assms unfolding representable_def by blast
  have "2 ^ k * y = of_int m * 2 powr of_int (e + int k)" unfolding m(1) by (simp add: powr_add powr_realpow)
  then show ?thesis using m by (intro representableI [of _ m "e + int k"]) simp_all
qed

text \<open>Far from zero a small step is lost in the rounding.\<close>

lemma quantum_lower: "x \<noteq> 0 \<Longrightarrow> \<bar>x\<bar> < 2 ^ p * quantum p emin x"
proof -
  assume x: "x \<noteq> 0"
  have "2 powr (of_int \<lfloor>log 2 \<bar>x\<bar>\<rfloor> + 1) \<le> 2 powr (real p + of_int (max (\<lfloor>log 2 \<bar>x\<bar>\<rfloor> - int p + 1) emin))"
    by (rule powr_mono) (simp_all add: max_def)
  also have "\<dots> = 2 ^ p * quantum p emin x" by (simp add: quantum_def powr_add powr_realpow)
  finally show ?thesis using binade [OF x] by linarith
qed

lemma rnd_absorbs:
  assumes x: "representable p emin x" and "0 < p" "0 < d" "d < x" "2 ^ (p + 1) * d \<le> x - d"
  shows "rnd p emin (x - d) = x"
proof -
  let ?y = "x - d"
  have y: "0 < ?y" "?y \<noteq> 0" "x \<noteq> 0" using assms(3,4) by simp_all
  have "\<lfloor>log 2 \<bar>?y\<bar>\<rfloor> \<le> \<lfloor>log 2 \<bar>x\<bar>\<rfloor>" using assms(3,4) by (intro floor_mono) simp
  then have mono: "max (\<lfloor>log 2 \<bar>?y\<bar>\<rfloor> - int p + 1) emin \<le> max (\<lfloor>log 2 \<bar>x\<bar>\<rfloor> - int p + 1) emin" by simp
  have "x = of_int (rnd_even (x / quantum p emin x)) * quantum p emin x"
    using rnd_representable [OF x assms(2)] y(3) by (simp add: rnd_def)
  then obtain k where k: "x = of_int k * quantum p emin ?y"
    using powr_multiple [OF mono, of "rnd_even (x / quantum p emin x)"] unfolding quantum_def by auto
  have "2 ^ (p + 1) * d < 2 ^ p * quantum p emin ?y" using quantum_lower [OF y(2), of p emin] assms(5) y(1) by linarith
  then have "2 * d < quantum p emin ?y" by simp
  then have "d / quantum p emin ?y < 1 / 2" by (simp add: field_simps)
  moreover have "of_int k - ?y / quantum p emin ?y = d / quantum p emin ?y"
  proof -
    have "of_int k = x / quantum p emin ?y" using k by (metis nonzero_mult_div_cancel_right quantum_nonzero)
    then show ?thesis by (simp add: diff_divide_distrib)
  qed
  moreover have "0 < d / quantum p emin ?y" using assms(3) by simp
  ultimately have "\<bar>of_int k - ?y / quantum p emin ?y\<bar> < 1 / 2" by linarith
  then have "\<bar>of_int (rnd_even (?y / quantum p emin ?y)) - of_int k\<bar> < (1 :: real)"
    using rnd_even_near [of "?y / quantum p emin ?y"] by linarith
  then have "rnd_even (?y / quantum p emin ?y) = k" by linarith
  then show ?thesis using k y(2) by (simp add: rnd_def)
qed

section \<open>Double precision and integers\<close>

text \<open>A \<open>double\<close> as it comes out of a sum or of an integer; its range is never left here.\<close>

definition to_double :: "real \<Rightarrow> real" where
  "to_double = rnd 53 (- 1074)"

lemma to_double_int: "\<bar>n\<bar> \<le> 2 ^ 53 \<Longrightarrow> to_double (of_int n) = of_int n"
  unfolding to_double_def by (intro rnd_representable representableI [of _ n 0]) simp_all

text \<open>
  \<open>(uint64_t)\<close> of a \<open>double\<close> cuts off the fraction. Out of range it is undefined in the language; here it
  saturates, as the instruction of AArch64 does.
\<close>

definition to_uint64 :: "real \<Rightarrow> nat" where
  "to_uint64 x = min (2 ^ 64 - 1) (nat \<lfloor>x\<rfloor>)"

lemma to_uint64_nat: "n < 2 ^ 64 \<Longrightarrow> to_uint64 (of_nat n) = n"
  by (simp add: to_uint64_def)

text \<open>The first integer that is not a \<open>double\<close>: it becomes its even neighbour.\<close>

lemma to_double_inexact: "to_double (of_int (2 ^ 53 + 1)) = of_int (2 ^ 53)"
proof -
  have "log 2 (9007199254740993 :: real) \<ge> 53 \<and> log 2 (9007199254740993 :: real) < 54"
    by (simp add: le_log_iff log_less_iff powr_numeral)
  then have "\<lfloor>log 2 (9007199254740993 :: real)\<rfloor> = 53" by (simp add: floor_eq_iff)
  then have q: "quantum 53 (- 1074) (9007199254740993 :: real) = 2" by (simp add: quantum_def)
  have f: "\<lfloor>9007199254740993 / 2 :: real\<rfloor> = 4503599627370496" by (simp add: floor_eq_iff)
  show ?thesis by (simp add: to_double_def rnd_def q rnd_even_def Let_def f)
qed

section \<open>Single precision\<close>

datatype flt = Fin real | Infty bool | Nan   \<comment> \<open>\<open>Infty True\<close> is the negative one\<close>

definition fround :: "real \<Rightarrow> flt" where
  "fround x = (let r = rnd 24 (- 149) x in if \<bar>r\<bar> \<ge> 2 ^ 128 then Infty (x < 0) else Fin r)"

fun fneg :: "flt \<Rightarrow> flt" where
  "fneg (Fin x) = Fin (- x)"
| "fneg (Infty s) = Infty (\<not> s)"
| "fneg Nan = Nan"

fun fadd :: "flt \<Rightarrow> flt \<Rightarrow> flt" where
  "fadd (Fin x) (Fin y) = fround (x + y)"
| "fadd (Infty s) (Infty t) = (if s = t then Infty s else Nan)"
| "fadd (Infty s) (Fin y) = Infty s"
| "fadd (Fin x) (Infty t) = Infty t"
| "fadd _ _ = Nan"

definition fsub :: "flt \<Rightarrow> flt \<Rightarrow> flt" where
  "fsub a b = fadd a (fneg b)"

lemma fsub_Fin [simp]: "fsub (Fin x) (Fin y) = fround (x - y)" "fsub (Infty s) (Fin y) = Infty s"
  by (simp_all add: fsub_def)

fun fmul :: "flt \<Rightarrow> flt \<Rightarrow> flt" where
  "fmul (Fin x) (Fin y) = fround (x * y)"
| "fmul (Infty s) (Infty t) = Infty (s \<noteq> t)"
| "fmul (Infty s) (Fin y) = (if y = 0 then Nan else Infty (s \<noteq> (y < 0)))"
| "fmul (Fin x) (Infty t) = (if x = 0 then Nan else Infty (t \<noteq> (x < 0)))"
| "fmul _ _ = Nan"

text \<open>Every comparison with NaN is false.\<close>

fun fless :: "flt \<Rightarrow> flt \<Rightarrow> bool" where
  "fless (Fin x) (Fin y) = (x < y)"
| "fless (Fin x) (Infty t) = (\<not> t)"
| "fless (Infty s) (Fin y) = s"
| "fless (Infty s) (Infty t) = (s \<and> \<not> t)"
| "fless _ _ = False"

definition single :: "real \<Rightarrow> bool" where
  "single x \<longleftrightarrow> representable 24 (- 149) x \<and> \<bar>x\<bar> < 2 ^ 128"

lemma single_uminus: "single x \<Longrightarrow> single (- x)"
  by (simp add: single_def representable_uminus)

lemma fround_uminus: "fround (- x) = fneg (fround x)"
proof (cases "x = 0")
  case False
  then show ?thesis by (auto simp: fround_def rnd_uminus Let_def)
qed (simp add: fround_def rnd_def)

lemma fneg_fneg [simp]: "fneg (fneg a) = a"
  by (cases a) simp_all

lemma fneg_fadd: "fadd (fneg a) (fneg b) = fneg (fadd a b)"
  using fround_uminus by (cases a; cases b) (simp_all, metis minus_add_distrib add.commute uminus_add_conv_diff)

lemma fless_fneg [simp]: "fless (fneg a) (fneg b) = fless b a"
  by (cases a; cases b) auto

lemma fround_single: "fround x = Fin r \<Longrightarrow> single r"
  by (auto simp: fround_def single_def Let_def representable_rnd split: if_splits)

lemma fround_exact: "single x \<Longrightarrow> fround x = Fin x"
  by (simp add: fround_def single_def rnd_representable)

lemma fround_between:
  assumes "single a" "single b" "a \<le> x" "x \<le> b"
  shows "\<exists>r. fround x = Fin r \<and> r = rnd 24 (- 149) x \<and> single r \<and> a \<le> r \<and> r \<le> b"
proof -
  let ?r = "rnd 24 (- 149) x"
  have r: "a \<le> ?r" "?r \<le> b" using assms rnd_ge [of 24 "- 149" a x] rnd_le [of 24 "- 149" b x] by (simp_all add: single_def)
  then have "\<bar>?r\<bar> < 2 ^ 128" using assms(1,2) unfolding single_def by linarith
  then show ?thesis using r by (simp add: fround_def single_def representable_rnd)
qed

end
