(* ===== verification/Rigctl.thy ===== *)
theory Rigctl
  imports Tuner RadioModes CNumbers Floats
begin

text \<open>
  The Hamlib server (\<open>misc_modules/rigctl_server/src/main.cpp\<close>): framing of the byte stream into command
  lines, splitting into words, compound commands, and every command of \<open>commandHandler\<close> with its
  guards, replies and effects on the tuner and the modules.

  The radio module's side of the interface (\<open>moduleInterfaceHandler\<close> of \<open>radio_module.h\<close>) is modelled for
  the mode commands; every interface call is also logged in order. \<open>std::stoll\<close> and \<open>std::atoi\<close> are
  those of the C locale; an exception of \<open>stoll\<close> has no handler on the reader thread, so the state
  becomes \<open>crashed\<close>. The frequency goes through \<open>long long\<close>, \<open>double\<close> and \<open>uint64_t\<close> as the code has it
  (\<open>Floats\<close>); between them the tuner computes with real numbers, as in \<open>Tuner\<close>. The argument of \<open>atoi\<close> is not
  limited to an \<open>int\<close>.
\<close>

section \<open>State\<close>

datatype RecorderType = RECORDER_TYPE_RECORDER | RECORDER_TYPE_METEOR_DEMODULATOR

datatype IfaceCall = SetMode int | SetBandwidth int | RecorderStart | RecorderStop
  | MeteorStart | MeteorStop

record RadioIface =
  selectedDemodID :: "int option"   \<comment> \<open>\<open>None\<close>: \<open>selectedDemod\<close> is \<open>NULL\<close>\<close>
  radioEnabled :: bool

record Rigctl =
  command :: string
  tuning :: Tuning
  moduleNames :: "string \<Rightarrow> string option"
  radios :: "string \<Rightarrow> RadioIface"
  selectedVfo :: string
  selectedRecorder :: string
  recorderType :: RecorderType
  tuningEnabled :: bool
  recordingEnabled :: bool
  sent :: "string list"
  calls :: "(string \<times> IfaceCall) list"
  playStates :: "bool list"
  crashed :: bool

section \<open>Words\<close>

fun split_words :: "string \<Rightarrow> string \<Rightarrow> bool \<Rightarrow> string list \<Rightarrow> string list" where
  "split_words [] corr lastWasSpace parts = (if corr \<noteq> [] then parts @ [corr] else parts)"
| "split_words (c # cs) corr lastWasSpace parts =
     (if lastWasSpace \<and> c = CHR '' '' then split_words cs corr lastWasSpace parts
      else if c = CHR '' '' then split_words cs [] True (parts @ [corr])
      else split_words cs (corr @ [c]) False parts)"

definition isVfoToken :: "string \<Rightarrow> bool" where
  "isVfoToken s \<longleftrightarrow> s \<in> {''VFO'', ''VFOA'', ''VFOB'', ''VFOC'', ''currVFO'', ''Main'', ''Sub'', ''MEM'', ''TX'', ''RX'', ''None''}"

text \<open>The words of a command, with the VFO argument of a client in VFO mode dropped.\<close>

definition command_words :: "string \<Rightarrow> string list" where
  "command_words cmd =
     (let parts = split_words cmd [] False []
      in if length parts > 1 \<and> isVfoToken (parts ! 1) \<and> parts ! 0 \<noteq> ''V'' \<and> parts ! 0 \<noteq> CHR 0x5C # ''set_vfo''
         then parts ! 0 # drop 2 parts else parts)"

definition is_compound :: "string list \<Rightarrow> bool" where
  "is_compound parts \<longleftrightarrow> length (parts ! 0) > 1 \<and> hd (parts ! 0) \<noteq> CHR 0x5C \<and> parts ! 0 \<noteq> ''AOS'' \<and> parts ! 0 \<noteq> ''LOS''"

section \<open>Names and replies\<close>

definition nl :: string where "nl = [CHR 0x0A]"

definition RPRT_0 :: string where "RPRT_0 = ''RPRT 0'' @ nl"
definition RPRT_1 :: string where "RPRT_1 = ''RPRT 1'' @ nl"

definition hamlibModeName :: "int \<Rightarrow> string" where
  "hamlibModeName mode =
     (if mode = RADIO_IFACE_MODE_NFM then ''FM''
      else if \<not> radioModeValid mode then ''RAW''
      else radioModeName mode)"

definition hamlibModeFromName :: "string \<Rightarrow> int" where
  "hamlibModeFromName name = (if name = ''FM'' then RADIO_IFACE_MODE_NFM else radioModeFromName name)"

fun mode_list_loop :: "nat \<Rightarrow> int \<Rightarrow> string \<Rightarrow> string" where
  "mode_list_loop 0 i s = s"
| "mode_list_loop (Suc n) i s =
     mode_list_loop n (i + 1) ((if i \<noteq> 0 then s @ '' '' else s) @ hamlibModeName i)"

definition hamlibModeList :: string where
  "hamlibModeList = mode_list_loop (nat RADIO_IFACE_MODE_COUNT) 0 [] @ nl"

text \<open>The loop over the bandwidth argument.\<close>

fun bandwidth_chars_ok :: "nat \<Rightarrow> string \<Rightarrow> bool" where
  "bandwidth_chars_ok pos [] = True"
| "bandwidth_chars_ok pos (c # cs) =
     ((is_digit c \<or> c = CHR ''-'' \<and> pos = 0) \<and> bandwidth_chars_ok (pos + 1) cs)"

definition dump_state_lines :: "string list" where
  "dump_state_lines =
     [''0'', ''2'', ''1'', ''0.000000 10000000000.000000 0x2ef -1 -1 0x1 0x0'',
      ''0 0 0 0 0 0 0'', ''0 0 0 0 0 0 0'', ''0xef 1'', ''0xef 0'', ''0 0'',
      ''0x82 500'', ''0x82 200'', ''0x82 2000'', ''0x221 10000'', ''0x221 5000'', ''0x221 20000'',
      ''0x0c 2700'', ''0x0c 1400'', ''0x0c 3900'', ''0x40 160000'', ''0x40 120000'', ''0x40 200000'',
      ''0 0'', ''0'', ''0'', ''0'', ''0'', ''0'', ''0'', ''0'', ''0'', ''0x40000020'', ''0x20'', ''0'', ''0'']"

definition dump_state :: string where
  "dump_state = concat (map (\<lambda>l. l @ nl) dump_state_lines)"

section \<open>Effects\<close>

definition send_reply :: "string \<Rightarrow> Rigctl \<Rightarrow> Rigctl" where
  "send_reply resp r = r\<lparr>sent := sent r @ [resp]\<rparr>"

definition getModuleName :: "Rigctl \<Rightarrow> string \<Rightarrow> string" where
  "getModuleName r name = (case moduleNames r name of Some m \<Rightarrow> m | None \<Rightarrow> [])"

text \<open>The radio module's handler: without a demodulator every command is rejected.\<close>

definition radio_set_mode :: "int \<Rightarrow> RadioIface \<Rightarrow> RadioIface" where
  "radio_set_mode mode i =
     (if selectedDemodID i = None then i
      else if radioEnabled i \<and> radioModeValid mode then i\<lparr>selectedDemodID := Some mode\<rparr> else i)"

definition radio_get_mode :: "RadioIface \<Rightarrow> int \<Rightarrow> int" where
  "radio_get_mode i seed = (case selectedDemodID i of Some m \<Rightarrow> m | None \<Rightarrow> seed)"

definition callInterface :: "string \<Rightarrow> IfaceCall \<Rightarrow> Rigctl \<Rightarrow> Rigctl" where
  "callInterface name call r =
     (if moduleNames r name = None then r
      else (case call of
              SetMode m \<Rightarrow> r\<lparr>radios := (radios r)(name := radio_set_mode m (radios r name))\<rparr>
            | _ \<Rightarrow> r)\<lparr>calls := calls r @ [(name, call)]\<rparr>)"

text \<open>\<open>vfoManager.vfoExists\<close>, \<open>getOffset\<close> and \<open>getBandwidth\<close> on the shared VFO map.\<close>

definition displayed_frequency :: "Rigctl \<Rightarrow> real" where
  "displayed_frequency r =
     (case vfos (waterfall (tuning r)) (selectedVfo r) of
        Some v \<Rightarrow> centerFreq (waterfall (tuning r)) + generalOffset v
      | None \<Rightarrow> centerFreq (waterfall (tuning r)))"

definition vfo_bandwidth_text :: "Rigctl \<Rightarrow> string" where
  "vfo_bandwidth_text r =
     (case vfos (waterfall (tuning r)) (selectedVfo r) of
        Some v \<Rightarrow> decimal_int (trunc_int (bandwidth v)) | None \<Rightarrow> ''0'')"

section \<open>Commands\<close>

definition cmd_set_freq :: "string list \<Rightarrow> Rigctl \<Rightarrow> Rigctl" where
  "cmd_set_freq parts r =
     (if length parts \<noteq> 2 then send_reply RPRT_1 r
      else if \<not> tuningEnabled r then send_reply RPRT_0 r
      else case stoll (parts ! 1) of
             None \<Rightarrow> r\<lparr>crashed := True\<rparr>
           | Some freq \<Rightarrow>
               send_reply RPRT_0
                 (r\<lparr>tuning := tuner_tune (tuning r) TUNER_MODE_NORMAL (selectedVfo r) (to_double (of_int freq))\<rparr>))"

definition cmd_get_freq :: "Rigctl \<Rightarrow> Rigctl" where
  "cmd_get_freq r = send_reply (decimal (to_uint64 (to_double (displayed_frequency r))) @ nl) r"

definition radio_selected :: "Rigctl \<Rightarrow> bool" where
  "radio_selected r \<longleftrightarrow> selectedVfo r \<noteq> [] \<and> getModuleName r (selectedVfo r) = ''radio''"

definition cmd_set_mode :: "string list \<Rightarrow> Rigctl \<Rightarrow> Rigctl" where
  "cmd_set_mode parts r =
     (if length parts \<ge> 2 \<and> parts ! 1 = ''?'' then send_reply hamlibModeList r
      else if length parts \<noteq> 3 then send_reply RPRT_1 r
      else if \<not> bandwidth_chars_ok 0 (parts ! 2) then send_reply RPRT_1 r
      else
        let newBandwidth = atoi (parts ! 2);
            newMode = hamlibModeFromName (parts ! 1)
        in if newMode < 0 then send_reply RPRT_1 r
           else if radio_selected r \<and> tuningEnabled r then
             let r1 = callInterface (selectedVfo r) (SetMode newMode) r;
                 r2 = (if newBandwidth > 0 then callInterface (selectedVfo r1) (SetBandwidth newBandwidth) r1 else r1)
             in send_reply RPRT_0 r2
           else send_reply RPRT_0 r)"

definition cmd_get_mode :: "Rigctl \<Rightarrow> Rigctl" where
  "cmd_get_mode r =
     (let resp = (if radio_selected r
                  then hamlibModeName (radio_get_mode (radios r (selectedVfo r)) RADIO_IFACE_MODE_RAW) @ nl
                  else ''RAW'' @ nl);
          bw = (if selectedVfo r \<noteq> [] then vfo_bandwidth_text r @ nl else ''0'' @ nl)
      in send_reply (resp @ bw) r)"

definition cmd_set_vfo :: "string list \<Rightarrow> Rigctl \<Rightarrow> Rigctl" where
  "cmd_set_vfo parts r =
     (if length parts \<noteq> 2 then send_reply RPRT_1 r
      else if parts ! 1 = ''?'' then send_reply (''VFO'' @ nl) r
      else if \<not> isVfoToken (parts ! 1) then send_reply RPRT_1 r
      else send_reply RPRT_0 r)"

definition cmd_record :: "IfaceCall \<Rightarrow> IfaceCall \<Rightarrow> Rigctl \<Rightarrow> Rigctl" where
  "cmd_record meteor recorder r =
     (if \<not> recordingEnabled r then send_reply RPRT_0 r
      else send_reply RPRT_0
             (callInterface (selectedRecorder r)
                (if recorderType r = RECORDER_TYPE_METEOR_DEMODULATOR then meteor else recorder) r))"

text \<open>One elementary command, as the chain of comparisons has it; \<open>bs\<close> is the backslash.\<close>

definition bs :: "string \<Rightarrow> string" where
  "bs s = CHR 0x5C # s"

definition execute :: "string list \<Rightarrow> Rigctl \<Rightarrow> Rigctl" where
  "execute parts r =
     (let c = parts ! 0 in
      if c = ''F'' \<or> c = bs ''set_freq'' then cmd_set_freq parts r
      else if c = ''f'' \<or> c = bs ''get_freq'' then cmd_get_freq r
      else if c = ''M'' \<or> c = bs ''set_mode'' then cmd_set_mode parts r
      else if c = ''m'' \<or> c = bs ''get_mode'' then cmd_get_mode r
      else if c = ''V'' \<or> c = bs ''set_vfo'' then cmd_set_vfo parts r
      else if c = ''v'' \<or> c = bs ''get_vfo'' then send_reply (''VFO'' @ nl) r
      else if c = ''t'' \<or> c = bs ''get_ptt'' then send_reply (''0'' @ nl) r
      else if c = ''T'' \<or> c = bs ''set_ptt'' then send_reply RPRT_0 r
      else if c = bs ''chk_vfo'' then send_reply (''CHKVFO 0'' @ nl) r
      else if c = ''s'' then send_reply (''0'' @ nl @ ''VFOA'' @ nl) r
      else if c = ''S'' then send_reply RPRT_0 r
      else if c = ''AOS'' \<or> c = bs ''recorder_start'' then cmd_record MeteorStart RecorderStart r
      else if c = ''LOS'' \<or> c = bs ''recorder_stop'' then cmd_record MeteorStop RecorderStop r
      else if c = ''q'' \<or> c = bs ''quit'' then r
      else if c = bs ''start'' then r\<lparr>playStates := playStates r @ [True]\<rparr>
      else if c = bs ''stop'' then r\<lparr>playStates := playStates r @ [False]\<rparr>
      else if c = bs ''dump_state'' then send_reply dump_state r
      else if c = bs ''get_powerstat'' then send_reply (''1'' @ nl) r
      else send_reply RPRT_1 r)"

text \<open>The text after the first word, which a compound command hands to each of its letters.\<close>

definition compound_arguments :: "string \<Rightarrow> string" where
  "compound_arguments cmd =
     (if length (command_words cmd) > 1 then drop (length (command_words cmd ! 0)) cmd else [])"

lemma split_words_parts: "split_words cs corr b parts = parts @ split_words cs corr b []"
proof (induction cs arbitrary: corr b parts)
  case (Cons c cs)
  have "split_words cs [] True (parts @ [corr]) = parts @ split_words cs [] True [corr]"
    using Cons.IH [of "[]" True "parts @ [corr]"] Cons.IH [of "[]" True "[corr]"] by simp
  moreover have "split_words cs corr b parts = parts @ split_words cs corr b []" for corr b by (rule Cons.IH)
  ultimately show ?case by simp
qed simp

lemma first_word_gen:
  "split_words cs corr False [] \<noteq> [] \<Longrightarrow> split_words cs corr False [] ! 0 = corr @ takeWhile (\<lambda>c. c \<noteq> CHR '' '') cs"
proof (induction cs arbitrary: corr)
  case Nil
  then show ?case by (simp split: if_splits)
next
  case (Cons c cs)
  show ?case
  proof (cases "c = CHR '' ''")
    case True
    then show ?thesis using split_words_parts [of cs "[]" True "[corr]"] by simp
  next
    case False
    then show ?thesis using Cons.IH [of "corr @ [c]"] Cons.prems by simp
  qed
qed

text \<open>The first word is the text before the first blank.\<close>

lemma first_word: "command_words cmd \<noteq> [] \<Longrightarrow> command_words cmd ! 0 = takeWhile (\<lambda>c. c \<noteq> CHR '' '') cmd"
  using first_word_gen [of cmd "[]"] by (cases "split_words cmd [] False []") (auto simp: command_words_def Let_def)

lemma compound_step_shorter:
  assumes "command_words cmd \<noteq> []" "c \<in> set (command_words cmd ! 0)"
  shows "takeWhile (\<lambda>c. c \<noteq> CHR '' '') (c # compound_arguments cmd) = [c]"
proof -
  let ?p = "\<lambda>c. c \<noteq> CHR '' ''"
  have w: "command_words cmd ! 0 = takeWhile ?p cmd" by (rule first_word [OF assms(1)])
  have c: "c \<noteq> CHR '' ''" using assms(2) unfolding w by (auto dest: set_takeWhileD)
  have "takeWhile ?p (drop (length (takeWhile ?p cmd)) cmd) = []"
    unfolding dropWhile_eq_drop [symmetric] by (induction cmd) simp_all
  with c w show ?thesis by (simp add: compound_arguments_def)
qed

text \<open>\<open>commandHandler\<close>; a crash ends everything, so nothing runs after it.\<close>

function commandHandler :: "string \<Rightarrow> Rigctl \<Rightarrow> Rigctl" where
  "commandHandler cmd r =
     (let parts = command_words cmd in
      if crashed r \<or> parts = [] then r
      else if is_compound parts
      then foldl (\<lambda>r c. commandHandler (c # compound_arguments cmd) r) r (parts ! 0)
      else execute parts r)"
  by pat_completeness simp

termination commandHandler
proof (relation "measure (\<lambda>(cmd, r). length (takeWhile (\<lambda>c. c \<noteq> CHR '' '') cmd))")
  fix cmd :: string and r :: Rigctl and parts r' c
  assume p: "parts = command_words cmd" "\<not> (crashed r \<or> parts = [])" "is_compound parts" "c \<in> set (parts ! 0)"
  then have "takeWhile (\<lambda>c. c \<noteq> CHR '' '') (c # compound_arguments cmd) = [c]" by (intro compound_step_shorter) auto
  moreover have "1 < length (takeWhile (\<lambda>c. c \<noteq> CHR '' '') cmd)"
    using p first_word [of cmd] by (simp add: is_compound_def)
  ultimately show "((c # compound_arguments cmd, r'), cmd, r)
      \<in> measure (\<lambda>(cmd, r). length (takeWhile (\<lambda>c. c \<noteq> CHR '' '') cmd))" by simp
qed simp

declare commandHandler.simps [simp del]

section \<open>The byte stream\<close>

definition MAX_COMMAND_LENGTH :: nat where "MAX_COMMAND_LENGTH = 8192"

definition data_byte :: "Rigctl \<Rightarrow> char \<Rightarrow> Rigctl" where
  "data_byte r c =
     (if crashed r then r
      else if c = CHR 0x0A then (commandHandler (command r) r)\<lparr>command := []\<rparr>
      else if length (command r) < MAX_COMMAND_LENGTH then r\<lparr>command := command r @ [c]\<rparr>
      else r)"

definition dataHandler :: "string \<Rightarrow> Rigctl \<Rightarrow> Rigctl" where
  "dataHandler data r = foldl data_byte r data"

text \<open>\<open>clientHandler\<close> on a new connection.\<close>

definition new_client :: "Rigctl \<Rightarrow> Rigctl" where
  "new_client r = r\<lparr>command := []\<rparr>"

end
