(* ===== verification/RigctlProps.thy ===== *)
theory RigctlProps
  imports Rigctl
begin

text \<open>
  What a Hamlib client may rely on: the byte stream is framed exactly, frequencies and modes are read
  back as set, an error reply means that nothing happened, and compound commands run letter by letter.
\<close>

section \<open>Words: lemmas\<close>

definition word_ok :: "string \<Rightarrow> bool" where
  "word_ok w \<longleftrightarrow> w \<noteq> [] \<and> CHR '' '' \<notin> set w"

fun unwords :: "string list \<Rightarrow> string" where
  "unwords [] = []"
| "unwords [w] = w"
| "unwords (w # v # ws) = w @ CHR '' '' # unwords (v # ws)"

lemma split_words_word: "CHR '' '' \<notin> set w \<Longrightarrow> split_words (w @ CHR '' '' # rest) corr False [] = (corr @ w) # split_words rest [] True []"
proof (induction w arbitrary: corr)
  case Nil
  show ?case using split_words_parts [of rest "[]" True "[corr]"] by simp
qed auto

lemma split_words_last: "CHR '' '' \<notin> set w \<Longrightarrow> corr @ w \<noteq> [] \<Longrightarrow> split_words w corr False [] = [corr @ w]"
  by (induction w arbitrary: corr) auto

lemma split_words_blank: "word_ok w \<Longrightarrow> split_words (w @ rest) [] True [] = split_words (w @ rest) [] False []"
  by (cases w) (auto simp: word_ok_def)

lemma unwords_head: "ws \<noteq> [] \<Longrightarrow> \<exists>rest. unwords ws = hd ws @ rest"
  by (cases ws rule: unwords.cases) auto

lemma split_unwords: "list_all word_ok ws \<Longrightarrow> split_words (unwords ws) [] False [] = ws"
proof (induction ws rule: unwords.induct)
  case (2 w)
  then show ?case by (simp add: split_words_last word_ok_def)
next
  case (3 w v ws)
  obtain rest where rest: "unwords (v # ws) = v @ rest" using unwords_head [of "v # ws"] by auto
  have "split_words (unwords (v # ws)) [] True [] = v # ws"
    using 3 split_words_blank [of v rest] unfolding rest by simp
  then show ?case using 3(2) by (simp add: split_words_word word_ok_def)
qed simp

lemma command_words_unwords:
  "list_all word_ok ws \<Longrightarrow> command_words (unwords ws) =
     (if length ws > 1 \<and> isVfoToken (ws ! 1) \<and> ws ! 0 \<noteq> ''V'' \<and> ws ! 0 \<noteq> CHR 0x5C # ''set_vfo'' then ws ! 0 # drop 2 ws else ws)"
  by (simp add: command_words_def split_unwords Let_def)

lemma commandHandler_simple:
  "\<not> crashed r \<Longrightarrow> command_words cmd = parts \<Longrightarrow> parts \<noteq> [] \<Longrightarrow> \<not> is_compound parts \<Longrightarrow> commandHandler cmd r = execute parts r"
  by (simp add: commandHandler.simps Let_def)

lemma single_not_compound: "length (parts ! 0) \<le> 1 \<Longrightarrow> \<not> is_compound parts"
  by (simp add: is_compound_def)

section \<open>Numbers as words: lemmas\<close>

lemma decimal_word: "word_ok (decimal n)"
  using decimal_digits [of n] digit_not_special by (auto simp: word_ok_def list_all_iff)

lemma decimal_no_newline: "CHR 0x0A \<notin> set (decimal n)"
  using decimal_digits [of n] digit_not_special by (auto simp: list_all_iff)


lemma bandwidth_chars_decimal: "bandwidth_chars_ok k (decimal n)"
proof -
  have "list_all is_digit ds \<Longrightarrow> bandwidth_chars_ok k ds" for ds k by (induction ds arbitrary: k) simp_all
  then show ?thesis using decimal_digits by blast
qed

section \<open>The byte stream\<close>

definition line_ok :: "string \<Rightarrow> bool" where
  "line_ok l \<longleftrightarrow> CHR 0x0A \<notin> set l \<and> length l \<le> MAX_COMMAND_LENGTH"

lemma data_text:
  "\<not> crashed r \<Longrightarrow> CHR 0x0A \<notin> set l \<Longrightarrow> length (command r) + length l \<le> MAX_COMMAND_LENGTH \<Longrightarrow>
   foldl data_byte r l = r\<lparr>command := command r @ l\<rparr>"
proof (induction l arbitrary: r)
  case (Cons c l)
  have "data_byte r c = r\<lparr>command := command r @ [c]\<rparr>" using Cons.prems by (auto simp: data_byte_def)
  then show ?case using Cons by auto
qed simp

text \<open>The commands neither read nor write the line buffer.\<close>

lemma callInterface_command:
  "callInterface n c (r\<lparr>command := x\<rparr>) = (callInterface n c r)\<lparr>command := x\<rparr>"
  by (cases c) (simp_all add: callInterface_def)

lemma reads_command:
  "displayed_frequency (r\<lparr>command := x\<rparr>) = displayed_frequency r"
  "vfo_bandwidth_text (r\<lparr>command := x\<rparr>) = vfo_bandwidth_text r"
  "radio_selected (r\<lparr>command := x\<rparr>) = radio_selected r"
  "send_reply s (r\<lparr>command := x\<rparr>) = (send_reply s r)\<lparr>command := x\<rparr>"
  by (simp_all add: displayed_frequency_def vfo_bandwidth_text_def radio_selected_def getModuleName_def send_reply_def split: option.split)

lemma cmd_command:
  "cmd_set_freq parts (r\<lparr>command := x\<rparr>) = (cmd_set_freq parts r)\<lparr>command := x\<rparr>"
  "cmd_get_freq (r\<lparr>command := x\<rparr>) = (cmd_get_freq r)\<lparr>command := x\<rparr>"
  "cmd_get_mode (r\<lparr>command := x\<rparr>) = (cmd_get_mode r)\<lparr>command := x\<rparr>"
  "cmd_set_vfo parts (r\<lparr>command := x\<rparr>) = (cmd_set_vfo parts r)\<lparr>command := x\<rparr>"
  "cmd_record a b (r\<lparr>command := x\<rparr>) = (cmd_record a b r)\<lparr>command := x\<rparr>"
  by (simp_all add: cmd_set_freq_def cmd_get_freq_def cmd_get_mode_def cmd_set_vfo_def cmd_record_def Let_def
      reads_command callInterface_command send_reply_def split: option.split)

lemma cmd_set_mode_command: "cmd_set_mode parts (r\<lparr>command := x\<rparr>) = (cmd_set_mode parts r)\<lparr>command := x\<rparr>"
proof -
  have "selectedVfo (callInterface n c r) = selectedVfo r" for n c r by (cases c) (simp_all add: callInterface_def)
  then show ?thesis by (simp add: cmd_set_mode_def Let_def reads_command callInterface_command)
qed

lemma command_update_if:
  "(if P then a\<lparr>command := x\<rparr> else b\<lparr>command := x\<rparr>) = (if P then a else b)\<lparr>command := x\<rparr>"
  "(r\<lparr>command := x\<rparr>)\<lparr>playStates := playStates (r\<lparr>command := x\<rparr>) @ y\<rparr> = (r\<lparr>playStates := playStates r @ y\<rparr>)\<lparr>command := x\<rparr>"
  by simp_all

lemma execute_command: "execute parts (r\<lparr>command := x\<rparr>) = (execute parts r)\<lparr>command := x\<rparr>"
  unfolding execute_def Let_def cmd_command cmd_set_mode_command reads_command command_update_if by (rule refl)

lemma commandHandler_command: "commandHandler cmd (r\<lparr>command := x\<rparr>) = (commandHandler cmd r)\<lparr>command := x\<rparr>"
proof (induction cmd r rule: commandHandler.induct)
  case (1 cmd r)
  have "foldl (\<lambda>r c. commandHandler (c # compound_arguments cmd) r) (s\<lparr>command := x\<rparr>) cs =
      (foldl (\<lambda>r c. commandHandler (c # compound_arguments cmd) r) s cs)\<lparr>command := x\<rparr>"
    if "\<not> (crashed r \<or> command_words cmd = [])" "is_compound (command_words cmd)" "set cs \<subseteq> set (command_words cmd ! 0)" for cs s
    using that(3)
  proof (induction cs arbitrary: s)
    case (Cons c cs)
    have "commandHandler (c # compound_arguments cmd) (s\<lparr>command := x\<rparr>) = (commandHandler (c # compound_arguments cmd) s)\<lparr>command := x\<rparr>"
      using 1 that Cons.prems by simp
    with Cons show ?case by simp
  qed simp
  then show ?case unfolding commandHandler.simps [of cmd r] commandHandler.simps [of cmd "r\<lparr>command := x\<rparr>"] Let_def
    by (simp add: execute_command)
qed

lemma data_line:
  assumes "\<not> crashed r" "command r = []" "line_ok l"
  shows "dataHandler (l @ nl) r = commandHandler l r"
proof -
  have "dataHandler (l @ nl) r = (commandHandler l (r\<lparr>command := l\<rparr>))\<lparr>command := []\<rparr>"
    using assms data_text [of r l] by (simp add: dataHandler_def line_ok_def nl_def data_byte_def)
  also have "\<dots> = commandHandler l (r\<lparr>command := []\<rparr>)" by (simp add: commandHandler_command)
  also have "r\<lparr>command := []\<rparr> = r" using assms(2) by simp
  finally show ?thesis .
qed

lemma commandHandler_buffer: "command r = [] \<Longrightarrow> command (commandHandler cmd r) = []"
proof -
  assume "command r = []"
  then have "r\<lparr>command := []\<rparr> = r" by simp
  then have "commandHandler cmd r = (commandHandler cmd r)\<lparr>command := []\<rparr>"
    using commandHandler_command [where cmd = cmd and r = r and x = "[]"] by simp
  then show ?thesis by (metis Rigctl.select_convs(1) Rigctl.surjective Rigctl.update_convs(1))
qed

lemma commandHandler_crashed: "crashed r \<Longrightarrow> commandHandler cmd r = r"
  by (simp add: commandHandler.simps)

lemma dataHandler_append: "dataHandler (a @ b) r = dataHandler b (dataHandler a r)"
  by (simp add: dataHandler_def)

lemma dataHandler_crashed: "crashed r \<Longrightarrow> dataHandler data r = r"
  unfolding dataHandler_def by (induction data) (simp_all add: data_byte_def)

text \<open>
  C26: the byte stream. However the stream is cut into reads, a server with an empty line buffer handles
  exactly the lines sent, each once and in order, and its line buffer never exceeds its limit, whatever
  is received.
\<close>

theorem rig_framing:
  assumes "command r = []" "list_all line_ok ls" "concat chunks = concat (map (\<lambda>l. l @ nl) ls)"
  shows "fold dataHandler chunks r = fold commandHandler ls r \<and>
    (\<forall>data. length (command (dataHandler data r)) \<le> MAX_COMMAND_LENGTH)"
proof
  have cat: "fold dataHandler chunks r = dataHandler (concat chunks) r" for r
    by (induction chunks arbitrary: r) (simp_all add: dataHandler_append, simp add: dataHandler_def)
  have "dataHandler (concat (map (\<lambda>l. l @ nl) ls)) r = fold commandHandler ls r"
    using assms(1,2)
  proof (induction ls arbitrary: r)
    case Nil
    then show ?case by (simp add: dataHandler_def)
  next
    case (Cons l ls)
    show ?case
    proof (cases "crashed r")
      case True
      then have "fold commandHandler ls r = r" for ls by (induction ls) (simp_all add: commandHandler_crashed)
      with True show ?thesis by (simp add: dataHandler_crashed commandHandler_crashed)
    next
      case False
      then have "dataHandler (l @ nl) r = commandHandler l r" using Cons.prems by (intro data_line) simp_all
      then show ?thesis using Cons.IH [OF commandHandler_buffer [OF Cons.prems(1)]] Cons.prems
        by (simp add: dataHandler_append)
    qed
  qed
  then show "fold dataHandler chunks r = fold commandHandler ls r" by (simp add: cat assms(3))
  have "length (command r) \<le> MAX_COMMAND_LENGTH \<Longrightarrow> length (command (foldl data_byte r data)) \<le> MAX_COMMAND_LENGTH" for r data
    by (induction data arbitrary: r) (auto simp: data_byte_def)
  then show "\<forall>data. length (command (dataHandler data r)) \<le> MAX_COMMAND_LENGTH" using assms(1) by (simp add: dataHandler_def)
qed


lemma rig_line:
  assumes "\<not> crashed r" "list_all word_ok ws" "ws \<noteq> []" "\<not> is_compound ws" "length ws = 1 \<or> \<not> isVfoToken (ws ! 1) \<or> ws ! 0 = ''V''"
  shows "commandHandler (unwords ws) r = execute ws r"
proof (rule commandHandler_simple)
  show "command_words (unwords ws) = ws" using assms(2,3,5) by (auto simp: command_words_unwords)
qed (use assms in auto)


section \<open>Frequency\<close>


lemma execute_F: "execute [''F'', x] r = cmd_set_freq [''F'', x] r"
  by (simp add: execute_def)

lemma execute_f: "execute [''f''] r = cmd_get_freq r"
  by (simp add: execute_def bs_def)






lemma decimal_bound: "int n < 2 ^ 63 \<Longrightarrow> length (decimal n) \<le> 19"
  by (rule decimal_length) simp_all


section \<open>Modes\<close>

lemma hamlib_names:
  assumes "radioModeValid m"
  shows "word_ok (hamlibModeName m)"
    "CHR 0x0A \<notin> set (hamlibModeName m)" "length (hamlibModeName m) \<le> 3" "hamlibModeName m \<noteq> ''?''"
    "\<not> isVfoToken (hamlibModeName m)" "hamlibModeName m = ''FM'' \<longleftrightarrow> m = RADIO_IFACE_MODE_NFM"
  using radioModeValid_cases [OF assms]
  by (auto simp: hamlibModeName_def mode_defs radioModeValid_def
      radioModeName_def RADIO_IFACE_MODE_NAMES_def word_ok_def isVfoToken_def)

lemma hamlib_name_back: "radioModeValid m \<Longrightarrow> hamlibModeFromName (hamlibModeName m) = m"
  using hamlib_names(6) [of m] radioModeFromName_Name [of m]
  by (cases "m = RADIO_IFACE_MODE_NFM") (simp_all add: hamlibModeFromName_def, simp add: hamlibModeName_def)

lemma hamlib_list_words:
  "hamlibModeList = unwords (map hamlibModeName [0, 1, 2, 3, 4, 5, 6, 7, 8]) @ nl"
  by (simp add: hamlibModeList_def mode_defs hamlibModeName_def radioModeValid_def radioModeName_def
      RADIO_IFACE_MODE_NAMES_def numeral_eq_Suc)

definition rig_has_radio :: "Rigctl \<Rightarrow> bool" where
  "rig_has_radio r \<longleftrightarrow> \<not> crashed r \<and> command r = [] \<and> tuningEnabled r \<and> selectedVfo r \<noteq> [] \<and>
     moduleNames r (selectedVfo r) = Some ''radio'' \<and> selectedDemodID (radios r (selectedVfo r)) \<noteq> None \<and>
     radioEnabled (radios r (selectedVfo r))"

lemma execute_M: "execute [''M'', x, y] r = cmd_set_mode [''M'', x, y] r"
  by (simp add: execute_def bs_def)

lemma execute_m: "execute [''m''] r = cmd_get_mode r"
  by (simp add: execute_def bs_def)

text \<open>
  Modes through Hamlib. Every mode the receiver has goes out under its Hamlib name and comes back as
  the same mode: setting it, with or without a bandwidth, succeeds, selects that demodulator and hands the
  bandwidth on when it is positive; reading the mode then names it; and the capability list names exactly
  the receiver's modes, each accepted.
\<close>

theorem rig_mode_roundtrip:
  assumes "rig_has_radio r" "radioModeValid m" "int bw < 2 ^ 31"
  defines "line \<equiv> ''M '' @ hamlibModeName m @ '' '' @ decimal bw"
  shows "\<exists>r1. dataHandler (line @ nl) r = r1 \<and> sent r1 = sent r @ [RPRT_0] \<and>
    selectedDemodID (radios r1 (selectedVfo r)) = Some m \<and>
    calls r1 = calls r @ (selectedVfo r, SetMode m) # (if bw = 0 then [] else [(selectedVfo r, SetBandwidth (int bw))]) \<and>
    sent (dataHandler (''m'' @ nl) r1) = sent r1 @ [hamlibModeName m @ nl @ vfo_bandwidth_text r @ nl] \<and>
    (\<exists>names. hamlibModeList = unwords names @ nl \<and> map hamlibModeFromName names = [0..8])"
proof -
  let ?v = "selectedVfo r"
  have r: "\<not> crashed r" "command r = []" "tuningEnabled r" "?v \<noteq> []" "moduleNames r ?v = Some ''radio''"
    "selectedDemodID (radios r ?v) \<noteq> None" "radioEnabled (radios r ?v)" using assms(1) by (simp_all add: rig_has_radio_def)
  note nm = hamlib_names(1-5) [OF assms(2)] hamlib_name_back [OF assms(2)]
  have m0: "0 \<le> m" using assms(2) by (simp add: radioModeValid_def)
  let ?ws = "[''M'', hamlibModeName m, decimal bw]"
  let ?r1 = "execute ?ws r"
  have words: "list_all word_ok ?ws" using nm decimal_word by (simp add: word_ok_def [of "''M''"])
  have l: "line = unwords ?ws" by (simp add: line_def)
  have "commandHandler line r = ?r1"
    unfolding l using nm by (intro rig_line [OF r(1) words]) (simp_all add: single_not_compound)
  moreover have "line_ok line"
  proof -
    have "int bw < 2 ^ 63" using assms(3) by simp
    then show ?thesis using nm decimal_bound [of bw] decimal_no_newline [of bw]
      by (simp add: line_ok_def line_def MAX_COMMAND_LENGTH_def)
  qed
  ultimately have d1: "dataHandler (line @ nl) r = ?r1" using data_line [OF r(1,2)] by simp
  have sel: "radio_selected r" using r(4,5) by (simp add: radio_selected_def getModuleName_def)
  have b: "atoi (decimal bw) = int bw" by (rule atoi_decimal)
  have e: "?r1 = (let r1 = callInterface ?v (SetMode m) r;
       r2 = (if int bw > 0 then callInterface (selectedVfo r1) (SetBandwidth (int bw)) r1 else r1) in send_reply RPRT_0 r2)"
    unfolding execute_M cmd_set_mode_def using nm m0 sel r(3) by (simp add: Let_def bandwidth_chars_decimal b)
  have s1: "sent ?r1 = sent r @ [RPRT_0]" "selectedDemodID (radios ?r1 ?v) = Some m" "\<not> crashed ?r1" "command ?r1 = []"
    "calls ?r1 = calls r @ (?v, SetMode m) # (if bw = 0 then [] else [(?v, SetBandwidth (int bw))])"
    "selectedVfo ?r1 = ?v" "moduleNames ?r1 = moduleNames r" "tuning ?r1 = tuning r"
    unfolding e Let_def using r assms(2) by (auto simp: callInterface_def send_reply_def radio_set_mode_def)
  have "dataHandler (''m'' @ nl) ?r1 = execute [''m''] ?r1"
  proof -
    have "list_all word_ok [''m'']" by (simp add: word_ok_def)
    then have "commandHandler ''m'' ?r1 = execute [''m''] ?r1"
      using rig_line [OF s1(3), of "[''m'']"] by (simp add: single_not_compound)
    moreover have "line_ok ''m''" by (simp add: line_ok_def MAX_COMMAND_LENGTH_def)
    ultimately show ?thesis using data_line [OF s1(3,4)] by metis
  qed
  moreover have "sent (execute [''m''] ?r1) = sent ?r1 @ [hamlibModeName m @ nl @ vfo_bandwidth_text r @ nl]"
  proof -
    have "radio_selected ?r1" "vfo_bandwidth_text ?r1 = vfo_bandwidth_text r"
      using sel s1(6-8) by (simp_all add: radio_selected_def getModuleName_def vfo_bandwidth_text_def)
    then show ?thesis unfolding execute_m cmd_get_mode_def using s1(2,6) r(4)
      by (simp add: Let_def send_reply_def radio_get_mode_def)
  qed
  moreover have "map hamlibModeFromName (map hamlibModeName [0, 1, 2, 3, 4, 5, 6, 7, 8]) = [0..8]"
    using hamlib_name_back by (simp add: radioModeValid_def mode_defs upto_rec1)
  ultimately show ?thesis using d1 s1(1,2,5) hamlib_list_words by (intro exI [of _ ?r1]) (metis (no_types))
qed

section \<open>Errors\<close>

lemma mode_name_start: "\<exists>c cs. hamlibModeName m = c # cs \<and> (c \<noteq> CHR ''R'' \<or> (\<exists>ds. cs = CHR ''A'' # ds))"
proof (cases "radioModeValid m")
  case True
  show ?thesis using radioModeValid_cases [OF True]
    by (auto simp: hamlibModeName_def mode_defs radioModeValid_def radioModeName_def RADIO_IFACE_MODE_NAMES_def)
qed (simp add: hamlibModeName_def mode_defs radioModeValid_def)

lemma replies_not_errors:
  "decimal n @ nl \<noteq> RPRT_1" "hamlibModeList \<noteq> RPRT_1" "(hamlibModeName m @ nl) @ x \<noteq> RPRT_1" "(''RAW'' @ nl) @ x \<noteq> RPRT_1" "RPRT_0 \<noteq> RPRT_1"
  "''VFO'' @ nl \<noteq> RPRT_1" "''0'' @ nl \<noteq> RPRT_1" "''CHKVFO 0'' @ nl \<noteq> RPRT_1" "dump_state \<noteq> RPRT_1" "''1'' @ nl \<noteq> RPRT_1"
  "''0'' @ nl @ ''VFOA'' @ nl \<noteq> RPRT_1"
proof -
  show "decimal n @ nl \<noteq> RPRT_1"
    using decimal_first [of n] by (auto simp: RPRT_1_def is_digit_def char_code_def)
  show "hamlibModeList \<noteq> RPRT_1"
    unfolding hamlib_list_words RPRT_1_def by (simp add: hamlibModeName_def mode_defs)
  show "(hamlibModeName m @ nl) @ x \<noteq> RPRT_1" using mode_name_start [of m] by (auto simp: RPRT_1_def)
qed (simp_all add: RPRT_1_def RPRT_0_def nl_def dump_state_def dump_state_lines_def)

text \<open>A command is answered with one reply that is no error, or with the error and nothing else.\<close>

definition answered :: "Rigctl \<Rightarrow> Rigctl \<Rightarrow> bool" where
  "answered r r' \<longleftrightarrow> \<not> crashed r' \<and> ((\<exists>x. x \<noteq> RPRT_1 \<and> sent r' = sent r @ [x]) \<or> r' = send_reply RPRT_1 r)"

lemma answered_if: "(P \<Longrightarrow> answered r a) \<Longrightarrow> (\<not> P \<Longrightarrow> answered r b) \<Longrightarrow> answered r (if P then a else b)"
  by simp

lemmas replies = replies_not_errors [simplified append.simps append_assoc]

lemma answered_reply:
  "x \<noteq> RPRT_1 \<Longrightarrow> \<not> crashed r' \<Longrightarrow> sent r' = sent r \<Longrightarrow> answered r (send_reply x r')"
  by (simp add: answered_def send_reply_def)

lemma answered_error: "\<not> crashed r \<Longrightarrow> answered r (send_reply RPRT_1 r)"
  by (simp add: answered_def send_reply_def)

lemma callInterface_sent [simp]: "sent (callInterface n c r) = sent r" "crashed (callInterface n c r) = crashed r"
  by (cases c; simp add: callInterface_def)+

lemma answered_commands:
  assumes "\<not> crashed r"
  shows "answered r (cmd_get_freq r)" "answered r (cmd_set_mode parts r)" "answered r (cmd_get_mode r)"
    "answered r (cmd_set_vfo parts r)" "answered r (cmd_record a b r)"
  using assms
  by (simp_all add: cmd_get_freq_def cmd_set_mode_def cmd_get_mode_def cmd_set_vfo_def cmd_record_def Let_def
      replies answered_reply answered_error)

lemma answered_set_freq:
  assumes "\<not> crashed r" "\<not> (length parts = 2 \<and> tuningEnabled r \<and> stoll (parts ! 1) = None)"
  shows "answered r (cmd_set_freq parts r)"
  using assms by (cases "stoll (parts ! 1)") (simp_all add: cmd_set_freq_def replies answered_reply answered_error)

definition silent_commands :: "string set" where
  "silent_commands = {''q'', bs ''quit'', bs ''start'', bs ''stop''}"

definition bad_frequency :: "string list \<Rightarrow> Rigctl \<Rightarrow> bool" where
  "bad_frequency parts r \<longleftrightarrow> (parts ! 0 = ''F'' \<or> parts ! 0 = bs ''set_freq'') \<and> length parts = 2 \<and>
     tuningEnabled r \<and> stoll (parts ! 1) = None"

lemma execute_answered:
  assumes "\<not> crashed r" "parts ! 0 \<notin> silent_commands" "\<not> bad_frequency parts r"
  shows "answered r (execute parts r)"
proof -
  have q: "parts ! 0 \<noteq> ''q''" "parts ! 0 \<noteq> bs ''quit''" "parts ! 0 \<noteq> bs ''start''" "parts ! 0 \<noteq> bs ''stop''"
    using assms(2) by (simp_all add: silent_commands_def)
  have f: "parts ! 0 = ''F'' \<or> parts ! 0 = bs ''set_freq'' \<Longrightarrow> answered r (cmd_set_freq parts r)"
    using assms(3) by (intro answered_set_freq [OF assms(1)]) (simp add: bad_frequency_def)
  note rs = answered_reply [OF _ assms(1) refl]
  show ?thesis
    unfolding execute_def Let_def
    by (intro answered_if; (erule f)?; (rule answered_commands [OF assms(1)] answered_error [OF assms(1)])?;
        (rule rs, simp add: replies)?; (simp add: q)?)
qed


lemma execute_silent:
  assumes "parts ! 0 \<in> silent_commands"
  shows "sent (execute parts r) = sent r \<and> crashed (execute parts r) = crashed r \<and>
    tuning (execute parts r) = tuning r \<and> calls (execute parts r) = calls r"
  using assms by (auto simp: silent_commands_def execute_def bs_def)

lemma execute_bad_frequency: "bad_frequency parts r \<Longrightarrow> execute parts r = r\<lparr>crashed := True\<rparr>"
  by (auto simp: bad_frequency_def execute_def cmd_set_freq_def)

text \<open>
  C25: errors. Every elementary command gets exactly one reply, except the four that never reply; an error
  reply means that nothing at all was changed, no frequency, mode or recorder; and the server survives
  every line but one kind, a frequency that is not a number in range.
\<close>

theorem rig_errors_change_nothing:
  assumes "\<not> crashed r" "command_words cmd \<noteq> []" "\<not> is_compound (command_words cmd)"
  defines "r' \<equiv> commandHandler cmd r"
  shows "(sent r' = sent r @ [RPRT_1] \<longrightarrow> r' = send_reply RPRT_1 r) \<and>
    (crashed r' \<longleftrightarrow> bad_frequency (command_words cmd) r) \<and>
    (if bad_frequency (command_words cmd) r \<or> command_words cmd ! 0 \<in> silent_commands then sent r' = sent r
     else \<exists>x. sent r' = sent r @ [x])"
proof -
  let ?parts = "command_words cmd"
  have r': "r' = execute ?parts r" unfolding r'_def by (rule commandHandler_simple [OF assms(1) refl assms(2,3)])
  consider (bad) "bad_frequency ?parts r" | (silent) "\<not> bad_frequency ?parts r" "?parts ! 0 \<in> silent_commands"
    | (normal) "\<not> bad_frequency ?parts r" "?parts ! 0 \<notin> silent_commands" by blast
  then show ?thesis
  proof cases
    case bad
    then show ?thesis by (simp add: r' execute_bad_frequency)
  next
    case silent
    then show ?thesis using execute_silent [OF silent(2), of r] assms(1) by (simp add: r')
  next
    case normal
    have "answered r r'" unfolding r' by (rule execute_answered [OF assms(1) normal(2,1)])
    then show ?thesis using normal assms(1) by (auto simp: answered_def send_reply_def)
  qed
qed

section \<open>Compound commands\<close>

lemma split_words_nonempty: "corr \<noteq> [] \<Longrightarrow> split_words cs corr False [] \<noteq> []"
  by (induction cs arbitrary: corr) (auto simp: split_words_parts [of _ "[]" True "[_]"])

text \<open>
  Compound commands end after one level: a line whose first word has several letters runs each letter
  once, in order, as a command of its own with the same arguments, until one crashes.
\<close>

theorem rig_compound_letters:
  assumes "\<not> crashed r" "command_words cmd \<noteq> []" "is_compound (command_words cmd)"
  shows "commandHandler cmd r =
    foldl (\<lambda>r c. if crashed r then r else execute (command_words (c # compound_arguments cmd)) r) r (command_words cmd ! 0)"
proof -
  have letter: "commandHandler (c # compound_arguments cmd) r =
      (if crashed r then r else execute (command_words (c # compound_arguments cmd)) r)"
    if c: "c \<in> set (command_words cmd ! 0)" for c r
  proof (cases "crashed r")
    case False
    have c': "c \<noteq> CHR '' ''" using c unfolding first_word [OF assms(2)] by (auto dest: set_takeWhileD)
    have ne: "command_words (c # compound_arguments cmd) \<noteq> []"
    proof -
      have "split_words (c # compound_arguments cmd) [] False [] \<noteq> []"
        using c' split_words_nonempty [of "[c]" "compound_arguments cmd"] by simp
      then show ?thesis by (auto simp: command_words_def Let_def)
    qed
    have "command_words (c # compound_arguments cmd) ! 0 = [c]"
      using first_word [OF ne] compound_step_shorter [OF assms(2) c] by simp
    then have "\<not> is_compound (command_words (c # compound_arguments cmd))" by (intro single_not_compound) simp
    then show ?thesis using False ne by (simp add: commandHandler_simple)
  qed (simp add: commandHandler_crashed)
  have "foldl (\<lambda>r c. commandHandler (c # compound_arguments cmd) r) r cs =
      foldl (\<lambda>r c. if crashed r then r else execute (command_words (c # compound_arguments cmd)) r) r cs"
    if "set cs \<subseteq> set (command_words cmd ! 0)" for cs
    using that letter by (induction cs arbitrary: r) simp_all
  then show ?thesis using assms by (subst commandHandler.simps) (simp add: Let_def)
qed

section \<open>Lines that misbehave\<close>

text \<open>A frequency that is not a number ends the program: the exception of \<open>std::stoll\<close> is not caught.\<close>

lemma nonnumeric_frequency_crashes:
  "\<not> crashed r \<Longrightarrow> tuningEnabled r \<Longrightarrow> crashed (commandHandler ''F abc'' r)"
proof -
  assume r: "\<not> crashed r" "tuningEnabled r"
  have "list_all word_ok [''F'', ''abc'']" by (simp add: word_ok_def)
  then have "commandHandler ''F abc'' r = execute [''F'', ''abc''] r"
    using rig_line [OF r(1), of "[''F'', ''abc'']"] by (simp add: single_not_compound isVfoToken_def)
  moreover have "stoll ''abc'' = None"
    by (simp add: stoll_def strtoll_def strtoll_end_def is_space_def is_digit_def char_code_def)
  ultimately show ?thesis using r by (simp add: execute_F cmd_set_freq_def)
qed

text \<open>A line with a leading blank has an empty first word, which no command matches.\<close>

lemma leading_blank_rejected: "\<not> crashed r \<Longrightarrow> commandHandler '' f'' r = send_reply RPRT_1 r"
proof -
  assume r: "\<not> crashed r"
  have w: "command_words '' f'' = [[], ''f'']" by (simp add: command_words_def isVfoToken_def)
  have "commandHandler '' f'' r = execute [[], ''f''] r"
    by (rule commandHandler_simple [OF r w]) (simp_all add: is_compound_def)
  then show ?thesis by (simp add: execute_def bs_def)
qed


section \<open>Witnesses\<close>

definition exampleRig :: Rigctl where
  "exampleRig = \<lparr>command = [], tuning = exampleTuning REF_CENTER False 0,
     moduleNames = [''Radio'' \<mapsto> ''radio''],
     radios = (\<lambda>_. \<lparr>selectedDemodID = Some 0, radioEnabled = True\<rparr>),
     selectedVfo = ''Radio'', selectedRecorder = [], recorderType = RECORDER_TYPE_RECORDER,
     tuningEnabled = True, recordingEnabled = False, sent = [], calls = [], playStates = [], crashed = False\<rparr>"


theorem rig_framing_witness:
  "fold dataHandler [''v'' @ nl @ ''t'', nl] exampleRig = fold commandHandler [''v'', ''t''] exampleRig"
  using rig_framing [of exampleRig "[''v'', ''t'']" "[''v'' @ nl @ ''t'', nl]"]
  by (simp add: exampleRig_def line_ok_def MAX_COMMAND_LENGTH_def)


theorem rig_mode_witness:
  "\<exists>r1. dataHandler (''M USB 2400'' @ nl) exampleRig = r1 \<and> selectedDemodID (radios r1 ''Radio'') = Some 4"
proof -
  have n: "decimal 2400 = ''2400''" by (simp add: decimal.simps) code_simp
  have m: "hamlibModeName 4 = ''USB''" "radioModeValid 4"
    by (simp_all add: hamlibModeName_def mode_defs radioModeValid_def radioModeName_def RADIO_IFACE_MODE_NAMES_def)
  have e: "rig_has_radio exampleRig" by (simp add: rig_has_radio_def exampleRig_def)
  show ?thesis using rig_mode_roundtrip [OF e m(2), of 2400] by (simp add: n m(1) exampleRig_def)
qed

lemma words_v: "command_words ''v'' = [''v'']"
  by (simp add: command_words_def)

theorem rig_errors_witness: "\<exists>x. sent (commandHandler ''v'' exampleRig) = [x]"
  using rig_errors_change_nothing [of exampleRig "''v''"]
  by (simp add: words_v is_compound_def bad_frequency_def silent_commands_def bs_def exampleRig_def)

theorem rig_compound_witness:
  "commandHandler ''fm'' exampleRig = execute [''m''] (execute [''f''] exampleRig)"
proof -
  have w: "command_words ''fm'' = [''fm'']" "command_words ''f'' = [''f'']" "command_words ''m'' = [''m'']"
    by (simp_all add: command_words_def)
  have "\<not> crashed exampleRig" "\<not> crashed (execute [''f''] exampleRig)"
    by (simp_all add: exampleRig_def execute_f cmd_get_freq_def send_reply_def)
  then show ?thesis
    using rig_compound_letters [of exampleRig "''fm''"] by (simp add: w compound_arguments_def is_compound_def)
qed

end
