(* ===== verification/Urls.thy ===== *)
theory Urls
  imports CNumbers
begin

text \<open>
  The text utilities of the network clients: percent decoding, \<open>http://\<close> URLs, redirect targets
  (\<open>core/src/utils/url.cpp\<close>, \<open>url.h\<close>), case-insensitive prefixes and trimming (\<open>ascii.h\<close>) and the Base64
  encoder of the WebSocket handshake (\<open>base64.h\<close>).
\<close>

section \<open>ASCII helpers\<close>

fun equalsIgnoreCase :: "string \<Rightarrow> string \<Rightarrow> bool" where
  "equalsIgnoreCase [] [] = True"
| "equalsIgnoreCase (a # as) (b # bs) = (if to_lower a \<noteq> to_lower b then False else equalsIgnoreCase as bs)"
| "equalsIgnoreCase _ _ = False"

definition startsWithIgnoreCase :: "string \<Rightarrow> string \<Rightarrow> bool" where
  "startsWithIgnoreCase s prefix =
     (if length s < length prefix then False else equalsIgnoreCase (take (length prefix) s) prefix)"

definition is_blank :: "char \<Rightarrow> bool" where
  "is_blank c \<longleftrightarrow> c = CHR '' '' \<or> c = CHR 0x09 \<or> c = CHR 0x0D \<or> c = CHR 0x0A"

definition trim :: "string \<Rightarrow> string" where
  "trim s = rev (dropWhile is_blank (rev (dropWhile is_blank s)))"

section \<open>Percent decoding\<close>

definition is_xdigit :: "char \<Rightarrow> bool" where
  "is_xdigit c \<longleftrightarrow> is_digit c \<or> (65 \<le> char_code c \<and> char_code c \<le> 70) \<or> (97 \<le> char_code c \<and> char_code c \<le> 102)"

definition xdigit_val :: "char \<Rightarrow> nat" where
  "xdigit_val c = (if is_digit c then char_code c - 48
     else if is_upper c then char_code c - 55 else char_code c - 87)"

fun url_decode :: "string \<Rightarrow> string" where
  "url_decode [] = []"
| "url_decode (c # cs) =
     (case cs of
        a # b # rest \<Rightarrow>
          if c = CHR ''%'' \<and> is_xdigit a \<and> is_xdigit b
          then char_of (16 * xdigit_val a + xdigit_val b) # url_decode rest
          else if c = CHR ''+'' then CHR '' '' # url_decode cs
          else c # url_decode cs
      | _ \<Rightarrow> if c = CHR ''+'' then CHR '' '' # url_decode cs else c # url_decode cs)"

section \<open>URLs\<close>

record HttpHostPort =
  host :: string
  port :: int
  path :: string

definition HTTP_SCHEME :: string where "HTTP_SCHEME = ''http://''"

definition parsePort :: "string \<Rightarrow> int option" where
  "parsePort portStr =
     (case stoi portStr of
        None \<Rightarrow> None
      | Some (p, pos) \<Rightarrow> if pos \<noteq> length portStr \<or> p \<le> 0 \<or> p > 65535 then None else Some p)"

definition normalizeHttpPath :: "string \<Rightarrow> string" where
  "normalizeHttpPath p =
     (if p = [] then ''/'' else if hd p = CHR ''?'' \<or> hd p = CHR ''#'' then CHR ''/'' # p else p)"

text \<open>Splitting at the first character of a set, as \<open>find_first_of\<close> and \<open>substr\<close> do.\<close>

definition before_first :: "string \<Rightarrow> string \<Rightarrow> string" where
  "before_first cs s = takeWhile (\<lambda>c. c \<notin> set cs) s"

definition from_first :: "string \<Rightarrow> string \<Rightarrow> string" where
  "from_first cs s = dropWhile (\<lambda>c. c \<notin> set cs) s"

definition parseHttpHostPort :: "string \<Rightarrow> HttpHostPort option" where
  "parseHttpHostPort url =
     (if \<not> startsWithIgnoreCase url HTTP_SCHEME then None
      else
        let rest = drop (length HTTP_SCHEME) url;
            pathPart = (if from_first ''/?#'' rest \<noteq> [] then from_first ''/?#'' rest else ''/'');
            rest = before_first ''/?#'' rest
        in if rest = [] then None
           else if from_first '':'' rest = [] then Some \<lparr>host = rest, port = 80, path = pathPart\<rparr>
           else if before_first '':'' rest = [] then None
           else case parsePort (tl (from_first '':'' rest)) of
                  None \<Rightarrow> None
                | Some p \<Rightarrow> Some \<lparr>host = before_first '':'' rest, port = p, path = pathPart\<rparr>)"

definition splitHostPort :: "string \<Rightarrow> HttpHostPort option" where
  "splitHostPort hostPort =
     (if from_first '':'' hostPort = [] then None
      else if before_first '':'' hostPort = [] then None
      else case parsePort (tl (from_first '':'' hostPort)) of
             None \<Rightarrow> None
           | Some p \<Rightarrow> Some \<lparr>host = before_first '':'' hostPort, port = p, path = ''/''\<rparr>)"

text \<open>The directory of a path: up to its last slash, or the root.\<close>

definition directory_of :: "string \<Rightarrow> string" where
  "directory_of base =
     (if CHR ''/'' \<notin> set base then ''/'' else rev (dropWhile (\<lambda>c. c \<noteq> CHR ''/'') (rev base)))"

definition with_normalized_path :: "HttpHostPort option \<Rightarrow> HttpHostPort option" where
  "with_normalized_path parsed = map_option (\<lambda>r. r\<lparr>path := normalizeHttpPath (path r)\<rparr>) parsed"

definition resolveHttpLocation :: "HttpHostPort \<Rightarrow> string \<Rightarrow> HttpHostPort option" where
  "resolveHttpLocation current location =
     (let loc = trim location;
          base = before_first ''?#'' (normalizeHttpPath (path current))
      in if loc = [] then None
         else if startsWithIgnoreCase loc ''http://'' then with_normalized_path (parseHttpHostPort loc)
         else if length loc \<ge> 2 \<and> loc ! 0 = CHR ''/'' \<and> loc ! 1 = CHR ''/''
         then with_normalized_path (parseHttpHostPort (''http:'' @ loc))
         else if loc ! 0 = CHR ''/'' then Some \<lparr>host = host current, port = port current, path = loc\<rparr>
         else if loc ! 0 = CHR ''?'' then Some \<lparr>host = host current, port = port current, path = base @ loc\<rparr>
         else Some \<lparr>host = host current, port = port current, path = directory_of base @ loc\<rparr>)"

section \<open>Base64\<close>

definition base64_alphabet :: string where
  "base64_alphabet = ''ABCDEFGHIJKLMNOPQRSTUVWXYZabcdefghijklmnopqrstuvwxyz0123456789+/''"

definition sextet :: "u32 \<Rightarrow> nat \<Rightarrow> char" where
  "sextet v n = base64_alphabet ! unat (drop_bit n v AND 0x3F)"

fun base64_encode :: "u8 list \<Rightarrow> string" where
  "base64_encode (a # b # c # rest) =
     (let v = push_bit 16 (ucast a) OR push_bit 8 (ucast b) OR ucast c
      in [sextet v 18, sextet v 12, sextet v 6, sextet v 0] @ base64_encode rest)"
| "base64_encode [a, b] =
     (let v = push_bit 16 (ucast a) OR push_bit 8 (ucast b)
      in [sextet v 18, sextet v 12, sextet v 6, CHR ''=''])"
| "base64_encode [a] =
     (let v = push_bit 16 (ucast a) in [sextet v 18, sextet v 12, CHR ''='', CHR ''=''])"
| "base64_encode [] = []"

section \<open>Percent decoding: round trip\<close>

text \<open>An encoder as the standard describes it; \<open>keep\<close> says which characters are sent as they are.\<close>

definition hex_upper :: "nat \<Rightarrow> char" where
  "hex_upper n = (if n < 10 then char_of (48 + n) else char_of (55 + n))"

definition url_encode :: "(char \<Rightarrow> bool) \<Rightarrow> string \<Rightarrow> string" where
  "url_encode keep s = concat (map (\<lambda>c. if keep c then [c]
     else [CHR ''%'', hex_upper (char_code c div 16), hex_upper (char_code c mod 16)]) s)"

lemma hex_upper_val: "n < 16 \<Longrightarrow> is_xdigit (hex_upper n) \<and> xdigit_val (hex_upper n) = n"
  by (auto simp: hex_upper_def is_xdigit_def xdigit_val_def is_digit_def is_upper_def)

lemma url_decode_plain: "c \<noteq> CHR ''%'' \<Longrightarrow> c \<noteq> CHR ''+'' \<Longrightarrow> url_decode (c # cs) = c # url_decode cs"
  by (cases cs rule: list.exhaust; cases "tl cs") (auto split: list.splits)

text \<open>
  Percent decoding inverts percent encoding, whichever characters besides % and + the sender
  leaves alone; text without either is unchanged; and decoding never lengthens a text.
\<close>

theorem url_decode_roundtrip:
  "(\<not> keep CHR ''%'' \<and> \<not> keep CHR ''+'' \<longrightarrow> url_decode (url_encode keep s) = s) \<and>
   (CHR ''%'' \<notin> set s \<and> CHR ''+'' \<notin> set s \<longrightarrow> url_decode s = s) \<and>
   length (url_decode s) \<le> length s"
proof (intro conjI impI)
  assume k: "\<not> keep CHR ''%'' \<and> \<not> keep CHR ''+''"
  show "url_decode (url_encode keep s) = s"
  proof (induction s)
    case Nil
    show ?case by (simp add: url_encode_def)
  next
    case (Cons c s)
    show ?case
    proof (cases "keep c")
      case True
      then have "c \<noteq> CHR ''%''" "c \<noteq> CHR ''+''" using k by auto
      then have "url_decode (c # url_encode keep s) = c # url_decode (url_encode keep s)" by (rule url_decode_plain)
      then show ?thesis using True Cons by (simp add: url_encode_def)
    next
      case False
      have d: "char_code c div 16 < 16" using char_code_less_256 [of c] by linarith
      have h: "is_xdigit (hex_upper (char_code c div 16))" "xdigit_val (hex_upper (char_code c div 16)) = char_code c div 16"
        "is_xdigit (hex_upper (char_code c mod 16))" "xdigit_val (hex_upper (char_code c mod 16)) = char_code c mod 16"
        using hex_upper_val [of "char_code c div 16"] hex_upper_val [of "char_code c mod 16"] d by simp_all
      have "char_of (16 * (char_code c div 16) + char_code c mod 16) = c" by (simp add: char_code_def)
      then show ?thesis using False h Cons by (simp add: url_encode_def)
    qed
  qed
next
  assume "CHR ''%'' \<notin> set s \<and> CHR ''+'' \<notin> set s"
  then show "url_decode s = s" by (induction s) (auto simp: url_decode_plain simp del: url_decode.simps(2))
next
  show "length (url_decode s) \<le> length s"
  proof (induction s rule: length_induct)
    case (1 s)
    show ?case
    proof (cases s)
      case (Cons c cs)
      have ih: "length (url_decode cs) \<le> length cs" using 1 Cons by simp
      show ?thesis
      proof (cases "\<exists>a b rest. cs = a # b # rest")
        case True
        then obtain a b rest where cs: "cs = a # b # rest" by blast
        then have "length (url_decode rest) \<le> length rest" using 1 Cons by simp
        with ih show ?thesis unfolding Cons cs by simp
      next
        case False
        then have "url_decode (c # cs) = (if c = CHR ''+'' then CHR '' '' # url_decode cs else c # url_decode cs)"
          by (auto split: list.split)
        with ih Cons show ?thesis by simp
      qed
    qed simp
  qed
qed


theorem url_decode_witness: "url_decode ''a%2Fb+%zz'' = ''a/b %zz'' \<and> url_decode (url_encode is_digit ''1+1'') = ''1+1''"
proof -
  have "url_decode ''a%2Fb+%zz'' = ''a/b %zz''"
    by (simp add: is_xdigit_def xdigit_val_def is_digit_def is_upper_def char_code_def) code_simp
  moreover have "\<not> is_digit CHR ''%'' \<and> \<not> is_digit CHR ''+''" by (simp add: is_digit_def char_code_def)
  ultimately show ?thesis using url_decode_roundtrip [of is_digit "''1+1''"] by blast
qed

section \<open>URLs: lemmas\<close>

definition no_char_of :: "string \<Rightarrow> string \<Rightarrow> bool" where
  "no_char_of cs s \<longleftrightarrow> set s \<inter> set cs = {}"

lemma before_append: "no_char_of cs a \<Longrightarrow> b = [] \<or> hd b \<in> set cs \<Longrightarrow> before_first cs (a @ b) = a \<and> from_first cs (a @ b) = b"
  unfolding before_first_def from_first_def no_char_of_def
  by (induction a) (cases b; auto)+

lemma before_no_char: "no_char_of cs (before_first cs s)"
  by (auto simp: no_char_of_def before_first_def dest: set_takeWhileD)

lemma from_first_hd: "from_first cs s \<noteq> [] \<Longrightarrow> hd (from_first cs s) \<in> set cs"
  unfolding from_first_def using hd_dropWhile [of "\<lambda>c. c \<notin> set cs" s] by simp

lemma parsePort_range: "parsePort s = Some p \<Longrightarrow> 1 \<le> p \<and> p \<le> 65535"
  by (auto simp: parsePort_def split: option.splits prod.splits if_splits)

lemma parsePort_decimal: "1 \<le> n \<Longrightarrow> n \<le> 65535 \<Longrightarrow> parsePort (decimal n) = Some (int n)"
  by (simp add: parsePort_def stoi_decimal)

lemma equalsIgnoreCase_iff: "equalsIgnoreCase a b \<longleftrightarrow> map to_lower a = map to_lower b"
  by (induction a b rule: equalsIgnoreCase.induct) auto

lemma startsWithIgnoreCase_append: "map to_lower a = map to_lower b \<Longrightarrow> startsWithIgnoreCase (a @ r) b"
  using map_eq_imp_length_eq [of to_lower a to_lower b] by (simp add: startsWithIgnoreCase_def equalsIgnoreCase_iff)

text \<open>What the fields of a parsed URL satisfy.\<close>

definition url_ok :: "HttpHostPort \<Rightarrow> bool" where
  "url_ok r \<longleftrightarrow> host r \<noteq> [] \<and> no_char_of ''/?#:'' (host r) \<and> 1 \<le> port r \<and> port r \<le> 65535 \<and>
     path r \<noteq> [] \<and> hd (path r) \<in> set ''/?#''"

lemma parse_url_ok:
  assumes "parseHttpHostPort url = Some r"
  shows "url_ok r"
proof -
  let ?rest = "drop (length HTTP_SCHEME) url"
  let ?auth = "before_first ''/?#'' ?rest"
  define pathPart where "pathPart = (if from_first ''/?#'' ?rest \<noteq> [] then from_first ''/?#'' ?rest else ''/'')"
  have parsed: "(if ?auth = [] then None
           else if from_first '':'' ?auth = [] then Some \<lparr>host = ?auth, port = 80, path = pathPart\<rparr>
           else if before_first '':'' ?auth = [] then None
           else case parsePort (tl (from_first '':'' ?auth)) of
                  None \<Rightarrow> None
                | Some p \<Rightarrow> Some \<lparr>host = before_first '':'' ?auth, port = p, path = pathPart\<rparr>) = Some r"
    using assms unfolding parseHttpHostPort_def Let_def pathPart_def [symmetric] by (simp split: if_splits)
  have whole: "from_first '':'' ?auth = [] \<Longrightarrow> before_first '':'' ?auth = ?auth"
    by (simp add: before_first_def from_first_def)
  have p: "path r = pathPart"
    using parsed by (auto split: if_splits option.splits)
  have h: "host r = before_first '':'' ?auth" "host r \<noteq> []" "1 \<le> port r \<and> port r \<le> 65535"
    using parsed whole parsePort_range by (auto split: if_splits option.splits)
  have "set (host r) \<subseteq> set ?auth" unfolding h(1) before_first_def by (auto dest: set_takeWhileD)
  then have "no_char_of ''/?#:'' (host r)"
    using before_no_char [of "'':''" ?auth] before_no_char [of "''/?#''" ?rest] unfolding h(1) [symmetric]
    by (auto simp: no_char_of_def)
  moreover have "path r \<noteq> [] \<and> hd (path r) \<in> set ''/?#''"
    using from_first_hd [of "''/?#''" ?rest] by (auto simp: p pathPart_def)
  ultimately show ?thesis using h by (simp add: url_ok_def)
qed

lemma parse_url_full:
  assumes "map to_lower scheme = HTTP_SCHEME" "url_ok r"
  shows "parseHttpHostPort (scheme @ host r @ CHR '':'' # decimal (nat (port r)) @ path r) = Some r"
proof -
  have dom: "1 \<le> port r" "port r \<le> 65535" "host r \<noteq> []" "no_char_of ''/?#:'' (host r)" "path r \<noteq> []" "hd (path r) \<in> set ''/?#''"
    using assms(2) by (simp_all add: url_ok_def)
  have len: "length scheme = length HTTP_SCHEME" using assms(1) by (metis length_map)
  have low: "map to_lower HTTP_SCHEME = HTTP_SCHEME" by (simp add: HTTP_SCHEME_def to_lower_def is_upper_def char_code_def)
  have sw: "startsWithIgnoreCase (scheme @ x) HTTP_SCHEME" for x
    using startsWithIgnoreCase_append [of scheme HTTP_SCHEME x] assms(1) low by simp
  let ?auth = "host r @ CHR '':'' # decimal (nat (port r))"
  have "no_char_of ''/?#'' ?auth"
    using dom(4) decimal_digits [of "nat (port r)"] by (auto simp: no_char_of_def list_all_iff is_digit_def char_code_def)
  then have b: "before_first ''/?#'' (?auth @ path r) = ?auth" "from_first ''/?#'' (?auth @ path r) = path r"
    using before_append [of "''/?#''" ?auth "path r"] dom(6) by simp_all
  have "no_char_of '':'' (host r)" using dom(4) by (auto simp: no_char_of_def)
  then have c: "before_first '':'' ?auth = host r" "from_first '':'' ?auth = CHR '':'' # decimal (nat (port r))"
    using before_append [of "'':''" "host r" "CHR '':'' # decimal (nat (port r))"] by simp_all
  have pp: "parsePort (decimal (nat (port r))) = Some (port r)" using parsePort_decimal [of "nat (port r)"] dom(1,2) by simp
  have d: "drop (length HTTP_SCHEME) (scheme @ x) = x" for x using len by simp
  have u: "scheme @ host r @ CHR '':'' # decimal (nat (port r)) @ path r = scheme @ (?auth @ path r)" by simp
  show ?thesis
    unfolding u parseHttpHostPort_def Let_def d b c using sw dom(3,5) pp by simp
qed

lemma parse_url_bare:
  assumes "map to_lower scheme = HTTP_SCHEME" "h \<noteq> []" "no_char_of ''/?#:'' h"
  shows "parseHttpHostPort (scheme @ h) = Some \<lparr>host = h, port = 80, path = ''/''\<rparr>"
proof -
  have len: "length scheme = length HTTP_SCHEME" using assms(1) by (metis length_map)
  have low: "map to_lower HTTP_SCHEME = HTTP_SCHEME" by (simp add: HTTP_SCHEME_def to_lower_def is_upper_def char_code_def)
  have sw: "startsWithIgnoreCase (scheme @ x) HTTP_SCHEME" for x
    using startsWithIgnoreCase_append [of scheme HTTP_SCHEME x] assms(1) low by simp
  have "no_char_of ''/?#'' h" "no_char_of '':'' h" using assms(3) by (auto simp: no_char_of_def)
  then have b: "before_first ''/?#'' h = h" "from_first ''/?#'' h = []" "from_first '':'' h = []"
    using before_append [of "''/?#''" h "[]"] before_append [of "'':''" h "[]"] by simp_all
  show ?thesis unfolding parseHttpHostPort_def Let_def using len sw b assms(2) by simp
qed

text \<open>
  Http URLs. Whatever text is parsed, an accepted URL has a host without delimiters, a port of a
  TCP endpoint and a path; every such endpoint is parsed back from its text, whatever the case of the
  scheme; a bare host gets port 80 and the root path; and another scheme is rejected.
\<close>

theorem url_parse_exact:
  "(\<forall>r. parseHttpHostPort url = Some r \<longrightarrow> url_ok r) \<and>
   (url_ok r \<and> map to_lower scheme = HTTP_SCHEME \<longrightarrow>
      parseHttpHostPort (scheme @ host r @ CHR '':'' # decimal (nat (port r)) @ path r) = Some r \<and>
      parseHttpHostPort (scheme @ host r) = Some \<lparr>host = host r, port = 80, path = ''/''\<rparr>) \<and>
   (map to_lower (take 7 url) \<noteq> HTTP_SCHEME \<longrightarrow> parseHttpHostPort url = None)"
proof (intro conjI allI impI)
  fix r assume "parseHttpHostPort url = Some r" then show "url_ok r" by (rule parse_url_ok)
next
  assume "url_ok r \<and> map to_lower scheme = HTTP_SCHEME"
  then show "parseHttpHostPort (scheme @ host r @ CHR '':'' # decimal (nat (port r)) @ path r) = Some r"
    "parseHttpHostPort (scheme @ host r) = Some \<lparr>host = host r, port = 80, path = ''/''\<rparr>"
    using parse_url_full parse_url_bare by (auto simp: url_ok_def)
next
  assume "map to_lower (take 7 url) \<noteq> HTTP_SCHEME"
  moreover have "map to_lower HTTP_SCHEME = HTTP_SCHEME" "length HTTP_SCHEME = 7"
    by (simp_all add: HTTP_SCHEME_def to_lower_def is_upper_def char_code_def)
  ultimately show "parseHttpHostPort url = None"
    by (auto simp: parseHttpHostPort_def startsWithIgnoreCase_def equalsIgnoreCase_iff)
qed


theorem url_parse_witness:
  "parseHttpHostPort ''HTTP://kiwi:8073/x?y'' = Some \<lparr>host = ''kiwi'', port = 8073, path = ''/x?y''\<rparr> \<and>
   parseHttpHostPort ''HTTP://kiwi'' = Some \<lparr>host = ''kiwi'', port = 80, path = ''/''\<rparr> \<and>
   parseHttpHostPort ''https://kiwi'' = None"
proof -
  have n: "decimal 8073 = ''8073''" by (simp add: decimal.simps) code_simp
  have l: "map to_lower ''HTTP://'' = HTTP_SCHEME" unfolding HTTP_SCHEME_def by code_simp
  have s: "map to_lower (take 7 ''https://kiwi'') \<noteq> HTTP_SCHEME" unfolding HTTP_SCHEME_def by code_simp
  let ?r = "\<lparr>host = ''kiwi'', port = 8073, path = ''/x?y''\<rparr>"
  have "url_ok ?r" by (simp add: url_ok_def no_char_of_def)
  then show ?thesis
    using url_parse_exact [of "''https://kiwi''" ?r "''HTTP://''"] l s by (simp add: n)
qed

section \<open>Redirects\<close>

text \<open>An endpoint a request can be sent to.\<close>

definition endpoint_ok :: "HttpHostPort \<Rightarrow> bool" where
  "endpoint_ok r \<longleftrightarrow> url_ok r \<and> hd (path r) = CHR ''/''"

lemma normalize_slash: "url_ok r \<Longrightarrow> normalizeHttpPath (path r) \<noteq> [] \<and> hd (normalizeHttpPath (path r)) = CHR ''/''"
  by (auto simp: url_ok_def normalizeHttpPath_def)

lemma with_normalized_ok:
  assumes "with_normalized_path (parseHttpHostPort url) = Some r"
  shows "endpoint_ok r"
proof -
  obtain q where q: "parseHttpHostPort url = Some q" "r = q\<lparr>path := normalizeHttpPath (path q)\<rparr>"
    using assms by (auto simp: with_normalized_path_def)
  then show ?thesis using parse_url_ok [OF q(1)] normalize_slash [of q] by (simp add: endpoint_ok_def url_ok_def)
qed

lemma directory_of_slash: "b \<noteq> [] \<Longrightarrow> hd b = CHR ''/'' \<Longrightarrow> directory_of b \<noteq> [] \<and> hd (directory_of b) = CHR ''/'' \<and>
    List.last (directory_of b) = CHR ''/''"
proof -
  assume b: "b \<noteq> []" "hd b = CHR ''/''"
  let ?d = "dropWhile (\<lambda>c. c \<noteq> CHR ''/'') (rev b)"
  have m: "CHR ''/'' \<in> set b" using b by (cases b) auto
  then have ne: "?d \<noteq> []" by (auto simp: dropWhile_eq_Nil_conv)
  have "rev b = takeWhile (\<lambda>c. c \<noteq> CHR ''/'') (rev b) @ ?d" by simp
  then have "List.last (rev b) = List.last ?d" using ne by (metis last_appendR)
  then have "hd (rev ?d) = CHR ''/''" using b ne by (simp add: hd_rev last_rev)
  moreover have "hd ?d = CHR ''/''" using hd_dropWhile [OF ne] by simp
  ultimately show ?thesis using ne m by (simp add: directory_of_def last_rev)
qed

lemma before_first_hd: "s \<noteq> [] \<Longrightarrow> hd s \<notin> set cs \<Longrightarrow> before_first cs s \<noteq> [] \<and> hd (before_first cs s) = hd s"
  by (cases s) (simp_all add: before_first_def)

lemma resolve_ok:
  assumes "endpoint_ok current" "resolveHttpLocation current location = Some r"
  shows "endpoint_ok r \<and> (\<not> startsWithIgnoreCase (trim location) ''http://'' \<and> take 2 (trim location) \<noteq> ''//'' \<longrightarrow>
           host r = host current \<and> port r = port current)"
proof -
  let ?loc = "trim location"
  let ?base = "before_first ''?#'' (normalizeHttpPath (path current))"
  have cur: "url_ok current" using assms(1) by (simp add: endpoint_ok_def)
  have base: "?base \<noteq> [] \<and> hd ?base = CHR ''/''"
    using normalize_slash [OF cur] before_first_hd [of "normalizeHttpPath (path current)" "''?#''"] by simp
  have keep: "endpoint_ok \<lparr>host = host current, port = port current, path = p\<rparr>" if "p \<noteq> []" "hd p = CHR ''/''" for p
    using cur that by (simp add: endpoint_ok_def url_ok_def)
  have ne: "?loc \<noteq> []" using assms(2) by (auto simp: resolveHttpLocation_def)
  have two: "take 2 ?loc = ''//'' \<longleftrightarrow> length ?loc \<ge> 2 \<and> ?loc ! 0 = CHR ''/'' \<and> ?loc ! 1 = CHR ''/''"
    by (cases ?loc; cases "tl ?loc") auto
  consider (abs) "startsWithIgnoreCase ?loc ''http://''"
    | (rel) "\<not> startsWithIgnoreCase ?loc ''http://''" "take 2 ?loc = ''//''"
    | (local) "\<not> startsWithIgnoreCase ?loc ''http://''" "take 2 ?loc \<noteq> ''//''" by blast
  then show ?thesis
  proof cases
    case abs
    then have "with_normalized_path (parseHttpHostPort ?loc) = Some r"
      using assms(2) ne by (simp add: resolveHttpLocation_def Let_def)
    then show ?thesis using with_normalized_ok abs by blast
  next
    case rel
    then have "with_normalized_path (parseHttpHostPort (''http:'' @ ?loc)) = Some r"
      using assms(2) ne unfolding two by (simp add: resolveHttpLocation_def Let_def)
    then show ?thesis using with_normalized_ok rel by blast
  next
    case local
    have loc0: "?loc ! 0 = hd ?loc" using ne by (simp add: hd_conv_nth)
    have r: "r = \<lparr>host = host current, port = port current,
        path = (if ?loc ! 0 = CHR ''/'' then ?loc else if ?loc ! 0 = CHR ''?'' then ?base @ ?loc else directory_of ?base @ ?loc)\<rparr>"
      using assms(2) ne local unfolding two by (auto simp: resolveHttpLocation_def Let_def split: if_splits)
    have "endpoint_ok r" unfolding r
      using ne base directory_of_slash [of ?base] loc0 by (intro keep) auto
    then show ?thesis by (simp add: r)
  qed
qed

text \<open>A chain of redirects.\<close>

fun follow :: "HttpHostPort \<Rightarrow> string list \<Rightarrow> HttpHostPort option" where
  "follow current [] = Some current"
| "follow current (l # ls) = (case resolveHttpLocation current l of None \<Rightarrow> None | Some r \<Rightarrow> follow r ls)"

text \<open>
  Redirects. From a usable endpoint every chain of Location headers, whatever they contain, ends
  in a usable endpoint or is refused, and a redirect that names neither a scheme nor an authority never
  leaves the host.
\<close>

theorem url_redirects_stay_valid:
  assumes "endpoint_ok current"
  shows "(\<forall>r. follow current ls = Some r \<longrightarrow> endpoint_ok r) \<and>
    (\<forall>l r. resolveHttpLocation current l = Some r \<and> \<not> startsWithIgnoreCase (trim l) ''http://'' \<and> take 2 (trim l) \<noteq> ''//'' \<longrightarrow>
       host r = host current \<and> port r = port current)"
proof (intro conjI allI impI)
  fix r assume "follow current ls = Some r"
  then show "endpoint_ok r" using assms
    by (induction ls arbitrary: current) (auto split: option.splits dest: resolve_ok)
next
  fix l r
  assume "resolveHttpLocation current l = Some r \<and> \<not> startsWithIgnoreCase (trim l) ''http://'' \<and> take 2 (trim l) \<noteq> ''//''"
  then show "host r = host current" "port r = port current" using resolve_ok [OF assms] by blast+
qed

theorem url_redirects_witness:
  "\<exists>r. follow \<lparr>host = ''kiwi'', port = 8073, path = ''/a/b?c''\<rparr> ['' d '', ''?e''] = Some r \<and> endpoint_ok r \<and> path r = ''/a/d?e''"
proof -
  let ?c = "\<lparr>host = ''kiwi'', port = 8073, path = ''/a/b?c''\<rparr>"
  have "endpoint_ok ?c" by (simp add: endpoint_ok_def url_ok_def no_char_of_def)
  moreover have "follow ?c ['' d '', ''?e''] = Some \<lparr>host = ''kiwi'', port = 8073, path = ''/a/d?e''\<rparr>"
    by (simp add: resolveHttpLocation_def Let_def trim_def is_blank_def before_first_def normalizeHttpPath_def
        directory_of_def startsWithIgnoreCase_def)
  ultimately show ?thesis using url_redirects_stay_valid [of ?c "['' d '', ''?e'']"] by simp
qed

section \<open>Base64: round trip\<close>

text \<open>A decoder by the standard's table.\<close>

definition base64_val :: "char \<Rightarrow> u32" where
  "base64_val c =
     (if is_upper c then of_nat (char_code c - 65)
      else if is_lower c then of_nat (char_code c - 71)
      else if is_digit c then of_nat (char_code c + 4)
      else if c = CHR ''+'' then 62 else 63)"

definition join4 :: "char \<Rightarrow> char \<Rightarrow> char \<Rightarrow> char \<Rightarrow> u32" where
  "join4 a b c d = push_bit 18 (base64_val a) OR push_bit 12 (base64_val b) OR push_bit 6 (base64_val c) OR base64_val d"

fun base64_decode :: "string \<Rightarrow> u8 list" where
  "base64_decode (a # b # c # d # rest) =
     (if c = CHR ''='' then [ucast (drop_bit 16 (join4 a b CHR ''A'' CHR ''A''))]
      else if d = CHR ''='' then [ucast (drop_bit 16 (join4 a b c CHR ''A'')), ucast (drop_bit 8 (join4 a b c CHR ''A''))]
      else [ucast (drop_bit 16 (join4 a b c d)), ucast (drop_bit 8 (join4 a b c d)), ucast (join4 a b c d)] @ base64_decode rest)"
| "base64_decode _ = []"

lemma alphabet_val: "list_all (\<lambda>n. base64_val (base64_alphabet ! n) = of_nat n \<and> base64_alphabet ! n \<noteq> CHR ''='') [0..<64]"
  by (simp add: upt_rec base64_alphabet_def base64_val_def is_upper_def is_lower_def is_digit_def char_code_def)

lemma sextet_val: "base64_val (sextet v n) = drop_bit n v AND 0x3F" "sextet v n \<noteq> CHR ''=''"
proof -
  have "(0x3F :: u32) = mask 6" by (simp add: mask_eq_exp_minus_1)
  then have m: "drop_bit n v AND 0x3F = take_bit 6 (drop_bit n v)" by (simp add: take_bit_eq_mask)
  have "unat (take_bit 6 (drop_bit n v)) < 64"
    using take_bit_nat_less_exp [of 6 "unat (drop_bit n v)"] by (simp only: unsigned_take_bit_eq) simp
  then have b: "unat (drop_bit n v AND 0x3F) < 64" unfolding m .
  then have "base64_val (sextet v n) = of_nat (unat (drop_bit n v AND 0x3F)) \<and> sextet v n \<noteq> CHR ''=''"
    using alphabet_val unfolding sextet_def list_all_iff by simp
  then show "base64_val (sextet v n) = drop_bit n v AND 0x3F" "sextet v n \<noteq> CHR ''=''" by simp_all
qed

lemma sextet_bit: "bit (base64_val (sextet v n)) k \<longleftrightarrow> k < 6 \<and> bit v (n + k)"
proof -
  have "(0x3F :: u32) = mask 6" by (simp add: mask_eq_exp_minus_1)
  then have "base64_val (sextet v n) = drop_bit n v AND mask 6" by (simp only: sextet_val)
  then show ?thesis by (auto simp: bit_and_iff bit_mask_iff bit_drop_bit_eq)
qed

lemma A_val: "base64_val CHR ''A'' = 0"
  by (simp add: base64_val_def is_upper_def char_code_def)

lemma join_sextets:
  assumes "\<And>k. bit v k \<Longrightarrow> k < 24"
  shows "join4 (sextet v 18) (sextet v 12) (sextet v 6) (sextet v 0) = v"
proof (rule bit_word_eqI)
  fix k assume "k < LENGTH(32)"
  consider "k < 6" | "6 \<le> k \<and> k < 12" | "12 \<le> k \<and> k < 18" | "18 \<le> k \<and> k < 24" | "24 \<le> k" by linarith
  then show "bit (join4 (sextet v 18) (sextet v 12) (sextet v 6) (sextet v 0)) k = bit v k"
    unfolding join4_def bit_or_iff bit_push_bit_iff sextet_bit
    by cases (auto dest: assms)
qed

lemma join_padded:
  assumes "\<And>k. bit v k \<Longrightarrow> k < 24"
  shows "(\<And>k. k < 6 \<Longrightarrow> \<not> bit v k) \<Longrightarrow> join4 (sextet v 18) (sextet v 12) (sextet v 6) CHR ''A'' = v"
    "(\<And>k. k < 12 \<Longrightarrow> \<not> bit v k) \<Longrightarrow> join4 (sextet v 18) (sextet v 12) CHR ''A'' CHR ''A'' = v"
proof -
  have z: "base64_val (sextet v n) = 0" if "\<And>k. n \<le> k \<Longrightarrow> k < n + 6 \<Longrightarrow> \<not> bit v k" for n
    by (rule bit_word_eqI) (use that in \<open>auto simp: sextet_bit\<close>)
  show "join4 (sextet v 18) (sextet v 12) (sextet v 6) CHR ''A'' = v" if l: "\<And>k. k < 6 \<Longrightarrow> \<not> bit v k"
  proof -
    have "base64_val (sextet v 0) = 0" using l by (intro z) simp
    then show ?thesis using join_sextets [of v] assms by (simp add: join4_def A_val)
  qed
  show "join4 (sextet v 18) (sextet v 12) CHR ''A'' CHR ''A'' = v" if l: "\<And>k. k < 12 \<Longrightarrow> \<not> bit v k"
  proof -
    have "base64_val (sextet v 0) = 0" "base64_val (sextet v 6) = 0" using l by (intro z; simp)+
    then show ?thesis using join_sextets [of v] assms by (simp add: join4_def A_val)
  qed
qed

definition pack3 :: "u8 \<Rightarrow> u8 \<Rightarrow> u8 \<Rightarrow> u32" where
  "pack3 a b c = push_bit 16 (ucast a) OR push_bit 8 (ucast b) OR ucast c"

lemma bit_pack3:
  "bit (pack3 a b c) k \<longleftrightarrow> (if k < 8 then bit c k else if k < 16 then bit b (k - 8) else bit a (k - 16))"
  unfolding pack3_def bit_or_iff bit_push_bit_iff bit_ucast_iff by (auto dest: bit_imp_le_length)

lemma pack3_width: "bit (pack3 a b c) k \<Longrightarrow> k < 24"
  by (auto simp: bit_pack3 split: if_splits dest: bit_imp_le_length)

lemma pack3_bytes:
  "ucast (drop_bit 16 (pack3 a b c)) = a" "ucast (drop_bit 8 (pack3 a b c)) = b" "ucast (pack3 a b c) = c"
  by (intro bit_word_eqI; auto simp: bit_ucast_iff bit_drop_bit_eq bit_pack3)+

lemma encode_pack3:
  "base64_encode (a # b # c # rest) = [sextet (pack3 a b c) 18, sextet (pack3 a b c) 12, sextet (pack3 a b c) 6, sextet (pack3 a b c) 0] @ base64_encode rest"
  "base64_encode [a, b] = [sextet (pack3 a b 0) 18, sextet (pack3 a b 0) 12, sextet (pack3 a b 0) 6, CHR ''='']"
  "base64_encode [a] = [sextet (pack3 a 0 0) 18, sextet (pack3 a 0 0) 12, CHR ''='', CHR ''='']"
  by (simp_all add: pack3_def Let_def)

text \<open>
  Base64. Every byte sequence is decoded back from its encoding, whose length is four characters for
  every three bytes begun.
\<close>

theorem base64_roundtrip:
  "base64_decode (base64_encode xs) = xs \<and> length (base64_encode xs) = (length xs + 2) div 3 * 4"
proof (induction xs rule: base64_encode.induct)
  case (1 a b c rest)
  have "join4 (sextet (pack3 a b c) 18) (sextet (pack3 a b c) 12) (sextet (pack3 a b c) 6) (sextet (pack3 a b c) 0) = pack3 a b c"
    by (rule join_sextets) (rule pack3_width)
  moreover have "(length (a # b # c # rest) + 2) div 3 = Suc ((length rest + 2) div 3)" by simp
  ultimately show ?case using 1 by (simp del: base64_encode.simps add: encode_pack3 sextet_val(2) pack3_bytes)
next
  case (2 a b)
  have "join4 (sextet (pack3 a b 0) 18) (sextet (pack3 a b 0) 12) (sextet (pack3 a b 0) 6) CHR ''A'' = pack3 a b 0"
    by (rule join_padded(1) [OF pack3_width]) (simp_all add: bit_pack3)
  then show ?case by (simp del: base64_encode.simps add: encode_pack3 sextet_val(2) pack3_bytes)
next
  case (3 a)
  have "join4 (sextet (pack3 a 0 0) 18) (sextet (pack3 a 0 0) 12) CHR ''A'' CHR ''A'' = pack3 a 0 0"
    by (rule join_padded(2) [OF pack3_width]) (simp_all add: bit_pack3)
  then show ?case by (simp del: base64_encode.simps add: encode_pack3 sextet_val(2) pack3_bytes)
qed simp

end
