(* ===== verification/Pocsag.thy ===== *)
theory Pocsag
  imports Prelude
begin

text \<open>
  The POCSAG pager decoder (\<open>decoder_modules/pager_decoder/src/pocsag/pocsag.cpp\<close>, \<open>pocsag.h\<close>): frame
  synchronization within four bit errors, batches of sixteen codewords, addresses and messages.
  Delivered messages are collected in order. \<open>currChar\<close> is the \<open>char\<close> of the source as a byte.
\<close>

definition POCSAG_FRAME_SYNC_CODEWORD :: u32 where
  "POCSAG_FRAME_SYNC_CODEWORD = 0b01111100110100100001010111011000"
definition POCSAG_IDLE_CODEWORD_DATA :: u32 where
  "POCSAG_IDLE_CODEWORD_DATA = 0b011110101100100111000"
definition POCSAG_SYNC_DIST :: nat where "POCSAG_SYNC_DIST = 4"
definition POCSAG_BATCH_CODEWORD_COUNT :: nat where "POCSAG_BATCH_CODEWORD_COUNT = 16"
definition POCSAG_BATCH_BIT_COUNT :: nat where "POCSAG_BATCH_BIT_COUNT = POCSAG_BATCH_CODEWORD_COUNT * 32"

datatype MessageType = MESSAGE_TYPE_NUMERIC | MESSAGE_TYPE_ALPHANUMERIC

datatype CodewordType = CODEWORD_TYPE_IDLE | CODEWORD_TYPE_ADDRESS | CODEWORD_TYPE_MESSAGE

record PocsagDecoder =
  syncSR :: u32
  synced :: bool
  batchOffset :: nat
  batch :: "u32 list"
  addr :: u32
  msgType :: MessageType
  msg :: "u8 list"
  currChar :: u8
  currOffset :: nat
  delivered :: "(u32 \<times> MessageType \<times> u8 list) list"

definition NUMERIC_CHARSET :: string where
  "NUMERIC_CHARSET = ''0123456789*U -]['' "

text \<open>The loop counting the differing bits.\<close>

fun distance_loop :: "nat \<Rightarrow> u32 \<Rightarrow> nat \<Rightarrow> nat" where
  "distance_loop 0 diff d = d"
| "distance_loop (Suc n) diff d = distance_loop n diff (d + of_bool (bit diff (31 - n)))"

definition pocsag_distance :: "u32 \<Rightarrow> u32 \<Rightarrow> nat" where
  "pocsag_distance a b = distance_loop 32 (a XOR b) 0"

definition flushMessage :: "PocsagDecoder \<Rightarrow> PocsagDecoder" where
  "flushMessage d =
     (if msg d \<noteq> []
      then d\<lparr>delivered := delivered d @ [(addr d, msgType d, msg d)], msg := [], currChar := 0, currOffset := 0\<rparr>
      else d)"

definition codewordType :: "u32 \<Rightarrow> CodewordType" where
  "codewordType cw =
     (if bit cw 31 then CODEWORD_TYPE_MESSAGE
      else if drop_bit 11 cw = POCSAG_IDLE_CODEWORD_DATA then CODEWORD_TYPE_IDLE
      else CODEWORD_TYPE_ADDRESS)"

definition numeric_char :: "u32 \<Rightarrow> nat \<Rightarrow> u8" where
  "numeric_char data n = of_nat (char_code (NUMERIC_CHARSET ! unat (drop_bit n data AND 0b1111)))"

definition alpha_bit :: "bool \<Rightarrow> PocsagDecoder \<Rightarrow> PocsagDecoder" where
  "alpha_bit b d =
     (let d = d\<lparr>currChar := currChar d OR push_bit (currOffset d) (of_bool b), currOffset := currOffset d + 1\<rparr>
      in if currOffset d \<ge> 7
         then d\<lparr>msg := (if currChar d \<noteq> 0 then msg d @ [currChar d] else msg d), currChar := 0, currOffset := 0\<rparr>
         else d)"

text \<open>The bits of the data field, from bit 19 down.\<close>

fun alpha_loop :: "nat \<Rightarrow> u32 \<Rightarrow> PocsagDecoder \<Rightarrow> PocsagDecoder" where
  "alpha_loop 0 data d = d"
| "alpha_loop (Suc i) data d = alpha_loop i data (alpha_bit (bit data i) d)"

definition decodeCodeword :: "nat \<Rightarrow> u32 \<Rightarrow> PocsagDecoder \<Rightarrow> PocsagDecoder" where
  "decodeCodeword i cw d =
     (case codewordType cw of
        CODEWORD_TYPE_IDLE \<Rightarrow> flushMessage d
      | CODEWORD_TYPE_ADDRESS \<Rightarrow>
          (flushMessage d)\<lparr>msgType := MESSAGE_TYPE_ALPHANUMERIC,
             addr := push_bit 3 (drop_bit 13 cw AND 0b111111111111111111) OR of_nat (i div 2)\<rparr>
      | CODEWORD_TYPE_MESSAGE \<Rightarrow>
          let data = drop_bit 11 cw AND 0b11111111111111111111 in
          (case msgType d of
             MESSAGE_TYPE_NUMERIC \<Rightarrow>
               d\<lparr>msg := msg d @ [numeric_char data 16, numeric_char data 12, numeric_char data 8, numeric_char data 4, numeric_char data 0]\<rparr>
           | MESSAGE_TYPE_ALPHANUMERIC \<Rightarrow> alpha_loop 20 data d))"

text \<open>\<open>correctCodeword\<close> accepts every codeword as it is.\<close>

fun decode_codewords :: "nat \<Rightarrow> u32 list \<Rightarrow> PocsagDecoder \<Rightarrow> PocsagDecoder" where
  "decode_codewords i [] d = d"
| "decode_codewords i (cw # cws) d = decode_codewords (i + 1) cws (decodeCodeword i cw d)"

definition decodeBatch :: "PocsagDecoder \<Rightarrow> PocsagDecoder" where
  "decodeBatch d = decode_codewords 0 (batch d) d"

definition sync_symbol :: "u32 \<Rightarrow> PocsagDecoder \<Rightarrow> PocsagDecoder" where
  "sync_symbol s d =
     (let d = d\<lparr>syncSR := push_bit 1 (syncSR d) OR s\<rparr>
      in d\<lparr>synced := (pocsag_distance (syncSR d) POCSAG_FRAME_SYNC_CODEWORD \<le> POCSAG_SYNC_DIST)\<rparr>)"

definition store_symbol :: "u32 \<Rightarrow> PocsagDecoder \<Rightarrow> PocsagDecoder" where
  "store_symbol s d =
     (let i = batchOffset d div 32 in
      d\<lparr>batch := (batch d)[i := batch d ! i OR push_bit (31 - batchOffset d mod 32) s],
        batchOffset := batchOffset d + 1\<rparr>)"

definition end_of_batch :: "PocsagDecoder \<Rightarrow> PocsagDecoder" where
  "end_of_batch d =
     (if batchOffset d \<ge> POCSAG_BATCH_BIT_COUNT
      then (decodeBatch d)\<lparr>batchOffset := 0, synced := False, batch := replicate POCSAG_BATCH_CODEWORD_COUNT 0\<rparr>
      else d)"

definition pocsag_symbol :: "u8 \<Rightarrow> PocsagDecoder \<Rightarrow> PocsagDecoder" where
  "pocsag_symbol symbol d =
     (if \<not> synced d then sync_symbol (ucast symbol) d else end_of_batch (store_symbol (ucast symbol) d))"

definition pocsag_process :: "u8 list \<Rightarrow> PocsagDecoder \<Rightarrow> PocsagDecoder" where
  "pocsag_process symbols d = fold pocsag_symbol symbols d"

text \<open>The members without an initializer (\<open>addr\<close>, \<open>msgType\<close>) are left as the memory was.\<close>

definition pocsag_initial :: "PocsagDecoder \<Rightarrow> PocsagDecoder" where
  "pocsag_initial mem =
     mem\<lparr>syncSR := 0, synced := False, batchOffset := 0, batch := replicate POCSAG_BATCH_CODEWORD_COUNT 0,
         msg := [], currChar := 0, currOffset := 0, delivered := []\<rparr>"

section \<open>Invariant\<close>

definition message_ok :: "PocsagDecoder \<Rightarrow> bool" where
  "message_ok d \<longleftrightarrow> currOffset d < 7 \<and> list_all (\<lambda>m. snd (snd m) \<noteq> []) (delivered d)"

definition pocsag_ok :: "PocsagDecoder \<Rightarrow> bool" where
  "pocsag_ok d \<longleftrightarrow> length (batch d) = 16 \<and> batchOffset d < 512 \<and> message_ok d"

lemma flush_ok: "message_ok d \<Longrightarrow> message_ok (flushMessage d)"
  by (simp add: message_ok_def flushMessage_def)

lemma alpha_bit_ok: "message_ok d \<Longrightarrow> message_ok (alpha_bit b d)"
  by (simp add: message_ok_def alpha_bit_def Let_def)

lemma alpha_loop_ok: "message_ok d \<Longrightarrow> message_ok (alpha_loop n data d)"
  by (induction n arbitrary: d) (simp_all add: alpha_bit_ok)

lemma decodeCodeword_ok: "message_ok d \<Longrightarrow> message_ok (decodeCodeword i cw d)"
proof -
  have u: "message_ok (x\<lparr>msgType := t, addr := v\<rparr>) = message_ok x" "message_ok (x\<lparr>msg := m\<rparr>) = message_ok x" for x t v m
    by (simp_all add: message_ok_def)
  show "message_ok d \<Longrightarrow> message_ok (decodeCodeword i cw d)"
    by (simp add: decodeCodeword_def Let_def u flush_ok alpha_loop_ok del: alpha_loop.simps split: CodewordType.split MessageType.split)
qed

lemma decode_codewords_ok: "message_ok d \<Longrightarrow> message_ok (decode_codewords i cws d)"
  by (induction i cws d rule: decode_codewords.induct) (simp_all add: decodeCodeword_ok)

lemma end_of_batch_ok:
  assumes "message_ok d" "length (batch d) = 16" "batchOffset d \<le> 512"
  shows "pocsag_ok (end_of_batch d)"
proof (cases "batchOffset d \<ge> 512")
  case True
  have "message_ok (x\<lparr>batchOffset := 0, synced := False, batch := b\<rparr>) = message_ok x" for x b by (simp add: message_ok_def)
  then show ?thesis using True decode_codewords_ok [OF assms(1)]
    by (simp add: end_of_batch_def decodeBatch_def pocsag_ok_def POCSAG_BATCH_BIT_COUNT_def POCSAG_BATCH_CODEWORD_COUNT_def)
next
  case False
  then show ?thesis using assms
    by (simp add: end_of_batch_def pocsag_ok_def POCSAG_BATCH_BIT_COUNT_def POCSAG_BATCH_CODEWORD_COUNT_def)
qed

lemma pocsag_symbol_ok:
  assumes "pocsag_ok d"
  shows "pocsag_ok (pocsag_symbol x d)"
proof (cases "synced d")
  case True
  let ?s = "store_symbol (ucast x) d"
  have "pocsag_ok (end_of_batch ?s)"
    using assms by (intro end_of_batch_ok) (simp_all add: store_symbol_def pocsag_ok_def message_ok_def Let_def)
  then show ?thesis using True by (simp add: pocsag_symbol_def)
next
  case False
  then show ?thesis using assms by (simp add: pocsag_symbol_def sync_symbol_def pocsag_ok_def message_ok_def Let_def)
qed

text \<open>
  For any input, a decoder writes inside its batch, builds characters of seven bits at most and
  never delivers an empty message.
\<close>

theorem pocsag_invariant:
  "pocsag_ok (pocsag_process symbols (pocsag_initial mem)) \<and>
   batchOffset (pocsag_process symbols (pocsag_initial mem)) div 32
     < length (batch (pocsag_process symbols (pocsag_initial mem)))"
proof -
  have "pocsag_ok d \<Longrightarrow> pocsag_ok (pocsag_process symbols d)" for d
    unfolding pocsag_process_def by (induction symbols arbitrary: d) (simp_all add: pocsag_symbol_ok)
  moreover have "pocsag_ok (pocsag_initial mem)"
    by (simp add: pocsag_ok_def message_ok_def pocsag_initial_def POCSAG_BATCH_CODEWORD_COUNT_def)
  ultimately have "pocsag_ok (pocsag_process symbols (pocsag_initial mem))" by blast
  then show ?thesis by (auto simp: pocsag_ok_def)
qed

section \<open>Batches\<close>

definition word_symbols :: "u32 \<Rightarrow> u8 list" where
  "word_symbols w = map (\<lambda>k. of_bool (bit w k)) (rev [0..<32])"

lemma store_word_prefix:
  assumes "batchOffset d = 32 * i" "i < length (batch d)" "batch d ! i = 0" "n \<le> 32"
  shows "fold (\<lambda>x. store_symbol (ucast (x :: u8))) (map (\<lambda>k. of_bool (bit w k)) (rev [32 - n..<32])) d =
    d\<lparr>batch := (batch d)[i := push_bit (32 - n) (drop_bit (32 - n) w)], batchOffset := 32 * i + n\<rparr>"
  using assms(4)
proof (induction n)
  case 0
  have "(batch d)[i := 0] = batch d" using assms(2,3) by (metis list_update_id)
  moreover have "push_bit 32 (drop_bit 32 w) = 0" by (rule bit_word_eqI) (simp add: bit_push_bit_iff)
  ultimately show ?case using assms(1) by simp
next
  case (Suc n)
  have upt: "rev [32 - Suc n..<32] = rev [32 - n..<32] @ [31 - n]"
  proof -
    have "Suc (31 - n) = 32 - n" "32 - Suc n = 31 - n" "31 - n < 32" using Suc.prems by arith+
    then show ?thesis using upt_conv_Cons [of "31 - n" 32] by simp
  qed
  have merge: "push_bit (32 - n) (drop_bit (32 - n) w) OR push_bit (31 - n) (ucast (of_bool (bit w (31 - n)) :: u8)) =
      push_bit (32 - Suc n) (drop_bit (32 - Suc n) w)"
  proof (rule bit_word_eqI)
    fix k assume k: "k < LENGTH(32)"
    have high: "bit (push_bit m (drop_bit m w)) k \<longleftrightarrow> m \<le> k \<and> bit w k" for m
      using k by (auto simp: bit_push_bit_iff bit_drop_bit_eq)
    have single: "bit (push_bit (31 - n) (ucast (of_bool (bit w (31 - n)) :: u8) :: u32)) k \<longleftrightarrow> k = 31 - n \<and> bit w k"
      using k by (cases "bit w (31 - n)") (auto simp: bit_exp_iff)
    show "bit (push_bit (32 - n) (drop_bit (32 - n) w) OR push_bit (31 - n) (ucast (of_bool (bit w (31 - n)) :: u8))) k =
        bit (push_bit (32 - Suc n) (drop_bit (32 - Suc n) w)) k"
      unfolding bit_or_iff high single using Suc.prems by auto
  qed
  have "(32 * i + n) div 32 = i" "(32 * i + n) mod 32 = n" using Suc.prems by auto
  then show ?case using Suc assms(2) merge unfolding upt
    by (simp add: store_symbol_def Let_def)
qed


lemma store_word:
  assumes "batchOffset d = 32 * i" "i < length (batch d)" "batch d ! i = 0"
  shows "fold (\<lambda>x. store_symbol (ucast x)) (word_symbols w) d = d\<lparr>batch := (batch d)[i := w], batchOffset := 32 * Suc i\<rparr>"
  using store_word_prefix [OF assms, of 32 w] by (simp add: word_symbols_def)

lemma store_words:
  assumes "batchOffset d = 32 * i" "i + length ws = 16" "batch d = bs @ replicate (length ws) 0" "length bs = i"
  shows "fold (\<lambda>x. store_symbol (ucast x)) (concat (map word_symbols ws)) d = d\<lparr>batch := bs @ ws, batchOffset := 512\<rparr>"
  using assms
proof (induction ws arbitrary: d i bs)
  case Nil
  then show ?case by simp
next
  case (Cons w ws)
  let ?d = "d\<lparr>batch := (batch d)[i := w], batchOffset := 32 * Suc i\<rparr>"
  have "fold (\<lambda>x. store_symbol (ucast x)) (word_symbols w) d = ?d"
    using Cons.prems by (intro store_word) (simp_all add: nth_append)
  moreover have "fold (\<lambda>x. store_symbol (ucast x)) (concat (map word_symbols ws)) ?d = ?d\<lparr>batch := (bs @ [w]) @ ws, batchOffset := 512\<rparr>"
    using Cons.prems by (intro Cons.IH [of _ "Suc i"]) (simp_all add: list_update_append)
  ultimately show ?case by simp
qed

lemma symbols_stored:
  assumes "synced d" "batchOffset d + length xs < 512"
  shows "pocsag_process xs d = fold (\<lambda>x. store_symbol (ucast x)) xs d"
  using assms
proof (induction xs arbitrary: d)
  case (Cons x xs)
  have s: "synced (store_symbol (ucast x) d)" "batchOffset (store_symbol (ucast x) d) = batchOffset d + 1"
    using Cons.prems by (simp_all add: store_symbol_def Let_def)
  then have "pocsag_symbol x d = store_symbol (ucast x) d"
    using Cons.prems by (simp add: pocsag_symbol_def end_of_batch_def POCSAG_BATCH_BIT_COUNT_def POCSAG_BATCH_CODEWORD_COUNT_def)
  then show ?case using Cons s by (simp add: pocsag_process_def)
qed (simp add: pocsag_process_def)

lemma length_word_symbols [simp]: "length (word_symbols w) = 32"
  by (simp add: word_symbols_def)

lemma length_words_symbols: "length (concat (map word_symbols ws)) = 32 * length ws"
  by (induction ws) simp_all

lemma batch_received:
  assumes "synced d" "batchOffset d = 0" "batch d = replicate 16 0" "length ws = 16"
  shows "pocsag_process (concat (map word_symbols ws)) d =
    (decode_codewords 0 ws (d\<lparr>batch := ws, batchOffset := 512\<rparr>))\<lparr>batchOffset := 0, synced := False, batch := replicate 16 0\<rparr>"
proof -
  let ?xs = "concat (map word_symbols ws)"
  have len: "length ?xs = 512" using assms(4) by (simp add: length_words_symbols)
  then obtain ys x where xs: "?xs = ys @ [x]" by (cases ?xs rule: rev_cases) auto
  have ly: "length ys = 511" using len xs by simp
  have stored: "store_symbol (ucast x) (fold (\<lambda>x. store_symbol (ucast x)) ys d) = d\<lparr>batch := ws, batchOffset := 512\<rparr>"
    using store_words [of d 0 ws "[]"] assms unfolding xs by simp
  have ysd: "pocsag_process ys d = fold (\<lambda>x. store_symbol (ucast x)) ys d"
    using assms ly by (intro symbols_stored) simp_all
  have "synced (fold (\<lambda>x. store_symbol (ucast x)) zs e) = synced e" for zs :: "u8 list" and e
    by (induction zs arbitrary: e) (simp_all add: store_symbol_def Let_def)
  then have "synced (pocsag_process ys d)" using assms(1) ysd by simp
  then have "pocsag_process ?xs d = end_of_batch (d\<lparr>batch := ws, batchOffset := 512\<rparr>)"
    unfolding xs using stored ysd by (simp add: pocsag_process_def pocsag_symbol_def)
  then show ?thesis
    by (simp add: end_of_batch_def decodeBatch_def POCSAG_BATCH_BIT_COUNT_def POCSAG_BATCH_CODEWORD_COUNT_def)
qed

section \<open>Messages\<close>

text \<open>The 20 data bits of a message codeword, and the bits of a text: seven per character, the lowest first.\<close>

definition data_bits :: "u32 \<Rightarrow> bool list" where
  "data_bits w = map (\<lambda>k. bit w (11 + k)) (rev [0..<20])"

definition char_bits :: "u8 \<Rightarrow> bool list" where
  "char_bits c = map (bit c) [0..<7]"

definition carries :: "u32 list \<Rightarrow> u8 list \<Rightarrow> bool" where
  "carries ws cs \<longleftrightarrow> list_all (\<lambda>w. bit w 31) ws \<and>
     (\<exists>k. concat (map data_bits ws) = concat (map char_bits cs) @ replicate k False)"

lemma alpha_loop_fold: "alpha_loop n data d = fold alpha_bit (map (bit data) (rev [0..<n])) d"
  by (induction n arbitrary: d) simp_all

lemma bit_data_field: "k < 20 \<Longrightarrow> bit (drop_bit 11 cw AND 0b11111111111111111111 :: u32) k = bit cw (11 + k)"
proof -
  have "(0b11111111111111111111 :: u32) = mask 20" by (simp add: mask_eq_exp_minus_1)
  then show "k < 20 \<Longrightarrow> ?thesis" by (simp only: bit_and_iff bit_mask_iff bit_drop_bit_eq) auto
qed

lemma message_codeword:
  assumes "bit cw 31" "msgType d = MESSAGE_TYPE_ALPHANUMERIC"
  shows "decodeCodeword i cw d = fold alpha_bit (data_bits cw) d"
proof -
  have "map (bit (drop_bit 11 cw AND 0b11111111111111111111)) (rev [0..<20]) = data_bits cw"
    unfolding data_bits_def by (rule map_cong) (simp_all add: bit_data_field del: upt_Suc)
  then show ?thesis using assms by (simp add: decodeCodeword_def codewordType_def alpha_loop_fold Let_def del: alpha_loop.simps)
qed


lemma take_bit_Suc_or: "take_bit n c OR push_bit n (of_bool (bit c n)) = take_bit (Suc n) (c :: u8)"
proof (cases "bit c n")
  case True
  show ?thesis by (rule bit_word_eqI) (use True in \<open>auto simp: bit_or_iff bit_take_bit_iff bit_exp_iff less_Suc_eq\<close>)
next
  case False
  show ?thesis by (rule bit_word_eqI) (use False in \<open>auto simp: bit_take_bit_iff less_Suc_eq\<close>)
qed

lemma alpha_prefix:
  assumes "currOffset d = 0" "currChar d = 0" "n \<le> 6"
  shows "fold alpha_bit (map (bit c) [0..<n]) d = d\<lparr>currChar := take_bit n c, currOffset := n\<rparr>"
  using assms(3)
proof (induction n)
  case 0
  then show ?case using assms(1,2) by simp
next
  case (Suc n)
  then show ?case using take_bit_Suc_or [of n c] by (simp add: alpha_bit_def Let_def)
qed

lemma alpha_char:
  assumes "currOffset d = 0" "currChar d = 0" "c \<noteq> 0" "take_bit 7 c = c"
  shows "fold alpha_bit (char_bits c) d = d\<lparr>msg := msg d @ [c]\<rparr>"
proof -
  have b: "char_bits c = map (bit c) [0..<6] @ [bit c 6]"
    by (simp add: char_bits_def numeral_eq_Suc)
  have "take_bit 6 c OR push_bit 6 (of_bool (bit c 6)) = take_bit 7 c"
    using take_bit_Suc_or [of 6 c] by (simp add: eval_nat_numeral)
  then show ?thesis using assms alpha_prefix [OF assms(1,2), of 6 c]
    by (simp add: b alpha_bit_def Let_def)
qed

lemma alpha_text:
  assumes "currOffset d = 0" "currChar d = 0" "list_all (\<lambda>c. c \<noteq> 0 \<and> take_bit 7 c = c) cs"
  shows "fold alpha_bit (concat (map char_bits cs)) d = d\<lparr>msg := msg d @ cs\<rparr>"
  using assms
proof (induction cs arbitrary: d)
  case (Cons c cs)
  then show ?case by (simp add: alpha_char)
qed simp

lemma alpha_padding: "currChar d = 0 \<Longrightarrow> \<exists>j. (alpha_bit False ^^ k) d = d\<lparr>currOffset := j\<rparr>"
proof (induction k)
  case 0
  have "d = d\<lparr>currOffset := currOffset d\<rparr>" by simp
  then show ?case unfolding funpow.simps id_apply by blast
next
  case (Suc k)
  then obtain j where "(alpha_bit False ^^ k) d = d\<lparr>currOffset := j\<rparr>" by blast
  then have "(alpha_bit False ^^ Suc k) d = d\<lparr>currOffset := (if j + 1 \<ge> 7 then 0 else j + 1)\<rparr>"
    using Suc.prems by (simp add: alpha_bit_def Let_def)
  then show ?case by blast
qed

lemma alpha_keeps_type: "msgType (fold alpha_bit bs d) = msgType d"
  by (induction bs arbitrary: d) (simp_all add: alpha_bit_def Let_def)

lemma decode_message_codewords:
  "list_all (\<lambda>w. bit w 31) ws \<Longrightarrow> msgType d = MESSAGE_TYPE_ALPHANUMERIC \<Longrightarrow>
   decode_codewords i ws d = fold alpha_bit (concat (map data_bits ws)) d"
  by (induction ws arbitrary: i d) (simp_all add: message_codeword alpha_keeps_type)

lemma decode_codewords_append: "decode_codewords i (a @ b) d = decode_codewords (i + length a) b (decode_codewords i a d)"
  by (induction i a d rule: decode_codewords.induct) simp_all

definition address_codeword :: "u32 \<Rightarrow> bool" where
  "address_codeword w \<longleftrightarrow> codewordType w = CODEWORD_TYPE_ADDRESS"

text \<open>Every codeword that carries no message, idle or addressed, ends the message before it.\<close>

definition no_message :: "u32 \<Rightarrow> bool" where
  "no_message w \<longleftrightarrow> \<not> bit w 31"

lemma flush_again: "flushMessage ((flushMessage d)\<lparr>msgType := t, addr := v\<rparr>) = (flushMessage d)\<lparr>msgType := t, addr := v\<rparr>"
  by (simp add: flushMessage_def)

lemma decode_no_message:
  "no_message w \<Longrightarrow> \<exists>t v. decodeCodeword i w d = (flushMessage d)\<lparr>msgType := t, addr := v\<rparr>"
proof -
  assume w: "no_message w"
  have same: "flushMessage d = (flushMessage d)\<lparr>msgType := msgType (flushMessage d), addr := addr (flushMessage d)\<rparr>" by simp
  have "codewordType w = CODEWORD_TYPE_IDLE \<or> codewordType w = CODEWORD_TYPE_ADDRESS"
    using w by (simp add: codewordType_def no_message_def)
  then show ?thesis
  proof
    assume "codewordType w = CODEWORD_TYPE_IDLE"
    then have "decodeCodeword i w d = flushMessage d" by (simp add: decodeCodeword_def)
    then show ?thesis using same by metis
  next
    assume "codewordType w = CODEWORD_TYPE_ADDRESS"
    then show ?thesis by (simp add: decodeCodeword_def) blast
  qed
qed

lemma decode_no_messages:
  "list_all no_message ws \<Longrightarrow> ws \<noteq> [] \<Longrightarrow> \<exists>t v. decode_codewords i ws d = (flushMessage d)\<lparr>msgType := t, addr := v\<rparr>"
proof (induction ws arbitrary: i d)
  case (Cons w ws)
  obtain t v where w: "decodeCodeword i w d = (flushMessage d)\<lparr>msgType := t, addr := v\<rparr>"
    using decode_no_message [of w i d] Cons.prems by auto
  show ?case
  proof (cases "ws = []")
    case True
    with w show ?thesis by auto
  next
    case False
    then obtain t' v' where "decode_codewords (i + 1) ws (decodeCodeword i w d) = (flushMessage (decodeCodeword i w d))\<lparr>msgType := t', addr := v'\<rparr>"
      using Cons.IH [of "i + 1" "decodeCodeword i w d"] Cons.prems by auto
    then have "decode_codewords i (w # ws) d = (flushMessage d)\<lparr>msgType := t', addr := v'\<rparr>"
      by (simp add: w flush_again)
    then show ?thesis by blast
  qed
qed simp

definition pager_address :: "u32 \<Rightarrow> nat \<Rightarrow> u32" where
  "pager_address cw i = push_bit 3 (drop_bit 13 cw AND 0b111111111111111111) OR of_nat (i div 2)"

lemma message_decoded:
  assumes "address_codeword a" "carries ws cs" "cs \<noteq> []" "list_all (\<lambda>c. c \<noteq> 0 \<and> take_bit 7 c = c) cs"
    and "msg d = [] \<longrightarrow> currOffset d = 0 \<and> currChar d = 0" "list_all no_message idle" "idle \<noteq> []"
  shows "\<exists>e. decode_codewords i (a # ws @ idle) d = e \<and>
     delivered e = delivered (flushMessage d) @ [(pager_address a i, MESSAGE_TYPE_ALPHANUMERIC, cs)] \<and>
     msg e = [] \<and> currOffset e = 0 \<and> currChar e = 0"
proof -
  let ?d1 = "(flushMessage d)\<lparr>msgType := MESSAGE_TYPE_ALPHANUMERIC, addr := pager_address a i\<rparr>"
  have d1: "decodeCodeword i a d = ?d1"
    using assms(1) by (simp add: decodeCodeword_def address_codeword_def pager_address_def)
  have fl: "msg ?d1 = []" "currOffset ?d1 = 0" "currChar ?d1 = 0" using assms(5) by (simp_all add: flushMessage_def)
  obtain k where k: "concat (map data_bits ws) = concat (map char_bits cs) @ replicate k False" "list_all (\<lambda>w. bit w 31) ws"
    using assms(2) by (auto simp: carries_def)
  have t: "fold alpha_bit (concat (map char_bits cs)) ?d1 = ?d1\<lparr>msg := cs\<rparr>"
    using alpha_text [OF fl(2,3) assms(4)] fl(1) by simp
  obtain j where j: "(alpha_bit False ^^ k) (?d1\<lparr>msg := cs\<rparr>) = ?d1\<lparr>msg := cs, currOffset := j\<rparr>"
    using alpha_padding [of "?d1\<lparr>msg := cs\<rparr>" k] fl(3) by auto
  have m: "decode_codewords (i + 1) ws ?d1 = ?d1\<lparr>msg := cs, currOffset := j\<rparr>"
    using decode_message_codewords [OF k(2), of ?d1 "i + 1"] by (simp add: k(1) t j)
  obtain t' v where "decode_codewords i (a # ws @ idle) d = (flushMessage (?d1\<lparr>msg := cs, currOffset := j\<rparr>))\<lparr>msgType := t', addr := v\<rparr>"
    using m decode_no_messages [OF assms(6,7), of "i + 1 + length ws" "?d1\<lparr>msg := cs, currOffset := j\<rparr>"]
    by (auto simp: d1 decode_codewords_append)
  then show ?thesis using assms(3) by (simp add: flushMessage_def)
qed

text \<open>
  C39: a page is delivered. A synchronized decoder at the start of a batch, with no half-built character,
  that receives codewords without message, an address, the message codewords of a text and again codewords
  without message, delivers exactly that text to exactly that address, after any message it still held.
\<close>

theorem pocsag_page_delivered:
  assumes "synced d" "batchOffset d = 0" "batch d = replicate 16 0"
    and "length (pre @ a # ws @ idle) = 16" "list_all no_message pre" "list_all no_message idle" "idle \<noteq> []"
    and "address_codeword a" "carries ws cs" "cs \<noteq> []" "list_all (\<lambda>c. c \<noteq> 0 \<and> take_bit 7 c = c) cs"
    and "msg d = [] \<longrightarrow> currOffset d = 0 \<and> currChar d = 0"
  shows "\<exists>e. pocsag_process (concat (map word_symbols (pre @ a # ws @ idle))) d = e \<and>
    delivered e = delivered (flushMessage d) @ [(pager_address a (length pre), MESSAGE_TYPE_ALPHANUMERIC, cs)] \<and>
    msg e = [] \<and> batchOffset e = 0 \<and> \<not> synced e \<and> batch e = replicate 16 0"
proof -
  let ?ws = "pre @ a # ws @ idle"
  let ?d = "d\<lparr>batch := ?ws, batchOffset := 512\<rparr>"
  have f: "delivered (flushMessage ?d) = delivered (flushMessage d)" by (simp add: flushMessage_def)
  obtain d1 where d1: "decode_codewords 0 pre ?d = d1" "delivered (flushMessage d1) = delivered (flushMessage ?d)"
      "msg d1 = [] \<longrightarrow> currOffset d1 = 0 \<and> currChar d1 = 0"
  proof (cases "pre = []")
    case True
    then show ?thesis using assms(12) by (intro that [of ?d]) simp_all
  next
    case False
    obtain t v where tv: "decode_codewords 0 pre ?d = (flushMessage ?d)\<lparr>msgType := t, addr := v\<rparr>"
      using decode_no_messages [OF assms(5) False, of 0 ?d] by blast
    have "msg (flushMessage ?d) = []" "currOffset (flushMessage ?d) = 0" "currChar (flushMessage ?d) = 0"
      using assms(12) by (simp_all add: flushMessage_def)
    then show ?thesis using tv by (intro that [OF tv]) (simp_all add: flush_again)
  qed
  obtain e where e: "decode_codewords (length pre) (a # ws @ idle) d1 = e"
      "delivered e = delivered (flushMessage d1) @ [(pager_address a (length pre), MESSAGE_TYPE_ALPHANUMERIC, cs)]" "msg e = []"
    using message_decoded [OF assms(8-11) d1(3) assms(6,7), of "length pre"] by blast
  have "decode_codewords 0 ?ws ?d = e" using d1(1) e(1) by (simp add: decode_codewords_append)
  then have "pocsag_process (concat (map word_symbols ?ws)) d = e\<lparr>batchOffset := 0, synced := False, batch := replicate 16 0\<rparr>"
    using batch_received [OF assms(1-4)] by simp
  then show ?thesis using e(2,3) d1(2) f by simp
qed


text \<open>
  The codeword of the text \<open>Hi\<close>, an address and the idle codeword of the POCSAG standard. The constant of
  the source differs from it in one bit, so idle codewords on the air are taken for addresses; like
  addresses they still end a message.
\<close>

definition hi_word :: u32 where "hi_word = 0x89960000"
definition idle_word :: u32 where "idle_word = 0x7A89C197"

lemma hi_bits:
  "data_bits hi_word = [False, False, False, True, False, False, True, True, False, False, True, False, True, True,
     False, False, False, False, False, False]"
  by (simp add: data_bits_def hi_word_def upt_rec bit_numeral_rec)

lemma hi_carries: "carries [hi_word] [0x48, 0x69]"
proof -
  have "bit hi_word 31" by (simp add: hi_word_def bit_numeral_rec)
  moreover have "char_bits 0x48 = [False, False, False, True, False, False, True]"
    "char_bits 0x69 = [True, False, False, True, False, True, True]"
    by (simp_all add: char_bits_def upt_rec bit_numeral_rec)
  then have "concat (map data_bits [hi_word]) = concat (map char_bits [0x48, 0x69]) @ replicate 6 False"
    by (simp add: hi_bits numeral_eq_Suc)
  ultimately show ?thesis unfolding carries_def by auto
qed

lemma example_words: "address_codeword 0x2000" "no_message idle_word"
  by (simp_all add: address_codeword_def no_message_def codewordType_def POCSAG_IDLE_CODEWORD_DATA_def idle_word_def
      bit_numeral_rec drop_bit_eq_div)

lemma standard_idle_taken_for_address: "codewordType idle_word = CODEWORD_TYPE_ADDRESS"
  by (simp add: codewordType_def idle_word_def POCSAG_IDLE_CODEWORD_DATA_def bit_numeral_rec drop_bit_eq_div)

theorem pocsag_page_witness:
  "\<forall>mem. delivered (pocsag_process (concat (map word_symbols (0x2000 # [hi_word] @ replicate 14 idle_word)))
     ((pocsag_initial mem)\<lparr>synced := True\<rparr>)) = [(8, MESSAGE_TYPE_ALPHANUMERIC, [0x48, 0x69])]"
proof
  fix mem
  let ?d = "(pocsag_initial mem)\<lparr>synced := True\<rparr>"
  have "pager_address 0x2000 0 = 8" by (simp add: pager_address_def drop_bit_eq_div)
  moreover have "take_bit 7 (0x48 :: u8) = 0x48" "take_bit 7 (0x69 :: u8) = 0x69" by simp_all
  moreover have "list_all no_message (replicate 14 idle_word)" using example_words by (simp add: list_all_iff)
  ultimately show "delivered (pocsag_process (concat (map word_symbols (0x2000 # [hi_word] @ replicate 14 idle_word))) ?d) =
    [(8, MESSAGE_TYPE_ALPHANUMERIC, [0x48, 0x69])]"
    using pocsag_page_delivered [of ?d "[]" "0x2000" "[hi_word]" "replicate 14 idle_word" "[0x48, 0x69]"] hi_carries example_words
    by (simp add: pocsag_initial_def POCSAG_BATCH_CODEWORD_COUNT_def flushMessage_def)
qed

text \<open>
  The proviso on half-built characters matters: \<open>flushMessage\<close> clears them only together with a
  non-empty message. After a page of zero bits, which leaves no character but six bits, the text of the
  next page to any receiver is cut at the wrong places: \<open>Hi\<close> arrives as \<open>d4\<close>.
\<close>

lemma Suc_Suc_2: "Suc (Suc 0) = 2"
  by simp

lemma empty_page_garbles_next:
  "delivered (decode_codewords 0 [0x2000, 0x80000000, 0x2000, hi_word, idle_word] (pocsag_initial mem)) =
     [(pager_address 0x2000 2, MESSAGE_TYPE_ALPHANUMERIC, [0x64, 0x34])]"
proof -
  have z: "data_bits 0x80000000 = [False, False, False, False, False, False, False, False, False, False,
      False, False, False, False, False, False, False, False, False, False]"
    by (simp add: data_bits_def upt_rec bit_numeral_rec)
  have b: "bit hi_word 31" "bit (0x80000000 :: u32) 31" by (simp_all add: hi_word_def bit_numeral_rec)
  have a: "decodeCodeword i 0x2000 d = (flushMessage d)\<lparr>msgType := MESSAGE_TYPE_ALPHANUMERIC, addr := pager_address 0x2000 i\<rparr>" for i d
    using example_words(1) by (simp add: decodeCodeword_def address_codeword_def pager_address_def)
  have c: "decodeCodeword i idle_word d = (flushMessage d)\<lparr>msgType := MESSAGE_TYPE_ALPHANUMERIC, addr := pager_address idle_word i\<rparr>" for i d
    using standard_idle_taken_for_address by (simp add: decodeCodeword_def pager_address_def)
  have m: "msgType d = MESSAGE_TYPE_ALPHANUMERIC \<Longrightarrow> decodeCodeword i hi_word d = fold alpha_bit (data_bits hi_word) d"
    "msgType d = MESSAGE_TYPE_ALPHANUMERIC \<Longrightarrow> decodeCodeword i 0x80000000 d = fold alpha_bit (data_bits 0x80000000) d" for i d
    using message_codeword b by blast+
  show ?thesis
    by (simp add: a c m z hi_bits pocsag_initial_def flushMessage_def alpha_bit_def Let_def Suc_Suc_2)
qed

end
