(* ===== verification/Bookmarks.thy ===== *)
theory Bookmarks
  imports Json RadioModes
begin

text \<open>
  The frequency manager's bookmarks (\<open>misc_modules/frequency_manager/src/bookmark.cpp\<close>, \<open>bookmark.h\<close>)
  and their broadcast schedule (\<open>schedule.cpp\<close>): reading arbitrary documents, writing, import from other
  programs, ordering, and when a station is on the air. Doubles are real numbers; a JSON integer that
  does not fit an \<open>int\<close> wraps around as the conversion does.
\<close>

record FrequencyBookmark =
  frequency :: real
  bm_bandwidth :: real
  bm_mode :: int
  selected :: bool
  startTime :: int
  endTime :: int
  days :: "bool list"
  bm_notes :: string
  geoinfo :: string

definition wrap_int32 :: "int \<Rightarrow> int" where
  "wrap_int32 i = (i + 2 ^ 31) mod 2 ^ 32 - 2 ^ 31"

text \<open>\<open>j.contains(key)\<close> with the value, and \<open>find\<close>: nothing when \<open>j\<close> is not an object.\<close>

fun json_member :: "string \<Rightarrow> json \<Rightarrow> json option" where
  "json_member k (JObject es) = obj_find k es"
| "json_member k _ = None"

fun number_or_zero :: "json option \<Rightarrow> real" where
  "number_or_zero (Some j) = (case number_value j of Some r \<Rightarrow> r | None \<Rightarrow> 0)"
| "number_or_zero None = 0"

fun integer_or_zero :: "json option \<Rightarrow> int" where
  "integer_or_zero (Some (JInt i)) = wrap_int32 i"
| "integer_or_zero (Some (JUnsigned n)) = wrap_int32 (int n)"
| "integer_or_zero _ = 0"

fun string_or_empty :: "json option \<Rightarrow> string" where
  "string_or_empty (Some (JString s)) = s"
| "string_or_empty _ = []"

fun mode_or_none :: "json option \<Rightarrow> int" where
  "mode_or_none (Some (JString s)) = radioModeFromName s"
| "mode_or_none _ = -1"

text \<open>The loop over the first seven entries of the \<open>days\<close> array.\<close>

fun day_flags :: "nat \<Rightarrow> json list \<Rightarrow> bool list" where
  "day_flags 0 js = []"
| "day_flags (Suc n) [] = True # day_flags n []"
| "day_flags (Suc n) (j # js) = (case j of JBool b \<Rightarrow> b | _ \<Rightarrow> True) # day_flags n js"

fun days_or_all :: "json option \<Rightarrow> bool list" where
  "days_or_all (Some (JArray js)) = day_flags 7 js"
| "days_or_all _ = day_flags 7 []"

definition bookmarkFromJson :: "json \<Rightarrow> FrequencyBookmark" where
  "bookmarkFromJson j =
     \<lparr>frequency = number_or_zero (json_member ''frequency'' j),
      bm_bandwidth = number_or_zero (json_member ''bandwidth'' j),
      bm_mode = mode_or_none (json_member ''mode'' j),
      selected = False,
      startTime = integer_or_zero (json_member ''startTime'' j),
      endTime = integer_or_zero (json_member ''endTime'' j),
      days = days_or_all (json_member ''days'' j),
      bm_notes = string_or_empty (json_member ''notes'' j),
      geoinfo = string_or_empty (json_member ''geoinfo'' j)\<rparr>"

definition bookmark_entries :: "FrequencyBookmark \<Rightarrow> (string \<times> json) list" where
  "bookmark_entries bm =
     (let es = obj_set ''bandwidth'' (JFloat (bm_bandwidth bm)) (obj_set ''frequency'' (JFloat (frequency bm)) []);
          es = (if radioModeValid (bm_mode bm) then obj_set ''mode'' (JString (radioModeName (bm_mode bm))) es else es);
          es = obj_set ''endTime'' (JInt (endTime bm)) (obj_set ''startTime'' (JInt (startTime bm)) es);
          es = obj_set ''days'' (JArray (map JBool (days bm))) es
      in obj_set ''notes'' (JString (bm_notes bm)) (obj_set ''geoinfo'' (JString (geoinfo bm)) es))"

definition bookmarkToJson :: "FrequencyBookmark \<Rightarrow> json" where
  "bookmarkToJson bm = JObject (bookmark_entries bm)"

section \<open>Import\<close>

datatype ExternalBookmarkModeStatus = Unrecorded | Resolved | Invalid

text \<open>The numeric mode of upstream files: unsigned and signed integers within the table.\<close>

fun external_mode :: "json \<Rightarrow> int" where
  "external_mode (JUnsigned n) = (if int n < RADIO_IFACE_MODE_COUNT then int n else -1)"
| "external_mode (JInt i) = (if i \<ge> 0 \<and> i < RADIO_IFACE_MODE_COUNT then i else -1)"
| "external_mode _ = -1"

definition bookmarkFromExternalJson :: "json \<Rightarrow> FrequencyBookmark \<times> ExternalBookmarkModeStatus" where
  "bookmarkFromExternalJson j =
     (let bm = bookmarkFromJson j in
      case json_member ''mode'' j of
        None \<Rightarrow> (bm, Unrecorded)
      | Some m \<Rightarrow>
          if is_string m then (bm, if radioModeValid (bm_mode bm) then Resolved else Invalid)
          else if radioModeValid (external_mode m) then (bm\<lparr>bm_mode := external_mode m\<rparr>, Resolved)
          else (bm, Invalid))"

section \<open>Schedule and order\<close>

text \<open>C division and remainder truncate; \<open>time\<close> may be negative.\<close>

definition timeValid :: "int \<Rightarrow> bool" where
  "timeValid time =
     (let hours = (if time \<ge> 0 then time div 100 else - (- time div 100));
          minutes = time - 100 * hours
      in hours \<ge> 0 \<and> hours \<le> 23 \<and> minutes \<ge> 0 \<and> minutes \<le> 59)"

definition bookmarkOnline :: "FrequencyBookmark \<Rightarrow> int \<Rightarrow> nat \<Rightarrow> bool" where
  "bookmarkOnline bm now weekDay =
     (if \<not> days bm ! weekDay then False
      else if startTime bm = 0 \<and> endTime bm = 0 then True
      else if startTime bm < endTime bm then startTime bm \<le> now \<and> now < endTime bm
      else if startTime bm > endTime bm then now \<ge> startTime bm \<or> now \<le> endTime bm
      else False)"

definition compareBookmarksFreqAsc :: "string \<times> FrequencyBookmark \<Rightarrow> string \<times> FrequencyBookmark \<Rightarrow> bool" where
  "compareBookmarksFreqAsc a b \<longleftrightarrow> frequency (snd a) < frequency (snd b)"

definition compareBookmarksFreqDesc :: "string \<times> FrequencyBookmark \<Rightarrow> string \<times> FrequencyBookmark \<Rightarrow> bool" where
  "compareBookmarksFreqDesc a b \<longleftrightarrow> frequency (snd a) > frequency (snd b)"

section \<open>Lemmas\<close>

lemma wrap_int32_range: "- (2 ^ 31) \<le> wrap_int32 i \<and> wrap_int32 i < 2 ^ 31"
  by (simp add: wrap_int32_def)

lemma wrap_int32_id: "- (2 ^ 31) \<le> i \<Longrightarrow> i < 2 ^ 31 \<Longrightarrow> wrap_int32 i = i"
  by (simp add: wrap_int32_def)

lemma length_day_flags [simp]: "length (day_flags n js) = n"
  by (induction n js rule: day_flags.induct) simp_all

lemma day_flags_bools: "length bs = n \<Longrightarrow> day_flags n (map JBool bs) = bs"
  by (induction bs arbitrary: n) auto

text \<open>What every bookmark read from a file satisfies.\<close>

definition bookmark_ok :: "FrequencyBookmark \<Rightarrow> bool" where
  "bookmark_ok bm \<longleftrightarrow> length (days bm) = 7 \<and> (bm_mode bm = -1 \<or> radioModeValid (bm_mode bm)) \<and>
     - (2 ^ 31) \<le> startTime bm \<and> startTime bm < 2 ^ 31 \<and> - (2 ^ 31) \<le> endTime bm \<and> endTime bm < 2 ^ 31"

lemma integer_or_zero_range: "- (2 ^ 31) \<le> integer_or_zero j \<and> integer_or_zero j < 2 ^ 31"
  using wrap_int32_range by (cases j rule: integer_or_zero.cases) simp_all

lemma bookmarkFromJson_ok: "bookmark_ok (bookmarkFromJson j)"
proof -
  have "length (days_or_all m) = 7" for m by (cases m rule: days_or_all.cases) simp_all
  moreover have "mode_or_none m = -1 \<or> radioModeValid (mode_or_none m)" for m
    using radioModeFromName_range by (cases m rule: mode_or_none.cases) simp_all
  ultimately show ?thesis using integer_or_zero_range by (simp add: bookmark_ok_def bookmarkFromJson_def)
qed

lemma bookmark_entries_find:
  "obj_find k (bookmark_entries bm) =
     (if k = ''notes'' then Some (JString (bm_notes bm)) else if k = ''geoinfo'' then Some (JString (geoinfo bm))
      else if k = ''days'' then Some (JArray (map JBool (days bm))) else if k = ''endTime'' then Some (JInt (endTime bm))
      else if k = ''startTime'' then Some (JInt (startTime bm))
      else if k = ''mode'' \<and> radioModeValid (bm_mode bm) then Some (JString (radioModeName (bm_mode bm)))
      else if k = ''bandwidth'' then Some (JFloat (bm_bandwidth bm)) else if k = ''frequency'' then Some (JFloat (frequency bm)) else None)"
  by (simp add: bookmark_entries_def Let_def obj_find_set)

text \<open>
  Bookmarks in files. Whatever document is read, the bookmark has seven days, times of an int and
  a real mode or none; a bookmark written and read back is the same up to the selection, with a mode that
  does not exist becoming none; and its document is well formed.
\<close>

theorem bookmark_file_roundtrip:
  "bookmark_ok (bookmarkFromJson j) \<and>
   (bookmark_ok bm \<longrightarrow> bookmarkFromJson (bookmarkToJson bm) = bm\<lparr>selected := False\<rparr>) \<and>
   obj_wf (bookmark_entries bm)"
proof (intro conjI impI)
  show "bookmark_ok (bookmarkFromJson j)" by (rule bookmarkFromJson_ok)
next
  assume "bookmark_ok bm"
  then show "bookmarkFromJson (bookmarkToJson bm) = bm\<lparr>selected := False\<rparr>"
    by (auto simp: bookmarkFromJson_def bookmarkToJson_def bookmark_entries_find bookmark_ok_def
        day_flags_bools wrap_int32_id radioModeFromName_Name radioModeValid_def mode_defs)
next
  show "obj_wf (bookmark_entries bm)"
    by (simp add: bookmark_entries_def Let_def obj_wf_def)
qed


definition exampleBookmark :: FrequencyBookmark where
  "exampleBookmark = \<lparr>frequency = 6070000, bm_bandwidth = 9000, bm_mode = 2, selected = True, startTime = 2200,
     endTime = 600, days = [True, False, True, True, True, True, True], bm_notes = ''DX'', geoinfo = []\<rparr>"

lemma example_ok: "bookmark_ok exampleBookmark"
  by (simp add: bookmark_ok_def exampleBookmark_def radioModeValid_def mode_defs)

theorem bookmark_file_witness:
  "bookmarkFromJson (bookmarkToJson exampleBookmark) = exampleBookmark\<lparr>selected := False\<rparr>"
  using bookmark_file_roundtrip [of JNull exampleBookmark] example_ok by blast

text \<open>
  Bookmarks of other programs. The status says what happened to the mode: Resolved exactly when
  the bookmark has a mode of this receiver, Unrecorded exactly when the file has none; everything but
  the mode is read as in the program's own files; and a numeric mode of the table is taken as it is.
\<close>

theorem external_bookmark_status:
  "let (bm, status) = bookmarkFromExternalJson j in
     bookmark_ok bm \<and>
     (status = Resolved \<longleftrightarrow> radioModeValid (bm_mode bm)) \<and>
     (status = Unrecorded \<longleftrightarrow> json_member ''mode'' j = None) \<and>
     bm\<lparr>bm_mode := 0\<rparr> = (bookmarkFromJson j)\<lparr>bm_mode := 0\<rparr> \<and>
     (\<forall>m. json_member ''mode'' j = Some m \<and> radioModeValid (external_mode m) \<longrightarrow> bm_mode bm = external_mode m)"
proof -
  have ok: "bookmark_ok (bookmarkFromJson j)" by (rule bookmarkFromJson_ok)
  have mode: "bm_mode (bookmarkFromJson j) = mode_or_none (json_member ''mode'' j)" by (simp add: bookmarkFromJson_def)
  have neg: "\<not> radioModeValid (-1)" by (simp add: radioModeValid_def)
  show ?thesis
  proof (cases "json_member ''mode'' j")
    case None
    then show ?thesis using ok mode neg by (simp add: bookmarkFromExternalJson_def Let_def)
  next
    case (Some m)
    show ?thesis
    proof (cases "is_string m")
      case True
      then obtain s where "m = JString s" by (cases m) simp_all
      then show ?thesis using Some ok mode neg by (simp add: bookmarkFromExternalJson_def Let_def)
    next
      case False
      then have "mode_or_none (Some m) = -1" by (cases m) simp_all
      then show ?thesis using Some False ok mode neg
        by (cases "radioModeValid (external_mode m)") (simp_all add: bookmarkFromExternalJson_def bookmark_ok_def Let_def)
    qed
  qed
qed

theorem external_bookmark_witness:
  "bm_mode (fst (bookmarkFromExternalJson (JObject [(''mode'', JUnsigned 4)]))) = 4"
  using external_bookmark_status [of "JObject [(''mode'', JUnsigned 4)]"]
  by (simp add: Let_def split_beta radioModeValid_def mode_defs)

section \<open>On the air\<close>

text \<open>
  Daytime and overnight schedules end differently: a daytime broadcast is off at its end time, an
  overnight one still on; and an overnight broadcast of one day is looked up under the next day after
  midnight.
\<close>

lemma schedule_end_differs:
  "\<not> bookmarkOnline (exampleBookmark\<lparr>startTime := 600, endTime := 2200\<rparr>) 2200 0 \<and>
   bookmarkOnline (exampleBookmark\<lparr>startTime := 2200, endTime := 600\<rparr>) 600 0"
  by (simp add: bookmarkOnline_def exampleBookmark_def)

lemma overnight_uses_next_day:
  "bookmarkOnline exampleBookmark 2300 0 \<and> \<not> bookmarkOnline exampleBookmark 100 1"
  by (simp add: bookmarkOnline_def exampleBookmark_def)

lemma schedule_complements:
  assumes "days bm ! d" "days bm' ! d" "startTime bm' = endTime bm" "endTime bm' = startTime bm" "startTime bm \<noteq> endTime bm"
  shows "bookmarkOnline bm now d \<or> bookmarkOnline bm' now d"
    "bookmarkOnline bm now d \<and> bookmarkOnline bm' now d \<longleftrightarrow> now = min (startTime bm) (endTime bm)"
  using assms by (auto simp: bookmarkOnline_def)

end
