(* ===== verification/Scanner.thy ===== *)
theory Scanner
  imports Tuner
begin

text \<open>
  The frequency scanner (\<open>misc_modules/scanner/src/main.cpp\<close>): one round of the 10 Hz worker with its
  phases (tuning, receiving, seeking), the search over the visible spectrum, the peak level of a channel
  and the two direction buttons. Doubles are real numbers and time is in milliseconds. The lock
  \<open>scanMtx\<close> makes a round and a button press atomic. The level of an empty range, \<open>-INFINITY\<close>, is
  \<open>None\<close>. The worker's call of \<open>tuner::tune\<close> is the model of \<open>Tuner\<close>.
\<close>

record Scanner =
  running :: bool
  startFreq :: real
  stopFreq :: real
  interval :: real
  scan_current :: real
  passbandRatio :: real
  tuningTime :: int
  lingerTime :: int
  level :: real
  receiving :: bool
  tuning :: bool
  scanUp :: bool
  reverseLock :: bool
  lastSignalTime :: int
  lastTuneTime :: int

text \<open>What a round reads of the rest of the program: the latest FFT, the view and the VFO.\<close>

record Spectrum =
  fft :: "real list option"
  wfStart :: real
  wfEnd :: real
  wfWidth :: real
  vfoWidth :: real

section \<open>Levels\<close>

definition clamp_int :: "int \<Rightarrow> int \<Rightarrow> int \<Rightarrow> int" where
  "clamp_int x lo hi = (if x < lo then lo else if hi < x then hi else x)"

definition bin_of :: "real \<Rightarrow> Spectrum \<Rightarrow> nat \<Rightarrow> nat" where
  "bin_of freq sp dataWidth =
     nat (clamp_int (trunc_int ((freq - wfStart sp) * real dataWidth / wfWidth sp)) 0 (int dataWidth - 1))"

fun max_loop :: "nat \<Rightarrow> nat \<Rightarrow> real list \<Rightarrow> real option \<Rightarrow> real option" where
  "max_loop 0 i data acc = acc"
| "max_loop (Suc n) i data acc =
     max_loop n (i + 1) data
       (case acc of None \<Rightarrow> Some (data ! i) | Some m \<Rightarrow> if data ! i > m then Some (data ! i) else Some m)"

definition getMaxLevel :: "real list \<Rightarrow> real \<Rightarrow> real \<Rightarrow> Spectrum \<Rightarrow> real option" where
  "getMaxLevel data freq width sp =
     (let lowId = bin_of (freq - width / 2) sp (length data);
          highId = bin_of (freq + width / 2) sp (length data)
      in max_loop (highId + 1 - lowId) lowId data None)"

definition at_least :: "real option \<Rightarrow> real \<Rightarrow> bool" where
  "at_least m l = (case m of None \<Rightarrow> False | Some x \<Rightarrow> x \<ge> l)"

section \<open>Search\<close>

text \<open>
  The loop of \<open>findSignal\<close>. \<open>in_range\<close> is the loop condition, \<open>visible\<close> the two \<open>break\<close> tests, \<open>hit\<close> the
  level test. With a zero interval it may never end; not returning is \<open>None\<close>. The result is the
  frequency found, if any, and the limits visited.
\<close>

partial_function (option) search_loop ::
  "(real \<Rightarrow> bool) \<Rightarrow> (real \<Rightarrow> bool) \<Rightarrow> (real \<Rightarrow> bool) \<Rightarrow> real \<Rightarrow> real \<Rightarrow> real \<Rightarrow> real \<Rightarrow> (real option \<times> real \<times> real) option" where
  "search_loop in_range visible hit step freq bottomLimit topLimit =
     (if \<not> in_range freq then Some (None, bottomLimit, topLimit)
      else if \<not> visible freq then Some (None, bottomLimit, topLimit)
      else
        if hit freq then Some (Some freq, min freq bottomLimit, max freq topLimit)
        else search_loop in_range visible hit step (freq + step) (min freq bottomLimit) (max freq topLimit))"

definition in_scan_range :: "Scanner \<Rightarrow> bool \<Rightarrow> real \<Rightarrow> bool" where
  "in_scan_range s scanDir freq \<longleftrightarrow> (if scanDir then freq \<le> stopFreq s else freq \<ge> startFreq s)"

definition channel_visible :: "Spectrum \<Rightarrow> real \<Rightarrow> bool" where
  "channel_visible sp freq \<longleftrightarrow> \<not> freq - vfoWidth sp / 2 < wfStart sp \<and> \<not> freq + vfoWidth sp / 2 > wfEnd sp"

definition channel_hit :: "Scanner \<Rightarrow> Spectrum \<Rightarrow> real list \<Rightarrow> real \<Rightarrow> bool" where
  "channel_hit s sp data freq \<longleftrightarrow>
     at_least (getMaxLevel data freq (vfoWidth sp * (passbandRatio s * 0.01)) sp) (level s)"

text \<open>The scanner after the search, whether it found a signal, and the limits.\<close>

definition findSignal ::
  "Scanner \<Rightarrow> Spectrum \<Rightarrow> real list \<Rightarrow> bool \<Rightarrow> real \<Rightarrow> real \<Rightarrow> (Scanner \<times> bool \<times> real \<times> real) option" where
  "findSignal s sp data scanDir bottomLimit topLimit =
     (let step = (if scanDir then interval s else - interval s) in
      case search_loop (in_scan_range s scanDir) (channel_visible sp) (channel_hit s sp data)
             step (scan_current s + step) bottomLimit topLimit of
        None \<Rightarrow> None
      | Some (found, b, t) \<Rightarrow>
          Some (case found of
                  Some f \<Rightarrow> (s\<lparr>receiving := True, scan_current := f\<rparr>, True, b, t)
                | None \<Rightarrow> (s, False, b, t)))"

section \<open>The worker\<close>

text \<open>No signal on the visible spectrum: go on in the scan direction.\<close>

definition move_on :: "int \<Rightarrow> Spectrum \<Rightarrow> real \<Rightarrow> real \<Rightarrow> Scanner \<Rightarrow> Scanner" where
  "move_on now sp bottomLimit topLimit s =
     (let next = (if scanUp s
                  then (if topLimit + interval s > stopFreq s then startFreq s else topLimit + interval s)
                  else (if bottomLimit - interval s < startFreq s then stopFreq s else bottomLimit - interval s));
          s1 = s\<lparr>scan_current := next\<rparr>
      in if scan_current s1 - vfoWidth sp / 2 < wfStart sp \<or> scan_current s1 + vfoWidth sp / 2 > wfEnd sp
         then s1\<lparr>lastTuneTime := now, tuning := True\<rparr> else s1)"

definition seek :: "int \<Rightarrow> Spectrum \<Rightarrow> real list \<Rightarrow> Scanner \<Rightarrow> Scanner option" where
  "seek now sp data s =
     (case findSignal s sp data (scanUp s) (scan_current s) (scan_current s) of
        None \<Rightarrow> None
      | Some (s1, True, b, t) \<Rightarrow> Some s1
      | Some (s1, False, b, t) \<Rightarrow>
          if \<not> reverseLock s1 then
            (case findSignal s1 sp data (\<not> scanUp s1) b t of
               None \<Rightarrow> None
             | Some (s2, True, b2, t2) \<Rightarrow> Some s2
             | Some (s2, False, b2, t2) \<Rightarrow> Some (move_on now sp b2 t2 s2))
          else Some (move_on now sp b t (s1\<lparr>reverseLock := False\<rparr>)))"

definition receive :: "int \<Rightarrow> Spectrum \<Rightarrow> real list \<Rightarrow> Scanner \<Rightarrow> Scanner" where
  "receive now sp data s =
     (if at_least (getMaxLevel data (scan_current s) (vfoWidth sp) sp) (level s)
      then s\<lparr>lastSignalTime := now\<rparr>
      else if now - lastSignalTime s > lingerTime s then s\<lparr>receiving := False\<rparr> else s)"

text \<open>
  One round, from the selected VFO: the tuning of the program is updated first; without a VFO the worker
  ends. The FFT is read only outside the tuning phase.
\<close>

definition scan_round ::
  "int \<Rightarrow> string \<Rightarrow> Spectrum \<Rightarrow> Scanner \<times> Tuning \<Rightarrow> (Scanner \<times> Tuning) option" where
  "scan_round now selectedVFO sp = (\<lambda>(s, t).
     if \<not> running s then Some (s, t)
     else if selectedVFO = [] then Some (s\<lparr>running := False\<rparr>, t)
     else
       let t1 = tuner_tune t TUNER_MODE_NORMAL selectedVFO (scan_current s) in
       if tuning s then
         Some (if now - lastTuneTime s > tuningTime s then s\<lparr>tuning := False\<rparr> else s, t1)
       else case fft sp of
              None \<Rightarrow> Some (s, t1)
            | Some data \<Rightarrow>
                if receiving s then Some (receive now sp data s, t1)
                else map_option (\<lambda>s'. (s', t1)) (seek now sp data s))"

definition press_back :: "Scanner \<Rightarrow> Scanner" where
  "press_back s = s\<lparr>reverseLock := True, receiving := False, scanUp := False\<rparr>"

definition press_forward :: "Scanner \<Rightarrow> Scanner" where
  "press_forward s = s\<lparr>reverseLock := True, receiving := False, scanUp := True\<rparr>"

definition scan_start :: "Scanner \<Rightarrow> Scanner" where
  "scan_start s = (if running s then s else s\<lparr>scan_current := startFreq s, running := True\<rparr>)"

definition scan_stop :: "Scanner \<Rightarrow> Scanner" where
  "scan_stop s = s\<lparr>running := False\<rparr>"

section \<open>The search ends\<close>

lemma search_step:
  "in_range f \<Longrightarrow> visible f \<Longrightarrow> \<not> hit f \<Longrightarrow>
   search_loop in_range visible hit step f b t = search_loop in_range visible hit step (f + step) (min f b) (max f t)"
  by (subst search_loop.simps) simp

text \<open>If the grid leaves the range within \<open>n\<close> steps, the search returns, with the first hit.\<close>

definition first_hit :: "(real \<Rightarrow> bool) \<Rightarrow> (real \<Rightarrow> bool) \<Rightarrow> (real \<Rightarrow> bool) \<Rightarrow> real \<Rightarrow> real \<Rightarrow> real option \<Rightarrow> bool" where
  "first_hit in_range visible hit step f found \<longleftrightarrow>
     (\<exists>k :: nat. (\<forall>j :: nat. j < k \<longrightarrow> in_range (f + real j * step) \<and> visible (f + real j * step) \<and> \<not> hit (f + real j * step)) \<and>
        (case found of
           Some g \<Rightarrow> g = f + real k * step \<and> in_range g \<and> visible g \<and> hit g
         | None \<Rightarrow> \<not> (in_range (f + real k * step) \<and> visible (f + real k * step))))"

lemma first_hit_step:
  assumes "in_range f" "visible f" "\<not> hit f" "first_hit in_range visible hit step (f + step) found"
  shows "first_hit in_range visible hit step f found"
proof -
  obtain k :: nat where k: "\<forall>j :: nat. j < k \<longrightarrow> in_range (f + step + real j * step) \<and> visible (f + step + real j * step) \<and> \<not> hit (f + step + real j * step)"
    "case found of Some g \<Rightarrow> g = f + step + k * step \<and> in_range g \<and> visible g \<and> hit g
       | None \<Rightarrow> \<not> (in_range (f + step + k * step) \<and> visible (f + step + k * step))"
    using assms(4) by (auto simp: first_hit_def)
  have s: "f + step + real j * step = f + real (Suc j) * step" for j by (simp add: algebra_simps)
  have "in_range (f + real j * step) \<and> visible (f + real j * step) \<and> \<not> hit (f + real j * step)" if "j < Suc k" for j
    using assms(1-3) k(1) that unfolding s by (cases j) auto
  then show ?thesis unfolding first_hit_def using k(2) unfolding s by blast
qed

lemma search_returns:
  assumes "\<not> in_range (f + real n * step)"
  shows "\<exists>found b' t'. search_loop in_range visible hit step f b t = Some (found, b', t') \<and>
     first_hit in_range visible hit step f found \<and> b' \<le> b \<and> t \<le> t'"
  using assms
proof (induction n arbitrary: f b t)
  case 0
  have "search_loop in_range visible hit step f b t = Some (None, b, t)" using 0 by (subst search_loop.simps) simp
  moreover have "first_hit in_range visible hit step f None" unfolding first_hit_def using 0 by (intro exI [of _ 0]) simp
  ultimately show ?case by auto
next
  case (Suc n)
  consider (out) "\<not> (in_range f \<and> visible f)" | (hit) "in_range f" "visible f" "hit f" | (go) "in_range f" "visible f" "\<not> hit f" by blast
  then show ?case
  proof cases
    case out
    then have "search_loop in_range visible hit step f b t = Some (None, b, t)" by (subst search_loop.simps) auto
    moreover have "first_hit in_range visible hit step f None" unfolding first_hit_def using out by (intro exI [of _ 0]) simp
    ultimately show ?thesis by auto
  next
    case hit
    then have "search_loop in_range visible hit step f b t = Some (Some f, min f b, max f t)" by (subst search_loop.simps) simp
    moreover have "first_hit in_range visible hit step f (Some f)" unfolding first_hit_def using hit by (intro exI [of _ 0]) simp
    ultimately show ?thesis by auto
  next
    case go
    have "\<not> in_range (f + step + real n * step)" using Suc.prems by (simp add: algebra_simps)
    from Suc.IH [OF this, of "min f b" "max f t"] show ?thesis
      using search_step [of in_range f visible hit step b t, OF go] first_hit_step [of in_range f visible hit step, OF go] by fastforce
  qed
qed


section \<open>Rounds\<close>

definition scan_ok :: "Scanner \<Rightarrow> bool" where
  "scan_ok s \<longleftrightarrow> 0 < interval s \<and> startFreq s \<le> scan_current s \<and> scan_current s \<le> stopFreq s"

definition scan_step :: "Scanner \<Rightarrow> bool \<Rightarrow> real" where
  "scan_step s scanDir = (if scanDir then interval s else - interval s)"

lemma grid_leaves_range:
  assumes "0 < interval s"
  shows "\<exists>n :: nat. \<not> in_scan_range s scanDir (f + real n * scan_step s scanDir)"
proof (cases scanDir)
  case True
  obtain n :: nat where "(stopFreq s - f) / interval s < real n" using reals_Archimedean2 by blast
  then have "\<not> f + real n * interval s \<le> stopFreq s" using assms by (simp add: field_simps)
  then show ?thesis using True by (auto simp: in_scan_range_def scan_step_def)
next
  case False
  obtain n :: nat where "(f - startFreq s) / interval s < real n" using reals_Archimedean2 by blast
  then have "\<not> startFreq s \<le> f + real n * - interval s" using assms by (simp add: field_simps)
  then show ?thesis using False by (auto simp: in_scan_range_def scan_step_def)
qed

lemma findSignal_returns:
  assumes "scan_ok s"
  obtains s' found b' t' where "findSignal s sp data scanDir b t = Some (s', found \<noteq> None, b', t')"
    "first_hit (in_scan_range s scanDir) (channel_visible sp) (channel_hit s sp data) (scan_step s scanDir)
       (scan_current s + scan_step s scanDir) found"
    "b' \<le> b" "t \<le> t'" "scan_ok s'"
    "s' = (case found of None \<Rightarrow> s | Some f \<Rightarrow> s\<lparr>receiving := True, scan_current := f\<rparr>)"
proof -
  have "0 < interval s" using assms by (simp add: scan_ok_def)
  from grid_leaves_range [OF this, of scanDir "scan_current s + scan_step s scanDir"]
  obtain n :: nat where "\<not> in_scan_range s scanDir (scan_current s + scan_step s scanDir + real n * scan_step s scanDir)" by blast
  from search_returns [of "in_scan_range s scanDir", OF this]
  obtain found b' t' where r:
    "search_loop (in_scan_range s scanDir) (channel_visible sp) (channel_hit s sp data) (scan_step s scanDir)
       (scan_current s + scan_step s scanDir) b t = Some (found, b', t')"
    "first_hit (in_scan_range s scanDir) (channel_visible sp) (channel_hit s sp data) (scan_step s scanDir)
       (scan_current s + scan_step s scanDir) found" "b' \<le> b" "t \<le> t'" by blast
  let ?s' = "case found of None \<Rightarrow> s | Some f \<Rightarrow> s\<lparr>receiving := True, scan_current := f\<rparr>"
  have "findSignal s sp data scanDir b t = Some (?s', found \<noteq> None, b', t')"
    using r(1) by (simp add: findSignal_def scan_step_def [symmetric] Let_def split: option.split)
  moreover have "scan_ok ?s'"
  proof (cases found)
    case (Some f)
    then obtain k :: nat where k: "f = scan_current s + scan_step s scanDir + real k * scan_step s scanDir" "in_scan_range s scanDir f"
      using r(2) by (auto simp: first_hit_def)
    obtain q where q: "real k * interval s = q" "0 \<le> q" using assms by (simp add: scan_ok_def)
    have "startFreq s \<le> f \<and> f \<le> stopFreq s"
      using k assms q by (cases scanDir) (auto simp: scan_ok_def scan_step_def in_scan_range_def)
    then show ?thesis using assms Some by (simp add: scan_ok_def)
  qed (simp add: assms)
  ultimately show ?thesis using that r(2-4) by blast
qed

lemma move_on_ok:
  assumes "scan_ok s" "b \<le> scan_current s" "scan_current s \<le> t"
  shows "scan_ok (move_on now sp b t s)"
  using assms by (simp add: move_on_def Let_def scan_ok_def)

lemma seek_ok: "scan_ok s \<Longrightarrow> \<exists>s'. seek now sp data s = Some s' \<and> scan_ok s'"
proof -
  assume s: "scan_ok s"
  obtain s1 f1 b1 t1 where 1: "findSignal s sp data (scanUp s) (scan_current s) (scan_current s) = Some (s1, f1 \<noteq> None, b1, t1)"
    "b1 \<le> scan_current s" "scan_current s \<le> t1" "scan_ok s1"
    "s1 = (case f1 of None \<Rightarrow> s | Some f \<Rightarrow> s\<lparr>receiving := True, scan_current := f\<rparr>)"
    using findSignal_returns [OF s, of sp data "scanUp s" "scan_current s" "scan_current s"] by metis
  show ?thesis
  proof (cases f1)
    case (Some f)
    then show ?thesis using 1 by (simp add: seek_def)
  next
    case None
    then have s1: "s1 = s" using 1(5) by simp
    show ?thesis
    proof (cases "reverseLock s")
      case True
      have "scan_ok (s\<lparr>reverseLock := False\<rparr>)" using s by (simp add: scan_ok_def)
      then have "scan_ok (move_on now sp b1 t1 (s\<lparr>reverseLock := False\<rparr>))" using 1(2,3) by (intro move_on_ok) simp_all
      then show ?thesis using 1(1) None True s1 by (simp add: seek_def)
    next
      case False
      obtain s2 f2 b2 t2 where 2: "findSignal s sp data (\<not> scanUp s) b1 t1 = Some (s2, f2 \<noteq> None, b2, t2)"
        "b2 \<le> b1" "t1 \<le> t2" "scan_ok s2" "s2 = (case f2 of None \<Rightarrow> s | Some f \<Rightarrow> s\<lparr>receiving := True, scan_current := f\<rparr>)"
        using findSignal_returns [OF s, of sp data "\<not> scanUp s" b1 t1] by metis
      show ?thesis
      proof (cases f2)
        case (Some f)
        then show ?thesis using 1(1) 2(1,4) None False s1 by (simp add: seek_def)
      next
        case f2: None
        then have "s2 = s" using 2(5) by simp
        moreover have "scan_ok (move_on now sp b2 t2 s)" using s 1(2,3) 2(2,3) by (intro move_on_ok) simp_all
        ultimately show ?thesis using 1(1) 2(1) None f2 False s1 by (simp add: seek_def)
      qed
    qed
  qed
qed

text \<open>
  C38: every round of the scanner returns, with a positive interval, whatever the spectrum, and keeps the
  scanned frequency between start and stop; the buttons and the start of a scan do too.
\<close>

theorem scan_round_returns_in_range:
  assumes "scan_ok s"
  shows "(\<exists>s' t'. scan_round now vfo sp (s, t) = Some (s', t') \<and> scan_ok s') \<and>
    scan_ok (press_back s) \<and> scan_ok (press_forward s) \<and> scan_ok (scan_start s) \<and> scan_ok (scan_stop s)"
proof
  show "scan_ok (press_back s) \<and> scan_ok (press_forward s) \<and> scan_ok (scan_start s) \<and> scan_ok (scan_stop s)"
    using assms by (simp add: scan_ok_def press_back_def press_forward_def scan_start_def scan_stop_def)
  obtain s' where "\<And>data. \<exists>s'. seek now sp data s = Some s' \<and> scan_ok s'" using seek_ok [OF assms] by blast
  moreover have "scan_ok (receive now sp data s)" for data using assms by (simp add: receive_def scan_ok_def)
  ultimately show "\<exists>s' t'. scan_round now vfo sp (s, t) = Some (s', t') \<and> scan_ok s'"
    using assms by (auto simp: scan_round_def Let_def scan_ok_def split: option.split)
qed


text \<open>
  what a seeking round finds. With data, outside the tuning and receiving phases, the round stops at
  the first channel of the grid in the scan direction that is in range, visible and above the level, or,
  when the direction is not forced, at the first one in the other direction; without any it goes on
  scanning, and the direction is no longer forced.
\<close>

theorem scan_seek_first_signal:
  assumes "scan_ok s" "running s" "\<not> tuning s" "\<not> receiving s" "vfo \<noteq> []" "fft sp = Some data"
  defines "first \<equiv> \<lambda>scanDir. first_hit (in_scan_range s scanDir) (channel_visible sp) (channel_hit s sp data) (scan_step s scanDir)
       (scan_current s + scan_step s scanDir)"
  shows "\<exists>s'. scan_round now vfo sp (s, t) = Some (s', tuner_tune t TUNER_MODE_NORMAL vfo (scan_current s)) \<and>
    ((\<exists>f. first (scanUp s) (Some f) \<and> s' = s\<lparr>receiving := True, scan_current := f\<rparr>) \<or>
     (\<exists>f. first (scanUp s) None \<and> \<not> reverseLock s \<and> first (\<not> scanUp s) (Some f) \<and> s' = s\<lparr>receiving := True, scan_current := f\<rparr>) \<or>
     (first (scanUp s) None \<and> (reverseLock s \<or> first (\<not> scanUp s) None) \<and> \<not> receiving s' \<and> \<not> reverseLock s'))"
proof -
  obtain s1 f1 b1 t1 where 1: "findSignal s sp data (scanUp s) (scan_current s) (scan_current s) = Some (s1, f1 \<noteq> None, b1, t1)"
    "first (scanUp s) f1" "s1 = (case f1 of None \<Rightarrow> s | Some f \<Rightarrow> s\<lparr>receiving := True, scan_current := f\<rparr>)"
    unfolding first_def using findSignal_returns [OF assms(1), of sp data "scanUp s" "scan_current s" "scan_current s"] by metis
  have round: "scan_round now vfo sp (s, t) = map_option (\<lambda>s'. (s', tuner_tune t TUNER_MODE_NORMAL vfo (scan_current s))) (seek now sp data s)"
    using assms(2-6) by (simp add: scan_round_def Let_def)
  have mv: "receiving (move_on now sp b t x) = receiving x" "reverseLock (move_on now sp b t x) = reverseLock x" for b t x
    by (simp_all add: move_on_def Let_def)
  show ?thesis
  proof (cases f1)
    case (Some f)
    then show ?thesis using 1 by (simp add: round seek_def) blast
  next
    case None
    then have s1: "s1 = s" using 1(3) by simp
    show ?thesis
    proof (cases "reverseLock s")
      case True
      then show ?thesis using 1(1,2) None s1 assms(4) by (simp add: round seek_def mv)
    next
      case False
      obtain s2 f2 b2 t2 where 2: "findSignal s sp data (\<not> scanUp s) b1 t1 = Some (s2, f2 \<noteq> None, b2, t2)"
        "first (\<not> scanUp s) f2" "s2 = (case f2 of None \<Rightarrow> s | Some f \<Rightarrow> s\<lparr>receiving := True, scan_current := f\<rparr>)"
        unfolding first_def using findSignal_returns [OF assms(1), of sp data "\<not> scanUp s" b1 t1] by metis
      show ?thesis
      proof (cases f2)
        case (Some f)
        then show ?thesis using 1(1,2) 2 None False s1 by (simp add: round seek_def) blast
      next
        case f2: None
        then have "s2 = s" using 2(3) by simp
        then show ?thesis using 1(1,2) 2(1,2) None f2 False s1 assms(4) by (simp add: round seek_def mv)
      qed
    qed
  qed
qed

text \<open>
  The interval must be positive: the input field accepts zero, and then a search without a signal at the
  current frequency never ends, with the lock held.
\<close>

lemma zero_interval_loops:
  "search_loop in_range visible hit step f b t = Some r \<Longrightarrow> step = 0 \<longrightarrow> \<not> (in_range f \<and> visible f \<and> \<not> hit f)"
proof (erule search_loop.raw_induct [rotated])
  fix loop ir vi hi and st f b t :: real and r
  assume ih: "\<And>ir vi hi (st :: real) f b t r. loop ir vi hi st f b t = Some r \<Longrightarrow> st = 0 \<longrightarrow> \<not> (ir f \<and> vi f \<and> \<not> hi f)"
    and body: "(if \<not> ir f then Some (None, b, t) else if \<not> vi f then Some (None, b, t)
      else if hi f then Some (Some f, min f b, max f t)
      else loop ir vi hi st (f + st) (min f b) (max f t)) = Some r"
  show "st = 0 \<longrightarrow> \<not> (ir f \<and> vi f \<and> \<not> hi f)"
    using ih [of ir vi hi st "f + st" "min f b" "max f t" r] body by (cases "hi f") auto
qed

lemma zero_interval_hangs:
  assumes "interval s = 0" "in_scan_range s True (scan_current s)" "channel_visible sp (scan_current s)"
    "\<not> channel_hit s sp data (scan_current s)"
  shows "findSignal s sp data True b t = None"
  using zero_interval_loops [of "in_scan_range s True" "channel_visible sp" "channel_hit s sp data" 0 "scan_current s" b t] assms
  by (cases "search_loop (in_scan_range s True) (channel_visible sp) (channel_hit s sp data) 0 (scan_current s) b t")
    (auto simp: findSignal_def)

section \<open>Witnesses\<close>

definition exampleScanner :: Scanner where
  "exampleScanner = \<lparr>running = True, startFreq = 7000000, stopFreq = 7010000, interval = 1000,
     scan_current = 7000000, passbandRatio = 10, tuningTime = 250, lingerTime = 1000, level = -50,
     receiving = False, tuning = False, scanUp = True, reverseLock = False, lastSignalTime = 0, lastTuneTime = 0\<rparr>"

definition exampleSpectrum :: Spectrum where
  "exampleSpectrum = \<lparr>fft = Some [-90, -90, -20, -90], wfStart = 6998000, wfEnd = 7006000, wfWidth = 8000, vfoWidth = 2000\<rparr>"

lemma exampleScanner_ok: "scan_ok exampleScanner"
  by (simp add: scan_ok_def exampleScanner_def)

theorem scan_round_witness:
  "\<exists>s' t'. scan_round 0 ''Radio'' exampleSpectrum (exampleScanner, exampleTuning REF_CENTER False 0) = Some (s', t') \<and> scan_ok s'"
  using scan_round_returns_in_range [OF exampleScanner_ok, of 0 "''Radio''" exampleSpectrum] by blast

theorem scan_seek_witness:
  "\<exists>s' t'. scan_round 0 ''Radio'' exampleSpectrum (exampleScanner, exampleTuning REF_CENTER False 0) = Some (s', t') \<and>
     \<not> reverseLock s'"
  using scan_seek_first_signal [OF exampleScanner_ok, of "''Radio''" exampleSpectrum "[-90, -90, -20, -90]" 0 "exampleTuning REF_CENTER False 0"]
  by (auto simp: exampleScanner_def exampleSpectrum_def)

end
