(* ===== verification/Ryfi.thy ===== *)
theory Ryfi
  imports Prelude "HOL-Library.Sublist"
begin

text \<open>
  The packet transport of the RyFi link (\<open>decoder_modules/ryfi_decoder/src/ryfi\<close>): packets and frames with
  their byte formats (\<open>packet.cpp\<close>, \<open>frame.cpp\<close>), the transmitter's queue and worker (\<open>transmitter.cpp\<close>) and
  the receiver's worker (\<open>receiver.cpp\<close>).

  A packet is its content. The bytes a frame is padded with come from \<open>rand()\<close>: they are the argument
  \<open>noise\<close>. Packets the application sends while the worker fills a frame arrive between two pops of the
  queue: \<open>arrivals\<close> lists what arrives before each pop. The logs \<open>accepted\<close>, \<open>transmitted\<close> and \<open>received\<close>
  record packets in order. A read outside the frame is undefined in the source: the receiver of the
  model stops with \<open>overrun\<close>.
\<close>

section \<open>Packets\<close>

type_synonym packet = "u8 list"

definition MAX_CONTENT_SIZE :: nat where "MAX_CONTENT_SIZE = 0xFFFF"

text \<open>The constructor and \<open>setContent\<close>: \<open>None\<close> is the exception.\<close>

definition packet_of :: "u8 list \<Rightarrow> packet option" where
  "packet_of bytes = (if length bytes > MAX_CONTENT_SIZE then None else Some bytes)"

definition serializedSize :: "packet \<Rightarrow> nat" where
  "serializedSize p = length p + 2"

definition packet_serialize :: "packet \<Rightarrow> u8 list" where
  "packet_serialize p =
     (let size = of_nat (length p) :: u32
      in [ucast (drop_bit 8 size AND 0xFF), ucast (size AND 0xFF)] @ p)"

section \<open>Frames\<close>

definition RS_BLOCK_DEC_SIZE :: nat where "RS_BLOCK_DEC_SIZE = 223"
definition RS_BLOCK_COUNT :: nat where "RS_BLOCK_COUNT = 4"
definition FRAME_SIZE :: nat where "FRAME_SIZE = RS_BLOCK_DEC_SIZE * RS_BLOCK_COUNT"
definition FRAME_DATA_SIZE :: nat where "FRAME_DATA_SIZE = FRAME_SIZE - 6"
definition PKT_OFFS_NONE :: u16 where "PKT_OFFS_NONE = 0xFFFF"

record Frame =
  counter :: u16
  firstPacket :: u16
  lastPacket :: u16
  content :: "u8 list"

definition be16 :: "u16 \<Rightarrow> u8 list" where
  "be16 w = [ucast (drop_bit 8 w AND 0xFF), ucast (w AND 0xFF)]"

definition read16 :: "u8 \<Rightarrow> u8 \<Rightarrow> u16" where
  "read16 hi lo = push_bit 8 (ucast hi) OR ucast lo"

definition frame_serialize :: "Frame \<Rightarrow> u8 list" where
  "frame_serialize f = be16 (counter f) @ be16 (firstPacket f) @ be16 (lastPacket f) @ take FRAME_DATA_SIZE (content f)"

definition frame_deserialize :: "u8 list \<Rightarrow> Frame" where
  "frame_deserialize bytes =
     \<lparr>counter = read16 (bytes ! 0) (bytes ! 1), firstPacket = read16 (bytes ! 2) (bytes ! 3),
      lastPacket = read16 (bytes ! 4) (bytes ! 5), content = take FRAME_DATA_SIZE (drop 6 bytes)\<rparr>"

section \<open>Transmitter\<close>

definition MAX_QUEUE_SIZE :: nat where "MAX_QUEUE_SIZE = 32"

record Transmitter =
  packets :: "packet list"
  tx_pkt :: packet
  tx_counter :: u16
  pktToWrite :: nat
  pktWritten :: nat
  tx_buffer :: "u8 list"
  accepted :: "packet list"
  transmitted :: "packet list"

definition tx_initial :: Transmitter where
  "tx_initial = \<lparr>packets = [], tx_pkt = [], tx_counter = 0, pktToWrite = 0, pktWritten = 0, tx_buffer = [],
     accepted = [], transmitted = []\<rparr>"

text \<open>
  The result of \<open>send\<close> is \<open>Some False\<close> for a full queue; after pushing the packet the function ends
  without a \<open>return\<close>, so the value its caller sees is undefined: \<open>None\<close>.
\<close>

definition send :: "packet \<Rightarrow> Transmitter \<Rightarrow> Transmitter \<times> bool option" where
  "send p t =
     (if length (packets t) \<ge> MAX_QUEUE_SIZE then (t, Some False)
      else (t\<lparr>packets := packets t @ [p], accepted := accepted t @ [p]\<rparr>, None))"

definition send_all :: "packet list \<Rightarrow> Transmitter \<Rightarrow> Transmitter" where
  "send_all ps t = fold (\<lambda>p t. fst (send p t)) ps t"

definition popPacket :: "Transmitter \<Rightarrow> Transmitter \<times> packet" where
  "popPacket t = (case packets t of [] \<Rightarrow> (t, []) | p # ps \<Rightarrow> (t\<lparr>packets := ps\<rparr>, p))"

text \<open>The next packet is popped and, when there is one, serialized.\<close>

definition load_packet :: "Transmitter \<Rightarrow> Transmitter" where
  "load_packet t =
     (let (t1, p) = popPacket t; t2 = t1\<lparr>tx_pkt := p\<rparr>
      in if p \<noteq> [] then t2\<lparr>pktToWrite := serializedSize p, tx_buffer := packet_serialize p\<rparr> else t2)"

definition pad :: "(nat \<Rightarrow> u8) \<Rightarrow> nat \<Rightarrow> Frame \<Rightarrow> Frame" where
  "pad noise off f = f\<lparr>content := content f @ map noise [off..<FRAME_DATA_SIZE]\<rparr>"

definition mark_packet :: "nat \<Rightarrow> Frame \<Rightarrow> Frame" where
  "mark_packet off f =
     f\<lparr>firstPacket := (if firstPacket f = PKT_OFFS_NONE then of_nat off else firstPacket f), lastPacket := of_nat off\<rparr>"

text \<open>One copy of packet data into the frame, and the end of a packet that is written completely.\<close>

definition write_packet :: "nat \<Rightarrow> Transmitter \<Rightarrow> Frame \<Rightarrow> nat \<times> Transmitter \<times> Frame" where
  "write_packet off t f =
     (let writeable = min (pktToWrite t - pktWritten t) (FRAME_DATA_SIZE - off);
          f1 = f\<lparr>content := content f @ take writeable (drop (pktWritten t) (tx_buffer t))\<rparr>;
          t1 = t\<lparr>pktWritten := pktWritten t + writeable\<rparr>
      in (off + writeable,
          if pktWritten t1 \<ge> pktToWrite t1
          then t1\<lparr>pktToWrite := 0, pktWritten := 0, transmitted := transmitted t1 @ [tx_pkt t1]\<rparr> else t1,
          f1))"

text \<open>The loop that fills a frame; \<open>content\<close> holds the bytes written so far.\<close>

function fill_frame ::
  "(nat \<Rightarrow> u8) \<Rightarrow> packet list list \<Rightarrow> nat \<Rightarrow> Transmitter \<Rightarrow> Frame \<Rightarrow> Transmitter \<times> Frame" where
  "fill_frame noise arrivals off t f =
     (if off \<ge> FRAME_DATA_SIZE then (t, f)
      else if pktWritten t = 0 \<and> FRAME_DATA_SIZE - off < 2 then (t, pad noise off f)
      else
        let t1 = (if pktWritten t = 0 then load_packet (send_all (concat (take 1 arrivals)) t) else t)
        in if tx_pkt t1 = [] then (t1, pad noise off f)
           else
             let f1 = (if pktWritten t1 = 0 then mark_packet off f else f);
                 (off2, t2, f2) = write_packet off t1 f1
             in fill_frame noise (if pktWritten t = 0 then drop 1 arrivals else arrivals) off2 t2 f2)"
  by pat_completeness auto

lemma packets_send_all [simp]: "tx_pkt (send_all ps t) = tx_pkt t" "pktWritten (send_all ps t) = pktWritten t"
  "pktToWrite (send_all ps t) = pktToWrite t" "tx_buffer (send_all ps t) = tx_buffer t"
  "tx_counter (send_all ps t) = tx_counter t" "transmitted (send_all ps t) = transmitted t"
  unfolding send_all_def by (induction ps arbitrary: t) (simp_all add: send_def)

lemma load_packet_written [simp]: "pktWritten (load_packet t) = pktWritten t"
  by (simp add: load_packet_def popPacket_def Let_def split: list.splits)

lemma load_packet_size: "tx_pkt (load_packet t) \<noteq> [] \<Longrightarrow> pktToWrite (load_packet t) \<ge> 3"
  by (auto simp: load_packet_def popPacket_def Let_def serializedSize_def Suc_le_eq split: list.splits if_splits)

text \<open>A round writes at least one byte, or it ends a packet that was already written.\<close>

termination fill_frame
proof (relation "measures [\<lambda>(noise, arrivals, off, t, f). FRAME_DATA_SIZE - off, \<lambda>(noise, arrivals, off, t, f). min 1 (pktWritten t)]",
    goal_cases)
  case (2 noise arrivals off t f t1 f1 w off2 w' t2 f2)
  let ?n = "min (pktToWrite t1 - pktWritten t1) (FRAME_DATA_SIZE - off)"
  have off2: "off2 = off + ?n" using 2(6,7) by (simp add: write_packet_def Let_def)
  show ?case
  proof (cases "pktWritten t = 0")
    case True
    then have "pktWritten t1 = 0" "pktToWrite t1 \<ge> 3" using 2(3,4) load_packet_size by auto
    then show ?thesis using 2(1) off2 by auto
  next
    case False
    then have t1: "t1 = t" using 2(3) by simp
    show ?thesis
    proof (cases "pktToWrite t > pktWritten t")
      case True
      then show ?thesis using 2(1) off2 t1 by auto
    next
      case n: False
      then have "pktWritten t2 = 0" using 2(6-8) t1 by (auto simp: write_packet_def Let_def)
      then show ?thesis using False n off2 t1 by auto
    qed
  qed
qed simp

declare fill_frame.simps [simp del]

text \<open>One round of \<open>worker\<close>: the frame it hands to \<open>txFrame\<close>.\<close>

definition tx_frame :: "(nat \<Rightarrow> u8) \<Rightarrow> packet list list \<Rightarrow> Transmitter \<Rightarrow> Transmitter \<times> Frame" where
  "tx_frame noise arrivals t =
     fill_frame noise arrivals 0 (t\<lparr>tx_counter := tx_counter t + 1\<rparr>)
       \<lparr>counter = tx_counter t, firstPacket = PKT_OFFS_NONE, lastPacket = PKT_OFFS_NONE, content = []\<rparr>"

section \<open>Receiver\<close>

record Receiver =
  lastCounter :: u16
  pktExpected :: nat
  pktRead :: nat
  rx_buffer :: "u8 list"
  valid :: nat
  received :: "packet list"
  overrun :: bool

definition rx_initial :: Receiver where
  "rx_initial = \<lparr>lastCounter = 0, pktExpected = 0, pktRead = 0, rx_buffer = [], valid = 0, received = [], overrun = False\<rparr>"

text \<open>Data of the partial packet; the result is the new position and the state.\<close>

definition read_partial :: "Frame \<Rightarrow> nat \<Rightarrow> bool \<Rightarrow> Receiver \<Rightarrow> nat \<times> Receiver" where
  "read_partial f frameRead isLast r =
     (let readable = min (pktExpected r - pktRead r) (FRAME_DATA_SIZE - frameRead);
          r1 = r\<lparr>rx_buffer := take (pktRead r) (rx_buffer r) @ take readable (drop frameRead (content f)),
                 pktRead := pktRead r + readable\<rparr>;
          frameRead1 = frameRead + readable
      in if pktRead r1 \<ge> pktExpected r1
         then (if isLast \<or> firstPacket f = PKT_OFFS_NONE then FRAME_DATA_SIZE else frameRead1,
               r1\<lparr>received := received r1 @ [take (pktExpected r1) (rx_buffer r1)], pktRead := 0, pktExpected := 0\<rparr>)
         else (frameRead1, r1))"

function receive_loop :: "Frame \<Rightarrow> nat \<Rightarrow> bool \<Rightarrow> bool \<Rightarrow> Receiver \<Rightarrow> Receiver" where
  "receive_loop f frameRead isFirst isLast r =
     (if frameRead \<ge> FRAME_DATA_SIZE then r
      else if pktExpected r \<noteq> 0 then
        let (frameRead1, r1) = read_partial f frameRead isLast r in receive_loop f frameRead1 isFirst isLast r1
      else if FRAME_DATA_SIZE - frameRead < 2 then r\<lparr>pktExpected := 0, pktRead := 0\<rparr>
      else
        let pos = (if isFirst then unat (firstPacket f) else frameRead);
            isLast1 = (pos = unat (lastPacket f))
        in if pos + 1 \<ge> FRAME_DATA_SIZE then r\<lparr>overrun := True\<rparr>
           else receive_loop f (pos + 2) False isLast1
                  (r\<lparr>pktExpected := unat (read16 (content f ! pos) (content f ! (pos + 1)))\<rparr>))"
  by pat_completeness auto

text \<open>
  The loop ends for every frame: the position jumps back at most once, to the first packet of the frame;
  otherwise it moves on, or a packet ends.
\<close>

termination receive_loop
  by (relation "measures [\<lambda>(f, n, isFirst, isLast, r). if isFirst then 1 else 0, \<lambda>(f, n, isFirst, isLast, r). FRAME_DATA_SIZE - n,
        \<lambda>(f, n, isFirst, isLast, r). if pktExpected r \<noteq> 0 then 1 else 0]")
    (auto simp: read_partial_def Let_def split: if_splits)

declare receive_loop.simps [simp del]

text \<open>The worker's round on a received frame.\<close>

definition rx_frame :: "Frame \<Rightarrow> Receiver \<Rightarrow> Receiver" where
  "rx_frame f r =
     (if overrun r then r
      else
        let r1 = r\<lparr>valid := valid r + 1\<rparr>;
            expectedCounter = lastCounter r1 + 1;
            r2 = r1\<lparr>lastCounter := counter f\<rparr>;
            lost = (counter f \<noteq> expectedCounter);
            r3 = (if lost then r2\<lparr>pktExpected := 0, pktRead := 0, valid := 1\<rparr> else r2)
        in if lost \<and> firstPacket f \<noteq> PKT_OFFS_NONE \<and> unat (firstPacket f) > FRAME_DATA_SIZE - 2 then r3
           else if pktExpected r3 = 0 \<and> firstPacket f = PKT_OFFS_NONE then r3
           else receive_loop f (if lost \<and> firstPacket f \<noteq> PKT_OFFS_NONE then unat (firstPacket f) else 0) True False r3)"

end
