(* ===== verification/RyfiAir.thy ===== *)
theory RyfiAir
  imports Ryfi
begin

text \<open>
  The RyFi link between the packet transport and the radio (\<open>decoder_modules/ryfi_decoder/src/ryfi\<close>): blocks,
  interleaving and scrambler of \<open>rs_codec.cpp\<close>, soft bits of \<open>conv_codec.cpp\<close>, symbols, sync word and
  rotations of \<open>framing.cpp\<close>.

  The Reed-Solomon and the convolutional codes themselves, calls into the vendored \<open>core/libcorrect\<close>, are not
  modelled: the definitions stop where the four codec classes call it. Symbols are pairs of real numbers: the only operations are comparisons with 0 and multiplications by
  1, -1 and 0, which are exact. The reader of every stream is taken to be running (\<open>swap\<close> succeeds).
\<close>

unbundle bit_operations_syntax

section \<open>Reed-Solomon blocks\<close>

definition RS_BLOCK_ENC_SIZE :: nat where "RS_BLOCK_ENC_SIZE = 255"

definition RS_SCRAMBLER_SEQ :: "u8 list" where
  "RS_SCRAMBLER_SEQ =
    [0x75, 0x05, 0x7C, 0xCE, 0xF1, 0xD0, 0x6C, 0xF6, 0xFA, 0x65, 0xF6, 0xFC, 0xE0, 0x0A, 0x82, 0x17,
     0x6C, 0xBE, 0x76, 0xA0, 0xD6, 0x46, 0x12, 0x2E, 0xDE, 0xB5, 0xF7, 0xAD, 0xCB, 0x51, 0x63, 0x47,
     0x27, 0x30, 0x7E, 0x43, 0xD1, 0xA1, 0xCB, 0x10, 0x08, 0x49, 0xDF, 0x86, 0xD4, 0xC4, 0xD7, 0x3C,
     0x6D, 0x03, 0x07, 0x37, 0x5B, 0xB3, 0xCD, 0x79, 0x6F, 0x1E, 0xBA, 0xC5, 0x6E, 0xC3, 0x8C, 0x7A,
     0x25, 0x99, 0x61, 0x54, 0x5A, 0x96, 0x57, 0x9B, 0xE0, 0x60, 0x5B, 0x09, 0x6D, 0x8B, 0x2D, 0x9D,
     0x15, 0x9D, 0x0E, 0xBF, 0x57, 0xFB, 0x9C, 0x49, 0x82, 0x2C, 0x48, 0x59, 0x92, 0x47, 0x79, 0x17,
     0x16, 0x74, 0xEA, 0xEA, 0xBB, 0xC5, 0x72, 0x32, 0x17, 0xD1, 0xB3, 0xDE, 0xEB, 0x15, 0xC7, 0x55,
     0x8A, 0xF2, 0x88, 0xC2, 0x33, 0xA6, 0x17, 0x8B, 0xD4, 0x77, 0x22, 0x00, 0x63, 0x47, 0x45, 0x5F,
     0x36, 0x35, 0x58, 0x8B, 0x88, 0xEC, 0xCA, 0xC4, 0x60, 0x53, 0x9E, 0xBD, 0xB2, 0xF5, 0x51, 0x46,
     0x34, 0x9A, 0x07, 0x25, 0x3F, 0xF5, 0x65, 0x63, 0x77, 0x3C, 0x5A, 0xFA, 0x4E, 0x0C, 0xF7, 0x1B,
     0x82, 0xAB, 0x73, 0x06, 0x7F, 0xB7, 0xC6, 0x6B, 0xBF, 0xB1, 0x46, 0xF3, 0x01, 0x91, 0xB1, 0xFF,
     0x5C, 0x6F, 0xF9, 0x43, 0x0E, 0x6A, 0x70, 0x89, 0x0B, 0xEA, 0x8C, 0xD4, 0x1B, 0x51, 0x01, 0x31,
     0x71, 0x2E, 0xDF, 0x24, 0xC1, 0xD5, 0xDB, 0x0E, 0xF5, 0xEB, 0x78, 0x79, 0x39, 0x5B, 0xAD, 0xC3,
     0xA9, 0xA6, 0x60, 0x30, 0xA2, 0x9A, 0x7B, 0xA0, 0xF4, 0xAA, 0xC5, 0x57, 0xB3, 0x16, 0xF9, 0xB5,
     0x79, 0x20, 0xC1, 0x88, 0x9A, 0x00, 0x43, 0xB2, 0xC6, 0x84, 0x8D, 0x03, 0xF2, 0xD8, 0x90, 0x7A,
     0x21, 0x37, 0x7E, 0xF7, 0x75, 0xE5, 0xFB, 0xC9, 0xDC, 0xAB, 0x4B, 0xBC, 0x35, 0x38, 0xB9, 0x3A,
     0x53, 0x89, 0x7E, 0xD5, 0x94, 0x12, 0x2D, 0x9B, 0x91, 0x90, 0x1D, 0x4D, 0x0E, 0xE0, 0x93, 0xF3,
     0xC1, 0xA1, 0x9B, 0x73, 0x27, 0x22, 0x41, 0x27, 0xEE, 0x2A, 0xD7, 0x45, 0xBC, 0x8F, 0x9B, 0xA2,
     0x36, 0x11, 0x16, 0x37, 0x1A, 0xF1, 0x2E, 0x71, 0xCF, 0x86, 0x89, 0x83, 0x5A, 0xF1, 0x24, 0x6C,
     0x56, 0x71, 0x53, 0xE4, 0xD2, 0xCB, 0xCA, 0x86, 0x1E, 0xA0, 0xD5, 0x83, 0x3B, 0xEF, 0x09, 0x09,
     0xC2, 0x07, 0x53, 0x86, 0xE6, 0x8A, 0xC6, 0x70, 0xFB, 0x91, 0x43, 0xCB, 0x91, 0x6E, 0xA9, 0xBC,
     0x31, 0x42, 0x61, 0x0C, 0x88, 0xB8, 0x2C, 0xED, 0xD8, 0xE6, 0xA3, 0xEC, 0xAC, 0xB9, 0x45, 0x5E,
     0x2C, 0x73, 0x3F, 0x2E, 0x06, 0xE0, 0xBF, 0x73, 0xDD, 0x2E, 0x45, 0x50, 0x6C, 0x53, 0x55, 0xF0,
     0x7F, 0x6E, 0x61, 0xFA, 0xA0, 0x7A, 0x1C, 0xF0, 0xBD, 0xAC, 0x48, 0x61, 0x03, 0x6B, 0xED, 0x54,
     0x2A, 0x27, 0x94, 0xF6, 0xF9, 0x6A, 0x04, 0x08, 0x0B, 0x3C, 0xC3, 0x30, 0x66, 0x01, 0xFB, 0xDC,
     0xC9, 0x65, 0x03, 0x83, 0x7D, 0x0A, 0xDF, 0xA5, 0x04, 0x14, 0xE4, 0xF2, 0x4C, 0x01, 0xDF, 0x04,
     0xD2, 0x80, 0xB9, 0x9B, 0xD9, 0x5E, 0xF8, 0x2A, 0x93, 0x8D, 0x8C, 0x09, 0x9B, 0x38, 0xEC, 0x3B,
     0xC4, 0x29, 0x90, 0x7C, 0x65, 0x3A, 0xF2, 0x4B, 0x69, 0xD3, 0x63, 0x9B, 0x40, 0x95, 0xC3, 0xFB,
     0x67, 0x54, 0x40, 0x9B, 0x26, 0x9F, 0x52, 0xFE, 0xD8, 0xD0, 0x24, 0x9C, 0x5C, 0xD4, 0xEF, 0xDE,
     0x28, 0x66, 0x75, 0x04, 0xCB, 0xA4, 0xC0, 0xB9, 0x4B, 0xC9, 0x20, 0x4B, 0x56, 0xC7, 0x86, 0xC5,
     0x39, 0x45, 0x18, 0xA7, 0x48, 0x14, 0x1A, 0x51, 0xCA, 0xD0, 0xC0, 0x15, 0xDD, 0xC1, 0x28, 0x4A,
     0x7A, 0xD2, 0x10, 0xEA, 0x83, 0xD3, 0x3A, 0xEF, 0x48, 0x29, 0x41, 0xA4, 0xD4, 0x57, 0xA6, 0x1D,
     0x76, 0x24, 0x93, 0x58, 0x7E, 0xB7, 0xDD, 0x0B, 0xF2, 0xCE, 0x71, 0x55, 0xF5, 0xAB, 0x8C, 0xC8,
     0x70, 0x59, 0x73, 0x69, 0x9D, 0x29, 0x5E, 0x59, 0xF4, 0xB2, 0xC4, 0x97, 0x75, 0xF0, 0x65, 0x1B,
     0x66, 0x5F, 0xA4, 0x33, 0x5C, 0xC7, 0xBF, 0x45, 0xE6, 0x20, 0xC0, 0xBD, 0xAD, 0xAE, 0x9F, 0x97,
     0x05, 0xD8, 0x04, 0x2B, 0x0A, 0x46, 0xE8, 0xB8, 0xCB, 0x00, 0xE2, 0x7C, 0x70, 0x1B, 0x49, 0xDE,
     0x81, 0xEB, 0x24, 0xAC, 0x1B, 0x3E, 0x09, 0xFB, 0xAC, 0xB7, 0xF2, 0xD1, 0xB2, 0x78, 0xF3, 0xAC,
     0xC7, 0x6A, 0xA2, 0x07, 0x4C, 0xED, 0x61, 0xAD, 0x04, 0x7F, 0x45, 0x83, 0x59, 0x31, 0x27, 0xF0,
     0x16, 0x6B, 0x0C, 0xAA, 0xD4, 0xD1, 0xCB, 0x1C, 0x51, 0x41, 0x0D, 0x2F, 0x8F, 0xF9, 0xF9, 0x7F,
     0x22, 0x89, 0x46, 0xF4, 0xB8, 0x93, 0x98, 0x9E, 0x3E, 0x23, 0xF1, 0x6E, 0x64, 0x08, 0xB6, 0xC9,
     0x6E, 0x53, 0x53, 0xED, 0xAD, 0x21, 0xCD, 0x1A, 0xF0, 0x45, 0xFC, 0x14, 0x00, 0xEA, 0xF7, 0x42,
     0xEE, 0xDA, 0x58, 0x0D, 0x85, 0xBC, 0x74, 0xFB, 0x73, 0x78, 0xB5, 0x5E, 0x5E, 0x6F, 0x6F, 0x7E,
     0x39, 0xC2, 0x05, 0x50, 0xDB, 0x3D, 0xB8, 0xF3, 0x8F, 0x80, 0xEC, 0x46, 0x29, 0x39, 0x89, 0xF3,
     0x55, 0x9C, 0x6A, 0x5F, 0x7C, 0xD9, 0x7C, 0x13, 0xE4, 0x56, 0x5E, 0xE9, 0x60, 0x19, 0xE2, 0x7D,
     0xC4, 0x41, 0x92, 0x8D, 0xDA, 0x21, 0x58, 0x20, 0xE9, 0xA8, 0x4C, 0x16, 0x34, 0x99, 0xAC, 0xB7,
     0x30, 0xBD, 0x39, 0x19, 0xAC, 0x9B, 0x4B, 0x27, 0xFA, 0x32, 0xC1, 0x48, 0xA1, 0x80, 0x34, 0x36,
     0x1E, 0xFB, 0x92, 0x43, 0x35, 0x72, 0x2D, 0xEF, 0xD2, 0xF2, 0xFC, 0xC2, 0x85, 0xAB, 0x59, 0x40,
     0x8D, 0x9D, 0x1A, 0x1F, 0xE2, 0x92, 0x87, 0xA2, 0xF9, 0x2C, 0x78, 0xE4, 0xC3, 0x26, 0x56, 0x07,
     0xB3, 0x78, 0xAF, 0x79, 0x3D, 0x88, 0xF4, 0xAD, 0x66, 0x7C, 0x07, 0x58, 0x98, 0x82, 0x1A, 0x26,
     0xF7, 0xFD, 0xCE, 0xFF, 0x75, 0xED, 0xAB, 0xBD, 0xAE, 0x6D, 0x5C, 0x28, 0x91, 0xF3, 0xB7, 0x5C,
     0x27, 0x05, 0xEC, 0x3B, 0xE3, 0xDD, 0x93, 0x24, 0x7F, 0xAD, 0x14, 0xAA, 0x49, 0x61, 0x8F, 0x96,
     0x1F, 0xAA, 0xB2, 0xEE, 0xA8, 0x24, 0x41, 0x7C, 0xDC, 0xF1, 0x28, 0x26, 0xE6, 0x7F, 0x98, 0x20,
     0x50, 0x5F, 0x90, 0x21, 0x8A, 0x09, 0x26, 0x59, 0xD0, 0x07, 0x2F, 0xE1, 0x35, 0x4D, 0x0B, 0x20,
     0xB2, 0xD5, 0xDD, 0xB5, 0xAC, 0x1B, 0xFE, 0xD9, 0xE3, 0x35, 0xF1, 0xB8, 0x3F, 0x3D, 0xFC, 0x0B,
     0x5A, 0x57, 0xA9, 0x92, 0x2B, 0xC8, 0x3E, 0xC2, 0xAA, 0xEF, 0xB9, 0x98, 0x2C, 0xA8, 0xAB, 0xF6,
     0xA1, 0xBF, 0xBC, 0x8D, 0x97, 0xA2, 0x74, 0xD9, 0xE5, 0x99, 0x85, 0x81, 0x15, 0xB0, 0xE7, 0x8B,
     0x48, 0x86, 0xF4, 0x94, 0x9C, 0x62, 0x82, 0xD1, 0x2C, 0x24, 0x4B, 0xAC, 0x7A, 0xB8, 0x4E, 0x4A,
     0xD2, 0xF6, 0xAA, 0xED, 0xE0, 0x9C, 0x98, 0xD2, 0xDF, 0xC1, 0xBC, 0xBF, 0x55, 0x7D, 0x40, 0xB5,
     0xDE, 0xD4, 0x25, 0xBB, 0x81, 0xF4, 0x07, 0x1D, 0xE7, 0x3C, 0xB4, 0x62, 0xC9, 0x55, 0x0A, 0x3A,
     0xD5, 0xCE, 0x97, 0xED, 0x30, 0x76, 0x76, 0x51, 0xBC, 0x8C, 0xE4, 0x54, 0xBE, 0xB7, 0xB5, 0xCD,
     0xF8, 0x76, 0x37, 0x53, 0x2C, 0x9F, 0xE4, 0xC7, 0xEB, 0xF5, 0x8D, 0x23, 0x8A, 0xDA, 0xD1, 0xA9,
     0xD8, 0x4C, 0x53, 0xF3, 0x49, 0xA7, 0x1A, 0x5D, 0xE5, 0x03, 0x49, 0x52, 0xD3, 0xE2, 0x1F, 0xA5,
     0x35, 0x9C, 0xBB, 0x0B, 0xC7, 0x0D, 0xA4, 0x65, 0x54, 0x8B, 0x39, 0xF1, 0x3B, 0x67, 0x21, 0x71,
     0x10, 0xE7, 0x76, 0xC4, 0xA8, 0xC2, 0x9D, 0x93, 0xC6, 0x51, 0xBA, 0x23]"

definition scramble :: "u8 list \<Rightarrow> u8 list" where
  "scramble xs = map2 (XOR) xs RS_SCRAMBLER_SEQ"

text \<open>Byte \<open>k\<close> of block \<open>i\<close> goes to place \<open>i + 4 * k\<close>.\<close>

definition interleave :: "u8 list list \<Rightarrow> u8 list" where
  "interleave blocks =
     map (\<lambda>j. blocks ! (j mod RS_BLOCK_COUNT) ! (j div RS_BLOCK_COUNT)) [0..<RS_BLOCK_ENC_SIZE * RS_BLOCK_COUNT]"

definition deinterleave :: "u8 list \<Rightarrow> nat \<Rightarrow> u8 list" where
  "deinterleave xs i = map (\<lambda>k. xs ! (i + k * RS_BLOCK_COUNT)) [0..<RS_BLOCK_ENC_SIZE]"

section \<open>Symbols\<close>

record complex_t =
  re :: real
  im :: real

definition complex_times :: "complex_t \<Rightarrow> complex_t \<Rightarrow> complex_t" where
  "complex_times a b = \<lparr>re = re a * re b - im a * im b, im = im b * re a + re b * im a\<rparr>"

definition QPSK_SYMBOLS :: "complex_t list" where
  "QPSK_SYMBOLS = [\<lparr>re = -0.070710678118, im = -0.070710678118\<rparr>, \<lparr>re = -0.070710678118, im = 0.070710678118\<rparr>,
     \<lparr>re = 0.070710678118, im = -0.070710678118\<rparr>, \<lparr>re = 0.070710678118, im = 0.070710678118\<rparr>]"

definition SYNC_WORD :: u64 where "SYNC_WORD = 0x341CC540819D8963"
definition SYNC_BITS :: nat where "SYNC_BITS = 64"
definition SYNC_SYMS :: nat where "SYNC_SYMS = SYNC_BITS div 2"

text \<open>The two-bit values of the sync word, first symbol first.\<close>

definition sync_values :: "u64 list" where
  "sync_values = map (\<lambda>k. drop_bit (62 - 2 * k) SYNC_WORD AND 3) [0..<SYNC_SYMS]"

definition syncSyms :: "complex_t list" where
  "syncSyms = map (\<lambda>v. QPSK_SYMBOLS ! unat v) sync_values"

definition Framer_encode :: "u8 list \<Rightarrow> nat \<Rightarrow> complex_t list" where
  "Framer_encode xs count =
     syncSyms @ map (\<lambda>i. QPSK_SYMBOLS ! unat (drop_bit (6 - 2 * (i mod 4)) (xs ! (i div 4)) AND 3)) [0..<count div 2]"

section \<open>Deframer\<close>

primrec hamming_loop :: "nat \<Rightarrow> u64 \<Rightarrow> u64 \<Rightarrow> nat" where
  "hamming_loop 0 a b = 0"
| "hamming_loop (Suc n) a b = of_bool ((a AND 1) \<noteq> (b AND 1)) + hamming_loop n (drop_bit 1 a) (drop_bit 1 b)"

definition distance :: "u64 \<Rightarrow> u64 \<Rightarrow> nat" where
  "distance a b = hamming_loop 64 a b"

text \<open>A two-bit value pushed into a register, as for \<open>quad\<close> and \<open>shift\<close>.\<close>

definition push2 :: "u64 \<Rightarrow> u64 \<Rightarrow> u64" where
  "push2 v w = push_bit 2 w OR v"

definition rotate_value :: "u64 \<Rightarrow> u64" where
  "rotate_value v = (if v = 0 then 2 else if v = 1 then 0 else if v = 3 then 1 else 3)"

text \<open>\<open>quad\<close> has no initial value in the source: \<open>q0\<close>.\<close>

definition syncRots :: "u64 \<Rightarrow> u64 list" where
  "syncRots q0 =
     (let quad = fold push2 (map rotate_value sync_values) q0 in [SYNC_WORD, quad, NOT SYNC_WORD, NOT quad])"

definition symRots :: "complex_t list" where
  "symRots = [\<lparr>re = 1, im = 0\<rparr>, \<lparr>re = 0, im = -1\<rparr>, \<lparr>re = -1, im = 0\<rparr>, \<lparr>re = 0, im = 1\<rparr>]"

text \<open>\<open>syms\<close> are the \<open>outCount\<close> symbols of the output buffer and \<open>frames\<close> the buffers handed on.\<close>

record Deframer =
  recv :: nat
  syms :: "complex_t list"
  knownRot :: nat
  rotations :: "u64 list"
  symRot :: complex_t
  shift :: u64
  frames :: "complex_t list list"

definition decide :: "complex_t \<Rightarrow> u64" where
  "decide s = (if re s > 0 then 2 else 0) OR (if im s > 0 then 1 else 0)"

definition FRAME_SYMBOLS :: nat where "FRAME_SYMBOLS = 8168"

definition test_rotation :: "nat \<Rightarrow> Deframer \<Rightarrow> Deframer" where
  "test_rotation i d =
     (let testRot = (knownRot d + i) mod 4
      in if distance (shift d) (rotations d ! testRot) < 6
         then d\<lparr>knownRot := testRot, symRot := symRots ! testRot, recv := FRAME_SYMBOLS, syms := []\<rparr> else d)"

definition deframe_symbol :: "complex_t \<Rightarrow> Deframer \<Rightarrow> Deframer" where
  "deframe_symbol s d =
     (if recv d \<noteq> 0 then
        let d1 = d\<lparr>syms := syms d @ [complex_times s (symRot d)], recv := recv d - 1\<rparr>
        in if recv d1 = 0 then d1\<lparr>frames := frames d1 @ [syms d1]\<rparr> else d1
      else fold test_rotation [0, 1, 2, 3] (d\<lparr>shift := push2 (decide s) (shift d)\<rparr>))"

definition Deframer_run :: "complex_t list \<Rightarrow> Deframer \<Rightarrow> Deframer" where
  "Deframer_run xs d = fold deframe_symbol xs d"

section \<open>Soft bits\<close>

definition soft_bit :: "real \<Rightarrow> u8" where
  "soft_bit x = of_int (max 0 (min 255 (if x * 127 + 128 \<ge> 0 then \<lfloor>x * 127 + 128\<rfloor> else \<lceil>x * 127 + 128\<rceil>)))"

text \<open>What \<open>ConvDecoder::decode\<close> hands to the decoder: the two parts of each symbol in turn.\<close>

definition soft_bits :: "complex_t list \<Rightarrow> u8 list" where
  "soft_bits xs = concat (map (\<lambda>s. [soft_bit (re s), soft_bit (im s)]) xs)"

end
