(* ===== verification/RyfiSync.thy ===== *)
theory RyfiSync
  imports RyfiAir
begin

text \<open>
  What the air interface of RyFi promises: the sync word is found in every rotation of the constellation
  and at no wrong place, also with bit errors; the data symbols come out turned back; the interleaver
  spreads bursts over the Reed-Solomon blocks.
\<close>

unbundle bit_operations_syntax

section \<open>Hamming distance\<close>

lemma hamming_loop_sum: "hamming_loop n a b = (\<Sum>i<n. of_bool (bit a i \<noteq> bit b i))"
proof (induction n arbitrary: a b)
  case (Suc n)
  have "(a AND 1) = (b AND 1) \<longleftrightarrow> bit a 0 = bit b 0"
    by (simp add: bit_0 and_one_eq mod2_eq_if)
  then show ?case using Suc.IH [of "drop_bit 1 a" "drop_bit 1 b"]
    by (simp add: sum.lessThan_Suc_shift bit_drop_bit_eq add.commute del: sum.lessThan_Suc)
qed simp

lemma distance_sum: "distance a b = (\<Sum>i<64. of_bool (bit a i \<noteq> bit b i))"
  by (simp add: distance_def hamming_loop_sum)

lemma distance_triangle: "distance a c \<le> distance a b + distance b c"
  unfolding distance_sum sum.distrib [symmetric] by (rule sum_mono) auto

lemma distance_sym: "distance a b = distance b a"
  by (simp add: distance_sum eq_commute)

text \<open>The same on lists of bits, for evaluation.\<close>

fun differ_at_least :: "nat \<Rightarrow> bool list \<Rightarrow> bool list \<Rightarrow> bool" where
  "differ_at_least 0 xs ys = True"
| "differ_at_least (Suc n) (x # xs) (y # ys) = (if x = y then differ_at_least (Suc n) xs ys else differ_at_least n xs ys)"
| "differ_at_least (Suc n) _ _ = False"

definition bits_of :: "u64 \<Rightarrow> bool list" where
  "bits_of w = map (bit w) (rev [0..<64])"

lemma differ_at_least_iff: "differ_at_least n (map f xs) (map g xs) \<longleftrightarrow> n \<le> sum_list (map (\<lambda>i. of_bool (f i \<noteq> g i)) xs)"
proof (induction xs arbitrary: n)
  case Nil
  then show ?case by (cases n) auto
next
  case (Cons x xs)
  then show ?case by (cases n) auto
qed

lemma distance_at_least: "n \<le> distance a b \<longleftrightarrow> differ_at_least n (bits_of a) (bits_of b)"
  unfolding bits_of_def differ_at_least_iff distance_sum
  by (simp add: rev_map [symmetric] interv_sum_list_conv_sum_set_nat atLeast0LessThan del: upt_rec_numeral)

section \<open>The sync word\<close>

definition window :: "nat \<Rightarrow> u64 \<Rightarrow> u64 \<Rightarrow> u64" where
  "window j w s = push_bit (2 * j) w OR drop_bit (64 - 2 * j) s"

lemma bit_window:
  assumes "j \<le> 32" "p < 64"
  shows "bit (window j w s) p = (if p < 2 * j then bit s (p + (64 - 2 * j)) else bit w (p - 2 * j))"
proof -
  have "\<not> bit s (p + (64 - 2 * j))" if "\<not> p < 2 * j"
    using that assms by (auto dest: bit_imp_le_length)
  then show ?thesis using assms(2) by (auto simp: window_def bit_simps add.commute)
qed

lemma nth_bits_of: "i < 64 \<Longrightarrow> bits_of w ! i = bit w (63 - i)" "length (bits_of w) = 64"
  by (simp_all add: bits_of_def rev_nth)

lemma bits_window: "j \<le> 32 \<Longrightarrow> bits_of (window j w s) = drop (2 * j) (bits_of w) @ take (2 * j) (bits_of s)"
  by (rule nth_equalityI) (auto simp: nth_bits_of nth_append bit_window intro!: arg_cong [where f = "bit _"])

lemma distance_window:
  assumes "j \<le> 32"
  shows "distance (window j w s) (window j w' s') \<le> distance w w' + distance s s'"
proof -
  let ?d = "\<lambda>a b i. of_bool (bit a i \<noteq> bit b i) :: nat" and ?k = "2 * j"
  have "(\<Sum>p<64. ?d (window j w s) (window j w' s') p) =
      (\<Sum>p<?k. ?d (window j w s) (window j w' s') p) + (\<Sum>p = ?k..<64. ?d (window j w s) (window j w' s') p)"
    unfolding lessThan_atLeast0 by (rule sum.atLeastLessThan_concat [symmetric]) (use assms in simp_all)
  also have "(\<Sum>p<?k. ?d (window j w s) (window j w' s') p) = (\<Sum>p<?k. ?d s s' (p + (64 - ?k)))"
    using assms by (intro sum.cong) (simp_all add: bit_window)
  also have "\<dots> = (\<Sum>i = 64 - ?k..<64. ?d s s' i)"
    using assms sum.shift_bounds_nat_ivl [of "?d s s'" 0 "64 - ?k" ?k] by (simp add: lessThan_atLeast0)
  also have "\<dots> \<le> (\<Sum>i<64. ?d s s' i)" by (rule sum_mono2) auto
  also have "(\<Sum>p = ?k..<64. ?d (window j w s) (window j w' s') p) = (\<Sum>p = ?k..<64. ?d w w' (p - ?k))"
    using assms by (intro sum.cong) (simp_all add: bit_window)
  also have "\<dots> = (\<Sum>i<64 - ?k. ?d w w' i)"
    using assms sum.shift_bounds_nat_ivl [of "\<lambda>p. ?d w w' (p - ?k)" 0 ?k "64 - ?k"] by (simp add: lessThan_atLeast0)
  also have "\<dots> \<le> (\<Sum>i<64. ?d w w' i)" by (rule sum_mono2) auto
  finally show ?thesis unfolding distance_sum by simp
qed

text \<open>Values pushed into a register.\<close>

lemma fold_push2: "fold push2 vs w = push_bit (2 * length vs) w OR fold push2 vs 0"
proof (induction vs arbitrary: w)
  case (Cons v vs)
  show ?case using Cons.IH [of "push2 v w"] Cons.IH [of "push2 v 0"]
    by (simp add: push2_def push_bit_push_bit ac_simps)
qed simp

definition two_bits :: "u64 \<Rightarrow> bool" where
  "two_bits v \<longleftrightarrow> (\<forall>n. bit v n \<longrightarrow> n < 2)"

lemma bit_push2: "bit (push2 v w) n \<longleftrightarrow> 2 \<le> n \<and> n < 64 \<and> bit w (n - 2) \<or> bit v n"
  by (auto simp: push2_def bit_simps)

lemma bit_fold_push2:
  assumes "list_all two_bits vs" "bit (fold push2 vs (0::u64)) n"
  shows "n < 2 * length vs"
  using assms
proof (induction vs arbitrary: n rule: rev_induct)
  case (snoc v vs)
  show ?case
  proof (cases "n < 2")
    case False
    then have "bit (fold push2 vs (0::u64)) (n - 2)" using snoc.prems by (auto simp: bit_push2 two_bits_def)
    then have "n - 2 < 2 * length vs" using snoc by simp
    then show ?thesis by simp
  qed simp
qed simp

lemma fold_push2_window:
  assumes "list_all two_bits vs" "length vs = 32" "j \<le> 32"
  shows "fold push2 (take j vs) w = window j w (fold push2 vs 0)"
proof -
  let ?a = "fold push2 (take j vs) 0" and ?b = "fold push2 (drop j vs) 0"
  have l: "list_all two_bits (take j vs)" "list_all two_bits (drop j vs)"
    using assms(1) by (metis append_take_drop_id list_all_append)+
  have "fold push2 vs 0 = fold push2 (take j vs @ drop j vs) 0" by simp
  also have "\<dots> = push_bit (64 - 2 * j) ?a OR ?b"
    unfolding fold_append o_apply by (subst fold_push2) (simp add: assms(2,3) diff_mult_distrib2)
  finally have s: "fold push2 vs 0 = push_bit (64 - 2 * j) ?a OR ?b" .
  have "drop_bit (64 - 2 * j) (fold push2 vs 0) = ?a"
  proof (rule bit_word_eqI)
    fix n assume n: "n < LENGTH(64)"
    have "\<not> bit ?b (64 - 2 * j + n)" using bit_fold_push2 [OF l(2)] assms(2,3) by fastforce
    moreover have "bit ?a n \<longrightarrow> 64 - 2 * j + n < 64" using bit_fold_push2 [OF l(1)] assms(2,3) by fastforce
    ultimately show "bit (drop_bit (64 - 2 * j) (fold push2 vs 0)) n = bit ?a n"
      using n by (auto simp: s bit_simps)
  qed
  then show ?thesis using fold_push2 [of "take j vs" w] assms(2,3) by (simp add: window_def min_absorb2)
qed

section \<open>The rotations of the sync word\<close>

definition sync_word :: "nat \<Rightarrow> u64" where
  "sync_word k = [0x341CC540819D8963, 0x9286602AE8C4EC39, 0xCBE33ABF7E62769C, 0x6D799FD5173B13C6] ! k"

lemma sync_values_eq: "sync_values = [0, 3, 1, 0, 0, 1, 3, 0, 3, 0, 1, 1, 1, 0, 0, 0, 2, 0, 0, 1, 2, 1, 3, 1, 2, 0, 2, 1, 1, 2, 0, 3]"
  by (simp add: sync_values_def SYNC_SYMS_def SYNC_BITS_def SYNC_WORD_def upt_conv_Cons)

lemma syncRots_eq: "syncRots q0 = map sync_word [0, 1, 2, 3]"
proof -
  have "fold push2 (map rotate_value sync_values) q0 = push_bit 64 q0 OR fold push2 (map rotate_value sync_values) 0"
    by (subst fold_push2) (simp add: sync_values_eq)
  also have "push_bit 64 q0 = 0" by (rule bit_word_eqI) (simp add: bit_simps)
  also have "fold push2 (map rotate_value sync_values) 0 = 0x9286602AE8C4EC39"
    by (simp add: sync_values_eq rotate_value_def push2_def)
  finally show ?thesis by (simp add: syncRots_def SYNC_WORD_def sync_word_def Let_def)
qed

text \<open>The bits of the four rotations.\<close>

definition sync_bits0 :: "bool list" where
  "sync_bits0 =
      [False, False, True, True, False, True, False, False, False, False, False, True, True, True, False, False,
      True, True, False, False, False, True, False, True, False, True, False, False, False, False, False, False,
      True, False, False, False, False, False, False, True, True, False, False, True, True, True, False, True, True,
      False, False, False, True, False, False, True, False, True, True, False, False, False, True, True]"

definition sync_bits1 :: "bool list" where
  "sync_bits1 =
      [True, False, False, True, False, False, True, False, True, False, False, False, False, True, True, False,
      False, True, True, False, False, False, False, False, False, False, True, False, True, False, True, False,
      True, True, True, False, True, False, False, False, True, True, False, False, False, True, False, False, True,
      True, True, False, True, True, False, False, False, False, True, True, True, False, False, True]"

definition sync_bits2 :: "bool list" where
  "sync_bits2 =
      [True, True, False, False, True, False, True, True, True, True, True, False, False, False, True, True, False,
      False, True, True, True, False, True, False, True, False, True, True, True, True, True, True, False, True,
      True, True, True, True, True, False, False, True, True, False, False, False, True, False, False, True, True,
      True, False, True, True, False, True, False, False, True, True, True, False, False]"

definition sync_bits3 :: "bool list" where
  "sync_bits3 =
      [False, True, True, False, True, True, False, True, False, True, True, True, True, False, False, True, True,
      False, False, True, True, True, True, True, True, True, False, True, False, True, False, True, False, False,
      False, True, False, True, True, True, False, False, True, True, True, False, True, True, False, False, False,
      True, False, False, True, True, True, True, False, False, False, True, True, False]"

definition sync_bits :: "nat \<Rightarrow> bool list" where
  "sync_bits k = [sync_bits0, sync_bits1, sync_bits2, sync_bits3] ! k"

lemma four_cases: "k < 4 \<Longrightarrow> k = 0 \<or> k = 1 \<or> k = 2 \<or> k = (3::nat)"
  by auto

lemma bits_of_sync: "k < 4 \<Longrightarrow> bits_of (sync_word k) = sync_bits k"
  by (drule four_cases, elim disjE) (simp_all add: bits_of_def sync_word_def sync_bits_def
    sync_bits0_def sync_bits1_def sync_bits2_def sync_bits3_def upt_conv_Cons)

lemma sync_apart:
  "list_all (\<lambda>k0. list_all (\<lambda>k. list_all (\<lambda>j. list_all (\<lambda>t.
     differ_at_least 16 (drop (2 * j) (sync_bits k0) @ take (2 * j) (sync_bits k)) (sync_bits t)) [0..<4]) [1..<32]) [0..<4]) [0..<4]"
  by code_simp

lemma sync_different: "list_all (\<lambda>k. list_all (\<lambda>t. k = t \<or> differ_at_least 16 (sync_bits k) (sync_bits t)) [0..<4]) [0..<4]"
  by code_simp

lemma sync_far:
  assumes "k0 < 4" "k < 4" "t < 4" "1 \<le> j" "j < 32"
  shows "16 \<le> distance (window j (sync_word k0) (sync_word k)) (sync_word t)"
  using sync_apart assms by (auto simp: distance_at_least bits_window bits_of_sync list_all_iff)

lemma sync_distinct: "k < 4 \<Longrightarrow> t < 4 \<Longrightarrow> k \<noteq> t \<Longrightarrow> 16 \<le> distance (sync_word k) (sync_word t)"
  using sync_different by (simp add: distance_at_least bits_of_sync list_all_iff) (metis atLeastLessThan_iff le0)


end
