(* ===== verification/RyfiProps.thy ===== *)
theory RyfiProps
  imports Ryfi
begin

text \<open>
  What the RyFi link promises: the byte formats are read back, every frame the transmitter builds is read
  by the receiver in step with it, and whatever frames are lost on the way, the packets delivered are
  packets sent, whole and in order.
\<close>

section \<open>Byte formats\<close>

lemma take_low_byte: "(w AND 0xFF :: 'a :: len word) = take_bit 8 w"
  by (simp add: take_bit_eq_mask mask_eq_exp_minus_1)

lemma read16_be16 [simp]: "read16 (ucast (drop_bit 8 w AND 0xFF)) (ucast (w AND 0xFF)) = (w :: u16)"
  by (rule bit_word_eqI) (auto simp: read16_def take_low_byte bit_simps)

lemma length_be16 [simp]: "length (be16 w) = 2"
  by (simp add: be16_def)

lemma length_serialize [simp]: "length (packet_serialize p) = length p + 2"
  by (simp add: packet_serialize_def Let_def)

lemma packet_serialize_be16: "packet_serialize p = be16 (of_nat (length p)) @ p"
proof -
  have "ucast (drop_bit 8 (of_nat (length p) :: u32) AND 0xFF) = (ucast (drop_bit 8 (of_nat (length p) :: u16) AND 0xFF) :: u8)"
    "ucast ((of_nat (length p) :: u32) AND 0xFF) = (ucast ((of_nat (length p) :: u16) AND 0xFF) :: u8)"
    by (rule bit_word_eqI, auto simp: take_low_byte bit_simps)+
  then show ?thesis by (simp add: packet_serialize_def be16_def Let_def)
qed

text \<open>The size field, read where a serialized packet starts.\<close>

lemma read_size:
  assumes "length p \<le> MAX_CONTENT_SIZE" "i + 2 \<le> length xs" "take 2 (drop i xs) = take 2 (packet_serialize p)"
  shows "unat (read16 (xs ! i) (xs ! (i + 1))) = length p"
proof -
  have "take 2 (packet_serialize p) ! 0 = xs ! i" "take 2 (packet_serialize p) ! 1 = xs ! (i + 1)"
    using assms(2) by (simp_all flip: assms(3))
  then have "xs ! i = ucast (drop_bit 8 (of_nat (length p) :: u16) AND 0xFF)"
    "xs ! (i + 1) = ucast ((of_nat (length p) :: u16) AND 0xFF)"
    by (simp_all add: packet_serialize_be16 be16_def flip: One_nat_def)
  then have "read16 (xs ! i) (xs ! (i + 1)) = of_nat (length p)" by (simp only: read16_be16)
  then show ?thesis using assms(1) by (simp add: unsigned_of_nat take_bit_nat_eq_self MAX_CONTENT_SIZE_def)
qed

lemma frame_sizes: "FRAME_DATA_SIZE = 886" "FRAME_SIZE = FRAME_DATA_SIZE + 6"
  by (simp_all add: FRAME_DATA_SIZE_def FRAME_SIZE_def RS_BLOCK_DEC_SIZE_def RS_BLOCK_COUNT_def)

lemma frame_roundtrip:
  assumes "length (content f) = FRAME_DATA_SIZE"
  shows "frame_deserialize (frame_serialize f) = f" "length (frame_serialize f) = FRAME_SIZE"
  using assms by (simp_all add: frame_deserialize_def frame_serialize_def be16_def frame_sizes(2))

section \<open>Transmitter\<close>

text \<open>Between two frames and between two rounds of the loop: a packet that is being sent is in the buffer.\<close>

definition tx_ok :: "Transmitter \<Rightarrow> bool" where
  "tx_ok t \<longleftrightarrow> list_all (\<lambda>p. length p \<le> MAX_CONTENT_SIZE) (packets t) \<and>
     (pktWritten t \<noteq> 0 \<longrightarrow> tx_pkt t \<noteq> [] \<and> length (tx_pkt t) \<le> MAX_CONTENT_SIZE \<and> tx_buffer t = packet_serialize (tx_pkt t) \<and>
        pktToWrite t = length (tx_pkt t) + 2 \<and> 2 \<le> pktWritten t \<and> pktWritten t < pktToWrite t)"

definition sizes_ok :: "packet list list \<Rightarrow> bool" where
  "sizes_ok arrivals \<longleftrightarrow> list_all (list_all (\<lambda>p. length p \<le> MAX_CONTENT_SIZE)) arrivals"

lemma sizes_ok_drop: "sizes_ok xs \<Longrightarrow> sizes_ok (drop 1 xs)"
  by (cases xs) (simp_all add: sizes_ok_def)

text \<open>The packets that wait or are being sent.\<close>

definition in_flight :: "Transmitter \<Rightarrow> packet list" where
  "in_flight t = (if pktWritten t = 0 then [] else [tx_pkt t])"

definition tx_log_ok :: "Transmitter \<Rightarrow> bool" where
  "tx_log_ok t \<longleftrightarrow> filter (\<lambda>p. p \<noteq> []) (accepted t) = transmitted t @ in_flight t @ filter (\<lambda>p. p \<noteq> []) (packets t)"

lemma send_ok:
  "tx_ok t \<Longrightarrow> length p \<le> MAX_CONTENT_SIZE \<Longrightarrow> tx_ok (fst (send p t))"
  "tx_log_ok t \<Longrightarrow> tx_log_ok (fst (send p t))"
  by (auto simp: send_def tx_ok_def tx_log_ok_def in_flight_def)

lemma send_all_ok:
  "tx_ok t \<Longrightarrow> list_all (\<lambda>p. length p \<le> MAX_CONTENT_SIZE) ps \<Longrightarrow> tx_ok (send_all ps t)"
  "tx_log_ok t \<Longrightarrow> tx_log_ok (send_all ps t)"
  unfolding send_all_def by (induction ps arbitrary: t) (simp_all add: send_ok)

text \<open>What a pop brings: either nothing is sent, or a fresh packet stands in the buffer.\<close>

lemma load_packet_eq:
  "load_packet t = (case packets t of [] \<Rightarrow> t\<lparr>tx_pkt := []\<rparr>
     | p # ps \<Rightarrow> if p = [] then t\<lparr>packets := ps, tx_pkt := []\<rparr>
         else t\<lparr>packets := ps, tx_pkt := p, pktToWrite := length p + 2, tx_buffer := packet_serialize p\<rparr>)"
  by (cases "packets t") (simp_all add: load_packet_def popPacket_def serializedSize_def)

lemma load_packet_cases:
  assumes "tx_ok t" "pktWritten t = 0"
  shows "tx_pkt (load_packet t) \<noteq> [] \<Longrightarrow> length (tx_pkt (load_packet t)) \<le> MAX_CONTENT_SIZE"
    and "tx_pkt (load_packet t) \<noteq> [] \<Longrightarrow> tx_buffer (load_packet t) = packet_serialize (tx_pkt (load_packet t))"
    and "tx_pkt (load_packet t) \<noteq> [] \<Longrightarrow> pktToWrite (load_packet t) = length (tx_pkt (load_packet t)) + 2"
    and "list_all (\<lambda>p. length p \<le> MAX_CONTENT_SIZE) (packets (load_packet t))"
    and "transmitted (load_packet t) = transmitted t" "tx_counter (load_packet t) = tx_counter t"
  using assms by (auto simp: load_packet_eq tx_ok_def split: list.splits if_splits)

lemma load_packet_log:
  assumes "tx_log_ok t" "pktWritten t = 0"
  shows "filter (\<lambda>p. p \<noteq> []) (accepted (load_packet t)) = transmitted t @
      filter (\<lambda>p. p \<noteq> []) [tx_pkt (load_packet t)] @ filter (\<lambda>p. p \<noteq> []) (packets (load_packet t))"
  using assms by (auto simp: load_packet_eq tx_log_ok_def in_flight_def split: list.splits)

text \<open>The three results of a round of the loop that writes data.\<close>

lemma write_packet_fresh:
  assumes "pktWritten t = 0" "pktToWrite t = length (tx_pkt t) + 2" "tx_buffer t = packet_serialize (tx_pkt t)"
    and "off + 2 \<le> FRAME_DATA_SIZE" "write_packet off t f = (off2, t2, f2)"
  shows "off2 = off + min (length (tx_pkt t) + 2) (FRAME_DATA_SIZE - off)"
    and "content f2 = content f @ take (off2 - off) (packet_serialize (tx_pkt t))"
    and "f2 = f\<lparr>content := content f2\<rparr>"
    and "t2 = (if length (tx_pkt t) + 2 \<le> FRAME_DATA_SIZE - off
               then t\<lparr>pktToWrite := 0, pktWritten := 0, transmitted := transmitted t @ [tx_pkt t]\<rparr>
               else t\<lparr>pktWritten := FRAME_DATA_SIZE - off\<rparr>)"
  using assms by (auto simp: write_packet_def Let_def min_def)

lemma write_packet_rest:
  assumes "tx_ok t" "pktWritten t \<noteq> 0" "write_packet 0 t f = (off2, t2, f2)"
  shows "off2 = min (length (tx_pkt t) + 2 - pktWritten t) FRAME_DATA_SIZE"
    and "content f2 = content f @ take off2 (drop (pktWritten t - 2) (tx_pkt t))"
    and "f2 = f\<lparr>content := content f2\<rparr>"
    and "t2 = (if length (tx_pkt t) + 2 - pktWritten t \<le> FRAME_DATA_SIZE
               then t\<lparr>pktToWrite := 0, pktWritten := 0, transmitted := transmitted t @ [tx_pkt t]\<rparr>
               else t\<lparr>pktWritten := pktWritten t + FRAME_DATA_SIZE\<rparr>)"
proof -
  have d: "drop (pktWritten t) (packet_serialize (tx_pkt t)) = drop (pktWritten t - 2) (tx_pkt t)"
    using assms(1,2) by (simp add: packet_serialize_be16 tx_ok_def)
  show "off2 = min (length (tx_pkt t) + 2 - pktWritten t) FRAME_DATA_SIZE"
    "content f2 = content f @ take off2 (drop (pktWritten t - 2) (tx_pkt t))"
    "f2 = f\<lparr>content := content f2\<rparr>"
    "t2 = (if length (tx_pkt t) + 2 - pktWritten t \<le> FRAME_DATA_SIZE
               then t\<lparr>pktToWrite := 0, pktWritten := 0, transmitted := transmitted t @ [tx_pkt t]\<rparr>
               else t\<lparr>pktWritten := pktWritten t + FRAME_DATA_SIZE\<rparr>)"
    using assms d by (auto simp: write_packet_def Let_def tx_ok_def min_def)
qed

text \<open>The rounds of the loop that fills a frame, when no packet is being sent.\<close>

lemma fill_full: "off \<ge> FRAME_DATA_SIZE \<Longrightarrow> fill_frame noise arrivals off t f = (t, f)"
  by (simp add: fill_frame.simps)

lemma fill_short: "off < FRAME_DATA_SIZE \<Longrightarrow> FRAME_DATA_SIZE < off + 2 \<Longrightarrow> pktWritten t = 0 \<Longrightarrow>
    fill_frame noise arrivals off t f = (t, pad noise off f)"
  by (simp add: fill_frame.simps)

definition next_packet :: "packet list list \<Rightarrow> Transmitter \<Rightarrow> Transmitter" where
  "next_packet arrivals t = load_packet (send_all (concat (take 1 arrivals)) t)"

lemma fill_none: "off + 2 \<le> FRAME_DATA_SIZE \<Longrightarrow> pktWritten t = 0 \<Longrightarrow> tx_pkt (next_packet arrivals t) = [] \<Longrightarrow>
    fill_frame noise arrivals off t f = (next_packet arrivals t, pad noise off f)"
  by (simp add: fill_frame.simps [of noise arrivals off t f] next_packet_def)

lemma fill_packet: "off + 2 \<le> FRAME_DATA_SIZE \<Longrightarrow> pktWritten t = 0 \<Longrightarrow> tx_pkt (next_packet arrivals t) \<noteq> [] \<Longrightarrow>
    write_packet off (next_packet arrivals t) (mark_packet off f) = (off2, t2, f2) \<Longrightarrow>
    fill_frame noise arrivals off t f = fill_frame noise (drop 1 arrivals) off2 t2 f2"
  by (subst fill_frame.simps) (auto simp: next_packet_def)

lemma next_packet_ok:
  assumes "tx_ok t" "pktWritten t = 0" "sizes_ok arrivals"
  shows "tx_pkt (next_packet arrivals t) \<noteq> [] \<Longrightarrow> length (tx_pkt (next_packet arrivals t)) \<le> MAX_CONTENT_SIZE"
    and "tx_pkt (next_packet arrivals t) \<noteq> [] \<Longrightarrow> tx_buffer (next_packet arrivals t) = packet_serialize (tx_pkt (next_packet arrivals t))"
    and "tx_pkt (next_packet arrivals t) \<noteq> [] \<Longrightarrow> pktToWrite (next_packet arrivals t) = length (tx_pkt (next_packet arrivals t)) + 2"
    and "list_all (\<lambda>p. length p \<le> MAX_CONTENT_SIZE) (packets (next_packet arrivals t))"
    and "transmitted (next_packet arrivals t) = transmitted t" "tx_counter (next_packet arrivals t) = tx_counter t"
    and "pktWritten (next_packet arrivals t) = 0"
    and "tx_log_ok t \<Longrightarrow> filter (\<lambda>p. p \<noteq> []) (accepted (next_packet arrivals t)) = transmitted t @
      filter (\<lambda>p. p \<noteq> []) [tx_pkt (next_packet arrivals t)] @ filter (\<lambda>p. p \<noteq> []) (packets (next_packet arrivals t))"
proof -
  have "list_all (\<lambda>p. length p \<le> MAX_CONTENT_SIZE) (concat (take 1 arrivals))"
    using assms(3) by (cases arrivals) (simp_all add: sizes_ok_def)
  then have ok: "tx_ok (send_all (concat (take 1 arrivals)) t)" by (rule send_all_ok(1) [OF assms(1)])
  have w: "pktWritten (send_all (concat (take 1 arrivals)) t) = 0" using assms(2) by simp
  note c = load_packet_cases [OF ok w, folded next_packet_def]
  show "tx_pkt (next_packet arrivals t) \<noteq> [] \<Longrightarrow> length (tx_pkt (next_packet arrivals t)) \<le> MAX_CONTENT_SIZE"
    "tx_pkt (next_packet arrivals t) \<noteq> [] \<Longrightarrow> tx_buffer (next_packet arrivals t) = packet_serialize (tx_pkt (next_packet arrivals t))"
    "tx_pkt (next_packet arrivals t) \<noteq> [] \<Longrightarrow> pktToWrite (next_packet arrivals t) = length (tx_pkt (next_packet arrivals t)) + 2"
    "list_all (\<lambda>p. length p \<le> MAX_CONTENT_SIZE) (packets (next_packet arrivals t))"
    by (rule c, assumption)+ (rule c)
  show "transmitted (next_packet arrivals t) = transmitted t" "tx_counter (next_packet arrivals t) = tx_counter t"
    "pktWritten (next_packet arrivals t) = 0"
    using c(5,6) assms(2) by (simp_all add: next_packet_def)
  show "tx_log_ok t \<Longrightarrow> filter (\<lambda>p. p \<noteq> []) (accepted (next_packet arrivals t)) = transmitted t @
      filter (\<lambda>p. p \<noteq> []) [tx_pkt (next_packet arrivals t)] @ filter (\<lambda>p. p \<noteq> []) (packets (next_packet arrivals t))"
    using load_packet_log [OF send_all_ok(2) w, folded next_packet_def] by simp
qed

section \<open>Transmitter and receiver in step\<close>

definition idle :: "Receiver \<Rightarrow> bool" where
  "idle r \<longleftrightarrow> pktExpected r = 0 \<and> pktRead r = 0"

text \<open>The receiver has read exactly what the transmitter has written of the packet in progress.\<close>

definition attached :: "Transmitter \<Rightarrow> Receiver \<Rightarrow> bool" where
  "attached t r \<longleftrightarrow>
     (if pktWritten t = 0 then idle r
      else pktExpected r = length (tx_pkt t) \<and> pktRead r + 2 = pktWritten t \<and>
           take (pktRead r) (rx_buffer r) = take (pktRead r) (tx_pkt t))"

text \<open>The receiver's two kinds of rounds.\<close>

lemma receive_end: "n \<ge> FRAME_DATA_SIZE \<Longrightarrow> receive_loop f n isFirst isLast r = r"
  by (simp add: receive_loop.simps)

lemma receive_header:
  assumes "idle r" "n + 2 \<le> FRAME_DATA_SIZE" "pos = (if isFirst then unat (firstPacket f) else n)"
    and "pos + 2 \<le> FRAME_DATA_SIZE" "length (content f) = FRAME_DATA_SIZE"
    and "length p \<le> MAX_CONTENT_SIZE" "take 2 (drop pos (content f)) = take 2 (packet_serialize p)"
  shows "receive_loop f n isFirst isLast r =
    receive_loop f (pos + 2) False (pos = unat (lastPacket f)) (r\<lparr>pktExpected := length p\<rparr>)"
proof -
  have "unat (read16 (content f ! pos) (content f ! (pos + 1))) = length p"
    using assms by (intro read_size) simp_all
  then show ?thesis
    using assms(1,2,4) unfolding receive_loop.simps [of f n isFirst isLast r] Let_def assms(3) [symmetric]
    by (simp add: idle_def)
qed

lemma receive_data:
  assumes "pktExpected r = L" "pktRead r = k" "k < L" "n < FRAME_DATA_SIZE"
  shows "receive_loop f n isFirst isLast r =
    (let m = min (L - k) (FRAME_DATA_SIZE - n); buf = take k (rx_buffer r) @ take m (drop n (content f))
     in if k + m \<ge> L
        then receive_loop f (if isLast \<or> firstPacket f = PKT_OFFS_NONE then FRAME_DATA_SIZE else n + m) isFirst isLast
               (r\<lparr>rx_buffer := buf, received := received r @ [take L buf], pktRead := 0, pktExpected := 0\<rparr>)
        else receive_loop f (n + m) isFirst isLast (r\<lparr>rx_buffer := buf, pktRead := k + m\<rparr>))"
  using assms unfolding receive_loop.simps [of f n isFirst isLast r]
  by (simp add: read_partial_def Let_def)

text \<open>
  What happens from a position where the transmitter is between packets: either no packet starts in the
  rest of the frame, or one starts there, and a receiver without a partial packet that reads on from
  there ends in step with the transmitter.
\<close>

definition in_step :: "Frame \<Rightarrow> nat \<Rightarrow> bool \<Rightarrow> Transmitter \<Rightarrow> packet list \<Rightarrow> bool" where
  "in_step f off isFirst t ds \<longleftrightarrow>
     (\<forall>r n isLast. idle r \<and> (n = off \<or> isFirst \<and> n \<le> off) \<longrightarrow>
        attached t (receive_loop f n isFirst isLast r) \<and>
        received (receive_loop f n isFirst isLast r) = received r @ ds \<and>
        lastCounter (receive_loop f n isFirst isLast r) = lastCounter r \<and>
        overrun (receive_loop f n isFirst isLast r) = overrun r)"

definition fill_result :: "Transmitter \<Rightarrow> Frame \<Rightarrow> Transmitter \<Rightarrow> Frame \<Rightarrow> bool" where
  "fill_result t f t' f' \<longleftrightarrow> tx_ok t' \<and> length (content f') = FRAME_DATA_SIZE \<and>
     take (length (content f)) (content f') = content f \<and> counter f' = counter f \<and> tx_counter t' = tx_counter t \<and>
     (tx_log_ok t \<longrightarrow> tx_log_ok t')"

lemma unat_offset: "off \<le> FRAME_DATA_SIZE \<Longrightarrow> unat (of_nat off :: u16) = off"
  by (simp add: unsigned_of_nat take_bit_nat_eq_self frame_sizes)

lemma offset_not_none: "off \<le> FRAME_DATA_SIZE \<Longrightarrow> (of_nat off :: u16) \<noteq> PKT_OFFS_NONE"
proof
  assume "off \<le> FRAME_DATA_SIZE" "of_nat off = PKT_OFFS_NONE"
  then have "unat PKT_OFFS_NONE = off" using unat_offset by metis
  then show False using \<open>off \<le> FRAME_DATA_SIZE\<close> by (simp add: PKT_OFFS_NONE_def frame_sizes)
qed

lemma pad_result:
  "tx_ok t' \<Longrightarrow> (tx_log_ok t \<longrightarrow> tx_log_ok t') \<Longrightarrow> tx_counter t' = tx_counter t \<Longrightarrow> length (content f) \<le> FRAME_DATA_SIZE \<Longrightarrow>
   fill_result t f t' (pad noise (length (content f)) f)"
  by (simp add: fill_result_def pad_def)

text \<open>A packet that starts at \<open>off\<close>, read by the receiver: it ends in this frame, or the frame ends first.\<close>

lemma receive_packet:
  assumes "idle r" "n + 2 \<le> FRAME_DATA_SIZE" "(if isFirst then unat (firstPacket f) else n) = off"
    and "off + 2 \<le> FRAME_DATA_SIZE" "length (content f) = FRAME_DATA_SIZE" "length p \<le> MAX_CONTENT_SIZE" "p \<noteq> []"
    and "off2 = off + min (length p + 2) (FRAME_DATA_SIZE - off)"
    and "take (off2 - off) (drop off (content f)) = take (off2 - off) (packet_serialize p)"
    and "firstPacket f \<noteq> PKT_OFFS_NONE"
  shows "length p + 2 \<le> FRAME_DATA_SIZE - off \<Longrightarrow> \<exists>buf. receive_loop f n isFirst isLast r =
      receive_loop f (if off = unat (lastPacket f) then FRAME_DATA_SIZE else off2) False (off = unat (lastPacket f))
        (r\<lparr>rx_buffer := buf, received := received r @ [p]\<rparr>)"
    and "\<not> length p + 2 \<le> FRAME_DATA_SIZE - off \<Longrightarrow>
      pktExpected (receive_loop f n isFirst isLast r) = length p \<and>
      pktRead (receive_loop f n isFirst isLast r) + 2 = FRAME_DATA_SIZE - off \<and>
      take (pktRead (receive_loop f n isFirst isLast r)) (rx_buffer (receive_loop f n isFirst isLast r)) =
        take (pktRead (receive_loop f n isFirst isLast r)) p \<and>
      received (receive_loop f n isFirst isLast r) = received r \<and>
      lastCounter (receive_loop f n isFirst isLast r) = lastCounter r \<and>
      overrun (receive_loop f n isFirst isLast r) = overrun r"
proof -
  let ?m = "off2 - off" and ?L = "length p"
  have m: "2 \<le> ?m" "off2 = off + ?m" "off2 \<le> FRAME_DATA_SIZE" using assms(4,8) by auto
  have hdr: "take 2 (drop off (content f)) = take 2 (packet_serialize p)"
    using arg_cong [OF assms(9), of "take 2"] m(1) by (simp add: min_absorb1)
  have dat: "take (?m - 2) (drop (off + 2) (content f)) = take (?m - 2) p"
  proof -
    obtain k where k: "?m = k + 2" using m(1) by (metis add.commute le_Suc_ex)
    show ?thesis using arg_cong [OF assms(9), of "drop 2"]
      by (simp add: k drop_take packet_serialize_be16 add.commute)
  qed
  have start: "receive_loop f n isFirst isLast r =
      receive_loop f (off + 2) False (off = unat (lastPacket f)) (r\<lparr>pktExpected := ?L\<rparr>)"
    using receive_header [OF assms(1,2) assms(3) [symmetric] assms(4,5,6) hdr] .
  have L: "0 < ?L" using assms(7) by simp
  have r0: "pktRead (r\<lparr>pktExpected := ?L\<rparr>) = 0" "pktExpected (r\<lparr>pktExpected := ?L\<rparr>) = ?L"
    using assms(1) by (simp_all add: idle_def)
  {
    assume d: "?L + 2 \<le> FRAME_DATA_SIZE - off"
    then have o: "off2 = off + 2 + ?L" "off + 2 < FRAME_DATA_SIZE" "min ?L (FRAME_DATA_SIZE - (off + 2)) = ?L"
      using assms(4,8) L d by linarith+
    have "take ?L (drop (off + 2) (content f)) = p" using dat o(1) by simp
    then have "receive_loop f n isFirst isLast r =
      receive_loop f (if off = unat (lastPacket f) then FRAME_DATA_SIZE else off2) False (off = unat (lastPacket f))
        (r\<lparr>rx_buffer := p, received := received r @ [p], pktRead := 0, pktExpected := 0\<rparr>)"
      unfolding start receive_data [OF r0(2,1) L o(2)] using o(1,3) assms(10) by (simp add: Let_def)
    also have "r\<lparr>rx_buffer := p, received := received r @ [p], pktRead := 0, pktExpected := 0\<rparr> =
      r\<lparr>rx_buffer := p, received := received r @ [p]\<rparr>" using assms(1) by (simp add: idle_def)
    finally show "\<exists>buf. receive_loop f n isFirst isLast r =
      receive_loop f (if off = unat (lastPacket f) then FRAME_DATA_SIZE else off2) False (off = unat (lastPacket f))
        (r\<lparr>rx_buffer := buf, received := received r @ [p]\<rparr>)" by blast
  }
  {
    assume d: "\<not> ?L + 2 \<le> FRAME_DATA_SIZE - off"
    then have o: "off2 = FRAME_DATA_SIZE" using assms(4,8) by simp
    show "pktExpected (receive_loop f n isFirst isLast r) = length p \<and>
      pktRead (receive_loop f n isFirst isLast r) + 2 = FRAME_DATA_SIZE - off \<and>
      take (pktRead (receive_loop f n isFirst isLast r)) (rx_buffer (receive_loop f n isFirst isLast r)) =
        take (pktRead (receive_loop f n isFirst isLast r)) p \<and>
      received (receive_loop f n isFirst isLast r) = received r \<and>
      lastCounter (receive_loop f n isFirst isLast r) = lastCounter r \<and>
      overrun (receive_loop f n isFirst isLast r) = overrun r"
    proof (cases "off + 2 < FRAME_DATA_SIZE")
      case True
      then have "min ?L (FRAME_DATA_SIZE - (off + 2)) = FRAME_DATA_SIZE - (off + 2)" using d by simp
      then have "receive_loop f n isFirst isLast r =
          r\<lparr>pktExpected := ?L, rx_buffer := take (?m - 2) p, pktRead := FRAME_DATA_SIZE - (off + 2)\<rparr>"
        unfolding start receive_data [OF r0(2,1) L True] using o d True dat
        by (simp add: Let_def receive_end numeral_2_eq_2)
      then show ?thesis using True d o by (simp add: min_absorb1 numeral_2_eq_2)
    next
      case False
      then show ?thesis unfolding start using assms(1,4) by (simp add: receive_end idle_def)
    qed
  }
qed

text \<open>A packet that ends in the frame, followed by what the rest of the frame holds.\<close>

lemma in_step_ended:
  assumes "off + 2 \<le> FRAME_DATA_SIZE" "p \<noteq> []" "length p \<le> MAX_CONTENT_SIZE" "length (content f) = FRAME_DATA_SIZE"
    and fits: "length p + 2 \<le> FRAME_DATA_SIZE - off"
    and data: "take (off + min (length p + 2) (FRAME_DATA_SIZE - off) - off) (drop off (content f)) =
      take (off + min (length p + 2) (FRAME_DATA_SIZE - off) - off) (packet_serialize p)"
    and "firstPacket f \<noteq> PKT_OFFS_NONE" "isFirst \<longrightarrow> unat (firstPacket f) = off"
    and rest: "off = unat (lastPacket f) \<and> ds = [] \<and> pktWritten t = 0 \<or>
      off < unat (lastPacket f) \<and> in_step f (off + 2 + length p) False t ds"
  shows "in_step f off isFirst t (p # ds)"
  unfolding in_step_def
proof (intro allI impI, elim conjE)
  fix r n isLast assume r: "idle r" "n = off \<or> isFirst \<and> n \<le> off"
  have at: "n + 2 \<le> FRAME_DATA_SIZE" "(if isFirst then unat (firstPacket f) else n) = off"
    using r(2) assms(1,8) by auto
  obtain buf where run: "receive_loop f n isFirst isLast r =
      receive_loop f (if off = unat (lastPacket f) then FRAME_DATA_SIZE else off + min (length p + 2) (FRAME_DATA_SIZE - off))
        False (off = unat (lastPacket f)) (r\<lparr>rx_buffer := buf, received := received r @ [p]\<rparr>)"
    using receive_packet(1) [OF r(1) at assms(1,4,3,2) refl data assms(7) fits] by blast
  let ?r = "r\<lparr>rx_buffer := buf, received := received r @ [p]\<rparr>"
  have idle: "idle ?r" using r(1) by (simp add: idle_def)
  have o: "off + min (length p + 2) (FRAME_DATA_SIZE - off) = off + 2 + length p" using fits by simp
  show "attached t (receive_loop f n isFirst isLast r) \<and>
    received (receive_loop f n isFirst isLast r) = received r @ p # ds \<and>
    lastCounter (receive_loop f n isFirst isLast r) = lastCounter r \<and>
    overrun (receive_loop f n isFirst isLast r) = overrun r"
  proof (cases "off = unat (lastPacket f)")
    case True
    then have "ds = []" "pktWritten t = 0" using rest by auto
    then show ?thesis unfolding run using True idle by (simp add: receive_end attached_def)
  next
    case False
    then have "in_step f (off + 2 + length p) False t ds" using rest by auto
    then show ?thesis unfolding run o in_step_def using False idle by simp
  qed
qed

lemma fill_receive:
  assumes "tx_ok t" "pktWritten t = 0" "length (content f) = off" "off \<le> FRAME_DATA_SIZE" "sizes_ok arrivals"
    and "fill_frame noise arrivals off t f = (t', f')" "isFirst \<longleftrightarrow> firstPacket f = PKT_OFFS_NONE"
  shows "fill_result t f t' f' \<and> (\<exists>ds. transmitted t' = transmitted t @ ds \<and>
    (firstPacket f' = firstPacket f \<and> lastPacket f' = lastPacket f \<and> ds = [] \<and> pktWritten t' = 0 \<or>
     off + 2 \<le> FRAME_DATA_SIZE \<and> firstPacket f' = (if isFirst then of_nat off else firstPacket f) \<and>
     off \<le> unat (lastPacket f') \<and> in_step f' off isFirst t' ds))"
  using assms
proof (induction "FRAME_DATA_SIZE - off" arbitrary: off t f arrivals isFirst rule: less_induct)
  case less
  consider (full) "off = FRAME_DATA_SIZE" | (short) "off < FRAME_DATA_SIZE" "FRAME_DATA_SIZE < off + 2"
    | (none) "off + 2 \<le> FRAME_DATA_SIZE" "tx_pkt (next_packet arrivals t) = []"
    | (packet) "off + 2 \<le> FRAME_DATA_SIZE" "tx_pkt (next_packet arrivals t) \<noteq> []"
    using less.prems(4) by linarith
  then show ?case
  proof cases
    case full
    then show ?thesis using less.prems fill_full [of off noise arrivals t f] by (auto simp: fill_result_def)
  next
    case short
    then show ?thesis using less.prems fill_short [OF short less.prems(2), of noise arrivals f]
      pad_result [of t t f noise] by (auto simp: pad_def)
  next
    case none
    note ok = next_packet_ok [OF less.prems(1,2,5)]
    have "tx_ok (next_packet arrivals t)" "tx_log_ok t \<longrightarrow> tx_log_ok (next_packet arrivals t)"
      using ok none(2) by (simp_all add: tx_ok_def tx_log_ok_def in_flight_def)
    then show ?thesis using less.prems fill_none [OF none(1) less.prems(2) none(2), of noise f] ok
      pad_result [of "next_packet arrivals t" t f noise] by (auto simp: pad_def)
  next
    case packet
    define t1 where "t1 = next_packet arrivals t"
    define p where "p = tx_pkt t1"
    note ok = next_packet_ok [OF less.prems(1,2,5), folded t1_def]
    have p: "p \<noteq> []" "length p \<le> MAX_CONTENT_SIZE" using packet(2) ok(1) by (simp_all add: p_def t1_def)
    obtain off2 t2 f2 where w: "write_packet off t1 (mark_packet off f) = (off2, t2, f2)" by (metis prod_cases3)
    have fill: "fill_frame noise (drop 1 arrivals) off2 t2 f2 = (t', f')"
      using fill_packet [OF packet(1) less.prems(2) packet(2) w [unfolded t1_def]] less.prems(6) by simp
    note wr = write_packet_fresh [OF ok(7) ok(3) [OF packet(2) [folded t1_def]] ok(2) [OF packet(2) [folded t1_def]] packet(1) w]
    have off2: "off2 = off + min (length p + 2) (FRAME_DATA_SIZE - off)" "off2 \<le> FRAME_DATA_SIZE" "off < off2"
      using wr(1) packet(1) by (auto simp: p_def)
    have f2: "firstPacket f2 = (if isFirst then of_nat off else firstPacket f)" "lastPacket f2 = of_nat off"
        "counter f2 = counter f" "length (content f2) = off2" "take off (content f2) = content f"
      using wr(2,3) less.prems(3,7) off2 by (auto simp: mark_packet_def p_def arg_cong [OF wr(3), of counter]
          arg_cong [OF wr(3), of firstPacket] arg_cong [OF wr(3), of lastPacket])
    have first2: "firstPacket f2 \<noteq> PKT_OFFS_NONE"
      using f2(1) less.prems(7) offset_not_none [OF less.prems(4)] by auto
    have at_off: "(if isFirst then unat (firstPacket f') else n) = off" "n + 2 \<le> FRAME_DATA_SIZE"
      if "firstPacket f' = firstPacket f2" "n = off \<or> isFirst \<and> n \<le> off" for n
      using that f2(1) packet(1) unat_offset [OF less.prems(4)] by auto
    have data: "take (off2 - off) (drop off (content f')) = take (off2 - off) (packet_serialize p)"
      if "take off2 (content f') = content f2"
      using arg_cong [OF that, of "drop off"] wr(2) less.prems(3) by (simp add: drop_take mark_packet_def p_def)
    show ?thesis
    proof (cases "length p + 2 \<le> FRAME_DATA_SIZE - off")
      case True
      have t2: "t2 = t1\<lparr>pktToWrite := 0, pktWritten := 0, transmitted := transmitted t1 @ [p]\<rparr>"
        using wr(4) True by (simp add: p_def)
      have t2_ok: "tx_ok t2" "tx_log_ok t \<longrightarrow> tx_log_ok t2" "pktWritten t2 = 0" "transmitted t2 = transmitted t @ [p]"
          "tx_counter t2 = tx_counter t"
        using ok(4-8) p(1) by (simp_all add: t2 tx_ok_def tx_log_ok_def in_flight_def p_def)
      have IH: "fill_result t2 f2 t' f' \<and> (\<exists>ds. transmitted t' = transmitted t2 @ ds \<and>
        (firstPacket f' = firstPacket f2 \<and> lastPacket f' = lastPacket f2 \<and> ds = [] \<and> pktWritten t' = 0 \<or>
         off2 + 2 \<le> FRAME_DATA_SIZE \<and> firstPacket f' = (if False then of_nat off2 else firstPacket f2) \<and>
         off2 \<le> unat (lastPacket f') \<and> in_step f' off2 False t' ds))"
        by (rule less.hyps [OF _ t2_ok(1,3) f2(4) off2(2) _ fill])
          (use off2 first2 sizes_ok_drop [OF less.prems(5)] in auto)
      then obtain ds where ds: "transmitted t' = transmitted t2 @ ds" "firstPacket f' = firstPacket f2"
        and nx: "lastPacket f' = lastPacket f2 \<and> ds = [] \<and> pktWritten t' = 0 \<or>
          off2 \<le> unat (lastPacket f') \<and> in_step f' off2 False t' ds" by auto
      have res: "fill_result t2 f2 t' f'" using IH by blast
      then have c: "take off2 (content f') = content f2" "length (content f') = FRAME_DATA_SIZE"
        using f2(4) by (simp_all add: fill_result_def)
      have "in_step f' off isFirst t' (p # ds)"
        by (rule in_step_ended [OF packet(1) p c(2) True data [OF c(1), unfolded off2(1)]])
          (use first2 f2(1,2) ds(2) nx off2 True less.prems(4) unat_offset [OF less.prems(4)] in \<open>auto\<close>)
      moreover have "take (length (content f)) (content f') = content f"
        using arg_cong [OF c(1), of "take off"] off2(3) f2(5) less.prems(3) by (simp add: min_absorb1)
      ultimately show ?thesis
        using res ds f2 t2_ok less.prems(3,7) off2(3) packet(1) nx unat_offset [OF less.prems(4)]
        by (intro conjI exI [of _ "p # ds"]) (auto simp: fill_result_def min_absorb1)
    next
      case False
      have t2: "t2 = t1\<lparr>pktWritten := FRAME_DATA_SIZE - off\<rparr>" using wr(4) False by (simp add: p_def)
      have o: "off2 = FRAME_DATA_SIZE" using False off2 packet(1) by simp
      have e: "t' = t2" "f' = f2" using fill o fill_full by simp_all
      have t2_ok: "tx_ok t2" "tx_log_ok t \<longrightarrow> tx_log_ok t2"
        using ok p packet False by (auto simp: t2 tx_ok_def tx_log_ok_def in_flight_def p_def t1_def)
      have "in_step f' off isFirst t' []"
        unfolding in_step_def
      proof (intro allI impI, elim conjE)
        fix r n isLast assume r: "idle r" "n = off \<or> isFirst \<and> n \<le> off"
        show "attached t' (receive_loop f' n isFirst isLast r) \<and>
          received (receive_loop f' n isFirst isLast r) = received r @ [] \<and>
          lastCounter (receive_loop f' n isFirst isLast r) = lastCounter r \<and>
          overrun (receive_loop f' n isFirst isLast r) = overrun r"
          using receive_packet(2) [OF r(1) at_off(2) [OF _ r(2)] at_off(1) [OF _ r(2)] packet(1) _ p(2,1) off2(1)
              data _ False, of isLast] first2 f2(4) o packet(1)
          by (simp add: e t2 attached_def p_def)
      qed
      then show ?thesis
        using f2 t2_ok less.prems(3,7) o packet(1) ok(5,6) unat_offset [OF less.prems(4)]
        by (intro conjI exI [of _ "[]"]) (auto simp: fill_result_def e t2)
    qed
  qed
qed

section \<open>A frame\<close>

text \<open>Bytes of the packet in progress that are still to be sent.\<close>

definition unsent :: "Transmitter \<Rightarrow> nat" where
  "unsent t = (if pktWritten t = 0 then 0 else length (tx_pkt t) + 2 - pktWritten t)"

lemma fill_rest: "off < FRAME_DATA_SIZE \<Longrightarrow> pktWritten t \<noteq> 0 \<Longrightarrow> tx_pkt t \<noteq> [] \<Longrightarrow>
    write_packet off t f = (off2, t2, f2) \<Longrightarrow>
    fill_frame noise arrivals off t f = fill_frame noise arrivals off2 t2 f2"
  by (subst fill_frame.simps) auto

text \<open>A frame that is filled by the packet in progress alone.\<close>

lemma tx_frame_long:
  assumes "tx_ok t" "unsent t > FRAME_DATA_SIZE"
  shows "tx_frame noise arrivals t =
    (t\<lparr>tx_counter := tx_counter t + 1, pktWritten := pktWritten t + FRAME_DATA_SIZE\<rparr>,
     \<lparr>counter = tx_counter t, firstPacket = PKT_OFFS_NONE, lastPacket = PKT_OFFS_NONE,
      content = take FRAME_DATA_SIZE (drop (pktWritten t - 2) (tx_pkt t))\<rparr>)"
proof -
  let ?t = "t\<lparr>tx_counter := tx_counter t + 1\<rparr>"
  let ?f = "\<lparr>counter = tx_counter t, firstPacket = PKT_OFFS_NONE, lastPacket = PKT_OFFS_NONE, content = []\<rparr>"
  have t: "tx_ok ?t" "pktWritten ?t \<noteq> 0" "tx_pkt ?t \<noteq> []" "FRAME_DATA_SIZE < length (tx_pkt t) + 2 - pktWritten t"
    using assms by (auto simp: tx_ok_def unsent_def split: if_splits)
  obtain off2 t2 f2 where w: "write_packet 0 ?t ?f = (off2, t2, f2)" by (metis prod_cases3)
  note wr = write_packet_rest [OF t(1,2) w]
  have "off2 = FRAME_DATA_SIZE" "t2 = ?t\<lparr>pktWritten := pktWritten t + FRAME_DATA_SIZE\<rparr>"
    using wr(1,4) t(4) by simp_all
  moreover from this have "f2 = ?f\<lparr>content := take FRAME_DATA_SIZE (drop (pktWritten t - 2) (tx_pkt t))\<rparr>"
    using wr(2,3) by simp
  moreover have "FRAME_DATA_SIZE > 0" by (simp add: frame_sizes)
  ultimately show ?thesis using fill_rest [OF _ t(2,3) w, of noise arrivals] by (simp add: tx_frame_def fill_full)
qed

text \<open>Any other frame: the end of the packet in progress, and then what \<open>fill_receive\<close> says of the rest.\<close>

lemma tx_frame_short:
  assumes "tx_ok t" "unsent t \<le> FRAME_DATA_SIZE" "sizes_ok arrivals" "tx_frame noise arrivals t = (t', f)"
  shows "tx_ok t'" "length (content f) = FRAME_DATA_SIZE" "counter f = tx_counter t" "tx_counter t' = tx_counter t + 1"
    and "tx_log_ok t \<Longrightarrow> tx_log_ok t'"
    and "pktWritten t \<noteq> 0 \<Longrightarrow> take (unsent t) (content f) = drop (pktWritten t - 2) (tx_pkt t)"
    and "\<exists>ds. transmitted t' = transmitted t @ in_flight t @ ds \<and>
      (firstPacket f = PKT_OFFS_NONE \<and> ds = [] \<and> pktWritten t' = 0 \<or>
       firstPacket f \<noteq> PKT_OFFS_NONE \<and> unat (firstPacket f) = unsent t \<and> unsent t + 2 \<le> FRAME_DATA_SIZE \<and>
       in_step f (unsent t) True t' ds)"
proof -
  let ?t = "t\<lparr>tx_counter := tx_counter t + 1\<rparr>"
  let ?f = "\<lparr>counter = tx_counter t, firstPacket = PKT_OFFS_NONE, lastPacket = PKT_OFFS_NONE, content = []\<rparr>"
  have "\<exists>t2 f2. fill_frame noise arrivals 0 ?t ?f = fill_frame noise arrivals (unsent t) t2 f2 \<and> tx_ok t2 \<and>
    pktWritten t2 = 0 \<and> transmitted t2 = transmitted t @ in_flight t \<and> (tx_log_ok t \<longrightarrow> tx_log_ok t2) \<and>
    tx_counter t2 = tx_counter t + 1 \<and> length (content f2) = unsent t \<and> firstPacket f2 = PKT_OFFS_NONE \<and>
    counter f2 = tx_counter t \<and> (pktWritten t \<noteq> 0 \<longrightarrow> content f2 = drop (pktWritten t - 2) (tx_pkt t))"
  proof (cases "pktWritten t = 0")
    case True
    then show ?thesis using assms(1) by (intro exI [of _ ?t] exI [of _ ?f])
      (simp add: unsent_def in_flight_def tx_ok_def tx_log_ok_def)
  next
    case False
    have t: "tx_ok ?t" "pktWritten ?t \<noteq> 0" "tx_pkt ?t \<noteq> []" "2 \<le> pktWritten t" "pktWritten t < length (tx_pkt t) + 2"
      using assms(1) False by (auto simp: tx_ok_def)
    obtain off2 t2 f2 where w: "write_packet 0 ?t ?f = (off2, t2, f2)" by (metis prod_cases3)
    note wr = write_packet_rest [OF t(1,2) w]
    have o: "off2 = unsent t" using wr(1) assms(2) False by (simp add: unsent_def)
    have t2: "t2 = ?t\<lparr>pktToWrite := 0, pktWritten := 0, transmitted := transmitted t @ [tx_pkt t]\<rparr>"
      using wr(4) assms(2) False by (simp add: unsent_def)
    have "content f2 = drop (pktWritten t - 2) (tx_pkt t)"
      using wr(2) o False t(4,5) by (simp add: unsent_def)
    then have f2: "f2 = ?f\<lparr>content := drop (pktWritten t - 2) (tx_pkt t)\<rparr>" using wr(3) by simp
    have "fill_frame noise arrivals 0 ?t ?f = fill_frame noise arrivals off2 t2 f2"
      by (rule fill_rest [OF _ t(2,3) w]) (simp add: frame_sizes)
    then show ?thesis using o t2 f2 assms(1) False t(4,5)
      by (intro exI [of _ t2] exI [of _ f2]) (simp add: tx_ok_def tx_log_ok_def in_flight_def unsent_def)
  qed
  then obtain t2 f2 where fill: "fill_frame noise arrivals (unsent t) t2 f2 = (t', f)" and t2: "tx_ok t2" "pktWritten t2 = 0"
      "transmitted t2 = transmitted t @ in_flight t" "tx_log_ok t \<longrightarrow> tx_log_ok t2" "tx_counter t2 = tx_counter t + 1"
    and f2: "length (content f2) = unsent t" "firstPacket f2 = PKT_OFFS_NONE" "counter f2 = tx_counter t"
      "pktWritten t \<noteq> 0 \<longrightarrow> content f2 = drop (pktWritten t - 2) (tx_pkt t)"
    using assms(4) by (auto simp: tx_frame_def)
  note res = fill_receive [OF t2(1,2) f2(1) assms(2,3) fill, of True]
  have fr: "fill_result t2 f2 t' f" using res f2(2) by blast
  show "tx_ok t'" "length (content f) = FRAME_DATA_SIZE" "counter f = tx_counter t" "tx_counter t' = tx_counter t + 1"
    "tx_log_ok t \<Longrightarrow> tx_log_ok t'" "pktWritten t \<noteq> 0 \<Longrightarrow> take (unsent t) (content f) = drop (pktWritten t - 2) (tx_pkt t)"
    using fr t2(4,5) f2 by (auto simp: fill_result_def)
  show "\<exists>ds. transmitted t' = transmitted t @ in_flight t @ ds \<and>
      (firstPacket f = PKT_OFFS_NONE \<and> ds = [] \<and> pktWritten t' = 0 \<or>
       firstPacket f \<noteq> PKT_OFFS_NONE \<and> unat (firstPacket f) = unsent t \<and> unsent t + 2 \<le> FRAME_DATA_SIZE \<and>
       in_step f (unsent t) True t' ds)"
    using res f2(2) t2(3) unat_offset [OF assms(2)] offset_not_none [OF assms(2)] by auto
qed

text \<open>The receiver's round on a frame that follows the last one, and on one that does not.\<close>

lemma rx_frame_next:
  assumes "\<not> overrun r" "counter f = lastCounter r + 1"
  shows "rx_frame f r = (let r2 = r\<lparr>valid := valid r + 1, lastCounter := counter f\<rparr>
    in if pktExpected r = 0 \<and> firstPacket f = PKT_OFFS_NONE then r2 else receive_loop f 0 True False r2)"
  using assms by (simp add: rx_frame_def Let_def)

lemma rx_frame_lost:
  assumes "\<not> overrun r" "counter f \<noteq> lastCounter r + 1"
    and "firstPacket f \<noteq> PKT_OFFS_NONE \<longrightarrow> unat (firstPacket f) + 2 \<le> FRAME_DATA_SIZE"
  shows "rx_frame f r = (let r2 = r\<lparr>lastCounter := counter f, pktExpected := 0, pktRead := 0, valid := 1\<rparr>
    in if firstPacket f = PKT_OFFS_NONE then r2 else receive_loop f (unat (firstPacket f)) True False r2)"
  using assms by (auto simp: rx_frame_def Let_def)

text \<open>The data of a packet in progress that was read in step.\<close>

lemma receive_tail:
  assumes "tx_ok t" "attached t r" "pktWritten t \<noteq> 0" "length (content f) = FRAME_DATA_SIZE"
    and "n = min (unsent t) FRAME_DATA_SIZE" "take n (content f) = take n (drop (pktWritten t - 2) (tx_pkt t))"
  shows "unsent t > FRAME_DATA_SIZE \<Longrightarrow> receive_loop f 0 isFirst isLast r =
      r\<lparr>rx_buffer := take (pktRead r) (tx_pkt t) @ take n (content f), pktRead := pktRead r + FRAME_DATA_SIZE\<rparr>"
    and "unsent t \<le> FRAME_DATA_SIZE \<Longrightarrow> receive_loop f 0 isFirst isLast r =
      receive_loop f (if isLast \<or> firstPacket f = PKT_OFFS_NONE then FRAME_DATA_SIZE else unsent t) isFirst isLast
        (r\<lparr>rx_buffer := tx_pkt t, received := received r @ [tx_pkt t], pktRead := 0, pktExpected := 0\<rparr>)"
proof -
  let ?p = "tx_pkt t" and ?k = "pktRead r"
  have k: "pktExpected r = length ?p" "?k + 2 = pktWritten t" "take ?k (rx_buffer r) = take ?k ?p"
    using assms(2,3) by (simp_all add: attached_def)
  have lt: "?k < length ?p" "unsent t = length ?p - ?k" "pktWritten t - 2 = ?k"
    using assms(1,3) k(2) by (auto simp: tx_ok_def unsent_def)
  have z: "0 < FRAME_DATA_SIZE" by (simp add: frame_sizes)
  note step = receive_data [OF k(1) refl lt(1) z, of f isFirst isLast, unfolded Let_def]
  have whole: "take ?k ?p @ drop ?k ?p = ?p" by simp
  show "receive_loop f 0 isFirst isLast r =
      r\<lparr>rx_buffer := take ?k ?p @ take n (content f), pktRead := ?k + FRAME_DATA_SIZE\<rparr>" if "unsent t > FRAME_DATA_SIZE"
    using that step assms(5) lt(2) by (simp add: k(3) receive_end)
  show "receive_loop f 0 isFirst isLast r =
      receive_loop f (if isLast \<or> firstPacket f = PKT_OFFS_NONE then FRAME_DATA_SIZE else unsent t) isFirst isLast
        (r\<lparr>rx_buffer := ?p, received := received r @ [?p], pktRead := 0, pktExpected := 0\<rparr>)" if "unsent t \<le> FRAME_DATA_SIZE"
  proof -
    have n: "n = unsent t" "min (length ?p - ?k) (FRAME_DATA_SIZE - 0) = unsent t" using that assms(5) lt(2) by simp_all
    then have "take (unsent t) (content f) = drop ?k ?p" using assms(6) lt(2,3) by simp
    then show ?thesis using step n lt(1,2) by (simp add: k(3) whole)
  qed
qed

text \<open>A frame the receiver reads in step: it hands over what the transmitter completed, and stays in step.\<close>

lemma frame_in_step:
  assumes "tx_ok t" "sizes_ok arrivals" "tx_frame noise arrivals t = (t', f)"
    and "attached t r" "\<not> overrun r" "tx_counter t = lastCounter r + 1"
  shows "attached t' (rx_frame f r) \<and> \<not> overrun (rx_frame f r) \<and> lastCounter (rx_frame f r) = tx_counter t \<and>
    (\<exists>ds. transmitted t' = transmitted t @ ds \<and> received (rx_frame f r) = received r @ ds)"
proof (cases "unsent t > FRAME_DATA_SIZE")
  case True
  then have w: "pktWritten t \<noteq> 0" by (auto simp: unsent_def split: if_splits)
  have e: "t' = t\<lparr>tx_counter := tx_counter t + 1, pktWritten := pktWritten t + FRAME_DATA_SIZE\<rparr>"
    "f = \<lparr>counter = tx_counter t, firstPacket = PKT_OFFS_NONE, lastPacket = PKT_OFFS_NONE,
      content = take FRAME_DATA_SIZE (drop (pktWritten t - 2) (tx_pkt t))\<rparr>"
    using tx_frame_long [OF assms(1) True, of noise arrivals] assms(3) by simp_all
  let ?r = "r\<lparr>valid := valid r + 1, lastCounter := tx_counter t\<rparr>"
  have len: "length (tx_pkt t) \<ge> pktWritten t - 2 + FRAME_DATA_SIZE"
    using True w by (simp add: unsent_def)
  have a: "attached t ?r" "pktExpected r \<noteq> 0" "pktRead r = pktWritten t - 2" "2 \<le> pktWritten t"
    using assms(1,4) w by (auto simp: attached_def tx_ok_def)
  have "rx_frame f r = receive_loop f 0 True False ?r"
    using rx_frame_next [of r f] assms(5,6) a(2) by (simp add: e(2))
  also have "\<dots> = ?r\<lparr>rx_buffer := take (pktRead r + FRAME_DATA_SIZE) (tx_pkt t), pktRead := pktRead r + FRAME_DATA_SIZE\<rparr>"
    using receive_tail(1) [OF assms(1) a(1) w _ refl _ True, of f] True len by (simp add: e(2) a(3) take_add)
  moreover have "Suc (Suc (pktWritten t + FRAME_DATA_SIZE - 2)) = pktWritten t + FRAME_DATA_SIZE" using a(4) by simp
  ultimately show ?thesis using assms(4,5) w a(3,4) len by (simp add: e(1) attached_def)
next
  case False
  then have short: "unsent t \<le> FRAME_DATA_SIZE" by simp
  note sh = tx_frame_short [OF assms(1) short assms(2,3)]
  obtain ds where ds: "transmitted t' = transmitted t @ in_flight t @ ds"
    and rest: "firstPacket f = PKT_OFFS_NONE \<and> ds = [] \<and> pktWritten t' = 0 \<or>
       firstPacket f \<noteq> PKT_OFFS_NONE \<and> unat (firstPacket f) = unsent t \<and> unsent t + 2 \<le> FRAME_DATA_SIZE \<and>
       in_step f (unsent t) True t' ds" using sh(7) by blast
  let ?r = "r\<lparr>valid := valid r + 1, lastCounter := tx_counter t\<rparr>"
  have nxt: "rx_frame f r = (if pktExpected r = 0 \<and> firstPacket f = PKT_OFFS_NONE then ?r else receive_loop f 0 True False ?r)"
    using rx_frame_next [of r f] assms(5,6) sh(3) by simp
  show ?thesis
  proof (cases "pktWritten t = 0")
    case True
    then have "idle ?r" "unsent t = 0" "in_flight t = []" using assms(4) by (simp_all add: attached_def idle_def unsent_def in_flight_def)
    then show ?thesis using rest assms(5) nxt ds unfolding in_step_def by (auto simp: attached_def idle_def)
  next
    case w: False
    have a: "attached t ?r" "pktExpected r \<noteq> 0" using assms(1,4) w by (auto simp: attached_def tx_ok_def)
    let ?r1 = "?r\<lparr>rx_buffer := tx_pkt t, received := received r @ [tx_pkt t], pktRead := 0, pktExpected := 0\<rparr>"
    have run: "rx_frame f r = receive_loop f (if firstPacket f = PKT_OFFS_NONE then FRAME_DATA_SIZE else unsent t) True False ?r1"
      using receive_tail(2) [OF assms(1) a(1) w sh(2) refl _ short, of True False] sh(6) [OF w] short nxt a(2)
      by (simp add: min_absorb1 unsent_def w)
    have "idle ?r1" "in_flight t = [tx_pkt t]" using w by (simp_all add: idle_def in_flight_def)
    then show ?thesis using rest assms(5) ds unfolding run in_step_def by (auto simp: attached_def receive_end)
  qed
qed

text \<open>A frame the receiver reads without a partial packet, after a loss or after having cancelled one.\<close>

definition linked :: "Transmitter \<Rightarrow> Receiver \<Rightarrow> bool" where
  "linked t r \<longleftrightarrow> idle r \<or> attached t r"

lemma frame_resync:
  assumes "tx_ok t" "sizes_ok arrivals" "tx_frame noise arrivals t = (t', f)"
    and "idle r \<or> tx_counter t \<noteq> lastCounter r + 1" "\<not> overrun r"
  shows "linked t' (rx_frame f r) \<and> \<not> overrun (rx_frame f r) \<and> lastCounter (rx_frame f r) = tx_counter t \<and>
    (pktWritten t = 0 \<or> firstPacket f \<noteq> PKT_OFFS_NONE \<longrightarrow> attached t' (rx_frame f r)) \<and>
    (\<exists>ds es. transmitted t' = transmitted t @ ds \<and> received (rx_frame f r) = received r @ es \<and> subseq es ds \<and>
      (pktWritten t = 0 \<longrightarrow> es = ds))"
proof (cases "unsent t > FRAME_DATA_SIZE")
  case True
  then show ?thesis using tx_frame_long [OF assms(1) True, of noise arrivals] assms(3,4,5) rx_frame_next [of r f]
      rx_frame_lost [of r f] by (cases "tx_counter t = lastCounter r + 1") (auto simp: linked_def idle_def unsent_def)
next
  case False
  then have short: "unsent t \<le> FRAME_DATA_SIZE" by simp
  note sh = tx_frame_short [OF assms(1) short assms(2,3)]
  obtain ds where ds: "transmitted t' = transmitted t @ in_flight t @ ds"
    and rest: "firstPacket f = PKT_OFFS_NONE \<and> ds = [] \<and> pktWritten t' = 0 \<or>
       firstPacket f \<noteq> PKT_OFFS_NONE \<and> unat (firstPacket f) = unsent t \<and> unsent t + 2 \<le> FRAME_DATA_SIZE \<and>
       in_step f (unsent t) True t' ds" using sh(7) by blast
  have "\<exists>r2 n. idle r2 \<and> received r2 = received r \<and> lastCounter r2 = tx_counter t \<and> \<not> overrun r2 \<and>
     (n = unsent t \<or> n \<le> unsent t) \<and>
     rx_frame f r = (if firstPacket f = PKT_OFFS_NONE then r2 else receive_loop f n True False r2)"
  proof (cases "tx_counter t = lastCounter r + 1")
    case True
    then show ?thesis using assms(4,5) rx_frame_next [of r f] sh(3)
      by (intro exI [of _ "r\<lparr>valid := valid r + 1, lastCounter := counter f\<rparr>"] exI [of _ 0]) (auto simp: idle_def)
  next
    case False
    then show ?thesis using assms(5) rx_frame_lost [of r f] sh(3) rest
      by (intro exI [of _ "r\<lparr>lastCounter := counter f, pktExpected := 0, pktRead := 0, valid := 1\<rparr>"] exI [of _ "unsent t"])
        (auto simp: idle_def)
  qed
  then obtain r2 n where r2: "idle r2" "received r2 = received r" "lastCounter r2 = tx_counter t" "\<not> overrun r2"
    and n: "n = unsent t \<or> True \<and> n \<le> unsent t"
    and run: "rx_frame f r = (if firstPacket f = PKT_OFFS_NONE then r2 else receive_loop f n True False r2)" by auto
  have "linked t' (rx_frame f r) \<and> \<not> overrun (rx_frame f r) \<and> lastCounter (rx_frame f r) = tx_counter t \<and>
      (pktWritten t = 0 \<or> firstPacket f \<noteq> PKT_OFFS_NONE \<longrightarrow> attached t' (rx_frame f r)) \<and>
      received (rx_frame f r) = received r @ ds"
    using rest r2 n unfolding run in_step_def by (auto simp: linked_def attached_def)
  moreover have "subseq ds (in_flight t @ ds)" by (rule list_emb_append2) simp
  ultimately show ?thesis
    using ds by (intro conjI; (rule exI [of _ "in_flight t @ ds"], rule exI [of _ ds])?) (simp_all add: in_flight_def)
qed

section \<open>The link\<close>

text \<open>
  The runs of a link: packets are sent, and the worker's frames reach the receiver as bytes or are lost
  (not when \<open>lossy\<close> is false). \<open>missed\<close> counts the frames lost since the last one received; the 16-bit
  counter can tell fewer than 65536.
\<close>

inductive link_run :: "bool \<Rightarrow> Transmitter \<Rightarrow> Receiver \<Rightarrow> nat \<Rightarrow> bool" for lossy :: bool where
  start: "link_run lossy tx_initial rx_initial 0"
| sent: "link_run lossy t r m \<Longrightarrow> packet_of bytes = Some p \<Longrightarrow> link_run lossy (fst (send p t)) r m"
| delivered: "link_run lossy t r m \<Longrightarrow> sizes_ok arrivals \<Longrightarrow> tx_frame noise arrivals t = (t', f) \<Longrightarrow>
    link_run lossy t' (rx_frame (frame_deserialize (frame_serialize f)) r) 0"
| dropped: "link_run lossy t r m \<Longrightarrow> lossy \<Longrightarrow> sizes_ok arrivals \<Longrightarrow> tx_frame noise arrivals t = (t', f) \<Longrightarrow>
    m + 1 < 65536 \<Longrightarrow> link_run lossy t' r (m + 1)"

lemma tx_frame_ok:
  assumes "tx_ok t" "sizes_ok arrivals" "tx_frame noise arrivals t = (t', f)"
  shows "tx_ok t'" "length (content f) = FRAME_DATA_SIZE" "tx_counter t' = tx_counter t + 1"
    and "tx_log_ok t \<Longrightarrow> tx_log_ok t'" "prefix (transmitted t) (transmitted t')"
proof -
  have long: "tx_ok t'" "length (content f) = FRAME_DATA_SIZE" "tx_counter t' = tx_counter t + 1"
    "tx_log_ok t \<Longrightarrow> tx_log_ok t'" "prefix (transmitted t) (transmitted t')" if "unsent t > FRAME_DATA_SIZE"
    using tx_frame_long [OF assms(1) that, of noise arrivals] assms(1,3) that
    by (auto simp: tx_ok_def tx_log_ok_def in_flight_def unsent_def split: if_splits)
  have short: "tx_ok t'" "length (content f) = FRAME_DATA_SIZE" "tx_counter t' = tx_counter t + 1"
    "tx_log_ok t \<Longrightarrow> tx_log_ok t'" "prefix (transmitted t) (transmitted t')" if "\<not> unsent t > FRAME_DATA_SIZE"
    using tx_frame_short [OF assms(1) _ assms(2,3)] that by (auto simp: prefix_def)
  show "tx_ok t'" "length (content f) = FRAME_DATA_SIZE" "tx_counter t' = tx_counter t + 1"
    "tx_log_ok t \<Longrightarrow> tx_log_ok t'" "prefix (transmitted t) (transmitted t')"
    using long short by blast+
qed

lemma packet_of_size: "packet_of bytes = Some p \<Longrightarrow> length p \<le> MAX_CONTENT_SIZE"
  by (auto simp: packet_of_def split: if_splits)

lemma send_keeps [simp]: "pktWritten (fst (send p t)) = pktWritten t" "tx_pkt (fst (send p t)) = tx_pkt t"
  "tx_counter (fst (send p t)) = tx_counter t" "transmitted (fst (send p t)) = transmitted t"
  by (simp_all add: send_def)

lemma send_attached [simp]: "attached (fst (send p t)) r = attached t r"
  by (simp add: attached_def)

text \<open>What holds in every run; a receiver with a partial packet is in step, or it will notice the loss.\<close>

lemma link_invariant:
  assumes "link_run lossy t r m"
  shows "tx_ok t \<and> tx_log_ok t \<and> \<not> overrun r \<and> m < 65536 \<and> subseq (received r) (transmitted t) \<and>
    (idle r \<or> tx_counter t = lastCounter r + 1 + of_nat m \<and> (m = 0 \<longrightarrow> attached t r)) \<and>
    (lossy \<or> attached t r \<and> received r = transmitted t \<and> (pktWritten t = 0 \<or> tx_counter t = lastCounter r + 1))"
  using assms
proof (induction rule: link_run.induct)
  case start
  then show ?case
    by (simp add: tx_initial_def rx_initial_def tx_ok_def tx_log_ok_def in_flight_def idle_def attached_def)
next
  case (sent t r m bytes p)
  then show ?case using send_ok [of t p] packet_of_size by auto
next
  case (delivered t r m arrivals noise t' f)
  have IH: "tx_ok t" "tx_log_ok t" "\<not> overrun r" "m < 65536" "subseq (received r) (transmitted t)"
    "idle r \<or> tx_counter t = lastCounter r + 1 + of_nat m \<and> (m = 0 \<longrightarrow> attached t r)"
    "lossy \<or> attached t r \<and> received r = transmitted t \<and> (pktWritten t = 0 \<or> tx_counter t = lastCounter r + 1)"
    using delivered.IH by blast+
  note ok = tx_frame_ok [OF IH(1) delivered.hyps(2,3)]
  have same: "frame_deserialize (frame_serialize f) = f" by (rule frame_roundtrip(1) [OF ok(2)])
  show ?case
  proof (cases "attached t r \<and> tx_counter t = lastCounter r + 1")
    case True
    then show ?thesis using frame_in_step [OF IH(1) delivered.hyps(2,3) _ IH(3)] IH(2,5,7) ok same
      by (auto intro: list_emb_append_mono)
  next
    case False
    have "idle r \<or> tx_counter t \<noteq> lastCounter r + 1"
      using False IH(4,6) by (cases "m = 0") (auto simp: word_of_nat_eq_0_iff dest: nat_dvd_not_less)
    then show ?thesis using frame_resync [OF IH(1) delivered.hyps(2,3) _ IH(3)] IH(2,5,7) ok same False
      by (auto simp: linked_def attached_def intro: list_emb_append_mono)
  qed
next
  case (dropped t r m arrivals noise t' f)
  then show ?case using tx_frame_ok [of t arrivals noise t' f]
    by (auto simp: prefix_def intro: list_emb_append2 subseq_order.trans)
qed

section \<open>Properties\<close>

text \<open>
  C27: delivery. Whatever frames are lost, and whatever packets are sent while frames are built, the packets the
  receiver hands over are packets the transmitter was given, whole, each at most once and in their order;
  what was transmitted is a prefix of the non-empty packets accepted by \<open>send\<close>, and no frame of the
  transmitter makes the receiver read outside the frame.
\<close>

theorem ryfi_delivery:
  assumes "link_run lossy t r m"
  shows "subseq (received r) (transmitted t) \<and> prefix (transmitted t) (filter (\<lambda>p. p \<noteq> []) (accepted t)) \<and> \<not> overrun r"
  using link_invariant [OF assms] by (simp add: tx_log_ok_def)

lemma link_one_packet:
  assumes "sizes_ok arrivals" "tx_frame noise arrivals (fst (send p tx_initial)) = (t', f)" "packet_of bytes = Some p"
  shows "link_run lossy t' (rx_frame (frame_deserialize (frame_serialize f)) rx_initial) 0"
  by (rule link_run.delivered [OF link_run.sent [OF link_run.start assms(3)] assms(1,2)])

definition tx_one :: Transmitter where
  "tx_one = tx_initial\<lparr>tx_counter := 1, accepted := [[7]], transmitted := [[7]], tx_buffer := [0, 1, 7]\<rparr>"

lemma tx_frame_one: "\<exists>f. tx_frame (\<lambda>_. 0) [] (fst (send [7] tx_initial)) = (tx_one, f) \<and> firstPacket f = 0"
proof -
  let ?t = "tx_initial\<lparr>packets := [[7]], accepted := [[7]], tx_counter := 1\<rparr>"
  let ?f = "\<lparr>counter = 0, firstPacket = PKT_OFFS_NONE, lastPacket = PKT_OFFS_NONE, content = []\<rparr>"
  have e: "tx_frame (\<lambda>_. 0) [] (fst (send [7] tx_initial)) = fill_frame (\<lambda>_. 0) [] 0 ?t ?f"
    by (simp add: tx_frame_def send_def tx_initial_def MAX_QUEUE_SIZE_def)
  let ?t1 = "tx_initial\<lparr>accepted := [[7]], tx_counter := 1, tx_pkt := [7], pktToWrite := 3, tx_buffer := [0, 1, 7]\<rparr>"
  have n: "next_packet [] ?t = ?t1"
    by (simp add: next_packet_def send_all_def load_packet_eq packet_serialize_def tx_initial_def)
  obtain off2 t2 f2 where w: "write_packet 0 ?t1 (mark_packet 0 ?f) = (off2, t2, f2)" by (metis prod_cases3)
  have t2: "off2 = 3" "t2 = ?t1\<lparr>pktToWrite := 0, transmitted := [[7]]\<rparr>" "firstPacket f2 = 0"
    using w by (auto simp: write_packet_def mark_packet_def tx_initial_def frame_sizes)
  have "tx_pkt (next_packet [] t2) = []" "next_packet [] t2 = t2\<lparr>tx_pkt := []\<rparr>"
    by (simp_all add: next_packet_def send_all_def load_packet_eq t2(2) tx_initial_def)
  then have "fill_frame (\<lambda>_. 0) [] off2 t2 f2 = (t2\<lparr>tx_pkt := []\<rparr>, pad (\<lambda>_. 0) off2 f2)"
    using fill_none [of off2 t2 "[]"] t2 by (simp add: frame_sizes tx_initial_def)
  then have "fill_frame (\<lambda>_. 0) [] 0 ?t ?f = (t2\<lparr>tx_pkt := []\<rparr>, pad (\<lambda>_. 0) off2 f2)"
    using fill_packet [of 0 ?t "[]" ?f off2 t2 f2] n w by (simp add: frame_sizes tx_initial_def)
  then show ?thesis using t2 unfolding e by (simp add: tx_initial_def tx_one_def pad_def)
qed

lemma link_one: "\<exists>r. link_run True tx_one r 0 \<and> link_run False tx_one r 0"
proof -
  have "packet_of [7] = Some [7]" "sizes_ok []" by (simp_all add: packet_of_def MAX_CONTENT_SIZE_def sizes_ok_def)
  then show ?thesis using tx_frame_one link_one_packet by blast
qed

theorem ryfi_delivery_witness:
  "\<exists>r. link_run True tx_one r 0 \<and> received r = [[7]] \<and> subseq (received r) (transmitted tx_one) \<and> \<not> overrun r"
proof -
  obtain r where r: "link_run True tx_one r 0" "link_run False tx_one r 0" using link_one by blast
  have "received r = [[7]]" using link_invariant [OF r(2)] by (simp add: tx_one_def)
  then show ?thesis using ryfi_delivery [OF r(1)] r(1) by blast
qed

text \<open>
  a link without losses is a pipe. Every packet is delivered as soon as its last byte is sent, and the
  packets delivered, the one in progress and those in the queue are, in this order, all the non-empty
  packets that \<open>send\<close> accepted.
\<close>

theorem ryfi_lossless:
  assumes "link_run False t r m"
  shows "received r = transmitted t \<and>
    filter (\<lambda>p. p \<noteq> []) (accepted t) = received r @ in_flight t @ filter (\<lambda>p. p \<noteq> []) (packets t)"
  using link_invariant [OF assms] by (simp add: tx_log_ok_def)

theorem ryfi_lossless_witness: "\<exists>(t :: Transmitter) (r :: Receiver). received r = [[7]] \<and> received r = transmitted t"
proof -
  obtain r where "link_run False tx_one r 0" using link_one by blast
  from ryfi_lossless [OF this] show ?thesis
    by - (rule exI [of _ tx_one], rule exI [of _ r], simp add: tx_one_def)
qed

text \<open>
  C28: recovery. In every run, however lossy, the receiver is in step with the transmitter again after it
  reads any frame in which a packet starts: whatever is then sent arrives until the next loss.
\<close>

theorem ryfi_recovery:
  assumes "link_run lossy t r m" "sizes_ok arrivals" "tx_frame noise arrivals t = (t', f)" "firstPacket f \<noteq> PKT_OFFS_NONE"
  shows "attached t' (rx_frame (frame_deserialize (frame_serialize f)) r) \<and>
    lastCounter (rx_frame (frame_deserialize (frame_serialize f)) r) + 1 = tx_counter t'"
proof -
  have I: "tx_ok t" "\<not> overrun r" "m < 65536"
    "idle r \<or> tx_counter t = lastCounter r + 1 + of_nat m \<and> (m = 0 \<longrightarrow> attached t r)"
    using link_invariant [OF assms(1)] by blast+
  note ok = tx_frame_ok [OF I(1) assms(2,3)]
  have same: "frame_deserialize (frame_serialize f) = f" by (rule frame_roundtrip(1) [OF ok(2)])
  consider "attached t r" "tx_counter t = lastCounter r + 1" | "idle r \<or> tx_counter t \<noteq> lastCounter r + 1"
    using I(3,4) by (cases "m = 0") (auto simp: word_of_nat_eq_0_iff dest: nat_dvd_not_less)
  then show ?thesis
    using frame_in_step [OF I(1) assms(2,3) _ I(2)] frame_resync [OF I(1) assms(2,3) _ I(2)] assms(4) ok(3) same
    by cases (auto simp: add.commute)
qed

theorem ryfi_recovery_witness: "\<exists>f. attached tx_one (rx_frame (frame_deserialize (frame_serialize f)) rx_initial)"
proof -
  obtain f where f: "tx_frame (\<lambda>_. 0) [] (fst (send [7] tx_initial)) = (tx_one, f)" "firstPacket f = 0"
    using tx_frame_one by blast
  have "packet_of [7] = Some [7]" "sizes_ok []" by (simp_all add: packet_of_def MAX_CONTENT_SIZE_def sizes_ok_def)
  from ryfi_recovery [OF link_run.sent [OF link_run.start this(1), of True] this(2) f(1)] f(2) show ?thesis
    by (intro exI [of _ f]) (simp add: PKT_OFFS_NONE_def)
qed

text \<open>
  An offset of the first packet outside the frame is refused only after a loss: in a frame with the
  expected counter it makes the receiver read outside the frame.
\<close>

lemma implausible_offset_overruns:
  assumes "\<not> overrun r" "idle r" "counter f = lastCounter r + 1"
    and "firstPacket f \<noteq> PKT_OFFS_NONE" "FRAME_DATA_SIZE \<le> unat (firstPacket f) + 1"
  shows "overrun (rx_frame f r)"
  using assms rx_frame_next [OF assms(1,3)] by (simp add: idle_def receive_loop.simps frame_sizes)

lemma implausible_offset_after_loss:
  assumes "\<not> overrun r" "counter f \<noteq> lastCounter r + 1"
    and "firstPacket f \<noteq> PKT_OFFS_NONE" "FRAME_DATA_SIZE < unat (firstPacket f) + 2"
  shows "\<not> overrun (rx_frame f r) \<and> idle (rx_frame f r) \<and> received (rx_frame f r) = received r"
  using assms by (simp add: rx_frame_def idle_def frame_sizes)

text \<open>An empty packet is accepted and never transmitted.\<close>

lemma empty_packet_dropped:
  assumes "pktWritten t = 0" "packets t = [] # ps" "2 \<le> FRAME_DATA_SIZE - off"
  shows "fill_frame noise [] off t f = (t\<lparr>packets := ps, tx_pkt := []\<rparr>, pad noise off f)"
  using assms by (intro trans [OF fill_none]) (simp_all add: next_packet_def send_all_def load_packet_eq)

end
