(* ===== verification/RyfiAirProps.thy ===== *)
theory RyfiAirProps
  imports RyfiSync RyfiProps
begin

text \<open>
  What the air interface of RyFi promises: the frames are found behind the sync word in every rotation of
  the constellation, also with bit errors, and come out turned back; the bits of a frame arrive as soft bits on the
  right side; the interleaver spreads bursts of errors over the Reed-Solomon blocks.
\<close>

unbundle bit_operations_syntax

section \<open>The deframer\<close>

lemma two_bits_decide [simp]: "two_bits (decide s)"
  by (auto simp: two_bits_def decide_def bit_simps split: if_splits)

definition sync_of :: "complex_t list \<Rightarrow> u64" where
  "sync_of ss = fold push2 (map decide ss) 0"

text \<open>Hunting: the symbols go into the register while it is at no rotation of the sync word.\<close>

lemma no_match: "recv d = 0 \<Longrightarrow> rotations d = syncRots q0 \<Longrightarrow> \<forall>t<4. 6 \<le> distance (push2 (decide s) (shift d)) (sync_word t) \<Longrightarrow>
    deframe_symbol s d = d\<lparr>shift := push2 (decide s) (shift d)\<rparr>"
proof -
  assume a: "recv d = 0" "rotations d = syncRots q0" "\<forall>t<4. 6 \<le> distance (push2 (decide s) (shift d)) (sync_word t)"
  let ?d = "d\<lparr>shift := push2 (decide s) (shift d)\<rparr>"
  have n: "syncRots q0 ! t = sync_word t" if "t < 4" for t
    using four_cases [OF that] by (elim disjE) (simp_all add: syncRots_eq)
  have "test_rotation i ?d = ?d" for i
  proof -
    have "(knownRot d + i) mod 4 < 4" by simp
    then have "6 \<le> distance (push2 (decide s) (shift d)) (syncRots q0 ! ((knownRot d + i) mod 4))"
      using a(3) n by simp
    then show ?thesis by (simp add: test_rotation_def a(2) Let_def)
  qed
  then show ?thesis using a(1) by (simp add: deframe_symbol_def)
qed

text \<open>The register is at exactly one rotation.\<close>

lemma some_rotation:
  assumes "k < 4"
  shows "\<exists>i\<in>set [0, 1, 2, 3]. (n + i) mod 4 = (k :: nat)"
proof -
  have e: "(n + i) mod 4 = (n mod 4 + i) mod 4" for i by (simp add: mod_add_left_eq)
  have "n mod 4 < 4" by simp
  from four_cases [OF this] four_cases [OF assms] show ?thesis unfolding e by (elim disjE) simp_all
qed

lemma match:
  assumes "recv d = 0" "rotations d = syncRots q0" "k < 4"
    and "\<forall>t<4. distance (push2 (decide s) (shift d)) (sync_word t) < 6 \<longleftrightarrow> t = k"
  shows "deframe_symbol s d = d\<lparr>shift := push2 (decide s) (shift d), knownRot := k, symRot := symRots ! k,
    recv := FRAME_SYMBOLS, syms := []\<rparr>"
proof -
  let ?found = "\<lambda>d. d\<lparr>knownRot := k, symRot := symRots ! k, recv := FRAME_SYMBOLS, syms := []\<rparr>"
  let ?d = "d\<lparr>shift := push2 (decide s) (shift d)\<rparr>"
  have n: "syncRots q0 ! t = sync_word t" if "t < 4" for t
    using four_cases [OF that] by (elim disjE) (simp_all add: syncRots_eq)
  have step: "test_rotation i e = (if (knownRot e + i) mod 4 = k then ?found e else e)"
    if "shift e = shift ?d" "rotations e = syncRots q0" for i e
  proof -
    have "(knownRot e + i) mod 4 < 4" by simp
    then have "distance (shift e) (rotations e ! ((knownRot e + i) mod 4)) < 6 \<longleftrightarrow> (knownRot e + i) mod 4 = k"
      using assms(4) n that by simp
    then show ?thesis by (auto simp: test_rotation_def Let_def)
  qed
  have stay: "fold test_rotation is (?found ?d) = ?found ?d" for "is"
    by (induction "is") (simp_all add: step assms(2))
  have hunt: "fold test_rotation is ?d = (if \<exists>i\<in>set is. (knownRot d + i) mod 4 = k then ?found ?d else ?d)" for "is"
  proof (induction "is")
    case (Cons i "is")
    show ?case
    proof (cases "(knownRot d + i) mod 4 = k")
      case True
      then have "test_rotation i ?d = ?found ?d" using step [of ?d i] assms(2) by simp
      then show ?thesis using True stay by simp
    next
      case False
      then have "test_rotation i ?d = ?d" using step [of ?d i] assms(2) by simp
      then show ?thesis using False Cons.IH by simp
    qed
  qed simp
  have "\<exists>i\<in>set [0, 1, 2, 3]. (knownRot d + i) mod 4 = k" by (rule some_rotation [OF assms(3)])
  then have "fold test_rotation [0, 1, 2, 3] ?d = ?found ?d" unfolding hunt by (simp only: if_True)
  then show ?thesis using assms(1) unfolding deframe_symbol_def by simp
qed

lemma push2_window: "length ss = 32 \<Longrightarrow> j < 32 \<Longrightarrow> push2 (decide (ss ! j)) (window j w (sync_of ss)) = window (Suc j) w (sync_of ss)"
  using fold_push2_window [of "map decide ss" j w] fold_push2_window [of "map decide ss" "Suc j" w]
  by (simp add: sync_of_def list_all_iff take_Suc_conv_app_nth)

lemma window_0 [simp]: "window 0 w s = w"
  by (rule bit_word_eqI) (auto simp: window_def bit_simps dest: bit_imp_le_length)

lemma window_32 [simp]: "window 32 w s = s"
  by (rule bit_word_eqI) (simp add: window_def bit_simps)

text \<open>No rotation of the sync word is met before the sync word is complete.\<close>

definition no_early_sync :: "u64 \<Rightarrow> u64 \<Rightarrow> bool" where
  "no_early_sync w s \<longleftrightarrow> (\<forall>j t. 1 \<le> j \<and> j < 32 \<and> t < 4 \<longrightarrow> 6 \<le> distance (window j w s) (sync_word t))"

lemma quiet_between:
  assumes "k0 < 4" "distance w (sync_word k0) \<le> 5" "k < 4" "distance s (sync_word k) \<le> 5"
  shows "no_early_sync w s"
  unfolding no_early_sync_def
proof (intro allI impI, elim conjE)
  fix j t :: nat assume j: "1 \<le> j" "j < 32" "t < 4"
  have "16 \<le> distance (window j (sync_word k0) (sync_word k)) (sync_word t)" by (rule sync_far [OF assms(1,3) j(3,1,2)])
  also have "\<dots> \<le> distance (window j (sync_word k0) (sync_word k)) (window j w s) + distance (window j w s) (sync_word t)"
    by (rule distance_triangle)
  also have "distance (window j (sync_word k0) (sync_word k)) (window j w s) \<le> distance w (sync_word k0) + distance s (sync_word k)"
    using distance_window [of j "sync_word k0" "sync_word k" w s] j(2) by (simp add: distance_sym)
  finally show "6 \<le> distance (window j w s) (sync_word t)" using assms(2,4) by simp
qed

lemma hunt:
  assumes "recv d = 0" "rotations d = syncRots q0" "length ss = 32" "no_early_sync (shift d) (sync_of ss)" "j < 32"
  shows "fold deframe_symbol (take j ss) d = d\<lparr>shift := window j (shift d) (sync_of ss)\<rparr>"
  using assms(5)
proof (induction j)
  case (Suc j)
  let ?d = "d\<lparr>shift := window j (shift d) (sync_of ss)\<rparr>"
  have p: "push2 (decide (ss ! j)) (window j (shift d) (sync_of ss)) = window (Suc j) (shift d) (sync_of ss)"
    using push2_window [OF assms(3)] Suc.prems by simp
  have "deframe_symbol (ss ! j) ?d = ?d\<lparr>shift := push2 (decide (ss ! j)) (shift ?d)\<rparr>"
    by (rule no_match [of _ q0]) (use assms(1,2,4) Suc.prems in \<open>simp_all add: p no_early_sync_def\<close>)
  then show ?case using Suc p assms(3) by (simp add: take_Suc_conv_app_nth)
qed simp

text \<open>A sync word with up to five wrong bits.\<close>

lemma sync_found:
  assumes "recv d = 0" "rotations d = syncRots q0" "length ss = 32" "no_early_sync (shift d) (sync_of ss)"
    and "k < 4" "distance (sync_of ss) (sync_word k) \<le> 5"
  shows "fold deframe_symbol ss d = d\<lparr>shift := sync_of ss, knownRot := k, symRot := symRots ! k, recv := FRAME_SYMBOLS, syms := []\<rparr>"
proof -
  let ?d = "d\<lparr>shift := window 31 (shift d) (sync_of ss)\<rparr>"
  have p: "push2 (decide (ss ! 31)) (window 31 (shift d) (sync_of ss)) = sync_of ss"
    using push2_window [OF assms(3), of 31] by simp
  have far: "6 \<le> distance (sync_of ss) (sync_word t)" if "t < 4" "t \<noteq> k" for t
    using sync_distinct [OF assms(5) that(1) that(2) [symmetric]] distance_triangle [of "sync_word k" "sync_word t" "sync_of ss"]
      assms(6) by (simp add: distance_sym)
  have "deframe_symbol (ss ! 31) ?d = ?d\<lparr>shift := push2 (decide (ss ! 31)) (shift ?d), knownRot := k, symRot := symRots ! k,
      recv := FRAME_SYMBOLS, syms := []\<rparr>"
    by (rule match [of _ q0]) (use assms(1,2,5,6) far in \<open>auto simp: p not_less [symmetric]\<close>)
  moreover have "take 31 ss @ [ss ! 31] = ss"
    using assms(3) take_Suc_conv_app_nth [of 31 ss] by simp
  then have "fold deframe_symbol ss d = deframe_symbol (ss ! 31) (fold deframe_symbol (take 31 ss) d)"
    by (metis comp_apply fold_append fold_simps)
  moreover have "fold deframe_symbol (take 31 ss) d = ?d" by (rule hunt [OF assms(1-4)]) simp
  ultimately show ?thesis by (simp add: p)
qed

lemma data_read:
  assumes "recv d = length ds" "ds \<noteq> []"
  shows "fold deframe_symbol ds d = d\<lparr>recv := 0, syms := syms d @ map (\<lambda>s. complex_times s (symRot d)) ds,
    frames := frames d @ [syms d @ map (\<lambda>s. complex_times s (symRot d)) ds]\<rparr>"
  using assms
proof (induction ds arbitrary: d)
  case (Cons s ds)
  show ?case
  proof (cases "ds = []")
    case True
    then show ?thesis using Cons.prems by (simp add: deframe_symbol_def)
  next
    case False
    let ?d = "d\<lparr>syms := syms d @ [complex_times s (symRot d)], recv := length ds\<rparr>"
    have "deframe_symbol s d = ?d" using Cons.prems False by (simp add: deframe_symbol_def)
    then show ?thesis using Cons.IH [of ?d] False by simp
  qed
qed simp

text \<open>One frame on the air, as the deframer meets it: sync symbols and data symbols in rotation \<open>k\<close>.\<close>

definition air_frame :: "nat \<times> complex_t list \<times> complex_t list \<Rightarrow> bool" where
  "air_frame = (\<lambda>(k, ss, ds). k < 4 \<and> length ss = SYNC_SYMS \<and> distance (sync_of ss) (sync_word k) \<le> 5 \<and> length ds = FRAME_SYMBOLS)"

definition turned_back :: "nat \<times> complex_t list \<times> complex_t list \<Rightarrow> complex_t list" where
  "turned_back = (\<lambda>(k, ss, ds). map (\<lambda>s. complex_times s (symRots ! k)) ds)"

definition after_frame :: "nat \<times> complex_t list \<times> complex_t list \<Rightarrow> Deframer \<Rightarrow> Deframer" where
  "after_frame x d = (case x of (k, ss, ds) \<Rightarrow>
     d\<lparr>shift := sync_of ss, knownRot := k, symRot := symRots ! k, recv := 0, syms := turned_back x, frames := frames d @ [turned_back x]\<rparr>)"

lemma frame_found:
  assumes "recv d = 0" "rotations d = syncRots q0" "air_frame (k, ss, ds)" "no_early_sync (shift d) (sync_of ss)"
  shows "Deframer_run (ss @ ds) d = after_frame (k, ss, ds) d"
proof -
  let ?d = "d\<lparr>shift := sync_of ss, knownRot := k, symRot := symRots ! k, recv := FRAME_SYMBOLS, syms := []\<rparr>"
  have a: "k < 4" "length ss = 32" "distance (sync_of ss) (sync_word k) \<le> 5" "length ds = FRAME_SYMBOLS"
    using assms(3) by (simp_all add: air_frame_def SYNC_SYMS_def SYNC_BITS_def)
  have "fold deframe_symbol ss d = ?d" by (rule sync_found [OF assms(1,2) a(2) assms(4) a(1,3)])
  moreover have "fold deframe_symbol ds ?d = ?d\<lparr>recv := 0, syms := turned_back (k, ss, ds), frames := frames d @ [turned_back (k, ss, ds)]\<rparr>"
  proof -
    have "ds \<noteq> []" using a(4) by (auto simp: FRAME_SYMBOLS_def)
    then show ?thesis using data_read [of ?d ds] a(4) by (simp add: turned_back_def)
  qed
  ultimately show ?thesis by (simp add: Deframer_run_def after_frame_def)
qed

lemma frames_found:
  assumes "recv d = 0" "rotations d = syncRots q0" "k0 < 4" "distance (shift d) (sync_word k0) \<le> 5" "list_all air_frame fs"
  shows "recv (Deframer_run (concat (map (\<lambda>(k, ss, ds). ss @ ds) fs)) d) = 0 \<and>
    frames (Deframer_run (concat (map (\<lambda>(k, ss, ds). ss @ ds) fs)) d) = frames d @ map turned_back fs"
  using assms
proof (induction fs arbitrary: d k0)
  case (Cons x fs)
  obtain k ss ds where x: "x = (k, ss, ds)" by (cases x)
  then have a: "air_frame (k, ss, ds)" "k < 4" "distance (sync_of ss) (sync_word k) \<le> 5"
    using Cons.prems(5) by (simp_all add: air_frame_def)
  have "Deframer_run (ss @ ds) d = after_frame x d"
    unfolding x by (rule frame_found [OF Cons.prems(1,2) a(1) quiet_between [OF Cons.prems(3,4) a(2,3)]])
  then have run: "Deframer_run (concat (map (\<lambda>(k, ss, ds). ss @ ds) (x # fs))) d =
      Deframer_run (concat (map (\<lambda>(k, ss, ds). ss @ ds) fs)) (after_frame x d)"
    by (simp add: Deframer_run_def x)
  show ?case unfolding run using Cons.IH [of "after_frame x d" k] Cons.prems a
    by (simp add: after_frame_def x)
qed (simp add: Deframer_run_def)

section \<open>Rotations\<close>

text \<open>A constellation turned by the channel: the deframer's factor turns it back.\<close>

definition turn :: "nat \<Rightarrow> complex_t \<Rightarrow> complex_t" where
  "turn k s = complex_times s \<lparr>re = re (symRots ! k), im = - im (symRots ! k)\<rparr>"

lemma turn_back: "k < 4 \<Longrightarrow> complex_times (turn k s) (symRots ! k) = s"
  by (drule four_cases, elim disjE) (simp_all add: turn_def complex_times_def symRots_def)

lemma sync_of_turned: "k < 4 \<Longrightarrow> sync_of (map (turn k) syncSyms) = sync_word k"
  by (drule four_cases, elim disjE)
    (simp_all add: syncSyms_def sync_values_eq QPSK_SYMBOLS_def turn_def complex_times_def symRots_def sync_of_def decide_def
      push2_def sync_word_def)

lemma length_syncSyms: "length syncSyms = SYNC_SYMS"
  by (simp add: syncSyms_def sync_values_def)

section \<open>Interleaver and bursts\<close>

lemma rs_sizes: "RS_BLOCK_ENC_SIZE * RS_BLOCK_COUNT = 1020" "RS_BLOCK_COUNT = 4" "RS_BLOCK_ENC_SIZE = 255"
  by (simp_all add: RS_BLOCK_ENC_SIZE_def RS_BLOCK_COUNT_def)

lemma length_scrambler: "length RS_SCRAMBLER_SEQ = 1020"
  by (simp add: RS_SCRAMBLER_SEQ_def)

lemma nth_scramble: "j < 1020 \<Longrightarrow> length xs = 1020 \<Longrightarrow> scramble xs ! j = xs ! j XOR RS_SCRAMBLER_SEQ ! j"
  by (simp add: scramble_def length_scrambler)

lemma length_scramble: "length xs = 1020 \<Longrightarrow> length (scramble xs) = 1020"
  by (simp add: scramble_def length_scrambler)

lemma length_interleave [simp]: "length (interleave bs) = 1020"
  by (simp add: interleave_def rs_sizes)

lemma nth_deinterleave: "k < 255 \<Longrightarrow> deinterleave xs i ! k = xs ! (i + 4 * k)"
  by (simp add: deinterleave_def rs_sizes mult.commute)

lemma length_deinterleave [simp]: "length (deinterleave xs i) = 255"
  by (simp add: deinterleave_def rs_sizes)

lemma nth_interleave: "i < 4 \<Longrightarrow> k < 255 \<Longrightarrow> interleave bs ! (i + 4 * k) = bs ! i ! k"
  by (simp add: interleave_def rs_sizes)

text \<open>Places of a block that a burst of \<open>n\<close> bytes can reach.\<close>

lemma burst_places:
  fixes i p n :: nat
  assumes "i < 4"
  shows "card {k. k < 255 \<and> p \<le> i + 4 * k \<and> i + 4 * k < p + n} \<le> (n + 3) div 4"
proof -
  define m where "m = (p + 3 - i) div 4"
  have m: "4 * m \<le> p + 3 - i" "p + 3 - i < 4 * m + 4" by (simp_all add: m_def)
  have "{k. k < 255 \<and> p \<le> i + 4 * k \<and> i + 4 * k < p + n} \<subseteq> {m..<m + (n + 3) div 4}"
  proof
    fix k assume k: "k \<in> {k. k < 255 \<and> p \<le> i + 4 * k \<and> i + 4 * k < p + n}"
    have "m \<le> k" using k m assms by auto
    moreover have "p \<le> 4 * m + i" using m assms by linarith
    then have "4 * (k - m) < n" using k \<open>m \<le> k\<close> by auto
    moreover have "n + 3 < 4 * ((n + 3) div 4) + 4" by presburger
    ultimately have "k - m < (n + 3) div 4" by linarith
    then show "k \<in> {m..<m + (n + 3) div 4}" using \<open>m \<le> k\<close> by auto
  qed
  then show ?thesis using card_mono [of "{m..<m + (n + 3) div 4}"] by fastforce
qed

definition errors :: "u8 list \<Rightarrow> u8 list \<Rightarrow> nat" where
  "errors xs ys = card {k. k < length ys \<and> xs ! k \<noteq> ys ! k}"

definition burst :: "nat \<Rightarrow> nat \<Rightarrow> u8 list \<Rightarrow> u8 list \<Rightarrow> bool" where
  "burst n p xs ys \<longleftrightarrow> length ys = length xs \<and> (\<forall>j<length xs. j < p \<or> p + n \<le> j \<longrightarrow> ys ! j = xs ! j)"

lemma block_errors:
  assumes "i < 4" "burst n p (scramble (interleave bs)) ys" "length (bs ! i) = 255"
  shows "errors (bs ! i) (deinterleave (scramble ys) i) \<le> (n + 3) div 4"
proof -
  have ys: "length ys = 1020" "\<forall>j<1020. j < p \<or> p + n \<le> j \<longrightarrow> ys ! j = scramble (interleave bs) ! j"
    using assms(2) by (simp_all add: burst_def length_scramble)
  have "k < 255 \<and> p \<le> i + 4 * k \<and> i + 4 * k < p + n" if "k < 255" "bs ! i ! k \<noteq> deinterleave (scramble ys) i ! k" for k
  proof (rule ccontr)
    assume far: "\<not> (k < 255 \<and> p \<le> i + 4 * k \<and> i + 4 * k < p + n)"
    have j: "i + 4 * k < 1020" using that(1) assms(1) by simp
    then have "ys ! (i + 4 * k) = interleave bs ! (i + 4 * k) XOR RS_SCRAMBLER_SEQ ! (i + 4 * k)"
      using ys far that(1) nth_scramble by auto
    then have "deinterleave (scramble ys) i ! k = interleave bs ! (i + 4 * k)"
      using that(1) j ys(1) by (simp add: nth_deinterleave nth_scramble xor.assoc)
    then show False using that assms(1) by (simp add: nth_interleave)
  qed
  then have "{k. k < length (deinterleave (scramble ys) i) \<and> bs ! i ! k \<noteq> deinterleave (scramble ys) i ! k} \<subseteq>
      {k. k < 255 \<and> p \<le> i + 4 * k \<and> i + 4 * k < p + n}" by auto
  then have "errors (bs ! i) (deinterleave (scramble ys) i) \<le> card {k. k < 255 \<and> p \<le> i + 4 * k \<and> i + 4 * k < p + n}"
    unfolding errors_def by (rule card_mono [rotated]) simp
  then show ?thesis using burst_places [OF assms(1), of p n] by linarith
qed

lemma no_errors: "length xs = length ys \<Longrightarrow> errors xs ys = 0 \<Longrightarrow> xs = ys"
  by (rule nth_equalityI) (auto simp: errors_def)

section \<open>A frame over the air\<close>

text \<open>Soft bits that stand on the right side for the first \<open>n\<close> bits of \<open>xs\<close>.\<close>

definition soft_bits_of :: "nat \<Rightarrow> u8 list \<Rightarrow> u8 list \<Rightarrow> bool" where
  "soft_bits_of n xs sb \<longleftrightarrow> length sb = n \<and> (\<forall>j<n. 128 \<le> sb ! j \<longleftrightarrow> bit (xs ! (j div 8)) (7 - j mod 8))"

lemma soft_symbol: "v < 4 \<Longrightarrow> (128 \<le> soft_bit (re (QPSK_SYMBOLS ! v)) \<longleftrightarrow> v \<ge> 2) \<and> (128 \<le> soft_bit (im (QPSK_SYMBOLS ! v)) \<longleftrightarrow> odd v)"
  by (drule four_cases, elim disjE) (simp_all add: QPSK_SYMBOLS_def soft_bit_def)

lemma length_pairs: "length (concat (map (\<lambda>s. [f s, g s]) xs)) = 2 * length xs"
  by (induction xs) simp_all

lemma nth_pairs: "j < 2 * length xs \<Longrightarrow>
    concat (map (\<lambda>s. [f s, g s]) xs) ! j = (if even j then f (xs ! (j div 2)) else g (xs ! (j div 2)))"
proof (induction xs arbitrary: j)
  case (Cons x xs)
  consider "j = 0" | "j = 1" | i where "j = i + 2" by (metis One_nat_def add_2_eq_Suc' not0_implies_Suc)
  then show ?case by cases (use Cons in \<open>auto simp: nth_Cons'\<close>)
qed simp

text \<open>The symbols of the framer carry the bits of its input.\<close>

lemma framer_bits:
  fixes b :: u8
  assumes "m < 4"
  defines "v \<equiv> unat (drop_bit (6 - 2 * m) b AND 3)"
  shows "v < 4" "v \<ge> 2 \<longleftrightarrow> bit b (7 - 2 * m)" "odd v \<longleftrightarrow> bit b (6 - 2 * m)"
proof -
  define n where "n = unat (drop_bit (6 - 2 * m) b)"
  have "v = take_bit 2 n"
    by (simp add: v_def n_def unsigned_take_bit_eq flip: take_bit_eq_mask [of 2 "drop_bit (6 - 2 * m) b", simplified mask_eq_exp_minus_1, simplified])
  then have v: "v = n mod 4" by (simp add: take_bit_eq_mod)
  have "Suc (6 - 2 * m) = 7 - 2 * m" using assms(1) by simp
  then have n: "bit n 0 \<longleftrightarrow> bit b (6 - 2 * m)" "bit n 1 \<longleftrightarrow> bit b (7 - 2 * m)"
    using assms(1) by (auto simp: n_def bit_unsigned_iff bit_drop_bit_eq dest: bit_imp_le_length)
  show "v < 4" using v by simp
  have "v \<ge> 2 \<longleftrightarrow> odd (n div 2)" unfolding v by presburger
  then show "v \<ge> 2 \<longleftrightarrow> bit b (7 - 2 * m)" using n(2) by (simp add: bit_iff_odd [of n])
  have "odd v \<longleftrightarrow> odd n" unfolding v by presburger
  then show "odd v \<longleftrightarrow> bit b (6 - 2 * m)" using n(1) by (simp add: bit_iff_odd [of n])
qed

text \<open>The soft bits of a received frame are those of the encoded bytes.\<close>

lemma soft_bits_framer:
  assumes "even n" "data = drop SYNC_SYMS (Framer_encode xs n)"
  shows "soft_bits_of n xs (soft_bits data)"
  unfolding soft_bits_def
proof -
  let ?v = "\<lambda>i. unat (drop_bit (6 - 2 * (i mod 4)) (xs ! (i div 4)) AND 3)"
  have data: "data = map (\<lambda>i. QPSK_SYMBOLS ! ?v i) [0..<n div 2]"
    using assms(2) by (simp add: Framer_encode_def length_syncSyms)
  have "128 \<le> concat (map (\<lambda>s. [soft_bit (re s), soft_bit (im s)]) data) ! j \<longleftrightarrow> bit (xs ! (j div 8)) (7 - j mod 8)"
    if "j < n" for j
  proof -
    let ?i = "j div 2"
    have i: "?i < n div 2" "?i div 4 = j div 8" using that assms(1) by (auto simp: div_mult2_eq [symmetric])
    have m: "?i mod 4 < 4" "j mod 8 = 2 * (?i mod 4) + j mod 2" using mod_mult2_eq [of j 2 4] by simp_all
    note b = framer_bits [OF m(1), of "xs ! (?i div 4)"]
    have d: "data ! ?i = QPSK_SYMBOLS ! ?v ?i" "j < 2 * length data" using i(1) that assms(1) by (simp_all add: data)
    show ?thesis
    proof (cases "even j")
      case True
      then have "j mod 8 = 2 * (?i mod 4)" using m(2) by (simp only: even_iff_mod_2_eq_zero)
      then show ?thesis using soft_symbol [OF b(1)] b(2) True by (simp only: nth_pairs [OF d(2)] d(1) i(2) if_True)
    next
      case False
      then have "j mod 8 = 2 * (?i mod 4) + 1" using m(2) by (simp only: odd_iff_mod_2_eq_one)
      then have "7 - j mod 8 = 6 - 2 * (?i mod 4)" by linarith
      then show ?thesis using soft_symbol [OF b(1)] b(3) False by (simp only: nth_pairs [OF d(2)] d(1) i(2) if_False)
    qed
  qed
  then show "soft_bits_of n xs (concat (map (\<lambda>s. [soft_bit (re s), soft_bit (im s)]) data))"
    using assms(1) by (simp add: soft_bits_of_def length_pairs) (simp add: data)
qed

section \<open>Properties\<close>

text \<open>
  C29: frames are found. With the register at most five bits from a sync word, as after any frame, the deframer
  reads every frame of a stream of frames, each turned by its own multiple of 90 degrees and each with up
  to five wrong bits in its sync word: it hands on exactly the data symbols of the frames, turned back, in
  order, and is ready for the next frame.
\<close>

theorem ryfi_frames_found:
  assumes "recv d = 0" "rotations d = syncRots q0" "k0 < 4" "distance (shift d) (syncRots q0 ! k0) \<le> 5" "list_all air_frame fs"
  shows "recv (Deframer_run (concat (map (\<lambda>(k, ss, ds). ss @ ds) fs)) d) = 0 \<and>
    frames (Deframer_run (concat (map (\<lambda>(k, ss, ds). ss @ ds) fs)) d) = frames d @ map turned_back fs"
proof -
  have "syncRots q0 ! k0 = sync_word k0"
    using four_cases [OF assms(3)] by (elim disjE) (simp_all add: syncRots_eq)
  then show ?thesis using frames_found [OF assms(1,2,3) _ assms(5)] assms(4) by simp
qed

definition ready :: Deframer where
  "ready = \<lparr>recv = 0, syms = [], knownRot = 2, rotations = syncRots 0, symRot = symRots ! 2, shift = SYNC_WORD, frames = []\<rparr>"

lemma distance_same [simp]: "distance a a = 0"
  by (simp add: distance_sum)

lemma air_frame_sync: "k < 4 \<Longrightarrow> length ds = FRAME_SYMBOLS \<Longrightarrow> air_frame (k, map (turn k) syncSyms, ds)"
  by (simp add: air_frame_def length_syncSyms sync_of_turned)

theorem ryfi_frames_found_witness:
  "\<forall>s. frames (Deframer_run (map (turn 1) syncSyms @ replicate FRAME_SYMBOLS s) ready) =
     [replicate FRAME_SYMBOLS (complex_times s (symRots ! 1))]"
  using ryfi_frames_found [of ready 0 0 "[(1, map (turn 1) syncSyms, replicate FRAME_SYMBOLS _)]"] air_frame_sync [of 1 "replicate FRAME_SYMBOLS _"]
  by (simp add: ready_def syncRots_def turned_back_def Let_def)

text \<open>
  C30: what lies between the two codes carries the bits. Frames of coded bytes that are mapped to symbols one after the
  other, each turned on the air by its own multiple of 90 degrees, all come out of the deframer in order, and the soft
  bits made of each are, bit for bit, on the side of the bytes that were sent. Behind the inner code, a
  burst of \<open>n\<close> wrong bytes puts at most \<open>n / 4\<close> of them, rounded up, into each of the four blocks after descrambling
  and deinterleaving; with none, the blocks are those that were interleaved. The codes themselves are not part of this.
\<close>

theorem ryfi_bits_cross_air:
  assumes "recv d = 0" "rotations d = syncRots q0" "k0 < 4" "distance (shift d) (syncRots q0 ! k0) \<le> 5"
    and "list_all (\<lambda>(k, xs). k < 4) fs" "length bs = RS_BLOCK_COUNT" "list_all (\<lambda>b. length b = RS_BLOCK_ENC_SIZE) bs"
  shows "(\<exists>out. frames (Deframer_run (concat (map (\<lambda>(k, xs). map (turn k) (Framer_encode xs (2 * FRAME_SYMBOLS))) fs)) d) = frames d @ out \<and>
      list_all2 (\<lambda>(k, xs) ys. length (soft_bits ys) = 2 * FRAME_SYMBOLS \<and>
        (\<forall>j<2 * FRAME_SYMBOLS. 128 \<le> soft_bits ys ! j \<longleftrightarrow> bit (xs ! (j div 8)) (7 - j mod 8))) fs out) \<and>
    (\<forall>n p ys i. burst n p (scramble (interleave bs)) ys \<and> i < RS_BLOCK_COUNT \<longrightarrow>
      errors (bs ! i) (deinterleave (scramble ys) i) \<le> (n + 3) div 4) \<and>
    (\<forall>i<RS_BLOCK_COUNT. deinterleave (scramble (scramble (interleave bs))) i = bs ! i)"
proof -
  let ?data = "\<lambda>xs. drop SYNC_SYMS (Framer_encode xs (2 * FRAME_SYMBOLS))"
  let ?air = "\<lambda>(k, xs). (k, map (turn k) syncSyms, map (turn k) (?data xs))"
  have sent: "Framer_encode xs (2 * FRAME_SYMBOLS) = syncSyms @ ?data xs" for xs by (simp add: Framer_encode_def length_syncSyms)
  have part: "map (turn k) (Framer_encode xs (2 * FRAME_SYMBOLS)) = map (turn k) syncSyms @ map (turn k) (?data xs)" for k xs
    by (subst sent) simp
  have len: "length (?data xs) = FRAME_SYMBOLS" for xs by (simp add: Framer_encode_def length_syncSyms)
  have air: "list_all air_frame (map ?air fs)"
    using assms(5) air_frame_sync len by (auto simp: list_all_iff)
  have stream: "concat (map (\<lambda>(k, xs). map (turn k) (Framer_encode xs (2 * FRAME_SYMBOLS))) fs) = concat (map (\<lambda>(k, ss, ds). ss @ ds) (map ?air fs))"
    by (simp add: split_def comp_def part)
  have out: "map turned_back (map ?air fs) = map (\<lambda>(k, xs). ?data xs) fs"
    using assms(5) by (auto simp: list_all_iff turned_back_def turn_back comp_def)
  have "distance (shift d) (sync_word k0) \<le> 5" using assms(3,4) four_cases [OF assms(3)] by (auto simp: syncRots_eq)
  then have "frames (Deframer_run (concat (map (\<lambda>(k, xs). map (turn k) (Framer_encode xs (2 * FRAME_SYMBOLS))) fs)) d) =
      frames d @ map (\<lambda>(k, xs). ?data xs) fs"
    using frames_found [OF assms(1-3) _ air] unfolding stream out by blast
  moreover have "list_all2 (\<lambda>(k, xs) ys. length (soft_bits ys) = 2 * FRAME_SYMBOLS \<and>
        (\<forall>j<2 * FRAME_SYMBOLS. 128 \<le> soft_bits ys ! j \<longleftrightarrow> bit (xs ! (j div 8)) (7 - j mod 8))) fs (map (\<lambda>(k, xs). ?data xs) fs)"
    using soft_bits_framer [of "2 * FRAME_SYMBOLS"] by (auto simp: soft_bits_of_def list_all2_conv_all_nth split: prod.splits)
  ultimately have bits: "\<exists>out. frames (Deframer_run (concat (map (\<lambda>(k, xs). map (turn k) (Framer_encode xs (2 * FRAME_SYMBOLS))) fs)) d) = frames d @ out \<and>
      list_all2 (\<lambda>(k, xs) ys. length (soft_bits ys) = 2 * FRAME_SYMBOLS \<and>
        (\<forall>j<2 * FRAME_SYMBOLS. 128 \<le> soft_bits ys ! j \<longleftrightarrow> bit (xs ! (j div 8)) (7 - j mod 8))) fs out" by blast
  have b: "i < RS_BLOCK_COUNT \<Longrightarrow> i < 4 \<and> length (bs ! i) = 255" for i using assms(6,7) by (simp add: rs_sizes list_all_length)
  have spread: "\<forall>n p ys i. burst n p (scramble (interleave bs)) ys \<and> i < RS_BLOCK_COUNT \<longrightarrow>
      errors (bs ! i) (deinterleave (scramble ys) i) \<le> (n + 3) div 4"
    using b block_errors by blast
  have "\<forall>i<RS_BLOCK_COUNT. deinterleave (scramble (scramble (interleave bs))) i = bs ! i"
  proof (intro allI impI)
    fix i assume i: "i < RS_BLOCK_COUNT"
    have "burst 0 0 (scramble (interleave bs)) (scramble (interleave bs))" by (simp add: burst_def)
    then have "errors (bs ! i) (deinterleave (scramble (scramble (interleave bs))) i) = 0" using spread i by fastforce
    then show "deinterleave (scramble (scramble (interleave bs))) i = bs ! i"
      using no_errors [of "bs ! i" "deinterleave (scramble (scramble (interleave bs))) i"] b [OF i] by simp
  qed
  with bits spread show ?thesis by blast
qed

lemma ready_facts: "recv ready = 0" "rotations ready = syncRots 0" "frames ready = []" "distance (shift ready) (syncRots 0 ! 0) = 0"
  by (simp_all add: ready_def syncRots_def Let_def)

theorem ryfi_bits_cross_air_witness:
  "(\<exists>ys. frames (Deframer_run (map (turn 3) (Framer_encode (replicate 2042 0xA5) (2 * FRAME_SYMBOLS))) ready) = [ys] \<and>
      soft_bits ys ! 0 \<ge> 128 \<and> \<not> soft_bits ys ! 1 \<ge> 128) \<and>
   errors (replicate 255 7) (deinterleave (scramble ((scramble (interleave (replicate 4 (replicate 255 7))))[500 := 0, 501 := 0])) 1) \<le> 1"
proof
  let ?bs = "replicate 4 (replicate 255 7) :: u8 list list"
  have bs: "length ?bs = RS_BLOCK_COUNT" "list_all (\<lambda>b. length b = RS_BLOCK_ENC_SIZE) ?bs" by (auto simp: rs_sizes list_all_iff)
  have fs: "list_all (\<lambda>(k, xs). k < 4) [(3 :: nat, replicate 2042 0xA5 :: u8 list)]" by simp
  have "distance (shift ready) (syncRots 0 ! 0) \<le> 5" using ready_facts(4) by simp
  note air = ryfi_bits_cross_air [OF ready_facts(1,2) zero_less_numeral this fs bs]
  have "FRAME_SYMBOLS = 8168" by (simp add: FRAME_SYMBOLS_def)
  then show "\<exists>ys. frames (Deframer_run (map (turn 3) (Framer_encode (replicate 2042 0xA5) (2 * FRAME_SYMBOLS))) ready) = [ys] \<and>
      soft_bits ys ! 0 \<ge> 128 \<and> \<not> soft_bits ys ! 1 \<ge> 128"
    using air [THEN conjunct1] ready_facts(3) by (fastforce simp: list_all2_Cons1 bit_numeral_rec)
  have "burst 2 500 (scramble (interleave ?bs)) ((scramble (interleave ?bs))[500 := 0, 501 := 0])"
    by (auto simp: burst_def nth_list_update)
  then show "errors (replicate 255 7) (deinterleave (scramble ((scramble (interleave ?bs))[500 := 0, 501 := 0])) 1) \<le> 1"
    using air [THEN conjunct2, THEN conjunct1, rule_format, of 2 500 _ 1] by (simp add: rs_sizes del: replicate.simps)
qed

end
