(* ===== verification/Http.thy ===== *)
theory Http
  imports Urls
begin

text \<open>
  The HTTP client of \<open>core/src/utils/proto/http.cpp\<close>: message headers and their text form, the bodies of
  responses (chunked, of a given length, up to the end of the connection) and \<open>get\<close> with its redirects;
  from \<open>core/src/utils/net.cpp\<close> the reading of lines.

  A connection is the bytes that still arrive. How many of them one \<open>recv\<close> returns is the network's
  choice: the argument \<open>avail\<close>, a function of the number of bytes left. After the last byte \<open>recv\<close> returns
  0, which means a closed connection or a read that timed out, or a negative number when \<open>broken\<close> holds.
  An exception is \<open>Inl\<close> of its message.
\<close>

section \<open>Methods and status codes\<close>

datatype Method = METHOD_OPTIONS | METHOD_GET | METHOD_HEAD | METHOD_POST | METHOD_PUT | METHOD_DELETE | METHOD_TRACE | METHOD_CONNECT

definition MethodStrings :: "(Method \<times> string) list" where
  "MethodStrings = [(METHOD_OPTIONS, ''OPTIONS''), (METHOD_GET, ''GET''), (METHOD_HEAD, ''HEAD''), (METHOD_POST, ''POST''),
     (METHOD_PUT, ''PUT''), (METHOD_DELETE, ''DELETE''), (METHOD_TRACE, ''TRACE''), (METHOD_CONNECT, ''CONNECT'')]"

definition methodName :: "Method \<Rightarrow> string" where
  "methodName m = (case map_of MethodStrings m of Some n \<Rightarrow> n | None \<Rightarrow> [])"

text \<open>A status code is its number; the enumeration names some of them.\<close>

definition StatusCodeStrings :: "(int \<times> string) list" where
  "StatusCodeStrings = [
     (100, ''CONTINUE''), (101, ''SWITCH_PROTO''), (200, ''OK''), (201, ''CREATED''),
     (202, ''ACCEPTED''), (203, ''NON_AUTH_INFO''), (204, ''NO_CONTENT''), (205, ''RESET_CONTENT''),
     (206, ''PARTIAL_CONTENT''), (300, ''MULTIPLE_CHOICES''), (301, ''MOVED_PERMANENTLY''), (302, ''FOUND''),
     (303, ''SEE_OTHER''), (304, ''NOT_MODIFIED''), (305, ''USE_PROXY''), (307, ''TEMP_REDIRECT''),
     (308, ''PERMANENT_REDIRECT''), (400, ''BAD_REQUEST''), (401, ''UNAUTHORIZED''), (402, ''PAYMENT_REQUIRED''),
     (403, ''FORBIDDEN''), (404, ''NOT_FOUND''), (405, ''METHOD_NOT_ALLOWED''), (406, ''NOT_ACCEPTABLE''),
     (407, ''PROXY_AUTH_REQ''), (408, ''REQUEST_TIEMOUT''), (409, ''CONFLICT''), (410, ''GONE''),
     (411, ''LENGTH_REQUIRED''), (412, ''PRECONDITION_FAILED''), (413, ''REQ_ENTITY_TOO_LARGE''), (414, ''REQ_URI_TOO_LONG''),
     (415, ''UNSUPPORTED_MEDIA_TYPE''), (416, ''REQ_RANGE_NOT_SATISFIABLE''), (417, ''EXPECTATION_FAILED''), (418, ''IM_A_TEAPOT''),
     (420, ''ENHANCE_YOUR_CALM''), (500, ''INTERNAL_SERVER_ERROR''), (501, ''NOT_IMPLEMENTED''), (502, ''BAD_GATEWAY''),
     (503, ''SERVICE_UNAVAILABLE''), (504, ''GATEWAY_TIMEOUT''), (505, ''HTTP_VERSION_UNSUPPORTED'')]"

definition statusCodeName :: "int \<Rightarrow> string" where
  "statusCodeName c = (case map_of StatusCodeStrings c of Some n \<Rightarrow> n | None \<Rightarrow> [])"

section \<open>Fields\<close>

text \<open>\<open>CaseInsensitiveLess\<close>.\<close>

fun ci_less :: "string \<Rightarrow> string \<Rightarrow> bool" where
  "ci_less (a # as) (b # bs) =
     (if to_lower a \<noteq> to_lower b then char_code (to_lower a) < char_code (to_lower b) else ci_less as bs)"
| "ci_less [] (b # bs) = True"
| "ci_less _ [] = False"

text \<open>A \<open>std::map\<close> with that order: the entries in the order of their keys.\<close>

type_synonym FieldMap = "(string \<times> string) list"

fun field_find :: "string \<Rightarrow> FieldMap \<Rightarrow> string option" where
  "field_find k [] = None"
| "field_find k ((k', v') # fs) = (if \<not> ci_less k k' \<and> \<not> ci_less k' k then Some v' else field_find k fs)"

text \<open>A new entry, or for a key that is there: the value \<open>f\<close> makes of the old one.\<close>

fun field_update :: "(string \<Rightarrow> string) \<Rightarrow> string \<Rightarrow> string \<Rightarrow> FieldMap \<Rightarrow> FieldMap" where
  "field_update f k v [] = [(k, v)]"
| "field_update f k v ((k', v') # fs) =
     (if ci_less k k' then (k, v) # (k', v') # fs
      else if ci_less k' k then (k', v') # field_update f k v fs
      else (k', f v') # fs)"

fun field_erase :: "string \<Rightarrow> FieldMap \<Rightarrow> FieldMap" where
  "field_erase k [] = []"
| "field_erase k ((k', v') # fs) = (if \<not> ci_less k k' \<and> \<not> ci_less k' k then fs else (k', v') # field_erase k fs)"

definition setField :: "string \<Rightarrow> string \<Rightarrow> FieldMap \<Rightarrow> FieldMap" where
  "setField k v fs = field_update (\<lambda>_. v) k v fs"

definition getField :: "string \<Rightarrow> FieldMap \<Rightarrow> string" where
  "getField k fs = (case field_find k fs of Some v \<Rightarrow> v | None \<Rightarrow> [])"

definition hasField :: "string \<Rightarrow> FieldMap \<Rightarrow> bool" where
  "hasField k fs = (field_find k fs \<noteq> None)"

definition clearField :: "string \<Rightarrow> FieldMap \<Rightarrow> FieldMap" where
  "clearField k fs = field_erase k fs"

definition getHeaderValue :: "FieldMap \<Rightarrow> string \<Rightarrow> string" where
  "getHeaderValue fs k = trim (getField k fs)"

section \<open>Header text\<close>

definition LF :: char where "LF = CHR 0x0A"
definition CR :: char where "CR = CHR 0x0D"
definition CRLF :: string where "CRLF = [CR, LF]"

text \<open>The line without its end, and the text after it.\<close>

definition readLine :: "string \<Rightarrow> string \<times> string" where
  "readLine s =
     (let l = takeWhile (\<lambda>c. c \<noteq> LF) s
      in (if l \<noteq> [] \<and> last l = CR then butlast l else l, drop (length l + 1) s))"

definition serializeFields :: "FieldMap \<Rightarrow> string" where
  "serializeFields fs = concat (map (\<lambda>(k, v). k @ '': '' @ v @ CRLF) fs) @ CRLF"

definition is_gap :: "char \<Rightarrow> bool" where
  "is_gap c \<longleftrightarrow> c = CHR '' '' \<or> c = CHR 0x09"

text \<open>One field line; without a colon, \<open>substr\<close> throws.\<close>

definition parseField :: "string \<Rightarrow> FieldMap \<Rightarrow> string + FieldMap" where
  "parseField line fs =
     (let name = takeWhile (\<lambda>c. c \<noteq> CHR '':'') line
      in if length name + 1 > length line then Inl ''out_of_range''
         else let value = dropWhile is_gap (drop (length name + 1) line)
              in Inr (field_update (\<lambda>old. old @ '', '' @ value) name value fs))"

function deserializeFields :: "string \<Rightarrow> FieldMap \<Rightarrow> string + FieldMap" where
  "deserializeFields s fs =
     (if s = [] then Inr fs
      else let (line, rest) = readLine s
           in if line = [] then Inr fs
              else case parseField line fs of Inl e \<Rightarrow> Inl e | Inr fs1 \<Rightarrow> deserializeFields rest fs1)"
  by pat_completeness auto
termination
  by (relation "measure (\<lambda>(s, fs). length s)") (auto simp: readLine_def Let_def)

declare deserializeFields.simps [simp del]

record ResponseHeader =
  statusCode :: int
  statusString :: string
  header_fields :: FieldMap

record RequestHeader =
  req_method :: Method
  uri :: string
  request_fields :: FieldMap

definition before_space :: "string \<Rightarrow> string" where "before_space s = takeWhile (\<lambda>c. c \<noteq> CHR '' '') s"
definition from_space :: "string \<Rightarrow> string" where "from_space s = dropWhile (\<lambda>c. c \<noteq> CHR '' '') s"

definition deserializeStatusLine :: "string \<Rightarrow> string + (int \<times> string)" where
  "deserializeStatusLine line =
     (let code = dropWhile is_gap (from_space line)
      in if from_space line = [] \<or> code = [] then Inl ''http: malformed status line''
         else case stoi (before_space code) of
                None \<Rightarrow> Inl ''stoi''
              | Some (v, n) \<Rightarrow> Inr (v, dropWhile is_gap (from_space code)))"

definition deserializeRequestLine :: "string \<Rightarrow> string + (Method \<times> string)" where
  "deserializeRequestLine line =
     (let rest = dropWhile is_gap (from_space line)
      in if from_space line = [] \<or> rest = [] \<or> from_space rest = [] then Inl ''http: malformed request line''
         else case find (\<lambda>(m, n). n = before_space line) MethodStrings of
                None \<Rightarrow> Inl ''http: unknown HTTP method''
              | Some (m, n) \<Rightarrow> Inr (m, before_space rest))"

definition serializeResponse :: "ResponseHeader \<Rightarrow> string" where
  "serializeResponse h =
     ''HTTP/1.1 '' @ decimal_int (statusCode h) @ '' '' @ statusString h @ CRLF @ serializeFields (header_fields h)"

definition serializeRequest :: "RequestHeader \<Rightarrow> string" where
  "serializeRequest h = methodName (req_method h) @ '' '' @ uri h @ '' HTTP/1.1'' @ CRLF @ serializeFields (request_fields h)"

definition deserializeResponse :: "string \<Rightarrow> string + ResponseHeader" where
  "deserializeResponse s =
     (let (line, rest) = readLine s
      in case deserializeStatusLine line of
           Inl e \<Rightarrow> Inl e
         | Inr (code, text) \<Rightarrow> (case deserializeFields rest [] of
               Inl e \<Rightarrow> Inl e
             | Inr fs \<Rightarrow> Inr \<lparr>statusCode = code, statusString = text, header_fields = fs\<rparr>))"

definition deserializeRequest :: "string \<Rightarrow> string + RequestHeader" where
  "deserializeRequest s =
     (let (line, rest) = readLine s
      in case deserializeRequestLine line of
           Inl e \<Rightarrow> Inl e
         | Inr (m, u) \<Rightarrow> (case deserializeFields rest [] of
               Inl e \<Rightarrow> Inl e
             | Inr fs \<Rightarrow> Inr \<lparr>req_method = m, uri = u, request_fields = fs\<rparr>))"

definition newRequest :: "Method \<Rightarrow> string \<Rightarrow> string \<Rightarrow> RequestHeader" where
  "newRequest m u h = \<lparr>req_method = m, uri = u, request_fields = setField ''Host'' h []\<rparr>"

definition newResponse :: "int \<Rightarrow> ResponseHeader" where
  "newResponse c = \<lparr>statusCode = c, statusString = (if statusCodeName c = [] then ''UNKNOWN'' else statusCodeName c), header_fields = []\<rparr>"

section \<open>Numbers\<close>

text \<open>
  \<open>std::stoull\<close> with base 10 or 16: white space, a sign, for base 16 an optional \<open>0x\<close>, and the digits. A
  negative number is taken modulo \<open>2 ^ 64\<close>, as \<open>strtoull\<close> does; a number that does not fit throws. The second
  component is the number of characters consumed.
\<close>

definition digits_value :: "nat \<Rightarrow> string \<Rightarrow> nat" where
  "digits_value base ds = foldl (\<lambda>v c. base * v + xdigit_val c) 0 ds"

definition skip_0x :: "nat \<Rightarrow> string \<Rightarrow> string" where
  "skip_0x base s =
     (case s of a # b # c # rest \<Rightarrow>
        if base = 16 \<and> a = CHR ''0'' \<and> to_lower b = CHR ''x'' \<and> is_xdigit c then c # rest else s
      | _ \<Rightarrow> s)"

definition stoull :: "nat \<Rightarrow> string \<Rightarrow> (u64 \<times> nat) option" where
  "stoull base s =
     (let t = dropWhile is_space s;
          negative = (t \<noteq> [] \<and> hd t = CHR ''-'');
          u = (if t \<noteq> [] \<and> (hd t = CHR ''-'' \<or> hd t = CHR ''+'') then tl t else t);
          d = takeWhile (if base = 16 then is_xdigit else is_digit) (skip_0x base u);
          v = digits_value base d
      in if d = [] then None
         else if v \<ge> 2 ^ 64 then None
         else Some (if negative then - of_nat v else of_nat v, length s - length (drop (length d) (skip_0x base u))))"

fun hex_digits :: "nat \<Rightarrow> string" where
  "hex_digits n = (if n < 16 then [] else hex_digits (n div 16)) @ [hex_upper (n mod 16)]"

declare hex_digits.simps [simp del]

text \<open>\<open>ChunkHeader\<close>.\<close>

definition serializeChunkHeader :: "u64 \<Rightarrow> string" where
  "serializeChunkHeader n = hex_digits (unat n) @ CRLF"

definition deserializeChunkHeader :: "string \<Rightarrow> string + u64" where
  "deserializeChunkHeader s =
     (let sizeStr = trim (takeWhile (\<lambda>c. c \<noteq> CHR '';'') s)
      in if sizeStr = [] then Inl ''http: malformed chunk size''
         else case stoull 16 sizeStr of
                None \<Rightarrow> Inl ''stoull''
              | Some (n, consumed) \<Rightarrow> if consumed \<noteq> length sizeStr then Inl ''http: malformed chunk size'' else Inr n)"

section \<open>Connections\<close>

text \<open>One read of at most \<open>want\<close> bytes, when bytes are left; the network delivers at least one.\<close>

definition recv_bytes :: "(nat \<Rightarrow> nat) \<Rightarrow> nat \<Rightarrow> string \<Rightarrow> string \<times> string" where
  "recv_bytes avail want bytes = (let n = min want (max 1 (avail (length bytes))) in (take n bytes, drop n bytes))"

text \<open>\<open>recvline\<close>: \<open>None\<close> when the connection ends first.\<close>

fun recvline_loop :: "nat \<Rightarrow> nat \<Rightarrow> string \<Rightarrow> string \<Rightarrow> (string \<times> string) option" where
  "recvline_loop maxLen n str bytes =
     (if maxLen \<noteq> 0 \<and> \<not> n < maxLen then Some (str, bytes)
      else case bytes of
        [] \<Rightarrow> None
      | c # cs \<Rightarrow> if c = LF then Some (str, cs) else recvline_loop maxLen (n + 1) (str @ [c]) cs)"

declare recvline_loop.simps [simp del]

definition recvline :: "nat \<Rightarrow> string \<Rightarrow> (string \<times> string) option" where
  "recvline maxLen bytes = recvline_loop maxLen 0 [] bytes"

lemma recvline_loop_shorter:
  "recvline_loop maxLen n str bytes = Some (line, rest) \<Longrightarrow> n < maxLen \<or> maxLen = 0 \<Longrightarrow> length rest < length bytes"
proof (induction bytes arbitrary: n str)
  case Nil
  then show ?case by (simp add: recvline_loop.simps [of maxLen n str "[]"] split: if_splits)
next
  case (Cons c cs)
  then show ?case
  proof (cases "c = LF \<or> n + 1 < maxLen \<or> maxLen = 0")
    case True
    then show ?thesis using Cons by (auto simp: recvline_loop.simps [of maxLen n str "c # cs"] split: if_splits dest: Cons.IH intro: less_SucI)
  next
    case False
    then show ?thesis using Cons.prems by (simp add: recvline_loop.simps [of maxLen n str "c # cs"] recvline_loop.simps [of maxLen "Suc n"] split: if_splits)
  qed
qed

lemma recvline_shorter: "recvline maxLen bytes = Some (line, rest) \<Longrightarrow> length rest < length bytes"
  by (cases maxLen) (auto simp: recvline_def intro: recvline_loop_shorter)

text \<open>\<open>recvHeaderBytes\<close>: \<open>Inr None\<close> when the connection ends before the blank line.\<close>

function recvHeaderBytes :: "nat \<Rightarrow> nat \<Rightarrow> string \<Rightarrow> string \<Rightarrow> string + (string \<times> string) option" where
  "recvHeaderBytes maxSize maxLineLen data bytes =
     (case recvline maxLineLen bytes of
        None \<Rightarrow> Inr None
      | Some (line, rest) \<Rightarrow>
          if line = [] \<or> line = [CR] then Inr (Some (data, rest))
          else if length (data @ line @ [LF]) > maxSize then Inl ''http: header too large''
          else recvHeaderBytes maxSize maxLineLen (data @ line @ [LF]) rest)"
  by pat_completeness auto
termination
  by (relation "measure (\<lambda>(maxSize, maxLineLen, data, bytes). length bytes)") (auto dest: recvline_shorter)

declare recvHeaderBytes.simps [simp del]

definition recvResponseHeader :: "string \<Rightarrow> string + (ResponseHeader \<times> string)" where
  "recvResponseHeader bytes =
     (case recvHeaderBytes (64 * 1024) 8192 [] bytes of
        Inl e \<Rightarrow> Inl e
      | Inr None \<Rightarrow> Inl ''http: response header read failed''
      | Inr (Some (data, rest)) \<Rightarrow> (case deserializeResponse data of Inl e \<Rightarrow> Inl e | Inr h \<Rightarrow> Inr (h, rest)))"

section \<open>Bodies\<close>

text \<open>The parts between the commas.\<close>

function header_tokens :: "string \<Rightarrow> string list" where
  "header_tokens v =
     takeWhile (\<lambda>c. c \<noteq> CHR '','') v #
     (case dropWhile (\<lambda>c. c \<noteq> CHR '','') v of [] \<Rightarrow> [] | c # rest \<Rightarrow> header_tokens rest)"
  by pat_completeness auto
termination
proof (relation "measure length")
  fix v c rest assume "dropWhile (\<lambda>c. c \<noteq> CHR '','') v = c # rest"
  then show "(rest, v) \<in> measure length" using length_dropWhile_le [of "\<lambda>c. c \<noteq> CHR '','' " v] by simp
qed simp

declare header_tokens.simps [simp del]

definition containsHeaderToken :: "string \<Rightarrow> string \<Rightarrow> bool" where
  "containsHeaderToken v token = list_ex (\<lambda>part. equalsIgnoreCase (trim part) token) (header_tokens v)"

definition parseContentLength :: "string \<Rightarrow> u64 option" where
  "parseContentLength v =
     (if v = [] then None
      else case stoull 10 v of None \<Rightarrow> None | Some (n, consumed) \<Rightarrow> if consumed = length v then Some n else None)"

text \<open>\<open>count\<close> bytes are appended, at most 1024 in a read; the size check adds with 64 bits.\<close>

function append_loop :: "(nat \<Rightarrow> nat) \<Rightarrow> nat \<Rightarrow> string \<Rightarrow> string \<Rightarrow> string + (string \<times> string)" where
  "append_loop avail count body bytes =
     (if count = 0 then Inr (body, bytes)
      else if bytes = [] then Inl ''http: response body read failed''
      else let (chunk, rest) = recv_bytes avail (min 1024 count) bytes
           in append_loop avail (count - length chunk) (body @ chunk) rest)"
  by pat_completeness auto
termination
  by (relation "measure (\<lambda>(avail, count, body, bytes). length bytes)") (auto simp: recv_bytes_def Let_def)

declare append_loop.simps [simp del]

definition appendBytes :: "(nat \<Rightarrow> nat) \<Rightarrow> u64 \<Rightarrow> u64 \<Rightarrow> string \<Rightarrow> string \<Rightarrow> string + (string \<times> string)" where
  "appendBytes avail count maxBody body bytes =
     (if of_nat (length body) + count > maxBody then Inl ''http: response body too large''
      else append_loop avail (unat count) body bytes)"

function skip_trailers :: "string \<Rightarrow> string option" where
  "skip_trailers bytes =
     (case recvline 8192 bytes of
        None \<Rightarrow> None
      | Some (line, rest) \<Rightarrow> if line = [CR] \<or> line = [] then Some rest else skip_trailers rest)"
  by pat_completeness auto
termination
  by (relation "measure length") (auto dest: recvline_shorter)

declare skip_trailers.simps [simp del]

definition chunk_size :: "string \<Rightarrow> u64 option" where
  "chunk_size line =
     (let s = takeWhile (\<lambda>c. c \<noteq> CHR '';'') (trim line)
      in case stoull 16 s of None \<Rightarrow> None | Some (n, consumed) \<Rightarrow> if consumed \<noteq> length s then None else Some n)"

lemma append_loop_shorter: "append_loop avail count body bytes = Inr (body1, rest) \<Longrightarrow> length rest \<le> length bytes"
proof (induction avail count body bytes rule: append_loop.induct)
  case (1 avail count body bytes)
  then show ?case
    using 1(2) unfolding append_loop.simps [of avail count body bytes]
    by (fastforce simp: recv_bytes_def Let_def split: if_splits)
qed

function recvChunkedBody :: "(nat \<Rightarrow> nat) \<Rightarrow> u64 \<Rightarrow> string \<Rightarrow> string \<Rightarrow> string + string" where
  "recvChunkedBody avail maxBody body bytes =
     (case recvline 8192 bytes of
        None \<Rightarrow> Inl ''http: chunk header read failed''
      | Some (line, rest) \<Rightarrow> (case chunk_size line of
          None \<Rightarrow> Inl ''http: malformed chunk size''
        | Some n \<Rightarrow>
            if n = 0 then (case skip_trailers rest of None \<Rightarrow> Inl ''http: chunk trailer read failed'' | Some _ \<Rightarrow> Inr body)
            else case appendBytes avail n maxBody body rest of
                Inl e \<Rightarrow> Inl e
              | Inr (body1, rest1) \<Rightarrow> (case recvline 2 rest1 of
                  None \<Rightarrow> Inl ''http: malformed chunk terminator''
                | Some (crlf, rest2) \<Rightarrow> if crlf \<noteq> [CR] then Inl ''http: malformed chunk terminator''
                    else recvChunkedBody avail maxBody body1 rest2)))"
  by pat_completeness auto
termination
  by (relation "measure (\<lambda>(avail, maxBody, body, bytes). length bytes)")
    (auto simp: appendBytes_def split: if_splits dest!: recvline_shorter append_loop_shorter)

declare recvChunkedBody.simps [simp del]

text \<open>The loop for a body of a given length, or up to the end of the connection.\<close>

function body_loop :: "(nat \<Rightarrow> nat) \<Rightarrow> bool \<Rightarrow> nat option \<Rightarrow> nat \<Rightarrow> string \<Rightarrow> string \<Rightarrow> string + string" where
  "body_loop avail broken contentLength maxBody body bytes =
     (if \<not> length body < maxBody then Inr body
      else if (case contentLength of Some n \<Rightarrow> length body \<ge> n | None \<Rightarrow> False) then Inr body
      else if bytes = [] then
        if broken then Inl ''http: response body read failed''
        else if contentLength \<noteq> None then Inl ''http: response body ended before Content-Length''
        else Inr body
      else let want = (case contentLength of Some n \<Rightarrow> min 1024 (n - length body) | None \<Rightarrow> 1024);
               (chunk, rest) = recv_bytes avail want bytes
           in body_loop avail broken contentLength maxBody (body @ chunk) rest)"
  by pat_completeness auto
termination
  by (relation "measure (\<lambda>(avail, broken, contentLength, maxBody, body, bytes). length bytes)")
    (auto simp: recv_bytes_def Let_def split: option.splits)

declare body_loop.simps [simp del]

definition recvBody :: "(nat \<Rightarrow> nat) \<Rightarrow> bool \<Rightarrow> ResponseHeader \<Rightarrow> u64 \<Rightarrow> string \<Rightarrow> string + string" where
  "recvBody avail broken header maxBody bytes =
     (if containsHeaderToken (getHeaderValue (header_fields header) ''Transfer-Encoding'') ''chunked''
      then recvChunkedBody avail maxBody [] bytes
      else
        let contentLength = parseContentLength (getHeaderValue (header_fields header) ''Content-Length'')
        in if (case contentLength of Some n \<Rightarrow> n > maxBody | None \<Rightarrow> False) then Inl ''http: response body too large''
           else case body_loop avail broken (map_option unat contentLength) (unat maxBody) [] bytes of
                  Inl e \<Rightarrow> Inl e
                | Inr body \<Rightarrow> if contentLength = None \<and> length body \<ge> unat maxBody then Inl ''http: response body too large'' else Inr body)"

section \<open>Requests\<close>

definition requestPathFor :: "HttpHostPort \<Rightarrow> string" where
  "requestPathFor e =
     (if path e = [] then ''/''
      else if hd (path e) = CHR ''?'' \<or> hd (path e) = CHR ''#'' then CHR ''/'' # path e else path e)"

definition hostHeaderFor :: "HttpHostPort \<Rightarrow> string" where
  "hostHeaderFor e = (if port e = 80 then host e else host e @ '':'' @ decimal_int (port e))"

definition isRedirectStatus :: "int \<Rightarrow> bool" where
  "isRedirectStatus c \<longleftrightarrow> c = 301 \<or> c = 302 \<or> c = 303 \<or> c = 307 \<or> c = 308"

definition resolveRedirectLocation :: "HttpHostPort \<Rightarrow> ResponseHeader \<Rightarrow> HttpHostPort option" where
  "resolveRedirectLocation current header =
     (if \<not> isRedirectStatus (statusCode header) then None
      else let location = getHeaderValue (header_fields header) ''Location''
           in if location = [] then None else resolveHttpLocation current location)"

record Response =
  response_header :: ResponseHeader
  response_body :: string
  response_endpoint :: HttpHostPort

definition get_request :: "HttpHostPort \<Rightarrow> (string \<times> string) list \<Rightarrow> RequestHeader" where
  "get_request current headers =
     (let req = newRequest METHOD_GET (requestPathFor current) (hostHeaderFor current)
      in req\<lparr>request_fields := fold (\<lambda>(k, v). setField k v) headers (setField ''Connection'' ''close'' (request_fields req))\<rparr>)"

text \<open>
  \<open>get\<close>. \<open>exchange\<close> is what happens on the network: for an endpoint and the text of the request, the error of
  connecting or sending, or the bytes that answer. The result comes with the endpoints asked, in order.
\<close>

fun get_loop :: "(HttpHostPort \<Rightarrow> string \<Rightarrow> string + string) \<Rightarrow> (nat \<Rightarrow> nat) \<Rightarrow> bool \<Rightarrow> u64 \<Rightarrow> (string \<times> string) list \<Rightarrow>
    nat \<Rightarrow> HttpHostPort \<Rightarrow> HttpHostPort list \<times> (string + Response)" where
  "get_loop exchange avail broken maxBody headers redirectsLeft current =
     (case exchange current (serializeRequest (get_request current headers)) of
        Inl e \<Rightarrow> ([current], Inl e)
      | Inr bytes \<Rightarrow> (case recvResponseHeader bytes of
          Inl e \<Rightarrow> ([current], Inl e)
        | Inr (header, rest) \<Rightarrow>
            if isRedirectStatus (statusCode header) then
              (case (redirectsLeft, resolveRedirectLocation current header) of
                (Suc n, Some redirected) \<Rightarrow>
                  let (asked, r) = get_loop exchange avail broken maxBody headers n (redirected\<lparr>path := requestPathFor redirected\<rparr>)
                  in (current # asked, r)
              | _ \<Rightarrow> ([current], Inl ''http: redirect cannot be followed''))
            else (case recvBody avail broken header maxBody rest of
                Inl e \<Rightarrow> ([current], Inl e)
              | Inr b \<Rightarrow> ([current], Inr \<lparr>response_header = header, response_body = b, response_endpoint = current\<rparr>))))"

declare get_loop.simps [simp del]

definition http_get :: "(HttpHostPort \<Rightarrow> string \<Rightarrow> string + string) \<Rightarrow> (nat \<Rightarrow> nat) \<Rightarrow> bool \<Rightarrow>
    int \<Rightarrow> int \<Rightarrow> u64 \<Rightarrow> (string \<times> string) list \<Rightarrow> HttpHostPort \<Rightarrow> HttpHostPort list \<times> (string + Response)" where
  "http_get exchange avail broken timeoutMs maxRedirects maxBody headers e =
     (if timeoutMs \<le> 0 then ([], Inl ''http: timeoutMs must be positive'')
      else if maxRedirects < 0 then ([], Inl ''http: redirect limit exceeded'')
      else get_loop exchange avail broken maxBody headers (nat maxRedirects) (e\<lparr>path := requestPathFor e\<rparr>))"

end
