(* ===== verification/HttpProps.thy ===== *)
theory HttpProps
  imports Http
begin

text \<open>
  What the HTTP client promises: headers and chunk sizes are read back as they were written, a body arrives
  whole however the network cuts it, its size stays within the limit but for one case, and a chain of
  redirects ends, asks only usable endpoints and never more than it may.
\<close>

section \<open>Fields\<close>

lemma ci_less_asym: "ci_less a b \<Longrightarrow> \<not> ci_less b a"
  by (induction a b rule: ci_less.induct) (auto split: if_splits)

definition sorted_fields :: "FieldMap \<Rightarrow> bool" where
  "sorted_fields fs \<longleftrightarrow> sorted_wrt ci_less (map fst fs)"

lemma field_append: "\<forall>k'\<in>set (map fst fs). ci_less k' k \<Longrightarrow> field_update f k v fs = fs @ [(k, v)]"
  by (induction fs) (auto dest: ci_less_asym)

definition field_ok :: "string \<times> string \<Rightarrow> bool" where
  "field_ok = (\<lambda>(k, v). CHR '':'' \<notin> set k \<and> LF \<notin> set k \<and> LF \<notin> set v \<and> (v = [] \<or> \<not> is_gap (hd v)))"

section \<open>Lines\<close>

lemma takeWhile_line: "LF \<notin> set l \<Longrightarrow> takeWhile (\<lambda>c. c \<noteq> LF) (l @ LF # rest) = l"
  by (subst takeWhile_append2) auto

lemma readLine_crlf: "LF \<notin> set l \<Longrightarrow> readLine (l @ CRLF @ rest) = (l, rest)"
proof -
  assume "LF \<notin> set l"
  then have "takeWhile (\<lambda>c. c \<noteq> LF) ((l @ [CR]) @ LF # rest) = l @ [CR]"
    by (intro takeWhile_line) (auto simp: LF_def CR_def)
  then show ?thesis by (simp add: readLine_def CRLF_def)
qed

lemma dropWhile_hd: "v = [] \<or> \<not> P (hd v) \<Longrightarrow> dropWhile P v = v"
  by (cases v) auto

lemma parseField_line:
  assumes "field_ok (k, v)"
  shows "parseField (k @ '': '' @ v) fs = Inr (field_update (\<lambda>old. old @ '', '' @ v) k v fs)"
proof -
  have "takeWhile (\<lambda>c. c \<noteq> CHR '':'') (k @ CHR '':'' # CHR '' '' # v) = k"
    using assms by (subst takeWhile_append2) (auto simp: field_ok_def)
  moreover have "dropWhile is_gap (CHR '' '' # v) = v"
    using assms dropWhile_hd [of v is_gap] by (auto simp: field_ok_def is_gap_def)
  ultimately show ?thesis by (simp add: parseField_def Let_def)
qed

definition field_lines :: "FieldMap \<Rightarrow> string list" where
  "field_lines fs = map (\<lambda>(k, v). k @ '': '' @ v) fs"

text \<open>Lines of a header, each with its end.\<close>

definition crlf_lines :: "string list \<Rightarrow> string" where
  "crlf_lines ls = concat (map (\<lambda>l. l @ CRLF) ls)"

lemma serializeFields_lines: "serializeFields fs = crlf_lines (field_lines fs) @ CRLF"
  by (induction fs) (auto simp: serializeFields_def crlf_lines_def field_lines_def)

lemma deserialize_fields:
  assumes "list_all field_ok gs" "sorted_fields (fs @ gs)" "blank = [] \<or> blank = CRLF"
  shows "deserializeFields (crlf_lines (field_lines gs) @ blank) fs = Inr (fs @ gs)"
  using assms
proof (induction gs arbitrary: fs)
  case Nil
  have "readLine (CRLF :: string) = ([], [])" using readLine_crlf [of "[]" "[]"] by simp
  then show ?case using Nil.prems(3) by (auto simp: deserializeFields.simps [of "CRLF"] deserializeFields.simps [of "[]"] crlf_lines_def field_lines_def)
next
  case (Cons g gs)
  obtain k v where g: "g = (k, v)" by (cases g)
  have ok: "field_ok (k, v)" using Cons.prems(1) g by simp
  let ?line = "k @ '': '' @ v" and ?rest = "crlf_lines (field_lines gs) @ blank"
  have "LF \<notin> set ?line" using ok by (auto simp: field_ok_def LF_def)
  then have rl: "readLine (?line @ CRLF @ ?rest) = (?line, ?rest)" by (rule readLine_crlf)
  have s: "crlf_lines (field_lines (g # gs)) @ blank = ?line @ CRLF @ ?rest" by (simp add: crlf_lines_def field_lines_def g)
  have "field_update (\<lambda>old. old @ '', '' @ v) k v fs = fs @ [(k, v)]"
    using Cons.prems(2) by (intro field_append) (auto simp: sorted_fields_def sorted_wrt_append g)
  then have "deserializeFields (crlf_lines (field_lines (g # gs)) @ blank) fs = deserializeFields ?rest (fs @ [(k, v)])"
    unfolding s deserializeFields.simps [of "?line @ CRLF @ ?rest"] rl
    by (simp only: parseField_line [OF ok] prod.case Let_def sum.case) simp
  also have "\<dots> = Inr (fs @ g # gs)" using Cons.IH [of "fs @ [(k, v)]"] Cons.prems by (simp add: g)
  finally show ?case .
qed

section \<open>Start lines\<close>

lemma is_gap_space [simp]: "is_gap CHR '' ''"
  by (simp add: is_gap_def)

lemma decimal_no_space: "CHR '' '' \<notin> set (decimal n)" "LF \<notin> set (decimal n)" "decimal n \<noteq> []" "\<not> is_gap (hd (decimal n))"
proof -
  have d: "list_all is_digit (decimal n)" by (rule decimal_digits)
  show "CHR '' '' \<notin> set (decimal n)" "LF \<notin> set (decimal n)"
    using d by (auto simp: list_all_iff LF_def is_digit_def char_code_def)
  show "decimal n \<noteq> []" by simp
  obtain c cs where "decimal n = c # cs" "is_digit c" using decimal_first by blast
  then show "\<not> is_gap (hd (decimal n))" by (auto simp: is_gap_def is_digit_def char_code_def)
qed

lemma space_split: "CHR '' '' \<notin> set a \<Longrightarrow> before_space (a @ CHR '' '' # b) = a \<and> from_space (a @ CHR '' '' # b) = CHR '' '' # b"
proof -
  assume a: "CHR '' '' \<notin> set a"
  have "takeWhile (\<lambda>c. c \<noteq> CHR '' '') (a @ CHR '' '' # b) = a"
    using a by (subst takeWhile_append2) auto
  moreover have "dropWhile (\<lambda>c. c \<noteq> CHR '' '') (a @ CHR '' '' # b) = CHR '' '' # b"
    using a by (subst dropWhile_append2) auto
  ultimately show ?thesis by (simp add: before_space_def from_space_def)
qed

lemma status_line:
  assumes "0 \<le> c" "c < 2 ^ 31" "t = [] \<or> \<not> is_gap (hd t)"
  shows "deserializeStatusLine (''HTTP/1.1 '' @ decimal_int c @ '' '' @ t) = Inr (c, t)"
proof -
  have d: "decimal_int c = decimal (nat c)" using assms(1) by (simp add: decimal_int_def)
  have l: "''HTTP/1.1 '' @ decimal_int c @ '' '' @ t = ''HTTP/1.1'' @ CHR '' '' # (decimal (nat c) @ CHR '' '' # t)" by (simp add: d)
  have s1: "from_space (''HTTP/1.1'' @ CHR '' '' # (decimal (nat c) @ CHR '' '' # t)) = CHR '' '' # decimal (nat c) @ CHR '' '' # t"
    using space_split [of "''HTTP/1.1''"] by simp
  have "dropWhile is_gap (CHR '' '' # decimal (nat c) @ CHR '' '' # t) = decimal (nat c) @ CHR '' '' # t"
    using decimal_no_space(3,4) [of "nat c"] by (cases "decimal (nat c)") (auto simp: is_gap_def)
  then have s2: "dropWhile is_gap (from_space (''HTTP/1.1'' @ CHR '' '' # (decimal (nat c) @ CHR '' '' # t))) = decimal (nat c) @ CHR '' '' # t"
    by (simp only: s1)
  have t: "dropWhile is_gap (CHR '' '' # t) = t" using assms(3) dropWhile_hd [of t is_gap] by simp
  have b: "before_space (decimal (nat c) @ CHR '' '' # t) = decimal (nat c)"
    "from_space (decimal (nat c) @ CHR '' '' # t) = CHR '' '' # t"
    using space_split [OF decimal_no_space(1), of "nat c" t] by simp_all
  have n: "stoi (decimal (nat c)) = Some (c, length (decimal (nat c)))" using stoi_decimal [of "nat c"] assms(1,2) by simp
  show ?thesis unfolding l deserializeStatusLine_def Let_def s2 b n option.case prod.case t unfolding s1 by simp
qed

definition response_ok :: "ResponseHeader \<Rightarrow> bool" where
  "response_ok h \<longleftrightarrow> 0 \<le> statusCode h \<and> statusCode h < 2 ^ 31 \<and> LF \<notin> set (statusString h) \<and>
     (statusString h = [] \<or> \<not> is_gap (hd (statusString h))) \<and> list_all field_ok (header_fields h) \<and> sorted_fields (header_fields h)"

definition status_text :: "ResponseHeader \<Rightarrow> string" where
  "status_text h = ''HTTP/1.1 '' @ decimal_int (statusCode h) @ '' '' @ statusString h"

definition response_lines :: "ResponseHeader \<Rightarrow> string list" where
  "response_lines h = status_text h # field_lines (header_fields h)"

lemma serializeResponse_lines: "serializeResponse h = crlf_lines (response_lines h) @ CRLF"
  by (simp add: serializeResponse_def response_lines_def status_text_def serializeFields_lines) (simp add: crlf_lines_def)

lemma status_text_line: "response_ok h \<Longrightarrow> LF \<notin> set (status_text h)"
  using decimal_no_space(2) [of "nat (statusCode h)"] by (auto simp: status_text_def response_ok_def decimal_int_def LF_def)

text \<open>The text is read back, also without the blank line, as it is collected from a connection.\<close>

lemma response_roundtrip:
  assumes "response_ok h" "blank = [] \<or> blank = CRLF"
  shows "deserializeResponse (crlf_lines (response_lines h) @ blank) = Inr h"
proof -
  let ?rest = "crlf_lines (field_lines (header_fields h)) @ blank"
  have "crlf_lines (response_lines h) @ blank = status_text h @ CRLF @ ?rest"
    by (simp add: response_lines_def crlf_lines_def)
  then have r: "readLine (crlf_lines (response_lines h) @ blank) = (status_text h, ?rest)"
    using readLine_crlf [OF status_text_line [OF assms(1)]] by simp
  have l: "deserializeStatusLine (status_text h) = Inr (statusCode h, statusString h)"
    unfolding status_text_def using assms(1) by (intro status_line) (auto simp: response_ok_def)
  have f: "deserializeFields ?rest [] = Inr (header_fields h)"
    using deserialize_fields [of "header_fields h" "[]", OF _ _ assms(2)] assms(1) by (simp add: response_ok_def)
  show ?thesis unfolding deserializeResponse_def r by (simp only: Let_def prod.case l f sum.case) simp
qed

definition request_ok :: "RequestHeader \<Rightarrow> bool" where
  "request_ok h \<longleftrightarrow> LF \<notin> set (uri h) \<and> CHR '' '' \<notin> set (uri h) \<and> uri h \<noteq> [] \<and> \<not> is_gap (hd (uri h)) \<and>
     list_all field_ok (request_fields h) \<and> sorted_fields (request_fields h)"

lemma request_line:
  assumes "CHR '' '' \<notin> set u" "u \<noteq> []" "\<not> is_gap (hd u)"
  shows "deserializeRequestLine (methodName m @ '' '' @ u @ '' HTTP/1.1'') = Inr (m, u)"
proof -
  have m: "CHR '' '' \<notin> set (methodName m)" "find (\<lambda>(m', n). n = methodName m) MethodStrings = Some (m, methodName m)"
    by (cases m; simp add: methodName_def MethodStrings_def)+
  have l: "methodName m @ '' '' @ u @ '' HTTP/1.1'' = methodName m @ CHR '' '' # (u @ CHR '' '' # ''HTTP/1.1'')" by simp
  have s1: "before_space (methodName m @ CHR '' '' # (u @ CHR '' '' # ''HTTP/1.1'')) = methodName m"
    "from_space (methodName m @ CHR '' '' # (u @ CHR '' '' # ''HTTP/1.1'')) = CHR '' '' # u @ CHR '' '' # ''HTTP/1.1''"
    using space_split [OF m(1)] by simp_all
  have g: "dropWhile is_gap (CHR '' '' # u @ CHR '' '' # ''HTTP/1.1'') = u @ CHR '' '' # ''HTTP/1.1''"
    using assms(2,3) by (cases u) auto
  have s2: "before_space (u @ CHR '' '' # ''HTTP/1.1'') = u" "from_space (u @ CHR '' '' # ''HTTP/1.1'') = CHR '' '' # ''HTTP/1.1''"
    using space_split [OF assms(1)] by simp_all
  show ?thesis unfolding l deserializeRequestLine_def Let_def s1 g s2 m(2) by simp
qed

lemma request_roundtrip:
  assumes "request_ok h"
  shows "deserializeRequest (serializeRequest h) = Inr h"
proof -
  let ?line = "methodName (req_method h) @ '' '' @ uri h @ '' HTTP/1.1''"
  have s: "serializeRequest h = ?line @ CRLF @ serializeFields (request_fields h)" by (simp add: serializeRequest_def)
  have "LF \<notin> set (methodName (req_method h))" by (cases "req_method h") (simp_all add: methodName_def MethodStrings_def LF_def)
  then have "LF \<notin> set ?line" using assms by (auto simp: request_ok_def LF_def)
  then have r: "readLine (serializeRequest h) = (?line, serializeFields (request_fields h))" unfolding s by (rule readLine_crlf)
  have l: "deserializeRequestLine ?line = Inr (req_method h, uri h)" using assms by (intro request_line) (auto simp: request_ok_def)
  have f: "deserializeFields (serializeFields (request_fields h)) [] = Inr (request_fields h)"
    using deserialize_fields [of "request_fields h" "[]" CRLF] assms by (simp add: request_ok_def serializeFields_lines)
  show ?thesis unfolding deserializeRequest_def r by (simp only: Let_def prod.case l f sum.case) simp
qed

section \<open>Reading the header from a connection\<close>

lemma recvline_loop_line:
  "LF \<notin> set l \<Longrightarrow> maxLen = 0 \<or> n + length l < maxLen \<Longrightarrow> recvline_loop maxLen n str (l @ LF # rest) = Some (str @ l, rest)"
proof (induction l arbitrary: n str)
  case Nil
  then show ?case by (auto simp: recvline_loop.simps [of maxLen n str "LF # rest"])
next
  case (Cons c l)
  then show ?case by (auto simp: recvline_loop.simps [of maxLen n str "c # l @ LF # rest"])
qed

lemma recvline_line: "LF \<notin> set l \<Longrightarrow> maxLen = 0 \<or> length l < maxLen \<Longrightarrow> recvline maxLen (l @ LF # rest) = Some (l, rest)"
  by (simp add: recvline_def recvline_loop_line)

lemma recvHeaderBytes_lines:
  assumes "list_all (\<lambda>l. LF \<notin> set l \<and> l \<noteq> [] \<and> length l + 1 < 8192) ls" "length data + length (crlf_lines ls) \<le> 64 * 1024"
  shows "recvHeaderBytes (64 * 1024) 8192 data (crlf_lines ls @ CRLF @ rest) = Inr (Some (data @ crlf_lines ls, rest))"
  using assms
proof (induction ls arbitrary: data)
  case Nil
  have "recvline 8192 (CRLF @ rest) = Some ([CR], rest)"
    using recvline_line [of "[CR]" 8192 rest] by (simp add: CRLF_def LF_def CR_def)
  then show ?case by (simp add: crlf_lines_def recvHeaderBytes.simps [of _ _ _ "CRLF @ rest"])
next
  case (Cons l ls)
  let ?rest = "crlf_lines ls @ CRLF @ rest"
  have eq: "crlf_lines (l # ls) @ CRLF @ rest = (l @ [CR]) @ LF # ?rest" by (simp add: crlf_lines_def CRLF_def)
  have "recvline 8192 ((l @ [CR]) @ LF # ?rest) = Some (l @ [CR], ?rest)"
    using Cons.prems(1) by (intro recvline_line) (auto simp: LF_def CR_def)
  moreover have "l \<noteq> []" "length data + (length l + 2) \<le> 64 * 1024"
    using Cons.prems by (simp_all add: crlf_lines_def CRLF_def)
  ultimately have "recvHeaderBytes (64 * 1024) 8192 data (crlf_lines (l # ls) @ CRLF @ rest) =
      recvHeaderBytes (64 * 1024) 8192 (data @ l @ CRLF) ?rest"
    unfolding eq by (subst recvHeaderBytes.simps) (simp add: CRLF_def)
  also have "\<dots> = Inr (Some ((data @ l @ CRLF) @ crlf_lines ls, rest))"
    by (rule Cons.IH) (use Cons.prems in \<open>simp_all add: crlf_lines_def CRLF_def\<close>)
  finally show ?case by (simp add: crlf_lines_def)
qed

lemma field_line_ok: "field_ok (k, v) \<Longrightarrow> LF \<notin> set (k @ '': '' @ v)"
  by (auto simp: field_ok_def LF_def)

lemma response_lines_plain: "response_ok h \<Longrightarrow> list_all (\<lambda>l. LF \<notin> set l \<and> l \<noteq> []) (response_lines h)"
  using status_text_line field_line_ok
  by (fastforce simp: response_lines_def field_lines_def response_ok_def list_all_iff status_text_def)

lemma recvResponseHeader_exact:
  assumes "response_ok h" "list_all (\<lambda>l. length l + 1 < 8192) (response_lines h)" "length (serializeResponse h) \<le> 64 * 1024"
  shows "recvResponseHeader (serializeResponse h @ rest) = Inr (h, rest)"
proof -
  have "list_all (\<lambda>l. LF \<notin> set l \<and> l \<noteq> [] \<and> length l + 1 < 8192) (response_lines h)"
    using response_lines_plain [OF assms(1)] assms(2) by (simp add: list_all_iff)
  then have "recvHeaderBytes (64 * 1024) 8192 [] (crlf_lines (response_lines h) @ CRLF @ rest) = Inr (Some (crlf_lines (response_lines h), rest))"
    using recvHeaderBytes_lines [of "response_lines h" "[]" rest] assms(3) by (simp add: serializeResponse_lines)
  then show ?thesis using response_roundtrip [OF assms(1), of "[]"] by (simp add: recvResponseHeader_def serializeResponse_lines)
qed

section \<open>Numbers\<close>

lemma xdigit_not_special: "is_xdigit c \<Longrightarrow> \<not> is_space c \<and> \<not> is_blank c \<and> c \<noteq> CHR ''-'' \<and> c \<noteq> CHR ''+'' \<and> c \<noteq> CHR '';'' \<and>
    c \<noteq> LF \<and> c \<noteq> CR \<and> to_lower c \<noteq> CHR ''x''"
proof -
  assume x: "is_xdigit c"
  have code: "char_code c' = char_code d \<Longrightarrow> c' = d" for c' d by (simp add: char_code_def)
  have "char_code (to_lower c) \<noteq> 120" using x by (auto simp: to_lower_def is_xdigit_def is_digit_def is_upper_def char_code_def)
  then have "to_lower c \<noteq> CHR ''x''" by (auto simp: char_code_def)
  then show ?thesis using x
    by (auto simp: is_xdigit_def is_digit_def is_space_def is_blank_def char_code_def LF_def CR_def)
qed

lemma hex_digits_ok: "list_all is_xdigit (hex_digits n) \<and> hex_digits n \<noteq> [] \<and> digits_value 16 (hex_digits n) = n"
proof (induction n rule: hex_digits.induct)
  case (1 n)
  have h: "is_xdigit (hex_upper (n mod 16))" "xdigit_val (hex_upper (n mod 16)) = n mod 16" using hex_upper_val [of "n mod 16"] by simp_all
  show ?case
  proof (cases "n < 16")
    case True
    then show ?thesis using h by (simp add: hex_digits.simps [of n] digits_value_def)
  next
    case False
    then have "list_all is_xdigit (hex_digits (n div 16))" "digits_value 16 (hex_digits (n div 16)) = n div 16" using 1 by simp_all
    then show ?thesis using h False by (simp add: hex_digits.simps [of n] digits_value_def)
  qed
qed

lemma skip_0x_hex: "list_all is_xdigit ds \<Longrightarrow> skip_0x 16 ds = ds"
  using xdigit_not_special by (auto simp: skip_0x_def split: list.splits)

lemma stoull_hex:
  assumes "n < 2 ^ 64"
  shows "stoull 16 (hex_digits n) = Some (of_nat n, length (hex_digits n))"
proof -
  let ?d = "hex_digits n"
  have x: "list_all is_xdigit ?d" "?d \<noteq> []" "digits_value 16 ?d = n" using hex_digits_ok by blast+
  then obtain c cs where c: "?d = c # cs" "is_xdigit c" by (cases ?d) auto
  have t: "dropWhile is_space ?d = ?d" "hd ?d \<noteq> CHR ''-''" "hd ?d \<noteq> CHR ''+''" using c xdigit_not_special by auto
  have w: "takeWhile is_xdigit ?d = ?d" using x(1) by (simp add: list_all_iff takeWhile_eq_all_conv)
  show ?thesis using t x(2,3) skip_0x_hex [OF x(1)] assms by (simp add: stoull_def Let_def w)
qed

lemma trim_plain: "s \<noteq> [] \<Longrightarrow> \<not> is_blank (hd s) \<Longrightarrow> \<not> is_blank (last s) \<Longrightarrow> list_all is_blank t \<Longrightarrow> trim (s @ t) = s"
proof -
  assume a: "s \<noteq> []" "\<not> is_blank (hd s)" "\<not> is_blank (last s)" "list_all is_blank t"
  have "dropWhile is_blank (s @ t) = s @ t" using a(1,2) by (cases s) auto
  moreover have "dropWhile is_blank (rev t @ rev s) = dropWhile is_blank (rev s)"
    using a(4) by (subst dropWhile_append2) (auto simp: list_all_iff)
  moreover have "dropWhile is_blank (rev s) = rev s" using a(1,3) by (cases s rule: rev_cases) auto
  ultimately show ?thesis by (simp add: trim_def)
qed

lemma hex_trim:
  assumes "list_all is_blank t"
  shows "trim (hex_digits n @ t) = hex_digits n"
proof -
  have x: "list_all is_xdigit (hex_digits n)" "hex_digits n \<noteq> []" using hex_digits_ok by blast+
  then have "is_xdigit (hd (hex_digits n))" "is_xdigit (last (hex_digits n))" by (simp_all add: list_all_iff)
  then show ?thesis using trim_plain [OF x(2) _ _ assms] xdigit_not_special by blast
qed

lemma hex_no_semicolon: "takeWhile (\<lambda>c. c \<noteq> CHR '';'') (hex_digits n) = hex_digits n"
  using hex_digits_ok [of n] xdigit_not_special by (auto simp: takeWhile_eq_all_conv list_all_iff)

lemma chunk_size_hex: "n < 2 ^ 64 \<Longrightarrow> chunk_size (hex_digits n @ [CR]) = Some (of_nat n)"
  using hex_trim [of "[CR]" n] by (simp add: chunk_size_def Let_def hex_no_semicolon stoull_hex is_blank_def CR_def)

lemma chunk_header_roundtrip: "deserializeChunkHeader (serializeChunkHeader n) = Inr n"
proof -
  have b: "list_all is_blank CRLF" by (simp add: CRLF_def is_blank_def CR_def LF_def)
  have ne: "hex_digits (unat n) \<noteq> []" using hex_digits_ok by blast
  have w: "takeWhile (\<lambda>c. c \<noteq> CHR '';'') (hex_digits (unat n) @ CRLF) = hex_digits (unat n) @ CRLF"
    using hex_no_semicolon [of "unat n"] by (simp add: takeWhile_append takeWhile_eq_all_conv CRLF_def CR_def LF_def)
  have "unat n < 2 ^ 64" using unsigned_less [of n] by simp
  then show ?thesis using hex_trim [OF b] ne stoull_hex [of "unat n"]
    unfolding deserializeChunkHeader_def serializeChunkHeader_def w by simp
qed

section \<open>Bodies\<close>

lemma append_loop_exact: "count \<le> length bytes \<Longrightarrow>
    append_loop avail count body bytes = Inr (body @ take count bytes, drop count bytes)"
proof (induction avail count body bytes rule: append_loop.induct)
  case (1 avail count body bytes)
  show ?case
  proof (cases "count = 0 \<or> bytes = []")
    case True
    then show ?thesis using 1(2) by (auto simp: append_loop.simps [of avail count body bytes])
  next
    case False
    define n where "n = min (min 1024 count) (max 1 (avail (length bytes)))"
    have n: "recv_bytes avail (min 1024 count) bytes = (take n bytes, drop n bytes)" "1 \<le> n" "n \<le> count"
      using False by (auto simp: recv_bytes_def n_def Let_def)
    have l: "length (take n bytes) = n" using n(3) 1(2) by simp
    have "append_loop avail (count - n) (body @ take n bytes) (drop n bytes) =
        Inr ((body @ take n bytes) @ take (count - n) (drop n bytes), drop (count - n) (drop n bytes))"
      using 1(1) [OF _ _ n(1) [symmetric] refl] False n 1(2) l by simp
    also have "(body @ take n bytes) @ take (count - n) (drop n bytes) = body @ take count bytes"
      using n(3) take_add [of n "count - n" bytes] by simp
    also have "drop (count - n) (drop n bytes) = drop count bytes" using n(3) by simp
    finally show ?thesis using False n(1) l by (simp add: append_loop.simps [of avail count body bytes])
  qed
qed

lemma body_loop_exact:
  assumes "n \<le> maxBody" "length acc \<le> n" "n \<le> length acc + length bytes"
  shows "body_loop avail broken (Some n) maxBody acc bytes = Inr (acc @ take (n - length acc) bytes)"
  using assms
proof (induction "length bytes" arbitrary: acc bytes rule: less_induct)
  case less
  show ?case
  proof (cases "length acc = n")
    case True
    then show ?thesis by (simp add: body_loop.simps [of _ _ _ _ acc])
  next
    case False
    then have lt: "length acc < n" "length acc < maxBody" "bytes \<noteq> []" using less.prems by auto
    define k where "k = min (min 1024 (n - length acc)) (max 1 (avail (length bytes)))"
    have k: "recv_bytes avail (min 1024 (n - length acc)) bytes = (take k bytes, drop k bytes)" "1 \<le> k" "k \<le> n - length acc"
      using lt by (auto simp: recv_bytes_def k_def Let_def)
    have l: "length (take k bytes) = k" using k(3) less.prems(3) by simp
    have "body_loop avail broken (Some n) maxBody acc bytes =
        body_loop avail broken (Some n) maxBody (acc @ take k bytes) (drop k bytes)"
      using lt k(1) by (simp add: body_loop.simps [of _ _ _ _ acc])
    also have "\<dots> = Inr ((acc @ take k bytes) @ take (n - length (acc @ take k bytes)) (drop k bytes))"
      by (rule less.hyps) (use k lt l less.prems in simp_all)
    also have "(acc @ take k bytes) @ take (n - length (acc @ take k bytes)) (drop k bytes) = acc @ take (n - length acc) bytes"
    proof -
      have "take (n - length acc) bytes = take k bytes @ take (n - length acc - k) (drop k bytes)"
        using k(3) by (metis take_add le_add_diff_inverse)
      then show ?thesis by (simp add: l del: length_take)
    qed
    finally show ?thesis .
  qed
qed

text \<open>A body up to the end of the connection, when it is shorter than the limit.\<close>

lemma body_loop_close:
  assumes "length acc + length bytes < maxBody"
  shows "body_loop avail False None maxBody acc bytes = Inr (acc @ bytes)"
  using assms
proof (induction "length bytes" arbitrary: acc bytes rule: less_induct)
  case less
  show ?case
  proof (cases "bytes = []")
    case True
    then show ?thesis using less.prems by (simp add: body_loop.simps [of _ _ _ _ acc])
  next
    case False
    define k where "k = min 1024 (max 1 (avail (length bytes)))"
    have k: "recv_bytes avail 1024 bytes = (take k bytes, drop k bytes)" "1 \<le> k"
      by (auto simp: recv_bytes_def k_def Let_def)
    have "body_loop avail False None maxBody acc bytes = body_loop avail False None maxBody (acc @ take k bytes) (drop k bytes)"
      using False k(1) less.prems by (simp add: body_loop.simps [of _ _ _ _ acc])
    also have "\<dots> = Inr ((acc @ take k bytes) @ drop k bytes)"
      by (rule less.hyps) (use k False less.prems in auto)
    finally show ?thesis by simp
  qed
qed

text \<open>However it ends, the loop returns at most \<open>maxBody\<close> and a read more; of a given length, not more.\<close>

lemma body_loop_bound:
  "body_loop avail broken (Some n) maxBody acc bytes = Inr b \<Longrightarrow> length acc \<le> n \<Longrightarrow> length b \<le> n"
proof (induction "length bytes" arbitrary: acc bytes rule: less_induct)
  case less
  show ?case
  proof (cases "length acc < maxBody \<and> length acc < n \<and> bytes \<noteq> []")
    case True
    define k where "k = min (min 1024 (n - length acc)) (max 1 (avail (length bytes)))"
    have k: "recv_bytes avail (min 1024 (n - length acc)) bytes = (take k bytes, drop k bytes)" "1 \<le> k" "k \<le> n - length acc"
      using True by (auto simp: recv_bytes_def k_def Let_def)
    have "body_loop avail broken (Some n) maxBody (acc @ take k bytes) (drop k bytes) = Inr b"
      using less.prems(1) True k(1) by (simp add: body_loop.simps [of _ _ _ _ acc])
    then show ?thesis using less.hyps [of "drop k bytes" "acc @ take k bytes"] True k(2,3) by (simp add: min.coboundedI2)
  next
    case False
    then show ?thesis using less.prems by (auto simp: body_loop.simps [of _ _ _ _ acc] split: if_splits)
  qed
qed

text \<open>A body in chunks, as a server sends it: extensions after the sizes, trailers after the last chunk.\<close>

definition chunk_text :: "string \<Rightarrow> string" where
  "chunk_text c = hex_digits (length c) @ CRLF @ c @ CRLF"

definition chunked_text :: "string list \<Rightarrow> string list \<Rightarrow> string" where
  "chunked_text cs trailers = concat (map chunk_text cs) @ hex_digits 0 @ CRLF @ crlf_lines trailers @ CRLF"

lemma skip_trailers_lines:
  "list_all (\<lambda>l. LF \<notin> set l \<and> l \<noteq> [] \<and> length l + 1 < 8192) ls \<Longrightarrow> skip_trailers (crlf_lines ls @ CRLF @ rest) = Some rest"
proof (induction ls)
  case Nil
  have "recvline 8192 (CRLF @ rest) = Some ([CR], rest)"
    using recvline_line [of "[CR]" 8192 rest] by (simp add: CRLF_def LF_def CR_def)
  then show ?case by (simp add: crlf_lines_def skip_trailers.simps [of "CRLF @ rest"])
next
  case (Cons l ls)
  let ?rest = "crlf_lines ls @ CRLF @ rest"
  have eq: "crlf_lines (l # ls) @ CRLF @ rest = (l @ [CR]) @ LF # ?rest" by (simp add: crlf_lines_def CRLF_def)
  have "recvline 8192 ((l @ [CR]) @ LF # ?rest) = Some (l @ [CR], ?rest)"
    using Cons.prems by (intro recvline_line) (auto simp: LF_def CR_def)
  then show ?case unfolding eq using Cons by (subst skip_trailers.simps) simp
qed

lemma hex_line:
  assumes "n < 2 ^ 64"
  shows "recvline 8192 (hex_digits n @ CRLF @ rest) = Some (hex_digits n @ [CR], rest)"
proof -
  have x: "list_all is_xdigit (hex_digits n)" using hex_digits_ok by blast
  have small: "m < 16 ^ k \<Longrightarrow> 0 < k \<Longrightarrow> length (hex_digits m) \<le> k" for m k
  proof (induction k arbitrary: m)
    case (Suc k)
    then show ?case
    proof (cases "m < 16")
      case False
      then have "0 < k" using Suc.prems(1) by (cases k) auto
      moreover have "m div 16 < 16 ^ k" using Suc.prems(1) by (simp add: less_mult_imp_div_less mult.commute)
      ultimately show ?thesis using Suc.IH [of "m div 16"] False by (simp add: hex_digits.simps [of m])
    qed (simp add: hex_digits.simps [of m])
  qed simp
  have "length (hex_digits n) \<le> 16" using small [of n 16] assms by simp
  moreover have "LF \<notin> set (hex_digits n @ [CR])" using x xdigit_not_special by (auto simp: list_all_iff CR_def LF_def)
  ultimately show ?thesis using recvline_line [of "hex_digits n @ [CR]" 8192 rest] by (simp add: CRLF_def)
qed

text \<open>One chunk announced with its true size: too much for the limit, or appended.\<close>

lemma recv_chunk:
  assumes "c \<noteq> []" "length acc + length c < 2 ^ 64"
  shows "recvChunkedBody avail maxBody acc (chunked_text (c # cs) trailers @ rest) =
    (if length acc + length c > unat maxBody then Inl ''http: response body too large''
     else recvChunkedBody avail maxBody (acc @ c) (chunked_text cs trailers @ rest))"
proof -
  let ?n = "length c" and ?rest = "chunked_text cs trailers @ rest"
  have n: "?n < 2 ^ 64" "length acc + ?n < 2 ^ 64" "0 < ?n" using assms by auto
  have e: "chunked_text (c # cs) trailers @ rest = hex_digits ?n @ CRLF @ c @ CRLF @ ?rest" by (simp add: chunked_text_def chunk_text_def)
  have u: "unat (of_nat ?n :: u64) = ?n" "unat (of_nat (length acc) + of_nat ?n :: u64) = length acc + ?n"
    using n(1,2) by (simp_all add: unsigned_of_nat take_bit_nat_eq_self flip: of_nat_add)
  have nz: "(of_nat ?n :: u64) \<noteq> 0" using u(1) n(3) by (metis unsigned_0 less_irrefl)
  have "of_nat (length acc) + of_nat ?n > maxBody \<longleftrightarrow> length acc + ?n > unat maxBody" using u(2) by (simp add: word_less_nat_alt)
  then have a: "appendBytes avail (of_nat ?n) maxBody acc (c @ CRLF @ ?rest) =
      (if length acc + ?n > unat maxBody then Inl ''http: response body too large'' else Inr (acc @ c, CRLF @ ?rest))"
    using append_loop_exact [of ?n "c @ CRLF @ ?rest" avail acc] by (simp add: appendBytes_def u(1))
  have crlf: "recvline 2 (CRLF @ ?rest) = Some ([CR], ?rest)"
    using recvline_line [of "[CR]" 2 ?rest] by (simp add: CRLF_def LF_def CR_def)
  show ?thesis
    unfolding e recvChunkedBody.simps [of _ _ _ "hex_digits ?n @ CRLF @ _"] hex_line [OF n(1)] option.case prod.case chunk_size_hex [OF n(1)] a
    using nz crlf by simp
qed

lemma recv_chunks:
  assumes "list_all (\<lambda>c. c \<noteq> []) cs" "length acc + length (concat cs) \<le> unat maxBody"
    and "list_all (\<lambda>l. LF \<notin> set l \<and> l \<noteq> [] \<and> length l + 1 < 8192) trailers"
  shows "recvChunkedBody avail maxBody acc (chunked_text cs trailers @ rest) = Inr (acc @ concat cs)"
  using assms(1,2)
proof (induction cs arbitrary: acc)
  case Nil
  have e: "chunked_text [] trailers @ rest = hex_digits 0 @ CRLF @ crlf_lines trailers @ CRLF @ rest" by (simp add: chunked_text_def)
  show ?case unfolding e recvChunkedBody.simps [of _ _ _ "hex_digits 0 @ CRLF @ _"]
    using hex_line [of 0 "crlf_lines trailers @ CRLF @ rest"] chunk_size_hex [of 0] skip_trailers_lines [OF assms(3), of rest] by simp
next
  case (Cons c cs)
  have "unat maxBody < 2 ^ 64" using unsigned_less [of maxBody] by simp
  then have "length acc + length c < 2 ^ 64" using Cons.prems by simp
  then show ?case using recv_chunk [of c acc] Cons by simp
qed

lemma recv_chunks_too_large:
  "list_all (\<lambda>c. c \<noteq> []) cs \<Longrightarrow> length acc \<le> unat maxBody \<Longrightarrow> unat maxBody < length acc + length (concat cs) \<Longrightarrow>
   length acc + length (concat cs) < 2 ^ 64 \<Longrightarrow>
   recvChunkedBody avail maxBody acc (chunked_text cs trailers @ rest) = Inl ''http: response body too large''"
proof (induction cs arbitrary: acc)
  case (Cons c cs)
  then show ?case using recv_chunk [of c acc] by simp
qed simp

section \<open>Redirects\<close>

lemma requestPathFor_normal: "requestPathFor e = normalizeHttpPath (path e)"
  by (simp add: requestPathFor_def normalizeHttpPath_def)

lemma requestPath_ok: "endpoint_ok e \<Longrightarrow> endpoint_ok (e\<lparr>path := requestPathFor e\<rparr>)"
proof -
  assume e: "endpoint_ok e"
  then have "url_ok e" by (simp add: endpoint_ok_def)
  then show ?thesis using normalize_slash [of e] by (simp add: endpoint_ok_def url_ok_def requestPathFor_normal)
qed

lemma get_loop_asked:
  assumes "endpoint_ok current" "get_loop exchange avail broken maxBody headers n current = (asked, r)"
  shows "list_all endpoint_ok asked \<and> asked \<noteq> [] \<and> hd asked = current \<and> length asked \<le> n + 1 \<and>
    (\<forall>resp. r = Inr resp \<longrightarrow> response_endpoint resp = List.last asked \<and> \<not> isRedirectStatus (statusCode (response_header resp)))"
  using assms
proof (induction n arbitrary: current asked r)
  case 0
  then show ?case by (auto simp: get_loop.simps [of _ _ _ _ _ 0] split: sum.splits prod.splits if_splits)
next
  case (Suc n)
  show ?case
  proof (cases "\<exists>bytes header rest redirected. exchange current (serializeRequest (get_request current headers)) = Inr bytes \<and>
      recvResponseHeader bytes = Inr (header, rest) \<and> isRedirectStatus (statusCode header) \<and>
      resolveRedirectLocation current header = Some redirected")
    case True
    then obtain bytes header rest redirected where h: "exchange current (serializeRequest (get_request current headers)) = Inr bytes"
      "recvResponseHeader bytes = Inr (header, rest)" "isRedirectStatus (statusCode header)"
      "resolveRedirectLocation current header = Some redirected" by blast
    let ?next = "redirected\<lparr>path := requestPathFor redirected\<rparr>"
    have "endpoint_ok redirected"
      using h(4) resolve_ok [OF Suc.prems(1)] by (auto simp: resolveRedirectLocation_def Let_def split: if_splits)
    then have ok: "endpoint_ok ?next" by (rule requestPath_ok)
    obtain asked2 r2 where g: "get_loop exchange avail broken maxBody headers n ?next = (asked2, r2)" by fastforce
    have "asked = current # asked2" "r = r2"
      using Suc.prems(2) h g by (simp_all add: get_loop.simps [of _ _ _ _ _ "Suc n"])
    then show ?thesis using Suc.IH [OF ok g] Suc.prems(1) by simp
  next
    case False
    then show ?thesis using Suc.prems
      by (fastforce simp: get_loop.simps [of _ _ _ _ _ "Suc n"] split: sum.splits prod.splits if_splits option.splits)
  qed
qed

section \<open>Properties\<close>

text \<open>
  headers. A response whose lines hold no line feed and whose fields are in the order of their names is
  read back from its own text, whatever follows on the connection, within the limits of 8 KiB a line and
  64 KiB; so is a request from its text.
\<close>

theorem http_header_roundtrip:
  assumes "response_ok h" "list_all (\<lambda>l. length l + 1 < 8192) (response_lines h)" "length (serializeResponse h) \<le> 64 * 1024" "request_ok q"
  shows "recvResponseHeader (serializeResponse h @ rest) = Inr (h, rest) \<and> deserializeRequest (serializeRequest q) = Inr q"
  using recvResponseHeader_exact [OF assms(1-3)] request_roundtrip [OF assms(4)] by simp

definition sample_response :: ResponseHeader where
  "sample_response = \<lparr>statusCode = 200, statusString = ''All is well'', header_fields = [(''content-Length'', ''5''), (''Host'', ''a'')]\<rparr>"

lemma sample_response_ok: "response_ok sample_response" "list_all (\<lambda>l. length l + 1 < 8192) (response_lines sample_response)"
  "length (serializeResponse sample_response) \<le> 64 * 1024"
proof -
  have d: "decimal_int 200 = ''200''" by code_simp
  show "response_ok sample_response"
    by (simp add: response_ok_def sample_response_def field_ok_def LF_def is_gap_def sorted_fields_def to_lower_def is_upper_def char_code_def)
  show "list_all (\<lambda>l. length l + 1 < 8192) (response_lines sample_response)"
    by (simp add: response_lines_def sample_response_def field_lines_def status_text_def d)
  show "length (serializeResponse sample_response) \<le> 64 * 1024"
    by (simp add: serializeResponse_def sample_response_def serializeFields_def CRLF_def d)
qed

theorem http_header_roundtrip_witness:
  "recvResponseHeader (serializeResponse sample_response @ ''hello'') = Inr (sample_response, ''hello'') \<and>
   deserializeRequest (serializeRequest (newRequest METHOD_GET ''/a'' ''kiwi'')) = Inr (newRequest METHOD_GET ''/a'' ''kiwi'')"
proof -
  have "request_ok (newRequest METHOD_GET ''/a'' ''kiwi'')"
    by (simp add: request_ok_def newRequest_def setField_def field_ok_def LF_def is_gap_def sorted_fields_def)
  from http_header_roundtrip [OF sample_response_ok this] show ?thesis .
qed

definition has_chunked :: "ResponseHeader \<Rightarrow> bool" where
  "has_chunked h \<longleftrightarrow> containsHeaderToken (getHeaderValue (header_fields h) ''Transfer-Encoding'') ''chunked''"

definition content_length :: "ResponseHeader \<Rightarrow> u64 option" where
  "content_length h = parseContentLength (getHeaderValue (header_fields h) ''Content-Length'')"

text \<open>
  C34: bodies. However the network cuts the bytes, a body in chunks, each announced with its true size, and with any
  trailers comes out as the concatenation of the chunks if that fits the limit, and is refused if it does not; a body
  of a given length comes out exactly, is refused when it is larger than the limit before a byte is read, and reading it
  never takes more than that length. A server that lies about the size of a chunk is another matter
  (\<open>chunk_size_wraps\<close>): the check adds with 64 bits and can be passed with a size near \<open>2 ^ 64\<close>.
\<close>

theorem http_body_exact:
  assumes "list_all (\<lambda>c. c \<noteq> []) cs" "list_all (\<lambda>l. LF \<notin> set l \<and> l \<noteq> [] \<and> length l + 1 < 8192) trailers"
    and "length (concat cs) < 2 ^ 64" "has_chunked h" "\<not> has_chunked g" "content_length g = Some n"
  shows "recvBody avail broken h maxBody (chunked_text cs trailers @ rest) =
      (if length (concat cs) \<le> unat maxBody then Inr (concat cs) else Inl ''http: response body too large'') \<and>
    (n \<le> maxBody \<and> unat n \<le> length bytes \<longrightarrow> recvBody avail broken g maxBody bytes = Inr (take (unat n) bytes)) \<and>
    (n > maxBody \<longrightarrow> recvBody avail broken g maxBody bytes = Inl ''http: response body too large'') \<and>
    (\<forall>b. recvBody avail broken g maxBody bytes = Inr b \<longrightarrow> length b \<le> unat n)"
proof (intro conjI impI allI)
  show "recvBody avail broken h maxBody (chunked_text cs trailers @ rest) =
      (if length (concat cs) \<le> unat maxBody then Inr (concat cs) else Inl ''http: response body too large'')"
    using recv_chunks [OF assms(1) _ assms(2), of "[]" maxBody avail rest] recv_chunks_too_large [OF assms(1), of "[]" maxBody avail trailers rest]
      assms(3,4) by (simp add: recvBody_def has_chunked_def)
  have g: "recvBody avail broken g maxBody bytes = (if n > maxBody then Inl ''http: response body too large''
      else body_loop avail broken (Some (unat n)) (unat maxBody) [] bytes)"
    using assms(5,6) by (simp add: recvBody_def has_chunked_def content_length_def Let_def split: sum.splits)
  show "recvBody avail broken g maxBody bytes = Inr (take (unat n) bytes)" if "n \<le> maxBody \<and> unat n \<le> length bytes"
    using that body_loop_exact [of "unat n" "unat maxBody" "[]" bytes avail broken] g by (simp add: word_le_nat_alt not_less)
  show "recvBody avail broken g maxBody bytes = Inl ''http: response body too large''" if "n > maxBody" using that g by simp
  show "length b \<le> unat n" if "recvBody avail broken g maxBody bytes = Inr b" for b
    using that g body_loop_bound [of avail broken "unat n" "unat maxBody" "[]" bytes b] by (simp split: if_splits)
qed

definition chunked_response :: ResponseHeader where
  "chunked_response = \<lparr>statusCode = 200, statusString = ''OK'', header_fields = [(''Transfer-Encoding'', ''gzip, Chunked'')]\<rparr>"

lemma sample_fields:
  "getField ''Transfer-Encoding'' (header_fields chunked_response) = ''gzip, Chunked''"
  "getField ''Transfer-Encoding'' (header_fields sample_response) = []"
  "getField ''Content-Length'' (header_fields sample_response) = ''5''"
  "equalsIgnoreCase ''Chunked'' ''chunked''" "\<not> equalsIgnoreCase [] ''chunked''"
  by code_simp+

lemma sample_bodies: "has_chunked chunked_response" "\<not> has_chunked sample_response" "content_length sample_response = Some 5"
  using sample_fields by (simp_all add: has_chunked_def content_length_def getHeaderValue_def
      containsHeaderToken_def header_tokens.simps trim_def is_blank_def char_code_def parseContentLength_def
      stoull_def is_space_def skip_0x_def is_digit_def digits_value_def xdigit_val_def Let_def del: equalsIgnoreCase.simps)

theorem http_body_exact_witness:
  "recvBody (\<lambda>_. 3) False chunked_response 10 (chunked_text [''hello'', '' you''] [''X: y''] @ ''more'') = Inr ''hello you'' \<and>
   recvBody (\<lambda>_. 3) False chunked_response 8 (chunked_text [''hello'', '' you''] [''X: y''] @ ''more'') = Inl ''http: response body too large'' \<and>
   recvBody (\<lambda>_. 2) False sample_response 10 ''hello you'' = Inr ''hello''"
  using http_body_exact [of "[''hello'', '' you'']" "[''X: y'']" chunked_response sample_response "5" "\<lambda>_. 3" False "10" "''more''" "''hello you''"]
    http_body_exact [of "[''hello'', '' you'']" "[''X: y'']" chunked_response sample_response "5" "\<lambda>_. 3" False "8" "''more''" "''hello you''"]
    http_body_exact [of "[]" "[]" chunked_response sample_response "5" "\<lambda>_. 2" False "10" "''more''" "''hello you''"] sample_bodies
  by (simp add: LF_def)

text \<open>
  redirects. Whatever the servers answer, \<open>get\<close> from a usable endpoint ends after at most
  \<open>maxRedirects + 1\<close> requests, each to a usable endpoint, and a response it returns is no redirect and names the
  endpoint asked last; a redirect that names neither a scheme nor an authority never leaves the host.
\<close>

theorem http_redirects_end:
  assumes "endpoint_ok e" "0 \<le> maxRedirects" "http_get exchange avail broken timeoutMs maxRedirects maxBody headers e = (asked, r)"
  shows "list_all endpoint_ok asked \<and> int (length asked) \<le> maxRedirects + 1 \<and>
    (\<forall>resp. r = Inr resp \<longrightarrow> response_endpoint resp = List.last asked \<and> \<not> isRedirectStatus (statusCode (response_header resp))) \<and>
    (\<forall>l t. resolveHttpLocation e l = Some t \<and> \<not> startsWithIgnoreCase (trim l) ''http://'' \<and> take 2 (trim l) \<noteq> ''//'' \<longrightarrow>
       host t = host e \<and> port t = port e)"
proof -
  have g: "list_all endpoint_ok asked \<and> int (length asked) \<le> maxRedirects + 1 \<and>
    (\<forall>resp. r = Inr resp \<longrightarrow> response_endpoint resp = List.last asked \<and> \<not> isRedirectStatus (statusCode (response_header resp)))"
  proof (cases "timeoutMs \<le> 0")
    case True
    then show ?thesis using assms(2,3) by (auto simp: http_get_def)
  next
    case False
    then have "get_loop exchange avail broken maxBody headers (nat maxRedirects) (e\<lparr>path := requestPathFor e\<rparr>) = (asked, r)"
      using assms(2,3) by (simp add: http_get_def)
    from get_loop_asked [OF requestPath_ok [OF assms(1)] this] show ?thesis using assms(2) by auto
  qed
  then show ?thesis using resolve_ok [OF assms(1)] by blast
qed

theorem http_redirects_end_witness:
  "\<forall>answer. length (fst (http_get (\<lambda>e req. Inr answer) (\<lambda>_. 1) False 5000 2 100 [] \<lparr>host = ''kiwi'', port = 8073, path = ''/a''\<rparr>)) \<le> 3"
proof
  fix answer
  let ?g = "http_get (\<lambda>e req. Inr answer) (\<lambda>_. 1) False 5000 2 100 [] \<lparr>host = ''kiwi'', port = 8073, path = ''/a''\<rparr>"
  have "endpoint_ok \<lparr>host = ''kiwi'', port = 8073, path = ''/a''\<rparr>" by (simp add: endpoint_ok_def url_ok_def no_char_of_def)
  from http_redirects_end [OF this, of 2 "\<lambda>e req. Inr answer" "\<lambda>_. 1" False 5000 100 "[]" "fst ?g" "snd ?g"]
  show "length (fst ?g) \<le> 3" by simp
qed

text \<open>
  The limit on chunked bodies is computed with 64 bits: after a body that is not empty, a chunk size of
  \<open>2 ^ 64\<close> less the length of the body passes the check for every limit, and every byte the server sends is
  then appended.
\<close>

lemma unat_small: "m < 2 ^ 64 \<Longrightarrow> unat (of_nat m :: u64) = m"
  by (simp add: unsigned_of_nat take_bit_nat_eq_self)

lemma chunk_size_wraps:
  assumes "acc \<noteq> []" "length acc < 2 ^ 64"
  shows "appendBytes avail (- of_nat (length acc)) maxBody acc bytes = append_loop avail (2 ^ 64 - length acc) acc bytes"
proof -
  have "(of_nat (length acc) :: u64) + of_nat (2 ^ 64 - length acc) = of_nat (2 ^ 64)"
    using assms(2) by (simp only: of_nat_add [symmetric] le_add_diff_inverse less_imp_le)
  also have "(of_nat (2 ^ 64) :: u64) = 0" by simp
  finally have "- (of_nat (length acc) :: u64) = of_nat (2 ^ 64 - length acc)" by (simp only: add_eq_0_iff)
  then have "unat (- of_nat (length acc) :: u64) = unat (of_nat (2 ^ 64 - length acc) :: u64)" by (rule arg_cong)
  also have "\<dots> = 2 ^ 64 - length acc" by (rule unat_small) (use assms in simp)
  finally have "unat (- of_nat (length acc) :: u64) = 2 ^ 64 - length acc" .
  then show ?thesis by (simp add: appendBytes_def)
qed

lemma minus_one_is_a_chunk_size: "chunk_size ''-1'' = Some (- 1)"
  by (simp add: chunk_size_def trim_def is_blank_def stoull_def is_space_def skip_0x_def is_xdigit_def is_digit_def digits_value_def
      xdigit_val_def char_code_def Let_def)

text \<open>A body without a length ends when a read times out, as if the connection had been closed.\<close>

lemma silent_truncation:
  assumes "\<not> has_chunked h" "content_length h = None" "length sent < unat maxBody"
  shows "recvBody avail False h maxBody sent = Inr sent"
  using assms body_loop_close [of "[]" sent "unat maxBody" avail]
  by (simp add: recvBody_def has_chunked_def content_length_def)

end
