(* ===== verification/WebSock.thy ===== *)
theory WebSock
  imports Prelude
begin

text \<open>
  The web socket client of \<open>core/src/utils/proto/websock.cpp\<close> once the connection is open: building and
  reading frames, the handling of one inbound frame, the receive loop and the short-write loop.

  The mask bytes come from the random engine: the argument \<open>key\<close>. What the socket delivers and accepts
  is an argument too. Callbacks and frames sent are events; an exception ends the loop and is \<open>failed\<close>.
\<close>

unbundle bit_operations_syntax

section \<open>Frames\<close>

definition WIRE_TEXT :: u8 where "WIRE_TEXT = 0x81"
definition WIRE_BINARY :: u8 where "WIRE_BINARY = 0x82"
definition WIRE_CLOSE :: u8 where "WIRE_CLOSE = 0x88"
definition WIRE_PONG :: u8 where "WIRE_PONG = 0x8A"

definition MAX_FRAME_PAYLOAD :: nat where "MAX_FRAME_PAYLOAD = 1024 * 1024"

definition masked :: "u8 list \<Rightarrow> u8 list \<Rightarrow> u8 list" where
  "masked key msg = map (\<lambda>q. msg ! q XOR key ! (q mod 4)) [0..<length msg]"

text \<open>The length bytes; \<open>n\<close>, \<open>size\<close> in the source, is an \<open>int\<close> of 32 bits.\<close>

definition length_bytes :: "nat \<Rightarrow> u8 list" where
  "length_bytes n =
     (if n \<le> 125 then [of_nat n]
      else if n \<le> 65535 then [126, of_nat (n div 2 ^ 8), of_nat n]
      else [127, 0, 0, 0, 0] @ map (\<lambda>i. of_nat (n div 2 ^ (8 * i))) [3, 2, 1, 0])"

definition makeFrame :: "u8 \<Rightarrow> u8 list \<Rightarrow> u8 list \<Rightarrow> u8 list" where
  "makeFrame firstByte msg key =
     (case length_bytes (length msg) of l # ls \<Rightarrow> [firstByte, l OR 0x80] @ ls @ key @ masked key msg | [] \<Rightarrow> [])"

datatype Inbound = Text | Binary | IncompleteText | IncompleteBinary | Continuation | ContinuationFinal
  | Ping | Close | Pong | Incomplete | Error

fun classify :: "u8 \<Rightarrow> bool \<Rightarrow> Inbound" where
  "classify opc fin =
     (if opc = 0 then if fin then ContinuationFinal else Continuation
      else if opc = 1 then if fin then Text else IncompleteText
      else if opc = 2 then if fin then Binary else IncompleteBinary
      else if opc = 8 then Close
      else if opc = 9 then Ping
      else if opc = 10 then Pong
      else Error)"

text \<open>
  The length of the payload and the place where it starts: \<open>Inl Incomplete\<close> and \<open>Inl Error\<close> are early returns.
\<close>

definition payload_length :: "u8 list \<Rightarrow> Inbound + (u64 \<times> nat)" where
  "payload_length data =
     (let lengthField = data ! 1 AND 0x7F in
      if lengthField \<le> 125 then Inr (ucast lengthField, 2)
      else if lengthField = 126 then
        if length data < 4 then Inl Incomplete
        else let n = push_bit 8 (ucast (data ! 2)) OR ucast (data ! 3)
             in if n < 126 then Inl Error else Inr (n, 4)
      else if length data < 10 then Inl Incomplete
      else if data ! 2 AND 0x80 \<noteq> 0 then Inl Error
      else let n = fold (\<lambda>b n. push_bit 8 n OR ucast b) (take 8 (drop 2 data)) 0
           in if n < 65536 then Inl Error else Inr (n, 10))"

text \<open>The kind of the frame, its payload (\<open>out_length - 1\<close> bytes) and \<open>skipSize\<close>.\<close>

definition getFrame :: "u8 list \<Rightarrow> nat \<Rightarrow> Inbound \<times> u8 list \<times> nat" where
  "getFrame data outSize =
     (if length data < 2 then (Incomplete, [], 0)
      else if data ! 0 AND 0x70 \<noteq> 0 then (Error, [], 0)
      else if data ! 1 AND 0x80 \<noteq> 0 then (Error, [], 0)
      else case payload_length data of
        Inl k \<Rightarrow> (k, [], 0)
      | Inr (n, pos) \<Rightarrow>
          if unat n > MAX_FRAME_PAYLOAD then (Error, [], 0)
          else if unat n > length data - pos then (Incomplete, [], 0)
          else if unat n > outSize - 1 then (Error, [], 0)
          else
            let opc = data ! 0 AND 0x0F; fin = (data ! 0 AND 0x80 \<noteq> 0); out = take (unat n) (drop pos data);
                kind = (if opc \<ge> 8 \<and> (\<not> fin \<or> n > 125 \<or> opc = 8 \<and> n = 1) then Error else classify opc fin)
            in (kind, out, unat n + pos))"

section \<open>One inbound frame\<close>

datatype Event = OnText "u8 list" | OnBinary "u8 list" | SendPong "u8 list" | SendClose

record WSClient =
  fragmentBuffer :: "u8 list"
  fragmentOpcode :: nat
  stopped :: bool
  failed :: "string option"
  events :: "Event list"

definition ws_throw :: "string \<Rightarrow> WSClient \<Rightarrow> WSClient" where
  "ws_throw msg c = c\<lparr>failed := Some msg\<rparr>"

definition emit :: "Event \<Rightarrow> WSClient \<Rightarrow> WSClient" where
  "emit e c = c\<lparr>events := events c @ [e]\<rparr>"

definition appendFragment :: "u8 list \<Rightarrow> WSClient \<Rightarrow> WSClient" where
  "appendFragment out c =
     (if out = [] then c
      else if length (fragmentBuffer c) + length out > MAX_FRAME_PAYLOAD
      then ws_throw ''websock: fragmented message too large'' c
      else c\<lparr>fragmentBuffer := fragmentBuffer c @ out\<rparr>)"

text \<open>The switch over the kind of the frame.\<close>

definition handle_frame :: "Inbound \<Rightarrow> u8 list \<Rightarrow> WSClient \<Rightarrow> WSClient" where
  "handle_frame kind out c =
     (case kind of
        Text \<Rightarrow> if fragmentOpcode c \<noteq> 0 then ws_throw ''websock: TEXT frame received while fragment in progress'' c
                else emit (OnText out) c
      | Binary \<Rightarrow> if fragmentOpcode c \<noteq> 0 then ws_throw ''websock: BINARY frame received while fragment in progress'' c
                else emit (OnBinary out) c
      | IncompleteText \<Rightarrow> if fragmentOpcode c \<noteq> 0 then ws_throw ''websock: TEXT fragment-start while fragment in progress'' c
                else appendFragment out (c\<lparr>fragmentOpcode := 1\<rparr>)
      | IncompleteBinary \<Rightarrow> if fragmentOpcode c \<noteq> 0 then ws_throw ''websock: BINARY fragment-start while fragment in progress'' c
                else appendFragment out (c\<lparr>fragmentOpcode := 2\<rparr>)
      | Continuation \<Rightarrow> if fragmentOpcode c = 0 then ws_throw ''websock: CONTINUATION frame without fragment in progress'' c
                else appendFragment out c
      | ContinuationFinal \<Rightarrow>
          if fragmentOpcode c = 0 then ws_throw ''websock: CONTINUATION-final frame without fragment in progress'' c
          else let c1 = appendFragment out c
               in if failed c1 \<noteq> None then c1
                  else let c2 = (if fragmentOpcode c1 = 1 then emit (OnText (fragmentBuffer c1)) c1
                                 else if fragmentOpcode c1 = 2 then emit (OnBinary (fragmentBuffer c1)) c1 else c1)
                       in c2\<lparr>fragmentOpcode := 0, fragmentBuffer := []\<rparr>
      | Ping \<Rightarrow> emit (SendPong out) c
      | Close \<Rightarrow> (emit SendClose c)\<lparr>stopped := True\<rparr>
      | Pong \<Rightarrow> c
      | Incomplete \<Rightarrow> c
      | Error \<Rightarrow> ws_throw ''websock: invalid frame'' c)"

definition maybeDecodeBuffer :: "u8 list \<Rightarrow> WSClient \<Rightarrow> nat \<times> WSClient" where
  "maybeDecodeBuffer data c =
     (if data = [] then (0, c)
      else case getFrame data (length data + 200) of
        (Incomplete, out, skipSize) \<Rightarrow> (0, c)
      | (kind, out, skipSize) \<Rightarrow> (skipSize, handle_frame kind out c))"

section \<open>The receive loop\<close>

text \<open>The decoding rounds between two reads: until no whole frame is left, or the client stops or fails.\<close>

lemma payload_length_pos: "payload_length data = Inr (n, pos) \<Longrightarrow> pos \<ge> 2"
  by (auto simp: payload_length_def Let_def split: if_splits)

lemma getFrame_skip: "getFrame data out = (k, p, n) \<Longrightarrow> k \<noteq> Incomplete \<Longrightarrow> k \<noteq> Error \<Longrightarrow> n \<ge> 2"
  by (auto simp: getFrame_def Let_def payload_length_def split: if_splits sum.splits)

function decode_rounds :: "u8 list \<Rightarrow> WSClient \<Rightarrow> u8 list \<times> WSClient" where
  "decode_rounds data c =
     (if stopped c \<or> failed c \<noteq> None then (data, c)
      else let (len0, c1) = maybeDecodeBuffer data c
           in if failed c1 \<noteq> None then (data, c1)
              else if len0 > 0 then decode_rounds (drop len0 data) c1
              else (data, c1))"
  by pat_completeness auto
termination
  by (relation "measure (\<lambda>(data, c). length data)") (auto simp: maybeDecodeBuffer_def split: if_splits prod.splits)

declare decode_rounds.simps [simp del]

datatype Recv = Chunk "u8 list" | Timeout | Gone | StopCalled

text \<open>
  \<open>runReceiveLoop\<close> over what the socket delivers; \<open>Gone\<close> is a closed connection or an error, \<open>StopCalled\<close> a
  call of \<open>stopSocket\<close> seen before or after the read.
\<close>

fun runReceiveLoop :: "u8 list \<Rightarrow> Recv list \<Rightarrow> WSClient \<Rightarrow> u8 list \<times> WSClient" where
  "runReceiveLoop data rs c =
     (let (data1, c1) = decode_rounds data c
      in if stopped c1 \<or> failed c1 \<noteq> None then (data1, c1)
         else case rs of
           [] \<Rightarrow> (data1, c1)
         | Gone # rs \<Rightarrow> (data1, c1)
         | StopCalled # rs \<Rightarrow> (data1, c1\<lparr>stopped := True\<rparr>)
         | Timeout # rs \<Rightarrow> runReceiveLoop data1 rs c1
         | Chunk bytes # rs \<Rightarrow>
             if bytes = [] then runReceiveLoop data1 rs c1
             else if length data1 + length bytes > MAX_FRAME_PAYLOAD + 16
             then (data1, ws_throw ''websock: frame too large'' c1)
             else runReceiveLoop (data1 @ bytes) rs c1)"

declare runReceiveLoop.simps [simp del]

section \<open>Sending\<close>

text \<open>
  \<open>sendAllRawLocked\<close>. Each entry of \<open>tries\<close> is what one round meets: whether the client was stopped before
  it, how many bytes the socket takes and whether it is still open. The result is the bytes written and
  whether the call returned (\<open>Some True\<close>), threw (\<open>Some False\<close>) or still retries (\<open>None\<close>).
\<close>

fun send_rounds :: "u8 list \<Rightarrow> (bool \<times> nat \<times> bool) list \<Rightarrow> u8 list \<times> bool option" where
  "send_rounds data tries =
     (if data = [] then ([], Some True)
      else case tries of
        [] \<Rightarrow> ([], None)
      | (stop, n, isOpen) # tries \<Rightarrow>
          if stop then ([], Some False)
          else if n > 0 then
            (if n < length data \<and> \<not> isOpen then (take n data, Some False)
             else let (sent, r) = send_rounds (drop n data) tries in (take n data @ sent, r))
          else if \<not> isOpen then ([], Some False)
          else send_rounds data tries)"

declare send_rounds.simps [simp del]

definition sendAllRawLocked :: "bool \<Rightarrow> u8 list \<Rightarrow> (bool \<times> nat \<times> bool) list \<Rightarrow> u8 list \<times> bool option" where
  "sendAllRawLocked isStopped data tries = (if isStopped then ([], Some False) else send_rounds data tries)"

definition sendFrame :: "bool \<Rightarrow> bool \<Rightarrow> u8 \<Rightarrow> u8 list \<Rightarrow> u8 list \<Rightarrow> (bool \<times> nat \<times> bool) list \<Rightarrow> u8 list \<times> bool option" where
  "sendFrame websocketReady isStopped firstByte payload key tries =
     (if \<not> websocketReady then ([], Some False)
      else sendAllRawLocked isStopped (makeFrame firstByte payload key) tries)"

end
