(* ===== verification/WebSockProps.thy ===== *)
theory WebSockProps
  imports WebSock
begin

text \<open>
  What the web socket client promises: it reads exactly the frames of the protocol, whatever the cut of the
  stream, hands over every message once, whole and in order, and its own frames are read back by a server.
\<close>

unbundle bit_operations_syntax

declare classify.simps [simp del]

section \<open>Reading a frame\<close>

text \<open>A frame as a server writes it: not masked, with the shortest length.\<close>

definition server_frame :: "bool \<Rightarrow> u8 \<Rightarrow> u8 list \<Rightarrow> u8 list" where
  "server_frame fin opc payload = ((if fin then 0x80 else 0) OR opc) # length_bytes (length payload) @ payload"

lemma byte_word_16: "push_bit 8 (ucast (of_nat (n div 2 ^ 8) :: u8)) OR ucast (of_nat n :: u8) = (of_nat (n mod 2 ^ 16) :: u64)"
  unfolding take_bit_eq_mod [symmetric] drop_bit_eq_div [symmetric] by (rule bit_word_eqI) (auto simp: bit_simps)

lemma byte_step: "push_bit 8 (of_nat (n div 2 ^ (8 * Suc i)) :: u64) OR ucast (of_nat (n div 2 ^ (8 * i)) :: u8) =
    (of_nat (n div 2 ^ (8 * i)) :: u64)"
  by (rule bit_word_eqI) (auto simp: bit_simps simp flip: drop_bit_eq_div)

lemma bytes_word_64: "n < 2 ^ 32 \<Longrightarrow>
   fold (\<lambda>b n. push_bit 8 n OR ucast b) ([0, 0, 0, 0] @ map (\<lambda>i. of_nat (n div 2 ^ (8 * i)) :: u8) [3, 2, 1, 0]) 0 = (of_nat n :: u64)"
  using byte_step [of n 3] byte_step [of n 2] byte_step [of n 1] byte_step [of n 0]
  by simp

lemma byte_and:
  assumes "n < 128"
  shows "(of_nat n :: u8) AND 0x7F = of_nat n" "(of_nat n :: u8) AND 0x80 = 0"
proof -
  have "take_bit 7 n = n" using assms by (simp add: take_bit_nat_eq_self)
  then have b: "bit n i \<Longrightarrow> i < 7" for i by (metis bit_take_bit_iff)
  have "(0x7F :: u8) = mask 7" by (simp add: mask_eq_exp_minus_1)
  then show "(of_nat n :: u8) AND 0x7F = of_nat n" by (auto simp: bit_eq_iff bit_simps dest: b)
  have "((of_nat n :: u8) AND 0x7F) AND 0x80 = 0" by (simp add: and.assoc)
  then show "(of_nat n :: u8) AND 0x80 = 0" using \<open>(of_nat n :: u8) AND 0x7F = of_nat n\<close> by simp
qed

lemma payload_length_exact:
  assumes "n < 2 ^ 31"
  shows "payload_length (b # length_bytes n @ rest) = Inr (of_nat n, 1 + length (length_bytes n))"
proof -
  consider "n \<le> 125" | "125 < n" "n \<le> 65535" | "65535 < n" by linarith
  then show ?thesis
  proof cases
    case 1
    then have "(of_nat n :: u8) \<le> 125" by (simp add: word_le_nat_alt unsigned_of_nat take_bit_nat_eq_self)
    then show ?thesis using 1 byte_and [of n]
      by (simp add: payload_length_def length_bytes_def unsigned_of_nat take_bit_nat_eq_self)
  next
    case 2
    have "push_bit 8 (ucast (of_nat (n div 2 ^ 8) :: u8)) OR ucast (of_nat n :: u8) = (of_nat n :: u64)"
      using byte_word_16 [of n] 2 by simp
    moreover have "\<not> (of_nat n :: u64) < 126" using 2 by (simp add: word_less_nat_alt unsigned_of_nat take_bit_nat_eq_self)
    ultimately show ?thesis using 2 by (simp add: payload_length_def length_bytes_def)
  next
    case 3
    have "\<not> (of_nat n :: u64) < 65536" using 3 assms by (simp add: word_less_nat_alt unsigned_of_nat take_bit_nat_eq_self)
    then show ?thesis using 3 bytes_word_64 [of n] assms
      by (simp add: payload_length_def length_bytes_def)
  qed
qed

text \<open>The opcodes of the protocol, and the frames it allows.\<close>

definition frame_ok :: "bool \<Rightarrow> u8 \<Rightarrow> u8 list \<Rightarrow> bool" where
  "frame_ok fin opc payload \<longleftrightarrow> opc \<in> {0, 1, 2, 8, 9, 10} \<and> length payload \<le> MAX_FRAME_PAYLOAD \<and>
     (opc \<ge> 8 \<longrightarrow> fin \<and> length payload \<le> 125) \<and> (opc = 8 \<longrightarrow> length payload \<noteq> 1)"

lemma first_byte:
  assumes "opc \<in> {0, 1, 2, 8, 9, 10 :: u8}"
  shows "((if fin then 0x80 else 0) OR opc) AND 0x70 = 0" "((if fin then 0x80 else 0) OR opc) AND 0x0F = opc"
    and "((if fin then 0x80 else 0) OR opc) AND 0x80 \<noteq> 0 \<longleftrightarrow> fin"
  using assms by auto

lemma second_byte: "n < 2 ^ 31 \<Longrightarrow> \<exists>l ls. length_bytes n = l # ls \<and> l AND 0x80 = 0"
  using byte_and(2) [of n] by (auto simp: length_bytes_def)

lemma length_bytes_bound: "length (length_bytes n) \<le> 9" "1 \<le> length (length_bytes n)"
  by (simp_all add: length_bytes_def)

lemma length_server_frame: "length (server_frame fin opc p) = 1 + length (length_bytes (length p)) + length p"
  by (simp add: server_frame_def)

lemma server_frame_bound: "length (server_frame fin opc p) \<le> 10 + length p" "2 \<le> length (server_frame fin opc p)"
  using length_bytes_bound [of "length p"] by (simp_all add: length_server_frame)

lemma getFrame_exact:
  assumes "frame_ok fin opc p" "length p < outSize"
  shows "getFrame (server_frame fin opc p @ rest) outSize = (classify opc fin, p, length (server_frame fin opc p))"
proof -
  let ?data = "server_frame fin opc p @ rest" and ?n = "length p"
  have n: "?n \<le> 1048576" "?n < 2 ^ 31" using assms(1) by (auto simp: frame_ok_def MAX_FRAME_PAYLOAD_def)
  have opc: "opc \<in> {0, 1, 2, 8, 9, 10}" using assms(1) by (simp add: frame_ok_def)
  obtain l ls where l: "length_bytes ?n = l # ls" "l AND 0x80 = 0" using second_byte [OF n(2)] by blast
  have pl: "payload_length ?data = Inr (of_nat ?n, 1 + length (length_bytes ?n))"
    using payload_length_exact [OF n(2)] by (simp add: server_frame_def)
  have u: "unat (of_nat ?n :: u64) = ?n" using n by (simp add: unsigned_of_nat take_bit_nat_eq_self)
  have w: "(of_nat ?n :: u64) > 125 \<longleftrightarrow> ?n > 125" "(of_nat ?n :: u64) = 1 \<longleftrightarrow> ?n = 1"
    using u by (auto simp: word_less_nat_alt word_unat_eq_iff)
  have b: "?data ! 0 = (if fin then 0x80 else 0) OR opc" "?data ! 1 = l" "2 \<le> length ?data"
    using l(1) by (simp_all add: server_frame_def)
  note first = first_byte [OF opc, of fin]
  have kind: "(if opc \<ge> 8 \<and> (\<not> fin \<or> 125 < ?n \<or> opc = 8 \<and> ?n = 1) then Error else classify opc fin) = classify opc fin"
    using assms(1) by (auto simp: frame_ok_def)
  have fits: "\<not> ?n > length ?data - (1 + length (length_bytes ?n))" "\<not> ?n > outSize - 1" "\<not> ?n > MAX_FRAME_PAYLOAD"
    using assms n(1) by (simp_all add: server_frame_def MAX_FRAME_PAYLOAD_def)
  have two: "\<not> length ?data < 2" using b(3) by simp
  have out: "take ?n (drop (1 + length (length_bytes ?n)) ?data) = p" by (simp add: server_frame_def)
  have "getFrame ?data outSize = (if opc \<ge> 8 \<and> (\<not> fin \<or> 125 < ?n \<or> opc = 8 \<and> ?n = 1) then Error else classify opc fin,
      p, ?n + (1 + length (length_bytes ?n)))"
    using two unfolding getFrame_def pl b(1,2) first l(2) sum.case prod.case u w Let_def out
    by (simp only: fits two if_False simp_thms not_not)
  then show ?thesis unfolding kind by (simp add: length_server_frame)
qed

text \<open>What is read does not depend on the bytes that follow.\<close>

lemma payload_length_extend:
  assumes "2 \<le> length data" "payload_length data \<noteq> Inl Incomplete"
  shows "payload_length (data @ ys) = payload_length data"
proof -
  have e: "(data @ ys) ! 1 = data ! 1" using assms(1) by (simp add: nth_append)
  consider "data ! 1 AND 0x7F \<le> 125" | "data ! 1 AND 0x7F = 126" "\<not> data ! 1 AND 0x7F \<le> 125"
    | "data ! 1 AND 0x7F \<noteq> 126" "\<not> data ! 1 AND 0x7F \<le> 125" by blast
  then show ?thesis
  proof cases
    case 1
    then show ?thesis unfolding payload_length_def Let_def e by simp
  next
    case 2
    then have "4 \<le> length data" using assms(2) unfolding payload_length_def Let_def by (simp split: if_splits)
    then have "(data @ ys) ! 2 = data ! 2" "(data @ ys) ! 3 = data ! 3" "4 \<le> length (data @ ys)" by (simp_all add: nth_append)
    then show ?thesis using 2 \<open>4 \<le> length data\<close> unfolding payload_length_def Let_def e by simp
  next
    case 3
    then have l: "10 \<le> length data" using assms(2) unfolding payload_length_def Let_def by (simp split: if_splits)
    then have "(data @ ys) ! 2 = data ! 2" "take 8 (drop 2 (data @ ys)) = take 8 (drop 2 data)" by (simp_all add: nth_append)
    then show ?thesis using 3 l unfolding payload_length_def Let_def e by simp
  qed
qed

lemma payload_length_cases: "payload_length data = Inl k \<Longrightarrow> k = Incomplete \<or> k = Error"
  "payload_length data = Inr (n, pos) \<Longrightarrow> 2 \<le> length data \<Longrightarrow> pos \<le> length data"
  by (auto simp: payload_length_def Let_def split: if_splits)

lemma getFrame_extend:
  assumes "fst (getFrame data (length data + 200)) \<noteq> Incomplete"
  shows "getFrame (data @ ys) (length (data @ ys) + 200) = getFrame data (length data + 200)"
proof -
  have len: "2 \<le> length data" using assms by (auto simp: getFrame_def split: if_splits)
  have "data \<noteq> []" using len by auto
  then have nth: "(data @ ys) ! 0 = data ! 0" "(data @ ys) ! 1 = data ! 1" using len by (simp_all add: nth_append)
  show ?thesis
  proof (cases "data ! 0 AND 0x70 \<noteq> 0 \<or> data ! 1 AND 0x80 \<noteq> 0")
    case True
    then show ?thesis using len nth by (auto simp: getFrame_def)
  next
    case ok: False
    show ?thesis
    proof (cases "payload_length data")
      case (Inl k)
      then have "k = Error" using payload_length_cases(1) [OF Inl] assms ok len by (auto simp: getFrame_def)
      then show ?thesis using Inl payload_length_extend [OF len, of ys] ok len nth by (simp add: getFrame_def)
    next
      case (Inr r)
      obtain n pos where r: "r = (n, pos)" by (cases r)
      have pos: "pos \<le> length data" using payload_length_cases(2) Inr r len by simp
      have "unat n > MAX_FRAME_PAYLOAD \<or> unat n \<le> length data - pos"
        using assms ok len Inr r by (auto simp: getFrame_def split: if_splits)
      then show ?thesis using Inr payload_length_extend [OF len, of ys] ok len nth r pos
        by (auto simp: getFrame_def Let_def)
    qed
  qed
qed

lemma getFrame_within:
  assumes "getFrame data outSize = (k, out, skipSize)" "k \<noteq> Incomplete" "k \<noteq> Error"
  shows "2 \<le> skipSize" "skipSize \<le> length data" "length out \<le> MAX_FRAME_PAYLOAD"
proof -
  show "2 \<le> skipSize" by (rule getFrame_skip [OF assms])
  have len: "2 \<le> length data" using assms by (auto simp: getFrame_def split: if_splits)
  show "skipSize \<le> length data"
    using assms payload_length_cases(2) [OF _ len] by (auto simp: getFrame_def Let_def split: if_splits sum.splits dest: payload_length_cases(1))
  show "length out \<le> MAX_FRAME_PAYLOAD"
    using assms by (auto simp: getFrame_def Let_def split: if_splits sum.splits dest: payload_length_cases(1))
qed

lemma classify_valid: "frame_ok fin opc p \<Longrightarrow> classify opc fin \<noteq> Incomplete \<and> classify opc fin \<noteq> Error"
  by (auto simp: frame_ok_def classify.simps)

text \<open>A frame that is not complete waits for more.\<close>

lemma getFrame_incomplete:
  assumes "frame_ok fin opc p" "data @ ys = server_frame fin opc p @ rest" "length data < length (server_frame fin opc p)"
  shows "fst (getFrame data (length data + 200)) = Incomplete"
proof (rule ccontr)
  assume "fst (getFrame data (length data + 200)) \<noteq> Incomplete"
  then have "getFrame data (length data + 200) = getFrame (server_frame fin opc p @ rest) (length (data @ ys) + 200)"
    using getFrame_extend [of data ys] assms(2) by simp
  also have "\<dots> = (classify opc fin, p, length (server_frame fin opc p))"
    using getFrame_exact [OF assms(1)] assms(2) by (simp add: length_server_frame)
  finally have "length (server_frame fin opc p) \<le> length data"
    using getFrame_within(2) classify_valid [OF assms(1)] by blast
  then show False using assms(3) by simp
qed

section \<open>The stream\<close>

text \<open>The frames of a stream, and what the client does with them one by one.\<close>

type_synonym ws_frame = "bool \<times> u8 \<times> u8 list"

definition stream_of :: "ws_frame list \<Rightarrow> u8 list" where
  "stream_of fs = concat (map (\<lambda>(fin, opc, p). server_frame fin opc p) fs)"

definition pending :: "ws_frame list \<Rightarrow> u8 list \<Rightarrow> bool" where
  "pending todo rest \<longleftrightarrow> todo = [] \<or> (case hd todo of (fin, opc, p) \<Rightarrow> length rest < length (server_frame fin opc p))"

definition running :: "WSClient \<Rightarrow> bool" where
  "running c \<longleftrightarrow> \<not> stopped c \<and> failed c = None"

fun handle_frames :: "ws_frame list \<Rightarrow> WSClient \<Rightarrow> WSClient" where
  "handle_frames [] c = c"
| "handle_frames ((fin, opc, p) # fs) c = (if running c then handle_frames fs (handle_frame (classify opc fin) p c) else c)"

definition frames_ok :: "ws_frame list \<Rightarrow> bool" where
  "frames_ok fs \<longleftrightarrow> list_all (\<lambda>(fin, opc, p). frame_ok fin opc p) fs"

text \<open>One round of the loop, on a whole frame and on the beginning of one.\<close>

lemma round_whole:
  assumes "frame_ok fin opc p" "running c"
  shows "decode_rounds (server_frame fin opc p @ rest) c =
    (let c1 = handle_frame (classify opc fin) p c
     in if failed c1 \<noteq> None then (server_frame fin opc p @ rest, c1) else decode_rounds rest c1)"
proof -
  let ?data = "server_frame fin opc p @ rest"
  have g: "getFrame ?data (length ?data + 200) = (classify opc fin, p, length (server_frame fin opc p))"
    by (rule getFrame_exact [OF assms(1)]) (simp add: length_server_frame)
  have k: "classify opc fin \<noteq> Incomplete" using classify_valid [OF assms(1)] by blast
  have ne: "server_frame fin opc p \<noteq> []" "0 < length (server_frame fin opc p)" by (simp_all add: server_frame_def)
  have m: "maybeDecodeBuffer ?data c = (length (server_frame fin opc p), handle_frame (classify opc fin) p c)"
    unfolding maybeDecodeBuffer_def g using ne(1) k by (simp del: classify.simps split: Inbound.splits)
  show ?thesis unfolding decode_rounds.simps [of ?data c] m using assms(2) ne(2)
    by (simp add: running_def Let_def del: classify.simps)
qed

lemma round_waits:
  assumes "fst (getFrame data (length data + 200)) = Incomplete"
  shows "decode_rounds data c = (data, c)"
proof -
  have "maybeDecodeBuffer data c = (0, c)"
    using assms by (cases "getFrame data (length data + 200)") (simp add: maybeDecodeBuffer_def)
  then show ?thesis by (simp add: decode_rounds.simps [of data c])
qed

lemma decode_rounds_nil: "decode_rounds [] c = ([], c)"
  by (simp add: decode_rounds.simps maybeDecodeBuffer_def)

text \<open>
  Decoding the beginning of a stream of frames: the whole frames it holds are handled, the rest is the
  beginning of the next frame.
\<close>

lemma decode_stream:
  assumes "frames_ok fs" "data @ ys = stream_of fs" "decode_rounds data c = (rest, c1)"
  shows "\<exists>done todo. fs = done @ todo \<and> c1 = handle_frames done c \<and>
    (running c1 \<longrightarrow> rest @ ys = stream_of todo \<and> pending todo rest)
    \<and> (\<not> running c1 \<longrightarrow> handle_frames fs c = c1)"
  using assms
proof (induction fs arbitrary: data c)
  case Nil
  then have "data = []" "rest = []" "c1 = c" by (simp_all add: stream_of_def decode_rounds_nil)
  then show ?case using Nil by (simp add: stream_of_def pending_def)
next
  case (Cons f fs)
  obtain fin opc p where f: "f = (fin, opc, p)" by (cases f)
  have ok: "frame_ok fin opc p" "frames_ok fs" using Cons.prems(1) by (simp_all add: frames_ok_def f)
  have split: "data @ ys = server_frame fin opc p @ stream_of fs" using Cons.prems(2) by (simp add: stream_of_def f)
  consider "\<not> running c" | "running c" "length data < length (server_frame fin opc p)"
    | "running c" "length (server_frame fin opc p) \<le> length data" by linarith
  then show ?case
  proof cases
    case 1
    then have "c1 = c" using Cons.prems(3) by (auto simp: decode_rounds.simps [of data c] running_def)
    then show ?thesis using 1 by (intro exI [of _ "[]"] exI [of _ "f # fs"]) (simp add: f)
  next
    case 2
    have "decode_rounds data c = (data, c)" by (rule round_waits [OF getFrame_incomplete [OF ok(1) split 2(2)]])
    then have "c1 = c" "rest = data" using Cons.prems(3) by simp_all
    then show ?thesis using 2 Cons.prems(2) by (intro exI [of _ "[]"] exI [of _ "f # fs"]) (simp add: f pending_def)
  next
    case 3
    define d where "d = drop (length (server_frame fin opc p)) data"
    have data: "data = server_frame fin opc p @ d" "d @ ys = stream_of fs"
      using arg_cong [OF split, of "take (length (server_frame fin opc p))"] arg_cong [OF split, of "drop (length (server_frame fin opc p))"]
        3(2) append_take_drop_id [of "length (server_frame fin opc p)" data] by (simp_all add: d_def)
    let ?c = "handle_frame (classify opc fin) p c"
    show ?thesis
    proof (cases "failed ?c = None")
      case True
      then have "decode_rounds d ?c = (rest, c1)"
        using Cons.prems(3) round_whole [OF ok(1) 3(1), of d] by (simp add: data(1) Let_def)
      from Cons.IH [OF ok(2) data(2) this] obtain "done" todo where D: "fs = done @ todo" "c1 = handle_frames done ?c"
        "running c1 \<longrightarrow> rest @ ys = stream_of todo \<and> pending todo rest"
        "\<not> running c1 \<longrightarrow> handle_frames fs ?c = c1" by (elim exE conjE) rule
      then show ?thesis using 3(1) by (intro exI [of _ "f # done"] exI [of _ todo]) (simp add: f)
    next
      case False
      then have "c1 = ?c" "\<not> running c1"
        using Cons.prems(3) round_whole [OF ok(1) 3(1), of d] by (simp_all add: data(1) Let_def running_def)
      moreover have "handle_frames fs e = e" if "\<not> running e" for e using that by (cases fs) auto
      ultimately show ?thesis using 3(1) by (intro exI [of _ "[f]"] exI [of _ fs]) (simp add: f)
    qed
  qed
qed

lemma handle_frames_append: "handle_frames (fs @ gs) c = handle_frames gs (handle_frames fs c)"
proof (induction fs arbitrary: c)
  case (Cons f fs)
  have stay: "handle_frames hs e = e" if "\<not> running e" for hs e using that by (cases hs) auto
  show ?case using Cons stay [of c] by (cases f) (simp del: classify.simps)
qed simp

lemma handle_frames_stay: "\<not> running c \<Longrightarrow> handle_frames fs c = c"
  by (cases fs) auto

text \<open>The bytes of the reads of a run that is not ended by the other side.\<close>

definition bytes_read :: "Recv list \<Rightarrow> u8 list" where
  "bytes_read rs = concat (map (\<lambda>r. case r of Chunk b \<Rightarrow> b | _ \<Rightarrow> []) rs)"

definition reads_ok :: "Recv list \<Rightarrow> bool" where
  "reads_ok rs \<longleftrightarrow> list_all (\<lambda>r. case r of Chunk b \<Rightarrow> length b \<le> 100000 | Timeout \<Rightarrow> True | _ \<Rightarrow> False) rs"

text \<open>The size of a frame that leaves room for a whole read beside it.\<close>

definition FRAME_LIMIT :: nat where
  "FRAME_LIMIT = MAX_FRAME_PAYLOAD + 16 - 100000 - 10"

lemma receive_stream:
  assumes "frames_ok fs" "list_all (\<lambda>(fin, opc, p). length p \<le> FRAME_LIMIT) fs" "reads_ok rs"
    and "data @ bytes_read rs = stream_of fs"
  shows "snd (runReceiveLoop data rs c) = handle_frames fs c \<and> (running (handle_frames fs c) \<longrightarrow> fst (runReceiveLoop data rs c) = [])"
  using assms
proof (induction "length rs" arbitrary: data rs fs c rule: less_induct)
  case less
  obtain rest c1 where d: "decode_rounds data c = (rest, c1)" by fastforce
  obtain "done" todo where D: "fs = done @ todo" "c1 = handle_frames done c"
    "running c1 \<longrightarrow> rest @ bytes_read rs = stream_of todo \<and> pending todo rest"
    "\<not> running c1 \<longrightarrow> handle_frames fs c = c1"
    using decode_stream [OF less.prems(1,4) d] by (elim exE conjE) rule
  show ?case
  proof (cases "running c1")
    case False
    then show ?thesis using d D(4) unfolding runReceiveLoop.simps [of data rs c] by (auto simp: running_def)
  next
    case True
    have todo: "frames_ok todo" "list_all (\<lambda>(fin, opc, p). length p \<le> FRAME_LIMIT) todo"
      using less.prems(1,2) D(1) by (simp_all add: frames_ok_def)
    have fs: "handle_frames fs c = handle_frames todo c1" using D(1,2) by (simp add: handle_frames_append)
    have rest: "rest @ bytes_read rs = stream_of todo" using D(3) True by blast
    show ?thesis
    proof (cases rs)
      case Nil
      then have "todo = []" using rest D(3) True by (cases todo) (auto simp: stream_of_def bytes_read_def pending_def)
      then show ?thesis using d Nil True rest fs unfolding runReceiveLoop.simps [of data rs c]
        by (simp add: running_def stream_of_def bytes_read_def)
    next
      case (Cons r rs')
      have rs': "reads_ok rs'" using less.prems(3) Cons by (simp add: reads_ok_def)
      have step: "runReceiveLoop data rs c = runReceiveLoop (rest @ b) rs' c1 \<and> bytes_read rs = b @ bytes_read rs'"
        if "r = Chunk b \<or> r = Timeout \<and> b = []" for b
      proof (cases "b = []")
        case True
        then show ?thesis using that Cons d \<open>running c1\<close> unfolding runReceiveLoop.simps [of data rs c]
          by (auto simp: running_def bytes_read_def)
      next
        case False
        then have r: "r = Chunk b" "length b \<le> 100000" using that less.prems(3) Cons by (auto simp: reads_ok_def)
        have "todo \<noteq> []" using rest r(1) Cons False by (auto simp: stream_of_def bytes_read_def)
        then have "length rest < 10 + FRAME_LIMIT"
          using D(3) True todo(2) by (cases todo) (auto simp: pending_def dest!: less_le_trans [OF _ server_frame_bound(1)])
        then have "\<not> length rest + length b > MAX_FRAME_PAYLOAD + 16"
          using r(2) by (simp add: FRAME_LIMIT_def MAX_FRAME_PAYLOAD_def)
        then show ?thesis using r(1) False Cons d \<open>running c1\<close> unfolding runReceiveLoop.simps [of data rs c]
          by (simp add: running_def bytes_read_def)
      qed
      obtain b where b: "r = Chunk b \<or> r = Timeout \<and> b = []"
        using less.prems(3) Cons by (cases r) (auto simp: reads_ok_def)
      have "(rest @ b) @ bytes_read rs' = stream_of todo" using rest step [OF b] by simp
      from less.hyps [OF _ todo rs' this, of c1] show ?thesis using step [OF b] fs Cons by simp
    qed
  qed
qed

section \<open>Messages\<close>

text \<open>
  A message in one or more fragments, with pings and pongs between the fragments, and control frames
  between messages.
\<close>

datatype control = PingFrame "u8 list" | PongFrame "u8 list"
datatype item = Message bool "u8 list" "(control list \<times> u8 list) list" | Control control

fun control_frame :: "control \<Rightarrow> ws_frame" where
  "control_frame (PingFrame p) = (True, 9, p)"
| "control_frame (PongFrame p) = (True, 10, p)"

fun control_events :: "control \<Rightarrow> Event list" where
  "control_events (PingFrame p) = [SendPong p]"
| "control_events (PongFrame p) = []"

text \<open>The frames after the first fragment.\<close>

fun rest_frames :: "(control list \<times> u8 list) list \<Rightarrow> ws_frame list" where
  "rest_frames [] = []"
| "rest_frames ((cs, p) # ps) = map control_frame cs @ (ps = [], 0, p) # rest_frames ps"

fun item_frames :: "item \<Rightarrow> ws_frame list" where
  "item_frames (Control k) = [control_frame k]"
| "item_frames (Message isText p ps) = (ps = [], if isText then 1 else 2, p) # rest_frames ps"

fun item_events :: "item \<Rightarrow> Event list" where
  "item_events (Control k) = control_events k"
| "item_events (Message isText p ps) = concat (map control_events (concat (map fst ps))) @
     [(if isText then OnText else OnBinary) (p @ concat (map snd ps))]"

fun item_size :: "item \<Rightarrow> nat" where
  "item_size (Control k) = 0"
| "item_size (Message isText p ps) = length p + length (concat (map snd ps))"

definition idle_client :: "WSClient \<Rightarrow> bool" where
  "idle_client c \<longleftrightarrow> running c \<and> fragmentOpcode c = 0 \<and> fragmentBuffer c = []"

lemma classify_opcodes [simp]: "classify 0 fin = (if fin then ContinuationFinal else Continuation)"
  "classify 1 fin = (if fin then Text else IncompleteText)" "classify 2 fin = (if fin then Binary else IncompleteBinary)"
  "classify 8 fin = Close" "classify 9 fin = Ping" "classify 10 fin = Pong"
  by (simp_all add: classify.simps)

lemma control_handled: "running c \<Longrightarrow>
    handle_frames (control_frame k # fs) c = handle_frames fs (c\<lparr>events := events c @ control_events k\<rparr>)"
  by (cases k) (simp_all add: handle_frame_def emit_def)

lemma running_events [simp]: "running (c\<lparr>events := es\<rparr>) = running c"
  by (simp add: running_def)

lemma controls_handled: "running c \<Longrightarrow>
    handle_frames (map control_frame ks @ fs) c = handle_frames fs (c\<lparr>events := events c @ concat (map control_events ks)\<rparr>)"
proof (induction ks arbitrary: c)
  case (Cons k ks)
  then show ?case using control_handled [of c k "map control_frame ks @ fs"] by simp
qed simp

text \<open>The fragments after the first one.\<close>

lemma fragments_handled:
  assumes "running c" "fragmentOpcode c = (if isText then 1 else 2)" "ps \<noteq> []"
    and "length (fragmentBuffer c) + length (concat (map snd ps)) \<le> MAX_FRAME_PAYLOAD"
  shows "handle_frames (rest_frames ps @ fs) c = handle_frames fs (c\<lparr>fragmentOpcode := 0, fragmentBuffer := [],
    events := events c @ concat (map control_events (concat (map fst ps))) @
      [(if isText then OnText else OnBinary) (fragmentBuffer c @ concat (map snd ps))]\<rparr>)"
  using assms
proof (induction ps arbitrary: c)
  case (Cons x ps)
  obtain cs p where x: "x = (cs, p)" by (cases x)
  let ?c = "c\<lparr>events := events c @ concat (map control_events cs)\<rparr>"
  have c: "running ?c" "fragmentOpcode ?c = (if isText then 1 else 2)" "fragmentBuffer ?c = fragmentBuffer c"
    using Cons.prems(1,2) by simp_all
  have fit: "length (fragmentBuffer c) + length p \<le> MAX_FRAME_PAYLOAD" using Cons.prems(4) by (simp add: x)
  have "handle_frames (rest_frames (x # ps) @ fs) c = handle_frames ((ps = [], 0, p) # rest_frames ps @ fs) ?c"
    using controls_handled [OF Cons.prems(1), of cs] by (simp add: x)
  also have "\<dots> = handle_frames (rest_frames ps @ fs) (handle_frame (if ps = [] then ContinuationFinal else Continuation) p ?c)"
    using c(1) by simp
  finally have step: "handle_frames (rest_frames (x # ps) @ fs) c =
    handle_frames (rest_frames ps @ fs) (handle_frame (if ps = [] then ContinuationFinal else Continuation) p ?c)" .
  show ?case
  proof (cases "ps = []")
    case True
    have "handle_frame ContinuationFinal p ?c = c\<lparr>fragmentOpcode := 0, fragmentBuffer := [],
      events := events c @ concat (map control_events cs) @ [(if isText then OnText else OnBinary) (fragmentBuffer c @ p)]\<rparr>"
      using c fit Cons.prems(1) by (cases isText) (auto simp: handle_frame_def appendFragment_def emit_def running_def)
    then show ?thesis unfolding step using True by (simp add: x)
  next
    case False
    let ?d = "?c\<lparr>fragmentBuffer := fragmentBuffer c @ p\<rparr>"
    have h: "handle_frame Continuation p ?c = ?d"
      using c(2,3) fit by (cases isText) (auto simp: handle_frame_def appendFragment_def)
    have "handle_frames (rest_frames ps @ fs) ?d = handle_frames fs (?d\<lparr>fragmentOpcode := 0, fragmentBuffer := [],
      events := events ?d @ concat (map control_events (concat (map fst ps))) @
        [(if isText then OnText else OnBinary) (fragmentBuffer ?d @ concat (map snd ps))]\<rparr>)"
      by (rule Cons.IH) (use Cons.prems False in \<open>simp_all add: running_def x\<close>)
    then show ?thesis unfolding step using False h by (simp add: x)
  qed
qed simp

lemma item_handled:
  assumes "idle_client c" "item_size i \<le> MAX_FRAME_PAYLOAD"
  shows "handle_frames (item_frames i @ fs) c = handle_frames fs (c\<lparr>events := events c @ item_events i\<rparr>)"
proof (cases i)
  case (Control k)
  then show ?thesis using control_handled [of c k fs] assms(1) by (simp add: idle_client_def)
next
  case (Message isText p ps)
  have c: "running c" "fragmentOpcode c = 0" "fragmentBuffer c = []" using assms(1) by (simp_all add: idle_client_def)
  show ?thesis
  proof (cases "ps = []")
    case True
    then show ?thesis using c Message by (cases isText) (simp_all add: handle_frame_def emit_def)
  next
    case False
    let ?d = "c\<lparr>fragmentOpcode := if isText then 1 else 2, fragmentBuffer := p\<rparr>"
    have "handle_frame (if isText then IncompleteText else IncompleteBinary) p c = ?d"
      using c assms(2) Message by (auto simp: handle_frame_def appendFragment_def)
    then have "handle_frames (item_frames i @ fs) c = handle_frames (rest_frames ps @ fs) ?d"
      using c(1) False Message by (cases isText) simp_all
    also have "\<dots> = handle_frames fs (?d\<lparr>fragmentOpcode := 0, fragmentBuffer := [],
      events := events ?d @ concat (map control_events (concat (map fst ps))) @
        [(if isText then OnText else OnBinary) (fragmentBuffer ?d @ concat (map snd ps))]\<rparr>)"
      by (rule fragments_handled) (use c(1) False Message assms(2) in \<open>simp_all add: running_def\<close>)
    also have "?d\<lparr>fragmentOpcode := 0, fragmentBuffer := [],
      events := events ?d @ concat (map control_events (concat (map fst ps))) @
        [(if isText then OnText else OnBinary) (fragmentBuffer ?d @ concat (map snd ps))]\<rparr> =
      c\<lparr>events := events c @ item_events i\<rparr>"
      using c(2,3) Message by simp
    finally show ?thesis .
  qed
qed

lemma items_handled:
  assumes "idle_client c" "list_all (\<lambda>i. item_size i \<le> MAX_FRAME_PAYLOAD) items"
  shows "handle_frames (concat (map item_frames items)) c = c\<lparr>events := events c @ concat (map item_events items)\<rparr>"
  using assms
proof (induction items arbitrary: c)
  case (Cons i items)
  have "idle_client (c\<lparr>events := events c @ item_events i\<rparr>)" using Cons.prems(1) by (simp add: idle_client_def)
  then show ?case using Cons item_handled [of c i "concat (map item_frames items)"] by simp
qed simp

section \<open>Buffers\<close>

lemma handle_frame_buffer:
  "length (fragmentBuffer c) \<le> MAX_FRAME_PAYLOAD \<Longrightarrow> length (fragmentBuffer (handle_frame k p c)) \<le> MAX_FRAME_PAYLOAD"
  by (cases k) (auto simp: handle_frame_def appendFragment_def emit_def ws_throw_def Let_def)

lemma decode_buffers:
  assumes "length (fragmentBuffer c) \<le> MAX_FRAME_PAYLOAD" "decode_rounds data c = (rest, c1)"
  shows "length (fragmentBuffer c1) \<le> MAX_FRAME_PAYLOAD \<and> length rest \<le> length data"
  using assms
proof (induction data c arbitrary: rest c1 rule: decode_rounds.induct)
  case (1 data c)
  obtain len0 c2 where m: "maybeDecodeBuffer data c = (len0, c2)" by fastforce
  have "length (fragmentBuffer c2) \<le> MAX_FRAME_PAYLOAD"
    using m 1(2) handle_frame_buffer by (auto simp: maybeDecodeBuffer_def split: if_splits prod.splits Inbound.splits)
  then show ?case using 1(1) [OF _ m [symmetric]] 1(2,3) unfolding decode_rounds.simps [of data c]
    by (fastforce simp: m split: if_splits)
qed

lemma receive_buffers:
  assumes "length (fragmentBuffer c) \<le> MAX_FRAME_PAYLOAD" "length data \<le> MAX_FRAME_PAYLOAD + 16"
    and "runReceiveLoop data rs c = (rest, c1)"
  shows "length (fragmentBuffer c1) \<le> MAX_FRAME_PAYLOAD \<and> length rest \<le> MAX_FRAME_PAYLOAD + 16"
  using assms
proof (induction rs arbitrary: data c)
  case Nil
  then show ?case using decode_buffers [of c data] unfolding runReceiveLoop.simps [of data "[]"]
    by (fastforce split: if_splits prod.splits)
next
  case (Cons r rs)
  obtain d c2 where d: "decode_rounds data c = (d, c2)" by fastforce
  have b: "length (fragmentBuffer c2) \<le> MAX_FRAME_PAYLOAD" "length d \<le> MAX_FRAME_PAYLOAD + 16"
    using decode_buffers [OF Cons.prems(1) d] Cons.prems(2) by simp_all
  show ?case
  proof (cases "\<exists>b. r = Chunk b \<and> b \<noteq> [] \<and> length d + length b \<le> MAX_FRAME_PAYLOAD + 16 \<and> running c2")
    case True
    then obtain x where "r = Chunk x" "x \<noteq> []" "length d + length x \<le> MAX_FRAME_PAYLOAD + 16" "running c2" by blast
    then show ?thesis using Cons.prems(3) b(1) Cons.IH [of c2 "d @ x"] unfolding runReceiveLoop.simps [of data "r # rs"] d
      by (simp add: running_def)
  next
    case False
    then show ?thesis using Cons.prems(3) b Cons.IH [of c2 d] unfolding runReceiveLoop.simps [of data "r # rs"] d
      by (cases r) (auto simp: ws_throw_def running_def split: if_splits)
  qed
qed

section \<open>The client's own frames\<close>

text \<open>How a server reads a frame of a client: the length as above, then the key, then the masked payload.\<close>

definition server_read :: "u8 list \<Rightarrow> (u8 \<times> u8 list \<times> u8 list) option" where
  "server_read data =
     (if data ! 1 AND 0x80 = 0 then None
      else case payload_length (data[1 := data ! 1 AND 0x7F]) of
        Inl k \<Rightarrow> None
      | Inr (n, pos) \<Rightarrow> Some (data ! 0, masked (take 4 (drop pos data)) (take (unat n) (drop (pos + 4) data)), drop (pos + 4 + unat n) data))"

lemma masked_masked: "length key = 4 \<Longrightarrow> masked key (masked key msg) = msg"
  by (rule nth_equalityI) (simp_all add: masked_def xor.assoc)

lemma length_masked [simp]: "length (masked key msg) = length msg"
  by (simp add: masked_def)

lemma mask_bit: "l AND 0x80 = 0 \<Longrightarrow> (l OR 0x80) AND 0x7F = l" "(l OR 0x80) AND 0x80 \<noteq> (0 :: u8)"
proof -
  have e: "l AND 0x7F OR l AND 0x80 = l" for l :: u8
  proof -
    have "l AND 0x7F OR l AND 0x80 = l AND (0x7F OR 0x80)" by (simp only: bit.conj_disj_distrib)
    also have "(0x7F OR 0x80 :: u8) = - 1" by simp
    finally show ?thesis by simp
  qed
  show "l AND 0x80 = 0 \<Longrightarrow> (l OR 0x80) AND 0x7F = l" using e [of l] by (simp add: bit.conj_disj_distrib2)
  show "(l OR 0x80) AND 0x80 \<noteq> 0" by (simp add: bit.conj_disj_distrib2)
qed

lemma drop_exact: "length xs = n \<Longrightarrow> drop n (xs @ ys) = ys"
  by simp

lemma makeFrame_read:
  assumes "length msg < 2 ^ 31" "length key = 4"
  shows "server_read (makeFrame b msg key @ rest) = Some (b, msg, rest)"
    and "length (makeFrame b msg key) \<le> length msg + 14"
proof -
  let ?n = "length msg"
  obtain l ls where l: "length_bytes ?n = l # ls" "l AND 0x80 = 0" using second_byte [OF assms(1)] by blast
  have f: "makeFrame b msg key = [b, l OR 0x80] @ ls @ key @ masked key msg" by (simp add: makeFrame_def l(1))
  show "length (makeFrame b msg key) \<le> length msg + 14"
    using length_bytes_bound(1) [of ?n] assms(2) by (simp add: f l(1))
  have pl: "payload_length (b # length_bytes ?n @ key @ masked key msg @ rest) = Inr (of_nat ?n, 1 + length (length_bytes ?n))"
    by (rule payload_length_exact [OF assms(1)])
  have "unat (of_nat ?n :: u64) = ?n" using assms(1) by (simp add: unsigned_of_nat take_bit_nat_eq_self)
  moreover have "drop (6 + length ls) (([b, l OR 128] @ ls @ key) @ masked key msg @ rest) = masked key msg @ rest"
    by (rule drop_exact) (simp add: assms(2))
  moreover have "drop (6 + length ls + ?n) (([b, l OR 128] @ ls @ key @ masked key msg) @ rest) = rest"
    by (rule drop_exact) (simp add: assms(2))
  ultimately show "server_read (makeFrame b msg key @ rest) = Some (b, msg, rest)"
    using pl mask_bit [of l] l assms(2) by (simp add: server_read_def f masked_masked)
qed

section \<open>Writing\<close>

lemma send_rounds_prefix: "send_rounds data tries = (sent, r) \<Longrightarrow>
    (\<exists>rest. data = sent @ rest) \<and> (r = Some True \<longleftrightarrow> sent = data)"
proof (induction tries arbitrary: data sent r)
  case Nil
  then show ?case by (auto simp: send_rounds.simps [of data "[]"] split: if_splits)
next
  case (Cons x tries)
  obtain stop n isOpen where x: "x = (stop, n, isOpen)" by (cases x)
  note step = Cons.prems [unfolded x send_rounds.simps [of data "(stop, n, isOpen) # tries"]]
  consider (empty) "data = []" | (thrown) "data \<noteq> []" "stop \<or> n = 0 \<and> \<not> isOpen" | (again) "data \<noteq> []" "\<not> stop" "n = 0" "isOpen"
    | (lost) "data \<noteq> []" "\<not> stop" "0 < n" "n < length data" "\<not> isOpen"
    | (some) "data \<noteq> []" "\<not> stop" "0 < n" "length data \<le> n \<or> isOpen" by linarith
  then show ?case
  proof cases
    case empty
    then show ?thesis using step by simp
  next
    case thrown
    then have "sent = []" "r = Some False" using step by (auto split: if_splits)
    then show ?thesis using thrown by simp
  next
    case again
    then show ?thesis using step Cons.IH by simp
  next
    case lost
    then have "sent = take n data" "r = Some False" using step by simp_all
    moreover have "length (take n data) \<noteq> length data" using lost by simp
    then have "take n data \<noteq> data" by (rule contrapos_nn) simp
    moreover have "data = take n data @ drop n data" by simp
    ultimately show ?thesis by (simp only: option.inject) blast
  next
    case some
    obtain s2 r2 where s: "send_rounds (drop n data) tries = (s2, r2)" by fastforce
    then have e: "sent = take n data @ s2" "r = r2" using some step by auto
    have "(\<exists>rest. drop n data = s2 @ rest) \<and> (r2 = Some True \<longleftrightarrow> s2 = drop n data)" by (rule Cons.IH [OF s])
    then obtain rest where d: "drop n data = s2 @ rest" "r2 = Some True \<longleftrightarrow> s2 = drop n data" by blast
    have w: "data = take n data @ drop n data" by simp
    have "(take n data @ s2 = take n data @ drop n data) = (s2 = drop n data)" by (rule same_append_eq)
    then have "take n data @ s2 = data \<longleftrightarrow> s2 = drop n data" by (simp only: append_take_drop_id)
    then show ?thesis unfolding e using d w by (metis append.assoc)
  qed
qed

section \<open>Properties\<close>

lemma receive_items:
  assumes "idle_client c" "list_all (\<lambda>i. item_size i \<le> MAX_FRAME_PAYLOAD) items" "frames_ok (concat (map item_frames items))"
    and "list_all (\<lambda>(fin, opc, p). length p \<le> FRAME_LIMIT) (concat (map item_frames items))"
    and "reads_ok rs" "data @ bytes_read rs = stream_of (concat (map item_frames items))"
  shows "runReceiveLoop data rs c = ([], c\<lparr>events := events c @ concat (map item_events items)\<rparr>)"
proof -
  have h: "handle_frames (concat (map item_frames items)) c = c\<lparr>events := events c @ concat (map item_events items)\<rparr>"
    by (rule items_handled [OF assms(1,2)])
  have "running (handle_frames (concat (map item_frames items)) c)" unfolding h using assms(1) by (simp add: idle_client_def)
  then show ?thesis using receive_stream [OF assms(3-6), of c] h by (metis prod.collapse)
qed

text \<open>
  C33: messages arrive. A server sends messages, each whole or in fragments, with pings and pongs between
  them and between the fragments, no frame above \<open>FRAME_LIMIT\<close> bytes and no message above 1 MiB. However
  the stream is cut into reads of at most 100000 bytes and whatever timeouts come between, the client
  hands over exactly these messages, of their type, once and in order, answers every ping with its own
  data, and keeps nothing back.
\<close>

theorem ws_messages_delivered:
  assumes "idle_client c" "list_all (\<lambda>i. item_size i \<le> MAX_FRAME_PAYLOAD) items" "frames_ok (concat (map item_frames items))"
    and "list_all (\<lambda>(fin, opc, p). length p \<le> FRAME_LIMIT) (concat (map item_frames items))"
    and "reads_ok rs" "bytes_read rs = stream_of (concat (map item_frames items))"
  shows "runReceiveLoop [] rs c = ([], c\<lparr>events := events c @ concat (map item_events items)\<rparr>)"
  by (rule receive_items [OF assms(1-5)]) (use assms(6) in simp)

definition fresh_socket :: WSClient where
  "fresh_socket = \<lparr>fragmentBuffer = [], fragmentOpcode = 0, stopped = False, failed = None, events = []\<rparr>"

theorem ws_messages_delivered_witness:
  "runReceiveLoop [] [Chunk [1], Timeout, Chunk [2, 72, 73, 0x89, 1, 7], Chunk [0x80, 1, 33]] fresh_socket =
     ([], fresh_socket\<lparr>events := [SendPong [7], OnText [72, 73, 33]]\<rparr>)"
proof -
  have "\<not> (8 :: u8) \<le> 1" by (simp add: word_le_nat_alt)
  then show ?thesis
    using ws_messages_delivered [of fresh_socket "[Message True [72, 73] [([PingFrame [7]], [33])]]"
      "[Chunk [1], Timeout, Chunk [2, 72, 73, 0x89, 1, 7], Chunk [0x80, 1, 33]]"]
  by (simp add: fresh_socket_def idle_client_def running_def MAX_FRAME_PAYLOAD_def FRAME_LIMIT_def frames_ok_def frame_ok_def
      reads_ok_def bytes_read_def stream_of_def server_frame_def length_bytes_def)
qed

text \<open>
  memory. Whatever the server sends, however it is cut, the receive buffer never holds more than
  1 MiB and 16 bytes and the fragment buffer never more than 1 MiB.
\<close>

theorem ws_buffers_bounded:
  assumes "length (fragmentBuffer c) \<le> MAX_FRAME_PAYLOAD" "length data \<le> MAX_FRAME_PAYLOAD + 16"
  shows "length (fragmentBuffer (snd (runReceiveLoop data rs c))) \<le> MAX_FRAME_PAYLOAD \<and>
    length (fst (runReceiveLoop data rs c)) \<le> MAX_FRAME_PAYLOAD + 16"
  by (rule receive_buffers [OF assms, of rs]) simp

theorem ws_buffers_bounded_witness:
  "\<forall>rs. length (fragmentBuffer (snd (runReceiveLoop [] rs fresh_socket))) \<le> 1048576 \<and>
    length (fst (runReceiveLoop [] rs fresh_socket)) \<le> 1048592"
  using ws_buffers_bounded [of fresh_socket "[]"] by (simp add: fresh_socket_def MAX_FRAME_PAYLOAD_def)

text \<open>
  frames of the client. A frame of the client of less than 2 GiB is masked, fits the 200 spare bytes of
  its buffer, and a server that reads it gets the first byte and the message back, whatever the key; if the
  write returns, exactly the frame was written, and otherwise a beginning of it.
\<close>

theorem ws_client_frame_roundtrip:
  assumes "length msg < 2 ^ 31" "length key = 4" "sendFrame ready isStopped b msg key tries = (sent, r)"
  shows "server_read (makeFrame b msg key @ rest) = Some (b, msg, rest) \<and> length (makeFrame b msg key) < length msg + 200 \<and>
    (\<exists>unsent. makeFrame b msg key = sent @ unsent) \<and> (r = Some True \<longrightarrow> sent = makeFrame b msg key)"
proof -
  have "(\<exists>unsent. makeFrame b msg key = sent @ unsent) \<and> (r = Some True \<longrightarrow> sent = makeFrame b msg key)"
    using assms(3) send_rounds_prefix [of "makeFrame b msg key" tries]
    by (auto simp: sendFrame_def sendAllRawLocked_def split: if_splits)
  then show ?thesis using makeFrame_read(1) [OF assms(1,2), of b rest] makeFrame_read(2) [OF assms(1,2), of b] by simp
qed

theorem ws_client_frame_roundtrip_witness:
  "sendFrame True False WIRE_TEXT [72, 73] [1, 2, 3, 4] [(False, 3, True), (False, 0, True), (False, 5, True)] =
     ([0x81, 0x82, 1, 2, 3, 4, 73, 75], Some True) \<and>
   server_read [0x81, 0x82, 1, 2, 3, 4, 73, 75] = Some (0x81, [72, 73], [])"
proof -
  have f: "makeFrame WIRE_TEXT [72, 73] [1, 2, 3, 4] = [0x81, 0x82, 1, 2, 3, 4, 73, 75]"
    by (simp add: makeFrame_def length_bytes_def masked_def WIRE_TEXT_def upt_rec)
  have s: "sendFrame True False WIRE_TEXT [72, 73] [1, 2, 3, 4] [(False, 3, True), (False, 0, True), (False, 5, True)] =
     ([0x81, 0x82, 1, 2, 3, 4, 73, 75], Some True)"
    by (simp add: sendFrame_def sendAllRawLocked_def f send_rounds.simps)
  show ?thesis using ws_client_frame_roundtrip [OF _ _ s, where rest = "[]"] s f by (simp add: WIRE_TEXT_def)
qed

text \<open>
  The limit on the receive buffer counts what arrived together with a frame: a frame of 1 MiB that is
  accepted when it arrives alone ends the connection when the read that completes it brings more than six
  bytes of the next frame.
\<close>

lemma large_frame_depends_on_reads:
  assumes "length p = MAX_FRAME_PAYLOAD" "frame_ok True 2 p" "idle_client c" "length ys > 6" "length ys \<le> 90000"
  defines "f \<equiv> server_frame True 2 p"
  shows "runReceiveLoop (take MAX_FRAME_PAYLOAD f) [Chunk (drop MAX_FRAME_PAYLOAD f), Gone] c = ([], c\<lparr>events := events c @ [OnBinary p]\<rparr>)"
    and "failed (snd (runReceiveLoop (take MAX_FRAME_PAYLOAD f) [Chunk (drop MAX_FRAME_PAYLOAD f @ ys)] c)) = Some ''websock: frame too large''"
proof -
  let ?d = "take MAX_FRAME_PAYLOAD f" and ?e = "drop MAX_FRAME_PAYLOAD f"
  have len: "length f = MAX_FRAME_PAYLOAD + 10"
    using assms(1) by (simp add: f_def length_server_frame length_bytes_def MAX_FRAME_PAYLOAD_def)
  have c: "\<not> stopped c" "failed c = None" "fragmentOpcode c = 0" using assms(3) by (simp_all add: idle_client_def running_def)
  have d: "decode_rounds ?d c = (?d, c)"
    by (rule round_waits [OF getFrame_incomplete [OF assms(2), of _ ?e "[]"]]) (simp_all add: len flip: f_def)
  have w: "decode_rounds f c = ([], c\<lparr>events := events c @ [OnBinary p]\<rparr>)"
    using round_whole [OF assms(2), of c "[]"] c by (simp add: running_def handle_frame_def emit_def Let_def decode_rounds_nil flip: f_def)
  have e: "?e \<noteq> []" "length ?e = 10" using len by auto
  show "runReceiveLoop ?d [Chunk ?e, Gone] c = ([], c\<lparr>events := events c @ [OnBinary p]\<rparr>)"
    using c e d w len unfolding runReceiveLoop.simps [of ?d] by (simp add: runReceiveLoop.simps [of f])
  show "failed (snd (runReceiveLoop ?d [Chunk (?e @ ys)] c)) = Some ''websock: frame too large''"
    using c e d len assms(4) unfolding runReceiveLoop.simps [of ?d] by (simp add: ws_throw_def)
qed

end
