(* ===== verification/WebSockHandshake.thy ===== *)
theory WebSockHandshake
  imports HttpProps WebSockProps
begin

text \<open>
  The opening handshake of the web socket client (\<open>core/src/utils/proto/websock.cpp\<close>): the upgrade request,
  reading and checking the answer, redirects, and the bytes handed to the receive loop.

  As for HTTP, a connection is the bytes that still arrive, \<open>avail\<close> says how many a read returns and
  \<open>ending\<close> what happens after the last one: \<open>None\<close> when the client is stopped, or the message of the
  exception for a read error or the deadline. The random key bytes and SHA-1 (vendored picohash) are
  arguments.
\<close>

section \<open>Request\<close>

definition buildUpgradeRequest :: "HttpHostPort \<Rightarrow> string \<Rightarrow> string" where
  "buildUpgradeRequest e secKey =
     ''GET '' @ path e @ '' HTTP/1.1'' @ CRLF @
     ''Accept-Language: en-US,en'' @ CRLF @ ''Cache-Control: no-cache'' @ CRLF @ ''Connection: Upgrade'' @ CRLF @
     ''Cookie: ident='' @ CRLF @ ''Pragma: no-cache'' @ CRLF @ ''Sec-GPC: 1'' @ CRLF @ ''Sec-WebSocket-Version: 13'' @ CRLF @
     ''Upgrade: websocket'' @ CRLF @
     ''User-Agent: Mozilla/5.0 (X11; Linux x86_64) AppleWebKit/537.36 (KHTML, like Gecko) Chrome/108.0.0.0 Safari/537.36'' @ CRLF @
     ''Sec-WebSocket-Key: '' @ secKey @ CRLF @ ''Host: '' @ hostHeaderFor e @ CRLF @
     ''Origin: http://'' @ hostHeaderFor e @ CRLF @ CRLF"

section \<open>Answer\<close>

definition UPGRADE_BUFFER :: nat where "UPGRADE_BUFFER = 100000"

fun find_end :: "string \<Rightarrow> nat option" where
  "find_end [] = None"
| "find_end (c # cs) = (if take 4 (c # cs) = CRLF @ CRLF then Some 0 else map_option Suc (find_end cs))"

text \<open>\<open>Inr None\<close> when stopped; otherwise the bytes received, the place of the blank line, the bytes not read yet.\<close>

function readUpgradeResponse :: "(nat \<Rightarrow> nat) \<Rightarrow> string option \<Rightarrow> string \<Rightarrow> string \<Rightarrow> string + (string \<times> nat \<times> string) option" where
  "readUpgradeResponse avail ending acc bytes =
     (if length acc + 1 \<ge> UPGRADE_BUFFER then Inl ''websock: upgrade response headers too large''
      else if bytes = [] then (case ending of None \<Rightarrow> Inr None | Some e \<Rightarrow> Inl e)
      else let (chunk, rest) = recv_bytes avail (UPGRADE_BUFFER - 1 - length acc) bytes; acc1 = acc @ chunk
           in case find_end acc1 of
                Some pos \<Rightarrow> Inr (Some (acc1, pos, rest))
              | None \<Rightarrow> readUpgradeResponse avail ending acc1 rest)"
  by pat_completeness auto
termination
  by (relation "measure (\<lambda>(avail, ending, acc, bytes). length bytes)") (auto simp: recv_bytes_def Let_def UPGRADE_BUFFER_def)

declare readUpgradeResponse.simps [simp del]

definition WS_GUID :: string where "WS_GUID = ''258EAFA5-E914-47DA-95CA-C5AB0DC85B11''"

definition expectedAccept :: "(string \<Rightarrow> u8 list) \<Rightarrow> string \<Rightarrow> string" where
  "expectedAccept sha1 secKey = base64_encode (sha1 (secKey @ WS_GUID))"

definition validateUpgradeHeaders :: "(string \<Rightarrow> u8 list) \<Rightarrow> string \<Rightarrow> ResponseHeader \<Rightarrow> string option" where
  "validateUpgradeHeaders sha1 secKey header =
     (if \<not> equalsIgnoreCase (getHeaderValue (header_fields header) ''Upgrade'') ''websocket''
      then Some ''websock: handshake failed: missing or wrong Upgrade header''
      else if getHeaderValue (header_fields header) ''Sec-WebSocket-Accept'' \<noteq> expectedAccept sha1 secKey
      then Some ''websock: handshake failed: bad Sec-WebSocket-Accept''
      else None)"

section \<open>Handshake\<close>

text \<open>The path of a redirect, unless it differs from the current one in case only.\<close>

definition redirect_path :: "string \<Rightarrow> string \<Rightarrow> string" where
  "redirect_path currentPath redirected =
     (if redirected \<noteq> currentPath \<and> equalsIgnoreCase redirected currentPath then currentPath else redirected)"

text \<open>
  What an attempt meets: no connection, because the client is stopped (\<open>None\<close>) or with an exception, a
  connection on which the request cannot be sent, or the bytes that arrive.
\<close>

datatype Attempt = NotConnected "string option" | NotSent string | Answer string

definition reset_fragments :: "WSClient \<Rightarrow> WSClient" where
  "reset_fragments c = c\<lparr>fragmentOpcode := 0, fragmentBuffer := []\<rparr>"

text \<open>
  \<open>performHandshake\<close>. \<open>connect\<close> gives the outcome of an attempt for the endpoint and the text of the request,
  \<open>keyBytes\<close> the random bytes of each attempt. The result is an exception, \<open>Inr None\<close> when stopped, or the bytes
  received after the header and those still to be read; with it come the endpoints tried and the client, whose
  fragments are dropped with every new connection.
\<close>

fun performHandshake :: "(HttpHostPort \<Rightarrow> string \<Rightarrow> Attempt) \<Rightarrow> (nat \<Rightarrow> nat) \<Rightarrow> string option \<Rightarrow> (string \<Rightarrow> u8 list) \<Rightarrow>
    (nat \<Rightarrow> u8 list) \<Rightarrow> nat \<Rightarrow> HttpHostPort \<Rightarrow> WSClient \<Rightarrow> HttpHostPort list \<times> WSClient \<times> (string + (string \<times> string) option)" where
  "performHandshake connect avail ending sha1 keyBytes redirectsLeft current c =
     (let secKey = base64_encode (keyBytes redirectsLeft); c1 = reset_fragments c
      in case connect current (buildUpgradeRequest current secKey) of
           NotConnected None \<Rightarrow> ([current], c, Inr None)
         | NotConnected (Some e) \<Rightarrow> ([current], c, Inl e)
         | NotSent e \<Rightarrow> ([current], c1, Inl e)
         | Answer bytes \<Rightarrow> (case readUpgradeResponse avail ending [] bytes of
             Inl e \<Rightarrow> ([current], c1, Inl e)
           | Inr None \<Rightarrow> ([current], c1, Inr None)
           | Inr (Some (buf, headerEnd, rest)) \<Rightarrow> (case deserializeResponse (take (headerEnd + 2) buf) of
               Inl e \<Rightarrow> ([current], c1, Inl ''websock: upgrade failed: malformed HTTP response'')
             | Inr header \<Rightarrow>
                 if statusCode header = 101 then
                   (case validateUpgradeHeaders sha1 secKey header of
                      Some e \<Rightarrow> ([current], c1, Inl e)
                    | None \<Rightarrow> ([current], c1, Inr (Some (drop (headerEnd + 4) buf, rest))))
                 else if isRedirectStatus (statusCode header) then
                   (case redirectsLeft of
                      0 \<Rightarrow> ([current], c1, Inl ''websock: upgrade failed'')
                    | Suc n \<Rightarrow> (case resolveRedirectLocation current header of
                        None \<Rightarrow> ([current], c1, Inl ''websock: cannot parse redirect Location'')
                      | Some parsed \<Rightarrow>
                          let (asked, r) = performHandshake connect avail ending sha1 keyBytes n
                                (parsed\<lparr>path := redirect_path (path current) (path parsed)\<rparr>) c1
                          in (current # asked, r)))
                 else ([current], c1, Inl ''websock: upgrade failed''))))"

declare performHandshake.simps [simp del]

definition MAX_REDIRECTS :: nat where "MAX_REDIRECTS = 5"

section \<open>Reading the answer\<close>

lemma find_end_skip: "LF \<notin> set l \<Longrightarrow> s \<noteq> [] \<Longrightarrow> hd s \<noteq> LF \<Longrightarrow> find_end (l @ s) = map_option (\<lambda>p. p + length l) (find_end s)"
proof (induction l)
  case Nil
  then show ?case by (simp add: option.map_ident)
next
  case (Cons c l)
  have "take 4 ((c # l) @ s) \<noteq> CRLF @ CRLF"
  proof
    assume "take 4 ((c # l) @ s) = CRLF @ CRLF"
    then have "((c # l) @ s) ! 1 = LF" using nth_take [of 1 4 "(c # l) @ s"] by (simp add: CRLF_def)
    then show False using Cons.prems by (cases l) (auto simp: hd_conv_nth)
  qed
  then show ?case using Cons by (simp add: option.map_comp comp_def)
qed

lemma find_end_lines:
  assumes "list_all (\<lambda>l. LF \<notin> set l \<and> l \<noteq> []) ls" "ls \<noteq> []"
  shows "find_end (crlf_lines ls @ CRLF @ rest) = Some (length (crlf_lines ls) - 2)"
  using assms
proof (induction ls)
  case (Cons l ls)
  let ?t = "crlf_lines ls @ CRLF @ rest"
  have cr: "hd (CRLF @ ?t) \<noteq> LF" by (simp add: CRLF_def CR_def LF_def)
  have "find_end (crlf_lines (l # ls) @ CRLF @ rest) = find_end (l @ CRLF @ ?t)" by (simp add: crlf_lines_def)
  also have "\<dots> = map_option (\<lambda>p. p + length l) (find_end (CRLF @ ?t))"
    using Cons.prems(1) cr by (intro find_end_skip) (auto simp: CRLF_def)
  finally have e: "find_end (crlf_lines (l # ls) @ CRLF @ rest) = map_option (\<lambda>p. p + length l) (find_end (CRLF @ ?t))" .
  show ?case
  proof (cases ls)
    case Nil
    then show ?thesis unfolding e by (simp add: crlf_lines_def CRLF_def)
  next
    case (Cons l' ls')
    then obtain c cs where c: "?t = c # cs" "c \<noteq> LF" "cs \<noteq> []" "hd cs \<noteq> LF"
      using Cons.prems(1) by (cases l'; cases "tl l'") (auto simp: crlf_lines_def CRLF_def CR_def LF_def)
    have "find_end (CRLF @ ?t) = map_option (\<lambda>p. p + 2) (find_end ?t)"
      using c by (cases cs) (auto simp: CRLF_def CR_def LF_def option.map_comp comp_def)
    moreover have "find_end ?t = Some (length (crlf_lines ls) - 2)" using Cons.IH Cons.prems(1) Cons by simp
    moreover have "2 \<le> length (crlf_lines ls)" using Cons by (simp add: crlf_lines_def CRLF_def)
    ultimately show ?thesis unfolding e by (simp add: crlf_lines_def CRLF_def)
  qed
qed simp

lemma find_end_take: "find_end (take m s) = (case find_end s of Some p \<Rightarrow> if p + 4 \<le> m then Some p else None | None \<Rightarrow> None)"
proof (induction s arbitrary: m)
  case (Cons c cs)
  show ?case
  proof (cases m)
    case (Suc k)
    have "take 4 (take m (c # cs)) = CRLF @ CRLF \<longleftrightarrow> 4 \<le> m \<and> take 4 (c # cs) = CRLF @ CRLF"
    proof
      assume a: "take 4 (take m (c # cs)) = CRLF @ CRLF"
      then have "length (take 4 (take m (c # cs))) = 4" by (simp add: CRLF_def)
      then have "4 \<le> m" by simp
      then show "4 \<le> m \<and> take 4 (c # cs) = CRLF @ CRLF" using a by (simp add: min_absorb1)
    qed (simp add: min_absorb1)
    then show ?thesis using Suc Cons.IH [of k] by (auto split: option.splits)
  qed (auto split: option.splits)
qed simp

text \<open>However the network cuts the answer, everything read is kept, and the blank line is found where it is.\<close>

lemma upgrade_response_read:
  assumes "find_end (acc @ bytes) = Some p" "length acc < p + 4" "p + 4 < UPGRADE_BUFFER"
  shows "\<exists>buf rest. readUpgradeResponse avail ending acc bytes = Inr (Some (buf, p, rest)) \<and> buf @ rest = acc @ bytes \<and> p + 4 \<le> length buf"
  using assms
proof (induction "length bytes" arbitrary: acc bytes rule: less_induct)
  case less
  define k where "k = min (UPGRADE_BUFFER - 1 - length acc) (max 1 (avail (length bytes)))"
  let ?acc = "acc @ take k bytes" and ?rest = "drop k bytes"
  have "find_end acc = None"
    using find_end_take [of "length acc" "acc @ bytes"] less.prems(1,2) by simp
  then have "bytes \<noteq> []" using less.prems(1) by auto
  have k: "1 \<le> k" using less.prems(2,3) by (simp add: k_def)
  have step: "readUpgradeResponse avail ending acc bytes = (case find_end ?acc of Some pos \<Rightarrow> Inr (Some (?acc, pos, ?rest))
      | None \<Rightarrow> readUpgradeResponse avail ending ?acc ?rest)"
  proof -
    have "\<not> length acc + 1 \<ge> UPGRADE_BUFFER" using less.prems(2,3) by simp
    then show ?thesis using \<open>bytes \<noteq> []\<close>
      unfolding readUpgradeResponse.simps [of _ _ acc bytes] recv_bytes_def Let_def k_def [symmetric] by (simp split: option.split)
  qed
  have f: "find_end ?acc = (if p + 4 \<le> length ?acc then Some p else None)"
  proof -
    have "?acc @ ?rest = acc @ bytes" by simp
    then have "take (length ?acc) (acc @ bytes) = ?acc" by (metis append_eq_conv_conj)
    then show ?thesis using find_end_take [of "length ?acc" "acc @ bytes"] less.prems(1) by (simp only: option.case)
  qed
  show ?case
  proof (cases "p + 4 \<le> length ?acc")
    case True
    then show ?thesis using step f by simp
  next
    case False
    have "length ?rest < length bytes" using k \<open>bytes \<noteq> []\<close> by (cases bytes) auto
    moreover have "find_end (?acc @ ?rest) = Some p" using less.prems(1) by simp
    moreover have "length ?acc < p + 4" using False by simp
    ultimately obtain buf rest where "readUpgradeResponse avail ending ?acc ?rest = Inr (Some (buf, p, rest))"
      "buf @ rest = ?acc @ ?rest" "p + 4 \<le> length buf" using less.hyps less.prems(3) by blast
    then show ?thesis using step f False by simp
  qed
qed

lemma upgrade_response_kept:
  assumes "readUpgradeResponse avail ending acc bytes = Inr (Some (buf, p, rest))"
  shows "buf @ rest = acc @ bytes \<and> find_end buf = Some p"
  using assms
proof (induction avail ending acc bytes rule: readUpgradeResponse.induct)
  case (1 avail ending acc bytes)
  then show ?case
    by (simp add: readUpgradeResponse.simps [of avail ending acc bytes] recv_bytes_def Let_def split: if_splits option.splits)
      (metis append.assoc append_take_drop_id)+
qed

lemma find_end_place: "find_end s = Some p \<Longrightarrow> p + 4 \<le> length s \<and> take 4 (drop p s) = CRLF @ CRLF"
proof (induction s arbitrary: p)
  case (Cons c cs)
  show ?case
  proof (cases "take 4 (c # cs) = CRLF @ CRLF")
    case True
    then have "length (take 4 (c # cs)) = 4" by (simp only: CRLF_def length_append list.size)
    then have "4 \<le> length (c # cs)" by (simp only: length_take min_def split: if_splits)
    then show ?thesis using True Cons.prems by simp
  next
    case False
    then show ?thesis using Cons by auto
  qed
qed simp

text \<open>A well-formed answer is read as the header that was sent and the bytes after it.\<close>

lemma upgrade_header_read:
  assumes "response_ok h" "length (serializeResponse h) < UPGRADE_BUFFER"
  shows "\<exists>buf p rest. readUpgradeResponse avail ending [] (serializeResponse h @ frames) = Inr (Some (buf, p, rest)) \<and>
    deserializeResponse (take (p + 2) buf) = Inr h \<and> drop (p + 4) buf @ rest = frames"
proof -
  let ?ls = "response_lines h"
  have ne: "?ls \<noteq> []" "2 \<le> length (crlf_lines ?ls)" by (simp_all add: response_lines_def crlf_lines_def CRLF_def)
  define p where "p = length (crlf_lines ?ls) - 2"
  have len: "length (serializeResponse h) = p + 4" using ne(2) by (simp add: serializeResponse_lines p_def CRLF_def)
  have "find_end ([] @ serializeResponse h @ frames) = Some p"
    using find_end_lines [OF response_lines_plain [OF assms(1)] ne(1)] by (simp add: serializeResponse_lines p_def)
  then obtain buf rest where r: "readUpgradeResponse avail ending [] (serializeResponse h @ frames) = Inr (Some (buf, p, rest))"
    "buf @ rest = serializeResponse h @ frames" "p + 4 \<le> length buf"
    using upgrade_response_read [of "[]" "serializeResponse h @ frames" p avail ending] assms(2) len by auto
  have "take (p + 2) buf = take (p + 2) (buf @ rest)" "drop (p + 4) buf @ rest = drop (p + 4) (buf @ rest)" using r(3) by simp_all
  moreover have "take (p + 2) (serializeResponse h @ frames) = crlf_lines ?ls"
    using ne(2) by (simp add: serializeResponse_lines p_def)
  moreover have "drop (p + 4) (serializeResponse h @ frames) = frames" using len by simp
  ultimately show ?thesis using r response_roundtrip [OF assms(1), of "[]"] by simp
qed

lemma performHandshake_accepts:
  assumes "response_ok h" "length (serializeResponse h) < UPGRADE_BUFFER" "statusCode h = 101"
    and "validateUpgradeHeaders sha1 (base64_encode (keyBytes n)) h = None"
    and "connect e (buildUpgradeRequest e (base64_encode (keyBytes n))) = Answer (serializeResponse h @ frames)"
  shows "\<exists>early later. performHandshake connect avail ending sha1 keyBytes n e c = ([e], reset_fragments c, Inr (Some (early, later))) \<and>
    early @ later = frames"
proof -
  obtain buf p rest where "readUpgradeResponse avail ending [] (serializeResponse h @ frames) = Inr (Some (buf, p, rest))"
    "deserializeResponse (take (p + 2) buf) = Inr h" "drop (p + 4) buf @ rest = frames"
    using upgrade_header_read [OF assms(1,2)] by blast
  then show ?thesis using assms(3-5) unfolding performHandshake.simps [of _ _ _ _ _ n] by (simp add: Let_def)
qed

end
