(* ===== verification/WebSockSession.thy ===== *)
theory WebSockSession
  imports WebSockHandshake
begin

text \<open>
  The handshake and the receive loop of the web socket client together: what a client accepts, and that no
  byte a server sends right after its answer is lost between the two.
\<close>

section \<open>What is accepted\<close>

definition accepted_answer :: "(string \<Rightarrow> u8 list) \<Rightarrow> string \<Rightarrow> string \<Rightarrow> string \<Rightarrow> bool" where
  "accepted_answer sha1 secKey answer frames \<longleftrightarrow>
     (\<exists>p h. answer = take (p + 4) answer @ frames \<and> find_end (take (p + 4) answer) = Some p \<and>
        deserializeResponse (take (p + 2) answer) = Inr h \<and> statusCode h = 101 \<and>
        equalsIgnoreCase (getHeaderValue (header_fields h) ''Upgrade'') ''websocket'' \<and>
        getHeaderValue (header_fields h) ''Sec-WebSocket-Accept'' = base64_encode (sha1 (secKey @ WS_GUID)))"

lemma accepted_read:
  assumes "readUpgradeResponse avail ending [] bytes = Inr (Some (buf, p, rest))" "deserializeResponse (take (p + 2) buf) = Inr h"
    and "statusCode h = 101" "validateUpgradeHeaders sha1 secKey h = None"
  shows "accepted_answer sha1 secKey bytes (drop (p + 4) buf @ rest)"
proof -
  have b: "buf @ rest = bytes" "find_end buf = Some p" using upgrade_response_kept [OF assms(1)] by simp_all
  then have p: "p + 4 \<le> length buf" using find_end_place by blast
  have t: "take (p + 4) bytes = take (p + 4) buf" "take (p + 2) bytes = take (p + 2) buf" using b(1) p by auto
  have "bytes = take (p + 4) bytes @ drop (p + 4) buf @ rest" using b(1) t(1) by (metis append.assoc append_take_drop_id)
  moreover have "find_end (take (p + 4) bytes) = Some p" using find_end_take [of "p + 4" buf] b(2) t(1) by simp
  ultimately show ?thesis unfolding accepted_answer_def
    using assms(2-4) t(2) by (auto simp: validateUpgradeHeaders_def expectedAccept_def split: if_splits)
qed

text \<open>The redirected path is kept or replaced by the current one.\<close>

lemma redirect_path_ok: "endpoint_ok current \<Longrightarrow> endpoint_ok e \<Longrightarrow> endpoint_ok (e\<lparr>path := redirect_path (path current) (path e)\<rparr>)"
  by (auto simp: endpoint_ok_def url_ok_def redirect_path_def)

lemma performHandshake_asked:
  assumes "endpoint_ok current" "performHandshake connect avail ending sha1 keyBytes n current c = (asked, c', r)"
  shows "asked \<noteq> [] \<and> list_all endpoint_ok asked \<and> length asked \<le> n + 1 \<and>
    (\<forall>early later. r = Inr (Some (early, later)) \<longrightarrow>
       (let e = List.last asked; secKey = base64_encode (keyBytes (n + 1 - length asked))
        in \<exists>bytes. connect e (buildUpgradeRequest e secKey) = Answer bytes \<and> accepted_answer sha1 secKey bytes (early @ later)))"
  using assms
proof (induction n arbitrary: current asked r c c')
  case 0
  then show ?case
    by (auto simp: performHandshake.simps [of _ _ _ _ _ 0] Let_def
        split: sum.splits option.splits prod.splits if_splits Attempt.splits dest: accepted_read)
next
  case (Suc n)
  let ?key = "base64_encode (keyBytes (Suc n))"
  show ?case
  proof (cases "\<exists>bytes buf p rest h parsed. connect current (buildUpgradeRequest current ?key) = Answer bytes \<and>
      readUpgradeResponse avail ending [] bytes = Inr (Some (buf, p, rest)) \<and> deserializeResponse (take (p + 2) buf) = Inr h \<and>
      statusCode h \<noteq> 101 \<and> isRedirectStatus (statusCode h) \<and> resolveRedirectLocation current h = Some parsed")
    case True
    then obtain bytes buf p rest h parsed where h: "connect current (buildUpgradeRequest current ?key) = Answer bytes"
      "readUpgradeResponse avail ending [] bytes = Inr (Some (buf, p, rest))" "deserializeResponse (take (p + 2) buf) = Inr h"
      "statusCode h \<noteq> 101" "isRedirectStatus (statusCode h)" "resolveRedirectLocation current h = Some parsed" by blast
    let ?next = "parsed\<lparr>path := redirect_path (path current) (path parsed)\<rparr>"
    have "endpoint_ok parsed"
      using h(6) resolve_ok [OF Suc.prems(1)] by (auto simp: resolveRedirectLocation_def Let_def split: if_splits)
    then have ok: "endpoint_ok ?next" by (rule redirect_path_ok [OF Suc.prems(1)])
    obtain asked2 c2 r2 where g: "performHandshake connect avail ending sha1 keyBytes n ?next (reset_fragments c) = (asked2, c2, r2)"
      by (metis prod_cases3)
    have "asked = current # asked2" "r = r2"
      using Suc.prems(2) h g by (simp_all add: performHandshake.simps [of _ _ _ _ _ "Suc n"] Let_def)
    then show ?thesis using Suc.IH [OF ok g] Suc.prems(1) by simp
  next
    case False
    then show ?thesis using Suc.prems
      by (auto simp: performHandshake.simps [of _ _ _ _ _ "Suc n"] Let_def
          split: sum.splits option.splits prod.splits if_splits Attempt.splits dest: accepted_read)
  qed
qed

section \<open>Properties\<close>

text \<open>
  C32: what is accepted. Whatever the servers answer and however the network cuts it, a handshake from a usable
  endpoint makes at most \<open>MAX_REDIRECTS + 1\<close> requests, each to a usable endpoint, and if it succeeds the
  endpoint asked last answered that very request with status 101, an upgrade to \<open>websocket\<close> and the digest of
  the key sent in it; what is handed to the receive loop is exactly what followed the header.
\<close>

theorem ws_handshake_accepts:
  assumes "endpoint_ok e" "performHandshake connect avail ending sha1 keyBytes MAX_REDIRECTS e c = (asked, c', r)"
  shows "list_all endpoint_ok asked \<and> length asked \<le> 6 \<and>
    (\<forall>early later. r = Inr (Some (early, later)) \<longrightarrow>
       (\<exists>bytes. connect (List.last asked) (buildUpgradeRequest (List.last asked) (base64_encode (keyBytes (6 - length asked)))) = Answer bytes \<and>
          accepted_answer sha1 (base64_encode (keyBytes (6 - length asked))) bytes (early @ later)))"
  using performHandshake_asked [OF assms] by (simp add: MAX_REDIRECTS_def Let_def)

theorem ws_handshake_accepts_witness:
  "\<forall>answer c. length (fst (performHandshake (\<lambda>e req. Answer answer) (\<lambda>_. 1) None (\<lambda>_. [1]) (\<lambda>_. [2]) MAX_REDIRECTS
      \<lparr>host = ''kiwi'', port = 8073, path = ''/a''\<rparr> c)) \<le> 6"
proof (intro allI)
  fix answer c
  let ?e = "\<lparr>host = ''kiwi'', port = 8073, path = ''/a''\<rparr>"
  let ?g = "performHandshake (\<lambda>e req. Answer answer) (\<lambda>_. 1) None (\<lambda>_. [1]) (\<lambda>_. [2]) MAX_REDIRECTS ?e c"
  have "endpoint_ok ?e" by (simp add: endpoint_ok_def url_ok_def no_char_of_def)
  from ws_handshake_accepts [OF this, of "\<lambda>e req. Answer answer" "\<lambda>_. 1" None "\<lambda>_. [1]" "\<lambda>_. [2]" c "fst ?g" "fst (snd ?g)" "snd (snd ?g)"]
  show "length (fst ?g) \<le> 6" by simp
qed

text \<open>
  C31: a session. When a server accepts the handshake and sends messages right behind its answer, any cut of
  the bytes between the answer and the receive loop gives the same result: the handshake hands over what it
  has read too much, drops what an earlier connection left of a fragmented message, and the loop, started
  with it, delivers every message of the server once and in order. The client may be in any state in which it runs.
\<close>

theorem ws_session_delivers:
  assumes "response_ok h" "length (serializeResponse h) < UPGRADE_BUFFER" "statusCode h = 101"
    and "validateUpgradeHeaders sha1 (base64_encode (keyBytes n)) h = None"
    and "connect e (buildUpgradeRequest e (base64_encode (keyBytes n))) = Answer (serializeResponse h @ frames)"
    and "running c" "list_all (\<lambda>i. item_size i \<le> MAX_FRAME_PAYLOAD) items" "frames_ok (concat (map item_frames items))"
    and "list_all (\<lambda>(fin, opc, p). length p \<le> FRAME_LIMIT) (concat (map item_frames items))"
    and "map of_char frames = stream_of (concat (map item_frames items))"
  shows "\<exists>early later c'. performHandshake connect avail ending sha1 keyBytes n e c = ([e], c', Inr (Some (early, later))) \<and>
    c' = c\<lparr>fragmentOpcode := 0, fragmentBuffer := []\<rparr> \<and>
    (\<forall>rs. reads_ok rs \<and> bytes_read rs = map of_char later \<longrightarrow>
       runReceiveLoop (map of_char early) rs c' = ([], c'\<lparr>events := events c @ concat (map item_events items)\<rparr>))"
proof -
  let ?c = "reset_fragments c"
  obtain early later where e: "performHandshake connect avail ending sha1 keyBytes n e c = ([e], ?c, Inr (Some (early, later)))"
    "early @ later = frames" using performHandshake_accepts [of h sha1 keyBytes n connect e frames avail ending c, OF assms(1-5)] by blast
  have i: "idle_client ?c" "events ?c = events c" using assms(6) by (simp_all add: idle_client_def running_def reset_fragments_def)
  have "runReceiveLoop (map of_char early) rs ?c = ([], ?c\<lparr>events := events ?c @ concat (map item_events items)\<rparr>)"
    if "reads_ok rs" "bytes_read rs = map of_char later" for rs
    by (rule receive_items [OF i(1) assms(7-9) that(1)]) (use that(2) e(2) assms(10) in \<open>simp flip: map_append\<close>)
  then show ?thesis using e(1) i(2) unfolding reset_fragments_def by auto
qed

definition sample_upgrade :: ResponseHeader where
  "sample_upgrade = \<lparr>statusCode = 101, statusString = ''Switching Protocols'',
     header_fields = [(''Sec-WebSocket-Accept'', ''AQID''), (''Upgrade'', ''WebSocket'')]\<rparr>"

lemma sample_upgrade_ok: "response_ok sample_upgrade" "length (serializeResponse sample_upgrade) < UPGRADE_BUFFER"
proof -
  have d: "decimal_int 101 = ''101''" by code_simp
  show "response_ok sample_upgrade"
    by (simp add: response_ok_def sample_upgrade_def field_ok_def LF_def is_gap_def sorted_fields_def to_lower_def is_upper_def char_code_def)
  show "length (serializeResponse sample_upgrade) < UPGRADE_BUFFER"
    by (simp add: serializeResponse_def sample_upgrade_def serializeFields_def CRLF_def d UPGRADE_BUFFER_def)
qed

lemma sample_upgrade_valid: "validateUpgradeHeaders (\<lambda>_. [1, 2, 3]) k sample_upgrade = None"
proof -
  have "getHeaderValue (header_fields sample_upgrade) ''Upgrade'' = ''WebSocket''"
    "getHeaderValue (header_fields sample_upgrade) ''Sec-WebSocket-Accept'' = ''AQID''"
    "equalsIgnoreCase ''WebSocket'' ''websocket''" "base64_encode [1, 2, 3] = ''AQID''"
    by code_simp+
  then show ?thesis by (simp add: validateUpgradeHeaders_def expectedAccept_def)
qed

text \<open>A client that lost its last connection in the middle of a fragmented message.\<close>

definition interrupted_client :: WSClient where
  "interrupted_client = fresh_socket\<lparr>fragmentOpcode := 2, fragmentBuffer := [7, 8]\<rparr>"

theorem ws_session_delivers_witness:
  "\<exists>early later. performHandshake (\<lambda>_ _. Answer (serializeResponse sample_upgrade @ [CHR 0x81, CHR 0x02, CHR ''H'', CHR ''I''])) (\<lambda>_. 70) None
      (\<lambda>_. [1, 2, 3]) (\<lambda>_. [4]) 5 \<lparr>host = ''kiwi'', port = 8073, path = ''/a''\<rparr> interrupted_client =
      ([\<lparr>host = ''kiwi'', port = 8073, path = ''/a''\<rparr>], fresh_socket, Inr (Some (early, later))) \<and>
    (\<forall>rs. reads_ok rs \<and> bytes_read rs = map of_char later \<longrightarrow>
       runReceiveLoop (map of_char early) rs fresh_socket = ([], fresh_socket\<lparr>events := [OnText [72, 73]]\<rparr>))"
proof -
  let ?e = "\<lparr>host = ''kiwi'', port = 8073, path = ''/a''\<rparr>"
  let ?fr = "[CHR 0x81, CHR 0x02, CHR ''H'', CHR ''I'']" and ?is = "[Message True [72, 73] []]"
  have i: "running interrupted_client" "list_all (\<lambda>i. item_size i \<le> MAX_FRAME_PAYLOAD) ?is" "frames_ok (concat (map item_frames ?is))"
    "list_all (\<lambda>(fin, opc, p). length p \<le> FRAME_LIMIT) (concat (map item_frames ?is))"
    "map of_char ?fr = stream_of (concat (map item_frames ?is))"
    by (simp_all add: interrupted_client_def fresh_socket_def running_def MAX_FRAME_PAYLOAD_def FRAME_LIMIT_def frames_ok_def frame_ok_def
        stream_of_def server_frame_def length_bytes_def)
  have ev: "events interrupted_client @ concat (map item_events ?is) = [OnText [72, 73]]"
    "interrupted_client\<lparr>fragmentOpcode := 0, fragmentBuffer := []\<rparr> = fresh_socket" by (simp_all add: interrupted_client_def fresh_socket_def)
  show ?thesis
    using ws_session_delivers [of sample_upgrade "\<lambda>_. [1, 2, 3]" "\<lambda>_. [4]" 5 "\<lambda>_ _. Answer (serializeResponse sample_upgrade @ ?fr)" ?e ?fr
        interrupted_client ?is "\<lambda>_. 70" None, OF sample_upgrade_ok _ sample_upgrade_valid _ i]
    unfolding ev by (simp add: sample_upgrade_def)
qed

end
