(* ===== verification/DspStream.thy ===== *)
theory DspStream
  imports Prelude
begin

text \<open>
  The double-buffered sample stream between two threads (\<open>core/src/dsp/stream.h\<close>). One thread fills
  \<open>writeBuf\<close> and calls \<open>swap\<close>; the other calls \<open>read\<close>, uses \<open>readBuf\<close> and calls \<open>flush\<close>. What happens under
  one lock is one step, and so is each \<open>notify_all\<close>, which is made after the lock was given back: between two
  steps the other thread, and any number of callers of the four stop functions, may run. A wait on a condition
  variable is its loop: test under the lock, go to sleep, be woken by a \<open>notify_all\<close> or for no reason, test again.
\<close>

section \<open>The stream\<close>

record 'a stream =
  writeBuf :: "'a list"
  readBuf :: "'a list"
  canSwap :: bool
  dataReady :: bool
  readerStop :: bool
  writerStop :: bool
  dataSize :: nat

text \<open>The constructor: two buffers of any content.\<close>

definition new_stream :: "'a list \<Rightarrow> 'a list \<Rightarrow> 'a stream" where
  "new_stream w r = \<lparr>writeBuf = w, readBuf = r, canSwap = True, dataReady = False, readerStop = False, writerStop = False, dataSize = 0\<rparr>"

text \<open>The writer puts a block at the start of its buffer.\<close>

definition put_block :: "'a list \<Rightarrow> 'a stream \<Rightarrow> 'a stream" where
  "put_block b s = s\<lparr>writeBuf := b @ drop (length b) (writeBuf s)\<rparr>"

text \<open>
  The first lock of \<open>swap\<close>: \<open>None\<close> when the condition it waits for does not hold, otherwise whether the buffers
  were exchanged; then what it does under the second.
\<close>

definition swap_enter :: "nat \<Rightarrow> 'a stream \<Rightarrow> (bool \<times> 'a stream) option" where
  "swap_enter n s =
     (if \<not> (canSwap s \<or> writerStop s) then None
      else if writerStop s then Some (False, s)
      else Some (True, s\<lparr>dataSize := n, writeBuf := readBuf s, readBuf := writeBuf s, canSwap := False\<rparr>))"

definition swap_notify :: "'a stream \<Rightarrow> 'a stream" where
  "swap_notify s = s\<lparr>dataReady := True\<rparr>"

text \<open>\<open>read\<close>: \<open>None\<close> when its condition does not hold, \<open>Some None\<close> for the result -1.\<close>

definition stream_read :: "'a stream \<Rightarrow> nat option option" where
  "stream_read s =
     (if \<not> (dataReady s \<or> readerStop s) then None
      else Some (if readerStop s then None else Some (dataSize s)))"

text \<open>\<open>read_for\<close>, which returns 0 when the time is over.\<close>

definition stream_read_for :: "'a stream \<Rightarrow> nat option" where
  "stream_read_for s =
     (if \<not> (dataReady s \<or> readerStop s) then Some 0
      else if readerStop s then None else Some (dataSize s))"

text \<open>What \<open>flush\<close> does under its two locks.\<close>

definition flush_ready :: "'a stream \<Rightarrow> 'a stream" where
  "flush_ready s = s\<lparr>dataReady := False\<rparr>"

definition flush_swap :: "'a stream \<Rightarrow> 'a stream" where
  "flush_swap s = s\<lparr>canSwap := True\<rparr>"

definition stopWriter :: "'a stream \<Rightarrow> 'a stream" where "stopWriter s = s\<lparr>writerStop := True\<rparr>"
definition clearWriteStop :: "'a stream \<Rightarrow> 'a stream" where "clearWriteStop s = s\<lparr>writerStop := False\<rparr>"
definition stopReader :: "'a stream \<Rightarrow> 'a stream" where "stopReader s = s\<lparr>readerStop := True\<rparr>"
definition clearReadStop :: "'a stream \<Rightarrow> 'a stream" where "clearReadStop s = s\<lparr>readerStop := False\<rparr>"

lemmas stream_ops = put_block_def swap_enter_def swap_notify_def stream_read_def flush_ready_def flush_swap_def
  stopWriter_def clearWriteStop_def stopReader_def clearReadStop_def

section \<open>Two threads\<close>

text \<open>
  Where the writer is: filling its buffer, about to test the condition of \<open>swap\<close>, asleep on \<open>swapCV\<close>, between the
  two locks of \<open>swap\<close>, about to call \<open>rdyCV.notify_all\<close>. Where the reader is: about to test the condition of
  \<open>read\<close>, asleep on \<open>rdyCV\<close>, using the block, between the two locks of \<open>flush\<close>, about to call
  \<open>swapCV.notify_all\<close>.
\<close>

datatype writer_at = Filling | Swapping nat | SwapAsleep nat | Notifying | NotifyRdy
datatype reader_at = Reading | ReadAsleep | Using nat | Flushing | NotifySwap

text \<open>
  \<open>sent\<close> and \<open>seen\<close> record the blocks of the calls of \<open>swap\<close> that return true, and those \<open>read\<close> gave;
  \<open>stopsWriter\<close> and \<open>stopsReader\<close> count the calls of \<open>stopWriter\<close> and \<open>stopReader\<close> that have set their flag
  and not yet notified.
\<close>

record 'a link =
  strm :: "'a stream"
  writer :: writer_at
  reader :: reader_at
  stopsWriter :: nat
  stopsReader :: nat
  sent :: "'a list list"
  seen :: "'a list list"

definition new_link :: "'a list \<Rightarrow> 'a list \<Rightarrow> 'a link" where
  "new_link w r = \<lparr>strm = new_stream w r, writer = Filling, reader = Reading, stopsWriter = 0, stopsReader = 0, sent = [], seen = []\<rparr>"

text \<open>A \<open>notify_all\<close> wakes who is asleep and has no effect otherwise.\<close>

definition swapCV_notify_all :: "'a link \<Rightarrow> 'a link" where
  "swapCV_notify_all l = (case writer l of SwapAsleep n \<Rightarrow> l\<lparr>writer := Swapping n\<rparr> | _ \<Rightarrow> l)"

definition rdyCV_notify_all :: "'a link \<Rightarrow> 'a link" where
  "rdyCV_notify_all l = (case reader l of ReadAsleep \<Rightarrow> l\<lparr>reader := Reading\<rparr> | _ \<Rightarrow> l)"

lemmas notify_defs = swapCV_notify_all_def rdyCV_notify_all_def

inductive link_step :: "'a link \<Rightarrow> 'a link \<Rightarrow> bool" where
  fill: "writer l = Filling \<Longrightarrow> length b \<le> length (writeBuf (strm l)) \<Longrightarrow>
    link_step l (l\<lparr>strm := put_block b (strm l), writer := Swapping (length b)\<rparr>)"
| swap_sleep: "writer l = Swapping n \<Longrightarrow> swap_enter n (strm l) = None \<Longrightarrow> link_step l (l\<lparr>writer := SwapAsleep n\<rparr>)"
| swap_wakes: "writer l = SwapAsleep n \<Longrightarrow> link_step l (l\<lparr>writer := Swapping n\<rparr>)"
| swap: "writer l = Swapping n \<Longrightarrow> swap_enter n (strm l) = Some (True, s) \<Longrightarrow>
    link_step l (l\<lparr>strm := s, writer := Notifying, sent := sent l @ [take n (writeBuf (strm l))]\<rparr>)"
| swap_stopped: "writer l = Swapping n \<Longrightarrow> swap_enter n (strm l) = Some (False, s) \<Longrightarrow>
    link_step l (l\<lparr>strm := s, writer := Filling\<rparr>)"
| ready: "writer l = Notifying \<Longrightarrow> link_step l (l\<lparr>strm := swap_notify (strm l), writer := NotifyRdy\<rparr>)"
| ready_notify: "writer l = NotifyRdy \<Longrightarrow> link_step l (rdyCV_notify_all (l\<lparr>writer := Filling\<rparr>))"
| read_sleep: "reader l = Reading \<Longrightarrow> stream_read (strm l) = None \<Longrightarrow> link_step l (l\<lparr>reader := ReadAsleep\<rparr>)"
| read_wakes: "reader l = ReadAsleep \<Longrightarrow> link_step l (l\<lparr>reader := Reading\<rparr>)"
| read: "reader l = Reading \<Longrightarrow> stream_read (strm l) = Some (Some n) \<Longrightarrow>
    link_step l (l\<lparr>reader := Using n, seen := seen l @ [take n (readBuf (strm l))]\<rparr>)"
| read_stopped: "reader l = Reading \<Longrightarrow> stream_read (strm l) = Some None \<Longrightarrow> link_step l l"
| flush: "reader l = Using n \<Longrightarrow> link_step l (l\<lparr>strm := flush_ready (strm l), reader := Flushing\<rparr>)"
| flushed: "reader l = Flushing \<Longrightarrow> link_step l (l\<lparr>strm := flush_swap (strm l), reader := NotifySwap\<rparr>)"
| flush_notify: "reader l = NotifySwap \<Longrightarrow> link_step l (swapCV_notify_all (l\<lparr>reader := Reading\<rparr>))"
| stop_writer: "link_step l (l\<lparr>strm := stopWriter (strm l), stopsWriter := Suc (stopsWriter l)\<rparr>)"
| stop_writer_notify: "stopsWriter l = Suc k \<Longrightarrow> link_step l (swapCV_notify_all (l\<lparr>stopsWriter := k\<rparr>))"
| stop_reader: "link_step l (l\<lparr>strm := stopReader (strm l), stopsReader := Suc (stopsReader l)\<rparr>)"
| stop_reader_notify: "stopsReader l = Suc k \<Longrightarrow> link_step l (rdyCV_notify_all (l\<lparr>stopsReader := k\<rparr>))"
| clear_stop: "f \<in> {clearWriteStop, clearReadStop} \<Longrightarrow> link_step l (l\<lparr>strm := f (strm l)\<rparr>)"

inductive link_reachable :: "'a link \<Rightarrow> bool" where
  start: "link_reachable (new_link w r)"
| step: "link_reachable l \<Longrightarrow> link_step l l' \<Longrightarrow> link_reachable l'"

section \<open>Invariant\<close>

text \<open>The block between the two threads: in transit, or ready and not yet read.\<close>

definition reader_holds :: "'a link \<Rightarrow> bool" where
  "reader_holds l \<longleftrightarrow> (case reader l of Using n \<Rightarrow> True | Flushing \<Rightarrow> True | _ \<Rightarrow> False)"

definition in_transit :: "'a link \<Rightarrow> 'a list list" where
  "in_transit l =
     (if writer l = Notifying \<or> \<not> reader_holds l \<and> dataReady (strm l) then [take (dataSize (strm l)) (readBuf (strm l))] else [])"

text \<open>
  Exactly one party holds the token: the writer may swap, or has swapped and not yet told, or the data is
  ready, or the reader uses it, or is about to give the buffer back.
\<close>

definition token_ok :: "'a link \<Rightarrow> bool" where
  "token_ok l \<longleftrightarrow>
     (case reader l of
        Using n \<Rightarrow> \<not> canSwap (strm l) \<and> writer l \<noteq> Notifying \<and> dataReady (strm l) \<and> n = dataSize (strm l) \<and>
          seen l \<noteq> [] \<and> last (seen l) = take n (readBuf (strm l))
      | Flushing \<Rightarrow> \<not> canSwap (strm l) \<and> writer l \<noteq> Notifying \<and> \<not> dataReady (strm l)
      | _ \<Rightarrow> of_bool (canSwap (strm l)) + of_bool (writer l = Notifying) + of_bool (dataReady (strm l)) = (1 :: nat))"

text \<open>A thread that sleeps although what it waits for has come about is one that someone is about to wake.\<close>

definition wake_ok :: "'a link \<Rightarrow> bool" where
  "wake_ok l \<longleftrightarrow>
     (\<forall>n. writer l = SwapAsleep n \<longrightarrow>
        (canSwap (strm l) \<longrightarrow> reader l = NotifySwap) \<and> (writerStop (strm l) \<longrightarrow> 0 < stopsWriter l)) \<and>
     (reader l = ReadAsleep \<longrightarrow>
        (dataReady (strm l) \<longrightarrow> writer l = NotifyRdy) \<and> (readerStop (strm l) \<longrightarrow> 0 < stopsReader l))"

definition link_ok :: "'a link \<Rightarrow> bool" where
  "link_ok l \<longleftrightarrow> token_ok l \<and> wake_ok l \<and> sent l = seen l @ in_transit l"

lemmas link_ok_defs = token_ok_def wake_ok_def in_transit_def reader_holds_def

lemma link_ok_new: "link_ok (new_link w r)"
  by (simp add: link_ok_def link_ok_defs new_link_def new_stream_def)

lemma token_ok_step: "link_step l l' \<Longrightarrow> token_ok l \<Longrightarrow> token_ok l'"
  by (induction rule: link_step.induct)
    (auto simp: token_ok_def notify_defs stream_ops of_bool_def split: reader_at.splits writer_at.splits if_splits)

lemma wake_ok_step: "link_step l l' \<Longrightarrow> wake_ok l \<Longrightarrow> wake_ok l'"
  by (induction rule: link_step.induct)
    (auto simp: wake_ok_def notify_defs stream_ops split: reader_at.splits writer_at.splits if_splits)

lemma sent_step: "link_step l l' \<Longrightarrow> token_ok l \<Longrightarrow> sent l = seen l @ in_transit l \<Longrightarrow> sent l' = seen l' @ in_transit l'"
  by (induction rule: link_step.induct)
    (auto simp: token_ok_def in_transit_def reader_holds_def notify_defs stream_ops of_bool_def
      split: reader_at.splits writer_at.splits if_splits)

lemma link_ok_step: "link_step l l' \<Longrightarrow> link_ok l \<Longrightarrow> link_ok l'"
  unfolding link_ok_def by (blast intro: token_ok_step wake_ok_step sent_step)

lemma link_reachable_ok: "link_reachable l \<Longrightarrow> link_ok l"
  by (induction rule: link_reachable.induct) (auto intro: link_ok_new link_ok_step)

section \<open>Progress\<close>

text \<open>The next step of the reader, when no one stops it and it is not asleep.\<close>

definition reader_step :: "'a link \<Rightarrow> 'a link option" where
  "reader_step l =
     (case reader l of
        Reading \<Rightarrow> (case stream_read (strm l) of
            Some (Some n) \<Rightarrow> Some (l\<lparr>reader := Using n, seen := seen l @ [take n (readBuf (strm l))]\<rparr>)
          | _ \<Rightarrow> None)
      | ReadAsleep \<Rightarrow> None
      | Using n \<Rightarrow> Some (l\<lparr>strm := flush_ready (strm l), reader := Flushing\<rparr>)
      | Flushing \<Rightarrow> Some (l\<lparr>strm := flush_swap (strm l), reader := NotifySwap\<rparr>)
      | NotifySwap \<Rightarrow> Some (swapCV_notify_all (l\<lparr>reader := Reading\<rparr>)))"

text \<open>The next step of the writer, who puts \<open>b\<close> into its buffer, likewise.\<close>

definition writer_step :: "'a list \<Rightarrow> 'a link \<Rightarrow> 'a link option" where
  "writer_step b l =
     (case writer l of
        Filling \<Rightarrow> Some (l\<lparr>strm := put_block b (strm l), writer := Swapping (length b)\<rparr>)
      | Swapping n \<Rightarrow> (case swap_enter n (strm l) of
            Some (True, s) \<Rightarrow> Some (l\<lparr>strm := s, writer := Notifying, sent := sent l @ [take n (writeBuf (strm l))]\<rparr>)
          | _ \<Rightarrow> None)
      | SwapAsleep n \<Rightarrow> None
      | Notifying \<Rightarrow> Some (l\<lparr>strm := swap_notify (strm l), writer := NotifyRdy\<rparr>)
      | NotifyRdy \<Rightarrow> Some (rdyCV_notify_all (l\<lparr>writer := Filling\<rparr>)))"

lemma reader_step_link_step: "reader_step l = Some l' \<Longrightarrow> link_step l l'"
  by (auto simp: reader_step_def split: reader_at.splits option.splits intro: link_step.intros)

lemma writer_step_link_step:
  "writer_step b l = Some l' \<Longrightarrow> length b \<le> length (writeBuf (strm l)) \<Longrightarrow> link_step l l'"
  by (auto simp: writer_step_def split: writer_at.splits option.splits bool.splits prod.splits intro: link_step.intros)

fun reader_steps :: "nat \<Rightarrow> 'a link \<Rightarrow> 'a link option" where
  "reader_steps 0 l = Some l"
| "reader_steps (Suc k) l = (case reader_step l of None \<Rightarrow> None | Some l' \<Rightarrow> reader_steps k l')"

fun writer_steps :: "nat \<Rightarrow> 'a list \<Rightarrow> 'a link \<Rightarrow> 'a link option" where
  "writer_steps 0 b l = Some l"
| "writer_steps (Suc k) b l = (case writer_step b l of None \<Rightarrow> None | Some l' \<Rightarrow> writer_steps k b l')"

lemma reader_steps_reachable: "link_reachable l \<Longrightarrow> reader_steps k l = Some l' \<Longrightarrow> link_reachable l'"
  by (induction k arbitrary: l)
    (auto split: option.splits intro: link_reachable.step reader_step_link_step)

text \<open>
  The writer waits in \<open>swap\<close> for a block of \<open>n\<close>, tested or asleep; it is admitted when it is awake and
  may exchange the buffers. Likewise the reader.
\<close>

definition in_swap :: "nat \<Rightarrow> 'a link \<Rightarrow> bool" where
  "in_swap n l \<longleftrightarrow> writer l = Swapping n \<or> writer l = SwapAsleep n"

definition swap_admits :: "nat \<Rightarrow> 'a link \<Rightarrow> bool" where
  "swap_admits n l \<longleftrightarrow> writer l = Swapping n \<and> canSwap (strm l)"

definition in_read :: "'a link \<Rightarrow> bool" where
  "in_read l \<longleftrightarrow> reader l = Reading \<or> reader l = ReadAsleep"

definition read_admits :: "'a link \<Rightarrow> bool" where
  "read_admits l \<longleftrightarrow> reader l = Reading \<and> dataReady (strm l)"

lemmas waits = in_swap_def swap_admits_def in_read_def read_admits_def

lemma never_both_asleep: "link_ok l \<Longrightarrow> \<not> (writer l = SwapAsleep n \<and> reader l = ReadAsleep)"
  by (auto simp: link_ok_def token_ok_def wake_ok_def of_bool_def split: if_splits)

lemma swap_admitted:
  assumes "link_ok l" "in_swap n l" "\<not> readerStop (strm l)"
  shows "\<exists>k l'. k \<le> 5 \<and> reader_steps k l = Some l' \<and> swap_admits n l'"
proof (cases "swap_admits n l")
  case True
  then show ?thesis by (intro exI [of _ 0] exI [of _ l]) simp
next
  case False
  note r = reader_step_def notify_defs stream_ops waits
  have t: "token_ok l" "wake_ok l" using assms(1) by (simp_all add: link_ok_def)
  show ?thesis
  proof (cases "reader l")
    case Reading
    then have "dataReady (strm l)" using t assms(2) False by (auto simp: token_ok_def wake_ok_def of_bool_def waits split: if_splits)
    then show ?thesis using Reading assms(2,3) by (intro exI [of _ 4]) (auto simp: r eval_nat_numeral)
  next
    case ReadAsleep
    then show ?thesis using t assms(2) False by (auto simp: token_ok_def wake_ok_def of_bool_def waits split: if_splits)
  next
    case (Using m)
    then show ?thesis using assms(2) by (intro exI [of _ 3]) (auto simp: r eval_nat_numeral)
  next
    case Flushing
    then show ?thesis using assms(2) by (intro exI [of _ 2]) (auto simp: r eval_nat_numeral)
  next
    case NotifySwap
    show ?thesis
    proof (cases "canSwap (strm l)")
      case True
      then show ?thesis using NotifySwap assms(2) by (intro exI [of _ 1]) (auto simp: r)
    next
      case False
      then have "dataReady (strm l)" using t assms(2) NotifySwap by (auto simp: token_ok_def of_bool_def waits split: if_splits)
      then show ?thesis using NotifySwap False assms(2,3) by (intro exI [of _ 5]) (auto simp: r eval_nat_numeral)
    qed
  qed
qed

lemma read_admitted:
  assumes "link_ok l" "in_read l" "\<not> writerStop (strm l)"
  shows "\<exists>k l'. k \<le> 5 \<and> writer_steps k b l = Some l' \<and> read_admits l'"
proof (cases "read_admits l")
  case True
  then show ?thesis by (intro exI [of _ 0] exI [of _ l]) simp
next
  case False
  note w = writer_step_def notify_defs stream_ops waits
  have t: "token_ok l" "wake_ok l" using assms(1) by (simp_all add: link_ok_def)
  have free: "canSwap (strm l)" if "writer l \<noteq> Notifying" "writer l \<noteq> NotifyRdy \<or> \<not> dataReady (strm l)"
    using that t assms(2) False by (auto simp: token_ok_def wake_ok_def of_bool_def waits split: if_splits)
  show ?thesis
  proof (cases "writer l")
    case Filling
    then show ?thesis using free assms(2,3) by (intro exI [of _ 4]) (auto simp: w eval_nat_numeral)
  next
    case (Swapping n)
    then show ?thesis using free assms(2,3) by (intro exI [of _ 3]) (auto simp: w eval_nat_numeral)
  next
    case (SwapAsleep n)
    then show ?thesis using free t assms(2) by (auto simp: wake_ok_def waits)
  next
    case Notifying
    then show ?thesis using assms(2) by (intro exI [of _ 2]) (auto simp: w eval_nat_numeral)
  next
    case NotifyRdy
    show ?thesis
    proof (cases "dataReady (strm l)")
      case True
      then show ?thesis using NotifyRdy assms(2) by (intro exI [of _ 1]) (auto simp: w)
    next
      case False
      then show ?thesis using NotifyRdy free assms(2,3) by (intro exI [of _ 5]) (auto simp: w eval_nat_numeral)
    qed
  qed
qed

section \<open>Properties\<close>

text \<open>
  C14: the hand-over of samples. Whatever the interleaving of the two threads and of calls that stop and
  restart them, the reader is given exactly the blocks whose \<open>swap\<close> returned true, each once, in order and
  whole; at most one block is under way, and while the reader uses a block no one writes to it.
\<close>

theorem stream_hands_over:
  assumes "link_reachable l"
  shows "sent l = seen l @ in_transit l \<and> length (in_transit l) \<le> 1 \<and>
    (\<forall>n. reader l = Using n \<longrightarrow> take n (readBuf (strm l)) = last (seen l))"
  using link_reachable_ok [OF assms] by (auto simp: link_ok_def token_ok_def in_transit_def reader_holds_def)

text \<open>A run: a block is sent and read, and the writer falls asleep with the next one.\<close>

abbreviation blocks :: "nat list \<Rightarrow> nat list \<Rightarrow> bool \<Rightarrow> bool \<Rightarrow> nat \<Rightarrow> nat stream" where
  "blocks w r cs dr n \<equiv> \<lparr>writeBuf = w, readBuf = r, canSwap = cs, dataReady = dr, readerStop = False, writerStop = False, dataSize = n\<rparr>"

definition one_exchanged :: "nat link" where
  "one_exchanged = \<lparr>strm = blocks [0, 0] [7, 0] False False 1, writer = Notifying, reader = Reading,
     stopsWriter = 0, stopsReader = 0, sent = [[7]], seen = []\<rparr>"

definition one_sent :: "nat link" where
  "one_sent = \<lparr>strm = blocks [0, 0] [7, 0] False True 1, writer = Filling, reader = Reading,
     stopsWriter = 0, stopsReader = 0, sent = [[7]], seen = []\<rparr>"

definition writer_asleep :: "nat link" where
  "writer_asleep = \<lparr>strm = blocks [8, 0] [7, 0] False True 1, writer = SwapAsleep 1, reader = Using 1,
     stopsWriter = 0, stopsReader = 0, sent = [[7]], seen = [[7]]\<rparr>"

lemma one_exchanged_reachable: "link_reachable one_exchanged"
proof -
  let ?l0 = "new_link [0, 0] [0, 0] :: nat link"
  let ?l1 = "?l0\<lparr>strm := put_block [7] (strm ?l0), writer := Swapping (length [7 :: nat])\<rparr>"
  have "link_step ?l0 ?l1" by (rule link_step.fill) (simp_all add: new_link_def new_stream_def)
  then have 1: "link_reachable ?l1" using link_reachable.start link_reachable.step by blast
  let ?s2 = "(strm ?l1)\<lparr>dataSize := 1, writeBuf := readBuf (strm ?l1), readBuf := writeBuf (strm ?l1), canSwap := False\<rparr>"
  have "link_step ?l1 (?l1\<lparr>strm := ?s2, writer := Notifying, sent := sent ?l1 @ [take 1 (writeBuf (strm ?l1))]\<rparr>)"
    by (rule link_step.swap) (simp_all add: new_link_def new_stream_def swap_enter_def put_block_def)
  from link_reachable.step [OF 1 this] show ?thesis
    by (simp add: one_exchanged_def new_link_def new_stream_def put_block_def)
qed

lemma one_sent_reachable: "link_reachable one_sent"
proof -
  let ?l3 = "one_exchanged\<lparr>strm := swap_notify (strm one_exchanged), writer := NotifyRdy\<rparr>"
  have "link_reachable ?l3"
    by (rule link_reachable.step [OF one_exchanged_reachable link_step.ready]) (simp add: one_exchanged_def)
  then have "link_reachable (rdyCV_notify_all (?l3\<lparr>writer := Filling\<rparr>))"
    by (rule link_reachable.step [OF _ link_step.ready_notify]) simp
  then show ?thesis by (simp add: one_sent_def one_exchanged_def notify_defs swap_notify_def)
qed

lemma writer_asleep_reachable: "link_reachable writer_asleep"
proof -
  let ?l5 = "one_sent\<lparr>reader := Using 1, seen := seen one_sent @ [take 1 (readBuf (strm one_sent))]\<rparr>"
  have 5: "link_reachable ?l5"
    by (rule link_reachable.step [OF one_sent_reachable link_step.read]) (simp_all add: one_sent_def stream_read_def)
  let ?l6 = "?l5\<lparr>strm := put_block [8] (strm ?l5), writer := Swapping (length [8 :: nat])\<rparr>"
  have 6: "link_reachable ?l6"
    by (rule link_reachable.step [OF 5 link_step.fill]) (simp_all add: one_sent_def)
  have "link_reachable (?l6\<lparr>writer := SwapAsleep 1\<rparr>)"
    by (rule link_reachable.step [OF 6 link_step.swap_sleep]) (simp_all add: one_sent_def swap_enter_def put_block_def)
  then show ?thesis by (simp add: writer_asleep_def one_sent_def put_block_def)
qed

theorem stream_hands_over_witness: "sent one_sent = [[7]] \<and> in_transit one_sent = [[7]]"
  using stream_hands_over [OF one_sent_reachable] by (simp add: one_sent_def)

text \<open>
  C15: no wake-up is lost. In every reachable state, with wake-ups that come too early or for no reason: a
  writer that sleeps in \<open>swap\<close> although it may swap, or although it was stopped, is one that the reader, or the
  caller of \<open>stopWriter\<close>, is about to notify; a reader that sleeps although data is ready or it was stopped is
  one that the writer, or the caller of \<open>stopReader\<close>, is about to notify; the two are never both asleep. A
  writer in \<open>swap\<close>, asleep or not, is awake and admitted after at most five steps of a reader that is not
  stopped, and a reader in \<open>read\<close> after at most five steps of a writer that is not stopped.
\<close>

theorem stream_never_stuck:
  assumes "link_reachable l"
  shows "(\<forall>n. writer l = SwapAsleep n \<longrightarrow>
      (canSwap (strm l) \<longrightarrow> reader l = NotifySwap) \<and> (writerStop (strm l) \<longrightarrow> 0 < stopsWriter l) \<and> reader l \<noteq> ReadAsleep) \<and>
    (reader l = ReadAsleep \<longrightarrow>
      (dataReady (strm l) \<longrightarrow> writer l = NotifyRdy) \<and> (readerStop (strm l) \<longrightarrow> 0 < stopsReader l)) \<and>
    (\<forall>n. in_swap n l \<and> \<not> readerStop (strm l) \<longrightarrow>
      (\<exists>k l'. k \<le> 5 \<and> reader_steps k l = Some l' \<and> swap_admits n l')) \<and>
    (\<forall>b. in_read l \<and> \<not> writerStop (strm l) \<longrightarrow>
      (\<exists>k l'. k \<le> 5 \<and> writer_steps k b l = Some l' \<and> read_admits l'))"
proof -
  note ok = link_reachable_ok [OF assms]
  have w: "wake_ok l" using ok by (simp add: link_ok_def)
  show ?thesis
    using w [unfolded wake_ok_def] swap_admitted [OF ok] read_admitted [OF ok] never_both_asleep [OF ok] by blast
qed

theorem stream_never_stuck_witness:
  "writer writer_asleep = SwapAsleep 1 \<and> reader_steps 3 writer_asleep = Some (writer_asleep
      \<lparr>strm := blocks [8, 0] [7, 0] True False 1, writer := Swapping 1, reader := Reading\<rparr>) \<and>
    (\<exists>k l'. k \<le> 5 \<and> reader_steps k writer_asleep = Some l' \<and> swap_admits 1 l')"
proof -
  have "reader_steps 3 writer_asleep = Some (writer_asleep
      \<lparr>strm := blocks [8, 0] [7, 0] True False 1, writer := Swapping 1, reader := Reading\<rparr>)"
    by (simp add: writer_asleep_def reader_step_def notify_defs flush_ready_def flush_swap_def eval_nat_numeral)
  moreover have "in_swap 1 writer_asleep" "\<not> readerStop (strm writer_asleep)" "writer writer_asleep = SwapAsleep 1"
    by (simp_all add: writer_asleep_def in_swap_def)
  ultimately show ?thesis using stream_never_stuck [OF writer_asleep_reachable] by blast
qed

end
