(* ===== verification/DspProcessor.thy ===== *)
theory DspProcessor
  imports Prelude
begin

text \<open>
  Processors of sample streams (\<open>core/src/dsp/processor.h\<close>). The worker of a block takes the next block of
  samples from its input, calls \<open>process\<close>, and passes on what comes out; how the samples are cut into blocks
  is decided by whoever fills the stream. A processor is a function from its state and a block to the state
  afterwards and the samples put out.

  Here are the contract that such a function depends on the samples only and not on the cuts, what follows
  from it, and the processors that work sample by sample. A float is a real number, \<open>complex_t\<close> a complex
  number, and \<open>stereo_t\<close>, which the code casts to and from \<open>complex_t\<close>, is one as well.
\<close>

section \<open>Running over blocks\<close>

text \<open>The calls of \<open>run\<close> for the blocks read one after the other: the outputs in a row.\<close>

fun run_blocks :: "('s \<Rightarrow> 'a list \<Rightarrow> 's \<times> 'b list) \<Rightarrow> 's \<Rightarrow> 'a list list \<Rightarrow> 's \<times> 'b list" where
  "run_blocks process s [] = (s, [])"
| "run_blocks process s (xs # bs) =
     (let (s1, out1) = process s xs; (s2, out2) = run_blocks process s1 bs in (s2, out1 @ out2))"

lemma run_blocks_out_Cons: "snd (run_blocks process s (xs # bs)) = snd (process s xs) @ snd (run_blocks process (fst (process s xs)) bs)"
  by (simp split: prod.splits)

text \<open>One processor whose output buffer is the input of another, as in the blocks built from blocks.\<close>

definition pipe :: "('s \<Rightarrow> 'a list \<Rightarrow> 's \<times> 'b list) \<Rightarrow> ('t \<Rightarrow> 'b list \<Rightarrow> 't \<times> 'c list) \<Rightarrow> 's \<times> 't \<Rightarrow> 'a list \<Rightarrow> ('s \<times> 't) \<times> 'c list" where
  "pipe f g st xs = (let (s, ys) = f (fst st) xs; (t, zs) = g (snd st) ys in ((s, t), zs))"

section \<open>The contract\<close>

locale stream_processor =
  fixes process :: "'s \<Rightarrow> 'a list \<Rightarrow> 's \<times> 'b list" and valid :: "'s \<Rightarrow> bool"
  assumes process_valid: "valid s \<Longrightarrow> valid (fst (process s xs))"
    and process_nil: "valid s \<Longrightarrow> process s [] = (s, [])"
    and process_append: "valid s \<Longrightarrow> process s (xs @ ys) =
      (let (s1, out1) = process s xs; (s2, out2) = process s1 ys in (s2, out1 @ out2))"
begin

lemma run_blocks_concat: "valid s \<Longrightarrow> run_blocks process s bs = process s (concat bs)"
proof (induction bs arbitrary: s)
  case (Cons xs bs)
  obtain s1 out1 where p: "process s xs = (s1, out1)" by fastforce
  then have "valid s1" using process_valid [OF Cons.prems, of xs] by simp
  then show ?case using process_append [OF Cons.prems, of xs "concat bs"] p by (simp add: Cons.IH)
qed (simp add: process_nil)

lemma same_samples: "valid s \<Longrightarrow> concat bs = concat cs \<Longrightarrow> run_blocks process s bs = run_blocks process s cs"
  by (simp add: run_blocks_concat)

lemma output_prefix: "valid s \<Longrightarrow> \<exists>out. snd (process s (xs @ ys)) = snd (process s xs) @ out"
  by (simp add: process_append split: prod.splits)

lemma run_blocks_valid: "valid s \<Longrightarrow> valid (fst (run_blocks process s bs))"
  by (simp add: run_blocks_concat process_valid)

end

text \<open>Two processors in a row are a processor.\<close>

locale processor_pair = first: stream_processor f valid_f + second: stream_processor g valid_g
  for f :: "'s \<Rightarrow> 'a list \<Rightarrow> 's \<times> 'b list" and valid_f and g :: "'t \<Rightarrow> 'b list \<Rightarrow> 't \<times> 'c list" and valid_g
begin

sublocale both: stream_processor "pipe f g" "\<lambda>st. valid_f (fst st) \<and> valid_g (snd st)"
proof
  fix st xs assume "valid_f (fst st) \<and> valid_g (snd st)"
  then show "valid_f (fst (fst (pipe f g st xs))) \<and> valid_g (snd (fst (pipe f g st xs)))"
    using first.process_valid [of "fst st" xs] second.process_valid [of "snd st"] by (simp add: pipe_def split: prod.splits) (metis fst_conv)
next
  fix st assume "valid_f (fst st) \<and> valid_g (snd st)"
  then show "pipe f g st [] = (st, [])" by (simp add: pipe_def first.process_nil second.process_nil)
next
  fix st xs ys assume v: "valid_f (fst st) \<and> valid_g (snd st)"
  obtain s1 out1 where f: "f (fst st) xs = (s1, out1)" by fastforce
  obtain s2 out2 where f2: "f s1 ys = (s2, out2)" by fastforce
  have "f (fst st) (xs @ ys) = (s2, out1 @ out2)" using first.process_append [of "fst st" xs ys] v f f2 by simp
  then show "pipe f g st (xs @ ys) = (let (s1, out1) = pipe f g st xs; (s2, out2) = pipe f g s1 ys in (s2, out1 @ out2))"
    using v f f2 by (simp add: pipe_def second.process_append split: prod.splits)
qed

end

section \<open>Sample by sample\<close>

text \<open>The loop over a block whose step depends on the state left by the sample before.\<close>

fun scan :: "('s \<Rightarrow> 'a \<Rightarrow> 's \<times> 'b) \<Rightarrow> 's \<Rightarrow> 'a list \<Rightarrow> 's \<times> 'b list" where
  "scan step s [] = (s, [])"
| "scan step s (x # xs) = (let (s1, y) = step s x; (s2, ys) = scan step s1 xs in (s2, y # ys))"

lemma scan_out_Cons: "snd (scan step s (x # xs)) = snd (step s x) # snd (scan step (fst (step s x)) xs)"
  by (simp split: prod.splits)

lemma scan_append: "scan step s (xs @ ys) = (let (s1, out1) = scan step s xs; (s2, out2) = scan step s1 ys in (s2, out1 @ out2))"
  by (induction xs arbitrary: s) (simp_all split: prod.splits)

interpretation scan: stream_processor "scan step" "\<lambda>_. True" for step
  by unfold_locales (auto simp: scan_append)

lemma scan_length: "length (snd (scan step s xs)) = length xs"
  by (induction xs arbitrary: s) (simp_all split: prod.splits, metis snd_conv)

lemma scan_invariant:
  assumes "I s" "\<And>s x. I s \<Longrightarrow> I (fst (step s x)) \<and> Q (snd (step s x))"
  shows "I (fst (scan step s xs)) \<and> list_all Q (snd (scan step s xs))"
  using assms(1)
proof (induction xs arbitrary: s)
  case (Cons x xs)
  obtain s1 y where xy: "step s x = (s1, y)" by fastforce
  then have "I s1 \<and> Q y" using assms(2) [OF Cons.prems, of x] by simp
  then show ?case using Cons.IH [of s1] xy by (cases "scan step s1 xs") simp
qed simp

lemma scan_stateless: "scan (\<lambda>s x. (s, f x)) s xs = (s, map f xs)"
  by (induction xs arbitrary: s) simp_all

end
