(* ===== verification/DspBlocks.thy ===== *)
theory DspBlocks
  imports DspProcessor
begin

text \<open>
  Blocks and chains of blocks: the life cycle of a worker (\<open>core/src/dsp/block.h\<close>), and the chain in which
  processors are enabled and disabled while it runs (\<open>core/src/dsp/chain.h\<close>).
\<close>

section \<open>Starting, stopping, reconfiguring\<close>






























section \<open>The chain\<close>

text \<open>Processors by their addresses; a stream is the output of one, or comes from outside.\<close>

datatype port = Outside nat | OutOf nat

record chain =
  ch_in :: port
  ch_out :: port
  ch_links :: "nat list"
  ch_states :: "nat \<rightharpoonup> bool"
  ch_running :: bool
  proc_in :: "nat \<Rightarrow> port"
  proc_running :: "nat \<Rightarrow> bool"

datatype chain_error = AlreadyPart | NotPart

definition ch_init :: "port \<Rightarrow> (nat \<Rightarrow> port) \<Rightarrow> chain" where
  "ch_init p ins = \<lparr>ch_in = p, ch_out = p, ch_links = [], ch_states = Map.empty, ch_running = False, proc_in = ins, proc_running = (\<lambda>_. False)\<rparr>"

definition ch_enabled :: "chain \<Rightarrow> nat \<Rightarrow> bool" where
  "ch_enabled c b \<longleftrightarrow> ch_states c b = Some True"

fun blockBefore :: "(nat \<Rightarrow> bool) \<Rightarrow> nat option \<Rightarrow> nat list \<Rightarrow> nat \<Rightarrow> nat option" where
  "blockBefore en prev [] b = None"
| "blockBefore en prev (l # ls) b = (if l = b then prev else blockBefore en (if en l then Some l else prev) ls b)"

fun blockAfter :: "(nat \<Rightarrow> bool) \<Rightarrow> bool \<Rightarrow> nat list \<Rightarrow> nat \<Rightarrow> nat option" where
  "blockAfter en found [] b = None"
| "blockAfter en found (l # ls) b =
     (if l = b then blockAfter en True ls b else if en l \<and> found then Some l else blockAfter en found ls b)"

definition out_of :: "port \<Rightarrow> nat option \<Rightarrow> port" where
  "out_of p before = (case before of Some b \<Rightarrow> OutOf b | None \<Rightarrow> p)"

text \<open>The calls return the outputs announced to \<open>onOutputChange\<close>.\<close>

definition ch_setInput :: "port \<Rightarrow> chain \<Rightarrow> chain \<times> port list" where
  "ch_setInput p c =
     (let c1 = c\<lparr>ch_in := p\<rparr>
      in case find (ch_enabled c) (ch_links c) of
           Some l \<Rightarrow> (c1\<lparr>proc_in := (proc_in c)(l := p)\<rparr>, [])
         | None \<Rightarrow> (c1\<lparr>ch_out := p\<rparr>, [p]))"

definition ch_enableBlock :: "nat \<Rightarrow> chain \<Rightarrow> chain_error + chain \<times> port list" where
  "ch_enableBlock b c =
     (if ch_states c b = None then Inl NotPart
      else if ch_enabled c b then Inr (c, [])
      else
        let before = blockBefore (ch_enabled c) None (ch_links c) b;
            (c1, told) =
              (case blockAfter (ch_enabled c) False (ch_links c) b of
                 Some after \<Rightarrow> (c\<lparr>proc_in := (proc_in c)(after := OutOf b)\<rparr>, [])
               | None \<Rightarrow> (c\<lparr>ch_out := OutOf b\<rparr>, [OutOf b]));
            c2 = c1\<lparr>proc_in := (proc_in c1)(b := out_of (ch_in c) before)\<rparr>;
            c3 = c2\<lparr>proc_running := (if ch_running c then (proc_running c2)(b := True) else proc_running c2)\<rparr>
        in Inr (c3\<lparr>ch_states := (ch_states c3)(b \<mapsto> True)\<rparr>, told))"

definition ch_disableBlock :: "nat \<Rightarrow> chain \<Rightarrow> chain_error + chain \<times> port list" where
  "ch_disableBlock b c =
     (if ch_states c b = None then Inl NotPart
      else if \<not> ch_enabled c b then Inr (c, [])
      else
        let c1 = c\<lparr>ch_states := (ch_states c)(b \<mapsto> False), proc_running := (proc_running c)(b := False)\<rparr>;
            p = out_of (ch_in c) (blockBefore (ch_enabled c1) None (ch_links c) b)
        in case blockAfter (ch_enabled c1) False (ch_links c) b of
             Some after \<Rightarrow> Inr (c1\<lparr>proc_in := (proc_in c1)(after := p)\<rparr>, [])
           | None \<Rightarrow> Inr (c1\<lparr>ch_out := p\<rparr>, [p]))"

definition ch_setBlockEnabled :: "nat \<Rightarrow> bool \<Rightarrow> chain \<Rightarrow> chain_error + chain \<times> port list" where
  "ch_setBlockEnabled b enabled c = (if enabled then ch_enableBlock b c else ch_disableBlock b c)"

text \<open>\<open>addBlock\<close> does not announce the output.\<close>

definition ch_addBlock :: "nat \<Rightarrow> bool \<Rightarrow> chain \<Rightarrow> chain_error + chain \<times> port list" where
  "ch_addBlock b enabled c =
     (if ch_states c b \<noteq> None then Inl AlreadyPart
      else
        let c1 = c\<lparr>ch_links := ch_links c @ [b], ch_states := (ch_states c)(b \<mapsto> False)\<rparr>
        in if enabled then map_sum id (\<lambda>(c2, _). (c2, [])) (ch_enableBlock b c1) else Inr (c1, []))"

definition ch_removeBlock :: "nat \<Rightarrow> chain \<Rightarrow> chain_error + chain \<times> port list" where
  "ch_removeBlock b c =
     (if ch_states c b = None then Inl NotPart
      else map_sum id (\<lambda>(c1, told). (c1\<lparr>ch_states := (ch_states c1)(b := None), ch_links := remove1 b (ch_links c1)\<rparr>, told)) (ch_disableBlock b c))"

fun ch_each :: "(nat \<Rightarrow> chain \<Rightarrow> chain_error + chain \<times> port list) \<Rightarrow> nat list \<Rightarrow> chain \<Rightarrow> chain_error + chain \<times> port list" where
  "ch_each f [] c = Inr (c, [])"
| "ch_each f (b # bs) c =
     (case f b c of Inl e \<Rightarrow> Inl e
      | Inr (c1, told1) \<Rightarrow> map_sum id (\<lambda>(c2, told2). (c2, told1 @ told2)) (ch_each f bs c1))"

definition ch_enableAllBlocks :: "chain \<Rightarrow> chain_error + chain \<times> port list" where
  "ch_enableAllBlocks c = ch_each ch_enableBlock (ch_links c) c"

definition ch_disableAllBlocks :: "chain \<Rightarrow> chain_error + chain \<times> port list" where
  "ch_disableAllBlocks c = ch_each ch_disableBlock (ch_links c) c"

definition ch_start :: "chain \<Rightarrow> chain" where
  "ch_start c =
     (if ch_running c then c
      else c\<lparr>proc_running := (\<lambda>b. proc_running c b \<or> b \<in> set (ch_links c) \<and> ch_enabled c b), ch_running := True\<rparr>)"

definition ch_stop :: "chain \<Rightarrow> chain" where
  "ch_stop c =
     (if \<not> ch_running c then c
      else c\<lparr>proc_running := (\<lambda>b. proc_running c b \<and> \<not> (b \<in> set (ch_links c) \<and> ch_enabled c b)), ch_running := False\<rparr>)"

section \<open>What it connects\<close>

text \<open>Each block of a list reads what the one before puts out.\<close>

fun chained :: "(nat \<Rightarrow> port) \<Rightarrow> port \<Rightarrow> nat list \<Rightarrow> bool" where
  "chained ins p [] = True"
| "chained ins p (b # bs) = (ins b = p \<and> chained ins (OutOf b) bs)"

definition end_of :: "port \<Rightarrow> nat list \<Rightarrow> port" where
  "end_of p bs = (if bs = [] then p else OutOf (last bs))"

lemma end_of_simps [simp]: "end_of p [] = p" "end_of p (b # bs) = end_of (OutOf b) bs" "end_of p (bs @ [b]) = OutOf b"
  "end_of p (bs @ b # cs) = end_of (OutOf b) cs"
  by (simp_all add: end_of_def)

lemma chained_append [simp]: "chained ins p (bs @ cs) \<longleftrightarrow> chained ins p bs \<and> chained ins (end_of p bs) cs"
  by (induction bs arbitrary: p) simp_all

lemma chained_other [simp]: "a \<notin> set bs \<Longrightarrow> chained (ins(a := q)) p bs = chained ins p bs"
  by (induction bs arbitrary: p) auto

lemma out_of_last [simp]: "out_of p (if bs = [] then None else Some (last bs)) = end_of p bs"
  by (simp add: out_of_def end_of_def)

definition last_of :: "nat option \<Rightarrow> nat list \<Rightarrow> nat option" where
  "last_of prev bs = (if bs = [] then prev else Some (last bs))"

lemma blockBefore_split: "b \<notin> set xs \<Longrightarrow> blockBefore en prev (xs @ b # ys) b = last_of prev (filter en xs)"
  by (induction xs arbitrary: prev) (auto simp: last_of_def)

lemma blockAfter_skip: "b \<notin> set xs \<Longrightarrow> blockAfter en False (xs @ ys) b = blockAfter en False ys b"
  by (induction xs) auto

lemma blockAfter_found: "b \<notin> set ys \<Longrightarrow> blockAfter en True ys b = (case filter en ys of [] \<Rightarrow> None | a # _ \<Rightarrow> Some a)"
  by (induction ys) auto

lemma blockAfter_split: "b \<notin> set xs \<Longrightarrow> b \<notin> set ys \<Longrightarrow>
    blockAfter en False (xs @ b # ys) b = (case filter en ys of [] \<Rightarrow> None | a # _ \<Rightarrow> Some a)"
  by (simp add: blockAfter_skip blockAfter_found)

definition ch_path :: "chain \<Rightarrow> nat list" where
  "ch_path c = filter (ch_enabled c) (ch_links c)"

definition ch_wired :: "chain \<Rightarrow> bool" where
  "ch_wired c \<longleftrightarrow> distinct (ch_links c) \<and> (\<forall>b. ch_states c b \<noteq> None \<longleftrightarrow> b \<in> set (ch_links c)) \<and>
     chained (proc_in c) (ch_in c) (ch_path c) \<and> ch_out c = end_of (ch_in c) (ch_path c) \<and>
     (\<forall>b. proc_running c b \<longleftrightarrow> ch_running c \<and> ch_enabled c b)"

lemma ch_enabled_frame [simp]:
  "ch_enabled (c\<lparr>ch_in := p\<rparr>) = ch_enabled c" "ch_enabled (c\<lparr>ch_out := p\<rparr>) = ch_enabled c"
  "ch_enabled (c\<lparr>proc_in := i\<rparr>) = ch_enabled c" "ch_enabled (c\<lparr>proc_running := r\<rparr>) = ch_enabled c"
  "ch_enabled (c\<lparr>ch_running := q\<rparr>) = ch_enabled c" "ch_enabled (c\<lparr>ch_links := ls\<rparr>) = ch_enabled c"
  "ch_enabled (c\<lparr>ch_states := (ch_states c)(b \<mapsto> v)\<rparr>) = (ch_enabled c)(b := v)"
  by (auto simp: ch_enabled_def fun_eq_iff)

lemma enabled_in_links: "ch_wired c \<Longrightarrow> ch_enabled c b \<Longrightarrow> b \<in> set (ch_links c)"
  by (auto simp: ch_wired_def ch_enabled_def)

lemma wired_init: "ch_wired (ch_init p ins)"
  by (simp add: ch_wired_def ch_init_def ch_path_def ch_enabled_def)

lemma find_filter: "find P xs = (case filter P xs of [] \<Rightarrow> None | a # _ \<Rightarrow> Some a)"
  by (induction xs) auto

text \<open>A call that announces an output leaves the last one announced; one that announces none leaves the output as it is.\<close>

definition told_ok :: "chain \<Rightarrow> chain \<Rightarrow> port list \<Rightarrow> bool" where
  "told_ok c c' told \<longleftrightarrow> ch_out c' = (if told = [] then ch_out c else List.last told)"

lemma wired_setInput: "ch_wired c \<Longrightarrow> ch_wired (fst (ch_setInput p c)) \<and> told_ok c (fst (ch_setInput p c)) (snd (ch_setInput p c))"
proof (cases "ch_path c")
  case Nil
  then show "ch_wired c \<Longrightarrow> ?thesis" by (simp add: ch_setInput_def ch_wired_def ch_path_def find_filter told_ok_def)
next
  case (Cons a rest)
  assume w: "ch_wired c"
  then have "distinct (ch_path c)" by (simp add: ch_path_def ch_wired_def)
  then have "a \<notin> set rest" using Cons by simp
  then show ?thesis using Cons w by (simp add: ch_setInput_def ch_wired_def ch_path_def find_filter told_ok_def)
qed

lemma path_split:
  assumes "ch_wired c" "ch_states c b \<noteq> None"
  obtains xs ys where "ch_links c = xs @ b # ys" "b \<notin> set xs" "b \<notin> set ys" "set xs \<inter> set ys = {}" "distinct xs" "distinct ys"
proof -
  have "b \<in> set (ch_links c)" "distinct (ch_links c)" using assms by (auto simp: ch_wired_def)
  moreover from this(1) obtain xs ys where "ch_links c = xs @ b # ys" by (meson split_list)
  ultimately show thesis using that by simp
qed

lemma filter_fun_upd_notin [simp]: "b \<notin> set xs \<Longrightarrow> filter (P(b := v)) xs = filter P xs"
  by (rule filter_cong) auto

text \<open>The neighbours of a block among the blocks enabled.\<close>

lemma neighbours:
  assumes "ch_wired c" "ch_states c b \<noteq> None"
  obtains before after where "ch_links c = before @ b # after" "b \<notin> set before" "b \<notin> set after"
    "distinct before" "distinct after" "set before \<inter> set after = {}"
    "\<And>en p. out_of p (blockBefore en None (ch_links c) b) = end_of p (filter en before)"
    "\<And>en. blockAfter en False (ch_links c) b = (case filter en after of [] \<Rightarrow> None | a # _ \<Rightarrow> Some a)"
    "\<And>en a rest. filter en after = a # rest \<Longrightarrow> a \<noteq> b \<and> a \<notin> set before \<and> a \<notin> set rest"
proof -
  obtain xs ys where l: "ch_links c = xs @ b # ys" "b \<notin> set xs" "b \<notin> set ys" "set xs \<inter> set ys = {}" "distinct xs" "distinct ys"
    by (rule path_split [OF assms])
  have "out_of p (blockBefore en None (ch_links c) b) = end_of p (filter en xs)" for en p
    by (simp add: l(1) blockBefore_split [OF l(2)] last_of_def)
  moreover have "blockAfter en False (ch_links c) b = (case filter en ys of [] \<Rightarrow> None | a # _ \<Rightarrow> Some a)" for en
    by (simp add: l(1) blockAfter_split [OF l(2,3)])
  moreover have "a \<noteq> b \<and> a \<notin> set xs \<and> a \<notin> set rest" if f: "filter en ys = a # rest" for en a rest
  proof -
    have "a \<in> set (filter en ys)" by (simp add: f)
    moreover have "distinct (a # rest)" using l(6) by (simp flip: f)
    ultimately show ?thesis using l(3,4) by auto
  qed
  ultimately show thesis using that l by blast
qed

lemma wired_enableBlock:
  assumes "ch_wired c" "ch_enableBlock b c = Inr (c', told)"
  shows "ch_wired c' \<and> told_ok c c' told"
proof (cases "ch_enabled c b")
  case True
  then show ?thesis using assms by (auto simp: ch_enableBlock_def told_ok_def split: if_splits)
next
  case off: False
  have st: "ch_states c b \<noteq> None" using assms(2) by (simp add: ch_enableBlock_def split: if_splits)
  from neighbours [OF assms(1) st] obtain xs ys where n: "ch_links c = xs @ b # ys" "b \<notin> set xs" "b \<notin> set ys"
    "distinct xs" "distinct ys" "set xs \<inter> set ys = {}"
    "\<And>en p. out_of p (blockBefore en None (ch_links c) b) = end_of p (filter en xs)"
    "\<And>en. blockAfter en False (ch_links c) b = (case filter en ys of [] \<Rightarrow> None | a # _ \<Rightarrow> Some a)"
    "\<And>en a rest. filter en ys = a # rest \<Longrightarrow> a \<noteq> b \<and> a \<notin> set xs \<and> a \<notin> set rest" by blast
  have "b \<notin> set (filter P ys)" "b \<notin> set (filter P xs)" for P using n(2,3) by simp_all
  note nb = n(7) [of _ "ch_enabled c"] n(8) [of "ch_enabled c"]
  let ?r = "if ch_running c then (proc_running c)(b := True) else proc_running c"
  have r: "?r x \<longleftrightarrow> ch_running c \<and> ((ch_enabled c)(b := True)) x" for x using assms(1) by (auto simp: ch_wired_def)
  have old: "chained (proc_in c) (ch_in c) (filter (ch_enabled c) xs @ filter (ch_enabled c) ys)" "dom (ch_states c) = set (ch_links c)"
    "ch_out c = end_of (ch_in c) (filter (ch_enabled c) xs @ filter (ch_enabled c) ys)"
    using assms(1) off by (auto simp: ch_wired_def ch_path_def n(1))
  show ?thesis
  proof (cases "filter (ch_enabled c) ys")
    case Nil
    have c': "c' = c\<lparr>ch_out := OutOf b, proc_in := (proc_in c)(b := end_of (ch_in c) (filter (ch_enabled c) xs)),
        proc_running := ?r, ch_states := (ch_states c)(b \<mapsto> True)\<rparr>" "told = [OutOf b]"
      using assms(2) off st nb Nil by (auto simp: ch_enableBlock_def Let_def)
    have en: "ch_enabled c' = (ch_enabled c)(b := True)" by (auto simp: c' ch_enabled_def fun_eq_iff)
    have "chained (proc_in c') (ch_in c') (ch_path c')" "told_ok c c' told" "ch_out c' = end_of (ch_in c') (ch_path c')"
      using old n(1-6) Nil \<open>\<And>P. b \<notin> set (filter P xs)\<close> unfolding ch_path_def told_ok_def en by (simp_all add: c')
    moreover have "dom (ch_states c') = set (ch_links c')" "\<forall>x. proc_running c' x \<longleftrightarrow> ch_running c' \<and> ch_enabled c' x"
      using old(2) n(1) r unfolding en by (auto simp: c')
    ultimately show ?thesis using n(1-6) by (auto simp: ch_wired_def c')
  next
    case (Cons a rest)
    have c': "c' = c\<lparr>proc_in := (proc_in c)(a := OutOf b, b := end_of (ch_in c) (filter (ch_enabled c) xs)),
        proc_running := ?r, ch_states := (ch_states c)(b \<mapsto> True)\<rparr>" "told = []"
      using assms(2) off st nb Cons by (auto simp: ch_enableBlock_def Let_def)
    have "a \<noteq> b" "a \<notin> set xs" "a \<notin> set rest" "b \<notin> set rest" using n(9) [OF Cons] Cons \<open>\<And>P. b \<notin> set (filter P ys)\<close>
      by (auto, metis list.set_intros(2))
    moreover have en: "ch_enabled c' = (ch_enabled c)(b := True)" by (auto simp: c' ch_enabled_def fun_eq_iff)
    ultimately have "chained (proc_in c') (ch_in c') (ch_path c')" "told_ok c c' told" "ch_out c' = end_of (ch_in c') (ch_path c')"
      using old n(1-6) Cons \<open>\<And>P. b \<notin> set (filter P xs)\<close> unfolding ch_path_def told_ok_def en by (simp_all add: c')
    moreover have "dom (ch_states c') = set (ch_links c')" "\<forall>x. proc_running c' x \<longleftrightarrow> ch_running c' \<and> ch_enabled c' x"
      using old(2) n(1) r unfolding en by (auto simp: c')
    ultimately show ?thesis using n(1-6) by (auto simp: ch_wired_def c')
  qed
qed

lemma wired_disableBlock:
  assumes "ch_wired c" "ch_disableBlock b c = Inr (c', told)"
  shows "ch_wired c' \<and> told_ok c c' told"
proof (cases "ch_enabled c b")
  case False
  then show ?thesis using assms by (auto simp: ch_disableBlock_def told_ok_def split: if_splits)
next
  case on: True
  have st: "ch_states c b \<noteq> None" using assms(2) by (simp add: ch_disableBlock_def split: if_splits)
  from neighbours [OF assms(1) st] obtain xs ys where n: "ch_links c = xs @ b # ys" "b \<notin> set xs" "b \<notin> set ys"
    "distinct xs" "distinct ys" "set xs \<inter> set ys = {}"
    "\<And>en p. out_of p (blockBefore en None (ch_links c) b) = end_of p (filter en xs)"
    "\<And>en. blockAfter en False (ch_links c) b = (case filter en ys of [] \<Rightarrow> None | a # _ \<Rightarrow> Some a)"
    "\<And>en a rest. filter en ys = a # rest \<Longrightarrow> a \<noteq> b \<and> a \<notin> set xs \<and> a \<notin> set rest" by blast
  have "b \<notin> set (filter P ys)" "b \<notin> set (filter P xs)" for P using n(2,3) by simp_all
  then show ?thesis
    using assms on st n(1-6) n(7) [of _ "(ch_enabled c)(b := False)"] n(8) [of "(ch_enabled c)(b := False)"] n(9) [of "ch_enabled c"]
    by (cases "filter (ch_enabled c) ys") (auto simp: ch_disableBlock_def ch_wired_def ch_path_def told_ok_def Let_def split: if_splits)
qed

lemma wired_links: "ch_wired c \<Longrightarrow> ch_enableBlock b c = Inr (c', told) \<Longrightarrow> ch_links c' = ch_links c"
  "ch_disableBlock b c = Inr (c', told) \<Longrightarrow> ch_links c' = ch_links c"
  by (auto simp: ch_enableBlock_def ch_disableBlock_def Let_def split: if_splits option.splits)

section \<open>What the chain promises\<close>

text \<open>The blocks in the order in which they were added, with whether they are enabled; where the samples come from; whether it runs.\<close>

datatype chain_call = SetInput port | AddBlock nat bool | RemoveBlock nat | SetBlockEnabled nat bool | EnableAllBlocks | DisableAllBlocks | StartChain | StopChain

fun ch_call :: "chain_call \<Rightarrow> chain \<Rightarrow> chain_error + chain \<times> port list" where
  "ch_call (SetInput p) c = Inr (ch_setInput p c)"
| "ch_call (AddBlock b e) c = ch_addBlock b e c"
| "ch_call (RemoveBlock b) c = ch_removeBlock b c"
| "ch_call (SetBlockEnabled b e) c = ch_setBlockEnabled b e c"
| "ch_call EnableAllBlocks c = ch_enableAllBlocks c"
| "ch_call DisableAllBlocks c = ch_disableAllBlocks c"
| "ch_call StartChain c = Inr (ch_start c, [])"
| "ch_call StopChain c = Inr (ch_stop c, [])"

text \<open>A call that throws has changed nothing.\<close>

fun ch_calls :: "chain_call list \<Rightarrow> chain \<Rightarrow> chain" where
  "ch_calls [] c = c"
| "ch_calls (k # ks) c = ch_calls ks (case ch_call k c of Inl _ \<Rightarrow> c | Inr (c1, _) \<Rightarrow> c1)"

type_synonym chain_spec = "port \<times> bool \<times> (nat \<times> bool) list"

fun spec_call :: "chain_call \<Rightarrow> chain_spec \<Rightarrow> chain_spec" where
  "spec_call (SetInput p) (_, r, bs) = (p, r, bs)"
| "spec_call (AddBlock b e) (p, r, bs) = (p, r, if b \<in> fst ` set bs then bs else bs @ [(b, e)])"
| "spec_call (RemoveBlock b) (p, r, bs) = (p, r, filter (\<lambda>(a, _). a \<noteq> b) bs)"
| "spec_call (SetBlockEnabled b e) (p, r, bs) = (p, r, map (\<lambda>(a, d). (a, if a = b then e else d)) bs)"
| "spec_call EnableAllBlocks (p, r, bs) = (p, r, map (\<lambda>(a, _). (a, True)) bs)"
| "spec_call DisableAllBlocks (p, r, bs) = (p, r, map (\<lambda>(a, _). (a, False)) bs)"
| "spec_call StartChain (p, _, bs) = (p, True, bs)"
| "spec_call StopChain (p, _, bs) = (p, False, bs)"

definition ch_abs :: "chain \<Rightarrow> chain_spec" where
  "ch_abs c = (ch_in c, ch_running c, map (\<lambda>b. (b, ch_enabled c b)) (ch_links c))"

text \<open>The blocks the samples have passed when they come out of a port, the last one first, up to \<open>n\<close> of them.\<close>

fun upstream :: "nat \<Rightarrow> (nat \<Rightarrow> port) \<Rightarrow> port \<Rightarrow> nat list \<times> port" where
  "upstream (Suc n) ins (OutOf b) = (let (bs, p) = upstream n ins (ins b) in (b # bs, p))"
| "upstream _ ins p = ([], p)"

lemma upstream_chained: "chained ins p bs \<Longrightarrow> upstream (length bs) ins (end_of p bs) = (rev bs, p)"
proof (induction bs rule: rev_induct)
  case (snoc b bs)
  then show ?case by simp
qed (cases p; simp)

lemma abs_enableBlock:
  assumes "ch_wired c"
  shows "ch_states c b = None \<Longrightarrow> ch_enableBlock b c = Inl NotPart"
    and "ch_enableBlock b c = Inr (c', told) \<Longrightarrow> ch_links c' = ch_links c \<and> ch_in c' = ch_in c \<and> ch_running c' = ch_running c \<and>
      ch_enabled c' = (ch_enabled c)(b := True)"
    and "ch_states c b \<noteq> None \<Longrightarrow> \<exists>r. ch_enableBlock b c = Inr r"
  by (auto simp: ch_enableBlock_def ch_enabled_def Let_def fun_eq_iff split: if_splits option.splits)

lemma abs_disableBlock:
  assumes "ch_wired c"
  shows "ch_states c b = None \<Longrightarrow> ch_disableBlock b c = Inl NotPart"
    and "ch_disableBlock b c = Inr (c', told) \<Longrightarrow> ch_links c' = ch_links c \<and> ch_in c' = ch_in c \<and> ch_running c' = ch_running c \<and>
      ch_enabled c' = (ch_enabled c)(b := False)"
    and "ch_states c b \<noteq> None \<Longrightarrow> \<exists>r. ch_disableBlock b c = Inr r"
  by (auto simp: ch_disableBlock_def ch_enabled_def Let_def fun_eq_iff split: if_splits option.splits)

text \<open>What the calls keep.\<close>

definition sets_to :: "bool \<Rightarrow> nat set \<Rightarrow> chain \<Rightarrow> chain \<Rightarrow> bool" where
  "sets_to v bs c c' \<longleftrightarrow> ch_wired c' \<and> ch_links c' = ch_links c \<and> ch_in c' = ch_in c \<and> ch_running c' = ch_running c \<and>
     ch_enabled c' = (\<lambda>b. if b \<in> bs then v else ch_enabled c b)"

lemma setBlockEnabled_ok:
  assumes "ch_wired c" "b \<in> set (ch_links c)"
  shows "\<exists>c' told. ch_setBlockEnabled b v c = Inr (c', told) \<and> sets_to v {b} c c' \<and> told_ok c c' told"
proof -
  have st: "ch_states c b \<noteq> None" using assms by (auto simp: ch_wired_def)
  obtain c' told where r: "ch_setBlockEnabled b v c = Inr (c', told)"
    using abs_enableBlock(3) [OF assms(1) st] abs_disableBlock(3) [OF assms(1) st]
    by (cases v) (auto simp: ch_setBlockEnabled_def)
  have "sets_to v {b} c c' \<and> told_ok c c' told"
  proof (cases v)
    case True
    then have e: "ch_enableBlock b c = Inr (c', told)" using r by (simp add: ch_setBlockEnabled_def)
    then show ?thesis using wired_enableBlock [OF assms(1) e] abs_enableBlock(2) [OF assms(1) e] True by (auto simp: sets_to_def)
  next
    case False
    then have e: "ch_disableBlock b c = Inr (c', told)" using r by (simp add: ch_setBlockEnabled_def)
    then show ?thesis using wired_disableBlock [OF assms(1) e] abs_disableBlock(2) [OF assms(1) e] False by (auto simp: sets_to_def)
  qed
  then show ?thesis using r by blast
qed

lemma each_ok:
  assumes "f = (if v then ch_enableBlock else ch_disableBlock)"
  shows "ch_wired c \<Longrightarrow> set bs \<subseteq> set (ch_links c) \<Longrightarrow> \<exists>c' told. ch_each f bs c = Inr (c', told) \<and> sets_to v (set bs) c c' \<and> told_ok c c' told"
proof (induction bs arbitrary: c)
  case (Cons b bs)
  have f: "f b c = ch_setBlockEnabled b v c" using assms by (simp add: ch_setBlockEnabled_def)
  obtain c1 told1 where 1: "f b c = Inr (c1, told1)" "sets_to v {b} c c1" "told_ok c c1 told1"
    using setBlockEnabled_ok [OF Cons.prems(1), of b v] Cons.prems(2) f by auto
  have "ch_wired c1" "set bs \<subseteq> set (ch_links c1)" using 1(2) Cons.prems(2) by (simp_all add: sets_to_def)
  from Cons.IH [OF this] obtain c2 told2 where 2: "ch_each f bs c1 = Inr (c2, told2)" "sets_to v (set bs) c1 c2" "told_ok c1 c2 told2" by blast
  have "sets_to v (set (b # bs)) c c2" using 1(2) 2(2) by (auto simp: sets_to_def fun_eq_iff)
  moreover have "told_ok c c2 (told1 @ told2)" using 1(3) 2(3) by (auto simp: told_ok_def)
  ultimately show ?case using 1(1) 2(1) by simp
qed (simp add: sets_to_def told_ok_def)

lemma abs_sets_to: "sets_to v bs c c' \<Longrightarrow> ch_abs c' =
    (ch_in c, ch_running c, map (\<lambda>(a, d). (a, if a \<in> bs then v else d)) (map (\<lambda>b. (b, ch_enabled c b)) (ch_links c)))"
  by (simp add: ch_abs_def sets_to_def)

lemma call_SetBlockEnabled:
  assumes "ch_wired c"
  shows "(case ch_setBlockEnabled b v c of Inl _ \<Rightarrow> spec_call (SetBlockEnabled b v) (ch_abs c) = ch_abs c
    | Inr (c1, _) \<Rightarrow> ch_wired c1 \<and> ch_abs c1 = spec_call (SetBlockEnabled b v) (ch_abs c))"
proof (cases "b \<in> set (ch_links c)")
  case True
  obtain c1 told where "ch_setBlockEnabled b v c = Inr (c1, told)" "sets_to v {b} c c1" using setBlockEnabled_ok [OF assms True] by blast
  then show ?thesis using abs_sets_to [of v "{b}" c c1] by (simp add: sets_to_def) (simp add: ch_abs_def)
next
  case False
  then have "ch_states c b = None" using assms by (auto simp: ch_wired_def)
  then have "ch_setBlockEnabled b v c = Inl NotPart" using abs_enableBlock(1) abs_disableBlock(1) assms by (simp add: ch_setBlockEnabled_def)
  then show ?thesis using False by (auto simp: ch_abs_def)
qed

lemma call_each:
  assumes "ch_wired c" "f = (if v then ch_enableBlock else ch_disableBlock)"
  shows "\<exists>c1 told. ch_each f (ch_links c) c = Inr (c1, told) \<and> ch_wired c1 \<and> ch_abs c1 = (ch_in c, ch_running c, map (\<lambda>b. (b, v)) (ch_links c))"
proof -
  obtain c1 told where "ch_each f (ch_links c) c = Inr (c1, told)" "sets_to v (set (ch_links c)) c c1"
    using each_ok [OF assms(2,1) subset_refl] by blast
  then show ?thesis using abs_sets_to [of v "set (ch_links c)" c c1] by (simp add: sets_to_def)
qed

lemma wired_add_off:
  assumes "ch_wired c" "b \<notin> set (ch_links c)"
  shows "ch_wired (c\<lparr>ch_links := ch_links c @ [b], ch_states := (ch_states c)(b \<mapsto> False)\<rparr>)" (is "ch_wired ?c")
    and "ch_enabled (c\<lparr>ch_links := ch_links c @ [b], ch_states := (ch_states c)(b \<mapsto> False)\<rparr>) = ch_enabled c"
proof -
  have "\<not> ch_enabled c b" using enabled_in_links [OF assms(1)] assms(2) by blast
  then show en: "ch_enabled ?c = ch_enabled c" by (auto simp: ch_enabled_def fun_eq_iff)
  have "ch_path ?c = ch_path c" using \<open>\<not> ch_enabled c b\<close> unfolding ch_path_def en by simp
  then show "ch_wired ?c" using assms unfolding ch_wired_def en by auto
qed

lemma call_AddBlock:
  assumes "ch_wired c"
  shows "(case ch_addBlock b v c of Inl _ \<Rightarrow> spec_call (AddBlock b v) (ch_abs c) = ch_abs c
    | Inr (c1, _) \<Rightarrow> ch_wired c1 \<and> ch_abs c1 = spec_call (AddBlock b v) (ch_abs c))"
proof (cases "b \<in> set (ch_links c)")
  case True
  then have "ch_states c b \<noteq> None" using assms by (auto simp: ch_wired_def)
  then show ?thesis using True by (force simp: ch_addBlock_def ch_abs_def)
next
  case new: False
  then have st: "ch_states c b = None" using assms by (auto simp: ch_wired_def)
  let ?c = "c\<lparr>ch_links := ch_links c @ [b], ch_states := (ch_states c)(b \<mapsto> False)\<rparr>"
  note w = wired_add_off [OF assms new]
  have off: "\<not> ch_enabled c b" using enabled_in_links [OF assms] new by blast
  have spec: "spec_call (AddBlock b v) (ch_abs c) = (ch_in c, ch_running c, map (\<lambda>b. (b, ch_enabled c b)) (ch_links c) @ [(b, v)])"
    using new by (auto simp: ch_abs_def)
  show ?thesis
  proof (cases v)
    case False
    then show ?thesis unfolding spec using st w off by (simp add: ch_addBlock_def ch_abs_def)
  next
    case True
    obtain c1 told where e: "ch_enableBlock b ?c = Inr (c1, told)" "sets_to True {b} ?c c1"
      using setBlockEnabled_ok [OF w(1), of b True] by (auto simp: ch_setBlockEnabled_def)
    have "ch_abs c1 = (ch_in c, ch_running c, map (\<lambda>b. (b, ch_enabled c b)) (ch_links c) @ [(b, v)])"
      using abs_sets_to [OF e(2)] new True unfolding w(2) by auto
    then show ?thesis unfolding spec using st e True by (simp add: ch_addBlock_def sets_to_def)
  qed
qed

lemma wired_remove_off:
  assumes "ch_wired c" "\<not> ch_enabled c b"
  shows "ch_wired (c\<lparr>ch_states := (ch_states c)(b := None), ch_links := remove1 b (ch_links c)\<rparr>)" (is "ch_wired ?c")
    and "ch_enabled (c\<lparr>ch_states := (ch_states c)(b := None), ch_links := remove1 b (ch_links c)\<rparr>) = ch_enabled c"
proof -
  show en: "ch_enabled ?c = ch_enabled c" using assms(2) by (auto simp: ch_enabled_def fun_eq_iff)
  have d: "distinct (ch_links c)" using assms(1) by (simp add: ch_wired_def)
  have "ch_path ?c = ch_path c" using assms(2) unfolding ch_path_def en by (simp add: distinct_remove1_removeAll [OF d] removeAll_filter_not_eq) (metis (mono_tags, lifting) filter_cong)
  then show "ch_wired ?c" using assms unfolding ch_wired_def en by auto
qed

lemma call_RemoveBlock:
  assumes "ch_wired c"
  shows "(case ch_removeBlock b c of Inl _ \<Rightarrow> spec_call (RemoveBlock b) (ch_abs c) = ch_abs c
    | Inr (c1, _) \<Rightarrow> ch_wired c1 \<and> ch_abs c1 = spec_call (RemoveBlock b) (ch_abs c))"
proof (cases "b \<in> set (ch_links c)")
  case True
  then have st: "ch_states c b \<noteq> None" and d: "distinct (ch_links c)" using assms by (auto simp: ch_wired_def)
  obtain c1 told where e: "ch_disableBlock b c = Inr (c1, told)" "sets_to False {b} c c1"
    using setBlockEnabled_ok [OF assms True, of False] by (auto simp: ch_setBlockEnabled_def)
  then have w: "ch_wired c1" "\<not> ch_enabled c1 b" "ch_links c1 = ch_links c" by (simp_all add: sets_to_def)
  have "map (\<lambda>a. (a, ch_enabled c1 a)) (remove1 b (ch_links c)) = filter (\<lambda>(a, _). a \<noteq> b) (map (\<lambda>a. (a, ch_enabled c a)) (ch_links c))"
    using e(2) by (auto simp: distinct_remove1_removeAll [OF d] removeAll_filter_not_eq filter_map o_def sets_to_def intro!: map_cong filter_cong)
  moreover obtain v where "ch_states c b = Some v" using st by blast
  ultimately show ?thesis using e wired_remove_off [OF w(1,2)] w(3) by (simp add: ch_removeBlock_def ch_abs_def sets_to_def)
next
  case False
  then have "ch_states c b = None" using assms by (auto simp: ch_wired_def)
  then show ?thesis using False by (auto simp: ch_removeBlock_def ch_abs_def filter_id_conv)
qed

lemma ch_call_refines:
  assumes "ch_wired c"
  shows "(case ch_call k c of Inl _ \<Rightarrow> spec_call k (ch_abs c) = ch_abs c | Inr (c1, _) \<Rightarrow> ch_wired c1 \<and> ch_abs c1 = spec_call k (ch_abs c))"
proof (cases k)
  case (SetInput p)
  have "ch_abs (fst (ch_setInput p c)) = spec_call k (ch_abs c)"
    by (simp add: SetInput ch_abs_def ch_setInput_def Let_def split: option.splits)
  then show ?thesis using wired_setInput [OF assms, of p] SetInput by (cases "ch_setInput p c") simp
next
  case (AddBlock b v)
  then show ?thesis using call_AddBlock [OF assms, of b v] by (simp only: ch_call.simps)
next
  case (RemoveBlock b)
  then show ?thesis using call_RemoveBlock [OF assms, of b] by (simp only: ch_call.simps)
next
  case (SetBlockEnabled b v)
  then show ?thesis using call_SetBlockEnabled [OF assms, of b v] by (simp only: ch_call.simps)
next
  case EnableAllBlocks
  then show ?thesis using call_each [OF assms, of ch_enableBlock True] by (auto simp: ch_enableAllBlocks_def ch_abs_def)
next
  case DisableAllBlocks
  then show ?thesis using call_each [OF assms, of ch_disableBlock False] by (auto simp: ch_disableAllBlocks_def ch_abs_def)
next
  case StartChain
  then show ?thesis using assms enabled_in_links [OF assms] by (auto simp: ch_start_def ch_abs_def ch_wired_def ch_path_def)
next
  case StopChain
  then show ?thesis using assms enabled_in_links [OF assms] by (auto simp: ch_stop_def ch_abs_def ch_wired_def ch_path_def)
qed

lemma ch_calls_refine: "ch_wired c \<Longrightarrow> ch_wired (ch_calls ks c) \<and> ch_abs (ch_calls ks c) = fold spec_call ks (ch_abs c)"
proof (induction ks arbitrary: c)
  case (Cons k ks)
  show ?case using ch_call_refines [OF Cons.prems, of k] Cons.IH Cons.prems
    by (cases "ch_call k c") (auto split: prod.splits)
qed simp

text \<open>
  C12: A chain connects what it was told to connect. After any calls, the samples at its output have passed
  exactly the blocks that are enabled, in the order in which these were added, and come from the input set last;
  and exactly these blocks run if the chain runs.
\<close>

theorem chain_connects:
  assumes "fold spec_call ks (p, False, []) = (src, r, bs)"
  shows "upstream (length [b. (b, e) \<leftarrow> bs, e]) (proc_in (ch_calls ks (ch_init p ins))) (ch_out (ch_calls ks (ch_init p ins))) =
      (rev [b. (b, e) \<leftarrow> bs, e], src) \<and>
    (\<forall>b. proc_running (ch_calls ks (ch_init p ins)) b \<longleftrightarrow> r \<and> (b, True) \<in> set bs)"
proof -
  let ?c = "ch_calls ks (ch_init p ins)"
  have "ch_abs (ch_init p ins) = (p, False, [])" by (simp add: ch_abs_def ch_init_def)
  then have w: "ch_wired ?c" "ch_abs ?c = (src, r, bs)" using ch_calls_refine [OF wired_init, of ks p ins] assms by simp_all
  have bs: "bs = map (\<lambda>b. (b, ch_enabled ?c b)) (ch_links ?c)" "ch_in ?c = src" "ch_running ?c = r" using w(2) by (auto simp: ch_abs_def)
  have "[b. (b, e) \<leftarrow> map (\<lambda>b. (b, P b)) ls, e] = filter P ls" for P and ls :: "nat list" by (induction ls) auto
  then have "[b. (b, e) \<leftarrow> bs, e] = ch_path ?c" unfolding bs(1) ch_path_def by blast
  then have "upstream (length [b. (b, e) \<leftarrow> bs, e]) (proc_in ?c) (ch_out ?c) = (rev [b. (b, e) \<leftarrow> bs, e], src)"
    using w(1) upstream_chained [of "proc_in ?c" src "ch_path ?c"] bs(2) by (simp add: ch_wired_def)
  moreover have "\<forall>b. proc_running ?c b \<longleftrightarrow> r \<and> (b, True) \<in> set bs" using w(1) enabled_in_links [OF w(1)] bs by (auto simp: ch_wired_def)
  ultimately show ?thesis by blast
qed

theorem chain_connects_witness:
  "upstream 2 (proc_in (ch_calls [AddBlock 4 True, AddBlock 5 False, StartChain, AddBlock 6 True, SetBlockEnabled 5 True, SetBlockEnabled 4 False] (ch_init (Outside 0) (\<lambda>_. Outside 9))))
      (ch_out (ch_calls [AddBlock 4 True, AddBlock 5 False, StartChain, AddBlock 6 True, SetBlockEnabled 5 True, SetBlockEnabled 4 False] (ch_init (Outside 0) (\<lambda>_. Outside 9)))) =
    ([6, 5], Outside 0)"
proof -
  have "fold spec_call [AddBlock 4 True, AddBlock 5 False, StartChain, AddBlock 6 True, SetBlockEnabled 5 True, SetBlockEnabled 4 False]
    (Outside 0, False, []) = (Outside 0, True, [(4, False), (5, True), (6, True)])" by simp
  from chain_connects [OF this, of "\<lambda>_. Outside 9"] show ?thesis by (simp del: ch_calls.simps add: numeral_2_eq_2)
qed

end
