(* ===== verification/DspPrebuffer.thy ===== *)
theory DspPrebuffer
  imports Prelude "HOL-Library.Sublist" Complex_Main
begin

text \<open>
  The prebuffer of the network sources (\<open>core/src/dsp/buffer/prebuffer.h\<close>): a ring of samples between a
  producer that delivers in bursts and a consumer served at the sample rate. The numbers of samples are natural
  numbers, the sample rate is a real number and the clock counts nanoseconds. The worker is modelled lock by
  lock: between two of its sections under \<open>bufferMtx\<close>, and while it waits for the producer or in \<open>swap\<close>, other
  threads may change the settings, clear the buffer or stop it.
\<close>

section \<open>The state and the sizes\<close>

record 'a prebuffer =
  pb_msec :: int
  pb_rate :: real
  pb_primed :: bool
  pb_ring :: "'a list"
  pb_head :: nat
  pb_buffered :: nat

definition pb_init :: "'a prebuffer" where
  "pb_init = \<lparr>pb_msec = 100, pb_rate = 1000000, pb_primed = False, pb_ring = [], pb_head = 0, pb_buffered = 0\<rparr>"

definition TICK_MS :: int where "TICK_MS = 10"
definition MIN_SLACK_MS :: int where "MIN_SLACK_MS = 40"
definition MAX_SLACK_MS :: int where "MAX_SLACK_MS = 100"
definition STREAM_BUFFER_SIZE :: nat where "STREAM_BUFFER_SIZE = 1000000"

definition targetSamples :: "int \<Rightarrow> real \<Rightarrow> nat" where
  "targetSamples msec rate = nat \<lfloor>rate * of_int msec / 1000\<rfloor>"

definition durationSamples :: "real \<Rightarrow> int \<Rightarrow> nat" where
  "durationSamples rate msec = max 1 (nat \<lfloor>rate * of_int msec / 1000\<rfloor>)"

definition sliceSamples :: "real \<Rightarrow> nat" where
  "sliceSamples rate = durationSamples rate TICK_MS"

definition maxBufferedSamples :: "int \<Rightarrow> real \<Rightarrow> nat" where
  "maxBufferedSamples msec rate =
     (let target = targetSamples msec rate; slice = sliceSamples rate
      in if target = 0 then max 4096 (slice * 4)
         else let burstSlack = max (durationSamples rate MIN_SLACK_MS) (min (target div 2) (durationSamples rate MAX_SLACK_MS))
              in max (slice * 8) (target + burstSlack))"

definition pb_max :: "'a prebuffer \<Rightarrow> nat" where
  "pb_max b = maxBufferedSamples (pb_msec b) (pb_rate b)"

section \<open>The ring\<close>

definition pb_clear :: "'a prebuffer \<Rightarrow> 'a prebuffer" where
  "pb_clear b = b\<lparr>pb_head := 0, pb_buffered := 0, pb_primed := False\<rparr>"

text \<open>The samples copied out by \<open>popLocked\<close>, and what it leaves.\<close>

definition pb_copy :: "nat \<Rightarrow> 'a prebuffer \<Rightarrow> 'a list" where
  "pb_copy count b =
     (if count = 0 \<or> pb_buffered b = 0 \<or> pb_ring b = [] then []
      else let actual = min count (pb_buffered b); first = min actual (length (pb_ring b) - pb_head b)
           in take first (drop (pb_head b) (pb_ring b)) @ (if actual > first then take (actual - first) (pb_ring b) else []))"

definition pb_pop :: "nat \<Rightarrow> 'a prebuffer \<Rightarrow> 'a list \<times> 'a prebuffer" where
  "pb_pop count b =
     (if count = 0 \<or> pb_buffered b = 0 \<or> pb_ring b = [] then ([], b)
      else let actual = min count (pb_buffered b); buffered = pb_buffered b - actual
           in (pb_copy count b,
               b\<lparr>pb_head := (if buffered = 0 then 0 else (pb_head b + actual) mod length (pb_ring b)), pb_buffered := buffered\<rparr>))"

text \<open>\<open>newRing\<close> is value-initialised: the rest of it is \<open>0\<close>.\<close>

definition pb_resize :: "nat \<Rightarrow> 'a::zero prebuffer \<Rightarrow> 'a prebuffer" where
  "pb_resize capacity b =
     (let cap = max 1 capacity
      in if length (pb_ring b) = cap then b
         else let kept = pb_copy (min (pb_buffered b) cap) b
              in b\<lparr>pb_ring := kept @ replicate (cap - length kept) 0, pb_head := 0, pb_buffered := length kept\<rparr>)"

definition pb_ensureCapacity :: "nat \<Rightarrow> 'a::zero prebuffer \<Rightarrow> 'a prebuffer" where
  "pb_ensureCapacity minCapacity b = (if length (pb_ring b) \<ge> minCapacity then b else pb_resize minCapacity b)"

definition pb_dropOldest :: "nat \<Rightarrow> 'a prebuffer \<Rightarrow> 'a prebuffer" where
  "pb_dropOldest count b =
     (if count \<ge> pb_buffered b then pb_clear b
      else b\<lparr>pb_head := (pb_head b + count) mod length (pb_ring b), pb_buffered := pb_buffered b - count\<rparr>)"

definition pb_trim :: "'a prebuffer \<Rightarrow> 'a prebuffer" where
  "pb_trim b = (if pb_buffered b > pb_max b then pb_dropOldest (pb_buffered b - pb_max b) b else b)"

text \<open>\<open>copy_n\<close> into the ring at a place.\<close>

definition copy_at :: "nat \<Rightarrow> 'a list \<Rightarrow> 'a list \<Rightarrow> 'a list" where
  "copy_at i xs ring = take i ring @ xs @ drop (i + length xs) ring"

definition pb_write :: "'a list \<Rightarrow> 'a prebuffer \<Rightarrow> 'a prebuffer" where
  "pb_write data b =
     (let tail = (pb_head b + pb_buffered b) mod length (pb_ring b);
          first = min (length data) (length (pb_ring b) - tail);
          ring = copy_at tail (take first data) (pb_ring b)
      in b\<lparr>pb_ring := (if length data > first then copy_at 0 (drop first data) ring else ring),
           pb_buffered := pb_buffered b + length data\<rparr>)"

definition pb_push :: "'a::zero list \<Rightarrow> 'a prebuffer \<Rightarrow> 'a prebuffer" where
  "pb_push data b =
     (if data = [] then b
      else
        let maxBuffered = pb_max b;
            over = (length data > maxBuffered);
            data1 = (if over then drop (length data - maxBuffered) data else data);
            count = length data1;
            b0 = (if over then pb_clear b else b);
            b1 = pb_ensureCapacity (max maxBuffered (pb_buffered b0 + count)) b0;
            b2 = (if pb_buffered b1 + count > maxBuffered then pb_dropOldest (pb_buffered b1 + count - maxBuffered) b1 else b1)
        in pb_write data1 b2)"

definition pb_setPrebufferMsec :: "int \<Rightarrow> 'a::zero prebuffer \<Rightarrow> 'a prebuffer" where
  "pb_setPrebufferMsec msec b = (let b1 = pb_trim (b\<lparr>pb_msec := max 0 msec\<rparr>) in pb_resize (pb_max b1) b1)"

definition pb_setSampleRate :: "real \<Rightarrow> 'a::zero prebuffer \<Rightarrow> 'a prebuffer" where
  "pb_setSampleRate sr b = (let b1 = pb_clear (b\<lparr>pb_rate := max 1 sr\<rparr>) in pb_resize (pb_max b1) b1)"

definition pb_getPercentFull :: "'a prebuffer \<Rightarrow> nat" where
  "pb_getPercentFull b =
     (let target = targetSamples (pb_msec b) (pb_rate b)
      in if target = 0 then 100 else min 100 ((pb_buffered b * 100) div target))"

section \<open>The worker\<close>

text \<open>
  Where the worker is in \<open>run\<close>, with the local variables it still needs: ended, or at the head of the loop, before
  the first section under the lock, before the one of a prebuffer of no length, in \<open>read_for\<close>, before \<open>pushLocked\<close>
  with the block it read, before the comparison of the clock, before the section that takes a sliceice, or in \<open>swap\<close>
  with the block that is in \<open>out.writeBuf\<close>. \<open>pw_taken\<close> and \<open>pw_given\<close> record the samples that were read from the
  input and those handed over by a \<open>swap\<close> that returned true.
\<close>

datatype 'a pre_at = Ended | LoopTop | FirstLock | BypassLock | AwaitInput | PushLock "'a list" | Pace nat | SliceLock nat | InSwap "'a list"

record 'a pre_worker =
  pw_at :: "'a pre_at"
  pw_nextTick :: int
  pw_stopRequested :: bool
  pw_taken :: "'a list"
  pw_given :: "'a list"

definition pre_start :: "'a pre_worker" where
  "pre_start = \<lparr>pw_at = Ended, pw_nextTick = 0, pw_stopRequested = False, pw_taken = [], pw_given = []\<rparr>"

text \<open>\<open>duration_cast\<close> to nanoseconds drops the fraction.\<close>

definition sliceDuration :: "nat \<Rightarrow> real \<Rightarrow> int" where
  "sliceDuration samples rate = \<lfloor>real samples / rate * 1000000000\<rfloor>"

text \<open>
  The steps outside the lock. \<open>now\<close> is what the clock shows, \<open>input\<close> what \<open>read_for\<close> gives (\<open>None\<close> for -1, \<open>[]\<close>
  when the time runs out), and \<open>swapped\<close> what \<open>swap\<close> returns.
\<close>

definition pre_unlocked :: "int \<Rightarrow> 'a list option \<Rightarrow> bool \<Rightarrow> 'a pre_worker \<Rightarrow> 'a pre_worker option" where
  "pre_unlocked now input swapped w =
     (case pw_at w of
        LoopTop \<Rightarrow> Some (w\<lparr>pw_at := if pw_stopRequested w then Ended else FirstLock\<rparr>)
      | AwaitInput \<Rightarrow> Some (case input of
            None \<Rightarrow> w\<lparr>pw_at := Ended\<rparr>
          | Some data \<Rightarrow> w\<lparr>pw_at := if data = [] then LoopTop else PushLock data, pw_taken := pw_taken w @ data\<rparr>)
      | Pace sl \<Rightarrow> Some (w\<lparr>pw_at := if now < pw_nextTick w then AwaitInput else SliceLock sl\<rparr>)
      | InSwap out \<Rightarrow> Some (if swapped then w\<lparr>pw_at := LoopTop, pw_given := pw_given w @ out\<rparr> else w\<lparr>pw_at := Ended\<rparr>)
      | _ \<Rightarrow> None)"

text \<open>A step of the worker; \<open>None\<close> when it has ended.\<close>

definition pre_work :: "int \<Rightarrow> 'a list option \<Rightarrow> bool \<Rightarrow> 'a pre_worker \<times> 'a::zero prebuffer \<Rightarrow> ('a pre_worker \<times> 'a prebuffer) option" where
  "pre_work now input swapped s =
     (case s of (w, b) \<Rightarrow>
        case pw_at w of
          FirstLock \<Rightarrow>
            (let target = targetSamples (pb_msec b) (pb_rate b); sl = sliceSamples (pb_rate b);
                 becomes = (target \<noteq> 0 \<and> \<not> pb_primed b \<and> pb_buffered b \<ge> target);
                 b1 = b\<lparr>pb_primed := (if target = 0 then pb_buffered b > 0 else becomes \<or> pb_primed b)\<rparr>
             in Some (w\<lparr>pw_at := if target = 0 then BypassLock else if \<not> pb_primed b1 then AwaitInput else Pace sl,
                        pw_nextTick := if becomes then now else pw_nextTick w\<rparr>, b1))
        | BypassLock \<Rightarrow>
            (let (out, b1) = pb_pop (min (pb_buffered b) STREAM_BUFFER_SIZE) b
             in Some (w\<lparr>pw_at := if out \<noteq> [] then InSwap out else AwaitInput\<rparr>, b1))
        | PushLock data \<Rightarrow> Some (w\<lparr>pw_at := LoopTop\<rparr>, pb_push data b)
        | SliceLock sl \<Rightarrow>
            (let (out, b1) = pb_pop (min (pb_buffered b) (min sl STREAM_BUFFER_SIZE)) b;
                 b2 = (if pb_buffered b1 < sl then b1\<lparr>pb_primed := False\<rparr> else b1)
             in Some (if out = [] then w\<lparr>pw_at := LoopTop\<rparr>
                      else w\<lparr>pw_at := InSwap out, pw_nextTick := pw_nextTick w + sliceDuration (length out) (pb_rate b)\<rparr>, b2))
        | _ \<Rightarrow> map_option (\<lambda>w1. (w1, b)) (pre_unlocked now input swapped w))"

text \<open>
  The steps of all threads: those of the worker, the three setters, \<open>doStart\<close>, and the two ends of \<open>doStop\<close>, which
  asks the worker to stop and, when it has joined it, clears the buffer.
\<close>

datatype 'a pre_label = Work int "'a list option" bool | SetPrebufferMsec int | SetSampleRate real | ClearPrebuffer
  | StartWorker int | RequestStop | FinishStop

definition started :: "int \<Rightarrow> 'a pre_worker \<Rightarrow> 'a pre_worker option" where
  "started now w = (if pw_at w = Ended then Some (w\<lparr>pw_at := LoopTop, pw_nextTick := now, pw_stopRequested := False\<rparr>) else None)"

definition joined :: "'a pre_worker \<Rightarrow> 'a pre_worker option" where
  "joined w = (if pw_at w = Ended then Some (w\<lparr>pw_stopRequested := False\<rparr>) else None)"

fun pre_step :: "'a pre_label \<Rightarrow> 'a pre_worker \<times> 'a::zero prebuffer \<Rightarrow> ('a pre_worker \<times> 'a prebuffer) option" where
  "pre_step (Work now input swapped) s = pre_work now input swapped s"
| "pre_step (SetPrebufferMsec msec) (w, b) = Some (w, pb_setPrebufferMsec msec b)"
| "pre_step (SetSampleRate sr) (w, b) = Some (w, pb_setSampleRate sr b)"
| "pre_step ClearPrebuffer (w, b) = Some (w, pb_clear b)"
| "pre_step (StartWorker now) (w, b) = map_option (\<lambda>w1. (w1, b)) (started now w)"
| "pre_step RequestStop (w, b) = Some (w\<lparr>pw_stopRequested := True\<rparr>, b)"
| "pre_step FinishStop (w, b) = map_option (\<lambda>w1. (w1, pb_clear b)) (joined w)"

fun pre_steps :: "'a pre_label list \<Rightarrow> 'a pre_worker \<times> 'a::zero prebuffer \<Rightarrow> ('a pre_worker \<times> 'a prebuffer) option" where
  "pre_steps [] s = Some s"
| "pre_steps (l # ls) s = Option.bind (pre_step l s) (pre_steps ls)"

section \<open>The queue it holds\<close>

definition pb_contents :: "'a prebuffer \<Rightarrow> 'a list" where
  "pb_contents b = take (pb_buffered b) (rotate (pb_head b) (pb_ring b))"

definition ring_ok :: "'a prebuffer \<Rightarrow> bool" where
  "ring_ok b \<longleftrightarrow> pb_buffered b \<le> length (pb_ring b) \<and> (pb_ring b = [] \<or> pb_head b < length (pb_ring b))"

definition lastn :: "nat \<Rightarrow> 'a list \<Rightarrow> 'a list" where
  "lastn n xs = drop (length xs - n) xs"

lemma rotate_small: "h < length xs \<Longrightarrow> rotate h xs = drop h xs @ take h xs"
  by (simp add: rotate_drop_take)

lemma rotate_mod_add: "rotate ((h + k) mod length xs) xs = rotate k (rotate h xs)"
  by (simp add: rotate_rotate add.commute flip: rotate_conv_mod)

lemma take_rotate: "k + m \<le> length xs \<Longrightarrow> take m (rotate k xs) = take m (drop k xs)"
proof (cases "k = length xs")
  case False
  assume "k + m \<le> length xs"
  then show ?thesis using False by (simp add: rotate_small)
qed simp

lemma length_contents: "ring_ok b \<Longrightarrow> length (pb_contents b) = pb_buffered b"
  by (simp add: pb_contents_def ring_ok_def)

lemma copy_two_parts:
  assumes "h < length r" "k \<le> length r"
  shows "take (min k (length r - h)) (drop h r) @ (if k > min k (length r - h) then take (k - min k (length r - h)) r else []) = take k (rotate h r)"
proof (cases "k \<le> length r - h")
  case True
  then show ?thesis by (simp add: rotate_small [OF assms(1)])
next
  case False
  then have "k - (length r - h) \<le> h" using assms by simp
  then show ?thesis using False by (simp add: rotate_small [OF assms(1)] min_def)
qed

lemma copy_contents:
  assumes "ring_ok b"
  shows "pb_copy n b = take n (pb_contents b)"
proof (cases "n = 0 \<or> pb_buffered b = 0 \<or> pb_ring b = []")
  case True
  then show ?thesis by (auto simp: pb_copy_def pb_contents_def)
next
  case False
  then have "pb_head b < length (pb_ring b)" "min n (pb_buffered b) \<le> length (pb_ring b)" using assms by (auto simp: ring_ok_def)
  from copy_two_parts [OF this] False show ?thesis unfolding pb_copy_def Let_def pb_contents_def by (simp only: if_False take_take)
qed

lemma contents_advance:
  assumes "ring_ok b" "k \<le> pb_buffered b"
  shows "take (pb_buffered b - k) (rotate ((pb_head b + k) mod length (pb_ring b)) (pb_ring b)) = drop k (pb_contents b)"
  using assms by (simp add: rotate_mod_add take_rotate pb_contents_def ring_ok_def drop_take)

lemma pop_contents:
  assumes "ring_ok b"
  shows "ring_ok (snd (pb_pop n b)) \<and> fst (pb_pop n b) = take n (pb_contents b) \<and> pb_contents (snd (pb_pop n b)) = drop n (pb_contents b)"
proof (cases "n = 0 \<or> pb_buffered b = 0 \<or> pb_ring b = []")
  case True
  then have "n = 0 \<or> pb_contents b = []" by (auto simp: pb_contents_def)
  then show ?thesis using True assms by (auto simp: pb_pop_def)
next
  case False
  define k where "k = min n (pb_buffered b)"
  have k: "k \<le> pb_buffered b" "drop n (pb_contents b) = drop k (pb_contents b)"
    using length_contents [OF assms] by (auto simp: k_def min_def)
  have p: "pb_pop n b = (pb_copy n b, b\<lparr>pb_head := (if pb_buffered b - k = 0 then 0 else (pb_head b + k) mod length (pb_ring b)), pb_buffered := pb_buffered b - k\<rparr>)"
    using False by (simp add: pb_pop_def Let_def k_def)
  have "ring_ok (snd (pb_pop n b))" using assms False by (auto simp: p ring_ok_def)
  moreover have "pb_contents (snd (pb_pop n b)) = drop k (pb_contents b)"
  proof (cases "pb_buffered b = k")
    case True
    then show ?thesis using length_contents [OF assms] by (simp add: p) (simp add: pb_contents_def)
  next
    case False
    then show ?thesis using contents_advance [OF assms k(1)] k(1) by (simp add: p) (simp add: pb_contents_def)
  qed
  ultimately show ?thesis using copy_contents [OF assms, of n] k(2) by (simp add: p)
qed

lemma dropOldest_contents:
  assumes "ring_ok b"
  shows "ring_ok (pb_dropOldest n b) \<and> pb_contents (pb_dropOldest n b) = drop n (pb_contents b)"
proof (cases "n \<ge> pb_buffered b")
  case True
  then show ?thesis using assms length_contents [OF assms] by (simp add: pb_dropOldest_def pb_clear_def) (auto simp: ring_ok_def pb_contents_def)
next
  case False
  then have "pb_ring b \<noteq> []" using assms by (auto simp: ring_ok_def)
  then have "ring_ok (pb_dropOldest n b)" using False assms by (auto simp: pb_dropOldest_def ring_ok_def)
  moreover have "pb_contents (pb_dropOldest n b) = drop n (pb_contents b)"
    using False contents_advance [OF assms, of n] by (simp add: pb_dropOldest_def) (simp add: pb_contents_def)
  ultimately show ?thesis by blast
qed

lemma clear_contents: "ring_ok b \<Longrightarrow> ring_ok (pb_clear b) \<and> pb_contents (pb_clear b) = []"
  by (auto simp: pb_clear_def ring_ok_def pb_contents_def)

lemma resize_contents:
  assumes "ring_ok b"
  shows "ring_ok (pb_resize n b) \<and> pb_contents (pb_resize n b) = take (max 1 n) (pb_contents b) \<and> length (pb_ring (pb_resize n b)) = max 1 n"
proof (cases "length (pb_ring b) = max 1 n")
  case True
  then have "length (pb_contents b) \<le> max 1 n" using assms length_contents [OF assms] by (simp add: ring_ok_def)
  then show ?thesis using True assms by (simp add: pb_resize_def Let_def)
next
  case False
  define cap where "cap = max 1 n"
  define kept where "kept = take cap (pb_contents b)"
  have "take (min (pb_buffered b) cap) (pb_contents b) = kept" using length_contents [OF assms] by (simp add: kept_def flip: take_take)
  then have r: "pb_resize n b = b\<lparr>pb_ring := kept @ replicate (cap - length kept) 0, pb_head := 0, pb_buffered := length kept\<rparr>"
    using False copy_contents [OF assms] by (simp add: pb_resize_def Let_def cap_def)
  have "length kept \<le> cap" "0 < cap" by (simp_all add: kept_def cap_def)
  then show ?thesis unfolding r cap_def [symmetric] kept_def [symmetric] by (auto simp: ring_ok_def pb_contents_def)
qed

text \<open>Writing behind the samples held.\<close>

lemma ring_write:
  assumes "t < length r" "length xs \<le> length r"
  defines "n \<equiv> min (length xs) (length r - t)"
  shows "rotate t (let r1 = copy_at t (take n xs) r in if length xs > n then copy_at 0 (drop n xs) r1 else r1) = xs @ drop (length xs) (rotate t r)"
proof (cases "t + length xs \<le> length r")
  case True
  then have "n = length xs" using assms by simp
  moreover have "rotate t (take t r @ xs @ drop (t + length xs) r) = (xs @ drop (t + length xs) r) @ take t r"
    using rotate_append [of "take t r" "xs @ drop (t + length xs) r"] assms(1) by simp
  ultimately show ?thesis using True assms(1) by (simp add: copy_at_def rotate_small add.commute)
next
  case False
  then have n: "n = length r - t" "n < length xs" "t + n = length r" using assms by simp_all
  have "length (drop n xs) \<le> t" using n assms(2) by simp
  moreover have "rotate t (drop n xs @ drop (length xs - n) (take t r) @ take n xs) = take n xs @ drop n xs @ drop (length xs - n) (take t r)"
    using rotate_append [of "drop n xs @ drop (length xs - n) (take t r)" "take n xs"] n assms(1,2) by simp
  ultimately show ?thesis using n assms(1) by (simp add: copy_at_def rotate_small Let_def)
qed

lemma write_contents:
  assumes "ring_ok b" "pb_buffered b + length xs \<le> length (pb_ring b)" "pb_ring b \<noteq> []"
  shows "ring_ok (pb_write xs b) \<and> pb_contents (pb_write xs b) = pb_contents b @ xs \<and> pb_buffered (pb_write xs b) = pb_buffered b + length xs \<and>
    pb_msec (pb_write xs b) = pb_msec b \<and> pb_rate (pb_write xs b) = pb_rate b"
proof -
  define t where "t = (pb_head b + pb_buffered b) mod length (pb_ring b)"
  define n where "n = min (length xs) (length (pb_ring b) - t)"
  define ring where "ring = (let r1 = copy_at t (take n xs) (pb_ring b) in if length xs > n then copy_at 0 (drop n xs) r1 else r1)"
  have p: "pb_write xs b = b\<lparr>pb_ring := ring, pb_buffered := pb_buffered b + length xs\<rparr>"
    by (simp add: pb_write_def Let_def ring_def n_def t_def)
  let ?r = "pb_ring b" and ?c = "pb_buffered b"
  have t: "t < length ?r" using assms(3) by (simp add: t_def)
  have w: "rotate t ring = xs @ drop (length xs) (rotate t ?r)"
    using ring_write [OF t, of xs] assms(2) unfolding ring_def n_def by simp
  then have "length (rotate t ring) = length ?r" using assms(2) by simp
  then have len: "length ring = length ?r" by simp
  let ?X = "rotate (pb_head b) ?r" and ?Y = "rotate (pb_head b) ring"
  have "rotate ?c ?Y = xs @ drop (length xs) (rotate ?c ?X)"
    using w rotate_mod_add [of "pb_head b" ?c ring] rotate_mod_add [of "pb_head b" ?c ?r] by (simp add: t_def len)
  moreover have rot: "rotate ?c zs = drop ?c zs @ take ?c zs" if "length zs = length ?r" for zs :: "'a list"
    using assms(2) that by (cases "?c = length zs") (simp_all add: rotate_small)
  ultimately have e: "drop ?c ?Y @ take ?c ?Y = (xs @ drop (?c + length xs) ?X) @ take ?c ?X"
    using assms(2) len by (simp add: add.commute)
  have "length (drop ?c ?Y) = length (xs @ drop (?c + length xs) ?X)" using assms(2) len by simp
  from append_eq_append_conv [THEN iffD1, OF disjI1, OF this e]
  have "take (?c + length xs) ?Y = take ?c ?X @ xs" by (simp add: take_add)
  then show ?thesis using len assms by (simp add: p ring_ok_def) (simp add: pb_contents_def)
qed

section \<open>Refinement of a bounded queue\<close>

definition pb_ok :: "'a prebuffer \<Rightarrow> bool" where
  "pb_ok b \<longleftrightarrow> ring_ok b \<and> pb_buffered b \<le> pb_max b"

lemma pb_max_pos: "0 < pb_max b"
  by (auto simp: pb_max_def maxBufferedSamples_def Let_def durationSamples_def sliceSamples_def max_def)

lemma pb_frame [simp]:
  "pb_max (pb_clear b) = pb_max b" "pb_max (pb_resize n b) = pb_max b" "pb_max (pb_dropOldest n b) = pb_max b"
  "pb_max (snd (pb_pop n b)) = pb_max b" "pb_max (pb_ensureCapacity n b) = pb_max b" "pb_max (pb_trim b) = pb_max b"
  by (auto simp: pb_max_def pb_clear_def pb_resize_def pb_dropOldest_def pb_pop_def pb_ensureCapacity_def pb_trim_def Let_def)

lemma pb_settings:
  "pb_msec (pb_clear b) = pb_msec b" "pb_rate (pb_clear b) = pb_rate b"
  "pb_msec (pb_resize n b) = pb_msec b" "pb_rate (pb_resize n b) = pb_rate b"
  "pb_msec (pb_dropOldest n b) = pb_msec b" "pb_rate (pb_dropOldest n b) = pb_rate b"
  "pb_msec (pb_ensureCapacity n b) = pb_msec b" "pb_rate (pb_ensureCapacity n b) = pb_rate b"
  "pb_msec (pb_trim b) = pb_msec b" "pb_rate (pb_trim b) = pb_rate b"
  "pb_msec (snd (pb_pop n b)) = pb_msec b" "pb_rate (snd (pb_pop n b)) = pb_rate b"
  by (simp_all add: pb_clear_def pb_resize_def pb_dropOldest_def pb_pop_def pb_ensureCapacity_def pb_trim_def Let_def)

lemma pb_ok_init: "pb_ok pb_init"
  by (simp add: pb_ok_def ring_ok_def pb_init_def)

lemma ensureCapacity_contents:
  assumes "ring_ok b" "pb_buffered b \<le> n" "0 < n"
  shows "ring_ok (pb_ensureCapacity n b) \<and> pb_contents (pb_ensureCapacity n b) = pb_contents b \<and> n \<le> length (pb_ring (pb_ensureCapacity n b))"
  using resize_contents [OF assms(1), of n] length_contents [OF assms(1)] assms by (auto simp: pb_ensureCapacity_def)

lemma push_contents:
  assumes "pb_ok b"
  shows "pb_ok (pb_push data b) \<and> pb_contents (pb_push data b) = lastn (pb_max b) (pb_contents b @ data) \<and>
    pb_msec (pb_push data b) = pb_msec b \<and> pb_rate (pb_push data b) = pb_rate b"
proof (cases "data = []")
  case True
  then show ?thesis using assms length_contents [of b] by (simp add: pb_push_def pb_ok_def lastn_def)
next
  case False
  let ?m = "pb_max b"
  define d0 where "d0 = (if length data > ?m then drop (length data - ?m) data else data)"
  define b0 where "b0 = (if length data > ?m then pb_clear b else b)"
  define b1 where "b1 = pb_ensureCapacity (max ?m (pb_buffered b0 + length d0)) b0"
  define b2 where "b2 = (if pb_buffered b1 + length d0 > ?m then pb_dropOldest (pb_buffered b1 + length d0 - ?m) b1 else b1)"
  have r: "ring_ok b" using assms by (simp add: pb_ok_def)
  have d0: "length d0 \<le> ?m" by (simp add: d0_def)
  have 0: "ring_ok b0" "pb_max b0 = ?m" "lastn ?m (pb_contents b0 @ d0) = lastn ?m (pb_contents b @ data)"
    using r clear_contents [OF r] by (auto simp: b0_def d0_def lastn_def)
  have 1: "ring_ok b1" "pb_contents b1 = pb_contents b0" "max ?m (pb_buffered b0 + length d0) \<le> length (pb_ring b1)"
    using ensureCapacity_contents [OF 0(1), of "max ?m (pb_buffered b0 + length d0)"] pb_max_pos [of b] by (simp_all add: b1_def)
  have c1: "length (pb_contents b1) = pb_buffered b1" by (rule length_contents [OF 1(1)])
  have ring2: "pb_ring b2 = pb_ring b1" by (simp add: b2_def pb_dropOldest_def pb_clear_def)
  have 2: "ring_ok b2" "pb_contents b2 = drop (pb_buffered b1 + length d0 - ?m) (pb_contents b1)"
    using dropOldest_contents [OF 1(1)] 1(1) by (auto simp: b2_def)
  have c2: "length (pb_contents b2) = pb_buffered b2" by (rule length_contents [OF 2(1)])
  have "pb_buffered b2 + length d0 \<le> ?m" using c2 d0 unfolding 2(2) length_drop c1 by simp
  moreover have "?m \<le> length (pb_ring b2)" using 1(3) by (simp add: ring2)
  ultimately have fits: "pb_buffered b2 + length d0 \<le> length (pb_ring b2)" "pb_ring b2 \<noteq> []" "pb_buffered b2 + length d0 \<le> ?m"
    using pb_max_pos [of b] by auto
  have p: "pb_push data b = pb_write d0 b2"
    using False unfolding b2_def b1_def b0_def d0_def pb_push_def Let_def by (simp only: if_False)
  note w = write_contents [OF 2(1) fits(1,2)]
  have s: "pb_msec b2 = pb_msec b" "pb_rate b2 = pb_rate b"
    by (simp_all add: b2_def b1_def b0_def pb_settings)
  have "pb_contents (pb_push data b) = pb_contents b2 @ d0" using w by (simp add: p)
  also have "\<dots> = lastn ?m (pb_contents b @ data)"
    unfolding 0(3) [symmetric] 2(2) using d0 c1 by (simp add: lastn_def 1(2))
  finally have "pb_contents (pb_push data b) = lastn ?m (pb_contents b @ data)" .
  moreover have "pb_ok (pb_push data b)" using fits(3) w s by (simp add: p pb_ok_def pb_max_def)
  ultimately show ?thesis using s w by (simp add: p)
qed

lemma trim_contents:
  assumes "ring_ok b"
  shows "ring_ok (pb_trim b) \<and> pb_contents (pb_trim b) = lastn (pb_max b) (pb_contents b)"
  using dropOldest_contents [OF assms, of "pb_buffered b - pb_max b"] length_contents [OF assms] assms
  by (auto simp: pb_trim_def lastn_def)

lemma setPrebufferMsec_contents:
  assumes "pb_ok b"
  shows "pb_ok (pb_setPrebufferMsec msec b) \<and>
    pb_contents (pb_setPrebufferMsec msec b) = lastn (maxBufferedSamples (max 0 msec) (pb_rate b)) (pb_contents b) \<and>
    pb_msec (pb_setPrebufferMsec msec b) = max 0 msec \<and> pb_rate (pb_setPrebufferMsec msec b) = pb_rate b"
proof -
  let ?b = "b\<lparr>pb_msec := max 0 msec\<rparr>"
  have r: "ring_ok ?b" "pb_contents ?b = pb_contents b" "pb_max ?b = maxBufferedSamples (max 0 msec) (pb_rate b)"
    using assms by (simp_all add: pb_ok_def ring_ok_def pb_contents_def pb_max_def)
  note t = trim_contents [OF r(1)]
  have len: "length (lastn n xs) \<le> n" for n and xs :: "'b list" by (simp add: lastn_def)
  have s: "pb_msec (pb_setPrebufferMsec msec b) = max 0 msec" "pb_rate (pb_setPrebufferMsec msec b) = pb_rate b"
    by (simp_all add: pb_setPrebufferMsec_def Let_def pb_settings)
  note z = resize_contents [of "pb_trim ?b" "pb_max ?b"]
  have c: "pb_contents (pb_setPrebufferMsec msec b) = lastn (pb_max ?b) (pb_contents b)" "ring_ok (pb_setPrebufferMsec msec b)"
    using z t len [of "pb_max ?b" "pb_contents b"] by (simp_all add: pb_setPrebufferMsec_def Let_def r(2))
  then have "pb_buffered (pb_setPrebufferMsec msec b) \<le> pb_max ?b"
    using length_contents [OF c(2)] len [of "pb_max ?b" "pb_contents b"] by simp
  then show ?thesis using c s r(3) by (simp add: pb_ok_def pb_max_def)
qed

lemma setSampleRate_contents:
  assumes "pb_ok b"
  shows "pb_ok (pb_setSampleRate sr b) \<and> pb_contents (pb_setSampleRate sr b) = [] \<and>
    pb_msec (pb_setSampleRate sr b) = pb_msec b \<and> pb_rate (pb_setSampleRate sr b) = max 1 sr"
proof -
  let ?b = "pb_clear (b\<lparr>pb_rate := max 1 sr\<rparr>)"
  have "ring_ok (b\<lparr>pb_rate := max 1 sr\<rparr>)" using assms by (simp add: pb_ok_def ring_ok_def)
  from clear_contents [OF this] resize_contents [of ?b "pb_max ?b"]
  have "ring_ok (pb_setSampleRate sr b)" "pb_contents (pb_setSampleRate sr b) = []" by (simp_all add: pb_setSampleRate_def Let_def)
  then show ?thesis using length_contents [of "pb_setSampleRate sr b"]
    by (simp add: pb_ok_def) (simp add: pb_setSampleRate_def Let_def pb_settings)
qed

text \<open>The specification: a queue of at most \<open>maxBufferedSamples\<close> samples, which loses the oldest ones.\<close>

record 'a queue_spec =
  q_msec :: int
  q_rate :: real
  q_primed :: bool
  q_samples :: "'a list"

definition q_init :: "'a queue_spec" where
  "q_init = \<lparr>q_msec = 100, q_rate = 1000000, q_primed = False, q_samples = []\<rparr>"

definition q_max :: "'a queue_spec \<Rightarrow> nat" where
  "q_max q = maxBufferedSamples (q_msec q) (q_rate q)"

definition q_push :: "'a list \<Rightarrow> 'a queue_spec \<Rightarrow> 'a queue_spec" where
  "q_push data q =
     q\<lparr>q_samples := lastn (q_max q) (q_samples q @ data),
       q_primed := (q_primed q \<and> (length data < q_max q \<or> length data = q_max q \<and> q_samples q = []))\<rparr>"

definition q_clear :: "'a queue_spec \<Rightarrow> 'a queue_spec" where
  "q_clear q = q\<lparr>q_samples := [], q_primed := False\<rparr>"

definition q_work :: "int \<Rightarrow> 'a list option \<Rightarrow> bool \<Rightarrow> 'a pre_worker \<times> 'a queue_spec \<Rightarrow> ('a pre_worker \<times> 'a queue_spec) option" where
  "q_work now input swapped s =
     (case s of (w, q) \<Rightarrow>
        let target = targetSamples (q_msec q) (q_rate q); held = length (q_samples q)
        in case pw_at w of
          FirstLock \<Rightarrow>
            Some (if target = 0 then (w\<lparr>pw_at := BypassLock\<rparr>, q\<lparr>q_primed := held > 0\<rparr>)
                  else if q_primed q then (w\<lparr>pw_at := Pace (sliceSamples (q_rate q))\<rparr>, q)
                  else if held \<ge> target then (w\<lparr>pw_at := Pace (sliceSamples (q_rate q)), pw_nextTick := now\<rparr>, q\<lparr>q_primed := True\<rparr>)
                  else (w\<lparr>pw_at := AwaitInput\<rparr>, q))
        | BypassLock \<Rightarrow>
            Some (w\<lparr>pw_at := if held > 0 then InSwap (take STREAM_BUFFER_SIZE (q_samples q)) else AwaitInput\<rparr>,
                  q\<lparr>q_samples := drop STREAM_BUFFER_SIZE (q_samples q)\<rparr>)
        | PushLock data \<Rightarrow> Some (w\<lparr>pw_at := LoopTop\<rparr>, q_push data q)
        | SliceLock sl \<Rightarrow>
            (let k = min sl STREAM_BUFFER_SIZE
             in Some (if min held k = 0 then w\<lparr>pw_at := LoopTop\<rparr>
                      else w\<lparr>pw_at := InSwap (take k (q_samples q)), pw_nextTick := pw_nextTick w + sliceDuration (min held k) (q_rate q)\<rparr>,
                      q\<lparr>q_samples := drop k (q_samples q), q_primed := (q_primed q \<and> held - k \<ge> sl)\<rparr>))
        | _ \<Rightarrow> map_option (\<lambda>w1. (w1, q)) (pre_unlocked now input swapped w))"

fun q_step :: "'a pre_label \<Rightarrow> 'a pre_worker \<times> 'a queue_spec \<Rightarrow> ('a pre_worker \<times> 'a queue_spec) option" where
  "q_step (Work now input swapped) s = q_work now input swapped s"
| "q_step (SetPrebufferMsec msec) (w, q) = (let q1 = q\<lparr>q_msec := max 0 msec\<rparr> in Some (w, q1\<lparr>q_samples := lastn (q_max q1) (q_samples q)\<rparr>))"
| "q_step (SetSampleRate sr) (w, q) = Some (w, q_clear (q\<lparr>q_rate := max 1 sr\<rparr>))"
| "q_step ClearPrebuffer (w, q) = Some (w, q_clear q)"
| "q_step (StartWorker now) (w, q) = map_option (\<lambda>w1. (w1, q)) (started now w)"
| "q_step RequestStop (w, q) = Some (w\<lparr>pw_stopRequested := True\<rparr>, q)"
| "q_step FinishStop (w, q) = map_option (\<lambda>w1. (w1, q_clear q)) (joined w)"

fun q_steps :: "'a pre_label list \<Rightarrow> 'a pre_worker \<times> 'a queue_spec \<Rightarrow> ('a pre_worker \<times> 'a queue_spec) option" where
  "q_steps [] s = Some s"
| "q_steps (l # ls) s = Option.bind (q_step l s) (q_steps ls)"

definition pb_abs :: "'a prebuffer \<Rightarrow> 'a queue_spec" where
  "pb_abs b = \<lparr>q_msec = pb_msec b, q_rate = pb_rate b, q_primed = pb_primed b, q_samples = pb_contents b\<rparr>"

lemma contents_primed [simp]: "pb_contents (b\<lparr>pb_primed := v\<rparr>) = pb_contents b" "pb_ok (b\<lparr>pb_primed := v\<rparr>) = pb_ok b"
  by (simp_all add: pb_contents_def pb_ok_def ring_ok_def pb_max_def)

lemma primed_frame [simp]: "pb_primed (pb_write xs b) = pb_primed b" "pb_primed (pb_resize n b) = pb_primed b"
  "pb_primed (pb_ensureCapacity n b) = pb_primed b" "pb_primed (snd (pb_pop n b)) = pb_primed b"
  by (simp_all add: pb_write_def pb_resize_def pb_ensureCapacity_def pb_pop_def Let_def)

lemma primed_dropOldest: "pb_primed (pb_dropOldest n b) \<longleftrightarrow> pb_primed b \<and> n < pb_buffered b"
  by (simp add: pb_dropOldest_def pb_clear_def)

lemma primed_clear: "\<not> pb_primed (pb_clear b)"
  by (simp add: pb_clear_def)

lemma resize_buffered: "ring_ok b \<Longrightarrow> pb_buffered b \<le> n \<Longrightarrow> pb_buffered (pb_ensureCapacity n b) = pb_buffered b"
proof (cases "n = 0")
  case False
  assume r: "ring_ok b" "pb_buffered b \<le> n"
  from ensureCapacity_contents [OF this] False length_contents [OF r(1)] length_contents [of "pb_ensureCapacity n b"]
  show ?thesis by simp
qed (simp add: pb_ensureCapacity_def)

lemma push_primed:
  assumes "pb_ok b"
  shows "pb_primed (pb_push data b) \<longleftrightarrow> pb_primed b \<and> (length data < pb_max b \<or> length data = pb_max b \<and> pb_buffered b = 0)"
proof (cases "data = [] \<or> length data > pb_max b")
  case True
  then show ?thesis using pb_max_pos [of b]
    by (auto simp: pb_push_def Let_def primed_dropOldest primed_clear)
next
  case False
  then have "pb_buffered (pb_ensureCapacity (max (pb_max b) (pb_buffered b + length data)) b) = pb_buffered b"
    using assms by (intro resize_buffered) (auto simp: pb_ok_def)
  then show ?thesis using False by (auto simp: pb_push_def Let_def primed_dropOldest)
qed

lemma push_abs:
  assumes "pb_ok b"
  shows "pb_abs (pb_push data b) = q_push data (pb_abs b)"
proof -
  have "pb_buffered b = 0 \<longleftrightarrow> pb_contents b = []" using length_contents [of b] assms by (auto simp: pb_ok_def)
  then show ?thesis using push_contents [OF assms, of data] push_primed [OF assms, of data]
    by (simp add: pb_abs_def q_push_def q_max_def pb_max_def)
qed

lemma pop_ok:
  fixes b :: "'a::zero prebuffer"
  assumes "pb_ok b"
  shows "pb_ok (snd (pb_pop n b)) \<and> fst (pb_pop n b) = take n (pb_contents b) \<and> pb_contents (snd (pb_pop n b)) = drop n (pb_contents b) \<and>
    pb_buffered (snd (pb_pop n b)) = pb_buffered b - n"
proof -
  note p = pop_contents [of b n]
  have r: "ring_ok b" using assms by (simp add: pb_ok_def)
  have "pb_buffered (snd (pb_pop n b)) = pb_buffered b - n"
    using p r length_contents [OF r] length_contents [of "snd (pb_pop n b)"] by simp
  then show ?thesis using p r assms by (simp add: pb_ok_def)
qed

text \<open>Taking what is there of \<open>n\<close> samples.\<close>

lemma pop_abs:
  fixes b :: "'a::zero prebuffer"
  assumes "pb_ok b"
  shows "pb_ok (snd (pb_pop (min (pb_buffered b) n) b))"
    "fst (pb_pop (min (pb_buffered b) n) b) = take n (pb_contents b)"
    "pb_abs (snd (pb_pop (min (pb_buffered b) n) b)) = (pb_abs b)\<lparr>q_samples := drop n (pb_contents b)\<rparr>"
    "pb_buffered (snd (pb_pop (min (pb_buffered b) n) b)) = length (pb_contents b) - n"
proof -
  have "length (pb_contents b) = pb_buffered b" using assms by (simp add: pb_ok_def length_contents)
  then show "pb_ok (snd (pb_pop (min (pb_buffered b) n) b))" "fst (pb_pop (min (pb_buffered b) n) b) = take n (pb_contents b)"
    "pb_abs (snd (pb_pop (min (pb_buffered b) n) b)) = (pb_abs b)\<lparr>q_samples := drop n (pb_contents b)\<rparr>"
    "pb_buffered (snd (pb_pop (min (pb_buffered b) n) b)) = length (pb_contents b) - n"
    using pop_ok [OF assms, of "min (pb_buffered b) n"] by (auto simp: pb_abs_def pb_settings min_def)
qed

lemma abs_fields [simp]: "q_msec (pb_abs b) = pb_msec b" "q_rate (pb_abs b) = pb_rate b" "q_primed (pb_abs b) = pb_primed b"
  "q_samples (pb_abs b) = pb_contents b"
  by (simp_all add: pb_abs_def)

lemma abs_primed: "pb_abs (b\<lparr>pb_primed := v\<rparr>) = (pb_abs b)\<lparr>q_primed := v\<rparr>"
  by (simp add: pb_abs_def)

lemma abs_clear: "pb_ok b \<Longrightarrow> pb_abs (pb_clear b) = q_clear (pb_abs b) \<and> pb_ok (pb_clear b)"
  using clear_contents [of b] by (auto simp: pb_abs_def q_clear_def pb_settings primed_clear pb_ok_def pb_clear_def)

lemma abs_primed_same: "(pb_abs b)\<lparr>q_samples := xs, q_primed := pb_primed b\<rparr> = (pb_abs b)\<lparr>q_samples := xs\<rparr>"
  by (simp add: pb_abs_def)

text \<open>A step of the ring, and the same step of the queue.\<close>

definition same_step :: "('a pre_worker \<times> 'a prebuffer) option \<Rightarrow> ('a pre_worker \<times> 'a queue_spec) option \<Rightarrow> bool" where
  "same_step r r' \<longleftrightarrow> r' = map_option (\<lambda>(w, b). (w, pb_abs b)) r \<and> pred_option (\<lambda>(w, b). pb_ok b) r"

lemma work_slice:
  assumes "pb_ok b" "pw_at w = SliceLock sl"
  shows "same_step (pre_work now input swapped (w, b)) (q_work now input swapped (w, pb_abs b))"
proof -
  let ?k = "min sl STREAM_BUFFER_SIZE"
  obtain b1 where e: "pb_pop (min (pb_buffered b) ?k) b = (take ?k (pb_contents b), b1)"
    using pop_abs(2) [OF assms(1), of ?k] by (metis prod.collapse)
  have p: "pb_ok b1" "pb_abs b1 = (pb_abs b)\<lparr>q_samples := drop ?k (pb_contents b)\<rparr>" "pb_buffered b1 = length (pb_contents b) - ?k"
    using pop_abs(1,3,4) [OF assms(1), of ?k] by (simp_all add: e)
  define m d where "m = min (length (pb_contents b)) ?k" and "d = length (pb_contents b) - ?k"
  have l: "take ?k (pb_contents b) = [] \<longleftrightarrow> m = 0" "length (take ?k (pb_contents b)) = m" by (auto simp: m_def min_def)
  have a: "pb_abs (b1\<lparr>pb_primed := False\<rparr>) = (pb_abs b)\<lparr>q_samples := drop ?k (pb_contents b), q_primed := False\<rparr>"
    "pb_abs b1 = (pb_abs b)\<lparr>q_samples := drop ?k (pb_contents b), q_primed := pb_primed b\<rparr>"
    unfolding abs_primed p(2) abs_primed_same by (rule refl)+
  show ?thesis
    unfolding same_step_def pre_work_def q_work_def prod.case assms(2) pre_at.case Let_def e l p(3) abs_fields
      m_def [symmetric] d_def [symmetric]
    using a p(1) by (cases "d < sl") (simp_all add: not_less)
qed

lemma work_same:
  assumes "pb_ok b"
  shows "same_step (pre_work now input swapped (w, b)) (q_work now input swapped (w, pb_abs b))"
proof (cases "pw_at w")
  case FirstLock
  have "length (pb_contents b) = pb_buffered b" using assms by (simp add: pb_ok_def length_contents)
  then show ?thesis using FirstLock assms
    by (auto simp: same_step_def pre_work_def q_work_def Let_def abs_primed)
next
  case BypassLock
  obtain b1 where e: "pb_pop (min (pb_buffered b) STREAM_BUFFER_SIZE) b = (take STREAM_BUFFER_SIZE (pb_contents b), b1)"
    using pop_abs(2) [OF assms, of STREAM_BUFFER_SIZE] by (metis prod.collapse)
  have p: "pb_ok b1" "pb_abs b1 = (pb_abs b)\<lparr>q_samples := drop STREAM_BUFFER_SIZE (pb_contents b)\<rparr>"
    using pop_abs(1,3) [OF assms, of STREAM_BUFFER_SIZE] by (simp_all add: e)
  have "take STREAM_BUFFER_SIZE (pb_contents b) \<noteq> [] \<longleftrightarrow> length (pb_contents b) > 0" by (simp add: STREAM_BUFFER_SIZE_def)
  then show ?thesis unfolding same_step_def pre_work_def q_work_def prod.case BypassLock pre_at.case Let_def e
    using p by simp
next
  case (PushLock data)
  then show ?thesis using push_abs [OF assms] push_contents [OF assms] by (simp add: same_step_def pre_work_def q_work_def)
next
  case (SliceLock sl)
  then show ?thesis by (rule work_slice [OF assms])
qed (use assms in \<open>auto simp: same_step_def pre_work_def q_work_def option.map_comp comp_def pre_unlocked_def\<close>)

lemma step_same:
  assumes "pb_ok b"
  shows "same_step (pre_step l (w, b)) (q_step l (w, pb_abs b))"
proof (cases l)
  case (Work now input swapped)
  then show ?thesis using work_same [OF assms] by simp
next
  case (SetPrebufferMsec msec)
  have "pb_primed (pb_setPrebufferMsec msec b) = pb_primed b"
    using pb_max_pos [of "b\<lparr>pb_msec := max 0 msec\<rparr>"] by (auto simp: pb_setPrebufferMsec_def Let_def pb_trim_def primed_dropOldest)
  then show ?thesis using SetPrebufferMsec setPrebufferMsec_contents [OF assms, of msec]
    by (simp add: same_step_def q_max_def Let_def pb_abs_def)
next
  case (SetSampleRate sr)
  have "\<not> pb_primed (pb_setSampleRate sr b)" by (simp add: pb_setSampleRate_def Let_def primed_clear)
  then show ?thesis using SetSampleRate setSampleRate_contents [OF assms, of sr] by (simp add: same_step_def pb_abs_def q_clear_def)
next
  case FinishStop
  then show ?thesis using abs_clear [OF assms] by (simp add: same_step_def joined_def)
qed (use assms abs_clear [OF assms] in \<open>simp_all add: same_step_def started_def\<close>)

lemma steps_same: "pb_ok b \<Longrightarrow> same_step (pre_steps ls (w, b)) (q_steps ls (w, pb_abs b))"
proof (induction ls arbitrary: w b)
  case (Cons l ls)
  show ?case
  proof (cases "pre_step l (w, b)")
    case None
    then show ?thesis using step_same [OF Cons.prems, of l w] by (simp add: same_step_def)
  next
    case (Some s)
    obtain w1 b1 where s: "s = (w1, b1)" by fastforce
    then have "pb_ok b1" "q_step l (w, pb_abs b) = Some (w1, pb_abs b1)"
      using step_same [OF Cons.prems, of l w] Some by (simp_all add: same_step_def)
    then show ?thesis using Cons.IH [of b1 w1] Some s by simp
  qed
qed (simp add: same_step_def)

section \<open>Nothing is repeated or reordered\<close>

text \<open>What the worker holds in its hands: on the way out, and on the way in.\<close>

definition hand_out :: "'a pre_worker \<Rightarrow> 'a list" where
  "hand_out w = (case pw_at w of InSwap out \<Rightarrow> out | _ \<Rightarrow> [])"

definition hand_in :: "'a pre_worker \<Rightarrow> 'a list" where
  "hand_in w = (case pw_at w of PushLock data \<Rightarrow> data | _ \<Rightarrow> [])"

definition in_order :: "'a pre_worker \<Rightarrow> 'a list \<Rightarrow> bool" where
  "in_order w held \<longleftrightarrow> subseq (pw_given w @ hand_out w @ held @ hand_in w) (pw_taken w)"

lemma subseq_lastn: "subseq (lastn n xs) xs"
  unfolding lastn_def by (metis append_take_drop_id subseq_drop_many subseq_order.refl)

lemma subseq_hand: "subseq b b' \<Longrightarrow> subseq (a @ b' @ c) xs \<Longrightarrow> subseq (a @ b @ c) xs"
  by (meson list_emb_append_mono subseq_order.refl subseq_order.trans)

lemma in_order_drop: "subseq held held' \<Longrightarrow> in_order w held' \<Longrightarrow> in_order w held"
  unfolding in_order_def append_assoc [symmetric] by (metis append_assoc subseq_hand)

lemma pre_unlocked_in_order:
  assumes "in_order w held" "pre_unlocked now input swapped w = Some w1"
  shows "in_order w1 held"
proof (cases "pw_at w")
  case AwaitInput
  have a: "subseq (pw_given w @ held @ data) (pw_taken w @ data)" for data
    using assms(1) AwaitInput list_emb_append_mono [OF _ subseq_order.refl [of data]]
    by (fastforce simp: in_order_def hand_out_def hand_in_def)
  show ?thesis using assms AwaitInput a a [of "[]"]
    by (auto simp: in_order_def pre_unlocked_def hand_out_def hand_in_def split: option.splits)
next
  case (InSwap out)
  have "subseq (pw_given w @ out @ held) (pw_taken w)" using assms(1) InSwap by (simp add: in_order_def hand_out_def hand_in_def)
  moreover from this have "subseq (pw_given w @ held) (pw_taken w)" using subseq_hand [of "[]" out "pw_given w" held] by simp
  ultimately show ?thesis using assms(2) InSwap
    by (auto simp: in_order_def pre_unlocked_def hand_out_def hand_in_def split: if_splits)
qed (use assms in \<open>auto simp: in_order_def pre_unlocked_def hand_out_def hand_in_def\<close>)

text \<open>A step that changes no trace and takes nothing in hand may drop what is held, or move its front to the hand.\<close>

lemma in_order_same: "in_order w held \<Longrightarrow> pw_given w1 = pw_given w \<Longrightarrow> pw_taken w1 = pw_taken w \<Longrightarrow>
    hand_out w1 @ held1 @ hand_in w1 = hand_out w @ held @ hand_in w \<Longrightarrow> in_order w1 held1"
  by (simp add: in_order_def)

lemma q_work_in_order:
  assumes "in_order w (q_samples q)" "q_work now input swapped (w, q) = Some (w1, q1)"
  shows "in_order w1 (q_samples q1)"
proof (cases "pw_at w")
  case FirstLock
  then show ?thesis using assms(2)
    by (intro in_order_same [OF assms(1)]) (auto simp: q_work_def Let_def hand_out_def hand_in_def split: if_splits)
next
  case BypassLock
  then show ?thesis using assms(2)
    by (intro in_order_same [OF assms(1)]) (auto simp: q_work_def Let_def hand_out_def hand_in_def split: if_splits)
next
  case (PushLock data)
  then have "subseq (pw_given w @ q_samples q @ data) (pw_taken w)" using assms(1) by (simp add: in_order_def hand_out_def hand_in_def)
  then have "subseq (pw_given w @ lastn (q_max q) (q_samples q @ data)) (pw_taken w)"
    using subseq_hand [OF subseq_lastn, of "pw_given w" "q_samples q @ data" "[]"] by simp
  then show ?thesis using assms(2) PushLock by (auto simp: q_work_def Let_def q_push_def in_order_def hand_out_def hand_in_def)
next
  case (SliceLock sl)
  have k: "drop (min sl STREAM_BUFFER_SIZE) (q_samples q) = q_samples q" if "min (length (q_samples q)) (min sl STREAM_BUFFER_SIZE) = 0"
    using that by (auto simp: min_def split: if_splits)
  show ?thesis using assms(2) SliceLock k
    by (intro in_order_same [OF assms(1)]) (auto simp: q_work_def Let_def hand_out_def hand_in_def split: if_splits)
qed (use assms pre_unlocked_in_order [OF assms(1), of now input swapped] in \<open>auto simp: q_work_def Let_def\<close>)

lemma q_step_in_order:
  assumes "in_order w (q_samples q)" "q_step l (w, q) = Some (w1, q1)"
  shows "in_order w1 (q_samples q1)"
proof (cases l)
  case (Work now input swapped)
  then show ?thesis using q_work_in_order [OF assms(1)] assms(2) by simp
next
  case (SetPrebufferMsec msec)
  then show ?thesis using assms in_order_drop [OF subseq_lastn] by (auto simp: Let_def)
next
  case (StartWorker now)
  then show ?thesis using assms by (auto simp: started_def in_order_def hand_out_def hand_in_def split: if_splits)
next
  case RequestStop
  then show ?thesis using assms by (auto simp: in_order_def hand_out_def hand_in_def)
next
  case FinishStop
  have "in_order w []" by (rule in_order_drop [OF list_emb_Nil assms(1)])
  then show ?thesis using FinishStop assms(2) by (auto simp: joined_def q_clear_def in_order_def hand_out_def hand_in_def split: if_splits)
next
  case (SetSampleRate sr)
  have "in_order w []" by (rule in_order_drop [OF list_emb_Nil assms(1)])
  then show ?thesis using SetSampleRate assms(2) by (auto simp: q_clear_def)
next
  case ClearPrebuffer
  have "in_order w []" by (rule in_order_drop [OF list_emb_Nil assms(1)])
  then show ?thesis using ClearPrebuffer assms(2) by (auto simp: q_clear_def)
qed

lemma q_steps_in_order:
  "in_order w (q_samples q) \<Longrightarrow> q_steps ls (w, q) = Some (w1, q1) \<Longrightarrow> in_order w1 (q_samples q1)"
proof (induction ls arbitrary: w q)
  case (Cons l ls)
  from Cons.prems(2) obtain w2 q2 where "q_step l (w, q) = Some (w2, q2)" "q_steps ls (w2, q2) = Some (w1, q1)"
    by (auto simp: bind_eq_Some_conv)
  then show ?case using Cons.IH q_step_in_order [OF Cons.prems(1)] by blast
qed simp

section \<open>Properties\<close>

text \<open>
  C16: The prebuffer is a bounded queue. For every sequence of steps of the worker, taken lock by lock, with
  calls that change the settings, clear the buffer, stop and start the worker wherever they may come between
  them: the same steps are possible on the specification, a list from whose front the due samples are taken and
  which, when it gets longer than the maximum, loses its oldest samples; they take the worker to the same place,
  the same next tick and the same samples handed over, and the ring holds the samples of the list, never more
  than the maximum. The samples handed over, those in hand and those held are samples that were read, in the
  order in which they were read, none of them twice.
\<close>

theorem prebuffer_refines_queue:
  "map_option (\<lambda>(w, b). (w, pb_abs b)) (pre_steps ls (pre_start, pb_init)) = q_steps ls (pre_start, q_init) \<and>
   (case pre_steps ls (pre_start, pb_init) of
      None \<Rightarrow> True
    | Some (w, b) \<Rightarrow> length (pb_contents b) \<le> maxBufferedSamples (pb_msec b) (pb_rate b) \<and>
        subseq (pw_given w @ hand_out w @ pb_contents b @ hand_in w) (pw_taken w))"
proof -
  have a: "pb_abs pb_init = q_init" by (simp add: pb_abs_def q_init_def pb_init_def pb_contents_def)
  have s: "same_step (pre_steps ls (pre_start, pb_init)) (q_steps ls (pre_start, q_init))"
    using steps_same [OF pb_ok_init, of ls pre_start] by (simp only: a)
  have i: "in_order pre_start (q_samples q_init)" by (simp add: in_order_def pre_start_def hand_out_def hand_in_def q_init_def)
  show ?thesis
  proof (cases "pre_steps ls (pre_start, pb_init)")
    case None
    then show ?thesis using s by (simp add: same_step_def)
  next
    case (Some r)
    obtain w b where r: "r = (w, b)" by fastforce
    have q: "q_steps ls (pre_start, q_init) = Some (w, pb_abs b)" "pb_ok b" using s Some r by (simp_all add: same_step_def)
    from q_steps_in_order [OF i q(1)] show ?thesis
      using q Some r length_contents [of b] by (simp add: pb_ok_def pb_max_def in_order_def)
  qed
qed

text \<open>A run of the prebuffer: two samples arrive while nothing is to be buffered, and are handed on.\<close>

lemma prebuffer_passes_on:
  defines "run \<equiv> [SetPrebufferMsec 0, SetSampleRate 100, StartWorker 0, Work 0 None False, Work 0 None False, Work 0 None False,
     Work 0 (Some [1, 2]) False, Work 0 None False, Work 0 None False, Work 0 None False, Work 0 None False, Work 0 None True]"
  shows "\<exists>w b. pre_steps run (pre_start, pb_init :: int prebuffer) = Some (w, b) \<and> pw_given w = [1, 2] \<and> pb_contents b = []"
proof -
  have "\<exists>w q. q_steps run (pre_start, q_init) = Some (w, q) \<and> pw_given w = [1, 2] \<and> q_samples q = []"
    by (simp add: run_def q_init_def pre_start_def started_def q_work_def pre_unlocked_def q_push_def q_clear_def q_max_def lastn_def
        maxBufferedSamples_def targetSamples_def STREAM_BUFFER_SIZE_def)
  then obtain w q where q: "q_steps run (pre_start, pb_abs pb_init) = Some (w, q)" "pw_given w = [1, 2]" "q_samples q = []"
    by (auto simp: pb_abs_def q_init_def pb_init_def pb_contents_def)
  then obtain b where "pre_steps run (pre_start, pb_init) = Some (w, b)" "q = pb_abs b"
    using steps_same [OF pb_ok_init, of run pre_start] by (cases "pre_steps run (pre_start, pb_init :: int prebuffer)") (auto simp: same_step_def)
  then show ?thesis using q by auto
qed

end
