(* ===== verification/DspWindow.thy ===== *)
theory DspWindow
  imports DspProcessor
begin

text \<open>
  The processors with a work buffer. FIR, decimating FIR, polyphase resampler, the clock recovery blocks and
  the delay keep the last samples of a block at the start of their work buffer, copy the new block behind
  them, and slide a window over the buffer; the loop stops at the end of the block, and what is left of the
  position is counted from the start of the next one. The windows and the loop are shared here; the blocks are
  in the theories that follow.

  The dot products of VOLK are a parameter.
\<close>

section \<open>Windows\<close>

definition samples_at :: "nat \<Rightarrow> 'd list \<Rightarrow> nat \<Rightarrow> 'd list" where
  "samples_at n buf i = take n (drop i buf)"

lemma window_append_left: "i + n \<le> length buf \<Longrightarrow> samples_at n (buf @ ys) i = samples_at n buf i"
  by (simp add: samples_at_def)

lemma window_append_right: "m \<le> i \<Longrightarrow> m \<le> length buf \<Longrightarrow> samples_at n (buf @ ys) i = samples_at n (drop m buf @ ys) (i - m)"
  by (simp add: samples_at_def)

lemma length_window: "i + n \<le> length buf \<Longrightarrow> length (samples_at n buf i) = n"
  by (simp add: samples_at_def)

lemma nth_window: "k < n \<Longrightarrow> i + n \<le> length buf \<Longrightarrow> samples_at n buf i ! k = buf ! (i + k)"
  by (simp add: samples_at_def)

lemma drop_work_buffer: "drop (length (xs @ ys)) (hist @ xs @ ys) = drop (length ys) (drop (length xs) (hist @ xs) @ ys)"
proof -
  have "drop (length xs) (hist @ xs) @ ys = drop (length xs) ((hist @ xs) @ ys)" by (subst drop_append [of _ "hist @ xs"]) simp
  then show ?thesis by (simp add: add.commute del: drop_append)
qed

section \<open>The loop\<close>

text \<open>
  \<open>wlen c\<close> samples from position \<open>off\<close> on are given to \<open>emit\<close>, which returns a sample, how far the position
  advances, and the new control state. The loop does not return if the position stays where it is for ever.
\<close>

partial_function (option) window_loop ::
    "('c \<Rightarrow> nat) \<Rightarrow> ('d list \<Rightarrow> 'c \<Rightarrow> 'b \<times> nat \<times> 'c) \<Rightarrow> nat \<Rightarrow> 'd list \<Rightarrow> nat \<Rightarrow> 'c \<Rightarrow> ('b list \<times> nat \<times> 'c) option" where
  "window_loop wlen emit count buf off c =
     (if off < count then
        let (b, adv, c') = emit (samples_at (wlen c) buf off) c
        in Option.bind (window_loop wlen emit count buf (off + adv) c') (\<lambda>(bs, off', c''). Some (b # bs, off', c''))
      else Some ([], off, c))"

text \<open>One call of \<open>process\<close>: the state is the start of the work buffer, the position and the control state.\<close>

definition window_process ::
    "('c \<Rightarrow> nat) \<Rightarrow> ('d list \<Rightarrow> 'c \<Rightarrow> 'b \<times> nat \<times> 'c) \<Rightarrow> 'd list \<times> nat \<times> 'c \<Rightarrow> 'd list \<Rightarrow> (('d list \<times> nat \<times> 'c) \<times> 'b list) option" where
  "window_process wlen emit s xs =
     (case s of (hist, off, c) \<Rightarrow>
        let buf = hist @ xs
        in case window_loop wlen emit (length xs) buf off c of
             None \<Rightarrow> None
           | Some (bs, off', c') \<Rightarrow> Some ((samples_at (wlen c - 1) buf (length xs), off' - length xs, c'), bs))"

text \<open>
  Blocks of this form. \<open>inv\<close> is what their settings must satisfy; if the position does not advance, \<open>rest\<close>
  gets smaller, so that it advances in the end.
\<close>

locale window_block =
  fixes wlen :: "'c \<Rightarrow> nat" and emit :: "'d list \<Rightarrow> 'c \<Rightarrow> 'b \<times> nat \<times> 'c" and inv :: "'c \<Rightarrow> bool" and rest :: "'c \<Rightarrow> nat"
  assumes emit_inv: "inv c \<Longrightarrow> emit w c = (b, adv, c') \<Longrightarrow> inv c' \<and> wlen c' = wlen c"
    and emit_progress: "inv c \<Longrightarrow> emit w c = (b, 0, c') \<Longrightarrow> rest c' < rest c"
    and wlen_pos: "inv c \<Longrightarrow> 0 < wlen c"
begin

lemma loop_induct [consumes 1, case_names loop]:
  assumes "inv c" "\<And>off c. inv c \<Longrightarrow> (\<And>w b adv c'. off < count \<Longrightarrow> emit w c = (b, adv, c') \<Longrightarrow> P (off + adv) c') \<Longrightarrow> P off c"
  shows "P off c"
  using assms(1)
proof (induction "(off, c)" arbitrary: off c rule: wf_induct_rule [OF wf_measures, of "[\<lambda>(off, c). count - off, \<lambda>(off, c). rest c]"])
  case less: 1
  show ?case
  proof (rule assms(2) [OF less.prems])
    fix w b adv c' assume e: "off < count" "emit w c = (b, adv, c')"
    then have "((off + adv, c'), (off, c)) \<in> measures [\<lambda>(off, c). count - off, \<lambda>(off, c). rest c]"
      using emit_progress [OF less.prems, of w b c'] by (cases adv) auto
    then show "P (off + adv) c'" using less.hyps emit_inv [OF less.prems e(2)] by blast
  qed
qed

text \<open>The loop returns, at a position outside the block.\<close>

lemma loop_returns: "inv c \<Longrightarrow> \<exists>bs off' c'. window_loop wlen emit count buf off c = Some (bs, off', c') \<and>
    inv c' \<and> wlen c' = wlen c \<and> count \<le> off' \<and> off \<le> off'"
proof (induction off c rule: loop_induct [where count = count])
  case (loop off c)
  show ?case
  proof (cases "off < count")
    case True
    obtain b adv c1 where e: "emit (samples_at (wlen c) buf off) c = (b, adv, c1)" by (metis prod_cases3)
    then show ?thesis using loop(2) [OF True e] emit_inv [OF loop(1) e] True
      by (fastforce simp: window_loop.simps [of _ _ _ _ off])
  next
    case False
    then show ?thesis using loop(1) by (simp add: window_loop.simps)
  qed
qed

lemma loop_shift:
  assumes "inv c" "m \<le> length buf" "m \<le> off"
  shows "window_loop wlen emit (m + k) (buf @ ys) off c =
    (case window_loop wlen emit k (drop m buf @ ys) (off - m) c of None \<Rightarrow> None | Some (bs, off', c') \<Rightarrow> Some (bs, off' + m, c'))"
  using assms(1,3)
proof (induction off c rule: loop_induct [where count = "m + k"])
  case (loop off c)
  show ?case
  proof (cases "off < m + k")
    case True
    obtain b adv c1 where e: "emit (samples_at (wlen c) (buf @ ys) off) c = (b, adv, c1)" by (metis prod_cases3)
    have w: "samples_at (wlen c) (buf @ ys) off = samples_at (wlen c) (drop m buf @ ys) (off - m)"
      by (rule window_append_right [OF loop(3) assms(2)])
    have "off - m < k" "off + adv - m = off - m + adv" using True loop(3) by simp_all
    then show ?thesis
      using loop(2) [OF True e] loop(3) True e w
      by (simp add: window_loop.simps [of _ _ _ _ off] window_loop.simps [of _ _ k _ "off - m"] split: option.splits prod.splits)
  next
    case False
    then have "\<not> off - m < k" using loop(3) by simp
    then show ?thesis using False loop(3) by (simp add: window_loop.simps [of _ _ _ _ off] window_loop.simps [of _ _ k _ "off - m"])
  qed
qed

text \<open>A loop over two blocks is a loop over the first and one over the second.\<close>

lemma loop_append:
  assumes "inv c" "length buf + 1 = m + wlen c"
    and "window_loop wlen emit m buf off c = Some (bs, off1, c1)"
    and "window_loop wlen emit k (drop m buf @ ys) (off1 - m) c1 = Some (cs, off2, c2)"
  shows "window_loop wlen emit (m + k) (buf @ ys) off c = Some (bs @ cs, off2 + m, c2)"
  using assms(1-3)
proof (induction off c arbitrary: bs rule: loop_induct [where count = m])
  case (loop off c)
  have len: "m \<le> length buf" using loop(3) wlen_pos [OF loop(1)] by simp
  show ?case
  proof (cases "off < m")
    case True
    have w: "samples_at (wlen c) (buf @ ys) off = samples_at (wlen c) buf off"
      using True loop(3) by (intro window_append_left) simp
    obtain b adv c' where e: "emit (samples_at (wlen c) buf off) c = (b, adv, c')" by (metis prod_cases3)
    obtain bs' where bs': "window_loop wlen emit m buf (off + adv) c' = Some (bs', off1, c1)" "bs = b # bs'"
      using loop(4) True e by (auto simp: window_loop.simps [of _ _ _ _ off] Option.bind_eq_Some_conv)
    have "wlen c' = wlen c" using emit_inv [OF loop(1) e] by simp
    then have "window_loop wlen emit (m + k) (buf @ ys) (off + adv) c' = Some (bs' @ cs, off2 + m, c2)"
      using loop(2) [OF True e _ bs'(1)] loop(3) by simp
    then show ?thesis using True e w bs'(2) by (simp add: window_loop.simps [of _ _ _ _ off])
  next
    case False
    then have "bs = []" "off1 = off" "c1 = c" using loop(4) by (simp_all add: window_loop.simps [of _ _ _ _ off])
    then show ?thesis using loop_shift [OF loop(1) len, of off k ys] False assms(4) by simp
  qed
qed

text \<open>The state between two calls.\<close>

definition valid :: "'d list \<times> nat \<times> 'c \<Rightarrow> bool" where
  "valid s \<longleftrightarrow> (case s of (hist, off, c) \<Rightarrow> inv c \<and> length hist + 1 = wlen c)"

definition process :: "'d list \<times> nat \<times> 'c \<Rightarrow> 'd list \<Rightarrow> ('d list \<times> nat \<times> 'c) \<times> 'b list" where
  "process s xs = the (window_process wlen emit s xs)"

lemma process_returns:
  assumes "valid s"
  shows "window_process wlen emit s xs = Some (process s xs)"
proof -
  obtain hist off c where s: "s = (hist, off, c)" by (metis prod_cases3)
  then have "inv c" using assms by (simp add: valid_def)
  from loop_returns [OF this, of "length xs" "hist @ xs" off] show ?thesis
    unfolding process_def s by (auto simp: window_process_def Let_def)
qed

lemma process_eq:
  assumes "valid (hist, off, c)" "window_loop wlen emit (length xs) (hist @ xs) off c = Some (bs, off', c')"
  shows "process (hist, off, c) xs = ((drop (length xs) (hist @ xs), off' - length xs, c'), bs)"
  using assms by (auto simp: process_def window_process_def Let_def valid_def samples_at_def)

sublocale stream_processor process valid
proof
  fix s :: "'d list \<times> nat \<times> 'c" and xs assume v: "valid s"
  obtain hist off c where s: "s = (hist, off, c)" by (metis prod_cases3)
  then have "inv c" using v by (simp add: valid_def)
  from loop_returns [OF this, of "length xs" "hist @ xs" off]
  obtain bs off' c' where "window_loop wlen emit (length xs) (hist @ xs) off c = Some (bs, off', c')" "inv c'" "wlen c' = wlen c"
    by blast
  then show "valid (fst (process s xs))" using process_eq [of hist off c xs bs off' c'] v unfolding s
    by (auto simp: valid_def simp del: drop_append)
next
  fix s :: "'d list \<times> nat \<times> 'c" assume v: "valid s"
  obtain hist off c where s: "s = (hist, off, c)" by (metis prod_cases3)
  have "window_loop wlen emit (length []) (hist @ []) off c = Some ([], off, c)" by (simp add: window_loop.simps)
  then show "process s [] = (s, [])" using process_eq [of hist off c "[]"] v unfolding s by simp
next
  fix s :: "'d list \<times> nat \<times> 'c" and xs ys assume v: "valid s"
  obtain hist off c where s: "s = (hist, off, c)" by (metis prod_cases3)
  have i: "inv c" "length hist + 1 = wlen c" using v by (simp_all add: s valid_def)
  obtain bs off1 c1 where 1: "window_loop wlen emit (length xs) (hist @ xs) off c = Some (bs, off1, c1)" "inv c1" "wlen c1 = wlen c"
    "length xs \<le> off1" using loop_returns [OF i(1), of "length xs" "hist @ xs" off] by blast
  obtain cs off2 c2 where 2: "window_loop wlen emit (length ys) (drop (length xs) (hist @ xs) @ ys) (off1 - length xs) c1 = Some (cs, off2, c2)"
    using loop_returns [OF 1(2), of "length ys" _ "off1 - length xs"] by blast
  have "window_loop wlen emit (length (xs @ ys)) (hist @ xs @ ys) off c = Some (bs @ cs, off2 + length xs, c2)"
    using loop_append [OF i(1) _ 1(1) 2] i(2) by simp
  from process_eq [of hist off c "xs @ ys", OF _ this]
  have "process s (xs @ ys) = ((drop (length ys) (drop (length xs) (hist @ xs) @ ys), off2 - length ys, c2), bs @ cs)"
    using v unfolding s drop_work_buffer by simp
  moreover have "process s xs = ((drop (length xs) (hist @ xs), off1 - length xs, c1), bs)"
    using process_eq [of hist off c xs, OF _ 1(1)] v unfolding s by simp
  moreover have "process (drop (length xs) (hist @ xs), off1 - length xs, c1) ys =
      ((drop (length ys) (drop (length xs) (hist @ xs) @ ys), off2 - length ys, c2), cs)"
    by (rule process_eq [OF _ 2]) (use i(2) 1(2,3) in \<open>simp add: valid_def\<close>)
  ultimately show "process s (xs @ ys) = (let (s1, out1) = process s xs; (s2, out2) = process s1 ys in (s2, out1 @ out2))"
    by simp
qed

end

end
