(* ===== verification/DspFilter.thy ===== *)
theory DspFilter
  imports DspWindow
begin

text \<open>
  Filters: \<open>core/src/dsp/filter/fir.h\<close>, \<open>decimating_fir.h\<close> and the delay of \<open>math/delay.h\<close>. The dot product of
  VOLK is the parameter \<open>dot\<close>; where its value matters \<open>dot_ok\<close> says that it is the sum of the products.
  The work buffer is represented by its first \<open>taps - 1\<close> samples, the others are written before they are read.
\<close>

definition dot_ok :: "(real list \<Rightarrow> 'd::real_vector list \<Rightarrow> 'd) \<Rightarrow> bool" where
  "dot_ok dot \<longleftrightarrow> (\<forall>ts ws. length ts = length ws \<longrightarrow> dot ts ws = (\<Sum>k<length ts. (ts ! k) *\<^sub>R (ws ! k)))"

text \<open>An instance of the hypothesis.\<close>

definition sum_of_products :: "real list \<Rightarrow> 'd::real_vector list \<Rightarrow> 'd" where
  "sum_of_products ts ws = (\<Sum>k<length ts. (ts ! k) *\<^sub>R (ws ! k))"

lemma dot_ok_sum_of_products: "dot_ok sum_of_products"
  by (simp add: dot_ok_def sum_of_products_def)

lemma map_upt_append: "map f [0..<m + n] = map f [0..<m] @ map (\<lambda>i. f (m + i)) [0..<n]"
  by (rule nth_equalityI) (auto simp: nth_append)

text \<open>A frequency in radians per sample.\<close>

definition hzToRads :: "real \<Rightarrow> real \<Rightarrow> real" where
  "hzToRads freq samplerate = 2 * pi * (freq / samplerate)"

section \<open>FIR filter\<close>

record ('t, 'd) FIR =
  fir_taps :: "'t list"
  fir_buffer :: "'d list"

definition fir_init :: "'t list \<Rightarrow> ('t, 'd::zero) FIR" where
  "fir_init taps = \<lparr>fir_taps = taps, fir_buffer = replicate (length taps - 1) 0\<rparr>"

text \<open>\<open>setTaps\<close> moves the samples kept to where the new filter expects them.\<close>

definition fir_setTaps :: "'t list \<Rightarrow> ('t, 'd::zero) FIR \<Rightarrow> ('t, 'd) FIR" where
  "fir_setTaps taps f =
     (let oldTC = length (fir_taps f); newTC = length taps
      in f\<lparr>fir_taps := taps,
           fir_buffer :=
             (if newTC < oldTC then take (newTC - 1) (drop (oldTC - newTC) (fir_buffer f))
              else if newTC > oldTC then replicate (newTC - oldTC) 0 @ take (oldTC - 1) (fir_buffer f)
              else fir_buffer f)\<rparr>)"

definition fir_reset :: "('t, 'd::zero) FIR \<Rightarrow> ('t, 'd) FIR" where
  "fir_reset f = f\<lparr>fir_buffer := replicate (length (fir_taps f) - 1) 0\<rparr>"

definition fir_process :: "('t list \<Rightarrow> 'd list \<Rightarrow> 'd) \<Rightarrow> ('t, 'd) FIR \<Rightarrow> 'd list \<Rightarrow> ('t, 'd) FIR \<times> 'd list" where
  "fir_process dot f xs =
     (let buffer = fir_buffer f @ xs; n = length (fir_taps f)
      in (f\<lparr>fir_buffer := samples_at (n - 1) buffer (length xs)\<rparr>,
          map (\<lambda>i. dot (fir_taps f) (samples_at n buffer i)) [0..<length xs]))"

definition fir_valid :: "('t, 'd) FIR \<Rightarrow> bool" where
  "fir_valid f \<longleftrightarrow> length (fir_buffer f) + 1 = length (fir_taps f)"

lemma fir_valid_init: "taps \<noteq> [] \<Longrightarrow> fir_valid (fir_init taps)"
  by (simp add: fir_valid_def fir_init_def)

lemma fir_valid_setTaps: "fir_valid f \<Longrightarrow> taps \<noteq> [] \<Longrightarrow> fir_valid (fir_setTaps taps f)"
  by (cases taps) (auto simp: fir_valid_def fir_setTaps_def Let_def)

lemma fir_valid_reset: "fir_valid f \<Longrightarrow> fir_valid (fir_reset f)"
  by (auto simp: fir_valid_def fir_reset_def)

lemma fir_process_buffer:
  "fir_valid f \<Longrightarrow> fst (fir_process dot f xs) = f\<lparr>fir_buffer := drop (length xs) (fir_buffer f @ xs)\<rparr>"
proof -
  assume "fir_valid f"
  then have "length (drop (length xs) (fir_buffer f @ xs)) = length (fir_taps f) - 1" by (simp add: fir_valid_def del: drop_append)
  then show ?thesis by (simp add: fir_process_def Let_def samples_at_def del: drop_append)
qed

lemma fir_outputs_append:
  assumes "length hist + 1 = length taps"
  shows "map (\<lambda>i. dot taps (samples_at (length taps) (hist @ xs @ ys) i)) [0..<length (xs @ ys)] =
    map (\<lambda>i. dot taps (samples_at (length taps) (hist @ xs) i)) [0..<length xs] @
    map (\<lambda>i. dot taps (samples_at (length taps) (drop (length xs) (hist @ xs) @ ys) i)) [0..<length ys]"
    (is "map ?f _ = map ?g _ @ map ?h _")
proof -
  have "samples_at (length taps) ((hist @ xs) @ ys) i = samples_at (length taps) (hist @ xs) i" if "i < length xs" for i
    using that assms by (intro window_append_left) simp
  then have g: "map ?f [0..<length xs] = map ?g [0..<length xs]" by simp
  have "samples_at (length taps) ((hist @ xs) @ ys) (length xs + i) = samples_at (length taps) (drop (length xs) (hist @ xs) @ ys) i" for i
    using window_append_right [of "length xs" "length xs + i" "hist @ xs" "length taps" ys] by (simp only: length_append diff_add_inverse le_add1 le_add2)
  then have "map (\<lambda>i. ?f (length xs + i)) [0..<length ys] = map ?h [0..<length ys]" by simp
  then show ?thesis using g by (simp only: length_append map_upt_append)
qed

interpretation fir: stream_processor "fir_process dot" fir_valid for dot :: "'t list \<Rightarrow> 'd list \<Rightarrow> 'd"
proof
  fix f :: "('t, 'd) FIR" and xs :: "'d list" assume "fir_valid f"
  then show "fir_valid (fst (fir_process dot f xs))" by (simp add: fir_process_buffer) (simp add: fir_valid_def)
next
  fix f :: "('t, 'd) FIR" assume "fir_valid f"
  then show "fir_process dot f [] = (f, [])" by (auto simp: fir_process_def fir_valid_def Let_def samples_at_def)
next
  fix f :: "('t, 'd) FIR" and xs ys :: "'d list" assume v: "fir_valid f"
  let ?g = "f\<lparr>fir_buffer := drop (length xs) (fir_buffer f @ xs)\<rparr>"
  have g: "fir_valid ?g" using v by (simp add: fir_valid_def del: drop_append)
  have p: "fir_process dot f zs = (f\<lparr>fir_buffer := drop (length zs) (fir_buffer f @ zs)\<rparr>,
      map (\<lambda>i. dot (fir_taps f) (samples_at (length (fir_taps f)) (fir_buffer f @ zs) i)) [0..<length zs])" if "fir_valid f" for f :: "('t, 'd) FIR" and zs
    using fir_process_buffer [OF that, of dot zs] by (simp add: fir_process_def Let_def)
  show "fir_process dot f (xs @ ys) = (let (s1, out1) = fir_process dot f xs; (s2, out2) = fir_process dot s1 ys in (s2, out1 @ out2))"
    unfolding p [OF v] Let_def prod.case p [OF g]
    using fir_outputs_append [of "fir_buffer f" "fir_taps f" dot xs ys] v drop_work_buffer [of xs ys "fir_buffer f"]
    by (simp add: fir_valid_def)
qed

text \<open>The sample at a position of a stream that begins at 0 and was silent before.\<close>

definition sample :: "'d::zero list \<Rightarrow> int \<Rightarrow> 'd" where
  "sample xs i = (if 0 \<le> i \<and> i < int (length xs) then xs ! nat i else 0)"

lemma silent_start: "i < m + length xs \<Longrightarrow> (replicate m 0 @ xs) ! i = sample xs (int i - int m)"
  by (auto simp: sample_def nth_append nat_diff_distrib)

text \<open>What a FIR filter puts out: its taps over the samples up to the current one.\<close>

definition convolution :: "real list \<Rightarrow> 'd::real_vector list \<Rightarrow> nat \<Rightarrow> 'd" where
  "convolution taps xs i = (\<Sum>k<length taps. (taps ! k) *\<^sub>R sample xs (int i + int k - int (length taps - 1)))"

lemma window_convolution:
  assumes "dot_ok dot" "taps \<noteq> []" "i < length xs"
  shows "dot taps (samples_at (length taps) (replicate (length taps - 1) 0 @ xs) i) = convolution taps xs i"
proof -
  let ?b = "replicate (length taps - 1) 0 @ xs" and ?n = "length taps"
  have fits: "i + ?n \<le> length ?b" using assms(2,3) by (cases taps) simp_all
  have "samples_at ?n ?b i ! k = sample xs (int i + int k - int (?n - 1))" if "k < ?n" for k
    using that fits by (simp add: nth_window silent_start)
  then show ?thesis using assms(1) length_window [OF fits] by (simp add: dot_ok_def convolution_def)
qed

lemma fir_process_convolution:
  "dot_ok dot \<Longrightarrow> taps \<noteq> [] \<Longrightarrow> snd (fir_process dot (fir_init taps) xs) = map (convolution taps xs) [0..<length xs]"
  unfolding fir_process_def fir_init_def Let_def FIR.select_convs snd_conv
  by (rule map_cong [OF refl]) (rule window_convolution, simp_all)

text \<open>
  \<open>setTaps\<close> is seamless: the new filter goes on as if it had been there from the start, unless it is longer
  and needs samples the old one no longer had.
\<close>

lemma setTaps_seamless:
  assumes "old \<noteq> []" "new \<noteq> []" "length new \<le> length old \<or> length xs < length old"
  shows "fir_setTaps new (fst (fir_process dot (fir_init old) xs)) = fst (fir_process dot' (fir_init new) xs)"
proof -
  let ?h = "\<lambda>t. drop (length xs) (replicate (length t - 1) 0 @ xs)"
  have p: "fst (fir_process d (fir_init t) xs) = \<lparr>fir_taps = t, fir_buffer = ?h t\<rparr>" if "t \<noteq> []" for d and t :: "'a list"
    using fir_process_buffer [OF fir_valid_init [OF that]] by (simp add: fir_init_def del: drop_append)
  have len: "length old \<ge> 1" "length new \<ge> 1" using assms(1,2) by (cases old; simp; cases new; simp)+
  have "take (length new - 1) (drop (length old - length new) (?h old)) = ?h new" if "length new < length old"
  proof -
    have "replicate (length old - 1) 0 @ xs = replicate (length old - length new) 0 @ replicate (length new - 1) (0 :: 'b) @ xs"
      using that len by (simp flip: replicate_add append_assoc)
    then have d: "drop (length old - length new) (replicate (length old - 1) 0 @ xs) = replicate (length new - 1) (0 :: 'b) @ xs"
      by (metis append_eq_conv_conj length_replicate)
    have "drop (length old - length new) (?h old) = drop (length xs) (drop (length old - length new) (replicate (length old - 1) 0 @ xs))"
      by (simp only: drop_drop add.commute)
    then have "drop (length old - length new) (?h old) = ?h new" unfolding d .
    then show ?thesis by simp
  qed
  moreover have "replicate (length new - length old) 0 @ take (length old - 1) (?h old) = ?h new" if "length old < length new"
    using that assms(3) len by (simp flip: replicate_add append_assoc)
  ultimately have "(if length new < length old then take (length new - 1) (drop (length old - length new) (?h old))
      else if length new > length old then replicate (length new - length old) 0 @ take (length old - 1) (?h old) else ?h old) = ?h new"
    by (cases "length new" "length old" rule: linorder_cases) simp_all
  then show ?thesis unfolding p [OF assms(1)] p [OF assms(2)]
    by (simp only: fir_setTaps_def Let_def FIR.select_convs FIR.update_convs)
qed

end
