(* ===== verification/DspRates.thy ===== *)
theory DspRates
  imports DspFilter
begin

text \<open>
  Changing the sample rate: the decimating FIR (\<open>core/src/dsp/filter/decimating_fir.h\<close>), the polyphase bank and
  resampler (\<open>multirate/polyphase_bank.h\<close>, \<open>polyphase_resampler.h\<close>).
\<close>

section \<open>Every so many samples\<close>

definition num_ticks :: "nat \<Rightarrow> nat \<Rightarrow> nat \<Rightarrow> nat" where
  "num_ticks off count dec = (if off < count then (count - off - 1) div dec + 1 else 0)"

lemma num_ticks_step: "off < count \<Longrightarrow> 0 < dec \<Longrightarrow> num_ticks off count dec = Suc (num_ticks (off + dec) count dec)"
  by (auto simp: num_ticks_def le_div_geq)

lemma num_ticks_ceiling: "0 < dec \<Longrightarrow> num_ticks 0 count dec = (count + dec - 1) div dec"
proof (cases "count = 0")
  case False
  assume "0 < dec"
  then have "(count - 1 + dec) div dec = (count - 1) div dec + 1" by simp
  moreover have "count - 1 + dec = count + dec - 1" using False by simp
  ultimately show ?thesis using False by (simp add: num_ticks_def)
qed (simp add: num_ticks_def)

lemma tick_before: "k < num_ticks off count dec \<Longrightarrow> 0 < dec \<Longrightarrow> off + k * dec < count"
proof -
  assume k: "k < num_ticks off count dec" and d: "0 < dec"
  then have "off < count" "k \<le> (count - off - 1) div dec" by (auto simp: num_ticks_def split: if_splits)
  then have "k * dec \<le> count - off - 1" using d by (simp add: less_eq_div_iff_mult_less_eq)
  then show ?thesis using \<open>off < count\<close> by simp
qed

lemma map_ticks_Suc: "map f [0..<Suc n] = f 0 # map (\<lambda>k. f (Suc k)) [0..<n]"
  by (simp add: upt_conv_Cons map_Suc_upt [symmetric] del: upt_Suc map_Suc_upt)

section \<open>Decimating FIR\<close>

text \<open>The control state is the taps and the decimation.\<close>

type_synonym ('t, 'd) DecimatingFIR = "'d list \<times> nat \<times> 't list \<times> nat"

definition decim_emit :: "('t list \<Rightarrow> 'd list \<Rightarrow> 'd) \<Rightarrow> 'd list \<Rightarrow> 't list \<times> nat \<Rightarrow> 'd \<times> nat \<times> 't list \<times> nat" where
  "decim_emit dot w c = (dot (fst c) w, snd c, c)"

definition decim_process :: "('t list \<Rightarrow> 'd list \<Rightarrow> 'd) \<Rightarrow> ('t, 'd) DecimatingFIR \<Rightarrow> 'd list \<Rightarrow> (('t, 'd) DecimatingFIR \<times> 'd list) option" where
  "decim_process dot = window_process (\<lambda>c. length (fst c)) (decim_emit dot)"

definition decim_init :: "'t list \<Rightarrow> nat \<Rightarrow> ('t, 'd::zero) DecimatingFIR" where
  "decim_init taps decimation = (replicate (length taps - 1) 0, 0, taps, decimation)"

definition decim_setTaps :: "'t list \<Rightarrow> ('t, 'd::zero) DecimatingFIR \<Rightarrow> ('t, 'd) DecimatingFIR" where
  "decim_setTaps taps s =
     (case s of (hist, off, old, dec) \<Rightarrow> (fir_buffer (fir_setTaps taps \<lparr>fir_taps = old, fir_buffer = hist\<rparr>), 0, taps, dec))"

definition decim_setDecimation :: "nat \<Rightarrow> ('t, 'd) DecimatingFIR \<Rightarrow> ('t, 'd) DecimatingFIR" where
  "decim_setDecimation decimation s = (case s of (hist, off, taps, _) \<Rightarrow> (hist, 0, taps, decimation))"

definition decim_reset :: "('t, 'd::zero) DecimatingFIR \<Rightarrow> ('t, 'd) DecimatingFIR" where
  "decim_reset s = (case s of (hist, off, taps, dec) \<Rightarrow> (replicate (length taps - 1) 0, 0, taps, dec))"

definition decim_ok :: "'t list \<times> nat \<Rightarrow> bool" where
  "decim_ok c \<longleftrightarrow> fst c \<noteq> [] \<and> 0 < snd c"

interpretation decim: window_block "\<lambda>c. length (fst c)" "decim_emit dot" decim_ok "\<lambda>_. 0" for dot :: "'t list \<Rightarrow> 'd list \<Rightarrow> 'd"
  by unfold_locales (auto simp: decim_emit_def decim_ok_def)

lemma decim_valid_init: "taps \<noteq> [] \<Longrightarrow> 0 < dec \<Longrightarrow> decim.valid (decim_init taps dec)"
  by (simp add: decim.valid_def decim_init_def decim_ok_def)

lemma decim_valid_setTaps: "decim.valid s \<Longrightarrow> taps \<noteq> [] \<Longrightarrow> decim.valid (decim_setTaps taps s)"
proof -
  assume v: "decim.valid s" and t: "taps \<noteq> []"
  obtain hist off old dec where s: "s = (hist, off, old, dec)" by (metis prod_cases4)
  have "fir_valid \<lparr>fir_taps = old, fir_buffer = hist\<rparr>" using v by (simp add: s decim.valid_def fir_valid_def)
  from fir_valid_setTaps [OF this t] show ?thesis
    using v t by (simp add: s decim.valid_def decim_setTaps_def decim_ok_def fir_valid_def) (simp add: fir_setTaps_def Let_def)
qed

lemma decim_valid_setDecimation: "decim.valid s \<Longrightarrow> 0 < dec \<Longrightarrow> decim.valid (decim_setDecimation dec s)"
  by (cases s rule: prod_cases4) (simp add: decim.valid_def decim_setDecimation_def decim_ok_def)

lemma decim_valid_reset: "decim.valid s \<Longrightarrow> decim.valid (decim_reset s)"
  by (cases s rule: prod_cases4) (auto simp: decim.valid_def decim_reset_def decim_ok_def)

lemma decim_loop:
  assumes "decim_ok c"
  shows "\<exists>off'. window_loop (\<lambda>c. length (fst c)) (decim_emit dot) count buf off c =
    Some (map (\<lambda>k. dot (fst c) (samples_at (length (fst c)) buf (off + k * snd c))) [0..<num_ticks off count (snd c)], off', c)"
  using assms
proof (induction off c rule: decim.loop_induct [where count = count and dot = dot])
  case (loop off c)
  show ?case
  proof (cases "off < count")
    case True
    have d: "0 < snd c" using loop(1) by (simp add: decim_ok_def)
    obtain off' where "window_loop (\<lambda>c. length (fst c)) (decim_emit dot) count buf (off + snd c) c =
      Some (map (\<lambda>k. dot (fst c) (samples_at (length (fst c)) buf (off + snd c + k * snd c))) [0..<num_ticks (off + snd c) count (snd c)], off', c)"
      using loop(2) [OF True, of _ _ "snd c" c] by (metis decim_emit_def)
    then show ?thesis using True
      by (simp add: window_loop.simps [of _ _ _ _ off] decim_emit_def [of dot _ c] num_ticks_step [OF True d] map_ticks_Suc add.assoc del: upt_Suc)
  next
    case False
    then show ?thesis by (simp add: window_loop.simps [of _ _ _ _ off] num_ticks_def)
  qed
qed

text \<open>The decimating FIR puts out every \<open>decimation\<close>-th sample of the FIR with its taps.\<close>

lemma decim_outputs:
  fixes xs :: "'d::real_vector list"
  assumes "dot_ok dot" "taps \<noteq> []" "0 < dec"
  shows "snd (decim.process dot (decim_init taps dec) xs) = map (\<lambda>k. convolution taps xs (k * dec)) [0..<num_ticks 0 (length xs) dec]"
proof -
  have v: "decim.valid (decim_init taps dec :: (real, 'd) DecimatingFIR)" by (rule decim_valid_init [OF assms(2,3)])
  have ok: "decim_ok (taps, dec)" using assms(2,3) by (simp add: decim_ok_def)
  let ?b = "replicate (length taps - 1) 0 @ xs"
  obtain off' where l: "window_loop (\<lambda>c. length (fst c)) (decim_emit dot) (length xs) ?b 0 (taps, dec) =
      Some (map (\<lambda>k. dot taps (samples_at (length taps) ?b (k * dec))) [0..<num_ticks 0 (length xs) dec], off', (taps, dec))"
    using decim_loop [OF ok, of dot "length xs" ?b 0] by auto
  have "snd (decim.process dot (decim_init taps dec) xs) = map (\<lambda>k. dot taps (samples_at (length taps) ?b (k * dec))) [0..<num_ticks 0 (length xs) dec]"
    using decim.process_eq [OF _ l] v by (simp add: decim_init_def)
  also have "\<dots> = map (\<lambda>k. convolution taps xs (k * dec)) [0..<num_ticks 0 (length xs) dec]"
    by (rule map_cong [OF refl], rule window_convolution [OF assms(1,2)]) (use tick_before [of _ 0 "length xs" dec] assms(3) in simp)
  finally show ?thesis .
qed

section \<open>Polyphase bank\<close>

text \<open>\<open>buildPolyphaseBank\<close>: the phases are cleared and then filled by one loop over all places.\<close>

definition bank_width :: "nat \<Rightarrow> 't list \<Rightarrow> nat" where
  "bank_width phaseCount taps = (length taps + phaseCount - 1) div phaseCount"

definition bank_fill :: "nat \<Rightarrow> 't::zero list \<Rightarrow> nat \<Rightarrow> 't list list \<Rightarrow> 't list list" where
  "bank_fill phaseCount taps i bank =
     (let p = (phaseCount - 1) - i mod phaseCount
      in bank[p := (bank ! p)[i div phaseCount := (if i < length taps then taps ! i else 0)]])"

definition buildPolyphaseBank :: "nat \<Rightarrow> 't::zero list \<Rightarrow> 't list list" where
  "buildPolyphaseBank phaseCount taps =
     fold (bank_fill phaseCount taps) [0..<phaseCount * bank_width phaseCount taps]
       (replicate phaseCount (replicate (bank_width phaseCount taps) 0))"

text \<open>The tap at place \<open>k\<close> of phase \<open>p\<close>.\<close>

definition tap_index :: "nat \<Rightarrow> nat \<Rightarrow> nat \<Rightarrow> nat" where
  "tap_index L p k = k * L + (L - 1 - p)"

lemma tap_index_inverse:
  assumes "p < L"
  shows "tap_index L p k = m \<longleftrightarrow> p = L - 1 - m mod L \<and> k = m div L"
proof -
  define r where "r = L - 1 - p"
  then have r: "r < L" "L - 1 - p = r" "p = L - 1 - r" using assms by simp_all
  have "m mod L < L" using assms by simp
  show ?thesis
  proof
    assume "tap_index L p k = m"
    then have "m = k * L + r" unfolding tap_index_def r(2) by simp
    then show "p = L - 1 - m mod L \<and> k = m div L" using r by simp
  next
    assume "p = L - 1 - m mod L \<and> k = m div L"
    then have "k = m div L" "L - 1 - r = L - 1 - m mod L" using r(3) by (simp_all only:)
    moreover have "m mod L = r" using calculation(2) r(1) \<open>m mod L < L\<close> by linarith
    ultimately show "tap_index L p k = m" using div_mult_mod_eq [of m L] unfolding tap_index_def r(2) by simp
  qed
qed

definition bank_entry :: "nat \<Rightarrow> 't::zero list \<Rightarrow> nat \<Rightarrow> nat \<Rightarrow> nat \<Rightarrow> 't" where
  "bank_entry L taps m p k = (if tap_index L p k < m \<and> tap_index L p k < length taps then taps ! tap_index L p k else 0)"

lemma grid_update_other: "\<not> (p = q \<and> k = r) \<Longrightarrow> b[q := (b ! q)[r := v]] ! p ! k = b ! p ! k"
  by (cases "q < length b"; cases "p = q") (auto simp: list_update_beyond)

lemma bank_fill_entry:
  assumes "0 < L" "length b = L" "\<forall>p<L. length (b ! p) = w" "\<forall>p<L. \<forall>k<w. b ! p ! k = bank_entry L taps m p k" "p < L" "k < w"
  shows "bank_fill L taps m b ! p ! k = bank_entry L taps (Suc m) p k"
proof (cases "tap_index L p k = m")
  case True
  then have "p = L - 1 - m mod L" "k = m div L" using tap_index_inverse [OF assms(5), of k m] by simp_all
  moreover have "L - Suc (m mod L) < L" using assms(1) by simp
  ultimately show ?thesis using True assms(2,3,6) by (simp add: bank_fill_def bank_entry_def Let_def)
next
  case False
  have "bank_fill L taps m b ! p ! k = b ! p ! k"
    unfolding bank_fill_def Let_def using False tap_index_inverse [OF assms(5), of k m] by (intro grid_update_other) simp
  moreover have "tap_index L p k < Suc m \<longleftrightarrow> tap_index L p k < m" using False by auto
  ultimately show ?thesis using assms(4-6) by (simp add: bank_entry_def)
qed

lemma bank_fill_shape: "length (bank_fill L taps m b) = length b"
  "\<forall>p<length b. length (b ! p) = w \<Longrightarrow> p < length b \<Longrightarrow> length (bank_fill L taps m b ! p) = w"
proof -
  show "length (bank_fill L taps m b) = length b" by (simp add: bank_fill_def Let_def)
  have "length (b[q := (b ! q)[r := v]] ! p) = length (b ! p)" if "p < length b" for q r v
    using that by (cases "p = q") simp_all
  then show "\<forall>p<length b. length (b ! p) = w \<Longrightarrow> p < length b \<Longrightarrow> length (bank_fill L taps m b ! p) = w"
    by (simp add: bank_fill_def Let_def)
qed

lemma bank_filled:
  assumes "0 < L"
  shows "let b = fold (bank_fill L taps) [0..<m] (replicate L (replicate w 0)) in
    length b = L \<and> (\<forall>p<L. length (b ! p) = w) \<and> (\<forall>p<L. \<forall>k<w. b ! p ! k = bank_entry L taps m p k)"
proof (induction m)
  case 0
  then show ?case by (simp add: bank_entry_def)
next
  case (Suc m)
  let ?b = "fold (bank_fill L taps) [0..<m] (replicate L (replicate w 0))"
  have b: "length ?b = L" "\<forall>p<L. length (?b ! p) = w" "\<forall>p<L. \<forall>k<w. ?b ! p ! k = bank_entry L taps m p k"
    using Suc by (simp_all add: Let_def)
  then show ?case using bank_fill_entry [OF assms b] bank_fill_shape(1) [of L taps m ?b] bank_fill_shape(2) [of ?b w _ L taps m]
    by (simp add: Let_def)
qed

lemma bank_nth:
  assumes "p < L" "k < bank_width L taps"
  shows "buildPolyphaseBank L taps ! p ! k = (if tap_index L p k < length taps then taps ! tap_index L p k else 0)"
proof -
  have "tap_index L p k < (k + 1) * L" using assms(1) by (simp add: tap_index_def)
  also have "\<dots> \<le> bank_width L taps * L" using assms(2) by (intro mult_le_mono1) simp
  finally have "tap_index L p k < L * bank_width L taps" by (simp only: mult.commute)
  then show ?thesis
    using bank_filled [of L taps "L * bank_width L taps" "bank_width L taps"] assms by (simp add: buildPolyphaseBank_def bank_entry_def Let_def)
qed

lemma bank_shape: "0 < L \<Longrightarrow> length (buildPolyphaseBank L taps) = L \<and> (\<forall>p<L. length (buildPolyphaseBank L taps ! p) = bank_width L taps)"
  using bank_filled [of L taps "L * bank_width L taps" "bank_width L taps"] by (simp add: buildPolyphaseBank_def Let_def)

lemma bank_covers: "0 < L \<Longrightarrow> length taps \<le> bank_width L taps * L"
proof -
  assume "0 < L"
  have "length taps + L - 1 < bank_width L taps * L + L"
    using \<open>0 < L\<close> div_mult_mod_eq [of "length taps + L - 1" L] mod_less_divisor [of L "length taps + L - 1"]
    unfolding bank_width_def by linarith
  then show ?thesis using \<open>0 < L\<close> by simp
qed

lemma bank_width_pos: "0 < L \<Longrightarrow> taps \<noteq> [] \<Longrightarrow> 0 < bank_width L taps"
  using bank_covers [of L taps] by (cases "bank_width L taps") auto

end
