(* ===== verification/DspResampler.thy ===== *)
theory DspResampler
  imports DspRates
begin

text \<open>
  The polyphase resampler (\<open>core/src/dsp/multirate/polyphase_resampler.h\<close>) and what it computes: the FIR
  filter on the stream with zeros put between its samples, of whose output every \<open>decim\<close>-th sample is kept.
\<close>

section \<open>The resampler\<close>

record PolyphaseResampler =
  pp_phases :: "real list list"
  pp_width :: nat
  pp_interp :: nat
  pp_decim :: nat
  pp_phase :: nat

type_synonym 'd poly_state = "'d list \<times> nat \<times> PolyphaseResampler"

definition poly_init :: "nat \<Rightarrow> nat \<Rightarrow> real list \<Rightarrow> 'd::zero poly_state" where
  "poly_init interp decim taps =
     (replicate (bank_width interp taps - 1) 0, 0,
      \<lparr>pp_phases = buildPolyphaseBank interp taps, pp_width = bank_width interp taps, pp_interp = interp, pp_decim = decim, pp_phase = 0\<rparr>)"

text \<open>\<open>setRatio\<close> builds the bank anew and resets.\<close>

definition poly_setRatio :: "nat \<Rightarrow> nat \<Rightarrow> real list \<Rightarrow> 'd::zero poly_state \<Rightarrow> 'd poly_state" where
  "poly_setRatio interp decim taps s = poly_init interp decim taps"

definition poly_reset :: "'d::zero poly_state \<Rightarrow> 'd poly_state" where
  "poly_reset s = (case s of (hist, off, c) \<Rightarrow> (replicate (pp_width c - 1) 0, 0, c\<lparr>pp_phase := 0\<rparr>))"

definition poly_emit :: "(real list \<Rightarrow> 'd list \<Rightarrow> 'd) \<Rightarrow> 'd list \<Rightarrow> PolyphaseResampler \<Rightarrow> 'd \<times> nat \<times> PolyphaseResampler" where
  "poly_emit dot w c =
     (let ph = pp_phase c + pp_decim c
      in (dot (pp_phases c ! pp_phase c) w, ph div pp_interp c, c\<lparr>pp_phase := ph mod pp_interp c\<rparr>))"

definition poly_process :: "(real list \<Rightarrow> 'd list \<Rightarrow> 'd) \<Rightarrow> 'd poly_state \<Rightarrow> 'd list \<Rightarrow> ('d poly_state \<times> 'd list) option" where
  "poly_process dot = window_process pp_width (poly_emit dot)"

definition poly_ok :: "PolyphaseResampler \<Rightarrow> bool" where
  "poly_ok c \<longleftrightarrow> 0 < pp_width c \<and> 0 < pp_interp c \<and> 0 < pp_decim c \<and> pp_phase c < pp_interp c \<and> length (pp_phases c) = pp_interp c"

interpretation poly: window_block pp_width "poly_emit dot" poly_ok "\<lambda>c. pp_interp c - pp_phase c" for dot :: "real list \<Rightarrow> 'd list \<Rightarrow> 'd"
proof
  fix c w b c' assume "poly_ok c" "poly_emit dot w c = (b, 0, c')"
  then show "pp_interp c' - pp_phase c' < pp_interp c - pp_phase c"
    by (auto simp: poly_emit_def poly_ok_def Let_def div_eq_0_iff)
qed (auto simp: poly_emit_def poly_ok_def Let_def)

lemma poly_valid_init: "taps \<noteq> [] \<Longrightarrow> 0 < interp \<Longrightarrow> 0 < decim \<Longrightarrow> poly.valid (poly_init interp decim taps)"
  using bank_shape [of interp taps] bank_width_pos [of interp taps] by (simp add: poly.valid_def poly_init_def poly_ok_def)

lemma poly_valid_reset: "poly.valid s \<Longrightarrow> poly.valid (poly_reset s)"
  by (cases s rule: prod_cases3) (auto simp: poly.valid_def poly_reset_def poly_ok_def)

section \<open>What it puts out\<close>

text \<open>Time in steps of the interpolated stream.\<close>

definition poly_time :: "nat \<Rightarrow> PolyphaseResampler \<Rightarrow> nat" where
  "poly_time off c = off * pp_interp c + pp_phase c"

definition poly_sample :: "(real list \<Rightarrow> 'd list \<Rightarrow> 'd) \<Rightarrow> PolyphaseResampler \<Rightarrow> 'd list \<Rightarrow> nat \<Rightarrow> 'd" where
  "poly_sample dot c buf t = dot (pp_phases c ! (t mod pp_interp c)) (samples_at (pp_width c) buf (t div pp_interp c))"

lemma poly_time_split: "pp_phase c < pp_interp c \<Longrightarrow> poly_time off c mod pp_interp c = pp_phase c \<and> poly_time off c div pp_interp c = off"
  by (simp add: poly_time_def)

lemma poly_sample_phase: "poly_sample dot (c\<lparr>pp_phase := q\<rparr>) buf t = poly_sample dot c buf t"
  by (simp add: poly_sample_def)

lemma poly_time_step:
  assumes "poly_ok c"
  shows "poly_time (off + (pp_phase c + pp_decim c) div pp_interp c) (c\<lparr>pp_phase := (pp_phase c + pp_decim c) mod pp_interp c\<rparr>) =
    poly_time off c + pp_decim c"
  by (simp add: poly_time_def algebra_simps)

lemma poly_before:
  assumes "poly_ok c"
  shows "off < count \<longleftrightarrow> poly_time off c < count * pp_interp c"
proof
  assume "off < count"
  then have "Suc off * pp_interp c \<le> count * pp_interp c" by (intro mult_le_mono1) simp
  then show "poly_time off c < count * pp_interp c" using assms by (simp add: poly_time_def poly_ok_def)
next
  assume "poly_time off c < count * pp_interp c"
  then have "off * pp_interp c < count * pp_interp c" unfolding poly_time_def by (rule le_less_trans [OF le_add1])
  then show "off < count" by (rule mult_less_cancel2 [THEN iffD1, THEN conjunct2])
qed

lemma poly_loop:
  assumes "poly_ok c"
  shows "\<exists>off' c'. window_loop pp_width (poly_emit dot) count buf off c =
    Some (map (\<lambda>k. poly_sample dot c buf (poly_time off c + k * pp_decim c))
      [0..<num_ticks (poly_time off c) (count * pp_interp c) (pp_decim c)], off', c')"
  using assms
proof (induction off c rule: poly.loop_induct [where count = count and dot = dot])
  case (loop off c)
  have d: "0 < pp_decim c" "pp_phase c < pp_interp c" using loop(1) by (simp_all add: poly_ok_def)
  show ?case
  proof (cases "off < count")
    case True
    let ?off = "off + (pp_phase c + pp_decim c) div pp_interp c" and ?c = "c\<lparr>pp_phase := (pp_phase c + pp_decim c) mod pp_interp c\<rparr>"
    have e: "poly_emit dot (samples_at (pp_width c) buf off) c = (poly_sample dot c buf (poly_time off c), (pp_phase c + pp_decim c) div pp_interp c, ?c)"
      using poly_time_split [OF d(2), of off] by (simp add: poly_emit_def poly_sample_def Let_def)
    obtain off' c' where "window_loop pp_width (poly_emit dot) count buf ?off ?c =
        Some (map (\<lambda>k. poly_sample dot c buf (poly_time off c + pp_decim c + k * pp_decim c))
          [0..<num_ticks (poly_time off c + pp_decim c) (count * pp_interp c) (pp_decim c)], off', c')"
      using loop(2) [OF True e] poly_time_step [OF loop(1), of off] by (auto simp: poly_sample_phase)
    moreover have "poly_time off c < count * pp_interp c" using True poly_before [OF loop(1)] by blast
    ultimately show ?thesis using True
      by (simp add: window_loop.simps [of _ _ _ _ off] e num_ticks_step [OF _ d(1)] map_ticks_Suc add.assoc del: upt_Suc)
  next
    case False
    then have "\<not> poly_time off c < count * pp_interp c" using poly_before [OF loop(1)] by blast
    then show ?thesis using False by (simp add: window_loop.simps [of _ _ _ _ off] num_ticks_def)
  qed
qed

section \<open>The reference: interpolate, filter, decimate\<close>

definition zero_stuff :: "nat \<Rightarrow> 'd::zero list \<Rightarrow> 'd list" where
  "zero_stuff interp xs = concat (map (\<lambda>x. x # replicate (interp - 1) 0) xs)"

text \<open>The taps filled up to whole columns of the bank.\<close>

definition padded :: "nat \<Rightarrow> real list \<Rightarrow> real list" where
  "padded interp taps = taps @ replicate (bank_width interp taps * interp - length taps) 0"

lemma length_padded: "0 < interp \<Longrightarrow> length (padded interp taps) = bank_width interp taps * interp"
  using bank_covers [of interp taps] by (simp add: padded_def)

lemma padded_nth: "j < bank_width interp taps * interp \<Longrightarrow> padded interp taps ! j = (if j < length taps then taps ! j else 0)"
  by (simp add: padded_def nth_append)

lemma length_zero_stuff: "0 < interp \<Longrightarrow> length (zero_stuff interp xs) = length xs * interp"
  by (induction xs) (simp_all add: zero_stuff_def)

lemma zero_stuff_Cons: "zero_stuff interp (x # xs) = (x # replicate (interp - 1) 0) @ zero_stuff interp xs"
  by (simp add: zero_stuff_def)

lemma zero_stuff_nth:
  assumes "0 < L" "i < length xs" "r < L"
  shows "zero_stuff L xs ! (i * L + r) = (if r = 0 then xs ! i else 0)"
  using assms(2)
proof (induction xs arbitrary: i)
  case (Cons x xs)
  have len: "length (x # replicate (L - 1) 0) = L" using assms(1) by simp
  show ?case
  proof (cases i)
    case 0
    have "(x # replicate (L - 1) 0) ! r = (if r = 0 then x else 0)" using assms(3) by (cases r) simp_all
    moreover have "zero_stuff L (x # xs) ! r = (x # replicate (L - 1) 0) ! r"
      unfolding zero_stuff_Cons by (rule nth_append_left) (use len assms(3) in simp)
    ultimately show ?thesis using 0 by simp
  next
    case (Suc j)
    have "i * L + r = length (x # replicate (L - 1) 0) + (j * L + r)" using len Suc by simp
    then have "zero_stuff L (x # xs) ! (i * L + r) = zero_stuff L xs ! (j * L + r)"
      unfolding zero_stuff_Cons by (simp only: nth_append_length_plus)
    then show ?thesis using Cons Suc by simp
  qed
qed simp

lemma sample_int: "sample xs (int m) = (if m < length xs then xs ! m else 0)"
  by (simp add: sample_def)

lemma sample_zero_stuff:
  assumes "0 < L" "r < L"
  shows "sample (zero_stuff L xs) (i * int L + int r) = (if r = 0 then sample xs i else 0)"
proof (cases "0 \<le> i \<and> i < int (length xs)")
  case True
  then obtain n where n: "i = int n" "n < length xs" by (metis nonneg_int_cases of_nat_less_iff)
  have "n * L + r < length xs * L"
  proof -
    have "n * L + r < Suc n * L" using assms(2) by simp
    also have "\<dots> \<le> length xs * L" using n(2) by (intro mult_le_mono1) simp
    finally show ?thesis .
  qed
  moreover have "i * int L + int r = int (n * L + r)" by (simp add: n)
  ultimately have "sample (zero_stuff L xs) (i * int L + int r) = zero_stuff L xs ! (n * L + r)"
    unfolding sample_int length_zero_stuff [OF assms(1)] by (simp only: sample_int length_zero_stuff [OF assms(1)] if_True)
  then show ?thesis using zero_stuff_nth [OF assms(1) n(2) assms(2)] n by (simp add: sample_def)
next
  case False
  have "\<not> (0 \<le> i * int L + int r \<and> i * int L + int r < int (length xs * L))"
  proof (cases "i < 0")
    case True
    then have "i * int L \<le> (- 1) * int L" by (intro mult_right_mono) simp_all
    then show ?thesis using assms(2) by simp
  next
    case i: False
    then have "int (length xs) * int L \<le> i * int L" using False by (intro mult_right_mono) simp_all
    then show ?thesis by simp
  qed
  then have "sample (zero_stuff L xs) (i * int L + int r) = 0"
    unfolding sample_def length_zero_stuff [OF assms(1)] by (rule if_not_P)
  moreover have "sample xs i = 0" unfolding sample_def using False by (rule if_not_P)
  ultimately show ?thesis by simp
qed

lemma sum_lessThan_add: "(\<Sum>j<m + n. f j) = (\<Sum>j<m. f j) + (\<Sum>r<n. f (m + r))" for f :: "nat \<Rightarrow> 'd::comm_monoid_add"
  by (induction n) (simp_all add: add.assoc)

lemma sum_by_columns: "(\<Sum>j<w * L. f j) = (\<Sum>i<w. \<Sum>r<L. f (i * L + r))" for f :: "nat \<Rightarrow> 'd::comm_monoid_add"
proof (induction w)
  case (Suc w)
  have "(\<Sum>j<Suc w * L. f j) = (\<Sum>j<w * L + L. f j)" by (simp add: add.commute)
  then show ?case using Suc by (simp add: sum_lessThan_add)
qed simp

text \<open>In a column of the zero-stuffed stream one sample is not zero.\<close>

lemma column_sum:
  fixes xs :: "'d::real_vector list"
  assumes "ph < L"
  shows "(\<Sum>r<L. h r *\<^sub>R sample (zero_stuff L xs) (c * int L + int ph + int r + 1)) = h (L - 1 - ph) *\<^sub>R sample xs (c + 1)"
proof -
  have L: "0 < L" using assms by simp
  have "sample (zero_stuff L xs) (c * int L + int ph + int r + 1) = (if r = L - 1 - ph then sample xs (c + 1) else 0)" if "r < L" for r
  proof (cases "r + ph + 1 < L")
    case True
    have e: "c * int L + int ph + int r + 1 = c * int L + int (r + ph + 1)" by simp
    have "r \<noteq> L - 1 - ph" "r + ph + 1 \<noteq> 0" using True by simp_all
    then show ?thesis unfolding e sample_zero_stuff [OF L True, of xs c] by simp
  next
    case False
    then have e: "c * int L + int ph + int r + 1 = (c + 1) * int L + int (r + ph + 1 - L)"
      by (simp add: distrib_right of_nat_diff)
    have "r + ph + 1 - L < L" using that assms by simp
    from sample_zero_stuff [OF L this, of xs "c + 1"] show ?thesis unfolding e using False that assms by auto
  qed
  then have "(\<Sum>r<L. h r *\<^sub>R sample (zero_stuff L xs) (c * int L + int ph + int r + 1)) =
      (\<Sum>r<L. if r = L - 1 - ph then h r *\<^sub>R sample xs (c + 1) else 0)"
    by (intro sum.cong refl) simp
  then show ?thesis using L by simp
qed

lemma poly_sample_convolution:
  fixes xs :: "'d::real_vector list"
  assumes "dot_ok dot" "taps \<noteq> []" "0 < L" "t < length xs * L"
  shows "poly_sample dot \<lparr>pp_phases = buildPolyphaseBank L taps, pp_width = bank_width L taps, pp_interp = L, pp_decim = M, pp_phase = 0\<rparr>
      (replicate (bank_width L taps - 1) 0 @ xs) t = convolution (padded L taps) (zero_stuff L xs) t"
proof -
  define w where "w = bank_width L taps"
  define b where "b = replicate (w - 1) 0 @ xs"
  define ph where "ph = t mod L"
  define off where "off = t div L"
  have w: "0 < w" using bank_width_pos [OF assms(3,2)] by (simp add: w_def)
  have ph: "ph < L" and t: "t = off * L + ph" using assms(3) by (simp_all add: ph_def off_def)
  have "off < length xs" using assms(3,4) by (simp add: off_def less_mult_imp_div_less)
  then have fits: "off + w \<le> length b" using w by (simp add: b_def)
  have phase: "length (buildPolyphaseBank L taps ! ph) = w" using bank_shape [OF assms(3), of taps] ph by (simp add: w_def)
  have entry: "(buildPolyphaseBank L taps ! ph ! k) *\<^sub>R (samples_at w b off ! k) =
      (\<Sum>r<L. (padded L taps ! (k * L + r)) *\<^sub>R sample (zero_stuff L xs) (int t + int (k * L + r) - int (w * L - 1)))" if k: "k < w" for k
  proof -
    have "k * L + r < w * L" if "r < L" for r
      using that mult_le_mono1 [of "Suc k" w L] k by simp
    then have "k * L + (L - 1 - ph) < w * L" using assms(3) by simp
    then have tap: "buildPolyphaseBank L taps ! ph ! k = padded L taps ! (k * L + (L - 1 - ph))"
      using bank_nth [OF ph, of k taps] k padded_nth [of "k * L + (L - 1 - ph)" L taps] by (simp add: w_def tap_index_def)
    have win: "samples_at w b off ! k = sample xs (int off + int k - int w + 1)"
      using k fits nth_window [OF k fits] silent_start [of "off + k" "w - 1" xs] w by (simp add: b_def of_nat_diff algebra_simps)
    have "int t + int (k * L + r) - int (w * L - 1) = (int off + int k - int w) * int L + int ph + int r + 1" for r
    proof -
      have "1 \<le> w * L" using w assms(3) by (simp add: Suc_le_eq)
      then show ?thesis by (simp add: t of_nat_diff algebra_simps)
    qed
    then show ?thesis unfolding tap win
      using column_sum [OF ph, of "\<lambda>r. padded L taps ! (k * L + r)" xs "int off + int k - int w"] by (simp only:)
  qed
  have "poly_sample dot \<lparr>pp_phases = buildPolyphaseBank L taps, pp_width = w, pp_interp = L, pp_decim = M, pp_phase = 0\<rparr> b t =
      dot (buildPolyphaseBank L taps ! ph) (samples_at w b off)"
    by (simp add: poly_sample_def ph_def off_def)
  also have "\<dots> = (\<Sum>k<w. (buildPolyphaseBank L taps ! ph ! k) *\<^sub>R (samples_at w b off ! k))"
    using assms(1) phase length_window [OF fits] by (simp add: dot_ok_def)
  also have "\<dots> = convolution (padded L taps) (zero_stuff L xs) t"
    unfolding convolution_def length_padded [OF assms(3)] w_def [symmetric] sum_by_columns by (intro sum.cong refl) (simp add: entry)
  finally show ?thesis by (simp add: w_def b_def)
qed

text \<open>
  C9: The polyphase resampler puts out what interpolation, filtering and decimation would: whatever the blocks
  its input comes in, the samples are those of the decimating FIR with the same taps, filled up with zeros to
  whole columns of the bank, on the input with \<open>interp - 1\<close> zeros put after each sample.
\<close>

theorem resampler_is_interpolate_filter_decimate:
  fixes bs :: "'d::real_vector list list"
  assumes "dot_ok dot" "taps \<noteq> []" "0 < interp" "0 < decim"
  shows "snd (run_blocks (poly.process dot) (poly_init interp decim taps) bs) =
    snd (decim.process dot (decim_init (padded interp taps) decim) (zero_stuff interp (concat bs)))"
proof -
  let ?xs = "concat bs"
  let ?c = "\<lparr>pp_phases = buildPolyphaseBank interp taps, pp_width = bank_width interp taps, pp_interp = interp, pp_decim = decim, pp_phase = 0\<rparr>"
  let ?b = "replicate (bank_width interp taps - 1) 0 @ ?xs"
  have v: "poly.valid (poly_init interp decim taps :: 'd poly_state)" by (rule poly_valid_init [OF assms(2-4)])
  then have ok: "poly_ok ?c" by (simp add: poly.valid_def poly_init_def)
  obtain off' c' where l: "window_loop pp_width (poly_emit dot) (length ?xs) ?b 0 ?c =
      Some (map (\<lambda>k. poly_sample dot ?c ?b (k * decim)) [0..<num_ticks 0 (length ?xs * interp) decim], off', c')"
    using poly_loop [OF ok, of dot "length ?xs" ?b 0] by (auto simp: poly_time_def)
  have "padded interp taps \<noteq> []" using assms(2) by (simp add: padded_def)
  then have "snd (decim.process dot (decim_init (padded interp taps) decim) (zero_stuff interp ?xs)) =
      map (\<lambda>k. convolution (padded interp taps) (zero_stuff interp ?xs) (k * decim)) [0..<num_ticks 0 (length ?xs * interp) decim]"
    using decim_outputs [OF assms(1) _ assms(4)] by (simp add: length_zero_stuff [OF assms(3)])
  also have "\<dots> = map (\<lambda>k. poly_sample dot ?c ?b (k * decim)) [0..<num_ticks 0 (length ?xs * interp) decim]"
    by (rule map_cong [OF refl], rule poly_sample_convolution [OF assms(1-3), symmetric])
      (use tick_before [of _ 0 "length ?xs * interp" decim] assms(4) in simp)
  also have "\<dots> = snd (run_blocks (poly.process dot) (poly_init interp decim taps) bs)"
    using poly.process_eq [OF _ l] v unfolding poly.run_blocks_concat [OF v] by (simp add: poly_init_def)
  finally show ?thesis by (rule sym)
qed

theorem resampler_is_interpolate_filter_decimate_witness:
  "snd (run_blocks (poly.process sum_of_products) (poly_init 2 3 [1, 2, 4]) [[5, 6 :: real], [7]]) =
    snd (decim.process sum_of_products (decim_init (padded 2 [1, 2, 4]) 3) (zero_stuff 2 [5, 6, 7]))"
  using resampler_is_interpolate_filter_decimate [OF dot_ok_sum_of_products, of "[1, 2, 4]" 2 3 "[[5, 6 :: real], [7]]"] by simp

end
