(* ===== verification/DspPlans.thy ===== *)
theory DspPlans
  imports Complex_Main
begin

text \<open>
  The filters and plans of the power decimator (\<open>core/src/dsp/multirate/decim\<close>): the tap tables of
  \<open>decim/taps\<close>, in units of \<open>10\<^sup>-\<^sup>1\<^sup>5\<close>, the last digit of the literals, and the plans of \<open>plans.h\<close>.
\<close>

section \<open>Tap tables\<close>

definition fir_2_2_taps :: "int list" where
  "fir_2_2_taps =
    [400633624864, 2075598505552, 4856364956715, 5979016698235, 2622922607902, - 2718259152577, - 3381533671376, 1638638539759,
     4081814705993, - 984029228217, - 5120988470135, 177440907285, 6425852662023, 1009351602305, - 7912827910006, - 2713700675199,
     9509311257450, 5070635723474, - 11154020477109, - 8246059919867, 12785716787299, 12487906837156, - 14347452386709, - 18205770848481,
     15781858576801, 26172374716730, - 17037643409603, - 38051489304887, 18067070624730, 58212412671604, - 18832304184135, - 102772486604899,
     19303165035556, 317189488733641, 480537520090363, 317189488733641, 19303165035556, - 102772486604899, - 18832304184135, 58212412671604,
     18067070624730, - 38051489304887, - 17037643409603, 26172374716730, 15781858576801, - 18205770848481, - 14347452386709, 12487906837156,
     12785716787299, - 8246059919867, - 11154020477109, 5070635723474, 9509311257450, - 2713700675199, - 7912827910006, 1009351602305,
     6425852662023, 177440907285, - 5120988470135, - 984029228217, 4081814705993, 1638638539759, - 3381533671376, - 2718259152577,
     2622922607902, 5979016698235, 4856364956715, 2075598505552, 400633624864]"

definition fir_4_2_taps :: "int list" where
  "fir_4_2_taps =
    [- 3856211869499, - 22330421420748, - 42348797151517, 9330574289172, 182544215014523, 363014696342451, 363014696342451, 182544215014523,
     9330574289172, - 42348797151517, - 22330421420748, - 3856211869499]"

definition fir_8_4_taps :: "int list" where
  "fir_8_4_taps =
    [- 69910742154, - 552526802288, - 2127088129249, - 5633575976279, - 11315295341167, - 17735691906137, - 21011120930551, - 15296134618958,
     5014080997102, 41970748926553, 91347535728189, 142430310818233, 181170927236212, 195642275183578, 181170927236212, 142430310818233,
     91347535728189, 41970748926553, 5014080997102, - 15296134618958, - 21011120930551, - 17735691906137, - 11315295341167, - 5633575976279,
     - 2127088129249, - 552526802288, - 69910742154]"

definition fir_16_8_taps :: "int list" where
  "fir_16_8_taps =
    [- 10549050011, - 61489537039, - 169592150226, - 389171926135, - 769975911674, - 1370854592385, - 2239650734147, - 3399889102518,
     - 4830705343877, - 6448446354249, - 8091855414668, - 9515841436220, - 10397441921856, - 10356613271974, - 8992201469341, - 5930787518203,
     - 883278427221, 6298245739840, 15572308400311, 26677311102094, 39125595948408, 52226522148894, 65138644768753, 76946519590666,
     86753453366436, 93778448420600, 97444265291570, 97444265291570, 93778448420600, 86753453366436, 76946519590666, 65138644768753,
     52226522148894, 39125595948408, 26677311102094, 15572308400311, 6298245739840, - 883278427221, - 5930787518203, - 8992201469341,
     - 10356613271974, - 10397441921856, - 9515841436220, - 8091855414668, - 6448446354249, - 4830705343877, - 3399889102518, - 2239650734147,
     - 1370854592385, - 769975911674, - 389171926135, - 169592150226, - 61489537039, - 10549050011]"

definition fir_32_8_taps :: "int list" where
  "fir_32_8_taps =
    [- 29744589241, - 102805435515, - 256933218578, - 524425617107, - 923167111410, - 1434928315096, - 1981567015438, - 2404088713278,
     - 2451791426948, - 1788676228348, - 22184036340, 3244839156945, 8343584867029, 15460483392566, 24564907542072, 35359785525755,
     47269560715908, 59474265224980, 70989991387120, 80786468196769, 87923948445323, 91686274752633, 91686274752633, 87923948445323,
     80786468196769, 70989991387120, 59474265224980, 47269560715908, 35359785525755, 24564907542072, 15460483392566, 8343584867029,
     3244839156945, - 22184036340, - 1788676228348, - 2451791426948, - 2404088713278, - 1981567015438, - 1434928315096, - 923167111410,
     - 524425617107, - 256933218578, - 102805435515, - 29744589241]"

definition fir_64_8_taps :: "int list" where
  "fir_64_8_taps =
    [15230923996, 82077920191, 262521513750, 673128659394, 1475675202716, 2887947811052, 5159198622906, 8543963462691,
     13252097427442, 19396810069284, 26940321432500, 35656237803203, 45115851141008, 54709465624648, 63702603363867, 71322539438903,
     76861237718122, 79777267801515, 79777267801515, 76861237718122, 71322539438903, 63702603363867, 54709465624648, 45115851141008,
     35656237803203, 26940321432500, 19396810069284, 13252097427442, 8543963462691, 5159198622906, 2887947811052, 1475675202716,
     673128659394, 262521513750, 82077920191, 15230923996]"

definition fir_128_16_taps :: "int list" where
  "fir_128_16_taps =
    [3688211243, 13660745184, 27864244875, 56024595736, 99948148808, 168552197041, 269382284025, 413325712010,
     612084815649, 879405538662, 1230104825804, 1680092905716, 2245658820654, 2942957882659, 3787212583021, 4791922493325,
     5967969572298, 7322738536994, 8859256322921, 10575423925694, 12463379308760, 14509046778473, 16691912242846, 18985060458242,
     21355495646189, 23764754477139, 26169804021396, 28524201614471, 30779477612194, 32886687871454, 34798070863046, 36468735790737,
     37858303447209, 38932421304764, 39664078609141, 40034655893826, 40034655893826, 39664078609141, 38932421304764, 37858303447209,
     36468735790737, 34798070863046, 32886687871454, 30779477612194, 28524201614471, 26169804021396, 23764754477139, 21355495646189,
     18985060458242, 16691912242846, 14509046778473, 12463379308760, 10575423925694, 8859256322921, 7322738536994, 5967969572298,
     4791922493325, 3787212583021, 2942957882659, 2245658820654, 1680092905716, 1230104825804, 879405538662, 612084815649,
     413325712010, 269382284025, 168552197041, 99948148808, 56024595736, 27864244875, 13660745184, 3688211243]"

definition fir_256_32_taps :: "int list" where
  "fir_256_32_taps =
    [2024710441, 5071986063, 5649621619, 9996317351, 13960233561, 20203028684, 27743453140, 37649365146,
     49946026699, 65301488097, 84113029863, 107006458486, 134566059018, 167482006932, 206469601804, 252311382077,
     305831073218, 367903193892, 439441775093, 521398892491, 614756278678, 720519104213, 839706996025, 973345013002,
     1122453164999, 1288035337090, 1471067271555, 1672483946636, 1893166344323, 2133927814945, 2395500153619, 2678519576086,
     2983512762124, 3310883161302, 3660897754233, 4033674471928, 4429170475222, 4847171495793, 5287282435142, 5748919410995,
     6231303428249, 6733455837854, 7254195729720, 7792139384731, 8345701888126, 8913100980819, 9492363197372, 10081332310191,
     10677680068163, 11278919186999, 11882418516063, 12485420274634, 13085059219684, 13678383576860, 14262377537964, 14833985102374,
     15390135015749, 15927766539308, 16443855765594, 16935442183430, 17399655185551, 17833740207285, 18235084184538, 18601240022499,
     18929949775865, 19219166253362, 19467072776985, 19672100847465, 19832945492079, 19948578099591, 20018256578123, 20041532705549,
     20018256578123, 19948578099591, 19832945492079, 19672100847465, 19467072776985, 19219166253362, 18929949775865, 18601240022499,
     18235084184538, 17833740207285, 17399655185551, 16935442183430, 16443855765594, 15927766539308, 15390135015749, 14833985102374,
     14262377537964, 13678383576860, 13085059219684, 12485420274634, 11882418516063, 11278919186999, 10677680068163, 10081332310191,
     9492363197372, 8913100980819, 8345701888126, 7792139384731, 7254195729720, 6733455837854, 6231303428249, 5748919410995,
     5287282435142, 4847171495793, 4429170475222, 4033674471928, 3660897754233, 3310883161302, 2983512762124, 2678519576086,
     2395500153619, 2133927814945, 1893166344323, 1672483946636, 1471067271555, 1288035337090, 1122453164999, 973345013002,
     839706996025, 720519104213, 614756278678, 521398892491, 439441775093, 367903193892, 305831073218, 252311382077,
     206469601804, 167482006932, 134566059018, 107006458486, 84113029863, 65301488097, 49946026699, 37649365146,
     27743453140, 20203028684, 13960233561, 9996317351, 5649621619, 5071986063, 2024710441]"

definition fir_512_32_taps :: "int list" where
  "fir_512_32_taps =
    [8540968797, 9922400188, 15550948353, 23167181508, 33231811476, 46270708161, 62878000273, 83718456393,
     109529013922, 141119329083, 179371225499, 225236929029, 279735987160, 343950788528, 419020613557, 506134170029,
     606520589550, 721438886986, 852165912394, 999982852844, 1166160372943, 1351942511872, 1558529485270, 1787059568999,
     2038590271450, 2314079024704, 2614363649958, 2940142872027, 3291957174154, 3670170297288, 4074951693870, 4506260250540,
     4963829590056, 5447155254368, 5955484057066, 6487805874260, 7042848116484, 7619073095444, 8214678463585, 8827600864209,
     9455522888034, 10095883384323, 10745891124847, 11402541770574, 12062638037206, 12722812904219, 13379555663224, 14029240550834,
     14668157666599, 15292545833545, 15898627022289, 16482641925719, 17040886246767, 17569747239682, 18065740033662, 18525543262431,
     18946033522759, 19324318198100, 19657766196845, 19944036181861, 20181101897746, 20367274240763, 20501219760524, 20581975330434,
     20608958779118, 20581975330434, 20501219760524, 20367274240763, 20181101897746, 19944036181861, 19657766196845, 19324318198100,
     18946033522759, 18525543262431, 18065740033662, 17569747239682, 17040886246767, 16482641925719, 15898627022289, 15292545833545,
     14668157666599, 14029240550834, 13379555663224, 12722812904219, 12062638037206, 11402541770574, 10745891124847, 10095883384323,
     9455522888034, 8827600864209, 8214678463585, 7619073095444, 7042848116484, 6487805874260, 5955484057066, 5447155254368,
     4963829590056, 4506260250540, 4074951693870, 3670170297288, 3291957174154, 2940142872027, 2614363649958, 2314079024704,
     2038590271450, 1787059568999, 1558529485270, 1351942511872, 1166160372943, 999982852844, 852165912394, 721438886986,
     606520589550, 506134170029, 419020613557, 343950788528, 279735987160, 225236929029, 179371225499, 141119329083,
     109529013922, 83718456393, 62878000273, 46270708161, 33231811476, 23167181508, 15550948353, 9922400188,
     8540968797]"

definition fir_1024_64_taps :: "int list" where
  "fir_1024_64_taps =
    [6462031529, 3762409463, 4844873785, 6123946040, 7623557621, 9369500189, 11389489511, 13713225713,
     16372450007, 19400995965, 22834836357, 26712124166, 31073227314, 35960757034, 41419588684, 47496875380,
     54242053050, 61706837053, 69945209697, 79013398311, 88969843345, 99875155888, 111792065160, 124785354321,
     138921785260, 154270012137, 170900482798, 188885328279, 208298240660, 229214338496, 251710020027, 275862804808,
     301751162750, 329454331625, 359052122812, 390624715628, 424252440518, 460015551653, 497993989069, 538267130868,
     580913536707, 626010681838, 673634683977, 723860022294, 776759250136, 832402702294, 890858197110, 952190735149,
     1016462194703, 1083731025617, 1154051942217, 1227475616900, 1304048374716, 1383811890755, 1466802891491, 1553052860930,
     1642587753007, 1735427711423, 1831586798359, 1931072732585, 2033886639476, 2140022812541, 2249468489330, 2362203641302,
     2478200780155, 2597424780897, 2719832722953, 2845373750630, 2973988953416, 3105611267477, 3240165399026, 3377567770453,
     3517726489639, 3660541344023, 3805903818490, 3953697139430, 4103796343600, 4256068373481, 4410372198649, 4566558963662,
     4724472161982, 4883947836741, 5044814807351, 5206894922255, 5370003337046, 5533948818282, 5698534071229, 5863556091925,
     6028806542319, 6194072147902, 6359135116484, 6523773577483, 6687762040265, 6850871870724, 7012871784157, 7173528353865,
     7332606533364, 7489870190776, 7645082654370, 7798007266777, 7948407946740, 8096049756555, 8240699473269, 8382126161983,
     8520101749207, 8654401594640, 8784805059577, 8911096069443, 9033063669314, 9150502570440, 9263213685289, 9371004650260,
     9473690333377, 9571093325806, 9663044415454, 9749383040556, 9829957722201, 9904626474092, 9973257187859, 10035727993149,
     10091927590538, 10141755556416, 10185122619096, 10221950904489, 10252174150955, 10275737892470, 10292599609103, 10302728845123,
     10306107293174, 10302728845123, 10292599609103, 10275737892470, 10252174150955, 10221950904489, 10185122619096, 10141755556416,
     10091927590538, 10035727993149, 9973257187859, 9904626474092, 9829957722201, 9749383040556, 9663044415454, 9571093325806,
     9473690333377, 9371004650260, 9263213685289, 9150502570440, 9033063669314, 8911096069443, 8784805059577, 8654401594640,
     8520101749207, 8382126161983, 8240699473269, 8096049756555, 7948407946740, 7798007266777, 7645082654370, 7489870190776,
     7332606533364, 7173528353865, 7012871784157, 6850871870724, 6687762040265, 6523773577483, 6359135116484, 6194072147902,
     6028806542319, 5863556091925, 5698534071229, 5533948818282, 5370003337046, 5206894922255, 5044814807351, 4883947836741,
     4724472161982, 4566558963662, 4410372198649, 4256068373481, 4103796343600, 3953697139430, 3805903818490, 3660541344023,
     3517726489639, 3377567770453, 3240165399026, 3105611267477, 2973988953416, 2845373750630, 2719832722953, 2597424780897,
     2478200780155, 2362203641302, 2249468489330, 2140022812541, 2033886639476, 1931072732585, 1831586798359, 1735427711423,
     1642587753007, 1553052860930, 1466802891491, 1383811890755, 1304048374716, 1227475616900, 1154051942217, 1083731025617,
     1016462194703, 952190735149, 890858197110, 832402702294, 776759250136, 723860022294, 673634683977, 626010681838,
     580913536707, 538267130868, 497993989069, 460015551653, 424252440518, 390624715628, 359052122812, 329454331625,
     301751162750, 275862804808, 251710020027, 229214338496, 208298240660, 188885328279, 170900482798, 154270012137,
     138921785260, 124785354321, 111792065160, 99875155888, 88969843345, 79013398311, 69945209697, 61706837053,
     54242053050, 47496875380, 41419588684, 35960757034, 31073227314, 26712124166, 22834836357, 19400995965,
     16372450007, 13713225713, 11389489511, 9369500189, 7623557621, 6123946040, 4844873785, 3762409463,
     6462031529]"

definition fir_2048_64_taps :: "int list" where
  "fir_2048_64_taps =
    [199668, 205043166, 156335587, 215541606, 289043906, 379397653, 489366234, 622040059,
     780862872, 969659261, 1192663259, 1454547981, 1760456262, 2116032238, 2527453817, 3001465946,
     3545414625, 4167281561, 4875719359, 5680087172, 6590486661, 7617798168, 8773716957, 10070789376,
     11522448815, 13143051261, 14947910332, 16953331574, 19176645863, 21636241718, 24351596326, 27343305093,
     30633109489, 34243923000, 38199854973, 42526232102, 47249617395, 52397826336, 57999940064, 64086315335,
     70688591034, 77839691045, 85573823231, 93926474339, 102934400627, 112635613980, 123069363379, 134276111489,
     146297506226, 159176347141, 172956546458, 187683084638, 203401960366, 220160134836, 238005470250, 256986662475,
     277153167800, 298555123757, 321243264012, 345268827318, 370683460586, 397539116108, 425887943051, 455782173269,
     487274001624, 520415460934, 555258291741, 591853807104, 630252752645, 670505162114, 712660208750, 756766052737,
     802869685119, 851016768484, 901251474847, 953616321094, 1008152002452, 1064897224391, 1123888533469, 1185160147570,
     1248743786063, 1314668500389, 1382960505628, 1453643013568, 1526736067868, 1602256381861, 1680217179590, 1760628040646,
     1843494749418, 1928819149316, 2016599002583, 2106827856267, 2199494914939, 2294584920730, 2392078041256, 2491949765985,
     2594170811576, 2698707036722, 2805519367007, 2914563730244, 3025791002763, 3139146967090, 3254572281416, 3372002461236,
     3491367873501, 3612593743601, 3735600175462, 3860302184972, 3986609746975, 4114427855956, 4243656600570, 4374191252069,
     4505922366671, 4638735901866, 4772513346579, 4907131865119, 5042464454740, 5178380116639, 5314744040122, 5451417799686,
     5588259564642, 5725124320935, 5861864104709, 5998328247162, 6134363630171, 6269814952126, 6404525003407, 6538334950818,
     6671084630359, 6802612847587, 6932757684861, 7061356814659, 7188247818209, 7313268508566, 7436257257322, 7557053324043,
     7675497187571, 7791430878266, 7904698310281, 8015145612939, 8122621460286, 8226977397872, 8328068165838, 8425752017374,
     8519891031616, 8610351420080, 8697003825729, 8779723613781, 8858391153404, 8932892089457, 9003117603448, 9068964662954,
     9130336258703, 9187141628648, 9239296468318, 9286723126810, 9329350787828, 9367115635223, 9399961002488, 9427837505799,
     9450703160140, 9468523478197, 9481271551679, 9488928114839, 9491481589983, 9488928114839, 9481271551679, 9468523478197,
     9450703160140, 9427837505799, 9399961002488, 9367115635223, 9329350787828, 9286723126810, 9239296468318, 9187141628648,
     9130336258703, 9068964662954, 9003117603448, 8932892089457, 8858391153404, 8779723613781, 8697003825729, 8610351420080,
     8519891031616, 8425752017374, 8328068165838, 8226977397872, 8122621460286, 8015145612939, 7904698310281, 7791430878266,
     7675497187571, 7557053324043, 7436257257322, 7313268508566, 7188247818209, 7061356814659, 6932757684861, 6802612847587,
     6671084630359, 6538334950818, 6404525003407, 6269814952126, 6134363630171, 5998328247162, 5861864104709, 5725124320935,
     5588259564642, 5451417799686, 5314744040122, 5178380116639, 5042464454740, 4907131865119, 4772513346579, 4638735901866,
     4505922366671, 4374191252069, 4243656600570, 4114427855956, 3986609746975, 3860302184972, 3735600175462, 3612593743601,
     3491367873501, 3372002461236, 3254572281416, 3139146967090, 3025791002763, 2914563730244, 2805519367007, 2698707036722,
     2594170811576, 2491949765985, 2392078041256, 2294584920730, 2199494914939, 2106827856267, 2016599002583, 1928819149316,
     1843494749418, 1760628040646, 1680217179590, 1602256381861, 1526736067868, 1453643013568, 1382960505628, 1314668500389,
     1248743786063, 1185160147570, 1123888533469, 1064897224391, 1008152002452, 953616321094, 901251474847, 851016768484,
     802869685119, 756766052737, 712660208750, 670505162114, 630252752645, 591853807104, 555258291741, 520415460934,
     487274001624, 455782173269, 425887943051, 397539116108, 370683460586, 345268827318, 321243264012, 298555123757,
     277153167800, 256986662475, 238005470250, 220160134836, 203401960366, 187683084638, 172956546458, 159176347141,
     146297506226, 134276111489, 123069363379, 112635613980, 102934400627, 93926474339, 85573823231, 77839691045,
     70688591034, 64086315335, 57999940064, 52397826336, 47249617395, 42526232102, 38199854973, 34243923000,
     30633109489, 27343305093, 24351596326, 21636241718, 19176645863, 16953331574, 14947910332, 13143051261,
     11522448815, 10070789376, 8773716957, 7617798168, 6590486661, 5680087172, 4875719359, 4167281561,
     3545414625, 3001465946, 2527453817, 2116032238, 1760456262, 1454547981, 1192663259, 969659261,
     780862872, 622040059, 489366234, 379397653, 289043906, 215541606, 156335587, 205043166,
     199668]"

definition fir_4096_64_taps :: "int list" where
  "fir_4096_64_taps =
    [- 46390182, - 32671747, - 44019252, - 57847980, - 74525736, - 94444277, - 118038962, - 145771056,
     - 178146920, - 215699912, - 259008968, - 308679966, - 365363532, - 429735743, - 502514971, - 584441775,
     - 676294593, - 778868675, - 892990408, - 1019495135, - 1159239908, - 1313080019, - 1481879981, - 1666488590,
     - 1867747936, - 2086466837, - 2323427660, - 2579357987, - 2854935059, - 3150755519, - 3467337309, - 3805087370,
     - 4164300851, - 4545126650, - 4947563816, - 5371424879, - 5816329343, - 6281664776, - 6766577359, - 7269930729,
     - 7790293600, - 8325896421, - 8874616111, - 9433930650, - 10000901045, - 10572124028, - 11143711423, - 11711241185,
     - 12269734415, - 12813605044, - 13336634806, - 13831921934, - 14291854483, - 14708058478, - 15071370042, - 15371783506,
     - 15598422879, - 15739490502, - 15782238450, - 15712918389, - 15516753573, - 15177890614, - 14679372808, - 14003094579,
     - 13129776918, - 12038925327, - 10708808188, - 9116419073, - 7237458911, - 5046303536, - 2515990559, 381806950,
     3676787983, 7400042869, 11584054294, 16262708632, 21471289584, 27246480702, 33626350795, 40650346831,
     48359270314, 56795259795, 66001757509, 76023480814, 86906378438, 98697590282, 111445392736, 125199146376,
     140009229952, 155926975644, 173004591440, 191295083774, 210852168180, 231730179287, 253983969797, 277668807996,
     302840265281, 329554101525, 357866141575, 387832149003, 419507692185, 452948007177, 488207854178, 525341370472,
     564401918290, 605441928944, 648512743304, 693664448459, 740945712207, 790403613766, 842083473864, 896028681201,
     952280519889, 1010877993535, 1071857651943, 1135253414817, 1201096399779, 1269414747828, 1340233454817, 1413574200910,
     1489455187766, 1567890974290, 1648892321822, 1732466038541, 1818614834973, 1907337179413, 1998627166072, 2092474383846,
     2188863799386, 2287775641494, 2389185301308, 2493063234514, 2599374880741, 2708080585641, 2819135541432, 2932489730741,
     3048087890061, 3165869477045, 3285768658416, 3407714302186, 3531629991321, 3657434042076, 3785039544443, 3914354407524,
     4045281427483, 4177718360558, 4311558018921, 4446688371607, 4582992668347, 4720349568330, 4858633291726, 4997713775860,
     5137456853766, 5277724436980, 5418374720123, 5559262389150, 5700238850592, 5841152463751, 5981848792879, 6122170861453,
     6261959425236, 6401053246440, 6539289385285, 6676503491561, 6812530112001, 6947202996460, 7080355418172, 7211820491505,
     7341431501933, 7469022232125, 7594427298261, 7717482481038, 7838025064813, 7955894169977, 8070931091297, 8182979628023,
     8291886417752, 8397501260587, 8499677444830, 8598272061538, 8693146318384, 8784165841015, 8871200971516, 8954127053079,
     9032824709643, 9107180110554, 9177085228136, 9242438079217, 9303142957628, 9359110649733, 9410258639107, 9456511293501,
     9497800039280, 9534063517579, 9565247726420, 9591306144175, 9612199837674, 9627897551475, 9638375780671, 9643618824881,
     9643618824881, 9638375780671, 9627897551475, 9612199837674, 9591306144175, 9565247726420, 9534063517579, 9497800039280,
     9456511293501, 9410258639107, 9359110649733, 9303142957628, 9242438079217, 9177085228136, 9107180110554, 9032824709643,
     8954127053079, 8871200971516, 8784165841015, 8693146318384, 8598272061538, 8499677444830, 8397501260587, 8291886417752,
     8182979628023, 8070931091297, 7955894169977, 7838025064813, 7717482481038, 7594427298261, 7469022232125, 7341431501933,
     7211820491505, 7080355418172, 6947202996460, 6812530112001, 6676503491561, 6539289385285, 6401053246440, 6261959425236,
     6122170861453, 5981848792879, 5841152463751, 5700238850592, 5559262389150, 5418374720123, 5277724436980, 5137456853766,
     4997713775860, 4858633291726, 4720349568330, 4582992668347, 4446688371607, 4311558018921, 4177718360558, 4045281427483,
     3914354407524, 3785039544443, 3657434042076, 3531629991321, 3407714302186, 3285768658416, 3165869477045, 3048087890061,
     2932489730741, 2819135541432, 2708080585641, 2599374880741, 2493063234514, 2389185301308, 2287775641494, 2188863799386,
     2092474383846, 1998627166072, 1907337179413, 1818614834973, 1732466038541, 1648892321822, 1567890974290, 1489455187766,
     1413574200910, 1340233454817, 1269414747828, 1201096399779, 1135253414817, 1071857651943, 1010877993535, 952280519889,
     896028681201, 842083473864, 790403613766, 740945712207, 693664448459, 648512743304, 605441928944, 564401918290,
     525341370472, 488207854178, 452948007177, 419507692185, 387832149003, 357866141575, 329554101525, 302840265281,
     277668807996, 253983969797, 231730179287, 210852168180, 191295083774, 173004591440, 155926975644, 140009229952,
     125199146376, 111445392736, 98697590282, 86906378438, 76023480814, 66001757509, 56795259795, 48359270314,
     40650346831, 33626350795, 27246480702, 21471289584, 16262708632, 11584054294, 7400042869, 3676787983,
     381806950, - 2515990559, - 5046303536, - 7237458911, - 9116419073, - 10708808188, - 12038925327, - 13129776918,
     - 14003094579, - 14679372808, - 15177890614, - 15516753573, - 15712918389, - 15782238450, - 15739490502, - 15598422879,
     - 15371783506, - 15071370042, - 14708058478, - 14291854483, - 13831921934, - 13336634806, - 12813605044, - 12269734415,
     - 11711241185, - 11143711423, - 10572124028, - 10000901045, - 9433930650, - 8874616111, - 8325896421, - 7790293600,
     - 7269930729, - 6766577359, - 6281664776, - 5816329343, - 5371424879, - 4947563816, - 4545126650, - 4164300851,
     - 3805087370, - 3467337309, - 3150755519, - 2854935059, - 2579357987, - 2323427660, - 2086466837, - 1867747936,
     - 1666488590, - 1481879981, - 1313080019, - 1159239908, - 1019495135, - 892990408, - 778868675, - 676294593,
     - 584441775, - 502514971, - 429735743, - 365363532, - 308679966, - 259008968, - 215699912, - 178146920,
     - 145771056, - 118038962, - 94444277, - 74525736, - 57847980, - 44019252, - 32671747, - 46390182]"

definition fir_8192_128_taps :: "int list" where
  "fir_8192_128_taps =
    [- 38736989, - 2900423, - 2802657, - 2550081, - 2127632, - 1515543, - 693742, 362461,
     1678381, 3283860, 5209816, 7491597, 10166182, 13274887, 16861297, 20973250,
     25661549, 30981198, 36990894, 43753522, 51336412, 59811125, 69254410, 79747366,
     91377013, 104234914, 118419261, 134033072, 151186668, 169995579, 190583271, 213078893,
     237620132, 264350922, 293424307, 325000228, 359248280, 396345681, 436479839, 479846570,
     526652414, 577113153, 631455840, 689917640, 752747558, 820205604, 892564232, 970107802,
     1053133766, 1141952384, 1236887707, 1338277486, 1446474015, 1561844168, 1684770169, 1815649686,
     1954896596, 2102941065, 2260230379, 2427228940, 2604419221, 2792301631, 2991395630, 3202239426,
     3425391279, 3661429009, 3910951502, 4174578014, 4452949882, 4746729636, 5056602883, 5383277263,
     5727484467, 6089979070, 6471540645, 6872972514, 7295103905, 7738788674, 8204907452, 8694366379,
     9208099195, 9747066037, 10312255416, 10904683121, 11525394046, 12175461221, 12855987475, 13568104599,
     14312974832, 15091790163, 15905773637, 16756178784, 17644290759, 18571425876, 19538932599, 20548191156,
     21600614406, 22697647498, 23840768647, 25031488798, 26271352347, 27561936767, 28904853308, 30301746554,
     31754295124, 33264211132, 34833240906, 36463164339, 38155795629, 39912982509, 41736607015, 43628584589,
     45590864869, 47625430672, 49734298789, 51919518862, 54183174163, 56527380385, 58954286377, 61466072873,
     64064953157, 66753171753, 69533004984, 72406759655, 75376773486, 78445413795, 81615077781, 84888191239,
     88267208670, 91754612028, 95352910659, 99064640077, 102892361735, 106838661821, 110906150870, 115097462565,
     119415253203, 123862200490, 128441002875, 133154378310, 138005063487, 142995812533, 148129396174, 153408600336,
     158836225271, 164415084034, 170148001590, 176037813151, 182087363287, 188299504104, 194677094367, 201222997522,
     207940080827, 214831213225, 221899264481, 229147102908, 236577594510, 244193600571, 251997976791, 259993570757,
     268183221059, 276569754666, 285155985994, 293944714221, 302938722286, 312140774168, 321553613799, 331179962326,
     341022516922, 351083948063, 361366898216, 371873979149, 382607770491, 393570817086, 404765627430, 416194671069,
     427860376920, 439765130714, 451911273216, 464301097709, 476936848125, 489820716559, 502954841349, 516341304591,
     529982130195, 543879281395, 558034658807, 572450097909, 587127367134, 602068165314, 617274119823, 632746783974,
     648487635243, 664498072604, 680779414857, 697332897898, 714159673158, 731260804822, 748637268384, 766289947817,
     784219634251, 802427023116, 820912712927, 839677202426, 858720889471, 878044068197, 897646927996, 917529550724,
     937691909762, 958133867299, 978855173459, 999855463679, 1021134257902, 1042690958069, 1064524847376, 1086635087889,
     1109020719868, 1131680659525, 1154613698409, 1177818501315, 1201293605747, 1225037419975, 1249048222589, 1273324160700,
     1297863249606, 1322663371131, 1347722273419, 1373037569408, 1398606736769, 1424427116503, 1450495913054, 1476810193013,
     1503366885426, 1530162780600, 1557194530614, 1584458648234, 1611951507632, 1639669343409, 1667608251533, 1695764188468,
     1724132972335, 1752710282160, 1781491659250, 1810472506568, 1839648090323, 1869013539487, 1898563847581, 1928293872358,
     1958198337767, 1988271833820, 2018508818723, 2048903618943, 2079450431484, 2110143324177, 2140976238089, 2171942988045,
     2203037265157, 2234252637585, 2265582553187, 2297020340518, 2328559211596, 2360192263134, 2391912479431, 2423712733825,
     2455585791711, 2487524312210, 2519520851317, 2551567863769, 2583657706338, 2615782639873, 2647934832758, 2680106363099,
     2712289222360, 2744475317679, 2776656475687, 2808824444935, 2840970899902, 2873087443517, 2905165611358, 2937196874253,
     2969172642675, 3001084269403, 3032923054110, 3064680246083, 3096347048983, 3127914623627, 3159374092903, 3190716544618,
     3221933036540, 3253014599320, 3283952241645, 3314736953226, 3345359710043, 3375811477414, 3406083215285, 3436165881409,
     3466050436636, 3495727848217, 3525189095072, 3554425171206, 3583427090950, 3612185892482, 3640692643008, 3668938442406,
     3696914428318, 3724611779908, 3752021722856, 3779135533213, 3805944542296, 3832440140619, 3858613782678, 3884456990948,
     3909961360553, 3935118563301, 3959920352242, 3984358565720, 4008425131820, 4032112072405, 4055411507458, 4078315659082,
     4100816855733, 4122907536163, 4144580253543, 4165827679324, 4186642607254, 4207017957131, 4226946778713, 4246422255352,
     4265437707780, 4283986597615, 4302062531015, 4319659262048, 4336770696196, 4353390893585, 4369514072328, 4385134611605,
     4400247054833, 4414846112595, 4428926665616, 4442483767539, 4455512647703, 4468008713752, 4479967554203, 4491384940889,
     4502256831302, 4512579370872, 4522348895071, 4531561931516, 4540215201843, 4548305623618, 4555830311974, 4562786581324,
     4569171946769, 4574984125591, 4580221038437, 4584880810586, 4588961772907, 4592462462888, 4595381625379, 4597718213369,
     4599471388516, 4600640521669, 4601225193182, 4601225193182, 4600640521669, 4599471388516, 4597718213369, 4595381625379,
     4592462462888, 4588961772907, 4584880810586, 4580221038437, 4574984125591, 4569171946769, 4562786581324, 4555830311974,
     4548305623618, 4540215201843, 4531561931516, 4522348895071, 4512579370872, 4502256831302, 4491384940889, 4479967554203,
     4468008713752, 4455512647703, 4442483767539, 4428926665616, 4414846112595, 4400247054833, 4385134611605, 4369514072328,
     4353390893585, 4336770696196, 4319659262048, 4302062531015, 4283986597615, 4265437707780, 4246422255352, 4226946778713,
     4207017957131, 4186642607254, 4165827679324, 4144580253543, 4122907536163, 4100816855733, 4078315659082, 4055411507458,
     4032112072405, 4008425131820, 3984358565720, 3959920352242, 3935118563301, 3909961360553, 3884456990948, 3858613782678,
     3832440140619, 3805944542296, 3779135533213, 3752021722856, 3724611779908, 3696914428318, 3668938442406, 3640692643008,
     3612185892482, 3583427090950, 3554425171206, 3525189095072, 3495727848217, 3466050436636, 3436165881409, 3406083215285,
     3375811477414, 3345359710043, 3314736953226, 3283952241645, 3253014599320, 3221933036540, 3190716544618, 3159374092903,
     3127914623627, 3096347048983, 3064680246083, 3032923054110, 3001084269403, 2969172642675, 2937196874253, 2905165611358,
     2873087443517, 2840970899902, 2808824444935, 2776656475687, 2744475317679, 2712289222360, 2680106363099, 2647934832758,
     2615782639873, 2583657706338, 2551567863769, 2519520851317, 2487524312210, 2455585791711, 2423712733825, 2391912479431,
     2360192263134, 2328559211596, 2297020340518, 2265582553187, 2234252637585, 2203037265157, 2171942988045, 2140976238089,
     2110143324177, 2079450431484, 2048903618943, 2018508818723, 1988271833820, 1958198337767, 1928293872358, 1898563847581,
     1869013539487, 1839648090323, 1810472506568, 1781491659250, 1752710282160, 1724132972335, 1695764188468, 1667608251533,
     1639669343409, 1611951507632, 1584458648234, 1557194530614, 1530162780600, 1503366885426, 1476810193013, 1450495913054,
     1424427116503, 1398606736769, 1373037569408, 1347722273419, 1322663371131, 1297863249606, 1273324160700, 1249048222589,
     1225037419975, 1201293605747, 1177818501315, 1154613698409, 1131680659525, 1109020719868, 1086635087889, 1064524847376,
     1042690958069, 1021134257902, 999855463679, 978855173459, 958133867299, 937691909762, 917529550724, 897646927996,
     878044068197, 858720889471, 839677202426, 820912712927, 802427023116, 784219634251, 766289947817, 748637268384,
     731260804822, 714159673158, 697332897898, 680779414857, 664498072604, 648487635243, 632746783974, 617274119823,
     602068165314, 587127367134, 572450097909, 558034658807, 543879281395, 529982130195, 516341304591, 502954841349,
     489820716559, 476936848125, 464301097709, 451911273216, 439765130714, 427860376920, 416194671069, 404765627430,
     393570817086, 382607770491, 371873979149, 361366898216, 351083948063, 341022516922, 331179962326, 321553613799,
     312140774168, 302938722286, 293944714221, 285155985994, 276569754666, 268183221059, 259993570757, 251997976791,
     244193600571, 236577594510, 229147102908, 221899264481, 214831213225, 207940080827, 201222997522, 194677094367,
     188299504104, 182087363287, 176037813151, 170148001590, 164415084034, 158836225271, 153408600336, 148129396174,
     142995812533, 138005063487, 133154378310, 128441002875, 123862200490, 119415253203, 115097462565, 110906150870,
     106838661821, 102892361735, 99064640077, 95352910659, 91754612028, 88267208670, 84888191239, 81615077781,
     78445413795, 75376773486, 72406759655, 69533004984, 66753171753, 64064953157, 61466072873, 58954286377,
     56527380385, 54183174163, 51919518862, 49734298789, 47625430672, 45590864869, 43628584589, 41736607015,
     39912982509, 38155795629, 36463164339, 34833240906, 33264211132, 31754295124, 30301746554, 28904853308,
     27561936767, 26271352347, 25031488798, 23840768647, 22697647498, 21600614406, 20548191156, 19538932599,
     18571425876, 17644290759, 16756178784, 15905773637, 15091790163, 14312974832, 13568104599, 12855987475,
     12175461221, 11525394046, 10904683121, 10312255416, 9747066037, 9208099195, 8694366379, 8204907452,
     7738788674, 7295103905, 6872972514, 6471540645, 6089979070, 5727484467, 5383277263, 5056602883,
     4746729636, 4452949882, 4174578014, 3910951502, 3661429009, 3425391279, 3202239426, 2991395630,
     2792301631, 2604419221, 2427228940, 2260230379, 2102941065, 1954896596, 1815649686, 1684770169,
     1561844168, 1446474015, 1338277486, 1236887707, 1141952384, 1053133766, 970107802, 892564232,
     820205604, 752747558, 689917640, 631455840, 577113153, 526652414, 479846570, 436479839,
     396345681, 359248280, 325000228, 293424307, 264350922, 237620132, 213078893, 190583271,
     169995579, 151186668, 134033072, 118419261, 104234914, 91377013, 79747366, 69254410,
     59811125, 51336412, 43753522, 36990894, 30981198, 25661549, 20973250, 16861297,
     13274887, 10166182, 7491597, 5209816, 3283860, 1678381, 362461, - 693742,
     - 1515543, - 2127632, - 2550081, - 2802657, - 2900423, - 38736989]"

definition tap_values :: "int list \<Rightarrow> real list" where
  "tap_values = map (\<lambda>n. of_int n / 10 ^ 15)"

section \<open>Plans\<close>

text \<open>The stages, each with its decimation and its taps, in the order of \<open>plans\<close>.\<close>

definition plans :: "(nat \<times> int list) list list" where
  "plans =
    [[(2, fir_2_2_taps)],
     [(2, fir_4_2_taps), (2, fir_2_2_taps)],
     [(4, fir_8_4_taps), (2, fir_2_2_taps)],
     [(8, fir_16_8_taps), (2, fir_2_2_taps)],
     [(8, fir_32_8_taps), (2, fir_4_2_taps), (2, fir_2_2_taps)],
     [(8, fir_64_8_taps), (4, fir_8_4_taps), (2, fir_2_2_taps)],
     [(16, fir_128_16_taps), (4, fir_8_4_taps), (2, fir_2_2_taps)],
     [(32, fir_256_32_taps), (4, fir_8_4_taps), (2, fir_2_2_taps)],
     [(32, fir_512_32_taps), (8, fir_16_8_taps), (2, fir_2_2_taps)],
     [(64, fir_1024_64_taps), (8, fir_16_8_taps), (2, fir_2_2_taps)],
     [(64, fir_2048_64_taps), (8, fir_32_8_taps), (2, fir_4_2_taps), (2, fir_2_2_taps)],
     [(64, fir_4096_64_taps), (8, fir_64_8_taps), (4, fir_8_4_taps), (2, fir_2_2_taps)],
     [(128, fir_8192_128_taps), (8, fir_64_8_taps), (4, fir_8_4_taps), (2, fir_2_2_taps)]]"

lemmas tap_tables = fir_2_2_taps_def fir_4_2_taps_def fir_8_4_taps_def fir_16_8_taps_def fir_32_8_taps_def fir_64_8_taps_def fir_128_16_taps_def fir_256_32_taps_def fir_512_32_taps_def fir_1024_64_taps_def fir_2048_64_taps_def fir_4096_64_taps_def fir_8192_128_taps_def

text \<open>The tables have the lengths declared, are symmetric, so that the filters have linear phase, and their sums are within 3 percent of 1.\<close>

definition table_ok :: "nat \<Rightarrow> int list \<Rightarrow> bool" where
  "table_ok len taps \<longleftrightarrow> length taps = len \<and> rev taps = taps \<and> 97 * 10 ^ 13 \<le> sum_list taps \<and> sum_list taps \<le> 103 * 10 ^ 13"

lemma table_ok_2_2: "table_ok 69 fir_2_2_taps"
  by code_simp

lemma table_ok_4_2: "table_ok 12 fir_4_2_taps"
  by code_simp

lemma table_ok_8_4: "table_ok 27 fir_8_4_taps"
  by code_simp

lemma table_ok_16_8: "table_ok 54 fir_16_8_taps"
  by code_simp

lemma table_ok_32_8: "table_ok 44 fir_32_8_taps"
  by code_simp

lemma table_ok_64_8: "table_ok 36 fir_64_8_taps"
  by code_simp

lemma table_ok_128_16: "table_ok 72 fir_128_16_taps"
  by code_simp

lemma table_ok_256_32: "table_ok 143 fir_256_32_taps"
  by code_simp

lemma table_ok_512_32: "table_ok 129 fir_512_32_taps"
  by code_simp

lemma table_ok_1024_64: "table_ok 257 fir_1024_64_taps"
  by code_simp

lemma table_ok_2048_64: "table_ok 329 fir_2048_64_taps"
  by code_simp

lemma table_ok_4096_64: "table_ok 400 fir_4096_64_taps"
  by code_simp

lemma table_ok_8192_128: "table_ok 726 fir_8192_128_taps"
  by code_simp

end
