(* ===== verification/DspVfo.thy ===== *)
theory DspVfo
  imports DspResampler DspPlans
begin

text \<open>
  The receiver's path from the spectrum to a channel: power decimator (\<open>core/src/dsp/multirate/power_decimator.h\<close>),
  rational resampler (\<open>rational_resampler.h\<close>), frequency translation (\<open>channel/frequency_xlator.h\<close>) and the VFO
  (\<open>channel/rx_vfo.h\<close>), with the design of the low pass (\<open>taps/low_pass.h\<close>, \<open>windowed_sinc.h\<close>,
  \<open>estimate_tap_count.h\<close>, \<open>samples_at/nuttall.h\<close>, \<open>samples_at/cosine.h\<close>, \<open>math/sinc.h\<close>).
\<close>

section \<open>Power decimator\<close>

type_synonym 'd firs = "(real, 'd) DecimatingFIR list"

record 'd PowerDecimator =
  pd_ratio :: nat
  pd_firs :: "'d firs"

definition getMaxRatio :: nat where
  "getMaxRatio = 2 ^ length plans"

definition checkRatio :: "nat \<Rightarrow> bool" where
  "checkRatio ratio \<longleftrightarrow> and ratio (ratio - 1) = 0 \<and> ratio \<noteq> 0 \<and> ratio \<le> getMaxRatio"

definition pd_plan :: "nat \<Rightarrow> (nat \<times> int list) list" where
  "pd_plan ratio = (if ratio > 1 then plans ! nat (\<lfloor>log 2 (real ratio)\<rfloor> - 1) else [])"

definition pd_reconfigure :: "nat \<Rightarrow> 'd::zero PowerDecimator" where
  "pd_reconfigure ratio =
     \<lparr>pd_ratio = ratio, pd_firs = map (\<lambda>(decimation, taps). decim_init (tap_values taps) decimation) (pd_plan ratio)\<rparr>"

definition pd_reset :: "'d::zero PowerDecimator \<Rightarrow> 'd PowerDecimator" where
  "pd_reset p = p\<lparr>pd_firs := map decim_reset (pd_firs p)\<rparr>"

text \<open>The loop over the stages. A stage's loop returns, \<open>decim.process_returns\<close>.\<close>

fun run_stages :: "(real list \<Rightarrow> 'd list \<Rightarrow> 'd) \<Rightarrow> 'd firs \<Rightarrow> 'd list \<Rightarrow> 'd firs \<times> 'd list" where
  "run_stages dot [] xs = ([], xs)"
| "run_stages dot (fir # firs) xs =
     (let (fir1, ys) = decim.process dot fir xs; (firs1, zs) = run_stages dot firs ys in (fir1 # firs1, zs))"

definition pd_process :: "(real list \<Rightarrow> 'd list \<Rightarrow> 'd) \<Rightarrow> 'd PowerDecimator \<Rightarrow> 'd list \<Rightarrow> 'd PowerDecimator \<times> 'd list" where
  "pd_process dot p xs =
     (if pd_ratio p = 1 then (p, xs)
      else let (firs, ys) = run_stages dot (pd_firs p) xs in (p\<lparr>pd_firs := firs\<rparr>, ys))"

definition pd_valid :: "'d PowerDecimator \<Rightarrow> bool" where
  "pd_valid p \<longleftrightarrow> list_all decim.valid (pd_firs p)"

interpretation stages: stream_processor "run_stages dot" "list_all decim.valid" for dot :: "real list \<Rightarrow> 'd list \<Rightarrow> 'd"
proof
  fix firs :: "'d firs" and xs assume "list_all decim.valid firs"
  then show "list_all decim.valid (fst (run_stages dot firs xs))"
  proof (induction firs arbitrary: xs)
    case (Cons fir firs)
    then show ?case using decim.process_valid [of fir dot xs] by (auto split: prod.splits) (metis fst_conv)
  qed simp
next
  fix firs :: "'d firs" assume "list_all decim.valid firs"
  then show "run_stages dot firs [] = (firs, [])" by (induction firs) (simp_all add: decim.process_nil)
next
  fix firs :: "'d firs" and xs ys assume "list_all decim.valid firs"
  then show "run_stages dot firs (xs @ ys) =
      (let (s1, out1) = run_stages dot firs xs; (s2, out2) = run_stages dot s1 ys in (s2, out1 @ out2))"
  proof (induction firs arbitrary: xs ys)
    case (Cons fir firs)
    have v: "decim.valid fir" "list_all decim.valid firs" using Cons.prems by simp_all
    obtain f1 o1 where 1: "decim.process dot fir xs = (f1, o1)" by fastforce
    obtain f2 o2 where 2: "decim.process dot f1 ys = (f2, o2)" by fastforce
    show ?case using decim.process_append [OF v(1), of dot xs ys] 1 2 Cons.IH [OF v(2), of o1 o2]
      by (simp split: prod.splits)
  qed simp
qed

interpretation power_decimator: stream_processor "pd_process dot" pd_valid for dot :: "real list \<Rightarrow> 'd list \<Rightarrow> 'd"
proof
  fix p :: "'d PowerDecimator" and xs assume "pd_valid p"
  then show "pd_valid (fst (pd_process dot p xs))" using stages.process_valid [of "pd_firs p" dot xs]
    by (simp add: pd_valid_def pd_process_def case_prod_beta)
next
  fix p :: "'d PowerDecimator" assume "pd_valid p"
  then show "pd_process dot p [] = (p, [])" using stages.process_nil [of "pd_firs p" dot] by (simp add: pd_valid_def pd_process_def)
next
  fix p :: "'d PowerDecimator" and xs ys assume "pd_valid p"
  then show "pd_process dot p (xs @ ys) = (let (s1, out1) = pd_process dot p xs; (s2, out2) = pd_process dot s1 ys in (s2, out1 @ out2))"
    using stages.process_append [of "pd_firs p" dot xs ys] by (simp add: pd_valid_def pd_process_def case_prod_beta Let_def)
qed

section \<open>How many samples come out\<close>

definition ceil_div :: "nat \<Rightarrow> nat \<Rightarrow> nat" where
  "ceil_div n d = (n + d - 1) div d"

lemma ceil_div_le: "0 < d \<Longrightarrow> ceil_div n d \<le> m \<longleftrightarrow> n \<le> m * d"
proof -
  assume d: "0 < d"
  have "ceil_div n d \<le> m \<longleftrightarrow> (n + d - 1) div d < Suc m" unfolding ceil_div_def by (rule less_Suc_eq_le [symmetric])
  also have "\<dots> \<longleftrightarrow> n + d - 1 < Suc m * d" by (rule div_less_iff_less_mult [OF d])
  finally show ?thesis using d by auto
qed

lemma ceil_div_ceil_div: "0 < a \<Longrightarrow> 0 < b \<Longrightarrow> ceil_div (ceil_div n a) b = ceil_div n (a * b)"
proof (rule antisym)
  assume ab: "0 < a" "0 < b"
  have e: "ceil_div (ceil_div n a) b \<le> m \<longleftrightarrow> ceil_div n (a * b) \<le> m" for m
    using ab by (simp add: ceil_div_le mult.assoc mult.commute [of a b])
  show "ceil_div (ceil_div n a) b \<le> ceil_div n (a * b)" using e by blast
  show "ceil_div n (a * b) \<le> ceil_div (ceil_div n a) b" using e by blast
qed

lemma decim_count:
  fixes xs :: "'d::zero list" and taps :: "real list"
  assumes "taps \<noteq> []" "0 < dec"
  shows "length (snd (decim.process dot (decim_init taps dec) xs)) = ceil_div (length xs) dec"
proof -
  have v: "decim.valid (decim_init taps dec :: (real, 'd) DecimatingFIR)" by (rule decim_valid_init [OF assms])
  have ok: "decim_ok (taps, dec)" using assms by (simp add: decim_ok_def)
  let ?b = "replicate (length taps - 1) 0 @ xs"
  obtain off' where l: "window_loop (\<lambda>c. length (fst c)) (decim_emit dot) (length xs) ?b 0 (taps, dec) =
      Some (map (\<lambda>k. dot taps (samples_at (length taps) ?b (k * dec))) [0..<num_ticks 0 (length xs) dec], off', (taps, dec))"
    using decim_loop [OF ok, of dot "length xs" ?b 0] by auto
  have "length (snd (decim.process dot (decim_init taps dec) xs)) = num_ticks 0 (length xs) dec"
    using decim.process_eq [OF _ l] v by (simp add: decim_init_def)
  then show ?thesis using num_ticks_ceiling [OF assms(2)] by (simp add: ceil_div_def)
qed

definition plan_ok :: "(nat \<times> int list) list \<Rightarrow> bool" where
  "plan_ok plan \<longleftrightarrow> list_all (\<lambda>(d, taps). 0 < d \<and> taps \<noteq> []) plan"

lemma stages_valid:
  "plan_ok plan \<Longrightarrow> list_all decim.valid (map (\<lambda>(d, taps). decim_init (tap_values taps) d :: (real, 'd::zero) DecimatingFIR) plan)"
  by (auto simp: plan_ok_def list_all_iff tap_values_def intro!: decim_valid_init)

lemma stages_count:
  fixes xs :: "'d::zero list"
  assumes "plan_ok plan"
  shows "length (snd (run_stages dot (map (\<lambda>(d, taps). decim_init (tap_values taps) d) plan) xs)) = ceil_div (length xs) (prod_list (map fst plan))"
  using assms
proof (induction plan arbitrary: xs)
  case Nil
  then show ?case by (simp add: ceil_div_def)
next
  case (Cons st plan)
  obtain d taps where st: "st = (d, taps)" by fastforce
  have d: "0 < d" "tap_values taps \<noteq> []" using Cons.prems by (simp_all add: st plan_ok_def tap_values_def)
  have "0 < prod_list (map fst plan)" using Cons.prems by (induction plan) (auto simp: plan_ok_def)
  moreover have "plan_ok plan" using Cons.prems by (simp add: plan_ok_def)
  moreover obtain f ys where p: "decim.process dot (decim_init (tap_values taps) d) xs = (f, ys)" by fastforce
  moreover have "length ys = ceil_div (length xs) d" using decim_count [OF d(2,1), of dot xs] p by simp
  ultimately show ?case using Cons.IH [of ys] d(1) by (simp add: st ceil_div_ceil_div case_prod_beta)
qed

lemma tables_not_empty: "fir_2_2_taps \<noteq> []" "fir_4_2_taps \<noteq> []" "fir_8_4_taps \<noteq> []" "fir_16_8_taps \<noteq> []" "fir_32_8_taps \<noteq> []"
  "fir_64_8_taps \<noteq> []" "fir_128_16_taps \<noteq> []" "fir_256_32_taps \<noteq> []" "fir_512_32_taps \<noteq> []" "fir_1024_64_taps \<noteq> []"
  "fir_2048_64_taps \<noteq> []" "fir_4096_64_taps \<noteq> []" "fir_8192_128_taps \<noteq> []"
  using table_ok_2_2 table_ok_4_2 table_ok_8_4 table_ok_16_8 table_ok_32_8 table_ok_64_8 table_ok_128_16 table_ok_256_32 table_ok_512_32
    table_ok_1024_64 table_ok_2048_64 table_ok_4096_64 table_ok_8192_128 by (auto simp: table_ok_def)

lemma plans_length: "length plans = 13"
  by (simp add: plans_def)

text \<open>The powers of two up to the maximum are accepted.\<close>

lemma checkRatio_power: "k \<le> 13 \<Longrightarrow> checkRatio (2 ^ k)"
proof -
  have "and (2 ^ k) (2 ^ k - 1) = take_bit k (2 ^ k :: nat)" by (simp only: take_bit_eq_mask mask_eq_exp_minus_1)
  then have "and (2 ^ k) (2 ^ k - 1) = (0 :: nat)" by (simp add: take_bit_eq_mod)
  then show "k \<le> 13 \<Longrightarrow> ?thesis" using power_increasing [of k 13 "2 :: nat"] by (simp add: checkRatio_def getMaxRatio_def plans_length)
qed

lemma plans_multiply: "list_all2 (\<lambda>plan k. plan_ok plan \<and> prod_list (map fst plan) = 2 ^ Suc k) plans [0, 1, 2, 3, 4, 5, 6, 7, 8, 9, 10, 11, 12]"
  by (simp add: plans_def plan_ok_def tables_not_empty)

lemma plan_indices: "[0, 1, 2, 3, 4, 5, 6, 7, 8, 9, 10, 11, 12] = [0 ..< 13 :: nat]"
  by (simp add: upt_rec)

lemma plan_of_ratio:
  assumes "k \<le> 13"
  shows "plan_ok (pd_plan (2 ^ k)) \<and> prod_list (map fst (pd_plan (2 ^ k))) = 2 ^ k"
proof (cases k)
  case 0
  then show ?thesis by (simp add: pd_plan_def plan_ok_def)
next
  case (Suc j)
  have "log 2 (real (2 ^ k)) = real k" by (simp add: log_nat_power)
  moreover have "1 < (2 :: nat) ^ k" using Suc by (intro one_less_power) simp_all
  ultimately have "pd_plan (2 ^ k) = plans ! j" using Suc by (simp add: pd_plan_def del: power_Suc of_nat_power)
  then show ?thesis using list_all2_nthD [OF plans_multiply, of j] assms Suc unfolding plan_indices by (simp add: plans_length)
qed

text \<open>The power decimator decimates by its ratio, in whatever blocks the samples come.\<close>

lemma pd_valid_configured: "k \<le> 13 \<Longrightarrow> pd_valid (pd_reconfigure (2 ^ k))"
  using plan_of_ratio [of k] by (simp add: pd_valid_def pd_reconfigure_def stages_valid)

lemma pd_count:
  assumes "k \<le> 13"
  shows "length (snd (pd_process dot (pd_reconfigure (2 ^ k)) xs)) = ceil_div (length xs) (2 ^ k)"
proof (cases "k = 0")
  case False
  then have "(2 :: nat) ^ k \<noteq> 1" by simp
  then show ?thesis using stages_count [of "pd_plan (2 ^ k)" dot xs] plan_of_ratio [OF assms]
    by (simp add: pd_process_def pd_reconfigure_def case_prod_beta)
qed (simp add: pd_process_def pd_reconfigure_def ceil_div_def)

lemma poly_count:
  fixes xs :: "'d::zero list"
  assumes "taps \<noteq> []" "0 < interp" "0 < decim"
  shows "length (snd (poly.process dot (poly_init interp decim taps) xs)) = ceil_div (length xs * interp) decim"
proof -
  have v: "poly.valid (poly_init interp decim taps :: 'd poly_state)" by (rule poly_valid_init [OF assms])
  obtain hist off c where s: "(poly_init interp decim taps :: 'd poly_state) = (hist, off, c)" by (metis prod_cases3)
  then have c: "off = 0" "pp_phase c = 0" "pp_interp c = interp" "pp_decim c = decim" "poly_ok c"
    using v by (auto simp: poly_init_def poly.valid_def)
  obtain off' c' where l: "window_loop pp_width (poly_emit dot) (length xs) (hist @ xs) off c =
      Some (map (\<lambda>k. poly_sample dot c (hist @ xs) (poly_time off c + k * pp_decim c)) [0..<num_ticks (poly_time off c) (length xs * pp_interp c) (pp_decim c)], off', c')"
    using poly_loop [OF c(5), of dot "length xs" "hist @ xs" off] by blast
  have "length (snd (poly.process dot (poly_init interp decim taps) xs)) = num_ticks 0 (length xs * interp) decim"
    using poly.process_eq [OF _ l] v c unfolding s by (simp add: poly_time_def)
  then show ?thesis using num_ticks_ceiling [OF assms(3)] by (simp add: ceil_div_def)
qed

section \<open>The low pass\<close>

definition math_sinc :: "real \<Rightarrow> real" where
  "math_sinc x = (if x = 0 then 1 else sin x / x)"

fun window_cosine :: "real \<Rightarrow> real \<Rightarrow> real list \<Rightarrow> nat \<Rightarrow> real \<Rightarrow> real" where
  "window_cosine n N [] i sign = 0"
| "window_cosine n N (c # coefs) i sign = sign * c * cos (real i * 2 * pi * n / N) + window_cosine n N coefs (i + 1) (- sign)"

definition window_nuttall :: "real \<Rightarrow> real \<Rightarrow> real" where
  "window_nuttall n N = window_cosine n N [0.355768, 0.487396, 0.144232, 0.012604] 0 1"

definition estimateTapCount :: "real \<Rightarrow> real \<Rightarrow> nat" where
  "estimateTapCount transWidth samplerate = nat \<lfloor>3.8 * samplerate / transWidth\<rfloor>"

definition windowedSinc :: "nat \<Rightarrow> real \<Rightarrow> real list" where
  "windowedSinc count omega =
     (let half = real count / 2; corr = omega / pi
      in map (\<lambda>i. let t = real i - half + 0.5 in math_sinc (t * omega) * window_nuttall (t - half) (real count) * corr) [0..<count])"

definition lowPass :: "real \<Rightarrow> real \<Rightarrow> real \<Rightarrow> real list" where
  "lowPass cutoff transWidth sampleRate =
     windowedSinc (estimateTapCount transWidth sampleRate) (hzToRads cutoff sampleRate)"

lemma lowPass_length: "length (lowPass cutoff transWidth sampleRate) = estimateTapCount transWidth sampleRate"
  by (simp add: lowPass_def windowedSinc_def Let_def)

section \<open>Rational resampler\<close>

datatype resamp_mode = BOTH | DECIM_ONLY | RESAMP_ONLY | NONE

record 'd RationalResampler =
  rr_decim :: "'d PowerDecimator"
  rr_resamp :: "'d poly_state"
  rr_in :: real
  rr_out :: real
  rr_mode :: resamp_mode

definition predecPower :: "real \<Rightarrow> real \<Rightarrow> nat" where
  "predecPower inSR outSR = (if inSR > outSR then min (nat \<lfloor>log 2 (inSR / outSR)\<rfloor>) getMaxRatio else 0)"

definition predecRatio :: "real \<Rightarrow> real \<Rightarrow> nat" where
  "predecRatio inSR outSR = min (2 ^ predecPower inSR outSR) getMaxRatio"

definition useDecim :: "real \<Rightarrow> real \<Rightarrow> bool" where
  "useDecim inSR outSR \<longleftrightarrow> inSR > outSR \<and> predecPower inSR outSR > 0"

definition rr_reconfigure :: "'d::zero RationalResampler \<Rightarrow> 'd RationalResampler" where
  "rr_reconfigure r =
     (let inSR = rr_in r; outSR = rr_out r; use = useDecim inSR outSR;
          ratio = predecRatio inSR outSR;
          intSamplerate = (if use then inSR / real ratio else inSR);
          r1 = (if use then r\<lparr>rr_decim := pd_reconfigure ratio\<rparr> else r);
          IntSR = nat (round intSamplerate); OutSR = nat (round outSR); g = gcd IntSR OutSR;
          interp = OutSR div g; decim = IntSR div g
      in if interp = decim then r1\<lparr>rr_mode := (if use then DECIM_ONLY else NONE)\<rparr>
         else
           let tapSamplerate = intSamplerate * real interp; tapBandwidth = min inSR outSR / 2; tapTransWidth = tapBandwidth * 0.1;
               taps = map (\<lambda>t. t * real interp) (lowPass tapBandwidth tapTransWidth tapSamplerate)
           in r1\<lparr>rr_resamp := poly_setRatio interp decim taps (rr_resamp r1), rr_mode := (if use then BOTH else RESAMP_ONLY)\<rparr>)"

definition rr_init :: "real \<Rightarrow> real \<Rightarrow> 'd::zero RationalResampler" where
  "rr_init inSR outSR =
     rr_reconfigure \<lparr>rr_decim = pd_reconfigure 2, rr_resamp = poly_init 1 1 (lowPass 0.25 0.1 1), rr_in = inSR, rr_out = outSR, rr_mode = NONE\<rparr>"

definition rr_setRates :: "real \<Rightarrow> real \<Rightarrow> 'd::zero RationalResampler \<Rightarrow> 'd RationalResampler" where
  "rr_setRates inSR outSR r = rr_reconfigure (r\<lparr>rr_in := inSR, rr_out := outSR\<rparr>)"

definition rr_setInSamplerate :: "real \<Rightarrow> 'd::zero RationalResampler \<Rightarrow> 'd RationalResampler" where
  "rr_setInSamplerate inSR r = rr_reconfigure (r\<lparr>rr_in := inSR\<rparr>)"

definition rr_setOutSamplerate :: "real \<Rightarrow> 'd::zero RationalResampler \<Rightarrow> 'd RationalResampler" where
  "rr_setOutSamplerate outSR r = rr_reconfigure (r\<lparr>rr_out := outSR\<rparr>)"

definition rr_reset :: "'d::zero RationalResampler \<Rightarrow> 'd RationalResampler" where
  "rr_reset r = r\<lparr>rr_decim := pd_reset (rr_decim r), rr_resamp := poly_reset (rr_resamp r)\<rparr>"

definition rr_process :: "(real list \<Rightarrow> 'd list \<Rightarrow> 'd) \<Rightarrow> 'd RationalResampler \<Rightarrow> 'd list \<Rightarrow> 'd RationalResampler \<times> 'd list" where
  "rr_process dot r xs =
     (case rr_mode r of
        BOTH \<Rightarrow> let (d, ys) = pd_process dot (rr_decim r) xs; (p, zs) = poly.process dot (rr_resamp r) ys
                in (r\<lparr>rr_decim := d, rr_resamp := p\<rparr>, zs)
      | DECIM_ONLY \<Rightarrow> let (d, ys) = pd_process dot (rr_decim r) xs in (r\<lparr>rr_decim := d\<rparr>, ys)
      | RESAMP_ONLY \<Rightarrow> let (p, zs) = poly.process dot (rr_resamp r) xs in (r\<lparr>rr_resamp := p\<rparr>, zs)
      | NONE \<Rightarrow> (r, xs))"

definition rr_valid :: "'d RationalResampler \<Rightarrow> bool" where
  "rr_valid r \<longleftrightarrow> pd_valid (rr_decim r) \<and> poly.valid (rr_resamp r)"

interpretation rational: stream_processor "rr_process dot" rr_valid for dot :: "real list \<Rightarrow> 'd list \<Rightarrow> 'd"
proof
  fix r :: "'d RationalResampler" and xs assume v: "rr_valid r"
  show "rr_valid (fst (rr_process dot r xs))"
    using v power_decimator.process_valid [of "rr_decim r" dot] poly.process_valid [of "rr_resamp r" dot]
    by (simp add: rr_valid_def rr_process_def case_prod_beta Let_def split: resamp_mode.splits)
next
  fix r :: "'d RationalResampler" assume "rr_valid r"
  then show "rr_process dot r [] = (r, [])"
    by (simp add: rr_valid_def rr_process_def power_decimator.process_nil poly.process_nil split: resamp_mode.splits)
next
  fix r :: "'d RationalResampler" and xs ys assume v: "rr_valid r"
  then have d: "pd_process dot (rr_decim r) (xs @ ys) =
      (fst (pd_process dot (fst (pd_process dot (rr_decim r) xs)) ys),
       snd (pd_process dot (rr_decim r) xs) @ snd (pd_process dot (fst (pd_process dot (rr_decim r) xs)) ys))"
    using power_decimator.process_append [of "rr_decim r" dot xs ys] by (simp add: rr_valid_def case_prod_beta Let_def)
  have p: "poly.process dot (rr_resamp r) (us @ ws) =
      (fst (poly.process dot (fst (poly.process dot (rr_resamp r) us)) ws),
       snd (poly.process dot (rr_resamp r) us) @ snd (poly.process dot (fst (poly.process dot (rr_resamp r) us)) ws))" for us ws
    using v poly.process_append [of "rr_resamp r" dot us ws] by (simp add: rr_valid_def case_prod_beta Let_def)
  show "rr_process dot r (xs @ ys) = (let (s1, out1) = rr_process dot r xs; (s2, out2) = rr_process dot s1 ys in (s2, out1 @ out2))"
    by (cases "rr_mode r") (simp_all add: rr_process_def case_prod_beta Let_def d p)
qed

section \<open>The rate\<close>

lemma min_of_power: "min (2 ^ a) (2 ^ b) = (2 :: nat) ^ min a b"
  by (rule min_of_mono) (rule monoI, simp add: power_increasing)

lemma div_pos: "0 < n \<Longrightarrow> d dvd n \<Longrightarrow> 0 < n div d" for n d :: nat
  by (auto elim: dvdE)

lemma predecRatio_power: "\<exists>k \<le> 13. predecRatio inSR outSR = 2 ^ k"
proof -
  have m: "getMaxRatio = 2 ^ 13" by (simp add: getMaxRatio_def plans_length)
  have "predecRatio inSR outSR = 2 ^ min (predecPower inSR outSR) 13"
    unfolding predecRatio_def m by (rule min_of_power)
  then show ?thesis by (metis min.cobounded2)
qed

lemma predecRatio_le:
  assumes "0 < outSR" "outSR < inSR"
  shows "real (predecRatio inSR outSR) \<le> inSR / outSR"
proof -
  have l: "0 < log 2 (inSR / outSR)" using assms by simp
  have "predecPower inSR outSR \<le> nat \<lfloor>log 2 (inSR / outSR)\<rfloor>" using assms by (simp add: predecPower_def)
  then have "real (predecPower inSR outSR) \<le> log 2 (inSR / outSR)" using l by linarith
  then have "2 powr real (predecPower inSR outSR) \<le> inSR / outSR" using assms by (simp add: le_log_iff)
  moreover have "real (predecRatio inSR outSR) \<le> 2 powr real (predecPower inSR outSR)"
    by (simp add: predecRatio_def powr_realpow min_le_iff_disj)
  ultimately show ?thesis by simp
qed

text \<open>The decimation before the resampler, and the rate between the two.\<close>

definition predec :: "nat \<Rightarrow> nat \<Rightarrow> nat" where
  "predec inSR outSR = (if useDecim (real inSR) (real outSR) then predecRatio (real inSR) (real outSR) else 1)"

lemma predec_cases: "\<exists>k \<le> 13. predec inSR outSR = 2 ^ k"
  using predecRatio_power [of "real inSR" "real outSR"] by (auto simp: predec_def intro: exI [of _ 0])

lemma predec_between:
  assumes "0 < outSR" "predec inSR outSR dvd inSR" "predec inSR outSR \<noteq> 1"
  shows "outSR \<le> inSR div predec inSR outSR"
proof -
  have u: "useDecim (real inSR) (real outSR)" using assms(3) by (auto simp: predec_def split: if_splits)
  then have p: "real (predec inSR outSR) \<le> real inSR / real outSR" using assms(1) predecRatio_le [of "real outSR" "real inSR"]
    by (simp add: predec_def useDecim_def)
  then have "real (outSR * predec inSR outSR) \<le> real inSR" using assms(1) by (simp add: field_simps)
  then have "outSR * predec inSR outSR \<le> inSR" by linarith
  moreover have "0 < predec inSR outSR" using predec_cases [of inSR outSR] by auto
  ultimately show ?thesis by (simp add: less_eq_div_iff_mult_less_eq)
qed

lemma ceil_div_cancel: "0 < g \<Longrightarrow> 0 < d \<Longrightarrow> ceil_div (n * g) (d * g) = ceil_div n d"
proof (rule antisym)
  assume "0 < g" "0 < d"
  then have e: "ceil_div (n * g) (d * g) \<le> m \<longleftrightarrow> ceil_div n d \<le> m" for m by (simp add: ceil_div_le flip: mult.assoc)
  show "ceil_div (n * g) (d * g) \<le> ceil_div n d" using e by blast
  show "ceil_div n d \<le> ceil_div (n * g) (d * g)" using e by blast
qed

lemma ceil_div_bounds:
  assumes "0 < d"
  shows "real n / real d \<le> real (ceil_div n d) \<and> real (ceil_div n d) < real n / real d + 1"
proof -
  have "n \<le> ceil_div n d * d" using ceil_div_le [OF assms, of n "ceil_div n d"] by simp
  then have "real n \<le> real (ceil_div n d) * real d" by (metis of_nat_le_iff of_nat_mult)
  moreover have "ceil_div n d * d \<le> n + d - 1" unfolding ceil_div_def by simp
  then have "real (ceil_div n d) * real d < real n + real d" using assms by (metis (mono_tags) add_gr_0 diff_less le_less_trans less_numeral_extra(1) of_nat_add of_nat_less_iff of_nat_mult)
  ultimately show ?thesis using assms by (simp add: field_simps)
qed

lemma lowPass_not_empty:
  assumes "0 < inSR" "0 < outSR" "min inSR outSR \<le> intSR" "1 \<le> interp"
  shows "map (\<lambda>t. t * real interp) (lowPass (min inSR outSR / 2) (min inSR outSR / 2 * 0.1) (intSR * real interp)) \<noteq> []"
proof -
  have "min inSR outSR * 1 \<le> intSR * real interp" using assms by (intro mult_mono) simp_all
  then have "1 \<le> 3.8 * (intSR * real interp) / (min inSR outSR / 2 * 0.1)" using assms by (simp add: le_divide_eq)
  then have "0 < estimateTapCount (min inSR outSR / 2 * 0.1) (intSR * real interp)" by (simp add: estimateTapCount_def le_floor_iff)
  then show ?thesis using lowPass_length by (metis length_0_conv length_map less_numeral_extra(3))
qed

lemma dummy_taps: "lowPass 0.25 0.1 1 \<noteq> []"
proof -
  have "estimateTapCount 0.1 1 = 38" by (simp add: estimateTapCount_def)
  then show ?thesis using lowPass_length [of "0.25" "0.1" 1] by (metis list.size(3) zero_neq_numeral)
qed

text \<open>The resampler of two whole rates whose decimation comes out even.\<close>

lemma rr_init_cases:
  fixes r :: "'d::zero RationalResampler"
  assumes "0 < inSR" "0 < outSR" "predec inSR outSR dvd inSR"
  defines "r \<equiv> rr_init (real inSR) (real outSR)" and "I \<equiv> inSR div predec inSR outSR"
  defines "g \<equiv> gcd I outSR"
  shows "rr_valid r \<and>
    (outSR = I \<and> rr_mode r = (if useDecim inSR outSR then DECIM_ONLY else NONE) \<or>
     outSR \<noteq> I \<and> rr_mode r = (if useDecim inSR outSR then BOTH else RESAMP_ONLY) \<and>
       (\<exists>taps. taps \<noteq> [] \<and> rr_resamp r = poly_init (outSR div g) (I div g) taps)) \<and>
    (useDecim inSR outSR \<longrightarrow> rr_decim r = pd_reconfigure (predec inSR outSR))"
proof -
  let ?use = "useDecim (real inSR) (real outSR)" and ?p = "predec inSR outSR"
  have p: "0 < ?p" using predec_cases [of inSR outSR] by auto
  have I: "0 < I" "I * ?p = inSR" using div_pos [OF assms(1,3)] assms(3) by (simp_all add: I_def)
  have int: "(if ?use then real inSR / real (predecRatio (real inSR) (real outSR)) else real inSR) = real I"
    using real_of_nat_div [OF assms(3)] by (auto simp: predec_def I_def)
  have g: "0 < g" "g dvd I" "g dvd outSR" using I by (simp_all add: g_def)
  have pos: "0 < outSR div g" "0 < I div g" using div_pos [OF assms(2) g(3)] div_pos [OF I(1) g(2)] by simp_all
  have same: "outSR div g = I div g \<longleftrightarrow> outSR = I" using g by (metis dvd_div_mult_self)
  have le: "min (real inSR) (real outSR) \<le> real I"
    using predec_between [OF assms(2,3)] I by (cases "?p = 1") (auto simp: I_def)
  let ?taps = "map (\<lambda>t. t * real (outSR div g)) (lowPass (min (real inSR) (real outSR) / 2) (min (real inSR) (real outSR) / 2 * 0.1) (real I * real (outSR div g)))"
  have taps: "?taps \<noteq> []" by (rule lowPass_not_empty) (use assms(1,2) le pos in auto)
  obtain k where k: "k \<le> 13" "predecRatio (real inSR) (real outSR) = 2 ^ k" using predecRatio_power by blast
  have pd: "pd_valid (pd_reconfigure (predecRatio (real inSR) (real outSR)) :: 'd PowerDecimator)" "pd_valid (pd_reconfigure 2 :: 'd PowerDecimator)"
    using pd_valid_configured [OF k(1)] pd_valid_configured [of 1] by (simp_all add: k(2))
  have pv: "poly.valid (poly_init (outSR div g) (I div g) ?taps :: 'd poly_state)" "poly.valid (poly_init 1 1 (lowPass 0.25 0.1 1) :: 'd poly_state)"
    using poly_valid_init [OF taps pos] poly_valid_init [OF dummy_taps, of 1 1] by simp_all
  have r: "r = (let r0 = \<lparr>rr_decim = (if ?use then pd_reconfigure ?p else pd_reconfigure 2), rr_resamp = poly_init 1 1 (lowPass 0.25 0.1 1),
        rr_in = real inSR, rr_out = real outSR, rr_mode = NONE\<rparr>
      in if outSR = I then r0\<lparr>rr_mode := (if ?use then DECIM_ONLY else NONE)\<rparr>
         else r0\<lparr>rr_resamp := poly_init (outSR div g) (I div g) ?taps, rr_mode := (if ?use then BOTH else RESAMP_ONLY)\<rparr>)"
    unfolding r_def rr_init_def rr_reconfigure_def Let_def RationalResampler.select_convs int
    by (simp add: same [unfolded g_def] g_def poly_setRatio_def predec_def)
  show ?thesis using pd pv taps unfolding r Let_def by (auto simp: rr_valid_def predec_def)
qed

text \<open>
  C11: The rational resampler keeps the rate. For whole sample rates of which the power of two chosen for the
  decimation divides the input's, the number of samples put out is, at any time and however the input was cut
  into blocks, the number taken in times the quotient of the rates, or up to two more: it never drifts.
\<close>

theorem resampler_keeps_rate:
  fixes bs :: "'d::zero list list" and dot :: "real list \<Rightarrow> 'd list \<Rightarrow> 'd"
  assumes "0 < inSR" "0 < outSR" "predec inSR outSR dvd inSR"
  defines "n \<equiv> length (concat bs)" and "m \<equiv> length (snd (run_blocks (rr_process dot) (rr_init (real inSR) (real outSR)) bs))"
  shows "real n * real outSR / real inSR \<le> real m \<and> real m < real n * real outSR / real inSR + 2"
proof -
  define p where "p = predec inSR outSR"
  define I where "I = inSR div p"
  define g where "g = gcd I outSR"
  let ?r = "rr_init (real inSR) (real outSR) :: 'd RationalResampler" and ?xs = "concat bs"
  let ?use = "useDecim (real inSR) (real outSR)"
  note cs = rr_init_cases [OF assms(1-3), where 'd = 'd, folded p_def, folded I_def, folded g_def]
  obtain k where k: "k \<le> 13" "p = 2 ^ k" using predec_cases [of inSR outSR] by (auto simp: p_def)
  have p: "0 < p" by (simp add: k(2))
  have I: "0 < I" "I * p = inSR" using div_pos [OF assms(1,3)] assms(3) by (simp_all add: I_def p_def)
  have g: "0 < g" "g dvd I" "g dvd outSR" using I by (simp_all add: g_def)
  have pos: "0 < outSR div g" "0 < I div g" using div_pos [OF assms(2) g(3)] div_pos [OF I(1) g(2)] by simp_all
  have noDecim: "\<not> ?use \<Longrightarrow> p = 1" by (simp add: p_def predec_def)
  have d: "length (snd (pd_process dot (pd_reconfigure p) ?xs)) = ceil_div n p" using pd_count [OF k(1), of dot ?xs] by (simp add: k(2) n_def)
  have one: "ceil_div j 1 = j" "ceil_div j (Suc 0) = j" for j by (simp_all add: ceil_div_def)
  have cancel: "ceil_div (j * (outSR div g)) (I div g) = ceil_div (j * outSR) I" for j
    using ceil_div_cancel [OF g(1) pos(2), of "j * (outSR div g)"] g by (simp add: mult.assoc)
  have self: "ceil_div (j * I) I = j" for j using ceil_div_cancel [OF I(1), of 1 j] one by simp
  have "m = length (snd (rr_process dot ?r ?xs))" unfolding m_def using rational.run_blocks_concat [of ?r dot bs] cs by simp
  also have "\<dots> = ceil_div (ceil_div n p * outSR) I"
  proof (cases "outSR = I")
    case True
    then show ?thesis using cs d noDecim by (cases ?use) (auto simp: rr_process_def case_prod_beta self one n_def)
  next
    case False
    obtain taps where taps: "taps \<noteq> []" "rr_resamp ?r = poly_init (outSR div g) (I div g) taps" using cs False by blast
    have "length (snd (poly.process dot (rr_resamp ?r) ys)) = ceil_div (length ys * outSR) I" for ys
      unfolding taps(2) poly_count [OF taps(1) pos] by (rule cancel)
    then show ?thesis using cs d noDecim False by (cases ?use) (auto simp: rr_process_def case_prod_beta one n_def Let_def)
  qed
  finally have m: "m = ceil_div (ceil_div n p * outSR) I" .
  have q: "real outSR / real I = real p * (real outSR / real inSR)" using I p by (simp add: field_simps flip: I(2))
  note b1 = ceil_div_bounds [OF p, of n] and b2 = ceil_div_bounds [OF I(1), of "ceil_div n p * outSR"]
  have e: "real (ceil_div n p * outSR) / real I = real (ceil_div n p) * (real outSR / real I)" by simp
  have nq: "real n / real p * (real outSR / real I) = real n * real outSR / real inSR" unfolding q using p by simp
  have nn: "0 \<le> real outSR / real I" by simp
  have lo: "real n / real p * (real outSR / real I) \<le> real (ceil_div n p) * (real outSR / real I)" using b1 nn by (intro mult_right_mono) simp_all
  have up: "real (ceil_div n p) * (real outSR / real I) \<le> real n / real p * (real outSR / real I) + 1"
  proof (cases "p = 1")
    case True
    then show ?thesis by (simp add: one)
  next
    case False
    then have "outSR \<le> I" using predec_between [OF assms(2,3)] by (simp add: I_def p_def)
    then have le1: "real outSR / real I \<le> 1" using I(1) by simp
    have "real (ceil_div n p) * (real outSR / real I) \<le> (real n / real p + 1) * (real outSR / real I)"
      using b1 nn by (intro mult_right_mono) simp_all
    also have "(real n / real p + 1) * (real outSR / real I) = real n / real p * (real outSR / real I) + real outSR / real I"
      unfolding distrib_right mult_1 ..
    also have "\<dots> \<le> real n / real p * (real outSR / real I) + 1" using le1 by (rule add_left_mono)
    finally show ?thesis .
  qed
  show ?thesis using b2 lo up unfolding m e nq [symmetric] by linarith
qed

lemma predec_50: "predec 2400000 48000 = 32"
proof -
  have "5 \<le> log 2 (50 :: real)" "log 2 (50 :: real) < 6" by (simp_all add: le_log_iff log_less_iff powr_numeral)
  then have "\<lfloor>log 2 (50 :: real)\<rfloor> = 5" by linarith
  then show ?thesis by (simp add: predec_def useDecim_def predecPower_def predecRatio_def getMaxRatio_def plans_length)
qed

theorem resampler_keeps_rate_witness:
  "real (length (concat [replicate 700 (0 :: real), replicate 300 1])) * 48000 / 2400000 \<le>
      real (length (snd (run_blocks (rr_process sum_of_products) (rr_init 2400000 48000) [replicate 700 (0 :: real), replicate 300 1]))) \<and>
    real (length (snd (run_blocks (rr_process sum_of_products) (rr_init 2400000 48000) [replicate 700 (0 :: real), replicate 300 1]))) < 22"
  using resampler_keeps_rate [of 2400000 48000 "[replicate 700 (0 :: real), replicate 300 1]" sum_of_products] by (simp add: predec_50 del: run_blocks.simps)

section \<open>Frequency translation\<close>

text \<open>
  The rotator of VOLK is a parameter; \<open>rotator_ok\<close> says what its documentation says, that it multiplies the
  samples by the phase, which it advances by the increment at each, and leaves the phase for the next call.
\<close>

type_synonym rotator = "complex \<Rightarrow> complex \<Rightarrow> complex list \<Rightarrow> complex list \<times> complex"

definition rotator_ok :: "rotator \<Rightarrow> bool" where
  "rotator_ok rot \<longleftrightarrow> (\<forall>inc phase xs. rot inc phase xs = (map (\<lambda>i. xs ! i * (phase * inc ^ i)) [0..<length xs], phase * inc ^ length xs))"

text \<open>An instance of the hypothesis.\<close>

definition rotate_samples :: rotator where
  "rotate_samples inc phase xs = (map (\<lambda>i. xs ! i * (phase * inc ^ i)) [0..<length xs], phase * inc ^ length xs)"

lemma rotator_ok_rotate_samples: "rotator_ok rotate_samples"
  by (simp add: rotator_ok_def rotate_samples_def)

record FrequencyXlator =
  xl_phase :: complex
  xl_phaseDelta :: complex

definition xl_init :: "real \<Rightarrow> real \<Rightarrow> FrequencyXlator" where
  "xl_init offset samplerate = \<lparr>xl_phase = 1, xl_phaseDelta = cis (hzToRads offset samplerate)\<rparr>"

definition xl_setOffset :: "real \<Rightarrow> real \<Rightarrow> FrequencyXlator \<Rightarrow> FrequencyXlator" where
  "xl_setOffset offset samplerate x = x\<lparr>xl_phaseDelta := cis (hzToRads offset samplerate)\<rparr>"

definition xl_reset :: "FrequencyXlator \<Rightarrow> FrequencyXlator" where
  "xl_reset x = x\<lparr>xl_phase := 1\<rparr>"

definition xl_process :: "rotator \<Rightarrow> FrequencyXlator \<Rightarrow> complex list \<Rightarrow> FrequencyXlator \<times> complex list" where
  "xl_process rot x xs = (let (ys, phase) = rot (xl_phaseDelta x) (xl_phase x) xs in (x\<lparr>xl_phase := phase\<rparr>, ys))"

text \<open>The stream shifted in frequency.\<close>

definition shifted :: "complex \<Rightarrow> complex \<Rightarrow> complex list \<Rightarrow> complex list" where
  "shifted inc phase xs = map (\<lambda>i. xs ! i * (phase * inc ^ i)) [0..<length xs]"

lemma shifted_append: "shifted inc phase (xs @ ys) = shifted inc phase xs @ shifted inc (phase * inc ^ length xs) ys"
proof -
  have "map (\<lambda>i. (xs @ ys) ! i * (phase * inc ^ i)) [0..<length xs] = map (\<lambda>i. xs ! i * (phase * inc ^ i)) [0..<length xs]"
    by (rule map_cong) (simp_all add: nth_append)
  then show ?thesis by (simp add: shifted_def map_upt_append power_add mult.assoc)
qed

lemma xl_process_shifted: "rotator_ok rot \<Longrightarrow> xl_process rot x xs =
    (x\<lparr>xl_phase := xl_phase x * xl_phaseDelta x ^ length xs\<rparr>, shifted (xl_phaseDelta x) (xl_phase x) xs)"
  by (simp add: xl_process_def rotator_ok_def shifted_def)

lemma xl_stream_processor: "rotator_ok rot \<Longrightarrow> stream_processor (xl_process rot) (\<lambda>_. True)"
  by unfold_locales (simp_all add: xl_process_shifted shifted_append power_add mult.assoc, simp add: shifted_def)

interpretation xlator_resampler: processor_pair "xl_process rotate_samples" "\<lambda>_. True" "rr_process dot" rr_valid
    for dot :: "real list \<Rightarrow> complex list \<Rightarrow> complex"
  by (intro processor_pair.intro xl_stream_processor [OF rotator_ok_rotate_samples] rational.stream_processor_axioms)

section \<open>The VFO\<close>

record RxVFO =
  vfo_xlator :: FrequencyXlator
  vfo_resamp :: "complex RationalResampler"
  vfo_filter :: "(real, complex) FIR"
  vfo_filterNeeded :: bool
  vfo_in :: real
  vfo_out :: real
  vfo_bandwidth :: real
  vfo_offset :: real

definition vfo_taps :: "real \<Rightarrow> real \<Rightarrow> real list" where
  "vfo_taps bandwidth outSR = (let filterWidth = bandwidth / 2 in lowPass filterWidth (filterWidth * 0.1) outSR)"

definition vfo_init :: "real \<Rightarrow> real \<Rightarrow> real \<Rightarrow> real \<Rightarrow> RxVFO" where
  "vfo_init inSR outSR bandwidth offset =
     \<lparr>vfo_xlator = xl_init (- offset) inSR, vfo_resamp = rr_init inSR outSR, vfo_filter = fir_init (vfo_taps bandwidth outSR),
      vfo_filterNeeded = (bandwidth \<noteq> outSR), vfo_in = inSR, vfo_out = outSR, vfo_bandwidth = bandwidth, vfo_offset = offset\<rparr>"

definition vfo_setInSamplerate :: "real \<Rightarrow> RxVFO \<Rightarrow> RxVFO" where
  "vfo_setInSamplerate inSR v =
     v\<lparr>vfo_in := inSR, vfo_xlator := xl_setOffset (- vfo_offset v) inSR (vfo_xlator v), vfo_resamp := rr_setInSamplerate inSR (vfo_resamp v)\<rparr>"

definition vfo_newTaps :: "RxVFO \<Rightarrow> RxVFO" where
  "vfo_newTaps v =
     (if vfo_filterNeeded v then v\<lparr>vfo_filter := fir_setTaps (vfo_taps (vfo_bandwidth v) (vfo_out v)) (vfo_filter v)\<rparr> else v)"

definition vfo_setOutSamplerate :: "real \<Rightarrow> real \<Rightarrow> RxVFO \<Rightarrow> RxVFO" where
  "vfo_setOutSamplerate outSR bandwidth v =
     vfo_newTaps (v\<lparr>vfo_out := outSR, vfo_bandwidth := bandwidth, vfo_filterNeeded := (bandwidth \<noteq> outSR),
       vfo_resamp := rr_setOutSamplerate outSR (vfo_resamp v)\<rparr>)"

definition vfo_setBandwidth :: "real \<Rightarrow> RxVFO \<Rightarrow> RxVFO" where
  "vfo_setBandwidth bandwidth v = vfo_newTaps (v\<lparr>vfo_bandwidth := bandwidth, vfo_filterNeeded := (bandwidth \<noteq> vfo_out v)\<rparr>)"

definition rxvfo_setOffset :: "real \<Rightarrow> RxVFO \<Rightarrow> RxVFO" where
  "rxvfo_setOffset offset v = v\<lparr>vfo_offset := offset, vfo_xlator := xl_setOffset (- offset) (vfo_in v) (vfo_xlator v)\<rparr>"

definition vfo_reset :: "RxVFO \<Rightarrow> RxVFO" where
  "vfo_reset v = v\<lparr>vfo_xlator := xl_reset (vfo_xlator v), vfo_resamp := rr_reset (vfo_resamp v), vfo_filter := fir_reset (vfo_filter v)\<rparr>"

definition vfo_process :: "(real list \<Rightarrow> complex list \<Rightarrow> complex) \<Rightarrow> rotator \<Rightarrow> RxVFO \<Rightarrow> complex list \<Rightarrow> RxVFO \<times> complex list" where
  "vfo_process dot rot v xs =
     (let (x, ys) = xl_process rot (vfo_xlator v) xs
      in if \<not> vfo_filterNeeded v then
           let (r, zs) = rr_process dot (vfo_resamp v) ys in (v\<lparr>vfo_xlator := x, vfo_resamp := r\<rparr>, zs)
         else
           let (r, zs) = rr_process dot (vfo_resamp v) ys; (f, ws) = fir_process dot (vfo_filter v) zs
           in (v\<lparr>vfo_xlator := x, vfo_resamp := r, vfo_filter := f\<rparr>, ws))"

definition vfo_valid :: "RxVFO \<Rightarrow> bool" where
  "vfo_valid v \<longleftrightarrow> rr_valid (vfo_resamp v) \<and> fir_valid (vfo_filter v)"

lemma vfo_stream_processor:
  assumes "rotator_ok rot"
  shows "stream_processor (vfo_process dot rot) vfo_valid"
proof
  fix v xs assume "vfo_valid v"
  then show "vfo_valid (fst (vfo_process dot rot v xs))"
    using rational.process_valid [of "vfo_resamp v" dot] fir.process_valid [of "vfo_filter v" dot]
    by (simp add: vfo_valid_def vfo_process_def case_prod_beta Let_def)
next
  fix v assume v: "vfo_valid v"
  then show "vfo_process dot rot v [] = (v, [])"
    by (simp add: vfo_valid_def vfo_process_def xl_process_shifted [OF assms] shifted_def rational.process_nil fir.process_nil)
next
  fix v xs ys assume v: "vfo_valid v"
  note x = stream_processor.process_append [OF xl_stream_processor [OF assms], of "vfo_xlator v" xs ys, simplified]
  note r = rational.process_append [of "vfo_resamp v" dot] and f = fir.process_append [of "vfo_filter v" dot]
  show "vfo_process dot rot v (xs @ ys) = (let (s1, out1) = vfo_process dot rot v xs; (s2, out2) = vfo_process dot rot s1 ys in (s2, out1 @ out2))"
    using v by (simp add: vfo_valid_def vfo_process_def x r f case_prod_beta Let_def)
qed

lemma vfo_taps_not_empty: "0 < bandwidth \<Longrightarrow> bandwidth \<le> outSR \<Longrightarrow> vfo_taps bandwidth outSR \<noteq> []"
proof -
  assume "0 < bandwidth" "bandwidth \<le> outSR"
  then have "1 \<le> 3.8 * outSR / (bandwidth / 2 * 0.1)" by (simp add: le_divide_eq)
  then have "0 < estimateTapCount (bandwidth / 2 * 0.1) outSR" by (simp add: estimateTapCount_def le_floor_iff)
  then show ?thesis unfolding vfo_taps_def Let_def using lowPass_length by (metis length_0_conv less_numeral_extra(3))
qed

text \<open>What is at the offset of the VFO comes out at frequency 0.\<close>

lemma shifted_tone: "shifted (cis (- w)) 1 (map (\<lambda>i. cis (w * real i)) [0..<n]) = replicate n 1"
  by (rule nth_equalityI) (simp_all add: shifted_def DeMoivre cis_mult mult.commute)

text \<open>
  C10: The VFO shifts, resamples and filters. Whatever the blocks in which the spectrum arrives, what it puts out
  is the input turned back by its offset, resampled, and, if the bandwidth is not the whole output rate, convolved
  with the taps of the low pass of that bandwidth: at no boundary of a block is the phase, the resampler or the
  filter interrupted.
\<close>

theorem vfo_receives:
  assumes "dot_ok dot" "rotator_ok rot" "0 < inSR" "0 < outSR" "predec inSR outSR dvd inSR" "0 < bandwidth" "bandwidth \<le> real outSR"
  shows "snd (run_blocks (vfo_process dot rot) (vfo_init (real inSR) (real outSR) bandwidth offset) bs) =
    (let zs = snd (rr_process dot (rr_init (real inSR) (real outSR)) (shifted (cis (- (2 * pi * offset / real inSR))) 1 (concat bs)))
     in if bandwidth = real outSR then zs else map (convolution (vfo_taps bandwidth (real outSR)) zs) [0..<length zs])"
proof -
  let ?v = "vfo_init (real inSR) (real outSR) bandwidth offset"
  have taps: "vfo_taps bandwidth (real outSR) \<noteq> []" by (rule vfo_taps_not_empty [OF assms(6,7)])
  have "rr_valid (rr_init (real inSR) (real outSR) :: complex RationalResampler)" using rr_init_cases [OF assms(3-5), where 'd = complex] by blast
  then have v: "vfo_valid ?v" using fir_valid_init [OF taps] by (simp add: vfo_valid_def vfo_init_def)
  have x: "snd (xl_process rot (vfo_xlator ?v) xs) = shifted (cis (- (2 * pi * offset / real inSR))) 1 xs" for xs
    by (simp add: xl_process_shifted [OF assms(2)] vfo_init_def xl_init_def hzToRads_def)
  have "snd (run_blocks (vfo_process dot rot) ?v bs) = snd (vfo_process dot rot ?v (concat bs))"
    using stream_processor.run_blocks_concat [OF vfo_stream_processor [OF assms(2)] v] by metis
  also have "\<dots> = (let zs = snd (rr_process dot (rr_init (real inSR) (real outSR)) (shifted (cis (- (2 * pi * offset / real inSR))) 1 (concat bs)))
     in if bandwidth = real outSR then zs else snd (fir_process dot (fir_init (vfo_taps bandwidth (real outSR))) zs))"
    unfolding vfo_process_def case_prod_beta Let_def x by (simp add: vfo_init_def)
  finally show ?thesis by (simp add: Let_def fir_process_convolution [OF assms(1) taps])
qed

theorem vfo_receives_witness:
  "snd (run_blocks (vfo_process sum_of_products rotate_samples) (vfo_init 2400000 48000 10000 100000) [[1, \<i>], [- 1]]) =
    (let zs = snd (rr_process sum_of_products (rr_init 2400000 48000) (shifted (cis (- (2 * pi * 100000 / 2400000))) 1 [1, \<i>, - 1]))
     in map (convolution (vfo_taps 10000 48000) zs) [0..<length zs])"
  using vfo_receives [OF dot_ok_sum_of_products rotator_ok_rotate_samples, of 2400000 48000 10000 100000 "[[1, \<i>], [- 1]]"]
  by (simp add: predec_50 del: run_blocks.simps)

end
