(* ===== verification/DspLoops.thy ===== *)
theory DspLoops
  imports DspProcessor Floats
begin

text \<open>
  Control loops over the samples (\<open>core/src/dsp/loop\<close>): the automatic gain controls \<open>agc.h\<close> and \<open>fast_agc.h\<close>,
  \<open>phase_control_loop.h\<close> with the loops built on it, \<open>pll.h\<close>, \<open>carrier_tracking_pll.h\<close> and \<open>costas.h\<close>, and the
  DC blocker, deemphasis and power squelch. Samples are real or complex numbers, the amplitude is the norm.
  The phase control loop is a template over its number type, here with the arithmetic as an argument: exact for the
  loops built on it, and the single precision of \<open>Floats\<close> for the question whether it returns at all.
\<close>

section \<open>Automatic gain control\<close>

record AGC =
  agc_setPoint :: real
  agc_attack :: real
  agc_decay :: real
  agc_maxGain :: real
  agc_maxOutputAmp :: real
  agc_initGain :: real
  agc_gain :: real
  agc_enabled :: bool
  agc_amp :: real

definition agc_init :: "real \<Rightarrow> real \<Rightarrow> real \<Rightarrow> real \<Rightarrow> real \<Rightarrow> real \<Rightarrow> AGC" where
  "agc_init setPoint attack decay maxGain maxOutputAmp initGain =
     \<lparr>agc_setPoint = setPoint, agc_attack = attack, agc_decay = decay, agc_maxGain = maxGain, agc_maxOutputAmp = maxOutputAmp,
      agc_initGain = initGain, agc_gain = min initGain maxGain, agc_enabled = True, agc_amp = setPoint / initGain\<rparr>"

definition agc_setGain :: "real \<Rightarrow> AGC \<Rightarrow> AGC" where
  "agc_setGain gain a = (let a1 = a\<lparr>agc_gain := gain\<rparr> in if gain > 0 then a1\<lparr>agc_amp := agc_setPoint a / gain\<rparr> else a1)"

definition agc_reset :: "AGC \<Rightarrow> AGC" where
  "agc_reset a = a\<lparr>agc_amp := agc_setPoint a / agc_initGain a, agc_gain := min (agc_initGain a) (agc_maxGain a)\<rparr>"

text \<open>The amplitude tracked, for a sample that is not silent.\<close>

definition agc_track :: "real \<Rightarrow> AGC \<Rightarrow> AGC" where
  "agc_track inAmp a =
     (if inAmp \<noteq> 0 then
        let amp = (if inAmp > agc_amp a then agc_amp a * (1 - agc_attack a) + inAmp * agc_attack a
                   else agc_amp a * (1 - agc_decay a) + inAmp * agc_decay a)
        in a\<lparr>agc_amp := amp, agc_gain := min (agc_setPoint a / amp) (agc_maxGain a)\<rparr>
      else a\<lparr>agc_gain := 1\<rparr>)"

text \<open>The loudest of the samples left in the block, the current one included.\<close>

definition agc_lookAhead :: "'d::real_normed_vector list \<Rightarrow> real" where
  "agc_lookAhead rest = fold (\<lambda>x maxAmp. if norm x > maxAmp then norm x else maxAmp) rest 0"

definition agc_sample :: "'d::real_normed_vector \<Rightarrow> 'd list \<Rightarrow> AGC \<Rightarrow> AGC \<times> 'd" where
  "agc_sample x rest a =
     (let inAmp = norm x
      in if agc_enabled a then
           let a1 = agc_track inAmp a;
               a2 = (if inAmp * agc_gain a1 > agc_maxOutputAmp a then
                       let maxAmp = agc_lookAhead (x # rest)
                       in a1\<lparr>agc_amp := maxAmp, agc_gain := min (agc_setPoint a / maxAmp) (agc_maxGain a)\<rparr>
                     else a1)
           in (a2, agc_gain a2 *\<^sub>R x)
         else (a, (if inAmp * agc_gain a > agc_maxOutputAmp a then agc_maxOutputAmp a / inAmp else agc_gain a) *\<^sub>R x))"

fun agc_process :: "AGC \<Rightarrow> 'd::real_normed_vector list \<Rightarrow> AGC \<times> 'd list" where
  "agc_process a [] = (a, [])"
| "agc_process a (x # xs) = (let (a1, y) = agc_sample x xs a; (a2, ys) = agc_process a1 xs in (a2, y # ys))"

definition agc_ok :: "AGC \<Rightarrow> bool" where
  "agc_ok a \<longleftrightarrow> 0 < agc_setPoint a \<and> 0 \<le> agc_attack a \<and> agc_attack a \<le> 1 \<and> 0 \<le> agc_decay a \<and> agc_decay a \<le> 1 \<and>
     0 \<le> agc_maxGain a \<and> 0 \<le> agc_maxOutputAmp a \<and> 0 \<le> agc_gain a \<and> 0 < agc_amp a"

lemma agc_ok_init: "0 < setPoint \<Longrightarrow> 0 \<le> attack \<Longrightarrow> attack \<le> 1 \<Longrightarrow> 0 \<le> decay \<Longrightarrow> decay \<le> 1 \<Longrightarrow> 0 \<le> maxGain \<Longrightarrow>
    0 \<le> maxOutputAmp \<Longrightarrow> 0 < initGain \<Longrightarrow> agc_ok (agc_init setPoint attack decay maxGain maxOutputAmp initGain)"
  by (simp add: agc_ok_def agc_init_def)

lemma lookAhead_fold: "m \<le> fold (\<lambda>x maxAmp. if norm x > maxAmp then norm x else maxAmp) xs m \<and>
    (\<forall>x \<in> set xs. norm x \<le> fold (\<lambda>x maxAmp. if norm x > maxAmp then norm x else maxAmp) xs m)"
proof (induction xs arbitrary: m)
  case (Cons x xs)
  show ?case using Cons.IH [of "if norm x > m then norm x else m"] by (auto split: if_splits intro: order_trans)
qed simp

lemma lookAhead_bound: "x \<in> set xs \<Longrightarrow> norm x \<le> agc_lookAhead xs"
  using lookAhead_fold [where m = 0 and xs = xs] by (simp add: agc_lookAhead_def)

lemma mix_pos: "0 < p \<Longrightarrow> 0 < q \<Longrightarrow> 0 \<le> w \<Longrightarrow> w \<le> 1 \<Longrightarrow> 0 < p * (1 - w) + q * w" for p q w :: real
  by (cases "w = 0") (auto intro: add_nonneg_pos)

lemma agc_track_ok: "agc_ok a \<Longrightarrow> 0 \<le> v \<Longrightarrow> agc_ok (agc_track v a) \<and> agc_setPoint (agc_track v a) = agc_setPoint a \<and>
    agc_maxGain (agc_track v a) = agc_maxGain a \<and> agc_maxOutputAmp (agc_track v a) = agc_maxOutputAmp a \<and> agc_enabled (agc_track v a) = agc_enabled a"
  by (auto simp: agc_track_def agc_ok_def Let_def intro!: mix_pos divide_nonneg_pos)

lemma agc_sample_bound:
  assumes "agc_ok a"
  shows "agc_ok (fst (agc_sample x rest a)) \<and> agc_setPoint (fst (agc_sample x rest a)) = agc_setPoint a \<and>
    agc_maxOutputAmp (fst (agc_sample x rest a)) = agc_maxOutputAmp a \<and>
    norm (snd (agc_sample x rest a)) \<le> max (agc_setPoint a) (agc_maxOutputAmp a)"
proof (cases "agc_enabled a")
  case False
  have g: "0 \<le> agc_gain a" "0 \<le> agc_maxOutputAmp a" using assms by (simp_all add: agc_ok_def)
  have "norm x * agc_gain a > agc_maxOutputAmp a \<Longrightarrow> norm x \<noteq> 0" using g by auto
  then show ?thesis using False assms g
    by (auto simp: agc_sample_def Let_def mult.commute max_def)
next
  case True
  let ?a1 = "agc_track (norm x) a"
  have a1: "agc_ok ?a1" "agc_setPoint ?a1 = agc_setPoint a" "agc_maxOutputAmp ?a1 = agc_maxOutputAmp a" "0 \<le> agc_gain ?a1"
    using agc_track_ok [OF assms norm_ge_zero, of x] by (auto simp: agc_ok_def)
  show ?thesis
  proof (cases "norm x * agc_gain ?a1 > agc_maxOutputAmp a")
    case False
    then have "norm (agc_gain ?a1 *\<^sub>R x) \<le> agc_maxOutputAmp a" using a1(4) by (simp add: mult.commute)
    then show ?thesis using True False a1 by (simp add: agc_sample_def Let_def)
  next
    case clip: True
    let ?m = "agc_lookAhead (x # rest)" and ?g = "min (agc_setPoint a / agc_lookAhead (x # rest)) (agc_maxGain a)"
    have nz: "0 < norm x" using clip assms by (cases "x = 0") (auto simp: agc_ok_def)
    have m: "norm x \<le> ?m" by (rule lookAhead_bound) simp
    then have pos: "0 < ?m" "0 < agc_setPoint a" "0 \<le> agc_maxGain a" using less_le_trans [OF nz m] assms by (simp_all add: agc_ok_def)
    then have g: "0 \<le> ?g" "?g \<le> agc_setPoint a / ?m" by simp_all
    have "?g * norm x \<le> agc_setPoint a / ?m * norm x" using g(2) by (intro mult_right_mono) simp_all
    also have "\<dots> \<le> agc_setPoint a / ?m * ?m" using m pos by (intro mult_left_mono) simp_all
    also have "\<dots> = agc_setPoint a" using pos by simp
    finally have "norm (?g *\<^sub>R x) \<le> agc_setPoint a" using g(1) by simp
    moreover have "agc_ok (?a1\<lparr>agc_amp := ?m, agc_gain := ?g\<rparr>)" using a1(1) g(1) pos by (simp add: agc_ok_def)
    ultimately show ?thesis using True clip a1 by (simp add: agc_sample_def Let_def)
  qed
qed

lemma agc_process_bound: "agc_ok a \<Longrightarrow> agc_ok (fst (agc_process a xs)) \<and> agc_setPoint (fst (agc_process a xs)) = agc_setPoint a \<and>
    agc_maxOutputAmp (fst (agc_process a xs)) = agc_maxOutputAmp a \<and>
    list_all (\<lambda>y. norm y \<le> max (agc_setPoint a) (agc_maxOutputAmp a)) (snd (agc_process a xs))"
proof (induction xs arbitrary: a)
  case (Cons x xs)
  obtain a1 y where s: "agc_sample x xs a = (a1, y)" by fastforce
  then show ?case using agc_sample_bound [OF Cons.prems, of x xs] Cons.IH [of a1] by (auto split: prod.splits)
qed simp

lemma agc_blocks_bound: "agc_ok a \<Longrightarrow> list_all (\<lambda>y. norm y \<le> max (agc_setPoint a) (agc_maxOutputAmp a)) (snd (run_blocks agc_process a bs))"
proof (induction bs arbitrary: a)
  case (Cons xs bs)
  obtain a1 ys where p: "agc_process a xs = (a1, ys)" by fastforce
  then show ?case using agc_process_bound [OF Cons.prems, of xs] Cons.IH [of a1] by (auto split: prod.splits)
qed simp

text \<open>
  C17: The automatic gain control never puts out more than the set point or the maximum output amplitude,
  whichever is greater: neither tracking the signal nor in manual mode, from the first sample of a burst on, for
  real and for complex samples and however the samples are cut into blocks.
\<close>

theorem agc_output_bounded:
  fixes bs :: "'d::real_normed_vector list list"
  assumes "0 < setPoint" "0 \<le> attack" "attack \<le> 1" "0 \<le> decay" "decay \<le> 1" "0 \<le> maxGain" "0 \<le> maxOutputAmp" "0 < initGain" "0 \<le> gain"
  shows "list_all (\<lambda>y. norm y \<le> max setPoint maxOutputAmp)
      (snd (run_blocks agc_process (agc_init setPoint attack decay maxGain maxOutputAmp initGain) bs)) \<and>
    list_all (\<lambda>y. norm y \<le> max setPoint maxOutputAmp)
      (snd (run_blocks agc_process ((agc_setGain gain (agc_init setPoint attack decay maxGain maxOutputAmp initGain))\<lparr>agc_enabled := False\<rparr>) bs))"
proof -
  let ?a = "agc_init setPoint attack decay maxGain maxOutputAmp initGain"
  let ?b = "(agc_setGain gain ?a)\<lparr>agc_enabled := False\<rparr>"
  have a: "agc_ok ?a" using assms by (intro agc_ok_init)
  have "agc_ok ?b" using a assms(1,9) by (auto simp: agc_ok_def agc_setGain_def Let_def agc_init_def)
  moreover have "agc_setPoint ?b = setPoint" "agc_maxOutputAmp ?b = maxOutputAmp" "agc_setPoint ?a = setPoint" "agc_maxOutputAmp ?a = maxOutputAmp"
    by (simp_all add: agc_setGain_def Let_def agc_init_def)
  ultimately show ?thesis using agc_blocks_bound [OF a, of bs] agc_blocks_bound [of ?b bs] by simp
qed

theorem agc_output_bounded_witness:
  "list_all (\<lambda>y. norm y \<le> max 1 10) (snd (run_blocks agc_process (agc_init 1 (1/50) (1/500) 1000 10 1) [[3, 500 :: real], [2]]))"
  using agc_output_bounded [of 1 "1/50" "1/500" 1000 10 1 1 "[[3, 500 :: real], [2]]"] by simp

section \<open>Fast gain control, DC blocker, deemphasis\<close>

record FastAGC =
  fagc_setPoint :: real
  fagc_maxGain :: real
  fagc_rate :: real
  fagc_initGain :: real
  fagc_gain :: real

definition fagc_init :: "real \<Rightarrow> real \<Rightarrow> real \<Rightarrow> real \<Rightarrow> FastAGC" where
  "fagc_init setPoint maxGain rate initGain =
     \<lparr>fagc_setPoint = setPoint, fagc_maxGain = maxGain, fagc_rate = rate, fagc_initGain = initGain, fagc_gain = initGain\<rparr>"

definition fagc_sample :: "FastAGC \<Rightarrow> 'd::real_normed_vector \<Rightarrow> FastAGC \<times> 'd" where
  "fagc_sample a x =
     (let y = fagc_gain a *\<^sub>R x; gain = fagc_gain a + (fagc_setPoint a - norm y) * fagc_rate a
      in (a\<lparr>fagc_gain := (if gain > fagc_maxGain a then fagc_maxGain a else gain)\<rparr>, y))"

definition fagc_process :: "FastAGC \<Rightarrow> 'd::real_normed_vector list \<Rightarrow> FastAGC \<times> 'd list" where
  "fagc_process = scan fagc_sample"

lemma fagc_gain_limited: "fagc_gain a \<le> fagc_maxGain a \<Longrightarrow> fagc_gain (fst (fagc_process a xs)) \<le> fagc_maxGain (fst (fagc_process a xs))"
  using scan_invariant [of "\<lambda>a. fagc_gain a \<le> fagc_maxGain a" a fagc_sample "\<lambda>_. True" xs]
  by (simp add: fagc_process_def fagc_sample_def Let_def)

text \<open>State of the DC blocker: the rate and the offset.\<close>

definition dc_sample :: "real \<times> 'd::real_normed_vector \<Rightarrow> 'd \<Rightarrow> (real \<times> 'd) \<times> 'd" where
  "dc_sample s x = (let y = x - snd s in ((fst s, snd s + fst s *\<^sub>R y), y))"

definition dc_process :: "real \<times> 'd::real_normed_vector \<Rightarrow> 'd list \<Rightarrow> (real \<times> 'd) \<times> 'd list" where
  "dc_process = scan dc_sample"

text \<open>On a constant signal what passes the DC blocker dies away geometrically.\<close>

lemma dc_constant: "snd (dc_process (rate, offset) (replicate n c)) = map (\<lambda>k. (1 - rate) ^ k *\<^sub>R (c - offset)) [0..<n]"
proof (induction n arbitrary: offset)
  case (Suc n)
  have "c - (offset + rate *\<^sub>R (c - offset)) = (1 - rate) *\<^sub>R (c - offset)" by (simp add: algebra_simps)
  then have "snd (dc_process (rate, offset + rate *\<^sub>R (c - offset)) (replicate n c)) = map (\<lambda>k. (1 - rate) ^ Suc k *\<^sub>R (c - offset)) [0..<n]"
    unfolding Suc by (simp add: mult.commute)
  moreover have "map f [0..<Suc n] = f 0 # map (\<lambda>k. f (Suc k)) [0..<n]" for f :: "nat \<Rightarrow> 'a"
    by (simp add: upt_conv_Cons map_Suc_upt [symmetric] del: upt_Suc map_Suc_upt)
  ultimately show ?case by (simp add: dc_process_def scan_out_Cons dc_sample_def Let_def del: upt_Suc scan.simps)
qed (simp add: dc_process_def)

text \<open>The deemphasis loop reads the first sample before it compares; the worker never calls it without one.\<close>

definition deemphasis_alpha :: "real \<Rightarrow> real \<Rightarrow> real" where
  "deemphasis_alpha tau samplerate = (let dt = 1 / samplerate in dt / (tau + dt))"

definition deemphasis_sample :: "real \<times> 'd::real_normed_vector \<Rightarrow> 'd \<Rightarrow> (real \<times> 'd) \<times> 'd" where
  "deemphasis_sample s x = (let y = fst s *\<^sub>R x + (1 - fst s) *\<^sub>R snd s in ((fst s, y), y))"

definition deemphasis_process :: "real \<times> 'd::real_normed_vector \<Rightarrow> 'd list \<Rightarrow> (real \<times> 'd) \<times> 'd list" where
  "deemphasis_process = scan deemphasis_sample"

lemma deemphasis_alpha_range: "0 \<le> tau \<Longrightarrow> 0 < samplerate \<Longrightarrow> 0 < deemphasis_alpha tau samplerate \<and> deemphasis_alpha tau samplerate \<le> 1"
proof -
  assume t: "0 \<le> tau" and r: "0 < samplerate"
  define dt where "dt = 1 / samplerate"
  have "0 < dt" using r by (simp add: dt_def)
  then show ?thesis using t unfolding deemphasis_alpha_def Let_def dt_def [symmetric] by (simp add: add_nonneg_pos)
qed

lemma deemphasis_bounded:
  assumes "0 \<le> a" "a \<le> 1" "norm y \<le> m"
  shows "list_all (\<lambda>x. norm x \<le> m) xs \<Longrightarrow> list_all (\<lambda>z. norm z \<le> m) (snd (deemphasis_process (a, y) xs))"
  using assms(3)
proof (induction xs arbitrary: y)
  case (Cons x xs)
  let ?z = "a *\<^sub>R x + (1 - a) *\<^sub>R y"
  have "norm ?z \<le> a * norm x + (1 - a) * norm y" using norm_triangle_ineq [of "a *\<^sub>R x" "(1 - a) *\<^sub>R y"] assms(1,2) by simp
  also have "\<dots> \<le> a * m + (1 - a) * m" using Cons.prems assms(1,2) by (intro add_mono mult_left_mono) simp_all
  also have "\<dots> = m" by (simp add: algebra_simps)
  finally have z: "norm ?z \<le> m" .
  then have "list_all (\<lambda>z. norm z \<le> m) (snd (deemphasis_process (a, ?z) xs))" using Cons by simp
  then show ?case using z by (simp add: deemphasis_process_def scan_out_Cons deemphasis_sample_def Let_def del: scan.simps)
qed (simp add: deemphasis_process_def)

section \<open>Phase control loop\<close>

record 't arith =
  t_add :: "'t \<Rightarrow> 't \<Rightarrow> 't"
  t_sub :: "'t \<Rightarrow> 't \<Rightarrow> 't"
  t_mul :: "'t \<Rightarrow> 't \<Rightarrow> 't"
  t_less :: "'t \<Rightarrow> 't \<Rightarrow> bool"

definition exact :: "real arith" where
  "exact = \<lparr>t_add = (+), t_sub = (-), t_mul = (*), t_less = (<)\<rparr>"

definition float32 :: "flt arith" where
  "float32 = \<lparr>t_add = fadd, t_sub = fsub, t_mul = fmul, t_less = fless\<rparr>"

lemma exact_simps [simp]: "t_add exact = (+)" "t_sub exact = (-)" "t_mul exact = (*)" "t_less exact = (<)"
  by (simp_all add: exact_def)

lemma float32_simps [simp]: "t_add float32 = fadd" "t_sub float32 = fsub" "t_mul float32 = fmul" "t_less float32 = fless"
  by (simp_all add: float32_def)

text \<open>The member \<open>phaseDelta\<close> is always the difference of the phase limits.\<close>

record 't PhaseControlLoop =
  pcl_alpha :: 't
  pcl_beta :: 't
  pcl_minPhase :: 't
  pcl_maxPhase :: 't
  pcl_minFreq :: 't
  pcl_maxFreq :: 't
  pcl_freq :: 't
  pcl_phase :: 't

definition pcl_init :: "'t \<Rightarrow> 't \<Rightarrow> 't \<Rightarrow> 't \<Rightarrow> 't \<Rightarrow> 't \<Rightarrow> 't \<Rightarrow> 't \<Rightarrow> 't PhaseControlLoop" where
  "pcl_init alpha beta phase minPhase maxPhase freq minFreq maxFreq =
     \<lparr>pcl_alpha = alpha, pcl_beta = beta, pcl_minPhase = minPhase, pcl_maxPhase = maxPhase, pcl_minFreq = minFreq,
      pcl_maxFreq = maxFreq, pcl_freq = freq, pcl_phase = phase\<rparr>"

definition criticallyDamped :: "real \<Rightarrow> real \<times> real" where
  "criticallyDamped bandwidth =
     (let dampningFactor = sqrt 2 / 2; denominator = 1 + 2 * dampningFactor * bandwidth + bandwidth * bandwidth
      in ((4 * dampningFactor * bandwidth) / denominator, (4 * bandwidth * bandwidth) / denominator))"

definition clampFreq :: "'t arith \<Rightarrow> 't PhaseControlLoop \<Rightarrow> 't PhaseControlLoop" where
  "clampFreq A p =
     (if t_less A (pcl_maxFreq p) (pcl_freq p) then p\<lparr>pcl_freq := pcl_maxFreq p\<rparr>
      else if t_less A (pcl_freq p) (pcl_minFreq p) then p\<lparr>pcl_freq := pcl_minFreq p\<rparr> else p)"

text \<open>The two loops of \<open>clampPhase\<close>; \<open>None\<close> is a loop that never ends.\<close>

partial_function (option) lower_phase :: "'t arith \<Rightarrow> 't \<Rightarrow> 't \<Rightarrow> 't \<Rightarrow> 't option" where
  "lower_phase A delta limit phase =
     (if t_less A limit phase then lower_phase A delta limit (t_sub A phase delta) else Some phase)"

partial_function (option) raise_phase :: "'t arith \<Rightarrow> 't \<Rightarrow> 't \<Rightarrow> 't \<Rightarrow> 't option" where
  "raise_phase A delta limit phase =
     (if t_less A phase limit then raise_phase A delta limit (t_add A phase delta) else Some phase)"

definition clampPhase :: "'t arith \<Rightarrow> 't PhaseControlLoop \<Rightarrow> 't PhaseControlLoop option" where
  "clampPhase A p =
     (let delta = t_sub A (pcl_maxPhase p) (pcl_minPhase p)
      in Option.bind (lower_phase A delta (pcl_maxPhase p) (pcl_phase p))
           (\<lambda>ph. map_option (\<lambda>ph2. p\<lparr>pcl_phase := ph2\<rparr>) (raise_phase A delta (pcl_minPhase p) ph)))"

text \<open>The first argument is the template's \<open>CLAMP_PHASE\<close>.\<close>

definition pcl_advance :: "bool \<Rightarrow> 't arith \<Rightarrow> 't \<Rightarrow> 't PhaseControlLoop \<Rightarrow> 't PhaseControlLoop option" where
  "pcl_advance CLAMP_PHASE A error p =
     (let p1 = clampFreq A (p\<lparr>pcl_freq := t_add A (pcl_freq p) (t_mul A (pcl_beta p) error)\<rparr>);
          p2 = p1\<lparr>pcl_phase := t_add A (pcl_phase p1) (t_add A (pcl_freq p1) (t_mul A (pcl_alpha p1) error))\<rparr>
      in if CLAMP_PHASE then clampPhase A p2 else Some p2)"

definition pcl_advancePhase :: "bool \<Rightarrow> 't arith \<Rightarrow> 't PhaseControlLoop \<Rightarrow> 't PhaseControlLoop option" where
  "pcl_advancePhase CLAMP_PHASE A p =
     (let p1 = p\<lparr>pcl_phase := t_add A (pcl_phase p) (pcl_freq p)\<rparr>
      in if CLAMP_PHASE then clampPhase A p1 else Some p1)"

definition pcl_setCoefficients :: "'t \<Rightarrow> 't \<Rightarrow> 't PhaseControlLoop \<Rightarrow> 't PhaseControlLoop" where
  "pcl_setCoefficients alpha beta p = p\<lparr>pcl_alpha := alpha, pcl_beta := beta\<rparr>"

definition pcl_setFreqLimits :: "'t arith \<Rightarrow> 't \<Rightarrow> 't \<Rightarrow> 't PhaseControlLoop \<Rightarrow> 't PhaseControlLoop" where
  "pcl_setFreqLimits A minFreq maxFreq p = clampFreq A (p\<lparr>pcl_minFreq := minFreq, pcl_maxFreq := maxFreq\<rparr>)"

definition pcl_setPhaseLimits :: "'t arith \<Rightarrow> 't \<Rightarrow> 't \<Rightarrow> 't PhaseControlLoop \<Rightarrow> 't PhaseControlLoop option" where
  "pcl_setPhaseLimits A minPhase maxPhase p = clampPhase A (p\<lparr>pcl_minPhase := minPhase, pcl_maxPhase := maxPhase\<rparr>)"

subsection \<open>With exact numbers: lemmas\<close>

lemma lower_phase_returns:
  assumes "0 < delta"
  shows "\<exists>k :: nat. lower_phase exact delta limit phase = Some (phase - real k * delta) \<and> phase - real k * delta \<le> limit \<and>
    (k = 0 \<or> limit - delta < phase - real k * delta)"
proof (induction "nat \<lceil>(phase - limit) / delta\<rceil>" arbitrary: phase rule: less_induct)
  case less
  show ?case
  proof (cases "phase > limit")
    case True
    have "(phase - delta - limit) / delta = (phase - limit) / delta - 1" using assms by (simp add: field_simps)
    moreover have "0 < \<lceil>(phase - limit) / delta\<rceil>" using True assms by simp
    ultimately have "nat \<lceil>(phase - delta - limit) / delta\<rceil> < nat \<lceil>(phase - limit) / delta\<rceil>" by simp
    from less [OF this] obtain k :: nat where k: "lower_phase exact delta limit (phase - delta) = Some (phase - delta - real k * delta)"
      "phase - delta - real k * delta \<le> limit" "k = 0 \<or> limit - delta < phase - delta - real k * delta" by blast
    have e: "phase - delta - real k * delta = phase - real (Suc k) * delta" by (simp add: algebra_simps)
    have "k = 0 \<Longrightarrow> limit - delta < phase - real (Suc k) * delta" using True by simp
    then have "lower_phase exact delta limit phase = Some (phase - real (Suc k) * delta) \<and> phase - real (Suc k) * delta \<le> limit \<and>
        limit - delta < phase - real (Suc k) * delta"
      using k True unfolding e by (auto simp: lower_phase.simps [of _ _ _ phase])
    then show ?thesis by blast
  next
    case False
    then show ?thesis by (intro exI [of _ 0]) (simp add: lower_phase.simps)
  qed
qed

lemma raise_phase_lower: "raise_phase exact delta limit phase = map_option uminus (lower_phase exact delta (- limit) (- phase))" if "0 < delta"
proof (induction "nat \<lceil>(limit - phase) / delta\<rceil>" arbitrary: phase rule: less_induct)
  case less
  show ?case
  proof (cases "phase < limit")
    case True
    have "(limit - (phase + delta)) / delta = (limit - phase) / delta - 1" using that by (simp add: field_simps)
    moreover have "0 < \<lceil>(limit - phase) / delta\<rceil>" using True that by simp
    ultimately have "nat \<lceil>(limit - (phase + delta)) / delta\<rceil> < nat \<lceil>(limit - phase) / delta\<rceil>" by simp
    from less [OF this] show ?thesis using True by (simp add: raise_phase.simps [of _ _ _ phase] lower_phase.simps [of _ _ _ "- phase"])
  next
    case False
    then show ?thesis by (simp add: raise_phase.simps lower_phase.simps)
  qed
qed

text \<open>The phase comes into its limits, by whole turns; one that is within them stays.\<close>

lemma clampPhase_returns:
  assumes "pcl_minPhase p < pcl_maxPhase p"
  shows "\<exists>k :: int. clampPhase exact p = Some (p\<lparr>pcl_phase := pcl_phase p + of_int k * (pcl_maxPhase p - pcl_minPhase p)\<rparr>) \<and>
    pcl_minPhase p \<le> pcl_phase p + of_int k * (pcl_maxPhase p - pcl_minPhase p) \<and>
    pcl_phase p + of_int k * (pcl_maxPhase p - pcl_minPhase p) \<le> pcl_maxPhase p"
proof -
  let ?d = "pcl_maxPhase p - pcl_minPhase p" and ?lo = "pcl_minPhase p" and ?hi = "pcl_maxPhase p"
  have d: "0 < ?d" using assms by simp
  obtain k :: nat where k: "lower_phase exact ?d ?hi (pcl_phase p) = Some (pcl_phase p - real k * ?d)" "pcl_phase p - real k * ?d \<le> ?hi"
    "k = 0 \<or> ?hi - ?d < pcl_phase p - real k * ?d" using lower_phase_returns [OF d] by blast
  define x where "x = pcl_phase p - real k * ?d"
  obtain j :: nat where j: "lower_phase exact ?d (- ?lo) (- x) = Some (- x - real j * ?d)" "- x - real j * ?d \<le> - ?lo"
    "j = 0 \<or> - ?lo - ?d < - x - real j * ?d" using lower_phase_returns [OF d] by blast
  have r: "clampPhase exact p = Some (p\<lparr>pcl_phase := x + real j * ?d\<rparr>)"
    unfolding clampPhase_def Let_def exact_simps k(1) raise_phase_lower [OF d] x_def [symmetric] using j(1) by (simp add: add.commute)
  have e: "x + real j * ?d = pcl_phase p + of_int (int j - int k) * ?d" unfolding x_def of_int_diff of_int_of_nat_eq by algebra
  have "?lo \<le> x + real j * ?d" "x + real j * ?d \<le> ?hi" using j(2,3) k(2) unfolding x_def [symmetric] by auto
  then show ?thesis using r unfolding e by blast
qed

lemma clampPhase_inside: "pcl_minPhase p \<le> pcl_phase p \<Longrightarrow> pcl_phase p \<le> pcl_maxPhase p \<Longrightarrow> clampPhase exact p = Some p"
  by (simp add: clampPhase_def Let_def lower_phase.simps raise_phase.simps)

section \<open>PLL, carrier tracking, Costas loop\<close>

definition normalizePhase :: "real \<Rightarrow> real" where
  "normalizePhase diff = (if diff > pi then diff - 2 * pi else if diff \<le> - pi then diff + 2 * pi else diff)"

text \<open>\<open>math::step\<close> and the error functions of the Costas loops of order 2, 4 and 8.\<close>

definition math_step :: "real \<Rightarrow> real" where
  "math_step x = (if x > 0 then 1 else - 1)"

definition errorFunction :: "nat \<Rightarrow> complex \<Rightarrow> real" where
  "errorFunction ORDER val =
     (let err =
        (if ORDER = 2 then Re val * Im val
         else if ORDER = 4 then math_step (Re val) * Im val - math_step (Im val) * Re val
         else let K = sqrt 2 - 1
              in if \<bar>Re val\<bar> \<ge> \<bar>Im val\<bar> then math_step (Re val) * Im val - math_step (Im val) * Re val * K
                 else math_step (Re val) * Im val * K - math_step (Im val) * Re val)
      in max (- 1) (min err 1))"

text \<open>What is put out for a sample at a phase of the loop, and the error fed back.\<close>

definition pll_step :: "real \<Rightarrow> complex \<Rightarrow> complex \<times> real" where
  "pll_step phase x = (cis phase, normalizePhase (Arg x - phase))"

definition tracking_step :: "real \<Rightarrow> complex \<Rightarrow> complex \<times> real" where
  "tracking_step phase x = (x * cis (- phase), normalizePhase (Arg x - phase))"

definition costas_step :: "nat \<Rightarrow> real \<Rightarrow> complex \<Rightarrow> complex \<times> real" where
  "costas_step ORDER phase x = (let y = x * cis (- phase) in (y, errorFunction ORDER y))"

fun loop_process :: "(real \<Rightarrow> 'a \<Rightarrow> 'b \<times> real) \<Rightarrow> real PhaseControlLoop \<Rightarrow> 'a list \<Rightarrow>
    (real PhaseControlLoop \<times> 'b list) option" where
  "loop_process step p [] = Some (p, [])"
| "loop_process step p (x # xs) =
     (let (y, err) = step (pcl_phase p) x
      in Option.bind (pcl_advance True exact err p) (\<lambda>p1. map_option (\<lambda>(p2, ys). (p2, y # ys)) (loop_process step p1 xs)))"

definition pll_init :: "real \<Rightarrow> real \<Rightarrow> real \<Rightarrow> real \<Rightarrow> real \<Rightarrow> real PhaseControlLoop" where
  "pll_init bandwidth initPhase initFreq minFreq maxFreq =
     (let (alpha, beta) = criticallyDamped bandwidth in pcl_init alpha beta initPhase (- pi) pi initFreq minFreq maxFreq)"

lemma clampFreq_frame [simp]:
  "pcl_minPhase (clampFreq A p) = pcl_minPhase p" "pcl_maxPhase (clampFreq A p) = pcl_maxPhase p"
  "pcl_minFreq (clampFreq A p) = pcl_minFreq p" "pcl_maxFreq (clampFreq A p) = pcl_maxFreq p"
  "pcl_alpha (clampFreq A p) = pcl_alpha p" "pcl_beta (clampFreq A p) = pcl_beta p" "pcl_phase (clampFreq A p) = pcl_phase p"
  by (simp_all add: clampFreq_def)

section \<open>The phase control loop in single precision\<close>

text \<open>The loop below mirrors the loop above.\<close>

lemma raise_phase_mirror:
  assumes "lower_phase float32 delta limit phase = Some y"
  shows "raise_phase float32 delta (fneg limit) (fneg phase) = Some (fneg y)"
proof -
  have "A = float32 \<longrightarrow> raise_phase float32 delta (fneg limit) (fneg phase) = Some (fneg y)"
    if "lower_phase A delta limit phase = Some y" for A delta limit phase y
    using that
  proof (rule lower_phase.raw_induct
      [where P = "\<lambda>A delta limit phase y. A = float32 \<longrightarrow> raise_phase float32 delta (fneg limit) (fneg phase) = Some (fneg y)", rotated])
    fix lower A delta limit phase y
    assume "\<And>A delta limit phase y. lower A delta limit phase = Some y \<Longrightarrow>
        A = float32 \<longrightarrow> raise_phase float32 delta (fneg limit) (fneg phase) = Some (fneg y)"
      and "(if t_less A limit phase then lower A delta limit (t_sub A phase delta) else Some phase) = Some y"
    moreover have "fadd (fneg phase) delta = fneg (fsub phase delta)"
      using fneg_fadd [of phase "fneg delta"] by (simp add: fsub_def)
    ultimately show "A = float32 \<longrightarrow> raise_phase float32 delta (fneg limit) (fneg phase) = Some (fneg y)"
      by (subst raise_phase.simps) (auto split: if_splits)
  qed
  then show ?thesis using assms by blast
qed

text \<open>A step that does not change the number, with the number still outside, is a loop that never ends.\<close>

lemma lower_phase_stuck: "fless limit phase \<Longrightarrow> fsub phase delta = phase \<Longrightarrow> lower_phase float32 delta limit phase = None"
proof -
  have "A = float32 \<and> fless limit phase \<longrightarrow> fsub phase delta \<noteq> phase" if "lower_phase A delta limit phase = Some y" for A phase y
    using that
    by (rule lower_phase.raw_induct
        [where P = "\<lambda>A delta limit phase y. A = float32 \<and> fless limit phase \<longrightarrow> fsub phase delta \<noteq> phase", rotated])
      (auto split: if_splits)
  then show "fless limit phase \<Longrightarrow> fsub phase delta = phase \<Longrightarrow> ?thesis" by (metis not_None_eq)
qed

lemma raise_phase_stuck: "fless phase limit \<Longrightarrow> fadd phase delta = phase \<Longrightarrow> raise_phase float32 delta limit phase = None"
proof -
  have "A = float32 \<and> fless phase limit \<longrightarrow> fadd phase delta \<noteq> phase" if "raise_phase A delta limit phase = Some y" for A phase y
    using that
    by (rule raise_phase.raw_induct
        [where P = "\<lambda>A delta limit phase y. A = float32 \<and> fless phase limit \<longrightarrow> fadd phase delta \<noteq> phase", rotated])
      (auto split: if_splits)
  then show "fless phase limit \<Longrightarrow> fadd phase delta = phase \<Longrightarrow> ?thesis" by (metis not_None_eq)
qed

text \<open>Limits whose difference is exact and that are not too far out.\<close>

definition phase_limits :: "real \<Rightarrow> real \<Rightarrow> bool" where
  "phase_limits lo hi \<longleftrightarrow> single lo \<and> single hi \<and> single (hi - lo) \<and> lo < hi \<and> \<bar>lo\<bar> \<le> 2 ^ 20 * (hi - lo) \<and> \<bar>hi\<bar> \<le> 2 ^ 20 * (hi - lo) \<and>
     2 ^ 26 * (hi - lo) < 2 ^ 128"

lemma phase_limits_mirror: "phase_limits lo hi \<Longrightarrow> phase_limits (- hi) (- lo)"
  using single_uminus by (auto simp: phase_limits_def)

lemma single_scale: "single x \<Longrightarrow> \<bar>2 ^ k * x\<bar> < 2 ^ 128 \<Longrightarrow> single (2 ^ k * x)"
  unfolding single_def using representable_scale by blast

text \<open>Each turn takes off at least half of \<open>phaseDelta\<close>.\<close>

lemma lower_phase_single:
  assumes l: "phase_limits lo hi"
  shows "single x \<Longrightarrow> \<bar>x\<bar> \<le> 2 ^ 22 * (hi - lo) \<Longrightarrow>
    \<exists>y. lower_phase float32 (Fin (hi - lo)) (Fin hi) (Fin x) = Some (Fin y) \<and> single y \<and> y \<le> hi \<and> (if x \<le> hi then y = x else lo \<le> y)"
proof (induction "nat \<lceil>2 * (x - hi) / (hi - lo)\<rceil>" arbitrary: x rule: less_induct)
  case less
  let ?d = "hi - lo"
  note l = l [unfolded phase_limits_def]
  show ?case
  proof (cases "hi < x")
    case True
    have y: "lo \<le> x - ?d" "x - ?d \<le> x" using True l by linarith+
    obtain r where r: "fround (x - ?d) = Fin r" "r = rnd 24 (- 149) (x - ?d)" "single r" "lo \<le> r" "r \<le> x"
      using fround_between [of lo x "x - ?d"] y l less.prems(1) by blast
    have near: "\<bar>r - (x - ?d)\<bar> \<le> ?d / 2"
    proof (cases "x - ?d = 0")
      case False
      have "2 powr of_int (- 149) \<le> ?d" using l by (intro representable_pos [of 24]) (simp_all add: single_def)
      moreover have "2 powr (1 - real 24) * \<bar>x - ?d\<bar> \<le> ?d / 2"
      proof -
        have e: "2 powr (1 - real 24) = (1 / 2 ^ 23 :: real)" by (simp add: powr_minus_divide)
        have "\<bar>x - ?d\<bar> \<le> 2 ^ 22 * ?d" using y less.prems(2) l by (simp add: abs_le_iff)
        then show ?thesis unfolding e by simp
      qed
      moreover have "q \<le> max u v \<Longrightarrow> v \<le> ?d \<Longrightarrow> u \<le> ?d / 2 \<Longrightarrow> q \<le> ?d" for q u v using l by (auto simp: le_max_iff_disj)
      ultimately have "quantum 24 (- 149) (x - ?d) \<le> ?d" using quantum_bound [OF False, of 24 "- 149"] by blast
      then have "quantum 24 (- 149) (x - ?d) / 2 \<le> ?d / 2" by simp
      with rnd_near [of 24 "- 149" "x - ?d"] show ?thesis unfolding r(2) by (rule order_trans)
    qed (use l r(2) in \<open>simp add: rnd_def\<close>)
    then have "r - (x - ?d) \<le> ?d / 2" by (simp only: abs_le_iff)
    then have "2 * (r - hi) \<le> 2 * (x - hi) - ?d" by (simp add: field_simps)
    then have "2 * (r - hi) / ?d \<le> (2 * (x - hi) - ?d) / ?d" using l by (intro divide_right_mono) simp_all
    moreover have "(2 * (x - hi) - ?d) / ?d = 2 * (x - hi) / ?d - 1" using l by (subst diff_divide_distrib) simp
    ultimately have "2 * (r - hi) / ?d \<le> 2 * (x - hi) / ?d - 1" by simp
    moreover have "0 < \<lceil>2 * (x - hi) / ?d\<rceil>" using True l by simp
    ultimately have "nat \<lceil>2 * (r - hi) / ?d\<rceil> < nat \<lceil>2 * (x - hi) / ?d\<rceil>" by linarith
    moreover have "\<bar>r\<bar> \<le> 2 ^ 22 * ?d" using r(4,5) less.prems(2) l by (simp add: abs_le_iff)
    ultimately obtain z where "lower_phase float32 (Fin ?d) (Fin hi) (Fin r) = Some (Fin z)" "single z" "z \<le> hi" "if r \<le> hi then z = r else lo \<le> z"
      using less.hyps [of r] r(3) by blast
    moreover have "lower_phase float32 (Fin ?d) (Fin hi) (Fin x) = lower_phase float32 (Fin ?d) (Fin hi) (Fin r)"
      using True r(1) by (subst lower_phase.simps) simp
    ultimately show ?thesis using True r(4) by (auto split: if_splits)
  next
    case False
    then show ?thesis using less.prems by (subst lower_phase.simps) simp
  qed
qed

lemma raise_phase_single:
  assumes "phase_limits lo hi" "single x" "\<bar>x\<bar> \<le> 2 ^ 22 * (hi - lo)"
  shows "\<exists>y. raise_phase float32 (Fin (hi - lo)) (Fin lo) (Fin x) = Some (Fin y) \<and> lo \<le> y \<and> (if lo \<le> x then y = x else y \<le> hi) \<and> single y"
proof -
  obtain y where y: "lower_phase float32 (Fin (- lo - - hi)) (Fin (- lo)) (Fin (- x)) = Some (Fin y)" "single y" "y \<le> - lo"
      "if - x \<le> - lo then y = - x else - hi \<le> y"
    using lower_phase_single [OF phase_limits_mirror [OF assms(1)], of "- x"] single_uminus [OF assms(2)] assms(3) by auto
  show ?thesis using raise_phase_mirror [OF y(1)] y(2-4) single_uminus [OF y(2)] by (intro exI [of _ "- y"]) (auto split: if_splits)
qed

text \<open>\<open>clampPhase\<close> on limits of this kind: what it returns, and when it does not return.\<close>

lemma clampPhase_unfold:
  assumes "pcl_minPhase p = Fin lo" "pcl_maxPhase p = Fin hi" "phase_limits lo hi"
  shows "clampPhase float32 p = Option.bind (lower_phase float32 (Fin (hi - lo)) (Fin hi) (pcl_phase p))
      (\<lambda>ph. map_option (\<lambda>ph2. p\<lparr>pcl_phase := ph2\<rparr>) (raise_phase float32 (Fin (hi - lo)) (Fin lo) ph))"
  using assms fround_exact [of "hi - lo"] by (simp add: clampPhase_def phase_limits_def Let_def)

lemma clampPhase_near:
  assumes p: "pcl_minPhase p = Fin lo" "pcl_maxPhase p = Fin hi" "phase_limits lo hi"
    and x: "pcl_phase p = Fin x" "single x" "\<bar>x\<bar> \<le> 2 ^ 22 * (hi - lo)"
  shows "\<exists>y. clampPhase float32 p = Some (p\<lparr>pcl_phase := Fin y\<rparr>) \<and> single y \<and> lo \<le> y \<and> y \<le> hi \<and> (lo \<le> x \<and> x \<le> hi \<longrightarrow> y = x)"
proof -
  note l = p(3) [unfolded phase_limits_def]
  obtain y where y: "lower_phase float32 (Fin (hi - lo)) (Fin hi) (Fin x) = Some (Fin y)" "single y" "y \<le> hi" "if x \<le> hi then y = x else lo \<le> y"
    using lower_phase_single [OF p(3) x(2,3)] by blast
  have "\<bar>y\<bar> \<le> 2 ^ 22 * (hi - lo)" using y(3,4) x(3) l by (auto simp: abs_le_iff split: if_splits)
  with raise_phase_single [OF p(3) y(2)] obtain z where z: "raise_phase float32 (Fin (hi - lo)) (Fin lo) (Fin y) = Some (Fin z)" "lo \<le> z" "single z"
    "if lo \<le> y then z = y else z \<le> hi" by blast
  then show ?thesis unfolding clampPhase_unfold [OF p] x(1) y(1) using y(3,4) by (auto split: if_splits)
qed

lemma clampPhase_Nan:
  assumes "pcl_minPhase p = Fin lo" "pcl_maxPhase p = Fin hi" "phase_limits lo hi" "pcl_phase p = Nan"
  shows "clampPhase float32 p = Some p"
proof -
  have "lower_phase float32 d l Nan = Some Nan" "raise_phase float32 d l Nan = Some Nan" for d l
    by (subst lower_phase.simps raise_phase.simps, simp)+
  then show ?thesis using assms(4) by (simp add: clampPhase_unfold [OF assms(1-3)])
qed

lemma clampPhase_Infty:
  assumes "pcl_minPhase p = Fin lo" "pcl_maxPhase p = Fin hi" "phase_limits lo hi" "pcl_phase p = Infty s"
  shows "clampPhase float32 p = None"
proof (cases s)
  case True
  have "lower_phase float32 d (Fin hi) (Infty True) = Some (Infty True)" for d by (subst lower_phase.simps) simp
  moreover have "raise_phase float32 (Fin d) (Fin lo) (Infty True) = None" for d by (rule raise_phase_stuck) simp_all
  ultimately show ?thesis using assms(4) True by (simp add: clampPhase_unfold [OF assms(1-3)])
next
  case False
  have "lower_phase float32 (Fin d) (Fin hi) (Infty False) = None" for d by (rule lower_phase_stuck) simp_all
  then show ?thesis using assms(4) False by (simp add: clampPhase_unfold [OF assms(1-3)])
qed

lemma clampPhase_far:
  assumes p: "pcl_minPhase p = Fin lo" "pcl_maxPhase p = Fin hi" "phase_limits lo hi"
    and x: "pcl_phase p = Fin x" "single x" "2 ^ 26 * (hi - lo) \<le> \<bar>x\<bar>"
  shows "clampPhase float32 p = None"
proof -
  let ?d = "hi - lo"
  note l = p(3) [unfolded phase_limits_def]
  have absorbs: "fround (x - ?d) = Fin x" if "single x" "2 ^ 26 * ?d \<le> x" for x
  proof -
    have "rnd 24 (- 149) (x - ?d) = x" using that l by (intro rnd_absorbs) (simp_all add: single_def)
    then show ?thesis using that(1) by (simp add: fround_def single_def)
  qed
  show ?thesis
  proof (cases "0 < x")
    case True
    then have "fsub (Fin x) (Fin ?d) = Fin x" using absorbs [OF x(2)] x(3) by simp
    moreover have "hi < x" using x(3) True l by (simp add: abs_le_iff)
    ultimately have "lower_phase float32 (Fin ?d) (Fin hi) (Fin x) = None" by (intro lower_phase_stuck) simp_all
    then show ?thesis unfolding clampPhase_unfold [OF p] x(1) by simp
  next
    case False
    have lo: "x < lo" "\<not> hi < x" using x(3) False l by (auto simp: abs_le_iff)
    have "fround (- x - ?d) = Fin (- x)" using absorbs [OF single_uminus [OF x(2)]] x(3) False by simp
    then have "fadd (Fin x) (Fin ?d) = Fin x" using fround_uminus [of "- x - ?d"] by (simp add: add.commute)
    then have "raise_phase float32 (Fin ?d) (Fin lo) (Fin x) = None" using lo by (intro raise_phase_stuck) simp_all
    moreover have "lower_phase float32 (Fin ?d) (Fin hi) (Fin x) = Some (Fin x)" using lo by (subst lower_phase.simps) simp
    ultimately show ?thesis unfolding clampPhase_unfold [OF p] x(1) by simp
  qed
qed

text \<open>A loop in operation: all members are finite, the frequency limits are not too wide, phase and frequency are inside.\<close>

definition pcl_inside :: "flt PhaseControlLoop \<Rightarrow> real \<Rightarrow> real \<Rightarrow> real \<Rightarrow> bool" where
  "pcl_inside p lo hi a \<longleftrightarrow> phase_limits lo hi \<and> pcl_minPhase p = Fin lo \<and> pcl_maxPhase p = Fin hi \<and> pcl_alpha p = Fin a \<and>
     (\<exists>b flo fhi f x. pcl_beta p = Fin b \<and> pcl_minFreq p = Fin flo \<and> pcl_maxFreq p = Fin fhi \<and> pcl_freq p = Fin f \<and> pcl_phase p = Fin x \<and>
        flo \<le> f \<and> f \<le> fhi \<and> \<bar>flo\<bar> \<le> 2 ^ 20 * (hi - lo) \<and> \<bar>fhi\<bar> \<le> 2 ^ 20 * (hi - lo) \<and> lo \<le> x \<and> x \<le> hi)"

lemma fround_bounded: "single b \<Longrightarrow> \<bar>x\<bar> \<le> b \<Longrightarrow> \<exists>r. fround x = Fin r \<and> single r \<and> \<bar>r\<bar> \<le> b"
  using fround_between [of "- b" b x] single_uminus by (auto simp: abs_le_iff)

lemma clampFreq_step:
  assumes "pcl_beta p = Fin b" "pcl_minFreq p = Fin flo" "pcl_maxFreq p = Fin fhi" "pcl_freq p = Fin f" "flo \<le> fhi"
  shows "\<exists>g. clampFreq float32 (p\<lparr>pcl_freq := fadd (pcl_freq p) (fmul (pcl_beta p) (Fin e))\<rparr>) = p\<lparr>pcl_freq := Fin g\<rparr> \<and> flo \<le> g \<and> g \<le> fhi"
proof -
  have nan: "fround x \<noteq> Nan" for x by (simp add: fround_def Let_def)
  have "fadd (Fin f) (fround (b * e)) \<noteq> Nan" using nan by (cases "fround (b * e)") auto
  then show ?thesis using assms by (cases "fadd (Fin f) (fround (b * e))") (auto simp: clampFreq_def)
qed

lemma pcl_advance_inside:
  assumes p: "pcl_inside p lo hi a" and e: "\<bar>a * e\<bar> \<le> 2 ^ 20 * (hi - lo)"
  shows "\<exists>p'. pcl_advance True float32 (Fin e) p = Some p' \<and> pcl_inside p' lo hi a \<and> pcl_minFreq p' = pcl_minFreq p \<and> pcl_maxFreq p' = pcl_maxFreq p"
proof -
  let ?d = "hi - lo"
  obtain b flo fhi f x where m: "pcl_beta p = Fin b" "pcl_minFreq p = Fin flo" "pcl_maxFreq p = Fin fhi" "pcl_freq p = Fin f" "pcl_phase p = Fin x"
    "flo \<le> f" "f \<le> fhi" "\<bar>flo\<bar> \<le> 2 ^ 20 * ?d" "\<bar>fhi\<bar> \<le> 2 ^ 20 * ?d" "lo \<le> x" "x \<le> hi"
    and q: "phase_limits lo hi" "pcl_minPhase p = Fin lo" "pcl_maxPhase p = Fin hi" "pcl_alpha p = Fin a"
    using p unfolding pcl_inside_def by blast
  note l = q(1) [unfolded phase_limits_def]
  have s: "single (2 ^ k * ?d)" if "k \<le> 22" for k :: nat
  proof (rule single_scale)
    have "2 ^ k * ?d \<le> 2 ^ 26 * ?d" using that l by (intro mult_right_mono power_increasing) simp_all
    then show "\<bar>2 ^ k * ?d\<bar> < 2 ^ 128" using l by (simp add: abs_less_iff)
  qed (use l in simp)
  obtain g where g: "clampFreq float32 (p\<lparr>pcl_freq := fadd (pcl_freq p) (fmul (pcl_beta p) (Fin e))\<rparr>) = p\<lparr>pcl_freq := Fin g\<rparr>" "flo \<le> g" "g \<le> fhi"
    using clampFreq_step [OF m(1-4), of e] m(6,7) by auto
  obtain u where u: "fround (a * e) = Fin u" "\<bar>u\<bar> \<le> 2 ^ 20 * ?d" using fround_bounded [OF s e] by auto
  note bound = fround_bounded [OF s]
  have "\<bar>g + u\<bar> \<le> 2 ^ 21 * ?d" using u(2) g(2,3) m(8,9) by (simp add: abs_le_iff)
  then obtain v where v: "fround (g + u) = Fin v" "\<bar>v\<bar> \<le> 2 ^ 21 * ?d" using bound [of 21 "g + u"] by auto
  have "\<bar>x + v\<bar> \<le> 2 ^ 22 * ?d" using v(2) m(10,11) l by (simp add: abs_le_iff)
  then obtain w where w: "fround (x + v) = Fin w" "single w" "\<bar>w\<bar> \<le> 2 ^ 22 * ?d" using bound [of 22 "x + v"] by auto
  let ?p2 = "p\<lparr>pcl_freq := Fin g, pcl_phase := Fin w\<rparr>"
  have adv: "pcl_advance True float32 (Fin e) p = clampPhase float32 ?p2"
    unfolding pcl_advance_def Let_def float32_simps g(1) using m(5) q(4) u(1) v(1) w(1) by simp
  obtain y where y: "clampPhase float32 ?p2 = Some (?p2\<lparr>pcl_phase := Fin y\<rparr>)" "lo \<le> y" "y \<le> hi"
    using clampPhase_near [of ?p2 lo hi w] q w(2,3) by auto
  show ?thesis unfolding adv y(1) using y(2,3) g(2,3) m q by (auto simp: pcl_inside_def)
qed

text \<open>A whole signal's errors, one after the other.\<close>

fun pcl_run :: "bool \<Rightarrow> 't arith \<Rightarrow> 't list \<Rightarrow> 't PhaseControlLoop \<Rightarrow> 't PhaseControlLoop option" where
  "pcl_run clamp A [] p = Some p"
| "pcl_run clamp A (e # es) p = Option.bind (pcl_advance clamp A e p) (pcl_run clamp A es)"

text \<open>What \<open>advance\<close> adds up before it brings the phase back.\<close>

definition advanced_phase :: "flt \<Rightarrow> flt PhaseControlLoop \<Rightarrow> flt" where
  "advanced_phase err p =
     (let f = pcl_freq (clampFreq float32 (p\<lparr>pcl_freq := fadd (pcl_freq p) (fmul (pcl_beta p) err)\<rparr>))
      in fadd (pcl_phase p) (fadd f (fmul (pcl_alpha p) err)))"

lemma fadd_single: "fadd a b = Fin x \<Longrightarrow> single x"
  by (cases a; cases b) (auto simp: fround_single split: if_splits)

text \<open>
  C18: When the phase control loop returns, in single precision. A loop whose phase and frequency are
  inside their limits handles any number of errors, of at most \<open>2 ^ 20\<close> turns each after scaling by \<open>alpha\<close>, and
  stays inside. A single step whose sum is within \<open>2 ^ 22\<close> turns of zero returns a phase inside the limits, and the
  sum itself if that is inside; if the sum is NaN, it passes the clamp; and if it is infinite or at least
  \<open>2 ^ 26\<close> turns out, the step never returns. Without \<open>CLAMP_PHASE\<close> it always returns, with the sum. The phase limits
  are those of a loop as the receiver sets them up: their difference is exact, and they are within \<open>2 ^ 20\<close> turns of zero.
\<close>

theorem phase_loop_returns:
  assumes "pcl_minPhase p = Fin lo" "pcl_maxPhase p = Fin hi" "phase_limits lo hi"
  shows "(\<forall>a es. pcl_inside p lo hi a \<and> (\<forall>e \<in> set es. \<bar>a * e\<bar> \<le> 2 ^ 20 * (hi - lo)) \<longrightarrow>
           (\<exists>p'. pcl_run True float32 (map Fin es) p = Some p' \<and> pcl_inside p' lo hi a)) \<and>
         (case advanced_phase err p of
            Fin x \<Rightarrow>
              (\<bar>x\<bar> \<le> 2 ^ 22 * (hi - lo) \<longrightarrow>
                 (\<exists>p' y. pcl_advance True float32 err p = Some p' \<and> pcl_phase p' = Fin y \<and> lo \<le> y \<and> y \<le> hi \<and> (lo \<le> x \<and> x \<le> hi \<longrightarrow> y = x))) \<and>
              (2 ^ 26 * (hi - lo) \<le> \<bar>x\<bar> \<longrightarrow> pcl_advance True float32 err p = None)
          | Infty s \<Rightarrow> pcl_advance True float32 err p = None
          | Nan \<Rightarrow> \<exists>p'. pcl_advance True float32 err p = Some p' \<and> pcl_phase p' = Nan) \<and>
         (\<exists>p'. pcl_advance False float32 err p = Some p' \<and> pcl_phase p' = advanced_phase err p)"
proof (intro conjI allI impI)
  fix a es
  assume "pcl_inside p lo hi a \<and> (\<forall>e \<in> set es. \<bar>a * e\<bar> \<le> 2 ^ 20 * (hi - lo))"
  then show "\<exists>p'. pcl_run True float32 (map Fin es) p = Some p' \<and> pcl_inside p' lo hi a"
  proof (induction es arbitrary: p)
    case (Cons e es)
    then obtain p1 where "pcl_advance True float32 (Fin e) p = Some p1" "pcl_inside p1 lo hi a" using pcl_advance_inside [of p lo hi a e] by auto
    then show ?case using Cons by simp
  qed simp
next
  let ?p1 = "clampFreq float32 (p\<lparr>pcl_freq := fadd (pcl_freq p) (fmul (pcl_beta p) err)\<rparr>)"
  let ?p2 = "?p1\<lparr>pcl_phase := advanced_phase err p\<rparr>"
  have adv: "pcl_advance c float32 err p = (if c then clampPhase float32 ?p2 else Some ?p2)" for c
    by (simp add: pcl_advance_def advanced_phase_def Let_def)
  have l: "pcl_minPhase ?p2 = Fin lo" "pcl_maxPhase ?p2 = Fin hi" using assms by simp_all
  show "\<exists>p'. pcl_advance False float32 err p = Some p' \<and> pcl_phase p' = advanced_phase err p" by (simp add: adv)
  show "case advanced_phase err p of
            Fin x \<Rightarrow>
              (\<bar>x\<bar> \<le> 2 ^ 22 * (hi - lo) \<longrightarrow>
                 (\<exists>p' y. pcl_advance True float32 err p = Some p' \<and> pcl_phase p' = Fin y \<and> lo \<le> y \<and> y \<le> hi \<and> (lo \<le> x \<and> x \<le> hi \<longrightarrow> y = x))) \<and>
              (2 ^ 26 * (hi - lo) \<le> \<bar>x\<bar> \<longrightarrow> pcl_advance True float32 err p = None)
          | Infty s \<Rightarrow> pcl_advance True float32 err p = None
          | Nan \<Rightarrow> \<exists>p'. pcl_advance True float32 err p = Some p' \<and> pcl_phase p' = Nan"
  proof (cases "advanced_phase err p")
    case (Fin x)
    have "single x" using Fin fadd_single by (auto simp: advanced_phase_def Let_def)
    then show ?thesis using Fin clampPhase_near [OF l assms(3), of x] clampPhase_far [OF l assms(3), of x] by (auto simp: adv)
  next
    case (Infty s)
    then show ?thesis using clampPhase_Infty [OF l assms(3)] by (simp add: adv)
  next
    case Nan
    then show ?thesis using clampPhase_Nan [OF l assms(3)] by (simp add: adv)
  qed
qed

text \<open>The limits of the PLL: \<open>FL_M_PI\<close> is this number.\<close>

definition FL_M_PI :: real where "FL_M_PI = 13176795 / 4194304"

lemma phase_limits_PLL: "phase_limits (- FL_M_PI) FL_M_PI"
proof -
  have "single FL_M_PI" "single (FL_M_PI + FL_M_PI)"
    unfolding single_def FL_M_PI_def
    using representableI [of _ 13176795 "- 22" 24 "- 149"] representableI [of _ 13176795 "- 21" 24 "- 149"] by (simp_all add: powr_minus_divide)
  then show ?thesis using single_uminus by (simp add: phase_limits_def FL_M_PI_def)
qed

theorem phase_loop_returns_witness:
  "(\<exists>p'. pcl_run True float32 [Fin 3, Fin (- 2), Fin 1]
       (pcl_init (Fin (1/8)) (Fin (1/64)) (Fin 0) (Fin (- FL_M_PI)) (Fin FL_M_PI) (Fin 0) (Fin (- 1)) (Fin 1)) = Some p' \<and>
     pcl_inside p' (- FL_M_PI) FL_M_PI (1/8)) \<and>
   pcl_advance True float32 (Infty False)
     (pcl_init (Fin (1/8)) (Fin (1/64)) (Fin 0) (Fin (- FL_M_PI)) (Fin FL_M_PI) (Fin 0) (Fin (- 1)) (Fin 1)) = None"
proof -
  let ?p = "pcl_init (Fin (1/8)) (Fin (1/64)) (Fin 0) (Fin (- FL_M_PI)) (Fin FL_M_PI) (Fin 0) (Fin (- 1)) (Fin 1)"
  have l: "pcl_minPhase ?p = Fin (- FL_M_PI)" "pcl_maxPhase ?p = Fin FL_M_PI" by (simp_all add: pcl_init_def)
  have i: "pcl_inside ?p (- FL_M_PI) FL_M_PI (1/8)"
    using phase_limits_PLL by (simp add: pcl_inside_def pcl_init_def) (simp add: FL_M_PI_def exI [of _ "1/64"])
  have "advanced_phase (Infty False) ?p = Infty False" by (simp add: advanced_phase_def clampFreq_def pcl_init_def)
  then show ?thesis
    using phase_loop_returns [OF l phase_limits_PLL, of "Infty False"] i
      phase_loop_returns [OF l phase_limits_PLL, THEN conjunct1, rule_format, of "1/8" "[3, - 2, 1]"]
    by (simp add: FL_M_PI_def)
qed

end
