(* ===== verification/DspModem.thy ===== *)
theory DspModem
  imports DspLoops DspFilter "HOL-Library.Word" "HOL-Library.Signed_Division"
begin

text \<open>
  Modulation and demodulation: the loops that are locked to a carrier, the quadrature modulator and demodulator
  (\<open>core/src/dsp/mod/quadrature.h\<close>, \<open>demod/quadrature.h\<close>), the digital blocks (\<open>digital\<close>), the delay
  (\<open>math/delay.h\<close>), the power squelch and the CTCSS squelch (\<open>noise_reduction\<close>).
\<close>

section \<open>Loops in lock\<close>

text \<open>Symbols on a carrier whose phase advances by \<open>w\<close> per sample.\<close>

fun carrier :: "real \<Rightarrow> real \<Rightarrow> complex list \<Rightarrow> complex list" where
  "carrier phase w [] = []"
| "carrier phase w (v # vs) = v * cis phase # carrier (phase + w) w vs"

lemma cis_turns: "cis (phase + of_int k * (2 * pi)) = cis phase"
proof -
  have "cis (of_int k * (2 * pi)) = 1" using cis_multiple_2pi [of "of_int k"] by (simp add: mult.commute)
  then show ?thesis by (simp add: cis_mult [symmetric])
qed

lemma carrier_turns: "carrier (phase + of_int k * (2 * pi)) w vs = carrier phase w vs"
proof (induction vs arbitrary: phase)
  case (Cons v vs)
  have "phase + of_int k * (2 * pi) + w = phase + w + of_int k * (2 * pi)" by simp
  then show ?case using Cons [of "phase + w"] by (simp only: carrier.simps cis_turns)
qed simp

text \<open>If the error is 0, the loop advances by its frequency.\<close>

lemma advance_locked:
  assumes "pcl_minPhase p = - pi" "pcl_maxPhase p = pi" "pcl_minFreq p \<le> pcl_freq p" "pcl_freq p \<le> pcl_maxFreq p"
  shows "\<exists>p' k. pcl_advance True exact 0 p = Some p' \<and> pcl_phase p' = pcl_phase p + pcl_freq p + of_int k * (2 * pi) \<and> pcl_freq p' = pcl_freq p \<and>
    pcl_minPhase p' = - pi \<and> pcl_maxPhase p' = pi \<and> pcl_minFreq p' = pcl_minFreq p \<and> pcl_maxFreq p' = pcl_maxFreq p \<and> - pi \<le> pcl_phase p' \<and> pcl_phase p' \<le> pi"
proof -
  let ?p = "p\<lparr>pcl_phase := pcl_phase p + pcl_freq p\<rparr>"
  have "clampFreq exact p = p" using assms(3,4) by (simp add: clampFreq_def)
  then have a: "pcl_advance True exact 0 p = clampPhase exact ?p" by (simp add: pcl_advance_def Let_def)
  have "pcl_minPhase ?p < pcl_maxPhase ?p" using assms(1,2) by simp
  from clampPhase_returns [OF this] show ?thesis unfolding a using assms by auto
qed

lemma locked_loop:
  assumes "pcl_minPhase p = - pi" "pcl_maxPhase p = pi" "pcl_minFreq p \<le> pcl_freq p" "pcl_freq p \<le> pcl_maxFreq p" "- pi \<le> pcl_phase p" "pcl_phase p \<le> pi"
    and "\<And>phase v. v \<in> set vs \<Longrightarrow> - pi \<le> phase \<Longrightarrow> phase \<le> pi \<Longrightarrow> step phase (v * cis phase) = (g phase v, 0)"
    and "\<And>phase v (k :: int). g (phase + of_int k * (2 * pi)) v = g phase v"
  shows "\<exists>p'. loop_process step p (carrier (pcl_phase p) (pcl_freq p) vs) =
    Some (p', map (\<lambda>i. g (pcl_phase p + real i * pcl_freq p) (vs ! i)) [0..<length vs])"
  using assms(1-7)
proof (induction vs arbitrary: p)
  case (Cons v vs)
  obtain p1 and k :: int where 1: "pcl_advance True exact 0 p = Some p1" "pcl_phase p1 = pcl_phase p + pcl_freq p + of_int k * (2 * pi)" "pcl_freq p1 = pcl_freq p"
    "pcl_minPhase p1 = - pi" "pcl_maxPhase p1 = pi" "pcl_minFreq p1 = pcl_minFreq p" "pcl_maxFreq p1 = pcl_maxFreq p" "- pi \<le> pcl_phase p1" "pcl_phase p1 \<le> pi"
    using advance_locked [OF Cons.prems(1-4)] by blast
  have s: "step (pcl_phase p) (v * cis (pcl_phase p)) = (g (pcl_phase p) v, 0)" using Cons.prems(5-7) by simp
  have c: "carrier (pcl_phase p + pcl_freq p) (pcl_freq p) vs = carrier (pcl_phase p1) (pcl_freq p1) vs"
    unfolding 1(2,3) by (rule carrier_turns [symmetric])
  have "pcl_minFreq p1 \<le> pcl_freq p1" "pcl_freq p1 \<le> pcl_maxFreq p1" using Cons.prems(3,4) 1 by simp_all
  from Cons.IH [OF 1(4,5) this 1(8,9)] Cons.prems(7) obtain p2 where
    2: "loop_process step p1 (carrier (pcl_phase p1) (pcl_freq p1) vs) = Some (p2, map (\<lambda>i. g (pcl_phase p1 + real i * pcl_freq p1) (vs ! i)) [0..<length vs])"
    by auto
  have "g (pcl_phase p1 + real i * pcl_freq p1) x = g (pcl_phase p + real (Suc i) * pcl_freq p) x" for i x
  proof -
    have "pcl_phase p1 + real i * pcl_freq p1 = (pcl_phase p + real (Suc i) * pcl_freq p) + of_int k * (2 * pi)" unfolding 1(2,3) by (simp add: algebra_simps)
    then show ?thesis by (simp only: assms(8))
  qed
  then have "map (\<lambda>i. g (pcl_phase p + real i * pcl_freq p) ((v # vs) ! i)) [0..<length (v # vs)] =
      g (pcl_phase p) v # map (\<lambda>i. g (pcl_phase p1 + real i * pcl_freq p1) (vs ! i)) [0..<length vs]"
    by (simp add: upt_conv_Cons map_Suc_upt [symmetric] del: upt_Suc map_Suc_upt)
  then show ?case using s c 1(1) 2 by (auto simp del: upt_Suc)
qed simp

text \<open>The constellations: BPSK on an axis, QPSK on the diagonals, 8PSK between them.\<close>

definition constellation :: "nat \<Rightarrow> complex \<Rightarrow> bool" where
  "constellation ORDER v \<longleftrightarrow>
     (if ORDER = 2 then Re v = 0 \<or> Im v = 0
      else if ORDER = 4 then \<bar>Re v\<bar> = \<bar>Im v\<bar>
      else \<bar>Im v\<bar> = (sqrt 2 - 1) * \<bar>Re v\<bar> \<or> \<bar>Re v\<bar> = (sqrt 2 - 1) * \<bar>Im v\<bar>)"

lemma math_step_abs: "x \<noteq> 0 \<Longrightarrow> math_step x * \<bar>x\<bar> = x" "math_step x * math_step x = 1" "x = math_step x * \<bar>x\<bar> \<or> x = 0"
  by (auto simp: math_step_def)

lemma step_cross: "\<bar>b\<bar> = c * \<bar>a\<bar> \<Longrightarrow> math_step a * b - math_step b * a * c = 0"
  by (auto simp: math_step_def abs_if algebra_simps split: if_splits)

lemma constellation_no_error: "constellation ORDER v \<Longrightarrow> errorFunction ORDER v = 0"
proof (cases "ORDER = 2 \<or> ORDER = 4")
  case True
  then show "constellation ORDER v \<Longrightarrow> ?thesis"
    using step_cross [of "Im v" 1 "Re v"] by (auto simp: constellation_def errorFunction_def Let_def)
next
  case False
  let ?K = "sqrt 2 - 1"
  have K: "0 < ?K" "?K < 1" using real_sqrt_less_mono [of 2 4] real_sqrt_less_mono [of 1 2] by simp_all
  assume "constellation ORDER v"
  then consider "\<bar>Im v\<bar> = ?K * \<bar>Re v\<bar>" | "\<bar>Re v\<bar> = ?K * \<bar>Im v\<bar>" using False by (auto simp: constellation_def)
  then show ?thesis
  proof cases
    case 1
    have "?K * \<bar>Re v\<bar> \<le> \<bar>Re v\<bar>" using mult_right_mono [of ?K 1 "\<bar>Re v\<bar>"] K by simp
    then have "\<bar>Re v\<bar> \<ge> \<bar>Im v\<bar>" using 1 by simp
    then show ?thesis using step_cross [OF 1] False by (simp add: errorFunction_def Let_def)
  next
    case 2
    have "math_step (Re v) * Im v * ?K - math_step (Im v) * Re v = 0" using step_cross [OF 2] by (simp add: algebra_simps)
    moreover have "\<bar>Re v\<bar> \<ge> \<bar>Im v\<bar> \<Longrightarrow> Re v = 0 \<and> Im v = 0"
    proof -
      assume "\<bar>Re v\<bar> \<ge> \<bar>Im v\<bar>"
      then have "(1 - ?K) * \<bar>Im v\<bar> \<le> 0" using 2 by (simp add: algebra_simps)
      then have "\<bar>Im v\<bar> \<le> 0" using K by (simp add: mult_le_0_iff)
      then show ?thesis using 2 by simp
    qed
    ultimately show ?thesis using False by (auto simp: errorFunction_def Let_def)
  qed
qed

text \<open>
  C19: A Costas loop that is in lock stays in lock and gives back the symbols. If the input is a carrier at the
  loop's phase and frequency with symbols from the constellation of its order, the output is the symbols, as many
  as there are, while the carrier turns any number of times.
\<close>

theorem costas_keeps_lock:
  assumes "pcl_minPhase p = - pi" "pcl_maxPhase p = pi" "- pi \<le> pcl_phase p" "pcl_phase p \<le> pi"
    and "pcl_minFreq p \<le> pcl_freq p" "pcl_freq p \<le> pcl_maxFreq p" "list_all (constellation ORDER) vs"
  shows "\<exists>p'. loop_process (costas_step ORDER) p (carrier (pcl_phase p) (pcl_freq p) vs) = Some (p', vs)"
proof -
  have "costas_step ORDER phase (v * cis phase) = (v, 0)" if "v \<in> set vs" for phase v
  proof -
    have "v * cis phase * cis (- phase) = v" by (simp add: mult.assoc cis_mult)
    moreover have "errorFunction ORDER v = 0" using assms(7) that by (simp add: constellation_no_error list_all_iff)
    ultimately show ?thesis by (simp only: costas_step_def Let_def)
  qed
  then obtain p' where "loop_process (costas_step ORDER) p (carrier (pcl_phase p) (pcl_freq p) vs) =
      Some (p', map (\<lambda>i. vs ! i) [0..<length vs])"
    using locked_loop [OF assms(1,2,5,6,3,4), of vs "costas_step ORDER" "\<lambda>_ v. v"] by auto
  then show ?thesis by (simp add: map_nth)
qed

theorem costas_keeps_lock_witness:
  "\<exists>p'. loop_process (costas_step 4) (pll_init (1/100) (1/2) (1/10) (- 1) 1) (carrier (1/2) (1/10) [Complex 1 1, Complex (- 1) 1, Complex 1 (- 1)]) =
    Some (p', [Complex 1 1, Complex (- 1) 1, Complex 1 (- 1)])"
proof -
  have "1/2 \<le> pi" using pi_ge_two by simp
  then show ?thesis using costas_keeps_lock [of "pll_init (1/100) (1/2) (1/10) (- 1) 1" 4 "[Complex 1 1, Complex (- 1) 1, Complex 1 (- 1)]"] pi_gt_zero
    by (simp add: pll_init_def pcl_init_def criticallyDamped_def Let_def constellation_def del: loop_process.simps carrier.simps)
qed

section \<open>Quadrature modulator and demodulator\<close>

text \<open>The state of both is the deviation, or its inverse, and the phase.\<close>

definition mod_step :: "real \<times> real \<Rightarrow> real \<Rightarrow> (real \<times> real) \<times> complex" where
  "mod_step s x = (let phase = normalizePhase (snd s + fst s * x) in ((fst s, phase), cis phase))"

definition mod_process :: "real \<times> real \<Rightarrow> real list \<Rightarrow> (real \<times> real) \<times> complex list" where
  "mod_process = scan mod_step"

definition demod_step :: "real \<times> real \<Rightarrow> complex \<Rightarrow> (real \<times> real) \<times> real" where
  "demod_step s x = (let cphase = Arg x in ((fst s, cphase), normalizePhase (cphase - snd s) * fst s))"

definition demod_process :: "real \<times> real \<Rightarrow> complex list \<Rightarrow> (real \<times> real) \<times> real list" where
  "demod_process = scan demod_step"

interpretation quadrature: processor_pair mod_process "\<lambda>_. True" demod_process "\<lambda>_. True"
  unfolding mod_process_def demod_process_def by (intro processor_pair.intro scan.stream_processor_axioms)

lemma normalizePhase_range: "- (2 * pi) < x \<Longrightarrow> x \<le> 2 * pi \<Longrightarrow> - pi < normalizePhase x \<and> normalizePhase x \<le> pi"
  by (auto simp: normalizePhase_def)

lemma normalizePhase_difference:
  assumes "- pi < a" "a \<le> pi" "\<bar>d\<bar> < pi"
  shows "normalizePhase (normalizePhase (a + d) - a) = d"
  using assms by (auto simp: normalizePhase_def)

lemma quadrature_scan:
  assumes "dev \<noteq> 0" "- pi < phase" "phase \<le> pi"
  shows "list_all (\<lambda>x. \<bar>dev * x\<bar> < pi) xs \<Longrightarrow> snd (demod_process (1 / dev, phase) (snd (mod_process (dev, phase) xs))) = xs"
  using assms(2,3)
proof (induction xs arbitrary: phase)
  case (Cons x xs)
  let ?p = "normalizePhase (phase + dev * x)"
  have d: "\<bar>dev * x\<bar> < pi" using Cons.prems(1) by simp
  then have "- (2 * pi) < phase + dev * x" "phase + dev * x \<le> 2 * pi" using Cons.prems(2,3) by auto
  then have p: "- pi < ?p" "?p \<le> pi" using normalizePhase_range by auto
  have a: "Arg (cis ?p) = ?p" by (rule cis_Arg_unique) (use p in simp_all)
  have "normalizePhase (?p - phase) * (1 / dev) = x" using normalizePhase_difference [OF Cons.prems(2,3) d] assms(1) by simp
  then show ?case using Cons.IH [OF _ p] Cons.prems(1) a
    by (simp add: mod_process_def demod_process_def scan_out_Cons mod_step_def demod_step_def Let_def del: scan.simps(2))
qed (simp add: mod_process_def demod_process_def)

text \<open>
  C20: The quadrature demodulator inverts the modulator. The two in a row, fed any blocks of samples whose phase
  steps are less than half a turn, give back the samples, from the first one on and with no drift however often
  the phase wraps.
\<close>

theorem quadrature_roundtrip:
  assumes "dev \<noteq> 0" "list_all (\<lambda>x. \<bar>dev * x\<bar> < pi) (concat bs)"
  shows "snd (run_blocks (pipe mod_process demod_process) ((dev, 0), (1 / dev, 0)) bs) = concat bs"
proof -
  have "snd (pipe mod_process demod_process ((dev, 0), (1 / dev, 0)) (concat bs)) = concat bs"
    using quadrature_scan [OF assms(1) _ _ assms(2), of 0] by (simp add: pipe_def split: prod.splits) (metis snd_conv)
  then show ?thesis using quadrature.both.run_blocks_concat [of "((dev, 0), (1 / dev, 0))" bs] by simp
qed

theorem quadrature_roundtrip_witness:
  "snd (run_blocks (pipe mod_process demod_process) ((hzToRads 5000 48000, 0), (1 / hzToRads 5000 48000, 0)) [[1, - 1], [1/2, 1, 1, 1, 1]]) =
    [1, - 1, 1/2, 1, 1, 1, 1]"
  using quadrature_roundtrip [of "hzToRads 5000 48000" "[[1, - 1], [1/2, 1, 1, 1, 1]]"] by (simp add: hzToRads_def)

section \<open>Digital blocks, delay\<close>

definition slicer_process :: "real list \<Rightarrow> 8 word list" where
  "slicer_process = map (\<lambda>x. of_bool (x > 0))"

text \<open>\<open>in[i] - last + _modulus\<close> and the remainder are computed as \<open>int\<close>, the result is stored as \<open>uint8_t\<close>. State: the modulus and the last symbol.\<close>

definition diff_step :: "8 word \<times> 8 word \<Rightarrow> 8 word \<Rightarrow> (8 word \<times> 8 word) \<times> 8 word" where
  "diff_step s x = ((fst s, x), word_of_int ((uint x - uint (snd s) + uint (fst s)) smod uint (fst s)))"

definition diff_process :: "8 word \<times> 8 word \<Rightarrow> 8 word list \<Rightarrow> (8 word \<times> 8 word) \<times> 8 word list" where
  "diff_process = scan diff_step"

text \<open>The transmitter's side: each symbol is added to the one sent before, modulo the number of symbols.\<close>

fun diff_encode :: "8 word \<Rightarrow> 8 word \<Rightarrow> 8 word list \<Rightarrow> 8 word list" where
  "diff_encode m prev [] = []"
| "diff_encode m prev (s # ss) = (let x = word_of_int ((uint prev + uint s) mod uint m) in x # diff_encode m x ss)"

lemma uint_byte: "0 \<le> x \<Longrightarrow> x < 256 \<Longrightarrow> uint (word_of_int x :: 8 word) = x"
  by (simp add: uint_word_of_int_eq take_bit_int_eq_self)

lemma smod_nonneg: "0 \<le> a \<Longrightarrow> 0 < m \<Longrightarrow> a smod m = a mod m" for a m :: int
  by (cases "a = 0") (simp_all add: signed_modulo_int_def)

lemma diff_step_inverse:
  assumes "uint prev < uint m" "uint s < uint m"
  shows "snd (diff_step (m, prev) (word_of_int ((uint prev + uint s) mod uint m))) = s"
proof -
  have m: "0 < uint m" "uint m < 256" using le_less_trans [OF uint_ge_0 assms(1)] uint_bounded [of m] by simp_all
  define x where "x = (uint prev + uint s) mod uint m"
  have x: "0 \<le> x" "x < uint m" using m by (simp_all add: x_def)
  then have ux: "uint (word_of_int x :: 8 word) = x" using m by (intro uint_byte) simp_all
  have pos: "0 \<le> x - uint prev + uint m" using x assms(1) by simp
  have "(x - uint prev + uint m) smod uint m = (x - uint prev + uint m) mod uint m"
    by (rule smod_nonneg [OF pos m(1)])
  also have "\<dots> = uint s"
  proof -
    have "(x - uint prev + uint m) mod uint m = (uint prev + uint s - uint prev) mod uint m" unfolding x_def by (simp add: mod_simps)
    then show ?thesis using assms(2) by simp
  qed
  finally show ?thesis unfolding x_def [symmetric] by (simp add: diff_step_def ux)
qed

text \<open>The differential decoder inverts the encoding.\<close>

lemma diff_roundtrip: "uint prev < uint m \<Longrightarrow> list_all (\<lambda>s. uint s < uint m) ss \<Longrightarrow> snd (diff_process (m, prev) (diff_encode m prev ss)) = ss"
proof (induction ss arbitrary: prev)
  case (Cons s ss)
  let ?x = "word_of_int ((uint prev + uint s) mod uint m) :: 8 word"
  have m: "0 < uint m" "uint m < 256" using le_less_trans [OF uint_ge_0 Cons.prems(1)] uint_bounded [of m] by simp_all
  then have r: "0 \<le> (uint prev + uint s) mod uint m" "(uint prev + uint s) mod uint m < uint m" by simp_all
  then have "uint ?x = (uint prev + uint s) mod uint m" by (intro uint_byte) (use less_trans [OF r(2) m(2)] in simp_all)
  then have x: "uint ?x < uint m" using r by simp
  have "snd (diff_step (m, prev) ?x) = s" by (rule diff_step_inverse) (use Cons.prems in simp_all)
  moreover have "fst (diff_step (m, prev) ?x) = (m, ?x)" by (simp add: diff_step_def)
  moreover have "snd (diff_process (m, ?x) (diff_encode m ?x ss)) = ss" using Cons.IH [OF x] Cons.prems(2) by simp
  ultimately show ?case by (simp add: diff_process_def scan_out_Cons Let_def del: scan.simps(2))
qed (simp add: diff_process_def)

text \<open>The Manchester decoder keeps every second symbol; the state is the position in the next block.\<close>

definition manchester_emit :: "8 word list \<Rightarrow> unit \<Rightarrow> 8 word \<times> nat \<times> unit" where
  "manchester_emit w c = (hd w, 2, c)"

definition manchester_process :: "8 word list \<times> nat \<times> unit \<Rightarrow> 8 word list \<Rightarrow> ((8 word list \<times> nat \<times> unit) \<times> 8 word list) option" where
  "manchester_process = window_process (\<lambda>_. 1) manchester_emit"

interpretation manchester: window_block "\<lambda>_. 1" manchester_emit "\<lambda>_. True" "\<lambda>_. 0"
  by unfold_locales (simp_all add: manchester_emit_def)

text \<open>The delay: the state is the samples kept.\<close>

definition delay_init :: "nat \<Rightarrow> 'd::zero list" where
  "delay_init d = replicate d 0"

definition delay_process :: "'d list \<Rightarrow> 'd list \<Rightarrow> 'd list \<times> 'd list" where
  "delay_process buffer xs = (let b = buffer @ xs in (drop (length xs) b, take (length xs) b))"

interpretation delay: stream_processor delay_process "\<lambda>_. True"
proof
  fix s xs ys :: "'d list"
  have "delay_process s (xs @ ys) = (drop (length (xs @ ys)) (s @ xs @ ys), take (length (xs @ ys)) (s @ xs @ ys))"
    by (simp only: delay_process_def Let_def)
  also have "take (length (xs @ ys)) (s @ xs @ ys) = take (length xs) (s @ xs) @ take (length ys) (drop (length xs) (s @ xs) @ ys)"
  proof -
    have "take (length xs) (s @ xs @ ys) = take (length xs) (s @ xs)" by (subst append_assoc [symmetric], subst take_append) simp
    moreover have "drop (length xs) (s @ xs @ ys) = drop (length xs) (s @ xs) @ ys" by (subst append_assoc [symmetric], subst drop_append) simp
    ultimately show ?thesis by (simp only: length_append take_add)
  qed
  finally show "delay_process s (xs @ ys) = (let (s1, out1) = delay_process s xs; (s2, out2) = delay_process s1 ys in (s2, out1 @ out2))"
    unfolding drop_work_buffer by (simp add: delay_process_def Let_def del: take_append drop_append)
qed (simp_all add: delay_process_def)

lemma delay_delays: "snd (delay_process (delay_init d) xs) = take (length xs) (replicate d 0 @ xs)"
  by (simp add: delay_process_def delay_init_def Let_def)

end
