(* ===== verification/DspSquelch.thy ===== *)
theory DspSquelch
  imports DspModem
begin

text \<open>
  The squelches (\<open>core/src/dsp/noise_reduction/power_squelch.h\<close>, \<open>ctcss_squelch.h\<close>). The sums of VOLK are sums; in
  the CTCSS squelch the output of the down converter and demodulator is an argument.
\<close>

section \<open>Power squelch\<close>

record PowerSquelch =
  sq_level :: real
  sq_holdSamples :: nat
  sq_aboveCount :: nat
  sq_muted :: bool

text \<open>The sample rate is 48000 until it is set.\<close>

definition sq_init :: "real \<Rightarrow> PowerSquelch" where
  "sq_init level = \<lparr>sq_level = level, sq_holdSamples = nat \<lfloor>48000 * (1 / 10 :: real)\<rfloor>, sq_aboveCount = 0, sq_muted = False\<rparr>"

definition sq_setSamplerate :: "real \<Rightarrow> PowerSquelch \<Rightarrow> PowerSquelch" where
  "sq_setSamplerate samplerate q = q\<lparr>sq_holdSamples := nat \<lfloor>samplerate * (1 / 10)\<rfloor>\<rparr>"

text \<open>The level of a block in decibels is at least a limit. The logarithm of a silent block is minus infinity.\<close>

definition level_reaches :: "complex list \<Rightarrow> real \<Rightarrow> bool" where
  "level_reaches xs limit \<longleftrightarrow> (let mean = sum_list (map norm xs) / real (length xs) in mean > 0 \<and> 20 * log 10 mean \<ge> limit)"

definition sq_process :: "PowerSquelch \<Rightarrow> complex list \<Rightarrow> PowerSquelch \<times> complex list" where
  "sq_process q xs =
     (let q1 =
        (if sq_muted q then
           if level_reaches xs (sq_level q) then
             let above = sq_aboveCount q + length xs
             in q\<lparr>sq_aboveCount := above, sq_muted := (if above \<ge> sq_holdSamples q then False else sq_muted q)\<rparr>
           else q\<lparr>sq_aboveCount := 0\<rparr>
         else if \<not> level_reaches xs (sq_level q - 1) then q\<lparr>sq_muted := True, sq_aboveCount := 0\<rparr>
         else q)
      in (q1, if \<not> sq_muted q1 then xs else replicate (length xs) 0))"

text \<open>The samples of the blocks at the end of the input that all reach the level.\<close>

fun samples_above :: "real \<Rightarrow> nat \<Rightarrow> complex list list \<Rightarrow> nat" where
  "samples_above level n [] = n"
| "samples_above level n (xs # bs) = samples_above level (if level_reaches xs level then n + length xs else 0) bs"

lemma sq_muted_step:
  assumes "sq_muted q" "(if level_reaches xs (sq_level q) then sq_aboveCount q + length xs else 0) < sq_holdSamples q"
  shows "sq_process q xs = (q\<lparr>sq_aboveCount := (if level_reaches xs (sq_level q) then sq_aboveCount q + length xs else 0)\<rparr>, replicate (length xs) 0)"
  using assms by (auto simp: sq_process_def Let_def)

lemma sq_muted_blocks:
  assumes "sq_muted q" "\<forall>n \<le> length bs. samples_above (sq_level q) (sq_aboveCount q) (take n bs) < sq_holdSamples q"
  shows "snd (run_blocks sq_process q bs) = concat (map (\<lambda>xs. replicate (length xs) 0) bs)"
  using assms
proof (induction bs arbitrary: q)
  case (Cons xs bs)
  let ?n = "if level_reaches xs (sq_level q) then sq_aboveCount q + length xs else 0"
  let ?q = "q\<lparr>sq_aboveCount := ?n\<rparr>"
  have "\<forall>n \<le> length bs. samples_above (sq_level q) ?n (take n bs) < sq_holdSamples q"
  proof (intro allI impI)
    fix n assume "n \<le> length bs"
    then show "samples_above (sq_level q) ?n (take n bs) < sq_holdSamples q" using Cons.prems(2) [THEN spec, of "Suc n"] by simp
  qed
  then have "snd (run_blocks sq_process ?q bs) = concat (map (\<lambda>xs. replicate (length xs) 0) bs)" using Cons.IH [of ?q] Cons.prems(1) by simp
  moreover have "?n < sq_holdSamples q" using Cons.prems(2) [THEN spec, of 1] by simp
  ultimately show ?case using sq_muted_step [OF Cons.prems(1), of xs] by (simp add: run_blocks_out_Cons del: run_blocks.simps)
qed simp

text \<open>
  Once it has muted, the power squelch puts out silence until the signal has stayed above the level for the
  hold time: a block below the level minus the hysteresis, and then any blocks of which the last ones that reach
  the level have never been the hold time long, give zeros for all their samples.
\<close>

theorem squelch_holds:
  assumes "\<not> sq_muted q" "\<not> level_reaches xs (sq_level q - 1)"
    and "\<forall>n \<le> length bs. samples_above (sq_level q) 0 (take n bs) < sq_holdSamples q"
  shows "snd (run_blocks sq_process q (xs # bs)) = concat (map (\<lambda>b. replicate (length b) 0) (xs # bs))"
proof -
  let ?q = "q\<lparr>sq_muted := True, sq_aboveCount := 0\<rparr>"
  have "sq_process q xs = (?q, replicate (length xs) 0)" using assms(1,2) by (simp add: sq_process_def)
  moreover have "snd (run_blocks sq_process ?q bs) = concat (map (\<lambda>b. replicate (length b) 0) bs)"
    by (rule sq_muted_blocks) (use assms(3) in simp_all)
  ultimately show ?thesis by (simp add: run_blocks_out_Cons del: run_blocks.simps)
qed

theorem squelch_holds_witness:
  "snd (run_blocks sq_process (sq_setSamplerate 30 (sq_init 0)) [[0, 0], [100, 100], [0]]) = [0, 0, 0, 0, 0]"
proof -
  have "log 10 100 = (2 :: real)" using log_nat_power [of 10 10 2] by simp
  then have l: "level_reaches [100, 100] 0" "\<not> level_reaches [0] 0" "\<not> level_reaches [0, 0] (- 1)" by (simp_all add: level_reaches_def)
  have "\<forall>n \<le> 2. samples_above 0 0 (take n [[100, 100], [0]]) < 3"
    by (auto simp: l numeral_2_eq_2 le_Suc_eq)
  then show ?thesis using squelch_holds [of "sq_setSamplerate 30 (sq_init 0)" "[0, 0]" "[[100, 100], [0]]"] l by (simp add: sq_init_def sq_setSamplerate_def numeral_2_eq_2)
qed

section \<open>CTCSS squelch\<close>

definition CTCSS_TONES :: "real list" where
  "CTCSS_TONES =
     [67, 69.3, 71.9, 74.4, 77, 79.7, 82.5, 85.4, 88.5, 91.5, 94.8, 97.4, 100, 103.5, 107.2, 110.9, 114.8, 118.8, 123, 127.3,
      131.8, 136.5, 141.3, 146.2, 150, 151.4, 156.7, 159.8, 162.2, 165.5, 167.9, 171.3, 173.8, 177.3, 179.9, 183.5, 186.2, 189.9,
      192.8, 196.6, 199.5, 203.5, 206.5, 210.7, 218.1, 225.7, 229.1, 233.6, 241.8, 250.3, 254.1]"

definition CTCSS_TONE_ANY :: int where "CTCSS_TONE_ANY = - 2"
definition CTCSS_TONE_NONE :: int where "CTCSS_TONE_NONE = - 1"
definition CTCSS_DECODE_OFFSET :: real where "CTCSS_DECODE_OFFSET = 160.55"

function ctcss_search :: "real \<Rightarrow> nat \<Rightarrow> nat \<Rightarrow> nat \<times> nat" where
  "ctcss_search freq a b =
     (if b - a > 1 then let c = (a + b) div 2 in if CTCSS_TONES ! c < freq then ctcss_search freq c b else ctcss_search freq a c
      else (a, b))"
  by pat_completeness auto

termination by (relation "measure (\<lambda>(_, a, b). b - a)") (auto simp: Let_def)

declare ctcss_search.simps [simp del]

definition ctcss_match :: "real \<Rightarrow> int" where
  "ctcss_match freq =
     (let final = length CTCSS_TONES - 1
      in if freq < CTCSS_TONES ! 0 - 2.5 then CTCSS_TONE_NONE
         else if freq > CTCSS_TONES ! final + 2.5 then CTCSS_TONE_NONE
         else if freq < CTCSS_TONES ! 0 then 0
         else if freq > CTCSS_TONES ! final then int final
         else let (a, b) = ctcss_search freq 0 final
              in int (if freq - CTCSS_TONES ! a < CTCSS_TONES ! b - freq then a else b))"

record CTCSSSquelch =
  ct_mean :: real
  ct_var :: real
  ct_varOk :: bool
  ct_minFreq :: real
  ct_maxFreq :: real
  ct_mute :: bool
  ct_currentTone :: int

definition ct_init :: CTCSSSquelch where
  "ct_init = \<lparr>ct_mean = 0, ct_var = 0, ct_varOk = False, ct_minFreq = 0, ct_maxFreq = 0, ct_mute = True, ct_currentTone = CTCSS_TONE_NONE\<rparr>"

text \<open>Rematching: the new tone, whether it lets the audio through, and the range in which it is kept.\<close>

definition ct_rematch :: "int \<Rightarrow> CTCSSSquelch \<Rightarrow> CTCSSSquelch" where
  "ct_rematch rtone s =
     (let tone = ctcss_match (ct_mean s + CTCSS_DECODE_OFFSET);
          s1 = s\<lparr>ct_currentTone := tone, ct_mute := \<not> (tone = rtone \<or> tone \<noteq> CTCSS_TONE_NONE \<and> rtone = CTCSS_TONE_ANY)\<rparr>
      in if tone \<noteq> CTCSS_TONE_NONE then
           let k = nat tone; c = CTCSS_TONES ! k;
               l = (if k > 0 then CTCSS_TONES ! (k - 1) else c - 2.5);
               r = (if k < length CTCSS_TONES - 1 then CTCSS_TONES ! (k + 1) else c + 2.5)
           in s1\<lparr>ct_minFreq := (l + c) / 2, ct_maxFreq := (r + c) / 2\<rparr>
         else s1)"

definition ct_sample :: "int \<Rightarrow> real \<Rightarrow> CTCSSSquelch \<Rightarrow> CTCSSSquelch" where
  "ct_sample rtone val s =
     (let mean = 0.95 * ct_mean s + 0.05 * val;
          err = val - mean;
          var = 0.95 * ct_var s + 0.05 * err * err;
          s0 = s\<lparr>ct_mean := mean, ct_var := var\<rparr>;
          nvarOk = (if ct_varOk s then var < 1100 else var < 1000);
          s1 = (if nvarOk \<and> (\<not> ct_varOk s \<or> mean < ct_minFreq s \<or> mean > ct_maxFreq s) then ct_rematch rtone s0 else s0);
          s2 = (if \<not> nvarOk \<and> ct_varOk s then s1\<lparr>ct_mute := True, ct_currentTone := CTCSS_TONE_NONE\<rparr> else s1)
      in s2\<lparr>ct_varOk := nvarOk\<rparr>)"

definition ct_process :: "int \<Rightarrow> real list \<Rightarrow> 'd::zero list \<Rightarrow> CTCSSSquelch \<Rightarrow> CTCSSSquelch \<times> 'd list" where
  "ct_process rtone vals xs s =
     (let s1 = fold (ct_sample rtone) vals s
      in (s1, if rtone \<noteq> CTCSS_TONE_NONE \<and> ct_mute s1 then replicate (length xs) 0 else xs))"

lemma tones_sorted: "sorted_wrt (<) CTCSS_TONES"
  by (simp add: CTCSS_TONES_def)

lemma tones_length: "length CTCSS_TONES = 51"
  by (simp add: CTCSS_TONES_def)

lemma tones_mono: "i \<le> j \<Longrightarrow> j < 51 \<Longrightarrow> CTCSS_TONES ! i \<le> CTCSS_TONES ! j"
  using sorted_wrt_nth_less [OF tones_sorted, of i j] by (cases "i = j") (auto simp: tones_length)

lemma ctcss_search_brackets:
  "a < b \<Longrightarrow> b < 51 \<Longrightarrow> CTCSS_TONES ! a \<le> freq \<Longrightarrow> freq \<le> CTCSS_TONES ! b \<Longrightarrow> ctcss_search freq a b = (a', b') \<Longrightarrow>
    b' = Suc a' \<and> b' < 51 \<and> CTCSS_TONES ! a' \<le> freq \<and> freq \<le> CTCSS_TONES ! b'"
proof (induction freq a b rule: ctcss_search.induct)
  case (1 freq a b)
  show ?case
  proof (cases "b - a > 1")
    case True
    then have "a < (a + b) div 2" "(a + b) div 2 < b" by auto
    then show ?thesis using 1 True by (auto simp: ctcss_search.simps [of freq a b] Let_def split: if_splits)
  next
    case False
    then show ?thesis using 1 by (auto simp: ctcss_search.simps [of freq a b])
  qed
qed

lemma nearest_of_bracket:
  assumes "b = Suc a" "b < 51" "CTCSS_TONES ! a \<le> freq" "freq \<le> CTCSS_TONES ! b" "k < 51"
  shows "\<bar>freq - CTCSS_TONES ! (if freq - CTCSS_TONES ! a < CTCSS_TONES ! b - freq then a else b)\<bar> \<le> \<bar>freq - CTCSS_TONES ! k\<bar>"
proof (cases "k \<le> a")
  case True
  then have "CTCSS_TONES ! k \<le> CTCSS_TONES ! a" using assms by (intro tones_mono) simp_all
  then show ?thesis using assms by auto
next
  case False
  then have "CTCSS_TONES ! b \<le> CTCSS_TONES ! k" using assms by (intro tones_mono) simp_all
  then show ?thesis using assms by auto
qed

text \<open>
  The tone matched is the nearest one of the table. It is none exactly if the frequency is more than 2.5 Hz
  below the lowest or above the highest tone.
\<close>

theorem ctcss_nearest_tone:
  "(ctcss_match freq = CTCSS_TONE_NONE \<longleftrightarrow> freq < CTCSS_TONES ! 0 - 2.5 \<or> freq > CTCSS_TONES ! 50 + 2.5) \<and>
   (ctcss_match freq = CTCSS_TONE_NONE \<or>
    0 \<le> ctcss_match freq \<and> ctcss_match freq < 51 \<and> (\<forall>k. \<bar>freq - CTCSS_TONES ! nat (ctcss_match freq)\<bar> \<le> \<bar>freq - CTCSS_TONES ! (k mod 51)\<bar>))"
proof -
  let ?t = CTCSS_TONES
  have ends: "?t ! 0 \<le> ?t ! (k mod 51)" "?t ! (k mod 51) \<le> ?t ! 50" for k by (rule tones_mono; simp)+
  consider "freq < ?t ! 0 - 2.5 \<or> freq > ?t ! 50 + 2.5" | "\<not> (freq < ?t ! 0 - 2.5 \<or> freq > ?t ! 50 + 2.5)" "freq < ?t ! 0" |
    "\<not> (freq < ?t ! 0 - 2.5 \<or> freq > ?t ! 50 + 2.5)" "freq > ?t ! 50" | "?t ! 0 \<le> freq" "freq \<le> ?t ! 50" by linarith
  then show ?thesis
  proof cases
    case 1
    then show ?thesis by (auto simp: ctcss_match_def tones_length Let_def)
  next
    case 2
    then have "ctcss_match freq = 0" using ends(2) [of 0] by (auto simp: ctcss_match_def tones_length Let_def)
    moreover have "\<bar>freq - ?t ! 0\<bar> \<le> \<bar>freq - ?t ! (k mod 51)\<bar>" for k using 2(2) ends(1) [of k] by simp
    ultimately show ?thesis using 2(1) by (simp add: CTCSS_TONE_NONE_def)
  next
    case 3
    then have "ctcss_match freq = 50" using ends(1) [of 50] by (auto simp: ctcss_match_def tones_length Let_def)
    moreover have "\<bar>freq - ?t ! 50\<bar> \<le> \<bar>freq - ?t ! (k mod 51)\<bar>" for k using 3(2) ends(2) [of k] by simp
    ultimately show ?thesis using 3(1) by (simp add: CTCSS_TONE_NONE_def)
  next
    case 4
    obtain a b where s: "ctcss_search freq 0 50 = (a, b)" by fastforce
    have "(50 :: nat) < 51" by simp
    from ctcss_search_brackets [OF zero_less_numeral this 4 s] have ab: "b = Suc a" "b < 51" "?t ! a \<le> freq" "freq \<le> ?t ! b" by blast+
    let ?m = "if freq - ?t ! a < ?t ! b - freq then a else b"
    have m: "ctcss_match freq = int ?m" using 4 s by (simp add: ctcss_match_def tones_length Let_def)
    have "\<bar>freq - ?t ! ?m\<bar> \<le> \<bar>freq - ?t ! (k mod 51)\<bar>" for k by (rule nearest_of_bracket [OF ab]) simp
    then show ?thesis unfolding m using ab(1,2) 4 by (auto simp: CTCSS_TONE_NONE_def)
  qed
qed

end
