(* ===== verification/Spec2Isabelle.thy ===== *)
theory Spec2Isabelle
  imports BandLookups RadioModes ConfigManager BandStack FreqModeSync RdsGroups RigctlProps Urls Pocsag
    Bookmarks Scanner RyfiAirProps WebSockSession
    DspStream DspBlocks DspPrebuffer DspVfo DspSquelch
begin

text \<open>
  Verification development for SDRIAK, a software-defined radio receiver written in C++.

  The program. A hardware source delivers a band of IQ samples around a centre frequency. The
  waterfall shows a part of that band, a VFO selects a channel in it, the radio module demodulates the
  channel. The tuner moves centre, view and VFO together; everything that tunes goes through it: the
  band stack, the frequency scanner, the Hamlib server, and the QMX synchronization, which keeps the
  program and a transceiver on the same frequency and mode over a serial CAT link. All components keep
  their settings in JSON documents owned by configuration managers. Samples pass from thread to thread
  in double-buffered streams, through blocks that shift, resample, filter and demodulate them. Behind the demodulators stand
  data decoders, of which RDS, POCSAG and the packet link RyFi are modelled. Remote receivers are
  reached over HTTP and web sockets, whose clients the program has itself.

  Theories and sources (paths under src/; functions keep their names):

  \<^item> \<open>Prelude\<close>: machine types, ASCII and \<open>std::string\<close> helpers, rounding, the named collections.
  \<^item> \<open>Floats\<close>: rounding to a binary floating-point format, the conversions between 64-bit integers and \<open>double\<close>,
    and single precision with infinities and NaN.
  \<^item> \<open>BandTypes\<close>, \<open>BandTables\<close>, \<open>BandMapping\<close>, \<open>BandLookups\<close>: core/src/gui/widgets/band_mapping.h and .cpp,
    the vocabulary of bands, all registered bands, the lookups, and what the lookups compute.
  \<^item> \<open>RadioModes\<close>: core/src/radio_interface.h, mode numbers and names.
  \<^item> \<open>Json\<close>, \<open>ConfigStore\<close>, \<open>ConfigMerge\<close>, \<open>ConfigManager\<close>: core/src/config.h and config.cpp. The document
    type, sections and their edits, the three-way merge of concurrent instances, and the lifecycle of a
    manager (load, edit, save, shutdown) as operations on a record of manager and disk, with the
    interleavings of edits, saves and other processes as the step relation \<open>config_step\<close>.
  \<^item> \<open>BandPlan\<close>: core/src/gui/widgets/bandplan.cpp and .h, loading and resolving plans, colours.
  \<^item> \<open>SpectrumRanges\<close>: core/src/gui/widgets/freq_input/spectrum_ranges.cpp.
  \<^item> \<open>RegisterSet\<close>, \<open>BandStack\<close>: core/src/gui/widgets/band_stack.cpp and freq_memory.cpp, the stacking
    registers of a band and the operations of the frequency popup over the configuration.
  \<^item> \<open>Tuner\<close>: core/src/gui/tuner.cpp with the geometry of waterfall.cpp, the tuning state of
    core/src/signal_path/source.cpp and the digits of frequency_select.cpp.
  \<^item> \<open>QmxStatus\<close>, \<open>QmxParser\<close>: source_modules/qmx_source/libqmx, the status cache and the CAT parser.
  \<^item> \<open>FreqModeSync\<close>: source_modules/qmx_source/src/FreqModeSync.cpp over the tuner and the parser's status.
  \<^item> \<open>Rds\<close>, \<open>RdsCode\<close>, \<open>RdsGroups\<close>: decoder_modules/radio/src/rds.cpp; the decoder, the theory of its
    (26, 16) code, and what is received from what is sent.
  \<^item> \<open>CNumbers\<close>: \<open>strtoll\<close>, \<open>std::stoll\<close>, \<open>std::stoi\<close>, \<open>std::atoi\<close> and decimal printing.
  \<^item> \<open>Rigctl\<close>, \<open>RigctlProps\<close>: misc_modules/rigctl_server/src/main.cpp over the tuner and the radio module's
    mode commands.
  \<^item> \<open>Urls\<close>: core/src/utils/url.cpp, ascii.h and base64.h.
  \<^item> \<open>Pocsag\<close>: decoder_modules/pager_decoder/src/pocsag/pocsag.cpp.
  \<^item> \<open>Bookmarks\<close>: misc_modules/frequency_manager/src/bookmark.cpp and schedule.cpp.
  \<^item> \<open>Scanner\<close>: misc_modules/scanner/src/main.cpp, the worker over the tuner.
  \<^item> \<open>Ryfi\<close>, \<open>RyfiProps\<close>: decoder_modules/ryfi_decoder/src/ryfi: packets, frames, transmitter and receiver
    (packet.cpp, frame.cpp, transmitter.cpp, receiver.cpp), and the link of both over lost frames as the
    relation \<open>link_run\<close>.
  \<^item> \<open>RyfiAir\<close>, \<open>RyfiSync\<close>, \<open>RyfiAirProps\<close>: framing.cpp of the same directory, the interleaver and scrambler of
    rs_codec.cpp and the soft bits of conv_codec.cpp; the distances of the sync word to its shifts and turns; the bits
    between the two codes.
  \<^item> \<open>Http\<close>, \<open>HttpProps\<close>: core/src/utils/proto/http.h and http.cpp, with \<open>recvline\<close> of core/src/utils/net.cpp.
  \<^item> \<open>WebSock\<close>, \<open>WebSockProps\<close>, \<open>WebSockHandshake\<close>, \<open>WebSockSession\<close>: core/src/utils/proto/websock.cpp: frames, the
    receive loop, the handshake, and both together.
  \<^item> \<open>DspStream\<close>: core/src/dsp/stream.h; writer, reader and stops, with the condition variables they sleep on and the
    notifications that wake them, as the step relation \<open>link_step\<close>.
  \<^item> \<open>DspBlocks\<close>: core/src/dsp/block.h, the life cycle of a worker, and chain.h, processors that are
    enabled and disabled while the chain runs.
  \<^item> \<open>DspPrebuffer\<close>: core/src/dsp/buffer/prebuffer.h; the worker section by section under its lock (\<open>pre_work\<close>), and the
    steps of all threads (\<open>pre_step\<close>).
  \<^item> \<open>DspProcessor\<close>, \<open>DspWindow\<close>: core/src/dsp/processor.h; the contract of a processor of samples, and the
    loop over a work buffer that the filters and resamplers share.
  \<^item> \<open>DspFilter\<close>, \<open>DspRates\<close>, \<open>DspResampler\<close>, \<open>DspPlans\<close>, \<open>DspVfo\<close>: core/src/dsp/filter, multirate, taps,
    window and channel: FIR, decimating FIR, polyphase resampler, tap tables and plans, rational
    resampler, frequency translation and VFO.
  \<^item> \<open>DspLoops\<close>, \<open>DspModem\<close>, \<open>DspSquelch\<close>: core/src/dsp/loop, correction, mod, demod/quadrature.h, digital,
    math/delay.h and noise_reduction: gain controls, phase loops, modems and squelches.

  Interfaces. \<open>kv_store\<close> (\<open>Json\<close>) is the contract of a key/value object, interpreted on JSON objects;
  \<open>status_cache\<close> (\<open>QmxStatus\<close>) that of a cache of optional values, interpreted on the status record;
  \<open>register_store\<close> (\<open>BandStack\<close>) that of the persistent registers the band stack works on, interpreted
  on the configuration document. \<open>stream_processor\<close> (\<open>DspProcessor\<close>) is the contract of a processor whose
  output depends on the samples and not on the blocks they come in, interpreted on the FIR filter, the
  stages of the power decimator, the rational resampler, the delay and the processors that work sample by
  sample; \<open>window_block\<close> (\<open>DspWindow\<close>) that of a loop over a work buffer, which gives the former, interpreted
  on the decimating FIR, the polyphase resampler and the Manchester decoder; \<open>processor_pair\<close> that of two
  processors in a row, interpreted on modulator and demodulator and on translation and resampler.

  What the lemmas show.

  \<^item> Configuration: a save commits what it wrote, a manager not marked dirty holds the document its file held
    when it last saved or loaded, merged changes of other processes included, under
    every interleaving; edits made during a save survive; the merge keeps both sides' changes;
    shutdown never loses a document; section writes change one key.
  \<^item> Tuning: locked tuning reaches its goal, free tuning does so up to a stated miss, which is zero except for VFOs
    with a lower or upper reference under which the band has to move; selector, source manager and
    hardware stay consistent, on a desktop and on a headless server; scanner rounds return and stay in range.
  \<^item> QMX: the parser depends only on the bytes, not on their chunks; the status cache refines partial
    maps; the synchronization applies news and, without a converter offset, sends no feedback.
  \<^item> Band stack: the operations implement abstract transitions on the stacks of registers.
  \<^item> Hamlib: exact framing, one reply per command, error replies change nothing, round trips of
    frequency (up to \<open>2 ^ 53\<close> Hz) and mode, termination of compound commands.
  \<^item> RDS and POCSAG: burst correction, delivery of station names and pages, bounds of every buffer, and which
    characters of its text a group writes.
  \<^item> RyFi: whatever frames are lost the packets received are whole and in order, without losses all of
    them, and the link recovers with the first frame in which a packet starts; frames are found under
    any rotation and sync errors, with every bit between the codes on the side it was sent, and a burst of wrong
    bytes is spread evenly over the blocks of the outer code.
  \<^item> Network: headers are read back from their text, bodies exactly, whatever the cut of the stream;
    limits hold for servers that announce true sizes; redirects end; a web socket handshake accepts only the digest of its own key, loses no byte to the
    receive loop, and the loop delivers every message, within bounded buffers.
  \<^item> Samples: a stream hands its blocks over whole, in order and once, and loses no wake-up of the threads that
    sleep on it; a chain connects the enabled blocks in order; a worker exists exactly when it was last started, and
    sees no change that a stopping setter makes; the prebuffer, whatever comes between two sections of its worker, is
    a bounded queue. The polyphase resampler computes interpolation, filtering and decimation, the rational resampler
    never drifts from the quotient of its rates, the VFO is translation, resampling and convolution, in
    whatever blocks the samples come. The gain control is bounded; the phase loops, in single precision, return
    within their limits while their errors are bounded, and do not return from an infinite phase; the Costas loop
    keeps its lock, quadrature demodulation inverts modulation.
  \<^item> Files and addresses: round trips of bookmarks, bounds of ports, validity of redirect chains.

  Each theory also records, as lemmas, where the code deviates from its intent or from its comments.

  Representation. Integers with meaningful overflow are words (\<open>u8\<close>, \<open>u16\<close>, \<open>u32\<close>, \<open>u64\<close>); counters that stay
  within range, and integers bounded by their source, are \<open>int\<close> or \<open>nat\<close>; floats and doubles are real
  numbers, so rounding errors are not modelled, and samples real or complex numbers. Two places where rounding
  decides compute with \<open>Floats\<close>: the frequencies of Hamlib between integers and doubles, and the phase control loop, which is
  written over the record \<open>arith\<close> of its operations and used with \<open>float32\<close> for its termination and with \<open>exact\<close> in the modems. Clocks, the acceptance of commands by a device, the outcome of file
  operations and the uninitialised memory of constructors are arguments. Exceptions without a handler,
  and loops that may not end, are values: the flag \<open>crashed\<close> of the Hamlib server, \<open>None\<close> for the search
  loop of the scanner, the loops over a work buffer and the clamping of a phase (\<open>partial_function\<close>), which
  are shown to return when the interval, the decimation and the range of the phase are positive. The dot
  product and the rotator of VOLK are arguments; \<open>dot_ok\<close> and \<open>rotator_ok\<close> state what its documentation says
  of them, and have the instances \<open>sum_of_products\<close> and \<open>rotate_samples\<close>. No
  definition uses fuel; the other loops recurse on data or on bounds known from the code.

  Not modelled: the autosave thread and the file locking of the configuration (their outcomes are
  arguments), drawing and user input, sockets and serial ports, dynamic loading, clock
  recovery, the demodulators composed of the modelled blocks, FFT noise reduction, vendored code (Dear ImGui, nlohmann JSON, stb,
  libcorrect, picohash) and the drivers of sources and sinks over vendor libraries. The codes of libcorrect and the
  functions that only call them are left out, SHA-1 is an argument of the handshake. The number formats of hrfreq.cpp,
  the option lists, RIFF and WAV headers and the serialized widgets of smgui.cpp have no model either.
\<close>

end
